(* ===== verification/Prelude.thy ===== *)
theory Prelude
  imports Main "HOL-Library.Word" "HOL-Library.Multiset"
begin

unbundle bit_operations_syntax

text \<open>
  Shared vocabulary of the development.

  \<^item> \<open>fault\<close> and \<open>'a result\<close>: how a run of the C++ code can stop. \<open>CHECK\<close>,
    \<open>LOG(FATAL)\<close> and a failed \<open>DCHECK\<close> (debug builds) abort the process, \<open>std::map::at\<close>
    throws, and reading past the end of a container is undefined behaviour; each is a
    value \<open>Inl\<close> of the result type, never an unspecified HOL value.
  \<^item> \<open>rbind\<close>, \<open>guard\<close>: sequencing of fallible steps.
  \<^item> ordered maps and sets: \<open>std::map\<close> and \<open>std::set\<close> as sorted association lists and sorted
    lists, because the code observes their iteration order.
  \<^item> signed reading of machine words.
  \<^item> the locale \<open>transition_system\<close>: an initial state, a step function and an
    invariant; reachability and the induction over runs are proved once.
\<close>

named_theorems result_simps \<open>evaluation of fallible steps\<close>
named_theorems inv_intros \<open>preservation of component invariants\<close>

subsection \<open>Results\<close>

datatype fault =
    Check_Failed        \<comment> \<open>CHECK or LOG(FATAL): the process aborts in every build\<close>
  | Dcheck_Failed       \<comment> \<open>DCHECK: the process aborts in debug builds\<close>
  | Out_Of_Range        \<comment> \<open>std::map::at on a missing key throws std::out_of_range\<close>
  | Undefined_Behaviour \<comment> \<open>out of bounds access, null dereference, signed overflow\<close>

type_synonym 'a result = "fault + 'a"

fun rbind :: "'e + 'a \<Rightarrow> ('a \<Rightarrow> 'e + 'b) \<Rightarrow> 'e + 'b" where
  "rbind (Inl e) f = Inl e"
| "rbind (Inr x) f = f x"

definition guard :: "'e \<Rightarrow> bool \<Rightarrow> 'e + unit" where
  "guard e b = (if b then Inr () else Inl e)"

definition of_option :: "'e \<Rightarrow> 'a option \<Rightarrow> 'e + 'a" where
  "of_option e v = (case v of None \<Rightarrow> Inl e | Some x \<Rightarrow> Inr x)"

lemma rbind_Inr_iff [result_simps]: "rbind m f = Inr y \<longleftrightarrow> (\<exists>x. m = Inr x \<and> f x = Inr y)"
  by (cases m) auto

lemma rbind_Inl_iff [result_simps]:
  "rbind m f = Inl e \<longleftrightarrow> m = Inl e \<or> (\<exists>x. m = Inr x \<and> f x = Inl e)"
  by (cases m) auto

lemma guard_Inr_iff [result_simps]: "guard e b = Inr u \<longleftrightarrow> b"
  by (simp add: guard_def)

lemma guard_Inl_iff [result_simps]: "guard e b = Inl e' \<longleftrightarrow> \<not> b \<and> e' = e"
  by (auto simp: guard_def)

lemma guard_True [simp]: "guard e True = Inr ()"
  by (simp add: guard_def)

lemma guard_False [simp]: "guard e False = Inl e"
  by (simp add: guard_def)

lemma of_option_Some [simp]: "of_option e (Some x) = Inr x"
  by (simp add: of_option_def)

lemma of_option_None [simp]: "of_option e None = Inl e"
  by (simp add: of_option_def)

lemma of_option_Inr_iff [result_simps]: "of_option e v = Inr x \<longleftrightarrow> v = Some x"
  by (simp add: of_option_def split: option.splits)

lemma of_option_Inl_iff [result_simps]: "of_option e v = Inl e' \<longleftrightarrow> v = None \<and> e' = e"
  by (auto simp add: of_option_def split: option.splits)

lemma rbind_assoc: "rbind (rbind m f) g = rbind m (\<lambda>x. rbind (f x) g)"
  by (cases m) auto

subsection \<open>Ordered sets and maps\<close>

text \<open>
  A \<open>std::set\<close> is a strictly sorted list (insertion is \<^const>\<open>insort_insert\<close>, erasure
  \<^const>\<open>remove1\<close>); a \<open>std::map\<close> is an association list with strictly sorted keys.
\<close>

abbreviation sset :: "'a::linorder list \<Rightarrow> bool" where
  "sset xs \<equiv> sorted xs \<and> distinct xs"

lemma sset_insort_insert [intro]: "sset xs \<Longrightarrow> sset (insort_insert x xs)"
  by (simp add: distinct_insort_insert sorted_insort_insert)

lemma sset_remove1 [intro]: "sset xs \<Longrightarrow> sset (remove1 x xs)"
  by (simp add: sorted_remove1)

lemma set_remove1_sset: "sset xs \<Longrightarrow> set (remove1 x xs) = set xs - {x}"
  by simp

lemma remove1_insort_insert: "sset xs \<Longrightarrow> x \<notin> set xs \<Longrightarrow> remove1 x (insort_insert x xs) = xs"
  by (simp add: insort_insert_insort remove1_insort_key)

fun smap_put :: "'k::linorder \<Rightarrow> 'v \<Rightarrow> ('k \<times> 'v) list \<Rightarrow> ('k \<times> 'v) list" where
  "smap_put k v [] = [(k, v)]"
| "smap_put k v ((k', v') # m) =
     (if k < k' then (k, v) # (k', v') # m
      else if k = k' then (k, v) # m
      else (k', v') # smap_put k v m)"

definition smap_del :: "'k \<Rightarrow> ('k \<times> 'v) list \<Rightarrow> ('k \<times> 'v) list" where
  "smap_del k m = filter (\<lambda>(k', _). k' \<noteq> k) m"

lemma map_of_smap_put [simp]:
  "sset (map fst m) \<Longrightarrow> map_of (smap_put k v m) = (map_of m)(k \<mapsto> v)"
proof (induction k v m rule: smap_put.induct)
  case (2 k v k' v' m)
  have "k \<notin> fst ` set m" if "k < k'"
    using that "2.prems" by fastforce
  with 2 show ?case by (auto simp: fun_eq_iff)
qed auto

lemma keys_smap_put [simp]: "fst ` set (smap_put k v m) = insert k (fst ` set m)"
  by (induction k v m rule: smap_put.induct) auto

lemma sset_smap_put [simp, intro]:
  "sset (map fst m) \<Longrightarrow> sset (map fst (smap_put k v m))"
  by (induction k v m rule: smap_put.induct) (auto simp: image_iff)

lemma set_smap_put: "set (smap_put k v m) \<subseteq> insert (k, v) (set m)"
  by (induction k v m rule: smap_put.induct) auto

lemma map_of_smap_del [simp]: "map_of (smap_del k m) = (map_of m)(k := None)"
  by (induction m) (auto simp: smap_del_def fun_eq_iff)

lemma keys_smap_del [simp]: "fst ` set (smap_del k m) = fst ` set m - {k}"
  by (auto simp: smap_del_def image_iff)

lemma sset_smap_del [simp, intro]: "sset (map fst m) \<Longrightarrow> sset (map fst (smap_del k m))"
  by (induction m) (auto simp: smap_del_def)

subsection \<open>Sublists as bags\<close>

lemma submset_distinct:
  assumes "mset xs \<subseteq># mset ys" "distinct ys"
  shows "distinct xs"
proof -
  have "count (mset xs) a = 1" if "a \<in> set xs" for a
  proof -
    have "count (mset xs) a \<le> count (mset ys) a" by (rule mset_subset_eq_count [OF assms(1)])
    also have "\<dots> \<le> 1" using assms(2) by (simp add: distinct_count_atmost_1)
    finally show ?thesis using that by (metis count_mset_0_iff le_antisym less_one not_le)
  qed
  then show ?thesis unfolding distinct_count_atmost_1 by (simp add: count_mset_0_iff)
qed

lemma mset_take_drop: "i < length xs \<Longrightarrow> mset (take i xs @ drop (Suc i) xs) + {#xs ! i#} = mset xs"
  by (metis add_mset_add_single id_take_nth_drop mset_append mset.simps(2) union_mset_add_mset_right)

subsection \<open>Machine integers\<close>

type_synonym u8 = "8 word"
type_synonym u16 = "16 word"
type_synonym u32 = "32 word"
type_synonym u64 = "64 word"

text \<open>
  C++ division and remainder of signed integers truncate towards zero.
\<close>

definition cdiv :: "int \<Rightarrow> int \<Rightarrow> int" where
  "cdiv a b = sgn a * sgn b * (\<bar>a\<bar> div \<bar>b\<bar>)"

definition cmod :: "int \<Rightarrow> int \<Rightarrow> int" where
  "cmod a b = a - b * cdiv a b"

lemma cdiv_nonneg: "0 \<le> a \<Longrightarrow> 0 \<le> b \<Longrightarrow> cdiv a b = a div b"
  by (cases "a = 0"; cases "b = 0") (auto simp: cdiv_def)

lemma cmod_nonneg: "0 \<le> a \<Longrightarrow> 0 \<le> b \<Longrightarrow> cmod a b = a mod b"
  by (simp add: cmod_def cdiv_nonneg minus_mult_div_eq_mod)

text \<open>The signed value of a word.\<close>

lemma sint_cases:
  "sint (a :: 'a::len word) =
     (if uint a < 2 ^ (LENGTH('a) - 1) then uint a else uint a - 2 ^ LENGTH('a))"
proof -
  define n where "n = LENGTH('a) - 1"
  have len: "LENGTH('a) = Suc n" by (simp add: n_def)
  have b: "0 \<le> uint a" "uint a < 2 ^ Suc n" using uint_lt2p [of a] by (simp_all add: len)
  have s: "sint a = (uint a + 2 ^ n) mod 2 ^ Suc n - 2 ^ n"
    by (simp add: sint_uint signed_take_bit_eq_take_bit_shift take_bit_eq_mod len)
  show ?thesis
  proof (cases "uint a < 2 ^ n")
    case True
    with b s show ?thesis by (simp add: len)
  next
    case False
    with b have "(uint a + 2 ^ n) mod 2 ^ Suc n = uint a + 2 ^ n - 2 ^ Suc n"
      by (subst mod_pos_geq) auto
    with False s show ?thesis by (simp add: len)
  qed
qed

lemma word_inc_less: "n < k \<Longrightarrow> n < n + 1" for n k :: "'a::len word"
  by (metis inc_less_eq_triv_imp linorder_not_le word_n1_ge)

lemma small_bits: "(x :: nat) < 2 ^ n \<Longrightarrow> bit x i \<Longrightarrow> i < n"
  by (metis bit_take_bit_iff take_bit_nat_eq_self)

lemma uint_of_small: "0 \<le> n \<Longrightarrow> n < 2 ^ 64 \<Longrightarrow> uint (word_of_int n :: u64) = n"
  by (simp add: uint_word_of_int)

text \<open>Signed 64-bit arithmetic on integers: an overflow is undefined behaviour.\<close>

definition i64_min :: int where "i64_min = - (2 ^ 63)"
definition i64_max :: int where "i64_max = 2 ^ 63 - 1"

definition i64_ok :: "int \<Rightarrow> bool" where
  "i64_ok n \<longleftrightarrow> i64_min \<le> n \<and> n \<le> i64_max"

definition i64_checked :: "int \<Rightarrow> int result" where
  "i64_checked n = rbind (guard Undefined_Behaviour (i64_ok n)) (\<lambda>_. Inr n)"

lemma i64_checked_ok [simp]: "i64_ok n \<Longrightarrow> i64_checked n = Inr n"
  by (simp add: i64_checked_def)

lemma i64_checked_iff [result_simps]: "i64_checked n = Inr m \<longleftrightarrow> i64_ok n \<and> m = n"
  by (auto simp: i64_checked_def result_simps)

lemmas i64_defs = i64_ok_def i64_min_def i64_max_def

subsection \<open>State machines\<close>

text \<open>
  A component with state: the states it starts in, its steps (one constructor of the event
  type per operation; a step that aborts or throws has no successor), and an invariant
  every step keeps.
\<close>

inductive reachable_from :: "('s \<Rightarrow> bool) \<Rightarrow> ('s \<Rightarrow> 'e \<Rightarrow> 's \<Rightarrow> bool) \<Rightarrow> 's \<Rightarrow> bool"
  for start step where
  reach_start: "start s \<Longrightarrow> reachable_from start step s"
| reach_step: "reachable_from start step s \<Longrightarrow> step s e t \<Longrightarrow> reachable_from start step t"

text \<open>The same with the list of events that led to the state.\<close>

inductive trace_from ::
  "('s \<Rightarrow> bool) \<Rightarrow> ('s \<Rightarrow> 'e \<Rightarrow> 's \<Rightarrow> bool) \<Rightarrow> 'e list \<Rightarrow> 's \<Rightarrow> bool"
  for start step where
  trace_start: "start s \<Longrightarrow> trace_from start step [] s"
| trace_step: "trace_from start step es s \<Longrightarrow> step s e t \<Longrightarrow> trace_from start step (es @ [e]) t"

lemma trace_reachable: "trace_from start step es s \<Longrightarrow> reachable_from start step s"
  by (induction rule: trace_from.induct) (auto intro: reach_start reach_step)

locale transition_system =
  fixes start :: "'s \<Rightarrow> bool"
    and step :: "'s \<Rightarrow> 'e \<Rightarrow> 's \<Rightarrow> bool"
    and inv :: "'s \<Rightarrow> bool"
  assumes start_inv: "start s \<Longrightarrow> inv s"
    and step_inv: "inv s \<Longrightarrow> step s e t \<Longrightarrow> inv t"
begin

lemma reachable_inv: "reachable_from start step s \<Longrightarrow> inv s"
  by (induction rule: reachable_from.induct) (auto intro: start_inv step_inv)

end

end
