(* ===== verification/Task_Source.thy ===== *)
theory Task_Source
  imports Prelude
begin

text \<open>
  \<^verbatim>\<open>src/fml/delayed_task.{h,cc}\<close>, \<^verbatim>\<open>task_source.{h,cc}\<close>, \<^verbatim>\<open>task_source_grade.h\<close>: a task source
  is a primary and a secondary heap of delayed tasks; the secondary heap can be paused.

  \<open>std::priority_queue<DelayedTask, std::deque, std::greater>\<close> is a list sorted by
  \<open>DelayedTask::operator>\<close> with the least task in front; the locale \<open>priority_queue\<close> is the
  contract of the container, and the task source uses the container through it only.
  A closure is a value of a type parameter \<open>'c\<close>. The tick count of a \<open>TimePoint\<close> is read
  as an \<open>int\<close>: these files compare time points and never compute with them.
\<close>

subsection \<open>Delayed tasks\<close>

datatype TaskSourceGrade = kUserInteraction | kDartEventLoop | kUnspecified

record 'c delayed_task =
  order :: u64
  task :: 'c
  target_time :: int
  task_source_grade :: TaskSourceGrade

text \<open>\<open>DelayedTask::operator>\<close>.\<close>

definition task_gt :: "'c delayed_task \<Rightarrow> 'c delayed_task \<Rightarrow> bool" where
  "task_gt a b =
     (if target_time a = target_time b then order a > order b
      else target_time a > target_time b)"

lemma task_gt_irrefl [simp]: "\<not> task_gt a a"
  by (simp add: task_gt_def)

lemma task_gt_trans: "task_gt a b \<Longrightarrow> task_gt b c \<Longrightarrow> task_gt a c"
  by (auto simp: task_gt_def split: if_splits)

lemma task_gt_asym: "task_gt a b \<Longrightarrow> \<not> task_gt b a"
  by (auto simp: task_gt_def split: if_splits)

lemma not_task_gt_trans: "\<not> task_gt a b \<Longrightarrow> \<not> task_gt b c \<Longrightarrow> \<not> task_gt a c"
  by (auto simp: task_gt_def split: if_splits)

lemma task_gt_total: "order a \<noteq> order b \<Longrightarrow> task_gt a b \<or> task_gt b a"
  by (auto simp: task_gt_def)

subsection \<open>The contract of a priority queue\<close>

text \<open>
  \<open>gt\<close> is the comparison the container is instantiated with: \<open>top\<close> is an element no other
  element of the queue is less than.
\<close>

locale priority_queue =
  fixes gt :: "'a \<Rightarrow> 'a \<Rightarrow> bool"
    and empty_pq :: "'q"
    and push :: "'a \<Rightarrow> 'q \<Rightarrow> 'q"
    and pop :: "'q \<Rightarrow> 'q"
    and top_of :: "'q \<Rightarrow> 'a"
    and bag :: "'q \<Rightarrow> 'a multiset"
    and invar :: "'q \<Rightarrow> bool"
  assumes gt_trans: "\<not> gt a b \<Longrightarrow> \<not> gt b c \<Longrightarrow> \<not> gt a c"
    and invar_empty: "invar empty_pq"
    and bag_empty: "bag empty_pq = {#}"
    and invar_push: "invar q \<Longrightarrow> invar (push x q)"
    and bag_push: "invar q \<Longrightarrow> bag (push x q) = add_mset x (bag q)"
    and invar_pop: "invar q \<Longrightarrow> bag q \<noteq> {#} \<Longrightarrow> invar (pop q)"
    and bag_pop: "invar q \<Longrightarrow> bag q \<noteq> {#} \<Longrightarrow> bag (pop q) = bag q - {#top_of q#}"
    and top_in: "invar q \<Longrightarrow> bag q \<noteq> {#} \<Longrightarrow> top_of q \<in># bag q"
    and top_least: "invar q \<Longrightarrow> x \<in># bag q \<Longrightarrow> \<not> gt (top_of q) x"
begin

text \<open>The lesser of two tops is least in the union of two queues.\<close>

lemma least_of_two:
  assumes "invar p" "invar q" "bag p \<noteq> {#}" "bag q \<noteq> {#}" "gt (top_of p) (top_of q)"
    and asym: "\<And>a b. gt a b \<Longrightarrow> \<not> gt b a"
    and "x \<in># bag p + bag q"
  shows "\<not> gt (top_of q) x"
proof (cases "x \<in># bag q")
  case True
  with assms(2) show ?thesis by (rule top_least)
next
  case False
  with assms(7) have "x \<in># bag p" by simp
  with assms(1) have "\<not> gt (top_of p) x" by (rule top_least)
  moreover have "\<not> gt (top_of q) (top_of p)" using assms(5) asym by blast
  ultimately show ?thesis using gt_trans by metis
qed

lemma least_of_two':
  assumes "invar p" "invar q" "bag q \<noteq> {#}" "\<not> gt (top_of p) (top_of q)"
    and "x \<in># bag p + bag q"
  shows "\<not> gt (top_of p) x"
proof (cases "x \<in># bag p")
  case True
  with assms(1) show ?thesis by (rule top_least)
next
  case False
  with assms(5) have "x \<in># bag q" by simp
  with assms(2) have "\<not> gt (top_of q) x" by (rule top_least)
  with assms(4) show ?thesis using gt_trans by metis
qed

lemma pop_push_bag: "invar q \<Longrightarrow> bag (pop (push x q)) + {#top_of (push x q)#} = add_mset x (bag q)"
  using bag_pop [of "push x q"] top_in [of "push x q"] by (simp add: invar_push bag_push)

end

subsection \<open>DelayedTaskQueue\<close>

type_synonym 'c task_heap = "'c delayed_task list"

fun heap_push :: "'c delayed_task \<Rightarrow> 'c task_heap \<Rightarrow> 'c task_heap" where
  "heap_push t [] = [t]"
| "heap_push t (x # q) = (if task_gt x t then t # x # q else x # heap_push t q)"

definition heap_top :: "'c task_heap \<Rightarrow> 'c delayed_task result" where
  "heap_top q = (case q of [] \<Rightarrow> Inl Undefined_Behaviour | t # _ \<Rightarrow> Inr t)"

definition heap_pop :: "'c task_heap \<Rightarrow> 'c task_heap result" where
  "heap_pop q = (case q of [] \<Rightarrow> Inl Undefined_Behaviour | _ # q' \<Rightarrow> Inr q')"

definition heap_ok :: "'c task_heap \<Rightarrow> bool" where
  "heap_ok = sorted_wrt (\<lambda>a b. \<not> task_gt a b)"

lemma mset_heap_push [simp]: "mset (heap_push t q) = add_mset t (mset q)"
  by (induction t q rule: heap_push.induct) auto

lemma set_heap_push [simp]: "set (heap_push t q) = insert t (set q)"
  by (induction t q rule: heap_push.induct) auto

lemma heap_push_nonempty [simp]: "heap_push t q \<noteq> []"
  by (cases q) auto

lemma length_heap_push [simp]: "length (heap_push t q) = Suc (length q)"
  by (induction t q rule: heap_push.induct) auto

lemma heap_ok_push: "heap_ok q \<Longrightarrow> heap_ok (heap_push t q)"
  unfolding heap_ok_def
  by (induction t q rule: heap_push.induct)
     (auto dest: task_gt_asym intro: not_task_gt_trans task_gt_trans)

lemma heap_ok_Cons: "heap_ok (t # q) \<longleftrightarrow> (\<forall>x \<in> set q. \<not> task_gt t x) \<and> heap_ok q"
  by (simp add: heap_ok_def)

lemma heap_ok_Nil [simp]: "heap_ok []"
  by (simp add: heap_ok_def)

interpretation dtq: priority_queue task_gt "[]" heap_push tl hd mset heap_ok
proof unfold_locales
  fix q :: "'a task_heap" and x
  show "heap_ok q \<Longrightarrow> mset q \<noteq> {#} \<Longrightarrow> heap_ok (tl q)"
    by (cases q) (auto simp: heap_ok_Cons)
  show "heap_ok q \<Longrightarrow> mset q \<noteq> {#} \<Longrightarrow> mset (tl q) = mset q - {#hd q#}"
    by (cases q) auto
  show "heap_ok q \<Longrightarrow> mset q \<noteq> {#} \<Longrightarrow> hd q \<in># mset q"
    by (cases q) auto
  show "heap_ok q \<Longrightarrow> x \<in># mset q \<Longrightarrow> \<not> task_gt (hd q) x"
    by (cases q) (auto simp: heap_ok_Cons)
qed (auto simp: heap_ok_push dest: not_task_gt_trans)

subsection \<open>TaskSource\<close>

record 'c task_source =
  task_queue_id :: u64
  primary_task_queue :: "'c task_heap"
  secondary_task_queue :: "'c task_heap"
  secondary_pause_requests :: int

definition new_task_source :: "u64 \<Rightarrow> 'c task_source" where
  "new_task_source q =
     \<lparr>task_queue_id = q, primary_task_queue = [], secondary_task_queue = [],
      secondary_pause_requests = 0\<rparr>"

definition ts_ShutDown :: "'c task_source \<Rightarrow> 'c task_source" where
  "ts_ShutDown s = s\<lparr>primary_task_queue := [], secondary_task_queue := []\<rparr>"

definition ts_RegisterTask :: "'c delayed_task \<Rightarrow> 'c task_source \<Rightarrow> 'c task_source" where
  "ts_RegisterTask t s =
     (case task_source_grade t of
        kUserInteraction \<Rightarrow> s\<lparr>primary_task_queue := heap_push t (primary_task_queue s)\<rparr>
      | kUnspecified \<Rightarrow> s\<lparr>primary_task_queue := heap_push t (primary_task_queue s)\<rparr>
      | kDartEventLoop \<Rightarrow> s\<lparr>secondary_task_queue := heap_push t (secondary_task_queue s)\<rparr>)"

definition ts_PopTask :: "TaskSourceGrade \<Rightarrow> 'c task_source \<Rightarrow> 'c task_source result" where
  "ts_PopTask g s =
     (case g of
        kUserInteraction \<Rightarrow>
          rbind (heap_pop (primary_task_queue s)) (\<lambda>q. Inr (s\<lparr>primary_task_queue := q\<rparr>))
      | kUnspecified \<Rightarrow>
          rbind (heap_pop (primary_task_queue s)) (\<lambda>q. Inr (s\<lparr>primary_task_queue := q\<rparr>))
      | kDartEventLoop \<Rightarrow>
          rbind (heap_pop (secondary_task_queue s)) (\<lambda>q. Inr (s\<lparr>secondary_task_queue := q\<rparr>)))"

definition ts_GetNumPendingTasks :: "'c task_source \<Rightarrow> nat" where
  "ts_GetNumPendingTasks s =
     length (primary_task_queue s) +
     (if secondary_pause_requests s = 0 then length (secondary_task_queue s) else 0)"

definition ts_IsEmpty :: "'c task_source \<Rightarrow> bool" where
  "ts_IsEmpty s \<longleftrightarrow> ts_GetNumPendingTasks s = 0"

definition ts_Top :: "'c task_source \<Rightarrow> (u64 \<times> 'c delayed_task) result" where
  "ts_Top s =
     rbind (guard Check_Failed (\<not> ts_IsEmpty s)) (\<lambda>_.
       if secondary_pause_requests s > 0 \<or> secondary_task_queue s = [] then
         rbind (heap_top (primary_task_queue s)) (\<lambda>t. Inr (task_queue_id s, t))
       else if primary_task_queue s = [] then
         rbind (heap_top (secondary_task_queue s)) (\<lambda>t. Inr (task_queue_id s, t))
       else
         rbind (heap_top (primary_task_queue s)) (\<lambda>p.
         rbind (heap_top (secondary_task_queue s)) (\<lambda>q.
           Inr (task_queue_id s, if task_gt p q then q else p))))"

text \<open>The counter of pause requests is a signed \<open>int\<close> of 32 bits.\<close>

definition ts_PauseSecondary :: "'c task_source \<Rightarrow> 'c task_source result" where
  "ts_PauseSecondary s =
     rbind (guard Undefined_Behaviour (secondary_pause_requests s < 2 ^ 31 - 1)) (\<lambda>_.
       Inr (s\<lparr>secondary_pause_requests := secondary_pause_requests s + 1\<rparr>))"

definition ts_ResumeSecondary :: "'c task_source \<Rightarrow> 'c task_source result" where
  "ts_ResumeSecondary s =
     (let s' = s\<lparr>secondary_pause_requests := secondary_pause_requests s - 1\<rparr>
      in rbind (guard Dcheck_Failed (secondary_pause_requests s' \<ge> 0)) (\<lambda>_. Inr s'))"

subsection \<open>Invariant and abstract view\<close>

text \<open>The tasks the dispatcher can see: the secondary heap only when it is not paused.\<close>

definition ts_visible :: "'c task_source \<Rightarrow> 'c delayed_task multiset" where
  "ts_visible s =
     mset (primary_task_queue s) +
     (if secondary_pause_requests s = 0 then mset (secondary_task_queue s) else {#})"

definition ts_inv :: "'c task_source \<Rightarrow> bool" where
  "ts_inv s \<longleftrightarrow>
     heap_ok (primary_task_queue s) \<and> heap_ok (secondary_task_queue s) \<and>
     (\<forall>t \<in> set (primary_task_queue s). task_source_grade t \<noteq> kDartEventLoop) \<and>
     (\<forall>t \<in> set (secondary_task_queue s). task_source_grade t = kDartEventLoop) \<and>
     secondary_pause_requests s \<ge> 0"

lemma ts_inv_new [simp, inv_intros]: "ts_inv (new_task_source q)"
  by (simp add: ts_inv_def new_task_source_def)

lemma ts_inv_ShutDown [inv_intros]: "ts_inv s \<Longrightarrow> ts_inv (ts_ShutDown s)"
  by (simp add: ts_inv_def ts_ShutDown_def)

lemma ts_inv_RegisterTask [inv_intros]: "ts_inv s \<Longrightarrow> ts_inv (ts_RegisterTask t s)"
  by (cases "task_source_grade t") (auto simp: ts_inv_def ts_RegisterTask_def heap_ok_push)

lemma ts_inv_PopTask [inv_intros]: "ts_inv s \<Longrightarrow> ts_PopTask g s = Inr s' \<Longrightarrow> ts_inv s'"
  by (cases g)
     (auto simp: ts_inv_def ts_PopTask_def heap_pop_def heap_ok_Cons result_simps
           split: list.splits)

lemma ts_inv_PauseSecondary [inv_intros]:
  "ts_inv s \<Longrightarrow> ts_PauseSecondary s = Inr s' \<Longrightarrow> ts_inv s'"
  by (auto simp: ts_inv_def ts_PauseSecondary_def result_simps)

lemma ts_inv_ResumeSecondary [inv_intros]:
  "ts_inv s \<Longrightarrow> ts_ResumeSecondary s = Inr s' \<Longrightarrow> ts_inv s'"
  by (auto simp: ts_inv_def ts_ResumeSecondary_def Let_def result_simps)

lemma ts_num_size: "ts_GetNumPendingTasks s = size (ts_visible s)"
  by (simp add: ts_GetNumPendingTasks_def ts_visible_def)

lemma ts_IsEmpty_iff: "ts_IsEmpty s \<longleftrightarrow> ts_visible s = {#}"
  by (simp add: ts_IsEmpty_def ts_num_size)

lemma ts_visible_RegisterTask:
  "ts_visible (ts_RegisterTask t s) =
     (if task_source_grade t = kDartEventLoop \<and> secondary_pause_requests s \<noteq> 0
      then ts_visible s else add_mset t (ts_visible s))"
  by (cases "task_source_grade t") (auto simp: ts_visible_def ts_RegisterTask_def)

lemma ts_id_simps [simp]:
  "task_queue_id (new_task_source q) = q"
  "task_queue_id (ts_ShutDown s) = task_queue_id s"
  "task_queue_id (ts_RegisterTask t s) = task_queue_id s"
  by (auto simp: new_task_source_def ts_ShutDown_def ts_RegisterTask_def
           split: TaskSourceGrade.splits)

lemma ts_id_PauseSecondary: "ts_PauseSecondary s = Inr s' \<Longrightarrow> task_queue_id s' = task_queue_id s"
  by (auto simp: ts_PauseSecondary_def result_simps)

lemma ts_id_PopTask: "ts_PopTask g s = Inr s' \<Longrightarrow> task_queue_id s' = task_queue_id s"
  by (auto simp: ts_PopTask_def result_simps split: TaskSourceGrade.splits)

lemma heap_top_Inr: "heap_top q = Inr t \<longleftrightarrow> q \<noteq> [] \<and> t = hd q"
  by (cases q) (auto simp: heap_top_def)

lemma heap_top_total: "q \<noteq> [] \<Longrightarrow> heap_top q = Inr (hd q)"
  by (cases q) (auto simp: heap_top_def)

lemma heap_pop_total: "q \<noteq> [] \<Longrightarrow> heap_pop q = Inr (tl q)"
  by (cases q) (auto simp: heap_pop_def)

lemma ts_Top_ok:
  assumes "ts_inv s" "\<not> ts_IsEmpty s"
  shows "\<exists>t. ts_Top s = Inr (task_queue_id s, t)"
  using assms
  by (auto simp: ts_Top_def ts_IsEmpty_iff ts_visible_def ts_inv_def heap_top_total
           split: if_splits)

lemma ts_Top_least:
  assumes inv: "ts_inv s" and top: "ts_Top s = Inr (q, t)"
  shows "q = task_queue_id s" "t \<in># ts_visible s" "\<And>x. x \<in># ts_visible s \<Longrightarrow> \<not> task_gt t x"
proof -
  let ?p = "primary_task_queue s" and ?r = "secondary_task_queue s"
  have ok: "heap_ok ?p" "heap_ok ?r" and pause: "secondary_pause_requests s \<ge> 0"
    using inv by (auto simp: ts_inv_def)
  show "q = task_queue_id s"
    using top by (auto simp: ts_Top_def result_simps split: if_splits)
  show "t \<in># ts_visible s"
    using top pause
    by (auto simp: ts_Top_def ts_visible_def result_simps heap_top_Inr split: if_splits)
  fix x assume x: "x \<in># ts_visible s"
  consider (paused) "secondary_pause_requests s > 0"
    | (no_sec) "secondary_pause_requests s = 0" "?r = []"
    | (no_pri) "secondary_pause_requests s = 0" "?r \<noteq> []" "?p = []"
    | (both) "secondary_pause_requests s = 0" "?r \<noteq> []" "?p \<noteq> []"
    using pause by fastforce
  then show "\<not> task_gt t x"
  proof cases
    case both
    with top have t: "t = (if task_gt (hd ?p) (hd ?r) then hd ?r else hd ?p)"
      by (auto simp: ts_Top_def result_simps heap_top_Inr)
    from both x have "x \<in># mset ?p + mset ?r" by (simp add: ts_visible_def)
    then show ?thesis
      using dtq.least_of_two [OF ok, of x] dtq.least_of_two' [OF ok, of x] both t
      by (auto dest: task_gt_asym)
  qed (use top x ok in \<open>auto simp: ts_Top_def ts_visible_def result_simps heap_top_Inr
         dest: dtq.top_least\<close>)
qed

text \<open>Popping the grade of the top task removes exactly the top task.\<close>

lemma ts_PopTask_top:
  assumes inv: "ts_inv s" and top: "ts_Top s = Inr (q, t)"
  shows "\<exists>s'. ts_PopTask (task_source_grade t) s = Inr s' \<and>
           ts_visible s' = ts_visible s - {#t#} \<and>
           secondary_pause_requests s' = secondary_pause_requests s"
proof -
  let ?p = "primary_task_queue s" and ?r = "secondary_task_queue s"
  have "(?p \<noteq> [] \<and> t = hd ?p) \<or>
        (?r \<noteq> [] \<and> t = hd ?r \<and> secondary_pause_requests s = 0)"
    using top inv
    by (auto simp: ts_Top_def ts_inv_def result_simps heap_top_Inr split: if_splits)
  then show ?thesis
  proof (elim disjE conjE)
    assume p: "?p \<noteq> []" "t = hd ?p"
    with inv have "task_source_grade t \<noteq> kDartEventLoop"
      by (auto simp: ts_inv_def)
    with p have "ts_PopTask (task_source_grade t) s = Inr (s\<lparr>primary_task_queue := tl ?p\<rparr>)"
      by (cases "task_source_grade t") (auto simp: ts_PopTask_def heap_pop_total)
    with p show ?thesis by (cases ?p) (auto simp: ts_visible_def)
  next
    assume r: "?r \<noteq> []" "t = hd ?r" "secondary_pause_requests s = 0"
    with inv have "task_source_grade t = kDartEventLoop"
      by (auto simp: ts_inv_def)
    with r have "ts_PopTask (task_source_grade t) s = Inr (s\<lparr>secondary_task_queue := tl ?r\<rparr>)"
      by (auto simp: ts_PopTask_def heap_pop_total)
    with r show ?thesis by (cases ?r) (auto simp: ts_visible_def)
  qed
qed

end
