(* ===== verification/Task_Queues.thy ===== *)
theory Task_Queues
  imports Task_Source
begin

text \<open>
  \<^verbatim>\<open>src/fml/message_loop_task_queues.{h,cc}\<close>, \<^verbatim>\<open>task_queue_id.h\<close>: the process-wide table of task
  queues, their merging and unmerging, and the choice of the next task to run.

  Every operation takes the queue mutex for its whole body, so operations are atomic steps.
  \<open>Wakeable::WakeUp\<close> is a virtual call into the message loop: the model records the calls in
  \<open>wake_log\<close>. A queue identifier is a \<open>size_t\<close> with the two sentinels \<open>kUnmerged\<close> and
  \<open>kInvalid\<close>. \<open>order_\<close> is an \<open>atomic_int\<close>: 32 bits, incremented with wrap-around and
  sign-extended to \<open>size_t\<close> when a task takes it.
\<close>

subsection \<open>State\<close>

definition kUnmerged :: u64 where "kUnmerged = - 1"
definition kInvalid :: u64 where "kInvalid = - 2"

definition TimePoint_Max :: int where "TimePoint_Max = 2 ^ 63 - 1"

record 'c task_queue_entry =
  wakeable :: "nat option"
  task_observers :: "(int \<times> 'c) list"
  task_src :: "'c task_source"
  owner_of :: "u64 list"
  subsumed_by :: u64
  created_for :: u64

record 'c task_queues =
  queue_entries :: "u64 \<rightharpoonup> 'c task_queue_entry"
  task_queue_id_counter :: u64
  order_counter :: u32
  tls_task_source_grade :: "nat \<Rightarrow> TaskSourceGrade option"
  wake_log :: "(nat \<times> int) list"

definition new_entry :: "u64 \<Rightarrow> 'c task_queue_entry" where
  "new_entry q =
     \<lparr>wakeable = None, task_observers = [], task_src = new_task_source q, owner_of = [],
      subsumed_by = kUnmerged, created_for = q\<rparr>"

text \<open>The constructor runs on thread \<open>thr\<close> and sets the thread-local grade of that thread only.\<close>

definition new_task_queues :: "nat \<Rightarrow> 'c task_queues" where
  "new_task_queues thr =
     \<lparr>queue_entries = (\<lambda>_. None), task_queue_id_counter = 0, order_counter = 0,
      tls_task_source_grade = (\<lambda>_. None)(thr \<mapsto> kUnspecified), wake_log = []\<rparr>"

definition entry_at :: "'c task_queues \<Rightarrow> u64 \<Rightarrow> 'c task_queue_entry result" where
  "entry_at s q = of_option Out_Of_Range (queue_entries s q)"

definition put_entry :: "u64 \<Rightarrow> 'c task_queue_entry \<Rightarrow> 'c task_queues \<Rightarrow> 'c task_queues" where
  "put_entry q e s = s\<lparr>queue_entries := (queue_entries s)(q \<mapsto> e)\<rparr>"

subsection \<open>Private queries\<close>

fun any_pending :: "'c task_queues \<Rightarrow> u64 list \<Rightarrow> bool result" where
  "any_pending s [] = Inr False"
| "any_pending s (x # xs) =
     rbind (entry_at s x) (\<lambda>e.
       if \<not> ts_IsEmpty (task_src e) then Inr True else any_pending s xs)"

definition HasPendingTasks :: "'c task_queues \<Rightarrow> u64 \<Rightarrow> bool result" where
  "HasPendingTasks s q =
     rbind (entry_at s q) (\<lambda>e.
       if subsumed_by e \<noteq> kUnmerged then Inr False
       else if \<not> ts_IsEmpty (task_src e) then Inr True
       else any_pending s (owner_of e))"

definition top_task_updater ::
  "'c task_source \<Rightarrow> (u64 \<times> 'c delayed_task) option \<Rightarrow> (u64 \<times> 'c delayed_task) option result"
where
  "top_task_updater src best =
     (if ts_IsEmpty src then Inr best
      else rbind (ts_Top src) (\<lambda>other.
        case best of
          None \<Rightarrow> Inr (Some other)
        | Some cur \<Rightarrow> Inr (Some (if task_gt (snd cur) (snd other) then other else cur))))"

fun peek_subsumed ::
  "'c task_queues \<Rightarrow> u64 list \<Rightarrow> (u64 \<times> 'c delayed_task) option \<Rightarrow>
   (u64 \<times> 'c delayed_task) option result"
where
  "peek_subsumed s [] best = Inr best"
| "peek_subsumed s (x # xs) best =
     rbind (entry_at s x) (\<lambda>e.
     rbind (top_task_updater (task_src e) best) (\<lambda>best'. peek_subsumed s xs best'))"

definition PeekNextTask :: "'c task_queues \<Rightarrow> u64 \<Rightarrow> (u64 \<times> 'c delayed_task) result" where
  "PeekNextTask s owner =
     rbind (HasPendingTasks s owner) (\<lambda>pending.
     rbind (guard Dcheck_Failed pending) (\<lambda>_.
     rbind (entry_at s owner) (\<lambda>e.
       if owner_of e = [] then
         rbind (guard Check_Failed (\<not> ts_IsEmpty (task_src e))) (\<lambda>_. ts_Top (task_src e))
       else
         rbind (top_task_updater (task_src e) None) (\<lambda>best.
         rbind (peek_subsumed s (owner_of e) best) (\<lambda>best'.
           of_option Check_Failed best')))))"

definition GetNextWakeTime :: "'c task_queues \<Rightarrow> u64 \<Rightarrow> int result" where
  "GetNextWakeTime s q = rbind (PeekNextTask s q) (\<lambda>best. Inr (target_time (snd best)))"

definition WakeUp :: "u64 \<Rightarrow> int \<Rightarrow> 'c task_queues \<Rightarrow> 'c task_queues result" where
  "WakeUp q time s =
     rbind (entry_at s q) (\<lambda>e.
       case wakeable e of
         None \<Rightarrow> Inr s
       | Some w \<Rightarrow> Inr (s\<lparr>wake_log := wake_log s @ [(w, time)]\<rparr>))"

text \<open>The block \<open>if (HasPendingTasksUnlocked(q)) WakeUpUnlocked(q, GetNextWakeTimeUnlocked(q))\<close>.\<close>

definition wake_if_pending :: "u64 \<Rightarrow> 'c task_queues \<Rightarrow> 'c task_queues result" where
  "wake_if_pending q s =
     rbind (HasPendingTasks s q) (\<lambda>pending.
       if pending then rbind (GetNextWakeTime s q) (\<lambda>time. WakeUp q time s) else Inr s)"

subsection \<open>Operations\<close>

definition CreateTaskQueue :: "'c task_queues \<Rightarrow> u64 \<times> 'c task_queues" where
  "CreateTaskQueue s =
     (let loop_id = task_queue_id_counter s
      in (loop_id,
          put_entry loop_id (new_entry loop_id)
            (s\<lparr>task_queue_id_counter := task_queue_id_counter s + 1\<rparr>)))"

definition Dispose :: "u64 \<Rightarrow> 'c task_queues \<Rightarrow> 'c task_queues result" where
  "Dispose q s =
     rbind (entry_at s q) (\<lambda>e.
     rbind (guard Dcheck_Failed (subsumed_by e = kUnmerged)) (\<lambda>_.
       Inr (s\<lparr>queue_entries :=
              (\<lambda>x. if x = q \<or> x \<in> set (owner_of e) then None else queue_entries s x)\<rparr>)))"

fun shut_down_all :: "u64 list \<Rightarrow> 'c task_queues \<Rightarrow> 'c task_queues result" where
  "shut_down_all [] s = Inr s"
| "shut_down_all (x # xs) s =
     rbind (entry_at s x) (\<lambda>e.
       shut_down_all xs (put_entry x (e\<lparr>task_src := ts_ShutDown (task_src e)\<rparr>) s))"

definition DisposeTasks :: "u64 \<Rightarrow> 'c task_queues \<Rightarrow> 'c task_queues result" where
  "DisposeTasks q s =
     rbind (entry_at s q) (\<lambda>e.
     rbind (guard Dcheck_Failed (subsumed_by e = kUnmerged)) (\<lambda>_.
       shut_down_all (owner_of e)
         (put_entry q (e\<lparr>task_src := ts_ShutDown (task_src e)\<rparr>) s)))"

definition GetCurrentTaskSourceGrade :: "nat \<Rightarrow> 'c task_queues \<Rightarrow> TaskSourceGrade result" where
  "GetCurrentTaskSourceGrade thr s = of_option Undefined_Behaviour (tls_task_source_grade s thr)"

definition RegisterTask ::
  "u64 \<Rightarrow> 'c \<Rightarrow> int \<Rightarrow> TaskSourceGrade \<Rightarrow> 'c task_queues \<Rightarrow> 'c task_queues result"
where
  "RegisterTask q c time grade s =
     (let ord = scast (order_counter s); s1 = s\<lparr>order_counter := order_counter s + 1\<rparr>
      in rbind (entry_at s1 q) (\<lambda>e.
         let t = \<lparr>order = ord, task = c, target_time = time, task_source_grade = grade\<rparr>;
             s2 = put_entry q (e\<lparr>task_src := ts_RegisterTask t (task_src e)\<rparr>) s1;
             loop_to_wake = (if subsumed_by e \<noteq> kUnmerged then subsumed_by e else q)
         in wake_if_pending loop_to_wake s2))"

definition GetNextTaskToRun ::
  "nat \<Rightarrow> u64 \<Rightarrow> int \<Rightarrow> 'c task_queues \<Rightarrow> ('c option \<times> 'c task_queues) result"
where
  "GetNextTaskToRun thr q from_time s =
     rbind (HasPendingTasks s q) (\<lambda>pending.
       if \<not> pending then Inr (None, s)
       else
         rbind (PeekNextTask s q) (\<lambda>best.
         rbind (HasPendingTasks s q) (\<lambda>pending'.
         rbind (if \<not> pending' then WakeUp q TimePoint_Max s
                else rbind (GetNextWakeTime s q) (\<lambda>time. WakeUp q time s)) (\<lambda>s1.
           if target_time (snd best) > from_time then Inr (None, s1)
           else
             rbind (entry_at s1 (fst best)) (\<lambda>e.
             rbind (ts_PopTask (task_source_grade (snd best)) (task_src e)) (\<lambda>src.
               Inr (Some (task (snd best)),
                    (put_entry (fst best) (e\<lparr>task_src := src\<rparr>) s1)
                      \<lparr>tls_task_source_grade :=
                         (tls_task_source_grade s1)
                           (thr \<mapsto> task_source_grade (snd best))\<rparr>)))))))"

fun sum_pending :: "'c task_queues \<Rightarrow> u64 list \<Rightarrow> nat \<Rightarrow> nat result" where
  "sum_pending s [] n = Inr n"
| "sum_pending s (x # xs) n =
     rbind (entry_at s x) (\<lambda>e. sum_pending s xs (n + ts_GetNumPendingTasks (task_src e)))"

definition GetNumPendingTasks :: "'c task_queues \<Rightarrow> u64 \<Rightarrow> nat result" where
  "GetNumPendingTasks s q =
     rbind (entry_at s q) (\<lambda>e.
       if subsumed_by e \<noteq> kUnmerged then Inr 0
       else sum_pending s (owner_of e) (ts_GetNumPendingTasks (task_src e)))"

definition AddTaskObserver :: "u64 \<Rightarrow> int \<Rightarrow> 'c option \<Rightarrow> 'c task_queues \<Rightarrow> 'c task_queues result"
where
  "AddTaskObserver q key callback s =
     (case callback of
        None \<Rightarrow> Inl Dcheck_Failed
      | Some c \<Rightarrow>
          rbind (entry_at s q) (\<lambda>e.
            Inr (put_entry q (e\<lparr>task_observers := smap_put key c (task_observers e)\<rparr>) s)))"

definition RemoveTaskObserver :: "u64 \<Rightarrow> int \<Rightarrow> 'c task_queues \<Rightarrow> 'c task_queues result" where
  "RemoveTaskObserver q key s =
     rbind (entry_at s q) (\<lambda>e.
       Inr (put_entry q (e\<lparr>task_observers := smap_del key (task_observers e)\<rparr>) s))"

fun observers_of :: "'c task_queues \<Rightarrow> u64 list \<Rightarrow> 'c list \<Rightarrow> 'c list result" where
  "observers_of s [] acc = Inr acc"
| "observers_of s (x # xs) acc =
     rbind (entry_at s x) (\<lambda>e. observers_of s xs (acc @ map snd (task_observers e)))"

definition GetObserversToNotify :: "'c task_queues \<Rightarrow> u64 \<Rightarrow> 'c list result" where
  "GetObserversToNotify s q =
     rbind (entry_at s q) (\<lambda>e.
       if subsumed_by e \<noteq> kUnmerged then Inr []
       else observers_of s (owner_of e) (map snd (task_observers e)))"

definition SetWakeable :: "u64 \<Rightarrow> nat option \<Rightarrow> 'c task_queues \<Rightarrow> 'c task_queues result" where
  "SetWakeable q w s =
     rbind (entry_at s q) (\<lambda>e.
     rbind (guard Check_Failed (wakeable e = None)) (\<lambda>_.
       Inr (put_entry q (e\<lparr>wakeable := w\<rparr>) s)))"

definition Merge :: "u64 \<Rightarrow> u64 \<Rightarrow> 'c task_queues \<Rightarrow> (bool \<times> 'c task_queues) result" where
  "Merge owner subsumed s =
     (if owner = subsumed then Inr (True, s)
      else
        rbind (entry_at s owner) (\<lambda>oe.
        rbind (entry_at s subsumed) (\<lambda>se.
          if subsumed \<in> set (owner_of oe) then Inr (True, s)
          else if subsumed_by oe \<noteq> kUnmerged then Inr (False, s)
          else if owner_of se \<noteq> [] then Inr (False, s)
          else if subsumed_by se \<noteq> kUnmerged then Inr (False, s)
          else
            let s1 = put_entry subsumed (se\<lparr>subsumed_by := owner\<rparr>)
                       (put_entry owner (oe\<lparr>owner_of := insort_insert subsumed (owner_of oe)\<rparr>) s)
            in rbind (wake_if_pending owner s1) (\<lambda>s2. Inr (True, s2)))))"

definition Unmerge :: "u64 \<Rightarrow> u64 \<Rightarrow> 'c task_queues \<Rightarrow> (bool \<times> 'c task_queues) result" where
  "Unmerge owner subsumed s =
     rbind (entry_at s owner) (\<lambda>oe.
       if owner_of oe = [] then Inr (False, s)
       else if subsumed_by oe \<noteq> kUnmerged then Inr (False, s)
       else
         rbind (entry_at s subsumed) (\<lambda>se.
           if subsumed_by se = kUnmerged then Inr (False, s)
           else if subsumed \<notin> set (owner_of oe) then Inr (False, s)
           else
             let s1 = put_entry subsumed (se\<lparr>subsumed_by := kUnmerged\<rparr>) s
             in rbind (entry_at s1 owner) (\<lambda>oe1.
                let s2 = put_entry owner (oe1\<lparr>owner_of := remove1 subsumed (owner_of oe1)\<rparr>) s1
                in rbind (wake_if_pending owner s2) (\<lambda>s3.
                   rbind (wake_if_pending subsumed s3) (\<lambda>s4. Inr (True, s4))))))"

definition Owns :: "'c task_queues \<Rightarrow> u64 \<Rightarrow> u64 \<Rightarrow> bool result" where
  "Owns s owner subsumed =
     (if owner = kUnmerged \<or> subsumed = kUnmerged then Inr False
      else rbind (entry_at s owner) (\<lambda>e. Inr (subsumed \<in> set (owner_of e))))"

definition GetSubsumedTaskQueueId :: "'c task_queues \<Rightarrow> u64 \<Rightarrow> u64 list result" where
  "GetSubsumedTaskQueueId s owner = rbind (entry_at s owner) (\<lambda>e. Inr (owner_of e))"

definition PauseSecondarySource :: "u64 \<Rightarrow> 'c task_queues \<Rightarrow> 'c task_queues result" where
  "PauseSecondarySource q s =
     rbind (entry_at s q) (\<lambda>e.
     rbind (ts_PauseSecondary (task_src e)) (\<lambda>src.
       Inr (put_entry q (e\<lparr>task_src := src\<rparr>) s)))"

definition ResumeSecondarySource :: "u64 \<Rightarrow> 'c task_queues \<Rightarrow> 'c task_queues result" where
  "ResumeSecondarySource q s =
     rbind (entry_at s q) (\<lambda>e.
     rbind (ts_ResumeSecondary (task_src e)) (\<lambda>src.
       wake_if_pending q (put_entry q (e\<lparr>task_src := src\<rparr>) s)))"

end
