(* ===== verification/Task_Queues_Inv.thy ===== *)
theory Task_Queues_Inv
  imports Task_Queues
begin

text \<open>
  The invariant of the table of task queues, its preservation by every operation, and what
  the queries and the choice of the next task compute under it.

  The invariant is the comment above \<^verbatim>\<open>Merge\<close> in
  \<^verbatim>\<open>src/fml/message_loop_task_queues.h\<close>: a queue owns others, or is subsumed by one, or is
  independent, and the two directions of the relation agree.
\<close>

subsection \<open>Invariant\<close>

definition entry_ok :: "u64 \<Rightarrow> 'c task_queue_entry \<Rightarrow> bool" where
  "entry_ok q e \<longleftrightarrow>
     ts_inv (task_src e) \<and> task_queue_id (task_src e) = q \<and> sset (owner_of e) \<and>
     sset (map fst (task_observers e))"

definition links_ok :: "(u64 \<rightharpoonup> 'c task_queue_entry) \<Rightarrow> bool" where
  "links_ok m \<longleftrightarrow>
     (\<forall>q e. m q = Some e \<longrightarrow>
        (\<forall>x \<in> set (owner_of e). \<exists>e'. m x = Some e' \<and> subsumed_by e' = q) \<and>
        (subsumed_by e \<noteq> kUnmerged \<longrightarrow>
           owner_of e = [] \<and> (\<exists>e'. m (subsumed_by e) = Some e' \<and> q \<in> set (owner_of e'))))"

definition tq_inv :: "'c task_queues \<Rightarrow> bool" where
  "tq_inv s \<longleftrightarrow>
     (\<forall>q e. queue_entries s q = Some e \<longrightarrow> entry_ok q e \<and> q < task_queue_id_counter s) \<and>
     links_ok (queue_entries s) \<and> task_queue_id_counter s \<le> kInvalid"

lemma sentinels: "kInvalid < kUnmerged" "kUnmerged \<noteq> kInvalid"
  by (simp_all add: kUnmerged_def kInvalid_def)

lemma links_okD:
  assumes "links_ok m" "m q = Some e"
  shows "x \<in> set (owner_of e) \<Longrightarrow> \<exists>e'. m x = Some e' \<and> subsumed_by e' = q"
    and "subsumed_by e \<noteq> kUnmerged \<Longrightarrow> owner_of e = []"
    and "subsumed_by e \<noteq> kUnmerged \<Longrightarrow>
           \<exists>e'. m (subsumed_by e) = Some e' \<and> q \<in> set (owner_of e')"
  using assms unfolding links_ok_def by blast+

text \<open>\<open>links_ok\<close> sees only the two link fields of the entries.\<close>

definition same_links :: "'c task_queue_entry \<Rightarrow> 'c task_queue_entry \<Rightarrow> bool" where
  "same_links a b \<longleftrightarrow> owner_of a = owner_of b \<and> subsumed_by a = subsumed_by b"

lemma links_ok_sim:
  assumes ok: "links_ok m" and rel: "\<And>x. rel_option same_links (m x) (m' x)"
  shows "links_ok m'"
proof -
  have fwd: "\<exists>y'. m' x = Some y' \<and> same_links y y'" if "m x = Some y" for x y
    using rel [of x] that by (cases "m' x") auto
  have bwd: "\<exists>y. m x = Some y \<and> same_links y y'" if "m' x = Some y'" for x y'
    using rel [of x] that by (cases "m x") auto
  show ?thesis
    unfolding links_ok_def
  proof (intro allI impI conjI ballI)
    fix q e' assume "m' q = Some e'"
    then obtain e where e: "m q = Some e" "same_links e e'" using bwd by blast
    show "\<exists>z. m' x = Some z \<and> subsumed_by z = q" if "x \<in> set (owner_of e')" for x
      using that e links_okD(1) [OF ok e(1), of x] fwd by (fastforce simp: same_links_def)
    assume sub: "subsumed_by e' \<noteq> kUnmerged"
    then show "owner_of e' = []"
      using e links_okD(2) [OF ok e(1)] by (simp add: same_links_def)
    show "\<exists>z. m' (subsumed_by e') = Some z \<and> q \<in> set (owner_of z)"
      using sub e links_okD(3) [OF ok e(1)] fwd by (fastforce simp: same_links_def)
  qed
qed

lemma links_ok_same:
  assumes "links_ok m" "m q = Some e" "owner_of e' = owner_of e" "subsumed_by e' = subsumed_by e"
  shows "links_ok (m(q \<mapsto> e'))"
  using assms(1)
  by (rule links_ok_sim) (use assms in \<open>auto simp: same_links_def option.rel_refl\<close>)

lemma tq_invD:
  assumes "tq_inv s" "queue_entries s q = Some e"
  shows "ts_inv (task_src e)" "task_queue_id (task_src e) = q" "sset (owner_of e)"
    "sset (map fst (task_observers e))" "q \<noteq> kUnmerged"
proof -
  show "ts_inv (task_src e)" "task_queue_id (task_src e) = q" "sset (owner_of e)"
    "sset (map fst (task_observers e))"
    using assms by (auto simp: tq_inv_def entry_ok_def)
  have "q < kInvalid" using assms by (force simp: tq_inv_def)
  then show "q \<noteq> kUnmerged" using sentinels(1) by force
qed

lemma tq_inv_links: "tq_inv s \<Longrightarrow> links_ok (queue_entries s)"
  by (simp add: tq_inv_def)

lemma owner_not_self: "tq_inv s \<Longrightarrow> queue_entries s q = Some e \<Longrightarrow> q \<notin> set (owner_of e)"
  using links_okD(1,2) [OF tq_inv_links, of s q e] tq_invD(5) [of s q e] by force

lemma tq_inv_put_same:
  assumes "tq_inv s" "queue_entries s q = Some e" "owner_of e' = owner_of e"
    "subsumed_by e' = subsumed_by e" "entry_ok q e'"
  shows "tq_inv (put_entry q e' s)"
  using assms links_ok_same [OF tq_inv_links [OF assms(1)] assms(2-4)]
  by (auto simp: tq_inv_def put_entry_def)

lemma entry_ok_of_inv: "tq_inv s \<Longrightarrow> queue_entries s q = Some e \<Longrightarrow> entry_ok q e"
  by (simp add: tq_inv_def)

lemma entry_at_Inr [result_simps]: "entry_at s q = Inr e \<longleftrightarrow> queue_entries s q = Some e"
  by (simp add: entry_at_def result_simps)

lemma entry_at_Some [simp]: "queue_entries s q = Some e \<Longrightarrow> entry_at s q = Inr e"
  by (simp add: entry_at_def)

lemma put_entry_simps [simp]:
  "queue_entries (put_entry q e s) = (queue_entries s)(q \<mapsto> e)"
  "task_queue_id_counter (put_entry q e s) = task_queue_id_counter s"
  "order_counter (put_entry q e s) = order_counter s"
  "wake_log (put_entry q e s) = wake_log s"
  "tls_task_source_grade (put_entry q e s) = tls_task_source_grade s"
  by (simp_all add: put_entry_def)

subsection \<open>Abstract view: the tasks a queue can run\<close>

definition src_at :: "'c task_queues \<Rightarrow> u64 \<Rightarrow> 'c delayed_task multiset" where
  "src_at s x = (case queue_entries s x of None \<Rightarrow> {#} | Some e \<Rightarrow> ts_visible (task_src e))"

text \<open>The visible tasks of an owner and of every queue it subsumes; none for a subsumed queue.\<close>

definition runnable :: "'c task_queues \<Rightarrow> u64 \<Rightarrow> 'c delayed_task multiset" where
  "runnable s q =
     (case queue_entries s q of
        None \<Rightarrow> {#}
      | Some e \<Rightarrow>
          if subsumed_by e \<noteq> kUnmerged then {#}
          else ts_visible (task_src e) + sum_list (map (src_at s) (owner_of e)))"

lemma src_at_Some: "queue_entries s x = Some e \<Longrightarrow> src_at s x = ts_visible (task_src e)"
  by (simp add: src_at_def)

lemma any_pending_eq:
  "\<forall>x \<in> set xs. queue_entries s x \<noteq> None \<Longrightarrow>
     any_pending s xs = Inr (sum_list (map (src_at s) xs) \<noteq> {#})"
  by (induction xs) (auto simp: ts_IsEmpty_iff src_at_def)

lemma owned_present:
  "tq_inv s \<Longrightarrow> queue_entries s q = Some e \<Longrightarrow> \<forall>x \<in> set (owner_of e). queue_entries s x \<noteq> None"
  using links_okD(1) [OF tq_inv_links] by (metis option.distinct(1))

lemma HasPendingTasks_eq:
  assumes "tq_inv s" "queue_entries s q = Some e"
  shows "HasPendingTasks s q = Inr (runnable s q \<noteq> {#})"
  using assms any_pending_eq [OF owned_present [OF assms]]
  by (auto simp: HasPendingTasks_def runnable_def ts_IsEmpty_iff)

lemma sum_pending_eq:
  "\<forall>x \<in> set xs. queue_entries s x \<noteq> None \<Longrightarrow>
     sum_pending s xs n = Inr (n + size (sum_list (map (src_at s) xs)))"
  by (induction xs arbitrary: n) (auto simp: ts_num_size src_at_def)

lemma GetNumPendingTasks_eq:
  assumes "tq_inv s" "queue_entries s q = Some e"
  shows "GetNumPendingTasks s q = Inr (size (runnable s q))"
  using assms sum_pending_eq [OF owned_present [OF assms]]
  by (auto simp: GetNumPendingTasks_def runnable_def ts_num_size)

subsection \<open>The task PeekNextTask chooses\<close>

text \<open>
  \<open>best_in s xs b\<close>: \<open>b\<close> is the accumulator of the loop after the queues \<open>xs\<close>: the top of one
  of them, and no visible task of \<open>xs\<close> is less; or all of them have nothing visible.
\<close>

definition seen :: "'c task_queues \<Rightarrow> u64 list \<Rightarrow> 'c delayed_task multiset" where
  "seen s xs = sum_list (map (src_at s) xs)"

definition best_in ::
  "'c task_queues \<Rightarrow> u64 list \<Rightarrow> (u64 \<times> 'c delayed_task) option \<Rightarrow> bool"
where
  "best_in s xs b \<longleftrightarrow>
     (case b of
        None \<Rightarrow> seen s xs = {#}
      | Some (x, t) \<Rightarrow>
          x \<in> set xs \<and> t \<in># seen s xs \<and> (\<forall>y \<in># seen s xs. \<not> task_gt t y) \<and>
          (\<exists>e. queue_entries s x = Some e \<and> ts_Top (task_src e) = Inr (x, t)))"

lemma seen_append [simp]: "seen s (xs @ ys) = seen s xs + seen s ys"
  by (simp add: seen_def)

lemma seen_Cons [simp]: "seen s (x # xs) = src_at s x + seen s xs"
  by (simp add: seen_def)

lemma seen_Nil [simp]: "seen s [] = {#}"
  by (simp add: seen_def)

lemma runnable_seen:
  "queue_entries s q = Some e \<Longrightarrow> subsumed_by e = kUnmerged \<Longrightarrow>
     runnable s q = seen s (q # owner_of e)"
  by (simp add: runnable_def seen_def src_at_def)

lemma top_task_updater_best:
  assumes inv: "tq_inv s" "queue_entries s x = Some e" and b: "best_in s xs b"
  shows "\<exists>b'. top_task_updater (task_src e) b = Inr b' \<and> best_in s (xs @ [x]) b'"
proof (cases "ts_IsEmpty (task_src e)")
  case True
  with b inv(2) show ?thesis
    by (auto simp: top_task_updater_def ts_IsEmpty_iff best_in_def src_at_Some split: option.splits)
next
  case False
  note ok = tq_invD(1,2) [OF inv]
  from ts_Top_ok [OF ok(1) False] ok(2) obtain t where t: "ts_Top (task_src e) = Inr (x, t)"
    by auto
  note least = ts_Top_least(2,3) [OF ok(1) t]
  show ?thesis
  proof (cases b)
    case None
    with b False t least inv(2) show ?thesis
      by (auto simp: top_task_updater_def best_in_def src_at_Some)
  next
    case (Some p)
    obtain y u where p: "p = (y, u)" by (cases p)
    show ?thesis
    proof (cases "task_gt u t")
      case True
      with Some p t False b least inv(2) show ?thesis
        by (auto simp: top_task_updater_def best_in_def src_at_Some)
           (metis not_task_gt_trans task_gt_asym)
    next
      case gt: False
      with Some p t False b least inv(2) show ?thesis
        by (auto simp: top_task_updater_def best_in_def src_at_Some) (metis not_task_gt_trans)
    qed
  qed
qed

lemma peek_subsumed_best:
  assumes "tq_inv s" "\<forall>x \<in> set xs. queue_entries s x \<noteq> None" "best_in s ys b"
  shows "\<exists>b'. peek_subsumed s xs b = Inr b' \<and> best_in s (ys @ xs) b'"
  using assms(2,3)
proof (induction xs arbitrary: ys b)
  case Nil
  then show ?case by simp
next
  case (Cons x xs)
  from Cons.prems(1) obtain e where e: "queue_entries s x = Some e" by auto
  from top_task_updater_best [OF assms(1) e Cons.prems(2)] obtain b1
    where b1: "top_task_updater (task_src e) b = Inr b1" "best_in s (ys @ [x]) b1" by blast
  from Cons.IH [OF _ b1(2)] Cons.prems(1) obtain b'
    where "peek_subsumed s xs b1 = Inr b'" "best_in s ((ys @ [x]) @ xs) b'" by auto
  with e b1(1) show ?case by auto
qed

lemma PeekNextTask_best:
  assumes inv: "tq_inv s" "queue_entries s q = Some e" and pend: "runnable s q \<noteq> {#}"
  shows "\<exists>x t. PeekNextTask s q = Inr (x, t) \<and> best_in s (q # owner_of e) (Some (x, t))"
proof -
  have un: "subsumed_by e = kUnmerged"
    using pend inv(2) by (auto simp: runnable_def split: if_splits)
  note M = runnable_seen [OF inv(2) un]
  have None: "best_in s [] None" by (simp add: best_in_def)
  from top_task_updater_best [OF inv None] obtain b
    where b: "top_task_updater (task_src e) None = Inr b" "best_in s [q] b"
    by auto
  from peek_subsumed_best [OF inv(1) owned_present [OF inv] b(2)] obtain b'
    where b': "peek_subsumed s (owner_of e) b = Inr b'" "best_in s (q # owner_of e) b'" by auto
  from b'(2) pend M obtain x t where xt: "b' = Some (x, t)"
    by (cases b') (auto simp: best_in_def)
  show ?thesis
  proof (cases "owner_of e = []")
    case True
    with M pend inv(2) have ne: "\<not> ts_IsEmpty (task_src e)"
      by (simp add: ts_IsEmpty_iff src_at_Some)
    with b True b' xt have "ts_Top (task_src e) = Inr (x, t)"
      by (auto simp: top_task_updater_def result_simps)
    with True ne pend b'(2) xt inv show ?thesis
      by (simp add: PeekNextTask_def HasPendingTasks_eq [OF inv])
  next
    case False
    with b b' xt pend inv show ?thesis
      by (simp add: PeekNextTask_def HasPendingTasks_eq [OF inv])
  qed
qed

text \<open>Replacing one source of a list of distinct queues changes its summand only.\<close>

lemma seen_put_other: "x \<notin> set xs \<Longrightarrow> seen (put_entry x e s) xs = seen s xs"
  by (induction xs) (auto simp: src_at_def put_entry_def)

lemma seen_put:
  assumes "x \<in> set xs" "distinct xs" "queue_entries s x = Some e"
  shows "seen s xs + ts_visible src =
         ts_visible (task_src e) + seen (put_entry x (e\<lparr>task_src := src\<rparr>) s) xs"
  using assms(1,2)
proof (induction xs)
  case (Cons y ys)
  have put: "src_at (put_entry x (e\<lparr>task_src := src\<rparr>) s) y =
      (if y = x then ts_visible src else src_at s y)"
    by (simp add: src_at_def put_entry_def)
  show ?case
  proof (cases "y = x")
    case True
    with Cons.prems assms(3) put show ?thesis
      by (simp add: seen_put_other src_at_Some ac_simps)
  next
    case False
    with Cons put show ?thesis by (simp add: add.left_commute add.assoc)
  qed
qed simp

text \<open>The earliest due time of the runnable tasks.\<close>

definition earliest :: "'c task_queues \<Rightarrow> u64 \<Rightarrow> int" where
  "earliest s q = Min (target_time ` set_mset (runnable s q))"

lemma earliest_eq:
  assumes "t \<in># runnable s q" "\<forall>y \<in># runnable s q. \<not> task_gt t y"
  shows "earliest s q = target_time t"
  unfolding earliest_def
proof (rule Min_eqI)
  fix y assume "y \<in> target_time ` set_mset (runnable s q)"
  then obtain u where "u \<in># runnable s q" "y = target_time u" by auto
  with assms(2) have "\<not> task_gt t u" by blast
  then show "target_time t \<le> y" using \<open>y = target_time u\<close>
    by (auto simp: task_gt_def split: if_splits)
qed (use assms(1) in auto)

definition wake_entry :: "'c task_queues \<Rightarrow> u64 \<Rightarrow> (nat \<times> int) list" where
  "wake_entry s q =
     (case queue_entries s q of
        None \<Rightarrow> []
      | Some e \<Rightarrow>
          (case wakeable e of
             None \<Rightarrow> []
           | Some w \<Rightarrow> if runnable s q = {#} then [] else [(w, earliest s q)]))"

lemma wake_if_pending_spec:
  assumes inv: "tq_inv s" "queue_entries s q = Some e"
  shows "wake_if_pending q s = Inr (s\<lparr>wake_log := wake_log s @ wake_entry s q\<rparr>)"
proof (cases "runnable s q = {#}")
  case True
  then show ?thesis
    using inv(2)
    by (auto simp: wake_if_pending_def HasPendingTasks_eq [OF inv] wake_entry_def split: option.split)
next
  case False
  have un: "subsumed_by e = kUnmerged"
    using False inv(2) by (auto simp: runnable_def split: if_splits)
  from PeekNextTask_best [OF inv False] obtain x t
    where pk: "PeekNextTask s q = Inr (x, t)" and b: "best_in s (q # owner_of e) (Some (x, t))"
    by blast
  have "earliest s q = target_time t"
    by (rule earliest_eq) (use b in \<open>auto simp: best_in_def runnable_seen [OF inv(2) un]\<close>)
  with False inv(2) pk show ?thesis
    by (auto simp: wake_if_pending_def HasPendingTasks_eq [OF inv] GetNextWakeTime_def WakeUp_def
             wake_entry_def split: option.splits)
qed

lemma wake_if_pending_ok:
  "tq_inv s \<Longrightarrow> queue_entries s q = Some e \<Longrightarrow>
     \<exists>s'. wake_if_pending q s = Inr s' \<and> (\<exists>l. s' = s\<lparr>wake_log := l\<rparr>)"
  by (auto simp: wake_if_pending_spec)

subsection \<open>Preservation by every operation\<close>

lemma tq_inv_fields [simp]:
  "tq_inv (s\<lparr>wake_log := l\<rparr>) = tq_inv s"
  "tq_inv (s\<lparr>tls_task_source_grade := g\<rparr>) = tq_inv s"
  "tq_inv (s\<lparr>order_counter := n\<rparr>) = tq_inv s"
  by (simp_all add: tq_inv_def)

lemma src_at_fields [simp]:
  "src_at (s\<lparr>wake_log := l\<rparr>) = src_at s"
  "src_at (s\<lparr>tls_task_source_grade := g\<rparr>) = src_at s"
  "src_at (s\<lparr>order_counter := n\<rparr>) = src_at s"
  by (simp_all add: src_at_def fun_eq_iff)

lemma runnable_fields [simp]:
  "runnable (s\<lparr>wake_log := l\<rparr>) q = runnable s q"
  "runnable (s\<lparr>tls_task_source_grade := g\<rparr>) q = runnable s q"
  "runnable (s\<lparr>order_counter := n\<rparr>) q = runnable s q"
  by (cases "queue_entries s q"; simp add: runnable_def)+

lemma WakeUp_log: "WakeUp q time s = Inr s' \<Longrightarrow> \<exists>l. s' = s\<lparr>wake_log := l\<rparr>"
  by (auto simp: WakeUp_def result_simps split: option.splits intro: exI [of _ "wake_log s"])

lemma wake_if_pending_log: "wake_if_pending q s = Inr s' \<Longrightarrow> \<exists>l. s' = s\<lparr>wake_log := l\<rparr>"
  by (auto simp: wake_if_pending_def result_simps split: if_splits dest: WakeUp_log
           intro: exI [of _ "wake_log s"])

lemma wake_if_pending_inv: "wake_if_pending q s = Inr s' \<Longrightarrow> tq_inv s' = tq_inv s"
  by (auto dest!: wake_if_pending_log)

lemma entry_ok_simps [simp]:
  "entry_ok q (e\<lparr>wakeable := w\<rparr>) = entry_ok q e"
  "entry_ok q (e\<lparr>subsumed_by := p\<rparr>) = entry_ok q e"
  by (simp_all add: entry_ok_def)

lemma CreateTaskQueue_inv:
  assumes inv: "tq_inv s" and lim: "task_queue_id_counter s < kInvalid"
    and c: "CreateTaskQueue s = (q, s')"
  shows "tq_inv s'"
proof -
  let ?n = "task_queue_id_counter s" and ?m = "queue_entries s"
  have s': "s' = put_entry ?n (new_entry ?n) (s\<lparr>task_queue_id_counter := ?n + 1\<rparr>)"
    using c by (auto simp: CreateTaskQueue_def Let_def)
  have fresh: "?m ?n = None"
    using inv by (cases "?m ?n") (auto simp: tq_inv_def)
  have lt: "?n < ?n + 1" "?n + 1 \<le> kInvalid"
    using lim by (auto intro: word_inc_less inc_le)
  have "links_ok (?m(?n \<mapsto> new_entry ?n))"
    unfolding links_ok_def
  proof (intro allI impI conjI ballI)
    fix p e assume e: "(?m(?n \<mapsto> new_entry ?n)) p = Some e"
    show "\<exists>z. (?m(?n \<mapsto> new_entry ?n)) x = Some z \<and> subsumed_by z = p" if "x \<in> set (owner_of e)" for x
      using that e fresh links_okD(1) [OF tq_inv_links [OF inv]]
      by (fastforce simp: new_entry_def split: if_splits)
    show "owner_of e = []" if "subsumed_by e \<noteq> kUnmerged"
      using that e links_okD(2) [OF tq_inv_links [OF inv]]
      by (auto simp: new_entry_def split: if_splits)
    show "\<exists>z. (?m(?n \<mapsto> new_entry ?n)) (subsumed_by e) = Some z \<and> p \<in> set (owner_of z)"
      if "subsumed_by e \<noteq> kUnmerged"
      using that e fresh links_okD(3) [OF tq_inv_links [OF inv]]
      by (fastforce simp: new_entry_def split: if_splits)
  qed
  then show ?thesis
    using inv lt s'
    by (auto simp: tq_inv_def entry_ok_def new_entry_def new_task_source_def ts_inv_def
             intro: less_trans)
qed

lemma Dispose_inv:
  assumes inv: "tq_inv s" and d: "Dispose q s = Inr s'"
  shows "tq_inv s'"
proof -
  from d obtain e where e: "queue_entries s q = Some e" "subsumed_by e = kUnmerged"
    and s': "s' = s\<lparr>queue_entries :=
        (\<lambda>x. if x = q \<or> x \<in> set (owner_of e) then None else queue_entries s x)\<rparr>"
    by (auto simp: Dispose_def result_simps)
  note L = links_okD [OF tq_inv_links [OF inv]]
  have gone: "p = q \<or> p \<in> set (owner_of e)"
    if p: "queue_entries s p = Some f" "x \<in> set (owner_of f)" "x = q \<or> x \<in> set (owner_of e)" for p f x
  proof -
    from L(1) [OF p(1,2)] obtain g where g: "queue_entries s x = Some g" "subsumed_by g = p" by blast
    have "x \<noteq> q" using g e tq_invD(5) [OF inv p(1)] by auto
    with p(3) L(1) [OF e(1), of x] g show ?thesis by auto
  qed
  have gone': "p = q \<or> p \<in> set (owner_of e)"
    if "queue_entries s p = Some f" "subsumed_by f \<noteq> kUnmerged"
      "subsumed_by f = q \<or> subsumed_by f \<in> set (owner_of e)" for p f
    using that L(3) [OF that(1,2)] L(1) [OF e(1)] e L(2)
    by (metis empty_iff empty_set option.inject tq_invD(5) [OF inv e(1)])
  have "links_ok (queue_entries s')"
    unfolding links_ok_def s' using L gone gone' by (auto split: if_splits; metis)
  then show ?thesis using inv s' by (auto simp: tq_inv_def split: if_splits)
qed

lemma put_src_inv:
  assumes "tq_inv s" "queue_entries s q = Some e" "ts_inv src" "task_queue_id src = q"
  shows "tq_inv (put_entry q (e\<lparr>task_src := src\<rparr>) s)"
  using assms(3,4) tq_invD [OF assms(1,2)]
  by (intro tq_inv_put_same [OF assms(1,2)]) (auto simp: entry_ok_def)

lemma shut_down_all_inv:
  "tq_inv s \<Longrightarrow> shut_down_all xs s = Inr s' \<Longrightarrow> tq_inv s'"
proof (induction xs arbitrary: s)
  case (Cons x xs)
  from Cons.prems(2) obtain e where e: "queue_entries s x = Some e"
    "shut_down_all xs (put_entry x (e\<lparr>task_src := ts_ShutDown (task_src e)\<rparr>) s) = Inr s'"
    by (auto simp: result_simps)
  moreover have "tq_inv (put_entry x (e\<lparr>task_src := ts_ShutDown (task_src e)\<rparr>) s)"
    using tq_invD [OF Cons.prems(1) e(1)]
    by (intro put_src_inv [OF Cons.prems(1) e(1)]) (auto intro: inv_intros)
  ultimately show ?case by (blast intro: Cons.IH)
qed simp

lemma DisposeTasks_inv:
  assumes inv: "tq_inv s" and d: "DisposeTasks q s = Inr s'"
  shows "tq_inv s'"
proof -
  from d obtain e where e: "queue_entries s q = Some e"
    and all: "shut_down_all (owner_of e)
                (put_entry q (e\<lparr>task_src := ts_ShutDown (task_src e)\<rparr>) s) = Inr s'"
    by (auto simp: DisposeTasks_def result_simps)
  have "tq_inv (put_entry q (e\<lparr>task_src := ts_ShutDown (task_src e)\<rparr>) s)"
    using tq_invD [OF inv e] by (intro put_src_inv [OF inv e]) (auto intro: inv_intros)
  then show ?thesis using all by (rule shut_down_all_inv)
qed

lemma RegisterTask_inv:
  assumes inv: "tq_inv s" and r: "RegisterTask q c time g s = Inr s'"
  shows "tq_inv s'"
proof -
  let ?s1 = "s\<lparr>order_counter := order_counter s + 1\<rparr>"
  from r obtain e t w where e: "queue_entries s q = Some e"
    and wk: "wake_if_pending w
               (put_entry q (e\<lparr>task_src := ts_RegisterTask t (task_src e)\<rparr>) ?s1) = Inr s'"
    by (auto simp: RegisterTask_def Let_def result_simps)
  have "tq_inv (put_entry q (e\<lparr>task_src := ts_RegisterTask t (task_src e)\<rparr>) ?s1)"
    using tq_invD [OF inv e] inv e by (intro put_src_inv) (auto intro: inv_intros)
  then show ?thesis using wake_if_pending_inv [OF wk] by simp
qed

lemma GetNextTaskToRun_inv:
  assumes inv: "tq_inv s" and g: "GetNextTaskToRun thr q now s = Inr (r, s')"
  shows "tq_inv s'"
proof -
  have pop: "tq_inv (put_entry x (e\<lparr>task_src := src\<rparr>) (s\<lparr>wake_log := l\<rparr>))"
    if "queue_entries s x = Some e" "ts_PopTask gr (task_src e) = Inr src" for x e src gr l
    using that inv tq_invD(1,2) [OF inv that(1)]
    by (intro put_src_inv) (auto simp: ts_id_PopTask intro: ts_inv_PopTask)
  show ?thesis
    using g inv
    by (auto simp: GetNextTaskToRun_def result_simps pop split: if_splits dest!: WakeUp_log)
qed

lemma put_observers_inv:
  assumes "tq_inv s" "queue_entries s q = Some e" "sset (map fst obs)"
  shows "tq_inv (put_entry q (e\<lparr>task_observers := obs\<rparr>) s)"
  using assms(3) tq_invD [OF assms(1,2)]
  by (intro tq_inv_put_same [OF assms(1,2)]) (auto simp: entry_ok_def)

lemma AddTaskObserver_inv: "tq_inv s \<Longrightarrow> AddTaskObserver q k c s = Inr s' \<Longrightarrow> tq_inv s'"
  using tq_invD(4) [of s q]
  by (auto simp: AddTaskObserver_def result_simps simp del: sset_smap_put split: option.splits
           intro!: put_observers_inv sset_smap_put)

lemma RemoveTaskObserver_inv: "tq_inv s \<Longrightarrow> RemoveTaskObserver q k s = Inr s' \<Longrightarrow> tq_inv s'"
  using tq_invD(4) [of s q]
  by (auto simp: RemoveTaskObserver_def result_simps simp del: sset_smap_del
           intro!: put_observers_inv sset_smap_del)

lemma SetWakeable_inv:
  assumes inv: "tq_inv s" and w: "SetWakeable q w s = Inr s'"
  shows "tq_inv s'"
proof -
  from w obtain e where e: "queue_entries s q = Some e" "s' = put_entry q (e\<lparr>wakeable := w\<rparr>) s"
    by (auto simp: SetWakeable_def result_simps)
  with entry_ok_of_inv [OF inv e(1)] show ?thesis
    by (auto intro: tq_inv_put_same [OF inv e(1)])
qed

lemma PauseSecondarySource_inv: "tq_inv s \<Longrightarrow> PauseSecondarySource q s = Inr s' \<Longrightarrow> tq_inv s'"
  using tq_invD(1,2) [of s q]
  by (auto simp: PauseSecondarySource_def result_simps ts_id_PauseSecondary
      intro!: put_src_inv intro: ts_inv_PauseSecondary)

lemma ts_id_ResumeSecondary: "ts_ResumeSecondary s = Inr s' \<Longrightarrow> task_queue_id s' = task_queue_id s"
  by (auto simp: ts_ResumeSecondary_def Let_def result_simps)

lemma ResumeSecondarySource_inv:
  assumes inv: "tq_inv s" and r: "ResumeSecondarySource q s = Inr s'"
  shows "tq_inv s'"
proof -
  from r obtain e src where e: "queue_entries s q = Some e"
    and src: "ts_ResumeSecondary (task_src e) = Inr src"
    and wk: "wake_if_pending q (put_entry q (e\<lparr>task_src := src\<rparr>) s) = Inr s'"
    by (auto simp: ResumeSecondarySource_def result_simps)
  have "tq_inv (put_entry q (e\<lparr>task_src := src\<rparr>) s)"
    using tq_invD(1,2) [OF inv e] src
    by (intro put_src_inv [OF inv e]) (auto simp: ts_id_ResumeSecondary intro: ts_inv_ResumeSecondary)
  then show ?thesis using wake_if_pending_inv [OF wk] by simp
qed

subsection \<open>Linking and unlinking two queues\<close>

definition link :: "u64 \<Rightarrow> u64 \<Rightarrow> 'c task_queues \<Rightarrow> 'c task_queues" where
  "link owner sub s =
     (case (queue_entries s owner, queue_entries s sub) of
        (Some oe, Some se) \<Rightarrow>
          put_entry sub (se\<lparr>subsumed_by := owner\<rparr>)
            (put_entry owner (oe\<lparr>owner_of := insort_insert sub (owner_of oe)\<rparr>) s)
      | _ \<Rightarrow> s)"

definition unlink :: "u64 \<Rightarrow> u64 \<Rightarrow> 'c task_queues \<Rightarrow> 'c task_queues" where
  "unlink owner sub s =
     (case (queue_entries s owner, queue_entries s sub) of
        (Some oe, Some se) \<Rightarrow>
          put_entry owner (oe\<lparr>owner_of := remove1 sub (owner_of oe)\<rparr>)
            (put_entry sub (se\<lparr>subsumed_by := kUnmerged\<rparr>) s)
      | _ \<Rightarrow> s)"

definition mergeable :: "u64 \<Rightarrow> u64 \<Rightarrow> 'c task_queues \<Rightarrow> bool" where
  "mergeable owner sub s \<longleftrightarrow>
     owner \<noteq> sub \<and>
     (\<exists>oe se. queue_entries s owner = Some oe \<and> queue_entries s sub = Some se \<and>
        sub \<notin> set (owner_of oe) \<and> subsumed_by oe = kUnmerged \<and>
        owner_of se = [] \<and> subsumed_by se = kUnmerged)"

definition unmergeable :: "u64 \<Rightarrow> u64 \<Rightarrow> 'c task_queues \<Rightarrow> bool" where
  "unmergeable owner sub s \<longleftrightarrow>
     (\<exists>oe se. queue_entries s owner = Some oe \<and> queue_entries s sub = Some se \<and>
        sub \<in> set (owner_of oe) \<and> subsumed_by oe = kUnmerged \<and> subsumed_by se \<noteq> kUnmerged)"

lemma Merge_cases:
  assumes "Merge owner sub s = Inr (b, s')"
  shows "(s' = s \<and> \<not> mergeable owner sub s) \<or>
         (b \<and> mergeable owner sub s \<and> (\<exists>l. s' = (link owner sub s)\<lparr>wake_log := l\<rparr>))"
  using assms
  by (auto simp: Merge_def Let_def result_simps mergeable_def link_def split: if_splits
           dest!: wake_if_pending_log)

lemma Unmerge_cases:
  assumes "Unmerge owner sub s = Inr (b, s')"
  shows "(\<not> b \<and> s' = s \<and> \<not> unmergeable owner sub s) \<or>
         (b \<and> unmergeable owner sub s \<and> owner \<noteq> sub \<and>
            (\<exists>l. s' = (unlink owner sub s)\<lparr>wake_log := l\<rparr>))"
  using assms
  by (auto simp: Unmerge_def Let_def result_simps unmergeable_def unlink_def put_entry_def
           split: if_splits dest!: wake_if_pending_log)

lemma link_inv:
  assumes inv: "tq_inv s" and mg: "mergeable owner sub s"
  shows "tq_inv (link owner sub s)"
proof -
  from mg obtain oe se where e: "queue_entries s owner = Some oe" "queue_entries s sub = Some se"
    and c: "owner \<noteq> sub" "sub \<notin> set (owner_of oe)" "subsumed_by oe = kUnmerged"
      "owner_of se = []" "subsumed_by se = kUnmerged"
    by (auto simp: mergeable_def)
  note L = links_okD [OF tq_inv_links [OF inv]]
  let ?s = "link owner sub s"
  let ?oe = "oe\<lparr>owner_of := insort_insert sub (owner_of oe)\<rparr>"
  let ?se = "se\<lparr>subsumed_by := owner\<rparr>"
  have m: "queue_entries ?s = (queue_entries s)(owner \<mapsto> ?oe, sub \<mapsto> ?se)"
    using e by (simp add: link_def)
  have "links_ok (queue_entries ?s)"
    unfolding links_ok_def
  proof (intro allI impI conjI ballI)
    fix q e' assume q: "queue_entries ?s q = Some e'"
    show "\<exists>z. queue_entries ?s x = Some z \<and> subsumed_by z = q" if x: "x \<in> set (owner_of e')" for x
    proof (cases "q = owner")
      case True
      then have "x = sub \<or> x \<in> set (owner_of oe)"
        using x q m c(1) by (auto simp: set_insort_insert)
      then show ?thesis
        using True m L(1) [OF e(1), of x] owner_not_self [OF inv e(1)] by auto
    next
      case False
      with x q m c(4) have q': "queue_entries s q = Some e'" by (auto split: if_splits)
      from L(1) [OF q' x] obtain z where z: "queue_entries s x = Some z" "subsumed_by z = q" by blast
      have "x \<noteq> owner" "x \<noteq> sub"
        using z e c tq_invD(5) [OF inv q'] by auto
      with z m show ?thesis by auto
    qed
    assume sub: "subsumed_by e' \<noteq> kUnmerged"
    show "owner_of e' = []"
      using sub q m c L(2) by (auto split: if_splits)
    show "\<exists>z. queue_entries ?s (subsumed_by e') = Some z \<and> q \<in> set (owner_of z)"
    proof (cases "q = sub")
      case True
      with q m c(1) show ?thesis by (auto simp: set_insort_insert)
    next
      case False
      with sub q m c have q': "queue_entries s q = Some e'" by (auto split: if_splits)
      from L(3) [OF q' sub] e c m show ?thesis
        by (auto simp: set_insort_insert split: if_splits)
    qed
  qed
  moreover have "entry_ok owner ?oe"
    using tq_invD [OF inv e(1)] by (auto simp: entry_ok_def intro: sorted_insort_insert
      distinct_insort_insert)
  moreover have "entry_ok sub ?se" using entry_ok_of_inv [OF inv e(2)] by simp
  ultimately show ?thesis
    using inv e m by (auto simp: tq_inv_def link_def)
qed

lemma unlink_inv:
  assumes inv: "tq_inv s" and mg: "unmergeable owner sub s"
  shows "tq_inv (unlink owner sub s)"
proof -
  from mg obtain oe se where e: "queue_entries s owner = Some oe" "queue_entries s sub = Some se"
    and c: "sub \<in> set (owner_of oe)" "subsumed_by oe = kUnmerged" "subsumed_by se \<noteq> kUnmerged"
    by (auto simp: unmergeable_def)
  note L = links_okD [OF tq_inv_links [OF inv]]
  have ne: "owner \<noteq> sub" using e c by auto
  have own: "subsumed_by se = owner" using L(1) [OF e(1) c(1)] e(2) by auto
  have empty: "owner_of se = []" using L(2) [OF e(2) c(3)] .
  let ?s = "unlink owner sub s"
  let ?oe = "oe\<lparr>owner_of := remove1 sub (owner_of oe)\<rparr>"
  let ?se = "se\<lparr>subsumed_by := kUnmerged\<rparr>"
  have m: "queue_entries ?s = (queue_entries s)(owner \<mapsto> ?oe, sub \<mapsto> ?se)"
    using e ne by (simp add: unlink_def fun_upd_twist)
  have set: "set (remove1 sub (owner_of oe)) = set (owner_of oe) - {sub}"
    using tq_invD(3) [OF inv e(1)] by simp
  have "links_ok (queue_entries ?s)"
    unfolding links_ok_def
  proof (intro allI impI conjI ballI)
    fix q e' assume q: "queue_entries ?s q = Some e'"
    show "\<exists>z. queue_entries ?s x = Some z \<and> subsumed_by z = q" if x: "x \<in> set (owner_of e')" for x
    proof (cases "q = owner")
      case True
      then have "e' = ?oe" using q ne by (simp add: m)
      then have "x \<in> set (owner_of oe)" "x \<noteq> sub" using x by (simp_all add: set)
      moreover from this(1) obtain z where "queue_entries s x = Some z" "subsumed_by z = owner"
        using L(1) [OF e(1)] by blast
      moreover have "x \<noteq> owner" using calculation(1) owner_not_self [OF inv e(1)] by metis
      ultimately show ?thesis using True by (simp add: m)
    next
      case False
      with x q m empty have q': "queue_entries s q = Some e'" by (auto split: if_splits)
      from L(1) [OF q' x] obtain z where z: "queue_entries s x = Some z" "subsumed_by z = q" by blast
      have "x \<noteq> owner" "x \<noteq> sub"
        using z e c own False tq_invD(5) [OF inv q'] by auto
      with z m show ?thesis by auto
    qed
    assume sub: "subsumed_by e' \<noteq> kUnmerged"
    show "owner_of e' = []"
      using sub q m c L(2) by (auto split: if_splits)
    show "\<exists>z. queue_entries ?s (subsumed_by e') = Some z \<and> q \<in> set (owner_of z)"
    proof (cases "q = sub")
      case True
      with q m sub show ?thesis by auto
    next
      case False
      with sub q m c have q': "queue_entries s q = Some e'" by (auto split: if_splits)
      from L(3) [OF q' sub] obtain z
        where z: "queue_entries s (subsumed_by e') = Some z" "q \<in> set (owner_of z)" by blast
      have "subsumed_by e' \<noteq> sub" using z e(2) empty by auto
      then show ?thesis using z e(1) False ne
        by (cases "subsumed_by e' = owner") (simp_all add: m set)
    qed
  qed
  moreover have "entry_ok owner ?oe"
    using tq_invD [OF inv e(1)] by (auto simp: entry_ok_def sorted_remove1)
  moreover have "entry_ok sub ?se" using entry_ok_of_inv [OF inv e(2)] by simp
  ultimately show ?thesis
    using inv e m by (auto simp: tq_inv_def unlink_def)
qed

lemma Merge_inv: "tq_inv s \<Longrightarrow> Merge owner sub s = Inr (b, s') \<Longrightarrow> tq_inv s'"
  using Merge_cases [of owner sub s b s'] link_inv by auto

lemma Unmerge_inv: "tq_inv s \<Longrightarrow> Unmerge owner sub s = Inr (b, s') \<Longrightarrow> tq_inv s'"
  using Unmerge_cases [of owner sub s b s'] unlink_inv by auto

end
