(* ===== verification/Task_Queues_Props.thy ===== *)
theory Task_Queues_Props
  imports Task_Queues_Inv
begin

text \<open>
  The task queues as a state machine, its reachable states, and the properties of merging,
  of the choice of the next task and of the wake-ups, stated over \<open>runnable\<close>: the bag of
  tasks a queue may run.
\<close>

subsection \<open>The state machine\<close>

datatype 'c tq_event =
    EvCreate u64
  | EvDispose u64
  | EvDisposeTasks u64
  | EvRegister u64 'c int TaskSourceGrade
  | EvGetNext nat u64 int "'c option"
  | EvAddObserver u64 int "'c option"
  | EvRemoveObserver u64 int
  | EvSetWakeable u64 "nat option"
  | EvMerge u64 u64 bool
  | EvUnmerge u64 u64 bool
  | EvPause u64
  | EvResume u64

text \<open>
  One rule per public operation that changes the table. The only premise that is not the
  operation itself is that the 64-bit counter of identifiers has not reached the sentinels.
\<close>

inductive tq_step :: "'c task_queues \<Rightarrow> 'c tq_event \<Rightarrow> 'c task_queues \<Rightarrow> bool" where
  step_create: "task_queue_id_counter s < kInvalid \<Longrightarrow> CreateTaskQueue s = (q, t) \<Longrightarrow>
     tq_step s (EvCreate q) t"
| step_dispose: "Dispose q s = Inr t \<Longrightarrow> tq_step s (EvDispose q) t"
| step_dispose_tasks: "DisposeTasks q s = Inr t \<Longrightarrow> tq_step s (EvDisposeTasks q) t"
| step_register: "RegisterTask q c time g s = Inr t \<Longrightarrow> tq_step s (EvRegister q c time g) t"
| step_get_next: "GetNextTaskToRun thr q now s = Inr (r, t) \<Longrightarrow> tq_step s (EvGetNext thr q now r) t"
| step_add_observer: "AddTaskObserver q k c s = Inr t \<Longrightarrow> tq_step s (EvAddObserver q k c) t"
| step_remove_observer: "RemoveTaskObserver q k s = Inr t \<Longrightarrow> tq_step s (EvRemoveObserver q k) t"
| step_set_wakeable: "SetWakeable q w s = Inr t \<Longrightarrow> tq_step s (EvSetWakeable q w) t"
| step_merge: "Merge a b s = Inr (r, t) \<Longrightarrow> tq_step s (EvMerge a b r) t"
| step_unmerge: "Unmerge a b s = Inr (r, t) \<Longrightarrow> tq_step s (EvUnmerge a b r) t"
| step_pause: "PauseSecondarySource q s = Inr t \<Longrightarrow> tq_step s (EvPause q) t"
| step_resume: "ResumeSecondarySource q s = Inr t \<Longrightarrow> tq_step s (EvResume q) t"

inductive_cases tq_stepE: "tq_step s e t"

definition tq_start :: "'c task_queues \<Rightarrow> bool" where
  "tq_start s \<longleftrightarrow> (\<exists>thr. s = new_task_queues thr)"

lemma tq_inv_new: "tq_inv (new_task_queues thr)"
  by (simp add: tq_inv_def new_task_queues_def links_ok_def kInvalid_def)

interpretation tq: transition_system tq_start tq_step tq_inv
proof unfold_locales
  show "tq_start s \<Longrightarrow> tq_inv s" for s :: "'a task_queues"
    by (auto simp: tq_start_def tq_inv_new)
  show "tq_inv s \<Longrightarrow> tq_step s e t \<Longrightarrow> tq_inv t" for s t :: "'a task_queues" and e
    by (erule tq_stepE)
       (auto intro: CreateTaskQueue_inv Dispose_inv DisposeTasks_inv RegisterTask_inv
          GetNextTaskToRun_inv AddTaskObserver_inv RemoveTaskObserver_inv SetWakeable_inv
          Merge_inv Unmerge_inv PauseSecondarySource_inv ResumeSecondarySource_inv)
qed

abbreviation tq_reachable :: "'c task_queues \<Rightarrow> bool" where
  "tq_reachable \<equiv> reachable_from tq_start tq_step"

subsection \<open>A reachable table for the witnesses\<close>

text \<open>
  Two queues; queue 0 has a wakeable and a task due at 10, queue 1 a task due at 5.
\<close>

definition two_queues :: "nat task_queues" where
  "two_queues = snd (CreateTaskQueue (snd (CreateTaskQueue (new_task_queues 0))))"

definition two_tasks :: "nat task_queues result" where
  "two_tasks =
     rbind (SetWakeable 0 (Some 7) two_queues) (\<lambda>s.
     rbind (RegisterTask 0 100 10 kUnspecified s) (\<lambda>s.
       RegisterTask 1 101 5 kDartEventLoop s))"

lemma counter_below_sentinels: "(0 :: u64) < - 2" "(1 :: u64) < - 2"
  by (simp_all add: word_less_nat_alt)

lemma two_queues_reachable: "tq_reachable two_queues"
proof -
  have "tq_reachable (new_task_queues 0 :: nat task_queues)"
    by (rule reach_start) (auto simp: tq_start_def)
  then have "tq_reachable (snd (CreateTaskQueue (new_task_queues 0 :: nat task_queues)))"
    by (rule reach_step [where e = "EvCreate 0"])
       (rule step_create, simp_all add: CreateTaskQueue_def new_task_queues_def kInvalid_def counter_below_sentinels)
  then show ?thesis
    unfolding two_queues_def
    by (rule reach_step [where e = "EvCreate 1"])
       (rule step_create, simp_all add: CreateTaskQueue_def new_task_queues_def kInvalid_def
         counter_below_sentinels)
qed

lemmas tq_eval = two_tasks_def two_queues_def CreateTaskQueue_def new_task_queues_def
  new_entry_def new_task_source_def put_entry_def entry_at_def SetWakeable_def RegisterTask_def
  wake_if_pending_def HasPendingTasks_def PeekNextTask_def GetNextWakeTime_def WakeUp_def
  top_task_updater_def ts_Top_def ts_IsEmpty_def ts_GetNumPendingTasks_def ts_RegisterTask_def
  heap_top_def heap_pop_def ts_PopTask_def task_gt_def kUnmerged_def Merge_def Unmerge_def
  GetNextTaskToRun_def insort_insert_insort runnable_def src_at_def ts_visible_def Let_def

definition demo :: "nat task_queues" where
  "demo = (case two_tasks of Inr s \<Rightarrow> s | Inl _ \<Rightarrow> two_queues)"

definition demo_merged :: "nat task_queues" where
  "demo_merged = (case Merge 0 1 demo of Inr (_, s) \<Rightarrow> s | Inl _ \<Rightarrow> demo)"

lemma two_tasks_ok: "\<exists>s1 s2. SetWakeable 0 (Some 7) two_queues = Inr s1 \<and>
    RegisterTask 0 100 10 kUnspecified s1 = Inr s2 \<and>
    RegisterTask 1 101 5 kDartEventLoop s2 = Inr demo"
  by (simp add: demo_def tq_eval)

lemma demo_reachable: "tq_reachable demo"
  using two_tasks_ok two_queues_reachable
  by (meson reach_step step_register step_set_wakeable)

lemma demo_merge: "Merge 0 1 demo = Inr (True, demo_merged)"
  by (simp add: demo_merged_def demo_def tq_eval)

lemma demo_merged_reachable: "tq_reachable demo_merged"
  using demo_merge demo_reachable by (meson reach_step step_merge)

subsection \<open>Helper facts for the properties\<close>

lemma reachable_tq_inv: "tq_reachable s \<Longrightarrow> tq_inv s"
  by (rule tq.reachable_inv)

lemma runnable_distinct:
  "tq_inv s \<Longrightarrow> queue_entries s q = Some e \<Longrightarrow> distinct (q # owner_of e)"
  using tq_invD(3) owner_not_self by fastforce

lemma GetNextTaskToRun_spec:
  assumes inv: "tq_inv s" and e: "queue_entries s q = Some e"
  shows "(runnable s q = {#} \<and> GetNextTaskToRun thr q now s = Inr (None, s)) \<or>
    (\<exists>t s'. t \<in># runnable s q \<and> (\<forall>y \<in># runnable s q. \<not> task_gt t y) \<and>
       wake_log s' = wake_log s @
         (case wakeable e of None \<Rightarrow> [] | Some w \<Rightarrow> [(w, target_time t)]) \<and>
       (if target_time t > now
        then GetNextTaskToRun thr q now s = Inr (None, s') \<and> queue_entries s' = queue_entries s
        else GetNextTaskToRun thr q now s = Inr (Some (task t), s') \<and>
             runnable s q = {#t#} + runnable s' q \<and>
             tls_task_source_grade s' thr = Some (task_source_grade t)))"
proof (cases "runnable s q = {#}")
  case True
  with inv e show ?thesis by (simp add: GetNextTaskToRun_def HasPendingTasks_eq [OF inv e])
next
  case False
  from PeekNextTask_best [OF inv e False] obtain x t
    where pk: "PeekNextTask s q = Inr (x, t)" and b: "best_in s (q # owner_of e) (Some (x, t))"
    by blast
  have un: "subsumed_by e = kUnmerged"
    using False e by (auto simp: runnable_def split: if_splits)
  note R = runnable_seen [OF e un]
  from b obtain f where f: "queue_entries s x = Some f" "ts_Top (task_src f) = Inr (x, t)"
    and x: "x \<in> set (q # owner_of e)" and t: "t \<in># seen s (q # owner_of e)"
      "\<forall>y \<in># seen s (q # owner_of e). \<not> task_gt t y"
    by (auto simp: best_in_def)
  let ?l = "wake_log s @ (case wakeable e of None \<Rightarrow> [] | Some w \<Rightarrow> [(w, target_time t)])"
  let ?s1 = "s\<lparr>wake_log := ?l\<rparr>"
  have wk: "WakeUp q (target_time t) s = Inr ?s1"
    using e by (cases "wakeable e") (simp_all add: WakeUp_def)
  from ts_PopTask_top [OF tq_invD(1) [OF inv f(1)] f(2)] obtain src
    where src: "ts_PopTask (task_source_grade t) (task_src f) = Inr src"
      "ts_visible src = ts_visible (task_src f) - {#t#}" by blast
  have vis: "ts_visible (task_src f) = {#t#} + ts_visible src"
    using src(2) ts_Top_least(2) [OF tq_invD(1) [OF inv f(1)] f(2)] by simp
  let ?s2 = "(put_entry x (f\<lparr>task_src := src\<rparr>) ?s1)
      \<lparr>tls_task_source_grade := (tls_task_source_grade s)(thr \<mapsto> task_source_grade t)\<rparr>"
  have e2: "\<exists>e2. queue_entries ?s2 q = Some e2 \<and> subsumed_by e2 = kUnmerged \<and>
              owner_of e2 = owner_of e"
    using e f(1) un by (cases "x = q") auto
  have "seen s (q # owner_of e) =
      {#t#} + seen (put_entry x (f\<lparr>task_src := src\<rparr>) s) (q # owner_of e)"
    using seen_put [OF x runnable_distinct [OF inv e] f(1), of src] vis by simp
  moreover have "src_at ?s2 = src_at (put_entry x (f\<lparr>task_src := src\<rparr>) s)"
    by (simp add: src_at_def fun_eq_iff)
  moreover have "runnable ?s2 q = seen ?s2 (q # owner_of e)"
    using e2 runnable_seen [of ?s2 q] by metis
  ultimately have run: "runnable s q = {#t#} + runnable ?s2 q"
    unfolding R by (simp only: seen_def)
  have "GetNextTaskToRun thr q now s =
      (if target_time t > now then Inr (None, ?s1) else Inr (Some (task t), ?s2))"
    using False pk wk f(1) src(1)
    by (simp add: GetNextTaskToRun_def HasPendingTasks_eq [OF inv e] GetNextWakeTime_def)
  then show ?thesis
    using t R run
    by (intro disjI2 exI [of _ t] exI [of _ "if target_time t > now then ?s1 else ?s2"]) auto
qed

subsection \<open>Properties\<close>

text \<open>
  C1: In every reachable table each queue is in exactly one of the three states the header
  promises: an owner is not subsumed, a subsumed queue owns none and its owner exists and
  lists it, and a queue that is neither is independent; every queue an owner lists exists
  and names that owner.
\<close>

theorem queue_states_exclusive:
  assumes "tq_reachable s" and "queue_entries s q = Some e"
  shows "(owner_of e \<noteq> [] \<longrightarrow> subsumed_by e = kUnmerged) \<and>
         (subsumed_by e \<noteq> kUnmerged \<longrightarrow>
            owner_of e = [] \<and>
            (\<exists>p. queue_entries s (subsumed_by e) = Some p \<and> q \<in> set (owner_of p))) \<and>
         (\<forall>x \<in> set (owner_of e). \<exists>e'. queue_entries s x = Some e' \<and> subsumed_by e' = q)"
proof -
  note inv = reachable_tq_inv [OF assms(1)]
  note L = links_okD [OF tq_inv_links [OF inv] assms(2)]
  show ?thesis using L by blast
qed

theorem queue_states_exclusive_witness:
  "\<exists>e. queue_entries demo_merged 0 = Some e \<and> owner_of e = [1]"
proof -
  obtain e where e: "queue_entries demo_merged 0 = Some e" "owner_of e = [1]"
    by (simp add: demo_merged_def demo_def tq_eval)
  with queue_states_exclusive [OF demo_merged_reachable e(1)] show ?thesis by auto
qed

text \<open>
  C2: The task \<open>GetNextTaskToRun\<close> returns is due, is one of the runnable tasks of the queue
  and of the queues merged into it, no runnable task comes before it in the order of
  \<open>DelayedTask::operator>\<close>, exactly that task is removed, and the thread's grade is its
  grade.
\<close>

theorem next_task_is_earliest:
  assumes "tq_reachable s" and "GetNextTaskToRun thr q now s = Inr (Some c, s')"
  shows "\<exists>t. t \<in># runnable s q \<and> c = task t \<and> target_time t \<le> now \<and>
             (\<forall>y \<in># runnable s q. \<not> task_gt t y) \<and>
             runnable s q = add_mset t (runnable s' q) \<and>
             tls_task_source_grade s' thr = Some (task_source_grade t)"
proof -
  from assms(2) obtain e where "queue_entries s q = Some e"
    by (auto simp: GetNextTaskToRun_def HasPendingTasks_def result_simps)
  from GetNextTaskToRun_spec [OF reachable_tq_inv [OF assms(1)] this, of thr now] assms(2)
  show ?thesis by (auto split: if_splits)
qed

theorem next_task_is_earliest_witness:
  "\<exists>s' t. GetNextTaskToRun 3 0 5 demo_merged = Inr (Some 101, s') \<and>
          101 = task t \<and> target_time t \<le> 5 \<and>
          runnable demo_merged 0 = add_mset t (runnable s' 0)"
proof -
  obtain s' where g: "GetNextTaskToRun 3 0 5 demo_merged = Inr (Some 101, s')"
    by (simp add: demo_merged_def demo_def tq_eval)
  from next_task_is_earliest [OF demo_merged_reachable g] g show ?thesis by blast
qed

text \<open>
  C4: \<open>GetNextTaskToRun\<close> never gets stuck: on an existing queue it always returns, and it
  returns a task exactly when some runnable task is due.
\<close>

theorem next_task_progress:
  assumes "tq_reachable s" and "queue_entries s q = Some e"
  shows "\<exists>r s'. GetNextTaskToRun thr q now s = Inr (r, s') \<and>
                (r \<noteq> None \<longleftrightarrow> (\<exists>t \<in># runnable s q. target_time t \<le> now))"
proof -
  have early: "target_time t \<le> target_time y" if "\<not> task_gt t y" for t y :: "'a delayed_task"
    using that by (auto simp: task_gt_def split: if_splits)
  from GetNextTaskToRun_spec [OF reachable_tq_inv [OF assms(1)] assms(2), of thr now]
  show ?thesis
  proof (elim disjE exE conjE)
    fix t s' assume t: "t \<in># runnable s q" "\<forall>y \<in># runnable s q. \<not> task_gt t y"
      and c: "if target_time t > now
        then GetNextTaskToRun thr q now s = Inr (None, s') \<and> queue_entries s' = queue_entries s
        else GetNextTaskToRun thr q now s = Inr (Some (task t), s') \<and>
             runnable s q = {#t#} + runnable s' q \<and>
             tls_task_source_grade s' thr = Some (task_source_grade t)"
    show ?thesis
    proof (cases "target_time t > now")
      case True
      with c t early show ?thesis by (metis le_less_trans not_le)
    next
      case False
      with c t(1) show ?thesis by (auto intro!: bexI [of _ t])
    qed
  qed auto
qed

theorem next_task_progress_witness:
  "\<exists>r s'. GetNextTaskToRun 3 0 20 demo = Inr (r, s') \<and> r \<noteq> None"
proof -
  obtain e where e: "queue_entries demo 0 = Some e"
    by (simp add: demo_def tq_eval)
  have "\<exists>t \<in># runnable demo 0. target_time t \<le> 20"
    by (simp add: demo_def tq_eval)
  with next_task_progress [OF demo_reachable e, of 3 20] show ?thesis by blast
qed

text \<open>
  The two counters agree with the abstract view: \<open>GetNumPendingTasks\<close> is the number of
  runnable tasks and \<open>HasPendingTasks\<close> holds exactly when it is not zero; a subsumed queue
  has none.
\<close>

theorem pending_counts:
  assumes "tq_reachable s" and "queue_entries s q = Some e"
  shows "GetNumPendingTasks s q = Inr (size (runnable s q)) \<and>
         HasPendingTasks s q = Inr (size (runnable s q) \<noteq> 0) \<and>
         (subsumed_by e \<noteq> kUnmerged \<longrightarrow> runnable s q = {#})"
  using GetNumPendingTasks_eq [OF reachable_tq_inv [OF assms(1)] assms(2)]
    HasPendingTasks_eq [OF reachable_tq_inv [OF assms(1)] assms(2)] assms(2)
  by (simp add: runnable_def)

theorem pending_counts_witness:
  "GetNumPendingTasks demo_merged 0 = Inr 2 \<and> HasPendingTasks demo_merged 1 = Inr False"
proof -
  obtain e f where e: "queue_entries demo_merged 0 = Some e" "size (runnable demo_merged 0) = 2"
    and f: "queue_entries demo_merged 1 = Some f" "subsumed_by f \<noteq> kUnmerged"
    by (simp add: demo_merged_def demo_def tq_eval)
  show ?thesis
    using pending_counts [OF demo_merged_reachable e(1)]
      pending_counts [OF demo_merged_reachable f(1)] e f by simp
qed

lemma seen_mset: "seen s xs = sum_mset (image_mset (src_at s) (mset xs))"
  by (induction xs) simp_all

lemma seen_insort_insert: "x \<notin> set xs \<Longrightarrow> seen s (insort_insert x xs) = src_at s x + seen s xs"
  by (simp add: seen_mset insort_insert_insort)

lemma src_at_link: "src_at (link a b s) = src_at s"
  by (auto simp: src_at_def link_def fun_eq_iff split: option.splits)

lemma seen_link: "seen (link a b s) xs = seen s xs"
  by (simp add: seen_def src_at_link)

lemma runnable_link:
  assumes "mergeable a b s"
  shows "runnable (link a b s) a = runnable s a + runnable s b" "a \<noteq> kUnmerged \<Longrightarrow> runnable (link a b s) b = {#}"
proof -
  from assms obtain oe se where e: "queue_entries s a = Some oe" "queue_entries s b = Some se"
    and c: "a \<noteq> b" "b \<notin> set (owner_of oe)" "subsumed_by oe = kUnmerged" "owner_of se = []"
      "subsumed_by se = kUnmerged"
    by (auto simp: mergeable_def)
  have m: "queue_entries (link a b s) a = Some (oe\<lparr>owner_of := insort_insert b (owner_of oe)\<rparr>)"
    "queue_entries (link a b s) b = Some (se\<lparr>subsumed_by := a\<rparr>)"
    using e c(1) by (simp_all add: link_def)
  show "runnable (link a b s) a = runnable s a + runnable s b"
    using runnable_seen [OF m(1)] runnable_seen [OF e(1) c(3)] runnable_seen [OF e(2) c(5)] c
    by (simp add: seen_link src_at_link seen_insort_insert)
  show "a \<noteq> kUnmerged \<Longrightarrow> runnable (link a b s) b = {#}"
    using m(2) by (simp add: runnable_def)
qed

lemma Merge_total:
  assumes inv: "tq_inv s" and mg: "mergeable a b s"
  shows "\<exists>l. Merge a b s = Inr (True, (link a b s)\<lparr>wake_log := l\<rparr>)"
proof -
  from mg obtain oe se where e: "queue_entries s a = Some oe" "queue_entries s b = Some se"
    and c: "a \<noteq> b" "b \<notin> set (owner_of oe)" "subsumed_by oe = kUnmerged" "owner_of se = []"
      "subsumed_by se = kUnmerged"
    by (auto simp: mergeable_def)
  obtain f where "queue_entries (link a b s) a = Some f" using e c(1) by (simp add: link_def)
  from wake_if_pending_ok [OF link_inv [OF inv mg] this] obtain s' l
    where "wake_if_pending a (link a b s) = Inr s'" "s' = (link a b s)\<lparr>wake_log := l\<rparr>" by blast
  then show ?thesis using e c by (auto simp: Merge_def link_def Let_def)
qed

lemma unlink_present:
  assumes "tq_inv s" "unmergeable a b s"
  shows "\<exists>f g. queue_entries (unlink a b s) a = Some f \<and> queue_entries (unlink a b s) b = Some g"
  using assms(2) by (auto simp: unmergeable_def unlink_def)

lemma Unmerge_total:
  assumes inv: "tq_inv s" and mg: "unmergeable a b s"
  shows "\<exists>l. Unmerge a b s = Inr (True, (unlink a b s)\<lparr>wake_log := l\<rparr>)"
proof -
  from mg obtain oe se where e: "queue_entries s a = Some oe" "queue_entries s b = Some se"
    and c: "b \<in> set (owner_of oe)" "subsumed_by oe = kUnmerged" "subsumed_by se \<noteq> kUnmerged"
    by (auto simp: unmergeable_def)
  have ne: "owner_of oe \<noteq> []" "a \<noteq> b" using c e by auto
  note inv' = unlink_inv [OF inv mg]
  obtain f g where fg: "queue_entries (unlink a b s) a = Some f"
    "queue_entries (unlink a b s) b = Some g"
    using unlink_present [OF inv mg] by blast
  from wake_if_pending_ok [OF inv' fg(1)] obtain l
    where w1: "wake_if_pending a (unlink a b s) = Inr ((unlink a b s)\<lparr>wake_log := l\<rparr>)" by blast
  from wake_if_pending_ok [of "(unlink a b s)\<lparr>wake_log := l\<rparr>" b g] inv' fg(2) obtain l'
    where w2: "wake_if_pending b ((unlink a b s)\<lparr>wake_log := l\<rparr>) =
      Inr ((unlink a b s)\<lparr>wake_log := l'\<rparr>)" by auto
  have "put_entry a (oe\<lparr>owner_of := remove1 b (owner_of oe)\<rparr>)
          (put_entry b (se\<lparr>subsumed_by := kUnmerged\<rparr>) s) = unlink a b s"
    using e by (simp add: unlink_def)
  then show ?thesis using e c ne w1 w2
    by (auto simp: Unmerge_def Let_def intro: exI [of _ l'])
qed

lemma unlink_link:
  assumes inv: "tq_inv s" and mg: "mergeable a b s"
  shows "queue_entries (unlink a b (link a b s)) = queue_entries s"
    "a \<noteq> kUnmerged \<Longrightarrow> unmergeable a b (link a b s)"
proof -
  from mg obtain oe se where e: "queue_entries s a = Some oe" "queue_entries s b = Some se"
    and c: "a \<noteq> b" "b \<notin> set (owner_of oe)" "subsumed_by oe = kUnmerged" "owner_of se = []"
      "subsumed_by se = kUnmerged"
    by (auto simp: mergeable_def)
  have "remove1 b (insort_insert b (owner_of oe)) = owner_of oe"
    by (rule remove1_insort_insert) (use tq_invD(3) [OF inv e(1)] c(2) in auto)
  moreover have "oe\<lparr>owner_of := owner_of oe\<rparr> = oe" "se\<lparr>subsumed_by := kUnmerged\<rparr> = se"
    using c(5) by (cases oe, simp, cases se, simp)
  ultimately show "queue_entries (unlink a b (link a b s)) = queue_entries s"
    using e c(1) by (auto simp: link_def unlink_def fun_eq_iff)
  show "a \<noteq> kUnmerged \<Longrightarrow> unmergeable a b (link a b s)"
    using e c by (auto simp: unmergeable_def link_def set_insort_insert)
qed

lemma present_not_kUnmerged: "tq_inv s \<Longrightarrow> mergeable a b s \<Longrightarrow> a \<noteq> kUnmerged"
  by (auto simp: mergeable_def dest: tq_invD(5))

text \<open>
  C3: Merging two queues that are free to merge succeeds; the owner can then run the union of
  what the two could run and the subsumed queue nothing.  Unmerging them right after restores
  every entry of the table, so each queue gets its own tasks back.
\<close>

theorem merge_unmerge_roundtrip:
  assumes "tq_reachable s" and "mergeable a b s"
  shows "\<exists>s1 s2. Merge a b s = Inr (True, s1) \<and>
           runnable s1 a = runnable s a + runnable s b \<and> runnable s1 b = {#} \<and>
           Unmerge a b s1 = Inr (True, s2) \<and> queue_entries s2 = queue_entries s"
proof -
  note inv = reachable_tq_inv [OF assms(1)]
  note a = present_not_kUnmerged [OF inv assms(2)]
  from Merge_total [OF inv assms(2)] obtain l
    where m: "Merge a b s = Inr (True, (link a b s)\<lparr>wake_log := l\<rparr>)" by blast
  let ?s1 = "(link a b s)\<lparr>wake_log := l\<rparr>"
  have "unmergeable a b ?s1" "unlink a b ?s1 = (unlink a b (link a b s))\<lparr>wake_log := l\<rparr>"
    using unlink_link(2) [OF inv assms(2) a]
    by (auto simp: unmergeable_def unlink_def put_entry_def split: option.splits)
  moreover have "tq_inv ?s1" using link_inv [OF inv assms(2)] by simp
  ultimately obtain l' where u: "Unmerge a b ?s1 =
      Inr (True, (unlink a b (link a b s))\<lparr>wake_log := l'\<rparr>)"
    using Unmerge_total [of ?s1 a b] by auto
  show ?thesis
    using m u runnable_link [OF assms(2)] a unlink_link(1) [OF inv assms(2)]
    by (intro exI [of _ ?s1] exI [of _ "(unlink a b (link a b s))\<lparr>wake_log := l'\<rparr>"]) simp
qed

theorem merge_unmerge_roundtrip_witness:
  "\<exists>s1 s2. Merge 0 1 demo = Inr (True, s1) \<and> Unmerge 0 1 s1 = Inr (True, s2) \<and>
           queue_entries s2 = queue_entries demo"
proof -
  have "mergeable 0 1 demo"
    by (simp add: mergeable_def demo_def tq_eval)
  from merge_unmerge_roundtrip [OF demo_reachable this] show ?thesis by blast
qed

lemma wake_entry_log: "wake_entry (s\<lparr>wake_log := l\<rparr>) q = wake_entry s q"
proof -
  have "earliest (s\<lparr>wake_log := l\<rparr>) q = earliest s q" by (simp add: earliest_def)
  then show ?thesis by (simp add: wake_entry_def split: option.split)
qed

text \<open>The queue a registered task is run from: the owner, if its queue is subsumed.\<close>

definition runner_of :: "'c task_queue_entry \<Rightarrow> u64 \<Rightarrow> u64" where
  "runner_of e q = (if subsumed_by e \<noteq> kUnmerged then subsumed_by e else q)"

lemma runner_entry:
  assumes inv: "tq_inv s" and e: "queue_entries s q = Some e"
  shows "\<exists>p. queue_entries s (runner_of e q) = Some p \<and> subsumed_by p = kUnmerged \<and>
             q \<in> set (runner_of e q # owner_of p)"
proof (cases "subsumed_by e = kUnmerged")
  case True
  with e show ?thesis by (simp add: runner_of_def)
next
  case False
  from links_okD(3) [OF tq_inv_links [OF inv] e False] obtain p
    where p: "queue_entries s (subsumed_by e) = Some p" "q \<in> set (owner_of p)" by blast
  then have "subsumed_by p = kUnmerged"
    using links_okD(2) [OF tq_inv_links [OF inv] p(1)] by (metis empty_iff empty_set)
  with p False show ?thesis by (simp add: runner_of_def)
qed

text \<open>
  Registering a task on an existing queue always succeeds; the task takes the current value
  of the order counter (sign-extended), joins the runnable tasks of the queue it is run from
  unless it belongs to a paused secondary heap, and the runner's wakeable is called once, with
  the earliest due time of everything the runner can now run.
\<close>

theorem register_task_effect:
  assumes inv: "tq_inv s" and "queue_entries s q = Some e"
  shows "\<exists>s'. RegisterTask q c time g s = Inr s' \<and>
           order_counter s' = order_counter s + 1 \<and>
           runnable s' (runner_of e q) =
             (if g = kDartEventLoop \<and> secondary_pause_requests (task_src e) \<noteq> 0
              then runnable s (runner_of e q)
              else add_mset \<lparr>order = scast (order_counter s), task = c, target_time = time,
                             task_source_grade = g\<rparr> (runnable s (runner_of e q))) \<and>
           wake_log s' = wake_log s @ wake_entry s' (runner_of e q)"
proof -
  let ?r = "runner_of e q"
  let ?t = "\<lparr>order = scast (order_counter s), task = c, target_time = time, task_source_grade = g\<rparr>"
  let ?src = "ts_RegisterTask ?t (task_src e)"
  let ?s1 = "s\<lparr>order_counter := order_counter s + 1\<rparr>"
  let ?s2 = "put_entry q (e\<lparr>task_src := ?src\<rparr>) ?s1"
  have inv1: "tq_inv ?s1" and e1: "queue_entries ?s1 q = Some e" using inv assms(2) by simp_all
  have inv2: "tq_inv ?s2"
    using tq_invD [OF inv assms(2)] by (intro put_src_inv [OF inv1 e1]) (auto intro: inv_intros)
  from runner_entry [OF inv assms(2)] obtain p where p: "queue_entries s ?r = Some p"
    "subsumed_by p = kUnmerged" "q \<in> set (?r # owner_of p)" by blast
  have p2: "\<exists>p2. queue_entries ?s2 ?r = Some p2 \<and> subsumed_by p2 = kUnmerged \<and> owner_of p2 = owner_of p"
    using p assms(2) by (cases "?r = q") auto
  then obtain p2 where p2: "queue_entries ?s2 ?r = Some p2" "subsumed_by p2 = kUnmerged"
    "owner_of p2 = owner_of p" by blast
  have "runnable ?s2 ?r + ts_visible (task_src e) = runnable s ?r + ts_visible ?src"
    using seen_put [OF p(3) _ e1, of ?src] runnable_distinct [OF inv p(1)] p
      runnable_seen [OF p2(1,2)] runnable_seen [OF p(1,2)] p2(3)
    by (simp add: seen_def ac_simps)
  then have run: "runnable ?s2 ?r =
      (if g = kDartEventLoop \<and> secondary_pause_requests (task_src e) \<noteq> 0
       then runnable s ?r else add_mset ?t (runnable s ?r))"
    by (auto simp: ts_visible_RegisterTask split: if_splits)
  let ?s3 = "?s2\<lparr>wake_log := wake_log s @ wake_entry ?s2 ?r\<rparr>"
  have "RegisterTask q c time g s = wake_if_pending ?r ?s2"
    using assms(2) by (simp add: RegisterTask_def Let_def runner_of_def)
  also have "\<dots> = Inr ?s3" by (simp add: wake_if_pending_spec [OF inv2 p2(1)])
  finally show ?thesis using run
    by (intro exI [of _ ?s3]) (simp add: wake_entry_log)
qed

theorem register_task_effect_witness:
  "\<exists>s'. RegisterTask 1 102 3 kUnspecified demo_merged = Inr s' \<and>
        wake_log s' = wake_log demo_merged @ [(7, 3)]"
proof -
  obtain e where e: "queue_entries demo_merged 1 = Some e"
    by (simp add: demo_merged_def demo_def tq_eval)
  have eval: "\<exists>s'. RegisterTask 1 102 3 kUnspecified demo_merged = Inr s' \<and>
      wake_log s' = wake_log demo_merged @ [(7, 3)]"
    by (simp add: demo_merged_def demo_def tq_eval)
  with register_task_effect [OF reachable_tq_inv [OF demo_merged_reachable] e, of 102 3 kUnspecified] show ?thesis
    by auto
qed

text \<open>
  \<open>GetNextTaskToRun\<close> calls the wakeable of a queue with pending tasks once, and always
  with the due time of the earliest task it found, whether that task is then popped or not;
  it never asks to sleep until \<open>TimePoint::Max\<close> unless a task is due only then.
\<close>

theorem get_next_task_wakes_at_top:
  assumes "tq_reachable s" and "queue_entries s q = Some e" and "wakeable e = Some w"
    and "runnable s q \<noteq> {#}"
  shows "\<exists>r s'. GetNextTaskToRun thr q now s = Inr (r, s') \<and>
                wake_log s' = wake_log s @ [(w, earliest s q)]"
  using GetNextTaskToRun_spec [OF reachable_tq_inv [OF assms(1)] assms(2), of thr now]
    assms(3,4) earliest_eq [of _ s q]
  by (auto split: if_splits)

theorem get_next_task_wakes_at_top_witness:
  "\<exists>r s'. GetNextTaskToRun 3 0 2 demo_merged = Inr (r, s') \<and>
          wake_log s' = wake_log demo_merged @ [(7, earliest demo_merged 0)]"
proof -
  obtain e where e: "queue_entries demo_merged 0 = Some e" "wakeable e = Some 7"
    by (simp add: demo_merged_def demo_def tq_eval)
  have "runnable demo_merged 0 \<noteq> {#}"
    by (simp add: demo_merged_def demo_def tq_eval)
  from get_next_task_wakes_at_top [OF demo_merged_reachable e this] show ?thesis by blast
qed

end
