(* ===== verification/Task_Order.thy ===== *)
theory Task_Order
  imports Task_Queues_Props
begin

text \<open>
  First in, first out: the order in which the task queues of
  \<^verbatim>\<open>src/fml/message_loop_task_queues.cc\<close> run tasks, over whole histories.

  A history is a list of events that leads from an empty table to a state. The history has the
  registrations, numbered as they come, and the closures that were run. The invariant \<open>order_inv\<close>
  relates them to the heaps of the queues: every queued task is one of the registrations, with the
  order its number gives it; a closure that ran is not queued again; and a task does not run before
  another task of its heap that comes first.
\<close>

subsection \<open>The order of a registration\<close>

text \<open>The sign-extended order counter grows until the counter wraps around.\<close>

lemma uint_order:
  "uint (scast (a :: u32) :: u64) =
     (if uint a < 2 ^ 31 then uint a else uint a + (2 ^ 64 - 2 ^ 32))"
proof -
  have b: "0 \<le> uint a" "uint a < 2^32" using uint_lt2p [of a] by simp_all
  have s: "uint (scast a :: u64) = sint a mod 2^64"
    by (simp only: scast_eq uint_word_of_int) simp
  show ?thesis
  proof (cases "uint a < 2^31")
    case True with b s show ?thesis by (simp add: sint_cases)
  next
    case False
    have "(uint a - 2^32) mod 2^64 = (uint a - 2^32 + 2^64) mod 2^64" by (simp only: mod_add_self2)
    also have "\<dots> = uint a - 2^32 + 2^64" using b by simp
    finally show ?thesis using False s by (simp add: sint_cases)
  qed
qed

lemma order_mono:
  assumes "i < j" "j < 2 ^ 32"
  shows "(scast (of_nat i :: u32) :: u64) < scast (of_nat j :: u32)"
proof -
  have "uint (of_nat i :: u32) = int i" "uint (of_nat j :: u32) = int j"
    using assms by (simp_all add: unsigned_of_nat take_bit_eq_mod)
  then show ?thesis using assms by (simp add: word_less_def uint_order)
qed

text \<open>
  At the wrap-around (after 2^32 registrations) the order is lost: a task registered with the
  counter at its last value and one registered next for the same time run in reverse.
\<close>

lemma order_wraps_around:
  "task_gt \<lparr>order = scast (- 1 :: u32), task = c, target_time = time, task_source_grade = g\<rparr>
           \<lparr>order = scast (- 1 + 1 :: u32), task = d, target_time = time, task_source_grade = h\<rparr>"
  by (simp add: task_gt_def word_gt_0)

subsection \<open>Histories\<close>

record 'c registration =
  rg_queue :: u64
  rg_closure :: 'c
  rg_time :: int
  rg_grade :: TaskSourceGrade

fun registrations :: "'c tq_event list \<Rightarrow> 'c registration list" where
  "registrations [] = []"
| "registrations (EvRegister q c time g # es) =
     \<lparr>rg_queue = q, rg_closure = c, rg_time = time, rg_grade = g\<rparr> # registrations es"
| "registrations (e # es) = registrations es"

fun closures_run :: "'c tq_event list \<Rightarrow> 'c list" where
  "closures_run [] = []"
| "closures_run (EvGetNext thr q now (Some c) # es) = c # closures_run es"
| "closures_run (e # es) = closures_run es"

fun disposes :: "'c tq_event \<Rightarrow> bool" where
  "disposes (EvDispose q) = True"
| "disposes (EvDisposeTasks q) = True"
| "disposes e = False"

lemma registrations_append [simp]: "registrations (xs @ ys) = registrations xs @ registrations ys"
  by (induction xs rule: registrations.induct) simp_all

lemma closures_run_append [simp]: "closures_run (xs @ ys) = closures_run xs @ closures_run ys"
  by (induction xs rule: closures_run.induct) simp_all

text \<open>The two grades of a heap, and the task a registration makes.\<close>

definition secondary :: "TaskSourceGrade \<Rightarrow> bool" where
  "secondary g \<longleftrightarrow> g = kDartEventLoop"

definition task_of :: "nat \<Rightarrow> 'c registration \<Rightarrow> 'c delayed_task" where
  "task_of n r = \<lparr>order = scast (of_nat n :: u32), task = rg_closure r, target_time = rg_time r,
     task_source_grade = rg_grade r\<rparr>"

lemma task_of_simps [simp]:
  "task (task_of n r) = rg_closure r" "target_time (task_of n r) = rg_time r"
  "task_source_grade (task_of n r) = rg_grade r" "order (task_of n r) = scast (of_nat n :: u32)"
  by (simp_all add: task_of_def)

lemma later_is_greater:
  assumes "i < j" "j < 2 ^ 32" "rg_time a \<le> rg_time b"
  shows "task_gt (task_of j b) (task_of i a)"
  using assms order_mono [OF assms(1,2)] by (auto simp: task_gt_def)

subsection \<open>The heaps of the queues\<close>

definition source_heap :: "bool \<Rightarrow> 'c task_source \<Rightarrow> 'c task_heap" where
  "source_heap d src = (if d then secondary_task_queue src else primary_task_queue src)"

definition heap_at :: "'c task_queues \<Rightarrow> u64 \<Rightarrow> bool \<Rightarrow> 'c task_heap" where
  "heap_at s q d =
     (case queue_entries s q of None \<Rightarrow> [] | Some e \<Rightarrow> source_heap d (task_src e))"

lemma heap_at_Some: "queue_entries s q = Some e \<Longrightarrow> heap_at s q d = source_heap d (task_src e)"
  by (simp add: heap_at_def)

lemma heap_at_put [simp]:
  "heap_at (put_entry q e s) x d = (if x = q then source_heap d (task_src e) else heap_at s x d)"
  by (simp add: heap_at_def)

lemma heap_at_fields [simp]:
  "heap_at (s\<lparr>wake_log := l\<rparr>) = heap_at s" "heap_at (s\<lparr>order_counter := n\<rparr>) = heap_at s"
  "heap_at (s\<lparr>tls_task_source_grade := g\<rparr>) = heap_at s"
  "heap_at (s\<lparr>task_queue_id_counter := k\<rparr>) = heap_at s"
  by (simp_all add: heap_at_def fun_eq_iff)

lemma heap_at_ok:
  assumes "tq_inv s"
  shows "heap_ok (heap_at s q d)" "t \<in> set (heap_at s q d) \<Longrightarrow> secondary (task_source_grade t) = d"
proof -
  have "heap_ok (heap_at s q d) \<and> (t \<in> set (heap_at s q d) \<longrightarrow> secondary (task_source_grade t) = d)"
  proof (cases "queue_entries s q")
    case (Some e)
    then show ?thesis using tq_invD(1) [OF assms Some]
      by (simp add: heap_at_Some source_heap_def ts_inv_def secondary_def)
  qed (simp add: heap_at_def)
  then show "heap_ok (heap_at s q d)" "t \<in> set (heap_at s q d) \<Longrightarrow> secondary (task_source_grade t) = d"
    by blast+
qed

text \<open>What the operations do to the heaps: at most one task comes or goes, or a heap is emptied.\<close>

lemma source_heap_RegisterTask:
  "source_heap d (ts_RegisterTask t src) =
     (if d = secondary (task_source_grade t) then heap_push t (source_heap d src) else source_heap d src)"
  by (cases "task_source_grade t") (auto simp: source_heap_def ts_RegisterTask_def secondary_def)

lemma heaps_RegisterTask:
  assumes "RegisterTask q c time g s = Inr s'"
  shows "order_counter s' = order_counter s + 1 \<and>
    (\<forall>x d. heap_at s' x d =
       (if x = q \<and> d = secondary g
        then heap_push \<lparr>order = scast (order_counter s), task = c, target_time = time,
               task_source_grade = g\<rparr> (heap_at s q d)
        else heap_at s x d))"
  using assms
  by (auto simp: RegisterTask_def Let_def result_simps heap_at_Some source_heap_RegisterTask
      dest!: wake_if_pending_log)

lemma ts_Top_head:
  assumes "ts_inv src" "ts_Top src = Inr (x, t)"
  shows "\<exists>h. source_heap (secondary (task_source_grade t)) src = t # h"
proof -
  have grades: "\<forall>t \<in> set (primary_task_queue src). \<not> secondary (task_source_grade t)"
    "\<forall>t \<in> set (secondary_task_queue src). secondary (task_source_grade t)"
    using assms(1) by (auto simp: ts_inv_def secondary_def)
  have "t \<in> {hd (primary_task_queue src)} \<and> primary_task_queue src \<noteq> [] \<or>
      t \<in> {hd (secondary_task_queue src)} \<and> secondary_task_queue src \<noteq> []"
    using assms(2) by (auto simp: ts_Top_def result_simps heap_top_Inr split: if_splits)
  then show ?thesis
  proof (elim disjE conjE)
    assume "t \<in> {hd (primary_task_queue src)}" "primary_task_queue src \<noteq> []"
    then obtain h where h: "primary_task_queue src = t # h" by (cases "primary_task_queue src") auto
    then show ?thesis using grades(1) by (simp add: source_heap_def)
  next
    assume "t \<in> {hd (secondary_task_queue src)}" "secondary_task_queue src \<noteq> []"
    then obtain h where h: "secondary_task_queue src = t # h" by (cases "secondary_task_queue src") auto
    then show ?thesis using grades(2) by (simp add: source_heap_def)
  qed
qed

lemma ts_PopTask_head:
  assumes "source_heap (secondary g) src = t # h" "ts_PopTask g src = Inr src'"
  shows "source_heap d src' = (if d = secondary g then h else source_heap d src)"
  using assms
  by (cases g) (auto simp: ts_PopTask_def source_heap_def secondary_def heap_pop_def result_simps
      split: if_splits)

lemma heaps_GetNextTaskToRun:
  assumes inv: "tq_inv s" and g: "GetNextTaskToRun thr q now s = Inr (r, s')"
  shows "order_counter s' = order_counter s \<and>
    ((r = None \<and> heap_at s' = heap_at s) \<or>
     (\<exists>x d t. r = Some (task t) \<and> heap_at s x d = t # heap_at s' x d \<and>
        (\<forall>y b. (y, b) \<noteq> (x, d) \<longrightarrow> heap_at s' y b = heap_at s y b)))"
proof -
  from g obtain e where e: "queue_entries s q = Some e"
    by (auto simp: GetNextTaskToRun_def HasPendingTasks_def result_simps)
  show ?thesis
  proof (cases "runnable s q = {#}")
    case True
    then show ?thesis using g by (simp add: GetNextTaskToRun_def HasPendingTasks_eq [OF inv e])
  next
    case False
    from PeekNextTask_best [OF inv e False] obtain x t
      where pk: "PeekNextTask s q = Inr (x, t)" and b: "best_in s (q # owner_of e) (Some (x, t))"
      by blast
    from b obtain f where f: "queue_entries s x = Some f" "ts_Top (task_src f) = Inr (x, t)"
      by (auto simp: best_in_def)
    obtain h where h: "source_heap (secondary (task_source_grade t)) (task_src f) = t # h"
      using ts_Top_head [OF tq_invD(1) [OF inv f(1)] f(2)] by blast
    obtain l where wk: "WakeUp q (target_time t) s = Inr (s\<lparr>wake_log := l\<rparr>)"
      using e by (cases "wakeable e") (auto simp: WakeUp_def intro: that [of "wake_log s"])
    have "GetNextTaskToRun thr q now s = (if target_time t > now then Inr (None, s\<lparr>wake_log := l\<rparr>)
        else rbind (ts_PopTask (task_source_grade t) (task_src f)) (\<lambda>src.
          Inr (Some (task t), (put_entry x (f\<lparr>task_src := src\<rparr>) (s\<lparr>wake_log := l\<rparr>))
            \<lparr>tls_task_source_grade := (tls_task_source_grade s)(thr \<mapsto> task_source_grade t)\<rparr>)))"
      using False pk wk f(1)
      by (simp add: GetNextTaskToRun_def HasPendingTasks_eq [OF inv e] GetNextWakeTime_def)
    note run = trans [OF this [symmetric] g]
    show ?thesis
    proof (cases "target_time t > now")
      case True
      then show ?thesis using run by auto
    next
      case now: False
      then obtain src where src: "ts_PopTask (task_source_grade t) (task_src f) = Inr src"
        and r: "r = Some (task t)"
        and s': "s' = (put_entry x (f\<lparr>task_src := src\<rparr>) (s\<lparr>wake_log := l\<rparr>))
          \<lparr>tls_task_source_grade := (tls_task_source_grade s)(thr \<mapsto> task_source_grade t)\<rparr>"
        using run by (auto simp: result_simps)
      note pop = ts_PopTask_head [OF h src]
      show ?thesis
        using r h pop
        by (intro conjI disjI2 exI [of _ x] exI [of _ "secondary (task_source_grade t)"] exI [of _ t])
          (auto simp: s' heap_at_Some [OF f(1)])
    qed
  qed
qed

lemma heap_at_link [simp]: "heap_at (link a b s) = heap_at s" "heap_at (unlink a b s) = heap_at s"
  by (auto simp: link_def unlink_def heap_at_def fun_eq_iff split: option.splits)

lemma link_order [simp]: "order_counter (link a b s) = order_counter s"
  "order_counter (unlink a b s) = order_counter s"
  by (simp_all add: link_def unlink_def split: option.splits)

lemma shut_down_all_heaps:
  "shut_down_all xs s = Inr s' \<Longrightarrow> order_counter s' = order_counter s \<and>
     (heap_at s' q d = heap_at s q d \<or> heap_at s' q d = [])"
proof (induction xs arbitrary: s)
  case (Cons x xs)
  then obtain e where e: "queue_entries s x = Some e"
    and r: "shut_down_all xs (put_entry x (e\<lparr>task_src := ts_ShutDown (task_src e)\<rparr>) s) = Inr s'"
    by (auto simp: result_simps)
  from Cons.IH [OF r] show ?case by (auto simp: source_heap_def ts_ShutDown_def split: if_splits)
qed simp

lemma heaps_CreateTaskQueue:
  assumes inv: "tq_inv s" and c: "CreateTaskQueue s = (q, t)"
  shows "order_counter t = order_counter s \<and> heap_at t = heap_at s"
proof -
  let ?k = "task_queue_id_counter s"
  have "queue_entries s ?k = None" using inv by (metis less_irrefl not_Some_eq tq_inv_def)
  then have none: "heap_at s ?k d = []" for d by (simp add: heap_at_def)
  have "t = put_entry ?k (new_entry ?k) (s\<lparr>task_queue_id_counter := ?k + 1\<rparr>)"
    using c by (auto simp: CreateTaskQueue_def Let_def)
  moreover have "source_heap d (task_src (new_entry ?k :: 'a task_queue_entry)) = []" for d
    by (simp add: new_entry_def new_task_source_def source_heap_def)
  ultimately show ?thesis using none by (simp add: fun_eq_iff)
qed

lemma heaps_Dispose:
  "Dispose q s = Inr t \<Longrightarrow> order_counter t = order_counter s \<and>
     (\<forall>x d. heap_at t x d = heap_at s x d \<or> heap_at t x d = [])"
  by (auto simp: Dispose_def result_simps heap_at_def)

lemma heaps_DisposeTasks:
  assumes "DisposeTasks q s = Inr t"
  shows "order_counter t = order_counter s \<and>
     (\<forall>x d. heap_at t x d = heap_at s x d \<or> heap_at t x d = [])"
proof -
  from assms obtain f where f: "shut_down_all (owner_of f)
      (put_entry q (f\<lparr>task_src := ts_ShutDown (task_src f)\<rparr>) s) = Inr t"
    by (auto simp: DisposeTasks_def result_simps)
  have "source_heap d (ts_ShutDown src) = []" for d and src :: "'a task_source"
    by (simp add: source_heap_def ts_ShutDown_def)
  then have put: "heap_at (put_entry q (f\<lparr>task_src := ts_ShutDown (task_src f)\<rparr>) s) x d =
      (if x = q then [] else heap_at s x d)" for x d by simp
  have "heap_at t x d = heap_at s x d \<or> heap_at t x d = []" for x d
    using shut_down_all_heaps [OF f, of x d] unfolding put by (cases "x = q") auto
  then show ?thesis using shut_down_all_heaps [OF f] by simp
qed

lemma other_heaps:
  assumes inv: "tq_inv s" and step: "tq_step s e t"
    and e: "registrations [e] = []" "closures_run [e] = []"
  shows "order_counter t = order_counter s \<and>
    (\<forall>q d. heap_at t q d = heap_at s q d \<or> disposes e \<and> heap_at t q d = [])"
  using step
proof (cases rule: tq_step.cases)
  case (step_create q)
  then show ?thesis using heaps_CreateTaskQueue [OF inv step_create(3)] by simp
next
  case (step_dispose q)
  then show ?thesis using heaps_Dispose [OF step_dispose(2)] by simp
next
  case (step_dispose_tasks q)
  then show ?thesis using heaps_DisposeTasks [OF step_dispose_tasks(2)] by simp
next
  case (step_register q c time g)
  then show ?thesis using e by simp
next
  case (step_get_next thr q now r)
  then show ?thesis using e heaps_GetNextTaskToRun [OF inv step_get_next(2)] by (cases r) auto
next
  case (step_add_observer q k c)
  then show ?thesis by (auto simp: AddTaskObserver_def result_simps heap_at_Some split: option.splits)
next
  case (step_remove_observer q k)
  then show ?thesis by (auto simp: RemoveTaskObserver_def result_simps heap_at_Some)
next
  case (step_set_wakeable q w)
  then show ?thesis by (auto simp: SetWakeable_def result_simps heap_at_Some)
next
  case (step_merge a b r)
  then show ?thesis using Merge_cases [OF step_merge(2)] by auto
next
  case (step_unmerge a b r)
  then show ?thesis using Unmerge_cases [OF step_unmerge(2)] by auto
next
  case (step_pause q)
  then obtain f src where f: "queue_entries s q = Some f" "ts_PauseSecondary (task_src f) = Inr src"
    "t = put_entry q (f\<lparr>task_src := src\<rparr>) s"
    by (auto simp: PauseSecondarySource_def result_simps)
  have "source_heap d src = source_heap d (task_src f)" for d
    using f(2) by (auto simp: ts_PauseSecondary_def result_simps source_heap_def)
  then show ?thesis using f by (simp add: heap_at_Some)
next
  case (step_resume q)
  then obtain f src where f: "queue_entries s q = Some f" "ts_ResumeSecondary (task_src f) = Inr src"
    "wake_if_pending q (put_entry q (f\<lparr>task_src := src\<rparr>) s) = Inr t"
    by (auto simp: ResumeSecondarySource_def result_simps)
  have "source_heap d src = source_heap d (task_src f)" for d
    using f(2) by (auto simp: ts_ResumeSecondary_def result_simps source_heap_def Let_def)
  then have "heap_at (put_entry q (f\<lparr>task_src := src\<rparr>) s) = heap_at s"
    using f(1) by (simp add: fun_eq_iff heap_at_Some)
  then show ?thesis using wake_if_pending_log [OF f(3)] by auto
qed

subsection \<open>The invariant of histories\<close>

definition queued :: "'c registration list \<Rightarrow> 'c task_queues \<Rightarrow> nat \<Rightarrow> bool" where
  "queued rs s i \<longleftrightarrow>
     task_of i (rs ! i) \<in> set (heap_at s (rg_queue (rs ! i)) (secondary (rg_grade (rs ! i))))"

text \<open>Registration \<open>i\<close> goes to the heap of registration \<open>j\<close>, earlier, and is not due later.\<close>

definition comes_first :: "'c registration list \<Rightarrow> nat \<Rightarrow> nat \<Rightarrow> bool" where
  "comes_first rs i j \<longleftrightarrow>
     i < j \<and> j < length rs \<and> rg_queue (rs ! i) = rg_queue (rs ! j) \<and>
     secondary (rg_grade (rs ! i)) = secondary (rg_grade (rs ! j)) \<and>
     rg_time (rs ! i) \<le> rg_time (rs ! j)"

definition order_inv ::
  "'c registration list \<Rightarrow> 'c list \<Rightarrow> bool \<Rightarrow> 'c task_queues \<Rightarrow> bool"
where
  "order_inv rs run kept s \<longleftrightarrow>
     order_counter s = of_nat (length rs) \<and>
     (\<forall>q d. distinct (heap_at s q d) \<and>
        (\<forall>t \<in> set (heap_at s q d). \<exists>i < length rs. t = task_of i (rs ! i) \<and> rg_queue (rs ! i) = q)) \<and>
     set run \<subseteq> rg_closure ` set rs \<and>
     (\<forall>i < length rs. rg_closure (rs ! i) \<in> set run \<longrightarrow> \<not> queued rs s i) \<and>
     (\<forall>i j. comes_first rs i j \<longrightarrow> rg_closure (rs ! j) \<in> set run \<longrightarrow> \<not> queued rs s i) \<and>
     (\<forall>i j us vs. comes_first rs i j \<longrightarrow> run = us @ rg_closure (rs ! j) # vs \<longrightarrow>
        rg_closure (rs ! i) \<notin> set vs) \<and>
     (kept \<longrightarrow> (\<forall>i < length rs. rg_closure (rs ! i) \<in> set run \<or> queued rs s i))"

lemma order_invD:
  assumes "order_inv rs run kept s"
  shows "order_counter s = of_nat (length rs)" "distinct (heap_at s q d)"
    "t \<in> set (heap_at s q d) \<Longrightarrow> \<exists>i < length rs. t = task_of i (rs ! i) \<and> rg_queue (rs ! i) = q"
    "set run \<subseteq> rg_closure ` set rs"
    "i < length rs \<Longrightarrow> rg_closure (rs ! i) \<in> set run \<Longrightarrow> \<not> queued rs s i"
    "comes_first rs i j \<Longrightarrow> rg_closure (rs ! j) \<in> set run \<Longrightarrow> \<not> queued rs s i"
    "comes_first rs i j \<Longrightarrow> run = us @ rg_closure (rs ! j) # vs \<Longrightarrow> rg_closure (rs ! i) \<notin> set vs"
    "kept \<Longrightarrow> i < length rs \<Longrightarrow> rg_closure (rs ! i) \<in> set run \<or> queued rs s i"
  using assms unfolding order_inv_def by blast+

lemma order_inv_start: "order_inv [] [] True (new_task_queues thr)"
  by (simp add: order_inv_def new_task_queues_def heap_at_def comes_first_def)

lemma order_inv_other:
  assumes inv: "order_inv rs run kept s" and "order_counter t = order_counter s"
    and heaps: "\<forall>q d. heap_at t q d = heap_at s q d \<or> gone \<and> heap_at t q d = []"
  shows "order_inv rs run (kept \<and> \<not> gone) t"
proof -
  note I = order_invD [OF inv]
  have sub: "set (heap_at t q d) \<subseteq> set (heap_at s q d)" for q d using heaps by (metis empty_subsetI order_refl set_empty)
  then have q: "queued rs t i \<Longrightarrow> queued rs s i" for i by (auto simp: queued_def)
  have d: "distinct (heap_at t q d)" for q d using heaps I(2) by (metis distinct.simps(1))
  have eq: "queued rs t i = queued rs s i" if "\<not> gone" for i using heaps that by (simp add: queued_def)
  show ?thesis
    unfolding order_inv_def
  proof (intro conjI allI impI ballI)
    show "order_counter t = of_nat (length rs)" using I(1) assms(2) by simp
    show "\<exists>i < length rs. x = task_of i (rs ! i) \<and> rg_queue (rs ! i) = q"
      if "x \<in> set (heap_at t q d)" for q d x using I(3) that sub by blast
    show "rg_closure (rs ! i) \<in> set run \<or> queued rs t i" if "kept \<and> \<not> gone" "i < length rs" for i
      using I(8) that eq by simp
    show "\<not> queued rs t i" if "i < length rs" "rg_closure (rs ! i) \<in> set run" for i
      using I(5) that q by blast
    show "\<not> queued rs t i" if "comes_first rs i j" "rg_closure (rs ! j) \<in> set run" for i j
      using I(6) that q by blast
  qed (use d I(4,7) in blast)+
qed

text \<open>A registration is a new number at the end.\<close>

lemma comes_first_append: "comes_first (rs @ [r]) i j \<Longrightarrow> j < length rs \<Longrightarrow> comes_first rs i j"
  by (auto simp: comes_first_def nth_append split: if_splits)

lemma order_inv_register:
  assumes inv: "order_inv rs run kept s" and fresh: "rg_closure r \<notin> rg_closure ` set rs"
    and cnt: "order_counter t = order_counter s + 1"
    and heaps: "\<forall>q d. heap_at t q d =
       (if q = rg_queue r \<and> d = secondary (rg_grade r)
        then heap_push (task_of (length rs) r) (heap_at s q d) else heap_at s q d)"
  shows "order_inv (rs @ [r]) run kept t"
proof -
  note I = order_invD [OF inv]
  let ?n = "length rs" and ?rs = "rs @ [r]"
  have old: "?rs ! i = rs ! i" if "i < ?n" for i using that by (simp add: nth_append)
  have new: "task_of ?n r \<notin> set (heap_at s q d)" for q d
    using I(3) fresh by (metis image_eqI nth_mem task_of_simps(1))
  have queued_old: "queued ?rs t i = queued rs s i" if i: "i < ?n" for i
  proof -
    have "task_of i (rs ! i) \<noteq> task_of ?n r" using fresh i by (metis image_eqI nth_mem task_of_simps(1))
    then show ?thesis using heaps old [OF i] by (auto simp: queued_def)
  qed
  have queued_new: "queued ?rs t ?n" using heaps by (simp add: queued_def)
  have not_run: "rg_closure r \<notin> set run" using fresh I(4) by blast
  have j: "j < ?n" if "comes_first ?rs i j" "rg_closure (?rs ! j) \<in> set run" for i j
    using that not_run by (cases "j = ?n") (auto simp: comes_first_def)
  show ?thesis
    unfolding order_inv_def
  proof (intro conjI allI impI ballI)
    show "order_counter t = of_nat (length ?rs)" using I(1) cnt by simp
    show "distinct (heap_at t q d)" for q d
    proof -
      have "distinct (heap_push x h) = (x \<notin> set h \<and> distinct h)" for x :: "'a delayed_task" and h
        by (metis distinct.simps(2) mset.simps(2) mset_eq_imp_distinct_iff mset_heap_push)
      then show ?thesis using heaps new I(2) by simp
    qed
    show "\<exists>i < length ?rs. x = task_of i (?rs ! i) \<and> rg_queue (?rs ! i) = q"
      if x: "x \<in> set (heap_at t q d)" for q d x
    proof (cases "x \<in> set (heap_at s q d)")
      case True
      then obtain i where "i < ?n" "x = task_of i (rs ! i)" "rg_queue (rs ! i) = q" using I(3) by blast
      then show ?thesis using old by (intro exI [of _ i]) simp
    next
      case False
      then have "x = task_of ?n r" "q = rg_queue r" using x heaps by (auto split: if_splits)
      then show ?thesis by (intro exI [of _ ?n]) simp
    qed
    show "set run \<subseteq> rg_closure ` set ?rs" using I(4) by auto
    show "\<not> queued ?rs t i" if "i < length ?rs" "rg_closure (?rs ! i) \<in> set run" for i
      using that not_run I(5) queued_old old by (cases "i = ?n") auto
    show "\<not> queued ?rs t i" if "comes_first ?rs i j" "rg_closure (?rs ! j) \<in> set run" for i j
      using that j [OF that] I(6) [OF comes_first_append [OF that(1)]] queued_old [of i] old [of j]
      by (auto simp: comes_first_def)
    show "rg_closure (?rs ! i) \<notin> set vs"
      if "comes_first ?rs i j" "run = us @ rg_closure (?rs ! j) # vs" for i j us vs
    proof -
      have "j < ?n" using j [OF that(1)] that(2) by simp
      moreover then have "i < ?n" using that(1) by (simp add: comes_first_def)
      ultimately show ?thesis using I(7) [OF comes_first_append [OF that(1)]] that(2) old by auto
    qed
    show "rg_closure (?rs ! i) \<in> set run \<or> queued ?rs t i" if "kept" "i < length ?rs" for i
      using that I(8) queued_old queued_new old by (cases "i = ?n") auto
  qed
qed

text \<open>The task that runs is the first of its heap.\<close>

lemma order_inv_run:
  assumes inv: "order_inv rs run kept s" and tq: "tq_inv s"
    and dist: "distinct (map rg_closure rs)" and bound: "length rs \<le> 2 ^ 32"
    and cnt: "order_counter s' = order_counter s"
    and head: "heap_at s x d = t # heap_at s' x d"
    and rest: "\<forall>y b. (y, b) \<noteq> (x, d) \<longrightarrow> heap_at s' y b = heap_at s y b"
  shows "order_inv rs (run @ [task t]) kept s'"
proof -
  note I = order_invD [OF inv]
  obtain k where k: "k < length rs" "t = task_of k (rs ! k)" "rg_queue (rs ! k) = x"
    using I(3) [of t x d] head by auto
  have d: "secondary (rg_grade (rs ! k)) = d" using heap_at_ok(2) [OF tq, of t x d] head k(2) by simp
  have c: "task t = rg_closure (rs ! k)" using k(2) by simp
  have same: "i = k" if "i < length rs" "rg_closure (rs ! i) = rg_closure (rs ! k)" for i
    using that k(1) dist by (metis length_map nth_eq_iff_index_eq nth_map)
  have sub: "set (heap_at s' y b) \<subseteq> set (heap_at s y b)" for y b
    using head rest by (cases "(y, b) = (x, d)") auto
  have q: "queued rs s' i \<Longrightarrow> queued rs s i" for i using sub by (auto simp: queued_def)
  have qk: "queued rs s k" using head k d by (simp add: queued_def)
  have nk: "\<not> queued rs s' k" using I(2) [of x d] head k d by (simp add: queued_def)
  have kept: "queued rs s' i" if i: "i < length rs" "queued rs s i" "i \<noteq> k" for i
  proof -
    have "task_of i (rs ! i) \<noteq> t" using i(3) same [OF i(1)] k(2) by (metis task_of_simps(1))
    then show ?thesis using i(2) head rest
      by (cases "(rg_queue (rs ! i), secondary (rg_grade (rs ! i))) = (x, d)") (auto simp: queued_def)
  qed
  have first: "\<not> queued rs s' i" if i: "comes_first rs i k" for i
  proof
    assume "queued rs s' i"
    then have "task_of i (rs ! i) \<in> set (heap_at s' x d)"
      using i k(3) d by (simp add: queued_def comes_first_def)
    then have "\<not> task_gt t (task_of i (rs ! i))"
      using heap_at_ok(1) [OF tq, of x d] head by (simp add: heap_ok_Cons)
    moreover have "task_gt t (task_of i (rs ! i))"
      unfolding k(2) using i bound by (intro later_is_greater) (simp_all add: comes_first_def)
    ultimately show False by simp
  qed
  show ?thesis
    unfolding order_inv_def
  proof (intro conjI allI impI ballI)
    show "order_counter s' = of_nat (length rs)" using I(1) cnt by simp
    show "distinct (heap_at s' y b)" for y b
      using I(2) [of y b] head rest by (cases "(y, b) = (x, d)") auto
    show "\<exists>i < length rs. z = task_of i (rs ! i) \<and> rg_queue (rs ! i) = y"
      if "z \<in> set (heap_at s' y b)" for y b z using I(3) that sub by blast
    show "set (run @ [task t]) \<subseteq> rg_closure ` set rs" using I(4) c k(1) by auto
    show "\<not> queued rs s' i" if "i < length rs" "rg_closure (rs ! i) \<in> set (run @ [task t])" for i
      using that I(5) q nk same c by auto
    show "\<not> queued rs s' i"
      if f: "comes_first rs i j" "rg_closure (rs ! j) \<in> set (run @ [task t])" for i j
    proof (cases "j = k")
      case True
      then show ?thesis using first f(1) by simp
    next
      case False
      then have "rg_closure (rs ! j) \<in> set run" using f same [of j] c by (auto simp: comes_first_def)
      then show ?thesis using I(6) f(1) q by blast
    qed
    show "rg_closure (rs ! i) \<notin> set vs"
      if f: "comes_first rs i j" "run @ [task t] = us @ rg_closure (rs ! j) # vs" for i j us vs
    proof (cases vs rule: rev_cases)
      case (snoc ws z)
      then have run: "run = us @ rg_closure (rs ! j) # ws" and z: "z = task t" using f(2) by simp_all
      have "i \<noteq> k" using I(6) [OF f(1)] run qk by auto
      then have "rg_closure (rs ! i) \<noteq> z" using f(1) same [of i] c z by (auto simp: comes_first_def)
      then show ?thesis using I(7) [OF f(1) run] snoc by simp
    qed simp
    show "rg_closure (rs ! i) \<in> set (run @ [task t]) \<or> queued rs s' i"
      if "kept" "i < length rs" for i
      using that I(8) kept c by (cases "i = k") auto
  qed
qed

lemma order_inv_trace:
  assumes "trace_from tq_start tq_step es s"
    and "distinct (map rg_closure (registrations es))" "length (registrations es) \<le> 2 ^ 32"
  shows "order_inv (registrations es) (closures_run es) (\<forall>e \<in> set es. \<not> disposes e) s"
  using assms
proof (induction rule: trace_from.induct)
  case (trace_start s)
  then show ?case using order_inv_start by (auto simp: tq_start_def)
next
  case (trace_step es s e t)
  have inv: "order_inv (registrations es) (closures_run es) (\<forall>e \<in> set es. \<not> disposes e) s"
    using trace_step.IH trace_step.prems by simp
  have tq: "tq_inv s" using reachable_tq_inv [OF trace_reachable [OF trace_step.hyps(1)]] .
  note step = trace_step.hyps(2)
  show ?case
  proof (cases "registrations [e] = [] \<and> closures_run [e] = []")
    case True
    then have "order_inv (registrations es) (closures_run es)
        ((\<forall>e \<in> set es. \<not> disposes e) \<and> \<not> disposes e) t"
      using other_heaps [OF tq step] by (intro order_inv_other [OF inv]) auto
    then show ?thesis using True by (simp add: ball_Un conj_commute)
  next
    case False
    then consider (reg) q c time g where "e = EvRegister q c time g"
      | (run) thr q now c where "e = EvGetNext thr q now (Some c)"
    proof (cases e)
      case (EvGetNext thr q now c)
      then show ?thesis using False that(2) by (cases c) auto
    qed auto
    then show ?thesis
    proof cases
      case reg
      let ?r = "\<lparr>rg_queue = q, rg_closure = c, rg_time = time, rg_grade = g\<rparr>"
      have r: "RegisterTask q c time g s = Inr t" using step reg by (auto elim: tq_stepE)
      have "order_inv (registrations es @ [?r]) (closures_run es) (\<forall>e \<in> set es. \<not> disposes e) t"
      proof (rule order_inv_register [OF inv])
        show "rg_closure ?r \<notin> rg_closure ` set (registrations es)" using trace_step.prems reg by auto
      qed (use heaps_RegisterTask [OF r] order_invD(1) [OF inv] in \<open>simp_all add: task_of_def\<close>)
      then show ?thesis using reg by (simp add: conj_commute)
    next
      case run
      have "GetNextTaskToRun thr q now s = Inr (Some c, t)" using step run by (auto elim: tq_stepE)
      from heaps_GetNextTaskToRun [OF tq this] obtain x d u where u: "c = task u"
        "order_counter t = order_counter s" "heap_at s x d = u # heap_at t x d"
        "\<forall>y b. (y, b) \<noteq> (x, d) \<longrightarrow> heap_at t y b = heap_at s y b" by auto
      have "order_inv (registrations es) (closures_run es @ [task u]) (\<forall>e \<in> set es. \<not> disposes e) t"
        using trace_step.prems run by (intro order_inv_run [OF inv tq _ _ u(2-4)]) simp_all
      then show ?thesis using run u(1) by (simp add: conj_commute)
    qed
  qed
qed

subsection \<open>Property\<close>

text \<open>
  C5: First in, first out, over every history with at most 2^32 registrations, all of different
  closures: when a task has run, no task that was registered before it on the same queue, for the
  same of the two heaps and for a time that is not later, runs after it; and if no queue was
  disposed of, every such task has run before it.
\<close>

theorem tasks_run_in_order_of_registration:
  assumes "trace_from tq_start tq_step es s"
    and "distinct (map rg_closure (registrations es))" and "length (registrations es) \<le> 2 ^ 32"
    and "comes_first (registrations es) i j"
    and "closures_run es = us @ rg_closure (registrations es ! j) # vs"
  shows "rg_closure (registrations es ! i) \<notin> set vs \<and>
    ((\<forall>e \<in> set es. \<not> disposes e) \<longrightarrow> rg_closure (registrations es ! i) \<in> set us)"
proof -
  let ?rs = "registrations es"
  note I = order_invD [OF order_inv_trace [OF assms(1-3)]]
  have j: "i < length ?rs" "j < length ?rs" "i \<noteq> j" using assms(4) by (simp_all add: comes_first_def)
  then have ne: "rg_closure (?rs ! i) \<noteq> rg_closure (?rs ! j)"
    using assms(2) by (metis length_map nth_eq_iff_index_eq nth_map)
  have after: "rg_closure (?rs ! i) \<notin> set vs" by (rule I(7) [OF assms(4,5)])
  have "\<not> queued ?rs s i" using I(6) [OF assms(4)] assms(5) by simp
  then show ?thesis using I(8) [OF _ j(1)] after ne assms(5) by auto
qed

text \<open>Two tasks for the same time on a new queue.\<close>

definition fifo_events :: "nat tq_event list" where
  "fifo_events = [EvCreate 0, EvRegister 0 100 5 kUnspecified, EvRegister 0 101 5 kUserInteraction,
     EvGetNext 3 0 9 (Some 100), EvGetNext 3 0 9 (Some 101)]"

lemma fifo_trace: "\<exists>s. trace_from tq_start tq_step fifo_events s"
proof -
  let ?T = "trace_from tq_start tq_step :: nat tq_event list \<Rightarrow> _"
  obtain s1 s2 s3 s4 s5 where c: "CreateTaskQueue (new_task_queues 0) = (0, s1)"
    and s: "RegisterTask 0 100 5 kUnspecified s1 = Inr s2"
      "RegisterTask 0 101 5 kUserInteraction s2 = Inr s3"
      "GetNextTaskToRun 3 0 9 s3 = Inr (Some (100 :: nat), s4)"
      "GetNextTaskToRun 3 0 9 s4 = Inr (Some 101, s5)"
    by (simp add: tq_eval)
  have "tq_start (new_task_queues 0)" by (auto simp: tq_start_def)
  then have "?T [] (new_task_queues 0)" by (rule trace_start)
  moreover have "tq_step (new_task_queues 0) (EvCreate 0) s1"
    by (rule step_create [OF _ c]) (simp add: new_task_queues_def kInvalid_def counter_below_sentinels)
  ultimately have "?T ([] @ [EvCreate 0]) s1" by (rule trace_step)
  from trace_step [OF this step_register [OF s(1)]]
  have "?T [EvCreate 0, EvRegister 0 100 5 kUnspecified] s2" by simp
  from trace_step [OF this step_register [OF s(2)]]
  have "?T [EvCreate 0, EvRegister 0 100 5 kUnspecified, EvRegister 0 101 5 kUserInteraction] s3" by simp
  from trace_step [OF this step_get_next [OF s(3)]]
  have "?T [EvCreate 0, EvRegister 0 100 5 kUnspecified, EvRegister 0 101 5 kUserInteraction,
      EvGetNext 3 0 9 (Some 100)] s4" by simp
  from trace_step [OF this step_get_next [OF s(4)]]
  have "?T fifo_events s5" by (simp add: fifo_events_def)
  then show ?thesis by blast
qed

theorem tasks_run_in_order_of_registration_witness:
  "\<exists>us vs. closures_run fifo_events = us @ 101 # vs \<and> 100 \<in> set us"
proof -
  obtain s where t: "trace_from tq_start tq_step fifo_events s" using fifo_trace by blast
  have r: "closures_run fifo_events = [100] @ rg_closure (registrations fifo_events ! 1) # []"
    "distinct (map rg_closure (registrations fifo_events))" "length (registrations fifo_events) \<le> 2 ^ 32"
    "comes_first (registrations fifo_events) 0 1" "\<forall>e \<in> set fifo_events. \<not> disposes e"
    "rg_closure (registrations fifo_events ! 1) = 101" "rg_closure (registrations fifo_events ! 0) = 100"
    by (simp_all add: fifo_events_def comes_first_def secondary_def)
  from tasks_run_in_order_of_registration [OF t r(2-4,1)] r show ?thesis by (metis append_Cons append_Nil)
qed

end
