(* ===== verification/Thread_Merger.thy ===== *)
theory Thread_Merger
  imports Task_Queues_Props
begin

text \<open>
  \<^verbatim>\<open>src/fml/shared_thread_merger.{h,cc}\<close> and \<^verbatim>\<open>raster_thread_merger.{h,cc}\<close>: merging the raster
  and the platform task queue for a number of leases.

  The shared merger keeps one lease term per caller (a \<open>std::map\<close> from the address of a
  \<open>RasterThreadMerger\<close>, here a number) and calls \<open>Merge\<close> and \<open>Unmerge\<close> of the task queues.
  Every public operation of a raster merger runs under its mutex and, where it reaches the
  shared merger, under the shared mutex. Calls of the merge/unmerge callback and of
  \<open>notify_one\<close> are recorded in \<open>effects\<close>. The locale \<open>merge_service\<close> is what the mergers
  rely on of the task queues.
\<close>

subsection \<open>The contract of the task queues\<close>

locale merge_service =
  fixes merge :: "'q \<Rightarrow> 'q \<Rightarrow> 's \<Rightarrow> (bool \<times> 's) result"
    and unmerge :: "'q \<Rightarrow> 'q \<Rightarrow> 's \<Rightarrow> (bool \<times> 's) result"
    and owned :: "'s \<Rightarrow> 'q \<Rightarrow> 'q \<Rightarrow> bool"
    and ok :: "'s \<Rightarrow> bool"
  assumes merge_owned: "ok s \<Longrightarrow> a \<noteq> b \<Longrightarrow> merge a b s = Inr (True, s') \<Longrightarrow> owned s' a b \<and> ok s'"
    and unmerge_owned: "ok s \<Longrightarrow> unmerge a b s = Inr (True, s') \<Longrightarrow>
      owned s a b \<and> \<not> owned s' a b \<and> ok s'"
begin

text \<open>
  \<open>leased l\<close>: some caller has a positive lease term. A client that merges exactly when it goes
  from no lease to a positive one, and unmerges when the last lease is gone, has a lease
  exactly while the queues are merged.
\<close>

definition tracks :: "(nat \<times> u64) list \<Rightarrow> 'q \<Rightarrow> 'q \<Rightarrow> 's \<Rightarrow> bool" where
  "tracks l a b s \<longleftrightarrow> ok s \<and> ((\<exists>t \<in> snd ` set l. t \<noteq> 0) \<longleftrightarrow> owned s a b)"

lemma tracks_merge:
  assumes "tracks l a b s" "a \<noteq> b" "merge a b s = Inr (True, s')" "\<exists>t \<in> snd ` set l'. t \<noteq> 0"
  shows "tracks l' a b s'"
  using merge_owned [OF _ assms(2,3)] assms(1,4) by (simp add: tracks_def)

lemma tracks_unmerge:
  assumes "tracks l a b s" "unmerge a b s = Inr (True, s')" "\<forall>t \<in> snd ` set l'. t = 0"
  shows "tracks l' a b s'"
  using unmerge_owned [OF _ assms(2)] assms(1,3) by (auto simp: tracks_def)

lemma tracks_lease:
  assumes "tracks l a b s"
    and "(\<exists>t \<in> snd ` set l'. t \<noteq> 0) \<longleftrightarrow> (\<exists>t \<in> snd ` set l. t \<noteq> 0)"
  shows "tracks l' a b s"
  using assms by (simp add: tracks_def)

end

definition queue_owns :: "'c task_queues \<Rightarrow> u64 \<Rightarrow> u64 \<Rightarrow> bool" where
  "queue_owns s a b \<longleftrightarrow> (\<exists>e. queue_entries s a = Some e \<and> b \<in> set (owner_of e))"

lemma queue_owns_log [simp]: "queue_owns (s\<lparr>wake_log := l\<rparr>) a b = queue_owns s a b"
  by (simp add: queue_owns_def)

lemma Merge_refused:
  assumes "a \<noteq> b" "\<not> mergeable a b s" "Merge a b s = Inr (True, s')"
  shows "queue_owns s' a b"
  using assms
  by (simp add: Merge_def result_simps Let_def mergeable_def queue_owns_def entry_at_def
        split: if_splits) auto

lemma link_owns: "mergeable a b s \<Longrightarrow> queue_owns (link a b s) a b"
  by (auto simp: mergeable_def queue_owns_def link_def put_entry_def set_insort_insert)

lemma Merge_true:
  assumes "a \<noteq> b" "Merge a b s = Inr (True, s')"
  shows "queue_owns s' a b"
proof (cases "mergeable a b s")
  case True
  then obtain l where "s' = (link a b s)\<lparr>wake_log := l\<rparr>" using Merge_cases [OF assms(2)] by blast
  then show ?thesis using link_owns [OF True] by simp
qed (rule Merge_refused [OF assms(1) _ assms(2)])

lemma Unmerge_true:
  assumes "tq_inv s" "Unmerge a b s = Inr (True, s')"
  shows "queue_owns s a b" "\<not> queue_owns s' a b"
proof -
  from Unmerge_cases [OF assms(2)] obtain l where um: "unmergeable a b s" "a \<noteq> b"
    and s': "s' = (unlink a b s)\<lparr>wake_log := l\<rparr>" by auto
  then show "queue_owns s a b" by (auto simp: unmergeable_def queue_owns_def)
  from um obtain oe se where e: "queue_entries s a = Some oe" "queue_entries s b = Some se"
    by (auto simp: unmergeable_def)
  then have "queue_entries s' a = Some (oe\<lparr>owner_of := remove1 b (owner_of oe)\<rparr>)"
    by (simp add: s' unlink_def)
  then show "\<not> queue_owns s' a b"
    using tq_invD(3) [OF assms(1) e(1)] by (simp add: queue_owns_def)
qed

interpretation tqm: merge_service Merge Unmerge queue_owns tq_inv
  by unfold_locales (auto intro: Merge_true Merge_inv Unmerge_inv dest: Unmerge_true)

subsection \<open>SharedThreadMerger\<close>

record shared_merger =
  sm_owner :: u64
  sm_subsumed :: u64
  sm_enabled :: bool
  lease_term_by_caller :: "(nat \<times> u64) list"

definition new_shared_merger :: "u64 \<Rightarrow> u64 \<Rightarrow> shared_merger" where
  "new_shared_merger owner subsumed =
     \<lparr>sm_owner = owner, sm_subsumed = subsumed, sm_enabled = True, lease_term_by_caller = []\<rparr>"

type_synonym 'c merger_world = "shared_merger \<times> 'c task_queues"

definition IsAllLeaseTermsZero :: "shared_merger \<Rightarrow> bool" where
  "IsAllLeaseTermsZero m = list_all (\<lambda>(_, lease). lease = 0) (lease_term_by_caller m)"

definition sm_IsMerged :: "shared_merger \<Rightarrow> bool" where
  "sm_IsMerged m \<longleftrightarrow> \<not> IsAllLeaseTermsZero m"

definition sm_SetEnabled :: "bool \<Rightarrow> shared_merger \<Rightarrow> shared_merger" where
  "sm_SetEnabled b m = m\<lparr>sm_enabled := b\<rparr>"

definition sm_MergeWithLease ::
  "nat \<Rightarrow> u64 \<Rightarrow> 'c merger_world \<Rightarrow> (bool \<times> 'c merger_world) result"
where
  "sm_MergeWithLease caller lease_term w =
     (case w of (m, s) \<Rightarrow>
        rbind (guard Dcheck_Failed (lease_term > 0)) (\<lambda>_.
          if sm_IsMerged m then Inr (True, (m, s))
          else
            rbind (Merge (sm_owner m) (sm_subsumed m) s) (\<lambda>(success, s').
            rbind (guard Check_Failed success) (\<lambda>_.
              Inr (success,
                   (m\<lparr>lease_term_by_caller :=
                        smap_put caller lease_term (lease_term_by_caller m)\<rparr>, s'))))))"

definition UnMergeNow :: "'c merger_world \<Rightarrow> (bool \<times> 'c merger_world) result" where
  "UnMergeNow w =
     (case w of (m, s) \<Rightarrow>
        rbind (guard Check_Failed (IsAllLeaseTermsZero m)) (\<lambda>_.
        rbind (Unmerge (sm_owner m) (sm_subsumed m) s) (\<lambda>(success, s').
        rbind (guard Check_Failed success) (\<lambda>_. Inr (success, (m, s'))))))"

definition sm_UnMergeNowIfLastOne ::
  "nat \<Rightarrow> 'c merger_world \<Rightarrow> (bool \<times> 'c merger_world) result"
where
  "sm_UnMergeNowIfLastOne caller w =
     (case w of (m, s) \<Rightarrow>
        let m' = m\<lparr>lease_term_by_caller := smap_del caller (lease_term_by_caller m)\<rparr>
        in if lease_term_by_caller m' = [] \<or> IsAllLeaseTermsZero m' then UnMergeNow (m', s)
           else Inr (True, (m', s)))"

definition sm_DecrementLease ::
  "nat \<Rightarrow> 'c merger_world \<Rightarrow> (bool \<times> 'c merger_world) result"
where
  "sm_DecrementLease caller w =
     (case w of (m, s) \<Rightarrow>
        rbind
          (case map_of (lease_term_by_caller m) caller of
             Some lease \<Rightarrow>
               rbind (guard Check_Failed (lease > 0)) (\<lambda>_.
                 Inr (m\<lparr>lease_term_by_caller :=
                          smap_put caller (lease - 1) (lease_term_by_caller m)\<rparr>))
           | None \<Rightarrow> Inr m)
          (\<lambda>m'.
             if IsAllLeaseTermsZero m' then
               rbind (UnMergeNow (m', s)) (\<lambda>(_, w'). Inr (True, w'))
             else Inr (False, (m', s))))"

definition sm_ExtendLeaseTo :: "nat \<Rightarrow> u64 \<Rightarrow> 'c merger_world \<Rightarrow> 'c merger_world result" where
  "sm_ExtendLeaseTo caller lease_term w =
     (case w of (m, s) \<Rightarrow>
        rbind (guard Dcheck_Failed (lease_term > 0)) (\<lambda>_.
        rbind (guard Dcheck_Failed (sm_IsMerged m)) (\<lambda>_.
          Inr (m\<lparr>lease_term_by_caller :=
                   smap_put caller lease_term (lease_term_by_caller m)\<rparr>, s))))"

subsection \<open>RasterThreadMerger\<close>

datatype RasterThreadStatus = kRemainsMerged | kRemainsUnmerged | kUnmergedNow

datatype merger_effect = Notify_One nat | Merge_Unmerge_Callback nat

record raster_merger =
  rm_this :: nat
  platform_queue_id :: u64
  gpu_queue_id :: u64
  merge_unmerge_callback :: bool

record 'c raster_world =
  shared :: "'c merger_world"
  effects :: "merger_effect list"

definition SetMergeUnmergeCallback :: "bool \<Rightarrow> raster_merger \<Rightarrow> raster_merger" where
  "SetMergeUnmergeCallback has r = r\<lparr>merge_unmerge_callback := has\<rparr>"

definition emit :: "merger_effect list \<Rightarrow> 'c raster_world \<Rightarrow> 'c raster_world" where
  "emit es w = w\<lparr>effects := effects w @ es\<rparr>"

definition callback_effect :: "raster_merger \<Rightarrow> bool \<Rightarrow> merger_effect list" where
  "callback_effect r success =
     (if success \<and> merge_unmerge_callback r then [Merge_Unmerge_Callback (rm_this r)] else [])"

definition TaskQueuesAreSame :: "raster_merger \<Rightarrow> bool" where
  "TaskQueuesAreSame r \<longleftrightarrow> platform_queue_id r = gpu_queue_id r"

definition rm_IsMerged :: "raster_merger \<Rightarrow> 'c raster_world \<Rightarrow> bool" where
  "rm_IsMerged r w \<longleftrightarrow> TaskQueuesAreSame r \<or> sm_IsMerged (fst (shared w))"

definition rm_IsEnabled :: "raster_merger \<Rightarrow> 'c raster_world \<Rightarrow> bool" where
  "rm_IsEnabled r w \<longleftrightarrow> sm_enabled (fst (shared w))"

text \<open>
  \<open>CreateOrShareThreadMerger\<close>: the new merger shares the parent's shared merger when both
  queue pairs are equal; otherwise it gets a new one (\<open>True\<close>: shared).
\<close>

definition CreateOrShareThreadMerger ::
  "(raster_merger \<times> shared_merger) option \<Rightarrow> nat \<Rightarrow> u64 \<Rightarrow> u64 \<Rightarrow>
   raster_merger \<times> shared_merger \<times> bool"
where
  "CreateOrShareThreadMerger parent this platform_id raster_id =
     (let r = \<lparr>rm_this = this, platform_queue_id = platform_id, gpu_queue_id = raster_id,
               merge_unmerge_callback = False\<rparr>
      in case parent of
           Some (p, sm) \<Rightarrow>
             if platform_queue_id p = platform_id \<and> gpu_queue_id p = raster_id
             then (r, sm, True)
             else (r, new_shared_merger platform_id raster_id, False)
         | None \<Rightarrow> (r, new_shared_merger platform_id raster_id, False))"

definition rm_MergeWithLease ::
  "raster_merger \<Rightarrow> u64 \<Rightarrow> 'c raster_world \<Rightarrow> 'c raster_world result"
where
  "rm_MergeWithLease r lease_term w =
     (if TaskQueuesAreSame r then Inr w
      else if \<not> rm_IsEnabled r w then Inr w
      else
        rbind (guard Dcheck_Failed (lease_term > 0)) (\<lambda>_.
          if rm_IsMerged r w then Inr (emit [Notify_One (rm_this r)] w)
          else
            rbind (sm_MergeWithLease (rm_this r) lease_term (shared w)) (\<lambda>(success, sh).
              Inr (emit (callback_effect r success @ [Notify_One (rm_this r)])
                     (w\<lparr>shared := sh\<rparr>)))))"

definition rm_UnMergeNowIfLastOne ::
  "raster_merger \<Rightarrow> 'c raster_world \<Rightarrow> 'c raster_world result"
where
  "rm_UnMergeNowIfLastOne r w =
     (if TaskQueuesAreSame r then Inr w
      else if \<not> rm_IsEnabled r w then Inr w
      else
        rbind (sm_UnMergeNowIfLastOne (rm_this r) (shared w)) (\<lambda>(success, sh).
          Inr (emit (callback_effect r success) (w\<lparr>shared := sh\<rparr>))))"

definition IsOnPlatformThread :: "u64 \<Rightarrow> raster_merger \<Rightarrow> bool" where
  "IsOnPlatformThread current r \<longleftrightarrow> current = platform_queue_id r"

definition IsOnRasterizingThread :: "u64 \<Rightarrow> raster_merger \<Rightarrow> 'c raster_world \<Rightarrow> bool" where
  "IsOnRasterizingThread current r w =
     (if rm_IsMerged r w then IsOnPlatformThread current r
      else \<not> IsOnPlatformThread current r)"

definition rm_ExtendLeaseTo ::
  "raster_merger \<Rightarrow> u64 \<Rightarrow> 'c raster_world \<Rightarrow> 'c raster_world result"
where
  "rm_ExtendLeaseTo r lease_term w =
     rbind (guard Dcheck_Failed (lease_term > 0)) (\<lambda>_.
       if TaskQueuesAreSame r then Inr w
       else if \<not> rm_IsEnabled r w then Inr w
       else rbind (sm_ExtendLeaseTo (rm_this r) lease_term (shared w)) (\<lambda>sh.
              Inr (w\<lparr>shared := sh\<rparr>)))"

definition rm_Enable :: "'c raster_world \<Rightarrow> 'c raster_world" where
  "rm_Enable w = w\<lparr>shared := (sm_SetEnabled True (fst (shared w)), snd (shared w))\<rparr>"

definition rm_Disable :: "'c raster_world \<Rightarrow> 'c raster_world" where
  "rm_Disable w = w\<lparr>shared := (sm_SetEnabled False (fst (shared w)), snd (shared w))\<rparr>"

text \<open>\<open>WaitUntilMerged\<close> blocks (\<open>Inr None\<close>) until its predicate holds.\<close>

definition WaitUntilMerged :: "u64 \<Rightarrow> raster_merger \<Rightarrow> 'c raster_world \<Rightarrow> unit option result" where
  "WaitUntilMerged current r w =
     (if TaskQueuesAreSame r then Inr (Some ())
      else rbind (guard Check_Failed (IsOnPlatformThread current r)) (\<lambda>_.
             Inr (if rm_IsMerged r w then Some () else None)))"

definition rm_DecrementLease ::
  "raster_merger \<Rightarrow> 'c raster_world \<Rightarrow> (RasterThreadStatus \<times> 'c raster_world) result"
where
  "rm_DecrementLease r w =
     (if TaskQueuesAreSame r then Inr (kRemainsMerged, w)
      else if \<not> rm_IsMerged r w then Inr (kRemainsUnmerged, w)
      else if \<not> rm_IsEnabled r w then Inr (kRemainsMerged, w)
      else
        rbind (sm_DecrementLease (rm_this r) (shared w)) (\<lambda>(unmerged, sh).
          if unmerged then
            Inr (kUnmergedNow, emit (callback_effect r True) (w\<lparr>shared := sh\<rparr>))
          else Inr (kRemainsMerged, w\<lparr>shared := sh\<rparr>)))"

subsection \<open>The mergers as a state machine\<close>

lemma IsAllLeaseTermsZero_iff:
  "IsAllLeaseTermsZero m \<longleftrightarrow> (\<forall>t \<in> snd ` set (lease_term_by_caller m). t = 0)"
  by (auto simp: IsAllLeaseTermsZero_def list_all_iff)

lemma smap_put_has: "sset (map fst l) \<Longrightarrow> v \<in> snd ` set (smap_put k v l)"
  using map_of_smap_put [of l k v] map_of_SomeD [of "smap_put k v l" k v]
  by (force intro: rev_image_eqI)

definition merger_inv :: "'c merger_world \<Rightarrow> bool" where
  "merger_inv w = (case w of (m, s) \<Rightarrow>
     sset (map fst (lease_term_by_caller m)) \<and>
     tqm.tracks (lease_term_by_caller m) (sm_owner m) (sm_subsumed m) s)"

lemma merger_invI:
  "sset (map fst (lease_term_by_caller m)) \<Longrightarrow>
   tqm.tracks (lease_term_by_caller m) (sm_owner m) (sm_subsumed m) s \<Longrightarrow> merger_inv (m, s)"
  by (simp add: merger_inv_def)

lemma merger_invD:
  assumes "merger_inv (m, s)"
  shows "sset (map fst (lease_term_by_caller m))"
    and "tqm.tracks (lease_term_by_caller m) (sm_owner m) (sm_subsumed m) s"
    and "tq_inv s"
    and "sm_IsMerged m \<longleftrightarrow> queue_owns s (sm_owner m) (sm_subsumed m)"
  using assms
  by (auto simp: merger_inv_def tqm.tracks_def sm_IsMerged_def IsAllLeaseTermsZero_iff)

lemma UnMergeNow_cases:
  assumes "UnMergeNow (m, s) = Inr (b, w)"
  shows "\<exists>s'. w = (m, s') \<and> b \<and> IsAllLeaseTermsZero m \<and>
              Unmerge (sm_owner m) (sm_subsumed m) s = Inr (True, s')"
  using assms by (auto simp: UnMergeNow_def result_simps)

lemma UnMergeNow_inv:
  assumes "merger_inv (m, s)" and "UnMergeNow (m\<lparr>lease_term_by_caller := l'\<rparr>, s) = Inr (b, w)"
    and "sset (map fst l')"
  shows "merger_inv w \<and> b"
proof -
  from UnMergeNow_cases [OF assms(2)] obtain s' where
    w: "w = (m\<lparr>lease_term_by_caller := l'\<rparr>, s')" "b"
    and z: "\<forall>t \<in> snd ` set l'. t = 0"
    and u: "Unmerge (sm_owner m) (sm_subsumed m) s = Inr (True, s')"
    by (auto simp: IsAllLeaseTermsZero_iff)
  from tqm.tracks_unmerge [OF merger_invD(2) [OF assms(1)] u z] assms(3) w
  show ?thesis by (simp add: merger_inv_def)
qed

lemma sm_MergeWithLease_inv:
  assumes inv: "merger_inv (m, s)" and ne: "sm_owner m \<noteq> sm_subsumed m"
    and r: "sm_MergeWithLease c t (m, s) = Inr (b, w)"
  shows "merger_inv w \<and> b \<and> sm_IsMerged (fst w)"
proof (cases "sm_IsMerged m")
  case True
  with r inv show ?thesis by (auto simp: sm_MergeWithLease_def result_simps)
next
  case False
  let ?l = "smap_put c t (lease_term_by_caller m)"
  from False r have t: "t \<noteq> 0"
    and "\<exists>s'. Merge (sm_owner m) (sm_subsumed m) s = Inr (True, s') \<and> b \<and>
               w = (m\<lparr>lease_term_by_caller := ?l\<rparr>, s')"
    by (auto simp: sm_MergeWithLease_def result_simps)
  then obtain s' where mg: "Merge (sm_owner m) (sm_subsumed m) s = Inr (True, s')" and b: "b"
    and w: "w = (m\<lparr>lease_term_by_caller := ?l\<rparr>, s')"
    by blast
  have pos: "\<exists>u \<in> snd ` set ?l. u \<noteq> 0"
    using t smap_put_has [OF merger_invD(1) [OF inv]] by blast
  have "sm_IsMerged (fst w)" using pos by (simp add: w sm_IsMerged_def IsAllLeaseTermsZero_iff)
  moreover have "merger_inv w"
    using tqm.tracks_merge [OF merger_invD(2) [OF inv] ne mg pos]
      sset_smap_put [OF merger_invD(1) [OF inv]] by (simp add: w merger_inv_def)
  ultimately show ?thesis using b by simp
qed

lemma sm_UnMergeNowIfLastOne_inv:
  assumes inv: "merger_inv (m, s)" and r: "sm_UnMergeNowIfLastOne c (m, s) = Inr (b, w)"
  shows "merger_inv w \<and> b"
proof -
  let ?l = "smap_del c (lease_term_by_caller m)"
  have sl: "sset (map fst ?l)" using merger_invD(1) [OF inv] by (rule sset_smap_del)
  show ?thesis
  proof (cases "?l = [] \<or> IsAllLeaseTermsZero (m\<lparr>lease_term_by_caller := ?l\<rparr>)")
    case True
    with r have "UnMergeNow (m\<lparr>lease_term_by_caller := ?l\<rparr>, s) = Inr (b, w)"
      by (simp add: sm_UnMergeNowIfLastOne_def Let_def)
    from UnMergeNow_inv [OF inv this sl] show ?thesis .
  next
    case False
    then obtain u where u: "u \<in> snd ` set ?l" "u \<noteq> 0" by (auto simp: IsAllLeaseTermsZero_iff)
    then have "u \<in> snd ` set (lease_term_by_caller m)" by (auto simp: smap_del_def)
    with u have "(\<exists>t \<in> snd ` set ?l. t \<noteq> 0) \<longleftrightarrow> (\<exists>t \<in> snd ` set (lease_term_by_caller m). t \<noteq> 0)"
      by blast
    from tqm.tracks_lease [OF merger_invD(2) [OF inv] this] False r sl show ?thesis
      by (auto simp: sm_UnMergeNowIfLastOne_def Let_def merger_inv_def)
  qed
qed

lemma sm_ExtendLeaseTo_inv:
  assumes inv: "merger_inv (m, s)" and r: "sm_ExtendLeaseTo c t (m, s) = Inr w"
  shows "merger_inv w"
proof -
  let ?l = "smap_put c t (lease_term_by_caller m)"
  from r have w: "w = (m\<lparr>lease_term_by_caller := ?l\<rparr>, s)" and t: "t \<noteq> 0" and mg: "sm_IsMerged m"
    by (auto simp: sm_ExtendLeaseTo_def result_simps)
  have "\<exists>u \<in> snd ` set ?l. u \<noteq> 0"
    using t smap_put_has [OF merger_invD(1) [OF inv], of t c] by blast
  moreover have "\<exists>u \<in> snd ` set (lease_term_by_caller m). u \<noteq> 0"
    using mg by (simp add: sm_IsMerged_def IsAllLeaseTermsZero_iff)
  ultimately
  have "(\<exists>u \<in> snd ` set ?l. u \<noteq> 0) \<longleftrightarrow> (\<exists>u \<in> snd ` set (lease_term_by_caller m). u \<noteq> 0)"
    by simp
  from tqm.tracks_lease [OF merger_invD(2) [OF inv] this] sset_smap_put [OF merger_invD(1) [OF inv]]
  show ?thesis by (simp add: w merger_inv_def)
qed

lemma sm_DecrementLease_inv:
  assumes inv: "merger_inv (m, s)" and mg: "sm_IsMerged m"
    and r: "sm_DecrementLease c (m, s) = Inr (b, w)"
  shows "merger_inv w \<and> b = (\<not> sm_IsMerged (fst w))"
proof -
  from r obtain l where sl: "sset (map fst l)"
    and u: "if IsAllLeaseTermsZero (m\<lparr>lease_term_by_caller := l\<rparr>)
            then UnMergeNow (m\<lparr>lease_term_by_caller := l\<rparr>, s) = Inr (True, w) \<and> b
            else w = (m\<lparr>lease_term_by_caller := l\<rparr>, s) \<and> \<not> b"
    using merger_invD(1) [OF inv]
    by (cases "map_of (lease_term_by_caller m) c")
       (fastforce simp: sm_DecrementLease_def result_simps split: if_splits dest: UnMergeNow_cases)+
  show ?thesis
  proof (cases "IsAllLeaseTermsZero (m\<lparr>lease_term_by_caller := l\<rparr>)")
    case True
    with u have un: "UnMergeNow (m\<lparr>lease_term_by_caller := l\<rparr>, s) = Inr (True, w)" "b" by auto
    with UnMergeNow_inv [OF inv un(1) sl] UnMergeNow_cases [OF un(1)] show ?thesis
      by (auto simp: sm_IsMerged_def)
  next
    case False
    have "(\<exists>t \<in> snd ` set l. t \<noteq> 0) \<longleftrightarrow> (\<exists>t \<in> snd ` set (lease_term_by_caller m). t \<noteq> 0)"
      using False mg by (auto simp: IsAllLeaseTermsZero_iff sm_IsMerged_def)
    from tqm.tracks_lease [OF merger_invD(2) [OF inv] this] False u sl show ?thesis
      by (simp add: merger_inv_def sm_IsMerged_def)
  qed
qed

definition of_pair :: "raster_merger \<Rightarrow> shared_merger \<Rightarrow> bool" where
  "of_pair r m \<longleftrightarrow> platform_queue_id r = sm_owner m \<and> gpu_queue_id r = sm_subsumed m"

datatype 'c merger_event =
    EvMerge raster_merger u64 | EvUnMergeIfLast raster_merger | EvDecrement raster_merger
  | EvExtend raster_merger u64 | EvEnable | EvDisable
  | EvQueueTask u64 'c int TaskSourceGrade

text \<open>
  Any merger of the pair may call any operation at any time, and tasks are registered with
  the queues in between.
\<close>

inductive merger_step :: "'c raster_world \<Rightarrow> 'c merger_event \<Rightarrow> 'c raster_world \<Rightarrow> bool" where
  "of_pair r (fst (shared w)) \<Longrightarrow> rm_MergeWithLease r t w = Inr w' \<Longrightarrow>
     merger_step w (EvMerge r t) w'"
| "of_pair r (fst (shared w)) \<Longrightarrow> rm_UnMergeNowIfLastOne r w = Inr w' \<Longrightarrow>
     merger_step w (EvUnMergeIfLast r) w'"
| "of_pair r (fst (shared w)) \<Longrightarrow> rm_DecrementLease r w = Inr (st, w') \<Longrightarrow>
     merger_step w (EvDecrement r) w'"
| "of_pair r (fst (shared w)) \<Longrightarrow> rm_ExtendLeaseTo r t w = Inr w' \<Longrightarrow>
     merger_step w (EvExtend r t) w'"
| "merger_step w EvEnable (rm_Enable w)"
| "merger_step w EvDisable (rm_Disable w)"
| "RegisterTask q c time g (snd (shared w)) = Inr s' \<Longrightarrow>
     merger_step w (EvQueueTask q c time g) (w\<lparr>shared := (fst (shared w), s')\<rparr>)"

inductive_cases merger_stepE: "merger_step w e w'"

definition merger_start :: "'c raster_world \<Rightarrow> bool" where
  "merger_start w \<longleftrightarrow>
     (\<exists>a b s. shared w = (new_shared_merger a b, s) \<and> tq_inv s \<and> \<not> queue_owns s a b)"

lemma merger_inv_start: "merger_start w \<Longrightarrow> merger_inv (shared w)"
  by (auto simp: merger_start_def merger_inv_def new_shared_merger_def tqm.tracks_def)

lemma emit_shared [simp]: "shared (emit es w) = shared w"
  by (simp add: emit_def)

lemma rm_MergeWithLease_inv:
  assumes inv: "merger_inv (shared w)" and p: "of_pair r (fst (shared w))"
    and r: "rm_MergeWithLease r t w = Inr w'"
  shows "merger_inv (shared w')"
proof -
  obtain m s where w: "shared w = (m, s)" by (cases "shared w")
  have "w' = w \<or> shared w' = shared w \<or>
        (\<exists>b. sm_owner m \<noteq> sm_subsumed m \<and>
             sm_MergeWithLease (rm_this r) t (m, s) = Inr (b, shared w'))"
    using r p w
    by (auto simp: rm_MergeWithLease_def TaskQueuesAreSame_def of_pair_def result_simps
          split: if_splits)
  then show ?thesis
  proof (elim disjE exE conjE)
    fix b assume "sm_owner m \<noteq> sm_subsumed m"
      "sm_MergeWithLease (rm_this r) t (m, s) = Inr (b, shared w')"
    from sm_MergeWithLease_inv [OF inv [unfolded w] this] show ?thesis by simp
  qed (use inv in simp_all)
qed

lemma rm_UnMergeNowIfLastOne_inv:
  assumes inv: "merger_inv (shared w)" and r: "rm_UnMergeNowIfLastOne r w = Inr w'"
  shows "merger_inv (shared w')"
proof -
  obtain m s where w: "shared w = (m, s)" by (cases "shared w")
  have "w' = w \<or> (\<exists>b. sm_UnMergeNowIfLastOne (rm_this r) (m, s) = Inr (b, shared w'))"
    using r w by (auto simp: rm_UnMergeNowIfLastOne_def result_simps split: if_splits)
  then show ?thesis using sm_UnMergeNowIfLastOne_inv [OF inv [unfolded w]] inv by blast
qed

lemma rm_DecrementLease_cases:
  assumes "rm_DecrementLease r w = Inr (st, w')"
  shows "w' = w \<or> (\<exists>b. sm_IsMerged (fst (shared w)) \<and>
           sm_DecrementLease (rm_this r) (shared w) = Inr (b, shared w'))"
proof (cases "TaskQueuesAreSame r \<or> \<not> rm_IsMerged r w \<or> \<not> rm_IsEnabled r w")
  case True
  with assms show ?thesis by (auto simp: rm_DecrementLease_def split: if_splits)
next
  case False
  with assms obtain b sh where d: "sm_DecrementLease (rm_this r) (shared w) = Inr (b, sh)"
    and c: "(if b then Inr (kUnmergedNow, emit (callback_effect r True) (w\<lparr>shared := sh\<rparr>))
             else Inr (kRemainsMerged, w\<lparr>shared := sh\<rparr>)) = (Inr (st, w') :: _ result)"
    by (auto simp: rm_DecrementLease_def result_simps)
  from c have "shared w' = sh" by (auto split: if_splits)
  with d False show ?thesis by (auto simp: rm_IsMerged_def)
qed

lemma rm_DecrementLease_inv:
  assumes inv: "merger_inv (shared w)" and r: "rm_DecrementLease r w = Inr (st, w')"
  shows "merger_inv (shared w')"
proof -
  obtain m s where w: "shared w = (m, s)" by (cases "shared w")
  note step = sm_DecrementLease_inv [OF inv [unfolded w], of "rm_this r" _ "shared w'"]
  from rm_DecrementLease_cases [OF r] show ?thesis
  proof (elim disjE exE conjE)
    fix b assume "sm_IsMerged (fst (shared w))"
      "sm_DecrementLease (rm_this r) (shared w) = Inr (b, shared w')"
    with step show ?thesis by (simp add: w)
  qed (use inv in simp)
qed

lemma rm_ExtendLeaseTo_inv:
  assumes inv: "merger_inv (shared w)" and r: "rm_ExtendLeaseTo r t w = Inr w'"
  shows "merger_inv (shared w')"
proof -
  obtain m s where w: "shared w = (m, s)" by (cases "shared w")
  have "w' = w \<or> sm_ExtendLeaseTo (rm_this r) t (m, s) = Inr (shared w')"
    using r w by (auto simp: rm_ExtendLeaseTo_def result_simps split: if_splits)
  then show ?thesis using sm_ExtendLeaseTo_inv [OF inv [unfolded w]] inv by blast
qed

lemma RegisterTask_owns:
  assumes "RegisterTask q c time g s = Inr s'"
  shows "queue_owns s' a b = queue_owns s a b"
proof -
  let ?s1 = "s\<lparr>order_counter := order_counter s + 1\<rparr>"
  from assms obtain e t v where e: "queue_entries s q = Some e"
    and wk: "wake_if_pending v
               (put_entry q (e\<lparr>task_src := ts_RegisterTask t (task_src e)\<rparr>) ?s1) = Inr s'"
    by (auto simp: RegisterTask_def Let_def result_simps)
  from wake_if_pending_log [OF wk] e show ?thesis by (auto simp: queue_owns_def split: if_splits)
qed

lemma set_enabled_inv: "merger_inv (sm_SetEnabled b (fst w), snd w) = merger_inv w"
  by (simp add: merger_inv_def sm_SetEnabled_def split: prod.splits)

lemma queue_task_inv:
  assumes "merger_inv w" "RegisterTask q c time g (snd w) = Inr s'"
  shows "merger_inv (fst w, s')"
  using assms RegisterTask_inv [OF _ assms(2)] RegisterTask_owns [OF assms(2)]
  by (simp add: merger_inv_def tqm.tracks_def split: prod.splits)

interpretation mg: transition_system merger_start merger_step "\<lambda>w. merger_inv (shared w)"
proof
  fix w :: "'c raster_world" and e w'
  assume "merger_inv (shared w)" "merger_step w e w'"
  then show "merger_inv (shared w')"
    by (auto elim!: merger_stepE simp: rm_Enable_def rm_Disable_def set_enabled_inv
          intro: rm_MergeWithLease_inv rm_UnMergeNowIfLastOne_inv rm_DecrementLease_inv
            rm_ExtendLeaseTo_inv queue_task_inv)
qed (rule merger_inv_start)

abbreviation merger_reachable :: "'c raster_world \<Rightarrow> bool" where
  "merger_reachable \<equiv> reachable_from merger_start merger_step"

subsection \<open>Running the leases down\<close>

text \<open>
  \<open>frames n r w\<close>: the rasterizer calls \<open>DecrementLease\<close> at the end of \<open>n\<close> frames.
\<close>

fun frames :: "nat \<Rightarrow> raster_merger \<Rightarrow> 'c raster_world \<Rightarrow>
  (RasterThreadStatus list \<times> 'c raster_world) result"
where
  "frames 0 r w = Inr ([], w)"
| "frames (Suc n) r w =
     rbind (rm_DecrementLease r w) (\<lambda>(st, w').
     rbind (frames n r w') (\<lambda>(sts, w''). Inr (st # sts, w'')))"

text \<open>\<open>r\<close> alone holds \<open>t\<close> leases of merged queues.\<close>

definition sole_lease :: "raster_merger \<Rightarrow> u64 \<Rightarrow> 'c raster_world \<Rightarrow> bool" where
  "sole_lease r t w \<longleftrightarrow>
     merger_inv (shared w) \<and> of_pair r (fst (shared w)) \<and> \<not> TaskQueuesAreSame r \<and>
     sm_enabled (fst (shared w)) \<and>
     map_of (lease_term_by_caller (fst (shared w))) (rm_this r) = Some t \<and> t \<noteq> 0 \<and>
     (\<forall>c u. map_of (lease_term_by_caller (fst (shared w))) c = Some u \<longrightarrow> c \<noteq> rm_this r \<longrightarrow> u = 0)"

lemma map_of_IsAllLeaseTermsZero:
  "sset (map fst (lease_term_by_caller m)) \<Longrightarrow>
   IsAllLeaseTermsZero m \<longleftrightarrow> (\<forall>c u. map_of (lease_term_by_caller m) c = Some u \<longrightarrow> u = 0)"
  by (fastforce simp: IsAllLeaseTermsZero_iff)

lemma owned_unmergeable:
  assumes inv: "tq_inv s" and ow: "queue_owns s a b"
  shows "unmergeable a b s"
proof -
  from ow obtain oe where e: "queue_entries s a = Some oe" "b \<in> set (owner_of oe)"
    by (auto simp: queue_owns_def)
  note L = links_okD [OF tq_inv_links [OF inv] e(1)]
  from L(1) [OF e(2)] obtain se where se: "queue_entries s b = Some se" "subsumed_by se = a"
    by blast
  have "a < kInvalid" using inv e(1) unfolding tq_inv_def by (meson less_le_trans)
  then have "a \<noteq> kUnmerged" using sentinels(1) by (metis not_less_iff_gr_or_eq)
  moreover have "subsumed_by oe = kUnmerged" using L(2) e(2) by (cases "owner_of oe") auto
  ultimately show ?thesis using e se by (simp add: unmergeable_def)
qed

lemma Unmerge_owned_ok:
  assumes "tq_inv s" "queue_owns s a b"
  shows "\<exists>s'. Unmerge a b s = Inr (True, s')"
  using Unmerge_total [OF assms(1) owned_unmergeable [OF assms]] by blast

lemma decrement_sole_last:
  assumes sole: "sole_lease r 1 w"
  shows "\<exists>w'. rm_DecrementLease r w = Inr (kUnmergedNow, w') \<and> merger_inv (shared w') \<and>
              of_pair r (fst (shared w')) \<and> \<not> rm_IsMerged r w' \<and> effects w' = effects w @ callback_effect r True"
proof -
  obtain m s where w: "shared w = (m, s)" by (cases "shared w")
  let ?l = "smap_put (rm_this r) 0 (lease_term_by_caller m)"
  let ?m = "m\<lparr>lease_term_by_caller := ?l\<rparr>"
  from sole w have inv: "merger_inv (m, s)" and ne: "\<not> TaskQueuesAreSame r" "sm_enabled m"
    and l: "map_of (lease_term_by_caller m) (rm_this r) = Some 1" and p: "of_pair r m"
    and z: "\<And>c u. map_of (lease_term_by_caller m) c = Some u \<Longrightarrow> c \<noteq> rm_this r \<Longrightarrow> u = 0"
    by (auto simp: sole_lease_def)
  note sl = merger_invD(1) [OF inv]
  have mg: "sm_IsMerged m"
    unfolding sm_IsMerged_def map_of_IsAllLeaseTermsZero [OF sl]
    using l by (intro notI) (drule spec [of _ "rm_this r"], simp)
  have zero: "IsAllLeaseTermsZero ?m"
  proof -
    have "\<forall>c u. map_of ?l c = Some u \<longrightarrow> u = 0" using sl z by (auto split: if_splits)
    then show ?thesis using map_of_IsAllLeaseTermsZero [of ?m] sset_smap_put [OF sl] by simp
  qed
  from Unmerge_owned_ok [OF merger_invD(3) [OF inv]] merger_invD(4) [OF inv] mg
  obtain s' where u: "Unmerge (sm_owner m) (sm_subsumed m) s = Inr (True, s')" by blast
  have d: "sm_DecrementLease (rm_this r) (m, s) = Inr (True, (?m, s'))"
    using l zero u by (simp add: sm_DecrementLease_def UnMergeNow_def)
  let ?w = "emit (callback_effect r True) (w\<lparr>shared := (?m, s')\<rparr>)"
  have "rm_DecrementLease r w = Inr (kUnmergedNow, ?w)"
    using ne mg w d by (simp add: rm_DecrementLease_def rm_IsMerged_def rm_IsEnabled_def)
  moreover have "merger_inv (?m, s')" using sm_DecrementLease_inv [OF inv mg d] by simp
  moreover have "effects ?w = effects w @ callback_effect r True" by (simp add: emit_def)
  ultimately show ?thesis
    using ne zero p
    by (intro exI [of _ ?w]) (simp add: rm_IsMerged_def sm_IsMerged_def of_pair_def)
qed

lemma decrement_sole_more:
  assumes sole: "sole_lease r t w" and t: "t \<noteq> 1"
  shows "\<exists>w'. rm_DecrementLease r w = Inr (kRemainsMerged, w') \<and> sole_lease r (t - 1) w' \<and>
              effects w' = effects w"
proof -
  obtain m s where w: "shared w = (m, s)" by (cases "shared w")
  let ?l = "smap_put (rm_this r) (t - 1) (lease_term_by_caller m)"
  let ?m = "m\<lparr>lease_term_by_caller := ?l\<rparr>"
  from sole w have inv: "merger_inv (m, s)" and ne: "\<not> TaskQueuesAreSame r" "sm_enabled m"
    and l: "map_of (lease_term_by_caller m) (rm_this r) = Some t" and t0: "t \<noteq> 0"
    and p: "of_pair r m"
    and z: "\<And>c u. map_of (lease_term_by_caller m) c = Some u \<Longrightarrow> c \<noteq> rm_this r \<Longrightarrow> u = 0"
    by (auto simp: sole_lease_def)
  note sl = merger_invD(1) [OF inv]
  have mg: "sm_IsMerged m"
    unfolding sm_IsMerged_def map_of_IsAllLeaseTermsZero [OF sl]
    using l t0 by blast
  have t1: "t - 1 \<noteq> 0" using t by simp
  have nz: "\<not> IsAllLeaseTermsZero ?m"
  proof -
    have "map_of ?l (rm_this r) = Some (t - 1)" using sl by simp
    then show ?thesis
      using map_of_IsAllLeaseTermsZero [of ?m] sset_smap_put [OF sl] t1 by fastforce
  qed
  have d: "sm_DecrementLease (rm_this r) (m, s) = Inr (False, (?m, s))"
    using l t0 nz by (simp add: sm_DecrementLease_def word_neq_0_conv [symmetric])
  let ?w = "w\<lparr>shared := (?m, s)\<rparr>"
  have "rm_DecrementLease r w = Inr (kRemainsMerged, ?w)"
    using ne mg w d by (simp add: rm_DecrementLease_def rm_IsMerged_def rm_IsEnabled_def)
  moreover have "merger_inv (?m, s)" using sm_DecrementLease_inv [OF inv mg d] by simp
  then have "sole_lease r (t - 1) ?w"
    using p ne t1 sl z by (auto simp: sole_lease_def of_pair_def)
  ultimately show ?thesis by (intro exI [of _ ?w]) simp
qed

lemma frames_sole:
  assumes "sole_lease r t w" "unat t = Suc n"
  shows "\<exists>w'. frames (Suc n) r w = Inr (replicate n kRemainsMerged @ [kUnmergedNow], w') \<and>
              merger_inv (shared w') \<and> of_pair r (fst (shared w')) \<and> \<not> rm_IsMerged r w' \<and>
              effects w' = effects w @ callback_effect r True"
  using assms
proof (induction n arbitrary: t w)
  case 0
  then have "t = 1" by (simp add: word_unat_eq_iff)
  with decrement_sole_last 0 show ?case by fastforce
next
  case (Suc n)
  then have "t \<noteq> 1" by auto
  from decrement_sole_more [OF Suc.prems(1) this] obtain w1
    where w1: "rm_DecrementLease r w = Inr (kRemainsMerged, w1)" "sole_lease r (t - 1) w1"
      "effects w1 = effects w" by blast
  have "t \<noteq> 0" using Suc.prems(2) by auto
  then have "unat (t - 1) = Suc n" using Suc.prems(2) by (simp add: unat_minus_one)
  from Suc.IH [OF w1(2) this] w1 show ?case by auto
qed

lemma merge_sole:
  assumes inv: "merger_inv (shared w)" and p: "of_pair r (fst (shared w))"
    and ne: "\<not> TaskQueuesAreSame r" and en: "rm_IsEnabled r w" and nm: "\<not> rm_IsMerged r w"
    and mrg: "rm_MergeWithLease r t w = Inr w'"
  shows "sole_lease r t w'"
proof -
  obtain m s where w: "shared w = (m, s)" by (cases "shared w")
  let ?l = "smap_put (rm_this r) t (lease_term_by_caller m)"
  have nm': "\<not> sm_IsMerged m" using nm ne w by (simp add: rm_IsMerged_def)
  from mrg ne en nm w obtain b sh where t: "t \<noteq> 0"
    and sm: "sm_MergeWithLease (rm_this r) t (m, s) = Inr (b, sh)"
    and w': "w' = emit (callback_effect r b @ [Notify_One (rm_this r)]) (w\<lparr>shared := sh\<rparr>)"
    by (auto simp: rm_MergeWithLease_def result_simps)
  have "sm_owner m \<noteq> sm_subsumed m" using p ne w by (simp add: of_pair_def TaskQueuesAreSame_def)
  from sm_MergeWithLease_inv [OF inv [unfolded w] this sm] have "merger_inv sh" by simp
  moreover from sm nm' have "fst sh = m\<lparr>lease_term_by_caller := ?l\<rparr>"
    by (auto simp: sm_MergeWithLease_def result_simps)
  moreover have "u = 0" if "map_of (lease_term_by_caller m) c = Some u" for c u
    using nm' that map_of_IsAllLeaseTermsZero [OF merger_invD(1) [OF inv [unfolded w]]]
    by (auto simp: sm_IsMerged_def)
  ultimately show ?thesis
    using t ne en p w w' merger_invD(1) [OF inv [unfolded w]]
    by (auto simp: sole_lease_def of_pair_def rm_IsEnabled_def)
qed

subsection \<open>Properties\<close>

definition demo_merger :: raster_merger where
  "demo_merger = \<lparr>rm_this = 9, platform_queue_id = 0, gpu_queue_id = 1,
     merge_unmerge_callback = True\<rparr>"

definition demo_world :: "nat raster_world" where
  "demo_world = \<lparr>shared = (new_shared_merger 0 1, demo), effects = []\<rparr>"

lemma demo_world_reachable: "merger_reachable demo_world"
proof (rule reach_start)
  have "\<not> queue_owns demo 0 1" by (simp add: queue_owns_def demo_def tq_eval)
  then show "merger_start demo_world"
    using reachable_tq_inv [OF demo_reachable]
    by (auto simp: merger_start_def demo_world_def)
qed

text \<open>
  C6: Whatever the mergers of a pair of queues do, and whatever tasks are posted in between,
  the merger says it is merged exactly when the platform queue owns the raster queue.
\<close>

theorem merged_iff_owned:
  assumes "merger_reachable w"
  shows "sm_IsMerged (fst (shared w)) \<longleftrightarrow>
         queue_owns (snd (shared w)) (sm_owner (fst (shared w))) (sm_subsumed (fst (shared w)))"
  using mg.reachable_inv [OF assms] merger_invD(4) [of "fst (shared w)" "snd (shared w)"] by simp

theorem merged_iff_owned_witness: "\<not> sm_IsMerged (fst (shared demo_world))"
  using merged_iff_owned [OF demo_world_reachable]
  by (simp add: demo_world_def new_shared_merger_def queue_owns_def demo_def tq_eval)

text \<open>
  C7: A merge with a lease of \<open>t\<close> frames lasts exactly \<open>t\<close> frames: the first \<open>t - 1\<close> calls of
  \<open>DecrementLease\<close> answer \<open>kRemainsMerged\<close>, the last one answers \<open>kUnmergedNow\<close>, succeeds in
  unmerging the queues and calls the callback once; no call aborts.
\<close>

theorem lease_lasts_its_term:
  assumes "merger_reachable w" and "of_pair r (fst (shared w))" and "\<not> TaskQueuesAreSame r"
    and "rm_IsEnabled r w" and "\<not> rm_IsMerged r w" and "rm_MergeWithLease r t w = Inr w1"
  shows "rm_IsMerged r w1 \<and>
         (\<exists>w2. frames (unat t) r w1 =
                  Inr (replicate (unat t - 1) kRemainsMerged @ [kUnmergedNow], w2) \<and>
               \<not> rm_IsMerged r w2 \<and>
               \<not> queue_owns (snd (shared w2)) (platform_queue_id r) (gpu_queue_id r) \<and>
               effects w2 = effects w1 @ callback_effect r True)"
proof -
  note sole = merge_sole [OF mg.reachable_inv [OF assms(1)] assms(2-6)]
  then have "t \<noteq> 0" by (simp add: sole_lease_def)
  then obtain n where n: "unat t = Suc n" by (metis not0_implies_Suc unat_eq_0)
  have inv1: "merger_inv (fst (shared w1), snd (shared w1))" using sole by (simp add: sole_lease_def)
  have "\<not> IsAllLeaseTermsZero (fst (shared w1))"
    using sole map_of_IsAllLeaseTermsZero [OF merger_invD(1) [OF inv1]]
    by (auto simp: sole_lease_def)
  then have mrg: "rm_IsMerged r w1" by (simp add: rm_IsMerged_def sm_IsMerged_def)
  from frames_sole [OF sole n] obtain w2
    where w2: "frames (Suc n) r w1 = Inr (replicate n kRemainsMerged @ [kUnmergedNow], w2)"
      "merger_inv (shared w2)" "of_pair r (fst (shared w2))" "\<not> rm_IsMerged r w2"
      "effects w2 = effects w1 @ callback_effect r True" by blast
  have "\<not> queue_owns (snd (shared w2)) (platform_queue_id r) (gpu_queue_id r)"
    using merger_invD(4) [of "fst (shared w2)" "snd (shared w2)"] w2(2-4)
    by (simp add: of_pair_def rm_IsMerged_def)
  with mrg w2 n show ?thesis by simp
qed

theorem lease_lasts_its_term_witness:
  "\<exists>w1 w2. rm_MergeWithLease demo_merger 3 demo_world = Inr w1 \<and>
     frames 3 demo_merger w1 = Inr ([kRemainsMerged, kRemainsMerged, kUnmergedNow], w2)"
proof -
  have nm: "\<not> rm_IsMerged demo_merger demo_world"
    by (simp add: rm_IsMerged_def demo_merger_def demo_world_def TaskQueuesAreSame_def
          sm_IsMerged_def IsAllLeaseTermsZero_def new_shared_merger_def)
  have m: "rm_MergeWithLease demo_merger 3 demo_world =
      Inr (emit [Merge_Unmerge_Callback 9, Notify_One 9]
             (demo_world\<lparr>shared := ((new_shared_merger 0 1)\<lparr>lease_term_by_caller := [(9, 3)]\<rparr>,
                demo_merged)\<rparr>))" (is "_ = Inr ?w1")
    by (simp add: rm_MergeWithLease_def rm_IsMerged_def demo_merger_def demo_world_def demo_merge
          TaskQueuesAreSame_def sm_IsMerged_def IsAllLeaseTermsZero_def new_shared_merger_def
          rm_IsEnabled_def sm_MergeWithLease_def callback_effect_def word_neq_0_conv [symmetric])
  have "of_pair demo_merger (fst (shared demo_world))" "\<not> TaskQueuesAreSame demo_merger"
    "rm_IsEnabled demo_merger demo_world"
    by (simp_all add: of_pair_def demo_merger_def demo_world_def new_shared_merger_def
          TaskQueuesAreSame_def rm_IsEnabled_def)
  from lease_lasts_its_term [OF demo_world_reachable this nm m] obtain w2
    where "frames (unat (3 :: u64)) demo_merger ?w1 =
      Inr (replicate (unat (3 :: u64) - 1) kRemainsMerged @ [kUnmergedNow], w2)" by blast
  moreover have "unat (3 :: u64) = 3" "replicate 2 kRemainsMerged = [kRemainsMerged, kRemainsMerged]"
    by (simp_all add: replicate_Suc [of 1, simplified Suc_1])
  ultimately
  have "frames 3 demo_merger ?w1 = Inr ([kRemainsMerged, kRemainsMerged, kUnmergedNow], w2)"
    by simp
  with m show ?thesis by blast
qed

text \<open>
  The leases of the callers are independent, but a caller whose own lease has run out while
  another caller keeps the queues merged aborts the process at its next frame: nothing in
  \<open>RasterThreadMerger::DecrementLease\<close> keeps it from decrementing a lease of zero.
\<close>

lemma exhausted_caller_aborts:
  assumes "map_of (lease_term_by_caller (fst (shared w))) (rm_this r) = Some 0"
    and "\<not> TaskQueuesAreSame r" "rm_IsMerged r w" "rm_IsEnabled r w"
  shows "rm_DecrementLease r w = Inl Check_Failed"
  using assms by (cases "shared w") (simp add: rm_DecrementLease_def sm_DecrementLease_def)

end
