(* ===== verification/Time.thy ===== *)
theory Time
  imports Prelude
begin

text \<open>
  \<^verbatim>\<open>src/fml/time/time_delta.h\<close> and \<^verbatim>\<open>time_point.h\<close>: durations and instants in nanoseconds.

  Both classes wrap one \<open>int64_t\<close>; the model keeps its value as an \<open>int\<close> and makes every
  signed overflow (and every division the hardware traps) the value \<open>Undefined_Behaviour\<close>.
  The conversions from and to \<open>double\<close> and the reading of the clocks are not modelled.
\<close>

subsection \<open>TimeDelta\<close>

type_synonym time_delta = int

definition FromNanoseconds :: "int \<Rightarrow> time_delta" where
  "FromNanoseconds nanos = nanos"

definition FromMicroseconds :: "int \<Rightarrow> time_delta result" where
  "FromMicroseconds micros = rbind (i64_checked (micros * 1000)) (\<lambda>n. Inr (FromNanoseconds n))"

definition FromMilliseconds :: "int \<Rightarrow> time_delta result" where
  "FromMilliseconds millis = rbind (i64_checked (millis * 1000)) FromMicroseconds"

definition FromSeconds :: "int \<Rightarrow> time_delta result" where
  "FromSeconds seconds = rbind (i64_checked (seconds * 1000)) FromMilliseconds"

definition ToNanoseconds :: "time_delta \<Rightarrow> int" where "ToNanoseconds d = d"
definition ToMicroseconds :: "time_delta \<Rightarrow> int" where "ToMicroseconds d = cdiv (ToNanoseconds d) 1000"
definition ToMilliseconds :: "time_delta \<Rightarrow> int" where "ToMilliseconds d = cdiv (ToMicroseconds d) 1000"
definition ToSeconds :: "time_delta \<Rightarrow> int" where "ToSeconds d = cdiv (ToMilliseconds d) 1000"

definition td_minus :: "time_delta \<Rightarrow> time_delta \<Rightarrow> time_delta result" where
  "td_minus a b = i64_checked (a - b)"

definition td_plus :: "time_delta \<Rightarrow> time_delta \<Rightarrow> time_delta result" where
  "td_plus a b = i64_checked (a + b)"

definition td_divide :: "time_delta \<Rightarrow> int \<Rightarrow> time_delta result" where
  "td_divide a d = rbind (guard Undefined_Behaviour (d \<noteq> 0)) (\<lambda>_. i64_checked (cdiv a d))"

definition td_ratio :: "time_delta \<Rightarrow> time_delta \<Rightarrow> int result" where
  "td_ratio a b = rbind (guard Undefined_Behaviour (b \<noteq> 0)) (\<lambda>_. i64_checked (cdiv a b))"

definition td_times :: "time_delta \<Rightarrow> int \<Rightarrow> time_delta result" where
  "td_times a m = i64_checked (a * m)"

text \<open>\<open>INT64_MIN % -1\<close> is undefined because the quotient overflows.\<close>

definition td_mod :: "time_delta \<Rightarrow> time_delta \<Rightarrow> time_delta result" where
  "td_mod a b =
     rbind (guard Undefined_Behaviour (b \<noteq> 0)) (\<lambda>_.
     rbind (i64_checked (cdiv a b)) (\<lambda>_. Inr (cmod a b)))"

record timespec =
  tv_sec :: int
  tv_nsec :: int

definition FromTimespec :: "timespec \<Rightarrow> time_delta result" where
  "FromTimespec ts =
     rbind (FromSeconds (tv_sec ts)) (\<lambda>s. td_plus s (FromNanoseconds (tv_nsec ts)))"

definition ToTimespec :: "time_delta \<Rightarrow> timespec" where
  "ToTimespec d = \<lparr>tv_sec = ToSeconds d, tv_nsec = cmod d 1000000000\<rparr>"

subsection \<open>TimePoint\<close>

type_synonym time_point = int

definition FromEpochDelta :: "time_delta \<Rightarrow> time_point" where "FromEpochDelta d = ToNanoseconds d"
definition FromTicks :: "int \<Rightarrow> time_point" where "FromTicks t = t"
definition ToEpochDelta :: "time_point \<Rightarrow> time_delta" where "ToEpochDelta t = FromNanoseconds t"

definition tp_diff :: "time_point \<Rightarrow> time_point \<Rightarrow> time_delta result" where
  "tp_diff a b = rbind (i64_checked (a - b)) (\<lambda>n. Inr (FromNanoseconds n))"

definition tp_plus :: "time_point \<Rightarrow> time_delta \<Rightarrow> time_point result" where
  "tp_plus t d = i64_checked (t + ToNanoseconds d)"

definition tp_minus :: "time_point \<Rightarrow> time_delta \<Rightarrow> time_point result" where
  "tp_minus t d = i64_checked (t - ToNanoseconds d)"

subsection \<open>Truncating division\<close>

lemma cdiv_cdiv:
  assumes "0 < b" "0 < c"
  shows "cdiv (cdiv a b) c = cdiv a (b * c)"
proof -
  have pos: "cdiv (cdiv a b) c = cdiv a (b * c)" if "0 \<le> a" for a
    using that assms by (simp add: cdiv_nonneg pos_imp_zdiv_nonneg_iff zdiv_zmult2_eq)
  have neg: "cdiv (- a) d = - cdiv a d" for a d by (simp add: cdiv_def)
  show ?thesis
  proof (cases "0 \<le> a")
    case False
    then have "cdiv (cdiv (- a) b) c = cdiv (- a) (b * c)" by (intro pos) simp
    then show ?thesis by (simp add: neg)
  qed (rule pos)
qed

lemma cdiv_bounds:
  assumes "0 < b"
  shows "\<bar>b * cdiv a b\<bar> \<le> \<bar>a\<bar>" "0 \<le> a \<Longrightarrow> 0 \<le> cdiv a b" "a \<le> 0 \<Longrightarrow> cdiv a b \<le> 0"
proof -
  have m: "b * (\<bar>a\<bar> div b) \<le> \<bar>a\<bar>" "0 \<le> b * (\<bar>a\<bar> div b)"
    using assms mult_div_mod_eq [of b "\<bar>a\<bar>"] pos_mod_sign [OF assms, of "\<bar>a\<bar>"]
    by (linarith, simp add: pos_imp_zdiv_nonneg_iff)
  then show "\<bar>b * cdiv a b\<bar> \<le> \<bar>a\<bar>"
    using assms by (cases "a = 0") (simp_all add: cdiv_def abs_mult abs_sgn_eq)
  show "0 \<le> a \<Longrightarrow> 0 \<le> cdiv a b" "a \<le> 0 \<Longrightarrow> cdiv a b \<le> 0"
    using assms m by (auto simp: cdiv_def sgn_if pos_imp_zdiv_nonneg_iff)
qed

lemma ToSeconds_eq: "ToSeconds d = cdiv d 1000000000"
  by (simp add: ToSeconds_def ToMilliseconds_def ToMicroseconds_def ToNanoseconds_def cdiv_cdiv)

lemma FromSeconds_ok:
  assumes "i64_ok (s * 1000000000)"
  shows "FromSeconds s = Inr (s * 1000000000)"
proof -
  have "i64_ok (s * 1000)" "i64_ok (s * 1000 * 1000)" "i64_ok (s * 1000 * 1000 * 1000)"
    using assms by (auto simp: i64_defs)
  then show ?thesis
    by (simp add: FromSeconds_def FromMilliseconds_def FromMicroseconds_def FromNanoseconds_def)
qed

subsection \<open>Properties\<close>

text \<open>
  A duration survives the trip through \<open>timespec\<close>: \<open>FromTimespec\<close> of \<open>ToTimespec\<close> gives
  the same duration without overflow, for every \<open>int64_t\<close> value, negative ones included, and
  the two parts of the \<open>timespec\<close> have the sign of the duration.
\<close>

theorem timespec_roundtrip:
  assumes "i64_ok d"
  shows "FromTimespec (ToTimespec d) = Inr d \<and>
         \<bar>tv_nsec (ToTimespec d)\<bar> < 1000000000 \<and>
         (0 \<le> d \<longrightarrow> 0 \<le> tv_sec (ToTimespec d) \<and> 0 \<le> tv_nsec (ToTimespec d)) \<and>
         (d \<le> 0 \<longrightarrow> tv_sec (ToTimespec d) \<le> 0 \<and> tv_nsec (ToTimespec d) \<le> 0)"
proof -
  let ?s = "cdiv d 1000000000"
  note b = cdiv_bounds [of 1000000000 d, simplified]
  have "i64_ok (?s * 1000000000)"
    using assms b by (cases "0 \<le> d") (auto simp: i64_defs)
  then have "FromTimespec (ToTimespec d) = Inr d"
    using assms
    by (simp add: FromTimespec_def ToTimespec_def ToSeconds_eq FromSeconds_ok td_plus_def
          FromNanoseconds_def cmod_def)
  moreover have "d - 1000000000 * ?s = sgn d * (\<bar>d\<bar> mod 1000000000)"
    by (cases "0 \<le> d") (simp_all add: cdiv_def sgn_if minus_div_mult_eq_mod [symmetric] algebra_simps)
  then have "\<bar>tv_nsec (ToTimespec d)\<bar> < 1000000000 \<and>
      (0 \<le> d \<longrightarrow> 0 \<le> tv_nsec (ToTimespec d)) \<and> (d \<le> 0 \<longrightarrow> tv_nsec (ToTimespec d) \<le> 0)"
    by (auto simp: ToTimespec_def cmod_def abs_mult sgn_if)
  ultimately show ?thesis using b by (auto simp: ToTimespec_def ToSeconds_eq)
qed

theorem timespec_roundtrip_witness:
  "FromTimespec (ToTimespec (- 1500000000)) = Inr (- 1500000000)"
  using timespec_roundtrip [of "- 1500000000"] by (simp add: i64_defs)

end
