(* ===== verification/Message_Loop.thy ===== *)
theory Message_Loop
  imports Task_Queues_Props Time
begin

text \<open>
  \<^verbatim>\<open>src/fml/message_loop_impl.cc\<close>, \<^verbatim>\<open>message_loop.cc\<close>, \<^verbatim>\<open>task_runner.cc\<close> and
  \<^verbatim>\<open>memory/task_runner_checker.cc\<close>: the loop that drains a task queue on one thread, and the
  handle other threads post tasks through.

  A closure is an opaque value; what it does when it is invoked is the argument \<open>run\<close> of the
  definitions, any state transformer of the world (a task may post tasks). The world keeps the
  log \<open>ran\<close> of the invoked closures. \<open>Run\<close> of the platform loop is a parameter. A closure may
  keep posting tasks that are due at once, so \<open>FlushTasks\<close> takes fuel: \<open>Inr None\<close> is a flush
  that has not returned yet.
\<close>

subsection \<open>MessageLoopImpl\<close>

record 'c loop_world =
  tqs :: "'c task_queues"
  terminated :: "u64 \<Rightarrow> bool"
  ran :: "'c list"

type_synonym 'c action = "'c \<Rightarrow> 'c loop_world \<Rightarrow> 'c loop_world result"

definition MessageLoopImpl :: "nat \<Rightarrow> 'c loop_world \<Rightarrow> (u64 \<times> 'c loop_world) result" where
  "MessageLoopImpl this w =
     (case CreateTaskQueue (tqs w) of (q, s) \<Rightarrow>
        rbind (SetWakeable q (Some this) s) (\<lambda>s'.
          Inr (q, w\<lparr>tqs := s', terminated := (terminated w)(q := False)\<rparr>)))"

definition loop_destroy :: "u64 \<Rightarrow> 'c loop_world \<Rightarrow> 'c loop_world result" where
  "loop_destroy q w = rbind (Dispose q (tqs w)) (\<lambda>s. Inr (w\<lparr>tqs := s\<rparr>))"

definition loop_PostTask ::
  "u64 \<Rightarrow> 'c option \<Rightarrow> int \<Rightarrow> 'c loop_world \<Rightarrow> 'c loop_world result"
where
  "loop_PostTask q closure target w =
     rbind (of_option Dcheck_Failed closure) (\<lambda>c.
       if terminated w q then Inr w
       else rbind (RegisterTask q c target kUnspecified (tqs w)) (\<lambda>s. Inr (w\<lparr>tqs := s\<rparr>)))"

text \<open>\<open>current\<close>: the queue of the loop of the calling thread, if it has one.\<close>

definition loop_AddTaskObserver ::
  "u64 option \<Rightarrow> u64 \<Rightarrow> int \<Rightarrow> 'c option \<Rightarrow> 'c loop_world \<Rightarrow> 'c loop_world result"
where
  "loop_AddTaskObserver current q key callback w =
     rbind (guard Dcheck_Failed (callback \<noteq> None)) (\<lambda>_.
     rbind (of_option Check_Failed current) (\<lambda>cur.
     rbind (guard Dcheck_Failed (cur = q)) (\<lambda>_.
     rbind (AddTaskObserver q key callback (tqs w)) (\<lambda>s. Inr (w\<lparr>tqs := s\<rparr>)))))"

definition loop_RemoveTaskObserver ::
  "u64 option \<Rightarrow> u64 \<Rightarrow> int \<Rightarrow> 'c loop_world \<Rightarrow> 'c loop_world result"
where
  "loop_RemoveTaskObserver current q key w =
     rbind (of_option Check_Failed current) (\<lambda>cur.
     rbind (guard Dcheck_Failed (cur = q)) (\<lambda>_.
     rbind (RemoveTaskObserver q key (tqs w)) (\<lambda>s. Inr (w\<lparr>tqs := s\<rparr>))))"

datatype FlushType = kSingle | kAll

definition invoke :: "'c action \<Rightarrow> 'c \<Rightarrow> 'c loop_world \<Rightarrow> 'c loop_world result" where
  "invoke run c w = run c (w\<lparr>ran := ran w @ [c]\<rparr>)"

fun invoke_all :: "'c action \<Rightarrow> 'c list \<Rightarrow> 'c loop_world \<Rightarrow> 'c loop_world result" where
  "invoke_all run [] w = Inr w"
| "invoke_all run (c # cs) w = rbind (invoke run c w) (invoke_all run cs)"

fun FlushTasks ::
  "'c action \<Rightarrow> nat \<Rightarrow> int \<Rightarrow> u64 \<Rightarrow> FlushType \<Rightarrow> nat \<Rightarrow> 'c loop_world \<Rightarrow>
   'c loop_world option result"
where
  "FlushTasks run thr now q type 0 w = Inr None"
| "FlushTasks run thr now q type (Suc fuel) w =
     rbind (GetNextTaskToRun thr q now (tqs w)) (\<lambda>(invocation, s).
       case invocation of
         None \<Rightarrow> Inr (Some (w\<lparr>tqs := s\<rparr>))
       | Some c \<Rightarrow>
           rbind (invoke run c (w\<lparr>tqs := s\<rparr>)) (\<lambda>w1.
           rbind (GetObserversToNotify (tqs w1) q) (\<lambda>observers.
           rbind (invoke_all run observers w1) (\<lambda>w2.
             if type = kSingle then Inr (Some w2)
             else FlushTasks run thr now q type fuel w2))))"

definition RunExpiredTasksNow where
  "RunExpiredTasksNow run thr now q = FlushTasks run thr now q kAll"

definition RunSingleExpiredTaskNow where
  "RunSingleExpiredTaskNow run thr now q = FlushTasks run thr now q kSingle 1"

text \<open>
  \<open>DoRun\<close>: \<open>platform_run\<close> is the virtual \<open>Run\<close> of the platform's loop and \<open>now\<close> the time it
  returns at.
\<close>

definition DoRun ::
  "('c loop_world \<Rightarrow> 'c loop_world result) \<Rightarrow> 'c action \<Rightarrow> nat \<Rightarrow> int \<Rightarrow> u64 \<Rightarrow> nat \<Rightarrow>
   'c loop_world \<Rightarrow> 'c loop_world option result"
where
  "DoRun platform_run run thr now q fuel w =
     (if terminated w q then Inr (Some w)
      else
        rbind (platform_run w) (\<lambda>w1.
        rbind (RunExpiredTasksNow run thr now q fuel (w1\<lparr>terminated := (terminated w1)(q := True)\<rparr>))
          (\<lambda>r. case r of
             None \<Rightarrow> Inr None
           | Some w2 \<Rightarrow>
               rbind (DisposeTasks q (tqs w2)) (\<lambda>s. Inr (Some (w2\<lparr>tqs := s\<rparr>))))))"

definition DoTerminate ::
  "(u64 \<Rightarrow> 'c loop_world \<Rightarrow> 'c loop_world) \<Rightarrow> u64 \<Rightarrow> 'c loop_world \<Rightarrow> 'c loop_world"
where
  "DoTerminate platform_terminate q w =
     platform_terminate q (w\<lparr>terminated := (terminated w)(q := True)\<rparr>)"

subsection \<open>TaskRunnerChecker\<close>

definition RunsOnTheSameThread :: "'c task_queues \<Rightarrow> u64 \<Rightarrow> u64 \<Rightarrow> bool result" where
  "RunsOnTheSameThread s a b =
     (if a = b then Inr True
      else
        rbind (Owns s a b) (\<lambda>ab.
          if ab then Inr True
          else rbind (Owns s b a) (\<lambda>ba. if ba then Inr True else Inr False)))"

record checker =
  initialized_queue_id :: u64
  subsumed_queue_ids :: "u64 list"

definition new_checker :: "'c task_queues \<Rightarrow> u64 \<Rightarrow> checker result" where
  "new_checker s current =
     rbind (GetSubsumedTaskQueueId s current) (\<lambda>subs.
       Inr \<lparr>initialized_queue_id = current, subsumed_queue_ids = subs\<rparr>)"

fun on_any_subsumed :: "'c task_queues \<Rightarrow> u64 \<Rightarrow> u64 list \<Rightarrow> bool result" where
  "on_any_subsumed s cur [] = Inr False"
| "on_any_subsumed s cur (x # xs) =
     rbind (RunsOnTheSameThread s cur x) (\<lambda>b. if b then Inr True else on_any_subsumed s cur xs)"

definition RunsOnCreationTaskRunner ::
  "'c task_queues \<Rightarrow> u64 option \<Rightarrow> checker \<Rightarrow> bool result"
where
  "RunsOnCreationTaskRunner s current ch =
     rbind (of_option Check_Failed current) (\<lambda>cur.
     rbind (RunsOnTheSameThread s cur (initialized_queue_id ch)) (\<lambda>b.
       if b then Inr True else on_any_subsumed s cur (subsumed_queue_ids ch)))"

subsection \<open>TaskRunner\<close>

text \<open>A runner holds a reference to its loop, here the identifier of the loop's queue.\<close>

definition runner_PostTask where
  "runner_PostTask q closure now w = loop_PostTask q closure now w"

definition PostTaskForTime where
  "PostTaskForTime q closure target w = loop_PostTask q closure target w"

definition PostDelayedTask where
  "PostDelayedTask q closure now delay w =
     rbind (tp_plus now delay) (\<lambda>target. loop_PostTask q closure target w)"

definition RunsTasksOnCurrentThread :: "'c task_queues \<Rightarrow> u64 option \<Rightarrow> u64 \<Rightarrow> bool result" where
  "RunsTasksOnCurrentThread s current q =
     (case current of None \<Rightarrow> Inr False | Some cur \<Rightarrow> RunsOnTheSameThread s cur q)"

definition RunNowOrPostTask ::
  "'c action \<Rightarrow> u64 option \<Rightarrow> int \<Rightarrow> u64 \<Rightarrow> 'c \<Rightarrow> 'c loop_world \<Rightarrow> 'c loop_world result"
where
  "RunNowOrPostTask run current now q closure w =
     rbind (RunsTasksOnCurrentThread (tqs w) current q) (\<lambda>here.
       if here then invoke run closure w else runner_PostTask q (Some closure) now w)"

text \<open>\<open>noop\<close> is the empty closure the code posts to make the loop run its observers.\<close>

definition RunNowAndFlushMessages ::
  "'c action \<Rightarrow> 'c \<Rightarrow> u64 option \<Rightarrow> int \<Rightarrow> u64 \<Rightarrow> 'c \<Rightarrow> 'c loop_world \<Rightarrow> 'c loop_world result"
where
  "RunNowAndFlushMessages run noop current now q closure w =
     rbind (RunsTasksOnCurrentThread (tqs w) current q) (\<lambda>here.
       if here then rbind (invoke run closure w) (runner_PostTask q (Some noop) now)
       else runner_PostTask q (Some closure) now w)"

subsection \<open>What a flush leaves unchanged\<close>

definition same_hooks :: "'c task_queue_entry \<Rightarrow> 'c task_queue_entry \<Rightarrow> bool" where
  "same_hooks e f \<longleftrightarrow> task_observers e = task_observers f \<and> owner_of e = owner_of f \<and>
     subsumed_by e = subsumed_by f"

lemma same_hooks_refl [simp]: "same_hooks e e"
  by (simp add: same_hooks_def)

definition hooks_kept :: "'c task_queues \<Rightarrow> 'c task_queues \<Rightarrow> bool" where
  "hooks_kept s s' \<longleftrightarrow> (\<forall>x. rel_option same_hooks (queue_entries s x) (queue_entries s' x))"

lemma hooks_kept_refl: "queue_entries s' = queue_entries s \<Longrightarrow> hooks_kept s s'"
  by (simp add: hooks_kept_def option.rel_refl)

lemma hooks_kept_self [simp]: "hooks_kept s s"
  by (rule hooks_kept_refl) simp

lemma hooks_kept_put:
  "queue_entries s x = Some e \<Longrightarrow> hooks_kept s (put_entry x (e\<lparr>task_src := src\<rparr>) s)"
  by (simp add: hooks_kept_def option.rel_refl same_hooks_def)

lemma hooks_kept_trans:
  assumes "hooks_kept s s1" "hooks_kept s1 s2"
  shows "hooks_kept s s2"
  unfolding hooks_kept_def
proof
  fix x
  have "rel_option same_hooks (queue_entries s x) (queue_entries s1 x)"
    "rel_option same_hooks (queue_entries s1 x) (queue_entries s2 x)"
    using assms by (simp_all add: hooks_kept_def)
  then show "rel_option same_hooks (queue_entries s x) (queue_entries s2 x)"
    by (auto simp: option_rel_Some1 option_rel_Some2 same_hooks_def elim!: option.rel_cases)
qed

lemma hooks_kept_fields [simp]:
  "hooks_kept s (s'\<lparr>wake_log := l\<rparr>) = hooks_kept s s'"
  "hooks_kept s (s'\<lparr>tls_task_source_grade := g\<rparr>) = hooks_kept s s'"
  by (simp_all add: hooks_kept_def)

lemma GetNextTaskToRun_cases:
  assumes "GetNextTaskToRun thr q now s = Inr (r, s')"
  shows "(\<exists>l. s' = s\<lparr>wake_log := l\<rparr>) \<or>
    (\<exists>x e src l g. queue_entries s x = Some e \<and>
       s' = (put_entry x (e\<lparr>task_src := src\<rparr>) (s\<lparr>wake_log := l\<rparr>))\<lparr>tls_task_source_grade := g\<rparr>)"
proof (cases "HasPendingTasks s q = Inr False")
  case True
  then have "s' = s\<lparr>wake_log := wake_log s\<rparr>" using assms by (simp add: GetNextTaskToRun_def)
  then show ?thesis by blast
next
  case False
  with assms have hp: "HasPendingTasks s q = Inr True"
    by (cases "HasPendingTasks s q") (auto simp: GetNextTaskToRun_def)
  let ?rest = "\<lambda>best s1. if target_time (snd best) > now then Inr (None, s1)
     else rbind (entry_at s1 (fst best)) (\<lambda>e.
          rbind (ts_PopTask (task_source_grade (snd best)) (task_src e)) (\<lambda>src.
            Inr (Some (task (snd best)),
                 (put_entry (fst best) (e\<lparr>task_src := src\<rparr>) s1)
                   \<lparr>tls_task_source_grade :=
                      (tls_task_source_grade s1)(thr \<mapsto> task_source_grade (snd best))\<rparr>)))"
  from assms obtain best where pk: "PeekNextTask s q = Inr best"
    by (cases "PeekNextTask s q") (auto simp: GetNextTaskToRun_def hp)
  from assms obtain time where wt: "GetNextWakeTime s q = Inr time"
    by (cases "GetNextWakeTime s q") (auto simp: GetNextTaskToRun_def hp pk)
  from assms obtain s1 where wk: "WakeUp q time s = Inr s1"
    by (cases "WakeUp q time s") (auto simp: GetNextTaskToRun_def hp pk wt)
  have r: "?rest best s1 = Inr (r, s')"
    using assms by (simp add: GetNextTaskToRun_def hp pk wt wk)
  from WakeUp_log [OF wk] obtain l where s1: "s1 = s\<lparr>wake_log := l\<rparr>" by blast
  show ?thesis
  proof (cases "target_time (snd best) > now")
    case True
    with r s1 show ?thesis by auto
  next
    case False
    with r obtain e src where "queue_entries s (fst best) = Some e"
       "s' = (put_entry (fst best) (e\<lparr>task_src := src\<rparr>) s1)
                      \<lparr>tls_task_source_grade :=
                         (tls_task_source_grade s1)
                           (thr \<mapsto> task_source_grade (snd best))\<rparr>"
      by (auto simp: rbind_Inr_iff entry_at_Inr s1)
    then show ?thesis unfolding s1 by blast
  qed
qed

lemma GetNextTaskToRun_hooks:
  assumes "GetNextTaskToRun thr q now s = Inr (r, s')"
  shows "hooks_kept s s'"
  using GetNextTaskToRun_cases [OF assms]
proof (elim disjE exE conjE)
  fix x e src l g assume e: "queue_entries s x = Some e"
    and s': "s' = (put_entry x (e\<lparr>task_src := src\<rparr>) (s\<lparr>wake_log := l\<rparr>))
               \<lparr>tls_task_source_grade := g\<rparr>"
  from hooks_kept_put [OF e] show ?thesis by (simp add: s' hooks_kept_def)
qed simp

lemma hooks_keptD:
  assumes "hooks_kept s s'" "queue_entries s x = Some e"
  obtains f where "queue_entries s' x = Some f" "task_observers f = task_observers e"
    "owner_of f = owner_of e" "subsumed_by f = subsumed_by e"
proof -
  have "rel_option same_hooks (Some e) (queue_entries s' x)"
    using assms by (metis hooks_kept_def)
  then obtain f where "queue_entries s' x = Some f" "same_hooks e f"
    by (cases "queue_entries s' x") auto
  with that show thesis by (simp add: same_hooks_def)
qed

lemma observers_of_kept:
  assumes "hooks_kept s s'" "\<forall>x \<in> set xs. queue_entries s x \<noteq> None"
  shows "\<exists>obs. observers_of s xs acc = Inr obs \<and> observers_of s' xs acc = Inr obs"
  using assms(2)
proof (induction xs arbitrary: acc)
  case (Cons x xs)
  then obtain e where e: "queue_entries s x = Some e" by auto
  from hooks_keptD [OF assms(1) e] obtain f where
    f: "queue_entries s' x = Some f" "task_observers f = task_observers e" by metis
  from Cons.IH Cons.prems e f show ?case by simp
qed simp

lemma GetObserversToNotify_kept:
  assumes inv: "tq_inv s" and e: "queue_entries s q = Some e" and k: "hooks_kept s s'"
  shows "\<exists>obs. GetObserversToNotify s q = Inr obs \<and> GetObserversToNotify s' q = Inr obs"
proof -
  from hooks_keptD [OF k e] obtain f where f: "queue_entries s' q = Some f"
    "task_observers f = task_observers e" "owner_of f = owner_of e" "subsumed_by f = subsumed_by e"
    by metis
  have "\<forall>x \<in> set (owner_of e). queue_entries s x \<noteq> None"
    using links_okD(1) [OF tq_inv_links [OF inv] e] by fastforce
  from observers_of_kept [OF k this] e f show ?thesis by (simp add: GetObserversToNotify_def)
qed

lemma GetObserversToNotify_ok:
  assumes "tq_inv s" "queue_entries s q = Some e"
  shows "\<exists>obs. GetObserversToNotify s q = Inr obs"
  using GetObserversToNotify_kept [OF assms hooks_kept_refl [OF refl]] by blast

text \<open>
  A closure that posts tasks and does other work, as long as it leaves the tasks that are due now
  and the observers of the queue alone: whatever it adds to the queue is due later.
\<close>

definition posts_later :: "int \<Rightarrow> u64 \<Rightarrow> 'c action \<Rightarrow> bool" where
  "posts_later now q run \<longleftrightarrow>
     (\<forall>c w e obs. tq_inv (tqs w) \<longrightarrow> queue_entries (tqs w) q = Some e \<longrightarrow>
        GetObserversToNotify (tqs w) q = Inr obs \<longrightarrow>
        (\<exists>w' e' new. run c w = Inr w' \<and> ran w' = ran w \<and> tq_inv (tqs w') \<and>
           queue_entries (tqs w') q = Some e' \<and> GetObserversToNotify (tqs w') q = Inr obs \<and>
           runnable (tqs w') q = runnable (tqs w) q + new \<and> (\<forall>t \<in># new. now < target_time t)))"

lemma posts_later_invoke:
  assumes "posts_later now q run" "tq_inv (tqs w)" "queue_entries (tqs w) q = Some e"
    and "GetObserversToNotify (tqs w) q = Inr obs"
  obtains w' e' new where "invoke run c w = Inr w'" "ran w' = ran w @ [c]" "tq_inv (tqs w')"
    "queue_entries (tqs w') q = Some e'" "GetObserversToNotify (tqs w') q = Inr obs"
    "runnable (tqs w') q = runnable (tqs w) q + new" "\<forall>t \<in># new. now < target_time t"
  using assms(1) [unfolded posts_later_def, rule_format, of "w\<lparr>ran := ran w @ [c]\<rparr>" e obs c] assms(2-4)
  by (auto simp: invoke_def)

lemma posts_later_invoke_all:
  assumes "posts_later now q run" "tq_inv (tqs w)" "queue_entries (tqs w) q = Some e"
    and "GetObserversToNotify (tqs w) q = Inr obs"
  shows "\<exists>w' e' new. invoke_all run cs w = Inr w' \<and> ran w' = ran w @ cs \<and> tq_inv (tqs w') \<and>
    queue_entries (tqs w') q = Some e' \<and> GetObserversToNotify (tqs w') q = Inr obs \<and>
    runnable (tqs w') q = runnable (tqs w) q + new \<and> (\<forall>t \<in># new. now < target_time t)"
  using assms(2-)
proof (induction cs arbitrary: w e)
  case Nil
  then show ?case by (intro exI [of _ w] exI [of _ e] exI [of _ "{#}"]) simp
next
  case (Cons c cs)
  obtain w1 e1 n1 where w1: "invoke run c w = Inr w1" "ran w1 = ran w @ [c]" "tq_inv (tqs w1)"
    "queue_entries (tqs w1) q = Some e1" "GetObserversToNotify (tqs w1) q = Inr obs"
    "runnable (tqs w1) q = runnable (tqs w) q + n1" "\<forall>t \<in># n1. now < target_time t"
    by (rule posts_later_invoke [OF assms(1) Cons.prems])
  obtain w2 e2 n2 where w2: "invoke_all run cs w1 = Inr w2" "ran w2 = ran w1 @ cs" "tq_inv (tqs w2)"
    "queue_entries (tqs w2) q = Some e2" "GetObserversToNotify (tqs w2) q = Inr obs"
    "runnable (tqs w2) q = runnable (tqs w1) q + n2" "\<forall>t \<in># n2. now < target_time t"
    using Cons.IH [OF w1(3-5)] by blast
  show ?case using w1 w2
    by (intro exI [of _ w2] exI [of _ e2] exI [of _ "n1 + n2"]) (auto simp: ac_simps)
qed

abbreviation due :: "int \<Rightarrow> 'c delayed_task \<Rightarrow> bool" where
  "due now t \<equiv> target_time t \<le> now"

lemma not_due_mono:
  assumes "\<not> due now t" "\<not> task_gt t y" shows "\<not> due now y"
  using assms by (auto simp: task_gt_def split: if_splits)

lemma runnable_entries: "queue_entries s' = queue_entries s \<Longrightarrow> runnable s' q = runnable s q"
proof -
  assume "queue_entries s' = queue_entries s"
  then have "src_at s' = src_at s" by (simp add: src_at_def fun_eq_iff)
  then show ?thesis
    using \<open>queue_entries s' = queue_entries s\<close> by (simp add: runnable_def split: option.split)
qed

text \<open>What a flush of all due tasks has to achieve, from \<open>w\<close> to \<open>w'\<close>.\<close>

definition flushed :: "int \<Rightarrow> u64 \<Rightarrow> 'c list \<Rightarrow> 'c loop_world \<Rightarrow> 'c loop_world \<Rightarrow> bool" where
  "flushed now q obs w w' \<longleftrightarrow>
     (\<exists>ts. ran w' = ran w @ concat (map (\<lambda>t. task t # obs) ts) \<and>
           mset ts = filter_mset (due now) (runnable (tqs w) q) \<and>
           sorted_wrt (\<lambda>a b. \<not> task_gt a b) ts) \<and>
     (\<exists>new. runnable (tqs w') q = filter_mset (\<lambda>t. \<not> due now t) (runnable (tqs w) q) + new \<and>
        (\<forall>t \<in># new. now < target_time t)) \<and>
     tq_inv (tqs w')"

lemma flushed_nothing_due:
  assumes "tq_inv s" "queue_entries s = queue_entries (tqs w)"
    and "\<forall>t \<in># runnable (tqs w) q. \<not> due now t"
  shows "flushed now q obs w (w\<lparr>tqs := s\<rparr>)"
proof -
  have "filter_mset (due now) (runnable (tqs w) q) = {#}"
    "filter_mset (\<lambda>t. \<not> due now t) (runnable (tqs w) q) = runnable (tqs w) q"
    using assms(3) by (simp_all add: filter_mset_eq_conv)
  with assms(1) runnable_entries [OF assms(2)] show ?thesis
    by (auto simp: flushed_def intro: exI [of _ "[]"])
qed

lemma later_not_due:
  assumes "\<forall>t \<in># new. now < target_time t"
  shows "filter_mset (due now) (M + new) = filter_mset (due now) M"
    "filter_mset (\<lambda>t. \<not> due now t) (M + new) = filter_mset (\<lambda>t. \<not> due now t) M + new"
proof -
  have "filter_mset (due now) new = {#}" "filter_mset (\<lambda>t. \<not> due now t) new = new"
    using assms by (auto simp: filter_mset_eq_conv not_le)
  then show "filter_mset (due now) (M + new) = filter_mset (due now) M"
    "filter_mset (\<lambda>t. \<not> due now t) (M + new) = filter_mset (\<lambda>t. \<not> due now t) M + new" by simp_all
qed

lemma flushed_step:
  assumes run: "runnable (tqs w) q + n1 = add_mset t (runnable (tqs w1) q)" and due: "due now t"
    and least: "\<forall>y \<in># runnable (tqs w) q. \<not> task_gt t y" and n1: "\<forall>t \<in># n1. now < target_time t"
    and ran: "ran w1 = ran w @ task t # obs" and fl: "flushed now q obs w1 w'"
  shows "flushed now q obs w w'"
proof -
  from fl obtain ts n2 where
    ts: "ran w' = ran w1 @ concat (map (\<lambda>t. task t # obs) ts)"
      "mset ts = filter_mset (due now) (runnable (tqs w1) q)"
      "sorted_wrt (\<lambda>a b. \<not> task_gt a b) ts"
    and rest: "runnable (tqs w') q = filter_mset (\<lambda>t. \<not> due now t) (runnable (tqs w1) q) + n2"
      "\<forall>t \<in># n2. now < target_time t" "tq_inv (tqs w')"
    by (auto simp: flushed_def)
  note n = later_not_due [OF n1, of "runnable (tqs w) q"]
  have m: "mset (t # ts) = filter_mset (due now) (runnable (tqs w) q)"
    using n(1) ts(2) due unfolding run by simp
  have "set ts \<subseteq> set_mset (runnable (tqs w) q)"
    using arg_cong [OF m, of set_mset] by auto
  then have "sorted_wrt (\<lambda>a b. \<not> task_gt a b) (t # ts)" using ts(3) least by auto
  moreover have "ran w' = ran w @ concat (map (\<lambda>t. task t # obs) (t # ts))"
    using ts(1) ran by simp
  moreover have "runnable (tqs w') q =
      filter_mset (\<lambda>t. \<not> due now t) (runnable (tqs w) q) + (n1 + n2)"
    using n(2) due unfolding run rest(1) by (simp add: ac_simps)
  ultimately show ?thesis
    unfolding flushed_def using rest(2,3) n1 m
    by (intro conjI exI [of _ "t # ts"] exI [of _ "n1 + n2"]) auto
qed

lemma flush_all:
  assumes q: "posts_later now q run" and "tq_inv (tqs w)" and "queue_entries (tqs w) q = Some e"
    and "GetObserversToNotify (tqs w) q = Inr obs"
    and "size (filter_mset (due now) (runnable (tqs w) q)) < fuel"
  shows "\<exists>w'. FlushTasks run thr now q kAll fuel w = Inr (Some w') \<and> flushed now q obs w w'"
  using assms(2-)
proof (induction fuel arbitrary: w e)
  case (Suc fuel)
  note inv = Suc.prems(1) and e = Suc.prems(2) and obs = Suc.prems(3)
  from GetNextTaskToRun_spec [OF inv e, of thr now] show ?case
  proof (elim disjE exE conjE)
    assume r: "runnable (tqs w) q = {#}" "GetNextTaskToRun thr q now (tqs w) = Inr (None, tqs w)"
    then show ?thesis using flushed_nothing_due [OF inv refl, of q now obs] by simp
  next
    fix t s' assume t: "t \<in># runnable (tqs w) q" "\<forall>y \<in># runnable (tqs w) q. \<not> task_gt t y"
      and c: "if target_time t > now
        then GetNextTaskToRun thr q now (tqs w) = Inr (None, s') \<and>
             queue_entries s' = queue_entries (tqs w)
        else GetNextTaskToRun thr q now (tqs w) = Inr (Some (task t), s') \<and>
             runnable (tqs w) q = {#t#} + runnable s' q \<and>
             tls_task_source_grade s' thr = Some (task_source_grade t)"
    show ?thesis
    proof (cases "due now t")
      case False
      with c have g: "GetNextTaskToRun thr q now (tqs w) = Inr (None, s')"
        "queue_entries s' = queue_entries (tqs w)" by auto
      have "\<forall>y \<in># runnable (tqs w) q. \<not> due now y" using not_due_mono [OF False] t(2) by blast
      from flushed_nothing_due [OF GetNextTaskToRun_inv [OF inv g(1)] g(2) this] g(1)
      show ?thesis by simp
    next
      case True
      with c have g: "GetNextTaskToRun thr q now (tqs w) = Inr (Some (task t), s')"
        and run: "runnable (tqs w) q = add_mset t (runnable s' q)" by auto
      note k = GetNextTaskToRun_hooks [OF g] and inv' = GetNextTaskToRun_inv [OF inv g]
      from hooks_keptD [OF k e] obtain f where f: "queue_entries s' q = Some f" by metis
      from GetObserversToNotify_kept [OF inv e k] obs
      have obs': "GetObserversToNotify s' q = Inr obs" by auto
      let ?w = "w\<lparr>tqs := s'\<rparr>"
      have "tq_inv (tqs ?w)" "queue_entries (tqs ?w) q = Some f" "GetObserversToNotify (tqs ?w) q = Inr obs"
        using inv' f obs' by simp_all
      from posts_later_invoke [OF q this] obtain w1 e1 n1 where
        w1: "invoke run (task t) ?w = Inr w1" "ran w1 = ran ?w @ [task t]" "tq_inv (tqs w1)"
          "queue_entries (tqs w1) q = Some e1" "GetObserversToNotify (tqs w1) q = Inr obs"
          "runnable (tqs w1) q = runnable (tqs ?w) q + n1" "\<forall>t \<in># n1. now < target_time t" .
      from posts_later_invoke_all [OF q w1(3-5), of obs] obtain w2 e2 n2 where
        w2: "invoke_all run obs w1 = Inr w2" "ran w2 = ran w1 @ obs" "tq_inv (tqs w2)"
          "queue_entries (tqs w2) q = Some e2" "GetObserversToNotify (tqs w2) q = Inr obs"
          "runnable (tqs w2) q = runnable (tqs w1) q + n2" "\<forall>t \<in># n2. now < target_time t" by blast
      have new: "runnable (tqs w) q + (n1 + n2) = add_mset t (runnable (tqs w2) q)"
        using run w1(6) w2(6) by (simp add: ac_simps)
      have later: "\<forall>t \<in># n1 + n2. now < target_time t" using w1(7) w2(7) by auto
      have "filter_mset (due now) (runnable (tqs w) q) =
          add_mset t (filter_mset (due now) (runnable (tqs w2) q))"
        using later_not_due(1) [OF later, of "runnable (tqs w) q"] True unfolding new by simp
      then have "size (filter_mset (due now) (runnable (tqs w2) q)) < fuel" using Suc.prems(4) by simp
      from Suc.IH [OF w2(3-5) this] obtain w'
        where w': "FlushTasks run thr now q kAll fuel w2 = Inr (Some w')" "flushed now q obs w2 w'"
        by auto
      have "FlushTasks run thr now q kAll (Suc fuel) w = Inr (Some w')"
        using g w1(1,5) w2(1) w' by simp
      moreover have "flushed now q obs w w'"
        using flushed_step [OF new True t(2) later _ w'(2)] w1(2) w2(2) by simp
      ultimately show ?thesis by blast
    qed
  qed
qed simp

subsection \<open>Shutting a loop down\<close>

lemma shut_down_all_src:
  assumes "shut_down_all xs s = Inr s'"
  shows "(\<forall>x \<in> set xs. src_at s' x = {#}) \<and>
         (\<forall>x. src_at s x = {#} \<longrightarrow> src_at s' x = {#}) \<and> hooks_kept s s'"
  using assms
proof (induction xs arbitrary: s)
  case (Cons x xs)
  then obtain e where e: "queue_entries s x = Some e"
    and r: "shut_down_all xs (put_entry x (e\<lparr>task_src := ts_ShutDown (task_src e)\<rparr>) s) = Inr s'"
    by (auto simp: rbind_Inr_iff entry_at_Inr)
  let ?s = "put_entry x (e\<lparr>task_src := ts_ShutDown (task_src e)\<rparr>) s"
  have z: "src_at ?s x = {#}" "\<And>y. src_at s y = {#} \<Longrightarrow> src_at ?s y = {#}"
    by (auto simp: src_at_def ts_ShutDown_def ts_visible_def)
  have k: "hooks_kept s ?s" using e by (rule hooks_kept_put)
  from Cons.IH [OF r] z hooks_kept_trans [OF k] show ?case by auto
qed simp

lemma DisposeTasks_runnable:
  assumes "DisposeTasks q s = Inr s'"
  shows "runnable s' q = {#}"
proof -
  from assms obtain e where e: "queue_entries s q = Some e"
    and r: "shut_down_all (owner_of e)
              (put_entry q (e\<lparr>task_src := ts_ShutDown (task_src e)\<rparr>) s) = Inr s'"
    by (auto simp: DisposeTasks_def rbind_Inr_iff entry_at_Inr)
  let ?s = "put_entry q (e\<lparr>task_src := ts_ShutDown (task_src e)\<rparr>) s"
  have "src_at ?s q = {#}" by (simp add: src_at_def ts_ShutDown_def ts_visible_def)
  with shut_down_all_src [OF r] have z: "\<forall>x \<in> set (q # owner_of e). src_at s' x = {#}"
    and k: "hooks_kept ?s s'" by auto
  obtain f where f: "queue_entries s' q = Some f" "owner_of f = owner_of e"
    by (rule hooks_keptD [OF k, of q]) auto
  have "seen s' xs = {#}" if "\<forall>x \<in> set xs. src_at s' x = {#}" for xs
    using that by (induction xs) auto
  with z f runnable_seen [OF f(1)] show ?thesis
    by (cases "subsumed_by f = kUnmerged") (simp_all add: runnable_def)
qed

text \<open>A closure that does not restart a terminated loop.\<close>

definition keeps_terminated :: "'c action \<Rightarrow> u64 \<Rightarrow> bool" where
  "keeps_terminated run q \<longleftrightarrow>
     (\<forall>c w w'. run c w = Inr w' \<longrightarrow> terminated w q \<longrightarrow> terminated w' q)"

lemma invoke_all_terminated:
  assumes "keeps_terminated run q" "invoke_all run cs w = Inr w'" "terminated w q"
  shows "terminated w' q"
  using assms(2,3)
proof (induction cs arbitrary: w)
  case (Cons c cs)
  from Cons.prems obtain w1 where w1: "run c (w\<lparr>ran := ran w @ [c]\<rparr>) = Inr w1"
    "invoke_all run cs w1 = Inr w'" by (auto simp: rbind_Inr_iff invoke_def)
  have "terminated w1 q" using assms(1) w1(1) Cons.prems(2) unfolding keeps_terminated_def
    by (metis loop_world.select_convs(2) loop_world.surjective loop_world.update_convs(3))
  then show ?case by (rule Cons.IH [OF w1(2)])
qed simp

lemma FlushTasks_terminated:
  assumes k: "keeps_terminated run q"
    and "FlushTasks run thr now x ty fuel w = Inr (Some w')" "terminated w q"
  shows "terminated w' q"
  using assms(2,3)
proof (induction fuel arbitrary: w)
  case (Suc fuel)
  obtain r s where g: "GetNextTaskToRun thr x now (tqs w) = Inr (r, s)"
    using Suc.prems(1) by (cases "GetNextTaskToRun thr x now (tqs w)") auto
  show ?case
  proof (cases r)
    case None
    with g Suc.prems show ?thesis by auto
  next
    case (Some c)
    with g Suc.prems(1) obtain w1 obs w2 where
      w1: "invoke run c (w\<lparr>tqs := s\<rparr>) = Inr w1" and w2: "invoke_all run obs w1 = Inr w2"
      and r: "(if ty = kSingle then Inr (Some w2) else FlushTasks run thr now x ty fuel w2) =
                Inr (Some w')"
      by (auto simp: rbind_Inr_iff)
    have "terminated w1 q"
      using invoke_all_terminated [OF k, of "[c]" "w\<lparr>tqs := s\<rparr>" w1] w1 Suc.prems(2) by simp
    then have "terminated w2 q" by (rule invoke_all_terminated [OF k w2])
    with r Suc.IH [of w2] show ?thesis by (auto split: if_splits)
  qed
qed simp

subsection \<open>Properties\<close>

text \<open>The closure of the examples posts itself again, for a given time.\<close>

definition repost :: "u64 \<Rightarrow> int \<Rightarrow> nat action" where
  "repost q time c w = loop_PostTask q (Some c) time w"

definition demo_loop :: "nat loop_world" where
  "demo_loop = \<lparr>tqs = demo_merged, terminated = (\<lambda>_. False), ran = []\<rparr>"

lemma RegisterTask_hooks: "RegisterTask q c time g s = Inr s' \<Longrightarrow> hooks_kept s s'"
  by (auto simp: RegisterTask_def Let_def result_simps hooks_kept_def option.rel_refl same_hooks_def
      dest!: wake_if_pending_log)

lemma RegisterTask_runnable:
  assumes "tq_inv s" "queue_entries s q = Some e"
  shows "\<exists>s'. RegisterTask q c time kUnspecified s = Inr s' \<and>
    runnable s' q = (if subsumed_by e = kUnmerged
      then add_mset \<lparr>order = scast (order_counter s), task = c, target_time = time,
             task_source_grade = kUnspecified\<rparr> (runnable s q)
      else runnable s q)"
proof -
  obtain s' where s': "RegisterTask q c time kUnspecified s = Inr s'"
    "runnable s' (runner_of e q) = add_mset \<lparr>order = scast (order_counter s), task = c,
       target_time = time, task_source_grade = kUnspecified\<rparr> (runnable s (runner_of e q))"
    using register_task_effect [OF assms, of c time kUnspecified] by auto
  obtain f where "queue_entries s' q = Some f" "subsumed_by f = subsumed_by e"
    by (rule hooks_keptD [OF RegisterTask_hooks [OF s'(1)] assms(2)])
  then show ?thesis using s' assms(2) by (auto simp: runner_of_def runnable_def)
qed

lemma repost_later:
  assumes "now < time"
  shows "posts_later now q (repost q time)"
  unfolding posts_later_def
proof (intro allI impI)
  fix c :: nat and w :: "nat loop_world" and e obs
  assume inv: "tq_inv (tqs w)" and e: "queue_entries (tqs w) q = Some e"
    and obs: "GetObserversToNotify (tqs w) q = Inr obs"
  show "\<exists>w' e' new. repost q time c w = Inr w' \<and> ran w' = ran w \<and> tq_inv (tqs w') \<and>
      queue_entries (tqs w') q = Some e' \<and> GetObserversToNotify (tqs w') q = Inr obs \<and>
      runnable (tqs w') q = runnable (tqs w) q + new \<and> (\<forall>t \<in># new. now < target_time t)"
  proof (cases "terminated w q")
    case True
    then show ?thesis using inv e obs
      by (intro exI [of _ w] exI [of _ e] exI [of _ "{#}"]) (simp add: repost_def loop_PostTask_def)
  next
    case False
    obtain s' where s': "RegisterTask q c time kUnspecified (tqs w) = Inr s'"
      and run: "runnable s' q = (if subsumed_by e = kUnmerged
        then add_mset \<lparr>order = scast (order_counter (tqs w)), task = c, target_time = time,
               task_source_grade = kUnspecified\<rparr> (runnable (tqs w) q)
        else runnable (tqs w) q)" using RegisterTask_runnable [OF inv e] by blast
    note k = RegisterTask_hooks [OF s']
    obtain f where f: "queue_entries s' q = Some f" by (rule hooks_keptD [OF k e])
    have "GetObserversToNotify s' q = Inr obs"
      using GetObserversToNotify_kept [OF inv e k] obs by auto
    moreover obtain new where "runnable s' q = runnable (tqs w) q + new"
      "\<forall>t \<in># new. now < target_time t"
      using run assms by (cases "subsumed_by e = kUnmerged") (auto intro: that [of "{#_#}"] that [of "{#}"])
    ultimately show ?thesis
      using False s' f RegisterTask_inv [OF inv s']
      by (intro exI [of _ "w\<lparr>tqs := s'\<rparr>"] exI [of _ f] exI [of _ new])
        (simp add: repost_def loop_PostTask_def)
  qed
qed

text \<open>
  C8: A flush of the due tasks returns, after at most one turn more than there are due tasks, and
  runs exactly the due tasks of the queue and of the queues merged into it, in the order of
  \<open>DelayedTask::operator>\<close>, the observers after each of them; the tasks that are not due stay. The
  closures and observers may post tasks and do anything else, as long as what they add to the queue
  is due later than the time of the flush and they leave the due tasks and the observers alone.
\<close>

theorem flush_runs_due_tasks:
  assumes "tq_reachable (tqs w)" and "queue_entries (tqs w) q = Some e" and "posts_later now q run"
    and "size (filter_mset (due now) (runnable (tqs w) q)) < fuel"
  shows "\<exists>obs ts w' new.
     GetObserversToNotify (tqs w) q = Inr obs \<and>
     RunExpiredTasksNow run thr now q fuel w = Inr (Some w') \<and>
     ran w' = ran w @ concat (map (\<lambda>t. task t # obs) ts) \<and>
     mset ts = filter_mset (due now) (runnable (tqs w) q) \<and>
     sorted_wrt (\<lambda>a b. \<not> task_gt a b) ts \<and>
     runnable (tqs w') q = filter_mset (\<lambda>t. \<not> due now t) (runnable (tqs w) q) + new \<and>
     (\<forall>t \<in># new. now < target_time t)"
proof -
  note inv = reachable_tq_inv [OF assms(1)]
  from GetObserversToNotify_ok [OF inv assms(2)] obtain obs
    where obs: "GetObserversToNotify (tqs w) q = Inr obs" by blast
  from flush_all [OF assms(3) inv assms(2) obs assms(4), of thr] obs show ?thesis
    unfolding flushed_def RunExpiredTasksNow_def by blast
qed

theorem flush_runs_due_tasks_witness:
  "\<exists>ts w'. RunExpiredTasksNow (repost 0 8) 3 7 0 2 demo_loop = Inr (Some w') \<and>
     mset ts = filter_mset (due 7) (runnable demo_merged 0) \<and> ran w' = concat (map (\<lambda>t. [task t]) ts)"
proof -
  obtain e where e: "queue_entries (tqs demo_loop) 0 = Some e"
    and n: "size (filter_mset (due 7) (runnable (tqs demo_loop) 0)) < 2"
    and o: "GetObserversToNotify (tqs demo_loop) 0 = Inr []" and r: "ran demo_loop = []"
    by (simp add: demo_loop_def demo_merged_def demo_def tq_eval GetObserversToNotify_def)
  have t: "tq_reachable (tqs demo_loop)" by (simp add: demo_loop_def demo_merged_reachable)
  have p: "posts_later 7 0 (repost 0 8)" by (rule repost_later) simp
  from flush_runs_due_tasks [OF t e p n, of 3] o r show ?thesis by (auto simp: demo_loop_def)
qed

text \<open>
  A closure that posts itself for the time of the flush, or before it, keeps the flush from
  returning.
\<close>

lemma invoke_repost:
  assumes "tq_inv (tqs w)" "queue_entries (tqs w) q = Some e" "subsumed_by e = kUnmerged"
    and "\<not> terminated w q"
  shows "\<exists>w' e'. invoke (repost q time) c w = Inr w' \<and> tq_inv (tqs w') \<and>
    queue_entries (tqs w') q = Some e' \<and> subsumed_by e' = kUnmerged \<and> \<not> terminated w' q \<and>
    (\<exists>t. t \<in># runnable (tqs w') q \<and> target_time t = time)"
proof -
  obtain s' where s': "RegisterTask q c time kUnspecified (tqs w) = Inr s'"
    "runnable s' q = add_mset \<lparr>order = scast (order_counter (tqs w)), task = c, target_time = time,
       task_source_grade = kUnspecified\<rparr> (runnable (tqs w) q)"
    using RegisterTask_runnable [OF assms(1,2)] assms(3) by auto
  obtain f where "queue_entries s' q = Some f" "subsumed_by f = subsumed_by e"
    by (rule hooks_keptD [OF RegisterTask_hooks [OF s'(1)] assms(2)])
  then show ?thesis
    using s' assms(3,4) RegisterTask_inv [OF assms(1) s'(1)]
    by (intro exI [of _ "w\<lparr>ran := ran w @ [c], tqs := s'\<rparr>"] exI [of _ f])
      (auto simp: invoke_def repost_def loop_PostTask_def)
qed

lemma invoke_all_repost:
  assumes "tq_inv (tqs w)" "queue_entries (tqs w) q = Some e" "subsumed_by e = kUnmerged"
    and "\<not> terminated w q" "\<exists>t. t \<in># runnable (tqs w) q \<and> target_time t = time"
  shows "\<exists>w' e'. invoke_all (repost q time) cs w = Inr w' \<and> tq_inv (tqs w') \<and>
    queue_entries (tqs w') q = Some e' \<and> subsumed_by e' = kUnmerged \<and> \<not> terminated w' q \<and>
    (\<exists>t. t \<in># runnable (tqs w') q \<and> target_time t = time)"
  using assms
proof (induction cs arbitrary: w e)
  case (Cons c cs)
  obtain w1 e1 where "invoke (repost q time) c w = Inr w1" "tq_inv (tqs w1)"
    "queue_entries (tqs w1) q = Some e1" "subsumed_by e1 = kUnmerged" "\<not> terminated w1 q"
    "\<exists>t. t \<in># runnable (tqs w1) q \<and> target_time t = time"
    using invoke_repost [OF Cons.prems(1-4), of time c] by blast
  then show ?case using Cons.IH [of w1 e1] by auto
qed simp

lemma reposting_never_returns:
  assumes "time \<le> now" "tq_inv (tqs w)" "queue_entries (tqs w) q = Some e" "subsumed_by e = kUnmerged"
    and "\<not> terminated w q" "\<exists>t. t \<in># runnable (tqs w) q \<and> target_time t = time"
  shows "FlushTasks (repost q time) thr now q kAll fuel w = Inr None"
  using assms(2-)
proof (induction fuel arbitrary: w e)
  case (Suc fuel)
  note inv = Suc.prems(1) and e = Suc.prems(2)
  obtain c s' where g: "GetNextTaskToRun thr q now (tqs w) = Inr (Some c, s')"
    using GetNextTaskToRun_spec [OF inv e, of thr now] Suc.prems(5) assms(1)
    by (auto simp: not_le task_gt_def split: if_splits)
  note k = GetNextTaskToRun_hooks [OF g] and inv' = GetNextTaskToRun_inv [OF inv g]
  obtain f where f: "queue_entries s' q = Some f" "subsumed_by f = kUnmerged"
    using hooks_keptD [OF k e] Suc.prems(3) by metis
  let ?w = "w\<lparr>tqs := s'\<rparr>"
  have pre: "tq_inv (tqs ?w)" "queue_entries (tqs ?w) q = Some f" "\<not> terminated ?w q"
    using inv' f Suc.prems(4) by simp_all
  obtain w1 e1 where w1: "invoke (repost q time) c ?w = Inr w1" "tq_inv (tqs w1)"
    "queue_entries (tqs w1) q = Some e1" "subsumed_by e1 = kUnmerged" "\<not> terminated w1 q"
    "\<exists>t. t \<in># runnable (tqs w1) q \<and> target_time t = time"
    using invoke_repost [OF pre(1,2) f(2) pre(3), of time c] by blast
  obtain obs where obs: "GetObserversToNotify (tqs w1) q = Inr obs"
    using GetObserversToNotify_ok [OF w1(2,3)] by blast
  obtain w2 e2 where w2: "invoke_all (repost q time) obs w1 = Inr w2" "tq_inv (tqs w2)"
    "queue_entries (tqs w2) q = Some e2" "subsumed_by e2 = kUnmerged" "\<not> terminated w2 q"
    "\<exists>t. t \<in># runnable (tqs w2) q \<and> target_time t = time"
    using invoke_all_repost [OF w1(2-6), of obs] by blast
  then show ?case using g w1(1) obs Suc.IH [OF w2(2-6)] by simp
qed simp

text \<open>
  A loop runs once. When \<open>DoRun\<close> returns, the loop is terminated, no task of its queue or
  of the queues merged into it is left, and from then on posting a task and running the loop
  again have no effect.
\<close>

theorem loop_runs_once:
  assumes "DoRun platform_run run thr now q fuel w = Inr (Some w')" and "\<not> terminated w q"
    and "keeps_terminated run q"
  shows "terminated w' q \<and> runnable (tqs w') q = {#} \<and>
         loop_PostTask q (Some c) target w' = Inr w' \<and>
         DoRun platform_run run thr now' q fuel' w' = Inr (Some w')"
proof -
  from assms(1,2) obtain w1 w2 s where
    f: "FlushTasks run thr now q kAll fuel (w1\<lparr>terminated := (terminated w1)(q := True)\<rparr>) =
          Inr (Some w2)"
    and d: "DisposeTasks q (tqs w2) = Inr s" and w': "w' = w2\<lparr>tqs := s\<rparr>"
    by (auto simp: DoRun_def RunExpiredTasksNow_def rbind_Inr_iff split: option.splits)
  have "terminated w2 q" by (rule FlushTasks_terminated [OF assms(3) f]) simp
  then show ?thesis
    using DisposeTasks_runnable [OF d] by (simp add: w' loop_PostTask_def DoRun_def)
qed

definition log_only :: "nat action" where "log_only c w = Inr w"

lemma log_only_keeps: "keeps_terminated log_only q"
  by (simp add: log_only_def keeps_terminated_def)

theorem loop_runs_once_witness:
  "\<exists>w'. DoRun Inr log_only 3 7 0 9 demo_loop = Inr (Some w') \<and> terminated w' 0 \<and>
        runnable (tqs w') 0 = {#}"
proof -
  obtain w' where d: "DoRun Inr log_only 3 7 0 9 demo_loop = Inr (Some w')"
    by (simp add: DoRun_def RunExpiredTasksNow_def demo_loop_def demo_merged_def demo_def
          eval_nat_numeral GetObserversToNotify_def invoke_def log_only_def DisposeTasks_def
          ts_ShutDown_def tq_eval)
  moreover have "\<not> terminated demo_loop 0" by (simp add: demo_loop_def)
  ultimately show ?thesis
    using loop_runs_once [OF d _ log_only_keeps] by blast
qed

end
