(* ===== verification/Concurrent_Loop.thy ===== *)
theory Concurrent_Loop
  imports Prelude
begin

text \<open>
  \<^verbatim>\<open>src/fml/concurrent_message_loop.cc\<close>: a pool of worker threads that share one queue of tasks.

  Every critical section of \<open>tasks_mutex_\<close> is one step; a worker executes the tasks it took one
  by one, outside the mutex, interleaved with the other threads. A closure is an opaque value;
  invoking it is recorded in \<open>executed\<close> with the thread that did. \<open>posted\<close> is a history
  variable that no step reads. A thread is a number; \<open>thread_tasks\<close> maps threads to lists.
\<close>

subsection \<open>State and operations\<close>

datatype 'c worker_state =
    Waiting
  | Executing "'c list" bool  \<comment> \<open>tasks in hand, value of \<open>shutdown_now\<close>\<close>
  | Exited

record 'c concurrent_loop =
  worker_thread_ids :: "nat list"
  tasks :: "'c list"
  thread_tasks :: "nat \<Rightarrow> 'c list option"
  shutdown :: bool
  worker_state_of :: "nat \<Rightarrow> 'c worker_state"
  executed :: "(nat \<times> 'c) list"
  posted :: "'c multiset"

text \<open>The pool has at least one worker; their thread identifiers are \<open>0, 1, ...\<close>.\<close>

definition new_concurrent_loop :: "nat \<Rightarrow> 'c concurrent_loop" where
  "new_concurrent_loop worker_count =
     \<lparr>worker_thread_ids = [0 ..< max worker_count 1], tasks = [], thread_tasks = (\<lambda>_. None),
      shutdown = False, worker_state_of = (\<lambda>_. Waiting), executed = [], posted = {#}\<rparr>"

definition GetWorkerCount :: "'c concurrent_loop \<Rightarrow> nat" where
  "GetWorkerCount l = length (worker_thread_ids l)"

definition ExecuteTask :: "nat \<Rightarrow> 'c \<Rightarrow> 'c concurrent_loop \<Rightarrow> 'c concurrent_loop" where
  "ExecuteTask thr c l = l\<lparr>executed := executed l @ [(thr, c)]\<rparr>"

definition cml_PostTask :: "nat \<Rightarrow> 'c option \<Rightarrow> 'c concurrent_loop \<Rightarrow> 'c concurrent_loop" where
  "cml_PostTask thr closure l =
     (case closure of
        None \<Rightarrow> l
      | Some c \<Rightarrow>
          let l' = l\<lparr>posted := add_mset c (posted l)\<rparr>
          in if shutdown l then ExecuteTask thr c l' else l'\<lparr>tasks := tasks l @ [c]\<rparr>)"

text \<open>\<open>ConcurrentTaskRunner::PostTask\<close>; \<open>None\<close> is a loop that has died.\<close>

definition ctr_PostTask ::
  "nat \<Rightarrow> 'c option \<Rightarrow> 'c concurrent_loop option \<Rightarrow> 'c concurrent_loop option \<times> (nat \<times> 'c) list"
where
  "ctr_PostTask thr closure weak_loop =
     (case (closure, weak_loop) of
        (None, _) \<Rightarrow> (weak_loop, [])
      | (Some c, Some l) \<Rightarrow> (Some (cml_PostTask thr (Some c) l), [])
      | (Some c, None) \<Rightarrow> (None, [(thr, c)]))"

definition PostTaskToAllWorkers :: "'c option \<Rightarrow> 'c concurrent_loop \<Rightarrow> 'c concurrent_loop" where
  "PostTaskToAllWorkers closure l =
     (case closure of
        None \<Rightarrow> l
      | Some c \<Rightarrow>
          l\<lparr>thread_tasks :=
              (\<lambda>t. if t \<in> set (worker_thread_ids l)
                   then Some ((case thread_tasks l t of None \<Rightarrow> [] | Some ts \<Rightarrow> ts) @ [c])
                   else thread_tasks l t),
            posted := posted l + replicate_mset (length (worker_thread_ids l)) c\<rparr>)"

definition cml_Terminate :: "'c concurrent_loop \<Rightarrow> 'c concurrent_loop" where
  "cml_Terminate l = l\<lparr>shutdown := True\<rparr>"

definition HasThreadTasks :: "nat \<Rightarrow> 'c concurrent_loop \<Rightarrow> bool" where
  "HasThreadTasks thr l \<longleftrightarrow> thread_tasks l thr \<noteq> None"

definition GetThreadTasks :: "nat \<Rightarrow> 'c concurrent_loop \<Rightarrow> ('c list \<times> 'c concurrent_loop) result" where
  "GetThreadTasks thr l =
     rbind (of_option Dcheck_Failed (thread_tasks l thr)) (\<lambda>pending.
       Inr (pending, l\<lparr>thread_tasks := (thread_tasks l)(thr := None)\<rparr>))"

definition cml_RunsTasksOnCurrentThread :: "nat \<Rightarrow> 'c concurrent_loop \<Rightarrow> bool" where
  "cml_RunsTasksOnCurrentThread thr l = list_ex (\<lambda>t. t = thr) (worker_thread_ids l)"

text \<open>
  The body of \<open>WorkerMain\<close> under the mutex, once the condition variable lets the worker
  through: \<open>None\<close> while it has to wait.
\<close>

definition worker_wake :: "nat \<Rightarrow> 'c concurrent_loop \<Rightarrow> 'c concurrent_loop option result" where
  "worker_wake thr l =
     (if tasks l = [] \<and> \<not> shutdown l \<and> \<not> HasThreadTasks thr l then Inr None
      else
        let shutdown_now = shutdown l;
            front = (case tasks l of [] \<Rightarrow> [] | c # _ \<Rightarrow> [c]);
            l1 = l\<lparr>tasks := tl (tasks l)\<rparr>
        in rbind (if HasThreadTasks thr l1 then GetThreadTasks thr l1 else Inr ([], l1))
             (\<lambda>(own, l2).
             rbind (guard Dcheck_Failed (\<not> HasThreadTasks thr l2)) (\<lambda>_.
               Inr (Some (l2\<lparr>worker_state_of :=
                 (worker_state_of l2)(thr := Executing (front @ own) shutdown_now)\<rparr>)))))"

text \<open>One task executed outside the mutex; with none left the loop goes on or breaks.\<close>

definition worker_continue :: "nat \<Rightarrow> 'c concurrent_loop \<Rightarrow> 'c concurrent_loop" where
  "worker_continue thr l =
     (case worker_state_of l thr of
        Executing (c # cs) s \<Rightarrow>
          ExecuteTask thr c
            (l\<lparr>worker_state_of := (worker_state_of l)(thr := Executing cs s)\<rparr>)
      | Executing [] s \<Rightarrow>
          l\<lparr>worker_state_of := (worker_state_of l)(thr := if s then Exited else Waiting)\<rparr>
      | _ \<Rightarrow> l)"

subsection \<open>Steps\<close>

datatype 'c cml_event =
    CPost nat "'c option" | CPostAll "'c option" | CTerminate | CWake nat | CContinue nat

inductive cml_step :: "'c concurrent_loop \<Rightarrow> 'c cml_event \<Rightarrow> 'c concurrent_loop \<Rightarrow> bool" where
  cml_post: "cml_step l (CPost thr c) (cml_PostTask thr c l)"
| cml_post_all: "cml_step l (CPostAll c) (PostTaskToAllWorkers c l)"
| cml_terminate: "cml_step l CTerminate (cml_Terminate l)"
| cml_wake: "t \<in> set (worker_thread_ids l) \<Longrightarrow> worker_state_of l t = Waiting \<Longrightarrow>
    worker_wake t l = Inr (Some l') \<Longrightarrow> cml_step l (CWake t) l'"
| cml_continue: "t \<in> set (worker_thread_ids l) \<Longrightarrow> cml_step l (CContinue t) (worker_continue t l)"

inductive_cases cml_stepE: "cml_step l e l'"

definition cml_start :: "'c concurrent_loop \<Rightarrow> bool" where
  "cml_start l \<longleftrightarrow> (\<exists>n. l = new_concurrent_loop n)"

definition in_hand :: "'c concurrent_loop \<Rightarrow> nat \<Rightarrow> 'c multiset" where
  "in_hand l t = (case worker_state_of l t of Executing cs _ \<Rightarrow> mset cs | _ \<Rightarrow> {#})"

definition assigned :: "'c concurrent_loop \<Rightarrow> nat \<Rightarrow> 'c multiset" where
  "assigned l t = (case thread_tasks l t of None \<Rightarrow> {#} | Some cs \<Rightarrow> mset cs)"

text \<open>Every posted task is executed, queued, assigned to a worker or in the hands of one.\<close>

definition outstanding :: "'c concurrent_loop \<Rightarrow> 'c multiset" where
  "outstanding l = mset (tasks l) +
     (\<Sum>t \<in> set (worker_thread_ids l). in_hand l t + assigned l t)"

definition cml_inv :: "'c concurrent_loop \<Rightarrow> bool" where
  "cml_inv l \<longleftrightarrow> distinct (worker_thread_ids l) \<and> worker_thread_ids l \<noteq> [] \<and>
     posted l = mset (map snd (executed l)) + outstanding l \<and>
     (\<forall>t. worker_state_of l t = Exited \<longrightarrow> shutdown l) \<and>
     (\<forall>t cs. worker_state_of l t = Executing cs True \<longrightarrow> shutdown l)"

lemma sum_mset_update:
  fixes f :: "'a \<Rightarrow> 'b multiset"
  assumes "finite A" "x \<in> A" "\<And>y. y \<in> A \<Longrightarrow> y \<noteq> x \<Longrightarrow> g y = f y"
  shows "sum g A + f x = sum f A + g x"
proof -
  have "sum g (A - {x}) = sum f (A - {x})" by (rule sum.cong) (use assms(3) in auto)
  then show ?thesis
    by (simp add: sum.remove [OF assms(1,2), of f] sum.remove [OF assms(1,2), of g] ac_simps)
qed

lemma sum_const_mset: "finite A \<Longrightarrow> (\<Sum>t \<in> A. {#x#}) = replicate_mset (card A) x"
  by (induction A rule: finite_induct) simp_all

lemma cml_PostTask_inv: "cml_inv l \<Longrightarrow> cml_inv (cml_PostTask thr c l)"
  by (auto simp: cml_inv_def cml_PostTask_def ExecuteTask_def outstanding_def in_hand_def
        assigned_def Let_def split: option.splits)

lemma PostTaskToAllWorkers_inv:
  assumes "cml_inv l"
  shows "cml_inv (PostTaskToAllWorkers c l)"
proof (cases c)
  case (Some x)
  let ?W = "set (worker_thread_ids l)"
  let ?l = "PostTaskToAllWorkers c l"
  have "assigned ?l t = add_mset x (assigned l t)" if "t \<in> ?W" for t
    using that by (simp add: assigned_def PostTaskToAllWorkers_def Some split: option.split)
  then have "(\<Sum>t \<in> ?W. in_hand ?l t + assigned ?l t) =
      (\<Sum>t \<in> ?W. (in_hand l t + assigned l t) + {#x#})"
    by (intro sum.cong) (auto simp: in_hand_def PostTaskToAllWorkers_def Some)
  also have "\<dots> = (\<Sum>t \<in> ?W. in_hand l t + assigned l t) + (\<Sum>t \<in> ?W. {#x#})"
    by (rule sum.distrib)
  also have "(\<Sum>t \<in> ?W. {#x#}) = replicate_mset (length (worker_thread_ids l)) x"
    using assms distinct_card [of "worker_thread_ids l"]
    by (simp add: cml_inv_def sum_const_mset)
  finally show ?thesis
    using assms by (simp add: cml_inv_def outstanding_def PostTaskToAllWorkers_def Some ac_simps)
qed (use assms in \<open>simp add: PostTaskToAllWorkers_def\<close>)

lemma cml_Terminate_inv: "cml_inv l \<Longrightarrow> cml_inv (cml_Terminate l)"
  by (simp add: cml_inv_def cml_Terminate_def outstanding_def in_hand_def assigned_def)

text \<open>The worker takes the front task and all the tasks assigned to it.\<close>

lemma worker_wake_cases:
  assumes "worker_wake t l = Inr (Some l')"
  shows "l' = l\<lparr>tasks := tl (tasks l), thread_tasks := (thread_tasks l)(t := None),
            worker_state_of := (worker_state_of l)
              (t := Executing (take 1 (tasks l) @
                       (case thread_tasks l t of None \<Rightarrow> [] | Some cs \<Rightarrow> cs)) (shutdown l))\<rparr>"
proof (cases "thread_tasks l t")
  case None
  then have "(thread_tasks l)(t := None) = thread_tasks l" by (simp add: fun_upd_idem)
  with None assms show ?thesis
    by (auto simp: worker_wake_def HasThreadTasks_def Let_def split: if_splits list.splits)
next
  case (Some cs)
  with assms show ?thesis
    by (auto simp: worker_wake_def HasThreadTasks_def GetThreadTasks_def Let_def
          split: if_splits list.splits)
qed

lemma worker_wake_inv:
  assumes inv: "cml_inv l" and t: "t \<in> set (worker_thread_ids l)" "worker_state_of l t = Waiting"
    and w: "worker_wake t l = Inr (Some l')"
  shows "cml_inv l'"
proof -
  note l' = worker_wake_cases [OF w]
  have "mset (tasks l) = mset (take 1 (tasks l)) + mset (tl (tasks l))"
    by (cases "tasks l") auto
  moreover have "(\<Sum>x \<in> set (worker_thread_ids l). in_hand l' x + assigned l' x) +
      (in_hand l t + assigned l t) =
      (\<Sum>x \<in> set (worker_thread_ids l). in_hand l x + assigned l x) + (in_hand l' t + assigned l' t)"
    by (rule sum_mset_update) (auto simp: t l' in_hand_def assigned_def)
  moreover have "in_hand l t = {#}" by (simp add: in_hand_def t)
  moreover have "in_hand l' t = mset (take 1 (tasks l)) + assigned l t" "assigned l' t = {#}"
    by (simp_all add: l' in_hand_def assigned_def split: option.split)
  ultimately have "outstanding l' = outstanding l"
    by (simp add: outstanding_def l' ac_simps)
  then show ?thesis using inv by (auto simp: cml_inv_def l')
qed

lemma mset_balance:
  fixes s s' h h' a e e' u :: "'b multiset"
  assumes "s' + (h + a) = s + (h' + a)" "e' + h' = e + h"
  shows "e' + (u + s') = e + (u + s)"
proof -
  have "(s' + h) + a = (s + h') + a" using assms(1) by (simp only: add.assoc)
  then have sh: "s' + h = s + h'" by (rule add_right_imp_eq)
  have "(e' + s') + h' = (e' + h') + s'" by (simp add: ac_simps)
  also have "\<dots> = e + (s' + h)" by (simp add: assms(2) ac_simps)
  also have "\<dots> = (e + s) + h'" by (simp only: sh add.assoc)
  finally have "e' + s' = e + s" by simp
  then show ?thesis by (simp add: add.left_commute)
qed

lemma worker_continue_inv:
  assumes inv: "cml_inv l" and t: "t \<in> set (worker_thread_ids l)"
  shows "cml_inv (worker_continue t l)"
proof -
  let ?l = "worker_continue t l"
  let ?S = "\<lambda>l. \<Sum>x \<in> set (worker_thread_ids l). in_hand l x + assigned l x"
  have ids: "worker_thread_ids ?l = worker_thread_ids l" "tasks ?l = tasks l"
    "posted ?l = posted l" "shutdown ?l = shutdown l"
    by (simp_all add: worker_continue_def ExecuteTask_def split: worker_state.split list.split)
  have "?S ?l + (in_hand l t + assigned l t) = ?S l + (in_hand ?l t + assigned ?l t)"
    unfolding ids
    by (rule sum_mset_update)
       (use t in \<open>auto simp: worker_continue_def ExecuteTask_def in_hand_def assigned_def
                  split: worker_state.split list.split\<close>)
  moreover have "assigned ?l t = assigned l t"
    by (simp add: worker_continue_def ExecuteTask_def assigned_def
          split: worker_state.split list.split)
  moreover have "mset (map snd (executed ?l)) + in_hand ?l t =
      mset (map snd (executed l)) + in_hand l t"
    by (auto simp: worker_continue_def ExecuteTask_def in_hand_def
          split: worker_state.split list.split)
  ultimately have "mset (map snd (executed ?l)) + outstanding ?l =
      mset (map snd (executed l)) + outstanding l"
    using mset_balance [of "?S ?l" "in_hand l t" "assigned l t" "?S l" "in_hand ?l t"
        "mset (map snd (executed ?l))" "mset (map snd (executed l))" "mset (tasks l)"]
    unfolding outstanding_def ids by simp
  moreover have "(\<forall>x. worker_state_of ?l x = Exited \<longrightarrow> shutdown l) \<and>
      (\<forall>x cs. worker_state_of ?l x = Executing cs True \<longrightarrow> shutdown l)"
    using inv
    by (auto simp: cml_inv_def worker_continue_def ExecuteTask_def
          split: worker_state.splits list.splits if_splits)
  ultimately show ?thesis using inv by (simp add: cml_inv_def ids)
qed

lemma new_concurrent_loop_inv: "cml_inv (new_concurrent_loop n)"
  by (auto simp: cml_inv_def new_concurrent_loop_def outstanding_def in_hand_def assigned_def
        max_def)

interpretation cml: transition_system cml_start cml_step cml_inv
proof
  fix l :: "'c concurrent_loop" and e l' assume "cml_inv l" "cml_step l e l'"
  then show "cml_inv l'"
    by (auto elim!: cml_stepE intro: cml_PostTask_inv PostTaskToAllWorkers_inv cml_Terminate_inv
          worker_wake_inv worker_continue_inv)
qed (auto simp: cml_start_def new_concurrent_loop_inv)

abbreviation cml_reachable :: "'c concurrent_loop \<Rightarrow> bool" where
  "cml_reachable \<equiv> reachable_from cml_start cml_step"

subsection \<open>Properties\<close>

text \<open>
  C9: No task is lost and none runs twice: in every reachable state of the pool the tasks
  posted are, with multiplicity, the executed ones, the queued ones, the ones assigned to a
  single worker and the ones a worker holds. \<open>PostTaskToAllWorkers\<close> counts once per worker.
\<close>

theorem concurrent_tasks_conserved:
  assumes "cml_reachable l"
  shows "posted l = mset (map snd (executed l)) + mset (tasks l) +
           (\<Sum>t \<in> set (worker_thread_ids l). in_hand l t + assigned l t)"
  using cml.reachable_inv [OF assms] by (simp add: cml_inv_def outstanding_def ac_simps)

definition demo_pool :: "nat concurrent_loop" where
  "demo_pool = cml_PostTask 9 (Some 7) (cml_PostTask 9 (Some 5) (new_concurrent_loop 1))"

lemma demo_pool_reachable: "cml_reachable demo_pool"
proof -
  have "cml_reachable (new_concurrent_loop 1 :: nat concurrent_loop)"
    by (rule reach_start) (auto simp: cml_start_def)
  then show ?thesis unfolding demo_pool_def by (meson reach_step cml_post)
qed

theorem concurrent_tasks_conserved_witness: "posted demo_pool = {#5, 7#}"
  using concurrent_tasks_conserved [OF demo_pool_reachable]
  by (simp add: demo_pool_def cml_PostTask_def new_concurrent_loop_def in_hand_def assigned_def
        Let_def)

text \<open>
  A worker leaves only after \<open>Terminate\<close>; before it, a worker that is waiting can take a
  task whenever the queue is not empty, and it takes the one posted first.
\<close>

theorem waiting_worker_takes_front:
  assumes "cml_reachable l" and "\<not> shutdown l" and "t \<in> set (worker_thread_ids l)"
  shows "worker_state_of l t \<noteq> Exited \<and>
         (tasks l = c # cs \<longrightarrow>
            (\<exists>l' own. worker_wake t l = Inr (Some l') \<and> tasks l' = cs \<and>
                      worker_state_of l' t = Executing (c # own) False))"
proof -
  have "worker_state_of l t \<noteq> Exited"
    using cml.reachable_inv [OF assms(1)] assms(2) by (auto simp: cml_inv_def)
  moreover have "\<exists>l' own. worker_wake t l = Inr (Some l') \<and> tasks l' = cs \<and>
                      worker_state_of l' t = Executing (c # own) False" if "tasks l = c # cs"
    using that assms(2)
    by (cases "thread_tasks l t") (simp_all add: worker_wake_def HasThreadTasks_def
          GetThreadTasks_def Let_def)
  ultimately show ?thesis by blast
qed

theorem waiting_worker_takes_front_witness:
  "\<exists>l' own. worker_wake 0 demo_pool = Inr (Some l') \<and> tasks l' = [7] \<and>
            worker_state_of l' 0 = Executing (5 # own) False"
  using waiting_worker_takes_front [OF demo_pool_reachable, of 0 5 "[7]"]
  by (simp add: demo_pool_def cml_PostTask_def new_concurrent_loop_def Let_def)

text \<open>
  The comment in \<open>PostTask\<close> says tasks are not dropped at a shutdown, but a worker that
  sees the shutdown takes one queued task and leaves: with one worker and two queued tasks
  the second one is never executed.
\<close>

lemma shutdown_drops_queued_tasks:
  "\<exists>l. cml_reachable (l :: nat concurrent_loop) \<and> tasks l = [7] \<and>
       (\<forall>t \<in> set (worker_thread_ids l). worker_state_of l t = Exited)"
proof -
  let ?l = "cml_Terminate demo_pool"
  obtain l1 where w: "worker_wake 0 ?l = Inr (Some l1)" "tasks l1 = [7]"
    "worker_state_of l1 0 = Executing [5] True" "worker_thread_ids l1 = [0]"
    by (simp add: demo_pool_def cml_PostTask_def new_concurrent_loop_def Let_def
        cml_Terminate_def worker_wake_def HasThreadTasks_def)
  let ?l2 = "worker_continue 0 l1" let ?l3 = "worker_continue 0 ?l2"
  have "cml_reachable ?l" using reach_step [OF demo_pool_reachable cml_terminate] .
  moreover have "cml_step ?l (CWake 0) l1"
    by (rule cml_wake [OF _ _ w(1)])
       (simp_all add: demo_pool_def cml_PostTask_def new_concurrent_loop_def Let_def
          cml_Terminate_def)
  moreover have "cml_step l1 (CContinue 0) ?l2" by (rule cml_continue) (simp add: w)
  moreover have "worker_thread_ids ?l2 = [0]"
    by (simp add: worker_continue_def ExecuteTask_def w)
  then have "cml_step ?l2 (CContinue 0) ?l3" by (intro cml_continue) simp
  ultimately have "cml_reachable ?l3" by (meson reach_step)
  moreover have "tasks ?l3 = [7]" "worker_thread_ids ?l3 = [0]" "worker_state_of ?l3 0 = Exited"
    by (simp_all add: worker_continue_def ExecuteTask_def w)
  ultimately show ?thesis by (intro exI [of _ ?l3]) simp
qed

end
