(* ===== verification/Command_Line.thy ===== *)
theory Command_Line
  imports Prelude
begin

text \<open>
  \<^verbatim>\<open>src/fml/command_line.{h,cc}\<close>: parsing of \<open>argv\<close> into options and positional arguments.

  A \<open>std::string\<close> is a list of characters; \<open>npos\<close> is \<open>None\<close>. \<open>HasOption\<close> looks its name up
  with \<open>name.data()\<close>, that is up to the first NUL, which \<open>c_str\<close> models. Iterators are
  positions in the argument list.
\<close>

subsection \<open>Data\<close>

record cl_option =
  opt_name :: string
  opt_value :: string

record command_line =
  has_argv0 :: bool
  argv0 :: string
  options :: "cl_option list"
  positional_args :: "string list"
  option_index :: "string \<rightharpoonup> nat"

definition CommandLine_default :: command_line where
  "CommandLine_default = \<lparr>has_argv0 = False, argv0 = [], options = [], positional_args = [],
     option_index = (\<lambda>_. None)\<rparr>"

fun index_options :: "nat \<Rightarrow> cl_option list \<Rightarrow> (string \<rightharpoonup> nat) \<Rightarrow> string \<rightharpoonup> nat" where
  "index_options i [] m = m"
| "index_options i (opt # opts) m = index_options (Suc i) opts (m(opt_name opt \<mapsto> i))"

definition CommandLine :: "string \<Rightarrow> cl_option list \<Rightarrow> string list \<Rightarrow> command_line" where
  "CommandLine arg0 opts pos = \<lparr>has_argv0 = True, argv0 = arg0, options = opts,
     positional_args = pos, option_index = index_options 0 opts (\<lambda>_. None)\<rparr>"

definition cl_equal :: "command_line \<Rightarrow> command_line \<Rightarrow> bool" where
  "cl_equal a b \<longleftrightarrow> has_argv0 a = has_argv0 b \<and> argv0 a = argv0 b \<and> options a = options b \<and>
     positional_args a = positional_args b"

subsection \<open>Queries\<close>

definition c_str :: "string \<Rightarrow> string" where
  "c_str s = takeWhile (\<lambda>c. c \<noteq> CHR 0x00) s"

definition HasOption :: "string \<Rightarrow> command_line \<Rightarrow> nat option" where
  "HasOption name cl = option_index cl (c_str name)"

definition GetOptionValue :: "string \<Rightarrow> command_line \<Rightarrow> string option" where
  "GetOptionValue name cl =
     (case HasOption name cl of
        None \<Rightarrow> None
      | Some i \<Rightarrow> Some (opt_value (options cl ! i)))"

definition GetOptionValues :: "string \<Rightarrow> command_line \<Rightarrow> string list" where
  "GetOptionValues name cl = map opt_value (filter (\<lambda>opt. opt_name opt = name) (options cl))"

definition GetOptionValueWithDefault :: "string \<Rightarrow> string \<Rightarrow> command_line \<Rightarrow> string" where
  "GetOptionValueWithDefault name default_value cl =
     (case HasOption name cl of
        None \<Rightarrow> default_value
      | Some i \<Rightarrow> opt_value (options cl ! i))"

subsection \<open>CommandLineBuilder\<close>

record command_line_builder =
  b_has_argv0 :: bool
  b_argv0 :: string
  b_options :: "cl_option list"
  b_positional_args :: "string list"
  started_positional_args :: bool

definition CommandLineBuilder :: command_line_builder where
  "CommandLineBuilder = \<lparr>b_has_argv0 = False, b_argv0 = [], b_options = [],
     b_positional_args = [], started_positional_args = False\<rparr>"

text \<open>\<open>std::string::find(c, pos)\<close>; a position past the end finds nothing.\<close>

definition find_from :: "char \<Rightarrow> nat \<Rightarrow> string \<Rightarrow> nat option" where
  "find_from c pos s =
     (if c \<in> set (drop pos s) then Some (pos + length (takeWhile (\<lambda>x. x \<noteq> c) (drop pos s)))
      else None)"

definition ProcessArg :: "string \<Rightarrow> command_line_builder \<Rightarrow> bool \<times> command_line_builder" where
  "ProcessArg arg b =
     (if \<not> b_has_argv0 b then (False, b\<lparr>b_has_argv0 := True, b_argv0 := arg\<rparr>)
      else if started_positional_args b then
        (b_positional_args b = [], b\<lparr>b_positional_args := b_positional_args b @ [arg]\<rparr>)
      else if length arg < 2 \<or> arg ! 0 \<noteq> CHR ''-'' \<or> arg ! 1 \<noteq> CHR ''-'' then
        (b_positional_args b = [],
         b\<lparr>started_positional_args := True, b_positional_args := b_positional_args b @ [arg]\<rparr>)
      else if length arg = 2 then (False, b\<lparr>started_positional_args := True\<rparr>)
      else
        case find_from CHR ''='' 3 arg of
          None \<Rightarrow>
            (False, b\<lparr>b_options := b_options b @ [\<lparr>opt_name = drop 2 arg, opt_value = []\<rparr>]\<rparr>)
        | Some equals_pos \<Rightarrow>
            (False, b\<lparr>b_options := b_options b @
               [\<lparr>opt_name = take (equals_pos - 2) (drop 2 arg),
                 opt_value = drop (equals_pos + 1) arg\<rparr>]\<rparr>))"

definition Build :: "command_line_builder \<Rightarrow> command_line" where
  "Build b =
     (if \<not> b_has_argv0 b then CommandLine_default
      else CommandLine (b_argv0 b) (b_options b) (b_positional_args b))"

text \<open>The loop of the factory functions; the second result is \<open>*first_positional_arg\<close>.\<close>

fun process_from ::
  "nat \<Rightarrow> string list \<Rightarrow> command_line_builder \<Rightarrow> nat option \<Rightarrow>
   command_line_builder \<times> nat option"
where
  "process_from i [] b first = (b, first)"
| "process_from i (a # as) b first =
     (case ProcessArg a b of (rv, b') \<Rightarrow>
        process_from (Suc i) as b' (if rv then Some i else first))"

definition CommandLineFromIteratorsFindFirstPositionalArg ::
  "string list \<Rightarrow> command_line \<times> nat option"
where
  "CommandLineFromIteratorsFindFirstPositionalArg argv =
     (case process_from 0 argv CommandLineBuilder None of (b, first) \<Rightarrow> (Build b, first))"

definition CommandLineFromIterators :: "string list \<Rightarrow> command_line" where
  "CommandLineFromIterators argv = fst (CommandLineFromIteratorsFindFirstPositionalArg argv)"

definition CommandLineFromIteratorsWithArgv0 :: "string \<Rightarrow> string list \<Rightarrow> command_line" where
  "CommandLineFromIteratorsWithArgv0 arg0 argv =
     Build (fst (process_from 0 argv (snd (ProcessArg arg0 CommandLineBuilder)) None))"

text \<open>\<open>platform\<close>: what the host gives, if it can.\<close>

definition CommandLineFromPlatformOrArgcArgv ::
  "command_line option \<Rightarrow> string list \<Rightarrow> command_line"
where
  "CommandLineFromPlatformOrArgcArgv platform argv =
     (case platform of Some cl \<Rightarrow> cl | None \<Rightarrow> CommandLineFromIterators argv)"

subsection \<open>CommandLineToArgv\<close>

definition render_option :: "cl_option \<Rightarrow> string" where
  "render_option opt =
     (if opt_value opt = [] then ''--'' @ opt_name opt
      else ''--'' @ opt_name opt @ ''='' @ opt_value opt)"

definition positional_argv :: "string list \<Rightarrow> string list" where
  "positional_argv pos =
     (if pos \<noteq> [] \<and> length (hd pos) \<ge> 2 \<and> hd pos ! 0 = CHR ''-'' \<and> hd pos ! 1 = CHR ''-''
      then [''--''] else []) @ pos"

definition CommandLineToArgv :: "command_line \<Rightarrow> string list" where
  "CommandLineToArgv cl =
     (if \<not> has_argv0 cl then []
      else
        [argv0 cl] @ map render_option (options cl) @ positional_argv (positional_args cl))"

subsection \<open>Option names a parser can produce\<close>

definition opt_ok :: "cl_option \<Rightarrow> bool" where
  "opt_ok opt \<longleftrightarrow> opt_name opt \<noteq> [] \<and> CHR ''='' \<notin> set (tl (opt_name opt))"

lemma ProcessArg_render:
  assumes "opt_ok opt" "b_has_argv0 b" "\<not> started_positional_args b"
  shows "ProcessArg (render_option opt) b = (False, b\<lparr>b_options := b_options b @ [opt]\<rparr>)"
proof -
  obtain c name where n: "opt_name opt = c # name" "CHR ''='' \<notin> set name"
    using assms(1) by (cases "opt_name opt") (auto simp: opt_ok_def)
  show ?thesis
  proof (cases "opt_value opt = []")
    case True
    then have "opt = \<lparr>opt_name = c # name, opt_value = []\<rparr>" using n by simp
    with True n assms(2,3) show ?thesis
      by (simp add: ProcessArg_def render_option_def find_from_def numeral_3_eq_3 numeral_2_eq_2)
  next
    case False
    have "takeWhile (\<lambda>x. x \<noteq> CHR ''='') (name @ CHR ''='' # v) = name" for v
      using n(2) by (induction name) auto
    then show ?thesis using False n assms(2,3)
      by (simp add: ProcessArg_def render_option_def find_from_def numeral_3_eq_3 numeral_2_eq_2)
  qed
qed

abbreviation process_args :: "string list \<Rightarrow> command_line_builder \<Rightarrow> command_line_builder" where
  "process_args \<equiv> fold (\<lambda>a b. snd (ProcessArg a b))"

lemma process_from_fold: "fst (process_from i as b f) = process_args as b"
  by (induction i as b f rule: process_from.induct) (simp split: prod.split)+

lemma CommandLineFromIterators_fold:
  "CommandLineFromIterators argv = Build (process_args argv CommandLineBuilder)"
  using process_from_fold [of 0 argv CommandLineBuilder None]
  by (cases "process_from 0 argv CommandLineBuilder None")
     (simp add: CommandLineFromIterators_def CommandLineFromIteratorsFindFirstPositionalArg_def)

lemma process_args_positional:
  assumes "b_has_argv0 b" "started_positional_args b"
  shows "process_args as b = b\<lparr>b_positional_args := b_positional_args b @ as\<rparr>"
  using assms by (induction as arbitrary: b) (simp_all add: ProcessArg_def)

lemma process_args_render:
  assumes "list_all opt_ok opts" "b_has_argv0 b" "\<not> started_positional_args b"
  shows "process_args (map render_option opts) b = b\<lparr>b_options := b_options b @ opts\<rparr>"
  using assms by (induction opts arbitrary: b) (simp_all add: ProcessArg_render)

definition builder_ok :: "command_line_builder \<Rightarrow> bool" where
  "builder_ok b \<longleftrightarrow> list_all opt_ok (b_options b) \<and>
     (\<not> started_positional_args b \<longrightarrow> b_positional_args b = []) \<and>
     (\<not> b_has_argv0 b \<longrightarrow> \<not> started_positional_args b \<and> b_options b = [])"

lemma parsed_option_ok:
  assumes "length arg \<ge> 3" "find_from CHR ''='' 3 arg = Some p"
  shows "opt_ok \<lparr>opt_name = take (p - 2) (drop 2 arg), opt_value = v\<rparr>"
proof -
  obtain a b c rest where arg: "arg = a # b # c # rest"
    using assms(1) by (auto simp: numeral_3_eq_3 Suc_le_length_iff)
  let ?k = "length (takeWhile (\<lambda>x. x \<noteq> CHR ''='') rest)"
  have "p = 3 + ?k" using assms(2) by (simp add: find_from_def arg numeral_3_eq_3 split: if_splits)
  then have "take (p - 2) (drop 2 arg) = c # take ?k rest"
    by (simp add: arg numeral_2_eq_2 numeral_3_eq_3)
  moreover have "CHR ''='' \<notin> set (take ?k rest)"
    using takeWhile_eq_take [of "\<lambda>x. x \<noteq> CHR ''=''" rest] by (metis (full_types) set_takeWhileD)
  ultimately show ?thesis by (simp add: opt_ok_def)
qed

lemma plain_option_ok:
  assumes "length arg \<ge> 3" "find_from CHR ''='' 3 arg = None"
  shows "opt_ok \<lparr>opt_name = drop 2 arg, opt_value = v\<rparr>"
proof -
  obtain a b c rest where arg: "arg = a # b # c # rest"
    using assms(1) by (auto simp: numeral_3_eq_3 Suc_le_length_iff)
  then show ?thesis
    using assms(2) by (simp add: find_from_def opt_ok_def numeral_2_eq_2 numeral_3_eq_3 split: if_splits)
qed

lemma ProcessArg_ok: "builder_ok b \<Longrightarrow> builder_ok (snd (ProcessArg arg b))"
  by (auto simp: ProcessArg_def builder_ok_def parsed_option_ok plain_option_ok
        split: option.splits)

lemma process_args_ok: "builder_ok b \<Longrightarrow> builder_ok (process_args as b)"
  by (induction as arbitrary: b) (simp_all add: ProcessArg_ok)

lemma CommandLineBuilder_ok: "builder_ok CommandLineBuilder"
  by (simp add: builder_ok_def CommandLineBuilder_def)

text \<open>Positional arguments are found again, with a \<open>"--"\<close> before them where one is needed.\<close>

lemma process_args_tail:
  assumes b: "b_has_argv0 b" "\<not> started_positional_args b" "b_positional_args b = []"
  shows "\<exists>st. process_args (positional_argv pos) b =
           b\<lparr>started_positional_args := st, b_positional_args := pos\<rparr>"
proof (cases pos)
  case Nil
  then show ?thesis using b
    by (intro exI [of _ "started_positional_args b"]) (simp add: positional_argv_def)
next
  case (Cons p ps)
  show ?thesis
  proof (cases "length p \<ge> 2 \<and> p ! 0 = CHR ''-'' \<and> p ! 1 = CHR ''-''")
    case True
    have "snd (ProcessArg ''--'' b) = b\<lparr>started_positional_args := True\<rparr>"
      using b by (simp add: ProcessArg_def)
    then show ?thesis
      using True Cons b
        process_args_positional [of "b\<lparr>started_positional_args := True\<rparr>" "p # ps"]
      by (intro exI [of _ True]) (simp add: positional_argv_def)
  next
    case False
    let ?b = "b\<lparr>started_positional_args := True, b_positional_args := [p]\<rparr>"
    from False have "snd (ProcessArg p b) = ?b" using b by (auto simp: ProcessArg_def)
    moreover have "positional_argv pos = p # ps" using False Cons by (auto simp: positional_argv_def)
    ultimately show ?thesis
      using b process_args_positional [of ?b ps] Cons by (intro exI [of _ True]) simp
  qed
qed

lemma Build_ToArgv:
  assumes ok: "builder_ok b"
  shows "CommandLineFromIterators (CommandLineToArgv (Build b)) = Build b"
proof (cases "b_has_argv0 b")
  case False
  then show ?thesis
    by (simp add: CommandLineFromIterators_fold Build_def CommandLineToArgv_def
        CommandLine_default_def CommandLineBuilder_def)
next
  case True
  let ?b0 = "CommandLineBuilder\<lparr>b_has_argv0 := True, b_argv0 := b_argv0 b\<rparr>"
  let ?b1 = "?b0\<lparr>b_options := b_options b\<rparr>"
  have b0: "snd (ProcessArg (b_argv0 b) CommandLineBuilder) = ?b0"
    by (simp add: ProcessArg_def CommandLineBuilder_def)
  have b1: "process_args (map render_option (b_options b)) ?b0 = ?b1"
    using ok process_args_render [of "b_options b" ?b0]
    by (simp add: builder_ok_def CommandLineBuilder_def)
  have h: "b_has_argv0 ?b1" "\<not> started_positional_args ?b1" "b_positional_args ?b1 = []"
    by (simp_all add: CommandLineBuilder_def)
  from process_args_tail [OF h, of "b_positional_args b"] obtain st
    where tail: "process_args (positional_argv (b_positional_args b)) ?b1 =
      ?b1\<lparr>started_positional_args := st, b_positional_args := b_positional_args b\<rparr>" by blast
  show ?thesis
    using tail True
    by (simp add: CommandLineFromIterators_fold Build_def CommandLineToArgv_def CommandLine_def
        b0 b1 Let_def)
qed

subsection \<open>Properties\<close>

text \<open>
  C10: Printing a parsed command line and parsing the result gives the same command line, for
  every argument vector: names with \<open>=\<close> in front, empty values, positional arguments that
  look like options and a bare \<open>"--"\<close> included.
\<close>

theorem command_line_roundtrip:
  "CommandLineFromIterators (CommandLineToArgv (CommandLineFromIterators argv)) =
   CommandLineFromIterators argv"
  using Build_ToArgv [OF process_args_ok [OF CommandLineBuilder_ok, of argv]]
  by (simp add: CommandLineFromIterators_fold)

lemma index_options_snoc:
  "index_options i (opts @ [opt]) m = (index_options i opts m)(opt_name opt \<mapsto> i + length opts)"
  by (induction i opts m rule: index_options.induct) (simp_all del: fun_upd_apply)

lemma index_options_lookup:
  "(case index_options 0 opts (\<lambda>_. None) name of
      None \<Rightarrow> filter (\<lambda>opt. opt_name opt = name) opts = []
    | Some k \<Rightarrow> k < length opts \<and> opt_name (opts ! k) = name \<and>
        (\<forall>j < length opts. k < j \<longrightarrow> opt_name (opts ! j) \<noteq> name) \<and>
        filter (\<lambda>opt. opt_name opt = name) opts \<noteq> [] \<and>
        opt_value (opts ! k) =
          last (map opt_value (filter (\<lambda>opt. opt_name opt = name) opts)))"
proof (induction opts rule: rev_induct)
  case (snoc opt opts)
  show ?case
  proof (cases "opt_name opt = name")
    case True
    then show ?thesis by (simp add: index_options_snoc nth_append)
  next
    case False
    then show ?thesis
      using snoc.IH
      by (auto simp: index_options_snoc nth_append less_Suc_eq split: option.split)
  qed
qed simp

lemma c_str_id: "CHR 0x00 \<notin> set name \<Longrightarrow> c_str name = name"
  by (auto simp: c_str_def takeWhile_eq_all_conv)

lemma parsed_options_indexed:
  "option_index (CommandLineFromIterators argv) =
   index_options 0 (options (CommandLineFromIterators argv)) (\<lambda>_. None)"
  by (simp add: CommandLineFromIterators_fold Build_def CommandLine_def CommandLine_default_def)

text \<open>
  On a parsed command line \<open>HasOption\<close> finds the last occurrence of a name (without NUL),
  and \<open>GetOptionValue\<close> is the last of \<open>GetOptionValues\<close>, defined exactly when there is one.
\<close>

theorem last_option_wins:
  assumes "CHR 0x00 \<notin> set name" and "cl = CommandLineFromIterators argv"
  shows "GetOptionValue name cl =
           (if GetOptionValues name cl = [] then None else Some (last (GetOptionValues name cl))) \<and>
         (HasOption name cl = Some k \<longrightarrow>
            k < length (options cl) \<and> opt_name (options cl ! k) = name \<and>
            (\<forall>j < length (options cl). k < j \<longrightarrow> opt_name (options cl ! j) \<noteq> name))"
  using index_options_lookup [where opts = "options cl" and name = name] assms
  by (auto simp: GetOptionValue_def GetOptionValues_def HasOption_def c_str_id
        parsed_options_indexed split: option.splits)

theorem last_option_wins_witness:
  "GetOptionValue ''a'' (CommandLineFromIterators [''x'', ''--a=1'', ''--a=2'', ''p'']) = Some ''2''"
proof -
  have "GetOptionValues ''a'' (CommandLineFromIterators [''x'', ''--a=1'', ''--a=2'', ''p'']) =
    [''1'', ''2'']"
    by code_simp
  with last_option_wins [of "''a''", OF _ refl] show ?thesis by simp
qed

lemma process_from_started:
  assumes "b_has_argv0 b" "started_positional_args b" "b_positional_args b \<noteq> []"
  shows "process_from i as b f = (b\<lparr>b_positional_args := b_positional_args b @ as\<rparr>, f)"
  using assms by (induction as arbitrary: i b) (simp_all add: ProcessArg_def)

lemma ProcessArg_positional:
  assumes "builder_ok b" "b_positional_args b = []" "ProcessArg a b = (rv, b')"
  shows "if rv then b_positional_args b' = [a] \<and> started_positional_args b' \<and> b_has_argv0 b'
         else b_positional_args b' = []"
  using assms by (auto simp: ProcessArg_def builder_ok_def split: if_splits option.splits)

lemma process_from_first:
  assumes "builder_ok b" "b_positional_args b = []" "process_from i as b f = (b', f')"
  shows "(b_positional_args b' = [] \<and> f' = f) \<or>
         (\<exists>k < length as. f' = Some (i + k) \<and> b_positional_args b' = drop k as)"
  using assms
proof (induction as arbitrary: i b f)
  case (Cons a as)
  obtain rv b1 where p: "ProcessArg a b = (rv, b1)" by (cases "ProcessArg a b")
  note pos = ProcessArg_positional [OF Cons.prems(1,2) p]
  show ?case
  proof (cases rv)
    case True
    with pos process_from_started [of b1 "Suc i" as "Some i"] Cons.prems(3) p
    show ?thesis by (intro disjI2 exI [of _ 0]) auto
  next
    case False
    with p Cons.prems(3) have "process_from (Suc i) as b1 f = (b', f')" by simp
    moreover have "builder_ok b1" using ProcessArg_ok [OF Cons.prems(1), of a] p by simp
    ultimately have "(b_positional_args b' = [] \<and> f' = f) \<or>
        (\<exists>k < length as. f' = Some (Suc i + k) \<and> b_positional_args b' = drop k as)"
      using Cons.IH [of b1 "Suc i" f] False pos by simp
    then show ?thesis
    proof (elim disjE exE conjE)
      fix k assume "k < length as" "f' = Some (Suc i + k)" "b_positional_args b' = drop k as"
      then show ?thesis by (intro disjI2 exI [of _ "Suc k"]) simp
    qed simp
  qed
qed simp

text \<open>
  \<open>first_positional_arg\<close> is the position at which the positional arguments start: they are
  the rest of the argument vector from there on, and none exist when it is the end.
\<close>

theorem first_positional_starts_rest:
  "case CommandLineFromIteratorsFindFirstPositionalArg argv of
     (cl, None) \<Rightarrow> positional_args cl = []
   | (cl, Some i) \<Rightarrow> i < length argv \<and> positional_args cl = drop i argv"
proof -
  obtain b f where p: "process_from 0 argv CommandLineBuilder None = (b, f)" by fastforce
  have ok: "builder_ok b"
    using process_args_ok [OF CommandLineBuilder_ok, of argv]
      process_from_fold [of 0 argv CommandLineBuilder None] p by simp
  have "b_positional_args CommandLineBuilder = []" by (simp add: CommandLineBuilder_def)
  from process_from_first [OF CommandLineBuilder_ok this p]
  show ?thesis
    using ok p
    by (auto simp: CommandLineFromIteratorsFindFirstPositionalArg_def Build_def CommandLine_def
          CommandLine_default_def builder_ok_def split: option.splits)
qed

end
