(* ===== verification/Base32.thy ===== *)
theory Base32
  imports Prelude
begin

text \<open>
  \<^verbatim>\<open>src/fml/base32.{h,cc}\<close>: the bit converter and the two directions of the codec.

  \<open>BitConverter\<close> is the template with its parameters \<open>from_length\<close>, \<open>to_length\<close> and
  \<open>buffer_length\<close> as arguments; both instances have a 16-bit buffer, so the shifts of an \<open>int\<close>
  never overflow and the buffer is a natural number. A byte of a string is a \<open>char\<close>
  (\<open>of_char\<close> is the cast to \<open>uint8_t\<close>). \<open>Base32Encode\<close> is bounded by
  \<open>size_t\<close>: \<open>max_size\<close> is \<open>numeric_limits<size_t>::max()\<close>.
\<close>

subsection \<open>BitConverter\<close>

record bit_converter =
  buffer :: nat
  lower_free_bits :: nat

definition new_converter :: "nat \<Rightarrow> bit_converter" where
  "new_converter buffer_length = \<lparr>buffer = 0, lower_free_bits = buffer_length\<rparr>"

definition kMask :: "nat \<Rightarrow> nat" where
  "kMask buffer_length = push_bit buffer_length 1 - 1"

definition Peek :: "nat \<Rightarrow> nat \<Rightarrow> bit_converter \<Rightarrow> nat" where
  "Peek to_length buffer_length c = drop_bit (buffer_length - to_length) (buffer c)"

definition BitsAvailable :: "nat \<Rightarrow> bit_converter \<Rightarrow> nat" where
  "BitsAvailable buffer_length c = buffer_length - lower_free_bits c"

definition CanAppend :: "nat \<Rightarrow> bit_converter \<Rightarrow> bool" where
  "CanAppend from_length c \<longleftrightarrow> from_length \<le> lower_free_bits c"

definition CanExtract :: "nat \<Rightarrow> nat \<Rightarrow> bit_converter \<Rightarrow> bool" where
  "CanExtract to_length buffer_length c \<longleftrightarrow> to_length \<le> BitsAvailable buffer_length c"

definition Append :: "nat \<Rightarrow> nat \<Rightarrow> bit_converter \<Rightarrow> bit_converter result" where
  "Append from_length bits c =
     rbind (guard Dcheck_Failed (bits < push_bit from_length 1)) (\<lambda>_.
     rbind (guard Dcheck_Failed (CanAppend from_length c)) (\<lambda>_.
       let free = lower_free_bits c - from_length
       in Inr \<lparr>buffer = buffer c OR push_bit free bits, lower_free_bits = free\<rparr>))"

definition Extract :: "nat \<Rightarrow> nat \<Rightarrow> bit_converter \<Rightarrow> (nat \<times> bit_converter) result" where
  "Extract to_length buffer_length c =
     rbind (guard Dcheck_Failed (CanExtract to_length buffer_length c)) (\<lambda>_.
       Inr (Peek to_length buffer_length c,
            \<lparr>buffer = push_bit to_length (buffer c) AND kMask buffer_length,
             lower_free_bits = lower_free_bits c + to_length\<rparr>))"

subsection \<open>The codec\<close>

definition kEncoding :: string where
  "kEncoding = ''ABCDEFGHIJKLMNOPQRSTUVWXYZ234567''"

text \<open>The \<open>while\<close> loop of \<open>Base32Encode\<close>; \<open>None\<close> is a loop that is still running.\<close>

fun encode_loop ::
  "nat \<Rightarrow> bit_converter \<Rightarrow> string \<Rightarrow> string \<Rightarrow> (bit_converter \<times> string) option result"
where
  "encode_loop 0 c rest output = Inr None"
| "encode_loop (Suc fuel) c rest output =
     (if CanExtract 5 16 c then
        rbind (Extract 5 16 c) (\<lambda>(d, c1).
          let output' = output @ [kEncoding ! d]
          in case rest of
               b # rest' \<Rightarrow>
                 if CanAppend 8 c1 then
                   rbind (Append 8 (of_char b) c1) (\<lambda>c2. encode_loop fuel c2 rest' output')
                 else encode_loop fuel c1 rest output'
             | [] \<Rightarrow> encode_loop fuel c1 rest output')
      else Inr (Some (c, output)))"

definition max_size :: nat where "max_size = 2 ^ 64 - 1"

definition Base32Encode :: "nat \<Rightarrow> string \<Rightarrow> (bool \<times> string) option result" where
  "Base32Encode fuel input =
     (if input = [] then Inr (Some (True, []))
      else if length input > max_size div 8 then Inr (Some (False, []))
      else
        rbind (Append 8 (of_char (hd input)) (new_converter 16)) (\<lambda>c.
        rbind (encode_loop fuel c (tl input) []) (\<lambda>r.
          case r of
            None \<Rightarrow> Inr None
          | Some (c', output) \<Rightarrow>
              Inr (Some (True,
                if BitsAvailable 16 c' > 0 then output @ [kEncoding ! Peek 5 16 c']
                else output)))))"

definition kDecodeMap :: "int list" where
  "kDecodeMap =
     [26, 27, 28, 29, 30, 31, -1, -1, -1, -1, -1, -1, -1, -1,
      -1, 0,  1,  2,  3,  4,  5,  6,  7,  8,  9,  10, 11, 12,
      13, 14, 15, 16, 17, 18, 19, 20, 21, 22, 23, 24, 25]"

text \<open>
  \<open>map_index\<close> is computed from a \<open>char\<close>, which may be signed: a byte above 127 gives a
  negative index or one past the table, and is refused either way.
\<close>

definition decode_char :: "char \<Rightarrow> nat option" where
  "decode_char c =
     (let map_index = int (of_char c) - 50
      in if map_index < 0 \<or> map_index \<ge> int (length kDecodeMap) \<or>
            kDecodeMap ! nat map_index = -1
         then None
         else Some (nat (kDecodeMap ! nat map_index)))"

fun decode_loop :: "bit_converter \<Rightarrow> string \<Rightarrow> string \<Rightarrow> (bool \<times> string) result" where
  "decode_loop c [] res = Inr (if Peek 8 16 c \<noteq> 0 then (False, res) else (True, res))"
| "decode_loop c (x # input) res =
     (case decode_char x of
        None \<Rightarrow> Inr (False, res)
      | Some v \<Rightarrow>
          rbind (Append 5 v c) (\<lambda>c1.
            if CanExtract 8 16 c1 then
              rbind (Extract 8 16 c1) (\<lambda>(b, c2). decode_loop c2 input (res @ [char_of b]))
            else decode_loop c1 input res))"

definition Base32Decode :: "string \<Rightarrow> (bool \<times> string) result" where
  "Base32Decode input = decode_loop (new_converter 16) input []"

subsection \<open>The converter is a queue of bits\<close>

text \<open>The lowest \<open>n\<close> bits of a number, most significant first.\<close>

definition bits :: "nat \<Rightarrow> nat \<Rightarrow> bool list" where
  "bits n x = map (\<lambda>i. bit x (n - 1 - i)) [0 ..< n]"

lemma length_bits [simp]: "length (bits n x) = n"
  by (simp add: bits_def)

lemma nth_bits [simp]: "i < n \<Longrightarrow> bits n x ! i = bit x (n - 1 - i)"
  by (simp add: bits_def)

lemma bits_0 [simp]: "bits 0 x = []" "bits n 0 = replicate n False"
  by (simp_all add: bits_def list_eq_iff_nth_eq)

lemma bits_inject:
  assumes "bits n x = bits n y" "x < 2 ^ n" "y < 2 ^ n"
  shows "x = y"
proof (rule bit_eqI)
  fix i :: nat
  have hi: "\<not> bit z i" if "z < 2 ^ n" "n \<le> i" for z :: nat
    using that by (metis bit_take_bit_iff leD take_bit_nat_eq_self)
  show "bit x i = bit y i"
  proof (cases "i < n")
    case True
    then have "bits n x ! (n - 1 - i) = bits n y ! (n - 1 - i)" using assms(1) by simp
    with True show ?thesis by simp
  qed (use hi assms(2,3) in auto)
qed

text \<open>The pending bits, and the states in which the bits below them are zero.\<close>

definition pending :: "bit_converter \<Rightarrow> bool list" where
  "pending c = map (\<lambda>i. bit (buffer c) (15 - i)) [0 ..< 16 - lower_free_bits c]"

definition conv_ok :: "bit_converter \<Rightarrow> bool" where
  "conv_ok c \<longleftrightarrow> lower_free_bits c \<le> 16 \<and>
     (\<forall>i. bit (buffer c) i \<longrightarrow> lower_free_bits c \<le> i \<and> i < 16)"

lemma length_pending [simp]: "length (pending c) = 16 - lower_free_bits c"
  by (simp add: pending_def)

lemma nth_pending [simp]: "i < 16 - lower_free_bits c \<Longrightarrow> pending c ! i = bit (buffer c) (15 - i)"
  by (simp add: pending_def)

lemma new_converter_ok [simp]: "conv_ok (new_converter 16)" "pending (new_converter 16) = []"
  by (simp_all add: conv_ok_def new_converter_def pending_def)

lemma Append_queue:
  assumes ok: "conv_ok c" and x: "x < 2 ^ n" and room: "n \<le> lower_free_bits c"
  shows "\<exists>c'. Append n x c = Inr c' \<and> conv_ok c' \<and> pending c' = pending c @ bits n x"
proof -
  let ?f = "lower_free_bits c - n"
  let ?c = "\<lparr>buffer = buffer c OR push_bit ?f x, lower_free_bits = ?f\<rparr>"
  have f: "lower_free_bits c \<le> 16" using ok by (simp add: conv_ok_def)
  have "Append n x c = Inr ?c"
    using x room by (simp add: Append_def CanAppend_def push_bit_eq_mult Let_def)
  moreover have "conv_ok ?c"
    using ok room small_bits [OF x]
    by (fastforce simp: conv_ok_def bit_or_iff bit_push_bit_iff)
  moreover have "pending ?c = pending c @ bits n x"
  proof (rule nth_equalityI)
    show "length (pending ?c) = length (pending c @ bits n x)" using room f by simp
    fix i assume "i < length (pending ?c)"
    then have i: "i < 16 - ?f" by simp
    show "pending ?c ! i = (pending c @ bits n x) ! i"
    proof (cases "i < 16 - lower_free_bits c")
      case True
      then have "\<not> bit (push_bit ?f x) (15 - i)"
        using small_bits [OF x, of "15 - i - ?f"] room by (auto simp: bit_push_bit_iff)
      then show ?thesis using True i by (simp add: nth_append bit_or_iff)
    next
      case False
      then have "\<not> lower_free_bits c \<le> 15 - i" using i room f by arith
      then have "\<not> bit (buffer c) (15 - i)" using ok by (auto simp: conv_ok_def)
      moreover have "15 - i - ?f = n - 1 - (i - (16 - lower_free_bits c))" "?f \<le> 15 - i"
        using False i room f by auto
      ultimately show ?thesis
        using False i room f by (simp add: nth_append bit_or_iff bit_push_bit_iff)
    qed
  qed
  ultimately show ?thesis by blast
qed

lemma Extract_queue:
  assumes ok: "conv_ok c" and n: "n \<le> 16 - lower_free_bits c" "n < 16"
  shows "\<exists>x c'. Extract n 16 c = Inr (x, c') \<and> x < 2 ^ n \<and> conv_ok c' \<and>
           pending c = bits n x @ pending c'"
proof -
  let ?x = "drop_bit (16 - n) (buffer c)"
  let ?c = "\<lparr>buffer = push_bit n (buffer c) AND kMask 16, lower_free_bits = lower_free_bits c + n\<rparr>"
  have f: "lower_free_bits c \<le> 16" and b: "\<And>i. bit (buffer c) i \<Longrightarrow> i < 16"
    using ok by (auto simp: conv_ok_def)
  have "kMask 16 = mask 16" by (simp only: kMask_def push_bit_eq_mult mask_eq_exp_minus_1 mult_1)
  then have mask: "bit (kMask 16) i \<longleftrightarrow> i < 16" for i by (simp only: bit_mask_iff) simp
  have small: "k < n" if "bit (buffer c) (16 + k - n)" for k using b [OF that] n by arith
  have "Extract n 16 c = Inr (?x, ?c)"
    using n by (simp add: Extract_def CanExtract_def BitsAvailable_def Peek_def)
  moreover have "?x < 2 ^ n"
  proof -
    have "take_bit n ?x = ?x"
      by (rule bit_eqI) (auto simp: bit_take_bit_iff bit_drop_bit_eq n(2) less_imp_le dest: small)
    then show ?thesis by (metis take_bit_nat_less_exp)
  qed
  moreover have "conv_ok ?c"
    using ok n f by (auto simp: conv_ok_def bit_and_iff bit_push_bit_iff mask)
  moreover have "pending c = bits n ?x @ pending ?c"
  proof (rule nth_equalityI)
    show "length (pending c) = length (bits n ?x @ pending ?c)" using n by simp
    fix i assume "i < length (pending c)"
    then have i: "i < 16 - lower_free_bits c" by simp
    show "pending c ! i = (bits n ?x @ pending ?c) ! i"
    proof (cases "i < n")
      case True
      then have "16 - n + (n - 1 - i) = 15 - i" using n by simp
      then show ?thesis using True i by (simp add: nth_append bit_drop_bit_eq)
    next
      case False
      then have "15 - (i - n) - n = 15 - i" "n \<le> 15 - (i - n)" "15 + n - i < 16" using i by auto
      then show ?thesis using False i
        by (simp add: nth_append bit_and_iff bit_push_bit_iff mask)
    qed
  qed
  ultimately show ?thesis by blast
qed

lemma Peek_queue:
  assumes ok: "conv_ok c" and n: "16 - lower_free_bits c \<le> n" "n < 16"
  shows "bits n (Peek n 16 c) = pending c @ replicate (n - (16 - lower_free_bits c)) False"
    "Peek n 16 c < 2 ^ n"
proof -
  have b: "\<And>i. bit (buffer c) i \<Longrightarrow> lower_free_bits c \<le> i \<and> i < 16"
    using ok by (auto simp: conv_ok_def)
  show "bits n (Peek n 16 c) = pending c @ replicate (n - (16 - lower_free_bits c)) False"
  proof (rule nth_equalityI)
    fix i assume "i < length (bits n (Peek n 16 c))"
    then have i: "i < n" by simp
    then have e: "16 - n + (n - 1 - i) = 15 - i" using n by simp
    show "bits n (Peek n 16 c) ! i =
        (pending c @ replicate (n - (16 - lower_free_bits c)) False) ! i"
    proof (cases "i < 16 - lower_free_bits c")
      case True
      then show ?thesis using i e by (simp add: nth_append Peek_def bit_drop_bit_eq)
    next
      case False
      then have "\<not> lower_free_bits c \<le> 15 - i" using i n by arith
      then have "\<not> bit (buffer c) (15 - i)" using b by blast
      then show ?thesis using False i e by (simp add: nth_append Peek_def bit_drop_bit_eq)
    qed
  qed (use n in simp)
  have small: "k < n" if "bit (buffer c) (16 + k - n)" for k using b [OF that] n by arith
  have "take_bit n (Peek n 16 c) = Peek n 16 c"
    by (rule bit_eqI)
       (auto simp: Peek_def bit_take_bit_iff bit_drop_bit_eq n(2) less_imp_le dest: small)
  then show "Peek n 16 c < 2 ^ n" by (metis take_bit_nat_less_exp)
qed

subsection \<open>The loops\<close>

definition encoding_bits :: "string \<Rightarrow> bool list \<Rightarrow> bool" where
  "encoding_bits out bs \<longleftrightarrow>
     (\<exists>ds. out = map ((!) kEncoding) ds \<and> (\<forall>d \<in> set ds. d < 32) \<and> bs = concat (map (bits 5) ds))"

lemma encoding_bits_Nil [simp]: "encoding_bits [] []"
  by (simp add: encoding_bits_def)

lemma encoding_bits_snoc:
  "encoding_bits out bs \<Longrightarrow> d < 32 \<Longrightarrow> encoding_bits (out @ [kEncoding ! d]) (bs @ bits 5 d)"
  unfolding encoding_bits_def by (elim exE conjE, rule_tac x = "ds @ [d]" in exI) auto

definition byte_bits :: "string \<Rightarrow> bool list" where
  "byte_bits s = concat (map (\<lambda>c. bits 8 (of_char c)) s)"

lemma byte_bits_simps [simp]:
  "byte_bits [] = []" "byte_bits (c # s) = bits 8 (of_char c) @ byte_bits s"
  "byte_bits (s @ t) = byte_bits s @ byte_bits t"
  by (simp_all add: byte_bits_def)

lemma length_byte_bits [simp]: "length (byte_bits s) = 8 * length s"
  by (induction s) simp_all

lemma of_char_less: "(of_char c :: nat) < 2 ^ 8"
  using of_char_mod_256 [of c, where 'a = nat] by (simp add: mod_eq_self_iff_div_eq_0 div_eq_0_iff)

text \<open>
  The encoder writes out the bits it has taken in; each turn takes five bits out and puts at
  most one byte in, so two turns per byte and two more are enough.
\<close>

lemma encode_loop_spec:
  assumes "conv_ok c" "encoding_bits out bs"
    and "(16 - lower_free_bits c) + 9 * length rest < 5 * fuel"
    and "16 - lower_free_bits c < 5 \<Longrightarrow> rest = []"
  shows "\<exists>c' out' bs'. encode_loop fuel c rest out = Inr (Some (c', out')) \<and> conv_ok c' \<and>
           16 - lower_free_bits c' < 5 \<and> encoding_bits out' bs' \<and>
           bs' @ pending c' = bs @ pending c @ byte_bits rest"
  using assms
proof (induction fuel arbitrary: c out bs rest)
  case (Suc fuel)
  note ok = Suc.prems(1)
  show ?case
  proof (cases "16 - lower_free_bits c < 5")
    case True
    then have "encode_loop (Suc fuel) c rest out = Inr (Some (c, out))"
      by (simp add: CanExtract_def BitsAvailable_def)
    then show ?thesis using Suc.prems True by auto
  next
    case False
    then have can: "CanExtract 5 16 c" by (simp add: CanExtract_def BitsAvailable_def)
    from Extract_queue [OF ok, of 5] False obtain d c1 where d: "Extract 5 16 c = Inr (d, c1)"
      "d < 32" "conv_ok c1" "pending c = bits 5 d @ pending c1" by auto
    have av: "16 - lower_free_bits c = 5 + (16 - lower_free_bits c1)"
      using arg_cong [OF d(4), of length] by simp
    let ?out = "out @ [kEncoding ! d]" let ?bs = "bs @ bits 5 d"
    note enc = encoding_bits_snoc [OF Suc.prems(2) d(2)]
    show ?thesis
    proof (cases "rest \<noteq> [] \<and> CanAppend 8 c1")
      case True
      then obtain b rest' where rest: "rest = b # rest'" by (cases rest) auto
      from True have room: "8 \<le> lower_free_bits c1" by (simp add: CanAppend_def)
      from Append_queue [OF d(3) of_char_less room] obtain c2
        where c2: "Append 8 (of_char b) c1 = Inr c2" "conv_ok c2"
          "pending c2 = pending c1 @ bits 8 (of_char b)" by blast
      have av2: "16 - lower_free_bits c2 = 16 - lower_free_bits c1 + 8"
        using arg_cong [OF c2(3), of length] by simp
      have "(16 - lower_free_bits c2) + 9 * length rest' < 5 * fuel"
        "16 - lower_free_bits c2 < 5 \<Longrightarrow> rest' = []"
        using Suc.prems(3) av av2 rest by auto
      from Suc.IH [OF c2(2) enc this] show ?thesis
        using can d c2 rest True by (simp add: Let_def)
    next
      case False
      have "(16 - lower_free_bits c1) + 9 * length rest < 5 * fuel"
        "16 - lower_free_bits c1 < 5 \<Longrightarrow> rest = []"
        using Suc.prems(3) av False by (auto simp: CanAppend_def)
      from Suc.IH [OF d(3) enc this]
      have "\<exists>c' out' bs'. encode_loop fuel c1 rest ?out = Inr (Some (c', out')) \<and> conv_ok c' \<and>
           16 - lower_free_bits c' < 5 \<and> encoding_bits out' bs' \<and>
           bs' @ pending c' = bs @ pending c @ byte_bits rest"
        by (simp add: d(4))
      moreover have "encode_loop (Suc fuel) c rest out = encode_loop fuel c1 rest ?out"
        using can d(1) False by (cases rest) (auto simp: Let_def)
      ultimately show ?thesis by simp
    qed
  qed
qed simp

lemma Base32Encode_spec:
  assumes "length s \<le> max_size div 8" and "2 * length s + 2 \<le> fuel"
  shows "\<exists>out z. Base32Encode fuel s = Inr (Some (True, out)) \<and>
           encoding_bits out (byte_bits s @ replicate z False) \<and> z < 5"
proof (cases s)
  case (Cons b rest)
  have "8 \<le> lower_free_bits (new_converter 16)" by (simp add: new_converter_def)
  from Append_queue [OF new_converter_ok(1) of_char_less this] obtain c
    where c: "Append 8 (of_char b) (new_converter 16) = Inr c" "conv_ok c"
      "pending c = bits 8 (of_char b)" by auto
  have av: "16 - lower_free_bits c = 8" using arg_cong [OF c(3), of length] by simp
  from encode_loop_spec [OF c(2) encoding_bits_Nil, of rest fuel] av assms(2) Cons
  obtain c' out bs where e: "encode_loop fuel c rest [] = Inr (Some (c', out))" "conv_ok c'"
    "16 - lower_free_bits c' < 5" "encoding_bits out bs" "bs @ pending c' = byte_bits s"
    by (auto simp: c(3))
  show ?thesis
  proof (cases "BitsAvailable 16 c' > 0")
    case True
    let ?z = "5 - (16 - lower_free_bits c')"
    have p: "bits 5 (Peek 5 16 c') = pending c' @ replicate ?z False" "Peek 5 16 c' < 32"
      using Peek_queue [OF e(2), of 5] e(3) by auto
    have "encoding_bits (out @ [kEncoding ! Peek 5 16 c']) (byte_bits s @ replicate ?z False)"
      using encoding_bits_snoc [OF e(4) p(2)] by (simp add: p(1) e(5) [symmetric])
    moreover have "?z < 5" using True by (simp add: BitsAvailable_def)
    ultimately show ?thesis using c e Cons assms(1) True by (auto simp: Base32Encode_def)
  next
    case False
    then have "pending c' = []" by (simp add: BitsAvailable_def pending_def)
    then show ?thesis
      using c e Cons assms(1) False
      by (intro exI [of _ out] exI [of _ 0]) (simp add: Base32Encode_def)
  qed
qed (auto simp: Base32Encode_def intro: exI [of _ 0])

lemma decode_encode_char: "d < 32 \<Longrightarrow> decode_char (kEncoding ! d) = Some d"
proof -
  have "\<forall>d \<in> set [0 ..< 32]. decode_char (kEncoding ! d) = Some d" by code_simp
  then show "d < 32 \<Longrightarrow> ?thesis" by simp
qed

lemma all_False: "xs = replicate (length xs) False \<longleftrightarrow> (\<forall>b \<in> set xs. \<not> b)"
  by (induction xs) auto

lemma Peek_zero:
  assumes ok: "conv_ok c" and n: "16 - lower_free_bits c < 8"
  shows "Peek 8 16 c = 0 \<longleftrightarrow> (\<forall>b \<in> set (pending c). \<not> b)"
proof -
  note p = Peek_queue [OF ok less_imp_le [OF n]]
  have "Peek 8 16 c = 0 \<longleftrightarrow> bits 8 (Peek 8 16 c) = bits 8 0"
    using bits_inject [of 8 "Peek 8 16 c" 0] p(2) by auto
  also have "\<dots> \<longleftrightarrow> (\<forall>b \<in> set (bits 8 (Peek 8 16 c)). \<not> b)"
    using all_False [of "bits 8 (Peek 8 16 c)"] by (simp only: bits_0 length_bits)
  also have "\<dots> \<longleftrightarrow> (\<forall>b \<in> set (pending c). \<not> b)" by (auto simp: p(1))
  finally show ?thesis .
qed

lemma char_of_bits: "x < 2 ^ 8 \<Longrightarrow> bits 8 (of_char (char_of x)) = bits 8 x" for x :: nat
  by simp

lemma decode_loop_spec:
  assumes "conv_ok c" "16 - lower_free_bits c < 8" "\<forall>d \<in> set ds. d < 32"
  shows "\<exists>r rest. decode_loop c (map ((!) kEncoding) ds) res = Inr (\<forall>b \<in> set rest. \<not> b, res @ r) \<and>
           pending c @ concat (map (bits 5) ds) = byte_bits r @ rest \<and> length rest < 8"
  using assms
proof (induction ds arbitrary: c res)
  case Nil
  then show ?case
    by (intro exI [of _ "[]"] exI [of _ "pending c"]) (simp add: Peek_zero)
next
  case (Cons d ds)
  have "d < 2 ^ 5" "5 \<le> lower_free_bits c" using Cons.prems(2,3) by auto
  from Append_queue [OF Cons.prems(1) this] obtain c1
    where c1: "Append 5 d c = Inr c1" "conv_ok c1" "pending c1 = pending c @ bits 5 d" by auto
  have av: "16 - lower_free_bits c1 = 16 - lower_free_bits c + 5"
    using arg_cong [OF c1(3), of length] by simp
  show ?case
  proof (cases "CanExtract 8 16 c1")
    case True
    then have "8 \<le> 16 - lower_free_bits c1" by (simp add: CanExtract_def BitsAvailable_def)
    from Extract_queue [OF c1(2) this] obtain x c2 where x: "Extract 8 16 c1 = Inr (x, c2)"
      "x < 2 ^ 8" "conv_ok c2" "pending c1 = bits 8 x @ pending c2" by auto
    have "16 - lower_free_bits c2 < 8"
      using arg_cong [OF x(4), of length] av Cons.prems(2) by simp
    from Cons.IH [OF x(3) this, of "res @ [char_of x]"] Cons.prems(3) obtain r rest
      where r: "decode_loop c2 (map ((!) kEncoding) ds) (res @ [char_of x]) =
          Inr (\<forall>b \<in> set rest. \<not> b, (res @ [char_of x]) @ r)"
        "pending c2 @ concat (map (bits 5) ds) = byte_bits r @ rest" "length rest < 8" by auto
    have "decode_loop c (map ((!) kEncoding) (d # ds)) res =
        Inr (\<forall>b \<in> set rest. \<not> b, res @ char_of x # r)"
      using r(1) c1(1) x(1) True Cons.prems(3) by (simp add: decode_encode_char)
    moreover have "pending c @ concat (map (bits 5) (d # ds)) = byte_bits (char_of x # r) @ rest"
      using r(2) char_of_bits [OF x(2)]
        arg_cong [OF x(4) [unfolded c1(3)], of "\<lambda>l. l @ concat (map (bits 5) ds)"] by simp
    ultimately show ?thesis using r(3) by blast
  next
    case False
    then have "16 - lower_free_bits c1 < 8" by (simp add: CanExtract_def BitsAvailable_def)
    from Cons.IH [OF c1(2) this, of res] Cons.prems(3) obtain r rest
      where r: "decode_loop c1 (map ((!) kEncoding) ds) res = Inr (\<forall>b \<in> set rest. \<not> b, res @ r)"
        "pending c1 @ concat (map (bits 5) ds) = byte_bits r @ rest" "length rest < 8" by auto
    have "decode_loop c (map ((!) kEncoding) (d # ds)) res = Inr (\<forall>b \<in> set rest. \<not> b, res @ r)"
      using r(1) c1(1) False Cons.prems(3) by (simp add: decode_encode_char)
    then show ?thesis using r(2,3) c1(3) by auto
  qed
qed

lemma byte_bits_inject:
  "byte_bits s = byte_bits t \<longleftrightarrow> s = t"
proof
  assume "byte_bits s = byte_bits t"
  then show "s = t"
  proof (induction s arbitrary: t)
    case Nil
    from arg_cong [OF this, of length] show ?case by simp
  next
    case (Cons c s)
    have "length t \<noteq> 0" using arg_cong [OF Cons.prems, of length] by auto
    then obtain d t' where t: "t = d # t'" by (cases t) auto
    from Cons.prems have "bits 8 (of_char c) = bits 8 (of_char d)" "byte_bits s = byte_bits t'"
      by (auto simp: t)
    then show ?case using Cons.IH bits_inject [OF _ of_char_less of_char_less] t by auto
  qed
qed simp

subsection \<open>Properties\<close>

text \<open>
  C11: Decoding inverts encoding: for every byte string within the size limit the encoder
  returns (two turns of its loop per byte and two more are enough), succeeds, and the decoder
  gives the string back.
\<close>

theorem base32_roundtrip:
  assumes "length s \<le> max_size div 8" and "2 * length s + 2 \<le> fuel"
  shows "\<exists>out. Base32Encode fuel s = Inr (Some (True, out)) \<and> Base32Decode out = Inr (True, s)"
proof -
  from Base32Encode_spec [OF assms] obtain out z
    where e: "Base32Encode fuel s = Inr (Some (True, out))"
      "encoding_bits out (byte_bits s @ replicate z False)" "z < 5" by blast
  from e(2) obtain ds where ds: "out = map ((!) kEncoding) ds" "\<forall>d \<in> set ds. d < 32"
    "byte_bits s @ replicate z False = concat (map (bits 5) ds)" by (auto simp: encoding_bits_def)
  have "16 - lower_free_bits (new_converter 16) < 8" by (simp add: new_converter_def)
  from decode_loop_spec [OF new_converter_ok(1) this ds(2), of "[]"] obtain r rest
    where r: "decode_loop (new_converter 16) out [] = Inr (\<forall>b \<in> set rest. \<not> b, r)"
      "byte_bits s @ replicate z False = byte_bits r @ rest" "length rest < 8"
    by (auto simp: ds(1,3))
  have "8 * length s + z = 8 * length r + length rest"
    using arg_cong [OF r(2), of length] by simp
  then have "length s = length r" using e(3) r(3) by arith
  then have "byte_bits s = byte_bits r" "replicate z False = rest"
    using r(2) by (simp_all add: append_eq_append_conv)
  then have "s = r" "\<forall>b \<in> set rest. \<not> b" by (auto simp: byte_bits_inject)
  then show ?thesis using e(1) r(1) by (auto simp: Base32Decode_def)
qed

theorem base32_roundtrip_witness:
  "\<exists>out. Base32Encode 8 ''foo'' = Inr (Some (True, out)) \<and> Base32Decode out = Inr (True, ''foo'')"
  by (rule base32_roundtrip) (simp_all add: max_size_def)

end
