(* ===== verification/Codecs.thy ===== *)
theory Codecs
  imports Prelude
begin

text \<open>
  \<^verbatim>\<open>src/fml/hex_codec.cc\<close>, \<^verbatim>\<open>ascii_trie.{h,cc}\<close> and \<^verbatim>\<open>hash_combine.h\<close>.

  The children of a trie node are an array of 128 owning pointers, here a function from
  characters to optional nodes; a character outside ASCII indexes past the array
  (\<open>char\<close> is signed on the supported hosts, so the \<open>DCHECK\<close> lets it through). Two nodes of a
  trie are never the same object, so the pointer comparison of \<open>Query\<close> asks whether the walk
  has left the root. \<open>std::hash\<close> is a parameter: the combination works on its values.
\<close>

subsection \<open>HexEncode\<close>

definition hex_encoding :: string where "hex_encoding = ''0123456789abcdef''"

fun HexEncode :: "string \<Rightarrow> string" where
  "HexEncode [] = []"
| "HexEncode (c # input) =
     (let b = (of_char c :: nat)
      in hex_encoding ! drop_bit 4 b # hex_encoding ! (b AND 0xF) # HexEncode input)"

text \<open>The reference decoder: two digits make a byte.\<close>

definition hex_digit :: "char \<Rightarrow> nat" where
  "hex_digit c = (if of_char c < (58 :: nat) then of_char c - 48 else of_char c - 87)"

fun hex_decode :: "string \<Rightarrow> string option" where
  "hex_decode [] = Some []"
| "hex_decode [x] = None"
| "hex_decode (x # y # rest) =
     map_option ((#) (char_of (16 * hex_digit x + hex_digit y))) (hex_decode rest)"

lemma hex_digit_encoding: "n < 16 \<Longrightarrow> hex_digit (hex_encoding ! n) = n \<and> hex_encoding ! n \<in> set hex_encoding"
proof -
  have "\<forall>n \<in> set [0 ..< 16]. hex_digit (hex_encoding ! n) = n \<and> hex_encoding ! n \<in> set hex_encoding"
    by code_simp
  then show "n < 16 \<Longrightarrow> ?thesis" by simp
qed

lemma nibbles:
  fixes b :: nat
  assumes "b < 256"
  shows "drop_bit 4 b < 16" "b AND 0xF < 16" "16 * drop_bit 4 b + (b AND 0xF) = b"
proof -
  have a: "b AND 0xF = b mod 16" 
    using take_bit_eq_mask [of 4 b] by (simp add: take_bit_eq_mod mask_eq_exp_minus_1)
  show "drop_bit 4 b < 16" "b AND 0xF < 16" "16 * drop_bit 4 b + (b AND 0xF) = b"
    using assms by (simp_all add: a drop_bit_eq_div)
qed

subsection \<open>AsciiTrie\<close>

datatype trie_node = TrieNode (children: "char \<Rightarrow> trie_node option")

definition kMaxAsciiValue :: nat where "kMaxAsciiValue = 128"

fun Add :: "trie_node option \<Rightarrow> string \<Rightarrow> trie_node option result" where
  "Add trie [] = Inr trie"
| "Add trie (ch # entry) =
     rbind (guard Undefined_Behaviour (of_char ch < kMaxAsciiValue)) (\<lambda>_.
       let node = (case trie of None \<Rightarrow> TrieNode (\<lambda>_. None) | Some n \<Rightarrow> n)
       in rbind (Add (children node ch) entry) (\<lambda>child.
            Inr (Some (TrieNode ((children node)(ch := child))))))"

fun make_trie :: "trie_node option \<Rightarrow> string list \<Rightarrow> trie_node option result" where
  "make_trie res [] = Inr res"
| "make_trie res (entry # entries) =
     rbind (Add res (takeWhile (\<lambda>c. c \<noteq> CHR 0x00) entry)) (\<lambda>res'. make_trie res' entries)"

definition MakeTrie :: "string list \<Rightarrow> trie_node option result" where
  "MakeTrie entries = make_trie None entries"

text \<open>The loop of \<open>Query\<close>: has the position left the root, and is \<open>child\<close> null at the end.\<close>

fun query_walk :: "trie_node \<Rightarrow> bool \<Rightarrow> bool \<Rightarrow> string \<Rightarrow> (bool \<times> bool) result" where
  "query_walk trie_position moved child_null [] = Inr (moved, child_null)"
| "query_walk trie_position moved child_null (ch # rest) =
     (if ch = CHR 0x00 then Inr (moved, child_null)
      else
        rbind (guard Undefined_Behaviour (of_char ch < kMaxAsciiValue)) (\<lambda>_.
          case children trie_position ch of
            None \<Rightarrow> Inr (moved, True)
          | Some child \<Rightarrow> query_walk child True False rest))"

definition Query :: "trie_node option \<Rightarrow> string \<Rightarrow> bool result" where
  "Query node argument =
     (case node of
        None \<Rightarrow> Inr True
      | Some trie \<Rightarrow>
          rbind (query_walk trie False True argument) (\<lambda>(moved, child_null).
            Inr (child_null \<and> moved)))"

text \<open>The node a string leads to.\<close>

fun node_at :: "trie_node option \<Rightarrow> string \<Rightarrow> trie_node option" where
  "node_at t [] = t"
| "node_at t (c # cs) = (case t of None \<Rightarrow> None | Some n \<Rightarrow> node_at (children n c) cs)"

definition plain :: "string \<Rightarrow> bool" where
  "plain s \<longleftrightarrow> (\<forall>c \<in> set s. c \<noteq> CHR 0x00 \<and> of_char c < kMaxAsciiValue)"

lemma node_at_None [simp]: "node_at None p = None"
  by (cases p) simp_all

lemma Add_node_at:
  assumes "plain e"
  shows "\<exists>t'. Add t e = Inr t' \<and>
     (\<forall>p. node_at t' p \<noteq> None \<longleftrightarrow> node_at t p \<noteq> None \<or> (\<exists>x xs. e = p @ x # xs))"
  using assms
proof (induction e arbitrary: t)
  case (Cons ch e)
  let ?n = "case t of None \<Rightarrow> TrieNode (\<lambda>_. None) | Some n \<Rightarrow> n"
  from Cons.IH [of "children ?n ch"] Cons.prems obtain c where c: "Add (children ?n ch) e = Inr c"
    and p: "\<And>p. node_at c p \<noteq> None \<longleftrightarrow>
      node_at (children ?n ch) p \<noteq> None \<or> (\<exists>x xs. e = p @ x # xs)"
    by (auto simp: plain_def)
  let ?t = "Some (TrieNode ((children ?n)(ch := c)))"
  have "Add t (ch # e) = Inr ?t" using c Cons.prems by (simp add: plain_def Let_def)
  moreover have "node_at ?t q \<noteq> None \<longleftrightarrow> node_at t q \<noteq> None \<or> (\<exists>x xs. ch # e = q @ x # xs)" for q
  proof (cases q)
    case Nil
    then show ?thesis by simp
  next
    case (Cons y ys)
    show ?thesis
    proof (cases "y = ch")
      case True
      then show ?thesis using Cons p [of ys] by (cases t) auto
    next
      case False
      then show ?thesis using Cons by (cases t) auto
    qed
  qed
  ultimately show ?case by blast
qed auto

lemma plain_takeWhile: "plain e \<Longrightarrow> takeWhile (\<lambda>c. c \<noteq> CHR 0x00) e = e"
  by (auto simp: plain_def takeWhile_eq_all_conv)

lemma make_trie_node_at:
  assumes "\<forall>e \<in> set entries. plain e"
  shows "\<exists>t'. make_trie t entries = Inr t' \<and>
     (\<forall>p. node_at t' p \<noteq> None \<longleftrightarrow>
        node_at t p \<noteq> None \<or> (\<exists>e \<in> set entries. \<exists>x xs. e = p @ x # xs))"
  using assms
proof (induction entries arbitrary: t)
  case (Cons e entries)
  then have e: "plain e" by simp
  from Add_node_at [OF e, of t] obtain t1 where t1: "Add t e = Inr t1"
    "\<And>p. node_at t1 p \<noteq> None \<longleftrightarrow> node_at t p \<noteq> None \<or> (\<exists>x xs. e = p @ x # xs)" by blast
  from Cons.IH [of t1] Cons.prems obtain t2 where t2: "make_trie t1 entries = Inr t2"
    "\<And>p. node_at t2 p \<noteq> None \<longleftrightarrow>
        node_at t1 p \<noteq> None \<or> (\<exists>e \<in> set entries. \<exists>x xs. e = p @ x # xs)" by auto
  have "make_trie t (e # entries) = Inr t2" using t1(1) t2(1) e by (simp add: plain_takeWhile)
  then show ?case using t1(2) t2(2) by auto
qed simp

lemma query_walk_node_at:
  assumes "plain q"
  shows "query_walk t m z q =
    Inr (if q = [] then (m, z)
         else (m \<or> node_at (Some t) [hd q] \<noteq> None, node_at (Some t) q = None))"
  using assms
proof (induction q arbitrary: t m z)
  case (Cons c q)
  have c: "c \<noteq> CHR 0x00" "of_char c < kMaxAsciiValue" "plain q" using Cons.prems by (auto simp: plain_def)
  show ?case
  proof (cases "children t c")
    case None
    then show ?thesis using c by simp
  next
    case (Some n)
    then show ?thesis using c Cons.IH [OF c(3), of n] by simp
  qed
qed simp

subsection \<open>HashCombine\<close>

definition hash_seed :: u64 where "hash_seed = 0xdabbad00"

definition HashCombineSeed1 :: "u64 \<Rightarrow> u64 \<Rightarrow> u64" where
  "HashCombineSeed1 seed h =
     seed XOR (h + 0x9e3779b9 + push_bit 6 seed + drop_bit 2 seed)"

fun HashCombineSeed :: "u64 \<Rightarrow> u64 list \<Rightarrow> u64" where
  "HashCombineSeed seed [] = seed"
| "HashCombineSeed seed (h # other_args) = HashCombineSeed (HashCombineSeed1 seed h) other_args"

definition HashCombine :: "u64 list \<Rightarrow> u64" where
  "HashCombine args = HashCombineSeed hash_seed args"

lemma HashCombineSeed_append:
  "HashCombineSeed s (xs @ ys) = HashCombineSeed (HashCombineSeed s xs) ys"
  by (induction s xs rule: HashCombineSeed.induct) simp_all

lemma HashCombineSeed1_inject: "HashCombineSeed1 s a = HashCombineSeed1 s b \<longleftrightarrow> a = b"
proof
  assume "HashCombineSeed1 s a = HashCombineSeed1 s b"
  then have "s XOR HashCombineSeed1 s a = s XOR HashCombineSeed1 s b" by simp
  then show "a = b" by (simp add: HashCombineSeed1_def flip: xor.assoc)
qed simp

subsection \<open>Properties\<close>

lemma HexEncode_set: "set (HexEncode s) \<subseteq> set hex_encoding"
  by (induction s) (auto simp: Let_def nibbles hex_digit_encoding)

text \<open>
  \<open>HexEncode\<close> writes two digits of \<open>0..9a..f\<close> per byte, and reading pairs of digits
  back gives the input.
\<close>

theorem hex_roundtrip:
  "length (HexEncode s) = 2 * length s \<and> set (HexEncode s) \<subseteq> set hex_encoding \<and>
   hex_decode (HexEncode s) = Some s"
proof -
  have "hex_decode (HexEncode s) = Some s"
    by (induction s)
       (simp_all add: Let_def nibbles hex_digit_encoding del: One_nat_def)
  moreover have "length (HexEncode s) = 2 * length s" by (induction s) (simp_all add: Let_def)
  ultimately show ?thesis using HexEncode_set by blast
qed

text \<open>
  What the trie answers for NUL-free ASCII strings: with no non-empty entry every query
  holds; otherwise a query holds exactly when its first character starts an entry of at least
  two characters and the query is not a proper prefix of an entry.
\<close>

theorem trie_query_meaning:
  assumes "\<forall>e \<in> set entries. plain e" and "plain q"
  shows "\<exists>t. MakeTrie entries = Inr t \<and>
     Query t q = Inr ((\<forall>e \<in> set entries. e = []) \<or>
        (q \<noteq> [] \<and> (\<exists>e \<in> set entries. \<exists>x xs. e = hd q # x # xs) \<and>
         \<not> (\<exists>e \<in> set entries. \<exists>x xs. e = q @ x # xs)))"
proof -
  from make_trie_node_at [OF assms(1), of None] obtain t where t: "MakeTrie entries = Inr t"
    and n: "\<And>p. node_at t p \<noteq> None \<longleftrightarrow> (\<exists>e \<in> set entries. \<exists>x xs. e = p @ x # xs)"
    by (auto simp: MakeTrie_def)
  show ?thesis
  proof (cases t)
    case None
    have "e = []" if "e \<in> set entries" for e
    proof (rule ccontr)
      assume "e \<noteq> []"
      then obtain x xs where "e = [] @ x # xs" by (auto simp: neq_Nil_conv)
      with that n [of "[]"] None show False by auto
    qed
    then show ?thesis using t None by (simp add: Query_def)
  next
    case (Some r)
    then have ne: "\<not> (\<forall>e \<in> set entries. e = [])" using n [of "[]"] by auto
    show ?thesis
    proof (cases "q = []")
      case True
      then show ?thesis using t Some ne by (auto simp: Query_def)
    next
      case False
      then have "Query t q = Inr (node_at t q = None \<and> node_at t [hd q] \<noteq> None)"
        using query_walk_node_at [OF assms(2), of r False True] Some
        by (simp add: Query_def del: node_at.simps)
      then show ?thesis using t ne False n [of q] n [of "[hd q]"] by auto
    qed
  qed
qed

theorem trie_query_meaning_witness:
  "\<exists>t. MakeTrie [''foo'', ''bar''] = Inr t \<and> Query t ''foozzz'' = Inr True"
proof -
  have "\<forall>e \<in> set [''foo'', ''bar'']. plain e" "plain ''foozzz''"
    by (simp_all add: plain_def kMaxAsciiValue_def)
  from trie_query_meaning [OF this] show ?thesis by simp
qed

text \<open>
  The header promises \<open>true\<close> if the argument is prefixed by an entry. The trie does not
  distinguish: a query that leaves the trie after its first character is accepted, and an
  entry of one character never matches.
\<close>

lemma trie_accepts_non_prefix:
  "(case MakeTrie [''foo''] of Inr t \<Rightarrow> Query t ''fxx'' | Inl e \<Rightarrow> Inl e) = Inr True"
  by (simp add: MakeTrie_def Query_def kMaxAsciiValue_def)

lemma trie_ignores_single_character:
  "(case MakeTrie [''f''] of Inr t \<Rightarrow> Query t ''foo'' | Inl e \<Rightarrow> Inl e) = Inr False"
  by (simp add: MakeTrie_def Query_def kMaxAsciiValue_def)

text \<open>
  \<open>HashCombine\<close> loses nothing of the last hash it mixes in: two argument lists that
  differ in the last hash only never collide.
\<close>

theorem hash_combine_last_injective:
  "HashCombine (args @ [a]) = HashCombine (args @ [b]) \<longleftrightarrow> a = b"
  by (simp add: HashCombine_def HashCombineSeed_append HashCombineSeed1_inject)

end
