(* ===== verification/Rect.thy ===== *)
theory Rect
  imports Prelude
begin

text \<open>
  \<^verbatim>\<open>src/geometry/rect.h\<close>, \<^verbatim>\<open>size.h\<close>, \<^verbatim>\<open>point.h\<close> and \<^verbatim>\<open>saturated_math.h\<close> at the coordinate type
  \<open>int64_t\<close> (\<open>IRect\<close>, \<open>ISize\<close>, \<open>IPoint\<close>): rectangles given by their four edges, with the
  saturating construction from a position and a size.

  A coordinate is an \<open>int\<close>; an operation the code performs without saturation is
  \<open>Undefined_Behaviour\<close> when its result does not fit. The floating point instances and the
  operations that need a matrix are not modelled.
\<close>

subsection \<open>Saturated arithmetic\<close>

definition sat_Add :: "int \<Rightarrow> int \<Rightarrow> int result" where
  "sat_Add location distance =
     (if location \<ge> 0 then
        rbind (i64_checked (i64_max - location)) (\<lambda>room.
          if distance > room then Inr i64_max else i64_checked (location + distance))
      else
        rbind (i64_checked (i64_min - location)) (\<lambda>room.
          if distance < room then Inr i64_min else i64_checked (location + distance)))"

definition sat_Sub :: "int \<Rightarrow> int \<Rightarrow> int result" where
  "sat_Sub upper lower =
     (if upper \<ge> 0 then
        if lower < 0 then
          rbind (i64_checked (i64_max + lower)) (\<lambda>bound.
            if upper > bound then Inr i64_max else i64_checked (upper - lower))
        else i64_checked (upper - lower)
      else
        if lower > 0 then
          rbind (i64_checked (i64_min + lower)) (\<lambda>bound.
            if upper < bound then Inr i64_min else i64_checked (upper - lower))
        else i64_checked (upper - lower))"

definition clamp64 :: "int \<Rightarrow> int" where
  "clamp64 n = max i64_min (min i64_max n)"

lemma sat_Add_clamp: "i64_ok a \<Longrightarrow> i64_ok b \<Longrightarrow> sat_Add a b = Inr (clamp64 (a + b))"
  by (auto simp: sat_Add_def clamp64_def i64_checked_def i64_defs)

lemma sat_Sub_clamp: "i64_ok a \<Longrightarrow> i64_ok b \<Longrightarrow> sat_Sub a b = Inr (clamp64 (a - b))"
  by (auto simp: sat_Sub_def clamp64_def i64_checked_def i64_defs)

lemma clamp64_ok [simp]: "i64_ok (clamp64 n)"
  by (auto simp: clamp64_def i64_defs)

lemma clamp64_id: "i64_ok n \<Longrightarrow> clamp64 n = n"
  by (auto simp: clamp64_def i64_ok_def)

subsection \<open>Points and sizes\<close>

record point =
  px :: int
  py :: int

record size =
  width :: int
  height :: int

definition point_equal :: "point \<Rightarrow> point \<Rightarrow> bool" where
  "point_equal p q \<longleftrightarrow> px q = px p \<and> py q = py p"

definition point_plus :: "point \<Rightarrow> point \<Rightarrow> point result" where
  "point_plus p q =
     rbind (i64_checked (px p + px q)) (\<lambda>x.
     rbind (i64_checked (py p + py q)) (\<lambda>y. Inr \<lparr>px = x, py = y\<rparr>))"

definition point_minus :: "point \<Rightarrow> point \<Rightarrow> point result" where
  "point_minus p q =
     rbind (i64_checked (px p - px q)) (\<lambda>x.
     rbind (i64_checked (py p - py q)) (\<lambda>y. Inr \<lparr>px = x, py = y\<rparr>))"

definition point_neg :: "point \<Rightarrow> point result" where
  "point_neg p =
     rbind (i64_checked (- px p)) (\<lambda>x. rbind (i64_checked (- py p)) (\<lambda>y.
       Inr \<lparr>px = x, py = y\<rparr>))"

definition point_Min :: "point \<Rightarrow> point \<Rightarrow> point" where
  "point_Min p q = \<lparr>px = min (px p) (px q), py = min (py p) (py q)\<rparr>"

definition point_Max :: "point \<Rightarrow> point \<Rightarrow> point" where
  "point_Max p q = \<lparr>px = max (px p) (px q), py = max (py p) (py q)\<rparr>"

definition size_equal :: "size \<Rightarrow> size \<Rightarrow> bool" where
  "size_equal a b \<longleftrightarrow> width b = width a \<and> height b = height a"

definition size_plus :: "size \<Rightarrow> size \<Rightarrow> size result" where
  "size_plus a b =
     rbind (i64_checked (width a + width b)) (\<lambda>w.
     rbind (i64_checked (height a + height b)) (\<lambda>h. Inr \<lparr>width = w, height = h\<rparr>))"

definition size_minus :: "size \<Rightarrow> size \<Rightarrow> size result" where
  "size_minus a b =
     rbind (i64_checked (width a - width b)) (\<lambda>w.
     rbind (i64_checked (height a - height b)) (\<lambda>h. Inr \<lparr>width = w, height = h\<rparr>))"

definition size_Min :: "size \<Rightarrow> size \<Rightarrow> size" where
  "size_Min a b = \<lparr>width = min (width a) (width b), height = min (height a) (height b)\<rparr>"

definition size_Max :: "size \<Rightarrow> size \<Rightarrow> size" where
  "size_Max a b = \<lparr>width = max (width a) (width b), height = max (height a) (height b)\<rparr>"

definition MinDimension :: "size \<Rightarrow> int" where "MinDimension s = min (width s) (height s)"
definition MaxDimension :: "size \<Rightarrow> int" where "MaxDimension s = max (width s) (height s)"

definition Area :: "size \<Rightarrow> int result" where
  "Area s = i64_checked (width s * height s)"

definition size_IsEmpty :: "size \<Rightarrow> bool" where
  "size_IsEmpty s \<longleftrightarrow> \<not> (width s > 0 \<and> height s > 0)"

definition size_IsSquare :: "size \<Rightarrow> bool" where
  "size_IsSquare s \<longleftrightarrow> width s = height s"

text \<open>\<open>log2\<close> stands for \<open>std::log2\<close> truncated to \<open>size_t\<close>.\<close>

definition MipCount :: "(int \<Rightarrow> nat) \<Rightarrow> size \<Rightarrow> nat" where
  "MipCount log2 s =
     (if size_IsEmpty s \<or> width s \<le> 0 \<or> height s \<le> 0 then 1
      else max (min (log2 (width s)) (log2 (height s))) 1)"

subsection \<open>Rectangles\<close>

record rect =
  rleft :: int
  rtop :: int
  rright :: int
  rbottom :: int

definition TRect :: "int \<Rightarrow> int \<Rightarrow> int \<Rightarrow> int \<Rightarrow> rect" where
  "TRect l t r b = \<lparr>rleft = l, rtop = t, rright = r, rbottom = b\<rparr>"

definition TRect_default :: rect where "TRect_default = TRect 0 0 0 0"

definition MakeLTRB :: "int \<Rightarrow> int \<Rightarrow> int \<Rightarrow> int \<Rightarrow> rect" where
  "MakeLTRB l t r b = TRect l t r b"

definition MakeXYWH :: "int \<Rightarrow> int \<Rightarrow> int \<Rightarrow> int \<Rightarrow> rect result" where
  "MakeXYWH x y w h =
     rbind (sat_Add x w) (\<lambda>r. rbind (sat_Add y h) (\<lambda>b. Inr (TRect x y r b)))"

definition MakeWH :: "int \<Rightarrow> int \<Rightarrow> rect" where
  "MakeWH w h = TRect 0 0 w h"

definition MakeOriginSize :: "point \<Rightarrow> size \<Rightarrow> rect result" where
  "MakeOriginSize origin s = MakeXYWH (px origin) (py origin) (width s) (height s)"

fun point_bounds :: "point list \<Rightarrow> int \<Rightarrow> int \<Rightarrow> int \<Rightarrow> int \<Rightarrow> rect" where
  "point_bounds [] l t r b = MakeLTRB l t r b"
| "point_bounds (p # ps) l t r b =
     point_bounds ps (min l (px p)) (min t (py p)) (max r (px p)) (max b (py p))"

definition MakePointBounds :: "point list \<Rightarrow> rect option" where
  "MakePointBounds ps =
     (case ps of
        [] \<Rightarrow> None
      | first # rest \<Rightarrow> Some (point_bounds rest (px first) (py first) (px first) (py first)))"

definition MakeMaximum :: rect where
  "MakeMaximum = MakeLTRB i64_min i64_min i64_max i64_max"

definition rect_equal :: "rect \<Rightarrow> rect \<Rightarrow> bool" where
  "rect_equal a r \<longleftrightarrow> rleft a = rleft r \<and> rtop a = rtop r \<and> rright a = rright r \<and>
     rbottom a = rbottom r"

definition ScaleXY :: "int \<Rightarrow> int \<Rightarrow> rect \<Rightarrow> rect result" where
  "ScaleXY sx sy a =
     rbind (i64_checked (rleft a * sx)) (\<lambda>l. rbind (i64_checked (rtop a * sy)) (\<lambda>t.
     rbind (i64_checked (rright a * sx)) (\<lambda>r. rbind (i64_checked (rbottom a * sy)) (\<lambda>b.
       Inr (TRect l t r b)))))"

definition Scale :: "int \<Rightarrow> rect \<Rightarrow> rect result" where
  "Scale s a =
     rbind (i64_checked (rleft a * s)) (\<lambda>l. rbind (i64_checked (rtop a * s)) (\<lambda>t.
     rbind (i64_checked (rright a * s)) (\<lambda>r. rbind (i64_checked (rbottom a * s)) (\<lambda>b.
       Inr (TRect l t r b)))))"

definition ScaleSize :: "size \<Rightarrow> rect \<Rightarrow> rect result" where
  "ScaleSize s a = ScaleXY (width s) (height s) a"

definition IsEmpty :: "rect \<Rightarrow> bool" where
  "IsEmpty a \<longleftrightarrow> \<not> (rleft a < rright a \<and> rtop a < rbottom a)"

definition Contains :: "rect \<Rightarrow> point \<Rightarrow> bool" where
  "Contains a p \<longleftrightarrow> \<not> IsEmpty a \<and> px p \<ge> rleft a \<and> py p \<ge> rtop a \<and> px p < rright a \<and>
     py p < rbottom a"

definition ContainsInclusive :: "rect \<Rightarrow> point \<Rightarrow> bool" where
  "ContainsInclusive a p \<longleftrightarrow> \<not> IsEmpty a \<and> px p \<ge> rleft a \<and> py p \<ge> rtop a \<and>
     px p \<le> rright a \<and> py p \<le> rbottom a"

definition ContainsRect :: "rect \<Rightarrow> rect \<Rightarrow> bool" where
  "ContainsRect a o' \<longleftrightarrow> \<not> IsEmpty a \<and>
     (IsEmpty o' \<or> (rleft o' \<ge> rleft a \<and> rtop o' \<ge> rtop a \<and> rright o' \<le> rright a \<and>
        rbottom o' \<le> rbottom a))"

definition IsSquare :: "rect \<Rightarrow> bool result" where
  "IsSquare a =
     (if IsEmpty a then Inr False
      else rbind (i64_checked (rright a - rleft a)) (\<lambda>w.
           rbind (i64_checked (rbottom a - rtop a)) (\<lambda>h. Inr (w = h))))"

definition IsMaximum :: "rect \<Rightarrow> bool" where
  "IsMaximum a \<longleftrightarrow> rect_equal a MakeMaximum"

definition GetOrigin :: "rect \<Rightarrow> point" where "GetOrigin a = \<lparr>px = rleft a, py = rtop a\<rparr>"
definition GetWidth :: "rect \<Rightarrow> int result" where "GetWidth a = sat_Sub (rright a) (rleft a)"
definition GetHeight :: "rect \<Rightarrow> int result" where "GetHeight a = sat_Sub (rbottom a) (rtop a)"

definition GetSize :: "rect \<Rightarrow> size result" where
  "GetSize a = rbind (GetWidth a) (\<lambda>w. rbind (GetHeight a) (\<lambda>h. Inr \<lparr>width = w, height = h\<rparr>))"

definition rect_Area :: "rect \<Rightarrow> int result" where
  "rect_Area a =
     (if IsEmpty a then Inr 0
      else rbind (i64_checked (rright a - rleft a)) (\<lambda>w.
           rbind (i64_checked (rbottom a - rtop a)) (\<lambda>h. i64_checked (w * h))))"

definition GetLeftTop :: "rect \<Rightarrow> point" where "GetLeftTop a = \<lparr>px = rleft a, py = rtop a\<rparr>"
definition GetRightTop :: "rect \<Rightarrow> point" where "GetRightTop a = \<lparr>px = rright a, py = rtop a\<rparr>"
definition GetLeftBottom :: "rect \<Rightarrow> point" where
  "GetLeftBottom a = \<lparr>px = rleft a, py = rbottom a\<rparr>"
definition GetRightBottom :: "rect \<Rightarrow> point" where
  "GetRightBottom a = \<lparr>px = rright a, py = rbottom a\<rparr>"

definition GetLTRB :: "rect \<Rightarrow> int list" where
  "GetLTRB a = [rleft a, rtop a, rright a, rbottom a]"

definition GetXYWH :: "rect \<Rightarrow> int list result" where
  "GetXYWH a =
     rbind (GetWidth a) (\<lambda>w. rbind (GetHeight a) (\<lambda>h. Inr [rleft a, rtop a, w, h]))"

definition GetPositive :: "rect \<Rightarrow> rect" where
  "GetPositive a =
     (if \<not> IsEmpty a then a
      else TRect (min (rleft a) (rright a)) (min (rtop a) (rbottom a))
                 (max (rleft a) (rright a)) (max (rtop a) (rbottom a)))"

definition GetPoints :: "rect \<Rightarrow> point list" where
  "GetPoints a =
     (if IsEmpty a then replicate 4 \<lparr>px = 0, py = 0\<rparr>
      else [\<lparr>px = rleft a, py = rtop a\<rparr>, \<lparr>px = rright a, py = rtop a\<rparr>,
            \<lparr>px = rleft a, py = rbottom a\<rparr>, \<lparr>px = rright a, py = rbottom a\<rparr>])"

definition Union :: "rect \<Rightarrow> rect \<Rightarrow> rect" where
  "Union a o' =
     (if IsEmpty a then o'
      else if IsEmpty o' then a
      else TRect (min (rleft a) (rleft o')) (min (rtop a) (rtop o'))
                 (max (rright a) (rright o')) (max (rbottom a) (rbottom o')))"

definition IntersectsWithRect :: "rect \<Rightarrow> rect \<Rightarrow> bool" where
  "IntersectsWithRect a o' \<longleftrightarrow> \<not> IsEmpty a \<and> \<not> IsEmpty o' \<and> rleft a < rright o' \<and>
     rtop a < rbottom o' \<and> rright a > rleft o' \<and> rbottom a > rtop o'"

definition Intersection :: "rect \<Rightarrow> rect \<Rightarrow> rect option" where
  "Intersection a o' =
     (if IntersectsWithRect a o'
      then Some (TRect (max (rleft a) (rleft o')) (max (rtop a) (rtop o'))
                       (min (rright a) (rright o')) (min (rbottom a) (rbottom o')))
      else None)"

definition IntersectionOrEmpty :: "rect \<Rightarrow> rect \<Rightarrow> rect" where
  "IntersectionOrEmpty a o' = (case Intersection a o' of Some r \<Rightarrow> r | None \<Rightarrow> TRect_default)"

definition Cutout :: "rect \<Rightarrow> rect \<Rightarrow> rect option" where
  "Cutout a o' =
     (if IsEmpty a then None
      else
        if rleft o' \<le> rleft a \<and> rright o' \<ge> rright a \<and> rtop o' \<le> rtop a \<and> rbottom o' \<ge> rbottom a
        then None
        else if rleft o' \<le> rleft a \<and> rright o' \<ge> rright a \<and> rtop o' \<le> rtop a \<and> rbottom o' > rtop a
        then Some (MakeLTRB (rleft a) (rbottom o') (rright a) (rbottom a))
        else if rleft o' \<le> rleft a \<and> rright o' \<ge> rright a \<and> rbottom o' \<ge> rbottom a \<and> rtop o' < rbottom a
        then Some (MakeLTRB (rleft a) (rtop a) (rright a) (rtop o'))
        else if rtop o' \<le> rtop a \<and> rbottom o' \<ge> rbottom a \<and> rleft o' \<le> rleft a \<and> rright o' > rleft a
        then Some (MakeLTRB (rright o') (rtop a) (rright a) (rbottom a))
        else if rtop o' \<le> rtop a \<and> rbottom o' \<ge> rbottom a \<and> rright o' \<ge> rright a \<and> rleft o' < rright a
        then Some (MakeLTRB (rleft a) (rtop a) (rleft o') (rbottom a))
        else Some a)"

definition CutoutOrEmpty :: "rect \<Rightarrow> rect \<Rightarrow> rect" where
  "CutoutOrEmpty a o' = (case Cutout a o' of Some r \<Rightarrow> r | None \<Rightarrow> TRect_default)"

definition Shift :: "int \<Rightarrow> int \<Rightarrow> rect \<Rightarrow> rect result" where
  "Shift dx dy a =
     rbind (sat_Add (rleft a) dx) (\<lambda>l. rbind (sat_Add (rtop a) dy) (\<lambda>t.
     rbind (sat_Add (rright a) dx) (\<lambda>r. rbind (sat_Add (rbottom a) dy) (\<lambda>b.
       Inr (TRect l t r b)))))"

definition ShiftPoint :: "point \<Rightarrow> rect \<Rightarrow> rect result" where
  "ShiftPoint offset a = Shift (px offset) (py offset) a"

definition ExpandLTRB :: "int \<Rightarrow> int \<Rightarrow> int \<Rightarrow> int \<Rightarrow> rect \<Rightarrow> rect result" where
  "ExpandLTRB el et er eb a =
     rbind (sat_Sub (rleft a) el) (\<lambda>l. rbind (sat_Sub (rtop a) et) (\<lambda>t.
     rbind (sat_Add (rright a) er) (\<lambda>r. rbind (sat_Add (rbottom a) eb) (\<lambda>b.
       Inr (TRect l t r b)))))"

definition Expand :: "int \<Rightarrow> rect \<Rightarrow> rect result" where
  "Expand amount a =
     rbind (sat_Sub (rleft a) amount) (\<lambda>l. rbind (sat_Sub (rtop a) amount) (\<lambda>t.
     rbind (sat_Add (rright a) amount) (\<lambda>r. rbind (sat_Add (rbottom a) amount) (\<lambda>b.
       Inr (TRect l t r b)))))"

definition ExpandHV :: "int \<Rightarrow> int \<Rightarrow> rect \<Rightarrow> rect result" where
  "ExpandHV horizontal vertical a =
     rbind (sat_Sub (rleft a) horizontal) (\<lambda>l. rbind (sat_Sub (rtop a) vertical) (\<lambda>t.
     rbind (sat_Add (rright a) horizontal) (\<lambda>r. rbind (sat_Add (rbottom a) vertical) (\<lambda>b.
       Inr (TRect l t r b)))))"

definition ExpandPoint :: "point \<Rightarrow> rect \<Rightarrow> rect result" where
  "ExpandPoint amount a = ExpandHV (px amount) (py amount) a"

definition ExpandSize :: "size \<Rightarrow> rect \<Rightarrow> rect result" where
  "ExpandSize amount a = ExpandHV (width amount) (height amount) a"

text \<open>The static variants on optional rectangles.\<close>

definition UnionRO :: "rect \<Rightarrow> rect option \<Rightarrow> rect" where
  "UnionRO a b = (case b of Some b' \<Rightarrow> Union a b' | None \<Rightarrow> a)"

definition UnionOR :: "rect option \<Rightarrow> rect \<Rightarrow> rect" where
  "UnionOR a b = (case a of Some a' \<Rightarrow> Union a' b | None \<Rightarrow> b)"

definition UnionOO :: "rect option \<Rightarrow> rect option \<Rightarrow> rect option" where
  "UnionOO a b = (case a of Some a' \<Rightarrow> Some (UnionRO a' b) | None \<Rightarrow> b)"

definition IntersectionRO :: "rect \<Rightarrow> rect option \<Rightarrow> rect option" where
  "IntersectionRO a b = (case b of Some b' \<Rightarrow> Intersection a b' | None \<Rightarrow> Some a)"

definition IntersectionOR :: "rect option \<Rightarrow> rect \<Rightarrow> rect option" where
  "IntersectionOR a b = (case a of Some a' \<Rightarrow> Intersection a' b | None \<Rightarrow> Some b)"

definition IntersectionOO :: "rect option \<Rightarrow> rect option \<Rightarrow> rect option" where
  "IntersectionOO a b = (case a of Some a' \<Rightarrow> IntersectionRO a' b | None \<Rightarrow> b)"

subsection \<open>Rectangles as sets of points\<close>

definition points_of :: "rect \<Rightarrow> point set" where
  "points_of a = {p. Contains a p}"

lemma Contains_TRect [simp]:
  "Contains (TRect l t r b) p \<longleftrightarrow> l \<le> px p \<and> px p < r \<and> t \<le> py p \<and> py p < b"
  by (auto simp: Contains_def IsEmpty_def TRect_def)

lemma Contains_iff:
  "Contains a p \<longleftrightarrow> rleft a \<le> px p \<and> px p < rright a \<and> rtop a \<le> py p \<and> py p < rbottom a"
  by (auto simp: Contains_def IsEmpty_def)

lemma empty_points: "IsEmpty a \<longleftrightarrow> (\<forall>p. \<not> Contains a p)"
proof
  assume "\<forall>p. \<not> Contains a p"
  then have "\<not> Contains a \<lparr>px = rleft a, py = rtop a\<rparr>" by blast
  then show "IsEmpty a" by (auto simp: Contains_iff IsEmpty_def)
qed (auto simp: Contains_def)

lemma ContainsRect_points:
  assumes "\<not> IsEmpty a"
  shows "ContainsRect a c \<longleftrightarrow> (\<forall>p. Contains c p \<longrightarrow> Contains a p)"
proof
  assume sub: "\<forall>p. Contains c p \<longrightarrow> Contains a p"
  show "ContainsRect a c"
  proof (cases "IsEmpty c")
    case False
    have "Contains c \<lparr>px = rleft c, py = rtop c\<rparr>"
      "Contains c \<lparr>px = rright c - 1, py = rbottom c - 1\<rparr>"
      using False by (auto simp: Contains_iff IsEmpty_def)
    with sub have "Contains a \<lparr>px = rleft c, py = rtop c\<rparr>"
      "Contains a \<lparr>px = rright c - 1, py = rbottom c - 1\<rparr>" by blast+
    then show ?thesis using assms by (auto simp: ContainsRect_def Contains_iff)
  qed (use assms in \<open>simp add: ContainsRect_def\<close>)
qed (auto simp: ContainsRect_def Contains_iff IsEmpty_def)

subsection \<open>Properties\<close>

text \<open>
  On \<open>int64_t\<close> values the saturated operations never overflow: they return the exact
  result clamped to the range of the type.
\<close>

theorem saturated_is_clamped:
  assumes "i64_ok a" and "i64_ok b"
  shows "sat_Add a b = Inr (clamp64 (a + b)) \<and> sat_Sub a b = Inr (clamp64 (a - b))"
  using assms by (simp add: sat_Add_clamp sat_Sub_clamp)

theorem saturated_is_clamped_witness:
  "sat_Add i64_max 1 = Inr i64_max \<and> sat_Sub i64_min 1 = Inr i64_min"
  using saturated_is_clamped [of i64_max 1] saturated_is_clamped [of i64_min 1]
  by (simp add: clamp64_def i64_defs)

text \<open>
  \<open>Intersection\<close> is the intersection of the point sets: it is absent exactly when the
  rectangles have no common point, and otherwise contains exactly the common points.
\<close>

theorem intersection_points:
  "case Intersection a b of
     None \<Rightarrow> points_of a \<inter> points_of b = {}
   | Some r \<Rightarrow> points_of r = points_of a \<inter> points_of b \<and> points_of r \<noteq> {}"
proof (cases "IntersectsWithRect a b")
  case True
  let ?r = "TRect (max (rleft a) (rleft b)) (max (rtop a) (rtop b))
      (min (rright a) (rright b)) (min (rbottom a) (rbottom b))"
  have "Contains ?r \<lparr>px = max (rleft a) (rleft b), py = max (rtop a) (rtop b)\<rparr>"
    using True by (auto simp: IntersectsWithRect_def IsEmpty_def)
  then have "points_of ?r \<noteq> {}" unfolding points_of_def by blast
  moreover have "points_of ?r = points_of a \<inter> points_of b"
    by (auto simp: points_of_def Contains_iff [of a] Contains_iff [of b])
  ultimately show ?thesis using True by (simp add: Intersection_def)
next
  case False
  then show ?thesis
    by (auto simp: Intersection_def points_of_def Contains_iff IntersectsWithRect_def IsEmpty_def)
qed

text \<open>
  \<open>Union\<close> is the least rectangle around two rectangles: it contains the points of both,
  and every rectangle that contains both contains it.
\<close>

theorem union_is_least:
  "points_of a \<union> points_of b \<subseteq> points_of (Union a b) \<and>
   (\<forall>c. ContainsRect c a \<and> ContainsRect c b \<longrightarrow> ContainsRect c (Union a b))"
  by (auto simp: Union_def points_of_def Contains_iff ContainsRect_def IsEmpty_def TRect_def)

theorem union_is_least_witness:
  "ContainsRect (MakeLTRB 0 0 30 30) (Union (MakeLTRB 0 0 10 10) (MakeLTRB 20 20 30 30))"
proof -
  have "ContainsRect (MakeLTRB 0 0 30 30) (MakeLTRB 0 0 10 10)"
    "ContainsRect (MakeLTRB 0 0 30 30) (MakeLTRB 20 20 30 30)"
    by (simp_all add: ContainsRect_def MakeLTRB_def TRect_def IsEmpty_def)
  then show ?thesis using union_is_least by blast
qed

text \<open>An edge of \<open>a\<close> that \<open>b\<close> does not cover as a whole has a corner outside \<open>b\<close>.\<close>

lemma uncovered_edge:
  assumes ne: "\<not> IsEmpty a" and sub: "points_of a - points_of b \<subseteq> points_of c"
  shows "\<not> (rtop b \<le> rtop a \<and> rbottom a \<le> rbottom b \<and> rleft b \<le> rleft a \<and> rleft a < rright b) \<Longrightarrow>
           rleft c \<le> rleft a"
    and "\<not> (rtop b \<le> rtop a \<and> rbottom a \<le> rbottom b \<and> rright a \<le> rright b \<and> rleft b < rright a) \<Longrightarrow>
           rright a \<le> rright c"
    and "\<not> (rleft b \<le> rleft a \<and> rright a \<le> rright b \<and> rtop b \<le> rtop a \<and> rtop a < rbottom b) \<Longrightarrow>
           rtop c \<le> rtop a"
    and "\<not> (rleft b \<le> rleft a \<and> rright a \<le> rright b \<and> rbottom a \<le> rbottom b \<and> rtop b < rbottom a) \<Longrightarrow>
           rbottom a \<le> rbottom c"
proof -
  have in_c: "Contains b p \<or> Contains c p" if "Contains a p" for p
    using that sub by (auto simp: points_of_def)
  have e: "rleft a < rright a" "rtop a < rbottom a" using ne by (auto simp: IsEmpty_def)
  have c1: "Contains b \<lparr>px = rleft a, py = rtop a\<rparr> \<or> Contains c \<lparr>px = rleft a, py = rtop a\<rparr>"
    by (rule in_c) (use e in \<open>simp add: Contains_iff\<close>)
  have c2: "Contains b \<lparr>px = rleft a, py = rbottom a - 1\<rparr> \<or>
      Contains c \<lparr>px = rleft a, py = rbottom a - 1\<rparr>"
    by (rule in_c) (use e in \<open>simp add: Contains_iff\<close>)
  have c3: "Contains b \<lparr>px = rright a - 1, py = rtop a\<rparr> \<or>
      Contains c \<lparr>px = rright a - 1, py = rtop a\<rparr>"
    by (rule in_c) (use e in \<open>simp add: Contains_iff\<close>)
  have c4: "Contains b \<lparr>px = rright a - 1, py = rbottom a - 1\<rparr> \<or>
      Contains c \<lparr>px = rright a - 1, py = rbottom a - 1\<rparr>"
    by (rule in_c) (use e in \<open>simp add: Contains_iff\<close>)
  show "rleft c \<le> rleft a"
    if "\<not> (rtop b \<le> rtop a \<and> rbottom a \<le> rbottom b \<and> rleft b \<le> rleft a \<and> rleft a < rright b)"
    using that c1 c2 by (auto simp: Contains_iff)
  show "rright a \<le> rright c"
    if "\<not> (rtop b \<le> rtop a \<and> rbottom a \<le> rbottom b \<and> rright a \<le> rright b \<and> rleft b < rright a)"
    using that c3 c4 by (auto simp: Contains_iff)
  show "rtop c \<le> rtop a"
    if "\<not> (rleft b \<le> rleft a \<and> rright a \<le> rright b \<and> rtop b \<le> rtop a \<and> rtop a < rbottom b)"
    using that c1 c3 by (auto simp: Contains_iff)
  show "rbottom a \<le> rbottom c"
    if "\<not> (rleft b \<le> rleft a \<and> rright a \<le> rright b \<and> rbottom a \<le> rbottom b \<and> rtop b < rbottom a)"
    using that c2 c4 by (auto simp: Contains_iff)
qed

lemma points_cut:
  assumes "\<And>p. Contains r p \<longleftrightarrow> Contains a p \<and> \<not> Contains b p"
  shows "points_of r = points_of a - points_of b"
  using assms by (auto simp: points_of_def)

lemma Cutout_cases:
  assumes ne: "\<not> IsEmpty a"
  shows "(Cutout a b = None \<and> points_of a - points_of b = {}) \<or>
    (\<exists>r. Cutout a b = Some r \<and> points_of r = points_of a - points_of b) \<or>
    (Cutout a b = Some a \<and>
     \<not> (rtop b \<le> rtop a \<and> rbottom a \<le> rbottom b \<and> rleft b \<le> rleft a \<and> rleft a < rright b) \<and>
     \<not> (rtop b \<le> rtop a \<and> rbottom a \<le> rbottom b \<and> rright a \<le> rright b \<and> rleft b < rright a) \<and>
     \<not> (rleft b \<le> rleft a \<and> rright a \<le> rright b \<and> rtop b \<le> rtop a \<and> rtop a < rbottom b) \<and>
     \<not> (rleft b \<le> rleft a \<and> rright a \<le> rright b \<and> rbottom a \<le> rbottom b \<and> rtop b < rbottom a))"
proof -
  let ?h = "rleft b \<le> rleft a \<and> rright b \<ge> rright a"
  let ?v = "rtop b \<le> rtop a \<and> rbottom b \<ge> rbottom a"
  consider (full) "?h \<and> ?v" | (top) "?h \<and> \<not> ?v \<and> rtop b \<le> rtop a \<and> rbottom b > rtop a"
    | (bottom) "?h \<and> \<not> ?v \<and> rbottom b \<ge> rbottom a \<and> rtop b < rbottom a"
    | (left) "?v \<and> \<not> ?h \<and> rleft b \<le> rleft a \<and> rright b > rleft a"
    | (right) "?v \<and> \<not> ?h \<and> rright b \<ge> rright a \<and> rleft b < rright a"
    | (none) "\<not> (?h \<and> ?v)" "\<not> (?h \<and> rtop b \<le> rtop a \<and> rbottom b > rtop a)"
        "\<not> (?h \<and> rbottom b \<ge> rbottom a \<and> rtop b < rbottom a)"
        "\<not> (?v \<and> rleft b \<le> rleft a \<and> rright b > rleft a)"
        "\<not> (?v \<and> rright b \<ge> rright a \<and> rleft b < rright a)"
    by argo
  then show ?thesis
  proof cases
    case full
    then have "Cutout a b = None" using ne by (simp add: Cutout_def)
    moreover have "points_of a - points_of b = {}" using full by (auto simp: points_of_def Contains_iff)
    ultimately show ?thesis by blast
  next
    case top
    then have "Cutout a b = Some (TRect (rleft a) (rbottom b) (rright a) (rbottom a))"
      using ne by (auto simp: Cutout_def MakeLTRB_def)
    moreover have "points_of (TRect (rleft a) (rbottom b) (rright a) (rbottom a)) =
        points_of a - points_of b"
      by (rule points_cut) (use top in \<open>auto simp: Contains_iff [of a] Contains_iff [of b]\<close>)
    ultimately show ?thesis by blast
  next
    case bottom
    then have "Cutout a b = Some (TRect (rleft a) (rtop a) (rright a) (rtop b))"
      using ne by (auto simp: Cutout_def MakeLTRB_def IsEmpty_def)
    moreover have "points_of (TRect (rleft a) (rtop a) (rright a) (rtop b)) =
        points_of a - points_of b"
      by (rule points_cut) (use bottom in \<open>auto simp: Contains_iff [of a] Contains_iff [of b]\<close>)
    ultimately show ?thesis by blast
  next
    case left
    then have "Cutout a b = Some (TRect (rright b) (rtop a) (rright a) (rbottom a))"
      using ne by (auto simp: Cutout_def MakeLTRB_def)
    moreover have "points_of (TRect (rright b) (rtop a) (rright a) (rbottom a)) =
        points_of a - points_of b"
      by (rule points_cut) (use left in \<open>auto simp: Contains_iff [of a] Contains_iff [of b]\<close>)
    ultimately show ?thesis by blast
  next
    case right
    then have "Cutout a b = Some (TRect (rleft a) (rtop a) (rleft b) (rbottom a))"
      using ne by (auto simp: Cutout_def MakeLTRB_def IsEmpty_def)
    moreover have "points_of (TRect (rleft a) (rtop a) (rleft b) (rbottom a)) =
        points_of a - points_of b"
      by (rule points_cut) (use right in \<open>auto simp: Contains_iff [of a] Contains_iff [of b]\<close>)
    ultimately show ?thesis by blast
  next
    case none
    then have "Cutout a b = Some a" using ne by (auto simp: Cutout_def)
    with none show ?thesis by blast
  qed
qed

text \<open>A rectangle that leaves no point of another covers it on all four sides.\<close>

lemma nothing_left_covers:
  assumes ne: "\<not> IsEmpty a" and empty: "points_of a - points_of b = {}"
  shows "rleft b \<le> rleft a \<and> rright a \<le> rright b \<and> rtop b \<le> rtop a \<and> rbottom a \<le> rbottom b"
proof -
  have e: "rleft a < rright a" "rtop a < rbottom a" using ne by (auto simp: IsEmpty_def)
  have in_b: "Contains b p" if "Contains a p" for p :: point
  proof -
    have "p \<in> points_of a" using that by (simp add: points_of_def)
    then have "p \<in> points_of b" using empty by blast
    then show ?thesis by (simp add: points_of_def)
  qed
  have "Contains b \<lparr>px = rleft a, py = rtop a\<rparr>"
    "Contains b \<lparr>px = rright a - 1, py = rbottom a - 1\<rparr>"
    by (rule in_b, use e in \<open>simp add: Contains_iff\<close>)+
  then show ?thesis by (simp add: Contains_iff)
qed

lemma Cutout_None_iff: "Cutout a b = None \<longleftrightarrow> points_of a - points_of b = {}"
proof (cases "IsEmpty a")
  case True
  then show ?thesis by (simp add: Cutout_def points_of_def empty_points)
next
  case False
  show ?thesis
  proof
    assume "points_of a - points_of b = {}"
    from nothing_left_covers [OF False this] show "Cutout a b = None" using False by (simp add: Cutout_def)
  qed (use False in \<open>auto simp: Cutout_def points_of_def Contains_iff Let_def split: if_splits\<close>)
qed

text \<open>
  C12: \<open>Cutout\<close> returns the bounding box of what is left of a rectangle: it is absent exactly
  when nothing is left, it contains every remaining point, and it lies in every rectangle
  that does.
\<close>

theorem cutout_is_bounding_box:
  "case Cutout a b of
     None \<Rightarrow> points_of a - points_of b = {}
   | Some r \<Rightarrow> points_of a - points_of b \<noteq> {} \<and>
       points_of a - points_of b \<subseteq> points_of r \<and> points_of r \<subseteq> points_of a \<and>
       (\<forall>c. points_of a - points_of b \<subseteq> points_of c \<longrightarrow> points_of r \<subseteq> points_of c)"
proof (cases "IsEmpty a")
  case True
  then show ?thesis by (simp add: Cutout_def points_of_def empty_points)
next
  case False
  have edges: "points_of a \<subseteq> points_of c" if "points_of a - points_of b \<subseteq> points_of c"
    "\<not> (rtop b \<le> rtop a \<and> rbottom a \<le> rbottom b \<and> rleft b \<le> rleft a \<and> rleft a < rright b)"
    "\<not> (rtop b \<le> rtop a \<and> rbottom a \<le> rbottom b \<and> rright a \<le> rright b \<and> rleft b < rright a)"
    "\<not> (rleft b \<le> rleft a \<and> rright a \<le> rright b \<and> rtop b \<le> rtop a \<and> rtop a < rbottom b)"
    "\<not> (rleft b \<le> rleft a \<and> rright a \<le> rright b \<and> rbottom a \<le> rbottom b \<and> rtop b < rbottom a)" for c
  proof -
    note e = uncovered_edge(1) [OF False that(1,2)] uncovered_edge(2) [OF False that(1,3)]
      uncovered_edge(3) [OF False that(1,4)] uncovered_edge(4) [OF False that(1,5)]
    show ?thesis using e by (auto simp: points_of_def Contains_iff)
  qed
  from Cutout_cases [OF False, of b] show ?thesis
  proof (elim disjE exE conjE)
    fix r assume "Cutout a b = Some r" "points_of r = points_of a - points_of b"
    then show ?thesis using Cutout_None_iff [of a b] by auto
  next
    assume c: "Cutout a b = Some a" and uncovered:
      "\<not> (rtop b \<le> rtop a \<and> rbottom a \<le> rbottom b \<and> rleft b \<le> rleft a \<and> rleft a < rright b)"
      "\<not> (rtop b \<le> rtop a \<and> rbottom a \<le> rbottom b \<and> rright a \<le> rright b \<and> rleft b < rright a)"
      "\<not> (rleft b \<le> rleft a \<and> rright a \<le> rright b \<and> rtop b \<le> rtop a \<and> rtop a < rbottom b)"
      "\<not> (rleft b \<le> rleft a \<and> rright a \<le> rright b \<and> rbottom a \<le> rbottom b \<and> rtop b < rbottom a)"
    have "points_of a - points_of b \<noteq> {}" using c Cutout_None_iff [of a b] by simp
    then show ?thesis using edges [OF _ uncovered] c by auto
  qed auto
qed

theorem cutout_is_bounding_box_witness:
  "points_of (MakeLTRB 0 5 10 10) \<subseteq> points_of (MakeLTRB 0 0 10 10)"
  using cutout_is_bounding_box [of "MakeLTRB 0 0 10 10" "MakeLTRB 0 0 10 5"]
  by (simp add: Cutout_def MakeLTRB_def TRect_def IsEmpty_def)

text \<open>
  When no edge saturates, shifting a rectangle shifts its points, and shifting back
  restores it; expanding by an amount and then by its negative restores it too.
\<close>

theorem shift_and_expand_invert:
  assumes "\<forall>n \<in> {rleft a + dx, rtop a + dy, rright a + dx, rbottom a + dy, dx, dy, - dx, - dy,
                 rleft a, rtop a, rright a, rbottom a, rleft a - dx, rtop a - dy}. i64_ok n"
  shows "(\<exists>r. Shift dx dy a = Inr r \<and> Shift (- dx) (- dy) r = Inr a \<and>
              (\<forall>p. Contains r p \<longleftrightarrow> Contains a \<lparr>px = px p - dx, py = py p - dy\<rparr>)) \<and>
         (\<exists>r. ExpandHV dx dy a = Inr r \<and> ExpandHV (- dx) (- dy) r = Inr a)"
proof -
  have "Shift dx dy a = Inr (TRect (rleft a + dx) (rtop a + dy) (rright a + dx) (rbottom a + dy))"
    "Shift (- dx) (- dy) (TRect (rleft a + dx) (rtop a + dy) (rright a + dx) (rbottom a + dy)) =
      Inr a"
    using assms by (simp_all add: Shift_def sat_Add_clamp clamp64_id TRect_def)
  moreover have
    "ExpandHV dx dy a = Inr (TRect (rleft a - dx) (rtop a - dy) (rright a + dx) (rbottom a + dy))"
    "ExpandHV (- dx) (- dy) (TRect (rleft a - dx) (rtop a - dy) (rright a + dx) (rbottom a + dy)) =
      Inr a"
    using assms by (simp_all add: ExpandHV_def sat_Add_clamp sat_Sub_clamp clamp64_id TRect_def)
  moreover have "Contains (TRect (rleft a + dx) (rtop a + dy) (rright a + dx) (rbottom a + dy)) p
      \<longleftrightarrow> Contains a \<lparr>px = px p - dx, py = py p - dy\<rparr>" for p
    by (auto simp: Contains_iff [of a])
  ultimately show ?thesis by blast
qed

theorem shift_and_expand_invert_witness:
  "\<exists>r. Shift 5 7 (MakeLTRB 0 0 10 10) = Inr r \<and> Shift (- 5) (- 7) r = Inr (MakeLTRB 0 0 10 10)"
proof -
  have "\<forall>n \<in> {rleft (MakeLTRB 0 0 10 10) + 5, rtop (MakeLTRB 0 0 10 10) + 7,
      rright (MakeLTRB 0 0 10 10) + 5, rbottom (MakeLTRB 0 0 10 10) + 7, 5, 7, - 5, - 7,
      rleft (MakeLTRB 0 0 10 10), rtop (MakeLTRB 0 0 10 10), rright (MakeLTRB 0 0 10 10),
      rbottom (MakeLTRB 0 0 10 10), rleft (MakeLTRB 0 0 10 10) - 5,
      rtop (MakeLTRB 0 0 10 10) - 7}. i64_ok n"
    by (simp add: MakeLTRB_def TRect_def i64_defs)
  from shift_and_expand_invert [OF this] show ?thesis by blast
qed

text \<open>
  \<open>IsSquare\<close> subtracts its edges without saturation: on the maximum rectangle, which the unit
  test asks about for floating point, the integer instance overflows.
\<close>

lemma is_square_overflows: "IsSquare MakeMaximum = Inl Undefined_Behaviour"
  by (simp add: IsSquare_def MakeMaximum_def MakeLTRB_def TRect_def IsEmpty_def i64_checked_def
      i64_defs)

text \<open>
  The class comment says the optional variants treat an absent rectangle as an empty one, but
  intersecting with an absent rectangle returns the other one.
\<close>

lemma intersection_with_absent:
  "IntersectionRO a None = Some a \<and> Intersection a TRect_default = None"
  by (simp add: IntersectionRO_def Intersection_def IntersectsWithRect_def TRect_default_def
      TRect_def IsEmpty_def)

end
