(* ===== verification/Rational.thy ===== *)
theory Rational
  imports Prelude
begin

text \<open>
  \<^verbatim>\<open>src/geometry/rational.{h,cc}\<close>: a fraction of an \<open>int32_t\<close> and a \<open>uint32_t\<close>.

  The numerator is an \<open>int\<close> in the range of \<open>int32_t\<close>, the denominator a 32-bit word, so the
  products of the comparisons wrap as they do in the code. \<open>std::abs\<close> of the least \<open>int32_t\<close>
  is undefined.
\<close>

record rational =
  num :: int
  den :: u32

definition i32_ok :: "int \<Rightarrow> bool" where
  "i32_ok n \<longleftrightarrow> - (2 ^ 31) \<le> n \<and> n < 2 ^ 31"

definition i32_abs :: "int \<Rightarrow> int result" where
  "i32_abs x = rbind (guard Undefined_Behaviour (i32_ok \<bar>x\<bar>)) (\<lambda>_. Inr \<bar>x\<bar>)"

definition AbsToUnsigned :: "int \<Rightarrow> u32 result" where
  "AbsToUnsigned x = rbind (i32_abs x) (\<lambda>a. Inr (word_of_int a))"

definition rational_of_int :: "int \<Rightarrow> rational" where
  "rational_of_int n = \<lparr>num = n, den = 1\<rparr>"

definition rational_equal :: "rational \<Rightarrow> rational \<Rightarrow> bool result" where
  "rational_equal a that =
     (if den a = den that then Inr (num a = num that)
      else if (num a \<ge> 0) \<noteq> (num that \<ge> 0) then Inr False
      else
        rbind (AbsToUnsigned (num a)) (\<lambda>x.
        rbind (AbsToUnsigned (num that)) (\<lambda>y. Inr (x * den that = y * den a))))"

definition rational_less :: "rational \<Rightarrow> rational \<Rightarrow> bool result" where
  "rational_less a that =
     (if den a = den that then Inr (num a < num that)
      else if (num a \<ge> 0) \<noteq> (num that \<ge> 0) then Inr (num a < num that)
      else
        rbind (AbsToUnsigned (num a)) (\<lambda>x.
        rbind (AbsToUnsigned (num that)) (\<lambda>y. Inr (x * den that < y * den a))))"

text \<open>
  \<open>GetHash\<close>: the quotient \<open>num_ / gcd\<close> is computed in \<open>uint64_t\<close>, so a negative numerator is
  sign-extended first.
\<close>

definition GetHash :: "rational \<Rightarrow> u64 result" where
  "GetHash a =
     (if num a = 0 then Inr 0
      else
        rbind (i32_abs (num a)) (\<lambda>n.
          let g = word_of_int (gcd n (uint (den a))) :: u64
          in Inr (push_bit 32 (word_of_int (num a) div g) OR (ucast (den a) div g))))"

definition Invert :: "rational \<Rightarrow> rational result" where
  "Invert a =
     (if num a \<ge> 0 then Inr \<lparr>num = sint (den a), den = word_of_int (num a)\<rparr>
      else
        rbind (guard Undefined_Behaviour (i32_ok (- sint (den a)))) (\<lambda>_.
        rbind (i32_abs (num a)) (\<lambda>n. Inr \<lparr>num = - sint (den a), den = word_of_int n\<rparr>)))"

subsection \<open>Properties\<close>

text \<open>The cross product of the absolute values does not leave 32 bits.\<close>

definition fits :: "rational \<Rightarrow> rational \<Rightarrow> bool" where
  "fits a b \<longleftrightarrow> \<bar>num a\<bar> * uint (den b) < 2 ^ 32 \<and> i32_ok (num a) \<and> i32_ok \<bar>num a\<bar>"

lemma AbsToUnsigned_mult:
  assumes "fits a b"
  shows "\<exists>x. AbsToUnsigned (num a) = Inr x \<and> uint (x * den b) = \<bar>num a\<bar> * uint (den b)"
proof -
  have r: "0 \<le> \<bar>num a\<bar>" "\<bar>num a\<bar> < 2 ^ 32" using assms by (auto simp: fits_def i32_ok_def)
  have "uint (word_of_int \<bar>num a\<bar> :: u32) = \<bar>num a\<bar>"
    using r by (simp add: uint_word_of_int)
  then have "uint (word_of_int \<bar>num a\<bar> * den b) = \<bar>num a\<bar> * uint (den b)"
    using assms r by (simp add: uint_word_ariths fits_def)
  then show ?thesis using assms by (simp add: AbsToUnsigned_def i32_abs_def fits_def)
qed

text \<open>
  As long as the cross products fit in 32 bits, equality is equality of the fractions, and
  the order is the order of the fractions unless both are negative.
\<close>

theorem rational_comparison:
  assumes "fits a b" and "fits b a" and "0 < uint (den a)" and "0 < uint (den b)"
  shows "rational_equal a b = Inr (num a * uint (den b) = num b * uint (den a)) \<and>
         (0 \<le> num a \<or> 0 \<le> num b \<longrightarrow>
            rational_less a b = Inr (num a * uint (den b) < num b * uint (den a)))"
proof -
  from AbsToUnsigned_mult [OF assms(1)] AbsToUnsigned_mult [OF assms(2)] obtain x y
    where xy: "AbsToUnsigned (num a) = Inr x" "AbsToUnsigned (num b) = Inr y"
      "uint (x * den b) = \<bar>num a\<bar> * uint (den b)" "uint (y * den a) = \<bar>num b\<bar> * uint (den a)"
    by blast
  have sign: "(num a * uint (den b) \<ge> 0) = (num a \<ge> 0)" "(num b * uint (den a) \<ge> 0) = (num b \<ge> 0)"
    using assms(3,4) by (simp_all add: zero_le_mult_iff)
  have eq: "rational_equal a b = Inr (num a * uint (den b) = num b * uint (den a))"
  proof (cases "den a = den b")
    case True
    then show ?thesis using assms(4) by (simp add: rational_equal_def)
  next
    case False
    show ?thesis
    proof (cases "(num a \<ge> 0) = (num b \<ge> 0)")
      case True
      then have "(\<bar>num a\<bar> * uint (den b) = \<bar>num b\<bar> * uint (den a)) =
          (num a * uint (den b) = num b * uint (den a))"
        by (cases "num a \<ge> 0") simp_all
      then show ?thesis using True False xy
        by (simp add: rational_equal_def word_uint_eq_iff)
    next
      case False
      then show ?thesis using \<open>den a \<noteq> den b\<close> sign by (auto simp: rational_equal_def)
    qed
  qed
  have less: "rational_less a b = Inr (num a * uint (den b) < num b * uint (den a))"
    if "0 \<le> num a \<or> 0 \<le> num b"
  proof (cases "den a = den b")
    case True
    then show ?thesis using assms(4) by (simp add: rational_less_def)
  next
    case False
    show ?thesis
    proof (cases "(num a \<ge> 0) = (num b \<ge> 0)")
      case True
      then show ?thesis using that False xy by (simp add: rational_less_def word_less_def)
    next
      case False
      then have "(num a * uint (den b) < num b * uint (den a)) = (num a < num b)"
        using sign by (cases "num a \<ge> 0") linarith+
      then show ?thesis using \<open>den a \<noteq> den b\<close> False by (auto simp: rational_less_def)
    qed
  qed
  from eq less show ?thesis by blast
qed

theorem rational_comparison_witness:
  "rational_less \<lparr>num = 1, den = 3\<rparr> \<lparr>num = 1, den = 2\<rparr> = Inr True"
  using rational_comparison [of "\<lparr>num = 1, den = 3\<rparr>" "\<lparr>num = 1, den = 2\<rparr>"]
  by (simp add: fits_def i32_ok_def)

text \<open>Two negative fractions are ordered by their absolute values, that is the wrong way round.\<close>

lemma negative_order_reversed:
  "rational_less \<lparr>num = - 1, den = 2\<rparr> \<lparr>num = - 1, den = 3\<rparr> = Inr False"
  "rational_less \<lparr>num = - 1, den = 3\<rparr> \<lparr>num = - 1, den = 2\<rparr> = Inr True"
  by (simp_all add: rational_less_def AbsToUnsigned_def i32_abs_def i32_ok_def)

text \<open>Equal negative fractions can have different hashes.\<close>

lemma equal_but_different_hash:
  "rational_equal \<lparr>num = - 1, den = 1\<rparr> \<lparr>num = - 3, den = 3\<rparr> = Inr True"
  "GetHash \<lparr>num = - 1, den = 1\<rparr> \<noteq> GetHash \<lparr>num = - 3, den = 3\<rparr>"
  by (simp_all add: rational_equal_def GetHash_def AbsToUnsigned_def i32_abs_def i32_ok_def
      mask_eq_exp_minus_1)

end
