(* ===== verification/Formats.thy ===== *)
theory Formats
  imports Prelude Codecs Rect
begin

text \<open>
  \<^verbatim>\<open>src/core/formats.{h,cc}\<close>, \<^verbatim>\<open>src/base/mask.h\<close>, \<^verbatim>\<open>texture_descriptor.{h,cc}\<close>,
  \<^verbatim>\<open>sampler_descriptor.{h,cc}\<close>, \<^verbatim>\<open>range.h\<close>, \<^verbatim>\<open>buffer_view.{h,cc}\<close>, \<^verbatim>\<open>vertex_buffer.h\<close>,
  \<^verbatim>\<open>device_buffer_descriptor.h\<close> and \<^verbatim>\<open>shader_types.h\<close>: the vocabulary of the renderer.

  An \<open>enum class\<close> is a datatype with the constructors of the source and \<open>val_\<close> of it its
  underlying value; a mask is a word. The switches have no default case, so a value outside
  the enumeration, which the code answers with \<open>LOG(FATAL)\<close>, does not exist in the model.
  \<open>std::hash\<close> of an integral or enumeration value is the argument \<open>h\<close> of the hash functions.
\<close>

subsection \<open>Enumerations\<close>

datatype WindingOrder = kClockwise | kCounterClockwise

datatype StorageMode = kHostVisible | kDevicePrivate | kDeviceTransient

datatype PixelFormat = kUnknown | kA8UNormInt | kR8UNormInt | kR8G8UNormInt | kR8G8B8A8UNormInt
    | kR8G8B8A8UNormIntSRGB | kB8G8R8A8UNormInt | kB8G8R8A8UNormIntSRGB | kR32G32B32A32Float
    | kR16G16B16A16Float | kB10G10R10XR | kB10G10R10XRSRGB | kB10G10R10A10XR | kR32Float
    | kS8UInt | kD24UnormS8Uint | kD32FloatS8UInt

datatype BlendFactor = kZero | kOne | kSourceColor | kOneMinusSourceColor | kSourceAlpha
    | kOneMinusSourceAlpha | kDestinationColor | kOneMinusDestinationColor | kDestinationAlpha
    | kOneMinusDestinationAlpha | kSourceAlphaSaturated | kBlendColor | kOneMinusBlendColor
    | kBlendAlpha | kOneMinusBlendAlpha

datatype BlendOperation = kAdd | kSubtract | kReverseSubtract

datatype LoadAction = kDontCare | kLoad | kClear

datatype StoreAction = kDontCare | kStore | kMultisampleResolve | kStoreAndMultisampleResolve

datatype TextureType = kTexture2D | kTexture2DMultisample | kTextureCube | kTextureExternalOES

datatype SampleCount = kCount1 | kCount4

datatype TextureUsage = kUnknown | kShaderRead | kShaderWrite | kRenderTarget

datatype TextureCoordinateSystem = kUploadFromHost | kRenderToTexture

datatype CullMode = kNone | kFrontFace | kBackFace

datatype IndexType = kUnknown | k16bit | k32bit | kNone

datatype PrimitiveType = kTriangle | kTriangleStrip | kLine | kLineStrip | kPoint | kTriangleFan

datatype PolygonMode = kFill | kLine

datatype MinMagFilter = kNearest | kLinear

datatype MipFilter = kBase | kNearest | kLinear

datatype SamplerAddressMode = kClampToEdge | kRepeat | kMirror | kDecal

datatype ColorWriteMaskBits = kNone | kRed | kGreen | kBlue | kAlpha | kAll

datatype CompareFunction = kNever | kAlways | kLess | kEqual | kLessEqual | kGreater | kNotEqual
    | kGreaterEqual

datatype StencilOperation = kKeep | kZero | kSetToReferenceValue | kIncrementClamp
    | kDecrementClamp | kInvert | kIncrementWrap | kDecrementWrap

datatype CompressionType = kLossless | kLossy

datatype ShaderStage = kUnknown | kVertex | kFragment | kCompute

datatype ShaderType = kUnknown | kVoid | kBoolean | kSignedByte | kUnsignedByte | kSignedShort
    | kUnsignedShort | kSignedInt | kUnsignedInt | kSignedInt64 | kUnsignedInt64
    | kAtomicCounter | kHalfFloat | kFloat | kDouble | kStruct | kImage | kSampledImage
    | kSampler

datatype ShaderFloatType = kFloat | kVec2 | kVec3 | kVec4 | kMat2 | kMat3 | kMat4

datatype DescriptorType = kSampler | kSampledImage | kImage | kUniformBuffer | kStorageBuffer
    | kInputAttachment

subsection \<open>Underlying values\<close>

fun val_PixelFormat :: "PixelFormat \<Rightarrow> nat" where
  "val_PixelFormat PixelFormat.kUnknown = 0"
| "val_PixelFormat PixelFormat.kA8UNormInt = 1"
| "val_PixelFormat PixelFormat.kR8UNormInt = 2"
| "val_PixelFormat PixelFormat.kR8G8UNormInt = 3"
| "val_PixelFormat PixelFormat.kR8G8B8A8UNormInt = 4"
| "val_PixelFormat PixelFormat.kR8G8B8A8UNormIntSRGB = 5"
| "val_PixelFormat PixelFormat.kB8G8R8A8UNormInt = 6"
| "val_PixelFormat PixelFormat.kB8G8R8A8UNormIntSRGB = 7"
| "val_PixelFormat PixelFormat.kR32G32B32A32Float = 8"
| "val_PixelFormat PixelFormat.kR16G16B16A16Float = 9"
| "val_PixelFormat PixelFormat.kB10G10R10XR = 10"
| "val_PixelFormat PixelFormat.kB10G10R10XRSRGB = 11"
| "val_PixelFormat PixelFormat.kB10G10R10A10XR = 12"
| "val_PixelFormat PixelFormat.kR32Float = 13"
| "val_PixelFormat PixelFormat.kS8UInt = 14"
| "val_PixelFormat PixelFormat.kD24UnormS8Uint = 15"
| "val_PixelFormat PixelFormat.kD32FloatS8UInt = 16"

fun val_BlendFactor :: "BlendFactor \<Rightarrow> nat" where
  "val_BlendFactor BlendFactor.kZero = 0"
| "val_BlendFactor BlendFactor.kOne = 1"
| "val_BlendFactor BlendFactor.kSourceColor = 2"
| "val_BlendFactor BlendFactor.kOneMinusSourceColor = 3"
| "val_BlendFactor BlendFactor.kSourceAlpha = 4"
| "val_BlendFactor BlendFactor.kOneMinusSourceAlpha = 5"
| "val_BlendFactor BlendFactor.kDestinationColor = 6"
| "val_BlendFactor BlendFactor.kOneMinusDestinationColor = 7"
| "val_BlendFactor BlendFactor.kDestinationAlpha = 8"
| "val_BlendFactor BlendFactor.kOneMinusDestinationAlpha = 9"
| "val_BlendFactor BlendFactor.kSourceAlphaSaturated = 10"
| "val_BlendFactor BlendFactor.kBlendColor = 11"
| "val_BlendFactor BlendFactor.kOneMinusBlendColor = 12"
| "val_BlendFactor BlendFactor.kBlendAlpha = 13"
| "val_BlendFactor BlendFactor.kOneMinusBlendAlpha = 14"

fun val_BlendOperation :: "BlendOperation \<Rightarrow> nat" where
  "val_BlendOperation BlendOperation.kAdd = 0"
| "val_BlendOperation BlendOperation.kSubtract = 1"
| "val_BlendOperation BlendOperation.kReverseSubtract = 2"

fun val_MinMagFilter :: "MinMagFilter \<Rightarrow> nat" where
  "val_MinMagFilter MinMagFilter.kNearest = 0"
| "val_MinMagFilter MinMagFilter.kLinear = 1"

fun val_MipFilter :: "MipFilter \<Rightarrow> nat" where
  "val_MipFilter MipFilter.kBase = 0"
| "val_MipFilter MipFilter.kNearest = 1"
| "val_MipFilter MipFilter.kLinear = 2"

fun val_SamplerAddressMode :: "SamplerAddressMode \<Rightarrow> nat" where
  "val_SamplerAddressMode SamplerAddressMode.kClampToEdge = 0"
| "val_SamplerAddressMode SamplerAddressMode.kRepeat = 1"
| "val_SamplerAddressMode SamplerAddressMode.kMirror = 2"
| "val_SamplerAddressMode SamplerAddressMode.kDecal = 3"

fun val_CompareFunction :: "CompareFunction \<Rightarrow> nat" where
  "val_CompareFunction CompareFunction.kNever = 0"
| "val_CompareFunction CompareFunction.kAlways = 1"
| "val_CompareFunction CompareFunction.kLess = 2"
| "val_CompareFunction CompareFunction.kEqual = 3"
| "val_CompareFunction CompareFunction.kLessEqual = 4"
| "val_CompareFunction CompareFunction.kGreater = 5"
| "val_CompareFunction CompareFunction.kNotEqual = 6"
| "val_CompareFunction CompareFunction.kGreaterEqual = 7"

fun val_StencilOperation :: "StencilOperation \<Rightarrow> nat" where
  "val_StencilOperation StencilOperation.kKeep = 0"
| "val_StencilOperation StencilOperation.kZero = 1"
| "val_StencilOperation StencilOperation.kSetToReferenceValue = 2"
| "val_StencilOperation StencilOperation.kIncrementClamp = 3"
| "val_StencilOperation StencilOperation.kDecrementClamp = 4"
| "val_StencilOperation StencilOperation.kInvert = 5"
| "val_StencilOperation StencilOperation.kIncrementWrap = 6"
| "val_StencilOperation StencilOperation.kDecrementWrap = 7"

fun val_ShaderType :: "ShaderType \<Rightarrow> nat" where
  "val_ShaderType ShaderType.kUnknown = 0"
| "val_ShaderType ShaderType.kVoid = 1"
| "val_ShaderType ShaderType.kBoolean = 2"
| "val_ShaderType ShaderType.kSignedByte = 3"
| "val_ShaderType ShaderType.kUnsignedByte = 4"
| "val_ShaderType ShaderType.kSignedShort = 5"
| "val_ShaderType ShaderType.kUnsignedShort = 6"
| "val_ShaderType ShaderType.kSignedInt = 7"
| "val_ShaderType ShaderType.kUnsignedInt = 8"
| "val_ShaderType ShaderType.kSignedInt64 = 9"
| "val_ShaderType ShaderType.kUnsignedInt64 = 10"
| "val_ShaderType ShaderType.kAtomicCounter = 11"
| "val_ShaderType ShaderType.kHalfFloat = 12"
| "val_ShaderType ShaderType.kFloat = 13"
| "val_ShaderType ShaderType.kDouble = 14"
| "val_ShaderType ShaderType.kStruct = 15"
| "val_ShaderType ShaderType.kImage = 16"
| "val_ShaderType ShaderType.kSampledImage = 17"
| "val_ShaderType ShaderType.kSampler = 18"

fun val_SampleCount :: "SampleCount \<Rightarrow> nat" where
  "val_SampleCount SampleCount.kCount1 = 1"
| "val_SampleCount SampleCount.kCount4 = 4"

fun val_TextureUsage :: "TextureUsage \<Rightarrow> nat" where
  "val_TextureUsage TextureUsage.kUnknown = 0"
| "val_TextureUsage TextureUsage.kShaderRead = 1"
| "val_TextureUsage TextureUsage.kShaderWrite = 2"
| "val_TextureUsage TextureUsage.kRenderTarget = 4"

fun val_ColorWriteMaskBits :: "ColorWriteMaskBits \<Rightarrow> nat" where
  "val_ColorWriteMaskBits ColorWriteMaskBits.kNone = 0"
| "val_ColorWriteMaskBits ColorWriteMaskBits.kRed = 1"
| "val_ColorWriteMaskBits ColorWriteMaskBits.kGreen = 2"
| "val_ColorWriteMaskBits ColorWriteMaskBits.kBlue = 4"
| "val_ColorWriteMaskBits ColorWriteMaskBits.kAlpha = 8"
| "val_ColorWriteMaskBits ColorWriteMaskBits.kAll = 15"

fun val_DescriptorType :: "DescriptorType \<Rightarrow> nat" where
  "val_DescriptorType DescriptorType.kSampler = 0"
| "val_DescriptorType DescriptorType.kSampledImage = 1"
| "val_DescriptorType DescriptorType.kImage = 2"
| "val_DescriptorType DescriptorType.kUniformBuffer = 6"
| "val_DescriptorType DescriptorType.kStorageBuffer = 7"
| "val_DescriptorType DescriptorType.kInputAttachment = 10"

subsection \<open>Names\<close>

fun StorageModeToString :: "StorageMode \<Rightarrow> string" where
  "StorageModeToString StorageMode.kHostVisible = ''HostVisible''"
| "StorageModeToString StorageMode.kDevicePrivate = ''DevicePrivate''"
| "StorageModeToString StorageMode.kDeviceTransient = ''DeviceTransient''"

fun PixelFormatToString :: "PixelFormat \<Rightarrow> string" where
  "PixelFormatToString PixelFormat.kUnknown = ''Unknown''"
| "PixelFormatToString PixelFormat.kA8UNormInt = ''A8UNormInt''"
| "PixelFormatToString PixelFormat.kR8UNormInt = ''R8UNormInt''"
| "PixelFormatToString PixelFormat.kR8G8UNormInt = ''R8G8UNormInt''"
| "PixelFormatToString PixelFormat.kR8G8B8A8UNormInt = ''R8G8B8A8UNormInt''"
| "PixelFormatToString PixelFormat.kR8G8B8A8UNormIntSRGB = ''R8G8B8A8UNormIntSRGB''"
| "PixelFormatToString PixelFormat.kB8G8R8A8UNormInt = ''B8G8R8A8UNormInt''"
| "PixelFormatToString PixelFormat.kB8G8R8A8UNormIntSRGB = ''B8G8R8A8UNormIntSRGB''"
| "PixelFormatToString PixelFormat.kR32G32B32A32Float = ''R32G32B32A32Float''"
| "PixelFormatToString PixelFormat.kR16G16B16A16Float = ''R16G16B16A16Float''"
| "PixelFormatToString PixelFormat.kB10G10R10XR = ''B10G10R10XR''"
| "PixelFormatToString PixelFormat.kB10G10R10XRSRGB = ''B10G10R10XRSRGB''"
| "PixelFormatToString PixelFormat.kB10G10R10A10XR = ''B10G10R10A10XR''"
| "PixelFormatToString PixelFormat.kS8UInt = ''S8UInt''"
| "PixelFormatToString PixelFormat.kD24UnormS8Uint = ''D24UnormS8Uint''"
| "PixelFormatToString PixelFormat.kD32FloatS8UInt = ''D32FloatS8UInt''"
| "PixelFormatToString PixelFormat.kR32Float = ''R32Float''"

fun LoadActionToString :: "LoadAction \<Rightarrow> string" where
  "LoadActionToString LoadAction.kDontCare = ''DontCare''"
| "LoadActionToString LoadAction.kLoad = ''Load''"
| "LoadActionToString LoadAction.kClear = ''Clear''"

fun StoreActionToString :: "StoreAction \<Rightarrow> string" where
  "StoreActionToString StoreAction.kDontCare = ''DontCare''"
| "StoreActionToString StoreAction.kStore = ''Store''"
| "StoreActionToString StoreAction.kMultisampleResolve = ''MultisampleResolve''"
| "StoreActionToString StoreAction.kStoreAndMultisampleResolve = ''StoreAndMultisampleResolve''"

fun TextureTypeToString :: "TextureType \<Rightarrow> string" where
  "TextureTypeToString TextureType.kTexture2D = ''Texture2D''"
| "TextureTypeToString TextureType.kTexture2DMultisample = ''Texture2DMultisample''"
| "TextureTypeToString TextureType.kTextureCube = ''TextureCube''"
| "TextureTypeToString TextureType.kTextureExternalOES = ''TextureExternalOES''"

fun TextureUsageToString :: "TextureUsage \<Rightarrow> string" where
  "TextureUsageToString TextureUsage.kUnknown = ''Unknown''"
| "TextureUsageToString TextureUsage.kShaderRead = ''ShaderRead''"
| "TextureUsageToString TextureUsage.kShaderWrite = ''ShaderWrite''"
| "TextureUsageToString TextureUsage.kRenderTarget = ''RenderTarget''"

fun CompressionTypeToString :: "CompressionType \<Rightarrow> string" where
  "CompressionTypeToString CompressionType.kLossless = ''Lossless''"
| "CompressionTypeToString CompressionType.kLossy = ''Lossy''"

subsection \<open>Classification\<close>

fun IsDepthWritable :: "PixelFormat \<Rightarrow> bool" where
  "IsDepthWritable PixelFormat.kUnknown = False"
| "IsDepthWritable PixelFormat.kA8UNormInt = False"
| "IsDepthWritable PixelFormat.kR8UNormInt = False"
| "IsDepthWritable PixelFormat.kR8G8UNormInt = False"
| "IsDepthWritable PixelFormat.kR8G8B8A8UNormInt = False"
| "IsDepthWritable PixelFormat.kR8G8B8A8UNormIntSRGB = False"
| "IsDepthWritable PixelFormat.kB8G8R8A8UNormInt = False"
| "IsDepthWritable PixelFormat.kB8G8R8A8UNormIntSRGB = False"
| "IsDepthWritable PixelFormat.kR32G32B32A32Float = False"
| "IsDepthWritable PixelFormat.kR16G16B16A16Float = False"
| "IsDepthWritable PixelFormat.kB10G10R10XR = False"
| "IsDepthWritable PixelFormat.kB10G10R10XRSRGB = False"
| "IsDepthWritable PixelFormat.kB10G10R10A10XR = False"
| "IsDepthWritable PixelFormat.kR32Float = False"
| "IsDepthWritable PixelFormat.kS8UInt = False"
| "IsDepthWritable PixelFormat.kD24UnormS8Uint = True"
| "IsDepthWritable PixelFormat.kD32FloatS8UInt = True"

fun IsStencilWritable :: "PixelFormat \<Rightarrow> bool" where
  "IsStencilWritable PixelFormat.kUnknown = False"
| "IsStencilWritable PixelFormat.kA8UNormInt = False"
| "IsStencilWritable PixelFormat.kR8UNormInt = False"
| "IsStencilWritable PixelFormat.kR8G8UNormInt = False"
| "IsStencilWritable PixelFormat.kR8G8B8A8UNormInt = False"
| "IsStencilWritable PixelFormat.kR8G8B8A8UNormIntSRGB = False"
| "IsStencilWritable PixelFormat.kB8G8R8A8UNormInt = False"
| "IsStencilWritable PixelFormat.kB8G8R8A8UNormIntSRGB = False"
| "IsStencilWritable PixelFormat.kR32G32B32A32Float = False"
| "IsStencilWritable PixelFormat.kR16G16B16A16Float = False"
| "IsStencilWritable PixelFormat.kB10G10R10XR = False"
| "IsStencilWritable PixelFormat.kB10G10R10XRSRGB = False"
| "IsStencilWritable PixelFormat.kB10G10R10A10XR = False"
| "IsStencilWritable PixelFormat.kR32Float = False"
| "IsStencilWritable PixelFormat.kS8UInt = True"
| "IsStencilWritable PixelFormat.kD24UnormS8Uint = True"
| "IsStencilWritable PixelFormat.kD32FloatS8UInt = True"

fun CanClearAttachment :: "LoadAction \<Rightarrow> bool" where
  "CanClearAttachment LoadAction.kDontCare = True"
| "CanClearAttachment LoadAction.kLoad = False"
| "CanClearAttachment LoadAction.kClear = True"

fun CanDiscardAttachmentWhenDone :: "StoreAction \<Rightarrow> bool" where
  "CanDiscardAttachmentWhenDone StoreAction.kDontCare = True"
| "CanDiscardAttachmentWhenDone StoreAction.kStore = False"
| "CanDiscardAttachmentWhenDone StoreAction.kMultisampleResolve = True"
| "CanDiscardAttachmentWhenDone StoreAction.kStoreAndMultisampleResolve = False"

fun IsMultisampleCapable :: "TextureType \<Rightarrow> bool" where
  "IsMultisampleCapable TextureType.kTexture2D = False"
| "IsMultisampleCapable TextureType.kTexture2DMultisample = True"
| "IsMultisampleCapable TextureType.kTextureCube = False"
| "IsMultisampleCapable TextureType.kTextureExternalOES = False"

fun BytesPerPixelForPixelFormat :: "PixelFormat \<Rightarrow> nat" where
  "BytesPerPixelForPixelFormat PixelFormat.kUnknown = 0"
| "BytesPerPixelForPixelFormat PixelFormat.kA8UNormInt = 1"
| "BytesPerPixelForPixelFormat PixelFormat.kR8UNormInt = 1"
| "BytesPerPixelForPixelFormat PixelFormat.kS8UInt = 1"
| "BytesPerPixelForPixelFormat PixelFormat.kR8G8UNormInt = 2"
| "BytesPerPixelForPixelFormat PixelFormat.kR8G8B8A8UNormInt = 4"
| "BytesPerPixelForPixelFormat PixelFormat.kR8G8B8A8UNormIntSRGB = 4"
| "BytesPerPixelForPixelFormat PixelFormat.kB8G8R8A8UNormInt = 4"
| "BytesPerPixelForPixelFormat PixelFormat.kB8G8R8A8UNormIntSRGB = 4"
| "BytesPerPixelForPixelFormat PixelFormat.kB10G10R10XRSRGB = 4"
| "BytesPerPixelForPixelFormat PixelFormat.kB10G10R10XR = 4"
| "BytesPerPixelForPixelFormat PixelFormat.kR32Float = 4"
| "BytesPerPixelForPixelFormat PixelFormat.kD24UnormS8Uint = 4"
| "BytesPerPixelForPixelFormat PixelFormat.kD32FloatS8UInt = 5"
| "BytesPerPixelForPixelFormat PixelFormat.kR16G16B16A16Float = 8"
| "BytesPerPixelForPixelFormat PixelFormat.kB10G10R10A10XR = 8"
| "BytesPerPixelForPixelFormat PixelFormat.kR32G32B32A32Float = 16"

end
