(* ===== verification/Descriptors.thy ===== *)
theory Descriptors
  imports Formats
begin

text \<open>
  The descriptor structures built from the enumerations of \<open>Formats\<close>, with their equality, hash
  and size functions: \<^verbatim>\<open>src/core/formats.h\<close>, \<^verbatim>\<open>formats.cc\<close>, \<^verbatim>\<open>texture_descriptor.h\<close>,
  \<^verbatim>\<open>sampler_descriptor.h\<close>, \<^verbatim>\<open>range.h\<close>, \<^verbatim>\<open>buffer_view.cc\<close>, \<^verbatim>\<open>vertex_buffer.h\<close>,
  \<^verbatim>\<open>shader_types.h\<close> and \<^verbatim>\<open>src/base/mask.h\<close>.

  A buffer is a number (its address). A mip count is assumed to fit the \<open>unsigned\<close> counter of
  the loop over the levels.
\<close>

subsection \<open>Mask\<close>

type_synonym mask32 = u32
type_synonym mask64 = u64

definition mask_of :: "nat \<Rightarrow> 'a::len word" where "mask_of v = of_nat v"
definition mask_to_bool :: "'a::len word \<Rightarrow> bool" where "mask_to_bool a \<longleftrightarrow> a \<noteq> 0"
definition mask_not :: "'a::len word \<Rightarrow> bool" where "mask_not a \<longleftrightarrow> a = 0"
definition mask_and :: "'a::len word \<Rightarrow> 'a word \<Rightarrow> 'a word" where "mask_and a b = a AND b"
definition mask_or :: "'a::len word \<Rightarrow> 'a word \<Rightarrow> 'a word" where "mask_or a b = a OR b"
definition mask_xor :: "'a::len word \<Rightarrow> 'a word \<Rightarrow> 'a word" where "mask_xor a b = a XOR b"
definition mask_compl :: "'a::len word \<Rightarrow> 'a word" where "mask_compl a = NOT a"

fun stream_usages :: "TextureUsage list \<Rightarrow> string" where
  "stream_usages [] = []"
| "stream_usages [u] = TextureUsageToString u"
| "stream_usages (u # v # us) = TextureUsageToString u @ '', '' @ stream_usages (v # us)"

definition usages_of :: "mask32 \<Rightarrow> TextureUsage list" where
  "usages_of m =
     (if mask_to_bool (mask_and m (mask_of (val_TextureUsage kShaderRead)))
      then [kShaderRead] else []) @
     (if mask_to_bool (mask_and m (mask_of (val_TextureUsage kShaderWrite)))
      then [kShaderWrite] else []) @
     (if mask_to_bool (mask_and m (mask_of (val_TextureUsage kRenderTarget)))
      then [kRenderTarget] else [])"

definition TextureUsageMaskToString :: "mask32 \<Rightarrow> string" where
  "TextureUsageMaskToString m = ''{ '' @ stream_usages (usages_of m) @ '' }''"

subsection \<open>Attachment descriptors\<close>

record color_attachment_descriptor =
  cad_format :: PixelFormat
  blending_enabled :: bool
  src_color_blend_factor :: BlendFactor
  color_blend_op :: BlendOperation
  dst_color_blend_factor :: BlendFactor
  src_alpha_blend_factor :: BlendFactor
  alpha_blend_op :: BlendOperation
  dst_alpha_blend_factor :: BlendFactor
  cad_write_mask :: mask64

definition default_color_attachment_descriptor :: color_attachment_descriptor where
  "default_color_attachment_descriptor =
     \<lparr>cad_format = PixelFormat.kUnknown, blending_enabled = False,
      src_color_blend_factor = kSourceAlpha, color_blend_op = kAdd,
      dst_color_blend_factor = kOneMinusSourceAlpha, src_alpha_blend_factor = kSourceAlpha,
      alpha_blend_op = kAdd, dst_alpha_blend_factor = kOneMinusSourceAlpha,
      cad_write_mask = mask_of (val_ColorWriteMaskBits kAll)\<rparr>"

definition cad_equal :: "color_attachment_descriptor \<Rightarrow> color_attachment_descriptor \<Rightarrow> bool" where
  "cad_equal a b \<longleftrightarrow> cad_format a = cad_format b \<and> blending_enabled a = blending_enabled b \<and>
     src_color_blend_factor a = src_color_blend_factor b \<and>
     color_blend_op a = color_blend_op b \<and>
     dst_color_blend_factor a = dst_color_blend_factor b \<and>
     src_alpha_blend_factor a = src_alpha_blend_factor b \<and>
     alpha_blend_op a = alpha_blend_op b \<and>
     dst_alpha_blend_factor a = dst_alpha_blend_factor b \<and> cad_write_mask a = cad_write_mask b"

definition cad_Hash :: "(nat \<Rightarrow> u64) \<Rightarrow> color_attachment_descriptor \<Rightarrow> u64" where
  "cad_Hash h a =
     HashCombine
       [h (val_PixelFormat (cad_format a)), h (of_bool (blending_enabled a)),
        h (val_BlendFactor (src_color_blend_factor a)), h (val_BlendOperation (color_blend_op a)),
        h (val_BlendFactor (dst_color_blend_factor a)),
        h (val_BlendFactor (src_alpha_blend_factor a)), h (val_BlendOperation (alpha_blend_op a)),
        h (val_BlendFactor (dst_alpha_blend_factor a)), h (unat (cad_write_mask a))]"

record depth_attachment_descriptor =
  depth_compare :: CompareFunction
  depth_write_enabled :: bool

definition dad_equal :: "depth_attachment_descriptor \<Rightarrow> depth_attachment_descriptor \<Rightarrow> bool" where
  "dad_equal a b \<longleftrightarrow> depth_compare a = depth_compare b \<and>
     depth_write_enabled a = depth_write_enabled b"

definition dad_GetHash :: "(nat \<Rightarrow> u64) \<Rightarrow> depth_attachment_descriptor \<Rightarrow> u64" where
  "dad_GetHash h a =
     HashCombine [h (val_CompareFunction (depth_compare a)), h (of_bool (depth_write_enabled a))]"

record stencil_attachment_descriptor =
  stencil_compare :: CompareFunction
  stencil_failure :: StencilOperation
  depth_failure :: StencilOperation
  depth_stencil_pass :: StencilOperation
  read_mask :: u32
  sad_write_mask :: u32

definition default_stencil_attachment_descriptor :: stencil_attachment_descriptor where
  "default_stencil_attachment_descriptor =
     \<lparr>stencil_compare = kAlways, stencil_failure = kKeep, depth_failure = kKeep,
      depth_stencil_pass = kKeep, read_mask = NOT 0, sad_write_mask = NOT 0\<rparr>"

definition sad_equal :: "stencil_attachment_descriptor \<Rightarrow> stencil_attachment_descriptor \<Rightarrow> bool"
where
  "sad_equal a b \<longleftrightarrow> stencil_compare a = stencil_compare b \<and>
     stencil_failure a = stencil_failure b \<and> depth_failure a = depth_failure b \<and>
     depth_stencil_pass a = depth_stencil_pass b \<and> read_mask a = read_mask b \<and>
     sad_write_mask a = sad_write_mask b"

definition sad_GetHash :: "(nat \<Rightarrow> u64) \<Rightarrow> stencil_attachment_descriptor \<Rightarrow> u64" where
  "sad_GetHash h a =
     HashCombine
       [h (val_CompareFunction (stencil_compare a)), h (val_StencilOperation (stencil_failure a)),
        h (val_StencilOperation (depth_failure a)), h (val_StencilOperation (depth_stencil_pass a)),
        h (unat (read_mask a)), h (unat (sad_write_mask a))]"

subsection \<open>Samplers\<close>

record sampler_descriptor =
  min_filter :: MinMagFilter
  mag_filter :: MinMagFilter
  mip_filter :: MipFilter
  width_address_mode :: SamplerAddressMode
  height_address_mode :: SamplerAddressMode
  depth_address_mode :: SamplerAddressMode
  sampler_label :: string

definition default_sampler_descriptor :: sampler_descriptor where
  "default_sampler_descriptor =
     \<lparr>min_filter = MinMagFilter.kNearest, mag_filter = MinMagFilter.kNearest,
      mip_filter = MipFilter.kNearest, width_address_mode = kClampToEdge,
      height_address_mode = kClampToEdge, depth_address_mode = kClampToEdge,
      sampler_label = ''NN Clamp Sampler''\<rparr>"

definition SamplerDescriptor ::
  "string \<Rightarrow> MinMagFilter \<Rightarrow> MinMagFilter \<Rightarrow> MipFilter \<Rightarrow> sampler_descriptor"
where
  "SamplerDescriptor label minf magf mipf =
     default_sampler_descriptor\<lparr>min_filter := minf, mag_filter := magf, mip_filter := mipf,
       sampler_label := label\<rparr>"

definition ToKey :: "sampler_descriptor \<Rightarrow> u64" where
  "ToKey d =
     push_bit 0 (of_nat (val_MinMagFilter (min_filter d))) OR
     push_bit 8 (of_nat (val_MinMagFilter (mag_filter d))) OR
     push_bit 16 (of_nat (val_MipFilter (mip_filter d))) OR
     push_bit 24 (of_nat (val_SamplerAddressMode (width_address_mode d))) OR
     push_bit 32 (of_nat (val_SamplerAddressMode (height_address_mode d))) OR
     push_bit 40 (of_nat (val_SamplerAddressMode (depth_address_mode d)))"

subsection \<open>Textures\<close>

record texture_descriptor =
  storage_mode :: StorageMode
  texture_type :: TextureType
  format :: PixelFormat
  tex_size :: size
  mip_count :: nat
  usage :: mask32
  sample_count :: SampleCount
  compression_type :: CompressionType

definition default_texture_descriptor :: texture_descriptor where
  "default_texture_descriptor =
     \<lparr>storage_mode = kDeviceTransient, texture_type = kTexture2D, format = PixelFormat.kUnknown,
      tex_size = \<lparr>width = 0, height = 0\<rparr>, mip_count = 1,
      usage = mask_of (val_TextureUsage kShaderRead), sample_count = kCount1,
      compression_type = kLossless\<rparr>"

definition SamplingOptionsAreValid :: "texture_descriptor \<Rightarrow> bool" where
  "SamplingOptionsAreValid d =
     (let count = val_SampleCount (sample_count d)
      in if IsMultisampleCapable (texture_type d) then count > 1 else count = 1)"

definition td_IsValid :: "texture_descriptor \<Rightarrow> bool" where
  "td_IsValid d \<longleftrightarrow> format d \<noteq> PixelFormat.kUnknown \<and> \<not> size_IsEmpty (tex_size d) \<and>
     mip_count d \<ge> 1 \<and> SamplingOptionsAreValid d"

text \<open>The product of an \<open>int64_t\<close> area and a \<open>size_t\<close> is computed in \<open>size_t\<close>.\<close>

definition level_bytes :: "PixelFormat \<Rightarrow> int \<Rightarrow> int \<Rightarrow> u64 result" where
  "level_bytes f w h =
     rbind (Area \<lparr>width = w, height = h\<rparr>) (\<lambda>area.
       Inr (word_of_int area * of_nat (BytesPerPixelForPixelFormat f)))"

definition GetByteSizeOfBaseMipLevel :: "texture_descriptor \<Rightarrow> u64 result" where
  "GetByteSizeOfBaseMipLevel d =
     (if \<not> td_IsValid d then Inr 0
      else level_bytes (format d) (width (tex_size d)) (height (tex_size d)))"

fun sum_levels :: "PixelFormat \<Rightarrow> nat \<Rightarrow> int \<Rightarrow> int \<Rightarrow> u64 \<Rightarrow> u64 result" where
  "sum_levels f 0 w h acc = Inr acc"
| "sum_levels f (Suc n) w h acc =
     rbind (level_bytes f w h) (\<lambda>b. sum_levels f n (cdiv w 2) (cdiv h 2) (acc + b))"

definition GetByteSizeOfAllMipLevels :: "texture_descriptor \<Rightarrow> u64 result" where
  "GetByteSizeOfAllMipLevels d =
     (if \<not> td_IsValid d then Inr 0
      else sum_levels (format d) (mip_count d) (width (tex_size d)) (height (tex_size d)) 0)"

definition GetBytesPerRow :: "texture_descriptor \<Rightarrow> u64" where
  "GetBytesPerRow d =
     (if \<not> td_IsValid d then 0
      else word_of_int (width (tex_size d)) * of_nat (BytesPerPixelForPixelFormat (format d)))"

subsection \<open>Ranges and buffer views\<close>

record range =
  roffset :: u64
  rlength :: u64

definition range_equal :: "range \<Rightarrow> range \<Rightarrow> bool" where
  "range_equal a b \<longleftrightarrow> roffset a = roffset b \<and> rlength a = rlength b"

definition range_Merge :: "range \<Rightarrow> range \<Rightarrow> range" where
  "range_Merge a other =
     (if rlength other = 0 then a
      else if rlength a = 0 then other
      else
        let end_offset = max (roffset a + rlength a) (roffset other + rlength other);
            start_offset = min (roffset a) (roffset other)
        in \<lparr>roffset = start_offset, rlength = end_offset - start_offset\<rparr>)"

record buffer_view =
  bv_buffer :: "nat option"      \<comment> \<open>owning pointer\<close>
  raw_buffer :: "nat option"     \<comment> \<open>borrowed pointer\<close>
  bv_range :: range

definition BufferView_empty :: buffer_view where
  "BufferView_empty = \<lparr>bv_buffer = None, raw_buffer = None, bv_range = \<lparr>roffset = 0, rlength = 0\<rparr>\<rparr>"

definition BufferView_raw :: "nat option \<Rightarrow> range \<Rightarrow> buffer_view" where
  "BufferView_raw b r = \<lparr>bv_buffer = None, raw_buffer = b, bv_range = r\<rparr>"

definition BufferView_shared :: "nat option \<Rightarrow> range \<Rightarrow> buffer_view" where
  "BufferView_shared b r = \<lparr>bv_buffer = b, raw_buffer = None, bv_range = r\<rparr>"

definition bv_GetBuffer :: "buffer_view \<Rightarrow> nat option" where
  "bv_GetBuffer v = (if raw_buffer v \<noteq> None then raw_buffer v else bv_buffer v)"

definition bv_TakeBuffer :: "buffer_view \<Rightarrow> nat option \<times> buffer_view" where
  "bv_TakeBuffer v =
     (if bv_buffer v \<noteq> None
      then (bv_buffer v, v\<lparr>raw_buffer := bv_buffer v, bv_buffer := None\<rparr>)
      else (None, v))"

definition bv_to_bool :: "buffer_view \<Rightarrow> bool" where
  "bv_to_bool v \<longleftrightarrow> bv_buffer v \<noteq> None \<or> raw_buffer v \<noteq> None"

record vertex_buffer =
  vb_vertex_buffer :: buffer_view
  vb_index_buffer :: buffer_view
  vertex_count :: nat
  index_type :: IndexType

definition vb_to_bool :: "vertex_buffer \<Rightarrow> bool" where
  "vb_to_bool v \<longleftrightarrow> bv_to_bool (vb_vertex_buffer v) \<and>
     (index_type v = IndexType.kNone \<or> bv_to_bool (vb_index_buffer v))"

subsection \<open>Shader interface slots\<close>

text \<open>A name is a \<open>const char*\<close>: it is compared and hashed as a pointer.\<close>

record shader_stage_io_slot =
  io_name :: nat
  io_location :: nat
  io_set :: nat
  io_binding :: nat
  io_type :: ShaderType
  bit_width :: nat
  vec_size :: nat
  columns :: nat
  io_offset :: nat
  relaxed_precision :: bool

definition io_GetHash :: "(nat \<Rightarrow> u64) \<Rightarrow> shader_stage_io_slot \<Rightarrow> u64" where
  "io_GetHash h a =
     HashCombine
       [h (io_name a), h (io_location a), h (io_set a), h (io_binding a),
        h (val_ShaderType (io_type a)), h (bit_width a), h (vec_size a), h (columns a),
        h (io_offset a), h (of_bool (relaxed_precision a))]"

definition io_equal :: "shader_stage_io_slot \<Rightarrow> shader_stage_io_slot \<Rightarrow> bool" where
  "io_equal a b \<longleftrightarrow> io_name a = io_name b \<and> io_location a = io_location b \<and>
     io_set a = io_set b \<and> io_binding a = io_binding b \<and> io_type a = io_type b \<and>
     bit_width a = bit_width b \<and> vec_size a = vec_size b \<and> columns a = columns b \<and>
     io_offset a = io_offset b \<and> relaxed_precision a = relaxed_precision b"

record shader_stage_buffer_layout =
  stride :: nat
  layout_binding :: nat

definition layout_GetHash :: "(nat \<Rightarrow> u64) \<Rightarrow> shader_stage_buffer_layout \<Rightarrow> u64" where
  "layout_GetHash h a = HashCombine [h (stride a), h (layout_binding a)]"

definition layout_equal :: "shader_stage_buffer_layout \<Rightarrow> shader_stage_buffer_layout \<Rightarrow> bool" where
  "layout_equal a b \<longleftrightarrow> stride a = stride b \<and> layout_binding a = layout_binding b"

subsection \<open>Keys of samplers\<close>

lemma val_bounds:
  "val_MinMagFilter x < 256 \<and> val_MipFilter y < 256 \<and> val_SamplerAddressMode z < 256"
  by (cases x; cases y; cases z; simp)

lemma val_inject:
  "val_MinMagFilter a = val_MinMagFilter b \<longleftrightarrow> a = b"
  "val_MipFilter c = val_MipFilter d \<longleftrightarrow> c = d"
  "val_SamplerAddressMode e = val_SamplerAddressMode f \<longleftrightarrow> e = f"
  subgoal by (cases a; cases b; simp)
  subgoal by (cases c; cases d; simp)
  subgoal by (cases e; cases f; simp)
  done

text \<open>A word that is assembled from six bytes.\<close>

definition six_bytes :: "nat list \<Rightarrow> u64" where
  "six_bytes vs =
     push_bit 0 (of_nat (vs ! 0)) OR push_bit 8 (of_nat (vs ! 1)) OR
     push_bit 16 (of_nat (vs ! 2)) OR push_bit 24 (of_nat (vs ! 3)) OR
     push_bit 32 (of_nat (vs ! 4)) OR push_bit 40 (of_nat (vs ! 5))"

lemma bit_small: "v < 256 \<Longrightarrow> bit (of_nat v :: u64) n \<longleftrightarrow> n < 8 \<and> bit v n"
  using small_bits [of v 8 n] by (auto simp: bit_of_nat_iff)

lemma six_bytes_bit:
  assumes v: "\<forall>v \<in> set vs. v < 256" "length vs = 6" and i: "i < 6" "k < 8"
  shows "bit (six_bytes vs) (8 * i + k) = bit (vs ! i) k"
proof -
  have s: "vs ! j < 256" if "j < 6" for j using v that by simp
  note B = bit_small [OF s]
  consider "i = 0" | "i = 1" | "i = 2" | "i = 3" | "i = 4" | "i = 5" using i(1) by linarith
  then show ?thesis
    by cases (use i(2) in \<open>auto simp: six_bytes_def bit_or_iff bit_push_bit_iff B\<close>)
qed

lemma six_bytes_inject:
  assumes "\<forall>v \<in> set vs. v < 256" "length vs = 6" "\<forall>v \<in> set ws. v < 256" "length ws = 6"
    and eq: "six_bytes vs = six_bytes ws"
  shows "vs = ws"
proof (rule nth_equalityI)
  fix i assume "i < length vs"
  then have i: "i < 6" using assms(2) by simp
  show "vs ! i = ws ! i"
  proof (rule bit_eqI)
    fix k
    show "bit (vs ! i) k = bit (ws ! i) k"
    proof (cases "k < 8")
      case True
      then show ?thesis using six_bytes_bit [OF assms(1,2) i] six_bytes_bit [OF assms(3,4) i] eq
        by metis
    next
      case False
      have "vs ! i < 2 ^ 8" "ws ! i < 2 ^ 8" using assms(1-4) i by simp_all
      then show ?thesis using False small_bits by blast
    qed
  qed
qed (use assms in simp)

subsection \<open>Properties\<close>

text \<open>
  C13: The key under which samplers are cached identifies all six fields of a sampler
  descriptor: two descriptors have the same key exactly when they agree up to the label.
\<close>

theorem sampler_key_identifies:
  "ToKey a = ToKey b \<longleftrightarrow>
   min_filter a = min_filter b \<and> mag_filter a = mag_filter b \<and> mip_filter a = mip_filter b \<and>
   width_address_mode a = width_address_mode b \<and>
   height_address_mode a = height_address_mode b \<and>
   depth_address_mode a = depth_address_mode b"
proof -
  define vs :: "sampler_descriptor \<Rightarrow> nat list" where "vs = (\<lambda>d. [val_MinMagFilter (min_filter d), val_MinMagFilter (mag_filter d),
    val_MipFilter (mip_filter d), val_SamplerAddressMode (width_address_mode d),
    val_SamplerAddressMode (height_address_mode d), val_SamplerAddressMode (depth_address_mode d)])"
  have "ToKey d = six_bytes (vs d)" for d
    by (simp add: ToKey_def six_bytes_def vs_def eval_nat_numeral)
  moreover have "\<forall>v \<in> set (vs d). v < 256" "length (vs d) = 6" for d
    using val_bounds by (simp_all add: vs_def)
  ultimately have "ToKey a = ToKey b \<longleftrightarrow> vs a = vs b" using six_bytes_inject by metis
  then show ?thesis by (simp add: vs_def val_inject)
qed

text \<open>
  \<open>Merge\<close> of two ranges that do not wrap around is the smallest range around both: it
  contains every offset of either, and starts and ends where one of them does. An empty range
  is ignored.
\<close>

definition in_range :: "u64 \<Rightarrow> range \<Rightarrow> bool" where
  "in_range x r \<longleftrightarrow> uint (roffset r) \<le> uint x \<and> uint x < uint (roffset r) + uint (rlength r)"

definition range_ok :: "range \<Rightarrow> bool" where
  "range_ok r \<longleftrightarrow> uint (roffset r) + uint (rlength r) < 2 ^ 64"

lemma range_end: "range_ok r \<Longrightarrow> uint (roffset r + rlength r) = uint (roffset r) + uint (rlength r)"
  by (simp add: range_ok_def uint_plus_if')

theorem range_merge_is_hull:
  assumes "range_ok a" and "range_ok b"
  shows "(in_range x a \<or> in_range x b \<longrightarrow> in_range x (range_Merge a b)) \<and>
         range_ok (range_Merge a b) \<and>
         (rlength a \<noteq> 0 \<and> rlength b \<noteq> 0 \<longrightarrow>
            uint (roffset (range_Merge a b)) = min (uint (roffset a)) (uint (roffset b)) \<and>
            uint (roffset (range_Merge a b)) + uint (rlength (range_Merge a b)) =
              max (uint (roffset a) + uint (rlength a)) (uint (roffset b) + uint (rlength b)))"
proof (cases "rlength a = 0 \<or> rlength b = 0")
  case True
  then show ?thesis using assms by (auto simp: range_Merge_def in_range_def)
next
  case False
  let ?e = "max (roffset a + rlength a) (roffset b + rlength b)"
  let ?s = "min (roffset a) (roffset b)"
  have e: "uint ?e = max (uint (roffset a) + uint (rlength a)) (uint (roffset b) + uint (rlength b))"
    using range_end [OF assms(1)] range_end [OF assms(2)]
    by (auto simp: max_def word_le_def)
  have s: "uint ?s = min (uint (roffset a)) (uint (roffset b))"
    by (auto simp: min_def word_le_def)
  have ge: "uint ?s \<le> uint ?e" using uint_ge_0 [of "rlength a"] unfolding e s by linarith
  have m: "range_Merge a b = \<lparr>roffset = ?s, rlength = ?e - ?s\<rparr>"
    using False by (simp add: range_Merge_def Let_def)
  have len: "uint (?e - ?s) = uint ?e - uint ?s"
    using ge by (simp add: uint_sub_if')
  have "uint ?s + (uint ?e - uint ?s) < 2 ^ 64" using uint_lt2p [of ?e] by simp
  then show ?thesis
    unfolding m by (auto simp: in_range_def range_ok_def len e s)
qed

theorem range_merge_is_hull_witness:
  "range_Merge \<lparr>roffset = 0, rlength = 4\<rparr> \<lparr>roffset = 8, rlength = 4\<rparr> = \<lparr>roffset = 0, rlength = 12\<rparr> \<and>
   in_range 9 (range_Merge \<lparr>roffset = 0, rlength = 4\<rparr> \<lparr>roffset = 8, rlength = 4\<rparr>)"
proof -
  have "in_range 9 (range_Merge \<lparr>roffset = 0, rlength = 4\<rparr> \<lparr>roffset = 8, rlength = 4\<rparr>)"
    using range_merge_is_hull [of "\<lparr>roffset = 0, rlength = 4\<rparr>" "\<lparr>roffset = 8, rlength = 4\<rparr>" 9]
    by (simp add: range_ok_def in_range_def)
  then show ?thesis by (simp add: range_Merge_def max_def min_def)
qed

subsection \<open>Sizes of mip chains\<close>

lemma level_bytes_eq:
  assumes "0 \<le> w" "0 \<le> h" "w * h * int (BytesPerPixelForPixelFormat f) < 2 ^ 63"
    and "f \<noteq> PixelFormat.kUnknown"
  shows "\<exists>b. level_bytes f w h = Inr b \<and> uint b = w * h * int (BytesPerPixelForPixelFormat f)"
proof -
  let ?p = "int (BytesPerPixelForPixelFormat f)"
  have p: "1 \<le> ?p" "?p \<le> 16" using assms(4) by (cases f; simp)+
  have a: "0 \<le> w * h" using assms(1,2) by simp
  have le: "w * h \<le> w * h * ?p" using a p(1) by (simp add: mult_le_cancel_left1)
  have ok: "i64_ok (w * h)" using a le assms(3) by (simp add: i64_defs)
  have "uint (word_of_int (w * h) :: u64) = w * h"
    by (rule uint_of_small) (use a le assms(3) in simp_all)
  moreover have "uint (of_nat (BytesPerPixelForPixelFormat f) :: u64) = ?p"
    using p(2) by (simp add: uint_nat unat_of_nat)
  ultimately have "uint (word_of_int (w * h) * of_nat (BytesPerPixelForPixelFormat f) :: u64) =
      w * h * ?p"
    using a p(1) assms(3) by (simp add: uint_word_ariths)
  then show ?thesis using ok by (simp add: level_bytes_def Area_def)
qed

text \<open>The sum over a chain of levels as an integer, with the halving of the code.\<close>

fun chain :: "nat \<Rightarrow> int \<Rightarrow> int \<Rightarrow> int" where
  "chain 0 w h = 0"
| "chain (Suc n) w h = w * h + chain n (w div 2) (h div 2)"

lemma quarter: "0 \<le> (w :: int) \<Longrightarrow> 0 \<le> h \<Longrightarrow> 4 * ((w div 2) * (h div 2)) \<le> w * h"
proof -
  assume "0 \<le> w" "0 \<le> h"
  then have "(2 * (w div 2)) * (2 * (h div 2)) \<le> w * h" by (intro mult_mono) auto
  then show ?thesis by simp
qed

lemma add_quarter:
  "0 \<le> c \<Longrightarrow> 3 * c \<le> 4 * q \<Longrightarrow> 4 * q \<le> a \<Longrightarrow> 0 \<le> a \<Longrightarrow> 0 \<le> a + c \<and> 3 * (a + c) \<le> 4 * a"
  for a c q :: int
  by simp

lemma chain_bounds:
  assumes "0 \<le> w" "0 \<le> h"
  shows "0 \<le> chain n w h \<and> 3 * chain n w h \<le> 4 * (w * h)"
  using assms
proof (induction n arbitrary: w h)
  case (Suc n)
  have "0 \<le> chain n (w div 2) (h div 2)"
    "3 * chain n (w div 2) (h div 2) \<le> 4 * ((w div 2) * (h div 2))"
    using Suc.IH [of "w div 2" "h div 2"] Suc.prems by auto
  moreover have "4 * ((w div 2) * (h div 2)) \<le> w * h" by (rule quarter [OF Suc.prems])
  moreover have "0 \<le> w * h" using Suc.prems by simp
  ultimately show ?case unfolding chain.simps by (rule add_quarter)
qed simp

lemma sum_levels_chain:
  assumes "0 \<le> w" "0 \<le> h" "f \<noteq> PixelFormat.kUnknown"
    and "uint acc + 2 * (w * h * int (BytesPerPixelForPixelFormat f)) < 2 ^ 63"
  shows "\<exists>r. sum_levels f n w h acc = Inr r \<and>
           uint r = uint acc + chain n w h * int (BytesPerPixelForPixelFormat f)"
  using assms
proof (induction n arbitrary: w h acc)
  case (Suc n)
  let ?p = "int (BytesPerPixelForPixelFormat f)"
  have wh: "0 \<le> w * h * ?p" using Suc.prems(1,2) by simp
  have "w * h * ?p < 2 ^ 63" using Suc.prems(4) wh uint_ge_0 [of acc] by linarith
  from level_bytes_eq [OF Suc.prems(1,2) this Suc.prems(3)] obtain b
    where b: "level_bytes f w h = Inr b" "uint b = w * h * ?p" by blast
  have acc: "uint (acc + b) = uint acc + w * h * ?p"
    using b(2) Suc.prems(4) wh by (simp add: uint_plus_if')
  have "4 * ((w div 2) * (h div 2)) * ?p \<le> w * h * ?p"
    using quarter [OF Suc.prems(1,2)] by (intro mult_right_mono) auto
  then have "2 * ((w div 2) * (h div 2) * ?p) \<le> w * h * ?p" using wh by linarith
  then have "uint (acc + b) + 2 * ((w div 2) * (h div 2) * ?p) < 2 ^ 63"
    using acc Suc.prems(4) by linarith
  from Suc.IH [OF _ _ Suc.prems(3) this] Suc.prems(1,2) obtain r
    where r: "sum_levels f n (w div 2) (h div 2) (acc + b) = Inr r"
      "uint r = uint (acc + b) + chain n (w div 2) (h div 2) * ?p" by auto
  have "cdiv w 2 = w div 2" "cdiv h 2 = h div 2" using Suc.prems(1,2) by (simp_all add: cdiv_nonneg)
  then show ?case using b(1) r acc by (auto simp: algebra_simps)
qed simp

text \<open>
  For a valid texture whose base level is not gigantic the size computations do not wrap:
  the base level takes width times height times the bytes of a pixel, and the whole mip chain
  takes at least that and at most four thirds of it, whatever the number of levels.
\<close>

theorem mip_chain_bounds:
  assumes "td_IsValid d"
    and "2 * (width (tex_size d) * height (tex_size d) *
           int (BytesPerPixelForPixelFormat (format d))) < 2 ^ 63"
  shows "\<exists>base all. GetByteSizeOfBaseMipLevel d = Inr base \<and>
           GetByteSizeOfAllMipLevels d = Inr all \<and>
           uint base = width (tex_size d) * height (tex_size d) *
             int (BytesPerPixelForPixelFormat (format d)) \<and>
           uint base \<le> uint all \<and> 3 * uint all \<le> 4 * uint base"
proof -
  let ?w = "width (tex_size d)" and ?h = "height (tex_size d)" and ?f = "format d"
  let ?p = "int (BytesPerPixelForPixelFormat ?f)"
  from assms(1) have v: "?f \<noteq> PixelFormat.kUnknown" "0 \<le> ?w" "0 \<le> ?h" "1 \<le> mip_count d"
    by (auto simp: td_IsValid_def size_IsEmpty_def)
  have "0 \<le> ?w * ?h * ?p" using v(2,3) by simp
  then have small: "?w * ?h * ?p < 2 ^ 63" using assms(2) by linarith
  from level_bytes_eq [OF v(2,3) small v(1)] obtain base
    where base: "level_bytes ?f ?w ?h = Inr base" "uint base = ?w * ?h * ?p" by blast
  have "uint (0 :: u64) + 2 * (?w * ?h * ?p) < 2 ^ 63" using assms(2) by simp
  from sum_levels_chain [OF v(2,3,1) this] obtain all
    where all: "sum_levels ?f (mip_count d) ?w ?h 0 = Inr all"
      "uint all = chain (mip_count d) ?w ?h * ?p" by auto
  obtain n where n: "mip_count d = Suc n" using v(4) by (cases "mip_count d") auto
  have "?w * ?h \<le> chain (mip_count d) ?w ?h"
    using chain_bounds [of "?w div 2" "?h div 2" n] v(2,3) by (simp add: n)
  then have "uint base \<le> uint all" unfolding base(2) all(2) by (intro mult_right_mono) auto
  moreover have "3 * chain (mip_count d) ?w ?h * ?p \<le> 4 * (?w * ?h) * ?p"
    using chain_bounds [OF v(2,3)] by (intro mult_right_mono) auto
  then have "3 * uint all \<le> 4 * uint base" by (simp add: base(2) all(2))
  ultimately show ?thesis
    using assms(1) base all(1)
    by (simp add: GetByteSizeOfBaseMipLevel_def GetByteSizeOfAllMipLevels_def)
qed

definition demo_texture :: texture_descriptor where
  "demo_texture = default_texture_descriptor\<lparr>format := kR8G8B8A8UNormInt,
     tex_size := \<lparr>width = 4, height = 4\<rparr>, mip_count := 3\<rparr>"

lemma demo_texture_valid: "td_IsValid demo_texture"
  by (simp add: demo_texture_def default_texture_descriptor_def td_IsValid_def size_IsEmpty_def
      SamplingOptionsAreValid_def Let_def)

theorem mip_chain_bounds_witness:
  "\<exists>base all. GetByteSizeOfBaseMipLevel demo_texture = Inr base \<and>
     GetByteSizeOfAllMipLevels demo_texture = Inr all \<and> uint base = 64 \<and>
     3 * uint all \<le> 256"
proof -
  have "2 * (width (tex_size demo_texture) * height (tex_size demo_texture) *
      int (BytesPerPixelForPixelFormat (format demo_texture))) < 2 ^ 63"
    by (simp add: demo_texture_def default_texture_descriptor_def)
  from mip_chain_bounds [OF demo_texture_valid this] obtain base all
    where "GetByteSizeOfBaseMipLevel demo_texture = Inr base"
      "GetByteSizeOfAllMipLevels demo_texture = Inr all"
      "uint base = width (tex_size demo_texture) * height (tex_size demo_texture) *
         int (BytesPerPixelForPixelFormat (format demo_texture))"
      "3 * uint all \<le> 4 * uint base" by blast
  then show ?thesis by (simp add: demo_texture_def default_texture_descriptor_def)
qed

text \<open>
  A level of a narrow texture counts nothing once one dimension has been halved to zero,
  although a device still allocates such levels with at least one texel.
\<close>

lemma narrow_levels_count_nothing:
  "sum_levels PixelFormat.kR8UNormInt 4 8 1 0 = sum_levels PixelFormat.kR8UNormInt 1 8 1 0"
  by (simp add: eval_nat_numeral level_bytes_def Area_def i64_defs cdiv_def)

end
