(* ===== verification/Formats_Vk.thy ===== *)
theory Formats_Vk
  imports Descriptors
begin

text \<open>
  The translation of the formats and descriptors of the core to those of Vulkan,
  \<^verbatim>\<open>src/hal/formats_vk.{h,cc}\<close>.

  The enumerations of the Vulkan headers appear with the enumerators the code names;
  \<open>unlisted_format\<close> stands for the formats it does not. A value of a Vulkan flags type is the set
  of the named bits the code combines. \<open>LOG(FATAL)\<close> is the result \<open>Check_Failed\<close>; behind a
  switch that lists every enumerator it is not reachable.
\<close>

subsection \<open>Enumerations of Vulkan\<close>

datatype VkFormat =
    eR8G8B8A8Unorm | eB8G8R8A8Unorm | eUndefined | eR8Unorm | eR8G8B8A8Srgb | eB8G8R8A8Srgb
    | eR32G32B32A32Sfloat | eR16G16B16A16Sfloat | eS8Uint | eD24UnormS8Uint | eD32SfloatS8Uint
    | eR8G8Unorm | eR32Sfloat | unlisted_format nat

datatype VkSampleCountFlagBits =
    e1 | e4

datatype VkBlendFactor =
    eZero | eOne | eSrcColor | eOneMinusSrcColor | eSrcAlpha | eOneMinusSrcAlpha | eDstColor
    | eOneMinusDstColor | eDstAlpha | eOneMinusDstAlpha | eSrcAlphaSaturate | eConstantColor
    | eOneMinusConstantColor | eConstantAlpha | eOneMinusConstantAlpha

datatype VkBlendOp =
    eAdd | eSubtract | eReverseSubtract

datatype VkShaderStageFlagBits =
    eVertex | eFragment | eCompute | eAll

datatype VkFilter =
    eNearest | eLinear

datatype VkSamplerMipmapMode =
    eNearest | eLinear

datatype VkSamplerAddressMode =
    eRepeat | eMirroredRepeat | eClampToEdge | eClampToBorder

datatype VkAttachmentLoadOp =
    eLoad | eClear | eDontCare

datatype VkAttachmentStoreOp =
    eStore | eDontCare

datatype VkIndexType =
    eUint16 | eUint32

datatype VkPolygonMode =
    eFill | eLine

datatype VkPrimitiveTopology =
    eTriangleList | eTriangleStrip | eLineList | eLineStrip | ePointList | eTriangleFan

datatype VkCullModeFlagBits =
    eNone | eFront | eBack

datatype VkCompareOp =
    eNever | eAlways | eLess | eEqual | eLessOrEqual | eGreater | eNotEqual | eGreaterOrEqual

datatype VkStencilOp =
    eKeep | eZero | eReplace | eIncrementAndClamp | eDecrementAndClamp | eInvert
    | eIncrementAndWrap | eDecrementAndWrap

datatype VkImageAspectFlagBits =
    eColor | eStencil | eDepth

datatype VkImageViewType =
    e2D | eCube

datatype VkImageCreateFlagBits =
    eCubeCompatible

datatype VkColorComponentFlagBits = eR | eG | eB | eA

subsection \<open>Switches\<close>

fun VkFormatToImpellerFormat :: "VkFormat \<Rightarrow> PixelFormat option" where
  "VkFormatToImpellerFormat VkFormat.eR8G8B8A8Unorm = Some PixelFormat.kR8G8B8A8UNormInt"
| "VkFormatToImpellerFormat VkFormat.eB8G8R8A8Unorm = Some PixelFormat.kB8G8R8A8UNormInt"
| "VkFormatToImpellerFormat _ = None"

fun ToVKSampleCountFlagBits :: "SampleCount \<Rightarrow> VkSampleCountFlagBits" where
  "ToVKSampleCountFlagBits SampleCount.kCount1 = VkSampleCountFlagBits.e1"
| "ToVKSampleCountFlagBits SampleCount.kCount4 = VkSampleCountFlagBits.e4"

fun ToVKBlendFactor :: "BlendFactor \<Rightarrow> VkBlendFactor" where
  "ToVKBlendFactor BlendFactor.kZero = VkBlendFactor.eZero"
| "ToVKBlendFactor BlendFactor.kOne = VkBlendFactor.eOne"
| "ToVKBlendFactor BlendFactor.kSourceColor = VkBlendFactor.eSrcColor"
| "ToVKBlendFactor BlendFactor.kOneMinusSourceColor = VkBlendFactor.eOneMinusSrcColor"
| "ToVKBlendFactor BlendFactor.kSourceAlpha = VkBlendFactor.eSrcAlpha"
| "ToVKBlendFactor BlendFactor.kOneMinusSourceAlpha = VkBlendFactor.eOneMinusSrcAlpha"
| "ToVKBlendFactor BlendFactor.kDestinationColor = VkBlendFactor.eDstColor"
| "ToVKBlendFactor BlendFactor.kOneMinusDestinationColor = VkBlendFactor.eOneMinusDstColor"
| "ToVKBlendFactor BlendFactor.kDestinationAlpha = VkBlendFactor.eDstAlpha"
| "ToVKBlendFactor BlendFactor.kOneMinusDestinationAlpha = VkBlendFactor.eOneMinusDstAlpha"
| "ToVKBlendFactor BlendFactor.kSourceAlphaSaturated = VkBlendFactor.eSrcAlphaSaturate"
| "ToVKBlendFactor BlendFactor.kBlendColor = VkBlendFactor.eConstantColor"
| "ToVKBlendFactor BlendFactor.kOneMinusBlendColor = VkBlendFactor.eOneMinusConstantColor"
| "ToVKBlendFactor BlendFactor.kBlendAlpha = VkBlendFactor.eConstantAlpha"
| "ToVKBlendFactor BlendFactor.kOneMinusBlendAlpha = VkBlendFactor.eOneMinusConstantAlpha"

fun ToVKBlendOp :: "BlendOperation \<Rightarrow> VkBlendOp" where
  "ToVKBlendOp BlendOperation.kAdd = VkBlendOp.eAdd"
| "ToVKBlendOp BlendOperation.kSubtract = VkBlendOp.eSubtract"
| "ToVKBlendOp BlendOperation.kReverseSubtract = VkBlendOp.eReverseSubtract"

fun ToVKShaderStageFlagBits :: "ShaderStage \<Rightarrow> VkShaderStageFlagBits option" where
  "ToVKShaderStageFlagBits ShaderStage.kUnknown = None"
| "ToVKShaderStageFlagBits ShaderStage.kVertex = Some VkShaderStageFlagBits.eVertex"
| "ToVKShaderStageFlagBits ShaderStage.kFragment = Some VkShaderStageFlagBits.eFragment"
| "ToVKShaderStageFlagBits ShaderStage.kCompute = Some VkShaderStageFlagBits.eCompute"

fun ToVKImageFormat :: "PixelFormat \<Rightarrow> VkFormat" where
  "ToVKImageFormat PixelFormat.kUnknown = VkFormat.eUndefined"
| "ToVKImageFormat PixelFormat.kB10G10R10XR = VkFormat.eUndefined"
| "ToVKImageFormat PixelFormat.kB10G10R10A10XR = VkFormat.eUndefined"
| "ToVKImageFormat PixelFormat.kB10G10R10XRSRGB = VkFormat.eUndefined"
| "ToVKImageFormat PixelFormat.kA8UNormInt = VkFormat.eR8Unorm"
| "ToVKImageFormat PixelFormat.kR8G8B8A8UNormInt = VkFormat.eR8G8B8A8Unorm"
| "ToVKImageFormat PixelFormat.kR8G8B8A8UNormIntSRGB = VkFormat.eR8G8B8A8Srgb"
| "ToVKImageFormat PixelFormat.kB8G8R8A8UNormInt = VkFormat.eB8G8R8A8Unorm"
| "ToVKImageFormat PixelFormat.kB8G8R8A8UNormIntSRGB = VkFormat.eB8G8R8A8Srgb"
| "ToVKImageFormat PixelFormat.kR32G32B32A32Float = VkFormat.eR32G32B32A32Sfloat"
| "ToVKImageFormat PixelFormat.kR16G16B16A16Float = VkFormat.eR16G16B16A16Sfloat"
| "ToVKImageFormat PixelFormat.kS8UInt = VkFormat.eS8Uint"
| "ToVKImageFormat PixelFormat.kD24UnormS8Uint = VkFormat.eD24UnormS8Uint"
| "ToVKImageFormat PixelFormat.kD32FloatS8UInt = VkFormat.eD32SfloatS8Uint"
| "ToVKImageFormat PixelFormat.kR8UNormInt = VkFormat.eR8Unorm"
| "ToVKImageFormat PixelFormat.kR8G8UNormInt = VkFormat.eR8G8Unorm"
| "ToVKImageFormat PixelFormat.kR32Float = VkFormat.eR32Sfloat"

fun ToPixelFormat :: "VkFormat \<Rightarrow> PixelFormat" where
  "ToPixelFormat VkFormat.eUndefined = PixelFormat.kUnknown"
| "ToPixelFormat VkFormat.eR8G8B8A8Unorm = PixelFormat.kR8G8B8A8UNormInt"
| "ToPixelFormat VkFormat.eR8G8B8A8Srgb = PixelFormat.kR8G8B8A8UNormIntSRGB"
| "ToPixelFormat VkFormat.eB8G8R8A8Unorm = PixelFormat.kB8G8R8A8UNormInt"
| "ToPixelFormat VkFormat.eB8G8R8A8Srgb = PixelFormat.kB8G8R8A8UNormIntSRGB"
| "ToPixelFormat VkFormat.eR32G32B32A32Sfloat = PixelFormat.kR32G32B32A32Float"
| "ToPixelFormat VkFormat.eR16G16B16A16Sfloat = PixelFormat.kR16G16B16A16Float"
| "ToPixelFormat VkFormat.eS8Uint = PixelFormat.kS8UInt"
| "ToPixelFormat VkFormat.eD24UnormS8Uint = PixelFormat.kD24UnormS8Uint"
| "ToPixelFormat VkFormat.eD32SfloatS8Uint = PixelFormat.kD32FloatS8UInt"
| "ToPixelFormat VkFormat.eR8Unorm = PixelFormat.kR8UNormInt"
| "ToPixelFormat VkFormat.eR8G8Unorm = PixelFormat.kR8G8UNormInt"
| "ToPixelFormat _ = PixelFormat.kUnknown"

fun ToVKSampleCount :: "SampleCount \<Rightarrow> VkSampleCountFlagBits" where
  "ToVKSampleCount SampleCount.kCount1 = VkSampleCountFlagBits.e1"
| "ToVKSampleCount SampleCount.kCount4 = VkSampleCountFlagBits.e4"

fun ToVKSamplerMinMagFilter :: "MinMagFilter \<Rightarrow> VkFilter" where
  "ToVKSamplerMinMagFilter MinMagFilter.kNearest = VkFilter.eNearest"
| "ToVKSamplerMinMagFilter MinMagFilter.kLinear = VkFilter.eLinear"

fun ToVKSamplerMipmapMode :: "MipFilter \<Rightarrow> VkSamplerMipmapMode" where
  "ToVKSamplerMipmapMode MipFilter.kBase = VkSamplerMipmapMode.eNearest"
| "ToVKSamplerMipmapMode MipFilter.kNearest = VkSamplerMipmapMode.eNearest"
| "ToVKSamplerMipmapMode MipFilter.kLinear = VkSamplerMipmapMode.eLinear"

fun ToVKSamplerAddressMode :: "SamplerAddressMode \<Rightarrow> VkSamplerAddressMode" where
  "ToVKSamplerAddressMode SamplerAddressMode.kRepeat = VkSamplerAddressMode.eRepeat"
| "ToVKSamplerAddressMode SamplerAddressMode.kMirror = VkSamplerAddressMode.eMirroredRepeat"
| "ToVKSamplerAddressMode SamplerAddressMode.kClampToEdge = VkSamplerAddressMode.eClampToEdge"
| "ToVKSamplerAddressMode SamplerAddressMode.kDecal = VkSamplerAddressMode.eClampToBorder"

fun ToVkShaderStage :: "ShaderStage \<Rightarrow> VkShaderStageFlagBits set" where
  "ToVkShaderStage ShaderStage.kUnknown = {VkShaderStageFlagBits.eAll}"
| "ToVkShaderStage ShaderStage.kFragment = {VkShaderStageFlagBits.eFragment}"
| "ToVkShaderStage ShaderStage.kCompute = {VkShaderStageFlagBits.eCompute}"
| "ToVkShaderStage ShaderStage.kVertex = {VkShaderStageFlagBits.eVertex}"

fun ToVKAttachmentLoadOp :: "LoadAction \<Rightarrow> VkAttachmentLoadOp" where
  "ToVKAttachmentLoadOp LoadAction.kLoad = VkAttachmentLoadOp.eLoad"
| "ToVKAttachmentLoadOp LoadAction.kClear = VkAttachmentLoadOp.eClear"
| "ToVKAttachmentLoadOp LoadAction.kDontCare = VkAttachmentLoadOp.eDontCare"

fun ToVKAttachmentStoreOp :: "StoreAction \<Rightarrow> bool \<Rightarrow> VkAttachmentStoreOp" where
  "ToVKAttachmentStoreOp StoreAction.kStore _ = VkAttachmentStoreOp.eStore"
| "ToVKAttachmentStoreOp StoreAction.kDontCare _ = VkAttachmentStoreOp.eDontCare"
| "ToVKAttachmentStoreOp StoreAction.kMultisampleResolve is_resolve_texture =
     (if is_resolve_texture then VkAttachmentStoreOp.eStore else VkAttachmentStoreOp.eDontCare)"
| "ToVKAttachmentStoreOp StoreAction.kStoreAndMultisampleResolve _ = VkAttachmentStoreOp.eStore"

fun StoreActionPerformsResolve :: "StoreAction \<Rightarrow> bool" where
  "StoreActionPerformsResolve StoreAction.kDontCare = False"
| "StoreActionPerformsResolve StoreAction.kStore = False"
| "StoreActionPerformsResolve StoreAction.kMultisampleResolve = True"
| "StoreActionPerformsResolve StoreAction.kStoreAndMultisampleResolve = True"

fun ToVKIndexType :: "IndexType \<Rightarrow> VkIndexType result" where
  "ToVKIndexType IndexType.k16bit = Inr VkIndexType.eUint16"
| "ToVKIndexType IndexType.k32bit = Inr VkIndexType.eUint32"
| "ToVKIndexType IndexType.kUnknown = Inr VkIndexType.eUint32"
| "ToVKIndexType IndexType.kNone = Inl Check_Failed"

fun ToVKPolygonMode :: "PolygonMode \<Rightarrow> VkPolygonMode" where
  "ToVKPolygonMode PolygonMode.kFill = VkPolygonMode.eFill"
| "ToVKPolygonMode PolygonMode.kLine = VkPolygonMode.eLine"

fun PrimitiveTopologySupportsPrimitiveRestart :: "PrimitiveType \<Rightarrow> bool" where
  "PrimitiveTopologySupportsPrimitiveRestart PrimitiveType.kTriangleStrip = True"
| "PrimitiveTopologySupportsPrimitiveRestart PrimitiveType.kLine = True"
| "PrimitiveTopologySupportsPrimitiveRestart PrimitiveType.kPoint = True"
| "PrimitiveTopologySupportsPrimitiveRestart PrimitiveType.kTriangleFan = True"
| "PrimitiveTopologySupportsPrimitiveRestart PrimitiveType.kTriangle = False"
| "PrimitiveTopologySupportsPrimitiveRestart PrimitiveType.kLineStrip = False"

fun ToVKPrimitiveTopology :: "PrimitiveType \<Rightarrow> VkPrimitiveTopology" where
  "ToVKPrimitiveTopology PrimitiveType.kTriangle = VkPrimitiveTopology.eTriangleList"
| "ToVKPrimitiveTopology PrimitiveType.kTriangleStrip = VkPrimitiveTopology.eTriangleStrip"
| "ToVKPrimitiveTopology PrimitiveType.kLine = VkPrimitiveTopology.eLineList"
| "ToVKPrimitiveTopology PrimitiveType.kLineStrip = VkPrimitiveTopology.eLineStrip"
| "ToVKPrimitiveTopology PrimitiveType.kPoint = VkPrimitiveTopology.ePointList"
| "ToVKPrimitiveTopology PrimitiveType.kTriangleFan = VkPrimitiveTopology.eTriangleFan"

fun PixelFormatIsDepthStencil :: "PixelFormat \<Rightarrow> bool" where
  "PixelFormatIsDepthStencil PixelFormat.kUnknown = False"
| "PixelFormatIsDepthStencil PixelFormat.kA8UNormInt = False"
| "PixelFormatIsDepthStencil PixelFormat.kR8UNormInt = False"
| "PixelFormatIsDepthStencil PixelFormat.kR8G8UNormInt = False"
| "PixelFormatIsDepthStencil PixelFormat.kR8G8B8A8UNormInt = False"
| "PixelFormatIsDepthStencil PixelFormat.kR8G8B8A8UNormIntSRGB = False"
| "PixelFormatIsDepthStencil PixelFormat.kB8G8R8A8UNormInt = False"
| "PixelFormatIsDepthStencil PixelFormat.kB8G8R8A8UNormIntSRGB = False"
| "PixelFormatIsDepthStencil PixelFormat.kR32G32B32A32Float = False"
| "PixelFormatIsDepthStencil PixelFormat.kR16G16B16A16Float = False"
| "PixelFormatIsDepthStencil PixelFormat.kB10G10R10XR = False"
| "PixelFormatIsDepthStencil PixelFormat.kB10G10R10XRSRGB = False"
| "PixelFormatIsDepthStencil PixelFormat.kB10G10R10A10XR = False"
| "PixelFormatIsDepthStencil PixelFormat.kR32Float = False"
| "PixelFormatIsDepthStencil PixelFormat.kS8UInt = True"
| "PixelFormatIsDepthStencil PixelFormat.kD24UnormS8Uint = True"
| "PixelFormatIsDepthStencil PixelFormat.kD32FloatS8UInt = True"

fun ToVKCullModeFlags :: "CullMode \<Rightarrow> VkCullModeFlagBits set" where
  "ToVKCullModeFlags CullMode.kNone = {VkCullModeFlagBits.eNone}"
| "ToVKCullModeFlags CullMode.kFrontFace = {VkCullModeFlagBits.eFront}"
| "ToVKCullModeFlags CullMode.kBackFace = {VkCullModeFlagBits.eBack}"

fun ToVKCompareOp :: "CompareFunction \<Rightarrow> VkCompareOp" where
  "ToVKCompareOp CompareFunction.kNever = VkCompareOp.eNever"
| "ToVKCompareOp CompareFunction.kAlways = VkCompareOp.eAlways"
| "ToVKCompareOp CompareFunction.kLess = VkCompareOp.eLess"
| "ToVKCompareOp CompareFunction.kEqual = VkCompareOp.eEqual"
| "ToVKCompareOp CompareFunction.kLessEqual = VkCompareOp.eLessOrEqual"
| "ToVKCompareOp CompareFunction.kGreater = VkCompareOp.eGreater"
| "ToVKCompareOp CompareFunction.kNotEqual = VkCompareOp.eNotEqual"
| "ToVKCompareOp CompareFunction.kGreaterEqual = VkCompareOp.eGreaterOrEqual"

fun ToVKStencilOp :: "StencilOperation \<Rightarrow> VkStencilOp" where
  "ToVKStencilOp StencilOperation.kKeep = VkStencilOp.eKeep"
| "ToVKStencilOp StencilOperation.kZero = VkStencilOp.eZero"
| "ToVKStencilOp StencilOperation.kSetToReferenceValue = VkStencilOp.eReplace"
| "ToVKStencilOp StencilOperation.kIncrementClamp = VkStencilOp.eIncrementAndClamp"
| "ToVKStencilOp StencilOperation.kDecrementClamp = VkStencilOp.eDecrementAndClamp"
| "ToVKStencilOp StencilOperation.kInvert = VkStencilOp.eInvert"
| "ToVKStencilOp StencilOperation.kIncrementWrap = VkStencilOp.eIncrementAndWrap"
| "ToVKStencilOp StencilOperation.kDecrementWrap = VkStencilOp.eDecrementAndWrap"

fun ToVKImageAspectFlags :: "PixelFormat \<Rightarrow> VkImageAspectFlagBits set" where
  "ToVKImageAspectFlags PixelFormat.kUnknown = {VkImageAspectFlagBits.eColor}"
| "ToVKImageAspectFlags PixelFormat.kA8UNormInt = {VkImageAspectFlagBits.eColor}"
| "ToVKImageAspectFlags PixelFormat.kR8UNormInt = {VkImageAspectFlagBits.eColor}"
| "ToVKImageAspectFlags PixelFormat.kR8G8UNormInt = {VkImageAspectFlagBits.eColor}"
| "ToVKImageAspectFlags PixelFormat.kR8G8B8A8UNormInt = {VkImageAspectFlagBits.eColor}"
| "ToVKImageAspectFlags PixelFormat.kR8G8B8A8UNormIntSRGB = {VkImageAspectFlagBits.eColor}"
| "ToVKImageAspectFlags PixelFormat.kB8G8R8A8UNormInt = {VkImageAspectFlagBits.eColor}"
| "ToVKImageAspectFlags PixelFormat.kB8G8R8A8UNormIntSRGB = {VkImageAspectFlagBits.eColor}"
| "ToVKImageAspectFlags PixelFormat.kR32G32B32A32Float = {VkImageAspectFlagBits.eColor}"
| "ToVKImageAspectFlags PixelFormat.kR16G16B16A16Float = {VkImageAspectFlagBits.eColor}"
| "ToVKImageAspectFlags PixelFormat.kB10G10R10XR = {VkImageAspectFlagBits.eColor}"
| "ToVKImageAspectFlags PixelFormat.kB10G10R10XRSRGB = {VkImageAspectFlagBits.eColor}"
| "ToVKImageAspectFlags PixelFormat.kB10G10R10A10XR = {VkImageAspectFlagBits.eColor}"
| "ToVKImageAspectFlags PixelFormat.kR32Float = {VkImageAspectFlagBits.eColor}"
| "ToVKImageAspectFlags PixelFormat.kS8UInt = {VkImageAspectFlagBits.eStencil}"
| "ToVKImageAspectFlags PixelFormat.kD24UnormS8Uint =
     {VkImageAspectFlagBits.eDepth, VkImageAspectFlagBits.eStencil}"
| "ToVKImageAspectFlags PixelFormat.kD32FloatS8UInt =
     {VkImageAspectFlagBits.eDepth, VkImageAspectFlagBits.eStencil}"

fun ToArrayLayerCount :: "TextureType \<Rightarrow> nat result" where
  "ToArrayLayerCount TextureType.kTexture2D = Inr 1"
| "ToArrayLayerCount TextureType.kTexture2DMultisample = Inr 1"
| "ToArrayLayerCount TextureType.kTextureCube = Inr 6"
| "ToArrayLayerCount TextureType.kTextureExternalOES = Inl Check_Failed"

fun ToVKImageViewType :: "TextureType \<Rightarrow> VkImageViewType result" where
  "ToVKImageViewType TextureType.kTexture2D = Inr VkImageViewType.e2D"
| "ToVKImageViewType TextureType.kTexture2DMultisample = Inr VkImageViewType.e2D"
| "ToVKImageViewType TextureType.kTextureCube = Inr VkImageViewType.eCube"
| "ToVKImageViewType TextureType.kTextureExternalOES = Inl Check_Failed"

fun ToVKImageCreateFlags :: "TextureType \<Rightarrow> (VkImageCreateFlagBits set) result" where
  "ToVKImageCreateFlags TextureType.kTexture2D = Inr {}"
| "ToVKImageCreateFlags TextureType.kTexture2DMultisample = Inr {}"
| "ToVKImageCreateFlags TextureType.kTextureCube = Inr {VkImageCreateFlagBits.eCubeCompatible}"
| "ToVKImageCreateFlags TextureType.kTextureExternalOES = Inl Check_Failed"

fun ToImageAspectFlags :: "PixelFormat \<Rightarrow> VkImageAspectFlagBits set" where
  "ToImageAspectFlags PixelFormat.kUnknown = {}"
| "ToImageAspectFlags PixelFormat.kA8UNormInt = {VkImageAspectFlagBits.eColor}"
| "ToImageAspectFlags PixelFormat.kR8UNormInt = {VkImageAspectFlagBits.eColor}"
| "ToImageAspectFlags PixelFormat.kR8G8UNormInt = {VkImageAspectFlagBits.eColor}"
| "ToImageAspectFlags PixelFormat.kR8G8B8A8UNormInt = {VkImageAspectFlagBits.eColor}"
| "ToImageAspectFlags PixelFormat.kR8G8B8A8UNormIntSRGB = {VkImageAspectFlagBits.eColor}"
| "ToImageAspectFlags PixelFormat.kB8G8R8A8UNormInt = {VkImageAspectFlagBits.eColor}"
| "ToImageAspectFlags PixelFormat.kB8G8R8A8UNormIntSRGB = {VkImageAspectFlagBits.eColor}"
| "ToImageAspectFlags PixelFormat.kR32G32B32A32Float = {VkImageAspectFlagBits.eColor}"
| "ToImageAspectFlags PixelFormat.kR16G16B16A16Float = {VkImageAspectFlagBits.eColor}"
| "ToImageAspectFlags PixelFormat.kB10G10R10XR = {VkImageAspectFlagBits.eColor}"
| "ToImageAspectFlags PixelFormat.kB10G10R10XRSRGB = {VkImageAspectFlagBits.eColor}"
| "ToImageAspectFlags PixelFormat.kB10G10R10A10XR = {VkImageAspectFlagBits.eColor}"
| "ToImageAspectFlags PixelFormat.kR32Float = {VkImageAspectFlagBits.eColor}"
| "ToImageAspectFlags PixelFormat.kS8UInt = {VkImageAspectFlagBits.eStencil}"
| "ToImageAspectFlags PixelFormat.kD24UnormS8Uint =
     {VkImageAspectFlagBits.eDepth, VkImageAspectFlagBits.eStencil}"
| "ToImageAspectFlags PixelFormat.kD32FloatS8UInt =
     {VkImageAspectFlagBits.eDepth, VkImageAspectFlagBits.eStencil}"

subsection \<open>Structures\<close>

definition mask_has :: "mask64 \<Rightarrow> ColorWriteMaskBits \<Rightarrow> bool" where
  "mask_has m b = mask_to_bool (mask_and m (mask_of (val_ColorWriteMaskBits b)))"

definition ToVKColorComponentFlags :: "mask64 \<Rightarrow> VkColorComponentFlagBits set" where
  "ToVKColorComponentFlags type =
     (if mask_has type ColorWriteMaskBits.kRed then {eR} else {}) \<union>
     (if mask_has type ColorWriteMaskBits.kGreen then {eG} else {}) \<union>
     (if mask_has type ColorWriteMaskBits.kBlue then {eB} else {}) \<union>
     (if mask_has type ColorWriteMaskBits.kAlpha then {eA} else {})"

record vk_color_blend_attachment_state =
  blendEnable :: bool
  srcColorBlendFactor :: VkBlendFactor
  dstColorBlendFactor :: VkBlendFactor
  colorBlendOp :: VkBlendOp
  srcAlphaBlendFactor :: VkBlendFactor
  dstAlphaBlendFactor :: VkBlendFactor
  alphaBlendOp :: VkBlendOp
  colorWriteMask :: "VkColorComponentFlagBits set"

definition ToVKPipelineColorBlendAttachmentState ::
  "color_attachment_descriptor \<Rightarrow> vk_color_blend_attachment_state"
where
  "ToVKPipelineColorBlendAttachmentState desc =
     \<lparr>blendEnable = blending_enabled desc,
      srcColorBlendFactor = ToVKBlendFactor (src_color_blend_factor desc),
      dstColorBlendFactor = ToVKBlendFactor (dst_color_blend_factor desc),
      colorBlendOp = ToVKBlendOp (color_blend_op desc),
      srcAlphaBlendFactor = ToVKBlendFactor (src_alpha_blend_factor desc),
      dstAlphaBlendFactor = ToVKBlendFactor (dst_alpha_blend_factor desc),
      alphaBlendOp = ToVKBlendOp (alpha_blend_op desc),
      colorWriteMask = ToVKColorComponentFlags (cad_write_mask desc)\<rparr>"

text \<open>The numbers of the descriptor types are those of Vulkan, as static assertions check.\<close>

definition ToVKDescriptorType :: "DescriptorType \<Rightarrow> nat" where
  "ToVKDescriptorType type = val_DescriptorType type"

record descriptor_set_layout =
  dsl_binding :: nat
  dsl_descriptor_type :: DescriptorType
  dsl_shader_stage :: ShaderStage

record vk_descriptor_set_layout_binding =
  vk_binding :: nat
  descriptorCount :: nat
  descriptorType :: nat
  stageFlags :: "VkShaderStageFlagBits set"

definition ToVKDescriptorSetLayoutBinding ::
  "descriptor_set_layout \<Rightarrow> vk_descriptor_set_layout_binding"
where
  "ToVKDescriptorSetLayoutBinding layout =
     \<lparr>vk_binding = dsl_binding layout, descriptorCount = 1,
      descriptorType = ToVKDescriptorType (dsl_descriptor_type layout),
      stageFlags = ToVkShaderStage (dsl_shader_stage layout)\<rparr>"

record vk_stencil_op_state =
  failOp :: VkStencilOp
  passOp :: VkStencilOp
  depthFailOp :: VkStencilOp
  compareOp :: VkCompareOp
  compareMask :: u32
  writeMask :: u32
  reference :: nat

definition ToVKStencilOpState :: "stencil_attachment_descriptor \<Rightarrow> vk_stencil_op_state" where
  "ToVKStencilOpState desc =
     \<lparr>failOp = ToVKStencilOp (stencil_failure desc),
      passOp = ToVKStencilOp (depth_stencil_pass desc),
      depthFailOp = ToVKStencilOp (depth_failure desc),
      compareOp = ToVKCompareOp (stencil_compare desc),
      compareMask = read_mask desc, writeMask = sad_write_mask desc, reference = 1988\<rparr>"

text \<open>
  A structure of Vulkan starts with the values of its default constructor, a parameter here.
  The depth bounds are always 0 and 1.
\<close>

record vk_depth_stencil_state =
  depthTestEnable :: bool
  depthWriteEnable :: bool
  depthCompareOp :: VkCompareOp
  minDepthBounds :: int
  maxDepthBounds :: int
  stencilTestEnable :: bool
  front_state :: vk_stencil_op_state
  back_state :: vk_stencil_op_state

definition ToVKPipelineDepthStencilStateCreateInfo ::
  "vk_depth_stencil_state \<Rightarrow> depth_attachment_descriptor option \<Rightarrow>
   stencil_attachment_descriptor option \<Rightarrow> stencil_attachment_descriptor option \<Rightarrow>
   vk_depth_stencil_state"
where
  "ToVKPipelineDepthStencilStateCreateInfo info depth frontd backd =
     (let info1 = (case depth of None \<Rightarrow> info
                   | Some d \<Rightarrow> info\<lparr>depthTestEnable := True,
                       depthWriteEnable := depth_write_enabled d,
                       depthCompareOp := ToVKCompareOp (depth_compare d),
                       minDepthBounds := 0, maxDepthBounds := 1\<rparr>);
          info2 = (case frontd of None \<Rightarrow> info1
                   | Some s \<Rightarrow> info1\<lparr>stencilTestEnable := True, front_state := ToVKStencilOpState s\<rparr>)
      in case backd of None \<Rightarrow> info2
         | Some s \<Rightarrow> info2\<lparr>stencilTestEnable := True, back_state := ToVKStencilOpState s\<rparr>)"

subsection \<open>Properties\<close>

text \<open>
  Formats survive the way to Vulkan and back: a pixel format with a Vulkan counterpart comes
  back as itself, except for the two formats that share or lack an entry in the inverse table,
  and a Vulkan format that has a counterpart in the core comes back as itself.
\<close>

theorem pixel_format_roundtrip:
  "(ToPixelFormat (ToVKImageFormat f) = f \<longleftrightarrow>
      f \<notin> {PixelFormat.kA8UNormInt, PixelFormat.kR32Float, PixelFormat.kB10G10R10XR,
           PixelFormat.kB10G10R10XRSRGB, PixelFormat.kB10G10R10A10XR}) \<and>
   (ToPixelFormat v \<noteq> PixelFormat.kUnknown \<longrightarrow> ToVKImageFormat (ToPixelFormat v) = v) \<and>
   (VkFormatToImpellerFormat v = Some g \<longrightarrow> ToPixelFormat v = g \<and> ToVKImageFormat g = v)"
  by (cases f; cases v) auto

theorem pixel_format_roundtrip_witness:
  "ToPixelFormat (ToVKImageFormat PixelFormat.kD24UnormS8Uint) = PixelFormat.kD24UnormS8Uint"
  using pixel_format_roundtrip [of PixelFormat.kD24UnormS8Uint] by simp

text \<open>The 32-bit float format has a Vulkan format but no way back.\<close>

lemma r32float_comes_back_unknown:
  "ToPixelFormat (ToVKImageFormat PixelFormat.kR32Float) = PixelFormat.kUnknown"
  by simp

text \<open>
  Primitive restart needs a strip or a fan: the answer for lists of lines and points and for
  line strips is the opposite of what Vulkan documents for these topologies.
\<close>

lemma primitive_restart_of_lines:
  "ToVKPrimitiveTopology PrimitiveType.kLine = eLineList"
  "PrimitiveTopologySupportsPrimitiveRestart PrimitiveType.kLine"
  "ToVKPrimitiveTopology PrimitiveType.kLineStrip = eLineStrip"
  "\<not> PrimitiveTopologySupportsPrimitiveRestart PrimitiveType.kLineStrip"
  by simp_all

text \<open>The aspects of a format agree with the tests for depth and stencil.\<close>

lemma depth_stencil_aspects:
  "PixelFormatIsDepthStencil f \<longleftrightarrow> eStencil \<in> ToImageAspectFlags f"
  "eDepth \<in> ToImageAspectFlags f \<longleftrightarrow> IsDepthWritable f"
  "eStencil \<in> ToImageAspectFlags f \<longleftrightarrow> IsStencilWritable f"
  "f \<noteq> PixelFormat.kUnknown \<Longrightarrow> ToImageAspectFlags f = ToVKImageAspectFlags f"
  by (cases f; simp)+

text \<open>A resolve texture is stored exactly when a resolve is performed or all is stored.\<close>

lemma resolve_texture_stored:
  "ToVKAttachmentStoreOp s True = VkAttachmentStoreOp.eStore \<longleftrightarrow>
   StoreActionPerformsResolve s \<or> s = StoreAction.kStore"
  by (cases s) auto

end
