(* ===== verification/Driver_Info.thy ===== *)
theory Driver_Info
  imports Prelude
begin

text \<open>
  What the Vulkan back end derives from the self-reported properties of a driver:
  \<^verbatim>\<open>src/hal/driver_info_vk.{h,cc}\<close>, the workarounds of \<^verbatim>\<open>src/hal/workarounds_vk.{h,cc}\<close> and the
  version numbers of \<^verbatim>\<open>src/base/version.{h,cc}\<close>.

  The build flag for Android is a parameter, and so are the constants and macros of the Vulkan
  headers (the vendor id of Mesa, the fields of a packed API version).
\<close>

subsection \<open>Versions\<close>

datatype version = Version (major_version: nat) (minor_version: nat) (patch_version: nat)

text \<open>The defaulted three-way comparison compares the members in order.\<close>

instantiation version :: linorder
begin

definition less_version :: "version \<Rightarrow> version \<Rightarrow> bool" where
  "less_version a b \<longleftrightarrow> major_version a < major_version b \<or>
     major_version a = major_version b \<and>
       (minor_version a < minor_version b \<or>
        minor_version a = minor_version b \<and> patch_version a < patch_version b)"

definition less_eq_version :: "version \<Rightarrow> version \<Rightarrow> bool" where
  "less_eq_version a b \<longleftrightarrow> a < b \<or> a = (b :: version)"

instance
proof
  fix a b :: version
  show "a \<le> b \<or> b \<le> a"
    by (cases a; cases b) (auto simp: less_version_def less_eq_version_def)
qed (auto simp: less_version_def less_eq_version_def)

end

definition IsAtLeast :: "version \<Rightarrow> version \<Rightarrow> bool" where
  "IsAtLeast v other \<longleftrightarrow> v \<ge> other"

definition FromVector :: "nat list \<Rightarrow> version option" where
  "FromVector v =
     (if length v = 0 then Some (Version 0 0 0)
      else if length v = 1 then Some (Version (v ! 0) 0 0)
      else if length v = 2 then Some (Version (v ! 0) (v ! 1) 0)
      else if length v = 3 then Some (Version (v ! 0) (v ! 1) (v ! 2))
      else None)"

text \<open>A number as a stream prints it.\<close>

fun decimal :: "nat \<Rightarrow> string" where
  "decimal n =
     (if n < 10 then [char_of (48 + n)] else decimal (n div 10) @ [char_of (48 + n mod 10)])"

declare decimal.simps [simp del]

definition version_ToString :: "version \<Rightarrow> string" where
  "version_ToString v =
     decimal (major_version v) @ ''.'' @ decimal (minor_version v) @ ''.'' @
     decimal (patch_version v)"

subsection \<open>Models of graphics processors\<close>

datatype AdrenoGPU =
    kAdreno504 | kAdreno505 | kAdreno506 | kAdreno508 | kAdreno509 | kAdreno510 | kAdreno512
    | kAdreno530 | kAdreno540 | kAdreno605 | kAdreno608 | kAdreno610 | kAdreno612 | kAdreno613
    | kAdreno615 | kAdreno616 | kAdreno618 | kAdreno619L | kAdreno619 | kAdreno620 | kAdreno630
    | kAdreno640 | kAdreno642L | kAdreno642 | kAdreno643L | kAdreno644 | kAdreno650 | kAdreno660
    | kAdreno663 | kAdreno675 | kAdreno680 | kAdreno685 | kAdreno690 | kAdreno695 | kAdreno702
    | kAdreno710 | kAdreno720 | kAdreno725 | kAdreno730 | kAdreno732 | kAdreno735 | kAdreno740
    | kAdreno750 | kAdrenoX145 | kAdrenoX185 | kUnknown

datatype MaliGPU =
    kT760 | kT820 | kT830 | kT860 | kT880 | kG31 | kG51 | kG71 | kG52 | kG72 | kG76 | kG57 | kG77
    | kG68 | kG78 | kG310 | kG510 | kG610 | kG710 | kG615 | kG715 | kG620 | kG720 | kG625 | kG725
    | kG925 | kUnknown

datatype PowerVRGPU =
    kUnknown | kRogue | kAXE | kAXM | kAXT | kBXE | kBXM | kBXS | kBXT | kCXT | kDXT

datatype VendorVK =
    kUnknown | kGoogle | kQualcomm | kARM | kImgTec | kAMD | kNvidia | kIntel | kHuawei | kSamsung
    | kMesa | kApple

datatype DeviceTypeVK =
    kUnknown | kIntegratedGPU | kDiscreteGPU | kVirtualGPU | kCPU

fun val_AdrenoGPU :: "AdrenoGPU \<Rightarrow> nat" where
  "val_AdrenoGPU AdrenoGPU.kAdreno504 = 0"
| "val_AdrenoGPU AdrenoGPU.kAdreno505 = 1"
| "val_AdrenoGPU AdrenoGPU.kAdreno506 = 2"
| "val_AdrenoGPU AdrenoGPU.kAdreno508 = 3"
| "val_AdrenoGPU AdrenoGPU.kAdreno509 = 4"
| "val_AdrenoGPU AdrenoGPU.kAdreno510 = 5"
| "val_AdrenoGPU AdrenoGPU.kAdreno512 = 6"
| "val_AdrenoGPU AdrenoGPU.kAdreno530 = 7"
| "val_AdrenoGPU AdrenoGPU.kAdreno540 = 8"
| "val_AdrenoGPU AdrenoGPU.kAdreno605 = 9"
| "val_AdrenoGPU AdrenoGPU.kAdreno608 = 10"
| "val_AdrenoGPU AdrenoGPU.kAdreno610 = 11"
| "val_AdrenoGPU AdrenoGPU.kAdreno612 = 12"
| "val_AdrenoGPU AdrenoGPU.kAdreno613 = 13"
| "val_AdrenoGPU AdrenoGPU.kAdreno615 = 14"
| "val_AdrenoGPU AdrenoGPU.kAdreno616 = 15"
| "val_AdrenoGPU AdrenoGPU.kAdreno618 = 16"
| "val_AdrenoGPU AdrenoGPU.kAdreno619L = 17"
| "val_AdrenoGPU AdrenoGPU.kAdreno619 = 18"
| "val_AdrenoGPU AdrenoGPU.kAdreno620 = 19"
| "val_AdrenoGPU AdrenoGPU.kAdreno630 = 20"
| "val_AdrenoGPU AdrenoGPU.kAdreno640 = 21"
| "val_AdrenoGPU AdrenoGPU.kAdreno642L = 22"
| "val_AdrenoGPU AdrenoGPU.kAdreno642 = 23"
| "val_AdrenoGPU AdrenoGPU.kAdreno643L = 24"
| "val_AdrenoGPU AdrenoGPU.kAdreno644 = 25"
| "val_AdrenoGPU AdrenoGPU.kAdreno650 = 26"
| "val_AdrenoGPU AdrenoGPU.kAdreno660 = 27"
| "val_AdrenoGPU AdrenoGPU.kAdreno663 = 28"
| "val_AdrenoGPU AdrenoGPU.kAdreno675 = 29"
| "val_AdrenoGPU AdrenoGPU.kAdreno680 = 30"
| "val_AdrenoGPU AdrenoGPU.kAdreno685 = 31"
| "val_AdrenoGPU AdrenoGPU.kAdreno690 = 32"
| "val_AdrenoGPU AdrenoGPU.kAdreno695 = 33"
| "val_AdrenoGPU AdrenoGPU.kAdreno702 = 34"
| "val_AdrenoGPU AdrenoGPU.kAdreno710 = 35"
| "val_AdrenoGPU AdrenoGPU.kAdreno720 = 36"
| "val_AdrenoGPU AdrenoGPU.kAdreno725 = 37"
| "val_AdrenoGPU AdrenoGPU.kAdreno730 = 38"
| "val_AdrenoGPU AdrenoGPU.kAdreno732 = 39"
| "val_AdrenoGPU AdrenoGPU.kAdreno735 = 40"
| "val_AdrenoGPU AdrenoGPU.kAdreno740 = 41"
| "val_AdrenoGPU AdrenoGPU.kAdreno750 = 42"
| "val_AdrenoGPU AdrenoGPU.kAdrenoX145 = 43"
| "val_AdrenoGPU AdrenoGPU.kAdrenoX185 = 44"
| "val_AdrenoGPU AdrenoGPU.kUnknown = 45"

fun val_PowerVRGPU :: "PowerVRGPU \<Rightarrow> nat" where
  "val_PowerVRGPU PowerVRGPU.kUnknown = 0"
| "val_PowerVRGPU PowerVRGPU.kRogue = 1"
| "val_PowerVRGPU PowerVRGPU.kAXE = 2"
| "val_PowerVRGPU PowerVRGPU.kAXM = 3"
| "val_PowerVRGPU PowerVRGPU.kAXT = 4"
| "val_PowerVRGPU PowerVRGPU.kBXE = 5"
| "val_PowerVRGPU PowerVRGPU.kBXM = 6"
| "val_PowerVRGPU PowerVRGPU.kBXS = 7"
| "val_PowerVRGPU PowerVRGPU.kBXT = 8"
| "val_PowerVRGPU PowerVRGPU.kCXT = 9"
| "val_PowerVRGPU PowerVRGPU.kDXT = 10"

definition kAdrenoVersions :: "(string \<times> AdrenoGPU) list" where
  "kAdrenoVersions =
    [(''X185'', AdrenoGPU.kAdrenoX185), (''X145'', AdrenoGPU.kAdrenoX145),
     (''750'', AdrenoGPU.kAdreno750), (''740'', AdrenoGPU.kAdreno740),
     (''735'', AdrenoGPU.kAdreno735), (''721'', AdrenoGPU.kAdreno732),
     (''730'', AdrenoGPU.kAdreno730), (''725'', AdrenoGPU.kAdreno725),
     (''720'', AdrenoGPU.kAdreno720), (''710'', AdrenoGPU.kAdreno710),
     (''702'', AdrenoGPU.kAdreno702), (''695'', AdrenoGPU.kAdreno695),
     (''690'', AdrenoGPU.kAdreno690), (''685'', AdrenoGPU.kAdreno685),
     (''680'', AdrenoGPU.kAdreno680), (''675'', AdrenoGPU.kAdreno675),
     (''663'', AdrenoGPU.kAdreno663), (''660'', AdrenoGPU.kAdreno660),
     (''650'', AdrenoGPU.kAdreno650), (''644'', AdrenoGPU.kAdreno644),
     (''643L'', AdrenoGPU.kAdreno643L), (''642'', AdrenoGPU.kAdreno642),
     (''642L'', AdrenoGPU.kAdreno642L), (''640'', AdrenoGPU.kAdreno640),
     (''630'', AdrenoGPU.kAdreno630), (''620'', AdrenoGPU.kAdreno620),
     (''619'', AdrenoGPU.kAdreno619), (''619L'', AdrenoGPU.kAdreno619L),
     (''618'', AdrenoGPU.kAdreno618), (''616'', AdrenoGPU.kAdreno616),
     (''615'', AdrenoGPU.kAdreno615), (''613'', AdrenoGPU.kAdreno613),
     (''612'', AdrenoGPU.kAdreno612), (''610'', AdrenoGPU.kAdreno610),
     (''608'', AdrenoGPU.kAdreno608), (''605'', AdrenoGPU.kAdreno605),
     (''540'', AdrenoGPU.kAdreno540), (''530'', AdrenoGPU.kAdreno530),
     (''512'', AdrenoGPU.kAdreno512), (''510'', AdrenoGPU.kAdreno510),
     (''509'', AdrenoGPU.kAdreno509), (''508'', AdrenoGPU.kAdreno508),
     (''506'', AdrenoGPU.kAdreno506), (''505'', AdrenoGPU.kAdreno505),
     (''504'', AdrenoGPU.kAdreno504)]"

definition kMaliVersions :: "(string \<times> MaliGPU) list" where
  "kMaliVersions =
    [(''G925'', MaliGPU.kG925), (''G725'', MaliGPU.kG725), (''G625'', MaliGPU.kG625),
     (''G720'', MaliGPU.kG720), (''G620'', MaliGPU.kG620), (''G715'', MaliGPU.kG715),
     (''G615'', MaliGPU.kG615), (''G710'', MaliGPU.kG710), (''G610'', MaliGPU.kG610),
     (''G510'', MaliGPU.kG510), (''G310'', MaliGPU.kG310), (''G78'', MaliGPU.kG78),
     (''G68'', MaliGPU.kG68), (''G77'', MaliGPU.kG77), (''G57'', MaliGPU.kG57),
     (''G76'', MaliGPU.kG76), (''G72'', MaliGPU.kG72), (''G52'', MaliGPU.kG52),
     (''G71'', MaliGPU.kG71), (''G51'', MaliGPU.kG51), (''G31'', MaliGPU.kG31),
     (''T880'', MaliGPU.kT880), (''T860'', MaliGPU.kT860), (''T830'', MaliGPU.kT830),
     (''T820'', MaliGPU.kT820), (''T760'', MaliGPU.kT760)]"

definition kGpuSeriesMap :: "(string \<times> PowerVRGPU) list" where
  "kGpuSeriesMap =
    [(''BXE'', PowerVRGPU.kBXE), (''BXM'', PowerVRGPU.kBXM), (''BXS'', PowerVRGPU.kBXS),
     (''BXT'', PowerVRGPU.kBXT), (''CXT'', PowerVRGPU.kCXT), (''DXT'', PowerVRGPU.kDXT)]"

subsection \<open>Names of devices\<close>

text \<open>The position of the first occurrence of a string in another one (\<open>string_view::find\<close>).\<close>

fun str_find :: "string \<Rightarrow> string \<Rightarrow> nat option" where
  "str_find p [] = (if p = [] then Some 0 else None)"
| "str_find p (c # s) =
     (if take (length p) (c # s) = p then Some 0 else map_option Suc (str_find p s))"

definition GetAdrenoVersion :: "string \<Rightarrow> AdrenoGPU" where
  "GetAdrenoVersion version =
     (case str_find ''Adreno (TM) '' version of
        None \<Rightarrow> AdrenoGPU.kUnknown
      | Some paren_pos \<Rightarrow>
          (case map_of kAdrenoVersions (drop (paren_pos + 12) version) of
             None \<Rightarrow> AdrenoGPU.kUnknown
           | Some result \<Rightarrow> result))"

fun find_series :: "(string \<times> PowerVRGPU) list \<Rightarrow> string \<Rightarrow> PowerVRGPU" where
  "find_series [] version = PowerVRGPU.kUnknown"
| "find_series ((name, gpu) # es) version =
     (if str_find name version \<noteq> None then gpu else find_series es version)"

definition GetPowerVRVersion :: "string \<Rightarrow> PowerVRGPU" where
  "GetPowerVRVersion version = find_series kGpuSeriesMap version"

definition GetMaliVersion :: "string \<Rightarrow> MaliGPU" where
  "GetMaliVersion version =
     (case str_find ''Mali-'' version of
        None \<Rightarrow> MaliGPU.kUnknown
      | Some dash_pos \<Rightarrow>
          (let trailing = drop (dash_pos + 5) version;
               version_string =
                 (case str_find ''-'' trailing of
                    None \<Rightarrow> trailing
                  | Some more_dash_pos \<Rightarrow> take more_dash_pos trailing)
           in case map_of kMaliVersions version_string of
                None \<Rightarrow> MaliGPU.kUnknown
              | Some result \<Rightarrow> result))"

subsection \<open>Vendors and device types\<close>

definition IdentifyVendor :: "u32 \<Rightarrow> u32 \<Rightarrow> VendorVK" where
  "IdentifyVendor mesa vendor =
     (if vendor = 0x1AE0 then kGoogle
      else if vendor = 0x168C \<or> vendor = 0x17CB \<or> vendor = 0x1969 \<or> vendor = 0x5143
        then kQualcomm
      else if vendor = 0x13B5 then kARM
      else if vendor = 0x1010 then kImgTec
      else if vendor = 0x1002 \<or> vendor = 0x1022 then kAMD
      else if vendor = 0x10DE then kNvidia
      else if vendor = 0x8086 then kIntel
      else if vendor = 0x106B then kApple
      else if vendor = 0x19E5 then kHuawei
      else if vendor = 0x144D then kSamsung
      else if vendor = mesa then kMesa
      else VendorVK.kUnknown)"

fun VendorToString :: "VendorVK \<Rightarrow> string" where
  "VendorToString VendorVK.kUnknown = ''Unknown''"
| "VendorToString kGoogle = ''Google''"
| "VendorToString kQualcomm = ''Qualcomm''"
| "VendorToString kARM = ''ARM''"
| "VendorToString kImgTec = ''ImgTec PowerVR''"
| "VendorToString kAMD = ''AMD''"
| "VendorToString kNvidia = ''Nvidia''"
| "VendorToString kIntel = ''Intel''"
| "VendorToString kMesa = ''Mesa''"
| "VendorToString kApple = ''Apple''"
| "VendorToString kHuawei = ''Huawei''"
| "VendorToString kSamsung = ''Samsung''"

fun DeviceTypeToString :: "DeviceTypeVK \<Rightarrow> string" where
  "DeviceTypeToString DeviceTypeVK.kUnknown = ''Unknown''"
| "DeviceTypeToString kIntegratedGPU = ''Integrated GPU''"
| "DeviceTypeToString kDiscreteGPU = ''Discrete GPU''"
| "DeviceTypeToString kVirtualGPU = ''Virtual GPU''"
| "DeviceTypeToString kCPU = ''CPU''"

text \<open>The enumerators of \<^verbatim>\<open>vk::PhysicalDeviceType\<close>; a device may report another number.\<close>

datatype VkPhysicalDeviceType =
    eOther | eIntegratedGpu | eDiscreteGpu | eVirtualGpu | eCpu | unlisted_type nat

fun ToDeviceType :: "VkPhysicalDeviceType \<Rightarrow> DeviceTypeVK" where
  "ToDeviceType eOther = DeviceTypeVK.kUnknown"
| "ToDeviceType eIntegratedGpu = kIntegratedGPU"
| "ToDeviceType eDiscreteGpu = kDiscreteGPU"
| "ToDeviceType eVirtualGpu = kVirtualGPU"
| "ToDeviceType eCpu = kCPU"
| "ToDeviceType (unlisted_type _) = DeviceTypeVK.kUnknown"

subsection \<open>Driver information\<close>

record device_properties =
  apiVersion :: u32
  driverVersion :: u32
  vendorID :: u32
  deviceID :: u32
  deviceType :: VkPhysicalDeviceType
  deviceName :: string

record driver_info =
  api_version :: version
  driver_version :: u32
  device_id :: u32
  vendor :: VendorVK
  device_type :: DeviceTypeVK
  adreno_gpu :: "AdrenoGPU option"
  mali_gpu :: "MaliGPU option"
  powervr_gpu :: "PowerVRGPU option"
  driver_name :: string

record vulkan_header =
  mesa_id :: u32
  api_major :: "u32 \<Rightarrow> u32"
  api_minor :: "u32 \<Rightarrow> u32"
  api_patch :: "u32 \<Rightarrow> u32"

definition DriverInfo :: "vulkan_header \<Rightarrow> device_properties \<Rightarrow> driver_info" where
  "DriverInfo vk props =
     (let v = IdentifyVendor (mesa_id vk) (vendorID props);
          d = \<lparr>api_version = Version (unat (api_major vk (apiVersion props)))
                 (unat (api_minor vk (apiVersion props))) (unat (api_patch vk (apiVersion props))),
               driver_version = driverVersion props, device_id = deviceID props, vendor = v,
               device_type = ToDeviceType (deviceType props),
               adreno_gpu = None, mali_gpu = None, powervr_gpu = None,
               driver_name = deviceName props\<rparr>
      in if v = kQualcomm then d\<lparr>adreno_gpu := Some (GetAdrenoVersion (deviceName props))\<rparr>
         else if v = kARM then d\<lparr>mali_gpu := Some (GetMaliVersion (deviceName props))\<rparr>
         else if v = kImgTec then d\<lparr>powervr_gpu := Some (GetPowerVRVersion (deviceName props))\<rparr>
         else d)"

definition IsEmulator :: "bool \<Rightarrow> driver_info \<Rightarrow> bool" where
  "IsEmulator android d \<longleftrightarrow>
     android \<and> device_type d = kCPU \<and> vendor d = kGoogle \<and>
     str_find ''SwiftShader'' (driver_name d) \<noteq> None"

definition kPixel10DeviceID :: u32 where "kPixel10DeviceID = 0x71061212"
definition kPixel10MinDriverVersion :: u32 where "kPixel10MinDriverVersion = 6794074"

definition IsKnownBadDriver :: "bool \<Rightarrow> driver_info \<Rightarrow> bool" where
  "IsKnownBadDriver android d =
     (if android \<and> vendor d = kImgTec \<and> device_id d = kPixel10DeviceID \<and>
         driver_version d < kPixel10MinDriverVersion then True
      else if (case adreno_gpu d of None \<Rightarrow> False
               | Some g \<Rightarrow> val_AdrenoGPU g \<le> val_AdrenoGPU kAdreno650) then True
      else if vendor d = kHuawei then True
      else if vendor d = kSamsung then \<not> IsAtLeast (api_version d) (Version 1 3 0)
      else if (case powervr_gpu d of None \<Rightarrow> False
               | Some g \<Rightarrow> val_PowerVRGPU g < val_PowerVRGPU kBXE) then True
      else False)"

text \<open>The lines of the log: each label is padded on the left to the width of the widest.\<close>

definition setw :: "nat \<Rightarrow> string \<Rightarrow> string" where
  "setw n s = replicate (n - length s) CHR '' '' @ s"

definition log_items :: "bool \<Rightarrow> driver_info \<Rightarrow> (string \<times> string) list" where
  "log_items android d =
     [(''Name'', driver_name d), (''API Version'', version_ToString (api_version d)),
      (''Driver Version'', decimal (unat (driver_version d))),
      (''Vendor'', VendorToString (vendor d)),
      (''Device Type'', DeviceTypeToString (device_type d)),
      (''Is Emulator'', decimal (of_bool (IsEmulator android d)))]"

definition DumpToLog :: "bool \<Rightarrow> driver_info \<Rightarrow> string" where
  "DumpToLog android d =
     (let items = log_items android d;
          padding = fold (\<lambda>item p. max p (length (fst item))) items 0 + 1
      in [CHR 0x0A] @
         ''--- Driver Information ------------------------------------------'' @ [CHR 0x0A] @
         concat (map (\<lambda>item. ''| '' @ setw padding (fst item) @ '': '' @ snd item @ [CHR 0x0A]) items) @
         ''-----------------------------------------------------------------'')"

subsection \<open>Workarounds\<close>

record workarounds =
  slow_primitive_restart_performance :: bool
  batch_submit_command_buffer_timeout :: bool
  input_attachment_self_dependency_broken :: bool
  broken_mipmap_generation :: bool

definition no_workarounds :: workarounds where
  "no_workarounds = \<lparr>slow_primitive_restart_performance = False,
     batch_submit_command_buffer_timeout = False,
     input_attachment_self_dependency_broken = False, broken_mipmap_generation = False\<rparr>"

definition GetWorkaroundsFromDriverInfo :: "driver_info \<Rightarrow> workarounds" where
  "GetWorkaroundsFromDriverInfo d =
     (case adreno_gpu d of
        Some g \<Rightarrow>
          (let w = no_workarounds\<lparr>slow_primitive_restart_performance := True,
                     broken_mipmap_generation := True\<rparr>
           in if val_AdrenoGPU g \<le> val_AdrenoGPU kAdreno630
              then w\<lparr>input_attachment_self_dependency_broken := True,
                     batch_submit_command_buffer_timeout := True\<rparr>
              else w)
      | None \<Rightarrow>
          (if powervr_gpu d \<noteq> None
           then no_workarounds\<lparr>input_attachment_self_dependency_broken := True\<rparr>
           else no_workarounds))"

subsection \<open>Searching\<close>

lemma str_find_Some:
  "str_find p s = Some n \<Longrightarrow> n \<le> length s \<and> take (length p) (drop n s) = p"
  by (induction p s arbitrary: n rule: str_find.induct) (auto split: if_splits)

lemma str_find_split: "str_find p s = Some n \<Longrightarrow> s = take n s @ p @ drop (n + length p) s"
  by (metis append_take_drop_id drop_drop str_find_Some add.commute)

lemma str_find_append:
  assumes "p = c # q" "c \<notin> set pre"
  shows "str_find p (pre @ p @ s) = Some (length pre)"
  using assms(2)
proof (induction pre)
  case Nil
  then show ?case using assms(1) by simp
qed (use assms(1) in auto)

lemma str_find_char: "str_find [c] s = None \<longleftrightarrow> c \<notin> set s"
  by (induction s) auto

lemma str_find_char_append: "c \<notin> set k \<Longrightarrow> str_find [c] (k @ c # s) = Some (length k)"
  using str_find_append [of "[c]" c "[]" k s] by simp

subsection \<open>The tables\<close>

lemma kAdrenoVersions_distinct: "distinct (map fst kAdrenoVersions)"
  by (simp add: kAdrenoVersions_def)

lemma kMaliVersions_distinct: "distinct (map fst kMaliVersions)"
  by (simp add: kMaliVersions_def)

lemma kMaliVersions_no_dash: "(k, g) \<in> set kMaliVersions \<Longrightarrow> CHR ''-'' \<notin> set k"
proof -
  have "list_all (\<lambda>(k, g). CHR ''-'' \<notin> set k) kMaliVersions" by code_simp
  then show "(k, g) \<in> set kMaliVersions \<Longrightarrow> ?thesis" by (fastforce simp: list_all_iff)
qed

lemma GetAdrenoVersion_named:
  "CHR ''A'' \<notin> set pre \<Longrightarrow>
   GetAdrenoVersion (pre @ ''Adreno (TM) '' @ k) =
     (case map_of kAdrenoVersions k of None \<Rightarrow> AdrenoGPU.kUnknown | Some g \<Rightarrow> g)"
  using str_find_append [OF refl, of _ pre "''dreno (TM) ''" k]
  by (simp add: GetAdrenoVersion_def)

lemma GetMaliVersion_named:
  assumes "CHR ''M'' \<notin> set pre" "CHR ''-'' \<notin> set k" "extra = [] \<or> hd extra = CHR ''-''"
  shows "GetMaliVersion (pre @ ''Mali-'' @ k @ extra) =
     (case map_of kMaliVersions k of None \<Rightarrow> MaliGPU.kUnknown | Some g \<Rightarrow> g)"
proof -
  have f: "str_find ''Mali-'' (pre @ ''Mali-'' @ k @ extra) = Some (length pre)"
    by (rule str_find_append [OF refl assms(1)])
  have "(case str_find ''-'' (k @ extra) of None \<Rightarrow> k @ extra | Some n \<Rightarrow> take n (k @ extra)) = k"
  proof (cases extra)
    case Nil
    then show ?thesis using assms(2) by (simp add: str_find_char [THEN iffD2])
  next
    case (Cons c s)
    then show ?thesis using assms(2,3) by (simp add: str_find_char_append)
  qed
  then show ?thesis using f by (simp add: GetMaliVersion_def Let_def)
qed

subsection \<open>Properties\<close>

text \<open>
  A device name is read as it is meant: behind any prefix that cannot start the marker,
  every name of the tables of Adreno and Mali models is recognised (a suffix after a dash is
  ignored for Mali), and a model other than the unknown one is only ever reported for a name
  that contains the marker followed by a name of the table.
\<close>

theorem device_names_recognised:
  "((k, g) \<in> set kAdrenoVersions \<and> CHR ''A'' \<notin> set pre \<longrightarrow>
      GetAdrenoVersion (pre @ ''Adreno (TM) '' @ k) = g) \<and>
   ((m, h) \<in> set kMaliVersions \<and> CHR ''M'' \<notin> set pre \<and> (extra = [] \<or> hd extra = CHR ''-'') \<longrightarrow>
      GetMaliVersion (pre @ ''Mali-'' @ m @ extra) = h) \<and>
   (GetAdrenoVersion name \<noteq> AdrenoGPU.kUnknown \<longrightarrow>
      (\<exists>p k. name = p @ ''Adreno (TM) '' @ k \<and> (k, GetAdrenoVersion name) \<in> set kAdrenoVersions))"
proof (intro conjI impI)
  assume "(k, g) \<in> set kAdrenoVersions \<and> CHR ''A'' \<notin> set pre"
  then show "GetAdrenoVersion (pre @ ''Adreno (TM) '' @ k) = g"
    using map_of_is_SomeI [OF kAdrenoVersions_distinct, of k g] GetAdrenoVersion_named [of pre k]
    by simp
next
  assume a: "(m, h) \<in> set kMaliVersions \<and> CHR ''M'' \<notin> set pre \<and> (extra = [] \<or> hd extra = CHR ''-'')"
  then have "CHR ''-'' \<notin> set m" using kMaliVersions_no_dash by blast
  then show "GetMaliVersion (pre @ ''Mali-'' @ m @ extra) = h"
    using a map_of_is_SomeI [OF kMaliVersions_distinct, of m h] GetMaliVersion_named [of pre m extra]
    by simp
next
  assume a: "GetAdrenoVersion name \<noteq> AdrenoGPU.kUnknown"
  then obtain n where n: "str_find ''Adreno (TM) '' name = Some n"
    by (auto simp: GetAdrenoVersion_def split: option.splits)
  let ?k = "drop (n + 12) name"
  from a n have "map_of kAdrenoVersions ?k = Some (GetAdrenoVersion name)"
    by (auto simp: GetAdrenoVersion_def split: option.splits)
  moreover have "name = take n name @ ''Adreno (TM) '' @ ?k"
    using str_find_split [OF n] by (simp add: numeral_eq_Suc)
  ultimately show "\<exists>p k. name = p @ ''Adreno (TM) '' @ k \<and>
      (k, GetAdrenoVersion name) \<in> set kAdrenoVersions" by (metis map_of_SomeD)
qed

theorem device_names_recognised_witness:
  "GetAdrenoVersion ''Qualcomm Adreno (TM) 650'' = kAdreno650 \<and>
   GetMaliVersion ''Mali-G78-MC20'' = kG78"
proof -
  have "GetAdrenoVersion (''Qualcomm '' @ ''Adreno (TM) '' @ ''650'') = kAdreno650"
    using device_names_recognised [of "''650''" kAdreno650 "''Qualcomm ''"]
    by (simp add: kAdrenoVersions_def)
  moreover have "GetMaliVersion ('''' @ ''Mali-'' @ ''G78'' @ ''-MC20'') = kG78"
    using device_names_recognised [of _ _ "''''" "''G78''" kG78 "''-MC20''"]
    by (simp add: kMaliVersions_def)
  ultimately show ?thesis by simp
qed

text \<open>
  The checks of a driver and its workarounds fit together: on a driver that is not
  rejected as known bad, Adreno devices are exactly those with slow primitive restart and
  broken mipmap generation, PowerVR devices exactly those with broken input attachments, and the
  submission batching for early Adreno 600 devices is never needed.
\<close>

theorem accepted_driver_workarounds:
  assumes "\<not> IsKnownBadDriver android (DriverInfo vk props)"
  shows "\<not> batch_submit_command_buffer_timeout (GetWorkaroundsFromDriverInfo (DriverInfo vk props)) \<and>
    (slow_primitive_restart_performance (GetWorkaroundsFromDriverInfo (DriverInfo vk props)) \<longleftrightarrow>
       IdentifyVendor (mesa_id vk) (vendorID props) = kQualcomm) \<and>
    (broken_mipmap_generation (GetWorkaroundsFromDriverInfo (DriverInfo vk props)) \<longleftrightarrow>
       IdentifyVendor (mesa_id vk) (vendorID props) = kQualcomm) \<and>
    (input_attachment_self_dependency_broken
         (GetWorkaroundsFromDriverInfo (DriverInfo vk props)) \<longleftrightarrow>
       IdentifyVendor (mesa_id vk) (vendorID props) = kImgTec)"
  using assms
  by (auto simp: DriverInfo_def Let_def GetWorkaroundsFromDriverInfo_def IsKnownBadDriver_def
      no_workarounds_def split: if_splits)

definition demo_header :: vulkan_header where
  "demo_header = \<lparr>mesa_id = 0x10005, api_major = (\<lambda>v. drop_bit 22 v AND 0x7F),
     api_minor = (\<lambda>v. drop_bit 12 v AND 0x3FF), api_patch = (\<lambda>v. v AND 0xFFF)\<rparr>"

definition demo_device :: device_properties where
  "demo_device = \<lparr>apiVersion = 0x403000, driverVersion = 1, vendorID = 0x5143, deviceID = 1,
     deviceType = eIntegratedGpu, deviceName = ''Adreno (TM) 660''\<rparr>"

theorem accepted_driver_workarounds_witness:
  "\<not> IsKnownBadDriver True (DriverInfo demo_header demo_device) \<and>
   slow_primitive_restart_performance
     (GetWorkaroundsFromDriverInfo (DriverInfo demo_header demo_device))"
proof -
  have v: "IdentifyVendor (mesa_id demo_header) (vendorID demo_device) = kQualcomm"
    by (simp add: IdentifyVendor_def demo_device_def)
  have "GetAdrenoVersion (deviceName demo_device) = kAdreno660"
    by (simp add: demo_device_def GetAdrenoVersion_def kAdrenoVersions_def)
  then have "\<not> IsKnownBadDriver True (DriverInfo demo_header demo_device)"
    using v by (simp add: DriverInfo_def IsKnownBadDriver_def Let_def)
  with accepted_driver_workarounds [OF this] v show ?thesis by simp
qed

text \<open>The entry of the table for the 732 has the key of the 721.\<close>

lemma adreno_732_unknown:
  "GetAdrenoVersion ''Adreno (TM) 732'' = AdrenoGPU.kUnknown \<and>
   GetAdrenoVersion ''Adreno (TM) 721'' = kAdreno732"
  by (simp add: GetAdrenoVersion_def kAdrenoVersions_def)

text \<open>
  A device without a recognised PowerVR series is treated as the oldest one, and the series the
  comment names as the first with good drivers is not the oldest one that is accepted.
\<close>

lemma powervr_threshold:
  "GetPowerVRVersion ''PowerVR Rogue GE8320'' = PowerVRGPU.kUnknown"
  "val_PowerVRGPU PowerVRGPU.kUnknown < val_PowerVRGPU kBXE"
  "val_PowerVRGPU kBXE < val_PowerVRGPU kCXT"
  by (simp_all add: GetPowerVRVersion_def kGpuSeriesMap_def)

text \<open>The vectors of at most three numbers and the versions that print differently.\<close>

lemma FromVector_total: "FromVector v \<noteq> None \<longleftrightarrow> length v \<le> 3"
proof -
  have "length v \<le> 3 \<longleftrightarrow> length v = 0 \<or> length v = 1 \<or> length v = 2 \<or> length v = 3" by arith
  then show ?thesis by (simp add: FromVector_def)
qed

lemma FromVector_at_least:
  "FromVector (a # as) = Some v \<Longrightarrow> IsAtLeast v (Version a 0 0)"
  by (auto simp: FromVector_def IsAtLeast_def less_eq_version_def less_version_def split: if_splits)

end
