(* ===== verification/Host_Buffer.thy ===== *)
theory Host_Buffer
  imports Descriptors
begin

text \<open>
  The arena that hands out host visible memory for a frame: \<^verbatim>\<open>src/hal/host_buffer.{h,cc}\<close> and the
  bounds of \<^verbatim>\<open>DeviceBufferVK::CopyHostBuffer\<close> (\<^verbatim>\<open>src/hal/device_buffer_vk.cc\<close>).

  The memory of a device buffer is a map from positions to bytes and a buffer is named by the
  number of the call that created it. Whether a call of the allocator succeeds is a parameter, a
  predicate on that number. Flushing a range does not change what the host reads. A \<open>size_t\<close> is
  a number; where a sum can exceed 64 bits the wrap-around is written out.
\<close>

subsection \<open>Device memory\<close>

record device =
  calls :: nat
  size_of :: "nat \<Rightarrow> nat"
  memory :: "nat \<Rightarrow> nat \<Rightarrow> u8"

definition CreateBuffer :: "(nat \<Rightarrow> bool) \<Rightarrow> nat \<Rightarrow> device \<Rightarrow> nat option \<times> device" where
  "CreateBuffer ok n d =
     (if ok (calls d)
      then (Some (calls d), d\<lparr>calls := Suc (calls d), size_of := (size_of d)(calls d := n)\<rparr>)
      else (None, d\<lparr>calls := Suc (calls d)\<rparr>))"

definition put_bytes :: "nat \<Rightarrow> u8 list \<Rightarrow> (nat \<Rightarrow> u8) \<Rightarrow> nat \<Rightarrow> u8" where
  "put_bytes at bs m = (\<lambda>i. if at \<le> i \<and> i < at + length bs then bs ! (i - at) else m i)"

definition write_bytes :: "nat \<Rightarrow> nat \<Rightarrow> u8 list \<Rightarrow> device \<Rightarrow> device result" where
  "write_bytes b at bs d =
     (if at + length bs \<le> size_of d b
      then Inr (d\<lparr>memory := (memory d)(b := put_bytes at bs (memory d b))\<rparr>)
      else Inl Undefined_Behaviour)"

definition read_bytes :: "nat \<Rightarrow> nat \<Rightarrow> nat \<Rightarrow> device \<Rightarrow> u8 list" where
  "read_bytes b at n d = map (memory d b) [at ..< at + n]"

text \<open>
  A copy from a pointer that is not null and has at least \<open>n\<close> bytes behind it: whether it was
  done.
\<close>

definition CopyHostBuffer :: "StorageMode \<Rightarrow> nat \<Rightarrow> u8 list option \<Rightarrow> nat \<Rightarrow> nat \<Rightarrow> device \<Rightarrow>
  (bool \<times> device) result"
where
  "CopyHostBuffer mode b source n off d =
     (if n = 0 then Inr (True, d)
      else case source of
        None \<Rightarrow> Inr (False, d)
      | Some bs \<Rightarrow>
          if mode \<noteq> kHostVisible then Inr (False, d)
          else if (off + n) mod 2 ^ 64 > size_of d b then Inr (False, d)
          else rbind (guard Undefined_Behaviour (n \<le> length bs)) (\<lambda>_.
               rbind (write_bytes b off (take n bs) d) (\<lambda>d'. Inr (True, d'))))"

subsection \<open>The buffer\<close>

definition kAllocatorBlockSize :: nat where "kAllocatorBlockSize = 1024000"
definition kHostBufferArenaSize :: nat where "kHostBufferArenaSize = 4"

record host_buffer =
  dev :: device
  device_buffers :: "nat list list"
  current_buffer :: nat
  hb_offset :: nat
  frame_index :: nat
  minimum_uniform_alignment :: nat

fun create_arenas :: "(nat \<Rightarrow> bool) \<Rightarrow> nat \<Rightarrow> nat list list \<Rightarrow> device \<Rightarrow>
  (nat list list \<times> device) result"
where
  "create_arenas ok 0 bs d = Inr (bs, d)"
| "create_arenas ok (Suc n) bs d =
     (case CreateBuffer ok kAllocatorBlockSize d of
        (None, _) \<Rightarrow> Inl Check_Failed
      | (Some b, d') \<Rightarrow> create_arenas ok n (bs @ [[b]]) d')"

definition HostBuffer :: "(nat \<Rightarrow> bool) \<Rightarrow> nat \<Rightarrow> device \<Rightarrow> host_buffer result" where
  "HostBuffer ok align d =
     rbind (create_arenas ok kHostBufferArenaSize [] d) (\<lambda>(bs, d').
       Inr \<lparr>dev = d', device_buffers = bs, current_buffer = 0, hb_offset = 0, frame_index = 0,
            minimum_uniform_alignment = align\<rparr>)"

abbreviation frame_buffers :: "host_buffer \<Rightarrow> nat list" where
  "frame_buffers s \<equiv> device_buffers s ! frame_index s"

definition MaybeCreateNewBuffer :: "(nat \<Rightarrow> bool) \<Rightarrow> host_buffer \<Rightarrow> bool \<times> host_buffer" where
  "MaybeCreateNewBuffer ok s =
     (let s1 = s\<lparr>current_buffer := current_buffer s + 1\<rparr>
      in if current_buffer s1 \<ge> length (frame_buffers s1)
         then (case CreateBuffer ok kAllocatorBlockSize (dev s1) of
                 (None, d) \<Rightarrow> (False, s1\<lparr>dev := d\<rparr>)
               | (Some b, d) \<Rightarrow>
                   (True, s1\<lparr>dev := d,
                      device_buffers := (device_buffers s1)
                        [frame_index s1 := frame_buffers s1 @ [b]],
                      hb_offset := 0\<rparr>))
         else (True, s1\<lparr>hb_offset := 0\<rparr>))"

text \<open>Indexing the vector of buffers past its end is undefined.\<close>

definition GetCurrentBuffer :: "host_buffer \<Rightarrow> nat result" where
  "GetCurrentBuffer s =
     (if current_buffer s < length (frame_buffers s)
      then Inr (frame_buffers s ! current_buffer s) else Inl Undefined_Behaviour)"

text \<open>
  What an internal emplacement returns: the range and the owning or borrowed buffer; \<open>None\<close> is
  the empty tuple.
\<close>

record emplaced =
  em_offset :: nat
  em_length :: nat
  em_shared :: "nat option"
  em_raw :: "nat option"

type_synonym emplace_result = "(emplaced option \<times> host_buffer) result"

definition EmplaceInternal_cb ::
  "(nat \<Rightarrow> bool) \<Rightarrow> nat \<Rightarrow> nat \<Rightarrow> u8 list option \<Rightarrow> host_buffer \<Rightarrow> emplace_result"
where
  "EmplaceInternal_cb ok n align cb s =
     (case cb of
        None \<Rightarrow> Inr (None, s)
      | Some bs \<Rightarrow>
          if n > kAllocatorBlockSize then
            (case CreateBuffer ok n (dev s) of
               (None, d) \<Rightarrow> Inr (None, s\<lparr>dev := d\<rparr>)
             | (Some b, d) \<Rightarrow>
                 rbind (write_bytes b 0 bs d) (\<lambda>d'.
                   Inr (Some \<lparr>em_offset = 0, em_length = n, em_shared = Some b, em_raw = None\<rparr>,
                        s\<lparr>dev := d'\<rparr>)))
          else
            let padding = (if align > 0 \<and> hb_offset s mod align \<noteq> 0
                           then align - hb_offset s mod align else 0);
                (created, s1) =
                  (if (hb_offset s + padding + n) mod 2 ^ 64 > kAllocatorBlockSize
                   then MaybeCreateNewBuffer ok s
                   else (True, s\<lparr>hb_offset := (hb_offset s + padding) mod 2 ^ 64\<rparr>))
            in if \<not> created then Inr (None, s1)
               else rbind (GetCurrentBuffer s1) (\<lambda>b.
                    rbind (write_bytes b (hb_offset s1) bs (dev s1)) (\<lambda>d'.
                      Inr (Some \<lparr>em_offset = hb_offset s1, em_length = n, em_shared = None,
                                  em_raw = Some b\<rparr>,
                           s1\<lparr>dev := d', hb_offset := hb_offset s1 + n\<rparr>))))"

definition EmplaceInternal_raw ::
  "(nat \<Rightarrow> bool) \<Rightarrow> u8 list option \<Rightarrow> nat \<Rightarrow> host_buffer \<Rightarrow> emplace_result"
where
  "EmplaceInternal_raw ok buffer n s =
     (if n > kAllocatorBlockSize then
        (case CreateBuffer ok n (dev s) of
           (None, d) \<Rightarrow> Inr (None, s\<lparr>dev := d\<rparr>)
         | (Some b, d) \<Rightarrow>
             (case buffer of
                None \<Rightarrow>
                  Inr (Some \<lparr>em_offset = 0, em_length = n, em_shared = Some b, em_raw = None\<rparr>,
                       s\<lparr>dev := d\<rparr>)
              | Some bs \<Rightarrow>
                  rbind (CopyHostBuffer kHostVisible b (Some bs) n 0 d) (\<lambda>(copied, d').
                    if copied
                    then Inr (Some \<lparr>em_offset = 0, em_length = n, em_shared = Some b,
                                     em_raw = None\<rparr>, s\<lparr>dev := d'\<rparr>)
                    else Inr (None, s\<lparr>dev := d'\<rparr>))))
      else
        let (created, s1) =
              (if (hb_offset s + n) mod 2 ^ 64 > kAllocatorBlockSize
               then MaybeCreateNewBuffer ok s else (True, s))
        in if \<not> created then Inr (None, s1)
           else rbind (GetCurrentBuffer s1) (\<lambda>b.
                rbind (case buffer of
                         None \<Rightarrow> Inr (dev s1)
                       | Some bs \<Rightarrow> rbind (guard Undefined_Behaviour (n \<le> length bs)) (\<lambda>_.
                           write_bytes b (hb_offset s1) (take n bs) (dev s1))) (\<lambda>d'.
                  Inr (Some \<lparr>em_offset = hb_offset s1, em_length = n, em_shared = None,
                              em_raw = Some b\<rparr>,
                       s1\<lparr>dev := d', hb_offset := hb_offset s1 + n\<rparr>))))"

definition EmplaceInternal ::
  "(nat \<Rightarrow> bool) \<Rightarrow> u8 list option \<Rightarrow> nat \<Rightarrow> nat \<Rightarrow> host_buffer \<Rightarrow> emplace_result"
where
  "EmplaceInternal ok buffer n align s =
     (if align = 0 \<or> hb_offset s mod align = 0 then EmplaceInternal_raw ok buffer n s
      else
        let padding = align - hb_offset s mod align;
            (created, s1) =
              (if (hb_offset s + padding) mod 2 ^ 64 < kAllocatorBlockSize
               then (True, s\<lparr>hb_offset := (hb_offset s + padding) mod 2 ^ 64\<rparr>)
               else MaybeCreateNewBuffer ok s)
        in if \<not> created then Inr (None, s1) else EmplaceInternal_raw ok buffer n s1)"

text \<open>The public functions wrap the tuple into a view.\<close>

definition to_view :: "emplaced option \<Rightarrow> buffer_view" where
  "to_view r =
     (case r of
        None \<Rightarrow> BufferView_empty
      | Some e \<Rightarrow>
          (let rg = \<lparr>roffset = of_nat (em_offset e), rlength = of_nat (em_length e)\<rparr>
           in if em_shared e \<noteq> None then BufferView_shared (em_shared e) rg
              else if em_raw e \<noteq> None then BufferView_raw (em_raw e) rg
              else BufferView_empty))"

definition Emplace_aligned ::
  "(nat \<Rightarrow> bool) \<Rightarrow> u8 list option \<Rightarrow> nat \<Rightarrow> nat \<Rightarrow> host_buffer \<Rightarrow> (buffer_view \<times> host_buffer) result"
where
  "Emplace_aligned ok buffer n align s =
     rbind (EmplaceInternal ok buffer n align s) (\<lambda>(r, s'). Inr (to_view r, s'))"

definition Emplace_plain ::
  "(nat \<Rightarrow> bool) \<Rightarrow> u8 list option \<Rightarrow> nat \<Rightarrow> host_buffer \<Rightarrow> (buffer_view \<times> host_buffer) result"
where
  "Emplace_plain ok buffer n s =
     rbind (EmplaceInternal_raw ok buffer n s) (\<lambda>(r, s'). Inr (to_view r, s'))"

definition Emplace_cb ::
  "(nat \<Rightarrow> bool) \<Rightarrow> nat \<Rightarrow> nat \<Rightarrow> u8 list option \<Rightarrow> host_buffer \<Rightarrow> (buffer_view \<times> host_buffer) result"
where
  "Emplace_cb ok n align cb s =
     rbind (EmplaceInternal_cb ok n align cb s) (\<lambda>(r, s'). Inr (to_view r, s'))"

text \<open>Structures given by their bytes and the alignment of their type.\<close>

definition EmplaceUniform ::
  "(nat \<Rightarrow> bool) \<Rightarrow> u8 list \<Rightarrow> nat \<Rightarrow> host_buffer \<Rightarrow> (buffer_view \<times> host_buffer) result"
where
  "EmplaceUniform ok uniform alignof s =
     Emplace_aligned ok (Some uniform) (length uniform) (max alignof (minimum_uniform_alignment s)) s"

definition EmplaceStorageBuffer ::
  "(nat \<Rightarrow> bool) \<Rightarrow> u8 list \<Rightarrow> nat \<Rightarrow> host_buffer \<Rightarrow> (buffer_view \<times> host_buffer) result"
where
  "EmplaceStorageBuffer ok buffer alignof s =
     Emplace_aligned ok (Some buffer) (length buffer) (max alignof (minimum_uniform_alignment s)) s"

definition Emplace_typed ::
  "(nat \<Rightarrow> bool) \<Rightarrow> u8 list \<Rightarrow> nat \<Rightarrow> nat \<Rightarrow> host_buffer \<Rightarrow> (buffer_view \<times> host_buffer) result"
where
  "Emplace_typed ok buffer alignof alignment s =
     Emplace_aligned ok (Some buffer) (length buffer) (max alignment alignof) s"

definition Reset :: "host_buffer \<Rightarrow> host_buffer" where
  "Reset s =
     s\<lparr>device_buffers := (device_buffers s)
         [frame_index s := take (current_buffer s + 1) (frame_buffers s)],
       hb_offset := 0, current_buffer := 0,
       frame_index := (frame_index s + 1) mod kHostBufferArenaSize\<rparr>"

definition GetStateForTest :: "host_buffer \<Rightarrow> nat \<times> nat \<times> nat" where
  "GetStateForTest s = (frame_index s, current_buffer s, length (frame_buffers s))"

end
