(* ===== verification/Host_Buffer_Props.thy ===== *)
theory Host_Buffer_Props
  imports Host_Buffer
begin

text \<open>
  The host buffer as its clients see it: a log of the byte blocks that were emplaced, with the
  view each was given and its age in frames. The views keep reading the bytes that were put into
  them until the arena of their frame is used again, and a host buffer does not fail as long as
  the allocator does not.
\<close>

subsection \<open>The log\<close>

text \<open>The age in calls of \<open>Reset\<close>, the view and the bytes behind it.\<close>

type_synonym entry = "nat \<times> buffer_view \<times> u8 list"

definition logged :: "buffer_view \<Rightarrow> u8 list \<Rightarrow> entry list \<Rightarrow> entry list" where
  "logged v bs log = (if bv_to_bool v then (0, v, bs) # log else log)"

text \<open>
  At a reset, views into the arena that is used next expire; owning views never do.
\<close>

definition grow_old :: "entry list \<Rightarrow> entry list" where
  "grow_old log =
     map (\<lambda>(a, v, bs). (Suc a, v, bs))
       (filter (\<lambda>(a, v, bs). Suc a < kHostBufferArenaSize \<or> bv_buffer v \<noteq> None) log)"

definition read_view :: "device \<Rightarrow> buffer_view \<Rightarrow> nat \<Rightarrow> u8 list" where
  "read_view d v n =
     (case bv_GetBuffer v of
        None \<Rightarrow> []
      | Some b \<Rightarrow> read_bytes b (unat (roffset (bv_range v))) n d)"

datatype hb_event = put_plain | put_aligned nat | put_cb nat | put_nothing | next_frame

inductive hb_step ::
  "(nat \<Rightarrow> bool) \<Rightarrow> host_buffer \<times> entry list \<Rightarrow> hb_event \<Rightarrow> host_buffer \<times> entry list \<Rightarrow> bool"
  for ok
where
  step_plain: "Emplace_plain ok (Some bs) (length bs) s = Inr (v, s') \<Longrightarrow> length bs < 2 ^ 63 \<Longrightarrow>
    hb_step ok (s, log) put_plain (s', logged v bs log)"
| step_aligned: "Emplace_aligned ok (Some bs) (length bs) align s = Inr (v, s') \<Longrightarrow>
    length bs < 2 ^ 63 \<Longrightarrow> align < 2 ^ 63 \<Longrightarrow>
    hb_step ok (s, log) (put_aligned align) (s', logged v bs log)"
| step_cb: "Emplace_cb ok n align (Some bs) s = Inr (v, s') \<Longrightarrow> length bs \<le> n \<Longrightarrow> n < 2 ^ 63 \<Longrightarrow>
    align < 2 ^ 63 \<Longrightarrow> hb_step ok (s, log) (put_cb align) (s', logged v bs log)"
| step_nothing: "Emplace_aligned ok None n align s = Inr (v, s') \<Longrightarrow> n < 2 ^ 63 \<Longrightarrow>
    align < 2 ^ 63 \<Longrightarrow> hb_step ok (s, log) put_nothing (s', log)"
| step_reset: "hb_step ok (s, log) next_frame (Reset s, grow_old log)"

definition hb_start :: "(nat \<Rightarrow> bool) \<Rightarrow> host_buffer \<times> entry list \<Rightarrow> bool" where
  "hb_start ok x \<longleftrightarrow>
     (\<exists>align d. calls d = 0 \<and> HostBuffer ok align d = Inr (fst x)) \<and> snd x = []"

subsection \<open>The invariant\<close>

definition slot :: "host_buffer \<Rightarrow> nat \<Rightarrow> nat \<Rightarrow> nat \<Rightarrow> bool" where
  "slot s f k b \<longleftrightarrow> f < 4 \<and> k < length (device_buffers s ! f) \<and> device_buffers s ! f ! k = b"

definition hb_ok :: "host_buffer \<Rightarrow> bool" where
  "hb_ok s \<longleftrightarrow>
     length (device_buffers s) = 4 \<and> frame_index s < 4 \<and> hb_offset s \<le> kAllocatorBlockSize \<and>
     (\<forall>f k b. slot s f k b \<longrightarrow>
        b < calls (dev s) \<and> size_of (dev s) b = kAllocatorBlockSize) \<and>
     (\<forall>f k g j b. slot s f k b \<longrightarrow> slot s g j b \<longrightarrow> f = g \<and> k = j)"

definition frame_of :: "host_buffer \<Rightarrow> nat \<Rightarrow> nat" where
  "frame_of s age = (frame_index s + 4 - age) mod 4"

definition placed :: "host_buffer \<Rightarrow> nat \<Rightarrow> buffer_view \<Rightarrow> nat \<Rightarrow> nat \<Rightarrow> bool" where
  "placed s a v b e \<longleftrightarrow>
     bv_buffer v = Some b \<and> (\<forall>f k. \<not> slot s f k b) \<or>
     bv_buffer v = None \<and> a < 4 \<and>
       (\<exists>k. slot s (frame_of s a) k b \<and>
          (a = 0 \<longrightarrow> k < current_buffer s \<or> k = current_buffer s \<and> e \<le> hb_offset s))"

definition entry_ok :: "host_buffer \<Rightarrow> entry \<Rightarrow> bool" where
  "entry_ok s x \<longleftrightarrow>
     (case x of (a, v, bs) \<Rightarrow>
        \<exists>b off. bv_GetBuffer v = Some b \<and> roffset (bv_range v) = of_nat off \<and>
          off \<le> kAllocatorBlockSize \<and> b < calls (dev s) \<and>
          off + length bs \<le> size_of (dev s) b \<and>
          (\<forall>i < length bs. memory (dev s) b (off + i) = bs ! i) \<and>
          placed s a v b (off + length bs))"

definition hb_inv :: "host_buffer \<times> entry list \<Rightarrow> bool" where
  "hb_inv x \<longleftrightarrow> hb_ok (fst x) \<and> (\<forall>e \<in> set (snd x). entry_ok (fst x) e)"

lemma hb_inv_pair [simp]: "hb_inv (s, log) \<longleftrightarrow> hb_ok s \<and> (\<forall>e \<in> set log. entry_ok s e)"
  by (simp add: hb_inv_def)

lemma slot_dev [simp]: "slot (s\<lparr>dev := d\<rparr>) = slot s"
  by (simp add: slot_def fun_eq_iff)

lemma slot_offset [simp]: "slot (s\<lparr>hb_offset := n\<rparr>) = slot s"
  by (simp add: slot_def fun_eq_iff)

lemma slot_current [simp]: "slot (s\<lparr>current_buffer := n\<rparr>) = slot s"
  by (simp add: slot_def fun_eq_iff)

lemma frame_of_simps [simp]:
  "frame_of (s\<lparr>dev := d\<rparr>) = frame_of s" "frame_of (s\<lparr>hb_offset := n\<rparr>) = frame_of s"
  "frame_of (s\<lparr>current_buffer := n\<rparr>) = frame_of s" "frame_of (s\<lparr>device_buffers := bs\<rparr>) = frame_of s"
  by (simp_all add: frame_of_def fun_eq_iff)

lemma frame_of_self: "hb_ok s \<Longrightarrow> a < 4 \<Longrightarrow> frame_of s a = frame_index s \<longleftrightarrow> a = 0"
proof -
  assume "hb_ok s" "a < 4"
  then have f: "frame_index s \<in> {0, 1, 2, 3}" and a: "a \<in> {0, 1, 2, 3}" by (auto simp: hb_ok_def)
  from f a show ?thesis by (auto simp: frame_of_def)
qed

subsection \<open>Preservation\<close>

text \<open>A device that changed only outside of the known buffers.\<close>

lemma hb_inv_dev:
  assumes "hb_inv (s, log)" "calls (dev s) \<le> calls d"
    and "\<And>b. b < calls (dev s) \<Longrightarrow> size_of d b = size_of (dev s) b \<and> memory d b = memory (dev s) b"
  shows "hb_inv (s\<lparr>dev := d\<rparr>, log)"
proof -
  have "hb_ok (s\<lparr>dev := d\<rparr>)" using assms by (fastforce simp: hb_ok_def)
  moreover have "entry_ok (s\<lparr>dev := d\<rparr>) e" if e: "entry_ok s e" for e
    using e assms(2,3) by (cases e) (fastforce simp: entry_ok_def placed_def)
  ultimately show ?thesis using assms(1) by simp
qed

lemma CreateBuffer_cases:
  assumes "CreateBuffer ok n d = (r, d')"
  shows "calls d' = Suc (calls d) \<and> memory d' = memory d \<and>
         (\<forall>b < calls d. size_of d' b = size_of d b) \<and>
         (r = None \<or> r = Some (calls d) \<and> size_of d' (calls d) = n)"
  using assms by (auto simp: CreateBuffer_def split: if_splits)

lemma hb_inv_create:
  "hb_inv (s, log) \<Longrightarrow> CreateBuffer ok n (dev s) = (r, d) \<Longrightarrow> hb_inv (s\<lparr>dev := d\<rparr>, log)"
  by (drule CreateBuffer_cases, erule hb_inv_dev) auto

lemma hb_inv_offset:
  assumes "hb_inv (s, log)" "hb_offset s \<le> n" "n \<le> kAllocatorBlockSize"
  shows "hb_inv (s\<lparr>hb_offset := n\<rparr>, log)"
proof -
  have "hb_ok (s\<lparr>hb_offset := n\<rparr>)" using assms by (fastforce simp: hb_ok_def)
  moreover have "entry_ok (s\<lparr>hb_offset := n\<rparr>) e" if e: "entry_ok s e" for e
    using e assms(2) by (cases e) (fastforce simp: entry_ok_def placed_def)
  ultimately show ?thesis using assms(1) by simp
qed

lemma hb_inv_next:
  assumes "hb_inv (s, log)" "n \<le> kAllocatorBlockSize"
  shows "hb_inv (s\<lparr>current_buffer := current_buffer s + 1, hb_offset := n\<rparr>, log)"
proof -
  let ?t = "s\<lparr>current_buffer := current_buffer s + 1, hb_offset := n\<rparr>"
  have "hb_ok ?t" using assms by (fastforce simp: hb_ok_def)
  moreover have "entry_ok ?t e" if e: "entry_ok s e" for e
    using e by (cases e) (fastforce simp: entry_ok_def placed_def)
  ultimately show ?thesis using assms(1) by simp
qed

definition add_buffer :: "nat \<Rightarrow> host_buffer \<Rightarrow> host_buffer" where
  "add_buffer b s =
     s\<lparr>device_buffers := (device_buffers s)[frame_index s := frame_buffers s @ [b]]\<rparr>"

lemma add_buffer_simps [simp]:
  "dev (add_buffer b s) = dev s" "frame_index (add_buffer b s) = frame_index s"
  "current_buffer (add_buffer b s) = current_buffer s" "hb_offset (add_buffer b s) = hb_offset s"
  "length (device_buffers (add_buffer b s)) = length (device_buffers s)"
  "frame_of (add_buffer b s) = frame_of s"
  by (simp_all add: add_buffer_def)

lemma slot_add_buffer:
  assumes "hb_ok s"
  shows "slot (add_buffer b s) f k c \<longleftrightarrow>
         slot s f k c \<or> f = frame_index s \<and> k = length (frame_buffers s) \<and> c = b"
  using assms
  by (auto simp: slot_def add_buffer_def hb_ok_def nth_list_update nth_append less_Suc_eq)

lemma hb_inv_add_buffer:
  assumes inv: "hb_inv (s, log)"
    and fresh: "\<And>f k. \<not> slot s f k b" "b < calls (dev s)" "size_of (dev s) b = kAllocatorBlockSize"
    and unused: "\<And>a v bs. (a, v, bs) \<in> set log \<Longrightarrow> bv_GetBuffer v \<noteq> Some b"
  shows "hb_inv (add_buffer b s, log)"
proof -
  have ok: "hb_ok s" using inv by simp
  note S = slot_add_buffer [OF ok]
  have "hb_ok (add_buffer b s)"
    using ok fresh unfolding hb_ok_def by (auto simp: S [unfolded hb_ok_def])
  moreover have "entry_ok (add_buffer b s) e" if e: "entry_ok s e" "e \<in> set log" for e
  proof -
    obtain a v bs where x: "e = (a, v, bs)" by (cases e) auto
    then have "bv_GetBuffer v \<noteq> Some b" using e(2) unused by blast
    then show ?thesis using e(1) unfolding x by (fastforce simp: entry_ok_def placed_def S)
  qed
  ultimately show ?thesis using inv by simp
qed

lemma entry_buffer_known:
  "entry_ok s (a, v, bs) \<Longrightarrow> bv_GetBuffer v = Some b \<Longrightarrow> b < calls (dev s)"
  by (auto simp: entry_ok_def)

lemma hb_inv_MaybeCreateNewBuffer:
  assumes inv: "hb_inv (s, log)" and m: "MaybeCreateNewBuffer ok s = (c, s')"
  shows "hb_inv (s', log) \<and> frame_index s' = frame_index s \<and>
         (c \<longrightarrow> hb_offset s' = 0)"
proof -
  let ?s1 = "s\<lparr>current_buffer := current_buffer s + 1\<rparr>"
  let ?s2 = "s\<lparr>current_buffer := current_buffer s + 1, hb_offset := 0\<rparr>"
  have off: "hb_offset s \<le> kAllocatorBlockSize" using inv by (simp add: hb_ok_def)
  have "hb_inv (s\<lparr>current_buffer := current_buffer s + 1, hb_offset := hb_offset s\<rparr>, log)"
    by (rule hb_inv_next [OF inv off])
  then have i1: "hb_inv (?s1, log)" by simp
  have i2: "hb_inv (?s2, log)" using hb_inv_next [OF inv, of 0] by simp
  show ?thesis
  proof (cases "current_buffer s + 1 \<ge> length (frame_buffers s)")
    case False
    then have "s' = ?s2" using m by (simp add: MaybeCreateNewBuffer_def Let_def)
    then show ?thesis using i2 by simp
  next
    case True
    obtain r d where cb: "CreateBuffer ok kAllocatorBlockSize (dev s) = (r, d)" by fastforce
    note C = CreateBuffer_cases [OF cb]
    show ?thesis
    proof (cases r)
      case None
      then have "s' = ?s1\<lparr>dev := d\<rparr>" using m True cb
        by (simp add: MaybeCreateNewBuffer_def Let_def)
      then show ?thesis using hb_inv_create [OF i1, of ok kAllocatorBlockSize r d] cb m True None
        by (simp add: MaybeCreateNewBuffer_def Let_def)
    next
      case (Some b)
      then have b: "b = calls (dev s)" using C by simp
      let ?t = "?s2\<lparr>dev := d\<rparr>"
      have i3: "hb_inv (?t, log)" by (rule hb_inv_create [OF i2, of ok kAllocatorBlockSize r d]) (simp add: cb)
      have s': "s' = add_buffer b ?t" using m True cb Some
        by (auto simp: MaybeCreateNewBuffer_def add_buffer_def Let_def)
      have "hb_inv (add_buffer b ?t, log)"
      proof (rule hb_inv_add_buffer [OF i3])
        show "\<not> slot ?t f k b" for f k using inv b by (auto simp: hb_ok_def)
        show "b < calls (dev ?t)" "size_of (dev ?t) b = kAllocatorBlockSize" using C b Some by auto
        show "bv_GetBuffer v \<noteq> Some b" if "(a, v, bs) \<in> set log" for a v bs
          using inv that entry_buffer_known [of s a v bs b] b by auto
      qed
      then show ?thesis unfolding s' by simp
    qed
  qed
qed

text \<open>Writing behind the offset of the current buffer.\<close>

lemma write_bytes_Inr:
  assumes "write_bytes b at bs d = Inr d'"
  shows "at + length bs \<le> size_of d b \<and>
         d' = d\<lparr>memory := (memory d)(b := put_bytes at bs (memory d b))\<rparr>"
  using assms by (auto simp: write_bytes_def split: if_splits)

lemma put_bytes_other: "i < at \<or> at + length bs \<le> i \<Longrightarrow> put_bytes at bs m i = m i"
  by (auto simp: put_bytes_def)

lemma put_bytes_same: "i < length bs \<Longrightarrow> put_bytes at bs m (at + i) = bs ! i"
  by (simp add: put_bytes_def)

lemma entry_ok_write:
  assumes ok: "hb_ok s" and e: "entry_ok s x" and cur: "GetCurrentBuffer s = Inr b"
    and w: "write_bytes b (hb_offset s) bs (dev s) = Inr d'"
  shows "entry_ok (s\<lparr>dev := d', hb_offset := hb_offset s + n\<rparr>) x"
proof -
  obtain a v cs where x: "x = (a, v, cs)" by (cases x) auto
  from e[unfolded x] obtain c off where c: "bv_GetBuffer v = Some c" "roffset (bv_range v) = of_nat off"
    "off \<le> kAllocatorBlockSize" "c < calls (dev s)" "off + length cs \<le> size_of (dev s) c"
    "\<forall>i < length cs. memory (dev s) c (off + i) = cs ! i" "placed s a v c (off + length cs)"
    by (auto simp: entry_ok_def)
  note d' = write_bytes_Inr [OF w, THEN conjunct2]
  have sb: "slot s (frame_index s) (current_buffer s) b"
    using ok cur by (auto simp: slot_def hb_ok_def GetCurrentBuffer_def split: if_splits)
  have "off + length cs \<le> hb_offset s" if "c = b"
  proof -
    from c(7) sb that obtain k where k: "a < 4" "slot s (frame_of s a) k b"
      "a = 0 \<longrightarrow> k < current_buffer s \<or> k = current_buffer s \<and> off + length cs \<le> hb_offset s"
      by (auto simp: placed_def)
    then have "frame_of s a = frame_index s \<and> k = current_buffer s"
      using ok sb by (auto simp: hb_ok_def)
    then show ?thesis using k frame_of_self [OF ok k(1)] by simp
  qed
  then have "memory d' c (off + i) = cs ! i" if "i < length cs" for i
    using c(6) that by (cases "c = b") (auto simp: d' put_bytes_other)
  moreover have "placed (s\<lparr>dev := d', hb_offset := hb_offset s + n\<rparr>) a v c (off + length cs)"
    using c(7) by (auto simp: placed_def)
  ultimately show ?thesis using c(1-5) unfolding x entry_ok_def by (auto simp: d')
qed

lemma hb_inv_write:
  assumes inv: "hb_inv (s, log)" and cur: "GetCurrentBuffer s = Inr b"
    and w: "write_bytes b (hb_offset s) bs (dev s) = Inr d'"
    and n: "length bs \<le> n" "hb_offset s + n \<le> kAllocatorBlockSize"
    and v: "bv_buffer v = None" "raw_buffer v = Some b" "roffset (bv_range v) = of_nat (hb_offset s)"
  shows "hb_inv (s\<lparr>dev := d', hb_offset := hb_offset s + n\<rparr>, (0, v, bs) # log)"
proof -
  let ?t = "s\<lparr>dev := d', hb_offset := hb_offset s + n\<rparr>"
  have ok: "hb_ok s" using inv by simp
  note d' = write_bytes_Inr [OF w, THEN conjunct2]
  have sb: "slot s (frame_index s) (current_buffer s) b"
    using ok cur by (auto simp: slot_def hb_ok_def GetCurrentBuffer_def split: if_splits)
  have "hb_ok ?t" using ok n(2) by (fastforce simp: hb_ok_def d')
  moreover have "entry_ok ?t (0, v, bs)"
  proof -
    have "frame_of s 0 = frame_index s" using frame_of_self [OF ok, of 0] by simp
    then have "placed ?t 0 v b (hb_offset s + length bs)" using sb v n(1) by (auto simp: placed_def)
    moreover have "b < calls (dev s)" "size_of (dev s) b = kAllocatorBlockSize"
      using ok sb by (auto simp: hb_ok_def)
    ultimately show ?thesis using v n unfolding entry_ok_def
      by (auto simp: bv_GetBuffer_def d' put_bytes_same intro!: exI [of _ "hb_offset s"])
  qed
  moreover have "entry_ok ?t x" if "x \<in> set log" for x
    using entry_ok_write [OF ok _ cur w] inv that by simp
  ultimately show ?thesis by simp
qed

text \<open>A buffer of its own.\<close>

lemma hb_inv_own:
  assumes inv: "hb_inv (s, log)" and cb: "CreateBuffer ok n (dev s) = (Some b, d)"
    and w: "write_bytes b 0 bs d = Inr d'"
    and v: "bv_buffer v = Some b" "raw_buffer v = None" "roffset (bv_range v) = of_nat 0"
  shows "hb_inv (s\<lparr>dev := d'\<rparr>, (0, v, bs) # log)"
proof -
  note C = CreateBuffer_cases [OF cb] and W = write_bytes_Inr [OF w]
  have b: "b = calls (dev s)" using C by simp
  have i: "hb_inv (s\<lparr>dev := d'\<rparr>, log)"
    by (rule hb_inv_dev [OF inv]) (use C W b in auto)
  have "\<not> slot s f k b" for f k using inv b by (auto simp: hb_ok_def)
  then have "entry_ok (s\<lparr>dev := d'\<rparr>) (0, v, bs)"
    using v W C b unfolding entry_ok_def
    by (auto simp: bv_GetBuffer_def placed_def put_bytes_same [of _ _ 0, simplified] intro!: exI [of _ 0])
  then show ?thesis using i by simp
qed

lemma next_frame_of:
  "f < 4 \<Longrightarrow> a < 4 \<Longrightarrow> ((f + 1) mod 4 + 4 - Suc a) mod 4 = (f + 4 - a) mod (4::nat)"
proof -
  assume "f < 4" "a < 4"
  then have "f \<in> {0, 1, 2, 3}" "a \<in> {0, 1, 2, 3}" by auto
  then show ?thesis by auto
qed

lemma slot_Reset:
  "hb_ok s \<Longrightarrow> slot (Reset s) f k b \<longleftrightarrow> slot s f k b \<and> (f = frame_index s \<longrightarrow> k \<le> current_buffer s)"
  by (auto simp: slot_def Reset_def hb_ok_def nth_list_update less_Suc_eq_le)

lemma entry_ok_Reset:
  assumes ok: "hb_ok s" and e: "entry_ok s (a, v, bs)"
    and live: "Suc a < kHostBufferArenaSize \<or> bv_buffer v \<noteq> None"
  shows "entry_ok (Reset s) (Suc a, v, bs)"
proof -
  have dev: "dev (Reset s) = dev s" by (simp add: Reset_def)
  have "placed (Reset s) (Suc a) v b e" if p: "placed s a v b e" for b e
  proof (cases "bv_buffer v = None")
    case False
    then show ?thesis using p slot_Reset [OF ok] by (auto simp: placed_def)
  next
    case True
    then have a: "Suc a < 4" using live by (simp add: kHostBufferArenaSize_def)
    have f: "frame_of (Reset s) (Suc a) = frame_of s a"
      using next_frame_of [of "frame_index s" a] ok a
      by (simp add: frame_of_def Reset_def kHostBufferArenaSize_def hb_ok_def)
    from True p obtain k where k: "slot s (frame_of s a) k b"
      "a = 0 \<longrightarrow> k < current_buffer s \<or> k = current_buffer s \<and> e \<le> hb_offset s"
      by (auto simp: placed_def)
    have "slot (Reset s) (frame_of (Reset s) (Suc a)) k b"
      using k frame_of_self [OF ok, of a] a unfolding f by (auto simp: slot_Reset [OF ok])
    then show ?thesis using True a by (auto simp: placed_def)
  qed
  then show ?thesis using e by (auto simp: entry_ok_def dev)
qed

lemma hb_inv_Reset:
  assumes "hb_inv (s, log)"
  shows "hb_inv (Reset s, grow_old log)"
proof -
  have ok: "hb_ok s" using assms by simp
  have 1: "length (device_buffers (Reset s)) = 4" "frame_index (Reset s) < 4"
    "hb_offset (Reset s) = 0" "dev (Reset s) = dev s"
    using ok by (simp_all add: Reset_def hb_ok_def kHostBufferArenaSize_def)
  have "hb_ok (Reset s)"
    unfolding hb_ok_def 1 using ok by (auto simp: slot_Reset [OF ok]) (auto simp: hb_ok_def 1)
  moreover have "entry_ok (Reset s) x" if "x \<in> set (grow_old log)" for x
    using that assms entry_ok_Reset [OF ok] by (auto simp: grow_old_def)
  ultimately show ?thesis by simp
qed

subsection \<open>The operations\<close>

lemma raw_view [simp]:
  "bv_buffer (to_view (Some \<lparr>em_offset = x, em_length = n, em_shared = None, em_raw = Some b\<rparr>)) = None"
  "raw_buffer (to_view (Some \<lparr>em_offset = x, em_length = n, em_shared = None, em_raw = Some b\<rparr>)) = Some b"
  "roffset (bv_range (to_view (Some \<lparr>em_offset = x, em_length = n, em_shared = None,
     em_raw = Some b\<rparr>))) = of_nat x"
  by (simp_all add: to_view_def BufferView_raw_def Let_def)

lemma own_view [simp]:
  "bv_buffer (to_view (Some \<lparr>em_offset = x, em_length = n, em_shared = Some b, em_raw = None\<rparr>)) = Some b"
  "raw_buffer (to_view (Some \<lparr>em_offset = x, em_length = n, em_shared = Some b, em_raw = None\<rparr>)) = None"
  "roffset (bv_range (to_view (Some \<lparr>em_offset = x, em_length = n, em_shared = Some b,
     em_raw = None\<rparr>))) = of_nat x"
  by (simp_all add: to_view_def BufferView_shared_def Let_def)

lemma logged_simps [simp]:
  "logged (to_view None) bs log = log"
  "logged (to_view (Some \<lparr>em_offset = x, em_length = n, em_shared = None, em_raw = Some b\<rparr>)) bs log =
   (0, to_view (Some \<lparr>em_offset = x, em_length = n, em_shared = None, em_raw = Some b\<rparr>), bs) # log"
  "logged (to_view (Some \<lparr>em_offset = x, em_length = n, em_shared = Some b, em_raw = None\<rparr>)) bs log =
   (0, to_view (Some \<lparr>em_offset = x, em_length = n, em_shared = Some b, em_raw = None\<rparr>), bs) # log"
  by (simp_all add: logged_def bv_to_bool_def) (simp add: to_view_def BufferView_empty_def)

lemma write_nothing:
  "at \<le> size_of d b \<Longrightarrow> write_bytes b at [] d = Inr d"
proof -
  have "put_bytes at [] m = m" for m by (auto simp: put_bytes_def fun_eq_iff)
  then show "at \<le> size_of d b \<Longrightarrow> ?thesis" by (simp add: write_bytes_def)
qed

lemma current_size:
  assumes "hb_ok s" "GetCurrentBuffer s = Inr b"
  shows "size_of (dev s) b = kAllocatorBlockSize"
proof -
  have "slot s (frame_index s) (current_buffer s) b"
    using assms by (auto simp: slot_def hb_ok_def GetCurrentBuffer_def split: if_splits)
  then show ?thesis using assms(1) by (auto simp: hb_ok_def)
qed

lemma block_small: "kAllocatorBlockSize < 2 ^ 62"
  by (simp add: kAllocatorBlockSize_def)

lemma hb_inv_owned:
  assumes inv: "hb_inv (s, log)" and cb: "CreateBuffer ok k (dev s) = (Some b, d)"
    and w: "write_bytes b 0 bs d = Inr d'"
  shows "hb_inv (s\<lparr>dev := d'\<rparr>, logged (to_view (Some \<lparr>em_offset = 0, em_length = n,
           em_shared = Some b, em_raw = None\<rparr>)) bs log)"
  unfolding logged_simps by (rule hb_inv_own [OF inv cb w own_view(1,2)]) simp

lemma hb_inv_borrowed:
  assumes inv: "hb_inv (s, log)" and cur: "GetCurrentBuffer s = Inr b"
    and w: "write_bytes b (hb_offset s) bs (dev s) = Inr d'"
    and n: "length bs \<le> n" "hb_offset s + n \<le> kAllocatorBlockSize"
  shows "hb_inv (s\<lparr>dev := d', hb_offset := hb_offset s + n\<rparr>,
           logged (to_view (Some \<lparr>em_offset = hb_offset s, em_length = n, em_shared = None,
             em_raw = Some b\<rparr>)) bs log)"
  unfolding logged_simps by (rule hb_inv_write [OF inv cur w n raw_view])

text \<open>The bytes an emplacement of a buffer writes.\<close>

definition bytes_of :: "u8 list option \<Rightarrow> nat \<Rightarrow> u8 list" where
  "bytes_of buffer n = (case buffer of None \<Rightarrow> [] | Some bs \<Rightarrow> take n bs)"

lemma hb_inv_raw:
  assumes inv: "hb_inv (s, log)" and n: "n < 2 ^ 63"
    and e: "EmplaceInternal_raw ok buffer n s = Inr (r, s')"
  shows "hb_inv (s', logged (to_view r) (bytes_of buffer n) log)"
proof (cases "n > kAllocatorBlockSize")
  case True
  obtain c d where cb: "CreateBuffer ok n (dev s) = (c, d)" by fastforce
  note i = hb_inv_create [OF inv cb]
  show ?thesis
  proof (cases c)
    case None
    then show ?thesis using e True cb i by (auto simp: EmplaceInternal_raw_def)
  next
    case (Some b)
    have size: "size_of d b = n" "n \<noteq> 0" using CreateBuffer_cases [OF cb] Some True by auto
    show ?thesis
    proof (cases buffer)
      case None
      have "write_bytes b 0 [] d = Inr d" by (simp add: write_nothing)
      note own = hb_inv_owned [OF inv cb [unfolded Some] this]
      from own [of n] show ?thesis using e True cb Some None
        by (auto simp: EmplaceInternal_raw_def bytes_of_def simp del: hb_inv_pair logged_simps)
    next
      case (Some bs)
      have m: "n mod 2 ^ 64 = n" using n by simp
      from e True cb \<open>c = Some b\<close> Some size m obtain d' where
        w: "write_bytes b 0 (take n bs) d = Inr d'" and
        r: "r = Some \<lparr>em_offset = 0, em_length = n, em_shared = Some b, em_raw = None\<rparr>"
          "s' = s\<lparr>dev := d'\<rparr>"
        by (auto simp: EmplaceInternal_raw_def CopyHostBuffer_def result_simps)
      show ?thesis using hb_inv_owned [OF inv cb [unfolded \<open>c = Some b\<close>] w, of n] Some r
        by (simp add: bytes_of_def del: hb_inv_pair logged_simps)
    qed
  qed
next
  case False
  obtain c s1 where mk: "(if (hb_offset s + n) mod 2 ^ 64 > kAllocatorBlockSize
      then MaybeCreateNewBuffer ok s else (True, s)) = (c, s1)" by fastforce
  have off: "hb_offset s \<le> kAllocatorBlockSize" using inv by (simp add: hb_ok_def)
  have m: "(hb_offset s + n) mod 2 ^ 64 = hb_offset s + n"
    using off False block_small by simp
  have i1: "hb_inv (s1, log)" and fits: "c \<Longrightarrow> hb_offset s1 + n \<le> kAllocatorBlockSize"
    using mk [unfolded m] hb_inv_MaybeCreateNewBuffer [OF inv, of ok c s1] inv False
    by (auto split: if_splits)
  show ?thesis
  proof (cases c)
    case c: False
    then show ?thesis using e False mk i1 by (auto simp: EmplaceInternal_raw_def Let_def)
  next
    case c: True
    from e False mk c obtain b d' where cur: "GetCurrentBuffer s1 = Inr b" and
      w: "(case buffer of None \<Rightarrow> Inr (dev s1)
           | Some bs \<Rightarrow> rbind (guard Undefined_Behaviour (n \<le> length bs)) (\<lambda>_.
               write_bytes b (hb_offset s1) (take n bs) (dev s1))) = Inr d'" and
      r: "r = Some \<lparr>em_offset = hb_offset s1, em_length = n, em_shared = None, em_raw = Some b\<rparr>"
        "s' = s1\<lparr>dev := d', hb_offset := hb_offset s1 + n\<rparr>"
      by (auto simp: EmplaceInternal_raw_def Let_def result_simps simp del: split_paired_Ex)
    have "write_bytes b (hb_offset s1) (bytes_of buffer n) (dev s1) = Inr d'"
      using w current_size [of s1 b] cur i1 fits [OF c]
      by (auto simp: bytes_of_def write_nothing result_simps split: option.splits)
    from hb_inv_borrowed [OF i1 cur this _ fits [OF c]] show ?thesis
      unfolding r by (simp add: bytes_of_def split: option.splits del: hb_inv_pair logged_simps)
  qed
qed

lemma pad_small:
  assumes "hb_ok s" "align < 2 ^ 63" "align \<noteq> 0"
  shows "hb_offset s + (align - hb_offset s mod align) < 2 ^ 63 + 2 ^ 62"
proof -
  have "hb_offset s < 2 ^ 62" using assms(1) block_small by (simp add: hb_ok_def)
  then show ?thesis using assms(2) by simp
qed

lemma hb_inv_aligned:
  assumes inv: "hb_inv (s, log)" and n: "n < 2 ^ 63" and a: "align < 2 ^ 63"
    and e: "EmplaceInternal ok buffer n align s = Inr (r, s')"
  shows "hb_inv (s', logged (to_view r) (bytes_of buffer n) log)"
proof (cases "align = 0 \<or> hb_offset s mod align = 0")
  case True
  then show ?thesis using hb_inv_raw [OF inv n] e by (simp add: EmplaceInternal_def)
next
  case False
  let ?p = "hb_offset s + (align - hb_offset s mod align)"
  have m: "?p mod 2 ^ 64 = ?p"
    using pad_small [of s align] inv a False by simp
  obtain c s1 where mk: "(if ?p mod 2 ^ 64 < kAllocatorBlockSize
      then (True, s\<lparr>hb_offset := ?p mod 2 ^ 64\<rparr>) else MaybeCreateNewBuffer ok s) = (c, s1)"
    by fastforce
  have i1: "hb_inv (s1, log)"
    using mk [unfolded m] hb_inv_offset [OF inv, of ?p] hb_inv_MaybeCreateNewBuffer [OF inv, of ok c s1]
    by (auto split: if_splits simp del: hb_inv_pair)
  show ?thesis
  proof (cases c)
    case c: False
    then show ?thesis using e False mk i1
      by (auto simp: EmplaceInternal_def Let_def simp del: hb_inv_pair)
  next
    case c: True
    then have "EmplaceInternal_raw ok buffer n s1 = Inr (r, s')"
      using e False mk by (auto simp: EmplaceInternal_def Let_def)
    then show ?thesis by (rule hb_inv_raw [OF i1 n])
  qed
qed

lemma hb_inv_cb:
  assumes inv: "hb_inv (s, log)" and n: "n < 2 ^ 63" and a: "align < 2 ^ 63" and bs: "length bs \<le> n"
    and e: "EmplaceInternal_cb ok n align (Some bs) s = Inr (r, s')"
  shows "hb_inv (s', logged (to_view r) bs log)"
proof (cases "n > kAllocatorBlockSize")
  case True
  obtain c d where cb: "CreateBuffer ok n (dev s) = (c, d)" by fastforce
  show ?thesis
  proof (cases c)
    case None
    then show ?thesis using e True cb hb_inv_create [OF inv cb] by (auto simp: EmplaceInternal_cb_def)
  next
    case (Some b)
    with e True cb obtain d' where w: "write_bytes b 0 bs d = Inr d'" and
      r: "r = Some \<lparr>em_offset = 0, em_length = n, em_shared = Some b, em_raw = None\<rparr>"
        "s' = s\<lparr>dev := d'\<rparr>"
      by (auto simp: EmplaceInternal_cb_def result_simps)
    show ?thesis unfolding r by (rule hb_inv_owned [OF inv cb [unfolded Some] w])
  qed
next
  case False
  let ?pad = "if align > 0 \<and> hb_offset s mod align \<noteq> 0 then align - hb_offset s mod align else 0"
  have "hb_offset s \<le> kAllocatorBlockSize" using inv by (simp add: hb_ok_def)
  then have sm: "hb_offset s + ?pad < 2 ^ 63 + 2 ^ 62"
    using pad_small [of s align] inv a block_small by auto
  have two: "(2::nat) ^ 63 + 2 ^ 62 + 2 ^ 62 = 2 ^ 64" by simp
  have m: "(hb_offset s + ?pad + n) mod 2 ^ 64 = hb_offset s + ?pad + n"
    by (rule mod_less) (use sm False block_small two in linarith)
  have m0: "(hb_offset s + ?pad) mod 2 ^ 64 = hb_offset s + ?pad"
    by (rule mod_less) (use sm two in linarith)
  obtain c s1 where mk: "(if (hb_offset s + ?pad + n) mod 2 ^ 64 > kAllocatorBlockSize
      then MaybeCreateNewBuffer ok s
      else (True, s\<lparr>hb_offset := (hb_offset s + ?pad) mod 2 ^ 64\<rparr>)) = (c, s1)" by fastforce
  have i1: "hb_inv (s1, log)" and fits: "c \<Longrightarrow> hb_offset s1 + n \<le> kAllocatorBlockSize"
    using mk [unfolded m m0] hb_inv_offset [OF inv, of "hb_offset s + ?pad"] False
      hb_inv_MaybeCreateNewBuffer [OF inv, of ok c s1]
    by (auto split: if_splits simp del: hb_inv_pair)
  note e1 = e [unfolded EmplaceInternal_cb_def Let_def option.case if_not_P [OF False] mk prod.case]
  show ?thesis
  proof (cases c)
    case c: False
    then show ?thesis using e1 i1 by (auto simp: c simp del: hb_inv_pair)
  next
    case c: True
    from e1 c obtain b d' where cur: "GetCurrentBuffer s1 = Inr b" and
      w: "write_bytes b (hb_offset s1) bs (dev s1) = Inr d'" and
      r: "r = Some \<lparr>em_offset = hb_offset s1, em_length = n, em_shared = None, em_raw = Some b\<rparr>"
        "s' = s1\<lparr>dev := d', hb_offset := hb_offset s1 + n\<rparr>"
      by (auto simp: result_simps)
    show ?thesis unfolding r by (rule hb_inv_borrowed [OF i1 cur w bs fits [OF c]])
  qed
qed

lemma hb_inv_nothing:
  "hb_inv (s, logged v bs log) \<Longrightarrow> hb_inv (s, log)"
  by (auto simp: logged_def split: if_splits)

lemma hb_step_inv: "hb_inv x \<Longrightarrow> hb_step ok x e y \<Longrightarrow> hb_inv y"
proof (erule hb_step.cases)
  fix bs s v s' log
  assume i: "hb_inv x" and x: "x = (s, log)" "y = (s', logged v bs log)"
    and e: "Emplace_plain ok (Some bs) (length bs) s = Inr (v, s')" "length bs < 2 ^ 63"
  from e(1) obtain r where "EmplaceInternal_raw ok (Some bs) (length bs) s = Inr (r, s')" "v = to_view r"
    by (auto simp: Emplace_plain_def result_simps)
  then show "hb_inv y" using hb_inv_raw [OF i [unfolded x] e(2)] x by (auto simp: bytes_of_def)
next
  fix bs align s v s' log
  assume i: "hb_inv x" and x: "x = (s, log)" "y = (s', logged v bs log)"
    and e: "Emplace_aligned ok (Some bs) (length bs) align s = Inr (v, s')" "length bs < 2 ^ 63"
      "align < 2 ^ 63"
  from e(1) obtain r where "EmplaceInternal ok (Some bs) (length bs) align s = Inr (r, s')"
    "v = to_view r" by (auto simp: Emplace_aligned_def result_simps)
  then show "hb_inv y" using hb_inv_aligned [OF i [unfolded x] e(2,3)] x by (auto simp: bytes_of_def)
next
  fix n align bs s v s' log
  assume i: "hb_inv x" and x: "x = (s, log)" "y = (s', logged v bs log)"
    and e: "Emplace_cb ok n align (Some bs) s = Inr (v, s')" "length bs \<le> n" "n < 2 ^ 63"
      "align < 2 ^ 63"
  from e(1) obtain r where "EmplaceInternal_cb ok n align (Some bs) s = Inr (r, s')" "v = to_view r"
    by (auto simp: Emplace_cb_def result_simps)
  then show "hb_inv y" using hb_inv_cb [OF i [unfolded x] e(3,4,2)] x by auto
next
  fix n align s v s' log
  assume i: "hb_inv x" and x: "x = (s, log)" "y = (s', log)"
    and e: "Emplace_aligned ok None n align s = Inr (v, s')" "n < 2 ^ 63" "align < 2 ^ 63"
  from e(1) obtain r where "EmplaceInternal ok None n align s = Inr (r, s')"
    by (auto simp: Emplace_aligned_def result_simps)
  then show "hb_inv y" using hb_inv_nothing [OF hb_inv_aligned [OF i [unfolded x] e(2,3)]] x by blast
next
  fix s log
  assume "hb_inv x" and "x = (s, log)" "y = (Reset s, grow_old log)"
  then show "hb_inv y" using hb_inv_Reset by blast
qed

lemma create_arenas_cases:
  "create_arenas ok n bs d = Inr (cs, d') \<Longrightarrow>
   cs = bs @ map (\<lambda>i. [i]) [calls d ..< calls d + n] \<and> calls d' = calls d + n \<and>
   (\<forall>b. b < calls d \<longrightarrow> size_of d' b = size_of d b) \<and>
   (\<forall>b. calls d \<le> b \<and> b < calls d + n \<longrightarrow> size_of d' b = kAllocatorBlockSize)"
proof (induction n arbitrary: bs d)
  case (Suc n)
  obtain r d1 where c: "CreateBuffer ok kAllocatorBlockSize d = (r, d1)" by fastforce
  note C = CreateBuffer_cases [OF c]
  from Suc.prems c have r: "r = Some (calls d)" using C by (cases r) auto
  with Suc.prems c have "create_arenas ok n (bs @ [[calls d]]) d1 = Inr (cs, d')" by simp
  note IH = Suc.IH [OF this]
  have "[calls d ..< calls d + Suc n] = calls d # [calls d1 ..< calls d1 + n]"
    using C by (simp add: upt_conv_Cons)
  then have "cs = bs @ map (\<lambda>i. [i]) [calls d ..< calls d + Suc n]" using IH by simp
  moreover have "size_of d' b = kAllocatorBlockSize" if "calls d \<le> b" "b < calls d + Suc n" for b
    using IH C r that by (cases "b = calls d") auto
  ultimately show ?case using IH C by auto
qed simp

lemma HostBuffer_cases:
  assumes "HostBuffer ok align d = Inr s" "calls d = 0"
  shows "device_buffers s = [[0], [1], [2], [3]] \<and> current_buffer s = 0 \<and> hb_offset s = 0 \<and>
         frame_index s = 0 \<and> calls (dev s) = 4 \<and>
         (\<forall>b < 4. size_of (dev s) b = kAllocatorBlockSize)"
proof -
  from assms(1) obtain cs d' where c: "create_arenas ok 4 [] d = Inr (cs, d')" and
    s: "s = \<lparr>dev = d', device_buffers = cs, current_buffer = 0, hb_offset = 0, frame_index = 0,
          minimum_uniform_alignment = align\<rparr>"
    by (auto simp: HostBuffer_def kHostBufferArenaSize_def result_simps)
  have "[0 ..< 4] = [0, 1, 2, 3 :: nat]" by (simp add: upt_conv_Cons)
  then show ?thesis using create_arenas_cases [OF c] assms(2) s by simp
qed

lemma hb_start_inv:
  assumes "hb_start ok x"
  shows "hb_inv x"
proof -
  from assms obtain align d s where x: "x = (s, [])" "calls d = 0" "HostBuffer ok align d = Inr s"
    by (cases x) (auto simp: hb_start_def)
  note H = HostBuffer_cases [OF x(3,2)]
  have k: "slot s f k b \<longleftrightarrow> f < 4 \<and> k = 0 \<and> b = f" for f k b
  proof -
    have "device_buffers s ! f = [f]" if "f < 4"
    proof -
      from that have "f \<in> {0, 1, 2, 3}" by auto
      then show ?thesis using H by auto
    qed
    then show ?thesis by (auto simp: slot_def)
  qed
  show ?thesis using H by (auto simp: x hb_ok_def k)
qed

interpretation host: transition_system "hb_start ok" "hb_step ok" hb_inv
  by unfold_locales (auto intro: hb_start_inv hb_step_inv)

subsection \<open>Properties\<close>

text \<open>
  C14: Whatever the sequence of emplacements (with any alignment, from memory, through a callback
  or of undefined data), frame changes and failed allocations, every view that was returned and
  whose arena has not come round again (four frames; forever for an owning view) reads exactly
  the bytes that were put into it.
\<close>

theorem host_buffer_views_intact:
  assumes "reachable_from (hb_start ok) (hb_step ok) (s, log)" and "(a, v, bs) \<in> set log"
  shows "read_view (dev s) v (length bs) = bs"
proof -
  have "entry_ok s (a, v, bs)" using host.reachable_inv [OF assms(1)] assms(2) by simp
  then obtain b off where b: "bv_GetBuffer v = Some b" "roffset (bv_range v) = of_nat off"
    "off \<le> kAllocatorBlockSize" "\<forall>i < length bs. memory (dev s) b (off + i) = bs ! i"
    by (auto simp: entry_ok_def)
  have "unat (of_nat off :: u64) = off"
    using b(3) by (simp add: kAllocatorBlockSize_def unat_of_nat)
  then show ?thesis using b by (auto simp: read_view_def read_bytes_def intro!: nth_equalityI)
qed

subsection \<open>A working allocator\<close>

abbreviation always :: "nat \<Rightarrow> bool" where "always \<equiv> \<lambda>_. True"

definition live :: "host_buffer \<Rightarrow> bool" where
  "live s \<longleftrightarrow> length (device_buffers s) = 4 \<and> frame_index s < 4 \<and>
     (\<forall>f < 4. device_buffers s ! f \<noteq> []) \<and> current_buffer s < length (frame_buffers s)"

lemma live_dev [simp]: "live (s\<lparr>dev := d\<rparr>) = live s"
  by (simp add: live_def)

lemma live_offset [simp]: "live (s\<lparr>hb_offset := n\<rparr>) = live s"
  by (simp add: live_def)

lemma CreateBuffer_always: "CreateBuffer always n d =
    (Some (calls d), d\<lparr>calls := Suc (calls d), size_of := (size_of d)(calls d := n)\<rparr>)"
  by (simp add: CreateBuffer_def)

lemma live_MaybeCreate:
  assumes "live s"
  shows "\<exists>s'. MaybeCreateNewBuffer always s = (True, s') \<and> live s'"
  using assms
  by (auto simp: MaybeCreateNewBuffer_def Let_def CreateBuffer_always live_def nth_list_update)

lemma live_current: "live s \<Longrightarrow> \<exists>b. GetCurrentBuffer s = Inr b"
  by (simp add: live_def GetCurrentBuffer_def)

lemma live_Reset: "live s \<Longrightarrow> live (Reset s)"
  unfolding live_def Reset_def
  by (auto simp: kHostBufferArenaSize_def nth_list_update mod_less_divisor)

text \<open>Both decisions about the room in the current buffer end in a state that is live.\<close>

lemma live_choice:
  assumes "live s" "live t" "(if b then MaybeCreateNewBuffer always s else (True, t)) = (c, s1)"
  shows "c \<and> live s1"
  using assms live_MaybeCreate [OF assms(1)] by (auto split: if_splits)

lemma live_raw:
  assumes l: "live s" and e: "EmplaceInternal_raw always buffer n s = Inr (r, s')"
  shows "live s'"
proof (cases "n > kAllocatorBlockSize")
  case True
  then show ?thesis using e l
    by (auto simp: EmplaceInternal_raw_def CreateBuffer_always result_simps
        split: option.splits if_splits)
next
  case False
  obtain c s1 where mk: "(if (hb_offset s + n) mod 2 ^ 64 > kAllocatorBlockSize
      then MaybeCreateNewBuffer always s else (True, s)) = (c, s1)" by fastforce
  note L = live_choice [OF l l mk]
  from e [unfolded EmplaceInternal_raw_def Let_def if_not_P [OF False] mk prod.case] L
  show ?thesis by (auto simp: result_simps)
qed

lemma aligned_choice:
  assumes l: "live s"
    and mk: "(if b then (True, s\<lparr>hb_offset := k\<rparr>) else MaybeCreateNewBuffer always s) = (c, s1)"
  shows "c \<and> live s1"
  using l mk live_MaybeCreate [OF l] by (auto split: if_splits)

lemma live_aligned:
  assumes l: "live s" and e: "EmplaceInternal always buffer n align s = Inr (r, s')"
  shows "live s'"
proof (cases "align = 0 \<or> hb_offset s mod align = 0")
  case True
  then show ?thesis using live_raw [OF l] e by (simp add: EmplaceInternal_def)
next
  case False
  obtain c s1 where mk: "(if (hb_offset s + (align - hb_offset s mod align)) mod 2 ^ 64
        < kAllocatorBlockSize
      then (True, s\<lparr>hb_offset := (hb_offset s + (align - hb_offset s mod align)) mod 2 ^ 64\<rparr>)
      else MaybeCreateNewBuffer always s) = (c, s1)" by fastforce
  from aligned_choice [OF l mk]
    e [unfolded EmplaceInternal_def Let_def if_not_P [OF False] mk prod.case]
  show ?thesis using live_raw by auto
qed

lemma live_cb:
  assumes l: "live s" and e: "EmplaceInternal_cb always n align (Some bs) s = Inr (r, s')"
  shows "live s'"
proof (cases "n > kAllocatorBlockSize")
  case True
  then show ?thesis using e l
    by (auto simp: EmplaceInternal_cb_def CreateBuffer_always result_simps)
next
  case False
  let ?pad = "if align > 0 \<and> hb_offset s mod align \<noteq> 0 then align - hb_offset s mod align else 0"
  obtain c s1 where mk: "(if (hb_offset s + ?pad + n) mod 2 ^ 64 > kAllocatorBlockSize
      then MaybeCreateNewBuffer always s
      else (True, s\<lparr>hb_offset := (hb_offset s + ?pad) mod 2 ^ 64\<rparr>)) = (c, s1)" by fastforce
  have l2: "live (s\<lparr>hb_offset := (hb_offset s + ?pad) mod 2 ^ 64\<rparr>)" using l by simp
  note L = live_choice [OF l l2 mk]
  from e [unfolded EmplaceInternal_cb_def Let_def option.case if_not_P [OF False] mk prod.case] L
  show ?thesis by (auto simp: result_simps)
qed

lemma hb_step_live: "live (fst x) \<Longrightarrow> hb_step always x e y \<Longrightarrow> live (fst y)"
  by (erule hb_step.cases)
    (auto simp: Emplace_plain_def Emplace_aligned_def Emplace_cb_def result_simps
      intro: live_raw live_aligned live_cb live_Reset)

lemma hb_start_live: "hb_start ok x \<Longrightarrow> live (fst x)"
proof -
  assume "hb_start ok x"
  then obtain align d s where x: "x = (s, [])" "calls d = 0" "HostBuffer ok align d = Inr s"
    by (cases x) (auto simp: hb_start_def)
  note H = HostBuffer_cases [OF x(3,2)]
  have "device_buffers s ! f \<noteq> []" if "f < 4" for f
  proof -
    from that have "f \<in> {0, 1, 2, 3}" by auto
    then show ?thesis using H by auto
  qed
  then show ?thesis using H by (simp add: x live_def)
qed

interpretation live_host: transition_system "hb_start always" "hb_step always" "\<lambda>x. live (fst x)"
  by unfold_locales (auto intro: hb_start_live hb_step_live)

lemma raw_total:
  assumes l: "live s" and ok: "hb_ok s" and n: "n < 2 ^ 63"
    and b: "case buffer of None \<Rightarrow> True | Some bs \<Rightarrow> n \<le> length bs"
  shows "\<exists>e s'. EmplaceInternal_raw always buffer n s = Inr (Some e, s') \<and> em_length e = n \<and>
           (em_shared e \<noteq> None \<or> em_raw e \<noteq> None) \<and>
           (em_offset e = 0 \<or> em_offset e = hb_offset s)"
proof (cases "n > kAllocatorBlockSize")
  case True
  have "n mod 2 ^ 64 = n" using n by simp
  then show ?thesis using True b
    by (auto simp: EmplaceInternal_raw_def CreateBuffer_always CopyHostBuffer_def write_bytes_def
        split: option.splits)
next
  case False
  obtain c s1 where mk: "(if (hb_offset s + n) mod 2 ^ 64 > kAllocatorBlockSize
      then MaybeCreateNewBuffer always s else (True, s)) = (c, s1)" by fastforce
  note L = live_choice [OF l l mk]
  then obtain d where cur: "GetCurrentBuffer s1 = Inr d" using live_current by blast
  have off: "hb_offset s \<le> kAllocatorBlockSize" using ok by (simp add: hb_ok_def)
  have m: "(hb_offset s + n) mod 2 ^ 64 = hb_offset s + n"
    using off False block_small by simp
  have i: "hb_inv (s, [])" using ok by simp
  note M = hb_inv_MaybeCreateNewBuffer [OF i, of always c s1]
  have ok1: "hb_ok s1" and o1: "hb_offset s1 = 0 \<or> hb_offset s1 = hb_offset s"
    and fits: "hb_offset s1 + n \<le> kAllocatorBlockSize"
    using mk [unfolded m] M L ok False by (auto split: if_splits)
  have sz: "size_of (dev s1) d = kAllocatorBlockSize" by (rule current_size [OF ok1 cur])
  show ?thesis
    unfolding EmplaceInternal_raw_def Let_def if_not_P [OF False] mk prod.case
    using L cur sz fits b o1
    by (auto simp: write_bytes_def split: option.splits)
qed

text \<open>
  C15: As long as the allocator hands out buffers, an emplacement never aborts, never touches
  memory out of bounds and never comes back empty: in every state that can be reached it
  returns a view of the requested length at an offset with the requested alignment.
\<close>

theorem emplace_never_fails:
  assumes "reachable_from (hb_start (\<lambda>_. True)) (hb_step (\<lambda>_. True)) (s, log)"
    and "n < 2 ^ 63" and "align < 2 ^ 63"
    and "case buffer of None \<Rightarrow> True | Some bs \<Rightarrow> n \<le> length bs"
  shows "\<exists>v s'. Emplace_aligned (\<lambda>_. True) buffer n align s = Inr (v, s') \<and> bv_to_bool v \<and>
           rlength (bv_range v) = of_nat n \<and>
           (\<exists>off. roffset (bv_range v) = of_nat off \<and> off \<le> kAllocatorBlockSize \<and>
              (align > 0 \<longrightarrow> off mod align = 0))"
proof -
  have l: "live s" using live_host.reachable_inv [OF assms(1)] by simp
  have inv: "hb_inv (s, log)" by (rule host.reachable_inv [OF assms(1)])
  then have ok: "hb_ok s" by simp
  have off: "hb_offset s \<le> kAllocatorBlockSize" using ok by (simp add: hb_ok_def)
  obtain e s' where e: "EmplaceInternal always buffer n align s = Inr (Some e, s')"
    "em_length e = n" "em_shared e \<noteq> None \<or> em_raw e \<noteq> None"
    "align > 0 \<longrightarrow> em_offset e mod align = 0" "em_offset e \<le> kAllocatorBlockSize"
  proof (cases "align = 0 \<or> hb_offset s mod align = 0")
    case True
    then show ?thesis using raw_total [OF l ok assms(2,4)] that off by (auto simp: EmplaceInternal_def)
  next
    case False
    let ?p = "hb_offset s + (align - hb_offset s mod align)"
    have p: "?p mod align = 0"
      using False by (metis add_diff_assoc2 le_add_diff_inverse mod_add_left_eq mod_le_divisor mod_self
          nat_neq_iff not_less_zero add.commute)
    have m: "?p mod 2 ^ 64 = ?p"
      using pad_small [of s align] ok assms(3) False by simp
    obtain c s1 where mk: "(if ?p mod 2 ^ 64 < kAllocatorBlockSize
        then (True, s\<lparr>hb_offset := ?p mod 2 ^ 64\<rparr>) else MaybeCreateNewBuffer always s) = (c, s1)"
      by fastforce
    note L = aligned_choice [OF l mk]
    have i: "hb_inv (s, [])" using ok by simp
    have "hb_ok s1 \<and> (hb_offset s1 = 0 \<or> hb_offset s1 = ?p)"
      using mk [unfolded m] hb_inv_offset [OF i, of ?p] hb_inv_MaybeCreateNewBuffer [OF i, of always c s1] L
      by (auto split: if_splits)
    then have ok1: "hb_ok s1" and o1: "hb_offset s1 mod align = 0" using p by auto
    from raw_total [OF L [THEN conjunct2] ok1 assms(2,4)] obtain e s' where
      e: "EmplaceInternal_raw always buffer n s1 = Inr (Some e, s')" "em_length e = n"
        "em_shared e \<noteq> None \<or> em_raw e \<noteq> None" "em_offset e = 0 \<or> em_offset e = hb_offset s1" by blast
    have "EmplaceInternal always buffer n align s = Inr (Some e, s')"
      unfolding EmplaceInternal_def Let_def if_not_P [OF False] mk prod.case using L e(1) by simp
    then show ?thesis using that e o1 ok1 by (auto simp: hb_ok_def)
  qed
  then show ?thesis
    by (auto simp: Emplace_aligned_def to_view_def Let_def bv_to_bool_def BufferView_shared_def
        BufferView_raw_def)
qed

subsection \<open>Concrete runs\<close>

definition demo_device :: device where
  "demo_device = \<lparr>calls = 0, size_of = (\<lambda>_. 0), memory = (\<lambda>_ _. 0)\<rparr>"

lemma demo_start:
  "\<exists>s. HostBuffer always 16 demo_device = Inr s \<and> hb_start always (s, []) \<and>
       reachable_from (hb_start always) (hb_step always) (s, [])"
proof -
  have c: "calls demo_device = 0" by (simp add: demo_device_def)
  obtain s where "HostBuffer always 16 demo_device = Inr s"
    by (simp add: HostBuffer_def kHostBufferArenaSize_def numeral_eq_Suc CreateBuffer_always)
  then have s: "HostBuffer always 16 demo_device = Inr s" "hb_start always (s, [])"
    using c by (auto simp: hb_start_def)
  have "reachable_from (hb_start always) (hb_step always) (s, [])"
    by (rule reach_start) (rule s(2))
  then show ?thesis using s by blast
qed

theorem host_buffer_views_intact_witness:
  "\<exists>s v s'. HostBuffer always 16 demo_device = Inr s \<and>
     Emplace_plain always (Some [7, 8]) 2 s = Inr (v, s') \<and> read_view (dev s') v 2 = [7, 8]"
proof -
  obtain s where s: "HostBuffer always 16 demo_device = Inr s" "hb_start always (s, [])"
      "reachable_from (hb_start always) (hb_step always) (s, [])"
    using demo_start by blast
  have "live s" "hb_ok s" using hb_start_live [OF s(2)] hb_start_inv [OF s(2)] by simp_all
  from raw_total [OF this, of 2 "Some [7, 8]"] obtain e s' where
    e: "EmplaceInternal_raw always (Some [7, 8]) 2 s = Inr (Some e, s')"
      "em_shared e \<noteq> None \<or> em_raw e \<noteq> None" by auto
  define v where "v = to_view (Some e)"
  have v: "Emplace_plain always (Some [7, 8]) 2 s = Inr (v, s')"
    using e by (simp add: Emplace_plain_def v_def)
  have b: "bv_to_bool v"
    using e(2) by (auto simp: v_def to_view_def bv_to_bool_def Let_def BufferView_shared_def
        BufferView_raw_def)
  have two: "length [7, 8 :: u8] = 2" "(2 :: nat) < 2 ^ 63" by simp_all
  have "hb_step always (s, []) put_plain (s', logged v [7, 8] [])"
    by (rule step_plain) (use v two in \<open>simp_all only: two\<close>)
  then have "hb_step always (s, []) put_plain (s', [(0, v, [7, 8])])"
    using b by (simp add: logged_def)
  then have "reachable_from (hb_start always) (hb_step always) (s', [(0, v, [7, 8])])"
    by (rule reach_step [OF s(3)])
  from host_buffer_views_intact [OF this, of 0 v "[7, 8]"]
  have "read_view (dev s') v 2 = [7, 8]" by (simp add: numeral_2_eq_2)
  then show ?thesis using s(1) v by blast
qed

theorem emplace_never_fails_witness:
  "\<exists>s v s'. HostBuffer always 16 demo_device = Inr s \<and>
     Emplace_aligned (\<lambda>_. True) (Some [1, 2, 3]) 3 256 s = Inr (v, s') \<and> bv_to_bool v"
proof -
  obtain s where s: "HostBuffer always 16 demo_device = Inr s" "hb_start always (s, [])"
      "reachable_from (hb_start always) (hb_step always) (s, [])"
    using demo_start by blast
  from emplace_never_fails [OF s(3), of 3 256 "Some [1, 2, 3]"] obtain v s' where
    "Emplace_aligned (\<lambda>_. True) (Some [1, 2, 3]) 3 256 s = Inr (v, s')" "bv_to_bool v"
    by auto
  then show ?thesis using s(1) by blast
qed

text \<open>
  A failed allocation leaves the index of the current buffer behind the last one, although the
  offset still is that of the full buffer: a smaller emplacement then indexes past the end.
\<close>

lemma failed_allocation_leaves_dangling_index:
  assumes "device_buffers s = [[0], [1], [2], [3]]" "current_buffer s = 0" "frame_index s = 0"
    and "hb_offset s = 1023990"
  shows "\<exists>s'. EmplaceInternal_raw (\<lambda>_. False) None 20 s = Inr (None, s') \<and>
           EmplaceInternal_raw (\<lambda>_. False) None 5 s' = Inl Undefined_Behaviour"
  using assms
  by (simp add: EmplaceInternal_raw_def kAllocatorBlockSize_def MaybeCreateNewBuffer_def
      CreateBuffer_def GetCurrentBuffer_def Let_def)

end
