(* ===== verification/Render_Target.thy ===== *)
theory Render_Target
  imports Descriptors Driver_Info
begin

text \<open>
  Attachments and render targets: \<^verbatim>\<open>src/hal/render_target.{h,cc}\<close>, with the description of
  textures (\<^verbatim>\<open>src/core/texture_descriptor.cc\<close>) and \<^verbatim>\<open>Allocator::CreateTexture\<close>
  (\<^verbatim>\<open>src/hal/allocator_vk.cc\<close>).

  A shared pointer to a texture is an optional texture; reading through a null pointer is
  undefined. The clear values of the attachments are of any type: a colour, a depth, a stencil
  value. How a colour or a depth prints is a parameter, and so are the creation of a texture by
  the memory allocator (a function of the number of the call), the answers of the capabilities
  and the rounded binary logarithm. Labels of textures are for debugging and not modelled.
\<close>

subsection \<open>Textures\<close>

record texture_vk =
  tex_id :: nat
  has_source :: bool
  tex_desc :: texture_descriptor

definition tex_IsValid :: "texture_vk \<Rightarrow> bool" where
  "tex_IsValid t = has_source t"

definition tex_GetSize :: "texture_vk \<Rightarrow> size" where
  "tex_GetSize t = tex_size (tex_desc t)"

definition tex_GetMipCount :: "texture_vk \<Rightarrow> nat" where
  "tex_GetMipCount t = mip_count (tex_desc t)"

definition deref :: "'a option \<Rightarrow> 'a result" where
  "deref p = of_option Undefined_Behaviour p"

definition decimal_int :: "int \<Rightarrow> string" where
  "decimal_int n = (if n < 0 then ''-'' @ decimal (nat (- n)) else decimal (nat n))"

definition size_to_stream :: "size \<Rightarrow> string" where
  "size_to_stream s = ''('' @ decimal_int (width s) @ '', '' @ decimal_int (height s) @ '')''"

definition TextureDescriptorToString :: "texture_descriptor \<Rightarrow> string" where
  "TextureDescriptorToString d =
     ''StorageMode='' @ StorageModeToString (storage_mode d) @ '','' @
     ''Type='' @ TextureTypeToString (texture_type d) @ '','' @
     ''Format='' @ PixelFormatToString (format d) @ '','' @
     ''Size='' @ size_to_stream (tex_size d) @ '','' @
     ''MipCount='' @ decimal (mip_count d) @ '','' @
     ''SampleCount='' @ decimal (val_SampleCount (sample_count d)) @ '','' @
     ''Compression='' @ CompressionTypeToString (compression_type d)"

subsection \<open>Attachments\<close>

record 'v attachment =
  texture :: "texture_vk option"
  resolve_texture :: "texture_vk option"
  load_action :: LoadAction
  store_action :: StoreAction
  clear_value :: 'v

definition default_attachment :: "'v \<Rightarrow> 'v attachment" where
  "default_attachment c = \<lparr>texture = None, resolve_texture = None,
     load_action = LoadAction.kDontCare, store_action = StoreAction.kStore, clear_value = c\<rparr>"

fun StoreActionNeedsResolveTexture :: "StoreAction \<Rightarrow> bool" where
  "StoreActionNeedsResolveTexture StoreAction.kDontCare = False"
| "StoreActionNeedsResolveTexture StoreAction.kStore = False"
| "StoreActionNeedsResolveTexture StoreAction.kMultisampleResolve = True"
| "StoreActionNeedsResolveTexture StoreAction.kStoreAndMultisampleResolve = True"

definition att_IsValid :: "'v attachment \<Rightarrow> bool" where
  "att_IsValid a =
     (case texture a of
        None \<Rightarrow> False
      | Some t \<Rightarrow>
          if \<not> tex_IsValid t then False
          else if StoreActionNeedsResolveTexture (store_action a) \<and>
                  (case resolve_texture a of None \<Rightarrow> True | Some r \<Rightarrow> \<not> tex_IsValid r) then False
          else if resolve_texture a \<noteq> None \<and>
                  store_action a \<noteq> StoreAction.kMultisampleResolve \<and>
                  store_action a \<noteq> StoreAction.kStoreAndMultisampleResolve then False
          else
            let mode = (case resolve_texture a of
                          Some r \<Rightarrow> storage_mode (tex_desc r)
                        | None \<Rightarrow> storage_mode (tex_desc t))
            in if mode = kDeviceTransient then
                 (if load_action a = LoadAction.kLoad then False
                  else if store_action a \<noteq> StoreAction.kDontCare then False
                  else True)
               else True)"

definition AttachmentToString :: "'v attachment \<Rightarrow> string" where
  "AttachmentToString a =
     (case texture a of None \<Rightarrow> []
      | Some t \<Rightarrow> ''Texture=('' @ TextureDescriptorToString (tex_desc t) @ ''),'') @
     (case resolve_texture a of None \<Rightarrow> []
      | Some t \<Rightarrow> ''ResolveTexture=('' @ TextureDescriptorToString (tex_desc t) @ ''),'') @
     ''LoadAction='' @ LoadActionToString (load_action a) @ '','' @
     ''StoreAction='' @ StoreActionToString (store_action a)"

definition ColorAttachmentToString :: "('c \<Rightarrow> string) \<Rightarrow> 'c attachment \<Rightarrow> string" where
  "ColorAttachmentToString color a =
     AttachmentToString a @ '','' @ ''ClearColor=('' @ color (clear_value a) @ '')''"

definition DepthAttachmentToString :: "('d \<Rightarrow> string) \<Rightarrow> 'd attachment \<Rightarrow> string" where
  "DepthAttachmentToString depth a =
     AttachmentToString a @ '','' @ ''ClearDepth='' @ depth (clear_value a)"

definition StencilAttachmentToString :: "u32 attachment \<Rightarrow> string" where
  "StencilAttachmentToString a =
     AttachmentToString a @ '','' @ ''ClearStencil='' @ decimal (unat (clear_value a))"

subsection \<open>Render targets\<close>

record ('c, 'd) render_target =
  color0 :: "'c attachment option"
  depth :: "'d attachment option"
  stencil :: "u32 attachment option"
  colors :: "(nat \<times> 'c attachment) list"

definition RenderTarget :: "('c, 'd) render_target" where
  "RenderTarget = \<lparr>color0 = None, depth = None, stencil = None, colors = []\<rparr>"

text \<open>What every attachment has in common.\<close>

definition base :: "'v attachment \<Rightarrow> unit attachment" where
  "base a = \<lparr>texture = texture a, resolve_texture = resolve_texture a,
     load_action = load_action a, store_action = store_action a, clear_value = ()\<rparr>"

definition opt_list :: "'a option \<Rightarrow> 'a list" where
  "opt_list v = (case v of None \<Rightarrow> [] | Some x \<Rightarrow> [x])"

text \<open>An iterator returns whether to go on and may change the variables it captures.\<close>

fun iterate :: "('a \<Rightarrow> 's \<Rightarrow> (bool \<times> 's) result) \<Rightarrow> 'a list \<Rightarrow> 's \<Rightarrow> (bool \<times> 's) result" where
  "iterate f [] s = Inr (True, s)"
| "iterate f (a # as) s =
     rbind (f a s) (\<lambda>(continue, s'). if \<not> continue then Inr (False, s') else iterate f as s')"

definition IterateAllColorAttachments ::
  "(nat \<times> 'c attachment \<Rightarrow> 's \<Rightarrow> (bool \<times> 's) result) \<Rightarrow> ('c, 'd) render_target \<Rightarrow> 's \<Rightarrow>
   (bool \<times> 's) result"
where
  "IterateAllColorAttachments f t s =
     iterate f (map (\<lambda>a. (0, a)) (opt_list (color0 t)) @ colors t) s"

definition all_attachments :: "('c, 'd) render_target \<Rightarrow> unit attachment list" where
  "all_attachments t =
     map base (opt_list (color0 t)) @ map (\<lambda>(_, a). base a) (colors t) @
     map base (opt_list (depth t)) @ map base (opt_list (stencil t))"

definition IterateAllAttachments ::
  "(unit attachment \<Rightarrow> 's \<Rightarrow> (bool \<times> 's) result) \<Rightarrow> ('c, 'd) render_target \<Rightarrow> 's \<Rightarrow> 's result"
where
  "IterateAllAttachments f t s = rbind (iterate f (all_attachments t) s) (\<lambda>(_, s'). Inr s')"

definition HasColorAttachment :: "nat \<Rightarrow> ('c, 'd) render_target \<Rightarrow> bool" where
  "HasColorAttachment index t =
     (if index = 0 then color0 t \<noteq> None else map_of (colors t) index \<noteq> None)"

definition check_size ::
  "unit attachment \<Rightarrow> size option \<times> bool \<Rightarrow> (bool \<times> size option \<times> bool) result"
where
  "check_size a s =
     rbind (deref (texture a)) (\<lambda>t.
       let seen = (if fst s = None then Some (tex_GetSize t) else fst s)
       in if seen \<noteq> Some (tex_GetSize t) then Inr (False, seen, False)
          else Inr (True, seen, snd s))"

definition check_type ::
  "unit attachment \<Rightarrow> (TextureType \<times> SampleCount) option \<times> bool \<Rightarrow>
   (bool \<times> (TextureType \<times> SampleCount) option \<times> bool) result"
where
  "check_type a s =
     rbind (deref (texture a)) (\<lambda>t.
       let d = tex_desc t;
           seen = (case fst s of None \<Rightarrow> (texture_type d, sample_count d) | Some x \<Rightarrow> x)
       in if fst seen \<noteq> texture_type d then Inr (False, Some seen, False)
          else if snd seen \<noteq> sample_count d then Inr (False, Some seen, False)
          else Inr (True, Some seen, snd s))"

text \<open>The comparisons of the attachments are compiled into debug builds only.\<close>

definition rt_IsValid :: "bool \<Rightarrow> ('c, 'd) render_target \<Rightarrow> bool result" where
  "rt_IsValid ndebug t =
     (if \<not> HasColorAttachment 0 t then Inr False
      else if ndebug then Inr True
      else
        rbind (IterateAllAttachments check_size t (None, True)) (\<lambda>(_, sizes_are_same).
          if \<not> sizes_are_same then Inr False
          else rbind (IterateAllAttachments check_type t (None, True))
                 (\<lambda>(_, passes_type_validation). Inr passes_type_validation)))"

definition GetSampleCount :: "('c, 'd) render_target \<Rightarrow> SampleCount result" where
  "GetSampleCount t =
     (case color0 t of
        Some a \<Rightarrow> rbind (deref (texture a)) (\<lambda>x. Inr (sample_count (tex_desc x)))
      | None \<Rightarrow> Inr kCount1)"

definition GetColorAttachmentSize :: "nat \<Rightarrow> ('c, 'd) render_target \<Rightarrow> size option result" where
  "GetColorAttachmentSize index t =
     (case (if index = 0 then color0 t else map_of (colors t) index) of
        None \<Rightarrow> Inr None
      | Some a \<Rightarrow> rbind (deref (texture a)) (\<lambda>x. Inr (Some (tex_GetSize x))))"

definition GetRenderTargetSize :: "('c, 'd) render_target \<Rightarrow> size result" where
  "GetRenderTargetSize t =
     rbind (GetColorAttachmentSize 0 t) (\<lambda>s.
       Inr (case s of Some x \<Rightarrow> x | None \<Rightarrow> \<lparr>width = 0, height = 0\<rparr>))"

definition GetRenderTargetTexture :: "('c, 'd) render_target \<Rightarrow> texture_vk option" where
  "GetRenderTargetTexture t =
     (case color0 t of
        None \<Rightarrow> None
      | Some a \<Rightarrow> if resolve_texture a \<noteq> None then resolve_texture a else texture a)"

definition GetRenderTargetPixelFormat :: "('c, 'd) render_target \<Rightarrow> PixelFormat" where
  "GetRenderTargetPixelFormat t =
     (case GetRenderTargetTexture t of
        Some x \<Rightarrow> format (tex_desc x) | None \<Rightarrow> PixelFormat.kUnknown)"

definition GetMaxColorAttachmentBindIndex :: "('c, 'd) render_target \<Rightarrow> nat" where
  "GetMaxColorAttachmentBindIndex t = fold (\<lambda>(i, _) m. max i m) (colors t) 0"

definition SetColorAttachment ::
  "'c attachment \<Rightarrow> nat \<Rightarrow> ('c, 'd) render_target \<Rightarrow> ('c, 'd) render_target"
where
  "SetColorAttachment a index t =
     (if \<not> att_IsValid a then t
      else if index = 0 then t\<lparr>color0 := Some a\<rparr>
      else t\<lparr>colors := smap_put index a (colors t)\<rparr>)"

definition SetDepthAttachment ::
  "'d attachment option \<Rightarrow> ('c, 'd) render_target \<Rightarrow> ('c, 'd) render_target"
where
  "SetDepthAttachment a t =
     (case a of
        None \<Rightarrow> t\<lparr>depth := None\<rparr>
      | Some d \<Rightarrow> if att_IsValid d then t\<lparr>depth := a\<rparr> else t)"

definition SetStencilAttachment ::
  "u32 attachment option \<Rightarrow> ('c, 'd) render_target \<Rightarrow> ('c, 'd) render_target"
where
  "SetStencilAttachment a t =
     (case a of
        None \<Rightarrow> t\<lparr>stencil := None\<rparr>
      | Some s \<Rightarrow> if att_IsValid s then t\<lparr>stencil := a\<rparr> else t)"

definition GetColorAttachment :: "'c \<Rightarrow> nat \<Rightarrow> ('c, 'd) render_target \<Rightarrow> 'c attachment" where
  "GetColorAttachment black index t =
     (if index = 0 then
        (case color0 t of Some a \<Rightarrow> a | None \<Rightarrow> default_attachment black)
      else
        (case map_of (colors t) index of Some a \<Rightarrow> a | None \<Rightarrow> default_attachment black))"

definition GetTotalAttachmentCount :: "('c, 'd) render_target \<Rightarrow> nat" where
  "GetTotalAttachmentCount t =
     fold (\<lambda>(_, a) n. n + of_bool (texture a \<noteq> None) + of_bool (resolve_texture a \<noteq> None))
       (colors t) 0 +
     of_bool (color0 t \<noteq> None) + of_bool (depth t \<noteq> None) + of_bool (stencil t \<noteq> None)"

definition rt_ToString ::
  "('c \<Rightarrow> string) \<Rightarrow> ('d \<Rightarrow> string) \<Rightarrow> ('c, 'd) render_target \<Rightarrow> string"
where
  "rt_ToString color dep t =
     (case color0 t of None \<Rightarrow> []
      | Some a \<Rightarrow> ''Color[0]=('' @ ColorAttachmentToString color a @ '')'') @
     concat (map (\<lambda>(i, a). ''Color['' @ decimal i @ '']=('' @ ColorAttachmentToString color a @ '')'')
       (colors t)) @
     (case depth t of None \<Rightarrow> []
      | Some a \<Rightarrow> '','' @ ''Depth=('' @ DepthAttachmentToString dep a @ '')'') @
     (case stencil t of None \<Rightarrow> []
      | Some a \<Rightarrow> '','' @ ''Stencil=('' @ StencilAttachmentToString a @ '')'')"

record render_target_config =
  cfg_size :: size
  cfg_mip_count :: nat
  has_msaa :: bool
  has_depth_stencil :: bool

definition RenderTargetConfig :: render_target_config where
  "RenderTargetConfig = \<lparr>cfg_size = \<lparr>width = 0, height = 0\<rparr>, cfg_mip_count = 0, has_msaa = False,
     has_depth_stencil = False\<rparr>"

definition config_equal :: "render_target_config \<Rightarrow> render_target_config \<Rightarrow> bool" where
  "config_equal a b \<longleftrightarrow> size_equal (cfg_size a) (cfg_size b) \<and> cfg_mip_count a = cfg_mip_count b \<and>
     has_msaa a = has_msaa b \<and> has_depth_stencil a = has_depth_stencil b"

definition config_Hash :: "(int \<Rightarrow> u64) \<Rightarrow> render_target_config \<Rightarrow> u64" where
  "config_Hash h a =
     HashCombine [h (width (cfg_size a)), h (height (cfg_size a)), h (int (cfg_mip_count a)),
       h (of_bool (has_msaa a)), h (of_bool (has_depth_stencil a))]"

definition ToConfig :: "('c, 'd) render_target \<Rightarrow> render_target_config result" where
  "ToConfig t =
     (case color0 t of
        None \<Rightarrow> Inr RenderTargetConfig
      | Some a \<Rightarrow>
          rbind (deref (texture a)) (\<lambda>x.
            Inr \<lparr>cfg_size = tex_GetSize x, cfg_mip_count = tex_GetMipCount x,
                 has_msaa = (resolve_texture a \<noteq> None),
                 has_depth_stencil = (depth t \<noteq> None \<and> stencil t \<noteq> None)\<rparr>))"

subsection \<open>Creation\<close>

record render_context =
  max_texture_size :: size
  OnCreateTexture :: "nat \<Rightarrow> texture_descriptor \<Rightarrow> texture_vk option"
  default_color_format :: PixelFormat
  default_depth_stencil_format :: PixelFormat
  implicit_resolving_msaa :: bool
  log2_of :: "int \<Rightarrow> nat"

text \<open>The counter is the number of textures the allocator was asked for.\<close>

definition CreateTexture ::
  "render_context \<Rightarrow> texture_descriptor \<Rightarrow> nat \<Rightarrow> (texture_vk option \<times> nat) result"
where
  "CreateTexture env desc n =
     (if width (tex_size desc) > width (max_texture_size env) \<or>
         height (tex_size desc) > height (max_texture_size env)
      then Inr (None, n)
      else
        let mips = MipCount (log2_of env) (tex_size desc)
        in Inr (OnCreateTexture env n
                  (if mip_count desc > mips then desc\<lparr>mip_count := mips\<rparr> else desc), Suc n))"

record 'c attachment_config =
  ac_storage_mode :: StorageMode
  ac_load_action :: LoadAction
  ac_store_action :: StoreAction
  ac_clear_color :: 'c

record 'c attachment_config_msaa =
  acm_storage_mode :: StorageMode
  acm_resolve_storage_mode :: StorageMode
  acm_load_action :: LoadAction
  acm_store_action :: StoreAction
  acm_clear_color :: 'c

definition kDefaultColorAttachmentConfig :: "'c \<Rightarrow> 'c attachment_config" where
  "kDefaultColorAttachmentConfig black =
     \<lparr>ac_storage_mode = kDevicePrivate, ac_load_action = LoadAction.kClear,
      ac_store_action = StoreAction.kStore, ac_clear_color = black\<rparr>"

definition kDefaultColorAttachmentConfigMSAA :: "'c \<Rightarrow> 'c attachment_config_msaa" where
  "kDefaultColorAttachmentConfigMSAA black =
     \<lparr>acm_storage_mode = kDeviceTransient, acm_resolve_storage_mode = kDevicePrivate,
      acm_load_action = LoadAction.kClear, acm_store_action = StoreAction.kMultisampleResolve,
      acm_clear_color = black\<rparr>"

definition kDefaultStencilAttachmentConfig :: "'c \<Rightarrow> 'c attachment_config" where
  "kDefaultStencilAttachmentConfig black =
     \<lparr>ac_storage_mode = kDeviceTransient, ac_load_action = LoadAction.kClear,
      ac_store_action = StoreAction.kDontCare, ac_clear_color = black\<rparr>"

definition render_usage :: mask32 where
  "render_usage = mask_of (val_TextureUsage kRenderTarget)"

definition render_and_read_usage :: mask32 where
  "render_and_read_usage =
     mask_or (mask_of (val_TextureUsage kRenderTarget)) (mask_of (val_TextureUsage kShaderRead))"

definition SetupDepthStencilAttachments ::
  "render_context \<Rightarrow> 'd \<Rightarrow> size \<Rightarrow> bool \<Rightarrow> 'c attachment_config \<Rightarrow> texture_vk option \<Rightarrow>
   ('c, 'd) render_target \<times> nat \<Rightarrow> (('c, 'd) render_target \<times> nat) result"
where
  "SetupDepthStencilAttachments env zero sz msaa config existing x =
     (case x of (t, n) \<Rightarrow>
        rbind
          (case existing of
             Some e \<Rightarrow> Inr (Some e, n)
           | None \<Rightarrow>
               (let d0 = default_texture_descriptor\<lparr>storage_mode := ac_storage_mode config\<rparr>;
                    d1 = (if msaa then d0\<lparr>texture_type := kTexture2DMultisample,
                                          sample_count := kCount4\<rparr> else d0)
                in CreateTexture env
                     (d1\<lparr>format := default_depth_stencil_format env, tex_size := sz,
                         usage := render_usage\<rparr>) n))
          (\<lambda>(tex, n').
             if tex = None then Inr (t, n')
             else
               let depth0 = \<lparr>texture = tex, resolve_texture = None,
                              load_action = ac_load_action config,
                              store_action = ac_store_action config, clear_value = zero\<rparr>;
                   stencil0 = \<lparr>texture = tex, resolve_texture = None,
                                load_action = ac_load_action config,
                                store_action = ac_store_action config, clear_value = 0\<rparr>
               in Inr (SetStencilAttachment (Some stencil0) (SetDepthAttachment (Some depth0) t),
                       n')))"

definition setup_or_clear ::
  "render_context \<Rightarrow> 'd \<Rightarrow> size \<Rightarrow> bool \<Rightarrow> 'c attachment_config option \<Rightarrow> texture_vk option \<Rightarrow>
   ('c, 'd) render_target \<times> nat \<Rightarrow> (('c, 'd) render_target \<times> nat) result"
where
  "setup_or_clear env zero sz msaa config existing x =
     (case config of
        Some c \<Rightarrow> SetupDepthStencilAttachments env zero sz msaa c existing x
      | None \<Rightarrow> Inr (SetDepthAttachment None (SetStencilAttachment None (fst x)), snd x))"

definition CreateOffscreen ::
  "render_context \<Rightarrow> 'd \<Rightarrow> size \<Rightarrow> int \<Rightarrow> 'c attachment_config \<Rightarrow> 'c attachment_config option \<Rightarrow>
   texture_vk option \<Rightarrow> texture_vk option \<Rightarrow> PixelFormat option \<Rightarrow> nat \<Rightarrow>
   (('c, 'd) render_target \<times> nat) result"
where
  "CreateOffscreen env zero sz mips color_config stencil_config existing_color
     existing_depth_stencil target_format n =
     (if size_IsEmpty sz then Inr (RenderTarget, n)
      else
        rbind
          (case existing_color of
             Some e \<Rightarrow> Inr (Some e, n)
           | None \<Rightarrow>
               CreateTexture env
                 (default_texture_descriptor\<lparr>storage_mode := ac_storage_mode color_config,
                    format := (case target_format of Some f \<Rightarrow> f | None \<Rightarrow> default_color_format env),
                    tex_size := sz, mip_count := unat (word_of_int mips :: u64),
                    usage := render_and_read_usage\<rparr>) n)
          (\<lambda>(color0_tex, n').
             if color0_tex = None then Inr (RenderTarget, n')
             else
               let c0 = \<lparr>texture = color0_tex, resolve_texture = None,
                         load_action = ac_load_action color_config,
                         store_action = ac_store_action color_config,
                         clear_value = ac_clear_color color_config\<rparr>
               in setup_or_clear env zero sz False stencil_config existing_depth_stencil
                    (SetColorAttachment c0 0 RenderTarget, n')))"

definition CreateOffscreenMSAA ::
  "render_context \<Rightarrow> 'd \<Rightarrow> size \<Rightarrow> int \<Rightarrow> 'c attachment_config_msaa \<Rightarrow>
   'c attachment_config option \<Rightarrow> texture_vk option \<Rightarrow> texture_vk option \<Rightarrow> texture_vk option \<Rightarrow>
   PixelFormat option \<Rightarrow> nat \<Rightarrow> (('c, 'd) render_target \<times> nat) result"
where
  "CreateOffscreenMSAA env zero sz mips color_config stencil_config existing_msaa existing_resolve
     existing_depth_stencil target_format n =
     (if size_IsEmpty sz then Inr (RenderTarget, n)
      else
        let pixel_format = (case target_format of Some f \<Rightarrow> f | None \<Rightarrow> default_color_format env)
        in rbind
          (case existing_msaa of
             Some e \<Rightarrow> Inr (Some e, n)
           | None \<Rightarrow>
               CreateTexture env
                 (default_texture_descriptor\<lparr>
                    storage_mode := (if implicit_resolving_msaa env then kDevicePrivate
                                     else acm_storage_mode color_config),
                    texture_type := kTexture2DMultisample, sample_count := kCount4,
                    format := pixel_format, tex_size := sz, usage := render_usage\<rparr>) n)
          (\<lambda>(msaa_tex, n1).
             if msaa_tex = None then Inr (RenderTarget, n1)
             else rbind
               (case existing_resolve of
                  Some e \<Rightarrow> Inr (Some e, n1)
                | None \<Rightarrow>
                    CreateTexture env
                      (default_texture_descriptor\<lparr>
                         storage_mode := acm_resolve_storage_mode color_config,
                         format := pixel_format, tex_size := sz,
                         compression_type := kLossy, usage := render_and_read_usage,
                         mip_count := unat (word_of_int mips :: u64)\<rparr>) n1)
               (\<lambda>(resolve_tex, n2).
                  if resolve_tex = None then Inr (RenderTarget, n2)
                  else
                    let c0 = \<lparr>texture = msaa_tex,
                              resolve_texture = (if implicit_resolving_msaa env then msaa_tex
                                                 else resolve_tex),
                              load_action = acm_load_action color_config,
                              store_action = acm_store_action color_config,
                              clear_value = acm_clear_color color_config\<rparr>
                    in setup_or_clear env zero sz True stencil_config existing_depth_stencil
                         (SetColorAttachment c0 0 RenderTarget, n2))))"

end
