(* ===== verification/Render_Target_Props.thy ===== *)
theory Render_Target_Props
  imports Render_Target
begin

text \<open>
  Render targets only ever hold valid attachments, so their accessors never read through a null
  texture, and the targets that the allocator of offscreen targets builds are valid.
\<close>

subsection \<open>The invariant\<close>

definition rt_ok :: "('c, 'd) render_target \<Rightarrow> bool" where
  "rt_ok t \<longleftrightarrow>
     (\<forall>a \<in> set (opt_list (color0 t)). att_IsValid a) \<and>
     (\<forall>a \<in> set (opt_list (depth t)). att_IsValid a) \<and>
     (\<forall>a \<in> set (opt_list (stencil t)). att_IsValid a) \<and>
     (\<forall>(i, a) \<in> set (colors t). i \<noteq> 0 \<and> att_IsValid a) \<and> sset (map fst (colors t))"

datatype ('c, 'd) rt_event =
    set_color nat "'c attachment" | set_depth "'d attachment option"
  | set_stencil "u32 attachment option"

inductive rt_step :: "('c, 'd) render_target \<Rightarrow> ('c, 'd) rt_event \<Rightarrow> ('c, 'd) render_target \<Rightarrow> bool"
where
  step_color: "rt_step t (set_color i a) (SetColorAttachment a i t)"
| step_depth: "rt_step t (set_depth d) (SetDepthAttachment d t)"
| step_stencil: "rt_step t (set_stencil s) (SetStencilAttachment s t)"

lemma opt_list_simps [simp]: "opt_list None = []" "opt_list (Some x) = [x]"
  by (simp_all add: opt_list_def)

lemma rt_ok_start [simp]: "rt_ok RenderTarget"
  by (simp add: rt_ok_def RenderTarget_def)

lemma rt_ok_color [inv_intros]: "rt_ok t \<Longrightarrow> rt_ok (SetColorAttachment a i t)"
proof -
  assume ok: "rt_ok t"
  moreover have "set (smap_put i a (colors t)) \<subseteq> insert (i, a) (set (colors t))"
    by (rule set_smap_put)
  ultimately show ?thesis using ok by (fastforce simp: rt_ok_def SetColorAttachment_def)
qed

lemma rt_ok_depth [inv_intros]: "rt_ok t \<Longrightarrow> rt_ok (SetDepthAttachment d t)"
  by (auto simp: rt_ok_def SetDepthAttachment_def split: option.splits)

lemma rt_ok_stencil [inv_intros]: "rt_ok t \<Longrightarrow> rt_ok (SetStencilAttachment s t)"
  by (auto simp: rt_ok_def SetStencilAttachment_def split: option.splits)

interpretation rt: transition_system "\<lambda>t. t = RenderTarget" rt_step rt_ok
  by unfold_locales (auto elim!: rt_step.cases intro: inv_intros)

lemma valid_texture: "att_IsValid a \<Longrightarrow> \<exists>t. texture a = Some t"
  by (auto simp: att_IsValid_def split: option.splits)

lemma base_simps [simp]:
  "texture (base a) = texture a" "resolve_texture (base a) = resolve_texture a"
  "load_action (base a) = load_action a" "store_action (base a) = store_action a"
  by (simp_all add: base_def)

lemma valid_base [simp]: "att_IsValid (base a) = att_IsValid a"
  unfolding att_IsValid_def base_simps ..

lemma all_valid: "rt_ok t \<Longrightarrow> a \<in> set (all_attachments t) \<Longrightarrow> att_IsValid a"
  by (auto simp: all_attachments_def rt_ok_def)

subsection \<open>The checks of a debug build\<close>

abbreviation the_tex :: "'v attachment \<Rightarrow> texture_vk" where
  "the_tex a \<equiv> the (texture a)"

lemma check_size_Some:
  "texture a = Some t \<Longrightarrow>
   check_size a (Some z, k) =
     (if z \<noteq> tex_GetSize t then Inr (False, Some z, False) else Inr (True, Some z, k))"
  by (simp add: check_size_def deref_def Let_def)

lemma iterate_check_size:
  "\<forall>a \<in> set xs. texture a \<noteq> None \<Longrightarrow>
   \<exists>b s. iterate check_size xs (Some z, True) = Inr (b, s, \<forall>a \<in> set xs. tex_GetSize (the_tex a) = z)"
proof (induction xs)
  case (Cons a xs)
  then obtain t where t: "texture a = Some t" by auto
  show ?case using Cons by (cases "z = tex_GetSize t") (auto simp: t check_size_Some)
qed (auto intro: exI [of _ True])

lemma check_type_Some:
  "texture a = Some t \<Longrightarrow>
   check_type a (Some z, k) =
     (if z \<noteq> (texture_type (tex_desc t), sample_count (tex_desc t)) then Inr (False, Some z, False)
      else Inr (True, Some z, k))"
  by (cases z) (simp add: check_type_def deref_def Let_def)

lemma iterate_check_type:
  "\<forall>a \<in> set xs. texture a \<noteq> None \<Longrightarrow>
   \<exists>b s. iterate check_type xs (Some z, True) =
     Inr (b, s, \<forall>a \<in> set xs. (texture_type (tex_desc (the_tex a)),
       sample_count (tex_desc (the_tex a))) = z)"
proof (induction xs)
  case (Cons a xs)
  then obtain t where t: "texture a = Some t" by auto
  show ?case
    using Cons
    by (cases "z = (texture_type (tex_desc t), sample_count (tex_desc t))")
      (auto simp: t check_type_Some)
qed (auto intro: exI [of _ True])

text \<open>What all attachments share: size, type and sample count.\<close>

definition shape :: "unit attachment \<Rightarrow> size \<times> TextureType \<times> SampleCount" where
  "shape a = (tex_GetSize (the_tex a), texture_type (tex_desc (the_tex a)),
     sample_count (tex_desc (the_tex a)))"

lemma rt_IsValid_iff:
  assumes ok: "rt_ok t"
  shows "rt_IsValid nd t =
    Inr (color0 t \<noteq> None \<and>
         (nd \<or> (\<forall>a \<in> set (all_attachments t). \<forall>b \<in> set (all_attachments t). shape a = shape b)))"
proof (cases "color0 t")
  case None
  then show ?thesis by (simp add: rt_IsValid_def HasColorAttachment_def)
next
  case (Some a)
  let ?xs = "all_attachments t"
  obtain xs where xs: "?xs = base a # xs" by (simp add: all_attachments_def Some)
  have tex: "\<forall>b \<in> set ?xs. texture b \<noteq> None"
    using all_valid [OF ok] valid_texture by blast
  let ?z = "tex_GetSize (the_tex (base a))"
  let ?y = "(texture_type (tex_desc (the_tex (base a))), sample_count (tex_desc (the_tex (base a))))"
  obtain x where x: "texture a = Some x" using tex by (auto simp: xs)
  have "iterate check_size ?xs (None, True) = iterate check_size ?xs (Some ?z, True)"
    by (simp add: xs check_size_def deref_def x Let_def)
  moreover have "iterate check_type ?xs (None, True) = iterate check_type ?xs (Some ?y, True)"
    by (simp add: xs check_type_def deref_def x Let_def)
  moreover obtain b1 s1 where "iterate check_size ?xs (Some ?z, True) =
      Inr (b1, s1, \<forall>a \<in> set ?xs. tex_GetSize (the_tex a) = ?z)"
    using iterate_check_size [OF tex] by blast
  moreover obtain b2 s2 where "iterate check_type ?xs (Some ?y, True) =
      Inr (b2, s2, \<forall>a \<in> set ?xs. (texture_type (tex_desc (the_tex a)),
        sample_count (tex_desc (the_tex a))) = ?y)"
    using iterate_check_type [OF tex] by blast
  moreover have "(\<forall>a \<in> set ?xs. \<forall>b \<in> set ?xs. shape a = shape b) \<longleftrightarrow>
      (\<forall>a \<in> set ?xs. tex_GetSize (the_tex a) = ?z) \<and>
      (\<forall>a \<in> set ?xs. (texture_type (tex_desc (the_tex a)),
        sample_count (tex_desc (the_tex a))) = ?y)"
    by (auto simp: xs shape_def)
  ultimately show ?thesis
    by (simp add: rt_IsValid_def HasColorAttachment_def Some IterateAllAttachments_def)
qed

subsection \<open>Properties\<close>

text \<open>
  C16: However a render target is put together, it only holds valid attachments, and therefore
  none of its accessors reads through a null texture; the check of a debug build holds exactly
  when there is a first colour attachment and all textures agree in size, type and sample count.
\<close>

theorem render_target_well_typed:
  assumes "reachable_from (\<lambda>t. t = RenderTarget) rt_step t"
  shows "(\<forall>a \<in> set (all_attachments t). att_IsValid a) \<and>
    (\<exists>c. GetSampleCount t = Inr c) \<and> (\<exists>s. GetColorAttachmentSize i t = Inr s) \<and>
    (\<exists>s. GetRenderTargetSize t = Inr s) \<and> (\<exists>c. ToConfig t = Inr c) \<and>
    rt_IsValid False t =
      Inr (color0 t \<noteq> None \<and>
           (\<forall>a \<in> set (all_attachments t). \<forall>b \<in> set (all_attachments t). shape a = shape b))"
proof -
  have ok: "rt_ok t" by (rule rt.reachable_inv [OF assms])
  have c0: "\<exists>x. texture a = Some x" if "color0 t = Some a" for a
  proof -
    have "att_IsValid a" using ok that by (simp add: rt_ok_def)
    then show ?thesis by (rule valid_texture)
  qed
  have ci: "\<exists>x. texture a = Some x" if "map_of (colors t) j = Some a" for j a
  proof -
    have "att_IsValid a" using ok map_of_SomeD [OF that] by (auto simp: rt_ok_def)
    then show ?thesis by (rule valid_texture)
  qed
  have size: "\<exists>s. GetColorAttachmentSize j t = Inr s" for j
  proof (cases "if j = 0 then color0 t else map_of (colors t) j")
    case None
    then show ?thesis by (simp add: GetColorAttachmentSize_def)
  next
    case (Some a)
    then have "\<exists>x. texture a = Some x" using c0 [of a] ci [of j a] by (cases "j = 0") simp_all
    then show ?thesis using Some by (auto simp: GetColorAttachmentSize_def deref_def)
  qed
  have "\<exists>c. GetSampleCount t = Inr c" "\<exists>c. ToConfig t = Inr c"
    by (cases "color0 t"; use c0 in \<open>fastforce simp: GetSampleCount_def ToConfig_def deref_def\<close>)+
  moreover have "\<exists>s. GetRenderTargetSize t = Inr s"
    using size [of 0] by (auto simp: GetRenderTargetSize_def)
  ultimately show ?thesis
    using size all_valid [OF ok] rt_IsValid_iff [OF ok, of False] by simp
qed

definition demo_texture :: texture_vk where
  "demo_texture = \<lparr>tex_id = 0, has_source = True, tex_desc = default_texture_descriptor
     \<lparr>storage_mode := kDevicePrivate, format := kR8G8B8A8UNormInt,
      tex_size := \<lparr>width = 4, height = 4\<rparr>\<rparr>\<rparr>"

definition demo_target :: "(nat, nat) render_target" where
  "demo_target = SetColorAttachment \<lparr>texture = Some demo_texture, resolve_texture = None,
     load_action = LoadAction.kClear, store_action = StoreAction.kStore, clear_value = 0\<rparr> 0
     RenderTarget"

theorem render_target_well_typed_witness:
  "rt_IsValid False demo_target = Inr True"
proof -
  have "reachable_from (\<lambda>t. t = RenderTarget) rt_step (RenderTarget :: (nat, nat) render_target)"
    by (rule reach_start) simp
  then have "reachable_from (\<lambda>t. t = RenderTarget) rt_step demo_target"
    unfolding demo_target_def
    using reach_step [of "\<lambda>t. t = RenderTarget" rt_step "RenderTarget :: (nat, nat) render_target"]
      step_color by blast
  from render_target_well_typed [OF this, of 0] show ?thesis
    by (simp add: demo_target_def SetColorAttachment_def att_IsValid_def tex_IsValid_def
        demo_texture_def default_texture_descriptor_def RenderTarget_def all_attachments_def Let_def)
qed

subsection \<open>Offscreen targets\<close>

text \<open>
  What the code relies on: the memory allocator returns a texture with the descriptor it was
  asked for, or none.
\<close>

definition faithful :: "render_context \<Rightarrow> bool" where
  "faithful env \<longleftrightarrow>
     (\<forall>n d t. OnCreateTexture env n d = Some t \<longrightarrow> has_source t \<and> tex_desc t = d)"

lemma CreateTexture_Some:
  assumes "faithful env" "CreateTexture env desc n = Inr (Some t, n')"
  shows "\<exists>k. has_source t \<and> tex_desc t = desc\<lparr>mip_count := k\<rparr>"
proof -
  from assms(2) obtain k where "OnCreateTexture env n (desc\<lparr>mip_count := k\<rparr>) = Some t"
    by (auto simp: CreateTexture_def Let_def split: if_splits intro: that [of "mip_count desc"] that)
  then show ?thesis using assms(1) by (auto simp: faithful_def)
qed

lemma CreateTexture_total: "\<exists>r n'. CreateTexture env desc n = Inr (r, n')"
  by (simp add: CreateTexture_def Let_def)

text \<open>The allocator has no texture of the size, format and sample count.\<close>

definition creation_failed ::
  "render_context \<Rightarrow> size \<Rightarrow> PixelFormat \<Rightarrow> SampleCount \<Rightarrow> nat \<Rightarrow> bool"
where
  "creation_failed env sz f samples n \<longleftrightarrow>
     (\<exists>d m. tex_size d = sz \<and> format d = f \<and> sample_count d = samples \<and>
        CreateTexture env d n = Inr (None, m))"

lemma creation_failedI:
  "CreateTexture env d n = Inr (None, m) \<Longrightarrow> tex_size d = sz \<Longrightarrow> format d = f \<Longrightarrow>
   sample_count d = samples \<Longrightarrow> creation_failed env sz f samples n"
  by (auto simp: creation_failed_def)

lemma CreateTexture_next: "CreateTexture env d n = Inr (Some t, m) \<Longrightarrow> m = Suc n"
  by (auto simp: CreateTexture_def Let_def split: if_splits)

abbreviation ms_type :: "bool \<Rightarrow> TextureType" where
  "ms_type msaa \<equiv> (if msaa then kTexture2DMultisample else kTexture2D)"

abbreviation ms_count :: "bool \<Rightarrow> SampleCount" where
  "ms_count msaa \<equiv> (if msaa then kCount4 else kCount1)"

definition ds_attachments :: "('c, 'd) render_target \<Rightarrow> unit attachment list" where
  "ds_attachments t = map base (opt_list (depth t)) @ map base (opt_list (stencil t))"

lemma setup_shape:
  assumes f: "faithful env" and ok: "rt_ok t" and none: "depth t = None" "stencil t = None"
    and s: "setup_or_clear env zero sz msaa config None (t, n) = Inr (t', n')"
  shows "rt_ok t' \<and> color0 t' = color0 t \<and> colors t' = colors t \<and>
         (\<forall>a \<in> set (ds_attachments t'). shape a = (sz, ms_type msaa, ms_count msaa))"
proof (cases config)
  case None
  then have "t' = SetDepthAttachment None (SetStencilAttachment None t)"
    using s by (simp add: setup_or_clear_def)
  then show ?thesis using ok none
    by (simp add: inv_intros) (simp add: SetDepthAttachment_def SetStencilAttachment_def ds_attachments_def)
next
  case (Some c)
  let ?d = "(if msaa then default_texture_descriptor\<lparr>storage_mode := ac_storage_mode c,
               texture_type := kTexture2DMultisample, sample_count := kCount4\<rparr>
             else default_texture_descriptor\<lparr>storage_mode := ac_storage_mode c\<rparr>)
            \<lparr>format := default_depth_stencil_format env, tex_size := sz, usage := render_usage\<rparr>"
  obtain r n1 where ct: "CreateTexture env ?d n = Inr (r, n1)" using CreateTexture_total by blast
  show ?thesis
  proof (cases r)
    case None
    then have "t' = t" using s Some ct
      by (simp add: setup_or_clear_def SetupDepthStencilAttachments_def Let_def)
    then show ?thesis using ok none by (simp add: ds_attachments_def)
  next
    case r: (Some x)
    define dep where "dep = \<lparr>texture = Some x, resolve_texture = None,
      load_action = ac_load_action c, store_action = ac_store_action c, clear_value = zero\<rparr>"
    define ste where "ste = \<lparr>texture = Some x, resolve_texture = None,
      load_action = ac_load_action c, store_action = ac_store_action c, clear_value = 0 :: u32\<rparr>"
    have t': "t' = SetStencilAttachment (Some ste) (SetDepthAttachment (Some dep) t)"
      using s Some ct r
      by (simp add: setup_or_clear_def SetupDepthStencilAttachments_def Let_def dep_def ste_def)
    obtain k where "tex_desc x = ?d\<lparr>mip_count := k\<rparr>"
      using CreateTexture_Some [OF f ct [unfolded r]] by blast
    then have "shape (base dep) = (sz, ms_type msaa, ms_count msaa)"
      "shape (base ste) = (sz, ms_type msaa, ms_count msaa)"
      by (simp_all add: shape_def dep_def ste_def tex_GetSize_def default_texture_descriptor_def)
    moreover have "rt_ok t'" unfolding t' by (intro inv_intros ok)
    ultimately show ?thesis using none
      by (auto simp: t' SetStencilAttachment_def SetDepthAttachment_def ds_attachments_def)
  qed
qed

text \<open>A target whose only colour attachment has the shape of the others is valid.\<close>

lemma single_color_valid:
  assumes ok: "rt_ok t" and c: "color0 t = Some a" "colors t = []" "shape (base a) = z"
    and ds: "\<forall>b \<in> set (ds_attachments t). shape b = z"
  shows "rt_IsValid False t = Inr True"
proof -
  have "set (all_attachments t) = insert (base a) (set (ds_attachments t))"
    using c by (auto simp: all_attachments_def ds_attachments_def)
  then show ?thesis using rt_IsValid_iff [OF ok, of False] c ds by auto
qed

lemma finish_valid:
  assumes f: "faithful env" and a: "att_IsValid a" "texture a = Some x"
    and sh: "shape (base a) = (sz, ms_type msaa, ms_count msaa)"
    and s: "setup_or_clear env zero sz msaa config None (SetColorAttachment a 0 RenderTarget, n) =
              Inr (t, n')"
  shows "color0 t = Some a \<and> rt_IsValid False t = Inr True \<and> GetRenderTargetSize t = Inr sz \<and>
         GetSampleCount t = Inr (ms_count msaa)"
proof -
  let ?t0 = "SetColorAttachment a 0 RenderTarget"
  have t0: "color0 ?t0 = Some a" "colors ?t0 = []" "depth ?t0 = None" "stencil ?t0 = None"
    using a by (simp_all add: SetColorAttachment_def RenderTarget_def)
  have "rt_ok ?t0" by (intro inv_intros rt_ok_start)
  from setup_shape [OF f this t0(3,4) s]
  have t: "rt_ok t" "color0 t = Some a" "colors t = []"
    "\<forall>b \<in> set (ds_attachments t). shape b = (sz, ms_type msaa, ms_count msaa)"
    using t0 by simp_all
  have "rt_IsValid False t = Inr True" by (rule single_color_valid [OF t(1-3) sh t(4)])
  then show ?thesis using t(2) a sh
    by (simp add: GetRenderTargetSize_def GetColorAttachmentSize_def GetSampleCount_def deref_def
        shape_def)
qed

lemma msaa_config:
  "acm_storage_mode (kDefaultColorAttachmentConfigMSAA black) = kDeviceTransient"
  "acm_resolve_storage_mode (kDefaultColorAttachmentConfigMSAA black) = kDevicePrivate"
  "acm_load_action (kDefaultColorAttachmentConfigMSAA black) = LoadAction.kClear"
  "acm_store_action (kDefaultColorAttachmentConfigMSAA black) = StoreAction.kMultisampleResolve"
  "acm_clear_color (kDefaultColorAttachmentConfigMSAA black) = black"
  by (simp_all add: kDefaultColorAttachmentConfigMSAA_def)

lemma setup_or_clear_total: "\<exists>t' n'. setup_or_clear env zero sz msaa config None (t, n) = Inr (t', n')"
proof (cases config)
  case (Some c)
  obtain r m where "CreateTexture env
      ((if msaa then default_texture_descriptor\<lparr>storage_mode := ac_storage_mode c,
           texture_type := kTexture2DMultisample, sample_count := kCount4\<rparr>
        else default_texture_descriptor\<lparr>storage_mode := ac_storage_mode c\<rparr>)
       \<lparr>format := default_depth_stencil_format env, tex_size := sz, usage := render_usage\<rparr>) n = Inr (r, m)"
    using CreateTexture_total by blast
  then show ?thesis using Some
    by (simp add: setup_or_clear_def SetupDepthStencilAttachments_def Let_def)
qed (simp add: setup_or_clear_def)

text \<open>Depth and stencil are set together, unless their texture could not be made.\<close>

lemma setup_default:
  assumes f: "faithful env" and none: "depth t = None" "stencil t = None"
    and s: "setup_or_clear env zero sz msaa (Some (kDefaultStencilAttachmentConfig black)) None (t, n) =
              Inr (t', n')"
  shows "(depth t' = None \<longleftrightarrow> stencil t' = None) \<and>
         (depth t' = None \<longrightarrow>
            creation_failed env sz (default_depth_stencil_format env) (ms_count msaa) n)"
proof -
  let ?c = "kDefaultStencilAttachmentConfig black"
  let ?d = "(if msaa then default_texture_descriptor\<lparr>storage_mode := ac_storage_mode ?c,
               texture_type := kTexture2DMultisample, sample_count := kCount4\<rparr>
             else default_texture_descriptor\<lparr>storage_mode := ac_storage_mode ?c\<rparr>)
            \<lparr>format := default_depth_stencil_format env, tex_size := sz, usage := render_usage\<rparr>"
  obtain r n1 where ct: "CreateTexture env ?d n = Inr (r, n1)" using CreateTexture_total by blast
  show ?thesis
  proof (cases r)
    case None
    then have "t' = t" using s ct
      by (simp add: setup_or_clear_def SetupDepthStencilAttachments_def Let_def)
    moreover have "creation_failed env sz (default_depth_stencil_format env) (ms_count msaa) n"
      by (rule creation_failedI [OF ct [unfolded None]]) (simp_all add: default_texture_descriptor_def)
    ultimately show ?thesis using none by simp
  next
    case (Some x)
    obtain k where "has_source x" "tex_desc x = ?d\<lparr>mip_count := k\<rparr>"
      using CreateTexture_Some [OF f ct [unfolded Some]] by blast
    then have valid: "att_IsValid \<lparr>texture = Some x, resolve_texture = None,
        load_action = ac_load_action ?c, store_action = ac_store_action ?c, clear_value = zero\<rparr>"
      "att_IsValid \<lparr>texture = Some x, resolve_texture = None,
        load_action = ac_load_action ?c, store_action = ac_store_action ?c, clear_value = 0 :: u32\<rparr>"
      by (simp_all add: att_IsValid_def tex_IsValid_def kDefaultStencilAttachmentConfig_def
          default_texture_descriptor_def)
    have "t' = SetStencilAttachment (Some \<lparr>texture = Some x, resolve_texture = None,
          load_action = ac_load_action ?c, store_action = ac_store_action ?c, clear_value = 0\<rparr>)
        (SetDepthAttachment (Some \<lparr>texture = Some x, resolve_texture = None,
          load_action = ac_load_action ?c, store_action = ac_store_action ?c, clear_value = zero\<rparr>) t)"
      using s Some ct by (simp add: setup_or_clear_def SetupDepthStencilAttachments_def Let_def)
    then show ?thesis by (simp add: SetStencilAttachment_def SetDepthAttachment_def valid)
  qed
qed

text \<open>What a target has to be when its colour textures could be made.\<close>

definition usable_target ::
  "render_context \<Rightarrow> size \<Rightarrow> SampleCount \<Rightarrow> nat \<Rightarrow> ('c, 'd) render_target \<Rightarrow> bool"
where
  "usable_target env sz samples n t \<longleftrightarrow>
     color0 t \<noteq> None \<and> rt_IsValid False t = Inr True \<and> GetRenderTargetSize t = Inr sz \<and>
     GetSampleCount t = Inr samples \<and> (depth t = None \<longleftrightarrow> stencil t = None) \<and>
     (depth t = None \<longrightarrow> creation_failed env sz (default_depth_stencil_format env) samples n)"

lemma usable_targetI:
  assumes "faithful env" "att_IsValid a" "texture a = Some x"
    and "shape (base a) = (sz, ms_type msaa, ms_count msaa)"
    and s: "setup_or_clear env zero sz msaa (Some (kDefaultStencilAttachmentConfig black)) None
           (SetColorAttachment a 0 RenderTarget, n) = Inr (t, n')"
  shows "color0 t = Some a" "usable_target env sz (ms_count msaa) n t"
proof -
  have "depth (SetColorAttachment a 0 RenderTarget) = None"
    "stencil (SetColorAttachment a 0 RenderTarget) = None"
    by (simp_all add: SetColorAttachment_def RenderTarget_def)
  from setup_default [OF assms(1) this s] finish_valid [OF assms]
  show "color0 t = Some a" "usable_target env sz (ms_count msaa) n t"
    by (simp_all add: usable_target_def)
qed

text \<open>
  C17: With the default configurations and without textures of the caller, creating a target of a
  non-empty size always returns. Either it is the empty target, and then a colour texture of that
  size, format and sample count could not be allocated (with multisampling: the multisample texture
  or the one it resolves to), or the target has its colour attachment, passes the checks of a debug
  build, has the requested size and the sample count of its kind (one, or four with multisampling)
  and, when multisampled, a texture that it resolves to; it has depth and stencil unless their
  texture could not be allocated.
\<close>

theorem offscreen_targets_valid:
  assumes "faithful env" and "\<not> size_IsEmpty sz"
  shows "(\<exists>t n'. CreateOffscreen env zero sz mips (kDefaultColorAttachmentConfig black)
            (Some (kDefaultStencilAttachmentConfig black)) None None fmt n = Inr (t, n') \<and>
          (t = RenderTarget \<and>
             creation_failed env sz (case fmt of Some f \<Rightarrow> f | None \<Rightarrow> default_color_format env) kCount1 n \<or>
           usable_target env sz kCount1 (Suc n) t)) \<and>
         (\<exists>u m. CreateOffscreenMSAA env zero sz mips (kDefaultColorAttachmentConfigMSAA black)
            (Some (kDefaultStencilAttachmentConfig black)) None None None fmt n = Inr (u, m) \<and>
          (u = RenderTarget \<and>
             (creation_failed env sz (case fmt of Some f \<Rightarrow> f | None \<Rightarrow> default_color_format env) kCount4 n \<or>
              creation_failed env sz (case fmt of Some f \<Rightarrow> f | None \<Rightarrow> default_color_format env)
                kCount1 (Suc n)) \<or>
           usable_target env sz kCount4 (Suc (Suc n)) u \<and> (\<exists>c. ToConfig u = Inr c \<and> has_msaa c)))"
    (is "?single \<and> ?multi")
proof
  let ?fmt = "case fmt of Some f \<Rightarrow> f | None \<Rightarrow> default_color_format env"
  let ?d = "default_texture_descriptor\<lparr>storage_mode := kDevicePrivate, format := ?fmt,
    tex_size := sz, mip_count := unat (word_of_int mips :: u64), usage := render_and_read_usage\<rparr>"
  obtain r n1 where ct: "CreateTexture env ?d n = Inr (r, n1)" using CreateTexture_total by blast
  show ?single
  proof (cases r)
    case None
    have "creation_failed env sz ?fmt kCount1 n"
      by (rule creation_failedI [OF ct [unfolded None]]) (simp_all add: default_texture_descriptor_def)
    then show ?thesis
      using ct assms(2) None by (simp add: CreateOffscreen_def kDefaultColorAttachmentConfig_def)
  next
    case (Some x)
    define a where "a = \<lparr>texture = Some x, resolve_texture = None,
      load_action = LoadAction.kClear, store_action = StoreAction.kStore, clear_value = black\<rparr>"
    obtain t n' where s: "setup_or_clear env zero sz False (Some (kDefaultStencilAttachmentConfig black))
        None (SetColorAttachment a 0 RenderTarget, n1) = Inr (t, n')"
      using setup_or_clear_total [of env zero sz False "Some (kDefaultStencilAttachmentConfig black)"
          "SetColorAttachment a 0 RenderTarget" n1] by blast
    have c: "CreateOffscreen env zero sz mips (kDefaultColorAttachmentConfig black)
        (Some (kDefaultStencilAttachmentConfig black)) None None fmt n = Inr (t, n')"
      using s ct assms(2) Some
      by (simp add: CreateOffscreen_def kDefaultColorAttachmentConfig_def a_def Let_def)
    obtain k where x: "has_source x" "tex_desc x = ?d\<lparr>mip_count := k\<rparr>"
      using CreateTexture_Some [OF assms(1) ct [unfolded Some]] by blast
    have v: "att_IsValid a" using x
      by (simp add: att_IsValid_def a_def tex_IsValid_def default_texture_descriptor_def)
    have sh: "shape (base a) = (sz, ms_type False, ms_count False)" using x
      by (simp add: shape_def a_def tex_GetSize_def default_texture_descriptor_def)
    have "usable_target env sz kCount1 (Suc n) t"
      using usable_targetI(2) [OF assms(1) v _ sh s, of x] CreateTexture_next [OF ct [unfolded Some]]
      by (simp add: a_def)
    then show ?thesis using c by blast
  qed
next
  let ?fmt = "case fmt of Some f \<Rightarrow> f | None \<Rightarrow> default_color_format env"
  let ?d = "default_texture_descriptor\<lparr>
    storage_mode := (if implicit_resolving_msaa env then kDevicePrivate else kDeviceTransient),
    texture_type := kTexture2DMultisample, sample_count := kCount4,
    format := ?fmt, tex_size := sz, usage := render_usage\<rparr>"
  let ?e = "default_texture_descriptor\<lparr>storage_mode := kDevicePrivate, format := ?fmt,
    tex_size := sz, compression_type := kLossy, usage := render_and_read_usage,
    mip_count := unat (word_of_int mips :: u64)\<rparr>"
  let ?create = "CreateOffscreenMSAA env zero sz mips (kDefaultColorAttachmentConfigMSAA black)
            (Some (kDefaultStencilAttachmentConfig black)) None None None fmt n"
  obtain r n1 where ct: "CreateTexture env ?d n = Inr (r, n1)" using CreateTexture_total by blast
  obtain q n2 where cq: "CreateTexture env ?e n1 = Inr (q, n2)" using CreateTexture_total by blast
  note c1 = CreateOffscreenMSAA_def [of env zero sz mips "kDefaultColorAttachmentConfigMSAA black"
      "Some (kDefaultStencilAttachmentConfig black)" None None None fmt n,
      unfolded if_not_P [OF assms(2)] Let_def msaa_config option.case ct rbind.simps prod.case]
  show ?multi
  proof (cases "r = None \<or> q = None")
    case True
    then have "\<exists>m. ?create = Inr (RenderTarget, m)"
      using c1 [unfolded cq rbind.simps prod.case] by (auto split: if_splits)
    moreover have "creation_failed env sz ?fmt kCount4 n \<or> creation_failed env sz ?fmt kCount1 (Suc n)"
    proof (cases r)
      case None
      have "creation_failed env sz ?fmt kCount4 n"
        by (rule creation_failedI [OF ct [unfolded None]]) simp_all
      then show ?thesis ..
    next
      case (Some x)
      then have "q = None" "n1 = Suc n" using True CreateTexture_next ct by auto
      with cq have q: "CreateTexture env ?e (Suc n) = Inr (None, n2)" by simp
      have "creation_failed env sz ?fmt kCount1 (Suc n)"
        by (rule creation_failedI [OF q]) (simp_all add: default_texture_descriptor_def)
      then show ?thesis ..
    qed
    ultimately show ?thesis by blast
  next
    case False
    then obtain x y where xy: "r = Some x" "q = Some y" by auto
    define a where "a = \<lparr>texture = Some x,
      resolve_texture = (if implicit_resolving_msaa env then Some x else Some y),
      load_action = LoadAction.kClear, store_action = StoreAction.kMultisampleResolve,
      clear_value = black\<rparr>"
    obtain u m where s: "setup_or_clear env zero sz True (Some (kDefaultStencilAttachmentConfig black))
        None (SetColorAttachment a 0 RenderTarget, n2) = Inr (u, m)"
      using setup_or_clear_total [of env zero sz True "Some (kDefaultStencilAttachmentConfig black)"
          "SetColorAttachment a 0 RenderTarget" n2] by blast
    have c: "?create = Inr (u, m)"
      using c1 [unfolded cq rbind.simps prod.case] xy s unfolding a_def
      by (cases "implicit_resolving_msaa env") simp_all
    obtain k where x: "has_source x" "tex_desc x = ?d\<lparr>mip_count := k\<rparr>"
      using CreateTexture_Some [OF assms(1) ct [unfolded xy]] by blast
    obtain l where y: "has_source y" "tex_desc y = ?e\<lparr>mip_count := l\<rparr>"
      using CreateTexture_Some [OF assms(1) cq [unfolded xy]] by blast
    have v: "att_IsValid a" using x y
      by (simp add: att_IsValid_def a_def tex_IsValid_def default_texture_descriptor_def)
    have sh: "shape (base a) = (sz, ms_type True, ms_count True)" using x
      by (simp add: shape_def a_def tex_GetSize_def default_texture_descriptor_def)
    have n2: "n2 = Suc (Suc n)" using CreateTexture_next ct cq xy by auto
    note u = usable_targetI [OF assms(1) v _ sh s, of x]
    have "usable_target env sz kCount4 (Suc (Suc n)) u" "color0 u = Some a"
      using u n2 by (simp_all add: a_def)
    moreover have "\<exists>c. ToConfig u = Inr c \<and> has_msaa c"
      using calculation(2) by (simp add: ToConfig_def a_def deref_def)
    ultimately show ?thesis using c by blast
  qed
qed

definition demo_context :: render_context where
  "demo_context = \<lparr>max_texture_size = \<lparr>width = 4096, height = 4096\<rparr>,
     OnCreateTexture = (\<lambda>n d. Some \<lparr>tex_id = n, has_source = True, tex_desc = d\<rparr>),
     default_color_format = kR8G8B8A8UNormInt, default_depth_stencil_format = kD24UnormS8Uint,
     implicit_resolving_msaa = False, log2_of = (\<lambda>_. 5)\<rparr>"

text \<open>The allocator of the example never fails, so both targets are usable.\<close>

theorem offscreen_targets_valid_witness:
  "(\<exists>t n. CreateOffscreen demo_context (0 :: nat) \<lparr>width = 32, height = 32\<rparr> 1
          (kDefaultColorAttachmentConfig (0 :: nat)) (Some (kDefaultStencilAttachmentConfig 0))
          None None None 0 = Inr (t, n) \<and> rt_IsValid False t = Inr True \<and>
        GetSampleCount t = Inr kCount1 \<and> depth t \<noteq> None) \<and>
   (\<exists>u n c. CreateOffscreenMSAA demo_context (0 :: nat) \<lparr>width = 32, height = 32\<rparr> 1
          (kDefaultColorAttachmentConfigMSAA (0 :: nat)) (Some (kDefaultStencilAttachmentConfig 0))
          None None None None 0 = Inr (u, n) \<and> rt_IsValid False u = Inr True \<and>
        GetSampleCount u = Inr kCount4 \<and> ToConfig u = Inr c \<and> has_msaa c)"
proof -
  have f: "faithful demo_context" by (auto simp: faithful_def demo_context_def)
  have e: "\<not> size_IsEmpty \<lparr>width = 32, height = 32\<rparr>" by (simp add: size_IsEmpty_def)
  have never: "\<not> creation_failed demo_context \<lparr>width = 32, height = 32\<rparr> g k m" for g k m
    by (auto simp: creation_failed_def CreateTexture_def demo_context_def Let_def)
  from offscreen_targets_valid [OF f e, of "0 :: nat" 1 "0 :: nat" None 0] never
  show ?thesis unfolding usable_target_def by blast
qed

text \<open>
  The check on a transient multisample texture that is also stored only writes to the log.
\<close>

lemma transient_texture_may_be_stored:
  assumes "has_source x" "has_source y" "storage_mode (tex_desc x) = kDeviceTransient"
    "storage_mode (tex_desc y) = kDevicePrivate"
  shows "att_IsValid \<lparr>texture = Some x, resolve_texture = Some y, load_action = LoadAction.kClear,
    store_action = StoreAction.kStoreAndMultisampleResolve, clear_value = c\<rparr>"
  using assms by (simp add: att_IsValid_def tex_IsValid_def)

end
