(* ===== verification/Capabilities.thy ===== *)
theory Capabilities
  imports Formats_Vk Driver_Info
begin

text \<open>
  What the context may use of a Vulkan instance and device: \<^verbatim>\<open>src/hal/capabilities_vk.{h,cc}\<close>.

  The answers of the Vulkan instance and of a physical device to the queries of the code are
  records; a query that does not succeed is \<open>None\<close>. The strings behind the extension name macros
  of the Vulkan headers are a parameter.
\<close>

subsection \<open>Extensions\<close>

datatype RequiredCommonDeviceExtensionVK = kKHRSwapchain | kLast

datatype RequiredAndroidDeviceExtensionVK =
    kANDROIDExternalMemoryAndroidHardwareBuffer | kKHRSamplerYcbcrConversion | kKHRExternalMemory
  | kEXTQueueFamilyForeign | kKHRDedicatedAllocation | kLast

datatype OptionalAndroidDeviceExtensionVK =
    kKHRExternalFenceFd | kKHRExternalFence | kKHRExternalSemaphoreFd | kKHRExternalSemaphore
  | kLast

datatype OptionalDeviceExtensionVK =
    kEXTPipelineCreationFeedback | kVKKHRPortabilitySubset | kEXTImageCompressionControl | kLast

text \<open>The macros of the Vulkan headers.\<close>

datatype extension_macro =
    VK_KHR_SWAPCHAIN | VK_KHR_SAMPLER_YCBCR_CONVERSION | VK_KHR_EXTERNAL_MEMORY
  | VK_EXT_QUEUE_FAMILY_FOREIGN | VK_KHR_DEDICATED_ALLOCATION | VK_KHR_EXTERNAL_FENCE_FD
  | VK_KHR_EXTERNAL_FENCE | VK_KHR_EXTERNAL_SEMAPHORE_FD | VK_KHR_EXTERNAL_SEMAPHORE
  | VK_EXT_PIPELINE_CREATION_FEEDBACK | VK_EXT_IMAGE_COMPRESSION_CONTROL

fun common_name :: "(extension_macro \<Rightarrow> string) \<Rightarrow> RequiredCommonDeviceExtensionVK \<Rightarrow> string" where
  "common_name vk kKHRSwapchain = vk VK_KHR_SWAPCHAIN"
| "common_name vk RequiredCommonDeviceExtensionVK.kLast = ''Unknown''"

fun android_name :: "(extension_macro \<Rightarrow> string) \<Rightarrow> RequiredAndroidDeviceExtensionVK \<Rightarrow> string" where
  "android_name vk kANDROIDExternalMemoryAndroidHardwareBuffer =
     ''VK_ANDROID_external_memory_android_hardware_buffer''"
| "android_name vk kKHRSamplerYcbcrConversion = vk VK_KHR_SAMPLER_YCBCR_CONVERSION"
| "android_name vk kKHRExternalMemory = vk VK_KHR_EXTERNAL_MEMORY"
| "android_name vk kEXTQueueFamilyForeign = vk VK_EXT_QUEUE_FAMILY_FOREIGN"
| "android_name vk kKHRDedicatedAllocation = vk VK_KHR_DEDICATED_ALLOCATION"
| "android_name vk RequiredAndroidDeviceExtensionVK.kLast = ''Unknown''"

fun optional_android_name ::
  "(extension_macro \<Rightarrow> string) \<Rightarrow> OptionalAndroidDeviceExtensionVK \<Rightarrow> string"
where
  "optional_android_name vk kKHRExternalFenceFd = vk VK_KHR_EXTERNAL_FENCE_FD"
| "optional_android_name vk kKHRExternalFence = vk VK_KHR_EXTERNAL_FENCE"
| "optional_android_name vk kKHRExternalSemaphoreFd = vk VK_KHR_EXTERNAL_SEMAPHORE_FD"
| "optional_android_name vk kKHRExternalSemaphore = vk VK_KHR_EXTERNAL_SEMAPHORE"
| "optional_android_name vk OptionalAndroidDeviceExtensionVK.kLast = ''Unknown''"

fun optional_name :: "(extension_macro \<Rightarrow> string) \<Rightarrow> OptionalDeviceExtensionVK \<Rightarrow> string" where
  "optional_name vk kEXTPipelineCreationFeedback = vk VK_EXT_PIPELINE_CREATION_FEEDBACK"
| "optional_name vk kVKKHRPortabilitySubset = ''VK_KHR_portability_subset''"
| "optional_name vk kEXTImageCompressionControl = vk VK_EXT_IMAGE_COMPRESSION_CONTROL"
| "optional_name vk OptionalDeviceExtensionVK.kLast = ''Unknown''"

text \<open>The values an iteration visits: those before \<open>kLast\<close>.\<close>

definition common_extensions :: "RequiredCommonDeviceExtensionVK list" where
  "common_extensions = [kKHRSwapchain]"

definition android_extensions :: "RequiredAndroidDeviceExtensionVK list" where
  "android_extensions = [kANDROIDExternalMemoryAndroidHardwareBuffer, kKHRSamplerYcbcrConversion,
     kKHRExternalMemory, kEXTQueueFamilyForeign, kKHRDedicatedAllocation]"

definition optional_android_extensions :: "OptionalAndroidDeviceExtensionVK list" where
  "optional_android_extensions = [kKHRExternalFenceFd, kKHRExternalFence,
     kKHRExternalSemaphoreFd, kKHRExternalSemaphore]"

definition optional_extensions :: "OptionalDeviceExtensionVK list" where
  "optional_extensions = [kEXTPipelineCreationFeedback, kVKKHRPortabilitySubset,
     kEXTImageCompressionControl]"

text \<open>The iteration stops at the first value for which the function is false.\<close>

fun IterateExtensions :: "('e \<Rightarrow> 's \<Rightarrow> bool \<times> 's) \<Rightarrow> 'e list \<Rightarrow> 's \<Rightarrow> bool \<times> 's" where
  "IterateExtensions it [] s = (True, s)"
| "IterateExtensions it (e # es) s =
     (case it e s of (continue, s') \<Rightarrow> if \<not> continue then (False, s') else IterateExtensions it es s')"

subsection \<open>Queries\<close>

record vulkan_instance =
  instance_extensions :: "string list option"
  instance_layers :: "string list option"
  layer_extensions :: "string \<Rightarrow> string list option"

datatype VkQueueFlagBits = eGraphics | eCompute | eTransfer | unlisted_queue_flag nat

record physical_device =
  device_extensions :: "string list option"
  color_attachment_formats :: "VkFormat \<Rightarrow> bool"
  depth_stencil_formats :: "VkFormat \<Rightarrow> bool"
  framebuffer_color_sample_counts :: "nat set"
  queue_families :: "(nat \<times> VkQueueFlagBits set) list"
  dev_fillModeNonSolid :: bool
  dev_samplerYcbcrConversion :: bool
  dev_imageCompressionControl :: bool
  dev_uniformAndStorageBuffer16BitAccess :: bool
  lazily_allocated :: "bool list"
  subgroup_arithmetic :: bool
  maxFramebufferWidth :: nat
  maxFramebufferHeight :: nat
  minUniformBufferOffsetAlignment :: nat
  minStorageBufferOffsetAlignment :: nat

definition HasSuitableColorFormat :: "physical_device \<Rightarrow> VkFormat \<Rightarrow> bool" where
  "HasSuitableColorFormat d f = color_attachment_formats d f"

definition HasSuitableDepthStencilFormat :: "physical_device \<Rightarrow> VkFormat \<Rightarrow> bool" where
  "HasSuitableDepthStencilFormat d f = depth_stencil_formats d f"

definition PhysicalDeviceSupportsRequiredFormats :: "physical_device \<Rightarrow> bool" where
  "PhysicalDeviceSupportsRequiredFormats d \<longleftrightarrow>
     HasSuitableColorFormat d eR8G8B8A8Unorm \<and>
     (HasSuitableDepthStencilFormat d eD32SfloatS8Uint \<or>
      HasSuitableDepthStencilFormat d eD24UnormS8Uint)"

definition HasRequiredProperties :: "physical_device \<Rightarrow> bool" where
  "HasRequiredProperties d \<longleftrightarrow> framebuffer_color_sample_counts d \<inter> {1, 4} \<noteq> {}"

definition HasRequiredQueues :: "physical_device \<Rightarrow> bool" where
  "HasRequiredQueues d \<longleftrightarrow>
     (let queue_flags = fold (\<lambda>(count, flags) acc. if count = 0 then acc else acc \<union> flags)
                          (queue_families d) {}
      in queue_flags \<inter> {eGraphics, eCompute, eTransfer} \<noteq> {})"

definition GetSupportedDeviceExtensions :: "physical_device \<Rightarrow> string set option" where
  "GetSupportedDeviceExtensions d = map_option set (device_extensions d)"

definition IsExtensionInList :: "string list \<Rightarrow> string \<Rightarrow> bool" where
  "IsExtensionInList es name = (name \<in> set es)"

subsection \<open>Capabilities\<close>

record capabilities =
  validations_enabled :: bool
  exts :: "(string \<times> string set) list"
  required_common_device_extensions :: "RequiredCommonDeviceExtensionVK set"
  required_android_device_extensions :: "RequiredAndroidDeviceExtensionVK set"
  optional_android_device_extensions :: "OptionalAndroidDeviceExtensionVK set"
  optional_device_extensions :: "OptionalDeviceExtensionVK set"
  cap_default_color_format :: PixelFormat
  default_stencil_format :: PixelFormat
  cap_default_depth_stencil_format :: PixelFormat
  minimum_uniform_alignment :: nat
  minimum_storage_alignment :: nat
  supports_compute_subgroups :: bool
  supports_device_transient_textures :: bool
  supports_texture_fixed_rate_compression :: bool
  max_render_pass_attachment_size :: size
  has_triangle_fans :: bool
  has_primitive_restart :: bool
  has_framebuffer_fetch :: bool
  supports_external_fence_and_semaphore :: bool
  is_valid :: bool
  use_embedder_extensions :: bool
  embedder_instance_extensions :: "string list"
  embedder_device_extensions :: "string list"

definition capabilities_init :: "bool \<Rightarrow> string list \<Rightarrow> string list \<Rightarrow> capabilities" where
  "capabilities_init embedder ies des =
     \<lparr>validations_enabled = False, exts = [], required_common_device_extensions = {},
      required_android_device_extensions = {}, optional_android_device_extensions = {},
      optional_device_extensions = {}, cap_default_color_format = PixelFormat.kUnknown,
      default_stencil_format = PixelFormat.kUnknown,
      cap_default_depth_stencil_format = PixelFormat.kUnknown,
      minimum_uniform_alignment = 256, minimum_storage_alignment = 256,
      supports_compute_subgroups = False, supports_device_transient_textures = False,
      supports_texture_fixed_rate_compression = False,
      max_render_pass_attachment_size = \<lparr>width = 0, height = 0\<rparr>, has_triangle_fans = True,
      has_primitive_restart = True, has_framebuffer_fetch = True,
      supports_external_fence_and_semaphore = False, is_valid = False,
      use_embedder_extensions = embedder, embedder_instance_extensions = ies,
      embedder_device_extensions = des\<rparr>"

text \<open>\<open>exts_[layer].insert(ext)\<close> on a map whose order does not matter.\<close>

fun add_ext :: "string \<Rightarrow> string \<Rightarrow> (string \<times> string set) list \<Rightarrow> (string \<times> string set) list" where
  "add_ext layer e [] = [(layer, {e})]"
| "add_ext layer e ((l, es) # m) =
     (if l = layer then (l, insert e es) # m else (l, es) # add_ext layer e m)"

definition kInstanceLayer :: string where "kInstanceLayer = ''ImpellerInstance''"

definition HasLayer :: "string \<Rightarrow> capabilities \<Rightarrow> bool" where
  "HasLayer layer c = list_ex (\<lambda>(l, _). l = layer) (exts c)"

definition HasExtension :: "string \<Rightarrow> capabilities \<Rightarrow> bool" where
  "HasExtension e c = list_ex (\<lambda>(_, es). e \<in> es) (exts c)"

text \<open>The loop over the layers; \<open>None\<close> is the early return of the constructor.\<close>

fun add_layers ::
  "vulkan_instance \<Rightarrow> string list \<Rightarrow> (string \<times> string set) list \<Rightarrow> (string \<times> string set) list option"
where
  "add_layers vi [] m = Some m"
| "add_layers vi (layer # ls) m =
     (case layer_extensions vi layer of
        None \<Rightarrow> None
      | Some es \<Rightarrow> add_layers vi ls (fold (add_ext layer) es m))"

definition instance_exts :: "vulkan_instance \<Rightarrow> capabilities \<Rightarrow> (string \<times> string set) list option" where
  "instance_exts vi c =
     (if \<not> use_embedder_extensions c then
        (case (instance_extensions vi, instance_layers vi) of
           (Some es, Some ls) \<Rightarrow> add_layers vi ls (fold (add_ext kInstanceLayer) es [])
         | _ \<Rightarrow> None)
      else Some (fold (add_ext kInstanceLayer) (embedder_instance_extensions c) []))"

definition Capabilities ::
  "vulkan_instance \<Rightarrow> bool \<Rightarrow> bool \<Rightarrow> bool \<Rightarrow> string list \<Rightarrow> string list \<Rightarrow> capabilities result"
where
  "Capabilities vi enable_validations fatal_missing embedder ies des =
     (let c = capabilities_init embedder ies des
      in case instance_exts vi c of
           None \<Rightarrow> Inr c
         | Some m \<Rightarrow>
             (let c1 = c\<lparr>exts := m\<rparr>;
                  found = enable_validations \<and> HasLayer ''VK_LAYER_KHRONOS_validation'' c1
              in if enable_validations \<and> \<not> found \<and> fatal_missing then Inl Check_Failed
                 else Inr (c1\<lparr>validations_enabled := found, is_valid := True\<rparr>)))"

definition GetEnabledLayers :: "capabilities \<Rightarrow> string list option" where
  "GetEnabledLayers c =
     Some (if validations_enabled c then [''VK_LAYER_KHRONOS_validation''] else [])"

definition surface_extensions :: "string list" where
  "surface_extensions = [''VK_MVK_macos_surface'', ''VK_EXT_metal_surface'',
     ''VK_KHR_win32_surface'', ''VK_KHR_android_surface'', ''VK_KHR_xcb_surface'',
     ''VK_KHR_xlib_surface'', ''VK_KHR_wayland_surface'']"

definition GetEnabledInstanceExtensions :: "capabilities \<Rightarrow> string list option" where
  "GetEnabledInstanceExtensions c =
     (let surface = (if HasExtension ''VK_KHR_surface'' c
                     then ''VK_KHR_surface'' # filter (\<lambda>e. HasExtension e c) surface_extensions
                     else []);
          required = surface @ (if HasExtension ''VK_KHR_portability_enumeration'' c
                                then [''VK_KHR_portability_enumeration''] else [])
      in if validations_enabled c then
           (if \<not> HasExtension ''VK_EXT_debug_utils'' c then None
            else Some (required @ [''VK_EXT_debug_utils''] @
                   (if HasExtension ''VK_EXT_validation_features'' c
                    then [''VK_EXT_validation_features''] else [])))
         else Some required)"

text \<open>The extensions of a device, of the driver or as the embedder says.\<close>

definition known_device_extensions :: "physical_device \<Rightarrow> capabilities \<Rightarrow> string set option" where
  "known_device_extensions d c =
     (if \<not> use_embedder_extensions c then GetSupportedDeviceExtensions d
      else Some (set (embedder_device_extensions c)))"

definition for_each_required :: "('e \<Rightarrow> string) \<Rightarrow> string set \<Rightarrow> 'e \<Rightarrow> string list \<Rightarrow> bool \<times> string list"
where
  "for_each_required name es e enabled =
     (if name e \<notin> es then (False, enabled) else (True, enabled @ [name e]))"

definition for_each_optional :: "('e \<Rightarrow> string) \<Rightarrow> string set \<Rightarrow> 'e \<Rightarrow> string list \<Rightarrow> bool \<times> string list"
where
  "for_each_optional name es e enabled =
     (True, if name e \<in> es then enabled @ [name e] else enabled)"

definition for_each_android ::
  "bool \<Rightarrow> ('e \<Rightarrow> string list \<Rightarrow> bool \<times> string list) \<Rightarrow> 'e \<Rightarrow> string list \<Rightarrow> bool \<times> string list"
where
  "for_each_android android it e enabled = (if android then it e enabled else (True, enabled))"

definition and_then :: "bool \<times> 's \<Rightarrow> ('s \<Rightarrow> bool \<times> 's) \<Rightarrow> bool \<times> 's" where
  "and_then r f = (if fst r then f (snd r) else r)"

definition GetEnabledDeviceExtensions ::
  "bool \<Rightarrow> (extension_macro \<Rightarrow> string) \<Rightarrow> physical_device \<Rightarrow> capabilities \<Rightarrow> string list option"
where
  "GetEnabledDeviceExtensions android vk d c =
     (case known_device_extensions d c of
        None \<Rightarrow> None
      | Some es \<Rightarrow>
          let (ok, enabled) =
            and_then (and_then (and_then
              (IterateExtensions (for_each_required (common_name vk) es) common_extensions [])
              (IterateExtensions (for_each_android android (for_each_required (android_name vk) es))
                 android_extensions))
              (IterateExtensions (for_each_optional (optional_name vk) es) optional_extensions))
              (IterateExtensions
                 (for_each_android android (for_each_optional (optional_android_name vk) es))
                 optional_android_extensions)
          in if \<not> ok then None else Some enabled)"

subsection \<open>Features\<close>

record device_features =
  fillModeNonSolid :: bool
  samplerYcbcrConversion :: bool
  uniformAndStorageBuffer16BitAccess :: bool
  compression_linked :: bool
  imageCompressionControl :: bool

definition no_features :: device_features where
  "no_features = \<lparr>fillModeNonSolid = False, samplerYcbcrConversion = False,
     uniformAndStorageBuffer16BitAccess = False, compression_linked = True,
     imageCompressionControl = False\<rparr>"

text \<open>A query fills in the structures that are linked.\<close>

definition getFeatures2 :: "physical_device \<Rightarrow> device_features \<Rightarrow> device_features" where
  "getFeatures2 d f =
     f\<lparr>fillModeNonSolid := dev_fillModeNonSolid d,
       samplerYcbcrConversion := dev_samplerYcbcrConversion d,
       uniformAndStorageBuffer16BitAccess := dev_uniformAndStorageBuffer16BitAccess d,
       imageCompressionControl := (if compression_linked f then dev_imageCompressionControl d
                                   else imageCompressionControl f)\<rparr>"

definition GetEnabledDeviceFeatures ::
  "bool \<Rightarrow> (extension_macro \<Rightarrow> string) \<Rightarrow> physical_device \<Rightarrow> capabilities \<Rightarrow> device_features option"
where
  "GetEnabledDeviceFeatures android vk d c =
     (if \<not> PhysicalDeviceSupportsRequiredFormats d then None
      else if \<not> HasRequiredProperties d then None
      else if \<not> HasRequiredQueues d then None
      else case GetEnabledDeviceExtensions android vk d c of
        None \<Rightarrow> None
      | Some es \<Rightarrow>
          (let compression = IsExtensionInList es (optional_name vk kEXTImageCompressionControl);
               supported = getFeatures2 d (if \<not> compression then no_features\<lparr>compression_linked := False\<rparr>
                                           else no_features);
               r1 = no_features\<lparr>fillModeNonSolid := fillModeNonSolid supported\<rparr>;
               r2 = (if IsExtensionInList es (android_name vk kKHRSamplerYcbcrConversion)
                     then r1\<lparr>samplerYcbcrConversion := samplerYcbcrConversion supported\<rparr> else r1);
               r3 = (if compression
                     then r2\<lparr>imageCompressionControl := imageCompressionControl supported\<rparr>
                     else r2\<lparr>compression_linked := False\<rparr>)
           in Some (r3\<lparr>uniformAndStorageBuffer16BitAccess :=
                        uniformAndStorageBuffer16BitAccess supported\<rparr>)))"

subsection \<open>Choosing a device\<close>

definition supported_extensions :: "('e \<Rightarrow> string) \<Rightarrow> string set \<Rightarrow> 'e list \<Rightarrow> 'e set" where
  "supported_extensions name es l =
     snd (IterateExtensions (\<lambda>e s. (True, if name e \<in> es then insert e s else s)) l {})"

definition set_formats :: "physical_device \<Rightarrow> capabilities \<Rightarrow> capabilities" where
  "set_formats d c =
     (let color = (if HasSuitableColorFormat d eR8G8B8A8Unorm then kR8G8B8A8UNormInt
                   else PixelFormat.kUnknown);
          depth_stencil =
            (if HasSuitableDepthStencilFormat d eD24UnormS8Uint then kD24UnormS8Uint
             else if HasSuitableDepthStencilFormat d eD32SfloatS8Uint then kD32FloatS8UInt
             else PixelFormat.kUnknown);
          stencil =
            (if HasSuitableDepthStencilFormat d eS8Uint then kS8UInt
             else if depth_stencil \<noteq> PixelFormat.kUnknown then depth_stencil
             else default_stencil_format c)
      in c\<lparr>cap_default_color_format := color, cap_default_depth_stencil_format := depth_stencil,
           default_stencil_format := stencil\<rparr>)"

definition set_extensions ::
  "(extension_macro \<Rightarrow> string) \<Rightarrow> string set \<Rightarrow> capabilities \<Rightarrow> capabilities"
where
  "set_extensions vk es c =
     c\<lparr>required_common_device_extensions :=
         supported_extensions (common_name vk) es common_extensions,
       required_android_device_extensions :=
         supported_extensions (android_name vk) es android_extensions,
       optional_device_extensions :=
         supported_extensions (optional_name vk) es optional_extensions,
       optional_android_device_extensions :=
         supported_extensions (optional_android_name vk) es optional_android_extensions\<rparr>"

definition SetPhysicalDevice ::
  "(extension_macro \<Rightarrow> string) \<Rightarrow> physical_device \<Rightarrow> device_features \<Rightarrow> capabilities \<Rightarrow>
   bool \<times> capabilities"
where
  "SetPhysicalDevice vk d enabled c =
     (let c1 = set_formats d c;
          c2 = c1\<lparr>supports_compute_subgroups := subgroup_arithmetic d,
                  supports_device_transient_textures :=
                    supports_device_transient_textures c1 \<or> list_ex (\<lambda>b. b) (lazily_allocated d)\<rparr>;
          c3 = c2\<lparr>required_common_device_extensions := {},
                  required_android_device_extensions := {}, optional_device_extensions := {},
                  optional_android_device_extensions := {}\<rparr>
      in case known_device_extensions d c3 of
           None \<Rightarrow> (False, c3)
         | Some es \<Rightarrow>
             let c4 = set_extensions vk es c3;
                 c5 = c4\<lparr>supports_texture_fixed_rate_compression :=
                           compression_linked enabled \<and> imageCompressionControl enabled,
                         max_render_pass_attachment_size :=
                           \<lparr>width = int (maxFramebufferWidth d),
                            height = int (maxFramebufferHeight d)\<rparr>,
                         has_triangle_fans :=
                           kVKKHRPortabilitySubset \<notin> optional_device_extensions c4\<rparr>;
                 c6 = (if {kKHRExternalFenceFd, kKHRExternalFence, kKHRExternalSemaphore,
                           kKHRExternalSemaphoreFd} \<subseteq> optional_android_device_extensions c5
                       then c5\<lparr>supports_external_fence_and_semaphore := True\<rparr> else c5)
             in (True, c6\<lparr>minimum_uniform_alignment := minUniformBufferOffsetAlignment d,
                          minimum_storage_alignment := minStorageBufferOffsetAlignment d\<rparr>))"

definition HasExtension_common :: "RequiredCommonDeviceExtensionVK \<Rightarrow> capabilities \<Rightarrow> bool" where
  "HasExtension_common e c = (e \<in> required_common_device_extensions c)"

definition HasExtension_android :: "RequiredAndroidDeviceExtensionVK \<Rightarrow> capabilities \<Rightarrow> bool" where
  "HasExtension_android e c = (e \<in> required_android_device_extensions c)"

definition HasExtension_optional :: "OptionalDeviceExtensionVK \<Rightarrow> capabilities \<Rightarrow> bool" where
  "HasExtension_optional e c = (e \<in> optional_device_extensions c)"

definition HasExtension_optional_android ::
  "OptionalAndroidDeviceExtensionVK \<Rightarrow> capabilities \<Rightarrow> bool"
where
  "HasExtension_optional_android e c = (e \<in> optional_android_device_extensions c)"

definition ApplyWorkarounds :: "workarounds \<Rightarrow> capabilities \<Rightarrow> capabilities" where
  "ApplyWorkarounds w c =
     c\<lparr>has_primitive_restart := \<not> slow_primitive_restart_performance w,
       has_framebuffer_fetch := \<not> input_attachment_self_dependency_broken w\<rparr>"

definition SetOffscreenFormat :: "PixelFormat \<Rightarrow> capabilities \<Rightarrow> capabilities" where
  "SetOffscreenFormat f c = c\<lparr>cap_default_color_format := f\<rparr>"

text \<open>
  Fixed rate compression of a format: the query returns whether it succeeded with the compression
  properties linked, whether an explicit rate is among the flags and whether the ideal rate is.
\<close>

datatype VkFixedRate = e4Bpc

definition GetSupportedFRCRate ::
  "('q \<Rightarrow> (bool \<times> bool) option) \<Rightarrow> CompressionType \<Rightarrow> 'q \<Rightarrow> capabilities \<Rightarrow> VkFixedRate option"
where
  "GetSupportedFRCRate query type desc c =
     (if type \<noteq> kLossy then None
      else if \<not> supports_texture_fixed_rate_compression c then None
      else case query desc of
        None \<Rightarrow> None
      | Some (fixed_rate_explicit, ideal_rate) \<Rightarrow>
          if fixed_rate_explicit \<and> ideal_rate then Some e4Bpc else None)"

end
