(* ===== verification/Capabilities_Props.thy ===== *)
theory Capabilities_Props
  imports Capabilities
begin

text \<open>
  Which devices are accepted, what is enabled on them, and that the capabilities that are
  recorded for an accepted device agree with it.
\<close>

subsection \<open>The iterations\<close>

lemma iterate_required:
  "IterateExtensions (for_each_required name es) l acc =
     (if \<forall>e \<in> set l. name e \<in> es then (True, acc @ map name l)
      else (False, acc @ map name (takeWhile (\<lambda>e. name e \<in> es) l)))"
  by (induction l arbitrary: acc) (auto simp: for_each_required_def)

lemma iterate_optional:
  "IterateExtensions (for_each_optional name es) l acc =
     (True, acc @ map name (filter (\<lambda>e. name e \<in> es) l))"
  by (induction l arbitrary: acc) (auto simp: for_each_optional_def)

lemma iterate_android:
  "IterateExtensions (for_each_android android it) l acc =
     (if android then IterateExtensions it l acc else (True, acc))"
proof -
  have "IterateExtensions (for_each_android False it) l acc = (True, acc)"
    by (induction l) (simp_all add: for_each_android_def)
  moreover have "for_each_android True it = it" by (simp add: for_each_android_def fun_eq_iff)
  ultimately show ?thesis by simp
qed

lemma supported_extensions_eq:
  "supported_extensions name es l = {e \<in> set l. name e \<in> es}"
proof -
  have "snd (IterateExtensions (\<lambda>e s. (True, if name e \<in> es then insert e s else s)) l acc) =
      acc \<union> {e \<in> set l. name e \<in> es}" for acc
    by (induction l arbitrary: acc) auto
  then show ?thesis by (simp add: supported_extensions_def)
qed

text \<open>The list of enabled extensions of a device with the given known ones.\<close>

definition enabled_list :: "bool \<Rightarrow> (extension_macro \<Rightarrow> string) \<Rightarrow> string set \<Rightarrow> string list" where
  "enabled_list android vk es =
     map (common_name vk) common_extensions @
     (if android then map (android_name vk) android_extensions else []) @
     map (optional_name vk) (filter (\<lambda>e. optional_name vk e \<in> es) optional_extensions) @
     (if android then map (optional_android_name vk)
        (filter (\<lambda>e. optional_android_name vk e \<in> es) optional_android_extensions) else [])"

definition required_present :: "bool \<Rightarrow> (extension_macro \<Rightarrow> string) \<Rightarrow> string set \<Rightarrow> bool" where
  "required_present android vk es \<longleftrightarrow>
     (\<forall>e \<in> set common_extensions. common_name vk e \<in> es) \<and>
     (android \<longrightarrow> (\<forall>e \<in> set android_extensions. android_name vk e \<in> es))"

lemma GetEnabledDeviceExtensions_eq:
  "GetEnabledDeviceExtensions android vk d c =
     (case known_device_extensions d c of
        None \<Rightarrow> None
      | Some es \<Rightarrow> if required_present android vk es then Some (enabled_list android vk es) else None)"
  by (auto simp: GetEnabledDeviceExtensions_def iterate_required iterate_optional iterate_android
      and_then_def required_present_def enabled_list_def Let_def split: option.splits)

lemma enabled_list_known:
  "required_present android vk es \<Longrightarrow> set (enabled_list android vk es) \<subseteq> es"
  by (auto simp: required_present_def enabled_list_def)

lemma optional_extensions_all: "e \<noteq> OptionalDeviceExtensionVK.kLast \<longleftrightarrow> e \<in> set optional_extensions"
  by (cases e) (simp_all add: optional_extensions_def)

lemma known_cong:
  "use_embedder_extensions c' = use_embedder_extensions c \<Longrightarrow>
   embedder_device_extensions c' = embedder_device_extensions c \<Longrightarrow>
   known_device_extensions d c' = known_device_extensions d c"
  by (simp add: known_device_extensions_def)

lemma set_formats_simps [simp]:
  "use_embedder_extensions (set_formats d c) = use_embedder_extensions c"
  "embedder_device_extensions (set_formats d c) = embedder_device_extensions c"
  by (simp_all add: set_formats_def Let_def)

lemma keep_flag [simp]:
  "cap_default_color_format (if P then c\<lparr>supports_external_fence_and_semaphore := True\<rparr> else c) =
     cap_default_color_format c"
  "cap_default_depth_stencil_format (if P then c\<lparr>supports_external_fence_and_semaphore := True\<rparr> else c) =
     cap_default_depth_stencil_format c"
  "default_stencil_format (if P then c\<lparr>supports_external_fence_and_semaphore := True\<rparr> else c) =
     default_stencil_format c"
  "optional_device_extensions (if P then c\<lparr>supports_external_fence_and_semaphore := True\<rparr> else c) =
     optional_device_extensions c"
  "supports_texture_fixed_rate_compression
     (if P then c\<lparr>supports_external_fence_and_semaphore := True\<rparr> else c) =
     supports_texture_fixed_rate_compression c"
  "supports_external_fence_and_semaphore
     (if P then c\<lparr>supports_external_fence_and_semaphore := True\<rparr> else c) \<longleftrightarrow>
     P \<or> supports_external_fence_and_semaphore c"
  by simp_all

lemma SetPhysicalDevice_known:
  assumes "known_device_extensions d c = Some es" and "SetPhysicalDevice vk d f c = (b, c')"
  shows "b \<and> cap_default_color_format c' = cap_default_color_format (set_formats d c) \<and>
    cap_default_depth_stencil_format c' = cap_default_depth_stencil_format (set_formats d c) \<and>
    default_stencil_format c' = default_stencil_format (set_formats d c) \<and>
    optional_device_extensions c' = {e \<in> set optional_extensions. optional_name vk e \<in> es} \<and>
    supports_texture_fixed_rate_compression c' =
      (compression_linked f \<and> imageCompressionControl f) \<and>
    ({kKHRExternalFenceFd, kKHRExternalFence, kKHRExternalSemaphore, kKHRExternalSemaphoreFd} \<subseteq>
       {e \<in> set optional_android_extensions. optional_android_name vk e \<in> es} \<longrightarrow>
     supports_external_fence_and_semaphore c')"
proof -
  let ?c3 = "(set_formats d c)\<lparr>supports_compute_subgroups := subgroup_arithmetic d,
      supports_device_transient_textures :=
        supports_device_transient_textures (set_formats d c) \<or> list_ex (\<lambda>b. b) (lazily_allocated d),
      required_common_device_extensions := {}, required_android_device_extensions := {},
      optional_device_extensions := {}, optional_android_device_extensions := {}\<rparr>"
  have "known_device_extensions d ?c3 = Some es"
    using known_cong [of ?c3 c d] assms(1) by simp
  note SetPhysicalDevice_def [of vk d f c, unfolded Let_def, simplified, unfolded this option.case]
  then have b: "b" and c': "c' = snd (SetPhysicalDevice vk d f c)" using assms(2) by simp_all
  show ?thesis
    unfolding c' SetPhysicalDevice_def Let_def
    by (simp add: b known_cong [of _ c d] assms(1) set_extensions_def supported_extensions_eq
        del: insert_subset)
qed

subsection \<open>The requirements\<close>

text \<open>
  The checks of queues and sample counts are weaker than their names: one kind of queue, or one of
  the sample counts, is enough.
\<close>

lemma any_queue_is_enough:
  "HasRequiredQueues d \<longleftrightarrow>
   (\<exists>n flags. (n, flags) \<in> set (queue_families d) \<and> n \<noteq> 0 \<and>
      flags \<inter> {eGraphics, eCompute, eTransfer} \<noteq> {})"
proof -
  have "fold (\<lambda>(n, flags) acc. if n = 0 then acc else acc \<union> flags) l acc =
      acc \<union> (\<Union>(n, flags) \<in> set l. if n = 0 then {} else flags)" for l :: "(nat \<times> VkQueueFlagBits set) list" and acc
    by (induction l arbitrary: acc) (auto split: if_splits)
  then show ?thesis unfolding HasRequiredQueues_def Let_def by (fastforce split: if_splits)
qed

lemma any_sample_count_is_enough:
  "HasRequiredProperties d \<longleftrightarrow>
   1 \<in> framebuffer_color_sample_counts d \<or> 4 \<in> framebuffer_color_sample_counts d"
  by (auto simp: HasRequiredProperties_def)

text \<open>What a device has to have, without the functions that check it.\<close>

definition meets_requirements ::
  "bool \<Rightarrow> (extension_macro \<Rightarrow> string) \<Rightarrow> physical_device \<Rightarrow> capabilities \<Rightarrow> bool"
where
  "meets_requirements android vk d c \<longleftrightarrow>
     (\<exists>es. known_device_extensions d c = Some es \<and> required_present android vk es) \<and>
     color_attachment_formats d eR8G8B8A8Unorm \<and>
     (depth_stencil_formats d eD32SfloatS8Uint \<or> depth_stencil_formats d eD24UnormS8Uint) \<and>
     (1 \<in> framebuffer_color_sample_counts d \<or> 4 \<in> framebuffer_color_sample_counts d) \<and>
     (\<exists>n flags. (n, flags) \<in> set (queue_families d) \<and> n \<noteq> 0 \<and>
        flags \<inter> {eGraphics, eCompute, eTransfer} \<noteq> {})"

lemma accepted_iff:
  "GetEnabledDeviceFeatures android vk d c = None \<longleftrightarrow> \<not> meets_requirements android vk d c"
proof -
  have ext: "GetEnabledDeviceExtensions android vk d c = None \<longleftrightarrow>
      \<not> (\<exists>es. known_device_extensions d c = Some es \<and> required_present android vk es)"
    by (auto simp: GetEnabledDeviceExtensions_eq split: option.splits)
  have "GetEnabledDeviceFeatures android vk d c = None \<longleftrightarrow>
      \<not> (PhysicalDeviceSupportsRequiredFormats d \<and> HasRequiredProperties d \<and> HasRequiredQueues d \<and>
         GetEnabledDeviceExtensions android vk d c \<noteq> None)"
    by (auto simp: GetEnabledDeviceFeatures_def Let_def split: option.splits)
  then show ?thesis
    unfolding ext meets_requirements_def any_queue_is_enough any_sample_count_is_enough
      PhysicalDeviceSupportsRequiredFormats_def HasSuitableColorFormat_def
      HasSuitableDepthStencilFormat_def by blast
qed

subsection \<open>Properties\<close>

text \<open>
  C18: A device is rejected exactly when it misses a requirement: its extensions can be queried and
  have the required ones, the default colour format and one of the two depth and stencil formats can
  be rendered to, one of the sample counts one and four is supported, and a queue family that is not
  empty can do graphics, compute or transfer work. On an accepted device every extension that is
  enabled is one it knows, every feature that is enabled is one it supports, and setting it as the
  physical device succeeds: the default formats are then usable, an extension counts as present
  exactly when the device knows it, and fixed rate compression is only offered with the extension
  and the feature enabled.
\<close>

theorem accepted_device_usable:
  "(GetEnabledDeviceFeatures android vk d c = None \<longleftrightarrow> \<not> meets_requirements android vk d c) \<and>
   (GetEnabledDeviceFeatures android vk d c = Some f \<longrightarrow>
      (\<exists>es enabled c'. known_device_extensions d c = Some es \<and>
         GetEnabledDeviceExtensions android vk d c = Some enabled \<and> set enabled \<subseteq> es \<and>
         required_present android vk es \<and>
         (fillModeNonSolid f \<longrightarrow> dev_fillModeNonSolid d) \<and>
         (samplerYcbcrConversion f \<longrightarrow> dev_samplerYcbcrConversion d) \<and>
         (uniformAndStorageBuffer16BitAccess f \<longrightarrow> dev_uniformAndStorageBuffer16BitAccess d) \<and>
         SetPhysicalDevice vk d f c = (True, c') \<and>
         cap_default_color_format c' = kR8G8B8A8UNormInt \<and>
         IsDepthWritable (cap_default_depth_stencil_format c') \<and>
         IsStencilWritable (default_stencil_format c') \<and>
         (\<forall>e. e \<noteq> OptionalDeviceExtensionVK.kLast \<longrightarrow>
            (HasExtension_optional e c' \<longleftrightarrow> optional_name vk e \<in> es)) \<and>
         (supports_texture_fixed_rate_compression c' \<longrightarrow>
            optional_name vk kEXTImageCompressionControl \<in> set enabled \<and>
            dev_imageCompressionControl d)))"
proof (intro conjI [rotated] impI)
  assume f: "GetEnabledDeviceFeatures android vk d c = Some f"
  then have formats: "HasSuitableColorFormat d eR8G8B8A8Unorm"
    "HasSuitableDepthStencilFormat d eD32SfloatS8Uint \<or>
     HasSuitableDepthStencilFormat d eD24UnormS8Uint"
    by (auto simp: GetEnabledDeviceFeatures_def PhysicalDeviceSupportsRequiredFormats_def
        split: if_splits)
  from f obtain enabled where en: "GetEnabledDeviceExtensions android vk d c = Some enabled"
    by (auto simp: GetEnabledDeviceFeatures_def split: if_splits option.splits)
  from en obtain es where es: "known_device_extensions d c = Some es"
    "required_present android vk es" "enabled = enabled_list android vk es"
    by (auto simp: GetEnabledDeviceExtensions_eq split: option.splits if_splits)
  let ?cmp = "IsExtensionInList enabled (optional_name vk kEXTImageCompressionControl)"
  have fs: "fillModeNonSolid f \<longrightarrow> dev_fillModeNonSolid d"
    "samplerYcbcrConversion f \<longrightarrow> dev_samplerYcbcrConversion d"
    "uniformAndStorageBuffer16BitAccess f \<longrightarrow> dev_uniformAndStorageBuffer16BitAccess d"
    "compression_linked f \<and> imageCompressionControl f \<longrightarrow> ?cmp \<and> dev_imageCompressionControl d"
    using f en
    by (auto simp: GetEnabledDeviceFeatures_def Let_def no_features_def getFeatures2_def
        split: if_splits)
  obtain b c' where sp: "SetPhysicalDevice vk d f c = (b, c')" by fastforce
  note S = SetPhysicalDevice_known [OF es(1) sp]
  have "cap_default_color_format (set_formats d c) = kR8G8B8A8UNormInt"
    "IsDepthWritable (cap_default_depth_stencil_format (set_formats d c))"
    "IsStencilWritable (default_stencil_format (set_formats d c))"
    using formats by (auto simp: set_formats_def Let_def)
  then have c': "b" "cap_default_color_format c' = kR8G8B8A8UNormInt"
    "optional_device_extensions c' = {e \<in> set optional_extensions. optional_name vk e \<in> es}"
    "supports_texture_fixed_rate_compression c' \<longleftrightarrow> compression_linked f \<and> imageCompressionControl f"
    "IsDepthWritable (cap_default_depth_stencil_format c')"
    "IsStencilWritable (default_stencil_format c')"
    using S by simp_all
  have "HasExtension_optional e c' \<longleftrightarrow> optional_name vk e \<in> es"
    if "e \<noteq> OptionalDeviceExtensionVK.kLast" for e
    using that by (simp add: HasExtension_optional_def c'(3) optional_extensions_all)
  moreover have "set enabled \<subseteq> es" unfolding es(3) by (rule enabled_list_known [OF es(2)])
  ultimately show "\<exists>es enabled c'. known_device_extensions d c = Some es \<and>
         GetEnabledDeviceExtensions android vk d c = Some enabled \<and> set enabled \<subseteq> es \<and>
         required_present android vk es \<and>
         (fillModeNonSolid f \<longrightarrow> dev_fillModeNonSolid d) \<and>
         (samplerYcbcrConversion f \<longrightarrow> dev_samplerYcbcrConversion d) \<and>
         (uniformAndStorageBuffer16BitAccess f \<longrightarrow> dev_uniformAndStorageBuffer16BitAccess d) \<and>
         SetPhysicalDevice vk d f c = (True, c') \<and>
         cap_default_color_format c' = kR8G8B8A8UNormInt \<and>
         IsDepthWritable (cap_default_depth_stencil_format c') \<and>
         IsStencilWritable (default_stencil_format c') \<and>
         (\<forall>e. e \<noteq> OptionalDeviceExtensionVK.kLast \<longrightarrow>
            (HasExtension_optional e c' \<longleftrightarrow> optional_name vk e \<in> es)) \<and>
         (supports_texture_fixed_rate_compression c' \<longrightarrow>
            optional_name vk kEXTImageCompressionControl \<in> set enabled \<and>
            dev_imageCompressionControl d)"
    using en es(1,2) fs c' sp by (auto simp: IsExtensionInList_def)
qed (rule accepted_iff)

definition demo_macros :: "extension_macro \<Rightarrow> string" where
  "demo_macros m = (case m of VK_KHR_SWAPCHAIN \<Rightarrow> ''VK_KHR_swapchain''
     | VK_EXT_IMAGE_COMPRESSION_CONTROL \<Rightarrow> ''VK_EXT_image_compression_control''
     | _ \<Rightarrow> ''VK_other'')"

definition demo_physical_device :: physical_device where
  "demo_physical_device =
     \<lparr>device_extensions = Some [''VK_KHR_swapchain'', ''VK_KHR_portability_subset''],
      color_attachment_formats = (\<lambda>_. True), depth_stencil_formats = (\<lambda>f. f \<noteq> eS8Uint),
      framebuffer_color_sample_counts = {1, 4},
      queue_families = [(1, {eGraphics, eCompute, eTransfer})], dev_fillModeNonSolid = True,
      dev_samplerYcbcrConversion = False, dev_imageCompressionControl = False,
      dev_uniformAndStorageBuffer16BitAccess = False, lazily_allocated = [False],
      subgroup_arithmetic = True, maxFramebufferWidth = 4096, maxFramebufferHeight = 4096,
      minUniformBufferOffsetAlignment = 64, minStorageBufferOffsetAlignment = 16\<rparr>"

definition demo_capabilities :: capabilities where
  "demo_capabilities = capabilities_init False [] []"

lemma demo_device_extensions:
  "GetEnabledDeviceExtensions False demo_macros demo_physical_device demo_capabilities =
     Some [''VK_KHR_swapchain'', ''VK_KHR_portability_subset'']"
  by (simp add: GetEnabledDeviceExtensions_eq known_device_extensions_def demo_capabilities_def
      capabilities_init_def GetSupportedDeviceExtensions_def demo_physical_device_def
      required_present_def enabled_list_def common_extensions_def optional_extensions_def
      demo_macros_def)

lemma demo_device_accepted:
  "\<exists>f. GetEnabledDeviceFeatures False demo_macros demo_physical_device demo_capabilities = Some f"
  unfolding GetEnabledDeviceFeatures_def demo_device_extensions
  by (simp add: Let_def PhysicalDeviceSupportsRequiredFormats_def HasSuitableColorFormat_def
      HasSuitableDepthStencilFormat_def HasRequiredProperties_def HasRequiredQueues_def
      demo_physical_device_def)

theorem accepted_device_usable_witness:
  "\<exists>f c. GetEnabledDeviceFeatures False demo_macros demo_physical_device demo_capabilities = Some f \<and>
     SetPhysicalDevice demo_macros demo_physical_device f demo_capabilities = (True, c) \<and>
     cap_default_color_format c = kR8G8B8A8UNormInt"
proof -
  obtain f where f: "GetEnabledDeviceFeatures False demo_macros demo_physical_device
      demo_capabilities = Some f" using demo_device_accepted by blast
  from accepted_device_usable [of False demo_macros demo_physical_device demo_capabilities f,
      THEN conjunct2, THEN mp, OF f]
  show ?thesis using f by blast
qed

subsection \<open>Capabilities that are claimed too early\<close>

text \<open>
  Outside of Android the extensions for external fences and semaphores count as supported when
  the device knows them, although they are never enabled.
\<close>

lemma external_semaphores_not_enabled:
  assumes "known_device_extensions d c = Some es" "set (map vk [VK_KHR_EXTERNAL_FENCE_FD,
      VK_KHR_EXTERNAL_FENCE, VK_KHR_EXTERNAL_SEMAPHORE_FD, VK_KHR_EXTERNAL_SEMAPHORE]) \<subseteq> es"
    and "inj vk" "\<forall>m. vk m \<noteq> ''VK_KHR_portability_subset''"
    and en: "GetEnabledDeviceExtensions False vk d c = Some enabled"
    and sp: "SetPhysicalDevice vk d f c = (True, c')"
  shows "supports_external_fence_and_semaphore c' \<and> vk VK_KHR_EXTERNAL_FENCE \<notin> set enabled"
proof
  show "supports_external_fence_and_semaphore c'"
    using SetPhysicalDevice_known [OF assms(1) sp] assms(2)
    by (simp add: optional_android_extensions_def)
  have "enabled = enabled_list False vk es"
    using en assms(1) by (auto simp: GetEnabledDeviceExtensions_eq split: if_splits)
  then show "vk VK_KHR_EXTERNAL_FENCE \<notin> set enabled"
    using assms(3,4)
    by (auto simp: enabled_list_def common_extensions_def optional_extensions_def inj_def
        dest: sym split: if_splits)
qed

text \<open>A layer is known only through its extensions.\<close>

lemma layer_without_extensions_unknown:
  assumes "instance_extensions vi = Some []" "instance_layers vi = Some [''VK_LAYER_KHRONOS_validation'']"
    and "layer_extensions vi ''VK_LAYER_KHRONOS_validation'' = Some []"
  shows "\<exists>c. Capabilities vi True False False [] [] = Inr c \<and> \<not> validations_enabled c"
  using assms
  by (simp add: Capabilities_def instance_exts_def capabilities_init_def HasLayer_def Let_def)

end
