(* ===== verification/Fence_Waiter.thy ===== *)
theory Fence_Waiter
  imports Prelude
begin

text \<open>
  The thread that waits for fences of the device and runs the callbacks of those that were
  signalled: \<^verbatim>\<open>src/hal/fence_waiter_vk.{h,cc}\<close>, with the closure that runs when it is destroyed
  (\<^verbatim>\<open>src/fml/closure.h\<close>).

  The steps are the critical sections under the mutex of the wait set and the code between them;
  other threads add fences, signal them and terminate the waiter at any point in between. The
  result of waiting on the device, and whether the device is still alive, are parameters of the
  step; the status of every entry of a snapshot is read in a step of its own, so fences may be
  signalled between two readings. An entry is named by the number of entries accepted before it.
\<close>

subsection \<open>Closures that run at the end of a scope\<close>

text \<open>The wrapped closure; the first component are the closures that were invoked.\<close>

type_synonym 'c scoped_closure = "'c option"

definition sc_Reset :: "'c scoped_closure \<Rightarrow> 'c list \<times> 'c scoped_closure" where
  "sc_Reset s = (case s of Some c \<Rightarrow> ([c], None) | None \<Rightarrow> ([], None))"

definition sc_Release :: "'c scoped_closure \<Rightarrow> 'c option \<times> 'c scoped_closure" where
  "sc_Release s = (s, None)"

definition sc_SetClosure :: "'c option \<Rightarrow> 'c scoped_closure \<Rightarrow> 'c option \<times> 'c scoped_closure" where
  "sc_SetClosure c s = (s, c)"

text \<open>Assignment of a temporary: the two states afterwards.\<close>

definition sc_move_assign ::
  "'c scoped_closure \<Rightarrow> 'c scoped_closure \<Rightarrow> 'c scoped_closure \<times> 'c scoped_closure"
where
  "sc_move_assign s other = (case sc_Release other of (c, other') \<Rightarrow> (c, other'))"

text \<open>The closure that was in the target is dropped without being invoked.\<close>

lemma move_assign_drops_closure: "sc_move_assign (Some c) other = (other, None)"
  by (simp add: sc_move_assign_def sc_Release_def)

subsection \<open>The wait set\<close>

record wait_set_entry =
  entry_id :: nat
  fence :: nat
  is_signalled :: bool

text \<open>Where the waiter thread is; the flag is whether it drains the set after termination.\<close>

datatype waiter_pc =
    At_Loop
  | Drain_Head
  | Wait_Start bool
  | Snapshot "nat list" bool
  | Waited "nat list" bool
  | Erasing bool
  | Callbacks "wait_set_entry list" bool
  | Thread_Exited

record fence_waiter =
  wait_set :: "wait_set_entry list"
  terminate :: bool
  pc :: waiter_pc
  accepted :: "(nat \<times> nat) list"      \<comment> \<open>entries and fences that were added\<close>
  invoked :: "(nat \<times> nat) list"       \<comment> \<open>entries whose callback ran\<close>
  signalled_fences :: "nat set"      \<comment> \<open>fences the device has signalled\<close>
  destroyed :: bool

definition FenceWaiter :: fence_waiter where
  "FenceWaiter = \<lparr>wait_set = [], terminate = False, pc = At_Loop, accepted = [], invoked = [],
     signalled_fences = {}, destroyed = False\<rparr>"

definition WaitSetEntry :: "nat \<Rightarrow> nat \<Rightarrow> wait_set_entry" where
  "WaitSetEntry i f = \<lparr>entry_id = i, fence = f, is_signalled = False\<rparr>"

definition UpdateSignalledStatus :: "nat set \<Rightarrow> wait_set_entry \<Rightarrow> wait_set_entry" where
  "UpdateSignalledStatus signalled e =
     (if is_signalled e then e else e\<lparr>is_signalled := fence e \<in> signalled\<rparr>)"

definition AddFence :: "nat option \<Rightarrow> bool \<Rightarrow> fence_waiter \<Rightarrow> bool \<times> fence_waiter" where
  "AddFence f has_callback s =
     (case f of
        None \<Rightarrow> (False, s)
      | Some x \<Rightarrow>
          if \<not> has_callback then (False, s)
          else if terminate s then (False, s)
          else (True, s\<lparr>wait_set := wait_set s @ [WaitSetEntry (length (accepted s)) x],
                        accepted := accepted s @ [(length (accepted s), x)]\<rparr>))"

definition GetFencesForWaitSet :: "wait_set_entry list \<Rightarrow> nat list" where
  "GetFencesForWaitSet ws = map fence (filter (\<lambda>e. \<not> is_signalled e) ws)"

definition back_to :: "bool \<Rightarrow> waiter_pc" where
  "back_to draining = (if draining then Drain_Head else At_Loop)"

text \<open>The head of the loop; with nothing to do it goes on waiting for the condition variable.\<close>

definition Main_wake :: "fence_waiter \<Rightarrow> fence_waiter" where
  "Main_wake s =
     (if wait_set s = [] \<and> \<not> terminate s then s
      else if terminate s then s\<lparr>pc := Drain_Head\<rparr> else s\<lparr>pc := Wait_Start False\<rparr>)"

definition WaitUntilEmpty_head :: "fence_waiter \<Rightarrow> fence_waiter" where
  "WaitUntilEmpty_head s =
     (if wait_set s = [] then s\<lparr>pc := Thread_Exited\<rparr> else s\<lparr>pc := Wait_Start True\<rparr>)"

definition Wait_snapshot :: "bool \<Rightarrow> fence_waiter \<Rightarrow> fence_waiter" where
  "Wait_snapshot draining s = s\<lparr>pc := Snapshot (map entry_id (wait_set s)) draining\<rparr>"

definition snapshot_entries :: "nat list \<Rightarrow> fence_waiter \<Rightarrow> wait_set_entry list" where
  "snapshot_entries ids s = filter (\<lambda>e. entry_id e \<in> set ids) (wait_set s)"

text \<open>
  After the snapshot: a dead device or an unexpected error of the wait ends the thread, and with
  no fence to wait for the pass is over.
\<close>

definition Wait_device :: "bool \<Rightarrow> bool \<Rightarrow> nat list \<Rightarrow> bool \<Rightarrow> fence_waiter \<Rightarrow> fence_waiter" where
  "Wait_device alive success_or_timeout ids draining s =
     (if \<not> alive then s\<lparr>pc := Thread_Exited\<rparr>
      else if GetFencesForWaitSet (snapshot_entries ids s) = [] then s\<lparr>pc := back_to draining\<rparr>
      else if \<not> success_or_timeout then s\<lparr>pc := Thread_Exited\<rparr>
      else s\<lparr>pc := Waited ids draining\<rparr>)"

definition Wait_update :: "nat list \<Rightarrow> bool \<Rightarrow> fence_waiter \<Rightarrow> fence_waiter" where
  "Wait_update ids draining s =
     (case ids of
        [] \<Rightarrow> s\<lparr>pc := Erasing draining\<rparr>
      | i # ids' \<Rightarrow>
          s\<lparr>wait_set := map (\<lambda>e. if entry_id e = i
                                 then UpdateSignalledStatus (signalled_fences s) e else e) (wait_set s),
            pc := Waited ids' draining\<rparr>)"

definition Wait_erase :: "bool \<Rightarrow> fence_waiter \<Rightarrow> fence_waiter" where
  "Wait_erase draining s =
     s\<lparr>wait_set := filter (\<lambda>e. \<not> is_signalled e) (wait_set s),
       pc := Callbacks (filter is_signalled (wait_set s)) draining\<rparr>"

definition entry_key :: "wait_set_entry \<Rightarrow> nat \<times> nat" where
  "entry_key e = (entry_id e, fence e)"

definition Wait_callback :: "wait_set_entry list \<Rightarrow> bool \<Rightarrow> fence_waiter \<Rightarrow> fence_waiter" where
  "Wait_callback es draining s =
     (case es of
        [] \<Rightarrow> s\<lparr>pc := back_to draining\<rparr>
      | e # es' \<Rightarrow> s\<lparr>invoked := invoked s @ [entry_key e], pc := Callbacks es' draining\<rparr>)"

definition waiter_step :: "bool \<Rightarrow> bool \<Rightarrow> fence_waiter \<Rightarrow> fence_waiter" where
  "waiter_step alive success_or_timeout s =
     (case pc s of
        At_Loop \<Rightarrow> Main_wake s
      | Drain_Head \<Rightarrow> WaitUntilEmpty_head s
      | Wait_Start d \<Rightarrow> Wait_snapshot d s
      | Snapshot ids d \<Rightarrow> Wait_device alive success_or_timeout ids d s
      | Waited ids d \<Rightarrow> Wait_update ids d s
      | Erasing d \<Rightarrow> Wait_erase d s
      | Callbacks es d \<Rightarrow> Wait_callback es d s
      | Thread_Exited \<Rightarrow> s)"

definition Terminate :: "fence_waiter \<Rightarrow> fence_waiter" where
  "Terminate s = s\<lparr>terminate := True\<rparr>"

text \<open>
  The destructor joins the thread and destroys the wait set, whose entries run their callbacks.
\<close>

definition FenceWaiter_destroy :: "fence_waiter \<Rightarrow> fence_waiter" where
  "FenceWaiter_destroy s =
     s\<lparr>wait_set := [], invoked := invoked s @ map entry_key (wait_set s), destroyed := True\<rparr>"

datatype waiter_event =
    Add "nat option" bool | Signal nat | Run bool bool | Stop | Destroy

inductive fw_step :: "fence_waiter \<Rightarrow> waiter_event \<Rightarrow> fence_waiter \<Rightarrow> bool" where
  fw_add: "\<not> destroyed s \<Longrightarrow> fw_step s (Add f c) (snd (AddFence f c s))"
| fw_signal: "fw_step s (Signal f) (s\<lparr>signalled_fences := insert f (signalled_fences s)\<rparr>)"
| fw_run: "\<not> destroyed s \<Longrightarrow> fw_step s (Run alive ok) (waiter_step alive ok s)"
| fw_stop: "\<not> destroyed s \<Longrightarrow> fw_step s Stop (Terminate s)"
| fw_destroy: "\<not> destroyed s \<Longrightarrow> terminate s \<Longrightarrow> pc s = Thread_Exited \<Longrightarrow>
    fw_step s Destroy (FenceWaiter_destroy s)"

inductive_cases fw_stepE: "fw_step s e t"

subsection \<open>The invariant\<close>

definition in_flight :: "fence_waiter \<Rightarrow> wait_set_entry list" where
  "in_flight s = (case pc s of Callbacks es _ \<Rightarrow> es | _ \<Rightarrow> [])"

definition fw_inv :: "fence_waiter \<Rightarrow> bool" where
  "fw_inv s \<longleftrightarrow>
     mset (map entry_key (wait_set s)) + mset (map entry_key (in_flight s)) + mset (invoked s) =
       mset (accepted s) \<and>
     map fst (accepted s) = [0 ..< length (accepted s)] \<and>
     (\<forall>e \<in> set (wait_set s). is_signalled e \<longrightarrow> fence e \<in> signalled_fences s) \<and>
     (\<forall>e \<in> set (in_flight s). fence e \<in> signalled_fences s) \<and>
     (\<not> destroyed s \<longrightarrow> (\<forall>k \<in> set (invoked s). snd k \<in> signalled_fences s)) \<and>
     (destroyed s \<longrightarrow> wait_set s = [] \<and> pc s = Thread_Exited)"

lemma in_flight_pc [simp]:
  "pc s = Callbacks es d \<Longrightarrow> in_flight s = es" "pc s = At_Loop \<Longrightarrow> in_flight s = []"
  "pc s = Drain_Head \<Longrightarrow> in_flight s = []" "pc s = Wait_Start d \<Longrightarrow> in_flight s = []"
  "pc s = Snapshot ids d \<Longrightarrow> in_flight s = []" "pc s = Waited ids d \<Longrightarrow> in_flight s = []"
  "pc s = Erasing d \<Longrightarrow> in_flight s = []" "pc s = Thread_Exited \<Longrightarrow> in_flight s = []"
  by (simp_all add: in_flight_def)

lemma back_to_flight [simp]: "pc s = back_to d \<Longrightarrow> in_flight s = []"
  by (simp add: back_to_def split: if_splits)

lemma key_update: "entry_key (UpdateSignalledStatus f e) = entry_key e"
  by (simp add: UpdateSignalledStatus_def entry_key_def)

lemma mset_filter_split:
  "mset (map f (filter P xs)) + mset (map f (filter (\<lambda>x. \<not> P x) xs)) = mset (map f xs)"
  by (induction xs) auto

lemma fw_inv_add: "fw_inv s \<Longrightarrow> \<not> destroyed s \<Longrightarrow> fw_inv (snd (AddFence f c s))"
  by (auto simp: AddFence_def fw_inv_def in_flight_def WaitSetEntry_def entry_key_def
      split: option.splits)

text \<open>A step that only moves the program counter, with nothing in flight before and after.\<close>

lemma fw_inv_pc:
  "fw_inv s \<Longrightarrow> \<not> destroyed s \<Longrightarrow> in_flight s = [] \<Longrightarrow> in_flight (s\<lparr>pc := p\<rparr>) = [] \<Longrightarrow>
   fw_inv (s\<lparr>pc := p\<rparr>)"
  by (simp add: fw_inv_def)

lemma fw_inv_update:
  assumes "fw_inv s" "\<not> destroyed s" "pc s = Waited ids d"
  shows "fw_inv (Wait_update ids d s)"
proof (cases ids)
  case Nil
  then show ?thesis using assms by (auto simp: Wait_update_def intro!: fw_inv_pc)
next
  case (Cons i ids')
  have k: "map entry_key (wait_set (Wait_update ids d s)) = map entry_key (wait_set s)"
    by (simp add: Cons Wait_update_def key_update)
  have "is_signalled e \<longrightarrow> fence e \<in> signalled_fences s" if "e \<in> set (wait_set (Wait_update ids d s))" for e
    using that assms(1)
    by (auto simp: Cons Wait_update_def fw_inv_def UpdateSignalledStatus_def split: if_splits)
  moreover have "accepted (Wait_update ids d s) = accepted s" "invoked (Wait_update ids d s) = invoked s"
    "signalled_fences (Wait_update ids d s) = signalled_fences s"
    "destroyed (Wait_update ids d s) = destroyed s" "in_flight (Wait_update ids d s) = []"
    by (simp_all add: Cons Wait_update_def)
  ultimately show ?thesis
    using assms k unfolding fw_inv_def by simp
qed

lemma fw_inv_erase:
  assumes "fw_inv s" "\<not> destroyed s" "pc s = Erasing d"
  shows "fw_inv (Wait_erase d s)"
  using assms mset_filter_split [of entry_key is_signalled "wait_set s"]
  by (auto simp: Wait_erase_def fw_inv_def ac_simps)

lemma fw_inv_callback:
  assumes "fw_inv s" "\<not> destroyed s" "pc s = Callbacks es d"
  shows "fw_inv (Wait_callback es d s)"
  using assms by (cases es) (auto simp: Wait_callback_def fw_inv_def entry_key_def)

lemma fw_inv_run:
  assumes "fw_inv s" "\<not> destroyed s"
  shows "fw_inv (waiter_step alive ok s)"
proof (cases "pc s")
  case (Waited ids d)
  then show ?thesis using fw_inv_update [OF assms] by (simp add: waiter_step_def)
next
  case (Erasing d)
  then show ?thesis using fw_inv_erase [OF assms] by (simp add: waiter_step_def)
next
  case (Callbacks es d)
  then show ?thesis using fw_inv_callback [OF assms] by (simp add: waiter_step_def)
qed (use assms in \<open>auto simp: waiter_step_def Main_wake_def WaitUntilEmpty_head_def Wait_snapshot_def
    Wait_device_def intro!: fw_inv_pc\<close>)

lemma fw_inv_destroy:
  "fw_inv s \<Longrightarrow> pc s = Thread_Exited \<Longrightarrow> fw_inv (FenceWaiter_destroy s)"
  by (simp add: fw_inv_def FenceWaiter_destroy_def ac_simps)

lemma fw_inv_signal: "fw_inv s \<Longrightarrow> fw_inv (s\<lparr>signalled_fences := insert f (signalled_fences s)\<rparr>)"
  unfolding fw_inv_def by (simp add: in_flight_def)

lemma fw_inv_stop: "fw_inv s \<Longrightarrow> fw_inv (Terminate s)"
  unfolding fw_inv_def by (simp add: Terminate_def in_flight_def)

interpretation fw: transition_system "\<lambda>s. s = FenceWaiter" fw_step fw_inv
proof
  show "s = FenceWaiter \<Longrightarrow> fw_inv s" for s by (simp add: FenceWaiter_def fw_inv_def)
  show "fw_inv t" if "fw_inv s" "fw_step s e t" for s e t
    using that(2)
    by (cases rule: fw_step.cases)
      (use that(1) in \<open>auto intro: fw_inv_add fw_inv_run fw_inv_destroy fw_inv_signal fw_inv_stop\<close>)
qed

lemma run_reachable:
  assumes "reachable_from st fw_step s" "\<not> destroyed s"
  shows "reachable_from st fw_step ((waiter_step True True ^^ n) s) \<and>
    \<not> destroyed ((waiter_step True True ^^ n) s)"
proof (induction n)
  case (Suc n)
  have "destroyed (waiter_step True True s) = destroyed s" for s
    by (auto simp: waiter_step_def Main_wake_def WaitUntilEmpty_head_def Wait_snapshot_def
        Wait_device_def Wait_update_def Wait_erase_def Wait_callback_def
        split: waiter_pc.splits list.splits)
  then show ?case using Suc by (metis fw_run funpow.simps(2) o_apply reach_step)
qed (use assms in simp)

subsection \<open>Properties\<close>

text \<open>
  C19: Whatever the interleaving with threads that add and signal fences and terminate the waiter,
  the callback of an accepted fence runs at most once, while the waiter lives only after the
  device has signalled the fence, and when the waiter has been destroyed every accepted callback
  has run exactly once.
\<close>

theorem fence_callbacks_exactly_once:
  assumes "reachable_from (\<lambda>s. s = FenceWaiter) fw_step s"
  shows "distinct (invoked s) \<and> set (invoked s) \<subseteq> set (accepted s) \<and>
    (\<not> destroyed s \<longrightarrow> (\<forall>(i, f) \<in> set (invoked s). f \<in> signalled_fences s)) \<and>
    (destroyed s \<longrightarrow> mset (invoked s) = mset (accepted s))"
proof -
  have inv: "fw_inv s" by (rule fw.reachable_inv [OF assms])
  then have "distinct (map fst (accepted s))" by (simp add: fw_inv_def)
  then have "distinct (accepted s)" by (simp add: distinct_map)
  moreover have sub: "mset (invoked s) \<subseteq># mset (accepted s)"
    using inv unfolding fw_inv_def by (metis mset_subset_eq_add_right)
  ultimately have "distinct (invoked s)"
    by (metis submset_distinct)
  moreover have "set (invoked s) \<subseteq> set (accepted s)" using sub by (metis set_mset_mono set_mset_mset)
  ultimately show ?thesis using inv by (auto simp: fw_inv_def)
qed


lemmas waiter_step_simps = waiter_step_def Main_wake_def WaitUntilEmpty_head_def Wait_snapshot_def
  Wait_device_def Wait_update_def Wait_erase_def Wait_callback_def back_to_def snapshot_entries_def
  GetFencesForWaitSet_def WaitSetEntry_def UpdateSignalledStatus_def entry_key_def

theorem fence_callbacks_exactly_once_witness:
  "\<exists>s. reachable_from (\<lambda>s. s = FenceWaiter) fw_step s \<and> destroyed s \<and> invoked s = [(0, 7)] \<and>
     mset (invoked s) = mset (accepted s)"
proof -
  let ?R = "reachable_from (\<lambda>s. s = FenceWaiter) fw_step"
  define s1 where "s1 = snd (AddFence (Some 7) True FenceWaiter)"
  define s2 where "s2 = s1\<lparr>signalled_fences := insert 7 (signalled_fences s1)\<rparr>"
  define s3 where "s3 = Terminate ((waiter_step True True ^^ 8) s2)"
  define s4 where "s4 = (waiter_step True True ^^ 2) s3"
  have "?R FenceWaiter" by (rule reach_start) simp
  then have "?R s1" unfolding s1_def by (rule reach_step) (rule fw_add, simp add: FenceWaiter_def)
  then have "?R s2" unfolding s2_def by (rule reach_step) (rule fw_signal)
  moreover have "\<not> destroyed s2" unfolding s2_def s1_def by code_simp
  ultimately have r: "?R ((waiter_step True True ^^ 8) s2)" "\<not> destroyed ((waiter_step True True ^^ 8) s2)"
    using run_reachable by blast+
  have "?R s3" unfolding s3_def using r(1) by (rule reach_step) (rule fw_stop, rule r(2))
  moreover have "\<not> destroyed s3" using r(2) by (simp add: s3_def Terminate_def)
  ultimately have r4: "?R s4" unfolding s4_def using run_reachable by blast
  have s2: "s2 = \<lparr>wait_set = [WaitSetEntry 0 7], terminate = False, pc = At_Loop,
      accepted = [(0, 7)], invoked = [], signalled_fences = {7}, destroyed = False\<rparr>"
    by (simp add: s2_def s1_def AddFence_def FenceWaiter_def)
  have "(waiter_step True True ^^ 8) s2 = \<lparr>wait_set = [], terminate = False, pc = At_Loop,
      accepted = [(0, 7)], invoked = [(0, 7)], signalled_fences = {7}, destroyed = False\<rparr>"
    unfolding s2 by (simp add: eval_nat_numeral waiter_step_simps)
  then have fin: "\<not> destroyed s4 \<and> terminate s4 \<and> pc s4 = Thread_Exited \<and>
      invoked s4 = [(0, 7)] \<and> wait_set s4 = []"
    by (simp add: s4_def s3_def Terminate_def numeral_2_eq_2 waiter_step_simps)
  have "fw_step s4 Destroy (FenceWaiter_destroy s4)"
    by (rule fw_destroy) (simp_all add: fin)
  with r4 have reach: "?R (FenceWaiter_destroy s4)" by (rule reach_step)
  have "destroyed (FenceWaiter_destroy s4)" "invoked (FenceWaiter_destroy s4) = [(0, 7)]"
    using fin by (simp_all add: FenceWaiter_destroy_def)
  then show ?thesis using reach fence_callbacks_exactly_once [OF reach] by blast
qed

end
