(* ===== verification/Allocation.thy ===== *)
theory Allocation
  imports Prelude "HOL-Library.Sublist"
begin

text \<open>
  Heap blocks with a reserved and a used length (\<^verbatim>\<open>src/base/allocation.{h,cc}\<close>), the mappings that
  hand out their bytes (\<^verbatim>\<open>src/fml/mapping.{h,cc}\<close>) and the affix tests of
  \<^verbatim>\<open>src/base/strings.cc\<close>.

  A block is the list of its bytes. Whether \<open>realloc\<close> succeeds and the bytes it leaves in the part of
  a block that grew are parameters.
\<close>

unbundle bit_operations_syntax

subsection \<open>The next power of two\<close>

definition smear :: "nat \<Rightarrow> u32 \<Rightarrow> u32" where
  "smear k x = x OR drop_bit k x"

definition NextPowerOfTwoSize :: "u32 \<Rightarrow> u32" where
  "NextPowerOfTwoSize x =
     (if x = 0 then 1
      else smear 16 (smear 8 (smear 4 (smear 2 (smear 1 (x - 1))))) + 1)"

lemma smear_window:
  assumes "\<And>i. bit z i \<longleftrightarrow> (\<exists>d < k. bit y (i + d))"
  shows "bit (smear k z) i \<longleftrightarrow> (\<exists>d < 2 * k. bit y (i + d))"
proof
  assume "bit (smear k z) i"
  then consider "bit z i" | "bit z (k + i)"
    by (auto simp: smear_def bit_or_iff bit_drop_bit_eq)
  then show "\<exists>d < 2 * k. bit y (i + d)"
  proof cases
    case 1
    then obtain d where "d < k" "bit y (i + d)" using assms by blast
    then show ?thesis by (intro exI [of _ d]) simp
  next
    case 2
    then obtain d where "d < k" "bit y (k + i + d)" using assms by blast
    then show ?thesis by (intro exI [of _ "k + d"]) (simp add: ac_simps)
  qed
next
  assume "\<exists>d < 2 * k. bit y (i + d)"
  then obtain d where d: "d < 2 * k" "bit y (i + d)" by blast
  show "bit (smear k z) i"
  proof (cases "d < k")
    case True
    then show ?thesis using d assms by (auto simp: smear_def bit_or_iff)
  next
    case False
    then have "bit y (k + i + (d - k))" "d - k < k" using d by (simp_all add: ac_simps)
    then have "bit z (k + i)" using assms by blast
    then show ?thesis by (simp add: smear_def bit_or_iff bit_drop_bit_eq)
  qed
qed

lemma smear_all: "bit (smear 16 (smear 8 (smear 4 (smear 2 (smear 1 y))))) i \<longleftrightarrow>
    (\<exists>d < 32. bit y (i + d))"
proof -
  have "bit y i \<longleftrightarrow> (\<exists>d < 1. bit y (i + d))" for i by simp
  from smear_window [OF this]
  have "bit (smear 1 y) i \<longleftrightarrow> (\<exists>d < 2. bit y (i + d))" for i by simp
  from smear_window [OF this]
  have "bit (smear 2 (smear 1 y)) i \<longleftrightarrow> (\<exists>d < 4. bit y (i + d))" for i by simp
  from smear_window [OF this]
  have "bit (smear 4 (smear 2 (smear 1 y))) i \<longleftrightarrow> (\<exists>d < 8. bit y (i + d))" for i by simp
  from smear_window [OF this]
  have "bit (smear 8 (smear 4 (smear 2 (smear 1 y)))) i \<longleftrightarrow> (\<exists>d < 16. bit y (i + d))" for i by simp
  from smear_window [OF this] show ?thesis by simp
qed

lemma bit_word_unat: "bit y i \<longleftrightarrow> bit (unat y) i" for y :: u32
  by (auto simp: bit_unsigned_iff dest: bit_imp_le_length)

text \<open>The position above the highest bit.\<close>

lemma top_bit:
  fixes y :: u32
  obtains n where "n \<le> 32" "unat y < 2 ^ n" "n = 0 \<or> (bit y (n - 1) \<and> 2 ^ (n - 1) \<le> unat y)"
proof -
  define n where "n = (LEAST n. unat y < 2 ^ n)"
  have y: "unat y < 2 ^ 32" using unsigned_less [of y] by simp
  have n32: "n \<le> 32" unfolding n_def by (rule Least_le) (rule y)
  have n: "unat y < 2 ^ n"
    unfolding n_def by (rule LeastI [of "\<lambda>n. unat y < 2 ^ n" 32]) (rule y)
  have b: "bit y (n - 1) \<and> 2 ^ (n - 1) \<le> unat y" if n0: "n \<noteq> 0"
  proof -
    have "n - 1 < n" using n0 by simp
    then have "\<not> unat y < 2 ^ (n - 1)"
      unfolding n_def by (rule not_less_Least [of _ "\<lambda>n. unat y < 2 ^ n"])
    then have le: "2 ^ (n - 1) \<le> unat y" by (rule leI)
    have "2 ^ n = (2 :: nat) * 2 ^ (n - 1)" using n0 by (cases n) (simp_all only: power_Suc diff_Suc_1)
    then have "unat y < 2 ^ (n - 1) * Suc 1"
      using n unfolding One_nat_def mult_Suc_right mult_0_right by linarith
    then have "unat y div 2 ^ (n - 1) = 1" using le by (intro div_nat_eqI) (simp only: mult_1_right)
    then have "odd (unat y div 2 ^ (n - 1))" by simp
    then show ?thesis using le unfolding bit_word_unat bit_iff_odd by blast
  qed
  show thesis by (rule that [OF n32 n]) (use b in blast)
qed

lemma smear_mask:
  fixes y :: u32
  assumes "n \<le> 32" "unat y < 2 ^ n" "n = 0 \<or> bit y (n - 1)"
  shows "smear 16 (smear 8 (smear 4 (smear 2 (smear 1 y)))) = mask n"
proof (rule bit_word_eqI)
  fix i assume i: "i < LENGTH(32)"
  have "(\<exists>d < 32. bit y (i + d)) \<longleftrightarrow> i < n"
  proof
    assume "\<exists>d < 32. bit y (i + d)"
    then obtain d where "bit (unat y) (i + d)" by (auto simp: bit_word_unat)
    then show "i < n" using small_bits [OF assms(2)] by fastforce
  next
    assume "i < n"
    then have "bit y (i + (n - 1 - i))" "n - 1 - i < 32" using assms(1,3) by auto
    then show "\<exists>d < 32. bit y (i + d)" by blast
  qed
  then show "bit (smear 16 (smear 8 (smear 4 (smear 2 (smear 1 y))))) i = bit (mask n :: u32) i"
    unfolding smear_all using i by (simp add: bit_mask_iff)
qed

lemma next_power_of_two:
  assumes "x \<noteq> 0"
  obtains n where "n \<le> 32" "NextPowerOfTwoSize x = 2 ^ n" "unat x \<le> 2 ^ n" "2 ^ n < 2 * unat x"
proof -
  obtain n where n: "n \<le> 32" "unat (x - 1) < 2 ^ n"
      "n = 0 \<or> (bit (x - 1) (n - 1) \<and> 2 ^ (n - 1) \<le> unat (x - 1))"
    by (rule top_bit [of "x - 1"])
  have "NextPowerOfTwoSize x = mask n + 1"
    using smear_mask [of n "x - 1"] n assms by (auto simp: NextPowerOfTwoSize_def)
  then have "NextPowerOfTwoSize x = 2 ^ n" by (simp add: mask_eq_exp_minus_1)
  moreover have x: "unat (x - 1) = unat x - 1" "0 < unat x"
    using assms by (simp_all add: unat_minus_one unat_gt_0)
  then have "unat x \<le> 2 ^ n" using n(2) by linarith
  moreover have "2 ^ n < 2 * unat x"
  proof (cases n)
    case (Suc m)
    then have "2 ^ m \<le> unat x - 1" using n(3) x by simp
    then show ?thesis using Suc x(2) by simp
  qed (use x in simp)
  ultimately show thesis using that n(1) by blast
qed

lemma NextPowerOfTwoSize_le:
  assumes "unat x \<le> 2 ^ 31"
  shows "\<exists>n \<le> 31. unat (NextPowerOfTwoSize x) = 2 ^ n \<and> unat x \<le> 2 ^ n"
proof (cases "x = 0")
  case False
  then obtain n where n: "NextPowerOfTwoSize x = 2 ^ n" "unat x \<le> 2 ^ n" "2 ^ n < 2 * unat x"
    by (rule next_power_of_two)
  have "(2 :: nat) ^ n < 2 ^ 32" using n(3) assms by simp
  then have "n < 32" by (rule power_less_imp_less_exp [rotated]) simp
  then have "n \<le> 31" by simp
  moreover have "unat (2 ^ n :: u32) = 2 ^ n"
    using unat_of_nat [of "2 ^ n", where 'a = 32] \<open>(2 :: nat) ^ n < 2 ^ 32\<close> by simp
  ultimately show ?thesis using n by auto
qed (simp add: NextPowerOfTwoSize_def exI [of _ 0])

lemma NextPowerOfTwoSize_wraps:
  assumes "2 ^ 31 < unat x"
  shows "NextPowerOfTwoSize x = 0"
proof -
  have "x \<noteq> 0" using assms by auto
  then obtain n where n: "n \<le> 32" "NextPowerOfTwoSize x = 2 ^ n" "unat x \<le> 2 ^ n"
    by (rule next_power_of_two)
  have "(2 :: nat) ^ 31 < 2 ^ n" using assms n(3) by linarith
  then have "31 < n" by (rule power_less_imp_less_exp [rotated]) simp
  then have "n = 32" using n(1) by simp
  then show ?thesis using n(2) by simp
qed

lemma unat_ucast_small: "unat n < 2 ^ 32 \<Longrightarrow> unat (ucast n :: u32) = unat n" for n :: u64
  by (simp add: unsigned_ucast_eq unsigned_take_bit_eq take_bit_nat_eq_self)

lemma unat_ucast_up: "unat (ucast n :: u64) = unat n" for n :: u32
  using unsigned_less [of n, where 'a = nat]
  by (simp add: unsigned_ucast_eq take_bit_nat_eq_self)

subsection \<open>Heap blocks\<close>

text \<open>\<open>buffer\<close> is None for the null pointer.\<close>

record allocation =
  buffer :: "u8 list option"
  length' :: u64
  reserved :: u64

definition Allocation :: allocation where
  "Allocation = \<lparr>buffer = None, length' = 0, reserved = 0\<rparr>"

definition bytes_of :: "u8 list option \<Rightarrow> u8 list" where
  "bytes_of b = (case b of None \<Rightarrow> [] | Some bs \<Rightarrow> bs)"

definition realloc :: "(nat \<Rightarrow> u8) \<Rightarrow> u8 list option \<Rightarrow> nat \<Rightarrow> u8 list" where
  "realloc fresh b n = take n (bytes_of b) @ map fresh [length (bytes_of b) ..< n]"

definition Reserve :: "(u64 \<Rightarrow> bool) \<Rightarrow> (nat \<Rightarrow> u8) \<Rightarrow> u64 \<Rightarrow> allocation \<Rightarrow> bool \<times> allocation" where
  "Reserve can fresh n a =
     (if n \<le> reserved a then (True, a)
      else if \<not> can n then (False, a)
      else (True, a\<lparr>buffer := Some (realloc fresh (buffer a) (unat n)), reserved := n\<rparr>))"

definition ReserveNPOT :: "(u64 \<Rightarrow> bool) \<Rightarrow> (nat \<Rightarrow> u8) \<Rightarrow> u64 \<Rightarrow> allocation \<Rightarrow> bool \<times> allocation" where
  "ReserveNPOT can fresh n a =
     (let n' = max 4096 n in Reserve can fresh (ucast (NextPowerOfTwoSize (ucast n'))) a)"

definition Truncate ::
  "(u64 \<Rightarrow> bool) \<Rightarrow> (nat \<Rightarrow> u8) \<Rightarrow> u64 \<Rightarrow> bool \<Rightarrow> allocation \<Rightarrow> bool \<times> allocation"
where
  "Truncate can fresh n npot a =
     (case (if npot then ReserveNPOT can fresh n a else Reserve can fresh n a) of
        (ok, a') \<Rightarrow> if \<not> ok then (False, a') else (True, a'\<lparr>length' := n\<rparr>))"

text \<open>Every byte of the used length is inside the block.\<close>

definition alloc_ok :: "allocation \<Rightarrow> bool" where
  "alloc_ok a \<longleftrightarrow> length (bytes_of (buffer a)) = unat (reserved a) \<and> length' a \<le> reserved a"

lemma Allocation_ok: "alloc_ok Allocation"
  by (simp add: alloc_ok_def Allocation_def bytes_of_def)

lemma length_realloc [simp]: "length (realloc fresh b n) = n"
  by (simp add: realloc_def)

lemma Reserve_effect:
  assumes "alloc_ok a" "Reserve can fresh n a = (ok, a')"
  shows "alloc_ok a'" "ok \<Longrightarrow> n \<le> reserved a'" "\<not> ok \<Longrightarrow> a' = a"
    "take (unat (length' a)) (bytes_of (buffer a')) = take (unat (length' a)) (bytes_of (buffer a))"
proof -
  have le: "unat (length' a) \<le> length (bytes_of (buffer a))"
    using assms(1) by (simp add: alloc_ok_def word_le_nat_alt)
  have "length (bytes_of (buffer a)) \<le> unat n" if "\<not> n \<le> reserved a"
    using assms(1) that by (simp add: alloc_ok_def word_le_nat_alt)
  then show "alloc_ok a'" "ok \<Longrightarrow> n \<le> reserved a'" "\<not> ok \<Longrightarrow> a' = a"
    "take (unat (length' a)) (bytes_of (buffer a')) = take (unat (length' a)) (bytes_of (buffer a))"
    using assms le
    by (auto simp: Reserve_def alloc_ok_def bytes_of_def realloc_def split: if_splits option.splits)
qed

lemma ReserveNPOT_effect:
  assumes "alloc_ok a" "n \<le> 2 ^ 31" "ReserveNPOT can fresh n a = (ok, a')"
  shows "alloc_ok a'" "ok \<Longrightarrow> n \<le> reserved a'" "\<not> ok \<Longrightarrow> a' = a"
    "take (unat (length' a)) (bytes_of (buffer a')) = take (unat (length' a)) (bytes_of (buffer a))"
proof -
  let ?n = "max 4096 n" and ?x = "ucast (max 4096 n) :: u32"
  have "unat n \<le> 2 ^ 31" using assms(2) by (simp add: word_le_nat_alt)
  then have m: "unat ?n \<le> 2 ^ 31" by (simp add: max_def)
  then have x: "unat ?x = unat ?n" by (simp add: unat_ucast_small)
  then obtain k where k: "unat (NextPowerOfTwoSize ?x) = 2 ^ k" "unat ?n \<le> 2 ^ k"
    using NextPowerOfTwoSize_le [of ?x] m by auto
  then have "?n \<le> ucast (NextPowerOfTwoSize ?x)"
    by (simp add: word_le_nat_alt unat_ucast_up)
  then have le: "n \<le> ucast (NextPowerOfTwoSize ?x)" by (rule order_trans [OF max.cobounded2])
  have r: "Reserve can fresh (ucast (NextPowerOfTwoSize ?x)) a = (ok, a')"
    using assms(3) by (simp add: ReserveNPOT_def Let_def)
  note effect = Reserve_effect [OF assms(1) r]
  show "alloc_ok a'" by (rule effect(1))
  show "ok \<Longrightarrow> n \<le> reserved a'" using effect(2) le by (meson order_trans)
  show "\<not> ok \<Longrightarrow> a' = a" by (rule effect(3))
  show "take (unat (length' a)) (bytes_of (buffer a')) = take (unat (length' a)) (bytes_of (buffer a))"
    by (rule effect(4))
qed

lemma Truncate_effect:
  assumes "alloc_ok a" "npot \<Longrightarrow> n \<le> 2 ^ 31" "Truncate can fresh n npot a = (ok, a')"
  shows "alloc_ok a' \<and> (if ok then length' a' = n else a' = a) \<and>
    take (unat (length' a)) (bytes_of (buffer a')) = take (unat (length' a)) (bytes_of (buffer a))"
proof -
  obtain ok1 a1 where r: "(if npot then ReserveNPOT can fresh n a else Reserve can fresh n a) = (ok1, a1)"
    by fastforce
  have "alloc_ok a1" "ok1 \<Longrightarrow> n \<le> reserved a1" "\<not> ok1 \<Longrightarrow> a1 = a"
    "take (unat (length' a)) (bytes_of (buffer a1)) = take (unat (length' a)) (bytes_of (buffer a))"
    using ReserveNPOT_effect [OF assms(1), of n can fresh ok1 a1]
      Reserve_effect [OF assms(1), of can fresh n ok1 a1] assms(2) r by (auto split: if_splits)
  moreover have "ok = ok1 \<and> a' = (if ok1 then a1\<lparr>length' := n\<rparr> else a1)"
    using assms(3) r by (auto simp: Truncate_def split: if_splits)
  ultimately show ?thesis by (auto simp: alloc_ok_def)
qed

subsection \<open>Mappings\<close>

text \<open>
  A mapping of bytes that somebody else owns; \<open>release\<close> is the procedure that is called with the
  bytes when the mapping is destroyed.
\<close>

record 'p mapping =
  mapped :: "u8 list option"
  msize :: u64
  release :: "'p option"
  dontneed_safe :: bool

definition NonOwnedMapping :: "u8 list option \<Rightarrow> u64 \<Rightarrow> 'p option \<Rightarrow> bool \<Rightarrow> 'p mapping" where
  "NonOwnedMapping bs n proc safe =
     \<lparr>mapped = bs, msize = n, release = proc, dontneed_safe = safe\<rparr>"

definition NonOwnedMapping_destroy :: "'p mapping \<Rightarrow> ('p \<times> u8 list option \<times> u64) list" where
  "NonOwnedMapping_destroy m =
     (case release m of None \<Rightarrow> [] | Some proc \<Rightarrow> [(proc, mapped m, msize m)])"

definition DataMapping :: "u8 list \<Rightarrow> 'p mapping" where
  "DataMapping bs = \<lparr>mapped = Some bs, msize = of_nat (length bs), release = None, dontneed_safe = False\<rparr>"

text \<open>What a reader of the whole mapping gets.\<close>

definition read_mapping :: "'p mapping \<Rightarrow> u8 list result" where
  "read_mapping m =
     rbind (guard Undefined_Behaviour (unat (msize m) \<le> length (bytes_of (mapped m))))
       (\<lambda>_. Inr (take (unat (msize m)) (bytes_of (mapped m))))"

definition memcpy :: "nat \<Rightarrow> u8 list \<Rightarrow> nat \<Rightarrow> u8 list option \<Rightarrow> u8 list option result" where
  "memcpy off source n target =
     (if n = 0 then Inr target
      else rbind (guard Undefined_Behaviour (n \<le> length source \<and> off + n \<le> length (bytes_of target)))
        (\<lambda>_. Inr (Some (take off (bytes_of target) @ take n source @ drop (off + n) (bytes_of target)))))"

definition CreateMappingFromAllocation :: "allocation option \<Rightarrow> 'p \<Rightarrow> 'p mapping option" where
  "CreateMappingFromAllocation a keep_alive =
     (case a of
        None \<Rightarrow> None
      | Some x \<Rightarrow> Some (NonOwnedMapping (buffer x) (length' x) (Some keep_alive) False))"

definition CreateMappingWithCopy ::
  "(u64 \<Rightarrow> bool) \<Rightarrow> (nat \<Rightarrow> u8) \<Rightarrow> u8 list option \<Rightarrow> u64 \<Rightarrow> 'p \<Rightarrow> 'p mapping option result"
where
  "CreateMappingWithCopy can fresh contents n keep_alive =
     (case contents of
        None \<Rightarrow> Inr None
      | Some bs \<Rightarrow>
          (case Truncate can fresh n True Allocation of
             (ok, a) \<Rightarrow>
               if \<not> ok then Inr None
               else rbind (memcpy 0 bs (unat n) (buffer a))
                 (\<lambda>b. Inr (CreateMappingFromAllocation (Some (a\<lparr>buffer := b\<rparr>)) keep_alive))))"

definition CreateMappingWithString :: "u8 list \<Rightarrow> 'p \<Rightarrow> 'p mapping option" where
  "CreateMappingWithString s keep_alive =
     Some (NonOwnedMapping (Some s) (of_nat (length s)) (Some keep_alive) False)"

text \<open>
  A block of \<open>malloc\<close>: \<open>mm_data\<close> is the number of the block, with the heap as a partial function.
  Freeing the null pointer does nothing, freeing a block that is not allocated is undefined.
\<close>

record malloc_mapping =
  mm_data :: "nat option"
  mm_size :: u64

type_synonym heap = "nat \<Rightarrow> u8 list option"

definition free :: "nat option \<Rightarrow> heap \<Rightarrow> heap result" where
  "free p h =
     (case p of
        None \<Rightarrow> Inr h
      | Some b \<Rightarrow> rbind (guard Undefined_Behaviour (h b \<noteq> None)) (\<lambda>_. Inr (h(b := None))))"

definition MallocMapping :: malloc_mapping where
  "MallocMapping = \<lparr>mm_data = None, mm_size = 0\<rparr>"

definition MallocMapping_of :: "nat option \<Rightarrow> u64 \<Rightarrow> malloc_mapping" where
  "MallocMapping_of p n = \<lparr>mm_data = p, mm_size = n\<rparr>"

text \<open>The mapping that was moved into and the one that was moved from.\<close>

definition MallocMapping_move :: "malloc_mapping \<Rightarrow> malloc_mapping \<times> malloc_mapping" where
  "MallocMapping_move m = (m, m\<lparr>mm_data := None, mm_size := 0\<rparr>)"

definition MallocMapping_destroy :: "malloc_mapping \<Rightarrow> heap \<Rightarrow> (malloc_mapping \<times> heap) result" where
  "MallocMapping_destroy m h = rbind (free (mm_data m) h) (\<lambda>h'. Inr (m\<lparr>mm_data := None\<rparr>, h'))"

text \<open>\<open>b\<close> is the block that \<open>malloc\<close> gives, None when it fails.\<close>

definition MallocMapping_Copy ::
  "nat option \<Rightarrow> u8 list \<Rightarrow> u64 \<Rightarrow> heap \<Rightarrow> (malloc_mapping \<times> heap) result"
where
  "MallocMapping_Copy b source n h =
     (case b of
        None \<Rightarrow> Inl Check_Failed
      | Some p \<Rightarrow>
          rbind (guard Undefined_Behaviour (unat n \<le> length source))
            (\<lambda>_. Inr (MallocMapping_of (Some p) n, h(p \<mapsto> take (unat n) source))))"

definition MallocMapping_Release :: "malloc_mapping \<Rightarrow> nat option \<times> malloc_mapping" where
  "MallocMapping_Release m = (mm_data m, m\<lparr>mm_data := None, mm_size := 0\<rparr>)"

text \<open>The symbol of a library, with an underscore in front when it is not found without.\<close>

definition SymbolMapping :: "(string \<Rightarrow> 'a option) option \<Rightarrow> string option \<Rightarrow> 'a option" where
  "SymbolMapping library symbol =
     (case (library, symbol) of
        (Some resolve, Some n) \<Rightarrow>
          (case resolve n of None \<Rightarrow> resolve (CHR ''_'' # n) | Some x \<Rightarrow> Some x)
      | _ \<Rightarrow> None)"

subsection \<open>Affixes\<close>

definition occurs_at :: "string \<Rightarrow> string \<Rightarrow> nat \<Rightarrow> bool" where
  "occurs_at p s i \<longleftrightarrow> i + length p \<le> length s \<and> take (length p) (drop i s) = p"

definition find_first :: "string \<Rightarrow> string \<Rightarrow> nat option" where
  "find_first p s = find (occurs_at p s) [0 ..< Suc (length s)]"

definition rfind :: "string \<Rightarrow> string \<Rightarrow> nat option" where
  "rfind p s = find (occurs_at p s) (rev [0 ..< Suc (length s)])"

definition HasPrefix :: "string \<Rightarrow> string \<Rightarrow> bool" where
  "HasPrefix s p \<longleftrightarrow> find_first p s = Some 0"

definition HasSuffix :: "string \<Rightarrow> string \<Rightarrow> bool" where
  "HasSuffix s p =
     (case rfind p s of None \<Rightarrow> False | Some i \<Rightarrow> i = length s - length p)"

definition StripPrefix :: "string \<Rightarrow> string \<Rightarrow> string" where
  "StripPrefix s p = (if \<not> HasPrefix s p then s else drop (length p) s)"

lemma HasPrefix_iff: "HasPrefix s p \<longleftrightarrow> prefix p s"
proof -
  have "HasPrefix s p \<longleftrightarrow> occurs_at p s 0"
    by (auto simp: HasPrefix_def find_first_def upt_conv_Cons find_Some_iff simp del: upt_Suc)
  then show ?thesis by (auto simp: occurs_at_def prefix_def) (metis append_take_drop_id)
qed

lemma suffix_at: "suffix p s \<longleftrightarrow> occurs_at p s (length s - length p) \<and> length p \<le> length s"
  by (auto simp: occurs_at_def suffix_def) (metis append_take_drop_id)

lemma find_append_None: "find P xs = None \<Longrightarrow> find P (xs @ ys) = find P ys"
  by (induction xs) (auto split: if_splits)

lemma rfind_last:
  assumes "length p \<le> length s" "occurs_at p s (length s - length p)"
  shows "rfind p s = Some (length s - length p)"
proof -
  let ?k = "length s - length p"
  have split: "[0 ..< Suc (length s)] = [0 ..< ?k] @ ?k # [Suc ?k ..< Suc (length s)]"
    using upt_add_eq_append [of 0 ?k "Suc (length s) - ?k"]
    by (simp add: upt_conv_Cons Suc_diff_le del: upt_Suc)
  have "\<not> occurs_at p s i" if "i \<in> set (rev [Suc ?k ..< Suc (length s)])" for i
    using that assms(1) by (auto simp: occurs_at_def)
  then have "find (occurs_at p s) (rev [Suc ?k ..< Suc (length s)]) = None"
    by (simp add: find_None_iff del: upt_Suc)
  then show ?thesis unfolding rfind_def split using assms(2)
    by (simp add: find_append_None del: upt_Suc)
qed

lemma HasSuffix_iff: "HasSuffix s p \<longleftrightarrow> suffix p s"
proof
  assume "HasSuffix s p"
  then have "rfind p s = Some (length s - length p)"
    by (simp add: HasSuffix_def split: option.splits)
  then have "occurs_at p s (length s - length p)" unfolding rfind_def find_Some_iff by metis
  then show "suffix p s" by (auto simp: suffix_at occurs_at_def)
qed (auto simp: suffix_at HasSuffix_def rfind_last)

lemma StripPrefix_append: "StripPrefix (p @ s) p = s"
  by (simp add: StripPrefix_def HasPrefix_iff)

subsection \<open>Facts about blocks and mappings\<close>

lemma moved_mapping_freed_once:
  assumes "mm_data m = Some b" "h b \<noteq> None" "MallocMapping_move m = (new, old)"
  shows "rbind (MallocMapping_destroy old h) (\<lambda>(_, h'). MallocMapping_destroy new h') =
    Inr (new\<lparr>mm_data := None\<rparr>, h(b := None))"
  using assms by (auto simp: MallocMapping_move_def MallocMapping_destroy_def free_def)

lemma released_mapping_not_freed:
  "MallocMapping_destroy (snd (MallocMapping_Release m)) h = Inr (\<lparr>mm_data = None, mm_size = 0\<rparr>, h)"
  by (simp add: MallocMapping_Release_def MallocMapping_destroy_def free_def)

lemma read_DataMapping: "length bs < 2 ^ 64 \<Longrightarrow> read_mapping (DataMapping bs) = Inr bs"
  by (simp add: read_mapping_def DataMapping_def bytes_of_def unat_of_nat take_bit_nat_eq_self)

lemma NextPowerOfTwoSize_pos: "unat x \<le> 2 ^ 31 \<Longrightarrow> 0 < NextPowerOfTwoSize x"
  using NextPowerOfTwoSize_le [of x] by (auto simp: word_less_nat_alt)

lemma copied_mapping_reads_back:
  assumes "n \<le> 2 ^ 31" "unat n \<le> length bs"
  shows "if can (ucast (NextPowerOfTwoSize (ucast (max 4096 n))))
    then \<exists>m. CreateMappingWithCopy can fresh (Some bs) n k = Inr (Some m) \<and>
      msize m = n \<and> read_mapping m = Inr (take (unat n) bs)
    else CreateMappingWithCopy can fresh (Some bs) n k = Inr None"
proof -
  obtain ok a where t: "Truncate can fresh n True Allocation = (ok, a)" by fastforce
  from Truncate_effect [OF Allocation_ok _ t] assms(1)
  have a: "alloc_ok a" "ok \<Longrightarrow> length' a = n" by (auto split: if_splits)
  then have len: "ok \<Longrightarrow> unat n \<le> length (bytes_of (buffer a))"
    by (auto simp: alloc_ok_def word_le_nat_alt)
  let ?x = "ucast (max 4096 n) :: u32"
  have "unat (max 4096 n) \<le> 2 ^ 31" using assms(1) by (simp add: max_def word_le_nat_alt)
  then have "0 < NextPowerOfTwoSize ?x" by (intro NextPowerOfTwoSize_pos) (simp add: unat_ucast_small)
  then have "0 < (ucast (NextPowerOfTwoSize ?x) :: u64)" by (simp add: word_less_nat_alt unat_ucast_up)
  then have "ok \<longleftrightarrow> can (ucast (NextPowerOfTwoSize ?x))"
    using t by (auto simp: Truncate_def ReserveNPOT_def Reserve_def Allocation_def Let_def split: if_splits)
  then show ?thesis using a t len assms(2)
    by (auto simp: CreateMappingWithCopy_def memcpy_def CreateMappingFromAllocation_def
        NonOwnedMapping_def read_mapping_def bytes_of_def split: option.splits)
qed

text \<open>
  A length above 2 GiB: the next power of two wraps to zero, nothing is reserved, \<open>Truncate\<close>
  reports success and the copy writes through the null pointer.
\<close>

lemma truncate_above_2GiB:
  assumes "2 ^ 31 < n" "n < 2 ^ 32"
  shows "Truncate can fresh n True Allocation = (True, Allocation\<lparr>length' := n\<rparr>)"
proof -
  have n: "2 ^ 31 < unat n" "unat n < 2 ^ 32" using assms by (simp_all add: word_less_nat_alt)
  then have m: "max 4096 n = n" using assms(1) by (simp add: max_def word_le_nat_alt)
  have "NextPowerOfTwoSize (ucast n) = 0"
    using n by (intro NextPowerOfTwoSize_wraps) (simp add: unat_ucast_small)
  then show ?thesis by (simp add: Truncate_def ReserveNPOT_def m Reserve_def Allocation_def)
qed

lemma copy_above_2GiB:
  assumes "2 ^ 31 < n" "n < 2 ^ 32"
  shows "CreateMappingWithCopy can fresh (Some bs) n k = Inl Undefined_Behaviour"
proof -
  have "0 < unat n" using assms(1) by (simp add: word_less_nat_alt)
  then show ?thesis
    unfolding CreateMappingWithCopy_def truncate_above_2GiB [OF assms]
    by (simp add: memcpy_def bytes_of_def Allocation_def)
qed

text \<open>
  A copy of up to 2 GiB into a mapping either reports that no memory was available, exactly
  when the rounded size cannot be allocated, or has the requested size and reads back the bytes;
  for larger sizes below 4 GiB the copy writes out of bounds, since the rounded size is zero.
\<close>

theorem create_mapping_with_copy:
  assumes "unat n \<le> length bs"
  shows "(n \<le> 2 ^ 31 \<longrightarrow>
      (if can (ucast (NextPowerOfTwoSize (ucast (max 4096 n))))
       then \<exists>m. CreateMappingWithCopy can fresh (Some bs) n k = Inr (Some m) \<and>
         msize m = n \<and> read_mapping m = Inr (take (unat n) bs)
       else CreateMappingWithCopy can fresh (Some bs) n k = Inr None)) \<and>
    (2 ^ 31 < n \<and> n < 2 ^ 32 \<longrightarrow>
      CreateMappingWithCopy can fresh (Some bs) n k = Inl Undefined_Behaviour)"
  by (intro conjI impI; (elim conjE)?)
    (rule copied_mapping_reads_back [OF _ assms], assumption, rule copy_above_2GiB)

theorem create_mapping_with_copy_witness:
  "\<exists>m. CreateMappingWithCopy (\<lambda>n. n \<le> 4096) (\<lambda>_. 0) (Some [7, 8, 9]) 2 () = Inr (Some m) \<and>
     read_mapping m = Inr [7, 8]"
proof -
  have m: "max 4096 (2 :: u64) = 4096" by (simp add: max_def)
  have u: "ucast (4096 :: u64) = (4096 :: u32)" "ucast (4096 :: u32) = (4096 :: u64)" by simp_all
  have p: "NextPowerOfTwoSize 4096 = 4096" by (simp add: NextPowerOfTwoSize_def smear_def)
  have two: "unat (2 :: u64) = 2" "unat (2 :: u64) \<le> length [7, 8, 9 :: u8]" by simp_all
  from create_mapping_with_copy [OF two(2), of "\<lambda>n. n \<le> 4096" "\<lambda>_. 0" "()"]
  obtain r where "CreateMappingWithCopy (\<lambda>n. n \<le> 4096) (\<lambda>_. 0) (Some [7, 8, 9]) 2 () = Inr (Some r)"
      "read_mapping r = Inr (take 2 [7, 8, 9])"
    unfolding m u p two(1) by auto
  then show ?thesis by auto
qed

end
