(* ===== verification/Pipeline_Cache.thy ===== *)
theory Pipeline_Cache
  imports Allocation
begin

text \<open>
  The pipeline cache on disk: \<^verbatim>\<open>src/hal/pipeline_cache_data_vk.{h,cc}\<close>. The file has a header of
  48 bytes in the memory layout of the struct on a 64-bit little-endian target, four bytes of
  padding included, and the data of the driver behind it.

  The answers of the driver and whether the file could be written are parameters; the file is the
  list of its bytes, None when there is none.
\<close>

subsection \<open>Little-endian numbers\<close>

fun le_bytes :: "nat \<Rightarrow> nat \<Rightarrow> u8 list" where
  "le_bytes 0 x = []"
| "le_bytes (Suc n) x = of_nat (x mod 256) # le_bytes n (x div 256)"

fun of_le :: "u8 list \<Rightarrow> nat" where
  "of_le [] = 0"
| "of_le (b # bs) = unat b + 256 * of_le bs"

lemma length_le_bytes [simp]: "length (le_bytes n x) = n"
  by (induction n arbitrary: x) simp_all

lemma unat_byte: "unat (of_nat (x mod 256) :: u8) = x mod 256"
  by (simp add: unat_of_nat)

lemma of_le_le_bytes: "x < 256 ^ n \<Longrightarrow> of_le (le_bytes n x) = x"
proof (induction n arbitrary: x)
  case (Suc n)
  then have "x div 256 < 256 ^ n" by (simp add: less_mult_imp_div_less mult.commute)
  then show ?case using Suc.IH by (simp add: unat_byte)
qed simp

subsection \<open>The header\<close>

record device_properties =
  driverVersion :: u32
  vendorID :: u32
  deviceID :: u32
  pipelineCacheUUID :: "u8 list"

record cache_header =
  magic :: u32
  driver_version :: u32
  vendor_id :: u32
  device_id :: u32
  abi :: u32
  uuid :: "u8 list"
  data_size :: u64

definition VK_UUID_SIZE :: nat where "VK_UUID_SIZE = 16"

definition header_size :: u64 where "header_size = 48"

definition PipelineCacheHeaderVK0 :: cache_header where
  "PipelineCacheHeaderVK0 = \<lparr>magic = 0xC0DEF00D, driver_version = 0, vendor_id = 0, device_id = 0,
     abi = 8, uuid = replicate VK_UUID_SIZE 0, data_size = 0\<rparr>"

definition PipelineCacheHeaderVK :: "device_properties \<Rightarrow> u64 \<Rightarrow> cache_header" where
  "PipelineCacheHeaderVK props n = \<lparr>magic = 0xC0DEF00D, driver_version = driverVersion props,
     vendor_id = vendorID props, device_id = deviceID props, abi = 8,
     uuid = take VK_UUID_SIZE (pipelineCacheUUID props), data_size = n\<rparr>"

definition IsCompatibleWith :: "cache_header \<Rightarrow> cache_header \<Rightarrow> bool" where
  "IsCompatibleWith h h' \<longleftrightarrow>
     magic h = magic h' \<and> driver_version h = driver_version h' \<and> vendor_id h = vendor_id h' \<and>
     device_id h = device_id h' \<and> abi h = abi h' \<and> uuid h = uuid h'"

text \<open>The bytes of the struct; \<open>pad\<close> are the four bytes in front of the last field.\<close>

definition header_bytes :: "u8 list \<Rightarrow> cache_header \<Rightarrow> u8 list" where
  "header_bytes pad h = le_bytes 4 (unat (magic h)) @ le_bytes 4 (unat (driver_version h)) @
     le_bytes 4 (unat (vendor_id h)) @ le_bytes 4 (unat (device_id h)) @ le_bytes 4 (unat (abi h)) @
     uuid h @ pad @ le_bytes 8 (unat (data_size h))"

definition u32_at :: "nat \<Rightarrow> u8 list \<Rightarrow> u32" where
  "u32_at i bs = of_nat (of_le (take 4 (drop i bs)))"

definition header_of :: "u8 list \<Rightarrow> cache_header" where
  "header_of bs = \<lparr>magic = u32_at 0 bs, driver_version = u32_at 4 bs, vendor_id = u32_at 8 bs,
     device_id = u32_at 12 bs, abi = u32_at 16 bs, uuid = take VK_UUID_SIZE (drop 20 bs),
     data_size = of_nat (of_le (take 8 (drop 40 bs)))\<rparr>"

definition header_ok :: "cache_header \<Rightarrow> bool" where
  "header_ok h \<longleftrightarrow> length (uuid h) = VK_UUID_SIZE"

lemma length_header_bytes: "header_ok h \<Longrightarrow> length pad = 4 \<Longrightarrow> length (header_bytes pad h) = 48"
  by (simp add: header_bytes_def header_ok_def VK_UUID_SIZE_def)

lemma of_le_word:
  fixes w :: "'a::len word"
  assumes "LENGTH('a) = 8 * n"
  shows "of_nat (of_le (le_bytes n (unat w))) = w"
proof -
  have "unat w < 2 ^ (8 * n)" using unsigned_less [of w, where 'a = nat] assms by simp
  then have "unat w < 256 ^ n" by (simp add: power_mult)
  then show ?thesis by (simp add: of_le_le_bytes)
qed

lemma header_roundtrip:
  assumes "header_ok h" "length pad = 4"
  shows "header_of (header_bytes pad h @ rest) = h"
proof -
  have l: "length (uuid h) = 16" using assms(1) by (simp add: header_ok_def VK_UUID_SIZE_def)
  show ?thesis
    by (cases h) (use l assms(2) in \<open>simp add: header_of_def header_bytes_def u32_at_def VK_UUID_SIZE_def
        of_le_word\<close>)
qed

subsection \<open>Writing and reading\<close>

datatype lookup_result = eSuccess | eIncomplete | eOther

text \<open>
  \<open>query\<close> is the answer to the query of the size, \<open>fetch\<close> the one to the call that writes into a
  buffer with room for that many bytes: the size it reports and the bytes it wrote.
\<close>

definition PipelineCacheDataPersist ::
  "bool \<Rightarrow> device_properties \<Rightarrow> lookup_result \<times> u64 \<Rightarrow> (u64 \<Rightarrow> lookup_result \<times> u64 \<times> u8 list) \<Rightarrow>
   (u64 \<Rightarrow> bool) \<Rightarrow> (nat \<Rightarrow> u8) \<Rightarrow> u8 list \<Rightarrow> bool \<Rightarrow> u8 list option \<Rightarrow> (bool \<times> u8 list option) result"
where
  "PipelineCacheDataPersist directory_valid props query fetch can fresh pad write_ok file =
     (if \<not> directory_valid then Inr (False, file)
      else if fst query \<noteq> eSuccess then Inr (False, file)
      else if snd query = 0 then Inr (True, file)
      else case Truncate can fresh (header_size + snd query) False Allocation of
        (allocated, a) \<Rightarrow>
          if \<not> allocated then Inr (False, file)
          else (case fetch (snd query) of
            (code, n, bytes) \<Rightarrow>
              rbind (memcpy (unat header_size) bytes (length bytes) (buffer a)) (\<lambda>b1.
              if code \<noteq> eSuccess \<and> code \<noteq> eIncomplete then Inr (False, file)
              else rbind (memcpy 0 (header_bytes pad (PipelineCacheHeaderVK props n)) (unat header_size) b1)
                (\<lambda>b2. rbind (read_mapping (NonOwnedMapping b2 (header_size + n) (None :: unit option) False))
                (\<lambda>contents. if \<not> write_ok then Inr (False, file) else Inr (True, Some contents))))))"

definition PipelineCacheDataRetrieve ::
  "bool \<Rightarrow> device_properties \<Rightarrow> u8 list option \<Rightarrow> 'p \<Rightarrow> 'p mapping option"
where
  "PipelineCacheDataRetrieve directory_valid props file keep_alive =
     (if \<not> directory_valid then None
      else case file of
        None \<Rightarrow> None
      | Some bs \<Rightarrow>
          if length bs < unat header_size then None
          else let on_disk = header_of bs in
            if \<not> IsCompatibleWith on_disk (PipelineCacheHeaderVK props 0) then None
            else if data_size on_disk = 0 then None
            else Some (NonOwnedMapping (Some (drop (unat header_size) bs)) (data_size on_disk)
                        (Some keep_alive) False))"

lemma memcpy_inside:
  assumes "n \<le> length source" "off + n \<le> length (bytes_of t)"
  obtains b where "memcpy off source n t = Inr b"
    "bytes_of b = take off (bytes_of t) @ take n source @ drop (off + n) (bytes_of t)"
  using assms that by (cases "n = 0") (auto simp: memcpy_def bytes_of_def)

lemma header_ok_props:
  "length (pipelineCacheUUID props) = 16 \<Longrightarrow> header_ok (PipelineCacheHeaderVK props n)"
  by (simp add: header_ok_def PipelineCacheHeaderVK_def VK_UUID_SIZE_def)

lemma unat_header_plus:
  "unat n + 48 < 2 ^ 64 \<Longrightarrow> unat (header_size + n) = 48 + unat n"
  by (simp add: header_size_def unat_word_ariths)

lemma Truncate_empty:
  assumes "can n" "0 < n"
  obtains a where "Truncate can fresh n False Allocation = (True, a)"
    "length (bytes_of (buffer a)) = unat n"
proof (rule that)
  have n: "n \<noteq> 0" using assms(2) by auto
  show "Truncate can fresh n False Allocation =
      (True, \<lparr>buffer = Some (realloc fresh None (unat n)), length' = n, reserved = n\<rparr>)"
    using assms(1) n by (simp add: Truncate_def Reserve_def Allocation_def)
qed (simp add: bytes_of_def)

text \<open>What the file holds when the driver gave data and nothing failed.\<close>

lemma persist_writes:
  assumes "length (pipelineCacheUUID props) = 16" "length pad = 4"
    and n1: "n1 \<noteq> 0" "unat n1 + 48 < 2 ^ 64" "can (header_size + n1)"
    and fetch: "fetch n1 = (code, n2, bytes)" "code \<noteq> eOther" "unat n2 = length bytes" "n2 \<le> n1"
  shows "PipelineCacheDataPersist True props (eSuccess, n1) fetch can fresh pad True file =
    Inr (True, Some (header_bytes pad (PipelineCacheHeaderVK props n2) @ bytes))"
proof -
  let ?h = "header_bytes pad (PipelineCacheHeaderVK props n2)"
  have h: "length ?h = 48" by (rule length_header_bytes [OF header_ok_props assms(2)]) (rule assms(1))
  have u: "unat (header_size + n1) = 48 + unat n1" by (rule unat_header_plus [OF n1(2)])
  then have "0 < header_size + n1" by (simp add: word_less_nat_alt)
  then obtain a where a: "Truncate can fresh (header_size + n1) False Allocation = (True, a)"
      "length (bytes_of (buffer a)) = 48 + unat n1"
    using Truncate_empty [of can "header_size + n1" fresh] n1(3) u by metis
  have le: "length bytes \<le> unat n1" using fetch(3,4) by (simp add: word_le_nat_alt)
  then obtain b1 where b1: "memcpy 48 bytes (length bytes) (buffer a) = Inr b1"
      "bytes_of b1 = take 48 (bytes_of (buffer a)) @ bytes @ drop (48 + length bytes) (bytes_of (buffer a))"
    using memcpy_inside [of "length bytes" bytes 48 "buffer a"] a(2) by auto
  then have "48 \<le> length (bytes_of b1)" using a(2) by simp
  then obtain b2 where b2: "memcpy 0 ?h 48 b1 = Inr b2"
      "bytes_of b2 = ?h @ bytes @ drop (48 + length bytes) (bytes_of (buffer a))"
    using memcpy_inside [of 48 ?h 0 b1] h b1(2) a(2) by auto
  have u2: "unat (header_size + n2) = 48 + length bytes"
    using unat_header_plus [of n2] fetch(3) le n1(2) by simp
  then have "read_mapping (NonOwnedMapping b2 (header_size + n2) (None :: unit option) False) =
      Inr (?h @ bytes)"
    using b2(2) h by (simp add: read_mapping_def NonOwnedMapping_def)
  moreover have "unat header_size = 48" by (simp add: header_size_def)
  moreover have "code = eSuccess \<or> code = eIncomplete" using fetch(2) by (cases code) auto
  ultimately show ?thesis
    using a(1) b1(1) b2(1) fetch(1) n1(1) by (auto simp: PipelineCacheDataPersist_def)
qed

lemma retrieve_file:
  assumes "length (pipelineCacheUUID props) = 16" "length pad = 4"
  shows "PipelineCacheDataRetrieve True props'
      (Some (header_bytes pad (PipelineCacheHeaderVK props n) @ bytes)) k =
    (if \<not> IsCompatibleWith (PipelineCacheHeaderVK props 0) (PipelineCacheHeaderVK props' 0) \<or> n = 0
     then None else Some (NonOwnedMapping (Some bytes) n (Some k) False))"
proof -
  let ?H = "PipelineCacheHeaderVK props n"
  have "header_of (header_bytes pad ?H @ bytes) = ?H"
    by (rule header_roundtrip [OF header_ok_props assms(2)]) (rule assms(1))
  moreover have "length (header_bytes pad ?H) = 48"
    by (rule length_header_bytes [OF header_ok_props assms(2)]) (rule assms(1))
  moreover have "IsCompatibleWith ?H h = IsCompatibleWith (PipelineCacheHeaderVK props 0) h"
      "data_size (PipelineCacheHeaderVK props m) = m" for h m
    by (auto simp: IsCompatibleWith_def PipelineCacheHeaderVK_def)
  ultimately show ?thesis
    by (simp add: PipelineCacheDataRetrieve_def header_size_def Let_def)
qed

text \<open>
  C20: The data the driver gave comes back from the file for the same driver, device and cache
  identifier and for no other, and empty data never comes back.
\<close>

theorem pipeline_cache_roundtrip:
  assumes "length (pipelineCacheUUID props) = 16" "length (pipelineCacheUUID props') = 16"
    and "length pad = 4" "n1 \<noteq> 0" "unat n1 + 48 < 2 ^ 64" "can (header_size + n1)"
    and "fetch n1 = (code, n2, bytes)" "code \<noteq> eOther" "unat n2 = length bytes" "n2 \<le> n1"
  shows "\<exists>file'. PipelineCacheDataPersist True props (eSuccess, n1) fetch can fresh pad True file =
      Inr (True, file') \<and>
    (case PipelineCacheDataRetrieve True props' file' k of
       None \<Rightarrow> bytes = [] \<or> props' \<noteq> props
     | Some m \<Rightarrow> read_mapping m = Inr bytes \<and> bytes \<noteq> [] \<and> props' = props)"
proof -
  have "IsCompatibleWith (PipelineCacheHeaderVK props 0) (PipelineCacheHeaderVK props' 0) \<longleftrightarrow> props' = props"
    using assms(1,2) by (cases props; cases props') (auto simp: IsCompatibleWith_def
        PipelineCacheHeaderVK_def VK_UUID_SIZE_def)
  moreover have "n2 = 0 \<longleftrightarrow> bytes = []" using assms(9) by (metis length_0_conv unat_eq_zero)
  ultimately show ?thesis
    using persist_writes [where can = can and fetch = fetch, OF assms(1,3-10)] retrieve_file [OF assms(1,3), of props' n2 bytes k] assms(9)
    by (auto simp: read_mapping_def NonOwnedMapping_def bytes_of_def)
qed

theorem pipeline_cache_roundtrip_witness:
  "\<exists>file'. PipelineCacheDataPersist True
      \<lparr>driverVersion = 1, vendorID = 2, deviceID = 3, pipelineCacheUUID = replicate 16 9\<rparr>
      (eSuccess, 4) (\<lambda>_. (eIncomplete, 3, [5, 6, 7])) (\<lambda>_. True) (\<lambda>_. 0) [0, 0, 0, 0] True None =
      Inr (True, file') \<and>
    (case PipelineCacheDataRetrieve True
      \<lparr>driverVersion = 1, vendorID = 2, deviceID = 3, pipelineCacheUUID = replicate 16 9\<rparr> file' () of
       None \<Rightarrow> False | Some m \<Rightarrow> read_mapping m = Inr [5, 6, 7])"
proof -
  let ?p = "\<lparr>driverVersion = 1, vendorID = 2, deviceID = 3, pipelineCacheUUID = replicate 16 9\<rparr>"
  have "\<exists>file'. PipelineCacheDataPersist True ?p (eSuccess, 4)
      (\<lambda>_. (eIncomplete, 3, [5, 6, 7])) (\<lambda>_. True) (\<lambda>_. 0) [0, 0, 0, 0] True None = Inr (True, file') \<and>
    (case PipelineCacheDataRetrieve True ?p file' () of
       None \<Rightarrow> [5, 6, 7] = ([] :: u8 list) \<or> ?p \<noteq> ?p
     | Some m \<Rightarrow> read_mapping m = Inr [5, 6, 7] \<and> [5, 6, 7] \<noteq> ([] :: u8 list) \<and> ?p = ?p)"
    by (rule pipeline_cache_roundtrip [where code = eIncomplete and ?n2.0 = 3 and bytes = "[5, 6, 7]"])
      (simp_all add: word_le_nat_alt)
  then show ?thesis by (auto split: option.splits)
qed

text \<open>
  The size in the header is not compared with the size of the file: for a file that was cut off
  behind the header a mapping is returned whose bytes are not all there.
\<close>

lemma truncated_file_out_of_bounds:
  assumes "length (pipelineCacheUUID props) = 16" "length pad = 4" "length bytes < unat n"
  shows "\<exists>m. PipelineCacheDataRetrieve True props
      (Some (header_bytes pad (PipelineCacheHeaderVK props n) @ bytes)) k = Some m \<and>
    read_mapping m = Inl Undefined_Behaviour"
proof -
  have "n \<noteq> 0" using assms(3) by auto
  moreover have "IsCompatibleWith h h" for h by (simp add: IsCompatibleWith_def)
  ultimately show ?thesis using retrieve_file [OF assms(1,2), of props n bytes k] assms(3)
    by (simp add: read_mapping_def NonOwnedMapping_def bytes_of_def)
qed

end
