(* ===== verification/Compile_Queue.thy ===== *)
theory Compile_Queue
  imports Prelude
begin

text \<open>
  The queue of pipeline compile jobs: \<^verbatim>\<open>src/hal/pipeline_compile_queue.{h,cc}\<close>.

  Each critical section under the mutex of the pending jobs is one step, and so is the invocation
  of a job that a thread has taken. The hash map of pending jobs is a list without equal keys whose
  first element, for the iterator \<open>begin()\<close>, may be any: the position is a parameter. The task
  runner of the workers is the list of tasks that were posted to it and not yet started. A job is
  named by the number of jobs accepted before it.
\<close>

datatype worker_task =
    Do_One            \<comment> \<open>the lambda that calls DoOneJob when the queue is still alive\<close>
  | Run_Job nat       \<comment> \<open>a job that was posted as it is\<close>

record 'd compile_queue =
  pending_jobs :: "('d \<times> nat) list"
  priorities_elevated :: u64
  worker_tasks :: "worker_task list"
  posting :: nat               \<comment> \<open>threads between the insertion of a job and the post of its task\<close>
  held :: "nat list"           \<comment> \<open>jobs a thread has taken and is about to invoke\<close>
  ran :: "nat list"            \<comment> \<open>jobs that were invoked\<close>
  accepted :: nat              \<comment> \<open>number of jobs that were accepted\<close>
  alive :: bool

subsection \<open>Operations\<close>

definition Create :: "'d compile_queue" where
  "Create = \<lparr>pending_jobs = [], priorities_elevated = 0, worker_tasks = [], posting = 0, held = [],
     ran = [], accepted = 0, alive = True\<rparr>"

text \<open>The section under the lock; the flag is whether the job is null.\<close>

definition PostJobForDescriptor :: "'d \<Rightarrow> bool \<Rightarrow> 'd compile_queue \<Rightarrow> bool \<times> 'd compile_queue" where
  "PostJobForDescriptor desc null_job q =
     (if null_job then (False, q)
      else if desc \<in> fst ` set (pending_jobs q)
      then (True, q\<lparr>worker_tasks := worker_tasks q @ [Run_Job (accepted q)],
                    accepted := Suc (accepted q)\<rparr>)
      else (True, q\<lparr>pending_jobs := pending_jobs q @ [(desc, accepted q)],
                    accepted := Suc (accepted q), posting := Suc (posting q)\<rparr>))"

text \<open>The post of the task behind it.\<close>

definition PostJobForDescriptor_task :: "'d compile_queue \<Rightarrow> 'd compile_queue" where
  "PostJobForDescriptor_task q =
     q\<lparr>worker_tasks := worker_tasks q @ [Do_One], posting := posting q - 1\<rparr>"

definition TakeNextJob :: "nat \<Rightarrow> 'd compile_queue \<Rightarrow> nat option \<times> 'd compile_queue" where
  "TakeNextJob i q =
     (if pending_jobs q = [] then (None, q)
      else (Some (snd (pending_jobs q ! i)),
            q\<lparr>pending_jobs := take i (pending_jobs q) @ drop (Suc i) (pending_jobs q)\<rparr>))"

definition TakeJob :: "'d \<Rightarrow> 'd compile_queue \<Rightarrow> nat option \<times> 'd compile_queue" where
  "TakeJob desc q =
     (case map_of (pending_jobs q) desc of
        None \<Rightarrow> (None, q)
      | Some job \<Rightarrow>
          (Some job, q\<lparr>priorities_elevated := priorities_elevated q + 1,
                       pending_jobs := filter (\<lambda>p. fst p \<noteq> desc) (pending_jobs q)\<rparr>))"

definition hold :: "nat option \<times> 'd compile_queue \<Rightarrow> 'd compile_queue" where
  "hold r = (case r of (None, q) \<Rightarrow> q | (Some job, q) \<Rightarrow> q\<lparr>held := held q @ [job]\<rparr>)"

definition invoke :: "nat \<Rightarrow> 'd compile_queue \<Rightarrow> 'd compile_queue" where
  "invoke job q = q\<lparr>held := remove1 job (held q), ran := ran q @ [job]\<rparr>"

text \<open>A worker that takes its first task, up to the invocation of the job.\<close>

definition worker_start :: "nat \<Rightarrow> 'd compile_queue \<Rightarrow> 'd compile_queue" where
  "worker_start i q =
     (case worker_tasks q of
        [] \<Rightarrow> q
      | Run_Job job # ts \<Rightarrow> q\<lparr>worker_tasks := ts, held := held q @ [job]\<rparr>
      | Do_One # ts \<Rightarrow>
          if alive q then hold (TakeNextJob i (q\<lparr>worker_tasks := ts\<rparr>)) else q\<lparr>worker_tasks := ts\<rparr>)"

definition PerformJobEagerly :: "'d \<Rightarrow> 'd compile_queue \<Rightarrow> 'd compile_queue" where
  "PerformJobEagerly desc q = hold (TakeJob desc q)"

definition DoOneJob :: "nat \<Rightarrow> 'd compile_queue \<Rightarrow> 'd compile_queue" where
  "DoOneJob i q =
     (case TakeNextJob i q of (None, q') \<Rightarrow> q' | (Some job, q') \<Rightarrow> q'\<lparr>ran := ran q' @ [job]\<rparr>)"

lemma pending_DoOneJob:
  "i < length (pending_jobs q) \<Longrightarrow>
   pending_jobs (DoOneJob i q) = take i (pending_jobs q) @ drop (Suc i) (pending_jobs q)"
  by (auto simp: DoOneJob_def TakeNextJob_def)

lemma DoOneJob_shorter:
  "i < length (pending_jobs q) \<Longrightarrow> length (pending_jobs (DoOneJob i q)) < length (pending_jobs q)"
  by (simp add: pending_DoOneJob)

text \<open>The loop of the destructor; \<open>first\<close> chooses the element \<open>begin()\<close> points to.\<close>

function FinishAllJobs :: "(('d \<times> nat) list \<Rightarrow> nat) \<Rightarrow> 'd compile_queue \<Rightarrow> 'd compile_queue" where
  "FinishAllJobs first q =
     (if pending_jobs q = [] then q
      else FinishAllJobs first
        (DoOneJob (first (pending_jobs q) mod length (pending_jobs q)) q))"
  by pat_completeness auto
termination
proof (relation "measure (\<lambda>(first, q). length (pending_jobs q))", goal_cases)
  case (2 first q)
  then show ?case
    using DoOneJob_shorter [of "first (pending_jobs q) mod length (pending_jobs q)" q] by simp
qed simp

declare FinishAllJobs.simps [simp del]

definition PipelineCompileQueue_destroy ::
  "(('d \<times> nat) list \<Rightarrow> nat) \<Rightarrow> 'd compile_queue \<Rightarrow> 'd compile_queue"
where
  "PipelineCompileQueue_destroy first q = (FinishAllJobs first q)\<lparr>alive := False\<rparr>"

datatype 'd queue_event =
    Post 'd bool | Post_Task | Start nat | Eager 'd | Invoke nat | Destroy

text \<open>
  The threads that post and perform jobs hold the queue, so nobody is inside an operation when it
  is destroyed.
\<close>

inductive cq_step :: "'d compile_queue \<Rightarrow> 'd queue_event \<Rightarrow> 'd compile_queue \<Rightarrow> bool" where
  cq_post: "alive q \<Longrightarrow> cq_step q (Post d null_job) (snd (PostJobForDescriptor d null_job q))"
| cq_post_task: "alive q \<Longrightarrow> 0 < posting q \<Longrightarrow> cq_step q Post_Task (PostJobForDescriptor_task q)"
| cq_start: "pending_jobs q = [] \<or> i < length (pending_jobs q) \<Longrightarrow>
    cq_step q (Start i) (worker_start i q)"
| cq_eager: "alive q \<Longrightarrow> cq_step q (Eager d) (PerformJobEagerly d q)"
| cq_invoke: "job \<in> set (held q) \<Longrightarrow> cq_step q (Invoke job) (invoke job q)"
| cq_destroy: "alive q \<Longrightarrow> posting q = 0 \<Longrightarrow>
    cq_step q Destroy (PipelineCompileQueue_destroy first q)"

inductive_cases cq_stepE: "cq_step q e q'"

subsection \<open>The invariant\<close>

definition posted_jobs :: "worker_task list \<Rightarrow> nat list" where
  "posted_jobs ts = concat (map (\<lambda>t. case t of Do_One \<Rightarrow> [] | Run_Job j \<Rightarrow> [j]) ts)"

definition wakeups :: "worker_task list \<Rightarrow> nat" where
  "wakeups ts = length (filter (\<lambda>t. t = Do_One) ts)"

lemma posted_jobs_simps [simp]:
  "posted_jobs [] = []" "posted_jobs (Do_One # ts) = posted_jobs ts"
  "posted_jobs (Run_Job j # ts) = j # posted_jobs ts"
  "posted_jobs (xs @ ys) = posted_jobs xs @ posted_jobs ys"
  by (simp_all add: posted_jobs_def)

lemma wakeups_simps [simp]:
  "wakeups [] = 0" "wakeups (Do_One # ts) = Suc (wakeups ts)" "wakeups (Run_Job j # ts) = wakeups ts"
  "wakeups (xs @ ys) = wakeups xs + wakeups ys"
  by (simp_all add: wakeups_def)

definition all_jobs :: "'d compile_queue \<Rightarrow> nat multiset" where
  "all_jobs q = mset (map snd (pending_jobs q)) + mset (posted_jobs (worker_tasks q)) +
     mset (held q) + mset (ran q)"

definition cq_inv :: "'d compile_queue \<Rightarrow> bool" where
  "cq_inv q \<longleftrightarrow> all_jobs q = mset [0 ..< accepted q] \<and> distinct (map fst (pending_jobs q)) \<and>
     (alive q \<longrightarrow> length (pending_jobs q) \<le> wakeups (worker_tasks q) + posting q) \<and>
     (\<not> alive q \<longrightarrow> pending_jobs q = [] \<and> posting q = 0)"

lemma mset_map_take_drop:
  "i < length xs \<Longrightarrow>
   add_mset (f (xs ! i)) (image_mset f (mset (take i xs)) + image_mset f (mset (drop (Suc i) xs))) =
   image_mset f (mset xs)"
  by (metis (no_types) add_mset_add_single image_mset_add_mset image_mset_union mset_append
      mset_take_drop)

lemma distinct_take_drop: "distinct (map f xs) \<Longrightarrow> distinct (map f (take i xs @ drop (Suc i) xs))"
  using set_take_disj_set_drop_if_distinct [of "map f xs" i "Suc i"]
  by (simp add: take_map [symmetric] drop_map [symmetric])

lemma cq_inv_post: "cq_inv q \<Longrightarrow> alive q \<Longrightarrow> cq_inv (snd (PostJobForDescriptor d b q))"
  by (auto simp: PostJobForDescriptor_def cq_inv_def all_jobs_def atLeast0_lessThan_Suc)

lemma cq_inv_post_task: "cq_inv q \<Longrightarrow> alive q \<Longrightarrow> 0 < posting q \<Longrightarrow> cq_inv (PostJobForDescriptor_task q)"
  by (simp add: PostJobForDescriptor_task_def cq_inv_def all_jobs_def)

text \<open>A thread that takes a job: it is pending before and held after.\<close>

lemma hold_take_next:
  assumes "i < length (pending_jobs q)"
  shows "hold (TakeNextJob i q) = q\<lparr>pending_jobs := take i (pending_jobs q) @ drop (Suc i) (pending_jobs q),
    held := held q @ [snd (pending_jobs q ! i)]\<rparr>"
  using assms by (auto simp: hold_def TakeNextJob_def)

lemma cq_inv_take_next:
  assumes "all_jobs q = J" "i < length (pending_jobs q)"
  shows "all_jobs (hold (TakeNextJob i q)) = J"
  using assms
  by (simp add: hold_take_next all_jobs_def mset_map_take_drop [OF assms(2), of snd, symmetric] ac_simps)

lemma cq_inv_start:
  assumes "cq_inv q" "pending_jobs q = [] \<or> i < length (pending_jobs q)"
  shows "cq_inv (worker_start i q)"
proof (cases "worker_tasks q")
  case Nil
  then show ?thesis using assms(1) by (simp add: worker_start_def)
next
  case (Cons t ts)
  show ?thesis
  proof (cases t)
    case (Run_Job j)
    then show ?thesis using assms(1) Cons by (simp add: worker_start_def cq_inv_def all_jobs_def)
  next
    case Do_One
    let ?q = "q\<lparr>worker_tasks := ts\<rparr>"
    show ?thesis
    proof (cases "alive q \<and> pending_jobs q \<noteq> []")
      case True
      then have i: "i < length (pending_jobs ?q)" using assms(2) by simp
      have w: "worker_start i q = hold (TakeNextJob i ?q)" using True Cons Do_One by (simp add: worker_start_def)
      have "all_jobs ?q = mset [0 ..< accepted q]"
        using assms(1) Cons Do_One by (simp add: cq_inv_def all_jobs_def)
      from cq_inv_take_next [OF this i] show ?thesis
        using assms(1) True i Cons Do_One distinct_take_drop [of fst "pending_jobs q" i]
        unfolding w hold_take_next [OF i] by (auto simp: cq_inv_def)
    next
      case False
      then show ?thesis using assms(1) Cons Do_One
        by (auto simp: worker_start_def cq_inv_def all_jobs_def hold_def TakeNextJob_def)
    qed
  qed
qed

lemma take_by_key:
  assumes "distinct (map fst xs)" "map_of xs d = Some j"
  shows "image_mset snd (mset xs) = add_mset j (image_mset snd (mset (filter (\<lambda>p. fst p \<noteq> d) xs)))"
  using assms
proof (induction xs)
  case (Cons x xs)
  have "filter (\<lambda>p. fst p \<noteq> d) xs = xs" if "d \<notin> fst ` set xs" for d
    using that by (auto simp: filter_id_conv)
  then show ?case using Cons by (cases x) (auto split: if_splits simp del: mset_filter)
qed simp

lemma cq_inv_eager: "cq_inv q \<Longrightarrow> alive q \<Longrightarrow> cq_inv (PerformJobEagerly d q)"
proof (cases "map_of (pending_jobs q) d")
  case (Some j)
  assume q: "cq_inv q" "alive q"
  have "length (filter (\<lambda>p. fst p \<noteq> d) (pending_jobs q)) \<le> length (pending_jobs q)"
    by (rule length_filter_le)
  then show ?thesis using q Some take_by_key [of "pending_jobs q" d j]
    by (auto simp: PerformJobEagerly_def TakeJob_def hold_def cq_inv_def all_jobs_def
        distinct_map_filter intro: order_trans [OF length_filter_le])
qed (simp add: PerformJobEagerly_def TakeJob_def hold_def)

lemma all_jobs_invoke: "j \<in> set (held q) \<Longrightarrow> all_jobs (invoke j q) = all_jobs q"
  using multi_member_split [of j "mset (held q)"] by (auto simp: invoke_def all_jobs_def)

lemma cq_inv_invoke: "cq_inv q \<Longrightarrow> j \<in> set (held q) \<Longrightarrow> cq_inv (invoke j q)"
  using all_jobs_invoke [of j q] unfolding cq_inv_def by (simp add: invoke_def)

lemma all_jobs_DoOneJob: "i < length (pending_jobs q) \<Longrightarrow> all_jobs (DoOneJob i q) = all_jobs q"
  using mset_map_take_drop [of i "pending_jobs q" snd]
  by (auto simp: DoOneJob_def TakeNextJob_def all_jobs_def ac_simps)

lemma DoOneJob_rest [simp]:
  "accepted (DoOneJob i q) = accepted q" "alive (DoOneJob i q) = alive q"
  "posting (DoOneJob i q) = posting q" "worker_tasks (DoOneJob i q) = worker_tasks q"
  "held (DoOneJob i q) = held q"
  by (auto simp: DoOneJob_def TakeNextJob_def)

lemma FinishAllJobs_effect:
  "pending_jobs (FinishAllJobs first q) = [] \<and> all_jobs (FinishAllJobs first q) = all_jobs q \<and>
   accepted (FinishAllJobs first q) = accepted q \<and> posting (FinishAllJobs first q) = posting q"
proof (induction first q rule: FinishAllJobs.induct)
  case (1 first q)
  show ?case
  proof (cases "pending_jobs q = []")
    case True
    then show ?thesis by (simp add: FinishAllJobs.simps)
  next
    case False
    then have "first (pending_jobs q) mod length (pending_jobs q) < length (pending_jobs q)" by simp
    from all_jobs_DoOneJob [OF this] 1 [OF False] False show ?thesis
      by (subst (1 2 3 4) FinishAllJobs.simps) simp
  qed
qed

lemma all_jobs_alive: "all_jobs (q\<lparr>alive := b\<rparr>) = all_jobs q"
  by (simp add: all_jobs_def)

lemma cq_inv_destroy:
  "cq_inv q \<Longrightarrow> posting q = 0 \<Longrightarrow> cq_inv (PipelineCompileQueue_destroy first q)"
  using FinishAllJobs_effect [of first q] all_jobs_alive [of False "FinishAllJobs first q"]
  unfolding cq_inv_def by (simp add: PipelineCompileQueue_destroy_def)

interpretation cq: transition_system "\<lambda>q. q = Create" cq_step cq_inv
proof
  show "q = Create \<Longrightarrow> cq_inv q" for q :: "'a compile_queue"
    by (simp add: Create_def cq_inv_def all_jobs_def)
  show "cq_inv q'" if "cq_inv q" "cq_step q e q'" for q q' :: "'a compile_queue" and e
    using that(2)
    by (cases rule: cq_step.cases) (use that(1) in \<open>auto intro: cq_inv_post cq_inv_post_task
        cq_inv_start cq_inv_eager cq_inv_invoke cq_inv_destroy\<close>)
qed

subsection \<open>Properties\<close>

text \<open>
  C21: Whatever the interleaving, a compile job runs at most once and only if it was accepted; when
  the tasks of the workers are used up no job is left behind in the live queue; and when in
  addition every job that was taken has been invoked, or the queue was destroyed and its last jobs
  were invoked, every accepted job has run exactly once.
\<close>

theorem compile_jobs_exactly_once:
  assumes "reachable_from (\<lambda>q. q = Create) cq_step q"
  shows "distinct (ran q) \<and> set (ran q) \<subseteq> {0 ..< accepted q} \<and>
    (worker_tasks q = [] \<and> posting q = 0 \<longrightarrow> pending_jobs q = []) \<and>
    (worker_tasks q = [] \<and> posting q = 0 \<and> held q = [] \<longrightarrow>
       mset (ran q) = mset [0 ..< accepted q])"
proof -
  have inv: "cq_inv q" by (rule cq.reachable_inv [OF assms])
  then have sub: "mset (ran q) \<subseteq># mset [0 ..< accepted q]"
    unfolding cq_inv_def all_jobs_def by (metis mset_subset_eq_add_right)
  then have "distinct (ran q)" by (rule submset_distinct) simp
  moreover have "set (ran q) \<subseteq> {0 ..< accepted q}"
    using set_mset_mono [OF sub] by simp
  moreover have "pending_jobs q = []" if "worker_tasks q = []" "posting q = 0"
    using inv that by (cases "alive q") (auto simp: cq_inv_def)
  ultimately show ?thesis using inv by (auto simp: cq_inv_def all_jobs_def)
qed

theorem compile_jobs_exactly_once_witness:
  "\<exists>q :: nat compile_queue. reachable_from (\<lambda>q. q = Create) cq_step q \<and> accepted q = 3 \<and>
     ran q = [0, 2, 1] \<and> mset (ran q) = mset [0 ..< accepted q]"
proof -
  let ?R = "reachable_from (\<lambda>q :: nat compile_queue. q = Create) cq_step"
  have "?R Create" by (rule reach_start) simp
  then have "?R (snd (PostJobForDescriptor 5 False Create))"
    by (rule reach_step) (rule cq_post, simp add: Create_def)
  then have "?R (snd (PostJobForDescriptor 5 False (snd (PostJobForDescriptor 5 False Create))))"
    by (rule reach_step) (rule cq_post, simp add: Create_def PostJobForDescriptor_def)
  then have "?R (snd (PostJobForDescriptor 6 False
      (snd (PostJobForDescriptor 5 False (snd (PostJobForDescriptor 5 False Create))))))"
    by (rule reach_step) (rule cq_post, simp add: Create_def PostJobForDescriptor_def)
  then have "?R \<lparr>pending_jobs = [(5, 0), (6, 2)], priorities_elevated = 0, worker_tasks = [Run_Job 1],
      posting = 2, held = [], ran = [], accepted = 3, alive = True\<rparr>"
    by (simp add: Create_def PostJobForDescriptor_def eval_nat_numeral)
  from reach_step [OF this cq_post_task] have "?R \<lparr>pending_jobs = [(5, 0), (6, 2)],
      priorities_elevated = 0, worker_tasks = [Run_Job 1, Do_One], posting = 1, held = [], ran = [],
      accepted = 3, alive = True\<rparr>"
    by (simp add: PostJobForDescriptor_task_def)
  from reach_step [OF this cq_post_task] have "?R \<lparr>pending_jobs = [(5, 0), (6, 2)],
      priorities_elevated = 0, worker_tasks = [Run_Job 1, Do_One, Do_One], posting = 0, held = [],
      ran = [], accepted = 3, alive = True\<rparr>"
    by (simp add: PostJobForDescriptor_task_def)
  from reach_step [OF this cq_destroy [where first = "\<lambda>_. 0"]]
  have "?R \<lparr>pending_jobs = [], priorities_elevated = 0, worker_tasks = [Run_Job 1, Do_One, Do_One],
      posting = 0, held = [], ran = [0, 2], accepted = 3, alive = False\<rparr>"
    by (simp add: PipelineCompileQueue_destroy_def FinishAllJobs.simps DoOneJob_def TakeNextJob_def)
  from reach_step [OF this cq_start [of _ 0]]
  have "?R \<lparr>pending_jobs = [], priorities_elevated = 0, worker_tasks = [Do_One, Do_One],
      posting = 0, held = [1], ran = [0, 2], accepted = 3, alive = False\<rparr>"
    by (simp add: worker_start_def)
  from reach_step [OF this cq_start [of _ 0]]
  have "?R \<lparr>pending_jobs = [], priorities_elevated = 0, worker_tasks = [Do_One],
      posting = 0, held = [1], ran = [0, 2], accepted = 3, alive = False\<rparr>"
    by (simp add: worker_start_def)
  from reach_step [OF this cq_start [of _ 0]]
  have "?R \<lparr>pending_jobs = [], priorities_elevated = 0, worker_tasks = [],
      posting = 0, held = [1], ran = [0, 2], accepted = 3, alive = False\<rparr>"
    by (simp add: worker_start_def)
  from reach_step [OF this cq_invoke [of 1]]
  have r: "?R \<lparr>pending_jobs = [], priorities_elevated = 0, worker_tasks = [],
      posting = 0, held = [], ran = [0, 2, 1], accepted = 3, alive = False\<rparr>"
    by (simp add: invoke_def)
  from compile_jobs_exactly_once [OF r] r show ?thesis
    by (intro exI conjI) (assumption, simp_all)
qed

end
