(* ===== verification/Resource_Manager.thy ===== *)
theory Resource_Manager
  imports Prelude
begin

text \<open>
  Resources whose destructors run on a thread of their own: \<^verbatim>\<open>src/hal/resource_manager_vk.{h,cc}\<close>.

  The state has the handles (\<open>UniqueResourceVKT\<close>) and the manager they refer to weakly. A resource is
  named by the number of resources created before it. The steps are the critical sections of the
  manager and the destruction of a single resource.
\<close>

datatype manager_pc =
    Waiting
  | Collecting "nat list" bool    \<comment> \<open>resources to collect, and whether the thread leaves after them\<close>
  | Thread_Done

record resource_manager =
  handles :: "nat option list"
  created :: nat
  reclaimables :: "nat list"
  should_exit :: bool
  rm_pc :: manager_pc
  destroyed :: "nat list"         \<comment> \<open>resources whose destructor ran\<close>
  manager_alive :: bool

subsection \<open>Operations\<close>

definition ResourceManager :: resource_manager where
  "ResourceManager = \<lparr>handles = [], created = 0, reclaimables = [], should_exit = False,
     rm_pc = Waiting, destroyed = [], manager_alive = True\<rparr>"

definition Reclaim :: "nat option \<Rightarrow> resource_manager \<Rightarrow> resource_manager" where
  "Reclaim resource s =
     (case resource of None \<Rightarrow> s | Some r \<Rightarrow> s\<lparr>reclaimables := reclaimables s @ [r]\<rparr>)"

text \<open>The wait and the swap under the lock; with nothing to do the thread goes on waiting.\<close>

definition Start_wake :: "resource_manager \<Rightarrow> resource_manager" where
  "Start_wake s =
     (if reclaimables s = [] \<and> \<not> should_exit s then s
      else s\<lparr>reclaimables := [], rm_pc := Collecting (reclaimables s) (should_exit s)\<rparr>)"

definition Start_collect :: "nat list \<Rightarrow> bool \<Rightarrow> resource_manager \<Rightarrow> resource_manager" where
  "Start_collect rs leave s =
     (case rs of
        [] \<Rightarrow> s\<lparr>rm_pc := if leave then Thread_Done else Waiting\<rparr>
      | r # rs' \<Rightarrow> s\<lparr>destroyed := destroyed s @ [r], rm_pc := Collecting rs' leave\<rparr>)"

definition manager_step :: "resource_manager \<Rightarrow> resource_manager" where
  "manager_step s =
     (case rm_pc s of
        Waiting \<Rightarrow> Start_wake s
      | Collecting rs leave \<Rightarrow> Start_collect rs leave s
      | Thread_Done \<Rightarrow> s)"

definition Terminate :: "resource_manager \<Rightarrow> resource_manager result" where
  "Terminate s = rbind (guard Dcheck_Failed (\<not> should_exit s)) (\<lambda>_. Inr (s\<lparr>should_exit := True\<rparr>))"

text \<open>
  The destructor of the manager: its first part, when no strong reference is left, and the join
  with the destruction of the members. The last reference may be dropped by the destructor of a
  resource, that is, on the thread of the manager itself, which could not join with itself: the
  check in the destructor rules that out.
\<close>

definition manager_destroy_begin :: "bool \<Rightarrow> resource_manager \<Rightarrow> resource_manager result" where
  "manager_destroy_begin on_waiter s =
     rbind (guard Dcheck_Failed (\<not> on_waiter)) (\<lambda>_. Terminate (s\<lparr>manager_alive := False\<rparr>))"

definition manager_destroy_join :: "resource_manager \<Rightarrow> resource_manager" where
  "manager_destroy_join s =
     s\<lparr>destroyed := destroyed s @ reclaimables s, reclaimables := []\<rparr>"

text \<open>Handles.\<close>

definition UniqueResourceVKT :: "bool \<Rightarrow> resource_manager \<Rightarrow> resource_manager" where
  "UniqueResourceVKT with_resource s =
     (if with_resource
      then s\<lparr>handles := handles s @ [Some (created s)], created := Suc (created s)\<rparr>
      else s\<lparr>handles := handles s @ [None]\<rparr>)"

definition handle_Get :: "nat \<Rightarrow> resource_manager \<Rightarrow> nat result" where
  "handle_Get h s = of_option Check_Failed (handles s ! h)"

definition handle_Reset :: "nat \<Rightarrow> resource_manager \<Rightarrow> resource_manager" where
  "handle_Reset h s =
     (case handles s ! h of
        None \<Rightarrow> s
      | Some r \<Rightarrow>
          if manager_alive s then Reclaim (Some r) (s\<lparr>handles := (handles s)[h := None]\<rparr>)
          else s\<lparr>handles := (handles s)[h := None], destroyed := destroyed s @ [r]\<rparr>)"

definition handle_Swap :: "nat \<Rightarrow> resource_manager \<Rightarrow> resource_manager" where
  "handle_Swap h s =
     (let s' = handle_Reset h s
      in s'\<lparr>handles := (handles s')[h := Some (created s')], created := Suc (created s')\<rparr>)"

datatype resource_event =
    New_Handle bool | Reset_Handle nat | Swap_Handle nat | Manager_Runs | Destroy_Begin bool | Destroy_Join

inductive rm_step :: "resource_manager \<Rightarrow> resource_event \<Rightarrow> resource_manager \<Rightarrow> bool" where
  rm_new: "rm_step s (New_Handle b) (UniqueResourceVKT b s)"
| rm_reset: "h < length (handles s) \<Longrightarrow> rm_step s (Reset_Handle h) (handle_Reset h s)"
| rm_swap: "h < length (handles s) \<Longrightarrow> rm_step s (Swap_Handle h) (handle_Swap h s)"
| rm_run: "rm_step s Manager_Runs (manager_step s)"
| rm_destroy: "manager_alive s \<Longrightarrow> manager_destroy_begin on_waiter s = Inr s' \<Longrightarrow>
    rm_step s (Destroy_Begin on_waiter) s'"
| rm_join: "\<not> manager_alive s \<Longrightarrow> rm_pc s = Thread_Done \<Longrightarrow>
    rm_step s Destroy_Join (manager_destroy_join s)"

inductive_cases rm_stepE: "rm_step s e t"

subsection \<open>The invariant\<close>

definition collecting :: "resource_manager \<Rightarrow> nat list" where
  "collecting s = (case rm_pc s of Collecting rs _ \<Rightarrow> rs | _ \<Rightarrow> [])"

definition in_handles :: "nat option list \<Rightarrow> nat multiset" where
  "in_handles hs = mset (concat (map (\<lambda>h. case h of None \<Rightarrow> [] | Some r \<Rightarrow> [r]) hs))"

definition rm_inv :: "resource_manager \<Rightarrow> bool" where
  "rm_inv s \<longleftrightarrow>
     in_handles (handles s) + mset (reclaimables s) + mset (collecting s) + mset (destroyed s) =
       mset_set {0 ..< created s} \<and>
     (should_exit s \<longleftrightarrow> \<not> manager_alive s) \<and>
     (rm_pc s = Thread_Done \<longrightarrow> should_exit s \<and> reclaimables s = []) \<and>
     (\<forall>rs. rm_pc s = Collecting rs True \<longrightarrow> should_exit s \<and> reclaimables s = [])"

lemma in_handles_simps [simp]:
  "in_handles [] = {#}" "in_handles (None # hs) = in_handles hs"
  "in_handles (Some r # hs) = add_mset r (in_handles hs)"
  "in_handles (xs @ ys) = in_handles xs + in_handles ys"
  by (simp_all add: in_handles_def)

lemma in_handles_update:
  "h < length hs \<Longrightarrow> in_handles hs = (case hs ! h of None \<Rightarrow> {#} | Some r \<Rightarrow> {#r#}) +
     in_handles (hs[h := None])"
proof (induction hs arbitrary: h)
  case (Cons x hs)
  then show ?case by (cases h; cases x) (auto split: option.splits)
qed simp

lemma in_handles_put:
  "h < length hs \<Longrightarrow> hs ! h = None \<Longrightarrow> in_handles (hs[h := Some r]) = add_mset r (in_handles hs)"
proof (induction hs arbitrary: h)
  case (Cons x hs)
  then show ?case by (cases h; cases x) auto
qed simp

lemma collecting_pc [simp]:
  "rm_pc s = Waiting \<Longrightarrow> collecting s = []" "rm_pc s = Collecting rs b \<Longrightarrow> collecting s = rs"
  "rm_pc s = Thread_Done \<Longrightarrow> collecting s = []"
  by (simp_all add: collecting_def)

lemma rm_inv_reset:
  assumes "rm_inv s" "h < length (handles s)"
  shows "rm_inv (handle_Reset h s) \<and> handles (handle_Reset h s) ! h = None \<and>
    length (handles (handle_Reset h s)) = length (handles s)"
proof (cases "handles s ! h")
  case (Some r)
  then have "in_handles (handles s) = add_mset r (in_handles ((handles s)[h := None]))"
    using in_handles_update [OF assms(2)] by simp
  then show ?thesis using assms Some
    by (auto simp: handle_Reset_def Reclaim_def rm_inv_def collecting_def)
qed (use assms in \<open>simp add: handle_Reset_def\<close>)

lemma rm_inv_swap:
  assumes "rm_inv s" "h < length (handles s)"
  shows "rm_inv (handle_Swap h s)"
  using rm_inv_reset [OF assms] in_handles_put [of h "handles (handle_Reset h s)"] assms(2)
  by (auto simp: handle_Swap_def Let_def rm_inv_def collecting_def atLeast0_lessThan_Suc)

lemma rm_inv_new: "rm_inv s \<Longrightarrow> rm_inv (UniqueResourceVKT b s)"
  by (auto simp: UniqueResourceVKT_def rm_inv_def collecting_def atLeast0_lessThan_Suc)

lemma rm_inv_run: "rm_inv s \<Longrightarrow> rm_inv (manager_step s)"
  by (cases "rm_pc s")
    (auto simp: manager_step_def Start_wake_def Start_collect_def rm_inv_def collecting_def
      split: list.splits)

lemma rm_inv_destroy: "rm_inv s \<Longrightarrow> manager_destroy_begin on_waiter s = Inr s' \<Longrightarrow> rm_inv s'"
  by (auto simp: manager_destroy_begin_def Terminate_def rm_inv_def collecting_def result_simps)

lemma rm_inv_join: "rm_inv s \<Longrightarrow> rm_pc s = Thread_Done \<Longrightarrow> rm_inv (manager_destroy_join s)"
  by (auto simp: manager_destroy_join_def rm_inv_def collecting_def)

interpretation rm: transition_system "\<lambda>s. s = ResourceManager" rm_step rm_inv
proof
  show "s = ResourceManager \<Longrightarrow> rm_inv s" for s
    by (simp add: ResourceManager_def rm_inv_def collecting_def)
  show "rm_inv t" if "rm_inv s" "rm_step s e t" for s e t
    using that(2)
    by (cases rule: rm_step.cases) (use that(1) in \<open>auto intro: rm_inv_new rm_inv_swap rm_inv_run
        rm_inv_destroy rm_inv_join simp: rm_inv_reset\<close>)
qed

text \<open>On any thread but its own the destructor never finds the manager terminated.\<close>

lemma destroy_never_aborts:
  "reachable_from (\<lambda>s. s = ResourceManager) rm_step s \<Longrightarrow> manager_alive s \<Longrightarrow>
   \<exists>s'. manager_destroy_begin False s = Inr s'"
  using rm.reachable_inv [of s] by (simp add: rm_inv_def manager_destroy_begin_def Terminate_def)

text \<open>Once it was told to leave, the thread reaches its end.\<close>

lemma collects_all:
  "rm_pc s = Collecting rs b \<Longrightarrow> (manager_step ^^ Suc (length rs)) s =
     s\<lparr>destroyed := destroyed s @ rs, rm_pc := if b then Thread_Done else Waiting\<rparr>"
proof (induction rs arbitrary: s)
  case Nil
  then show ?case by (simp add: manager_step_def Start_collect_def)
next
  case (Cons r rs)
  let ?s = "s\<lparr>destroyed := destroyed s @ [r], rm_pc := Collecting rs b\<rparr>"
  have "(manager_step ^^ Suc (length (r # rs))) s = (manager_step ^^ Suc (length rs)) (manager_step s)"
    by (simp add: funpow_swap1)
  also have "manager_step s = ?s" using Cons.prems by (simp add: manager_step_def Start_collect_def)
  also have "(manager_step ^^ Suc (length rs)) ?s =
      ?s\<lparr>destroyed := destroyed ?s @ rs, rm_pc := if b then Thread_Done else Waiting\<rparr>"
    by (rule Cons.IH) simp
  finally show ?case by simp
qed

lemma wake_done:
  assumes "rm_pc s = Waiting" "should_exit s"
  shows "(manager_step ^^ Suc (Suc (length (reclaimables s)))) s =
    s\<lparr>reclaimables := [], destroyed := destroyed s @ reclaimables s, rm_pc := Thread_Done\<rparr>"
proof -
  let ?s = "s\<lparr>reclaimables := [], rm_pc := Collecting (reclaimables s) True\<rparr>"
  have "(manager_step ^^ Suc (Suc (length (reclaimables s)))) s =
      (manager_step ^^ Suc (length (reclaimables s))) (manager_step s)"
    by (simp only: funpow_Suc_right o_apply)
  also have "manager_step s = ?s" using assms by (simp add: manager_step_def Start_wake_def)
  also have "(manager_step ^^ Suc (length (reclaimables s))) ?s =
      ?s\<lparr>destroyed := destroyed ?s @ reclaimables s, rm_pc := if True then Thread_Done else Waiting\<rparr>"
    by (rule collects_all) simp
  finally show ?thesis by simp
qed

lemma thread_leaves:
  assumes "should_exit s"
  shows "\<exists>n. rm_pc ((manager_step ^^ n) s) = Thread_Done"
proof (cases "rm_pc s")
  case Waiting
  then show ?thesis using wake_done [OF Waiting assms] by (metis (no_types, lifting) resource_manager.select_convs(5)
    resource_manager.surjective resource_manager.update_convs(3,5,6))
next
  case (Collecting rs b)
  note fin = collects_all [OF Collecting]
  show ?thesis
  proof (cases b)
    case True
    then show ?thesis using fin by (intro exI [of _ "Suc (length rs)"]) simp
  next
    case False
    let ?t = "(manager_step ^^ Suc (length rs)) s"
    have "rm_pc ?t = Waiting" "should_exit ?t" using fin False assms by simp_all
    then have "rm_pc ((manager_step ^^ Suc (Suc (length (reclaimables ?t)))) ?t) = Thread_Done"
      using wake_done [of ?t] by simp
    then show ?thesis by (metis funpow_add o_apply)
  qed
next
  case Thread_Done
  then show ?thesis by (intro exI [of _ 0]) simp
qed

subsection \<open>Properties\<close>

text \<open>
  C22: In every reachable state the resources are those in handles, those waiting or being
  collected and those destroyed, each in one place only, so none is destroyed twice. The destructor
  of the manager succeeds on every thread but the manager's own, where its check fails; it makes the
  thread leave, and then every resource that is not in a handle has been destroyed.
\<close>

theorem resources_destroyed_once:
  assumes "reachable_from (\<lambda>s. s = ResourceManager) rm_step s"
  shows "distinct (destroyed s) \<and>
    set (destroyed s) \<subseteq> {0 ..< created s} - {r. Some r \<in> set (handles s)} \<and>
    (manager_alive s \<longrightarrow>
       manager_destroy_begin True s = Inl Dcheck_Failed \<and>
       (\<exists>s' n. manager_destroy_begin False s = Inr s' \<and>
          should_exit s' \<and> rm_pc ((manager_step ^^ n) s') = Thread_Done)) \<and>
    (rm_pc s = Thread_Done \<longrightarrow> set (destroyed s) = {0 ..< created s} - {r. Some r \<in> set (handles s)})"
proof -
  have inv: "rm_inv s" by (rule rm.reachable_inv [OF assms])
  let ?h = "in_handles (handles s)"
  have all: "?h + mset (reclaimables s) + mset (collecting s) + mset (destroyed s) =
      mset [0 ..< created s]"
    using inv by (simp add: rm_inv_def)
  have seth: "set_mset ?h = {r. Some r \<in> set (handles s)}"
    by (auto simp: in_handles_def split: option.splits)
  have one: "count (mset [0 ..< created s]) a \<le> 1" for a
    by (cases "a < created s") simp_all
  have sub: "mset (destroyed s) \<subseteq># mset [0 ..< created s]" using all by (metis mset_subset_eq_add_right)
  have "distinct (destroyed s)" by (rule submset_distinct [OF sub]) simp
  moreover have "set (destroyed s) \<subseteq> {0 ..< created s}" using set_mset_mono [OF sub] by simp
  moreover have "r \<notin># ?h" if "r \<in> set (destroyed s)" for r
  proof
    assume "r \<in># ?h"
    then have "2 \<le> count (?h + mset (reclaimables s) + mset (collecting s) + mset (destroyed s)) r"
      using that by (simp add: Suc_le_eq flip: count_greater_zero_iff set_mset_mset)
    then show False using one [of r] all by simp
  qed
  moreover have "\<exists>s' n. manager_destroy_begin False s = Inr s' \<and>
      should_exit s' \<and> rm_pc ((manager_step ^^ n) s') = Thread_Done"
    if a: "manager_alive s"
  proof -
    obtain s' where s': "manager_destroy_begin False s = Inr s'" using destroy_never_aborts [OF assms a] ..
    then have "should_exit s'"
      by (auto simp: manager_destroy_begin_def Terminate_def result_simps)
    then show ?thesis using s' thread_leaves by blast
  qed
  moreover have "set (destroyed s) = {0 ..< created s} - {r. Some r \<in> set (handles s)}"
    if "rm_pc s = Thread_Done"
  proof -
    have "reclaimables s = []" "collecting s = []" using inv that by (auto simp: rm_inv_def)
    then have "set_mset (?h + mset (destroyed s)) = {0 ..< created s}" using all by simp
    then show ?thesis using calculation(3) seth by auto
  qed
  moreover have "manager_destroy_begin True s = Inl Dcheck_Failed" by (simp add: manager_destroy_begin_def)
  ultimately show ?thesis using seth by blast
qed

theorem resources_destroyed_once_witness:
  "\<exists>s. reachable_from (\<lambda>s. s = ResourceManager) rm_step s \<and> rm_pc s = Thread_Done \<and>
     created s = 2 \<and> handles s = [Some 1] \<and>
     set (destroyed s) = {0 ..< created s} - {r. Some r \<in> set (handles s)}"
proof -
  let ?R = "reachable_from (\<lambda>s. s = ResourceManager) rm_step"
  have "?R ResourceManager" by (rule reach_start) simp
  from reach_step [OF this rm_new [of _ True]]
  have "?R \<lparr>handles = [Some 0], created = 1, reclaimables = [], should_exit = False,
      rm_pc = Waiting, destroyed = [], manager_alive = True\<rparr>"
    by (simp add: ResourceManager_def UniqueResourceVKT_def)
  from reach_step [OF this rm_swap [of 0]]
  have "?R \<lparr>handles = [Some 1], created = 2, reclaimables = [0], should_exit = False,
      rm_pc = Waiting, destroyed = [], manager_alive = True\<rparr>"
    by (simp add: handle_Swap_def handle_Reset_def Reclaim_def numeral_2_eq_2)
  from reach_step [OF this rm_destroy [of _ False]]
  have "?R \<lparr>handles = [Some 1], created = 2, reclaimables = [0], should_exit = True,
      rm_pc = Waiting, destroyed = [], manager_alive = False\<rparr>"
    by (simp add: manager_destroy_begin_def Terminate_def)
  from reach_step [OF this rm_run]
  have "?R \<lparr>handles = [Some 1], created = 2, reclaimables = [], should_exit = True,
      rm_pc = Collecting [0] True, destroyed = [], manager_alive = False\<rparr>"
    by (simp add: manager_step_def Start_wake_def)
  from reach_step [OF this rm_run]
  have "?R \<lparr>handles = [Some 1], created = 2, reclaimables = [], should_exit = True,
      rm_pc = Collecting [] True, destroyed = [0], manager_alive = False\<rparr>"
    by (simp add: manager_step_def Start_collect_def)
  from reach_step [OF this rm_run]
  have r: "?R \<lparr>handles = [Some 1], created = 2, reclaimables = [], should_exit = True,
      rm_pc = Thread_Done, destroyed = [0], manager_alive = False\<rparr>"
    by (simp add: manager_step_def Start_collect_def)
  from resources_destroyed_once [OF r] r show ?thesis by (intro exI conjI) (assumption, simp_all)
qed

end
