(* ===== verification/Descriptor_Pool.thy ===== *)
theory Descriptor_Pool
  imports Prelude
begin

text \<open>
  Descriptor pools and their recycler: \<^verbatim>\<open>src/hal/descriptor_pool_vk.{h,cc}\<close>.

  A descriptor set is its handle, 0 being the null handle; a device pool is its handle as well. The
  hash map from pipeline keys to caches is an association list. The answers of the device are
  parameters of the operations.
\<close>

subsection \<open>Data\<close>

record descriptor_cache =
  unused :: "nat list"
  used :: "nat list"

type_synonym 'k cache_map = "('k \<times> descriptor_cache) list"

record 'k descriptor_pool =
  descriptor_sets :: "'k cache_map"
  pools :: "nat list"

record descriptor_pool_size =
  buffer_bindings :: nat
  texture_bindings :: nat
  storage_bindings :: nat
  subpass_bindings :: nat

definition kDefaultBindingSize :: descriptor_pool_size where
  "kDefaultBindingSize = \<lparr>buffer_bindings = 512, texture_bindings = 256, storage_bindings = 32,
     subpass_bindings = 4\<rparr>"

datatype allocation_answer = eSuccess nat | eErrorOutOfPoolMemory | eErrorOther

fun put_cache :: "'k \<Rightarrow> descriptor_cache \<Rightarrow> 'k cache_map \<Rightarrow> 'k cache_map" where
  "put_cache k c [] = [(k, c)]"
| "put_cache k c (p # m) = (if fst p = k then (k, c) # m else p # put_cache k c m)"

definition DescriptorCache :: descriptor_cache where
  "DescriptorCache = \<lparr>unused = [], used = []\<rparr>"

subsection \<open>The pool\<close>

definition DescriptorPool :: "'k descriptor_pool" where
  "DescriptorPool = \<lparr>descriptor_sets = [], pools = []\<rparr>"

definition DescriptorPool_of :: "'k cache_map \<Rightarrow> nat list \<Rightarrow> 'k descriptor_pool" where
  "DescriptorPool_of sets ps = \<lparr>descriptor_sets = sets, pools = ps\<rparr>"

definition Destroy :: "'k descriptor_pool \<Rightarrow> 'k descriptor_pool" where
  "Destroy p = p\<lparr>pools := []\<rparr>"

text \<open>
  The pool the recycler gives: none when the context is gone or the device refuses. Next to it what
  the device is asked for.
\<close>

definition recycler_Create :: "bool \<Rightarrow> nat option \<Rightarrow> nat option" where
  "recycler_Create context_alive device = (if \<not> context_alive then None else device)"

definition pool_create_info :: "nat \<times> (string \<times> nat) list" where
  "pool_create_info =
     (texture_bindings kDefaultBindingSize + buffer_bindings kDefaultBindingSize +
        storage_bindings kDefaultBindingSize + subpass_bindings kDefaultBindingSize,
      [(''CombinedImageSampler'', texture_bindings kDefaultBindingSize),
       (''UniformBuffer'', buffer_bindings kDefaultBindingSize),
       (''StorageBuffer'', storage_bindings kDefaultBindingSize),
       (''InputAttachment'', subpass_bindings kDefaultBindingSize)])"

definition recycler_Get :: "bool \<Rightarrow> nat option \<Rightarrow> nat option" where
  "recycler_Get context_alive device = recycler_Create context_alive device"

definition CreateNewPool :: "nat option \<Rightarrow> 'k descriptor_pool \<Rightarrow> bool \<times> 'k descriptor_pool" where
  "CreateNewPool new_pool p =
     (case new_pool of None \<Rightarrow> (False, p) | Some x \<Rightarrow> (True, p\<lparr>pools := pools p @ [x]\<rparr>))"

definition record_used :: "'k \<Rightarrow> nat \<Rightarrow> 'k descriptor_pool \<Rightarrow> 'k descriptor_pool" where
  "record_used key s p =
     (let c = (case map_of (descriptor_sets p) key of Some c \<Rightarrow> c | None \<Rightarrow> DescriptorCache)
      in p\<lparr>descriptor_sets := put_cache key (c\<lparr>used := used c @ [s]\<rparr>) (descriptor_sets p)\<rparr>)"

text \<open>
  \<open>first\<close> and \<open>again\<close> are the answers to the two allocations, \<open>pool1\<close> and \<open>pool2\<close> the pools the
  recycler would give. The result of creating a pool is not looked at.
\<close>

definition allocate_new ::
  "'k \<Rightarrow> allocation_answer \<Rightarrow> nat option \<Rightarrow> allocation_answer \<Rightarrow> 'k descriptor_pool \<Rightarrow>
   (nat option \<times> 'k descriptor_pool) result"
where
  "allocate_new key first pool2 again p =
     rbind (guard Undefined_Behaviour (pools p \<noteq> [])) (\<lambda>_.
       let (answer, p2) =
             (if first = eErrorOutOfPoolMemory then (again, snd (CreateNewPool pool2 p)) else (first, p));
           s = (case answer of eSuccess s \<Rightarrow> s | _ \<Rightarrow> 0);
           p3 = record_used key s p2
       in case answer of eSuccess s \<Rightarrow> Inr (Some s, p3) | _ \<Rightarrow> Inr (None, p3))"

definition AllocateDescriptorSets ::
  "'k \<Rightarrow> nat option \<Rightarrow> allocation_answer \<Rightarrow> nat option \<Rightarrow> allocation_answer \<Rightarrow> 'k descriptor_pool \<Rightarrow>
   (nat option \<times> 'k descriptor_pool) result"
where
  "AllocateDescriptorSets key pool1 first pool2 again p =
     (case map_of (descriptor_sets p) key of
        Some c \<Rightarrow>
          if unused c \<noteq> []
          then Inr (Some (last (unused c)),
            p\<lparr>descriptor_sets := put_cache key
                (c\<lparr>unused := butlast (unused c), used := used c @ [last (unused c)]\<rparr>) (descriptor_sets p)\<rparr>)
          else allocate_new key first pool2 again
                 (if pools p = [] then snd (CreateNewPool pool1 p) else p)
      | None \<Rightarrow> allocate_new key first pool2 again
                 (if pools p = [] then snd (CreateNewPool pool1 p) else p))"

subsection \<open>The recycler\<close>

definition kMaxRecycledPools :: nat where "kMaxRecycledPools = 32"

definition all_unused :: "descriptor_cache \<Rightarrow> descriptor_cache" where
  "all_unused c = \<lparr>unused = unused c @ used c, used = []\<rparr>"

text \<open>The loop that drops the newest entries: they are destroyed first.\<close>

function drop_newest :: "'k descriptor_pool list \<Rightarrow> 'k descriptor_pool list" where
  "drop_newest recycled =
     (if kMaxRecycledPools \<le> length recycled then drop_newest (butlast recycled) else recycled)"
  by pat_completeness auto
termination
  by (relation "measure length") (auto simp: kMaxRecycledPools_def)

declare drop_newest.simps [simp del]

definition Reclaim ::
  "bool \<Rightarrow> 'k cache_map \<Rightarrow> nat list \<Rightarrow> 'k descriptor_pool list \<Rightarrow> 'k descriptor_pool list"
where
  "Reclaim context_alive sets ps recycled =
     (if \<not> context_alive then recycled
      else drop_newest recycled @ [DescriptorPool_of (map (\<lambda>(k, c). (k, all_unused c)) sets) ps])"

definition GetDescriptorPool ::
  "'k descriptor_pool list \<Rightarrow> 'k descriptor_pool \<times> 'k descriptor_pool list"
where
  "GetDescriptorPool recycled =
     (if recycled \<noteq> [] then (last recycled, butlast recycled) else (DescriptorPool, []))"

text \<open>The destructor of a pool.\<close>

definition DescriptorPool_destroy ::
  "bool \<Rightarrow> 'k descriptor_pool \<Rightarrow> 'k descriptor_pool list \<Rightarrow> 'k descriptor_pool list"
where
  "DescriptorPool_destroy context_alive p recycled =
     (if pools p = [] then recycled
      else if \<not> context_alive then recycled
      else Reclaim context_alive (descriptor_sets p) (pools p) recycled)"

subsection \<open>Pools in use and recycled\<close>

definition pool_unused :: "'k descriptor_pool \<Rightarrow> nat list" where
  "pool_unused p = concat (map (unused \<circ> snd) (descriptor_sets p))"

definition pool_used :: "'k descriptor_pool \<Rightarrow> nat list" where
  "pool_used p = concat (map (used \<circ> snd) (descriptor_sets p))"

record 'k pool_system =
  live :: "'k descriptor_pool list"
  recycled :: "'k descriptor_pool list"
  failures :: nat                          \<comment> \<open>allocations that failed\<close>

definition start_system :: "'k pool_system" where
  "start_system = \<lparr>live = [], recycled = [], failures = 0\<rparr>"

definition all_sets :: "'k descriptor_pool list \<Rightarrow> nat list" where
  "all_sets ps = concat (map (\<lambda>p. pool_unused p @ pool_used p) ps)"

text \<open>
  What the device promises: a set it hands out is not null and is not one of the sets that are
  allocated.
\<close>

definition fresh_answer :: "allocation_answer \<Rightarrow> 'k pool_system \<Rightarrow> bool" where
  "fresh_answer a s =
     (case a of eSuccess x \<Rightarrow> x \<noteq> 0 \<and> x \<notin> set (all_sets (live s)) \<union> set (all_sets (recycled s)) | _ \<Rightarrow> True)"

datatype 'k pool_event =
    Get_Pool | Allocate nat 'k "nat option" allocation_answer "nat option" allocation_answer | Drop nat bool

inductive dp_step :: "'k pool_system \<Rightarrow> 'k pool_event \<Rightarrow> 'k pool_system \<Rightarrow> bool" where
  dp_get: "GetDescriptorPool (recycled s) = (p, ps) \<Longrightarrow>
    dp_step s Get_Pool (s\<lparr>live := live s @ [p], recycled := ps\<rparr>)"
| dp_allocate: "i < length (live s) \<Longrightarrow> fresh_answer first s \<Longrightarrow> fresh_answer again s \<Longrightarrow>
    AllocateDescriptorSets key pool1 first pool2 again (live s ! i) = Inr (r, p) \<Longrightarrow>
    dp_step s (Allocate i key pool1 first pool2 again)
      (s\<lparr>live := (live s)[i := p], failures := failures s + (if r = None then 1 else 0)\<rparr>)"
| dp_drop: "i < length (live s) \<Longrightarrow>
    dp_step s (Drop i context_alive)
      (s\<lparr>live := take i (live s) @ drop (Suc i) (live s),
         recycled := DescriptorPool_destroy context_alive (live s ! i) (recycled s)\<rparr>)"

inductive_cases dp_stepE: "dp_step s e t"

subsection \<open>Bags of sets\<close>

definition sets_of :: "'k descriptor_pool \<Rightarrow> nat multiset" where
  "sets_of p = mset (pool_unused p) + mset (pool_used p)"

definition total :: "'k pool_system \<Rightarrow> nat multiset" where
  "total s = mset (all_sets (live s)) + mset (all_sets (recycled s))"

lemma put_cache_bag:
  "mset (concat (map (f \<circ> snd) (put_cache k c m))) +
     mset (case map_of m k of None \<Rightarrow> [] | Some c0 \<Rightarrow> f c0) =
   mset (concat (map (f \<circ> snd) m)) + mset (f c)"
  by (induction m) (auto simp: ac_simps split: option.splits)

lemma all_sets_simps [simp]:
  "all_sets [] = []" "mset (all_sets (p # ps)) = sets_of p + mset (all_sets ps)"
  "mset (all_sets (xs @ ys)) = mset (all_sets xs) + mset (all_sets ys)"
  by (simp_all add: all_sets_def sets_of_def)

lemma all_sets_update:
  "i < length ps \<Longrightarrow>
   mset (all_sets (ps[i := p])) + sets_of (ps ! i) = mset (all_sets ps) + sets_of p"
proof (induction ps arbitrary: i)
  case (Cons x ps)
  then show ?case by (cases i) (simp_all add: ac_simps)
qed simp

lemma all_sets_remove:
  "i < length ps \<Longrightarrow>
   mset (all_sets (take i ps @ drop (Suc i) ps)) + sets_of (ps ! i) = mset (all_sets ps)"
proof (induction ps arbitrary: i)
  case (Cons x ps)
  then show ?case by (cases i) (simp_all add: ac_simps)
qed simp

lemma all_sets_nth: "i < length ps \<Longrightarrow> sets_of (ps ! i) \<subseteq># mset (all_sets ps)"
  by (metis all_sets_remove mset_subset_eq_add_right)

definition bag_at :: "'k \<Rightarrow> 'k descriptor_pool \<Rightarrow> nat multiset" where
  "bag_at key p = (case map_of (descriptor_sets p) key of None \<Rightarrow> {#}
     | Some d \<Rightarrow> mset (unused d) + mset (used d))"

lemma put_cache_pool:
  assumes "mset (unused c) + mset (used c) = A + bag_at key p"
  shows "sets_of (p\<lparr>descriptor_sets := put_cache key c (descriptor_sets p)\<rparr>) = A + sets_of p"
proof -
  let ?p = "p\<lparr>descriptor_sets := put_cache key c (descriptor_sets p)\<rparr>"
  let ?at = "\<lambda>f. mset (case map_of (descriptor_sets p) key of None \<Rightarrow> [] | Some c0 \<Rightarrow> f c0)"
  have u: "mset (pool_unused ?p) + ?at unused = mset (pool_unused p) + mset (unused c)"
    unfolding pool_unused_def using put_cache_bag [of unused key c "descriptor_sets p"] by simp
  have d: "mset (pool_used ?p) + ?at used = mset (pool_used p) + mset (used c)"
    unfolding pool_used_def using put_cache_bag [of used key c "descriptor_sets p"] by simp
  have b: "bag_at key p = ?at unused + ?at used" by (simp add: bag_at_def split: option.split)
  have "sets_of ?p + bag_at key p = (mset (pool_unused ?p) + ?at unused) + (mset (pool_used ?p) + ?at used)"
    unfolding sets_of_def b by (simp only: ac_simps)
  also have "\<dots> = sets_of p + (mset (unused c) + mset (used c))"
    unfolding u d sets_of_def by (simp only: ac_simps)
  also have "\<dots> = A + sets_of p + bag_at key p" unfolding assms by (simp only: ac_simps)
  finally show ?thesis by simp
qed

lemma sets_of_record_used: "sets_of (record_used key x p) = add_mset x (sets_of p)"
proof -
  let ?c = "case map_of (descriptor_sets p) key of Some c \<Rightarrow> c | None \<Rightarrow> DescriptorCache"
  have "mset (unused ?c) + mset (used ?c @ [x]) = {#x#} + bag_at key p"
    by (simp add: bag_at_def DescriptorCache_def split: option.split)
  then show ?thesis
    using put_cache_pool [of "?c\<lparr>used := used ?c @ [x]\<rparr>" "{#x#}" key p]
    by (simp add: record_used_def Let_def)
qed

lemma sets_of_CreateNewPool [simp]: "sets_of (snd (CreateNewPool x p)) = sets_of p"
  by (simp add: CreateNewPool_def sets_of_def pool_unused_def pool_used_def split: option.split)

text \<open>What an allocation does to the sets of a pool.\<close>

lemma allocate_new_effect:
  assumes "allocate_new key first pool2 again p = Inr (r, p')"
  shows "\<exists>x. sets_of p' = add_mset x (sets_of p) \<and>
    (case r of None \<Rightarrow> x = 0 | Some y \<Rightarrow> y = x \<and> (first = eSuccess x \<or> again = eSuccess x))"
proof -
  define answer where "answer = (if first = eErrorOutOfPoolMemory then again else first)"
  define q where "q = (if first = eErrorOutOfPoolMemory then snd (CreateNewPool pool2 p) else p)"
  have q: "sets_of q = sets_of p" by (simp add: q_def)
  have "(case answer of eSuccess s \<Rightarrow> Inr (Some s, record_used key s q) | _ \<Rightarrow> Inr (None, record_used key 0 q))
      = (Inr (r, p') :: (nat option \<times> 'a descriptor_pool) result)"
    using assms by (auto simp: allocate_new_def answer_def q_def Let_def result_simps
        split: allocation_answer.splits if_splits)
  then show ?thesis
    by (cases answer) (auto simp: sets_of_record_used q answer_def split: if_splits)
qed

lemma last_unused:
  assumes "map_of (descriptor_sets p) key = Some c" "unused c \<noteq> []"
  shows "last (unused c) \<in> set (pool_unused p)"
    "sets_of (p\<lparr>descriptor_sets := put_cache key
        (c\<lparr>unused := butlast (unused c), used := used c @ [last (unused c)]\<rparr>) (descriptor_sets p)\<rparr>) = sets_of p"
proof -
  have "(key, c) \<in> set (descriptor_sets p)" by (rule map_of_SomeD [OF assms(1)])
  then show "last (unused c) \<in> set (pool_unused p)" using assms(2)
    by (force simp: pool_unused_def)
  have "mset (unused c) = add_mset (last (unused c)) (mset (butlast (unused c)))"
    using arg_cong [OF append_butlast_last_id [OF assms(2)], of mset] by simp
  then show "sets_of (p\<lparr>descriptor_sets := put_cache key
        (c\<lparr>unused := butlast (unused c), used := used c @ [last (unused c)]\<rparr>) (descriptor_sets p)\<rparr>) = sets_of p"
    using put_cache_pool [of "c\<lparr>unused := butlast (unused c), used := used c @ [last (unused c)]\<rparr>" "{#}" key p]
      assms(1) by (simp add: bag_at_def)
qed

lemma allocate_effect:
  assumes "AllocateDescriptorSets key pool1 first pool2 again p = Inr (r, p')"
  shows "(\<exists>x. r = Some x \<and> x \<in> set (pool_unused p) \<and> sets_of p' = sets_of p) \<or>
    (\<exists>x. sets_of p' = add_mset x (sets_of p) \<and>
      (case r of None \<Rightarrow> x = 0 | Some y \<Rightarrow> y = x \<and> (first = eSuccess x \<or> again = eSuccess x)))"
proof -
  let ?p = "if pools p = [] then snd (CreateNewPool pool1 p) else p"
  have p: "sets_of ?p = sets_of p" by simp
  consider c where "map_of (descriptor_sets p) key = Some c" "unused c \<noteq> []"
    | "allocate_new key first pool2 again ?p = Inr (r, p')"
    using assms by (auto simp: AllocateDescriptorSets_def split: option.splits if_splits)
  then show ?thesis
  proof cases
    case 1
    then show ?thesis using assms last_unused [OF 1] by (auto simp: AllocateDescriptorSets_def)
  next
    case 2
    from allocate_new_effect [OF this] show ?thesis unfolding p by blast
  qed
qed

lemma drop_newest_prefix:
  "length (drop_newest ps) < kMaxRecycledPools \<and> (\<exists>zs. ps = drop_newest ps @ zs)"
proof (induction ps rule: drop_newest.induct)
  case (1 ps)
  show ?case
  proof (cases "kMaxRecycledPools \<le> length ps")
    case True
    then have "ps \<noteq> []" by (auto simp: kMaxRecycledPools_def)
    then have "ps = butlast ps @ [last ps]" by simp
    then show ?thesis using 1 [OF True] True
      by (subst (1 2) drop_newest.simps) (metis append.assoc)
  qed (subst (1 2) drop_newest.simps, simp)
qed

lemma drop_newest_bag: "mset (all_sets (drop_newest ps)) \<subseteq># mset (all_sets ps)"
  using drop_newest_prefix [of ps] by (metis all_sets_simps(3) mset_subset_eq_add_left)

lemma Reclaim_bag:
  "mset (all_sets (Reclaim b (descriptor_sets p) ps rs)) \<subseteq># sets_of p + mset (all_sets rs)"
proof -
  have "mset (concat (map (unused \<circ> snd) (map (\<lambda>(k, c). (k, all_unused c)) m))) +
      mset (concat (map (used \<circ> snd) (map (\<lambda>(k, c). (k, all_unused c)) m))) =
      mset (concat (map (unused \<circ> snd) m)) + mset (concat (map (used \<circ> snd) m))"
    for m :: "'a cache_map"
    by (induction m) (auto simp: all_unused_def ac_simps)
  then have "sets_of (DescriptorPool_of (map (\<lambda>(k, c). (k, all_unused c)) (descriptor_sets p)) ps) = sets_of p"
    by (simp only: sets_of_def pool_unused_def pool_used_def DescriptorPool_of_def
        descriptor_pool.select_convs)
  then show ?thesis using drop_newest_bag [of rs]
    by (simp add: Reclaim_def subset_mset.add_increasing)
qed

subsection \<open>The invariant\<close>

definition dp_inv :: "'k pool_system \<Rightarrow> bool" where
  "dp_inv s \<longleftrightarrow> (\<forall>x. x \<noteq> 0 \<longrightarrow> count (total s) x \<le> 1) \<and> (0 \<in># total s \<longrightarrow> 0 < failures s) \<and>
     length (recycled s) \<le> kMaxRecycledPools"

lemma dp_inv_subset:
  assumes "dp_inv s" "total t \<subseteq># total s" "failures t = failures s"
    "length (recycled t) \<le> kMaxRecycledPools"
  shows "dp_inv t"
  using assms mset_subset_eq_count [OF assms(2)]
  by (auto simp: dp_inv_def intro: order_trans dest: mset_subset_eqD)

lemma dp_inv_get:
  assumes "dp_inv s" "GetDescriptorPool (recycled s) = (p, ps)"
  shows "dp_inv (s\<lparr>live := live s @ [p], recycled := ps\<rparr>)"
proof -
  have e: "sets_of (DescriptorPool :: 'a descriptor_pool) = {#}"
    by (simp add: DescriptorPool_def sets_of_def pool_used_def pool_unused_def)
  have "sets_of (last rs) + mset (all_sets (butlast rs)) = mset (all_sets rs)" if "rs \<noteq> []"
    for rs :: "'a descriptor_pool list"
    using all_sets_simps(3) [of "butlast rs" "[last rs]"] unfolding append_butlast_last_id [OF that]
    by simp
  then have "sets_of p + mset (all_sets ps) = mset (all_sets (recycled s))" "length ps \<le> length (recycled s)"
    using assms(2) by (auto simp: GetDescriptorPool_def e split: if_splits)
  then show ?thesis using assms(1) by (intro dp_inv_subset [OF assms(1)]) (auto simp: total_def dp_inv_def)
qed

lemma dp_inv_drop:
  assumes "dp_inv s" "i < length (live s)"
  shows "dp_inv (s\<lparr>live := take i (live s) @ drop (Suc i) (live s),
    recycled := DescriptorPool_destroy b (live s ! i) (recycled s)\<rparr>)"
proof (rule dp_inv_subset [OF assms(1)])
  let ?p = "live s ! i" and ?r = "DescriptorPool_destroy b (live s ! i) (recycled s)"
  let ?l = "take i (live s) @ drop (Suc i) (live s)"
  have r: "mset (all_sets ?r) \<subseteq># sets_of ?p + mset (all_sets (recycled s))"
    using Reclaim_bag by (auto simp: DescriptorPool_destroy_def)
  have "mset (all_sets ?l) + mset (all_sets ?r) \<subseteq>#
      mset (all_sets ?l) + (sets_of ?p + mset (all_sets (recycled s)))"
    by (rule subset_mset.add_left_mono [OF r])
  also have "\<dots> = total s"
    unfolding total_def all_sets_remove [OF assms(2), symmetric] by (simp only: add.assoc)
  finally show "total (s\<lparr>live := ?l, recycled := ?r\<rparr>) \<subseteq># total s"
    unfolding total_def by (simp del: all_sets_simps(3))
  show "length (recycled (s\<lparr>live := take i (live s) @ drop (Suc i) (live s), recycled := ?r\<rparr>)) \<le> kMaxRecycledPools"
    using assms(1) drop_newest_prefix [of "recycled s"]
    by (auto simp: DescriptorPool_destroy_def Reclaim_def dp_inv_def)
qed simp

lemma dp_inv_allocate:
  assumes "dp_inv s" "i < length (live s)" "fresh_answer first s" "fresh_answer again s"
    "AllocateDescriptorSets key pool1 first pool2 again (live s ! i) = Inr (r, p)"
  shows "dp_inv (s\<lparr>live := (live s)[i := p], failures := failures s + (if r = None then 1 else 0)\<rparr>)"
    (is "dp_inv ?t")
proof -
  have t: "total ?t + sets_of (live s ! i) = total s + sets_of p"
    using all_sets_update [OF assms(2), of p] by (simp add: total_def ac_simps)
  consider "total ?t = total s"
    | x where "total ?t = add_mset x (total s)"
        "case r of None \<Rightarrow> x = 0 | Some y \<Rightarrow> y = x \<and> (first = eSuccess x \<or> again = eSuccess x)"
    using allocate_effect [OF assms(5)]
  proof (elim disjE exE conjE)
    fix x assume "sets_of p = sets_of (live s ! i)"
    then have "total ?t = total s" using t by simp
    then show thesis by (rule that(1))
  next
    fix x assume x: "sets_of p = add_mset x (sets_of (live s ! i))"
      "case r of None \<Rightarrow> x = 0 | Some y \<Rightarrow> y = x \<and> (first = eSuccess x \<or> again = eSuccess x)"
    then have "total ?t + sets_of (live s ! i) = add_mset x (total s) + sets_of (live s ! i)"
      using t by simp
    then have "total ?t = add_mset x (total s)" by (rule add_right_imp_eq)
    then show thesis using x(2) by (rule that(2))
  qed
  then show ?thesis
  proof cases
    case 1
    then show ?thesis using assms(1) by (auto simp: dp_inv_def)
  next
    case (2 x)
    show ?thesis
    proof (cases r)
      case None
      then show ?thesis using 2 assms(1) by (auto simp: dp_inv_def)
    next
      case (Some y)
      then have "first = eSuccess x \<or> again = eSuccess x" using 2 by simp
      then have "x \<noteq> 0" "x \<notin># total s" using assms(3,4) by (auto simp: fresh_answer_def total_def)
      then have "count (total s) x = 0" by (simp add: count_eq_zero_iff)
      then show ?thesis using 2 Some assms(1) \<open>x \<noteq> 0\<close> by (auto simp: dp_inv_def)
    qed
  qed
qed

interpretation dp: transition_system "\<lambda>s. s = start_system" dp_step dp_inv
proof
  show "s = start_system \<Longrightarrow> dp_inv s" for s :: "'a pool_system"
    by (simp add: start_system_def dp_inv_def total_def)
  show "dp_inv t" if "dp_inv s" "dp_step s e t" for s t :: "'a pool_system" and e
    using that(2)
  proof (cases rule: dp_step.cases)
    case (dp_allocate i first again key pool1 pool2 r p)
    then show ?thesis using dp_inv_allocate [OF that(1) dp_allocate(3-6)] by simp
  qed (use that(1) in \<open>auto intro: dp_inv_get dp_inv_drop\<close>)
qed

text \<open>A set that is unused in one pool and used in one (maybe the same) is counted twice.\<close>

lemma two_places:
  assumes "i < length (live s)" "x \<in> set (pool_unused (live s ! i))"
    "q \<in> set (live s) \<union> set (recycled s)" "x \<in> set (pool_used q)"
  shows "2 \<le> count (total s) x"
proof -
  have l: "mset (all_sets ps) = mset (concat (map pool_unused ps)) + mset (concat (map pool_used ps))"
    for ps :: "'a descriptor_pool list"
    by (induction ps) (simp_all add: sets_of_def ac_simps)
  have "x \<in># mset (concat (map pool_unused (live s)))" using assms(1,2) by fastforce
  moreover have "x \<in># mset (concat (map pool_used (live s))) + mset (concat (map pool_used (recycled s)))"
    using assms(3,4) by auto
  ultimately have "1 \<le> count (mset (concat (map pool_unused (live s)))) x"
    "1 \<le> count (mset (concat (map pool_used (live s))) + mset (concat (map pool_used (recycled s)))) x"
    by (simp_all only: Suc_le_eq One_nat_def count_greater_zero_iff)
  then show ?thesis unfolding total_def l count_union by linarith
qed

subsection \<open>Properties\<close>

text \<open>
  C23: As long as the device hands out sets that are not allocated already, an allocation never
  returns a set that somebody uses: it is in use in no pool of the system, and it is null only when
  an allocation has failed before. The recycler never keeps more than 32 pools.
\<close>

theorem descriptor_sets_not_shared:
  assumes "reachable_from (\<lambda>s. s = start_system) dp_step s"
    and "i < length (live s)" "fresh_answer first s" "fresh_answer again s"
    and "AllocateDescriptorSets key pool1 first pool2 again (live s ! i) = Inr (Some x, p)"
  shows "(x \<noteq> 0 \<longrightarrow> (\<forall>q \<in> set (live s) \<union> set (recycled s). x \<notin> set (pool_used q))) \<and>
    (x = 0 \<longrightarrow> 0 < failures s) \<and> length (recycled s) \<le> kMaxRecycledPools"
proof -
  have inv: "dp_inv s" by (rule dp.reachable_inv [OF assms(1)])
  have old: "x \<in># total s" if "x \<in> set (pool_unused (live s ! i))"
    using that mset_subset_eqD [OF all_sets_nth [OF assms(2)], of x]
    by (simp add: total_def sets_of_def)
  have used: "x \<in> set (all_sets ps)" if "q \<in> set ps" "x \<in> set (pool_used q)" for q ps
    using that by (auto simp: all_sets_def)
  from allocate_effect [OF assms(5)]
  consider (reused) "x \<in> set (pool_unused (live s ! i))"
    | (new) "first = eSuccess x \<or> again = eSuccess x" by auto
  then show ?thesis
  proof cases
    case new
    then have "x \<noteq> 0" "x \<notin> set (all_sets (live s)) \<union> set (all_sets (recycled s))"
      using assms(3,4) by (auto simp: fresh_answer_def)
    then show ?thesis using used inv by (auto simp: dp_inv_def)
  next
    case reused
    have "x \<notin> set (pool_used q)" if "x \<noteq> 0" "q \<in> set (live s) \<union> set (recycled s)" for q
    proof
      assume q: "x \<in> set (pool_used q)"
      have "2 \<le> count (total s) x"
        by (rule two_places [OF assms(2) reused that(2) q])
      moreover have "count (total s) x \<le> 1" using inv that(1) by (simp add: dp_inv_def)
      ultimately show False by simp
    qed
    then show ?thesis using old [OF reused] inv by (auto simp: dp_inv_def)
  qed
qed

theorem descriptor_sets_not_shared_witness:
  "\<exists>s p. reachable_from (\<lambda>s. s = start_system) dp_step s \<and>
     AllocateDescriptorSets True None (eSuccess 9) None eErrorOther (live s ! 0) = Inr (Some 5, p) \<and>
     (\<forall>q \<in> set (live s) \<union> set (recycled s). 5 \<notin> set (pool_used q))"
proof -
  let ?R = "reachable_from (\<lambda>s :: bool pool_system. s = start_system) dp_step"
  have "?R start_system" by (rule reach_start) simp
  from reach_step [OF this dp_get [of _ DescriptorPool "[]"]]
  have "?R \<lparr>live = [DescriptorPool], recycled = [], failures = 0\<rparr>"
    by (simp add: start_system_def GetDescriptorPool_def)
  from reach_step [OF this dp_allocate [of 0 _ "eSuccess 5" eErrorOther True "Some 1" None "Some 5"
        "\<lparr>descriptor_sets = [(True, \<lparr>unused = [], used = [5]\<rparr>)], pools = [1]\<rparr>"]]
  have "?R \<lparr>live = [\<lparr>descriptor_sets = [(True, \<lparr>unused = [], used = [5]\<rparr>)], pools = [1]\<rparr>],
      recycled = [], failures = 0\<rparr>"
    by (simp add: fresh_answer_def all_sets_def pool_unused_def pool_used_def DescriptorPool_def
        AllocateDescriptorSets_def allocate_new_def CreateNewPool_def record_used_def
        DescriptorCache_def Let_def)
  from reach_step [OF this dp_drop [of 0 _ True]]
  have "?R \<lparr>live = [], recycled = [\<lparr>descriptor_sets = [(True, \<lparr>unused = [5], used = []\<rparr>)],
      pools = [1]\<rparr>], failures = 0\<rparr>"
    by (simp add: DescriptorPool_destroy_def Reclaim_def drop_newest.simps kMaxRecycledPools_def
        DescriptorPool_of_def all_unused_def)
  from reach_step [OF this dp_get [of _ "\<lparr>descriptor_sets = [(True, \<lparr>unused = [5], used = []\<rparr>)],
      pools = [1]\<rparr>" "[]"]]
  have r: "?R \<lparr>live = [\<lparr>descriptor_sets = [(True, \<lparr>unused = [5], used = []\<rparr>)], pools = [1]\<rparr>],
      recycled = [], failures = 0\<rparr>"
    by (simp add: GetDescriptorPool_def)
  let ?s = "\<lparr>live = [\<lparr>descriptor_sets = [(True, \<lparr>unused = [5], used = []\<rparr>)], pools = [1]\<rparr>],
      recycled = [], failures = 0\<rparr> :: bool pool_system"
  let ?p = "\<lparr>descriptor_sets = [(True, \<lparr>unused = [], used = [5]\<rparr>)], pools = [1]\<rparr> :: bool descriptor_pool"
  have a: "AllocateDescriptorSets True None (eSuccess 9) None eErrorOther (live ?s ! 0) = Inr (Some 5, ?p)"
    by (simp add: AllocateDescriptorSets_def)
  have "\<forall>q \<in> set (live ?s) \<union> set (recycled ?s). 5 \<notin> set (pool_used q)"
    using descriptor_sets_not_shared [OF r _ _ _ a]
    by (simp add: fresh_answer_def all_sets_def pool_unused_def pool_used_def)
  with r a show ?thesis by blast
qed

text \<open>
  A failed allocation is recorded as a used null set. After the pool went through the recycler the
  null set is handed out as a success.
\<close>

lemma failed_set_comes_back:
  assumes "allocate_new key eErrorOther None eErrorOther \<lparr>descriptor_sets = [], pools = [1]\<rparr> = Inr (r, p)"
    and "DescriptorPool_destroy True p [] = [q]"
  shows "r = None \<and> (\<exists>q'. AllocateDescriptorSets key None (eSuccess 9) None eErrorOther q = Inr (Some 0, q'))"
  using assms
  by (auto simp: allocate_new_def record_used_def DescriptorCache_def Let_def DescriptorPool_destroy_def
      Reclaim_def drop_newest.simps kMaxRecycledPools_def DescriptorPool_of_def all_unused_def
      AllocateDescriptorSets_def)

text \<open>
  The status of creating the first pool is not looked at: when it fails, the last element of an
  empty vector is read.
\<close>

lemma no_pool_undefined:
  "AllocateDescriptorSets key None first pool2 again DescriptorPool = Inl Undefined_Behaviour"
  by (simp add: AllocateDescriptorSets_def allocate_new_def DescriptorPool_def CreateNewPool_def)

text \<open>The sets a pool can hold are those of all its bindings.\<close>

lemma pool_max_sets: "fst pool_create_info = sum_list (map snd (snd pool_create_info))"
  by (simp add: pool_create_info_def)

end
