(* ===== verification/Ref_Counted.thy ===== *)
theory Ref_Counted
  imports Prelude
begin

text \<open>
  Reference counted objects and their pointers: \<^verbatim>\<open>src/fml/memory/ref_counted_internal.h\<close>,
  \<^verbatim>\<open>ref_counted.h\<close>, \<^verbatim>\<open>ref_ptr.h\<close> and \<^verbatim>\<open>ref_ptr_internal.h\<close>.

  The store has the objects by their address and all pointer variables of the program as slots: a
  constructor appends a slot, and the slot of a destroyed pointer stays behind as null. The
  checks of debug builds are part of the model. What the destructor of the object checks itself
  is the parameter \<open>dtor_ok\<close>. The counter has 32 bits, the least that \<open>uint_fast32_t\<close> may have.
\<close>

subsection \<open>Objects\<close>

record 'a obj =
  ref_count :: u32
  adoption_required :: bool
  destruction_started :: bool
  payload :: 'a

record 'a store =
  objs :: "nat \<Rightarrow> 'a obj option"
  next_obj :: nat
  slots :: "nat option list"
  deleted :: "nat list"

definition RefCountedThreadSafeBase :: "'a \<Rightarrow> 'a obj" where
  "RefCountedThreadSafeBase x =
     \<lparr>ref_count = 1, adoption_required = True, destruction_started = False, payload = x\<rparr>"

definition access :: "nat \<Rightarrow> 'a store \<Rightarrow> 'a obj result" where
  "access p s = of_option Undefined_Behaviour (objs s p)"

definition put_obj :: "nat \<Rightarrow> 'a obj \<Rightarrow> 'a store \<Rightarrow> 'a store" where
  "put_obj p ob s = s\<lparr>objs := (objs s)(p \<mapsto> ob)\<rparr>"

definition AddRef :: "nat \<Rightarrow> 'a store \<Rightarrow> 'a store result" where
  "AddRef p s =
     rbind (access p s) (\<lambda>ob.
     rbind (guard Dcheck_Failed (\<not> adoption_required ob \<and> \<not> destruction_started ob)) (\<lambda>_.
     Inr (put_obj p (ob\<lparr>ref_count := ref_count ob + 1\<rparr>) s)))"

definition HasOneRef :: "nat \<Rightarrow> 'a store \<Rightarrow> bool result" where
  "HasOneRef p s = rbind (access p s) (\<lambda>ob. Inr (ref_count ob = 1))"

definition AssertHasOneRef :: "nat \<Rightarrow> 'a store \<Rightarrow> unit result" where
  "AssertHasOneRef p s = rbind (HasOneRef p s) (\<lambda>one. guard Dcheck_Failed one)"

definition Release_base :: "nat \<Rightarrow> 'a store \<Rightarrow> (bool \<times> 'a store) result" where
  "Release_base p s =
     rbind (access p s) (\<lambda>ob.
     rbind (guard Dcheck_Failed (\<not> adoption_required ob \<and> \<not> destruction_started ob)) (\<lambda>_.
     rbind (guard Dcheck_Failed (ref_count ob \<noteq> 0)) (\<lambda>_.
     let ob' = ob\<lparr>ref_count := ref_count ob - 1\<rparr>
     in if ref_count ob = 1 then Inr (True, put_obj p (ob'\<lparr>destruction_started := True\<rparr>) s)
        else Inr (False, put_obj p ob' s))))"

text \<open>The destructor of the object, then the one of the base class.\<close>

definition delete_obj :: "('a \<Rightarrow> bool) \<Rightarrow> nat \<Rightarrow> 'a store \<Rightarrow> 'a store result" where
  "delete_obj dtor_ok p s =
     rbind (access p s) (\<lambda>ob.
     rbind (guard Dcheck_Failed (dtor_ok (payload ob))) (\<lambda>_.
     rbind (guard Dcheck_Failed (\<not> adoption_required ob \<and> destruction_started ob)) (\<lambda>_.
     Inr (s\<lparr>objs := (objs s)(p := None), deleted := deleted s @ [p]\<rparr>))))"

definition Release :: "('a \<Rightarrow> bool) \<Rightarrow> nat \<Rightarrow> 'a store \<Rightarrow> 'a store result" where
  "Release dtor_ok p s =
     rbind (Release_base p s) (\<lambda>(last_ref, s').
       if last_ref then delete_obj dtor_ok p s' else Inr s')"

definition Adopt :: "nat \<Rightarrow> 'a store \<Rightarrow> 'a store result" where
  "Adopt p s =
     rbind (access p s) (\<lambda>ob.
     rbind (guard Dcheck_Failed (adoption_required ob)) (\<lambda>_.
     Inr (put_obj p (ob\<lparr>adoption_required := False\<rparr>) s)))"

subsection \<open>Pointers\<close>

definition AddRef_opt :: "nat option \<Rightarrow> 'a store \<Rightarrow> 'a store result" where
  "AddRef_opt q s = (case q of None \<Rightarrow> Inr s | Some p \<Rightarrow> AddRef p s)"

definition Release_opt :: "('a \<Rightarrow> bool) \<Rightarrow> nat option \<Rightarrow> 'a store \<Rightarrow> 'a store result" where
  "Release_opt dtor_ok q s = (case q of None \<Rightarrow> Inr s | Some p \<Rightarrow> Release dtor_ok p s)"

definition new_slot :: "nat option \<Rightarrow> 'a store \<Rightarrow> 'a store" where
  "new_slot q s = s\<lparr>slots := slots s @ [q]\<rparr>"

definition set_slot :: "nat \<Rightarrow> nat option \<Rightarrow> 'a store \<Rightarrow> 'a store" where
  "set_slot i q s = s\<lparr>slots := (slots s)[i := q]\<rparr>"

definition RefPtr_null :: "'a store \<Rightarrow> 'a store" where
  "RefPtr_null s = new_slot None s"

definition RefPtr_raw :: "nat option \<Rightarrow> 'a store \<Rightarrow> 'a store result" where
  "RefPtr_raw q s = rbind (AddRef_opt q s) (\<lambda>s'. Inr (new_slot q s'))"

definition RefPtr_copy :: "nat \<Rightarrow> 'a store \<Rightarrow> 'a store result" where
  "RefPtr_copy i s = rbind (AddRef_opt (slots s ! i) s) (\<lambda>s'. Inr (new_slot (slots s ! i) s'))"

definition RefPtr_move :: "nat \<Rightarrow> 'a store \<Rightarrow> 'a store" where
  "RefPtr_move i s = new_slot (slots s ! i) (set_slot i None s)"

definition RefPtr_destroy :: "('a \<Rightarrow> bool) \<Rightarrow> nat \<Rightarrow> 'a store \<Rightarrow> 'a store result" where
  "RefPtr_destroy dtor_ok i s = Release_opt dtor_ok (slots s ! i) (set_slot i None s)"

definition RefPtr_get :: "nat \<Rightarrow> 'a store \<Rightarrow> nat option" where
  "RefPtr_get i s = slots s ! i"

definition RefPtr_deref :: "nat \<Rightarrow> 'a store \<Rightarrow> 'a result" where
  "RefPtr_deref i s =
     rbind (of_option Dcheck_Failed (slots s ! i)) (\<lambda>p. rbind (access p s) (\<lambda>ob. Inr (payload ob)))"

definition RefPtr_assign :: "('a \<Rightarrow> bool) \<Rightarrow> nat \<Rightarrow> nat \<Rightarrow> 'a store \<Rightarrow> 'a store result" where
  "RefPtr_assign dtor_ok i j s =
     (if slots s ! j = slots s ! i then Inr s
      else rbind (AddRef_opt (slots s ! j) s) (\<lambda>s1.
           Release_opt dtor_ok (slots s ! i) (set_slot i (slots s ! j) s1)))"

text \<open>Assignment of a temporary: a new pointer takes the value, is swapped and destroyed.\<close>

definition RefPtr_assign_move :: "('a \<Rightarrow> bool) \<Rightarrow> nat \<Rightarrow> nat \<Rightarrow> 'a store \<Rightarrow> 'a store result" where
  "RefPtr_assign_move dtor_ok i j s =
     (let p = slots s ! j; s1 = set_slot j None s; old = slots s1 ! i
      in Release_opt dtor_ok old (set_slot i p s1))"

definition RefPtr_swap :: "nat \<Rightarrow> nat \<Rightarrow> 'a store \<Rightarrow> 'a store" where
  "RefPtr_swap i j s = set_slot j (slots s ! i) (set_slot i (slots s ! j) s)"

definition AdoptRef :: "nat \<Rightarrow> 'a store \<Rightarrow> 'a store result" where
  "AdoptRef p s = rbind (Adopt p s) (\<lambda>s'. Inr (new_slot (Some p) s'))"

definition MakeRefCounted :: "'a \<Rightarrow> 'a store \<Rightarrow> 'a store result" where
  "MakeRefCounted x s =
     AdoptRef (next_obj s)
       (s\<lparr>objs := (objs s)(next_obj s \<mapsto> RefCountedThreadSafeBase x), next_obj := Suc (next_obj s)\<rparr>)"

definition empty_store :: "'a store" where
  "empty_store = \<lparr>objs = \<lambda>_. None, next_obj = 0, slots = [], deleted = []\<rparr>"

text \<open>A pointer is dropped when it is destroyed, assigned or moved over; the steps of a program.\<close>

datatype 'a ptr_event =
    Make 'a | Null_Ptr | Raw nat | Copy nat | Move nat | Drop nat | Assign nat nat
  | Assign_Move nat nat | Swap nat nat

fun ptr_run :: "('a \<Rightarrow> bool) \<Rightarrow> 'a ptr_event \<Rightarrow> 'a store \<Rightarrow> 'a store result" where
  "ptr_run dtor_ok (Make x) s = MakeRefCounted x s"
| "ptr_run dtor_ok Null_Ptr s = Inr (RefPtr_null s)"
| "ptr_run dtor_ok (Raw i) s = RefPtr_raw (RefPtr_get i s) s"
| "ptr_run dtor_ok (Copy i) s = RefPtr_copy i s"
| "ptr_run dtor_ok (Move i) s = Inr (RefPtr_move i s)"
| "ptr_run dtor_ok (Drop i) s = RefPtr_destroy dtor_ok i s"
| "ptr_run dtor_ok (Assign i j) s = RefPtr_assign dtor_ok i j s"
| "ptr_run dtor_ok (Assign_Move i j) s = RefPtr_assign_move dtor_ok i j s"
| "ptr_run dtor_ok (Swap i j) s = Inr (RefPtr_swap i j s)"

text \<open>The variables an event names exist.\<close>

fun event_ok :: "'a ptr_event \<Rightarrow> 'a store \<Rightarrow> bool" where
  "event_ok (Make x) s \<longleftrightarrow> True"
| "event_ok Null_Ptr s \<longleftrightarrow> True"
| "event_ok (Raw i) s \<longleftrightarrow> i < length (slots s)"
| "event_ok (Copy i) s \<longleftrightarrow> i < length (slots s)"
| "event_ok (Move i) s \<longleftrightarrow> i < length (slots s)"
| "event_ok (Drop i) s \<longleftrightarrow> i < length (slots s)"
| "event_ok (Assign i j) s \<longleftrightarrow> i < length (slots s) \<and> j < length (slots s)"
| "event_ok (Assign_Move i j) s \<longleftrightarrow> i < length (slots s) \<and> j < length (slots s)"
| "event_ok (Swap i j) s \<longleftrightarrow> i < length (slots s) \<and> j < length (slots s)"

inductive ptr_step :: "('a \<Rightarrow> bool) \<Rightarrow> 'a store \<Rightarrow> 'a ptr_event \<Rightarrow> 'a store \<Rightarrow> bool" for dtor_ok where
  "event_ok e s \<Longrightarrow> length (slots s) < 2 ^ 32 - 1 \<Longrightarrow> ptr_run dtor_ok e s = Inr t \<Longrightarrow>
   ptr_step dtor_ok s e t"

subsection \<open>The invariant\<close>

definition refs :: "nat \<Rightarrow> 'a store \<Rightarrow> nat" where
  "refs p s = count (mset (slots s)) (Some p)"

text \<open>
  Every object is counted once for each pointer to it, and once more when it is \<open>e\<close>, which is the
  object an operation has in hand between the change of a counter and the change of a variable.
\<close>

definition rc_off :: "nat option \<Rightarrow> 'a store \<Rightarrow> bool" where
  "rc_off e s \<longleftrightarrow>
     (\<forall>p ob. objs s p = Some ob \<longrightarrow> unat (ref_count ob) = refs p s + (if e = Some p then 1 else 0) \<and>
        (e = Some p \<or> 0 < refs p s) \<and> \<not> adoption_required ob \<and> \<not> destruction_started ob \<and> p < next_obj s) \<and>
     (\<forall>p. Some p \<in> set (slots s) \<or> e = Some p \<longrightarrow> objs s p \<noteq> None) \<and>
     distinct (deleted s) \<and> set (deleted s) = {p. p < next_obj s \<and> objs s p = None}"

definition rc_inv :: "'a store \<Rightarrow> bool" where
  "rc_inv s \<longleftrightarrow> rc_off None s"

lemma refs_new_slot [simp]: "refs p (new_slot q s) = refs p s + (if q = Some p then 1 else 0)"
  by (simp add: refs_def new_slot_def)

lemma refs_set_slot:
  assumes "i < length (slots s)"
  shows "refs p (set_slot i q s) + (if slots s ! i = Some p then 1 else 0) =
    refs p s + (if q = Some p then 1 else 0)"
proof -
  obtain M where "mset (slots s) = add_mset (slots s ! i) M"
    using assms multi_member_split [of "slots s ! i" "mset (slots s)"] by auto
  then show ?thesis using assms by (simp add: refs_def set_slot_def mset_update)
qed

lemma set_slot_fields [simp]:
  "objs (set_slot i q s) = objs s" "next_obj (set_slot i q s) = next_obj s"
  "deleted (set_slot i q s) = deleted s" "slots (set_slot i q s) = (slots s)[i := q]"
  "objs (new_slot q s) = objs s" "next_obj (new_slot q s) = next_obj s"
  "deleted (new_slot q s) = deleted s" "slots (new_slot q s) = slots s @ [q]"
  by (simp_all add: set_slot_def new_slot_def)

text \<open>A variable gives up its object, or takes the one in hand.\<close>

lemma rc_off_exchange:
  assumes "rc_off q s" "i < length (slots s)"
  shows "rc_off (slots s ! i) (set_slot i q s)"
proof -
  let ?old = "slots s ! i"
  have r: "refs p (set_slot i q s) + (if ?old = Some p then 1 else 0) =
      refs p s + (if q = Some p then 1 else 0)" for p
    using refs_set_slot [OF assms(2)] .
  then have r0: "?old = Some p \<or> 0 < refs p (set_slot i q s)" if "q = Some p \<or> 0 < refs p s" for p
  proof (cases "?old = Some p")
    case False
    then have "refs p (set_slot i q s) = refs p s + (if q = Some p then 1 else 0)" using r [of p] by simp
    then show ?thesis using that by auto
  qed simp
  have "Some p \<in> set ((slots s)[i := q]) \<Longrightarrow> Some p \<in> set (slots s) \<or> q = Some p" for p
    using set_update_subset_insert [of "slots s" i q] by auto
  moreover have "?old = Some p \<Longrightarrow> Some p \<in> set (slots s)" for p
    using nth_mem [OF assms(2)] by simp
  ultimately have sl: "Some p \<in> set ((slots s)[i := q]) \<or> ?old = Some p \<Longrightarrow> objs s p \<noteq> None" for p
    using assms(1) unfolding rc_off_def by blast
  have "unat (ref_count ob) = refs p (set_slot i q s) + (if ?old = Some p then 1 else 0) \<and>
      (?old = Some p \<or> 0 < refs p (set_slot i q s)) \<and> \<not> adoption_required ob \<and>
      \<not> destruction_started ob \<and> p < next_obj s" if "objs s p = Some ob" for p ob
    using assms(1) r [of p] r0 [of p] that unfolding rc_off_def by simp
  then show ?thesis using sl assms(1) unfolding rc_off_def by simp
qed

lemma rc_off_give:
  "rc_off None s \<Longrightarrow> i < length (slots s) \<Longrightarrow> rc_off (slots s ! i) (set_slot i None s)"
  by (rule rc_off_exchange)

lemma rc_off_take:
  "rc_off q s \<Longrightarrow> i < length (slots s) \<Longrightarrow> slots s ! i = None \<Longrightarrow> rc_off None (set_slot i q s)"
  using rc_off_exchange [of q s i] by simp

lemma rc_off_new: "rc_off q s \<Longrightarrow> rc_off None (new_slot q s)"
  by (auto simp: rc_off_def)

lemma refs_positive: "Some p \<in> set (slots s) \<Longrightarrow> 0 < refs p s"
  by (simp add: refs_def)

lemma refs_bound: "refs p s \<le> length (slots s)"
  by (metis count_le_size refs_def size_mset)

lemma refs_put_obj [simp]: "refs p (put_obj q ob s) = refs p s"
  by (simp add: refs_def put_obj_def)

lemma put_obj_fields [simp]:
  "objs (put_obj q ob s) = (objs s)(q \<mapsto> ob)" "slots (put_obj q ob s) = slots s"
  "next_obj (put_obj q ob s) = next_obj s" "deleted (put_obj q ob s) = deleted s"
  by (simp_all add: put_obj_def)

text \<open>Counting changes no object but its counter, and makes none.\<close>

definition same_payload :: "'a store \<Rightarrow> 'a store \<Rightarrow> bool" where
  "same_payload s t \<longleftrightarrow> next_obj t = next_obj s \<and>
     (\<forall>p ob. objs t p = Some ob \<longrightarrow> (\<exists>ob0. objs s p = Some ob0 \<and> payload ob0 = payload ob))"

lemma same_payload_refl [simp]: "same_payload s s"
  by (simp add: same_payload_def)

lemma same_payload_trans: "same_payload s t \<Longrightarrow> same_payload t u \<Longrightarrow> same_payload s u"
  by (fastforce simp: same_payload_def)

lemma same_payload_slots [simp]:
  "same_payload (set_slot i q s) t = same_payload s t" "same_payload t (set_slot i q s) = same_payload t s"
  "same_payload (new_slot q s) t = same_payload s t" "same_payload t (new_slot q s) = same_payload t s"
  by (simp_all add: same_payload_def)

lemma AddRef_ok:
  assumes "rc_off None s" "objs s p \<noteq> None" "length (slots s) < 2 ^ 32 - 1"
  shows "\<exists>s'. AddRef p s = Inr s' \<and> rc_off (Some p) s' \<and> slots s' = slots s \<and> same_payload s s'"
proof -
  obtain ob where ob: "objs s p = Some ob" using assms(2) by blast
  have a: "unat (ref_count ob) = refs p s" "\<not> adoption_required ob" "\<not> destruction_started ob" "p < next_obj s"
    using assms(1) ob by (auto simp: rc_off_def)
  then have "unat (ref_count ob) < 2 ^ 32 - 1" using refs_bound [of p s] assms(3) by linarith
  then have "unat (ref_count ob + 1) = refs p s + 1" using a(1) by (simp add: unat_word_ariths)
  then have "rc_off (Some p) (put_obj p (ob\<lparr>ref_count := ref_count ob + 1\<rparr>) s)"
    using assms(1) a ob by (auto simp: rc_off_def)
  moreover have "same_payload s (put_obj p (ob\<lparr>ref_count := ref_count ob + 1\<rparr>) s)"
    using ob by (simp add: same_payload_def)
  ultimately show ?thesis using ob a by (simp add: AddRef_def access_def)
qed

lemma AddRef_opt_ok:
  assumes "rc_off None s" "\<And>p. q = Some p \<Longrightarrow> objs s p \<noteq> None" "length (slots s) < 2 ^ 32 - 1"
  shows "\<exists>s'. AddRef_opt q s = Inr s' \<and> rc_off q s' \<and> slots s' = slots s \<and> same_payload s s'"
  using AddRef_ok [OF assms(1) _ assms(3)] assms(1,2) by (cases q) (auto simp: AddRef_opt_def)

lemma Release_ok:
  assumes "rc_off (Some p) s" "\<And>ob. objs s p = Some ob \<Longrightarrow> refs p s = 0 \<Longrightarrow> dtor_ok (payload ob)"
  shows "\<exists>s'. Release dtor_ok p s = Inr s' \<and> rc_off None s' \<and> slots s' = slots s \<and>
    (objs s' p = None \<longleftrightarrow> refs p s = 0) \<and> same_payload s s'"
proof -
  obtain ob where ob: "objs s p = Some ob" using assms(1) by (auto simp: rc_off_def)
  have a: "unat (ref_count ob) = refs p s + 1" "\<not> adoption_required ob" "\<not> destruction_started ob" "p < next_obj s"
    using assms(1) ob by (auto simp: rc_off_def)
  then have nz: "ref_count ob \<noteq> 0" by auto
  show ?thesis
  proof (cases "refs p s = 0")
    case True
    then have "unat (ref_count ob) = unat (1 :: u32)" using a(1) by simp
    then have one: "ref_count ob = 1" by (simp only: word_unat_eq_iff)
    have none: "Some p \<notin> set (slots s)" using True refs_positive [of p s] by auto
    let ?t = "s\<lparr>objs := (objs s)(p := None), deleted := deleted s @ [p]\<rparr>"
    have "Release dtor_ok p s = Inr ?t"
      using ob a nz one assms(2) [OF ob True]
      by (simp add: Release_def Release_base_def delete_obj_def access_def Let_def put_obj_def)
    moreover have "refs q ?t = refs q s" for q by (simp add: refs_def)
    then have "rc_off None ?t"
      using assms(1) none a(4) ob by (auto simp: rc_off_def)
    ultimately show ?thesis using True by (simp add: same_payload_def)
  next
    case False
    then have "ref_count ob \<noteq> 1" using a(1) by auto
    moreover have "unat (ref_count ob - 1) = refs p s" using a(1) nz by (simp add: unat_minus_one)
    ultimately show ?thesis using assms(1) a ob nz False
      by (auto simp: Release_def Release_base_def access_def Let_def rc_off_def same_payload_def)
  qed
qed

lemma Release_opt_ok:
  assumes "rc_off q s" "\<And>p ob. q = Some p \<Longrightarrow> objs s p = Some ob \<Longrightarrow> refs p s = 0 \<Longrightarrow> dtor_ok (payload ob)"
  shows "\<exists>s'. Release_opt dtor_ok q s = Inr s' \<and> rc_off None s' \<and> slots s' = slots s \<and>
    (\<forall>p. q = Some p \<longrightarrow> (objs s' p = None \<longleftrightarrow> refs p s = 0)) \<and> same_payload s s'"
  using Release_ok [of _ s dtor_ok] assms by (cases q) (auto simp: Release_opt_def)

text \<open>An object that was made and adopted is in hand.\<close>

lemma MakeRefCounted_ok:
  assumes "rc_inv s"
  shows "\<exists>s'. MakeRefCounted x s = Inr s' \<and> rc_inv s' \<and> slots s' = slots s @ [Some (next_obj s)] \<and>
    objs s' = (objs s)(next_obj s \<mapsto> (RefCountedThreadSafeBase x)\<lparr>adoption_required := False\<rparr>) \<and>
    next_obj s' = Suc (next_obj s)"
proof -
  let ?n = "next_obj s"
  let ?ob = "(RefCountedThreadSafeBase x)\<lparr>adoption_required := False\<rparr>"
  let ?t = "s\<lparr>next_obj := Suc ?n, objs := (objs s)(?n \<mapsto> ?ob)\<rparr>"
  have none: "objs s ?n = None" using assms by (force simp: rc_inv_def rc_off_def)
  then have "Some ?n \<notin> set (slots s)" using assms by (auto simp: rc_inv_def rc_off_def)
  then have "refs ?n s = 0" by (simp add: refs_def count_eq_zero_iff)
  moreover have "refs q ?t = refs q s" for q by (simp add: refs_def)
  moreover have "{p. p < Suc ?n \<and> p \<noteq> ?n \<and> objs s p = None} = {p. p < ?n \<and> objs s p = None}" by auto
  ultimately have "rc_off (Some ?n) ?t"
    using assms by (auto simp: rc_inv_def rc_off_def RefCountedThreadSafeBase_def less_SucI)
  then have "rc_inv (new_slot (Some ?n) ?t)" unfolding rc_inv_def by (rule rc_off_new)
  then show ?thesis
    by (simp add: MakeRefCounted_def AdoptRef_def Adopt_def access_def put_obj_def
        RefCountedThreadSafeBase_def)
qed

lemma assign_ok:
  assumes "rc_inv s" "i < length (slots s)" "j < length (slots s)" "length (slots s) < 2 ^ 32 - 1"
    "\<And>p ob. slots s ! i = Some p \<Longrightarrow> objs s p = Some ob \<Longrightarrow> refs p s = 1 \<Longrightarrow> dtor_ok (payload ob)"
  shows "\<exists>s'. RefPtr_assign dtor_ok i j s = Inr s' \<and> rc_inv s' \<and> slots s' = (slots s)[i := slots s ! j] \<and>
    same_payload s s'"
proof (cases "slots s ! j = slots s ! i")
  case True
  then show ?thesis using assms(1) by (simp add: RefPtr_assign_def)
next
  case False
  let ?q = "slots s ! j" and ?old = "slots s ! i"
  have alloc: "objs s p \<noteq> None" if "?q = Some p" for p
    using assms(1,3) that nth_mem [OF assms(3)] by (auto simp: rc_inv_def rc_off_def)
  then obtain s1 where s1: "AddRef_opt ?q s = Inr s1" "rc_off ?q s1" "slots s1 = slots s" "same_payload s s1"
    using AddRef_opt_ok [of s ?q] assms(1,4) unfolding rc_inv_def by blast
  have "rc_off ?old (set_slot i ?q s1)"
    using rc_off_exchange [OF s1(2)] assms(2) s1(3) by simp
  moreover have "dtor_ok (payload ob)" if p: "?old = Some p" "objs (set_slot i ?q s1) p = Some ob"
      "refs p (set_slot i ?q s1) = 0" for p ob
  proof -
    have "refs p s1 = refs p s" by (simp add: refs_def s1(3))
    then have "refs p s = 1" using refs_set_slot [of i s1 p ?q] assms(2) s1(3) p False by simp
    moreover obtain ob0 where "objs s p = Some ob0" "payload ob0 = payload ob"
      using s1(4) p(2) by (auto simp: same_payload_def)
    ultimately show ?thesis using assms(5) p(1) by metis
  qed
  ultimately obtain s2 where "Release_opt dtor_ok ?old (set_slot i ?q s1) = Inr s2" "rc_off None s2"
      "slots s2 = slots (set_slot i ?q s1)" "same_payload (set_slot i ?q s1) s2"
    using Release_opt_ok [of ?old "set_slot i ?q s1" dtor_ok] by blast
  then show ?thesis using s1 False same_payload_trans [OF s1(4)] by (simp add: RefPtr_assign_def rc_inv_def)
qed

lemma destroy_ok:
  assumes "rc_inv s" "i < length (slots s)"
    and "\<And>p ob. slots s ! i = Some p \<Longrightarrow> objs s p = Some ob \<Longrightarrow> refs p s = 1 \<Longrightarrow> dtor_ok (payload ob)"
  shows "\<exists>s'. RefPtr_destroy dtor_ok i s = Inr s' \<and> rc_inv s' \<and> slots s' = (slots s)[i := None] \<and>
    (\<forall>p. slots s ! i = Some p \<longrightarrow> (objs s' p = None \<longleftrightarrow> refs p s = 1)) \<and> same_payload s s'"
proof -
  let ?t = "set_slot i None s"
  have r: "refs p ?t + 1 = refs p s" if "slots s ! i = Some p" for p
    using refs_set_slot [OF assms(2), of p None] that by simp
  have "rc_off (slots s ! i) ?t" using rc_off_give assms(1,2) unfolding rc_inv_def by blast
  moreover have "dtor_ok (payload ob)" if "slots s ! i = Some p" "objs ?t p = Some ob" "refs p ?t = 0" for p ob
    using assms(3) [of p ob] r [OF that(1)] that by simp
  ultimately obtain s' where "Release_opt dtor_ok (slots s ! i) ?t = Inr s'" "rc_off None s'"
      "slots s' = slots ?t" "same_payload ?t s'" "\<forall>p. slots s ! i = Some p \<longrightarrow> (objs s' p = None \<longleftrightarrow> refs p ?t = 0)"
    using Release_opt_ok [of "slots s ! i" ?t dtor_ok] by blast
  then show ?thesis using r by (auto simp: RefPtr_destroy_def rc_inv_def)
qed

lemma raw_ok:
  assumes "rc_inv s" "i < length (slots s)" "length (slots s) < 2 ^ 32 - 1"
  shows "\<exists>s'. RefPtr_raw (slots s ! i) s = Inr s' \<and> rc_inv s' \<and> slots s' = slots s @ [slots s ! i] \<and>
    same_payload s s'"
proof -
  have "objs s p \<noteq> None" if "slots s ! i = Some p" for p
    using assms(1) that nth_mem [OF assms(2)] by (auto simp: rc_inv_def rc_off_def)
  then obtain s1 where "AddRef_opt (slots s ! i) s = Inr s1" "rc_off (slots s ! i) s1" "slots s1 = slots s"
      "same_payload s s1"
    using AddRef_opt_ok [of s "slots s ! i"] assms(1,3) unfolding rc_inv_def by blast
  then show ?thesis by (simp add: RefPtr_raw_def rc_inv_def rc_off_new)
qed

lemma assign_move_ok:
  assumes "rc_inv s" "i < length (slots s)" "j < length (slots s)"
    "\<And>p ob. slots s ! i = Some p \<Longrightarrow> objs s p = Some ob \<Longrightarrow> refs p s = 1 \<Longrightarrow> dtor_ok (payload ob)"
  shows "\<exists>s'. RefPtr_assign_move dtor_ok i j s = Inr s' \<and> rc_inv s' \<and>
    slots s' = (slots s)[j := None, i := slots s ! j] \<and> same_payload s s'"
proof -
  let ?q = "slots s ! j" and ?s1 = "set_slot j None s"
  have "rc_off ?q ?s1" using rc_off_give assms(1,3) unfolding rc_inv_def by blast
  then have "rc_off (slots ?s1 ! i) (set_slot i ?q ?s1)" using rc_off_exchange [of ?q ?s1 i] assms(2) by simp
  moreover have "dtor_ok (payload ob)" if p: "slots ?s1 ! i = Some p" "objs (set_slot i ?q ?s1) p = Some ob"
      "refs p (set_slot i ?q ?s1) = 0" for p ob
  proof -
    have "i \<noteq> j" using p(1) assms(3) by auto
    moreover have "slots s ! i = Some p" using p(1) \<open>i \<noteq> j\<close> by simp
    moreover have "refs p s = 1"
      using refs_set_slot [of i ?s1 p ?q] refs_set_slot [of j s p None] assms(2,3) p
      by (simp split: if_splits)
    ultimately show ?thesis using assms(4) p(2) by simp
  qed
  ultimately obtain s' where "Release_opt dtor_ok (slots ?s1 ! i) (set_slot i ?q ?s1) = Inr s'" "rc_off None s'"
      "slots s' = slots (set_slot i ?q ?s1)" "same_payload (set_slot i ?q ?s1) s'"
    using Release_opt_ok [of "slots ?s1 ! i" "set_slot i ?q ?s1" dtor_ok] by blast
  then show ?thesis by (simp add: RefPtr_assign_move_def Let_def rc_inv_def)
qed

lemma swap_ok:
  assumes "rc_inv s" "i < length (slots s)" "j < length (slots s)"
  shows "rc_inv (RefPtr_swap i j s)"
proof -
  let ?s1 = "set_slot i (slots s ! j) s"
  have m: "mset (slots (RefPtr_swap i j s)) = mset (slots s)"
    using assms(2,3) by (simp add: RefPtr_swap_def mset_swap)
  then have "refs p (RefPtr_swap i j s) = refs p s" for p by (simp add: refs_def)
  moreover have "set (slots (RefPtr_swap i j s)) = set (slots s)" using m by (rule mset_eq_setD)
  moreover have "objs (RefPtr_swap i j s) = objs s" "next_obj (RefPtr_swap i j s) = next_obj s"
    "deleted (RefPtr_swap i j s) = deleted s" by (simp_all add: RefPtr_swap_def)
  ultimately show ?thesis using assms(1) unfolding rc_inv_def rc_off_def by simp
qed

lemma move_ok:
  "rc_inv s \<Longrightarrow> i < length (slots s) \<Longrightarrow> rc_inv (RefPtr_move i s)"
  unfolding RefPtr_move_def rc_inv_def by (rule rc_off_new) (rule rc_off_give)

lemma null_ok: "rc_inv s \<Longrightarrow> rc_inv (RefPtr_null s)"
  unfolding RefPtr_null_def rc_inv_def by (rule rc_off_new)

lemma run_ok:
  assumes "rc_inv s" "event_ok e s" "length (slots s) < 2 ^ 32 - 1" "\<And>x. dtor_ok x"
  shows "\<exists>t. ptr_run dtor_ok e s = Inr t \<and> rc_inv t"
proof (cases e)
  case (Make x)
  then show ?thesis using MakeRefCounted_ok [OF assms(1)] by auto
next
  case (Raw i)
  then show ?thesis using raw_ok [OF assms(1)] assms(2,3) by (auto simp: RefPtr_get_def)
next
  case (Copy i)
  then show ?thesis using raw_ok [OF assms(1)] assms(2,3) by (auto simp: RefPtr_copy_def RefPtr_raw_def)
next
  case (Drop i)
  then show ?thesis using destroy_ok [where dtor_ok = dtor_ok, OF assms(1)] assms(2,4) by fastforce
next
  case (Assign i j)
  then show ?thesis using assign_ok [where dtor_ok = dtor_ok, OF assms(1) _ _ assms(3)] assms(2,4) by fastforce
next
  case (Assign_Move i j)
  then show ?thesis using assign_move_ok [where dtor_ok = dtor_ok, OF assms(1)] assms(2,4) by fastforce
qed (use assms in \<open>auto intro: null_ok move_ok swap_ok\<close>)

interpretation rc: transition_system "\<lambda>s. s = empty_store" "ptr_step (\<lambda>_. True)" rc_inv
proof
  show "s = empty_store \<Longrightarrow> rc_inv s" for s :: "'a store"
    by (simp add: empty_store_def rc_inv_def rc_off_def)
  show "rc_inv t" if "rc_inv s" "ptr_step (\<lambda>_. True) s e t" for s t :: "'a store" and e
    using that(2)
  proof (cases rule: ptr_step.cases)
    case 1
    then show ?thesis using run_ok [OF that(1), of e "\<lambda>_. True"] by auto
  qed
qed

subsection \<open>Properties\<close>

text \<open>
  C24: In every reachable state the next operation on existing pointers succeeds, without a failed
  check or an access to a deleted object, the counter of an object is the number of pointers to
  it, and an object is deleted exactly when no pointer is left, and only once.
\<close>

theorem ref_counts_exact:
  assumes "reachable_from (\<lambda>s. s = empty_store) (ptr_step (\<lambda>_. True)) s"
  shows "(\<forall>e. event_ok e s \<and> length (slots s) < 2 ^ 32 - 1 \<longrightarrow> (\<exists>t. ptr_run (\<lambda>_. True) e s = Inr t)) \<and>
    (\<forall>p ob. objs s p = Some ob \<longrightarrow> unat (ref_count ob) = count (mset (slots s)) (Some p)) \<and>
    distinct (deleted s) \<and> set (deleted s) = {p. p < next_obj s \<and> Some p \<notin> set (slots s)}"
proof -
  have inv: "rc_inv s" by (rule rc.reachable_inv [OF assms])
  have "objs s p \<noteq> None \<longleftrightarrow> Some p \<in> set (slots s)" for p
    using inv refs_positive [of p s] by (auto simp: rc_inv_def rc_off_def refs_def)
  then have "{p. p < next_obj s \<and> objs s p = None} = {p. p < next_obj s \<and> Some p \<notin> set (slots s)}"
    by blast
  moreover have "\<forall>e. event_ok e s \<and> length (slots s) < 2 ^ 32 - 1 \<longrightarrow> (\<exists>t. ptr_run (\<lambda>_. True) e s = Inr t)"
    using run_ok [OF inv, of _ "\<lambda>_. True"] by blast
  ultimately show ?thesis using inv unfolding rc_inv_def rc_off_def refs_def by simp
qed

theorem ref_counts_exact_witness:
  "\<exists>s :: nat store. reachable_from (\<lambda>s. s = empty_store) (ptr_step (\<lambda>_. True)) s \<and>
     slots s = [None, Some 1] \<and> deleted s = [0] \<and>
     set (deleted s) = {p. p < next_obj s \<and> Some p \<notin> set (slots s)}"
proof -
  let ?R = "reachable_from (\<lambda>s :: nat store. s = empty_store) (ptr_step (\<lambda>_. True))"
  let ?ob = "\<lambda>x :: nat. \<lparr>ref_count = 1, adoption_required = False, destruction_started = False, payload = x\<rparr>"
  have "?R empty_store" by (rule reach_start) simp
  then have "?R \<lparr>objs = [0 \<mapsto> ?ob 7], next_obj = 1, slots = [Some 0], deleted = []\<rparr>"
    by (rule reach_step [where e = "Make 7"])
      (rule ptr_step.intros, simp_all add: MakeRefCounted_def AdoptRef_def Adopt_def access_def
        empty_store_def RefCountedThreadSafeBase_def put_obj_def new_slot_def)
  then have "?R \<lparr>objs = [0 \<mapsto> ?ob 7, 1 \<mapsto> ?ob 8], next_obj = 2, slots = [Some 0, Some 1], deleted = []\<rparr>"
    by (rule reach_step [where e = "Make 8"])
      (rule ptr_step.intros, simp_all add: MakeRefCounted_def AdoptRef_def Adopt_def access_def
        RefCountedThreadSafeBase_def put_obj_def new_slot_def)
  then have r: "?R \<lparr>objs = [1 \<mapsto> ?ob 8], next_obj = 2, slots = [None, Some 1], deleted = [0]\<rparr>"
    by (rule reach_step [where e = "Drop 0"])
      (rule ptr_step.intros, simp_all add: RefPtr_destroy_def Release_opt_def Release_def
        Release_base_def delete_obj_def access_def put_obj_def set_slot_def Let_def fun_upd_twist)
  from ref_counts_exact [OF r] r show ?thesis by (intro exI conjI) (assumption, simp_all)
qed

end
