(* ===== verification/Weak_Ptr.thy ===== *)
theory Weak_Ptr
  imports Ref_Counted
begin

text \<open>
  Weak pointers: \<^verbatim>\<open>src/fml/memory/weak_ptr.h\<close> and \<^verbatim>\<open>weak_ptr_internal.{h,cc}\<close>. A factory and the weak
  pointers it gave out share a reference counted flag, which the factory clears when it is
  destroyed together with its target. The flags are objects of the store of \<^verbatim>\<open>Ref_Counted\<close>, with
  the payload \<open>is_valid_\<close>; each factory and weak pointer names the slot of its \<open>flag_\<close>. Whether an
  operation runs on the thread of the factory is a parameter.
\<close>

subsection \<open>Flags\<close>

definition WeakPtrFlag :: "bool store \<Rightarrow> bool store result" where
  "WeakPtrFlag s = MakeRefCounted True s"

definition WeakPtrFlag_dtor_ok :: "bool \<Rightarrow> bool" where
  "WeakPtrFlag_dtor_ok valid \<longleftrightarrow> \<not> valid"

definition Invalidate :: "nat \<Rightarrow> bool store \<Rightarrow> bool store result" where
  "Invalidate p s =
     rbind (access p s) (\<lambda>ob.
     rbind (guard Dcheck_Failed (payload ob)) (\<lambda>_. Inr (put_obj p (ob\<lparr>payload := False\<rparr>) s)))"

subsection \<open>Factories and weak pointers\<close>

text \<open>
  \<open>fflag\<close>, \<open>falive\<close> and \<open>maker\<close> are history: the flag of a factory, whether the factory exists, and
  the factory a weak pointer comes from.
\<close>

record factory =
  target :: nat
  fslot :: nat
  fflag :: nat
  falive :: bool

record weak_ptr =
  wptr :: "nat option"
  wslot :: nat
  maker :: "nat option"

record weak_system =
  flags :: "bool store"
  factories :: "factory list"
  weaks :: "weak_ptr list"

abbreviation slot_at :: "weak_system \<Rightarrow> nat \<Rightarrow> nat option" where
  "slot_at s i \<equiv> slots (flags s) ! i"

definition CheckThreadSafety :: "bool \<Rightarrow> unit result" where
  "CheckThreadSafety on_thread = guard Dcheck_Failed on_thread"

definition WeakPtrFactory :: "nat option \<Rightarrow> weak_system \<Rightarrow> weak_system result" where
  "WeakPtrFactory t s =
     rbind (WeakPtrFlag (flags s)) (\<lambda>f.
     rbind (of_option Dcheck_Failed t) (\<lambda>x.
     Inr (s\<lparr>flags := f, factories := factories s @
       [\<lparr>target = x, fslot = length (slots (flags s)), fflag = next_obj (flags s), falive = True\<rparr>]\<rparr>)))"

definition WeakPtrFactory_destroy :: "bool \<Rightarrow> nat \<Rightarrow> weak_system \<Rightarrow> weak_system result" where
  "WeakPtrFactory_destroy on_thread k s =
     (let fa = factories s ! k
      in rbind (CheckThreadSafety on_thread) (\<lambda>_.
         rbind (of_option Dcheck_Failed (slot_at s (fslot fa))) (\<lambda>p.
         rbind (Invalidate p (flags s)) (\<lambda>f1.
         rbind (RefPtr_destroy WeakPtrFlag_dtor_ok (fslot fa) f1) (\<lambda>f2.
         Inr (s\<lparr>flags := f2, factories := (factories s)[k := fa\<lparr>falive := False\<rparr>]\<rparr>))))))"

text \<open>The flag is cloned, and the clone is moved into the weak pointer.\<close>

definition GetWeakPtr :: "nat \<Rightarrow> weak_system \<Rightarrow> weak_system result" where
  "GetWeakPtr k s =
     (let fa = factories s ! k; n = length (slots (flags s))
      in rbind (RefPtr_copy (fslot fa) (flags s)) (\<lambda>f.
         Inr (s\<lparr>flags := RefPtr_move n f,
           weaks := weaks s @ [\<lparr>wptr = Some (target fa), wslot = Suc n, maker = Some k\<rparr>]\<rparr>)))"

definition WeakPtr_null :: "weak_system \<Rightarrow> weak_system" where
  "WeakPtr_null s = s\<lparr>flags := RefPtr_null (flags s),
     weaks := weaks s @ [\<lparr>wptr = None, wslot = length (slots (flags s)), maker = None\<rparr>]\<rparr>"

definition WeakPtr_copy :: "nat \<Rightarrow> weak_system \<Rightarrow> weak_system result" where
  "WeakPtr_copy i s =
     rbind (RefPtr_copy (wslot (weaks s ! i)) (flags s)) (\<lambda>f.
     Inr (s\<lparr>flags := f, weaks := weaks s @ [(weaks s ! i)\<lparr>wslot := length (slots (flags s))\<rparr>]\<rparr>))"

definition WeakPtr_move :: "nat \<Rightarrow> weak_system \<Rightarrow> weak_system" where
  "WeakPtr_move i s =
     s\<lparr>flags := RefPtr_move (wslot (weaks s ! i)) (flags s),
       weaks := weaks s @ [(weaks s ! i)\<lparr>wslot := length (slots (flags s))\<rparr>]\<rparr>"

definition WeakPtr_assign :: "nat \<Rightarrow> nat \<Rightarrow> weak_system \<Rightarrow> weak_system result" where
  "WeakPtr_assign i j s =
     rbind (RefPtr_assign WeakPtrFlag_dtor_ok (wslot (weaks s ! i)) (wslot (weaks s ! j)) (flags s)) (\<lambda>f.
     Inr (s\<lparr>flags := f, weaks := (weaks s)[i := (weaks s ! j)\<lparr>wslot := wslot (weaks s ! i)\<rparr>]\<rparr>))"

definition WeakPtr_assign_move :: "nat \<Rightarrow> nat \<Rightarrow> weak_system \<Rightarrow> weak_system result" where
  "WeakPtr_assign_move i j s =
     rbind (RefPtr_assign_move WeakPtrFlag_dtor_ok (wslot (weaks s ! i)) (wslot (weaks s ! j)) (flags s))
       (\<lambda>f. Inr (s\<lparr>flags := f, weaks := (weaks s)[i := (weaks s ! j)\<lparr>wslot := wslot (weaks s ! i)\<rparr>]\<rparr>))"

text \<open>The flag is assigned from a temporary null pointer.\<close>

definition WeakPtr_reset :: "nat \<Rightarrow> weak_system \<Rightarrow> weak_system result" where
  "WeakPtr_reset i s =
     rbind (RefPtr_assign_move WeakPtrFlag_dtor_ok (wslot (weaks s ! i)) (length (slots (flags s)))
       (RefPtr_null (flags s))) (\<lambda>f. Inr (s\<lparr>flags := f\<rparr>))"

definition WeakPtr_destroy :: "nat \<Rightarrow> weak_system \<Rightarrow> weak_system result" where
  "WeakPtr_destroy i s =
     rbind (RefPtr_destroy WeakPtrFlag_dtor_ok (wslot (weaks s ! i)) (flags s)) (\<lambda>f.
     Inr (s\<lparr>flags := f\<rparr>))"

definition WeakPtr_to_bool :: "bool \<Rightarrow> nat \<Rightarrow> weak_system \<Rightarrow> bool result" where
  "WeakPtr_to_bool on_thread i s =
     rbind (CheckThreadSafety on_thread) (\<lambda>_.
       case slot_at s (wslot (weaks s ! i)) of
         None \<Rightarrow> Inr False
       | Some p \<Rightarrow> rbind (access p (flags s)) (\<lambda>ob. Inr (payload ob)))"

definition WeakPtr_get :: "bool \<Rightarrow> nat \<Rightarrow> weak_system \<Rightarrow> nat option result" where
  "WeakPtr_get on_thread i s =
     rbind (CheckThreadSafety on_thread) (\<lambda>_.
     rbind (WeakPtr_to_bool on_thread i s) (\<lambda>b. Inr (if b then wptr (weaks s ! i) else None)))"

definition WeakPtr_deref :: "bool \<Rightarrow> nat \<Rightarrow> weak_system \<Rightarrow> nat result" where
  "WeakPtr_deref on_thread i s =
     rbind (CheckThreadSafety on_thread) (\<lambda>_.
     rbind (WeakPtr_to_bool on_thread i s) (\<lambda>b.
     rbind (guard Dcheck_Failed b) (\<lambda>_.
     rbind (WeakPtr_get on_thread i s) (\<lambda>p. of_option Undefined_Behaviour p))))"

datatype weak_event =
    New_Factory nat | Destroy_Factory nat | Get nat | Null_Weak | Copy_Weak nat | Move_Weak nat
  | Assign_Weak nat nat | Assign_Move_Weak nat nat | Reset_Weak nat | Destroy_Weak nat

fun weak_run :: "weak_event \<Rightarrow> weak_system \<Rightarrow> weak_system result" where
  "weak_run (New_Factory t) s = WeakPtrFactory (Some t) s"
| "weak_run (Destroy_Factory k) s = WeakPtrFactory_destroy True k s"
| "weak_run (Get k) s = GetWeakPtr k s"
| "weak_run Null_Weak s = Inr (WeakPtr_null s)"
| "weak_run (Copy_Weak i) s = WeakPtr_copy i s"
| "weak_run (Move_Weak i) s = Inr (WeakPtr_move i s)"
| "weak_run (Assign_Weak i j) s = WeakPtr_assign i j s"
| "weak_run (Assign_Move_Weak i j) s = WeakPtr_assign_move i j s"
| "weak_run (Reset_Weak i) s = WeakPtr_reset i s"
| "weak_run (Destroy_Weak i) s = WeakPtr_destroy i s"

text \<open>The variables an event names exist, and there is room for the counter.\<close>

fun weak_event_ok :: "weak_event \<Rightarrow> weak_system \<Rightarrow> bool" where
  "weak_event_ok (New_Factory t) s \<longleftrightarrow> True"
| "weak_event_ok (Destroy_Factory k) s \<longleftrightarrow> k < length (factories s) \<and> falive (factories s ! k)"
| "weak_event_ok (Get k) s \<longleftrightarrow> k < length (factories s) \<and> falive (factories s ! k)"
| "weak_event_ok Null_Weak s \<longleftrightarrow> True"
| "weak_event_ok (Copy_Weak i) s \<longleftrightarrow> i < length (weaks s)"
| "weak_event_ok (Move_Weak i) s \<longleftrightarrow> i < length (weaks s)"
| "weak_event_ok (Assign_Weak i j) s \<longleftrightarrow> i < length (weaks s) \<and> j < length (weaks s)"
| "weak_event_ok (Assign_Move_Weak i j) s \<longleftrightarrow> i < length (weaks s) \<and> j < length (weaks s)"
| "weak_event_ok (Reset_Weak i) s \<longleftrightarrow> i < length (weaks s)"
| "weak_event_ok (Destroy_Weak i) s \<longleftrightarrow> i < length (weaks s)"

inductive weak_step :: "weak_system \<Rightarrow> weak_event \<Rightarrow> weak_system \<Rightarrow> bool" where
  "weak_event_ok e s \<Longrightarrow> length (slots (flags s)) < 2 ^ 32 - 1 \<Longrightarrow> weak_run e s = Inr t \<Longrightarrow>
   weak_step s e t"

definition no_weaks :: weak_system where
  "no_weaks = \<lparr>flags = empty_store, factories = [], weaks = []\<rparr>"

subsection \<open>The invariant\<close>

definition own_slots :: "weak_system \<Rightarrow> nat list" where
  "own_slots s = map fslot (factories s) @ map wslot (weaks s)"

definition live_flags :: "weak_system \<Rightarrow> nat set" where
  "live_flags s = fflag ` {fa \<in> set (factories s). falive fa}"

definition weak_ok :: "factory list \<Rightarrow> nat option \<Rightarrow> weak_ptr \<Rightarrow> bool" where
  "weak_ok fs q w =
     (case maker w of
        None \<Rightarrow> q = None
      | Some k \<Rightarrow> k < length fs \<and> wptr w = Some (target (fs ! k)) \<and> (q = None \<or> q = Some (fflag (fs ! k))))"

definition wp_inv :: "weak_system \<Rightarrow> bool" where
  "wp_inv s \<longleftrightarrow> rc_inv (flags s) \<and> distinct (own_slots s) \<and>
     (\<forall>i \<in> set (own_slots s). i < length (slots (flags s))) \<and>
     (\<forall>fa \<in> set (factories s). fflag fa < next_obj (flags s) \<and>
        slot_at s (fslot fa) = (if falive fa then Some (fflag fa) else None)) \<and>
     distinct (map fflag (factories s)) \<and>
     (\<forall>w \<in> set (weaks s). weak_ok (factories s) (slot_at s (wslot w)) w) \<and>
     (\<forall>p ob. objs (flags s) p = Some ob \<longrightarrow> (payload ob \<longleftrightarrow> p \<in> live_flags s))"

lemma wp_inv_bounds:
  assumes "wp_inv s"
  shows "i < length (weaks s) \<Longrightarrow> wslot (weaks s ! i) < length (slots (flags s))"
    "k < length (factories s) \<Longrightarrow> fslot (factories s ! k) < length (slots (flags s))"
  using assms by (auto simp: wp_inv_def own_slots_def)

lemma weak_slots_differ:
  assumes "wp_inv s" "i < length (weaks s)"
  shows "fa \<in> set (factories s) \<Longrightarrow> fslot fa \<noteq> wslot (weaks s ! i)"
    "j < length (weaks s) \<Longrightarrow> j \<noteq> i \<Longrightarrow> wslot (weaks s ! j) \<noteq> wslot (weaks s ! i)"
proof -
  have d: "distinct (map fslot (factories s) @ map wslot (weaks s))"
    using assms(1) by (simp add: wp_inv_def own_slots_def)
  show "fa \<in> set (factories s) \<Longrightarrow> fslot fa \<noteq> wslot (weaks s ! i)"
    using d assms(2) by (auto simp: disjoint_iff)
  show "j < length (weaks s) \<Longrightarrow> j \<noteq> i \<Longrightarrow> wslot (weaks s ! j) \<noteq> wslot (weaks s ! i)"
    using d assms(2) nth_eq_iff_index_eq [of "map wslot (weaks s)" j i] by auto
qed

text \<open>A flag that a factory holds is not deleted with another pointer to it.\<close>

lemma two_refs:
  assumes "i < length (slots s)" "j < length (slots s)" "i \<noteq> j" "slots s ! i = Some p" "slots s ! j = Some p"
  shows "refs p s \<noteq> 1"
proof -
  have "refs p (set_slot i None s) + 1 = refs p s"
    using refs_set_slot [OF assms(1), of p None] assms(4) by simp
  moreover have "Some p \<in> set (slots (set_slot i None s))"
    using assms nth_mem [of j "slots (set_slot i None s)"] by simp
  then have "0 < refs p (set_slot i None s)" by (rule refs_positive)
  ultimately show ?thesis by linarith
qed

lemma weak_release:
  assumes "wp_inv s" "i < length (weaks s)" "slot_at s (wslot (weaks s ! i)) = Some p"
    "objs (flags s) p = Some ob" "refs p (flags s) = 1"
  shows "WeakPtrFlag_dtor_ok (payload ob)"
proof (rule ccontr)
  assume "\<not> WeakPtrFlag_dtor_ok (payload ob)"
  then have "p \<in> live_flags s" using assms(1,4) by (auto simp: WeakPtrFlag_dtor_ok_def wp_inv_def)
  then obtain fa where fa: "fa \<in> set (factories s)" "falive fa" "fflag fa = p"
    by (auto simp: live_flags_def)
  then have "slot_at s (fslot fa) = Some p" "fslot fa < length (slots (flags s))"
    using assms(1) by (auto simp: wp_inv_def own_slots_def)
  then show False
    using two_refs [of "fslot fa" "flags s" "wslot (weaks s ! i)" p] wp_inv_bounds(1) [OF assms(1,2)]
      weak_slots_differ(1) [OF assms(1,2) fa(1)] assms(3,5) by blast
qed

lemma weak_ok_slot [simp]: "weak_ok fs q (w\<lparr>wslot := n\<rparr>) = weak_ok fs q w"
  by (simp add: weak_ok_def split: option.split)

text \<open>An operation that changes only weak pointers.\<close>

lemma wp_inv_weaks:
  assumes "wp_inv s" "rc_inv f" "same_payload (flags s) f"
    and "distinct (map fslot (factories s) @ map wslot ws)"
    and "\<forall>i \<in> set (map fslot (factories s) @ map wslot ws). i < length (slots f)"
    and "\<And>fa. fa \<in> set (factories s) \<Longrightarrow> slots f ! fslot fa = slot_at s (fslot fa)"
    and "\<And>w. w \<in> set ws \<Longrightarrow> weak_ok (factories s) (slots f ! wslot w) w"
  shows "wp_inv (s\<lparr>flags := f, weaks := ws\<rparr>)"
proof -
  have "payload ob \<longleftrightarrow> p \<in> live_flags s" if ob: "objs f p = Some ob" for p ob
  proof -
    obtain ob0 where "objs (flags s) p = Some ob0" "payload ob0 = payload ob"
      using assms(3) ob unfolding same_payload_def by blast
    then show ?thesis using assms(1) unfolding wp_inv_def by metis
  qed
  moreover have "next_obj f = next_obj (flags s)" using assms(3) by (simp add: same_payload_def)
  ultimately show ?thesis using assms unfolding wp_inv_def
    by (simp add: own_slots_def live_flags_def)
qed

lemma weak_ok_at: "wp_inv s \<Longrightarrow> i < length (weaks s) \<Longrightarrow>
    weak_ok (factories s) (slot_at s (wslot (weaks s ! i))) (weaks s ! i)"
  by (simp add: wp_inv_def)

text \<open>One more weak pointer, in a new slot.\<close>

lemma wp_inv_append:
  assumes "wp_inv s" "rc_inv f" "same_payload (flags s) f"
    and "\<And>i. i \<in> set (own_slots s) \<Longrightarrow> slots f ! i = slot_at s i \<or> (i \<in> wslot ` set (weaks s) \<and> slots f ! i = None)"
    and "length (slots (flags s)) \<le> wslot w" "wslot w < length (slots f)"
    and "weak_ok (factories s) (slots f ! wslot w) w"
  shows "wp_inv (s\<lparr>flags := f, weaks := weaks s @ [w]\<rparr>)"
proof (rule wp_inv_weaks [OF assms(1-3)])
  have b: "\<And>i. i \<in> set (own_slots s) \<Longrightarrow> i < length (slots (flags s))" and d: "distinct (own_slots s)"
    using assms(1) by (auto simp: wp_inv_def)
  then have "wslot w \<notin> set (own_slots s)" using assms(5) by (meson not_le)
  then show "distinct (map fslot (factories s) @ map wslot (weaks s @ [w]))"
    using d by (auto simp: own_slots_def)
  show "\<forall>i \<in> set (map fslot (factories s) @ map wslot (weaks s @ [w])). i < length (slots f)"
    using b assms(5,6) by (force simp: own_slots_def)
  show "slots f ! fslot fa = slot_at s (fslot fa)" if "fa \<in> set (factories s)" for fa
    using assms(4) [of "fslot fa"] d that by (auto simp: own_slots_def)
  show "weak_ok (factories s) (slots f ! wslot v) v" if "v \<in> set (weaks s @ [w])" for v
  proof (cases "v = w")
    case False
    then have v: "v \<in> set (weaks s)" using that by simp
    then have "weak_ok (factories s) (slot_at s (wslot v)) v" using assms(1) by (simp add: wp_inv_def)
    moreover have "wslot v \<in> set (own_slots s)" using v by (simp add: own_slots_def)
    ultimately show ?thesis using assms(4) [of "wslot v"] by (auto simp: weak_ok_def split: option.splits)
  qed (use assms(7) in simp)
qed

lemma nth_append_slots: "i < length xs \<Longrightarrow> (xs @ ys) ! i = xs ! i"
  by (simp add: nth_append)

lemma own_bound: "wp_inv s \<Longrightarrow> i \<in> set (own_slots s) \<Longrightarrow> i < length (slots (flags s))"
  by (simp add: wp_inv_def)

lemma copy_run:
  assumes "wp_inv s" "i < length (weaks s)" "length (slots (flags s)) < 2 ^ 32 - 1"
  shows "\<exists>t. WeakPtr_copy i s = Inr t \<and> wp_inv t"
proof -
  let ?w = "weaks s ! i" and ?n = "length (slots (flags s))"
  have b: "wslot ?w < ?n" by (rule wp_inv_bounds(1) [OF assms(1,2)])
  obtain f where f: "RefPtr_copy (wslot ?w) (flags s) = Inr f" "rc_inv f"
      "slots f = slots (flags s) @ [slot_at s (wslot ?w)]" "same_payload (flags s) f"
    using raw_ok [of "flags s" "wslot ?w"] assms(1,3) b
    by (auto simp: wp_inv_def RefPtr_copy_def RefPtr_raw_def)
  have "wp_inv (s\<lparr>flags := f, weaks := weaks s @ [?w\<lparr>wslot := ?n\<rparr>]\<rparr>)"
    using f weak_ok_at [OF assms(1,2)] own_bound [OF assms(1)]
    by (intro wp_inv_append [OF assms(1)]) (auto simp: nth_append_slots)
  then show ?thesis using f(1) by (simp add: WeakPtr_copy_def)
qed

lemma same_payload_move [simp]: "same_payload s (RefPtr_move i t) = same_payload s t"
  by (simp add: RefPtr_move_def)

lemma slots_move [simp]: "slots (RefPtr_move i t) = (slots t)[i := None] @ [slots t ! i]"
  by (simp add: RefPtr_move_def)

lemma move_run:
  assumes "wp_inv s" "i < length (weaks s)"
  shows "wp_inv (WeakPtr_move i s)"
  unfolding WeakPtr_move_def
proof (rule wp_inv_append [OF assms(1)])
  let ?w = "weaks s ! i"
  have b: "wslot ?w < length (slots (flags s))" by (rule wp_inv_bounds(1) [OF assms])
  then show "rc_inv (RefPtr_move (wslot ?w) (flags s))"
    using assms(1) by (intro move_ok) (auto simp: wp_inv_def)
  show "slots (RefPtr_move (wslot ?w) (flags s)) ! j = slot_at s j \<or>
      (j \<in> wslot ` set (weaks s) \<and> slots (RefPtr_move (wslot ?w) (flags s)) ! j = None)"
    if "j \<in> set (own_slots s)" for j
    using own_bound [OF assms(1) that] assms(2)
    by (cases "j = wslot ?w") (auto simp: nth_append_slots)
  show "weak_ok (factories s) (slots (RefPtr_move (wslot ?w) (flags s)) !
      wslot (?w\<lparr>wslot := length (slots (flags s))\<rparr>)) (?w\<lparr>wslot := length (slots (flags s))\<rparr>)"
    using weak_ok_at [OF assms] by (simp add: nth_append)
qed simp_all

lemma null_store:
  "slots (RefPtr_null s) = slots s @ [None]" "objs (RefPtr_null s) = objs s"
  "same_payload s (RefPtr_null s)" "refs p (RefPtr_null s) = refs p s"
  by (simp_all add: RefPtr_null_def)

lemma null_run:
  assumes "wp_inv s"
  shows "wp_inv (WeakPtr_null s)"
  unfolding WeakPtr_null_def
proof (rule wp_inv_append [OF assms])
  show "rc_inv (RefPtr_null (flags s))" using assms by (simp add: wp_inv_def null_ok)
qed (use own_bound [OF assms] in \<open>simp_all add: null_store nth_append_slots weak_ok_def\<close>)

lemma get_run:
  assumes "wp_inv s" "k < length (factories s)" "falive (factories s ! k)"
    "length (slots (flags s)) < 2 ^ 32 - 1"
  shows "\<exists>t. GetWeakPtr k s = Inr t \<and> wp_inv t"
proof -
  let ?fa = "factories s ! k" and ?n = "length (slots (flags s))"
  let ?w = "\<lparr>wptr = Some (target ?fa), wslot = Suc ?n, maker = Some k\<rparr>"
  have b: "fslot ?fa < ?n" by (rule wp_inv_bounds(2) [OF assms(1,2)])
  obtain f where f: "RefPtr_copy (fslot ?fa) (flags s) = Inr f" "rc_inv f"
      "slots f = slots (flags s) @ [slot_at s (fslot ?fa)]" "same_payload (flags s) f"
    using raw_ok [of "flags s" "fslot ?fa"] assms(1,4) b
    by (auto simp: wp_inv_def RefPtr_copy_def RefPtr_raw_def)
  have "slot_at s (fslot ?fa) = Some (fflag ?fa)" using assms(1-3) by (simp add: wp_inv_def)
  then have "wp_inv (s\<lparr>flags := RefPtr_move ?n f, weaks := weaks s @ [?w]\<rparr>)"
    using f own_bound [OF assms(1)] assms(2)
    by (intro wp_inv_append [OF assms(1)])
      (auto simp: nth_append_slots nth_append weak_ok_def intro: move_ok)
  then show ?thesis using f(1) by (simp add: GetWeakPtr_def Let_def)
qed

text \<open>Assignments leave the slots of all others alone.\<close>

lemma wp_inv_assigned:
  assumes "wp_inv s" "i < length (weaks s)" "rc_inv f" "same_payload (flags s) f"
    and "length (slots (flags s)) \<le> length (slots f)"
    and "\<And>m. m \<in> set (own_slots s) \<Longrightarrow> m \<noteq> wslot (weaks s ! i) \<Longrightarrow>
      slots f ! m = slot_at s m \<or> (m \<in> wslot ` set (weaks s) \<and> slots f ! m = None)"
    and "weak_ok (factories s) (slots f ! wslot (weaks s ! i)) w" "wslot w = wslot (weaks s ! i)"
  shows "wp_inv (s\<lparr>flags := f, weaks := (weaks s)[i := w]\<rparr>)"
proof (rule wp_inv_weaks [OF assms(1,3,4)])
  have ws: "map wslot ((weaks s)[i := w]) = map wslot (weaks s)"
    using assms(2,8) by (simp add: map_update list_update_same_conv)
  show "distinct (map fslot (factories s) @ map wslot ((weaks s)[i := w]))"
    unfolding ws using assms(1) by (simp add: wp_inv_def own_slots_def)
  show "\<forall>j \<in> set (map fslot (factories s) @ map wslot ((weaks s)[i := w])). j < length (slots f)"
    unfolding ws using own_bound [OF assms(1)] assms(5) by (force simp: own_slots_def)
  show "slots f ! fslot fa = slot_at s (fslot fa)" if "fa \<in> set (factories s)" for fa
    using assms(6) [of "fslot fa"] weak_slots_differ(1) [OF assms(1,2) that] that assms(1)
    by (auto simp: own_slots_def wp_inv_def disjoint_iff)
  show "weak_ok (factories s) (slots f ! wslot v) v" if v: "v \<in> set ((weaks s)[i := w])" for v
  proof -
    obtain j where j: "j < length (weaks s)" "v = (weaks s)[i := w] ! j"
      using v by (metis in_set_conv_nth length_list_update)
    show ?thesis
    proof (cases "j = i")
      case True
      then show ?thesis using j assms(2,7,8) by simp
    next
      case False
      then have "v = weaks s ! j" "wslot v \<noteq> wslot (weaks s ! i)"
        using j weak_slots_differ(2) [OF assms(1,2) j(1)] by simp_all
      moreover have "wslot v \<in> set (own_slots s)" using calculation(1) j(1) by (simp add: own_slots_def)
      ultimately show ?thesis using assms(6) [of "wslot v"] weak_ok_at [OF assms(1) j(1)]
        by (auto simp: weak_ok_def split: option.splits)
    qed
  qed
qed

lemma assign_run:
  assumes "wp_inv s" "i < length (weaks s)" "j < length (weaks s)" "length (slots (flags s)) < 2 ^ 32 - 1"
  shows "\<exists>t. WeakPtr_assign i j s = Inr t \<and> wp_inv t"
proof -
  let ?wi = "wslot (weaks s ! i)" and ?wj = "wslot (weaks s ! j)"
  have b: "?wi < length (slots (flags s))" "?wj < length (slots (flags s))"
    using wp_inv_bounds(1) [OF assms(1)] assms(2,3) by auto
  obtain f where f: "RefPtr_assign WeakPtrFlag_dtor_ok ?wi ?wj (flags s) = Inr f" "rc_inv f"
      "slots f = (slots (flags s))[?wi := slot_at s ?wj]" "same_payload (flags s) f"
    using assign_ok [of "flags s" ?wi ?wj WeakPtrFlag_dtor_ok] b assms(1,4) weak_release [OF assms(1,2)]
    by (auto simp: wp_inv_def)
  have "wp_inv (s\<lparr>flags := f, weaks := (weaks s)[i := (weaks s ! j)\<lparr>wslot := ?wi\<rparr>]\<rparr>)"
    using f b weak_ok_at [OF assms(1,3)]
    by (intro wp_inv_assigned [OF assms(1,2)]) auto
  then show ?thesis using f(1) by (simp add: WeakPtr_assign_def)
qed

lemma assign_move_run:
  assumes "wp_inv s" "i < length (weaks s)" "j < length (weaks s)"
  shows "\<exists>t. WeakPtr_assign_move i j s = Inr t \<and> wp_inv t"
proof -
  let ?wi = "wslot (weaks s ! i)" and ?wj = "wslot (weaks s ! j)"
  have b: "?wi < length (slots (flags s))" "?wj < length (slots (flags s))"
    using wp_inv_bounds(1) [OF assms(1)] assms(2,3) by auto
  obtain f where f: "RefPtr_assign_move WeakPtrFlag_dtor_ok ?wi ?wj (flags s) = Inr f" "rc_inv f"
      "slots f = (slots (flags s))[?wj := None, ?wi := slot_at s ?wj]" "same_payload (flags s) f"
    using assign_move_ok [of "flags s" ?wi ?wj WeakPtrFlag_dtor_ok] b assms(1) weak_release [OF assms(1,2)]
    by (auto simp: wp_inv_def)
  have "slots f ! m = slot_at s m \<or> (m \<in> wslot ` set (weaks s) \<and> slots f ! m = None)"
    if "m \<noteq> ?wi" for m
    using that assms(3) f(3) b by (cases "m = ?wj") auto
  then have "wp_inv (s\<lparr>flags := f, weaks := (weaks s)[i := (weaks s ! j)\<lparr>wslot := ?wi\<rparr>]\<rparr>)"
    using f b weak_ok_at [OF assms(1,3)]
    by (intro wp_inv_assigned [OF assms(1,2)]) auto
  then show ?thesis using f(1) by (simp add: WeakPtr_assign_move_def)
qed

lemma weak_ok_None: "weak_ok fs q w \<Longrightarrow> weak_ok fs None w"
  by (simp add: weak_ok_def split: option.splits)

lemma destroy_run:
  assumes "wp_inv s" "i < length (weaks s)"
  shows "\<exists>t. WeakPtr_destroy i s = Inr t \<and> wp_inv t"
proof -
  let ?wi = "wslot (weaks s ! i)"
  have b: "?wi < length (slots (flags s))" by (rule wp_inv_bounds(1) [OF assms])
  obtain f where f: "RefPtr_destroy WeakPtrFlag_dtor_ok ?wi (flags s) = Inr f" "rc_inv f"
      "slots f = (slots (flags s))[?wi := None]" "same_payload (flags s) f"
    using destroy_ok [of "flags s" ?wi WeakPtrFlag_dtor_ok] b assms(1) weak_release [OF assms]
    by (auto simp: wp_inv_def)
  have "wp_inv (s\<lparr>flags := f, weaks := (weaks s)[i := weaks s ! i]\<rparr>)"
    using f b weak_ok_None [OF weak_ok_at [OF assms]]
    by (intro wp_inv_assigned [OF assms]) auto
  then show ?thesis using f(1) by (simp add: WeakPtr_destroy_def)
qed

lemma reset_run:
  assumes "wp_inv s" "i < length (weaks s)"
  shows "\<exists>t. WeakPtr_reset i s = Inr t \<and> wp_inv t"
proof -
  let ?wi = "wslot (weaks s ! i)" and ?n = "length (slots (flags s))" and ?f0 = "RefPtr_null (flags s)"
  have b: "?wi < ?n" by (rule wp_inv_bounds(1) [OF assms])
  have f0: "slots ?f0 = slots (flags s) @ [None]" "objs ?f0 = objs (flags s)" "rc_inv ?f0"
      "same_payload (flags s) ?f0"
    using assms(1) by (simp_all add: null_store null_ok wp_inv_def)
  have "refs p ?f0 = refs p (flags s)" for p by (simp add: null_store)
  then obtain f where f: "RefPtr_assign_move WeakPtrFlag_dtor_ok ?wi ?n ?f0 = Inr f" "rc_inv f"
      "slots f = (slots ?f0)[?n := None, ?wi := slots ?f0 ! ?n]" "same_payload ?f0 f"
    using assign_move_ok [of ?f0 ?wi ?n WeakPtrFlag_dtor_ok] b f0 weak_release [OF assms]
    by (auto simp: nth_append_slots)
  have "wp_inv (s\<lparr>flags := f, weaks := (weaks s)[i := weaks s ! i]\<rparr>)"
    using f b f0 weak_ok_None [OF weak_ok_at [OF assms]] same_payload_trans [OF f0(4) f(4)]
      own_bound [OF assms(1)]
    by (intro wp_inv_assigned [OF assms]) (auto simp: nth_append_slots)
  then show ?thesis using f(1) by (simp add: WeakPtr_reset_def)
qed

lemma weak_ok_append: "weak_ok fs q w \<Longrightarrow> weak_ok (fs @ gs) q w"
  by (auto simp: weak_ok_def nth_append split: option.splits)

lemma factory_run:
  assumes "wp_inv s"
  shows "\<exists>t. WeakPtrFactory (Some x) s = Inr t \<and> wp_inv t"
proof -
  let ?n = "length (slots (flags s))" and ?p = "next_obj (flags s)"
  let ?fa = "\<lparr>target = x, fslot = ?n, fflag = ?p, falive = True\<rparr>"
  obtain f where f: "MakeRefCounted True (flags s) = Inr f" "rc_inv f"
      "slots f = slots (flags s) @ [Some ?p]" "next_obj f = Suc ?p"
      "objs f = (objs (flags s))(?p \<mapsto> (RefCountedThreadSafeBase True)\<lparr>adoption_required := False\<rparr>)"
    using MakeRefCounted_ok [of "flags s" True] assms by (auto simp: wp_inv_def)
  let ?t = "s\<lparr>flags := f, factories := factories s @ [?fa]\<rparr>"
  have "{fa \<in> set (factories ?t). falive fa} = insert ?fa {fa \<in> set (factories s). falive fa}" by auto
  then have live: "live_flags ?t = insert ?p (live_flags s)" by (simp add: live_flags_def)
  have b: "i < ?n" if "i \<in> set (own_slots s)" for i by (rule own_bound [OF assms that])
  have "?n \<notin> set (own_slots s)" using b by blast
  then have d: "distinct (own_slots ?t)" using assms by (auto simp: own_slots_def wp_inv_def)
  have "\<forall>i \<in> set (own_slots ?t). i < length (slots f)"
    using b f(3) by (force simp: own_slots_def)
  moreover have "\<forall>fa \<in> set (factories ?t). fflag fa < next_obj f \<and>
      slots f ! fslot fa = (if falive fa then Some (fflag fa) else None)"
    using assms f(3,4) b by (auto simp: wp_inv_def own_slots_def nth_append_slots less_SucI)
  moreover have "distinct (map fflag (factories ?t))" using assms by (auto simp: wp_inv_def)
  moreover have "\<forall>w \<in> set (weaks ?t). weak_ok (factories ?t) (slots f ! wslot w) w"
    using assms f(3) b by (auto simp: wp_inv_def own_slots_def nth_append_slots intro: weak_ok_append)
  moreover have "payload ob \<longleftrightarrow> q \<in> live_flags ?t" if "objs f q = Some ob" for q ob
    using that f(5) assms unfolding live
    by (auto simp: wp_inv_def RefCountedThreadSafeBase_def split: if_splits)
  ultimately have "wp_inv ?t" using f(2) d unfolding wp_inv_def by simp
  then show ?thesis using f(1) by (simp add: WeakPtrFactory_def WeakPtrFlag_def)
qed

lemma live_flag_iff:
  "p \<in> live_flags s \<longleftrightarrow>
   (\<exists>m < length (factories s). falive (factories s ! m) \<and> fflag (factories s ! m) = p)"
  by (auto simp: live_flags_def image_iff set_conv_nth)

lemma Invalidate_ok:
  assumes "rc_inv s" "objs s p = Some ob" "payload ob"
  shows "Invalidate p s = Inr (put_obj p (ob\<lparr>payload := False\<rparr>) s)"
    "rc_inv (put_obj p (ob\<lparr>payload := False\<rparr>) s)"
  using assms by (simp add: Invalidate_def access_def) (use assms in \<open>auto simp: rc_inv_def rc_off_def\<close>)

lemma destroy_factory_run:
  assumes "wp_inv s" "k < length (factories s)" "falive (factories s ! k)"
  shows "\<exists>t. WeakPtrFactory_destroy True k s = Inr t \<and> wp_inv t"
proof -
  let ?fa = "factories s ! k" and ?p = "fflag (factories s ! k)"
  have fa: "?fa \<in> set (factories s)" using assms(2) by simp
  have sl: "slot_at s (fslot ?fa) = Some ?p" using assms fa by (simp add: wp_inv_def)
  have b: "fslot ?fa < length (slots (flags s))" by (rule wp_inv_bounds(2) [OF assms(1,2)])
  then have "Some ?p \<in> set (slots (flags s))" using sl nth_mem by metis
  then obtain ob where ob: "objs (flags s) ?p = Some ob"
    using assms(1) by (auto simp: wp_inv_def rc_inv_def rc_off_def)
  have "?p \<in> live_flags s" using fa assms(3) by (auto simp: live_flags_def)
  then have "payload ob" using assms(1) ob by (simp add: wp_inv_def)
  then have f1: "Invalidate ?p (flags s) = Inr (put_obj ?p (ob\<lparr>payload := False\<rparr>) (flags s))"
      "rc_inv (put_obj ?p (ob\<lparr>payload := False\<rparr>) (flags s))"
    using Invalidate_ok [of "flags s" ?p ob] ob assms(1) by (auto simp: wp_inv_def)
  let ?f1 = "put_obj ?p (ob\<lparr>payload := False\<rparr>) (flags s)"
  have "WeakPtrFlag_dtor_ok (payload ob')" if "slots ?f1 ! fslot ?fa = Some q" "objs ?f1 q = Some ob'" for q ob'
    using that sl by (auto simp: WeakPtrFlag_dtor_ok_def)
  then obtain f where f: "RefPtr_destroy WeakPtrFlag_dtor_ok (fslot ?fa) ?f1 = Inr f" "rc_inv f"
      "slots f = (slots ?f1)[fslot ?fa := None]" "same_payload ?f1 f"
    using destroy_ok [of ?f1 "fslot ?fa" WeakPtrFlag_dtor_ok] f1(2) b unfolding put_obj_fields by metis
  let ?fa' = "?fa\<lparr>falive := False\<rparr>"
  let ?t = "s\<lparr>flags := f, factories := (factories s)[k := ?fa']\<rparr>"
  have dist: "distinct (own_slots s)" "distinct (map fflag (factories s))"
    using assms(1) by (auto simp: wp_inv_def)
  have ms: "map fslot ((factories s)[k := ?fa']) = map fslot (factories s)"
      "map fflag ((factories s)[k := ?fa']) = map fflag (factories s)"
    using assms(2) by (simp_all add: map_update list_update_same_conv)
  have own: "own_slots ?t = own_slots s" using ms by (simp add: own_slots_def)
  have others: "slots f ! m = slot_at s m" if "m \<noteq> fslot ?fa" for m using f(3) that by (simp add: put_obj_fields)
  have differ: "fflag (factories s ! m) \<noteq> ?p" if "m < length (factories s)" "m \<noteq> k" for m
    using dist(2) that assms(2) by (simp add: distinct_conv_nth)
  have live: "live_flags ?t = live_flags s - {?p}"
  proof (rule set_eqI)
    fix q
    have "q \<in> live_flags ?t \<longleftrightarrow>
        (\<exists>m < length (factories s). m \<noteq> k \<and> falive (factories s ! m) \<and> fflag (factories s ! m) = q)"
      using assms(2) by (auto simp: live_flag_iff nth_list_update)
    then show "q \<in> live_flags ?t \<longleftrightarrow> q \<in> live_flags s - {?p}"
      using differ by (auto simp: live_flag_iff)
  qed
  have wneq: "wslot w \<noteq> fslot ?fa" if "w \<in> set (weaks s)" for w
    using dist(1) fa that by (auto simp: own_slots_def disjoint_iff)
  have "fflag fa < next_obj f \<and> slots f ! fslot fa = (if falive fa then Some (fflag fa) else None)"
    if mem: "fa \<in> set ((factories s)[k := ?fa'])" for fa
  proof -
    obtain m where m: "m < length (factories s)" "fa = (factories s)[k := ?fa'] ! m"
      using mem by (metis in_set_conv_nth length_list_update)
    have n: "next_obj f = next_obj (flags s)" using f(4) by (simp add: same_payload_def)
    show ?thesis
    proof (cases "m = k")
      case True
      then show ?thesis using m fa assms(1) n f(3) b by (simp add: wp_inv_def)
    next
      case False
      then have "fa = factories s ! m" "fslot fa \<noteq> fslot ?fa"
        using m assms(2) dist(1) nth_eq_iff_index_eq [of "map fslot (factories s)" m k]
        by (auto simp: own_slots_def)
      then show ?thesis using m assms(1) n others by (simp add: wp_inv_def)
    qed
  qed
  moreover have "weak_ok (factories ?t) (slots f ! wslot w) w" if w: "w \<in> set (weaks s)" for w
  proof -
    have "weak_ok (factories s) (slot_at s (wslot w)) w" using assms(1) w by (simp add: wp_inv_def)
    then show ?thesis using others [OF wneq [OF w]] assms(2)
      by (auto simp: weak_ok_def nth_list_update split: option.splits)
  qed
  moreover have "payload ob' \<longleftrightarrow> q \<in> live_flags ?t" if q: "objs f q = Some ob'" for q ob'
  proof -
    obtain ob0 where "objs ?f1 q = Some ob0" "payload ob0 = payload ob'"
      using f(4) q unfolding same_payload_def by blast
    then show ?thesis using assms(1) unfolding live wp_inv_def by (auto split: if_splits)
  qed
  ultimately have "wp_inv ?t"
    using f(2) dist own own_bound [OF assms(1)] f(3) ms unfolding wp_inv_def by simp
  then show ?thesis using f(1) f1(1) sl
    by (simp add: WeakPtrFactory_destroy_def Let_def CheckThreadSafety_def)
qed

lemma weak_run_ok:
  assumes "wp_inv s" "weak_event_ok e s" "length (slots (flags s)) < 2 ^ 32 - 1"
  shows "\<exists>t. weak_run e s = Inr t \<and> wp_inv t"
  by (cases e)
    (use assms in \<open>simp_all add: factory_run destroy_factory_run get_run null_run copy_run move_run
      assign_run assign_move_run reset_run destroy_run\<close>)

interpretation wp: transition_system "\<lambda>s. s = no_weaks" weak_step wp_inv
proof
  show "s = no_weaks \<Longrightarrow> wp_inv s" for s
    by (simp add: no_weaks_def wp_inv_def own_slots_def empty_store_def rc_inv_def rc_off_def)
  show "wp_inv t" if "wp_inv s" "weak_step s e t" for s e t
    using that(2)
  proof (cases rule: weak_step.cases)
    case 1
    then show ?thesis using weak_run_ok [OF that(1), of e] by auto
  qed
qed

subsection \<open>Properties\<close>

text \<open>
  C25: In every reachable state every operation on existing factories and weak pointers succeeds on
  the right thread, so no flag is used after it was deleted or deleted while it is valid; and a
  weak pointer that has a flag gives its target exactly as long as the factory it comes from
  exists, and null afterwards.
\<close>

theorem weak_pointers_never_dangle:
  assumes "reachable_from (\<lambda>s. s = no_weaks) weak_step s"
  shows "(\<forall>e. weak_event_ok e s \<and> length (slots (flags s)) < 2 ^ 32 - 1 \<longrightarrow> (\<exists>t. weak_run e s = Inr t)) \<and>
    (\<forall>i < length (weaks s). WeakPtr_get True i s = Inr (case maker (weaks s ! i) of
       None \<Rightarrow> None
     | Some k \<Rightarrow> if slots (flags s) ! wslot (weaks s ! i) \<noteq> None \<and> falive (factories s ! k)
         then Some (target (factories s ! k)) else None))"
proof -
  have inv: "wp_inv s" by (rule wp.reachable_inv [OF assms])
  have "WeakPtr_get True i s = Inr (case maker (weaks s ! i) of
       None \<Rightarrow> None
     | Some k \<Rightarrow> if slot_at s (wslot (weaks s ! i)) \<noteq> None \<and> falive (factories s ! k)
         then Some (target (factories s ! k)) else None)" if i: "i < length (weaks s)" for i
  proof (cases "slot_at s (wslot (weaks s ! i))")
    case None
    then show ?thesis
      by (simp add: WeakPtr_get_def WeakPtr_to_bool_def CheckThreadSafety_def split: option.split)
  next
    case (Some p)
    obtain k where k: "maker (weaks s ! i) = Some k" "k < length (factories s)"
        "wptr (weaks s ! i) = Some (target (factories s ! k))" "p = fflag (factories s ! k)"
      using weak_ok_at [OF inv i] Some by (auto simp: weak_ok_def split: option.splits)
    have "Some p \<in> set (slots (flags s))" using Some wp_inv_bounds(1) [OF inv i] nth_mem by metis
    then obtain ob where ob: "objs (flags s) p = Some ob"
      using inv by (auto simp: wp_inv_def rc_inv_def rc_off_def)
    then have "payload ob \<longleftrightarrow> p \<in> live_flags s" using inv by (simp add: wp_inv_def)
    also have "\<dots> \<longleftrightarrow> falive (factories s ! k)"
      using inv k(2,4) by (auto simp: live_flag_iff wp_inv_def distinct_conv_nth)
    finally show ?thesis using Some ob k(1,3)
      by (simp add: WeakPtr_get_def WeakPtr_to_bool_def CheckThreadSafety_def access_def)
  qed
  then show ?thesis using weak_run_ok [OF inv] by blast
qed

theorem weak_pointers_never_dangle_witness:
  "\<exists>s. reachable_from (\<lambda>s. s = no_weaks) weak_step s \<and> weaks s \<noteq> [] \<and>
     WeakPtr_get True 0 s = Inr (Some 7)"
proof -
  let ?R = "reachable_from (\<lambda>s. s = no_weaks) weak_step"
  let ?ob = "\<lparr>ref_count = 1, adoption_required = False, destruction_started = False, payload = True\<rparr>"
  have "?R no_weaks" by (rule reach_start) simp
  then have "?R \<lparr>flags = \<lparr>objs = [0 \<mapsto> ?ob], next_obj = 1, slots = [Some 0], deleted = []\<rparr>,
      factories = [\<lparr>target = 7, fslot = 0, fflag = 0, falive = True\<rparr>], weaks = []\<rparr>"
    by (rule reach_step [where e = "New_Factory 7"])
      (rule weak_step.intros, simp_all add: WeakPtrFactory_def WeakPtrFlag_def MakeRefCounted_def
        AdoptRef_def Adopt_def access_def empty_store_def no_weaks_def RefCountedThreadSafeBase_def
        put_obj_def new_slot_def)
  then have r: "?R \<lparr>flags = \<lparr>objs = [0 \<mapsto> ?ob\<lparr>ref_count := 2\<rparr>], next_obj = 1,
        slots = [Some 0, None, Some 0], deleted = []\<rparr>,
      factories = [\<lparr>target = 7, fslot = 0, fflag = 0, falive = True\<rparr>],
      weaks = [\<lparr>wptr = Some 7, wslot = 2, maker = Some 0\<rparr>]\<rparr>"
    by (rule reach_step [where e = "Get 0"])
      (rule weak_step.intros, simp_all add: GetWeakPtr_def RefPtr_copy_def AddRef_opt_def AddRef_def
        access_def put_obj_def new_slot_def RefPtr_move_def set_slot_def Let_def)
  from weak_pointers_never_dangle [OF r] r show ?thesis
    by (intro exI conjI) (assumption, simp_all add: numeral_2_eq_2)
qed

end
