(* ===== verification/Synchronization.thy ===== *)
theory Synchronization
  imports Time
begin

text \<open>
  Events, latches, semaphores and switches: \<^verbatim>\<open>src/fml/synchronization/\<close>. A critical section under
  the mutex of an event is one step; a thread in \<open>Wait\<close> is woken by a step that may come at any
  time, which covers spurious wakeups.
\<close>

subsection \<open>Waiting with a timeout\<close>

text \<open>
  One return from the wait of the condition variable: whether it reports a timeout, the event as
  the thread sees it under the lock, and the time of the clock. None is a wait that has not
  returned yet.
\<close>

record 'e wakeup =
  timed_out :: bool
  seen :: 'e
  clock :: time_point

fun wait_loop :: "('e \<Rightarrow> bool) \<Rightarrow> time_delta \<Rightarrow> time_point \<Rightarrow> 'e wakeup list \<Rightarrow> (bool \<times> 'e) option result" where
  "wait_loop condition timeout start [] = Inr None"
| "wait_loop condition timeout start (w # ws) =
     (if timed_out w then Inr (Some (True, seen w))
      else if condition (seen w) then Inr (Some (False, seen w))
      else rbind (guard Dcheck_Failed (start \<le> clock w)) (\<lambda>_.
           rbind (tp_diff (clock w) start) (\<lambda>elapsed.
           if timeout \<le> elapsed then Inr (Some (True, seen w))
           else rbind (td_minus timeout elapsed) (\<lambda>_. wait_loop condition timeout start ws))))"

definition WaitWithTimeoutImpl ::
  "('e \<Rightarrow> bool) \<Rightarrow> time_delta \<Rightarrow> time_point \<Rightarrow> 'e wakeup list \<Rightarrow> 'e \<Rightarrow> (bool \<times> 'e) option result"
where
  "WaitWithTimeoutImpl condition timeout start ws e =
     (if condition e then Inr (Some (False, e)) else wait_loop condition timeout start ws)"

subsection \<open>Events that reset themselves\<close>

record auto_event =
  signaled :: bool

definition AutoReset_Signal :: "auto_event \<Rightarrow> auto_event" where
  "AutoReset_Signal e = e\<lparr>signaled := True\<rparr>"

definition AutoReset_Reset :: "auto_event \<Rightarrow> auto_event" where
  "AutoReset_Reset e = e\<lparr>signaled := False\<rparr>"

text \<open>The wait returns when the event is signalled; None is to go on waiting.\<close>

definition AutoReset_Wait :: "auto_event \<Rightarrow> auto_event option" where
  "AutoReset_Wait e = (if \<not> signaled e then None else Some (e\<lparr>signaled := False\<rparr>))"

text \<open>Whether the wait timed out, and the event after it.\<close>

definition AutoReset_WaitWithTimeout ::
  "time_delta \<Rightarrow> time_point \<Rightarrow> auto_event wakeup list \<Rightarrow> auto_event \<Rightarrow>
   (bool \<times> auto_event) option result"
where
  "AutoReset_WaitWithTimeout timeout start ws e =
     (if signaled e then Inr (Some (False, e\<lparr>signaled := False\<rparr>))
      else rbind (wait_loop signaled timeout start ws) (\<lambda>r. Inr (case r of
             None \<Rightarrow> None
           | Some (True, e') \<Rightarrow> Some (True, e')
           | Some (False, e') \<Rightarrow> Some (False, e'\<lparr>signaled := False\<rparr>))))"

subsection \<open>Events that are reset by hand\<close>

record manual_event =
  msignaled :: bool
  signal_id :: u32

definition ManualResetWaitableEvent :: manual_event where
  "ManualResetWaitableEvent = \<lparr>msignaled = False, signal_id = 0\<rparr>"

definition ManualReset_Signal :: "manual_event \<Rightarrow> manual_event" where
  "ManualReset_Signal e = e\<lparr>msignaled := True, signal_id := signal_id e + 1\<rparr>"

definition ManualReset_Reset :: "manual_event \<Rightarrow> manual_event" where
  "ManualReset_Reset e = e\<lparr>msignaled := False\<rparr>"

text \<open>The head of \<open>Wait\<close>: None when it returns, otherwise the number it remembers.\<close>

definition ManualReset_Wait_enter :: "manual_event \<Rightarrow> u32 option" where
  "ManualReset_Wait_enter e = (if msignaled e then None else Some (signal_id e))"

definition ManualReset_Wait_wake :: "u32 \<Rightarrow> manual_event \<Rightarrow> bool" where
  "ManualReset_Wait_wake last_signal_id e \<longleftrightarrow> signal_id e \<noteq> last_signal_id"

definition ManualReset_condition :: "u32 \<Rightarrow> manual_event \<Rightarrow> bool" where
  "ManualReset_condition last_signal_id e \<longleftrightarrow> msignaled e \<or> signal_id e \<noteq> last_signal_id"

definition ManualReset_WaitWithTimeout ::
  "time_delta \<Rightarrow> time_point \<Rightarrow> manual_event wakeup list \<Rightarrow> manual_event \<Rightarrow> bool option result"
where
  "ManualReset_WaitWithTimeout timeout start ws e =
     (let last_signal_id = signal_id e
      in rbind (WaitWithTimeoutImpl (ManualReset_condition last_signal_id) timeout start ws e)
           (\<lambda>r. case r of
              None \<Rightarrow> Inr None
            | Some (rv, e') \<Rightarrow>
                rbind (guard Dcheck_Failed (rv \<or> msignaled e' \<or> signal_id e' \<noteq> last_signal_id))
                  (\<lambda>_. Inr (Some rv))))"

subsection \<open>Latches\<close>

record latch =
  latch_count :: u64
  waitable_event :: manual_event

definition CountDownLatch :: "u64 \<Rightarrow> latch" where
  "CountDownLatch n = \<lparr>latch_count = n, waitable_event =
     (if n = 0 then ManualReset_Signal ManualResetWaitableEvent else ManualResetWaitableEvent)\<rparr>"

text \<open>
  \<open>CountDown\<close> is two steps of its thread: the atomic decrement, and the signal when the decrement
  reached zero.
\<close>

definition CountDown_decrement :: "latch \<Rightarrow> bool \<times> latch" where
  "CountDown_decrement l =
     (let n = latch_count l - 1 in (n = 0, l\<lparr>latch_count := n\<rparr>))"

definition CountDown_signal :: "latch \<Rightarrow> latch" where
  "CountDown_signal l = l\<lparr>waitable_event := ManualReset_Signal (waitable_event l)\<rparr>"

definition CountDown :: "latch \<Rightarrow> latch" where
  "CountDown l =
     (case CountDown_decrement l of (zero, l') \<Rightarrow> if zero then CountDown_signal l' else l')"

text \<open>
  A latch with the threads in \<open>Wait\<close> (and the number each remembers), the threads that came out,
  the number of decrements, and the number of threads between their decrement and their signal.
\<close>

record latch_system =
  the_latch :: latch
  waiting :: "(nat \<times> u32) list"
  released :: "nat list"
  downs :: nat
  to_signal :: nat

definition Latch_decrement :: "latch_system \<Rightarrow> latch_system" where
  "Latch_decrement s =
     (case CountDown_decrement (the_latch s) of (zero, l) \<Rightarrow>
        s\<lparr>the_latch := l, downs := downs s + 1, to_signal := to_signal s + (if zero then 1 else 0)\<rparr>)"

definition Latch_signal :: "latch_system \<Rightarrow> latch_system" where
  "Latch_signal s = s\<lparr>the_latch := CountDown_signal (the_latch s), to_signal := to_signal s - 1\<rparr>"

definition Latch_Wait_enter :: "nat \<Rightarrow> latch_system \<Rightarrow> latch_system" where
  "Latch_Wait_enter t s =
     (case ManualReset_Wait_enter (waitable_event (the_latch s)) of
        None \<Rightarrow> s\<lparr>released := released s @ [t]\<rparr>
      | Some n \<Rightarrow> s\<lparr>waiting := waiting s @ [(t, n)]\<rparr>)"

definition Latch_Wait_wake :: "nat \<Rightarrow> latch_system \<Rightarrow> latch_system" where
  "Latch_Wait_wake i s =
     (case waiting s ! i of (t, n) \<Rightarrow>
        if ManualReset_Wait_wake n (waitable_event (the_latch s))
        then s\<lparr>waiting := take i (waiting s) @ drop (Suc i) (waiting s), released := released s @ [t]\<rparr>
        else s)"

datatype latch_event = Decrement | Signal | Enter nat | Wake nat

text \<open>Fewer than \<open>2 ^ 64\<close> decrements, so that the counter does not come round to zero again.\<close>

inductive latch_step :: "latch_system \<Rightarrow> latch_event \<Rightarrow> latch_system \<Rightarrow> bool" where
  "downs s < 2 ^ 64 - 1 \<Longrightarrow> latch_step s Decrement (Latch_decrement s)"
| "0 < to_signal s \<Longrightarrow> latch_step s Signal (Latch_signal s)"
| "latch_step s (Enter t) (Latch_Wait_enter t s)"
| "i < length (waiting s) \<Longrightarrow> latch_step s (Wake i) (Latch_Wait_wake i s)"

definition latch_start :: "u64 \<Rightarrow> latch_system \<Rightarrow> bool" where
  "latch_start n s \<longleftrightarrow>
     s = \<lparr>the_latch = CountDownLatch n, waiting = [], released = [], downs = 0, to_signal = 0\<rparr>"

subsection \<open>Semaphores\<close>

text \<open>
  The semaphore of the system; an invalid one fails every wait and ignores signals. A wait that
  has to block is None.
\<close>

record semaphore =
  valid :: bool
  permits :: nat

definition Semaphore :: "bool \<Rightarrow> u32 \<Rightarrow> semaphore" where
  "Semaphore created n = \<lparr>valid = created, permits = unat n\<rparr>"

definition Semaphore_Wait :: "semaphore \<Rightarrow> (bool \<times> semaphore) option" where
  "Semaphore_Wait s =
     (if \<not> valid s then Some (False, s)
      else if permits s = 0 then None else Some (True, s\<lparr>permits := permits s - 1\<rparr>))"

definition Semaphore_TryWait :: "semaphore \<Rightarrow> bool \<times> semaphore" where
  "Semaphore_TryWait s =
     (if \<not> valid s then (False, s)
      else if permits s = 0 then (False, s) else (True, s\<lparr>permits := permits s - 1\<rparr>))"

definition Semaphore_Signal :: "semaphore \<Rightarrow> semaphore" where
  "Semaphore_Signal s = (if \<not> valid s then s else s\<lparr>permits := permits s + 1\<rparr>)"

subsection \<open>Switches\<close>

record 'o sync_switch =
  switch_value :: bool
  observers :: "'o list"

definition SyncSwitch :: "bool \<Rightarrow> 'o sync_switch" where
  "SyncSwitch b = \<lparr>switch_value = b, observers = []\<rparr>"

definition Execute :: "'h \<Rightarrow> 'h \<Rightarrow> 'o sync_switch \<Rightarrow> 'h" where
  "Execute true_handler false_handler s = (if switch_value s then true_handler else false_handler)"

definition AddObserver :: "'o \<Rightarrow> 'o sync_switch \<Rightarrow> 'o sync_switch" where
  "AddObserver ob s =
     (if ob \<notin> set (observers s) then s\<lparr>observers := observers s @ [ob]\<rparr> else s)"

definition RemoveObserver :: "'o \<Rightarrow> 'o sync_switch \<Rightarrow> 'o sync_switch" where
  "RemoveObserver ob s = s\<lparr>observers := filter (\<lambda>x. x \<noteq> ob) (observers s)\<rparr>"

text \<open>
  The loop over the observers holds no lock. What a callback does to the switch is the parameter
  \<open>update\<close>; a change of the vector during the loop leaves the iterators of the loop dangling.
\<close>

fun notify :: "('o \<Rightarrow> 'o sync_switch \<Rightarrow> 'o sync_switch) \<Rightarrow> 'o list \<Rightarrow> 'o sync_switch \<Rightarrow>
    ('o list \<times> 'o sync_switch) result" where
  "notify update [] s = Inr ([], s)"
| "notify update (ob # obs) s =
     (let s' = update ob s
      in rbind (guard Undefined_Behaviour (observers s' = observers s)) (\<lambda>_.
         rbind (notify update obs s') (\<lambda>(called, s''). Inr (ob # called, s''))))"

definition SetSwitch :: "('o \<Rightarrow> 'o sync_switch \<Rightarrow> 'o sync_switch) \<Rightarrow> bool \<Rightarrow> 'o sync_switch \<Rightarrow>
    ('o list \<times> 'o sync_switch) result" where
  "SetSwitch update b s = (let s' = s\<lparr>switch_value := b\<rparr> in notify update (observers s') s')"

subsection \<open>Facts\<close>

text \<open>A wait with a timeout reports one only when the time is over.\<close>

lemma wait_loop_timeout:
  "wait_loop condition timeout start ws = Inr (Some (True, e)) \<Longrightarrow>
   \<exists>w \<in> set ws. seen w = e \<and> (timed_out w \<or> timeout \<le> clock w - start)"
  by (induction ws)
    (auto simp: result_simps tp_diff_def td_minus_def FromNanoseconds_def Let_def split: if_splits)

lemma wait_loop_success:
  "wait_loop condition timeout start ws = Inr (Some (False, e)) \<Longrightarrow>
   condition e \<and> (\<exists>w \<in> set ws. seen w = e \<and> \<not> timed_out w)"
  by (induction ws) (auto simp: result_simps split: if_splits)

text \<open>The last check of \<open>WaitWithTimeout\<close> never fails.\<close>

lemma manual_wait_check:
  "ManualReset_WaitWithTimeout timeout start ws e =
     rbind (WaitWithTimeoutImpl (ManualReset_condition (signal_id e)) timeout start ws e)
       (\<lambda>r. Inr (map_option fst r))"
  by (cases "WaitWithTimeoutImpl (ManualReset_condition (signal_id e)) timeout start ws e")
    (auto simp: ManualReset_WaitWithTimeout_def WaitWithTimeoutImpl_def ManualReset_condition_def
      Let_def guard_def dest!: wait_loop_success split: option.splits if_splits)

text \<open>A signal lets one wait through.\<close>

lemma auto_event_once:
  "AutoReset_Wait (AutoReset_Signal e) = Some (e\<lparr>signaled := False\<rparr>)"
  "AutoReset_Wait e = Some e' \<Longrightarrow> AutoReset_Wait e' = None"
  by (auto simp: AutoReset_Wait_def AutoReset_Signal_def split: if_splits)

text \<open>A waiter of a manual event is released by a signal even when a reset follows at once.\<close>

lemma manual_signal_not_lost:
  "ManualReset_Wait_enter e = Some n \<Longrightarrow> ManualReset_Wait_wake n (ManualReset_Reset (ManualReset_Signal e))"
  by (auto simp: ManualReset_Wait_enter_def ManualReset_Wait_wake_def ManualReset_Reset_def
      ManualReset_Signal_def split: if_splits)

lemma semaphore_try_wait_agrees:
  "Semaphore_Wait s = Some r \<Longrightarrow> Semaphore_TryWait s = r"
  by (auto simp: Semaphore_Wait_def Semaphore_TryWait_def split: if_splits)

lemma semaphore_signal_then_wait:
  "valid s \<Longrightarrow> Semaphore_Wait (Semaphore_Signal s) = Some (True, s)"
  by (simp add: Semaphore_Wait_def Semaphore_Signal_def)

lemma observers_distinct:
  "distinct (observers s) \<Longrightarrow> distinct (observers (AddObserver ob s))"
  "distinct (observers s) \<Longrightarrow> distinct (observers (RemoveObserver ob s))"
  by (simp_all add: AddObserver_def RemoveObserver_def)

text \<open>Callbacks that leave the switch alone: every observer is called once, in order.\<close>

lemma notify_all:
  assumes "\<And>ob s. observers (update ob s) = observers s"
  shows "\<exists>s'. notify update obs s = Inr (obs, s')"
proof (induction obs arbitrary: s)
  case (Cons ob obs)
  from Cons [of "update ob s"] show ?case by (auto simp: Let_def assms result_simps)
qed simp

text \<open>An observer that removes itself when it is called.\<close>

lemma self_removal_undefined:
  assumes "observers s = ob # obs"
  shows "SetSwitch RemoveObserver b s = Inl Undefined_Behaviour"
proof -
  have "length (filter (\<lambda>x. x \<noteq> ob) obs) \<le> length obs" by (rule length_filter_le)
  then have "filter (\<lambda>x. x \<noteq> ob) obs \<noteq> ob # obs" by (metis impossible_Cons)
  then show ?thesis using assms by (simp add: SetSwitch_def RemoveObserver_def Let_def)
qed

subsection \<open>The latch\<close>

text \<open>
  The counter is the number of decrements still missing, one thread at most is to signal, and the
  event is signalled, once, after the last decrement; the threads in \<open>Wait\<close> came before that.
\<close>

definition latch_inv :: "u64 \<Rightarrow> latch_system \<Rightarrow> bool" where
  "latch_inv n s \<longleftrightarrow>
     latch_count (the_latch s) = n - of_nat (downs s) \<and> downs s < 2 ^ 64 \<and>
     (unat n \<le> downs s \<longleftrightarrow> msignaled (waitable_event (the_latch s)) \<or> to_signal s = 1) \<and>
     (to_signal s = 0 \<or> to_signal s = 1 \<and> \<not> msignaled (waitable_event (the_latch s))) \<and>
     signal_id (waitable_event (the_latch s)) =
       (if msignaled (waitable_event (the_latch s)) then 1 else 0) \<and>
     (\<forall>w \<in> set (waiting s). snd w = 0) \<and>
     (released s \<noteq> [] \<longrightarrow> msignaled (waitable_event (the_latch s)))"

lemmas latch_defs = Latch_decrement_def Latch_signal_def Latch_Wait_enter_def Latch_Wait_wake_def
  CountDown_decrement_def CountDown_signal_def ManualReset_Signal_def ManualReset_Wait_enter_def
  ManualReset_Wait_wake_def

text \<open>The counter reaches zero at one decrement only.\<close>

lemma count_zero_iff:
  fixes n :: u64
  assumes "d < 2 ^ 64 - 1"
  shows "n - of_nat d - 1 = 0 \<longleftrightarrow> unat n = Suc d"
proof -
  have d: "Suc d < 2 ^ LENGTH(64)" using assms by simp
  have "n - of_nat d - 1 = 0 \<longleftrightarrow> n = of_nat (Suc d)" by (simp add: algebra_simps)
  also have "\<dots> \<longleftrightarrow> unat n = unat (of_nat (Suc d) :: u64)" by (simp only: word_unat_eq_iff)
  also have "unat (of_nat (Suc d) :: u64) = Suc d" using d by (simp add: of_nat_inverse del: of_nat_Suc)
  finally show ?thesis .
qed

lemma decrement_inv:
  assumes "latch_inv n s" and "downs s < 2 ^ 64 - 1"
  shows "latch_inv n (Latch_decrement s)"
proof -
  let ?e = "waitable_event (the_latch s)"
  have count: "latch_count (the_latch s) - 1 = 0 \<longleftrightarrow> unat n = Suc (downs s)"
    using assms count_zero_iff [of "downs s" n] by (simp add: latch_inv_def)
  show ?thesis
  proof (cases "unat n = Suc (downs s)")
    case True
    with assms count show ?thesis
      by (auto simp: latch_inv_def Latch_decrement_def CountDown_decrement_def Let_def algebra_simps)
  next
    case False
    with assms count show ?thesis
      by (auto simp: latch_inv_def Latch_decrement_def CountDown_decrement_def Let_def algebra_simps)
  qed
qed

lemma latch_step_inv: "latch_step s e t \<Longrightarrow> latch_inv n s \<Longrightarrow> latch_inv n t"
proof (induction rule: latch_step.induct)
  case (1 s)
  then show ?case by (simp add: decrement_inv)
next
  case (4 i s)
  obtain t k where w: "waiting s ! i = (t, k)" by force
  then have "(t, k) \<in> set (waiting s)" using 4(1) by (metis nth_mem)
  with w 4(2) show ?case
    by (auto simp: latch_inv_def latch_defs dest: in_set_takeD in_set_dropD)
qed (auto simp: latch_inv_def latch_defs)

interpretation latch: transition_system "latch_start n" latch_step "latch_inv n" for n
proof
  show "latch_inv n s" if "latch_start n s" for s
    using that by (auto simp: latch_start_def latch_inv_def CountDownLatch_def
      ManualResetWaitableEvent_def ManualReset_Signal_def unat_eq_0)
  show "latch_inv n t" if "latch_inv n s" "latch_step s e t" for s e t
    using that by (rule latch_step_inv [rotated])
qed

text \<open>
  A latch of \<open>n\<close> lets no thread out of \<open>Wait\<close> before the \<open>n\<close>-th decrement; once that
  decrement has happened and its thread has signalled, every thread that is still in \<open>Wait\<close> or
  enters it leaves at its next step, and the signal is sent exactly once.
\<close>

theorem latch_opens_exactly:
  assumes "reachable_from (latch_start n) latch_step s"
  shows "(released s \<noteq> [] \<longrightarrow> unat n \<le> downs s) \<and>
    (msignaled (waitable_event (the_latch s)) \<longleftrightarrow> unat n \<le> downs s \<and> to_signal s = 0) \<and>
    (unat n \<le> downs s \<and> to_signal s = 0 \<longrightarrow>
       (\<forall>t. released (Latch_Wait_enter t s) = released s @ [t]) \<and>
       (\<forall>i < length (waiting s). released (Latch_Wait_wake i s) = released s @ [fst (waiting s ! i)])) \<and>
    (downs s < unat n \<longrightarrow> (\<forall>i < length (waiting s). Latch_Wait_wake i s = s)) \<and> to_signal s \<le> 1"
proof -
  have inv: "latch_inv n s" by (rule latch.reachable_inv [OF assms])
  have "snd (waiting s ! i) = 0" if "i < length (waiting s)" for i
    using inv that by (auto simp: latch_inv_def)
  with inv show ?thesis
    by (auto simp: latch_inv_def latch_defs case_prod_beta)
qed

theorem latch_opens_exactly_witness:
  "\<exists>s. reachable_from (latch_start 1) latch_step s \<and> waiting s = [(7, 0)] \<and>
     released s = [] \<and> downs s = 1 \<and> released (Latch_Wait_wake 0 s) = [7]"
proof -
  let ?R = "reachable_from (latch_start 1) latch_step"
  let ?s = "\<lambda>c e w d p. \<lparr>the_latch = \<lparr>latch_count = c, waitable_event = e\<rparr>, waiting = w,
    released = [], downs = d, to_signal = p\<rparr>"
  let ?e = "\<lparr>msignaled = False, signal_id = 0\<rparr>"
  have "?R (?s 1 ?e [] 0 0)"
    by (rule reach_start) (simp add: latch_start_def CountDownLatch_def ManualResetWaitableEvent_def)
  then have "?R (?s 1 ?e [(7, 0)] 0 0)"
    by (rule reach_step)
      (use latch_step.intros(3) [of "?s 1 ?e [] 0 0" 7] in \<open>simp add: latch_defs\<close>)
  then have "?R (?s 0 ?e [(7, 0)] 1 1)"
    by (rule reach_step)
      (use latch_step.intros(1) [of "?s 1 ?e [(7, 0)] 0 0"] in \<open>simp add: latch_defs\<close>)
  then have r: "?R (?s 0 \<lparr>msignaled = True, signal_id = 1\<rparr> [(7, 0)] 1 0)"
    by (rule reach_step)
      (use latch_step.intros(2) [of "?s 0 ?e [(7, 0)] 1 1"] in \<open>simp add: latch_defs\<close>)
  from latch_opens_exactly [OF r] r show ?thesis
    by (intro exI conjI) (assumption, simp_all)
qed

end
