(* ===== verification/Command_Pool.thy ===== *)
theory Command_Pool
  imports Prelude "HOL-Library.AList"
begin

text \<open>
  Recycled command pools: \<^verbatim>\<open>src/hal/command_pool_vk.{h,cc}\<close> and the part of
  \<^verbatim>\<open>src/hal/tracked_objects_vk.cc\<close> that owns a command buffer. One context is modelled: the map of
  each thread has at most one entry for it. Handles of the device are numbers; the state records
  which pools exist and to which pool each command buffer belongs, so that freeing a handle twice
  or after its pool is an error.
\<close>

subsection \<open>State\<close>

record command_pool =
  vk_pool :: "nat option"
  unused_buffers :: "nat list"
  collected_buffers :: "nat list"

text \<open>
  \<open>tls\<close> holds the entry of each thread's \<open>tls_command_pool_map\<close>, \<open>all_pools\<close> the entry of
  \<open>g_all_pools_map\<close>, \<open>tracked\<close> the pool and the buffer of each valid \<open>TrackedObjects\<close> and
  \<open>background\<close> the pools that wait for the resource manager, with their number of unused buffers.
  The last fields are the handles: the pools, the pool of each buffer, the buffers that have been
  recorded since their last reset, and whether a reset failed.
\<close>

record cp_system =
  context_alive :: bool
  recycler_alive :: bool
  cpools :: "nat \<Rightarrow> command_pool option"
  next_cpool :: nat
  tls :: "(nat \<times> nat) list"
  all_pools :: "(nat \<times> nat) list"
  tracked :: "(nat \<times> nat) list"
  background :: "(nat \<times> nat list \<times> nat) list"
  recycled :: "(nat \<times> nat list) list"
  live_pools :: "nat list"
  buf_pool :: "nat \<Rightarrow> nat option"
  next_handle :: nat
  dirty :: "nat list"
  reset_failed :: bool

definition cp_start :: cp_system where
  "cp_start = \<lparr>context_alive = True, recycler_alive = True, cpools = \<lambda>_. None, next_cpool = 0,
     tls = [], all_pools = [], tracked = [], background = [], recycled = [], live_pools = [],
     buf_pool = \<lambda>_. None, next_handle = 0, dirty = [], reset_failed = False\<rparr>"

subsection \<open>Handles of the device\<close>

definition vk_create_pool :: "cp_system \<Rightarrow> nat \<times> cp_system" where
  "vk_create_pool s =
     (next_handle s, s\<lparr>live_pools := next_handle s # live_pools s, next_handle := next_handle s + 1\<rparr>)"

definition vk_alloc_buffer :: "nat \<Rightarrow> cp_system \<Rightarrow> (nat \<times> cp_system) result" where
  "vk_alloc_buffer h s =
     rbind (guard Undefined_Behaviour (h \<in> set (live_pools s))) (\<lambda>_.
       Inr (next_handle s, s\<lparr>buf_pool := (buf_pool s)(next_handle s \<mapsto> h),
                             next_handle := next_handle s + 1\<rparr>))"

text \<open>The destructor of a unique command buffer, which frees it in its pool.\<close>

definition vk_free_buffer :: "nat \<Rightarrow> cp_system \<Rightarrow> cp_system result" where
  "vk_free_buffer b s =
     (case buf_pool s b of
        None \<Rightarrow> Inl Undefined_Behaviour
      | Some h \<Rightarrow> rbind (guard Undefined_Behaviour (h \<in> set (live_pools s))) (\<lambda>_.
          Inr (s\<lparr>buf_pool := (buf_pool s)(b := None)\<rparr>)))"

fun free_buffers :: "nat list \<Rightarrow> cp_system \<Rightarrow> cp_system result" where
  "free_buffers [] s = Inr s"
| "free_buffers (b # bs) s = rbind (vk_free_buffer b s) (free_buffers bs)"

text \<open>Destroying a pool frees all of its buffers.\<close>

definition vk_destroy_pool :: "nat \<Rightarrow> cp_system \<Rightarrow> cp_system result" where
  "vk_destroy_pool h s =
     rbind (guard Undefined_Behaviour (h \<in> set (live_pools s))) (\<lambda>_.
       Inr (s\<lparr>live_pools := filter (\<lambda>x. x \<noteq> h) (live_pools s),
              buf_pool := (\<lambda>b. if buf_pool s b = Some h then None else buf_pool s b)\<rparr>))"

text \<open>No buffer of a pool may be in use when it is reset.\<close>

definition vk_reset_pool :: "bool \<Rightarrow> nat \<Rightarrow> cp_system \<Rightarrow> cp_system result" where
  "vk_reset_pool reset_ok h s =
     rbind (guard Undefined_Behaviour
         (h \<in> set (live_pools s) \<and> (\<forall>x \<in> set (tracked s). buf_pool s (snd x) \<noteq> Some h))) (\<lambda>_.
       Inr (if reset_ok then s\<lparr>dirty := filter (\<lambda>b. buf_pool s b \<noteq> Some h) (dirty s)\<rparr>
            else s\<lparr>reset_failed := True\<rparr>))"

subsection \<open>Command pools\<close>

definition pool_at :: "nat \<Rightarrow> cp_system \<Rightarrow> command_pool result" where
  "pool_at p s = of_option Undefined_Behaviour (cpools s p)"

definition put_pool :: "nat \<Rightarrow> command_pool option \<Rightarrow> cp_system \<Rightarrow> cp_system" where
  "put_pool p c s = s\<lparr>cpools := (cpools s)(p := c)\<rparr>"

text \<open>A command pool locks the context through a reference to a member of the recycler.\<close>

definition lock_context :: "cp_system \<Rightarrow> bool result" where
  "lock_context s = rbind (guard Undefined_Behaviour (recycler_alive s)) (\<lambda>_. Inr (context_alive s))"

text \<open>The buffers of a pool are destroyed before the pool.\<close>

definition destroy_members :: "nat option \<Rightarrow> nat list \<Rightarrow> cp_system \<Rightarrow> cp_system result" where
  "destroy_members q bs s =
     rbind (free_buffers bs s) (\<lambda>s'. case q of None \<Rightarrow> Inr s' | Some h \<Rightarrow> vk_destroy_pool h s')"

definition CommandPool_dtor :: "nat \<Rightarrow> cp_system \<Rightarrow> cp_system result" where
  "CommandPool_dtor p s =
     rbind (pool_at p s) (\<lambda>c. let s1 = put_pool p None s in
       case vk_pool c of
         None \<Rightarrow> destroy_members None (collected_buffers c @ unused_buffers c) s1
       | Some h \<Rightarrow> rbind (lock_context s1) (\<lambda>alive.
           if \<not> alive then destroy_members (Some h) (collected_buffers c @ unused_buffers c) s1
           else Inr (s1\<lparr>background := background s1 @
             [(h, collected_buffers c @ unused_buffers c, length (unused_buffers c))]\<rparr>)))"

text \<open>The buffer is absent when the context is gone, the pool was destroyed or the device fails.\<close>

definition CreateCommandBuffer :: "bool \<Rightarrow> nat \<Rightarrow> cp_system \<Rightarrow> (nat option \<times> cp_system) result" where
  "CreateCommandBuffer alloc_ok p s =
     rbind (pool_at p s) (\<lambda>c. rbind (lock_context s) (\<lambda>alive.
       if \<not> alive then Inr (None, s)
       else case vk_pool c of
         None \<Rightarrow> Inr (None, s)
       | Some h \<Rightarrow>
           if unused_buffers c \<noteq> []
           then Inr (Some (last (unused_buffers c)),
                     put_pool p (Some (c\<lparr>unused_buffers := butlast (unused_buffers c)\<rparr>)) s)
           else if \<not> alloc_ok then Inr (None, s)
           else rbind (vk_alloc_buffer h s) (\<lambda>(b, s'). Inr (Some b, s'))))"

definition CollectCommandBuffer :: "nat \<Rightarrow> nat \<Rightarrow> cp_system \<Rightarrow> cp_system result" where
  "CollectCommandBuffer p b s =
     rbind (pool_at p s) (\<lambda>c.
       if vk_pool c = None then Inr s
       else Inr (put_pool p (Some (c\<lparr>collected_buffers := collected_buffers c @ [b]\<rparr>)) s))"

definition Destroy :: "nat \<Rightarrow> cp_system \<Rightarrow> cp_system result" where
  "Destroy p s =
     rbind (pool_at p s) (\<lambda>c.
     rbind (case vk_pool c of None \<Rightarrow> Inr s | Some h \<Rightarrow> vk_destroy_pool h s) (\<lambda>s'.
       Inr (put_pool p (Some \<lparr>vk_pool = None, unused_buffers = [], collected_buffers = []\<rparr>) s')))"

text \<open>Shared ownership of a command pool: maps of threads and tracked objects.\<close>

definition referenced :: "nat \<Rightarrow> cp_system \<Rightarrow> bool" where
  "referenced p s \<longleftrightarrow> p \<in> snd ` set (tls s) \<or> p \<in> fst ` set (tracked s)"

definition drop_pool :: "nat \<Rightarrow> cp_system \<Rightarrow> cp_system result" where
  "drop_pool p s = (if referenced p s then Inr s else CommandPool_dtor p s)"

definition tls_erase :: "nat \<Rightarrow> cp_system \<Rightarrow> cp_system result" where
  "tls_erase t s =
     (case map_of (tls s) t of
        None \<Rightarrow> Inr s
      | Some p \<Rightarrow> drop_pool p (s\<lparr>tls := AList.delete t (tls s)\<rparr>))"

subsection \<open>The recycler\<close>

definition Reuse :: "cp_system \<Rightarrow> (nat \<times> nat list) option \<times> cp_system" where
  "Reuse s =
     (if recycled s = [] then (None, s)
      else (Some (last (recycled s)), s\<lparr>recycled := butlast (recycled s)\<rparr>))"

definition Create :: "bool \<Rightarrow> cp_system \<Rightarrow> (nat \<times> nat list) option \<times> cp_system" where
  "Create pool_ok s =
     (case Reuse s of
        (Some d, s') \<Rightarrow> (Some d, s')
      | (None, s') \<Rightarrow>
          if \<not> context_alive s' \<or> \<not> pool_ok then (None, s')
          else (case vk_create_pool s' of (h, s'') \<Rightarrow> (Some (h, []), s'')))"

definition Get :: "bool \<Rightarrow> nat \<Rightarrow> cp_system \<Rightarrow> nat option \<times> cp_system" where
  "Get pool_ok t s =
     (if \<not> context_alive s then (None, s)
      else case map_of (tls s) t of
        Some p \<Rightarrow> (Some p, s)
      | None \<Rightarrow> (case Create pool_ok s of
          (None, s1) \<Rightarrow> (None, s1)
        | (Some (h, bs), s1) \<Rightarrow>
            (Some (next_cpool s1),
             s1\<lparr>cpools := (cpools s1)(next_cpool s1 \<mapsto>
                   \<lparr>vk_pool = Some h, unused_buffers = bs, collected_buffers = []\<rparr>),
                next_cpool := next_cpool s1 + 1,
                tls := (t, next_cpool s1) # tls s1,
                all_pools := AList.update t (next_cpool s1) (all_pools s1)\<rparr>)))"

definition GetGlobalPoolCount :: "cp_system \<Rightarrow> nat" where
  "GetGlobalPoolCount s = length (all_pools s)"

definition kUnusedCommandBufferLimit :: nat where
  "kUnusedCommandBufferLimit = 16"

text \<open>Whether the recycler took the pool over, and the state after it.\<close>

definition Reclaim :: "bool \<Rightarrow> nat \<Rightarrow> nat list \<Rightarrow> bool \<Rightarrow> cp_system \<Rightarrow> (bool \<times> cp_system) result" where
  "Reclaim reset_ok h bs should_trim s =
     (if \<not> context_alive s then Inr (False, s)
      else rbind (if should_trim then free_buffers bs s else Inr s) (\<lambda>s1.
           rbind (vk_reset_pool reset_ok h s1) (\<lambda>s2.
             Inr (True, s2\<lparr>recycled := recycled s2 @ [(h, if should_trim then [] else bs)]\<rparr>))))"

text \<open>The destructor of the \<open>i\<close>-th pool in the background.\<close>

definition Background_dtor :: "bool \<Rightarrow> nat \<Rightarrow> cp_system \<Rightarrow> cp_system result" where
  "Background_dtor reset_ok i s =
     (case background s ! i of (h, bs, unused_count) \<Rightarrow>
        let s1 = s\<lparr>background := take i (background s) @ drop (Suc i) (background s)\<rparr>
        in if \<not> recycler_alive s1 then destroy_members (Some h) bs s1
           else rbind (Reclaim reset_ok h bs (kUnusedCommandBufferLimit < unused_count) s1)
             (\<lambda>(taken, s2). if taken then Inr s2 else destroy_members (Some h) bs s2))"

definition Dispose :: "nat \<Rightarrow> cp_system \<Rightarrow> cp_system result" where
  "Dispose t s = rbind (tls_erase t s) (\<lambda>s'. Inr (s'\<lparr>all_pools := AList.delete t (all_pools s')\<rparr>))"

fun destroy_all :: "(nat \<times> nat) list \<Rightarrow> cp_system \<Rightarrow> cp_system result" where
  "destroy_all [] s = Inr s"
| "destroy_all ((t, p) # ps) s =
     (if cpools s p = None then destroy_all ps s
      else rbind (Destroy p s) (destroy_all ps))"

definition DestroyThreadLocalPools :: "nat \<Rightarrow> cp_system \<Rightarrow> cp_system result" where
  "DestroyThreadLocalPools t s =
     rbind (tls_erase t s) (\<lambda>s1. rbind (destroy_all (all_pools s1) s1) (\<lambda>s2.
       Inr (s2\<lparr>all_pools := []\<rparr>)))"

subsection \<open>Tracked objects\<close>

text \<open>A buffer that is handed out is recorded into.\<close>

definition TrackedObjects :: "bool \<Rightarrow> nat \<Rightarrow> cp_system \<Rightarrow> (nat option \<times> cp_system) result" where
  "TrackedObjects alloc_ok p s =
     rbind (CreateCommandBuffer alloc_ok p s) (\<lambda>(r, s'). case r of
       None \<Rightarrow> Inr (None, s')
     | Some b \<Rightarrow> Inr (Some b, s'\<lparr>tracked := tracked s' @ [(p, b)], dirty := b # dirty s'\<rparr>))"

definition TrackedObjects_dtor :: "nat \<Rightarrow> cp_system \<Rightarrow> cp_system result" where
  "TrackedObjects_dtor i s =
     (case tracked s ! i of (p, b) \<Rightarrow>
        rbind (CollectCommandBuffer p b s) (\<lambda>s1.
          drop_pool p (s1\<lparr>tracked := take i (tracked s1) @ drop (Suc i) (tracked s1)\<rparr>)))"

subsection \<open>Runs\<close>

text \<open>
  A thread asks the context for a command buffer, tracked objects go, a thread disposes of its
  resources or ends, the resource manager drops a pool, the context is destroyed by a thread, and
  then its recycler.
\<close>

datatype cp_event =
    Use nat bool bool | Finish nat | Dispose_Thread nat | Exit_Thread nat
  | Background_Done nat bool | Destroy_Context nat | Destroy_Recycler

fun destroy_recycled :: "(nat \<times> nat list) list \<Rightarrow> cp_system \<Rightarrow> cp_system result" where
  "destroy_recycled [] s = Inr s"
| "destroy_recycled ((h, bs) # rs) s = rbind (destroy_members (Some h) bs s) (destroy_recycled rs)"

definition Use_thread :: "nat \<Rightarrow> bool \<Rightarrow> bool \<Rightarrow> cp_system \<Rightarrow> (nat option \<times> cp_system) result" where
  "Use_thread t pool_ok alloc_ok s =
     (case Get pool_ok t s of
        (None, s') \<Rightarrow> Inr (None, s')
      | (Some p, s') \<Rightarrow> TrackedObjects alloc_ok p s')"

fun cp_run :: "cp_event \<Rightarrow> cp_system \<Rightarrow> cp_system result" where
  "cp_run (Use t pool_ok alloc_ok) s =
     rbind (Use_thread t pool_ok alloc_ok s) (\<lambda>(_, s'). Inr s')"
| "cp_run (Finish i) s = TrackedObjects_dtor i s"
| "cp_run (Dispose_Thread t) s = Dispose t s"
| "cp_run (Exit_Thread t) s = tls_erase t s"
| "cp_run (Background_Done i reset_ok) s = Background_dtor reset_ok i s"
| "cp_run (Destroy_Context t) s = DestroyThreadLocalPools t (s\<lparr>context_alive := False\<rparr>)"
| "cp_run Destroy_Recycler s =
     rbind (destroy_recycled (recycled s) (s\<lparr>recycled := []\<rparr>)) (\<lambda>s'. Inr (s'\<lparr>recycler_alive := False\<rparr>))"

fun cp_event_ok :: "cp_event \<Rightarrow> cp_system \<Rightarrow> bool" where
  "cp_event_ok (Use t pool_ok alloc_ok) s \<longleftrightarrow> context_alive s"
| "cp_event_ok (Finish i) s \<longleftrightarrow> i < length (tracked s)"
| "cp_event_ok (Dispose_Thread t) s \<longleftrightarrow> context_alive s"
| "cp_event_ok (Exit_Thread t) s \<longleftrightarrow> True"
| "cp_event_ok (Background_Done i reset_ok) s \<longleftrightarrow> i < length (background s)"
| "cp_event_ok (Destroy_Context t) s \<longleftrightarrow> context_alive s"
| "cp_event_ok Destroy_Recycler s \<longleftrightarrow> \<not> context_alive s \<and> recycler_alive s"

inductive cp_step :: "cp_system \<Rightarrow> cp_event \<Rightarrow> cp_system \<Rightarrow> bool" where
  "cp_event_ok e s \<Longrightarrow> cp_run e s = Inr t \<Longrightarrow> cp_step s e t"

subsection \<open>Who owns a handle\<close>

definition held :: "nat \<Rightarrow> cp_system \<Rightarrow> nat list" where
  "held p s = map snd (filter (\<lambda>x. fst x = p) (tracked s))"

definition entry_ok :: "nat \<Rightarrow> nat list \<Rightarrow> cp_system \<Rightarrow> bool" where
  "entry_ok h bs s \<longleftrightarrow> distinct bs \<and> set bs = {b. buf_pool s b = Some h}"

definition handle_of :: "nat \<Rightarrow> cp_system \<Rightarrow> nat option" where
  "handle_of p s = Option.bind (cpools s p) vk_pool"

text \<open>The pools outside of a command pool object, and their buffers.\<close>

definition loose :: "cp_system \<Rightarrow> (nat \<times> nat list) list" where
  "loose s = map (\<lambda>x. (fst x, fst (snd x))) (background s) @ recycled s"

text \<open>
  Every pool that exists has one owner, a command pool object or an entry of \<open>L\<close>, and the owner
  of a pool has each of its buffers once; the buffers that are tracked belong to the pool object.
\<close>

definition owned :: "(nat \<times> nat list) list \<Rightarrow> cp_system \<Rightarrow> bool" where
  "owned L s \<longleftrightarrow>
     (\<forall>p c h. cpools s p = Some c \<longrightarrow> vk_pool c = Some h \<longrightarrow>
        entry_ok h (unused_buffers c @ collected_buffers c @ held p s) s) \<and>
     (\<forall>p c. cpools s p = Some c \<longrightarrow> vk_pool c = None \<longrightarrow> unused_buffers c = [] \<and> collected_buffers c = []) \<and>
     (\<forall>p. next_cpool s \<le> p \<longrightarrow> cpools s p = None) \<and>
     (\<forall>h bs. (h, bs) \<in> set L \<longrightarrow> entry_ok h bs s) \<and>
     (\<forall>p q h. handle_of p s = Some h \<longrightarrow> handle_of q s = Some h \<longrightarrow> p = q) \<and>
     distinct (map fst L) \<and>
     (\<forall>p h bs. handle_of p s = Some h \<longrightarrow> (h, bs) \<notin> set L) \<and>
     (\<forall>h. h \<in> set (live_pools s) \<longleftrightarrow> (\<exists>p. handle_of p s = Some h) \<or> h \<in> fst ` set L) \<and>
     (\<forall>b h. buf_pool s b = Some h \<longrightarrow> h \<in> set (live_pools s) \<and> b < next_handle s) \<and>
     (\<forall>h. h \<in> set (live_pools s) \<longrightarrow> h < next_handle s)"

text \<open>The command pool objects are those that are referenced, and those in \<open>D\<close>.\<close>

definition refs_ok :: "nat set \<Rightarrow> cp_system \<Rightarrow> bool" where
  "refs_ok D s \<longleftrightarrow>
     (\<forall>p. cpools s p \<noteq> None \<longleftrightarrow> referenced p s \<or> p \<in> D) \<and>
     distinct (map fst (tls s)) \<and> distinct (map fst (all_pools s)) \<and>
     (context_alive s \<longrightarrow> recycler_alive s \<and> (\<forall>p c. cpools s p = Some c \<longrightarrow> vk_pool c \<noteq> None))"

definition clean_ok :: "cp_system \<Rightarrow> bool" where
  "clean_ok s \<longleftrightarrow>
     (\<forall>b \<in> set (dirty s). b < next_handle s) \<and>
     (\<not> reset_failed s \<longrightarrow>
       (\<forall>p c. cpools s p = Some c \<longrightarrow> (\<forall>b \<in> set (unused_buffers c). b \<notin> set (dirty s))) \<and>
       (\<forall>h bs. (h, bs) \<in> set (recycled s) \<longrightarrow> (\<forall>b \<in> set bs. b \<notin> set (dirty s))))"

definition cp_inv :: "cp_system \<Rightarrow> bool" where
  "cp_inv s \<longleftrightarrow> owned (loose s) s \<and> refs_ok {} s \<and> clean_ok s"

text \<open>No command pool object can reach for a recycler that is gone.\<close>

definition recycler_safe :: "cp_system \<Rightarrow> bool" where
  "recycler_safe s \<longleftrightarrow> recycler_alive s \<or> (\<forall>p. handle_of p s = None)"

definition runs_ok :: "cp_system \<Rightarrow> cp_system result \<Rightarrow> bool" where
  "runs_ok s r \<longleftrightarrow>
     (\<forall>t. r = Inr t \<longrightarrow> cp_inv t \<and> context_alive t = context_alive s) \<and>
     (recycler_safe s \<longrightarrow> (\<exists>t. r = Inr t))"

lemma handle_of_put_pool [simp]:
  "handle_of q (put_pool p c s) = (if q = p then Option.bind c vk_pool else handle_of q s)"
  by (simp add: handle_of_def put_pool_def)

lemma handle_of_cpools: "cpools t = cpools s \<Longrightarrow> handle_of p t = handle_of p s"
  by (simp add: handle_of_def)

lemma put_pool_fields [simp]:
  "cpools (put_pool p c s) = (cpools s)(p := c)" "next_cpool (put_pool p c s) = next_cpool s"
  "tls (put_pool p c s) = tls s" "tracked (put_pool p c s) = tracked s"
  "all_pools (put_pool p c s) = all_pools s" "background (put_pool p c s) = background s"
  "recycled (put_pool p c s) = recycled s" "live_pools (put_pool p c s) = live_pools s"
  "buf_pool (put_pool p c s) = buf_pool s" "next_handle (put_pool p c s) = next_handle s"
  "dirty (put_pool p c s) = dirty s" "reset_failed (put_pool p c s) = reset_failed s"
  "context_alive (put_pool p c s) = context_alive s" "recycler_alive (put_pool p c s) = recycler_alive s"
  by (simp_all add: put_pool_def)

lemma ownedI:
  assumes "\<And>p c h. cpools s p = Some c \<Longrightarrow> vk_pool c = Some h \<Longrightarrow>
      entry_ok h (unused_buffers c @ collected_buffers c @ held p s) s"
    and "\<And>p c. cpools s p = Some c \<Longrightarrow> vk_pool c = None \<Longrightarrow>
      unused_buffers c = [] \<and> collected_buffers c = []"
    and "\<And>p. next_cpool s \<le> p \<Longrightarrow> cpools s p = None"
    and "\<And>h bs. (h, bs) \<in> set L \<Longrightarrow> entry_ok h bs s"
    and "\<And>p q h. handle_of p s = Some h \<Longrightarrow> handle_of q s = Some h \<Longrightarrow> p = q"
    and "distinct (map fst L)"
    and "\<And>p h bs. handle_of p s = Some h \<Longrightarrow> (h, bs) \<notin> set L"
    and "\<And>h. h \<in> set (live_pools s) \<longleftrightarrow> (\<exists>p. handle_of p s = Some h) \<or> h \<in> fst ` set L"
    and "\<And>b h. buf_pool s b = Some h \<Longrightarrow> h \<in> set (live_pools s) \<and> b < next_handle s"
    and "\<And>h. h \<in> set (live_pools s) \<Longrightarrow> h < next_handle s"
  shows "owned L s"
  unfolding owned_def by (intro conjI allI impI; (rule assms; assumption)?) (use assms in auto)

lemma owned_pool:
  assumes "owned L s"
  shows "cpools s p = Some c \<Longrightarrow> vk_pool c = Some h \<Longrightarrow>
    entry_ok h (unused_buffers c @ collected_buffers c @ held p s) s"
  using assms [unfolded owned_def, THEN conjunct1] by iprover

lemma owned_empty:
  assumes "owned L s"
  shows "cpools s p = Some c \<Longrightarrow> vk_pool c = None \<Longrightarrow>
    unused_buffers c = [] \<and> collected_buffers c = []"
  using assms [unfolded owned_def, THEN conjunct2, THEN conjunct1] by iprover

lemma owned_next:
  assumes "owned L s"
  shows "next_cpool s \<le> p \<Longrightarrow> cpools s p = None"
  using assms [unfolded owned_def, THEN conjunct2, THEN conjunct2, THEN conjunct1] by iprover

lemma owned_entry:
  assumes "owned L s"
  shows "(h, bs) \<in> set L \<Longrightarrow> entry_ok h bs s"
  using assms [unfolded owned_def, THEN conjunct2, THEN conjunct2, THEN conjunct2, THEN conjunct1] by iprover

lemma owned_inj:
  assumes "owned L s"
  shows "handle_of p s = Some h \<Longrightarrow> handle_of q s = Some h \<Longrightarrow> p = q"
  using assms [unfolded owned_def, THEN conjunct2, THEN conjunct2, THEN conjunct2, THEN conjunct2, THEN conjunct1] by iprover

lemma owned_distinct:
  assumes "owned L s"
  shows "distinct (map fst L)"
  using assms [unfolded owned_def, THEN conjunct2, THEN conjunct2, THEN conjunct2, THEN conjunct2, THEN conjunct2, THEN conjunct1] by iprover

lemma owned_loose:
  assumes "owned L s"
  shows "handle_of p s = Some h \<Longrightarrow> (h, bs) \<notin> set L"
  using assms [unfolded owned_def, THEN conjunct2, THEN conjunct2, THEN conjunct2, THEN conjunct2, THEN conjunct2, THEN conjunct2, THEN conjunct1] by iprover

lemma owned_live:
  assumes "owned L s"
  shows "h \<in> set (live_pools s) \<longleftrightarrow> (\<exists>p. handle_of p s = Some h) \<or> h \<in> fst ` set L"
  using assms [unfolded owned_def, THEN conjunct2, THEN conjunct2, THEN conjunct2, THEN conjunct2, THEN conjunct2, THEN conjunct2, THEN conjunct2, THEN conjunct1] by iprover

lemma owned_buf:
  assumes "owned L s"
  shows "buf_pool s b = Some h \<Longrightarrow> h \<in> set (live_pools s) \<and> b < next_handle s"
  using assms [unfolded owned_def, THEN conjunct2, THEN conjunct2, THEN conjunct2, THEN conjunct2, THEN conjunct2, THEN conjunct2, THEN conjunct2, THEN conjunct2, THEN conjunct1] by iprover

lemma owned_fresh:
  assumes "owned L s"
  shows "h \<in> set (live_pools s) \<Longrightarrow> h < next_handle s"
  using assms [unfolded owned_def, THEN conjunct2, THEN conjunct2, THEN conjunct2, THEN conjunct2, THEN conjunct2, THEN conjunct2, THEN conjunct2, THEN conjunct2, THEN conjunct2] by iprover

lemma owned_perm:
  assumes "mset L = mset L'" and "owned L s"
  shows "owned L' s"
proof -
  have sets: "set L = set L'" using assms(1) by (rule mset_eq_setD)
  have dist: "distinct (map fst L) = distinct (map fst L')"
    using assms(1) by (intro mset_eq_imp_distinct_iff) simp
  show ?thesis using assms(2) unfolding owned_def sets dist .
qed

lemma owned_fields:
  "owned L (s\<lparr>background := a\<rparr>) = owned L s" "owned L (s\<lparr>recycled := b\<rparr>) = owned L s"
  "owned L (s\<lparr>tls := c\<rparr>) = owned L s" "owned L (s\<lparr>all_pools := d\<rparr>) = owned L s"
  "owned L (s\<lparr>dirty := e\<rparr>) = owned L s" "owned L (s\<lparr>reset_failed := f\<rparr>) = owned L s"
  "owned L (s\<lparr>context_alive := g\<rparr>) = owned L s" "owned L (s\<lparr>recycler_alive := g\<rparr>) = owned L s"
  by (simp_all add: owned_def entry_ok_def handle_of_def held_def)

subsection \<open>Destroying handles\<close>

definition without_pool :: "nat \<Rightarrow> cp_system \<Rightarrow> cp_system" where
  "without_pool h s = s\<lparr>live_pools := filter (\<lambda>x. x \<noteq> h) (live_pools s),
     buf_pool := (\<lambda>b. if buf_pool s b = Some h then None else buf_pool s b)\<rparr>"

definition without_buffers :: "nat list \<Rightarrow> cp_system \<Rightarrow> cp_system" where
  "without_buffers bs s = s\<lparr>buf_pool := (\<lambda>b. if b \<in> set bs then None else buf_pool s b)\<rparr>"

lemma free_buffers_eq:
  "distinct bs \<Longrightarrow> \<forall>b \<in> set bs. \<exists>h \<in> set (live_pools s). buf_pool s b = Some h \<Longrightarrow>
   free_buffers bs s = Inr (without_buffers bs s)"
proof (induction bs arbitrary: s)
  case (Cons b bs)
  then obtain h where h: "buf_pool s b = Some h" "h \<in> set (live_pools s)" by auto
  let ?s = "s\<lparr>buf_pool := (buf_pool s)(b := None)\<rparr>"
  have "vk_free_buffer b s = Inr ?s" using h by (simp add: vk_free_buffer_def)
  moreover have "free_buffers bs ?s = Inr (without_buffers bs ?s)"
    using Cons.prems by (intro Cons.IH) auto
  moreover have "without_buffers bs ?s = without_buffers (b # bs) s"
    by (auto simp: without_buffers_def fun_eq_iff)
  ultimately show ?case by simp
qed (simp add: without_buffers_def)

lemma entry_free:
  assumes "owned L s" and "entry_ok h bs s" and "h \<in> set (live_pools s)"
  shows "free_buffers bs s = Inr (without_buffers bs s)"
  using assms by (intro free_buffers_eq) (auto simp: entry_ok_def)

lemma destroy_members_eq:
  assumes "owned L s" and "entry_ok h bs s" and "h \<in> set (live_pools s)"
  shows "destroy_members (Some h) bs s = Inr (without_pool h s)"
proof -
  have "free_buffers bs s = Inr (without_buffers bs s)" by (rule entry_free [OF assms])
  moreover have "set bs = {b. buf_pool s b = Some h}" using assms(2) by (simp add: entry_ok_def)
  ultimately show ?thesis using assms(3)
    by (simp add: destroy_members_def without_buffers_def vk_destroy_pool_def without_pool_def fun_eq_iff)
qed

lemma without_pool_fields [simp]:
  "cpools (without_pool h s) = cpools s" "next_cpool (without_pool h s) = next_cpool s"
  "tls (without_pool h s) = tls s" "tracked (without_pool h s) = tracked s"
  "all_pools (without_pool h s) = all_pools s" "background (without_pool h s) = background s"
  "recycled (without_pool h s) = recycled s" "next_handle (without_pool h s) = next_handle s"
  "dirty (without_pool h s) = dirty s" "reset_failed (without_pool h s) = reset_failed s"
  "context_alive (without_pool h s) = context_alive s"
  "recycler_alive (without_pool h s) = recycler_alive s"
  "handle_of p (without_pool h s) = handle_of p s"
  by (simp_all add: without_pool_def handle_of_def)

lemma entry_ok_without_pool:
  "entry_ok h' bs (without_pool h s) \<longleftrightarrow> (if h' = h then bs = [] else entry_ok h' bs s)"
proof -
  have "{b. buf_pool (without_pool h s) b = Some h'} = (if h' = h then {} else {b. buf_pool s b = Some h'})"
    unfolding without_pool_def by (simp add: set_eq_iff)
  then show ?thesis unfolding entry_ok_def by (simp only: split: if_splits) auto
qed

lemma owned_without_pool:
  assumes o: "owned ((h, bs) # L) s"
  shows "owned L (without_pool h s)"
proof (rule ownedI)
  have h: "handle_of p s \<noteq> Some h" for p using owned_loose [OF o, of p h bs] by auto
  have hL: "h \<notin> fst ` set L" using owned_distinct [OF o] by simp
  show "entry_ok h' (unused_buffers c @ collected_buffers c @ held p (without_pool h s)) (without_pool h s)"
    if "cpools (without_pool h s) p = Some c" "vk_pool c = Some h'" for p c h'
  proof -
    have "handle_of p s = Some h'" using that by (simp add: handle_of_def)
    then show ?thesis using owned_pool [OF o, of p c h'] that h
      by (auto simp: entry_ok_without_pool held_def)
  qed
  show "entry_ok h' bs' (without_pool h s)" if "(h', bs') \<in> set L" for h' bs'
    using owned_entry [OF o, of h' bs'] that hL by (force simp: entry_ok_without_pool)
  show "h' \<in> set (live_pools (without_pool h s)) \<longleftrightarrow>
    (\<exists>p. handle_of p (without_pool h s) = Some h') \<or> h' \<in> fst ` set L" for h'
    using owned_live [OF o, of h'] h hL by (auto simp: without_pool_def handle_of_def)
  show "h' \<in> set (live_pools (without_pool h s)) \<and> b < next_handle (without_pool h s)"
    if "buf_pool (without_pool h s) b = Some h'" for b h'
    using that owned_buf [OF o, of b h'] by (auto simp: without_pool_def split: if_splits)
  show "h' < next_handle (without_pool h s)" if "h' \<in> set (live_pools (without_pool h s))" for h'
    using that owned_fresh [OF o, of h'] by (auto simp: without_pool_def)
  show "cpools (without_pool h s) q = None" if "next_cpool (without_pool h s) \<le> q" for q
    using that owned_next [OF o, of q] by simp
  show "unused_buffers d = [] \<and> collected_buffers d = []" if "cpools (without_pool h s) q = Some d" "vk_pool d = None" for q d
    using that owned_empty [OF o, of q d] by (simp split: if_splits)
  show "q = q'" if "handle_of q (without_pool h s) = Some h'" "handle_of q' (without_pool h s) = Some h'" for q q' h'
    using that owned_inj [OF o, of q h' q'] by (simp split: if_splits)
  show "(h', bs') \<notin> set L" if "handle_of q (without_pool h s) = Some h'" for q h' bs'
    using that owned_loose [OF o, of q h' bs'] by simp
qed (use owned_distinct [OF o] in auto)

subsection \<open>Moving a pool\<close>

text \<open>A command pool object goes, and its pool is in hand.\<close>

lemma entry_ok_same: "buf_pool t = buf_pool s \<Longrightarrow> entry_ok h bs t = entry_ok h bs s"
  by (simp add: entry_ok_def)

lemma entry_ok_perm: "mset bs = mset cs \<Longrightarrow> entry_ok h bs s \<Longrightarrow> entry_ok h cs s"
  using mset_eq_setD [of bs cs] mset_eq_imp_distinct_iff [of bs cs] by (simp add: entry_ok_def)

lemma held_same: "tracked t = tracked s \<Longrightarrow> held p t = held p s"
  by (simp add: held_def)

lemma owned_take_pool:
  assumes o: "owned L s" and c: "cpools s p = Some c" "vk_pool c = Some h" and held: "held p s = []"
  shows "owned ((h, collected_buffers c @ unused_buffers c) # L) (put_pool p None s)"
proof (rule ownedI)
  have h: "handle_of p s = Some h" using c by (simp add: handle_of_def)
  have e: "entry_ok h (unused_buffers c @ collected_buffers c) s"
    using owned_pool [OF o c] held by simp
  then have e': "entry_ok h (collected_buffers c @ unused_buffers c) (put_pool p None s)"
    using entry_ok_perm [of "unused_buffers c @ collected_buffers c"] by (simp add: entry_ok_same [of "put_pool p None s" s])
  show "entry_ok h' (unused_buffers d @ collected_buffers d @ held q (put_pool p None s)) (put_pool p None s)"
    if "cpools (put_pool p None s) q = Some d" "vk_pool d = Some h'" for q d h'
    using owned_pool [OF o, of q d h'] that
    by (simp add: held_same [of "put_pool p None s" s] entry_ok_same [of "put_pool p None s" s] split: if_splits)
  show "entry_ok h' bs (put_pool p None s)"
    if "(h', bs) \<in> set ((h, collected_buffers c @ unused_buffers c) # L)" for h' bs
    using owned_entry [OF o, of h' bs] e' that by (auto simp: entry_ok_same [of "put_pool p None s" s])
  show "distinct (map fst ((h, collected_buffers c @ unused_buffers c) # L))"
    using owned_distinct [OF o] owned_loose [OF o h] by auto
  show "(h', bs) \<notin> set ((h, collected_buffers c @ unused_buffers c) # L)"
    if "handle_of q (put_pool p None s) = Some h'" for q h' bs
    using owned_loose [OF o, of q h' bs] owned_inj [OF o h, of q] that by (auto split: if_splits)
  show "h' \<in> set (live_pools (put_pool p None s)) \<longleftrightarrow>
    (\<exists>q. handle_of q (put_pool p None s) = Some h') \<or>
    h' \<in> fst ` set ((h, collected_buffers c @ unused_buffers c) # L)" for h'
  proof -
    have "(\<exists>q. handle_of q s = Some h') \<longleftrightarrow> (\<exists>q. handle_of q (put_pool p None s) = Some h') \<or> h' = h"
      using h owned_inj [OF o h]
      by (metis handle_of_put_pool bind.bind_lzero option.distinct(1) option.inject)
    then show ?thesis using owned_live [OF o, of h'] by auto
  qed
  show "cpools (put_pool p None s) q = None" if "next_cpool (put_pool p None s) \<le> q" for q
    using that owned_next [OF o, of q] by simp
  show "unused_buffers d = [] \<and> collected_buffers d = []" if "cpools (put_pool p None s) q = Some d" "vk_pool d = None" for q d
    using that owned_empty [OF o, of q d] by (simp split: if_splits)
  show "q = q'" if "handle_of q (put_pool p None s) = Some h'" "handle_of q' (put_pool p None s) = Some h'" for q q' h'
    using that owned_inj [OF o, of q h' q'] by (simp split: if_splits)
  show "h' \<in> set (live_pools (put_pool p None s)) \<and> b < next_handle (put_pool p None s)"
    if "buf_pool (put_pool p None s) b = Some h'" for b h'
    using owned_buf [OF o, of b h'] that by simp
  show "h' < next_handle (put_pool p None s)" if "h' \<in> set (live_pools (put_pool p None s))" for h'
    using owned_fresh [OF o, of h'] that by simp
qed

lemma owned_drop_destroyed:
  assumes o: "owned L s" and c: "cpools s p = Some c" "vk_pool c = None"
  shows "owned L (put_pool p None s)"
proof (rule ownedI)
  have h: "handle_of p s = None" using c by (simp add: handle_of_def)
  show "entry_ok h' (unused_buffers d @ collected_buffers d @ held q (put_pool p None s)) (put_pool p None s)"
    if "cpools (put_pool p None s) q = Some d" "vk_pool d = Some h'" for q d h'
    using owned_pool [OF o, of q d h'] that
    by (simp add: held_same [of "put_pool p None s" s] entry_ok_same [of "put_pool p None s" s] split: if_splits)
  show "entry_ok h' bs (put_pool p None s)" if "(h', bs) \<in> set L" for h' bs
    using owned_entry [OF o, of h' bs] that by (simp add: entry_ok_same [of "put_pool p None s" s])
  show "h' \<in> set (live_pools (put_pool p None s)) \<longleftrightarrow>
    (\<exists>q. handle_of q (put_pool p None s) = Some h') \<or> h' \<in> fst ` set L" for h'
  proof -
    have "(\<exists>q. handle_of q (put_pool p None s) = Some h') \<longleftrightarrow> (\<exists>q. handle_of q s = Some h')"
      using h by (metis handle_of_put_pool bind.bind_lzero option.distinct(1))
    then show ?thesis using owned_live [OF o, of h'] by simp
  qed
  show "cpools (put_pool p None s) q = None" if "next_cpool (put_pool p None s) \<le> q" for q
    using that owned_next [OF o, of q] by simp
  show "unused_buffers d = [] \<and> collected_buffers d = []" if "cpools (put_pool p None s) q = Some d" "vk_pool d = None" for q d
    using that owned_empty [OF o, of q d] by (simp split: if_splits)
  show "q = q'" if "handle_of q (put_pool p None s) = Some h'" "handle_of q' (put_pool p None s) = Some h'" for q q' h'
    using that owned_inj [OF o, of q h' q'] by (simp split: if_splits)
  show "(h', bs) \<notin> set L" if "handle_of q (put_pool p None s) = Some h'" for q h' bs
    using that owned_loose [OF o, of q h' bs] by (simp split: if_splits)
  show "h' \<in> set (live_pools (put_pool p None s)) \<and> b < next_handle (put_pool p None s)"
    if "buf_pool (put_pool p None s) b = Some h'" for b h'
    using owned_buf [OF o, of b h'] that by simp
  show "h' < next_handle (put_pool p None s)" if "h' \<in> set (live_pools (put_pool p None s))" for h'
    using owned_fresh [OF o, of h'] that by simp
qed (rule owned_distinct [OF o])

text \<open>A command pool object is made from a pool in hand.\<close>

lemma owned_new_pool:
  assumes o: "owned ((h, bs) # L) s" and new: "held (next_cpool s) s = []"
    and t: "t = s\<lparr>cpools := (cpools s)(next_cpool s \<mapsto>
        \<lparr>vk_pool = Some h, unused_buffers = bs, collected_buffers = []\<rparr>),
      next_cpool := next_cpool s + 1, tls := x, all_pools := y\<rparr>"
  shows "owned L t"
proof (rule ownedI)
  have none: "handle_of (next_cpool s) s = None"
    using owned_next [OF o, of "next_cpool s"] by (simp add: handle_of_def)
  have handle: "handle_of q t = (if q = next_cpool s then Some h else handle_of q s)" for q
    by (simp add: handle_of_def t)
  have hL: "h \<notin> fst ` set L" using owned_distinct [OF o] by simp
  have h: "handle_of q s \<noteq> Some h" for q using owned_loose [OF o, of q h bs] by auto
  show "entry_ok h' (unused_buffers d @ collected_buffers d @ held q t) t"
    if "cpools t q = Some d" "vk_pool d = Some h'" for q d h'
    using owned_pool [OF o, of q d h'] owned_entry [OF o, of h bs] that new
      owned_next [OF o, of "next_cpool s"]
    by (cases "q = next_cpool s") (auto simp: held_def entry_ok_def t)
  show "entry_ok h' bs' t" if "(h', bs') \<in> set L" for h' bs'
    using owned_entry [OF o, of h' bs'] that by (auto simp: entry_ok_def t)
  show "q = q'" if "handle_of q t = Some h'" "handle_of q' t = Some h'" for q q' h'
    using that owned_inj [OF o, of q h' q'] h by (auto simp: handle split: if_splits)
  show "h' \<in> set (live_pools t) \<longleftrightarrow> (\<exists>q. handle_of q t = Some h') \<or> h' \<in> fst ` set L" for h'
  proof -
    have "(\<exists>q. handle_of q t = Some h') \<longleftrightarrow> h' = h \<or> (\<exists>q. handle_of q s = Some h')"
      using none by (metis handle option.inject option.distinct(1))
    then show ?thesis using owned_live [OF o, of h'] by (auto simp: t)
  qed
  show "(h', bs') \<notin> set L" if "handle_of q t = Some h'" for q h' bs'
    using that owned_loose [OF o, of q h' bs'] hL by (force simp: handle split: if_splits)
  show "cpools t q = None" if "next_cpool t \<le> q" for q
    using that owned_next [OF o, of q] by (simp add: t)
  show "unused_buffers d = [] \<and> collected_buffers d = []" if "cpools t q = Some d" "vk_pool d = None" for q d
    using that owned_empty [OF o, of q d] by (auto simp: t split: if_splits)
  show "distinct (map fst L)" using owned_distinct [OF o] by simp
qed (use owned_buf [OF o] owned_fresh [OF o] in \<open>auto simp: t\<close>)

lemma owned_create_pool:
  assumes o: "owned L s"
  shows "owned ((next_handle s, []) # L) (snd (vk_create_pool s))"
proof -
  let ?n = "next_handle s"
  let ?t = "s\<lparr>live_pools := ?n # live_pools s, next_handle := ?n + 1\<rparr>"
  have n: "?n \<notin> set (live_pools s)" using owned_fresh [OF o] by blast
  have none: "buf_pool s b \<noteq> Some ?n" for b using owned_buf [OF o, of b ?n] n by auto
  have same: "handle_of q ?t = handle_of q s" for q by (rule handle_of_cpools) simp
  have handle: "handle_of q s \<noteq> Some ?n" for q using owned_live [OF o, of ?n] n by auto
  have "owned ((?n, []) # L) ?t"
  proof (rule ownedI)
    show "entry_ok h' (unused_buffers d @ collected_buffers d @ held q ?t) ?t"
      if "cpools ?t q = Some d" "vk_pool d = Some h'" for q d h'
      using owned_pool [OF o, of q d h'] that by (simp add: held_def entry_ok_def)
    show "entry_ok h' bs' ?t" if "(h', bs') \<in> set ((?n, []) # L)" for h' bs'
      using owned_entry [OF o, of h' bs'] none that by (auto simp: entry_ok_def)
    show "distinct (map fst ((?n, []) # L))"
      using owned_distinct [OF o] owned_live [OF o, of ?n] n by simp
    show "h' \<in> set (live_pools ?t) \<longleftrightarrow> (\<exists>q. handle_of q ?t = Some h') \<or> h' \<in> fst ` set ((?n, []) # L)" for h'
      unfolding same using owned_live [OF o, of h'] by auto
    show "(h', bs') \<notin> set ((?n, []) # L)" if "handle_of q ?t = Some h'" for q h' bs'
      using that owned_loose [OF o, of q h' bs'] handle unfolding same by auto
    show "h' < next_handle ?t" if "h' \<in> set (live_pools ?t)" for h'
      using that owned_fresh [OF o, of h'] by auto
    show "h' \<in> set (live_pools ?t) \<and> b < next_handle ?t" if "buf_pool ?t b = Some h'" for b h'
      using that owned_buf [OF o, of b h'] by auto
    show "q = q'" if "handle_of q ?t = Some h'" "handle_of q' ?t = Some h'" for q q' h'
      using that owned_inj [OF o, of q h' q'] unfolding same by simp
  qed (use owned_empty [OF o] owned_next [OF o] in auto)
  then show ?thesis by (simp add: vk_create_pool_def)
qed

lemma owned_trim:
  assumes o: "owned ((h, bs) # L) s"
  shows "owned ((h, []) # L) (without_buffers bs s)"
proof (rule ownedI)
  let ?t = "without_buffers bs s"
  have bs: "set bs = {b. buf_pool s b = Some h}" using owned_entry [OF o, of h bs] by (simp add: entry_ok_def)
  have fields: "cpools ?t = cpools s" "tracked ?t = tracked s" "next_cpool ?t = next_cpool s"
    "live_pools ?t = live_pools s" "next_handle ?t = next_handle s" "handle_of q ?t = handle_of q s" for q
    by (simp_all add: without_buffers_def handle_of_def)
  have hL: "h \<notin> fst ` set L" using owned_distinct [OF o] by simp
  have h: "handle_of q s \<noteq> Some h" for q using owned_loose [OF o, of q h bs] by auto
  have entry: "entry_ok h' bs' ?t \<longleftrightarrow> entry_ok h' bs' s" if "h' \<noteq> h" for h' bs'
    using that bs by (auto simp: entry_ok_def without_buffers_def)
  show "entry_ok h' (unused_buffers d @ collected_buffers d @ held q ?t) ?t"
    if "cpools ?t q = Some d" "vk_pool d = Some h'" for q d h'
  proof -
    have "handle_of q s = Some h'" using that by (simp add: handle_of_def fields)
    then show ?thesis using h [of q] owned_pool [OF o, of q d h'] that
      by (simp add: entry fields held_def)
  qed
  show "entry_ok h' bs' ?t" if "(h', bs') \<in> set ((h, []) # L)" for h' bs'
  proof (cases "h' = h")
    case True
    with that hL have "bs' = []" by force
    with True bs show ?thesis by (auto simp: entry_ok_def without_buffers_def)
  next
    case False
    with that owned_entry [OF o, of h' bs'] show ?thesis by (simp add: entry)
  qed
  show "h' \<in> set (live_pools ?t) \<and> b < next_handle ?t" if "buf_pool ?t b = Some h'" for b h'
    using that owned_buf [OF o, of b h'] by (auto simp: without_buffers_def split: if_splits)
  show "(h', bs') \<notin> set ((h, []) # L)" if "handle_of q ?t = Some h'" for q h' bs'
    using that owned_loose [OF o, of q h'] h by (auto simp: fields)
  show "h' \<in> set (live_pools ?t) \<longleftrightarrow> (\<exists>q. handle_of q ?t = Some h') \<or> h' \<in> fst ` set ((h, []) # L)" for h'
    using owned_live [OF o, of h'] by (simp add: fields)
  show "distinct (map fst ((h, []) # L))" using owned_distinct [OF o] by simp
  show "cpools ?t q = None" if "next_cpool ?t \<le> q" for q
    using that owned_next [OF o, of q] by (simp add: fields)
  show "unused_buffers d = [] \<and> collected_buffers d = []" if "cpools ?t q = Some d" "vk_pool d = None" for q d
    using that owned_empty [OF o, of q d] by (simp add: fields)
  show "q = q'" if "handle_of q ?t = Some h'" "handle_of q' ?t = Some h'" for q q' h'
    using that owned_inj [OF o, of q h' q'] by (simp add: fields)
  show "h' < next_handle ?t" if "h' \<in> set (live_pools ?t)" for h'
    using that owned_fresh [OF o, of h'] by (simp add: fields)
qed

text \<open>Buffers move between the lists of a pool and its tracked objects, or are allocated in it.\<close>

lemma owned_update_pool:
  assumes o: "owned L s" and c: "cpools s p = Some c" "vk_pool c = Some h"
    and t: "cpools t = (cpools s)(p \<mapsto> d)" "vk_pool d = Some h" "next_cpool t = next_cpool s"
      "live_pools t = live_pools s" "next_handle s \<le> next_handle t"
    and entry: "entry_ok h (unused_buffers d @ collected_buffers d @ held p t) t"
    and held: "\<And>q. q \<noteq> p \<Longrightarrow> held q t = held q s"
    and bufs: "\<And>b h'. h' \<noteq> h \<Longrightarrow> buf_pool t b = Some h' \<longleftrightarrow> buf_pool s b = Some h'"
      "\<And>b. buf_pool t b = Some h \<Longrightarrow> b < next_handle t"
  shows "owned L t"
proof (rule ownedI)
  have h: "handle_of p s = Some h" using c by (simp add: handle_of_def)
  have handle: "handle_of q t = handle_of q s" for q
    using c t by (simp add: handle_of_def)
  have same: "entry_ok h' bs t = entry_ok h' bs s" if "h' \<noteq> h" for h' bs
    using bufs(1) [OF that] by (simp add: entry_ok_def)
  show "entry_ok h' (unused_buffers e @ collected_buffers e @ held q t) t"
    if e: "cpools t q = Some e" "vk_pool e = Some h'" for q e h'
  proof (cases "q = p")
    case True
    with e entry t show ?thesis by simp
  next
    case False
    then have "cpools s q = Some e" using e t by simp
    moreover from this e False have "h' \<noteq> h"
      using owned_inj [OF o h, of q] by (auto simp: handle_of_def)
    ultimately show ?thesis using owned_pool [OF o, of q e h'] e by (simp add: same held False)
  qed
  show "entry_ok h' bs t" if "(h', bs) \<in> set L" for h' bs
    using owned_entry [OF o that] owned_loose [OF o h, of bs] that by (cases "h' = h") (auto simp: same)
  show "h' \<in> set (live_pools t) \<and> b < next_handle t" if "buf_pool t b = Some h'" for b h'
    using owned_buf [OF o, of b h'] owned_live [OF o, of h'] h bufs(1) [of h' b] bufs(2) [of b] that t
    by (cases "h' = h") auto
  show "cpools t q = None" if "next_cpool t \<le> q" for q
    using that owned_next [OF o, of q] owned_next [OF o, of p] c t by (cases "q = p") auto
  show "unused_buffers e = [] \<and> collected_buffers e = []" if "cpools t q = Some e" "vk_pool e = None" for q e
    using that owned_empty [OF o, of q e] t by (cases "q = p") auto
  show "h' < next_handle t" if "h' \<in> set (live_pools t)" for h'
    using owned_fresh [OF o, of h'] that t by simp
  show "h' \<in> set (live_pools t) \<longleftrightarrow> (\<exists>q. handle_of q t = Some h') \<or> h' \<in> fst ` set L" for h'
    unfolding handle t by (rule owned_live [OF o])
  show "q = q'" if "handle_of q t = Some h'" "handle_of q' t = Some h'" for q q' h'
    using that owned_inj [OF o, of q h' q'] by (simp add: handle)
  show "(h', bs) \<notin> set L" if "handle_of q t = Some h'" for q h' bs
    using that owned_loose [OF o, of q h' bs] by (simp add: handle)
qed (rule owned_distinct [OF o])

text \<open>Nothing changes when the tracked object of a destroyed pool goes.\<close>

lemma owned_untrack:
  assumes o: "owned L s" and p: "handle_of p s = None"
    and held: "\<And>q. q \<noteq> p \<Longrightarrow> held q (s\<lparr>tracked := T\<rparr>) = held q s"
  shows "owned L (s\<lparr>tracked := T\<rparr>)"
proof (rule ownedI)
  let ?t = "s\<lparr>tracked := T\<rparr>"
  have handle: "handle_of q ?t = handle_of q s" for q by (rule handle_of_cpools) simp
  have entry: "entry_ok h bs ?t = entry_ok h bs s" for h bs by (rule entry_ok_same) simp
  show "entry_ok h (unused_buffers c @ collected_buffers c @ held q ?t) ?t"
    if "cpools ?t q = Some c" "vk_pool c = Some h" for q c h
  proof -
    have "q \<noteq> p" using that p by (auto simp: handle_of_def)
    then show ?thesis using owned_pool [OF o, of q c h] that by (simp add: held entry)
  qed
  show "entry_ok h bs ?t" if "(h, bs) \<in> set L" for h bs
    using owned_entry [OF o that] by (simp add: entry)
  show "h \<in> set (live_pools ?t) \<longleftrightarrow> (\<exists>q. handle_of q ?t = Some h) \<or> h \<in> fst ` set L" for h
    unfolding handle using owned_live [OF o, of h] by simp
  show "q = q'" if "handle_of q ?t = Some h" "handle_of q' ?t = Some h" for q q' h
    using that owned_inj [OF o, of q h q'] by (simp add: handle)
  show "(h, bs) \<notin> set L" if "handle_of q ?t = Some h" for q h bs
    using that owned_loose [OF o, of q h bs] by (simp add: handle)
  show "cpools ?t q = None" if "next_cpool ?t \<le> q" for q
    using that owned_next [OF o, of q] by simp
  show "unused_buffers c = [] \<and> collected_buffers c = []" if "cpools ?t q = Some c" "vk_pool c = None" for q c
    using that owned_empty [OF o, of q c] by simp
  show "h \<in> set (live_pools ?t) \<and> b < next_handle ?t" if "buf_pool ?t b = Some h" for b h
    using that owned_buf [OF o, of b h] by simp
  show "h < next_handle ?t" if "h \<in> set (live_pools ?t)" for h
    using that owned_fresh [OF o, of h] by simp
qed (rule owned_distinct [OF o])

lemma owned_destroy:
  assumes o: "owned L s" and c: "cpools s p = Some c" "vk_pool c = Some h"
    and d: "d = \<lparr>vk_pool = None, unused_buffers = [], collected_buffers = []\<rparr>"
  shows "owned L (put_pool p (Some d) (without_pool h s))"
proof (rule ownedI)
  let ?t = "put_pool p (Some d) (without_pool h s)"
  have h: "handle_of p s = Some h" using c by (simp add: handle_of_def)
  have hL: "h \<notin> fst ` set L" using owned_loose [OF o h] by auto
  have handle: "handle_of q ?t = (if q = p then None else handle_of q s)" for q
    unfolding d by simp
  have other: "handle_of q s \<noteq> Some h" if "q \<noteq> p" for q using owned_inj [OF o h, of q] that by auto
  have entry: "entry_ok h' bs ?t = entry_ok h' bs s" if "h' \<noteq> h" for h' bs
    using that entry_ok_same [of ?t "without_pool h s"] by (simp add: entry_ok_without_pool)
  show "entry_ok h' (unused_buffers e @ collected_buffers e @ held q ?t) ?t"
    if e: "cpools ?t q = Some e" "vk_pool e = Some h'" for q e h'
  proof -
    have q: "q \<noteq> p" "cpools s q = Some e" using e d by (auto split: if_splits)
    then have "h' \<noteq> h" using other [of q] e by (auto simp: handle_of_def)
    then show ?thesis using owned_pool [OF o q(2) e(2)] by (simp add: entry held_same [of ?t s])
  qed
  show "entry_ok h' bs ?t" if "(h', bs) \<in> set L" for h' bs
    using owned_entry [OF o that] hL that by (cases "h' = h") (force simp: entry)+
  show "h' \<in> set (live_pools ?t) \<longleftrightarrow> (\<exists>q. handle_of q ?t = Some h') \<or> h' \<in> fst ` set L" for h'
  proof -
    have "(\<exists>q. handle_of q ?t = Some h') \<longleftrightarrow> h' \<noteq> h \<and> (\<exists>q. handle_of q s = Some h')"
      using h other by (metis handle option.distinct(1) option.inject)
    then show ?thesis using owned_live [OF o, of h'] hL by (auto simp: without_pool_def)
  qed
  show "h' \<in> set (live_pools ?t) \<and> b < next_handle ?t" if "buf_pool ?t b = Some h'" for b h'
    using that owned_buf [OF o, of b h'] by (auto simp: without_pool_def split: if_splits)
  show "h' < next_handle ?t" if "h' \<in> set (live_pools ?t)" for h'
    using that owned_fresh [OF o, of h'] by (simp add: without_pool_def)
  show "q = q'" if "handle_of q ?t = Some h'" "handle_of q' ?t = Some h'" for q q' h'
    using that owned_inj [OF o, of q h' q'] unfolding handle by (simp split: if_splits)
  show "(h', bs) \<notin> set L" if "handle_of q ?t = Some h'" for q h' bs
    using that owned_loose [OF o, of q h' bs] unfolding handle by (simp split: if_splits)
  show "cpools ?t q = None" if "next_cpool ?t \<le> q" for q
    using that owned_next [OF o, of q] owned_next [OF o, of p] c by auto
  show "unused_buffers e = [] \<and> collected_buffers e = []" if "cpools ?t q = Some e" "vk_pool e = None" for q e
    using that owned_empty [OF o, of q e] d by (auto split: if_splits)
qed (rule owned_distinct [OF o])

subsection \<open>Every operation keeps the invariant\<close>

lemma referenced_simps [simp]:
  "referenced q (put_pool p c s) = referenced q s" "referenced q (without_pool h s) = referenced q s"
  "referenced q (without_buffers bs s) = referenced q s"
  "referenced q (s\<lparr>background := a\<rparr>) = referenced q s" "referenced q (s\<lparr>recycled := b\<rparr>) = referenced q s"
  "referenced q (s\<lparr>all_pools := d\<rparr>) = referenced q s" "referenced q (s\<lparr>context_alive := e\<rparr>) = referenced q s"
  by (simp_all add: referenced_def without_buffers_def)

lemma loose_simps [simp]:
  "loose (put_pool p c s) = loose s" "loose (without_pool h s) = loose s"
  "loose (without_buffers bs s) = loose s"
  "loose (s\<lparr>all_pools := d\<rparr>) = loose s" "loose (s\<lparr>tls := d\<rparr>) = loose s"
  "loose (s\<lparr>context_alive := e\<rparr>) = loose s" "loose (s\<lparr>tracked := f\<rparr>) = loose s"
  by (simp_all add: loose_def without_buffers_def)

lemma refs_okD: "refs_ok {} s \<Longrightarrow> cpools s p \<noteq> None \<longleftrightarrow> referenced p s"
  unfolding refs_ok_def by blast

lemma unreferenced_held: "\<not> referenced p s \<Longrightarrow> held p s = []"
  by (auto simp: referenced_def held_def filter_empty_conv)

lemma runs_okI:
  "r = Inr t \<Longrightarrow> cp_inv t \<Longrightarrow> context_alive t = context_alive s \<Longrightarrow> runs_ok s r"
  by (simp add: runs_ok_def)

lemma runs_ok_same:
  "runs_ok s' r \<Longrightarrow> context_alive s' = context_alive s \<Longrightarrow> (recycler_safe s \<Longrightarrow> recycler_safe s') \<Longrightarrow> runs_ok s r"
  unfolding runs_ok_def by metis

lemma dtor_ok:
  assumes o: "owned (loose s) s" and r: "refs_ok {p} s" and cl: "clean_ok s"
    and c: "cpools s p = Some c" and free: "\<not> referenced p s"
  shows "runs_ok s (CommandPool_dtor p s)"
proof (cases "vk_pool c")
  case None
  have "CommandPool_dtor p s = Inr (put_pool p None s)"
    using c None owned_empty [OF o c None] by (simp add: CommandPool_dtor_def pool_at_def destroy_members_def)
  then show ?thesis
  proof (rule runs_okI)
    show "cp_inv (put_pool p None s)"
      using owned_drop_destroyed [OF o c None] r cl free
      by (auto simp: cp_inv_def refs_ok_def clean_ok_def)
  qed simp
next
  case (Some h)
  let ?bs = "collected_buffers c @ unused_buffers c"
  let ?s1 = "put_pool p None s"
  have o1: "owned ((h, ?bs) # loose s) ?s1"
    by (rule owned_take_pool [OF o c Some unreferenced_held [OF free]])
  have h: "handle_of p s = Some h" using c Some by (simp add: handle_of_def)
  have r1: "refs_ok {} ?s1" using r free by (auto simp: refs_ok_def)
  have cl1: "clean_ok ?s1" using cl by (auto simp: clean_ok_def)
  show ?thesis
  proof (cases "recycler_alive s")
    case False
    then have "CommandPool_dtor p s = Inl Undefined_Behaviour"
      using c Some by (simp add: CommandPool_dtor_def pool_at_def lock_context_def)
    then show ?thesis using False h by (auto simp: runs_ok_def recycler_safe_def)
  next
    case alive: True
    show ?thesis
    proof (cases "context_alive s")
      case True
      let ?t = "?s1\<lparr>background := background ?s1 @ [(h, ?bs, length (unused_buffers c))]\<rparr>"
      have "owned (loose ?t) ?t"
        using owned_perm [OF _ o1, of "loose ?t"] by (simp add: loose_def owned_fields)
      then have "cp_inv ?t" using r1 cl1 by (auto simp: cp_inv_def refs_ok_def clean_ok_def)
      with True alive show ?thesis
        by (intro runs_okI [where t = ?t])
          (use c Some in \<open>simp_all add: CommandPool_dtor_def pool_at_def lock_context_def Let_def\<close>)
    next
      case False
      have "h \<in> set (live_pools ?s1)" using owned_live [OF o, of h] h by auto
      then have "destroy_members (Some h) ?bs ?s1 = Inr (without_pool h ?s1)"
        by (intro destroy_members_eq [OF o1] owned_entry [OF o1]) simp_all
      moreover have "cp_inv (without_pool h ?s1)"
        using owned_without_pool [OF o1] r1 cl1 by (auto simp: cp_inv_def refs_ok_def clean_ok_def)
      ultimately show ?thesis using False alive c Some
        by (intro runs_okI [where t = "without_pool h ?s1"])
          (simp_all add: CommandPool_dtor_def pool_at_def lock_context_def)
    qed
  qed
qed

lemma drop_ok:
  assumes o: "owned (loose s) s" and r: "refs_ok {p} s" and cl: "clean_ok s"
  shows "runs_ok s (drop_pool p s)"
proof (cases "referenced p s")
  case True
  then have "refs_ok {} s" using r by (auto simp: refs_ok_def)
  with True o cl show ?thesis by (intro runs_okI [where t = s]) (simp_all add: drop_pool_def cp_inv_def)
next
  case False
  have "cpools s p \<noteq> None" using r unfolding refs_ok_def by blast
  then obtain c where "cpools s p = Some c" by blast
  with False show ?thesis using dtor_ok [OF o r cl] by (simp add: drop_pool_def)
qed

lemma tls_erase_ok:
  assumes inv: "cp_inv s"
  shows "runs_ok s (tls_erase t s)"
proof (cases "map_of (tls s) t")
  case None
  with inv show ?thesis by (intro runs_okI [where t = s]) (simp_all add: tls_erase_def)
next
  case (Some p)
  let ?s = "s\<lparr>tls := AList.delete t (tls s)\<rparr>"
  have inv': "owned (loose s) s" "refs_ok {} s" "clean_ok s" using inv by (simp_all add: cp_inv_def)
  have "(t, p) \<in> set (tls s)" using Some by (rule map_of_SomeD)
  moreover have "distinct (map fst (tls s))" using inv' by (simp add: refs_ok_def)
  ultimately have "snd ` set (tls s) = insert p (snd ` set (AList.delete t (tls s)))"
    by (force simp: AList.delete_eq dest: eq_key_imp_eq_value)
  then have ref: "referenced q s \<longleftrightarrow> referenced q ?s \<or> q = p" for q by (auto simp: referenced_def)
  have "refs_ok {p} ?s"
    using inv'(2) ref by (auto simp: refs_ok_def distinct_delete)
  moreover have "owned (loose ?s) ?s" using inv' by (simp add: owned_fields)
  moreover have "clean_ok ?s" using inv' by (simp add: clean_ok_def)
  ultimately have "runs_ok ?s (drop_pool p ?s)" by (intro drop_ok)
  moreover have "recycler_safe ?s = recycler_safe s" by (simp add: recycler_safe_def handle_of_def)
  ultimately show ?thesis using Some by (auto simp: tls_erase_def intro: runs_ok_same)
qed

lemma runs_ok_then:
  assumes "runs_ok s r" and "\<And>t. cp_inv t \<Longrightarrow> cp_inv (f t) \<and> context_alive (f t) = context_alive t"
  shows "runs_ok s (rbind r (\<lambda>t. Inr (f t)))"
  using assms by (cases r) (auto simp: runs_ok_def)

lemma cp_inv_all_pools:
  "cp_inv s \<Longrightarrow> distinct (map fst x) \<Longrightarrow> cp_inv (s\<lparr>all_pools := x\<rparr>)"
  by (auto simp: cp_inv_def owned_fields refs_ok_def clean_ok_def)

lemma cp_inv_tables: "cp_inv s \<Longrightarrow> distinct (map fst (all_pools s))" "cp_inv s \<Longrightarrow> distinct (map fst (tls s))"
  by (simp_all add: cp_inv_def refs_ok_def)

lemma Dispose_ok: "cp_inv s \<Longrightarrow> runs_ok s (Dispose t s)"
  unfolding Dispose_def
  by (rule runs_ok_then [OF tls_erase_ok])
    (auto intro: cp_inv_all_pools distinct_delete dest: cp_inv_tables)

lemma Destroy_ok:
  assumes inv: "cp_inv s" and c: "cpools s p = Some c" and gone: "\<not> context_alive s"
  shows "\<exists>t. Destroy p s = Inr t \<and> cp_inv t \<and> \<not> context_alive t \<and> handle_of p t = None \<and>
    (\<forall>q. handle_of q t = Some h \<longrightarrow> handle_of q s = Some h)"
proof -
  let ?d = "\<lparr>vk_pool = None, unused_buffers = [], collected_buffers = []\<rparr>"
  have inv': "owned (loose s) s" "refs_ok {} s" "clean_ok s" using inv by (simp_all add: cp_inv_def)
  show ?thesis
  proof (cases "vk_pool c")
    case None
    have "?d = c" using None owned_empty [OF inv'(1) c None] by (cases c) simp
    then have "put_pool p (Some ?d) s = s" using c by (simp add: put_pool_def fun_upd_idem)
    then show ?thesis using c None inv gone by (simp add: Destroy_def pool_at_def handle_of_def)
  next
    case (Some h')
    let ?t = "put_pool p (Some ?d) (without_pool h' s)"
    have "handle_of p s = Some h'" using c Some by (simp add: handle_of_def)
    then have "h' \<in> set (live_pools s)" using owned_live [OF inv'(1), of h'] by auto
    then have "Destroy p s = Inr ?t" using c Some
      by (simp add: Destroy_def pool_at_def vk_destroy_pool_def without_pool_def)
    moreover have "cp_inv ?t"
      using owned_destroy [OF inv'(1) c Some refl] inv' gone c
      by (auto simp: cp_inv_def refs_ok_def clean_ok_def)
    ultimately show ?thesis using gone by (auto split: if_splits)
  qed
qed

lemma destroy_all_ok:
  "cp_inv s \<Longrightarrow> \<not> context_alive s \<Longrightarrow>
   \<exists>t. destroy_all ps s = Inr t \<and> cp_inv t \<and> \<not> context_alive t"
proof (induction ps s rule: destroy_all.induct)
  case (2 t p ps s)
  show ?case
  proof (cases "cpools s p")
    case (Some c)
    from Destroy_ok [OF 2(3) Some 2(4)] obtain s' where
      "Destroy p s = Inr s'" "cp_inv s'" "\<not> context_alive s'" by blast
    with 2(2) [of s'] Some show ?thesis by simp
  qed (use 2 in simp)
qed simp

lemma DestroyThreadLocalPools_ok:
  assumes "cp_inv s" and "\<not> context_alive s"
  shows "runs_ok s (DestroyThreadLocalPools t s)"
proof (cases "tls_erase t s")
  case (Inl e)
  with tls_erase_ok [OF assms(1), of t] show ?thesis by (simp add: runs_ok_def DestroyThreadLocalPools_def)
next
  case (Inr s1)
  with tls_erase_ok [OF assms(1), of t] assms have "cp_inv s1" "\<not> context_alive s1"
    by (auto simp: runs_ok_def)
  from destroy_all_ok [OF this] obtain s2 where
    "destroy_all (all_pools s1) s1 = Inr s2" "cp_inv s2" "\<not> context_alive s2" by blast
  with Inr assms show ?thesis
    by (intro runs_okI [where t = "s2\<lparr>all_pools := []\<rparr>"])
      (simp_all add: DestroyThreadLocalPools_def cp_inv_all_pools)
qed

text \<open>The buffer of a tracked object belongs to the pool of its command pool object.\<close>

lemma tracked_pool:
  assumes o: "owned L s" and r: "refs_ok D s" and x: "(p, b) \<in> set (tracked s)" and h: "handle_of p s = Some h"
  shows "buf_pool s b = Some h"
proof -
  obtain c where c: "cpools s p = Some c" "vk_pool c = Some h"
    using h by (auto simp: handle_of_def bind_eq_Some_conv)
  have "b \<in> set (held p s)" using x by (force simp: held_def)
  then show ?thesis using owned_pool [OF o c] by (auto simp: entry_ok_def)
qed

lemma Reclaim_ok:
  assumes o: "owned ((h, bs) # loose s) s" and r: "refs_ok {} s" and cl: "clean_ok s"
    and alive: "context_alive s"
  shows "\<exists>t. Reclaim reset_ok h bs trim s = Inr (True, t) \<and> cp_inv t \<and> context_alive t"
proof -
  define s1 where "s1 = (if trim then without_buffers bs s else s)"
  define cs where "cs = (if trim then [] else bs)"
  have h: "h \<in> set (live_pools s)" using owned_live [OF o, of h] by simp
  have free: "(if trim then free_buffers bs s else Inr s) = Inr s1"
    using entry_free [OF o owned_entry [OF o] h] by (simp add: s1_def)
  have o1: "owned ((h, cs) # loose s) s1" using o owned_trim [OF o] by (simp add: s1_def cs_def)
  have fields: "tracked s1 = tracked s" "live_pools s1 = live_pools s" "cpools s1 = cpools s"
    "dirty s1 = dirty s" "reset_failed s1 = reset_failed s" "recycled s1 = recycled s"
    "next_handle s1 = next_handle s" "context_alive s1 = context_alive s" "tls s1 = tls s"
    "recycler_alive s1 = recycler_alive s" "all_pools s1 = all_pools s" "background s1 = background s"
    by (simp_all add: s1_def without_buffers_def)
  have r1: "refs_ok {} s1" using r by (simp add: refs_ok_def referenced_def fields)
  have idle: "buf_pool s1 b \<noteq> Some h" if x: "(p, b) \<in> set (tracked s1)" for p b
  proof -
    have "referenced p s1" using x by (force simp: referenced_def)
    then have "cpools s1 p \<noteq> None" using r1 unfolding refs_ok_def by blast
    then obtain c where c: "cpools s1 p = Some c" by blast
    moreover have "vk_pool c \<noteq> None" using r1 alive c unfolding refs_ok_def fields by blast
    ultimately obtain h' where h': "handle_of p s1 = Some h'" by (auto simp: handle_of_def)
    moreover have "h' \<noteq> h" using owned_loose [OF o1 h', of cs] by auto
    ultimately show ?thesis using tracked_pool [OF o1 r1 x] by simp
  qed
  define s2 where "s2 = (if reset_ok then s1\<lparr>dirty := filter (\<lambda>b. buf_pool s1 b \<noteq> Some h) (dirty s1)\<rparr>
    else s1\<lparr>reset_failed := True\<rparr>)"
  define t where "t = s2\<lparr>recycled := recycled s2 @ [(h, cs)]\<rparr>"
  have "vk_reset_pool reset_ok h s1 = Inr s2"
  proof -
    have "\<forall>x \<in> set (tracked s1). buf_pool s1 (snd x) \<noteq> Some h" using idle by auto
    with h show ?thesis by (simp add: vk_reset_pool_def fields s2_def)
  qed
  with free alive have "Reclaim reset_ok h bs trim s = Inr (True, t)"
    by (simp add: Reclaim_def t_def cs_def)
  moreover have "cp_inv t"
  proof -
    have "mset ((h, cs) # loose s) = mset (loose t)"
      by (simp add: loose_def t_def s2_def fields)
    from owned_perm [OF this o1] have "owned (loose t) s1" .
    moreover have "owned L t = owned L s1" for L by (simp add: t_def s2_def owned_fields)
    ultimately have "owned (loose t) t" by simp
    moreover have "refs_ok {} t" using r1 by (auto simp: refs_ok_def referenced_def t_def s2_def)
    moreover have "clean_ok t"
      using cl owned_entry [OF o1, of h cs] by (auto simp: clean_ok_def t_def s2_def fields entry_ok_def)
    ultimately show ?thesis by (simp add: cp_inv_def)
  qed
  moreover have "context_alive t" using alive by (simp add: t_def s2_def fields)
  ultimately show ?thesis by blast
qed

lemma Background_ok:
  assumes inv: "cp_inv s" and i: "i < length (background s)"
  shows "runs_ok s (Background_dtor reset_ok i s)"
proof -
  obtain h bs n where x: "background s ! i = (h, bs, n)" by (cases "background s ! i") auto
  let ?s = "s\<lparr>background := take i (background s) @ drop (Suc i) (background s)\<rparr>"
  have inv': "owned (loose s) s" "refs_ok {} s" "clean_ok s" using inv by (simp_all add: cp_inv_def)
  have "mset (background s) = mset (background ?s) + {#(h, bs, n)#}"
    using mset_take_drop [OF i] x by simp
  then have "mset (loose s) = mset ((h, bs) # loose ?s)"
    by (simp add: loose_def)
  from owned_perm [OF this inv'(1)] have o: "owned ((h, bs) # loose ?s) ?s" by (simp add: owned_fields)
  have r: "refs_ok {} ?s" using inv'(2) by (auto simp: refs_ok_def)
  have cl: "clean_ok ?s" using inv'(3) by (auto simp: clean_ok_def)
  have h: "h \<in> set (live_pools ?s)" using owned_live [OF o, of h] by simp
  have destroyed: "destroy_members (Some h) bs ?s = Inr (without_pool h ?s)"
    by (intro destroy_members_eq [OF o] owned_entry [OF o] h) simp
  have inv_destroyed: "cp_inv (without_pool h ?s)"
    using owned_without_pool [OF o] r cl by (auto simp: cp_inv_def refs_ok_def clean_ok_def)
  show ?thesis
  proof (cases "context_alive s")
    case True
    then have "recycler_alive s" using inv'(2) by (simp add: refs_ok_def)
    moreover from Reclaim_ok [OF o r cl] True obtain t where
      "Reclaim reset_ok h bs (kUnusedCommandBufferLimit < n) ?s = Inr (True, t)" "cp_inv t" "context_alive t"
      by auto
    ultimately show ?thesis using True x
      by (intro runs_okI [where t = t]) (simp_all add: Background_dtor_def Let_def)
  next
    case False
    with destroyed inv_destroyed x show ?thesis
      by (intro runs_okI [where t = "without_pool h ?s"])
        (simp_all add: Background_dtor_def Reclaim_def Let_def)
  qed
qed

lemma destroy_recycled_ok:
  "owned (rs @ loose s) s \<Longrightarrow> refs_ok {} s \<Longrightarrow> clean_ok s \<Longrightarrow> \<not> context_alive s \<Longrightarrow>
   \<exists>t. destroy_recycled rs s = Inr t \<and> owned (loose t) t \<and> refs_ok {} t \<and> clean_ok t \<and>
       \<not> context_alive t"
proof (induction rs arbitrary: s)
  case (Cons x rs)
  obtain h bs where x: "x = (h, bs)" by (cases x)
  have o: "owned ((h, bs) # rs @ loose s) s" using Cons.prems(1) x by simp
  have "h \<in> set (live_pools s)" using owned_live [OF o, of h] by simp
  then have "destroy_members (Some h) bs s = Inr (without_pool h s)"
    by (intro destroy_members_eq [OF o] owned_entry [OF o]) simp_all
  moreover have "\<exists>t. destroy_recycled rs (without_pool h s) = Inr t \<and> owned (loose t) t \<and>
    refs_ok {} t \<and> clean_ok t \<and> \<not> context_alive t"
    using owned_without_pool [OF o] Cons.prems
    by (intro Cons.IH) (auto simp: refs_ok_def clean_ok_def)
  ultimately show ?case by (simp add: x)
qed simp

lemma Destroy_Recycler_ok:
  assumes inv: "cp_inv s" and gone: "\<not> context_alive s"
  shows "runs_ok s (cp_run Destroy_Recycler s)"
proof -
  have inv': "owned (loose s) s" "refs_ok {} s" "clean_ok s" using inv by (simp_all add: cp_inv_def)
  let ?s = "s\<lparr>recycled := []\<rparr>"
  have "mset (loose s) = mset (recycled s @ loose ?s)" by (simp add: loose_def)
  from owned_perm [OF this inv'(1)] have "owned (recycled s @ loose ?s) ?s" by (simp add: owned_fields)
  then obtain t where t: "destroy_recycled (recycled s) ?s = Inr t" "owned (loose t) t" "refs_ok {} t"
    "clean_ok t" "\<not> context_alive t"
    using destroy_recycled_ok [of "recycled s" ?s] inv' gone by (auto simp: refs_ok_def clean_ok_def)
  have "cp_inv (t\<lparr>recycler_alive := False\<rparr>)"
    using t by (auto simp: cp_inv_def owned_fields loose_def refs_ok_def referenced_def clean_ok_def)
  with t gone show ?thesis by (intro runs_okI [where t = "t\<lparr>recycler_alive := False\<rparr>"]) simp_all
qed

text \<open>Asking for the pool of a thread.\<close>

lemma Get_ok:
  assumes inv: "cp_inv s" and alive: "context_alive s"
  shows "cp_inv (snd (Get pool_ok t s)) \<and> context_alive (snd (Get pool_ok t s)) \<and>
    tracked (snd (Get pool_ok t s)) = tracked s \<and> dirty (snd (Get pool_ok t s)) = dirty s \<and>
    reset_failed (snd (Get pool_ok t s)) = reset_failed s \<and>
    (\<forall>p. fst (Get pool_ok t s) = Some p \<longrightarrow> referenced p (snd (Get pool_ok t s)))"
proof (cases "map_of (tls s) t")
  case (Some p)
  then have "referenced p s" by (force simp: referenced_def dest: map_of_SomeD)
  with inv alive Some show ?thesis by (simp add: Get_def)
next
  case None
  have inv': "owned (loose s) s" "refs_ok {} s" "clean_ok s" using inv by (simp_all add: cp_inv_def)
  have new: "tls' = (t, p) # tls s \<Longrightarrow> p = next_cpool s \<Longrightarrow> distinct (map fst tls')" for tls' p
    using inv'(2) None by (simp add: refs_ok_def map_of_eq_None_iff)
  have unknown: "cpools s (next_cpool s) = None" using owned_next [OF inv'(1)] by simp
  then have unref: "\<not> referenced (next_cpool s) s" using refs_okD [OF inv'(2)] by blast
  have made: "cp_inv u \<and> referenced (next_cpool s) u"
    if o: "owned ((h, bs) # loose s1) s1" and cl: "clean_ok s1" "set bs \<inter> set (dirty s1) = {} \<or> reset_failed s1"
      and same: "cpools s1 = cpools s" "next_cpool s1 = next_cpool s" "tls s1 = tls s"
        "tracked s1 = tracked s" "all_pools s1 = all_pools s" "context_alive s1 = context_alive s"
        "recycler_alive s1 = recycler_alive s"
      and u: "u = s1\<lparr>cpools := (cpools s1)(next_cpool s1 \<mapsto>
          \<lparr>vk_pool = Some h, unused_buffers = bs, collected_buffers = []\<rparr>),
        next_cpool := next_cpool s1 + 1, tls := (t, next_cpool s1) # tls s1,
        all_pools := AList.update t (next_cpool s1) (all_pools s1)\<rparr>" for h bs s1 u
  proof -
    have ref: "referenced q u \<longleftrightarrow> referenced q s \<or> q = next_cpool s" for q
      by (auto simp: referenced_def u same)
    have "held (next_cpool s1) s1 = []"
      using unreferenced_held [OF unref] by (simp add: held_def same)
    from owned_new_pool [OF o this u] have "owned (loose u) u" by (simp add: loose_def u)
    moreover have "refs_ok {} u"
      using inv'(2) ref new [OF refl refl] alive unfolding refs_ok_def
      by (simp add: u same distinct_update)
    moreover have "clean_ok u" using cl by (auto simp: clean_ok_def u)
    ultimately show ?thesis using ref by (simp add: cp_inv_def)
  qed
  show ?thesis
  proof (cases "recycled s = []")
    case False
    obtain h bs where x: "last (recycled s) = (h, bs)" by (cases "last (recycled s)") auto
    let ?s1 = "s\<lparr>recycled := butlast (recycled s)\<rparr>"
    have rec: "recycled s = butlast (recycled s) @ [(h, bs)]"
      using append_butlast_last_id [OF False] x by simp
    have "mset (loose s) = mset ((h, bs) # loose ?s1)"
      by (simp add: loose_def) (subst rec, simp)
    from owned_perm [OF this inv'(1)] have o: "owned ((h, bs) # loose ?s1) ?s1" by (simp add: owned_fields)
    have sub: "set (butlast (recycled s)) \<subseteq> set (recycled s)" by (auto dest: in_set_butlastD)
    have "(h, bs) \<in> set (recycled s)" using last_in_set [OF False] x by simp
    then have cl: "set bs \<inter> set (dirty ?s1) = {} \<or> reset_failed ?s1" "clean_ok ?s1"
      using inv'(3) sub by (auto simp: clean_ok_def)
    from made [OF o cl(2,1)] False None x alive show ?thesis
      by (simp add: Get_def Create_def Reuse_def)
  next
    case True
    let ?s1 = "snd (vk_create_pool s)"
    have s1: "?s1 = s\<lparr>live_pools := next_handle s # live_pools s, next_handle := next_handle s + 1\<rparr>"
      by (simp add: vk_create_pool_def)
    have "loose ?s1 = loose s" by (simp add: s1 loose_def)
    then have o: "owned ((next_handle s, []) # loose ?s1) ?s1" using owned_create_pool [OF inv'(1)] by simp
    have cl: "clean_ok ?s1" using inv'(3) by (auto simp: clean_ok_def s1)
    from made [OF o cl] True None alive inv show ?thesis
      by (simp add: Get_def Create_def Reuse_def vk_create_pool_def)
  qed
qed

text \<open>Handing a buffer out: it is in no other place.\<close>

lemma not_tracked:
  assumes o: "owned (loose s) s" and r: "refs_ok {} s" and alive: "context_alive s"
    and h: "handle_of p s = Some h" and b: "buf_pool s b = Some h \<or> buf_pool s b = None" "b \<notin> set (held p s)"
  shows "b \<notin> snd ` set (tracked s)"
proof
  assume "b \<in> snd ` set (tracked s)"
  then obtain q where q: "(q, b) \<in> set (tracked s)" by auto
  then have "referenced q s" by (force simp: referenced_def)
  then obtain e where e: "cpools s q = Some e" using refs_okD [OF r, of q] by auto
  obtain h' where h': "handle_of q s = Some h'"
    using r alive e unfolding refs_ok_def handle_of_def by force
  have "buf_pool s b = Some h'" by (rule tracked_pool [OF o r q h'])
  with b have "q = p" using owned_inj [OF o h', of p] h by simp
  with q b show False by (force simp: held_def)
qed

lemma not_unused:
  assumes o: "owned (loose s) s" and b: "buf_pool s b = None \<or> buf_pool s b = handle_of p s"
    and q: "cpools s q = Some e" "q \<noteq> p"
  shows "b \<notin> set (unused_buffers e)"
proof
  assume in_e: "b \<in> set (unused_buffers e)"
  show False
  proof (cases "vk_pool e")
    case None
    with in_e owned_empty [OF o q(1)] show False by simp
  next
    case (Some h)
    have "set (unused_buffers e @ collected_buffers e @ held q s) = {b. buf_pool s b = Some h}"
      using owned_pool [OF o q(1) Some] by (simp only: entry_ok_def)
    moreover have "b \<in> set (unused_buffers e @ collected_buffers e @ held q s)" using in_e by simp
    ultimately have "buf_pool s b = Some h" by simp
    then have "handle_of p s = Some h" using b by simp
    moreover have "handle_of q s = Some h" using Some q by (simp add: handle_of_def)
    ultimately show False using q(2) owned_inj [OF o, of q h p] by simp
  qed
qed

lemma not_recycled:
  assumes o: "owned (loose s) s" and b: "buf_pool s b = None \<or> buf_pool s b = handle_of p s"
    and x: "(h, bs) \<in> set (recycled s)"
  shows "b \<notin> set bs"
proof
  assume "b \<in> set bs"
  have x': "(h, bs) \<in> set (loose s)" using x by (simp add: loose_def)
  then have "buf_pool s b = Some h" using owned_entry [OF o x'] \<open>b \<in> set bs\<close> by (auto simp: entry_ok_def)
  with b x' show False using owned_loose [OF o, of p h bs] by auto
qed

definition handed_out :: "nat \<Rightarrow> nat \<Rightarrow> cp_system \<Rightarrow> cp_system \<Rightarrow> bool" where
  "handed_out p b s t \<longleftrightarrow> tracked t = tracked s @ [(p, b)] \<and> b \<notin> snd ` set (tracked s) \<and>
     (reset_failed s \<or> b \<notin> set (dirty s))"

lemma hand_out_unused:
  assumes inv: "cp_inv s" and alive: "context_alive s" and p: "referenced p s"
    and c: "cpools s p = Some c" and h: "vk_pool c = Some h" and some: "unused_buffers c \<noteq> []"
  shows "\<exists>b t. TrackedObjects alloc_ok p s = Inr (Some b, t) \<and> cp_inv t \<and> context_alive t \<and>
    handed_out p b s t"
proof -
  have inv': "owned (loose s) s" "refs_ok {} s" "clean_ok s" using inv by (simp_all add: cp_inv_def)
  have handle: "handle_of p s = Some h" using c h by (simp add: handle_of_def)
  have entry: "entry_ok h (unused_buffers c @ collected_buffers c @ held p s) s"
    by (rule owned_pool [OF inv'(1) c h])
  have rec: "recycler_alive s" using inv'(2) alive by (simp add: refs_ok_def)
  define b where "b = last (unused_buffers c)"
  define d where "d = c\<lparr>unused_buffers := butlast (unused_buffers c)\<rparr>"
  define t where "t = (put_pool p (Some d) s)\<lparr>tracked := tracked s @ [(p, b)], dirty := b # dirty s\<rparr>"
  have last: "unused_buffers c = butlast (unused_buffers c) @ [b]"
    using append_butlast_last_id [OF some] by (simp add: b_def)
  have in_c: "b \<in> set (unused_buffers c)" using some by (simp add: b_def)
  then have bh: "buf_pool s b = Some h" "b \<notin> set (held p s)" using entry by (auto simp: entry_ok_def)
  have run: "TrackedObjects alloc_ok p s = Inr (Some b, t)"
    using c h some rec alive
    by (simp add: TrackedObjects_def CreateCommandBuffer_def pool_at_def lock_context_def b_def t_def d_def)
  have "owned (loose s) t"
  proof (rule owned_update_pool [OF inv'(1) c h, of _ d])
    have "mset (unused_buffers c @ collected_buffers c @ held p s) =
      mset (unused_buffers d @ collected_buffers d @ held p t)"
      by (subst last) (simp add: held_def t_def d_def)
    from entry_ok_perm [OF this entry]
    show "entry_ok h (unused_buffers d @ collected_buffers d @ held p t) t"
      using entry_ok_same [of t s] by (simp add: t_def)
  qed (use h in \<open>auto simp: t_def d_def held_def dest: owned_buf [OF inv'(1)]\<close>)
  moreover have "refs_ok {} t"
    using inv'(2) p c h unfolding refs_ok_def by (auto simp: t_def d_def referenced_def)
  moreover have "clean_ok t"
  proof -
    have "b \<notin> set (butlast (unused_buffers c))"
      using entry last unfolding entry_ok_def by (metis distinct_append not_distinct_conv_prefix)
    then show ?thesis
      using inv'(3) c owned_buf [OF inv'(1) bh(1)] in_set_butlastD [of _ "unused_buffers c"]
        not_unused [OF inv'(1), of b p] not_recycled [OF inv'(1), of b p] bh(1) handle
      unfolding clean_ok_def by (auto simp: t_def d_def)
  qed
  moreover have "loose t = loose s" by (simp add: t_def loose_def)
  moreover have "handed_out p b s t"
    using not_tracked [OF inv'(1,2) alive handle, of b] bh inv'(3) c in_c
    by (auto simp: handed_out_def t_def clean_ok_def)
  ultimately show ?thesis using run alive by (auto simp: cp_inv_def t_def)
qed

lemma hand_out_new:
  assumes inv: "cp_inv s" and alive: "context_alive s" and p: "referenced p s"
    and c: "cpools s p = Some c" and h: "vk_pool c = Some h" and empty: "unused_buffers c = []"
  shows "\<exists>b t. TrackedObjects True p s = Inr (Some b, t) \<and> cp_inv t \<and> context_alive t \<and>
    handed_out p b s t"
proof -
  have inv': "owned (loose s) s" "refs_ok {} s" "clean_ok s" using inv by (simp_all add: cp_inv_def)
  have handle: "handle_of p s = Some h" using c h by (simp add: handle_of_def)
  have entry: "entry_ok h (unused_buffers c @ collected_buffers c @ held p s) s"
    by (rule owned_pool [OF inv'(1) c h])
  have rec: "recycler_alive s" using inv'(2) alive by (simp add: refs_ok_def)
  define b where "b = next_handle s"
  define t where "t = s\<lparr>buf_pool := (buf_pool s)(b \<mapsto> h), next_handle := b + 1,
    tracked := tracked s @ [(p, b)], dirty := b # dirty s\<rparr>"
  have fresh: "buf_pool s b = None" using owned_buf [OF inv'(1), of b] by (cases "buf_pool s b") (auto simp: b_def)
  have live: "h \<in> set (live_pools s)" using owned_live [OF inv'(1), of h] handle by auto
  have run: "TrackedObjects True p s = Inr (Some b, t)"
    using c h rec alive empty live
    by (simp add: TrackedObjects_def CreateCommandBuffer_def pool_at_def lock_context_def
        vk_alloc_buffer_def b_def t_def)
  have not_old: "b \<notin> set (collected_buffers c @ held p s)" using entry fresh by (auto simp: entry_ok_def)
  have "owned (loose s) t"
  proof (rule owned_update_pool [OF inv'(1) c h, of _ c])
    have "{x. buf_pool t x = Some h} = insert b {x. buf_pool s x = Some h}" by (auto simp: t_def)
    moreover have "set (collected_buffers c @ held p s) = {x. buf_pool s x = Some h}"
      "distinct (collected_buffers c @ held p s)" using entry empty by (simp_all add: entry_ok_def)
    moreover have "held p t = held p s @ [b]" by (simp add: held_def t_def)
    ultimately show "entry_ok h (unused_buffers c @ collected_buffers c @ held p t) t"
      unfolding entry_ok_def using not_old empty by auto
  qed (use h c fresh in \<open>auto simp: t_def held_def b_def dest: owned_buf [OF inv'(1)] split: if_splits\<close>)
  moreover have "refs_ok {} t"
    using inv'(2) p unfolding refs_ok_def by (auto simp: t_def referenced_def)
  moreover have "clean_ok t"
  proof -
    have "b \<notin> set (unused_buffers e)" if "cpools s q = Some e" for q e
      using not_unused [OF inv'(1) _ that, of b p] fresh that c empty by (cases "q = p") auto
    then show ?thesis
      using inv'(3) not_recycled [OF inv'(1), of b p] fresh
      unfolding clean_ok_def by (auto simp: t_def b_def less_Suc_eq)
  qed
  moreover have "loose t = loose s" by (simp add: t_def loose_def)
  moreover have "handed_out p b s t"
    using not_tracked [OF inv'(1,2) alive handle, of b] fresh not_old inv'(3)
    by (auto simp: handed_out_def t_def clean_ok_def b_def)
  ultimately show ?thesis using run alive by (auto simp: cp_inv_def t_def)
qed

lemma TrackedObjects_ok:
  assumes inv: "cp_inv s" and alive: "context_alive s" and p: "referenced p s"
  shows "\<exists>r t. TrackedObjects alloc_ok p s = Inr (r, t) \<and> cp_inv t \<and> context_alive t \<and>
    (case r of None \<Rightarrow> t = s | Some b \<Rightarrow> handed_out p b s t)"
proof -
  have inv': "refs_ok {} s" using inv by (simp add: cp_inv_def)
  obtain c where c: "cpools s p = Some c" using refs_okD [OF inv', of p] p by auto
  obtain h where h: "vk_pool c = Some h" using inv' alive c unfolding refs_ok_def by blast
  show ?thesis
  proof (cases "unused_buffers c = [] \<and> \<not> alloc_ok")
    case True
    with c h inv inv' alive show ?thesis
      by (simp add: TrackedObjects_def CreateCommandBuffer_def pool_at_def lock_context_def refs_ok_def)
  next
    case False
    with hand_out_unused [OF inv alive p c h, of alloc_ok] hand_out_new [OF inv alive p c h]
    show ?thesis by (cases alloc_ok; cases "unused_buffers c = []") force+
  qed
qed

lemma Use_ok:
  assumes inv: "cp_inv s" and alive: "context_alive s"
  shows "\<exists>r t'. Use_thread t pool_ok alloc_ok s = Inr (r, t') \<and> cp_inv t' \<and> context_alive t' \<and>
    (\<forall>b. r = Some b \<longrightarrow> (\<exists>p. handed_out p b s t'))"
proof -
  obtain r s' where g: "Get pool_ok t s = (r, s')" by force
  note get = Get_ok [OF inv alive, of pool_ok t, unfolded g, simplified]
  show ?thesis
  proof (cases r)
    case None
    with g get show ?thesis by (simp add: Use_thread_def)
  next
    case (Some p)
    then obtain q t' where "TrackedObjects alloc_ok p s' = Inr (q, t')" "cp_inv t'" "context_alive t'"
      "case q of None \<Rightarrow> t' = s' | Some b \<Rightarrow> handed_out p b s' t'"
      using TrackedObjects_ok [of s' p alloc_ok] get by blast
    moreover have "handed_out p b s' t' \<longleftrightarrow> handed_out p b s t'" for b
      using get by (simp add: handed_out_def)
    ultimately show ?thesis using g Some by (auto simp: Use_thread_def split: option.splits)
  qed
qed

lemma Finish_ok:
  assumes inv: "cp_inv s" and i: "i < length (tracked s)"
  shows "runs_ok s (TrackedObjects_dtor i s)"
proof -
  obtain p b where x: "tracked s ! i = (p, b)" by force
  define T where "T = take i (tracked s) @ drop (Suc i) (tracked s)"
  have inv': "owned (loose s) s" "refs_ok {} s" "clean_ok s" using inv by (simp_all add: cp_inv_def)
  have bag: "mset T + {#(p, b)#} = mset (tracked s)" using mset_take_drop [OF i] x by (simp add: T_def)
  have mem: "set (tracked s) = insert (p, b) (set T)"
    using arg_cong [OF bag, of set_mset] by simp
  then have "referenced p s" by (simp add: referenced_def)
  then obtain c where c: "cpools s p = Some c" using refs_okD [OF inv'(2), of p] by auto
  define t where "t = (if vk_pool c = None then s
    else put_pool p (Some (c\<lparr>collected_buffers := collected_buffers c @ [b]\<rparr>)) s)\<lparr>tracked := T\<rparr>"
  have run: "TrackedObjects_dtor i s = drop_pool p t"
    using c x by (simp add: TrackedObjects_dtor_def CollectCommandBuffer_def pool_at_def t_def T_def)
  have held_other: "held q (s\<lparr>tracked := T\<rparr>) = held q s" if "q \<noteq> p" for q
  proof -
    have split: "tracked s = take i (tracked s) @ (p, b) # drop (Suc i) (tracked s)"
      using id_take_nth_drop [OF i] x by simp
    have "filter (\<lambda>x. fst x = q) (tracked s) = filter (\<lambda>x. fst x = q) T"
      using that by (subst split) (simp add: T_def)
    then show ?thesis by (simp add: held_def)
  qed
  have fields: "tls t = tls s" "tracked t = T" "next_cpool t = next_cpool s" "loose t = loose s"
    "all_pools t = all_pools s" "context_alive t = context_alive s" "recycler_alive t = recycler_alive s"
    "dirty t = dirty s" "reset_failed t = reset_failed s" "next_handle t = next_handle s"
    "recycled t = recycled s"
    by (simp_all add: t_def)
  have bufs: "buf_pool t = buf_pool s" by (simp add: t_def)
  have handle: "handle_of q t = handle_of q s" for q using c by (simp add: t_def handle_of_def put_pool_def)
  have "owned (loose t) t"
  proof (cases "vk_pool c")
    case None
    then have "handle_of p s = None" using c by (simp add: handle_of_def)
    from owned_untrack [OF inv'(1) this held_other] None show ?thesis by (simp add: t_def)
  next
    case (Some h)
    let ?d = "c\<lparr>collected_buffers := collected_buffers c @ [b]\<rparr>"
    have "mset (held p s) = add_mset b (mset (held p t))"
      using arg_cong [OF bag, of "\<lambda>M. image_mset snd (filter_mset (\<lambda>x. fst x = p) M)"]
      by (simp add: held_def fields)
    then have "mset (unused_buffers c @ collected_buffers c @ held p s) =
      mset (unused_buffers ?d @ collected_buffers ?d @ held p t)" by simp
    from entry_ok_perm [OF this owned_pool [OF inv'(1) c Some]]
    have entry: "entry_ok h (unused_buffers ?d @ collected_buffers ?d @ held p t) t"
      using entry_ok_same [of t s] bufs by blast
    show ?thesis unfolding fields(4)
    proof (rule owned_update_pool [OF inv'(1) c Some, of t ?d])
      show "held q t = held q s" if "q \<noteq> p" for q
        using held_other [OF that] held_same [of t "s\<lparr>tracked := T\<rparr>"] fields by simp
      show "b' < next_handle t" if "buf_pool t b' = Some h" for b'
        using owned_buf [OF inv'(1), of b' h] that bufs fields by simp
    qed (use Some entry bufs fields in \<open>simp_all add: t_def\<close>)
  qed
  moreover have "refs_ok {p} t"
    using inv'(2) c mem unfolding refs_ok_def fields by (auto simp: t_def referenced_def)
  moreover have "clean_ok t"
    using inv'(3) c unfolding clean_ok_def fields by (auto simp: t_def)
  ultimately have "runs_ok t (drop_pool p t)" by (rule drop_ok)
  then show ?thesis unfolding run
    by (rule runs_ok_same) (simp_all add: fields recycler_safe_def handle)
qed

lemma cp_run_ok:
  assumes inv: "cp_inv s" and ok: "cp_event_ok e s"
  shows "(\<forall>t. cp_run e s = Inr t \<longrightarrow> cp_inv t) \<and> (recycler_safe s \<longrightarrow> (\<exists>t. cp_run e s = Inr t))"
proof (cases e)
  case (Use t pool_ok alloc_ok)
  with Use_ok [OF inv, of t pool_ok alloc_ok] ok show ?thesis by auto
next
  case (Destroy_Context t)
  let ?s = "s\<lparr>context_alive := False\<rparr>"
  have "cp_inv ?s" using inv by (auto simp: cp_inv_def owned_fields refs_ok_def clean_ok_def)
  from DestroyThreadLocalPools_ok [OF this, of t] Destroy_Context show ?thesis
    by (simp add: runs_ok_def recycler_safe_def handle_of_def)
next
  case (Finish i)
  with Finish_ok [OF inv, of i] ok show ?thesis by (simp add: runs_ok_def)
next
  case (Dispose_Thread t)
  with Dispose_ok [OF inv, of t] show ?thesis by (simp add: runs_ok_def)
next
  case (Exit_Thread t)
  with tls_erase_ok [OF inv, of t] show ?thesis by (simp add: runs_ok_def)
next
  case (Background_Done i r)
  with Background_ok [OF inv, of i r] ok show ?thesis by (simp add: runs_ok_def)
next
  case Destroy_Recycler
  with Destroy_Recycler_ok [OF inv] ok show ?thesis by (simp add: runs_ok_def)
qed

interpretation cp: transition_system "\<lambda>s. s = cp_start" cp_step cp_inv
proof
  show "s = cp_start \<Longrightarrow> cp_inv s" for s
    by (simp add: cp_start_def cp_inv_def owned_def loose_def handle_of_def refs_ok_def referenced_def clean_ok_def)
  show "cp_inv t" if "cp_inv s" "cp_step s e t" for s e t
    using that(2) by (cases rule: cp_step.cases) (use cp_run_ok [OF that(1)] in blast)
qed

subsection \<open>Properties\<close>

text \<open>
  C26: In every reachable state each operation succeeds as long as no command pool object can
  outlive the recycler it refers to: no buffer is freed twice or after its pool, and no pool is
  reset while one of its buffers is in use. A command buffer that is handed out is in use nowhere
  else, and it has been reset since it was last recorded unless a reset of the device failed.
\<close>

theorem command_buffers_exclusive:
  assumes "reachable_from (\<lambda>s. s = cp_start) cp_step s"
  shows "(\<forall>e. cp_event_ok e s \<and> recycler_safe s \<longrightarrow> (\<exists>t. cp_run e s = Inr t)) \<and>
    (\<forall>t pool_ok alloc_ok b u. context_alive s \<and> Use_thread t pool_ok alloc_ok s = Inr (Some b, u) \<longrightarrow>
       b \<notin> snd ` set (tracked s) \<and> (reset_failed s \<or> b \<notin> set (dirty s)))"
proof -
  have inv: "cp_inv s" by (rule cp.reachable_inv [OF assms])
  have "b \<notin> snd ` set (tracked s) \<and> (reset_failed s \<or> b \<notin> set (dirty s))"
    if "context_alive s" "Use_thread t pool_ok alloc_ok s = Inr (Some b, u)" for t pool_ok alloc_ok b u
    using Use_ok [OF inv that(1), of t pool_ok alloc_ok] that(2) by (auto simp: handed_out_def)
  with cp_run_ok [OF inv] show ?thesis by blast
qed

text \<open>Runs of several events.\<close>

fun cp_runs :: "cp_event list \<Rightarrow> cp_system \<Rightarrow> cp_system result" where
  "cp_runs [] s = Inr s"
| "cp_runs (e # es) s =
     rbind (guard Undefined_Behaviour (cp_event_ok e s)) (\<lambda>_. rbind (cp_run e s) (cp_runs es))"

lemma cp_runs_reachable:
  "reachable_from (\<lambda>s. s = cp_start) cp_step s \<Longrightarrow> cp_runs es s = Inr t \<Longrightarrow>
   reachable_from (\<lambda>s. s = cp_start) cp_step t"
proof (induction es arbitrary: s)
  case (Cons e es)
  then obtain u where "cp_event_ok e s" "cp_run e s = Inr u" "cp_runs es u = Inr t"
    by (auto simp: result_simps)
  then show ?case using Cons by (blast intro: reach_step cp_step.intros)
qed simp

text \<open>The pool of a thread comes back with the buffer it had.\<close>

definition demo_events :: "cp_event list" where
  "demo_events = [Use 0 True True, Finish 0, Dispose_Thread 0, Background_Done 0 True]"

lemma demo_alive: "case cp_runs demo_events cp_start of Inr s \<Rightarrow> context_alive s | Inl _ \<Rightarrow> False"
  by code_simp

lemma demo_reset: "case cp_runs demo_events cp_start of Inr s \<Rightarrow> \<not> reset_failed s | Inl _ \<Rightarrow> False"
  by code_simp

lemma demo_use:
  "case cp_runs demo_events cp_start of
     Inr s \<Rightarrow> (case Use_thread 0 True True s of Inr (r, _) \<Rightarrow> r = Some 1 | Inl _ \<Rightarrow> False)
   | Inl _ \<Rightarrow> False"
  by code_simp

theorem command_buffers_exclusive_witness:
  "\<exists>s u. cp_runs demo_events cp_start = Inr s \<and> Use_thread 0 True True s = Inr (Some 1, u) \<and>
     1 \<notin> snd ` set (tracked s) \<and> 1 \<notin> set (dirty s)"
proof -
  obtain s where s: "cp_runs demo_events cp_start = Inr s"
    using demo_alive by (auto split: sum.splits)
  have alive: "context_alive s" "\<not> reset_failed s" using demo_alive demo_reset by (simp_all add: s)
  obtain u where u: "Use_thread 0 True True s = Inr (Some 1, u)"
    using demo_use unfolding s by (auto split: sum.splits)
  have "reachable_from (\<lambda>s. s = cp_start) cp_step s"
    by (rule cp_runs_reachable [OF reach_start s]) simp
  from command_buffers_exclusive [OF this, THEN conjunct2, rule_format, of 0 True True 1 u] alive u
  have "1 \<notin> snd ` set (tracked s) \<and> 1 \<notin> set (dirty s)" by simp
  with s u show ?thesis by blast
qed

text \<open>A pool whose reset failed is recycled all the same: a recorded buffer is handed out.\<close>

lemma failed_reset_recycled:
  "case cp_runs [Use 0 True True, Finish 0, Dispose_Thread 0, Background_Done 0 False] cp_start of
     Inr s \<Rightarrow> (case Use_thread 0 True True s of Inr (r, _) \<Rightarrow> r = Some 1 \<and> dirty s = [1] | Inl _ \<Rightarrow> False)
   | Inl _ \<Rightarrow> False"
  by code_simp

text \<open>
  A thread that disposes of its resources while a command buffer is in use, and the destruction of
  the context after it: the command pool object reaches for the context through the recycler that
  is gone.
\<close>

lemma disposed_pool_outlives_recycler:
  "case cp_runs [Use 0 True True, Dispose_Thread 0, Destroy_Context 0, Destroy_Recycler, Finish 0] cp_start of
     Inl e \<Rightarrow> e = Undefined_Behaviour | Inr _ \<Rightarrow> False"
  by code_simp

text \<open>Trimming a pool frees all of its buffers, not only some of the unused ones.\<close>

lemma trim_frees_all:
  "Reclaim reset_ok h bs True s = Inr (True, t) \<Longrightarrow> last (recycled t) = (h, [])"
  by (auto simp: Reclaim_def result_simps split: if_splits)

end
