(* ===== verification/Image_Layouts.thy ===== *)
theory Image_Layouts
  imports Render_Target Formats_Vk
begin

text \<open>
  Images and the commands that move them between layouts: \<^verbatim>\<open>src/hal/texture_source_vk.cc\<close>,
  \<^verbatim>\<open>src/hal/texture_vk.cc\<close>, \<^verbatim>\<open>src/hal/barrier_vk.h\<close> and the object lists of
  \<^verbatim>\<open>src/hal/tracked_objects_vk.cc\<close>. A command buffer is the list of the commands that were
  recorded into it. The last part says what the commands do to the layouts of the images and when
  they may be executed, after the rules of Vulkan, so that the layout the code remembers can be
  compared with the layout an image has.
\<close>

subsection \<open>Barriers\<close>

datatype VkImageLayout =
    eUndefined | eGeneral | eDepthStencilAttachmentOptimal | eShaderReadOnlyOptimal
    | eTransferSrcOptimal | eTransferDstOptimal

datatype VkPipelineStage =
    eTopOfPipe | eVertexInput | eVertexShader | eFragmentShader | eColorAttachmentOutput
    | eTransfer | eComputeShader | eBottomOfPipe | eHost

datatype VkAccess =
    eIndexRead | eVertexAttributeRead | eInputAttachmentRead | eShaderRead | eShaderWrite
    | eColorAttachmentWrite | eTransferRead | eTransferWrite | eHostRead

record barrier =
  new_layout :: VkImageLayout
  src_stage :: "VkPipelineStage set"
  src_access :: "VkAccess set"
  dst_stage :: "VkPipelineStage set"
  dst_access :: "VkAccess set"
  base_mip_level :: u32

text \<open>What a barrier on an image tells the device.\<close>

record image_barrier =
  ib_image :: nat
  ib_src_access :: "VkAccess set"
  ib_dst_access :: "VkAccess set"
  ib_old_layout :: VkImageLayout
  ib_new_layout :: VkImageLayout
  ib_aspect :: "VkImageAspectFlagBits set"
  ib_base_mip :: u32
  ib_level_count :: u32
  ib_layer_count :: nat

record image_region =
  ir_mip :: u32
  ir_slice :: u32
  ir_x :: int
  ir_y :: int

datatype transfer_cmd =
    Image_Barrier "VkPipelineStage set" "VkPipelineStage set" image_barrier
  | Memory_Barrier "VkPipelineStage set" "VkPipelineStage set" "VkAccess set" "VkAccess set"
  | Copy_Image nat VkImageLayout image_region nat VkImageLayout image_region "u32 \<times> u32"
  | Copy_Image_To_Buffer nat VkImageLayout image_region "u32 \<times> u32" nat u64
  | Copy_Buffer_To_Image nat u64 nat VkImageLayout image_region "u32 \<times> u32"
  | Blit_Image nat VkImageLayout u32 "int \<times> int" nat VkImageLayout u32 "int \<times> int"

subsection \<open>Texture sources and command buffers\<close>

text \<open>
  Whether the command buffer is valid, the layout each texture source remembers, the textures whose mipmaps were generated, the
  commands recorded so far, and the objects the command buffer keeps alive. Handles of images and
  of texture sources are the number of the texture.
\<close>

record recording =
  rec_valid :: bool
  layout_of :: "nat \<Rightarrow> VkImageLayout"
  mipmap_generated :: "nat \<Rightarrow> bool"
  cmds :: "transfer_cmd list"
  tracked_buffers :: "nat list"
  tracked_textures :: "nat list"

text \<open>An object is not added again right after itself.\<close>

definition track :: "nat option \<Rightarrow> nat list \<Rightarrow> nat list" where
  "track ob xs =
     (case ob of
        None \<Rightarrow> xs
      | Some x \<Rightarrow> if xs \<noteq> [] \<and> x = last xs then xs else xs @ [x])"

definition TrackBuffer :: "nat option \<Rightarrow> recording \<Rightarrow> recording" where
  "TrackBuffer b s = s\<lparr>tracked_buffers := track b (tracked_buffers s)\<rparr>"

definition TrackTexture :: "nat option \<Rightarrow> recording \<Rightarrow> recording" where
  "TrackTexture t s = s\<lparr>tracked_textures := track t (tracked_textures s)\<rparr>"

definition emit_cmd :: "transfer_cmd \<Rightarrow> recording \<Rightarrow> recording" where
  "emit_cmd c s = s\<lparr>cmds := cmds s @ [c]\<rparr>"

definition GetTextureSource :: "texture_vk \<Rightarrow> nat option" where
  "GetTextureSource t = (if has_source t then Some (tex_id t) else None)"

text \<open>An invalid command buffer tracks nothing.\<close>

definition CommandBuffer_TrackBuffer :: "nat option \<Rightarrow> recording \<Rightarrow> bool \<times> recording" where
  "CommandBuffer_TrackBuffer b s = (if \<not> rec_valid s then (False, s) else (True, TrackBuffer b s))"

definition CommandBuffer_TrackSource :: "nat option \<Rightarrow> recording \<Rightarrow> bool \<times> recording" where
  "CommandBuffer_TrackSource t s = (if \<not> rec_valid s then (False, s) else (True, TrackTexture t s))"

definition CommandBuffer_Track :: "texture_vk option \<Rightarrow> recording \<Rightarrow> bool \<times> recording" where
  "CommandBuffer_Track t s =
     (if \<not> rec_valid s then (False, s)
      else case t of None \<Rightarrow> (True, s) | Some x \<Rightarrow> CommandBuffer_TrackSource (GetTextureSource x) s)"

text \<open>The rest of a function that returns false when an object could not be tracked.\<close>

definition and_then ::
  "bool \<times> recording \<Rightarrow> (recording \<Rightarrow> (bool \<times> recording) result) \<Rightarrow> (bool \<times> recording) result"
where
  "and_then r k = (if fst r then k (snd r) else Inr (False, snd r))"

definition GetLayout :: "texture_vk \<Rightarrow> recording \<Rightarrow> VkImageLayout" where
  "GetLayout t s = (if has_source t then layout_of s (tex_id t) else eUndefined)"

definition SetLayoutWithoutEncoding ::
  "VkImageLayout \<Rightarrow> texture_vk \<Rightarrow> recording \<Rightarrow> VkImageLayout \<times> recording"
where
  "SetLayoutWithoutEncoding l t s =
     (if has_source t
      then (layout_of s (tex_id t), s\<lparr>layout_of := (layout_of s)(tex_id t := l)\<rparr>)
      else (eUndefined, s))"

definition SetMipMapGenerated :: "texture_vk \<Rightarrow> recording \<Rightarrow> recording" where
  "SetMipMapGenerated t s = s\<lparr>mipmap_generated := (mipmap_generated s)(tex_id t := True)\<rparr>"

definition NeedsMipmapGeneration :: "texture_vk \<Rightarrow> recording \<Rightarrow> bool" where
  "NeedsMipmapGeneration t s \<longleftrightarrow> \<not> mipmap_generated s (tex_id t) \<and> mip_count (tex_desc t) > 1"

definition SourceSetLayout :: "barrier \<Rightarrow> texture_vk \<Rightarrow> recording \<Rightarrow> recording result" where
  "SourceSetLayout b t s =
     (let old_layout = layout_of s (tex_id t);
          s1 = s\<lparr>layout_of := (layout_of s)(tex_id t := new_layout b)\<rparr>
      in rbind (ToArrayLayerCount (texture_type (tex_desc t))) (\<lambda>layers.
           Inr (emit_cmd (Image_Barrier (src_stage b) (dst_stage b)
             \<lparr>ib_image = tex_id t, ib_src_access = src_access b, ib_dst_access = dst_access b,
              ib_old_layout = old_layout, ib_new_layout = new_layout b,
              ib_aspect = ToImageAspectFlags (format (tex_desc t)),
              ib_base_mip = base_mip_level b,
              ib_level_count = of_nat (mip_count (tex_desc t)) - base_mip_level b,
              ib_layer_count = layers\<rparr>) s1)))"

definition SetLayout :: "barrier \<Rightarrow> texture_vk \<Rightarrow> recording \<Rightarrow> (bool \<times> recording) result" where
  "SetLayout b t s =
     (if has_source t then rbind (SourceSetLayout b t s) (\<lambda>s'. Inr (True, s')) else Inr (False, s))"

fun IsSliceValid :: "TextureType \<Rightarrow> nat \<Rightarrow> bool" where
  "IsSliceValid TextureType.kTexture2D face = (face = 0)"
| "IsSliceValid TextureType.kTexture2DMultisample face = (face = 0)"
| "IsSliceValid TextureType.kTextureExternalOES face = (face = 0)"
| "IsSliceValid TextureType.kTextureCube face = (face \<le> 5)"

text \<open>
  Setting the contents from memory. The arguments are the answers of the parts it calls: whether
  the context lives, the staging buffer (with the copied bytes) and the command buffer that were
  made for it, and whether the submission succeeds.
\<close>

definition upload_dst_barrier :: barrier where
  "upload_dst_barrier = \<lparr>new_layout = eTransferDstOptimal, src_stage = {eTopOfPipe}, src_access = {},
     dst_stage = {eTransfer}, dst_access = {eTransferWrite}, base_mip_level = 0\<rparr>"

definition upload_read_barrier :: barrier where
  "upload_read_barrier = \<lparr>new_layout = eShaderReadOnlyOptimal,
     src_stage = {eColorAttachmentOutput, eTransfer}, src_access = {eColorAttachmentWrite, eTransferWrite},
     dst_stage = {eFragmentShader}, dst_access = {eShaderRead}, base_mip_level = 0\<rparr>"

definition OnSetContents ::
  "bool \<Rightarrow> nat option \<Rightarrow> recording option \<Rightarrow> (recording \<Rightarrow> bool) \<Rightarrow> u64 \<Rightarrow> bool \<Rightarrow> u32 \<Rightarrow>
   texture_vk \<Rightarrow> (bool \<times> recording option) result"
where
  "OnSetContents context_alive staging cmd_buffer submit len has_contents face t =
     (if \<not> has_source t \<or> \<not> has_contents then Inr (False, None)
      else rbind (GetByteSizeOfBaseMipLevel (tex_desc t)) (\<lambda>bytes.
        if len \<noteq> bytes then Inr (False, None)
        else if \<not> context_alive then Inr (False, None)
        else case staging of
          None \<Rightarrow> Inr (False, None)
        | Some buffer \<Rightarrow> (case cmd_buffer of
            None \<Rightarrow> Inr (False, None)
          | Some s \<Rightarrow>
              rbind (and_then (CommandBuffer_TrackBuffer (Some buffer) s) (\<lambda>s0.
                and_then (CommandBuffer_TrackSource (GetTextureSource t) s0) (\<lambda>s1.
                rbind (SetLayout upload_dst_barrier t s1) (\<lambda>(ok, s2).
                  if \<not> ok then Inr (False, s2)
                  else
                    let s3 = emit_cmd (Copy_Buffer_To_Image buffer 0 (tex_id t) (new_layout upload_dst_barrier)
                      \<lparr>ir_mip = 0, ir_slice = face, ir_x = 0, ir_y = 0\<rparr>
                      (word_of_int (width (tex_size (tex_desc t))),
                       word_of_int (height (tex_size (tex_desc t))))) s2
                    in rbind (SetLayout upload_read_barrier t s3) (\<lambda>(ok, s4).
                       if \<not> ok then Inr (False, s4) else Inr (submit s4, s4))))))
              (\<lambda>(ok, r). Inr (ok, Some r)))))"

record texture_flags =
  from_host :: bool
  is_opaque :: bool

definition SetContents ::
  "bool \<Rightarrow> nat option \<Rightarrow> recording option \<Rightarrow> (recording \<Rightarrow> bool) \<Rightarrow> u64 \<Rightarrow> bool \<Rightarrow> nat \<Rightarrow> bool \<Rightarrow>
   texture_vk \<Rightarrow> texture_flags \<Rightarrow> (bool \<times> texture_flags \<times> recording option) result"
where
  "SetContents context_alive staging cmd_buffer submit len has_contents face opaque t fl =
     (if \<not> IsSliceValid (texture_type (tex_desc t)) face then Inr (False, fl, None)
      else rbind (OnSetContents context_alive staging cmd_buffer submit len has_contents (of_nat face) t)
        (\<lambda>(ok, r). if \<not> ok then Inr (False, fl, r)
           else Inr (True, fl\<lparr>from_host := True, is_opaque := opaque\<rparr>, r)))"

subsection \<open>What the commands do to the layouts\<close>

text \<open>The layout of each mip level and layer of each image.\<close>

type_synonym layouts = "nat \<Rightarrow> nat \<Rightarrow> nat \<Rightarrow> VkImageLayout"

definition covered :: "image_barrier \<Rightarrow> nat \<Rightarrow> nat \<Rightarrow> nat \<Rightarrow> bool" where
  "covered b i mip layer \<longleftrightarrow> i = ib_image b \<and> unat (ib_base_mip b) \<le> mip \<and>
     mip < unat (ib_base_mip b) + unat (ib_level_count b) \<and> layer < ib_layer_count b"

text \<open>
  A transition names the layout the image has, or none to drop the contents; a copy names the
  layout its image has at the level and layer it uses.
\<close>

fun cmd_ok :: "transfer_cmd \<Rightarrow> layouts \<Rightarrow> bool" where
  "cmd_ok (Image_Barrier _ _ b) g \<longleftrightarrow> ib_old_layout b = eUndefined \<or>
     (\<forall>i mip layer. covered b i mip layer \<longrightarrow> g i mip layer = ib_old_layout b)"
| "cmd_ok (Memory_Barrier _ _ _ _) g \<longleftrightarrow> True"
| "cmd_ok (Copy_Image src sl sr dst dl dr _) g \<longleftrightarrow>
     g src (unat (ir_mip sr)) (unat (ir_slice sr)) = sl \<and> sl = eTransferSrcOptimal \<and>
     g dst (unat (ir_mip dr)) (unat (ir_slice dr)) = dl \<and> dl = eTransferDstOptimal"
| "cmd_ok (Copy_Image_To_Buffer src sl sr _ _ _) g \<longleftrightarrow>
     g src (unat (ir_mip sr)) (unat (ir_slice sr)) = sl \<and> sl = eTransferSrcOptimal"
| "cmd_ok (Copy_Buffer_To_Image _ _ dst dl dr _) g \<longleftrightarrow>
     g dst (unat (ir_mip dr)) (unat (ir_slice dr)) = dl \<and> dl = eTransferDstOptimal"
| "cmd_ok (Blit_Image src sl sm _ dst dl dm _) g \<longleftrightarrow>
     g src (unat sm) 0 = sl \<and> sl = eTransferSrcOptimal \<and> g dst (unat dm) 0 = dl \<and> dl = eTransferDstOptimal"

fun cmd_effect :: "transfer_cmd \<Rightarrow> layouts \<Rightarrow> layouts" where
  "cmd_effect (Image_Barrier _ _ b) g =
     (\<lambda>i mip layer. if covered b i mip layer then ib_new_layout b else g i mip layer)"
| "cmd_effect (Memory_Barrier _ _ _ _) g = g"
| "cmd_effect (Copy_Image _ _ _ _ _ _ _) g = g"
| "cmd_effect (Copy_Image_To_Buffer _ _ _ _ _ _) g = g"
| "cmd_effect (Copy_Buffer_To_Image _ _ _ _ _ _) g = g"
| "cmd_effect (Blit_Image _ _ _ _ _ _ _ _) g = g"

fun execute :: "transfer_cmd list \<Rightarrow> layouts \<Rightarrow> layouts option" where
  "execute [] g = Some g"
| "execute (c # cs) g = (if cmd_ok c g then execute cs (cmd_effect c g) else None)"

declare execute.simps(2) [simp del]

lemma execute_step: "cmd_ok c g \<Longrightarrow> cmd_effect c g = g' \<Longrightarrow> execute (c # cs) g = execute cs g'"
  by (simp add: execute.simps)

lemma execute_append:
  "execute (cs @ ds) g = Option.bind (execute cs g) (execute ds)"
  by (induction cs arbitrary: g) (auto simp: execute.simps)

text \<open>The remembered layout is the one every level and layer of the image has.\<close>

definition layers :: "texture_vk \<Rightarrow> nat" where
  "layers t = (case ToArrayLayerCount (texture_type (tex_desc t)) of Inr n \<Rightarrow> n | Inl _ \<Rightarrow> 0)"

definition agrees :: "texture_vk \<Rightarrow> recording \<Rightarrow> layouts \<Rightarrow> bool" where
  "agrees t s g \<longleftrightarrow>
     (\<forall>mip < mip_count (tex_desc t). \<forall>layer < layers t. g (tex_id t) mip layer = layout_of s (tex_id t))"

text \<open>Textures the commands of this part can work on.\<close>

definition image_ok :: "texture_vk \<Rightarrow> bool" where
  "image_ok t \<longleftrightarrow> has_source t \<and> texture_type (tex_desc t) \<noteq> TextureType.kTextureExternalOES \<and>
     0 < mip_count (tex_desc t) \<and> mip_count (tex_desc t) < 2 ^ 32"

text \<open>The barrier that \<open>SetLayout\<close> records, and what the source remembers after it.\<close>

definition layout_barrier :: "barrier \<Rightarrow> texture_vk \<Rightarrow> recording \<Rightarrow> transfer_cmd" where
  "layout_barrier b t s = Image_Barrier (src_stage b) (dst_stage b)
     \<lparr>ib_image = tex_id t, ib_src_access = src_access b, ib_dst_access = dst_access b,
      ib_old_layout = layout_of s (tex_id t), ib_new_layout = new_layout b,
      ib_aspect = ToImageAspectFlags (format (tex_desc t)), ib_base_mip = base_mip_level b,
      ib_level_count = of_nat (mip_count (tex_desc t)) - base_mip_level b, ib_layer_count = layers t\<rparr>"

definition put_layout :: "texture_vk \<Rightarrow> VkImageLayout \<Rightarrow> recording \<Rightarrow> recording" where
  "put_layout t l s = s\<lparr>layout_of := (layout_of s)(tex_id t := l)\<rparr>"

lemma put_layout_fields [simp]:
  "layout_of (put_layout t l s) = (layout_of s)(tex_id t := l)" "cmds (put_layout t l s) = cmds s"
  "tracked_textures (put_layout t l s) = tracked_textures s"
  "tracked_buffers (put_layout t l s) = tracked_buffers s" "rec_valid (put_layout t l s) = rec_valid s"
  by (simp_all add: put_layout_def)

lemma emit_cmd_fields [simp]:
  "layout_of (emit_cmd c s) = layout_of s" "cmds (emit_cmd c s) = cmds s @ [c]"
  "tracked_textures (emit_cmd c s) = tracked_textures s"
  "tracked_buffers (emit_cmd c s) = tracked_buffers s" "rec_valid (emit_cmd c s) = rec_valid s"
  by (simp_all add: emit_cmd_def)

lemma track_fields [simp]:
  "layout_of (TrackTexture a s) = layout_of s" "cmds (TrackTexture a s) = cmds s"
  "layout_of (TrackBuffer b s) = layout_of s" "cmds (TrackBuffer b s) = cmds s"
  "tracked_textures (TrackBuffer b s) = tracked_textures s"
  "tracked_textures (TrackTexture a s) = track a (tracked_textures s)"
  "rec_valid (TrackTexture a s) = rec_valid s" "rec_valid (TrackBuffer b s) = rec_valid s"
  by (simp_all add: TrackTexture_def TrackBuffer_def)

lemma set_track [simp]: "set (track ob xs) = set_option ob \<union> set xs"
  by (auto simp: track_def split: option.splits)

definition emit_layout :: "barrier \<Rightarrow> texture_vk \<Rightarrow> recording \<Rightarrow> recording" where
  "emit_layout b t s = emit_cmd (layout_barrier b t s) (put_layout t (new_layout b) s)"

lemma emit_layout_fields [simp]:
  "layout_of (emit_layout b t s) = (layout_of s)(tex_id t := new_layout b)"
  "cmds (emit_layout b t s) = cmds s @ [layout_barrier b t s]"
  "tracked_textures (emit_layout b t s) = tracked_textures s"
  "tracked_buffers (emit_layout b t s) = tracked_buffers s" "rec_valid (emit_layout b t s) = rec_valid s"
  by (simp_all add: emit_layout_def)

lemma SetLayout_eq:
  assumes "image_ok t"
  shows "SetLayout b t s = Inr (True, emit_layout b t s)"
  using assms unfolding image_ok_def SetLayout_def SourceSetLayout_def layout_barrier_def put_layout_def emit_layout_def
  by (cases "texture_type (tex_desc t)") (simp_all add: layers_def Let_def)

lemma and_then_if [simp]: "and_then (if c then x else y) k = (if c then and_then x k else and_then y k)"
  by simp

lemma and_then_track [simp]:
  "rec_valid s \<Longrightarrow> and_then (CommandBuffer_TrackBuffer b s) k = k (TrackBuffer b s)"
  "\<not> rec_valid s \<Longrightarrow> and_then (CommandBuffer_TrackBuffer b s) k = Inr (False, s)"
  "rec_valid s \<Longrightarrow> and_then (CommandBuffer_TrackSource i s) k = k (TrackTexture i s)"
  "\<not> rec_valid s \<Longrightarrow> and_then (CommandBuffer_TrackSource i s) k = Inr (False, s)"
  "and_then (True, s) k = k s"
  by (simp_all add: and_then_def CommandBuffer_TrackBuffer_def CommandBuffer_TrackSource_def)

lemma and_then_track_texture [simp]:
  "rec_valid s \<Longrightarrow> has_source t \<Longrightarrow> and_then (CommandBuffer_Track (Some t) s) k = k (TrackTexture (Some (tex_id t)) s)"
  "\<not> rec_valid s \<Longrightarrow> and_then (CommandBuffer_Track t' s) k = Inr (False, s)"
  by (simp_all add: and_then_def CommandBuffer_Track_def CommandBuffer_TrackSource_def GetTextureSource_def)

lemma layers_pos: "image_ok t \<Longrightarrow> 0 < layers t"
  by (cases "texture_type (tex_desc t)") (simp_all add: image_ok_def layers_def)

text \<open>A transition of a whole image.\<close>

definition whole :: "texture_vk \<Rightarrow> image_barrier \<Rightarrow> bool" where
  "whole t b \<longleftrightarrow> ib_image b = tex_id t \<and> ib_base_mip b = 0 \<and>
     ib_level_count b = of_nat (mip_count (tex_desc t)) \<and> ib_layer_count b = layers t"

lemma mip_count_bounds:
  assumes "image_ok t"
  shows "0 < mip_count (tex_desc t)" and "mip_count (tex_desc t) < 2 ^ 32"
    and "unat (of_nat (mip_count (tex_desc t)) :: u32) = mip_count (tex_desc t)"
proof -
  show n: "mip_count (tex_desc t) < 2 ^ 32" and "0 < mip_count (tex_desc t)"
    using assms unfolding image_ok_def by blast+
  show "unat (of_nat (mip_count (tex_desc t)) :: u32) = mip_count (tex_desc t)"
    using n by (intro of_nat_inverse [OF refl]) simp
qed

lemma covered_whole:
  assumes "image_ok t" and "whole t b"
  shows "covered b i m l \<longleftrightarrow> i = tex_id t \<and> m < mip_count (tex_desc t) \<and> l < layers t"
  using assms(2) mip_count_bounds(3) [OF assms(1)] by (auto simp: covered_def whole_def)

end
