(* ===== verification/Blit_Pass.thy ===== *)
theory Blit_Pass
  imports Image_Layouts
begin

text \<open>
  Copies between textures and buffers: \<^verbatim>\<open>src/hal/blit_pass_vk.{h,cc}\<close>. Every function takes the
  recording of its command buffer and returns whether it succeeded and the recording after it.
\<close>

subsection \<open>Conversions\<close>





subsection \<open>Barriers of the pass\<close>

definition copy_src_barrier :: barrier where
  "copy_src_barrier = \<lparr>new_layout = eTransferSrcOptimal,
     src_stage = {eTransfer, eFragmentShader, eColorAttachmentOutput},
     src_access = {eTransferWrite, eShaderWrite, eColorAttachmentWrite},
     dst_stage = {eTransfer}, dst_access = {eTransferRead}, base_mip_level = 0\<rparr>"

definition copy_dst_barrier :: barrier where
  "copy_dst_barrier = \<lparr>new_layout = eTransferDstOptimal, src_stage = {eTopOfPipe}, src_access = {},
     dst_stage = {eFragmentShader, eTransfer}, dst_access = {eShaderRead, eTransferWrite},
     base_mip_level = 0\<rparr>"

definition back_to_read_barrier :: barrier where
  "back_to_read_barrier = \<lparr>new_layout = eShaderReadOnlyOptimal, src_stage = {eTopOfPipe}, src_access = {},
     dst_stage = {eFragmentShader}, dst_access = {eShaderRead}, base_mip_level = 0\<rparr>"

definition after_copy_barrier :: barrier where
  "after_copy_barrier = \<lparr>new_layout = eShaderReadOnlyOptimal, src_stage = {eTransfer},
     src_access = {eTransferWrite}, dst_stage = {eFragmentShader}, dst_access = {eShaderRead},
     base_mip_level = 0\<rparr>"

definition readback_barrier :: barrier where
  "readback_barrier = \<lparr>new_layout = eTransferSrcOptimal,
     src_stage = {eFragmentShader, eTransfer, eColorAttachmentOutput},
     src_access = {eShaderWrite, eTransferWrite, eColorAttachmentWrite},
     dst_stage = {eVertexShader, eFragmentShader}, dst_access = {eShaderRead}, base_mip_level = 0\<rparr>"


subsection \<open>Copies between textures\<close>




subsection \<open>Copies to and from buffers\<close>







subsection \<open>Mipmaps\<close>








subsection \<open>Layouts\<close>

definition set_all :: "texture_vk \<Rightarrow> VkImageLayout \<Rightarrow> layouts \<Rightarrow> layouts" where
  "set_all t l g = (\<lambda>i m k. if i = tex_id t \<and> m < mip_count (tex_desc t) \<and> k < layers t then l else g i m k)"

text \<open>\<open>agrees\<close> for a layout.\<close>

definition all_in :: "texture_vk \<Rightarrow> VkImageLayout \<Rightarrow> layouts \<Rightarrow> bool" where
  "all_in t l g \<longleftrightarrow> (\<forall>m < mip_count (tex_desc t). \<forall>k < layers t. g (tex_id t) m k = l)"


lemma all_in_set_all [simp]: "all_in t l (set_all t l' g) \<longleftrightarrow> l = l' \<or> mip_count (tex_desc t) = 0 \<or> layers t = 0"
  by (auto simp: all_in_def set_all_def)

lemma all_in_other [simp]: "tex_id u \<noteq> tex_id t \<Longrightarrow> all_in u l (set_all t l' g) = all_in u l g"
  by (simp add: all_in_def set_all_def)

lemma all_in_base: "all_in t l g \<Longrightarrow> image_ok t \<Longrightarrow> g (tex_id t) 0 0 = l"
  using layers_pos [of t] by (simp add: all_in_def image_ok_def)

lemma whole_barrier:
  assumes "image_ok t" and "whole t b" and "all_in t (ib_old_layout b) g"
  shows "cmd_ok (Image_Barrier x y b) g" and "cmd_effect (Image_Barrier x y b) g = set_all t (ib_new_layout b) g"
  using assms covered_whole [OF assms(1,2)]
  by (auto simp: all_in_def set_all_def fun_eq_iff)

lemma execute_whole:
  assumes "image_ok t" and "whole t b" and "all_in t (ib_old_layout b) g"
  shows "execute (Image_Barrier x y b # cs) g = execute cs (set_all t (ib_new_layout b) g)"
  unfolding execute.simps whole_barrier(2) [OF assms] by (simp only: whole_barrier(1) [OF assms] if_True)

lemma execute_layout_barrier [simp]:
  assumes "image_ok t" and "base_mip_level b = 0" and "all_in t (layout_of s (tex_id t)) g"
  shows "execute (layout_barrier b t s # cs) g = execute cs (set_all t (new_layout b) g)"
  unfolding layout_barrier_def
  by (subst execute_whole [OF assms(1)]) (use assms(2,3) in \<open>simp_all add: whole_def\<close>)

text \<open>The images that a command works on.\<close>

fun images_of :: "transfer_cmd \<Rightarrow> nat set" where
  "images_of (Image_Barrier _ _ b) = {ib_image b}"
| "images_of (Memory_Barrier _ _ _ _) = {}"
| "images_of (Copy_Image src _ _ dst _ _ _) = {src, dst}"
| "images_of (Copy_Image_To_Buffer src _ _ _ _ _) = {src}"
| "images_of (Copy_Buffer_To_Image _ _ dst _ _ _) = {dst}"
| "images_of (Blit_Image src _ _ _ dst _ _ _) = {src, dst}"

lemma images_layout_barrier [simp]: "images_of (layout_barrier b t s) = {tex_id t}"
  by (simp add: layout_barrier_def)







lemma image_ok_source [simp]: "image_ok t \<Longrightarrow> has_source t"
  by (simp add: image_ok_def)






lemma image_ok_levels [simp]: "image_ok t \<Longrightarrow> 0 < mip_count (tex_desc t)" "image_ok t \<Longrightarrow> 0 < layers t"
  by (simp_all add: layers_pos) (simp add: image_ok_def)


lemma barrier_simps [simp]:
  "new_layout copy_src_barrier = eTransferSrcOptimal" "base_mip_level copy_src_barrier = 0"
  "new_layout copy_dst_barrier = eTransferDstOptimal" "base_mip_level copy_dst_barrier = 0"
  "new_layout back_to_read_barrier = eShaderReadOnlyOptimal" "base_mip_level back_to_read_barrier = 0"
  "new_layout after_copy_barrier = eShaderReadOnlyOptimal" "base_mip_level after_copy_barrier = 0"
  "new_layout readback_barrier = eTransferSrcOptimal" "base_mip_level readback_barrier = 0"
  by (simp_all add: copy_src_barrier_def copy_dst_barrier_def back_to_read_barrier_def
      after_copy_barrier_def readback_barrier_def)










text \<open>The levels below \<open>k\<close> may be read, the others may be written.\<close>

definition mips_done :: "texture_vk \<Rightarrow> nat \<Rightarrow> layouts \<Rightarrow> layouts" where
  "mips_done t k g = (\<lambda>i m l.
     if i = tex_id t \<and> m < mip_count (tex_desc t) \<and> l < 1
     then (if m < k then eTransferSrcOptimal else eTransferDstOptimal) else g i m l)"

lemma mips_done_at [simp]:
  "m < mip_count (tex_desc t) \<Longrightarrow>
   mips_done t k g (tex_id t) m 0 = (if m < k then eTransferSrcOptimal else eTransferDstOptimal)"
  by (simp add: mips_done_def)










subsection \<open>Any sequence of calls\<close>


lemma upload_barrier_simps [simp]:
  "new_layout upload_dst_barrier = eTransferDstOptimal" "base_mip_level upload_dst_barrier = 0"
  "new_layout upload_read_barrier = eShaderReadOnlyOptimal" "base_mip_level upload_read_barrier = 0"
  by (simp_all add: upload_dst_barrier_def upload_read_barrier_def)











end
