(* ===== verification/Resource_Binder.thy ===== *)
theory Resource_Binder
  imports Image_Layouts
begin

text \<open>
  The descriptor workspace of \<^verbatim>\<open>src/hal/render_pass_vk.{h,cc}\<close> and
  \<^verbatim>\<open>src/hal/compute_pass_vk.{h,cc}\<close>: three arrays with running indices. The arrays are the
  lists of what was stored since the last command; a write of the third array points at an element
  of the first or the second by its index. Storing past the end of an array is undefined. A device
  buffer is its handle, and zero is the null handle; a view of a texture is the number of the
  texture.
\<close>

definition VK_NULL_HANDLE :: nat where "VK_NULL_HANDLE = 0"

definition kMaxBindings :: nat where "kMaxBindings = 32"

record image_info =
  ii_layout :: VkImageLayout
  ii_sampler :: "nat option"
  ii_view :: nat

record buffer_info =
  bi_buffer :: nat
  bi_offset :: u32
  bi_range :: u64

datatype info_pointer = Image_Pointer nat | Buffer_Pointer nat

record descriptor_write =
  dw_binding :: nat
  dw_type :: nat
  dw_info :: info_pointer

record workspace =
  image_workspace :: "image_info list"
  buffer_workspace :: "buffer_info list"
  write_workspace :: "descriptor_write list"

definition empty_workspace :: workspace where
  "empty_workspace = \<lparr>image_workspace = [], buffer_workspace = [], write_workspace = []\<rparr>"

definition push_unchecked :: "nat \<Rightarrow> 'a \<Rightarrow> 'a list \<Rightarrow> 'a list result" where
  "push_unchecked capacity x xs = (if length xs < capacity then Inr (xs @ [x]) else Inl Undefined_Behaviour)"

definition eCombinedImageSampler :: nat where "eCombinedImageSampler = 1"
definition eInputAttachment :: nat where "eInputAttachment = 10"

text \<open>Storing an image or a buffer and the write that points at it.\<close>

definition write_image :: "nat \<Rightarrow> nat \<Rightarrow> image_info \<Rightarrow> workspace \<Rightarrow> workspace result" where
  "write_image binding type info ws =
     rbind (push_unchecked kMaxBindings info (image_workspace ws)) (\<lambda>images.
     rbind (push_unchecked (kMaxBindings + kMaxBindings)
              \<lparr>dw_binding = binding, dw_type = type, dw_info = Image_Pointer (length images - 1)\<rparr>
              (write_workspace ws)) (\<lambda>writes.
     Inr (ws\<lparr>image_workspace := images, write_workspace := writes\<rparr>)))"

definition write_buffer :: "nat \<Rightarrow> nat \<Rightarrow> buffer_info \<Rightarrow> workspace \<Rightarrow> workspace result" where
  "write_buffer binding type info ws =
     rbind (push_unchecked kMaxBindings info (buffer_workspace ws)) (\<lambda>buffers.
     rbind (push_unchecked (kMaxBindings + kMaxBindings)
              \<lparr>dw_binding = binding, dw_type = type, dw_info = Buffer_Pointer (length buffers - 1)\<rparr>
              (write_workspace ws)) (\<lambda>writes.
     Inr (ws\<lparr>buffer_workspace := buffers, write_workspace := writes\<rparr>)))"

text \<open>What the device reads through the pointers of the writes.\<close>

datatype resource = Image_Resource image_info | Buffer_Resource buffer_info

definition read_pointer :: "workspace \<Rightarrow> info_pointer \<Rightarrow> resource" where
  "read_pointer ws p =
     (case p of Image_Pointer i \<Rightarrow> Image_Resource (image_workspace ws ! i)
      | Buffer_Pointer i \<Rightarrow> Buffer_Resource (buffer_workspace ws ! i))"

definition read_writes :: "workspace \<Rightarrow> (nat \<times> nat \<times> resource) list" where
  "read_writes ws = map (\<lambda>w. (dw_binding w, dw_type w, read_pointer ws (dw_info w))) (write_workspace ws)"

text \<open>The pointers of a workspace stay inside what was stored.\<close>

fun pointer_ok :: "workspace \<Rightarrow> info_pointer \<Rightarrow> bool" where
  "pointer_ok ws (Image_Pointer i) \<longleftrightarrow> i < length (image_workspace ws)"
| "pointer_ok ws (Buffer_Pointer i) \<longleftrightarrow> i < length (buffer_workspace ws)"

definition workspace_ok :: "workspace \<Rightarrow> bool" where
  "workspace_ok ws \<longleftrightarrow> (\<forall>w \<in> set (write_workspace ws). pointer_ok ws (dw_info w)) \<and>
     length (image_workspace ws) \<le> kMaxBindings \<and> length (buffer_workspace ws) \<le> kMaxBindings \<and>
     length (write_workspace ws) = length (image_workspace ws) + length (buffer_workspace ws)"

lemma workspace_ok_empty [simp]: "workspace_ok empty_workspace" "read_writes empty_workspace = []"
  by (simp_all add: workspace_ok_def empty_workspace_def read_writes_def)

lemma read_pointer_grows:
  assumes "pointer_ok ws p" and "image_workspace ws' = image_workspace ws @ imgs"
    and "buffer_workspace ws' = buffer_workspace ws @ bs"
  shows "read_pointer ws' p = read_pointer ws p \<and> pointer_ok ws' p"
  using assms by (cases p) (auto simp: read_pointer_def nth_append)

lemma workspace_grows:
  assumes ok: "workspace_ok ws" and "image_workspace ws' = image_workspace ws @ imgs"
    and "buffer_workspace ws' = buffer_workspace ws @ bs" and w: "write_workspace ws' = write_workspace ws @ [w]"
    and new: "pointer_ok ws' (dw_info w)" "length imgs + length bs = 1"
      "length (image_workspace ws') \<le> kMaxBindings" "length (buffer_workspace ws') \<le> kMaxBindings"
  shows "workspace_ok ws' \<and>
    read_writes ws' = read_writes ws @ [(dw_binding w, dw_type w, read_pointer ws' (dw_info w))]"
proof -
  have old: "read_pointer ws' (dw_info v) = read_pointer ws (dw_info v) \<and> pointer_ok ws' (dw_info v)"
    if "v \<in> set (write_workspace ws)" for v
    using that ok assms(2,3) by (intro read_pointer_grows) (auto simp: workspace_ok_def)
  then have "read_writes ws' = read_writes ws @ [(dw_binding w, dw_type w, read_pointer ws' (dw_info w))]"
    by (simp add: read_writes_def w)
  moreover have "workspace_ok ws'"
    using old ok new assms(2,3) w by (auto simp: workspace_ok_def)
  ultimately show ?thesis by simp
qed

lemma push_unchecked_iff [result_simps]:
  "push_unchecked n x xs = Inr ys \<longleftrightarrow> length xs < n \<and> ys = xs @ [x]"
  by (auto simp: push_unchecked_def)

lemma write_image_ok:
  assumes ok: "workspace_ok ws" and run: "write_image b ty info ws = Inr ws'"
  shows "workspace_ok ws' \<and> read_writes ws' = read_writes ws @ [(b, ty, Image_Resource info)]"
proof -
  let ?w = "\<lparr>dw_binding = b, dw_type = ty, dw_info = Image_Pointer (length (image_workspace ws))\<rparr>"
  have ws': "ws' = ws\<lparr>image_workspace := image_workspace ws @ [info], write_workspace := write_workspace ws @ [?w]\<rparr>"
    and len: "length (image_workspace ws) < kMaxBindings"
    using run by (auto simp: write_image_def result_simps)
  have "workspace_ok ws' \<and> read_writes ws' = read_writes ws @
      [(dw_binding ?w, dw_type ?w, read_pointer ws' (dw_info ?w))]"
    by (rule workspace_grows [OF ok, where imgs = "[info]" and bs = "[]"])
      (use ws' len ok in \<open>simp_all add: workspace_ok_def\<close>)
  then show ?thesis by (simp add: ws' read_pointer_def)
qed

lemma write_buffer_ok:
  assumes ok: "workspace_ok ws" and run: "write_buffer b ty info ws = Inr ws'"
  shows "workspace_ok ws' \<and> read_writes ws' = read_writes ws @ [(b, ty, Buffer_Resource info)]"
proof -
  let ?w = "\<lparr>dw_binding = b, dw_type = ty, dw_info = Buffer_Pointer (length (buffer_workspace ws))\<rparr>"
  have ws': "ws' = ws\<lparr>buffer_workspace := buffer_workspace ws @ [info], write_workspace := write_workspace ws @ [?w]\<rparr>"
    and len: "length (buffer_workspace ws) < kMaxBindings"
    using run by (auto simp: write_buffer_def result_simps)
  have "workspace_ok ws' \<and> read_writes ws' = read_writes ws @
      [(dw_binding ?w, dw_type ?w, read_pointer ws' (dw_info ?w))]"
    by (rule workspace_grows [OF ok, where imgs = "[]" and bs = "[info]"])
      (use ws' len ok in \<open>simp_all add: workspace_ok_def\<close>)
  then show ?thesis by (simp add: ws' read_pointer_def)
qed

text \<open>The writes fit whenever the images or the buffers do.\<close>

lemma write_fits:
  assumes "workspace_ok ws"
  shows "length (image_workspace ws) < kMaxBindings \<Longrightarrow> \<exists>ws'. write_image b ty i ws = Inr ws'"
    and "length (buffer_workspace ws) < kMaxBindings \<Longrightarrow> \<exists>ws'. write_buffer b ty j ws = Inr ws'"
  using assms by (auto simp: write_image_def write_buffer_def push_unchecked_def workspace_ok_def)

end
