(* ===== verification/Render_Pass_Builder.thy ===== *)
theory Render_Pass_Builder
  imports Render_Target_Props Image_Layouts
begin

text \<open>
  Vulkan render passes and framebuffers of a render target:
  \<^verbatim>\<open>src/hal/render_pass_builder_vk.{h,cc}\<close> and the functions of
  \<^verbatim>\<open>src/hal/render_pass_vk.cc\<close> that create them. An array with a running index is the
  list of what was stored so far; \<open>push_at\<close> fails when the array is full, with the exception of
  \<open>at\<close> or with undefined behaviour for the unchecked index. The device is a function from the
  description of a handle to the handle, if it can be created.
\<close>

subsection \<open>The builder\<close>

record attachment_description =
  ad_format :: VkFormat
  ad_samples :: VkSampleCountFlagBits
  ad_load_op :: VkAttachmentLoadOp
  ad_store_op :: VkAttachmentStoreOp
  ad_stencil_load_op :: VkAttachmentLoadOp
  ad_stencil_store_op :: VkAttachmentStoreOp
  ad_initial_layout :: VkImageLayout
  ad_final_layout :: VkImageLayout

record render_pass_builder =
  rb_color0 :: "attachment_description option"
  rb_color0_resolve :: "attachment_description option"
  rb_depth_stencil :: "attachment_description option"
  rb_colors :: "(nat \<times> attachment_description) list"
  rb_resolves :: "(nat \<times> attachment_description) list"

definition RenderPassBuilder :: render_pass_builder where
  "RenderPassBuilder = \<lparr>rb_color0 = None, rb_color0_resolve = None, rb_depth_stencil = None,
     rb_colors = [], rb_resolves = []\<rparr>"

definition kMaxColorAttachments :: nat where "kMaxColorAttachments = 16"
definition kMaxAttachments :: nat where "kMaxAttachments = kMaxColorAttachments * 2 + 1"

definition ComputeFinalLayout :: "bool \<Rightarrow> SampleCount \<Rightarrow> VkImageLayout" where
  "ComputeFinalLayout is_swapchain samples =
     (if is_swapchain \<or> samples \<noteq> kCount1 then eGeneral else eShaderReadOnlyOptimal)"

definition color_description ::
  "PixelFormat \<Rightarrow> SampleCount \<Rightarrow> LoadAction \<Rightarrow> StoreAction \<Rightarrow> VkImageLayout \<Rightarrow> bool \<Rightarrow>
   attachment_description"
where
  "color_description fmt samples load store current_layout is_swapchain =
     \<lparr>ad_format = ToVKImageFormat fmt, ad_samples = ToVKSampleCount samples,
      ad_load_op = ToVKAttachmentLoadOp load, ad_store_op = ToVKAttachmentStoreOp store False,
      ad_stencil_load_op = VkAttachmentLoadOp.eDontCare,
      ad_stencil_store_op = VkAttachmentStoreOp.eDontCare,
      ad_initial_layout = (if load = LoadAction.kLoad then current_layout else eUndefined),
      ad_final_layout = ComputeFinalLayout is_swapchain samples\<rparr>"

definition resolve_description ::
  "StoreAction \<Rightarrow> bool \<Rightarrow> attachment_description \<Rightarrow> attachment_description"
where
  "resolve_description store is_swapchain d =
     d\<lparr>ad_samples := VkSampleCountFlagBits.e1, ad_store_op := ToVKAttachmentStoreOp store True,
       ad_final_layout := ComputeFinalLayout is_swapchain kCount1\<rparr>"

definition rb_SetColorAttachment ::
  "nat \<Rightarrow> PixelFormat \<Rightarrow> SampleCount \<Rightarrow> LoadAction \<Rightarrow> StoreAction \<Rightarrow> VkImageLayout \<Rightarrow> bool \<Rightarrow>
   render_pass_builder \<Rightarrow> render_pass_builder"
where
  "rb_SetColorAttachment index fmt samples load store current_layout is_swapchain b =
     (let desc = color_description fmt samples load store current_layout is_swapchain;
          resolve = resolve_description store is_swapchain desc
      in if index = 0 then
           b\<lparr>rb_color0 := Some desc,
             rb_color0_resolve := (if StoreActionPerformsResolve store then Some resolve else None)\<rparr>
         else
           b\<lparr>rb_colors := smap_put index desc (rb_colors b),
             rb_resolves := (if StoreActionPerformsResolve store
                             then smap_put index resolve (rb_resolves b)
                             else smap_del index (rb_resolves b))\<rparr>)"

definition rb_SetDepthStencilAttachment ::
  "PixelFormat \<Rightarrow> SampleCount \<Rightarrow> LoadAction \<Rightarrow> StoreAction \<Rightarrow> render_pass_builder \<Rightarrow> render_pass_builder"
where
  "rb_SetDepthStencilAttachment fmt samples load store b =
     b\<lparr>rb_depth_stencil := Some
         \<lparr>ad_format = ToVKImageFormat fmt, ad_samples = ToVKSampleCount samples,
          ad_load_op = ToVKAttachmentLoadOp load, ad_store_op = ToVKAttachmentStoreOp store False,
          ad_stencil_load_op = ToVKAttachmentLoadOp load,
          ad_stencil_store_op = ToVKAttachmentStoreOp store False,
          ad_initial_layout = eUndefined, ad_final_layout = eDepthStencilAttachmentOptimal\<rparr>\<rparr>"

definition rb_SetStencilAttachment ::
  "PixelFormat \<Rightarrow> SampleCount \<Rightarrow> LoadAction \<Rightarrow> StoreAction \<Rightarrow> render_pass_builder \<Rightarrow> render_pass_builder"
where
  "rb_SetStencilAttachment fmt samples load store b =
     b\<lparr>rb_depth_stencil := Some
         \<lparr>ad_format = ToVKImageFormat fmt, ad_samples = ToVKSampleCount samples,
          ad_load_op = VkAttachmentLoadOp.eDontCare, ad_store_op = VkAttachmentStoreOp.eDontCare,
          ad_stencil_load_op = ToVKAttachmentLoadOp load,
          ad_stencil_store_op = ToVKAttachmentStoreOp store False,
          ad_initial_layout = eUndefined, ad_final_layout = eDepthStencilAttachmentOptimal\<rparr>\<rparr>"

subsection \<open>Building the pass\<close>

record attachment_reference =
  ar_attachment :: u32
  ar_layout :: VkImageLayout

definition kUnusedAttachmentReference :: attachment_reference where
  "kUnusedAttachmentReference = \<lparr>ar_attachment = - 1, ar_layout = eUndefined\<rparr>"

text \<open>A dependency between subpasses; no subpass is the outside of the pass.\<close>

record subpass_dependency =
  sd_src_subpass :: "nat option"
  sd_dst_subpass :: "nat option"
  sd_src_stage :: "VkPipelineStage set"
  sd_src_access :: "VkAccess set"
  sd_dst_stage :: "VkPipelineStage set"
  sd_dst_access :: "VkAccess set"

record render_pass_info =
  rp_attachments :: "attachment_description list"
  rp_color_refs :: "attachment_reference list"
  rp_resolve_refs :: "attachment_reference list"
  rp_depth_stencil_ref :: attachment_reference
  rp_dependencies :: "subpass_dependency list"

definition kSelfDependency :: subpass_dependency where
  "kSelfDependency = \<lparr>sd_src_subpass = Some 0, sd_dst_subpass = Some 0,
     sd_src_stage = {eColorAttachmentOutput}, sd_src_access = {eColorAttachmentWrite},
     sd_dst_stage = {eFragmentShader}, sd_dst_access = {eInputAttachmentRead}\<rparr>"

definition pass_dependencies :: "subpass_dependency list" where
  "pass_dependencies =
     [\<lparr>sd_src_subpass = None, sd_dst_subpass = Some 0,
       sd_src_stage = {eColorAttachmentOutput, eFragmentShader},
       sd_src_access = {eShaderRead, eColorAttachmentWrite},
       sd_dst_stage = {eColorAttachmentOutput}, sd_dst_access = {eColorAttachmentWrite}\<rparr>,
      kSelfDependency,
      \<lparr>sd_src_subpass = Some 0, sd_dst_subpass = None,
       sd_src_stage = {eColorAttachmentOutput}, sd_src_access = {eColorAttachmentWrite},
       sd_dst_stage = {eFragmentShader}, sd_dst_access = {eShaderRead}\<rparr>]"

definition push_at :: "fault \<Rightarrow> nat \<Rightarrow> 'a \<Rightarrow> 'a list \<Rightarrow> 'a list result" where
  "push_at e capacity x xs = (if length xs < capacity then Inr (xs @ [x]) else Inl e)"

text \<open>One color attachment, with its resolve attachment if it has one.\<close>

definition push_color ::
  "attachment_description \<Rightarrow> attachment_description option \<Rightarrow>
   attachment_description list \<times> attachment_reference list \<times> attachment_reference list \<Rightarrow>
   (attachment_description list \<times> attachment_reference list \<times> attachment_reference list) result"
where
  "push_color color resolve x =
     (case x of (attachments, color_refs, resolve_refs) \<Rightarrow>
       rbind (push_at Out_Of_Range kMaxColorAttachments
                \<lparr>ar_attachment = of_nat (length attachments), ar_layout = eGeneral\<rparr> color_refs) (\<lambda>color_refs'.
       rbind (push_at Out_Of_Range kMaxAttachments color attachments) (\<lambda>attachments'.
       case resolve of
         Some r \<Rightarrow>
           rbind (push_at Out_Of_Range kMaxColorAttachments
                \<lparr>ar_attachment = of_nat (length attachments'), ar_layout = eGeneral\<rparr> resolve_refs) (\<lambda>resolve_refs'.
           rbind (push_at Out_Of_Range kMaxAttachments r attachments') (\<lambda>attachments''.
           Inr (attachments'', color_refs', resolve_refs')))
       | None \<Rightarrow>
           rbind (push_at Out_Of_Range kMaxColorAttachments kUnusedAttachmentReference resolve_refs) (\<lambda>resolve_refs'.
           Inr (attachments', color_refs', resolve_refs')))))"

fun push_colors ::
  "(nat \<times> attachment_description) list \<Rightarrow> (nat \<times> attachment_description) list \<Rightarrow>
   attachment_description list \<times> attachment_reference list \<times> attachment_reference list \<Rightarrow>
   (attachment_description list \<times> attachment_reference list \<times> attachment_reference list) result"
where
  "push_colors resolves [] x = Inr x"
| "push_colors resolves ((i, d) # cs) x =
     rbind (push_color d (map_of resolves i) x) (push_colors resolves cs)"

definition Build_info :: "render_pass_builder \<Rightarrow> render_pass_info result" where
  "Build_info b =
     rbind (case rb_color0 b of None \<Rightarrow> Inr ([], [], []) | Some d \<Rightarrow> push_color d (rb_color0_resolve b) ([], [], []))
       (\<lambda>x. rbind (push_colors (rb_resolves b) (rb_colors b) x) (\<lambda>(attachments, color_refs, resolve_refs).
       rbind (case rb_depth_stencil b of
                None \<Rightarrow> Inr (attachments, kUnusedAttachmentReference)
              | Some d \<Rightarrow>
                  rbind (push_at Out_Of_Range kMaxAttachments d attachments) (\<lambda>attachments'.
                  Inr (attachments', \<lparr>ar_attachment = of_nat (length attachments),
                                      ar_layout = eDepthStencilAttachmentOptimal\<rparr>)))
         (\<lambda>(attachments', depth_stencil_ref).
       Inr \<lparr>rp_attachments = attachments', rp_color_refs = color_refs, rp_resolve_refs = resolve_refs,
            rp_depth_stencil_ref = depth_stencil_ref, rp_dependencies = pass_dependencies\<rparr>)))"

definition Build :: "(render_pass_info \<Rightarrow> 'p option) \<Rightarrow> render_pass_builder \<Rightarrow> 'p option result" where
  "Build create_pass b = rbind (Build_info b) (\<lambda>info. Inr (create_pass info))"

text \<open>The barrier inside a pass before the color attachment is read as an input attachment.\<close>

definition input_attachment_barrier :: barrier where
  "input_attachment_barrier = \<lparr>new_layout = eGeneral, src_stage = {eColorAttachmentOutput},
     src_access = {eColorAttachmentWrite}, dst_stage = {eFragmentShader},
     dst_access = {eInputAttachmentRead}, base_mip_level = 0\<rparr>"

subsection \<open>The pass of a render target\<close>

definition add_color ::
  "(texture_vk \<Rightarrow> VkImageLayout) \<Rightarrow> bool \<Rightarrow> nat \<times> 'c attachment \<Rightarrow> render_pass_builder \<Rightarrow>
   (bool \<times> render_pass_builder) result"
where
  "add_color layout_now is_swapchain x b =
     (case x of (bind_point, a) \<Rightarrow>
       rbind (deref (texture a)) (\<lambda>t.
         Inr (True, rb_SetColorAttachment bind_point (format (tex_desc t)) (sample_count (tex_desc t))
           (load_action a) (store_action a) (layout_now t) is_swapchain b)))"

definition pass_builder ::
  "(texture_vk \<Rightarrow> VkImageLayout) \<Rightarrow> bool \<Rightarrow> ('c, 'd) render_target \<Rightarrow> render_pass_builder result"
where
  "pass_builder layout_now is_swapchain t =
     rbind (IterateAllColorAttachments (add_color layout_now is_swapchain) t RenderPassBuilder) (\<lambda>(_, b).
       case depth t of
         Some a \<Rightarrow> rbind (deref (texture a)) (\<lambda>x.
           Inr (rb_SetDepthStencilAttachment (format (tex_desc x)) (sample_count (tex_desc x))
             (load_action a) (store_action a) b))
       | None \<Rightarrow> (case stencil t of
           Some a \<Rightarrow> rbind (deref (texture a)) (\<lambda>x.
             Inr (rb_SetStencilAttachment (format (tex_desc x)) (sample_count (tex_desc x))
               (load_action a) (store_action a) b))
         | None \<Rightarrow> Inr b))"

definition CreateVKRenderPass ::
  "(render_pass_info \<Rightarrow> 'p option) \<Rightarrow> (texture_vk \<Rightarrow> VkImageLayout) \<Rightarrow> 'p option \<Rightarrow> bool \<Rightarrow>
   ('c, 'd) render_target \<Rightarrow> 'p option result"
where
  "CreateVKRenderPass create_pass layout_now recycled is_swapchain t =
     (if recycled \<noteq> None then Inr recycled
      else rbind (pass_builder layout_now is_swapchain t) (Build create_pass))"

datatype ('c, 'd) clear_value = Clear_Color 'c | Clear_Depth_Stencil 'd u32

definition push_clear ::
  "nat \<times> 'c attachment \<Rightarrow> ('c, 'd) clear_value list \<Rightarrow> (bool \<times> ('c, 'd) clear_value list) result"
where
  "push_clear x values =
     (case x of (_, a) \<Rightarrow>
       rbind (push_at Out_Of_Range kMaxAttachments (Clear_Color (clear_value a)) values) (\<lambda>values'.
       if resolve_texture a \<noteq> None
       then rbind (push_at Out_Of_Range kMaxAttachments (Clear_Color (clear_value a)) values') (\<lambda>v. Inr (True, v))
       else Inr (True, values')))"

text \<open>The clear depth of a target with a stencil attachment only is zero.\<close>

definition GetVKClearValues ::
  "'d \<Rightarrow> ('c, 'd) render_target \<Rightarrow> ('c, 'd) clear_value list result"
where
  "GetVKClearValues zero t =
     rbind (IterateAllColorAttachments push_clear t []) (\<lambda>(_, values).
       case depth t of
         Some d \<Rightarrow> push_at Out_Of_Range kMaxAttachments
           (Clear_Depth_Stencil (clear_value d) (case stencil t of Some s \<Rightarrow> clear_value s | None \<Rightarrow> 0)) values
       | None \<Rightarrow> (case stencil t of
           Some s \<Rightarrow> push_at Out_Of_Range kMaxAttachments (Clear_Depth_Stencil zero (clear_value s)) values
         | None \<Rightarrow> Inr values))"

text \<open>A view of a texture is the number of the texture; its source must exist.\<close>

definition GetRenderTargetView :: "texture_vk option \<Rightarrow> nat result" where
  "GetRenderTargetView ob =
     rbind (deref ob) (\<lambda>t. if has_source t then Inr (tex_id t) else Inl Undefined_Behaviour)"

definition push_view :: "texture_vk option \<Rightarrow> nat list \<Rightarrow> nat list result" where
  "push_view ob views =
     rbind (GetRenderTargetView ob) (\<lambda>v. push_at Undefined_Behaviour kMaxAttachments v views)"

definition push_color_views :: "nat \<times> 'c attachment \<Rightarrow> nat list \<Rightarrow> (bool \<times> nat list) result" where
  "push_color_views x views =
     (case x of (_, a) \<Rightarrow>
       rbind (push_view (texture a) views) (\<lambda>views'.
       if resolve_texture a \<noteq> None
       then rbind (push_view (resolve_texture a) views') (\<lambda>v. Inr (True, v))
       else Inr (True, views')))"

record framebuffer_info =
  fb_width :: u32
  fb_height :: u32
  fb_views :: "nat list"

definition framebuffer_views :: "('c, 'd) render_target \<Rightarrow> nat list result" where
  "framebuffer_views t =
     rbind (IterateAllColorAttachments push_color_views t []) (\<lambda>(_, views).
       case depth t of
         Some d \<Rightarrow> push_view (texture d) views
       | None \<Rightarrow> (case stencil t of Some s \<Rightarrow> push_view (texture s) views | None \<Rightarrow> Inr views))"

definition CreateVKFramebuffer ::
  "(framebuffer_info \<Rightarrow> 'f option) \<Rightarrow> ('c, 'd) render_target \<Rightarrow> 'f option result"
where
  "CreateVKFramebuffer create_framebuffer t =
     rbind (GetRenderTargetSize t) (\<lambda>z.
     rbind (framebuffer_views t) (\<lambda>views.
       Inr (create_framebuffer \<lparr>fb_width = word_of_int (width z), fb_height = word_of_int (height z),
         fb_views = views\<rparr>)))"

end
