(* ===== verification/Render_Pass_Props.thy ===== *)
theory Render_Pass_Props
  imports Render_Pass_Builder
begin

text \<open>
  The render pass, the framebuffer and the clear values of a render target are three lists made by
  three functions; the properties here say that they fit together.
\<close>

subsection \<open>The attachments of a target in order\<close>

definition color_list :: "('c, 'd) render_target \<Rightarrow> (nat \<times> 'c attachment) list" where
  "color_list t = map (\<lambda>a. (0, a)) (opt_list (color0 t)) @ colors t"

text \<open>A color attachment takes one slot, and a second one for its resolve texture.\<close>

definition slots :: "'c attachment \<Rightarrow> ('c attachment \<times> bool) list" where
  "slots a = (a, False) # (if resolve_texture a \<noteq> None then [(a, True)] else [])"

definition slot_plan :: "(nat \<times> 'c attachment) list \<Rightarrow> ('c attachment \<times> bool) list" where
  "slot_plan cs = concat (map (slots \<circ> snd) cs)"

lemma slot_plan_simps [simp]:
  "slot_plan [] = []" "slot_plan (x # cs) = slots (snd x) @ slot_plan cs"
  "slot_plan (cs @ ds) = slot_plan cs @ slot_plan ds"
  by (simp_all add: slot_plan_def)

lemma slots_length: "length (slots a) \<le> 2" "0 < length (slots a)"
  by (simp_all add: slots_def)

lemma slot_plan_length: "length (slot_plan cs) \<le> 2 * length cs"
proof (induction cs)
  case (Cons x cs)
  then show ?case using slots_length(1) [of "snd x"] by simp
qed simp

definition slot_view :: "'c attachment \<times> bool \<Rightarrow> nat" where
  "slot_view s = tex_id (the (if snd s then resolve_texture (fst s) else texture (fst s)))"

definition color_desc_of ::
  "(texture_vk \<Rightarrow> VkImageLayout) \<Rightarrow> bool \<Rightarrow> 'c attachment \<Rightarrow> attachment_description"
where
  "color_desc_of layout_now sw a =
     (let t = the (texture a)
      in color_description (format (tex_desc t)) (sample_count (tex_desc t)) (load_action a)
           (store_action a) (layout_now t) sw)"

definition resolve_desc_of ::
  "(texture_vk \<Rightarrow> VkImageLayout) \<Rightarrow> bool \<Rightarrow> 'c attachment \<Rightarrow> attachment_description option"
where
  "resolve_desc_of layout_now sw a =
     (if resolve_texture a \<noteq> None
      then Some (resolve_description (store_action a) sw (color_desc_of layout_now sw a)) else None)"

definition slot_desc ::
  "(texture_vk \<Rightarrow> VkImageLayout) \<Rightarrow> bool \<Rightarrow> 'c attachment \<times> bool \<Rightarrow> attachment_description"
where
  "slot_desc layout_now sw s =
     (if snd s then the (resolve_desc_of layout_now sw (fst s)) else color_desc_of layout_now sw (fst s))"

subsection \<open>Valid attachments\<close>

lemma valid_resolves:
  "att_IsValid a \<Longrightarrow> StoreActionPerformsResolve (store_action a) \<longleftrightarrow> resolve_texture a \<noteq> None"
  by (cases "store_action a") (auto simp: att_IsValid_def split: option.splits if_splits)

lemma valid_sources:
  assumes "att_IsValid a"
  shows "\<exists>t. texture a = Some t \<and> has_source t" "resolve_texture a = Some r \<Longrightarrow> has_source r"
  using assms valid_resolves [OF assms]
  by (cases "store_action a"; auto simp: att_IsValid_def tex_IsValid_def split: option.splits if_splits)+

definition valid_colors :: "(nat \<times> 'c attachment) list \<Rightarrow> bool" where
  "valid_colors cs \<longleftrightarrow> (\<forall>(i, a) \<in> set cs. att_IsValid a)"

lemma valid_colors_simps [simp]:
  "valid_colors []" "valid_colors (x # cs) \<longleftrightarrow> att_IsValid (snd x) \<and> valid_colors cs"
  by (auto simp: valid_colors_def split: prod.splits)

lemma rt_ok_valid_colors: "rt_ok t \<Longrightarrow> valid_colors (color_list t)"
  by (auto simp: rt_ok_def valid_colors_def color_list_def)

subsection \<open>The three lists\<close>

lemma push_at_ok [simp]: "length xs < n \<Longrightarrow> push_at e n x xs = Inr (xs @ [x])"
  by (simp add: push_at_def)

lemma iterate_push_clear:
  "length v + length (slot_plan cs) \<le> kMaxAttachments \<Longrightarrow>
   iterate push_clear cs v = Inr (True, v @ map (\<lambda>s. Clear_Color (clear_value (fst s))) (slot_plan cs))"
  by (induction cs arbitrary: v) (auto simp: push_clear_def slots_def split: prod.splits)

lemma push_view_ok:
  "x = Some t \<Longrightarrow> has_source t \<Longrightarrow> length v < kMaxAttachments \<Longrightarrow> push_view x v = Inr (v @ [tex_id t])"
  by (simp add: push_view_def GetRenderTargetView_def deref_def)

lemma push_color_views_ok:
  assumes a: "att_IsValid a" and len: "length v + length (slots a) \<le> kMaxAttachments"
  shows "push_color_views (i, a) v = Inr (True, v @ map slot_view (slots a))"
proof -
  obtain t where t: "texture a = Some t" "has_source t" using valid_sources(1) [OF a] by blast
  have v: "push_view (texture a) v = Inr (v @ [tex_id t])"
    using t len by (intro push_view_ok) (auto simp: slots_def split: if_splits)
  show ?thesis
  proof (cases "resolve_texture a")
    case None
    with v t show ?thesis by (simp add: push_color_views_def slots_def slot_view_def)
  next
    case (Some r)
    then have "push_view (resolve_texture a) (v @ [tex_id t]) = Inr ((v @ [tex_id t]) @ [tex_id r])"
      using valid_sources(2) [OF a] len by (intro push_view_ok) (auto simp: slots_def)
    with v t Some show ?thesis by (simp add: push_color_views_def slots_def slot_view_def)
  qed
qed

lemma iterate_push_color_views:
  "valid_colors cs \<Longrightarrow> length v + length (slot_plan cs) \<le> kMaxAttachments \<Longrightarrow>
   iterate push_color_views cs v = Inr (True, v @ map slot_view (slot_plan cs))"
  by (induction cs arbitrary: v) (auto simp: push_color_views_ok)

text \<open>The references of the subpass, when \<open>n\<close> attachments come before.\<close>

fun color_refs_from :: "nat \<Rightarrow> (nat \<times> 'c attachment) list \<Rightarrow> attachment_reference list" where
  "color_refs_from n [] = []"
| "color_refs_from n (x # cs) =
     \<lparr>ar_attachment = of_nat n, ar_layout = eGeneral\<rparr> # color_refs_from (n + length (slots (snd x))) cs"

fun resolve_refs_from :: "nat \<Rightarrow> (nat \<times> 'c attachment) list \<Rightarrow> attachment_reference list" where
  "resolve_refs_from n [] = []"
| "resolve_refs_from n (x # cs) =
     (if resolve_texture (snd x) \<noteq> None then \<lparr>ar_attachment = of_nat (Suc n), ar_layout = eGeneral\<rparr>
      else kUnusedAttachmentReference) # resolve_refs_from (n + length (slots (snd x))) cs"

lemma refs_length [simp]:
  "length (color_refs_from n cs) = length cs" "length (resolve_refs_from n cs) = length cs"
  by (induction cs arbitrary: n) auto

lemma color_refs_nth:
  "k < length cs \<Longrightarrow> color_refs_from n cs ! k =
     \<lparr>ar_attachment = of_nat (n + length (slot_plan (take k cs))), ar_layout = eGeneral\<rparr>"
  by (induction cs arbitrary: n k) (auto simp: nth_Cons ac_simps split: nat.splits)

lemma resolve_refs_nth:
  "k < length cs \<Longrightarrow> resolve_refs_from n cs ! k =
     (if resolve_texture (snd (cs ! k)) \<noteq> None
      then \<lparr>ar_attachment = of_nat (Suc (n + length (slot_plan (take k cs)))), ar_layout = eGeneral\<rparr>
      else kUnusedAttachmentReference)"
  by (induction cs arbitrary: n k) (auto simp: nth_Cons ac_simps split: nat.splits)

lemma push_color_ok:
  assumes "length atts + length (slots a) \<le> kMaxAttachments"
    and "length cr < kMaxColorAttachments" "length rr < kMaxColorAttachments"
  shows "push_color (color_desc_of l sw a) (resolve_desc_of l sw a) (atts, cr, rr) =
    Inr (atts @ map (slot_desc l sw) (slots a), cr @ color_refs_from (length atts) [(i, a)],
      rr @ resolve_refs_from (length atts) [(i, a)])"
  using assms by (auto simp: push_color_def slots_def slot_desc_def resolve_desc_of_def)

lemma push_colors_ok:
  assumes "length atts + length (slot_plan cs) \<le> kMaxAttachments"
    and "length cr + length cs \<le> kMaxColorAttachments" "length rr + length cs \<le> kMaxColorAttachments"
    and "\<And>i a. (i, a) \<in> set cs \<Longrightarrow> map_of resolves i = resolve_desc_of l sw a"
  shows "push_colors resolves (map (\<lambda>(i, a). (i, color_desc_of l sw a)) cs) (atts, cr, rr) =
    Inr (atts @ map (slot_desc l sw) (slot_plan cs), cr @ color_refs_from (length atts) cs,
      rr @ resolve_refs_from (length atts) cs)"
  using assms
proof (induction cs arbitrary: atts cr rr)
  case (Cons x cs)
  obtain i a where x: "x = (i, a)" by (cases x)
  have "push_color (color_desc_of l sw a) (resolve_desc_of l sw a) (atts, cr, rr) =
    Inr (atts @ map (slot_desc l sw) (slots a), cr @ color_refs_from (length atts) [(i, a)],
      rr @ resolve_refs_from (length atts) [(i, a)])"
    using Cons.prems x by (intro push_color_ok) auto
  moreover have "map_of resolves i = resolve_desc_of l sw a" using Cons.prems(4) x by simp
  moreover have "push_colors resolves (map (\<lambda>(i, a). (i, color_desc_of l sw a)) cs)
      (atts @ map (slot_desc l sw) (slots a), cr @ color_refs_from (length atts) [(i, a)],
        rr @ resolve_refs_from (length atts) [(i, a)]) =
    Inr ((atts @ map (slot_desc l sw) (slots a)) @ map (slot_desc l sw) (slot_plan cs),
      (cr @ color_refs_from (length atts) [(i, a)]) @
        color_refs_from (length (atts @ map (slot_desc l sw) (slots a))) cs,
      (rr @ resolve_refs_from (length atts) [(i, a)]) @
        resolve_refs_from (length (atts @ map (slot_desc l sw) (slots a))) cs)"
    using Cons.prems x by (intro Cons.IH) auto
  ultimately show ?case by (simp add: x)
qed simp

subsection \<open>What the builder holds\<close>

lemma smap_put_last:
  "\<forall>k' \<in> fst ` set m. k' < k \<Longrightarrow> smap_put k v m = m @ [(k, v)]"
  by (induction k v m rule: smap_put.induct) auto

lemma add_color_ok:
  assumes "att_IsValid a"
  shows "add_color l sw (i, a) b =
    (let t = the (texture a)
     in Inr (True, rb_SetColorAttachment i (format (tex_desc t)) (sample_count (tex_desc t)) (load_action a)
          (store_action a) (l t) sw b))"
  using valid_sources(1) [OF assms] by (auto simp: add_color_def deref_def)

lemma add_color0:
  assumes "att_IsValid a"
  shows "add_color l sw (0, a) b =
    Inr (True, b\<lparr>rb_color0 := Some (color_desc_of l sw a), rb_color0_resolve := resolve_desc_of l sw a\<rparr>)"
  using valid_resolves [OF assms]
  by (simp add: add_color_ok [OF assms] Let_def rb_SetColorAttachment_def color_desc_of_def resolve_desc_of_def)

text \<open>The colors of the builder after those of \<open>cs\<close>.\<close>

definition holds_colors ::
  "(texture_vk \<Rightarrow> VkImageLayout) \<Rightarrow> bool \<Rightarrow> (nat \<times> 'c attachment) list \<Rightarrow> render_pass_builder \<Rightarrow> bool"
where
  "holds_colors l sw cs b \<longleftrightarrow>
     rb_colors b = map (\<lambda>(i, a). (i, color_desc_of l sw a)) cs \<and> sset (map fst (rb_resolves b)) \<and>
     fst ` set (rb_resolves b) \<subseteq> fst ` set cs \<and>
     (\<forall>(i, a) \<in> set cs. map_of (rb_resolves b) i = resolve_desc_of l sw a)"

lemma holds_colors_add:
  assumes b: "holds_colors l sw cs b" and a: "att_IsValid a" and i: "i \<noteq> 0" "\<forall>k \<in> fst ` set cs. k < i"
  shows "\<exists>b'. add_color l sw (i, a) b = Inr (True, b') \<and> holds_colors l sw (cs @ [(i, a)]) b' \<and>
    rb_color0 b' = rb_color0 b \<and> rb_color0_resolve b' = rb_color0_resolve b \<and>
    rb_depth_stencil b' = rb_depth_stencil b"
proof -
  let ?d = "color_desc_of l sw a"
  define b' where "b' = b\<lparr>rb_colors := smap_put i ?d (rb_colors b),
             rb_resolves := (case resolve_desc_of l sw a of Some r \<Rightarrow> smap_put i r (rb_resolves b)
                             | None \<Rightarrow> smap_del i (rb_resolves b))\<rparr>"
  have add: "add_color l sw (i, a) b = Inr (True, b')"
    using i valid_resolves [OF a]
    by (simp add: add_color_ok [OF a] Let_def rb_SetColorAttachment_def color_desc_of_def resolve_desc_of_def b'_def)
  have keys: "\<forall>k \<in> fst ` set (rb_colors b). k < i"
    using b i(2) by (auto simp: holds_colors_def)
  have cols: "rb_colors b' = map (\<lambda>(i, a). (i, color_desc_of l sw a)) (cs @ [(i, a)])"
    using b by (simp add: b'_def smap_put_last [OF keys]) (simp add: holds_colors_def)
  have res: "sset (map fst (rb_resolves b'))" "fst ` set (rb_resolves b') \<subseteq> insert i (fst ` set cs)"
      "map_of (rb_resolves b') = (map_of (rb_resolves b))(i := resolve_desc_of l sw a)"
    using b by (auto simp: b'_def holds_colors_def split: option.splits)
  have "i \<notin> fst ` set cs" using i(2) by blast
  then have old: "fst x \<noteq> i" if "x \<in> set cs" for x using that by auto
  have "holds_colors l sw (cs @ [(i, a)]) b'"
    unfolding holds_colors_def cols res(3)
  proof (intro conjI refl)
    show "sorted (map fst (rb_resolves b'))" "distinct (map fst (rb_resolves b'))" using res(1) by simp_all
    show "fst ` set (rb_resolves b') \<subseteq> fst ` set (cs @ [(i, a)])" using res(2) by simp
    show "\<forall>(i', a') \<in> set (cs @ [(i, a)]).
        ((map_of (rb_resolves b))(i := resolve_desc_of l sw a)) i' = resolve_desc_of l sw a'"
      using b old by (simp add: holds_colors_def case_prod_beta)
  qed
  with add show ?thesis by (simp add: b'_def)
qed

lemma iterate_add_colors:
  assumes "holds_colors l sw cs b" "valid_colors ds" "sset (map fst (cs @ ds))" "0 \<notin> fst ` set ds"
  shows "\<exists>b'. iterate (add_color l sw) ds b = Inr (True, b') \<and> holds_colors l sw (cs @ ds) b' \<and>
    rb_color0 b' = rb_color0 b \<and> rb_color0_resolve b' = rb_color0_resolve b \<and>
    rb_depth_stencil b' = rb_depth_stencil b"
  using assms
proof (induction ds arbitrary: cs b)
  case (Cons x ds)
  obtain i a where x: "x = (i, a)" by (cases x)
  have a: "att_IsValid a" and i0: "i \<noteq> 0" and le: "\<forall>k \<in> fst ` set cs. k \<le> i" and ne: "i \<notin> fst ` set cs"
    using Cons.prems x by (auto simp: sorted_wrt_append)
  then have i: "i \<noteq> 0" "\<forall>k \<in> fst ` set cs. k < i" by (auto intro: le_neq_trans simp del: image_iff)
  obtain b1 where b1: "add_color l sw (i, a) b = Inr (True, b1)" "holds_colors l sw (cs @ [(i, a)]) b1"
      "rb_color0 b1 = rb_color0 b" "rb_color0_resolve b1 = rb_color0_resolve b"
      "rb_depth_stencil b1 = rb_depth_stencil b"
    using holds_colors_add [OF Cons.prems(1) a i] by blast
  have "\<exists>b'. iterate (add_color l sw) ds b1 = Inr (True, b') \<and> holds_colors l sw ((cs @ [(i, a)]) @ ds) b' \<and>
      rb_color0 b' = rb_color0 b1 \<and> rb_color0_resolve b' = rb_color0_resolve b1 \<and>
      rb_depth_stencil b' = rb_depth_stencil b1"
    using Cons.prems x b1(2) by (intro Cons.IH) auto
  then show ?case using b1 x by auto
qed auto

lemma holds_colors_start: "rb_colors b = [] \<Longrightarrow> rb_resolves b = [] \<Longrightarrow> holds_colors l sw [] b"
  by (simp add: holds_colors_def)

lemma color_builder:
  assumes "rt_ok t"
  shows "\<exists>b. IterateAllColorAttachments (add_color l sw) t RenderPassBuilder = Inr (True, b) \<and>
    holds_colors l sw (colors t) b \<and> rb_color0 b = map_option (color_desc_of l sw) (color0 t) \<and>
    rb_color0_resolve b = Option.bind (color0 t) (resolve_desc_of l sw) \<and> rb_depth_stencil b = None"
proof -
  have ok: "valid_colors (colors t)" "sset (map fst ([] @ colors t))" "0 \<notin> fst ` set (colors t)"
    using assms by (auto simp: rt_ok_def valid_colors_def)
  note step = iterate_add_colors [OF _ ok, simplified]
  show ?thesis
  proof (cases "color0 t")
    case None
    have "holds_colors l sw [] RenderPassBuilder" by (rule holds_colors_start) (simp_all add: RenderPassBuilder_def)
    from step [OF this] None show ?thesis
      by (auto simp: IterateAllColorAttachments_def RenderPassBuilder_def)
  next
    case (Some a)
    then have a: "att_IsValid a" using assms by (simp add: rt_ok_def)
    let ?b = "RenderPassBuilder\<lparr>rb_color0 := Some (color_desc_of l sw a), rb_color0_resolve := resolve_desc_of l sw a\<rparr>"
    have "holds_colors l sw [] ?b" by (rule holds_colors_start) (simp_all add: RenderPassBuilder_def)
    from step [OF this] Some show ?thesis
      by (auto simp: IterateAllColorAttachments_def add_color0 [OF a]) (simp add: RenderPassBuilder_def)
  qed
qed

subsection \<open>The pass, the framebuffer and the clear values together\<close>

text \<open>The attachment that is bound for depth and stencil: the depth attachment if there is one.\<close>

definition depth_stencil :: "('c, 'd) render_target \<Rightarrow> unit attachment option" where
  "depth_stencil t =
     (case depth t of Some d \<Rightarrow> Some (base d) | None \<Rightarrow> map_option base (stencil t))"

definition depth_stencil_desc :: "('c, 'd) render_target \<Rightarrow> attachment_description option" where
  "depth_stencil_desc t =
     (case depth t of
        Some a \<Rightarrow> (let x = tex_desc (the (texture a))
                   in rb_depth_stencil (rb_SetDepthStencilAttachment (format x) (sample_count x)
                        (load_action a) (store_action a) RenderPassBuilder))
      | None \<Rightarrow> (case stencil t of
          Some a \<Rightarrow> (let x = tex_desc (the (texture a))
                     in rb_depth_stencil (rb_SetStencilAttachment (format x) (sample_count x)
                          (load_action a) (store_action a) RenderPassBuilder))
        | None \<Rightarrow> None))"

lemma depth_stencil_desc_some:
  "depth_stencil_desc t = None \<longleftrightarrow> depth_stencil t = None"
  "depth_stencil_desc t = Some d \<Longrightarrow> depth_stencil t = Some a \<Longrightarrow>
   ad_format d = ToVKImageFormat (format (tex_desc (the (texture a))))"
  by (auto simp: depth_stencil_desc_def depth_stencil_def rb_SetDepthStencilAttachment_def
      rb_SetStencilAttachment_def Let_def split: option.splits)

lemma pass_builder_ok:
  assumes ok: "rt_ok t"
  shows "\<exists>b. pass_builder l sw t = Inr b \<and> holds_colors l sw (colors t) b \<and>
    rb_color0 b = map_option (color_desc_of l sw) (color0 t) \<and>
    rb_color0_resolve b = Option.bind (color0 t) (resolve_desc_of l sw) \<and>
    rb_depth_stencil b = depth_stencil_desc t"
proof -
  obtain b where b: "IterateAllColorAttachments (add_color l sw) t RenderPassBuilder = Inr (True, b)"
      "holds_colors l sw (colors t) b" "rb_color0 b = map_option (color_desc_of l sw) (color0 t)"
      "rb_color0_resolve b = Option.bind (color0 t) (resolve_desc_of l sw)" "rb_depth_stencil b = None"
    using color_builder [OF ok] by blast
  have tex: "\<exists>x. texture a = Some x" if "a \<in> set (all_attachments t)" for a
    using all_valid [OF ok that] by (rule valid_texture)
  show ?thesis
  proof (cases "depth t")
    case (Some a)
    then obtain x where "texture a = Some x" using tex [of "base a"] by (auto simp: all_attachments_def)
    with Some b show ?thesis
      by (simp add: pass_builder_def deref_def depth_stencil_desc_def rb_SetDepthStencilAttachment_def holds_colors_def Let_def)
  next
    case d: None
    show ?thesis
    proof (cases "stencil t")
      case (Some a)
      then obtain x where "texture a = Some x" using tex [of "base a"] by (auto simp: all_attachments_def)
      with Some d b show ?thesis
        by (simp add: pass_builder_def deref_def depth_stencil_desc_def rb_SetStencilAttachment_def holds_colors_def Let_def)
    next
      case None
      with d b show ?thesis by (simp add: pass_builder_def depth_stencil_desc_def)
    qed
  qed
qed

text \<open>The number of color attachments that fit.\<close>

lemma color_list_length: "length (color_list t) = of_bool (color0 t \<noteq> None) + length (colors t)"
  by (cases "color0 t") (simp_all add: color_list_def)

lemma slot_plan_fits: "length cs \<le> kMaxColorAttachments \<Longrightarrow> length (slot_plan cs) < kMaxAttachments"
  using slot_plan_length [of cs] by (simp add: kMaxAttachments_def)

lemma Build_info_ok:
  assumes ok: "rt_ok t" and few: "length (color_list t) \<le> kMaxColorAttachments"
    and b: "pass_builder l sw t = Inr b"
  shows "Build_info b = Inr
    \<lparr>rp_attachments = map (slot_desc l sw) (slot_plan (color_list t)) @ opt_list (depth_stencil_desc t),
     rp_color_refs = color_refs_from 0 (color_list t), rp_resolve_refs = resolve_refs_from 0 (color_list t),
     rp_depth_stencil_ref = (if depth_stencil t = None then kUnusedAttachmentReference
       else \<lparr>ar_attachment = of_nat (length (slot_plan (color_list t))), ar_layout = eDepthStencilAttachmentOptimal\<rparr>),
     rp_dependencies = pass_dependencies\<rparr>"
proof -
  have h: "holds_colors l sw (colors t) b" "rb_color0 b = map_option (color_desc_of l sw) (color0 t)"
      "rb_color0_resolve b = Option.bind (color0 t) (resolve_desc_of l sw)" "rb_depth_stencil b = depth_stencil_desc t"
    using pass_builder_ok [OF ok, of l sw] b by auto
  have fits: "length (slot_plan (color_list t)) < kMaxAttachments" by (rule slot_plan_fits [OF few])
  have cols: "rb_colors b = map (\<lambda>(i, a). (i, color_desc_of l sw a)) (colors t)"
      and res: "\<And>i a. (i, a) \<in> set (colors t) \<Longrightarrow> map_of (rb_resolves b) i = resolve_desc_of l sw a"
    using h(1) by (auto simp: holds_colors_def)
  define cs0 where "cs0 = map (\<lambda>a. (0 :: nat, a)) (opt_list (color0 t))"
  have list: "color_list t = cs0 @ colors t" by (simp add: color_list_def cs0_def)
  have len0: "length cs0 \<le> 1" by (cases "color0 t") (simp_all add: cs0_def)
  have first: "(case rb_color0 b of None \<Rightarrow> Inr ([], [], [])
      | Some d \<Rightarrow> push_color d (rb_color0_resolve b) ([], [], [])) =
    Inr (map (slot_desc l sw) (slot_plan cs0), color_refs_from 0 cs0, resolve_refs_from 0 cs0)"
  proof (cases "color0 t")
    case (Some a)
    have "push_color (color_desc_of l sw a) (resolve_desc_of l sw a) ([], [], []) =
      Inr (map (slot_desc l sw) (slots a), color_refs_from 0 [(0, a)], resolve_refs_from 0 [(0, a)])"
      using push_color_ok [of "[]" a "[]" "[]" l sw 0] slots_length(1) [of a]
      by (simp add: kMaxAttachments_def kMaxColorAttachments_def)
    with Some h show ?thesis by (simp add: cs0_def)
  qed (simp add: h cs0_def)
  have refs: "color_refs_from 0 (cs0 @ colors t) =
        color_refs_from 0 cs0 @ color_refs_from (length (slot_plan cs0)) (colors t)"
      "resolve_refs_from 0 (cs0 @ colors t) =
        resolve_refs_from 0 cs0 @ resolve_refs_from (length (slot_plan cs0)) (colors t)"
    by (cases "color0 t"; simp add: cs0_def)+
  have rest: "push_colors (rb_resolves b) (rb_colors b)
      (map (slot_desc l sw) (slot_plan cs0), color_refs_from 0 cs0, resolve_refs_from 0 cs0) =
    Inr (map (slot_desc l sw) (slot_plan (color_list t)), color_refs_from 0 (color_list t),
      resolve_refs_from 0 (color_list t))"
    unfolding cols by (subst push_colors_ok) (use fits few res in \<open>auto simp: list refs\<close>)
  show ?thesis
    unfolding Build_info_def first rest rbind.simps split_conv h(4)
    using fits depth_stencil_desc_some(1) [of t] by (cases "depth_stencil_desc t") auto
qed

lemma framebuffer_views_ok:
  assumes ok: "rt_ok t" and few: "length (color_list t) \<le> kMaxColorAttachments"
  shows "framebuffer_views t = Inr (map slot_view (slot_plan (color_list t)) @
    map (\<lambda>a. tex_id (the (texture a))) (opt_list (depth_stencil t)))"
proof -
  have fits: "length (slot_plan (color_list t)) < kMaxAttachments" by (rule slot_plan_fits [OF few])
  have "iterate push_color_views (color_list t) [] = Inr (True, [] @ map slot_view (slot_plan (color_list t)))"
    by (rule iterate_push_color_views [OF rt_ok_valid_colors [OF ok]]) (use fits in simp)
  then have cs: "IterateAllColorAttachments push_color_views t [] = Inr (True, map slot_view (slot_plan (color_list t)))"
    by (simp add: IterateAllColorAttachments_def color_list_def)
  have view: "push_view (texture a) (map slot_view (slot_plan (color_list t))) =
      Inr (map slot_view (slot_plan (color_list t)) @ [tex_id (the (texture a))])"
    if "base a \<in> set (all_attachments t)" for a :: "'e attachment"
  proof -
    have "att_IsValid a" using all_valid [OF ok that] by simp
    then show ?thesis using valid_sources(1) [of a] fits by (auto intro: push_view_ok)
  qed
  show ?thesis
    unfolding framebuffer_views_def cs
    by (cases "depth t"; cases "stencil t") (simp_all add: depth_stencil_def view all_attachments_def)
qed

definition depth_stencil_clear :: "'d \<Rightarrow> ('c, 'd) render_target \<Rightarrow> ('c, 'd) clear_value option" where
  "depth_stencil_clear zero t =
     (if depth t = None \<and> stencil t = None then None
      else Some (Clear_Depth_Stencil (case depth t of Some d \<Rightarrow> clear_value d | None \<Rightarrow> zero)
                   (case stencil t of Some s \<Rightarrow> clear_value s | None \<Rightarrow> 0)))"

lemma clear_values_ok:
  fixes t :: "('c, 'd) render_target"
  assumes few: "length (color_list t) \<le> kMaxColorAttachments"
  shows "GetVKClearValues zero t = Inr (map (\<lambda>s. Clear_Color (clear_value (fst s))) (slot_plan (color_list t)) @
    opt_list (depth_stencil_clear zero t))"
proof -
  let ?v = "map (\<lambda>s. Clear_Color (clear_value (fst s))) (slot_plan (color_list t)) :: ('c, 'd) clear_value list"
  have fits: "length (slot_plan (color_list t)) < kMaxAttachments" by (rule slot_plan_fits [OF few])
  have "iterate push_clear (color_list t) [] = Inr (True, [] @ ?v)"
    by (rule iterate_push_clear) (use fits in simp)
  then have cs: "IterateAllColorAttachments push_clear t [] = Inr (True, ?v)"
    by (simp only: IterateAllColorAttachments_def color_list_def append_Nil)
  show ?thesis
    unfolding GetVKClearValues_def cs
    using fits by (cases "depth t"; cases "stencil t") (simp_all add: depth_stencil_clear_def)
qed

lemma depth_stencil_lengths:
  "length (opt_list (depth_stencil_desc t)) = length (opt_list (depth_stencil t))"
  "length (opt_list (depth_stencil_clear zero t)) = length (opt_list (depth_stencil t))"
  by (auto simp: depth_stencil_desc_def depth_stencil_def depth_stencil_clear_def Let_def
      rb_SetDepthStencilAttachment_def rb_SetStencilAttachment_def split: option.splits)

text \<open>Where the slots of the \<open>k\<close>-th color attachment are.\<close>

lemma slot_plan_nth:
  assumes "k < length cs"
  defines "j \<equiv> length (slot_plan (take k cs))"
  shows "j < length (slot_plan cs)" "slot_plan cs ! j = (snd (cs ! k), False)"
    and "resolve_texture (snd (cs ! k)) \<noteq> None \<Longrightarrow> Suc j < length (slot_plan cs)"
    and "resolve_texture (snd (cs ! k)) \<noteq> None \<Longrightarrow> slot_plan cs ! Suc j = (snd (cs ! k), True)"
proof -
  have "slot_plan cs = slot_plan (take k cs) @ slots (snd (cs ! k)) @ slot_plan (drop (Suc k) cs)"
    using id_take_nth_drop [OF assms(1)] by (metis slot_plan_simps(2,3))
  then show "j < length (slot_plan cs)" "slot_plan cs ! j = (snd (cs ! k), False)"
    "resolve_texture (snd (cs ! k)) \<noteq> None \<Longrightarrow> Suc j < length (slot_plan cs)"
    "resolve_texture (snd (cs ! k)) \<noteq> None \<Longrightarrow> slot_plan cs ! Suc j = (snd (cs ! k), True)"
    unfolding j_def by (auto simp: slots_def nth_append)
qed

text \<open>
  What the \<open>k\<close>-th color reference of the subpass names: the view, the description and the clear
  value of the \<open>k\<close>-th color attachment, and after it those of its resolve texture.
\<close>

definition color_bound ::
  "(texture_vk \<Rightarrow> VkImageLayout) \<Rightarrow> bool \<Rightarrow> render_pass_info \<Rightarrow> nat list \<Rightarrow> ('c, 'd) clear_value list \<Rightarrow>
   nat \<Rightarrow> 'c attachment \<Rightarrow> bool"
where
  "color_bound l sw info views clears k a \<longleftrightarrow>
     (\<exists>j x. texture a = Some x \<and> rp_color_refs info ! k = \<lparr>ar_attachment = of_nat j, ar_layout = eGeneral\<rparr> \<and>
        j < length views \<and> views ! j = tex_id x \<and>
        rp_attachments info ! j = color_description (format (tex_desc x)) (sample_count (tex_desc x))
          (load_action a) (store_action a) (l x) sw \<and>
        clears ! j = Clear_Color (clear_value a) \<and>
        (case resolve_texture a of
           None \<Rightarrow> rp_resolve_refs info ! k = kUnusedAttachmentReference
         | Some r \<Rightarrow> rp_resolve_refs info ! k = \<lparr>ar_attachment = of_nat (Suc j), ar_layout = eGeneral\<rparr> \<and>
             Suc j < length views \<and> views ! Suc j = tex_id r \<and>
             ad_samples (rp_attachments info ! Suc j) = VkSampleCountFlagBits.e1 \<and>
             clears ! Suc j = Clear_Color (clear_value a)))"

text \<open>
  C28: for every render target that can be set up, with at most 16 color attachments, the render
  pass, the framebuffer and the clear values are made without error and describe the same
  attachments at the same indices. Each color reference of the subpass names the view, the
  description and the clear value of its attachment, each resolve reference those of the resolve
  texture right after it, and the last attachment is the one for depth and stencil, if the target
  has one.
\<close>

theorem render_pass_fits_framebuffer:
  fixes t :: "('c, 'd) render_target"
  assumes "reachable_from (\<lambda>t. t = RenderTarget) rt_step t"
    and few: "length (color_list t) \<le> kMaxColorAttachments"
  shows "\<exists>b info views clears. pass_builder l sw t = Inr b \<and> Build_info b = Inr info \<and>
    framebuffer_views t = Inr views \<and> GetVKClearValues zero t = Inr clears \<and>
    length (rp_attachments info) = length views \<and> length clears = length views \<and>
    length (rp_color_refs info) = length (color_list t) \<and>
    length (rp_resolve_refs info) = length (color_list t) \<and>
    (\<forall>k < length (color_list t). color_bound l sw info views clears k (snd (color_list t ! k))) \<and>
    (case depth_stencil t of
       None \<Rightarrow> rp_depth_stencil_ref info = kUnusedAttachmentReference
     | Some a \<Rightarrow> rp_depth_stencil_ref info =
           \<lparr>ar_attachment = of_nat (length views - 1), ar_layout = eDepthStencilAttachmentOptimal\<rparr> \<and>
         last views = tex_id (the (texture a)) \<and>
         ad_format (last (rp_attachments info)) = ToVKImageFormat (format (tex_desc (the (texture a)))))"
proof -
  have ok: "rt_ok t" by (rule rt.reachable_inv [OF assms(1)])
  let ?cs = "color_list t"
  obtain b where b: "pass_builder l sw t = Inr b" using pass_builder_ok [OF ok, of l sw] by blast
  obtain info where info: "Build_info b = Inr info" "info = \<lparr>rp_attachments = map (slot_desc l sw) (slot_plan ?cs) @
      opt_list (depth_stencil_desc t), rp_color_refs = color_refs_from 0 ?cs, rp_resolve_refs = resolve_refs_from 0 ?cs,
      rp_depth_stencil_ref = (if depth_stencil t = None then kUnusedAttachmentReference
       else \<lparr>ar_attachment = of_nat (length (slot_plan ?cs)), ar_layout = eDepthStencilAttachmentOptimal\<rparr>),
      rp_dependencies = pass_dependencies\<rparr>"
    using Build_info_ok [OF ok few b] by blast
  define views where "views = map slot_view (slot_plan ?cs) @ map (\<lambda>a. tex_id (the (texture a))) (opt_list (depth_stencil t))"
  define clears where "clears = map (\<lambda>s. Clear_Color (clear_value (fst s))) (slot_plan ?cs) @
    opt_list (depth_stencil_clear zero t)"
  have color: "color_bound l sw info views clears k (snd (?cs ! k))" if k: "k < length ?cs" for k
  proof -
    let ?a = "snd (?cs ! k)" and ?j = "length (slot_plan (take k ?cs))"
    note at = slot_plan_nth [OF k]
    have "att_IsValid ?a" using rt_ok_valid_colors [OF ok] nth_mem [OF k] by (simp add: valid_colors_def case_prod_beta)
    then obtain x where x: "texture ?a = Some x" using valid_texture by blast
    show ?thesis
      unfolding color_bound_def
      by (rule exI [of _ ?j], rule exI [of _ x])
        (use at x k in \<open>auto simp: info(2) views_def clears_def nth_append color_refs_nth resolve_refs_nth slot_view_def
          slot_desc_def color_desc_of_def resolve_desc_of_def resolve_description_def Let_def split: option.splits\<close>)
  qed
  note ds = depth_stencil_lengths(1) [of t] depth_stencil_lengths(2) [of zero t]
  have last: "case depth_stencil t of
       None \<Rightarrow> rp_depth_stencil_ref info = kUnusedAttachmentReference
     | Some a \<Rightarrow> rp_depth_stencil_ref info =
           \<lparr>ar_attachment = of_nat (length views - 1), ar_layout = eDepthStencilAttachmentOptimal\<rparr> \<and>
         last views = tex_id (the (texture a)) \<and>
         ad_format (last (rp_attachments info)) = ToVKImageFormat (format (tex_desc (the (texture a))))"
    using depth_stencil_desc_some [of t]
    by (cases "depth_stencil_desc t") (auto simp: info(2) views_def split: option.splits)
  show ?thesis
    using b info color last ds framebuffer_views_ok [OF ok few] clear_values_ok [OF few, of zero]
    by (intro exI [of _ b] exI [of _ info] exI [of _ views] exI [of _ clears])
      (simp add: views_def [symmetric] clears_def [symmetric], simp add: views_def clears_def)
qed

definition example_multisampled :: texture_vk where
  "example_multisampled = \<lparr>tex_id = 2, has_source = True, tex_desc = default_texture_descriptor
     \<lparr>storage_mode := kDevicePrivate, texture_type := kTexture2DMultisample, sample_count := kCount4\<rparr>\<rparr>"

definition example_resolved :: texture_vk where
  "example_resolved = \<lparr>tex_id = 5, has_source = True, tex_desc = default_texture_descriptor
     \<lparr>storage_mode := kDevicePrivate\<rparr>\<rparr>"

definition example_target :: "(nat, nat) render_target" where
  "example_target =
     SetDepthAttachment (Some (default_attachment 1\<lparr>texture := Some (example_multisampled\<lparr>tex_id := 9\<rparr>)\<rparr>))
     (SetColorAttachment (default_attachment 7\<lparr>texture := Some (example_multisampled\<lparr>tex_id := 4\<rparr>)\<rparr>) 3
     (SetColorAttachment (default_attachment 7\<lparr>texture := Some example_multisampled,
        resolve_texture := Some example_resolved, store_action := StoreAction.kMultisampleResolve\<rparr>) 0 RenderTarget))"

lemma example_target_reachable: "reachable_from (\<lambda>t. t = RenderTarget) rt_step example_target"
  unfolding example_target_def
  by (rule reach_step, rule reach_step, rule reach_step, rule reach_start, rule refl)
    (rule step_color step_depth)+

lemma example_target_views: "framebuffer_views example_target = Inr [2, 5, 4, 9]"
  by code_simp

theorem render_pass_fits_framebuffer_witness:
  "\<exists>b info clears. pass_builder (\<lambda>_. eUndefined) False example_target = Inr b \<and> Build_info b = Inr info \<and>
     framebuffer_views example_target = Inr [2, 5, 4, 9] \<and> GetVKClearValues 0 example_target = Inr clears \<and>
     length (rp_attachments info) = 4 \<and> length clears = 4 \<and>
     (\<forall>k < 2. color_bound (\<lambda>_. eUndefined) False info [2, 5, 4, 9] clears k (snd (color_list example_target ! k)))"
proof -
  have two: "length (color_list example_target) = 2" by code_simp
  then have few: "length (color_list example_target) \<le> kMaxColorAttachments" by (simp add: kMaxColorAttachments_def)
  show ?thesis
    using render_pass_fits_framebuffer [OF example_target_reachable few, of "\<lambda>_. eUndefined" False 0]
    unfolding example_target_views two by auto
qed

end
