(* ===== verification/Render_Pass.thy ===== *)
theory Render_Pass
  imports Resource_Binder Render_Pass_Props
begin

text \<open>
  The commands of a render pass: \<^verbatim>\<open>src/hal/render_pass_vk.{h,cc}\<close>. Every method takes the
  encoder and returns its answer and the changed encoder. What the encoder calls is an argument:
  whether the build is a debug build and the validation layers are on, the variants of a pipeline
  with an immutable sampler, the sampler a texture brings along, and the descriptor sets that are
  allocated, as a function of the number of the commands recorded so far. A viewport consists of
  floating point numbers and is left out. The answer of \<open>CommandBuffer::IsValid\<close> is a field of the
  recording, although the code has it constantly true.
\<close>

subsection \<open>State\<close>

record pipeline =
  pl_id :: nat
  pl_layout :: nat
  pl_uses_input_attachments :: bool

datatype pass_cmd =
    Set_Scissor int int u32 u32
  | Set_Stencil_Reference u32
  | Bind_Vertex_Buffers "(nat \<times> u64) list"
  | Bind_Index_Buffer nat u64 VkIndexType
  | Bind_Pipeline nat
  | Update_Descriptors nat "(nat \<times> nat \<times> resource) list"
  | Bind_Descriptor_Set nat nat
  | Input_Attachment_Barrier nat barrier
  | Draw_Indexed u32 u32 u32 u32 u32
  | Draw_Vertices u32 u32 u32 u32
  | Begin_Label string
  | End_Label
  | End_Pass

record encoder =
  en_rec :: recording
  en_cmds :: "pass_cmd list"
  color_image :: texture_vk
  current_stencil :: u32
  en_ws :: workspace
  instance_count :: u64
  base_vertex :: u64
  element_count :: u64
  has_index_buffer :: bool
  has_label :: bool
  bound_pipeline :: "pipeline option"
  pipeline_uses_input_attachments :: bool
  immutable_sampler :: "nat option"

record pass_env =
  ogre_debug :: bool
  has_validation_layers :: bool
  variant_for :: "pipeline \<Rightarrow> nat \<Rightarrow> pipeline option"
  sampler_variant :: "nat \<Rightarrow> nat \<Rightarrow> nat option"
  descriptor_set_for :: "nat \<Rightarrow> pipeline \<Rightarrow> nat option"

definition en_emit :: "pass_cmd list \<Rightarrow> encoder \<Rightarrow> encoder" where
  "en_emit cs e = e\<lparr>en_cmds := en_cmds e @ cs\<rparr>"

definition en_track :: "(recording \<Rightarrow> bool \<times> recording) \<Rightarrow> encoder \<Rightarrow> bool \<times> encoder" where
  "en_track f e = (let (ok, r) = f (en_rec e) in (ok, e\<lparr>en_rec := r\<rparr>))"

subsection \<open>Simple settings\<close>

definition SetStencilReference :: "u32 \<Rightarrow> encoder \<Rightarrow> encoder" where
  "SetStencilReference v e =
     (if current_stencil e = v then e else en_emit [Set_Stencil_Reference v] (e\<lparr>current_stencil := v\<rparr>))"

definition SetBaseVertex :: "u64 \<Rightarrow> encoder \<Rightarrow> encoder" where
  "SetBaseVertex v e = e\<lparr>base_vertex := v\<rparr>"

definition SetElementCount :: "u64 \<Rightarrow> encoder \<Rightarrow> encoder" where
  "SetElementCount v e = e\<lparr>element_count := v\<rparr>"

definition SetInstanceCount :: "u64 \<Rightarrow> encoder \<Rightarrow> encoder" where
  "SetInstanceCount v e = e\<lparr>instance_count := v\<rparr>"

text \<open>The scissor has 32-bit coordinates; how wide it is is computed by the rectangle.\<close>

definition SetScissor :: "int \<Rightarrow> int \<Rightarrow> u32 \<Rightarrow> u32 \<Rightarrow> encoder \<Rightarrow> encoder" where
  "SetScissor x y w h e = en_emit [Set_Scissor x y w h] e"

definition PushDebugGroup :: "pass_env \<Rightarrow> string \<Rightarrow> encoder \<Rightarrow> encoder" where
  "PushDebugGroup env label e = (if \<not> has_validation_layers env then e else en_emit [Begin_Label label] e)"

definition PopDebugGroup :: "pass_env \<Rightarrow> encoder \<Rightarrow> encoder" where
  "PopDebugGroup env e = (if \<not> has_validation_layers env then e else en_emit [End_Label] e)"

definition SetCommandLabel :: "pass_env \<Rightarrow> string \<Rightarrow> encoder \<Rightarrow> encoder" where
  "SetCommandLabel env label e =
     (if ogre_debug env then (PushDebugGroup env label e)\<lparr>has_label := True\<rparr> else e)"

subsection \<open>Pipelines\<close>

definition kMagicSubpassInputBinding :: nat where "kMagicSubpassInputBinding = 64"

definition GetImageView :: "texture_vk \<Rightarrow> nat result" where
  "GetImageView t = (if has_source t then Inr (tex_id t) else Inl Undefined_Behaviour)"

definition SetPipeline :: "pipeline option \<Rightarrow> encoder \<Rightarrow> encoder result" where
  "SetPipeline p e =
     (case p of
        None \<Rightarrow> Inr (e\<lparr>bound_pipeline := None\<rparr>)
      | Some pl \<Rightarrow>
          (let e1 = e\<lparr>bound_pipeline := p, pipeline_uses_input_attachments := pl_uses_input_attachments pl\<rparr>
           in if \<not> pl_uses_input_attachments pl then Inr e1
              else if kMaxBindings \<le> length (image_workspace (en_ws e)) then Inr (e1\<lparr>bound_pipeline := None\<rparr>)
              else rbind (GetImageView (color_image e)) (\<lambda>view.
                rbind (write_image kMagicSubpassInputBinding eInputAttachment
                         \<lparr>ii_layout = eGeneral, ii_sampler = None, ii_view = view\<rparr> (en_ws e)) (\<lambda>ws.
                Inr (e1\<lparr>en_ws := ws\<rparr>)))))"

subsection \<open>Vertices and indices\<close>

definition kMaxVertexBuffers :: nat where "kMaxVertexBuffers = 16"

definition ValidateVertexBuffers :: "buffer_view list \<Rightarrow> bool" where
  "ValidateVertexBuffers views \<longleftrightarrow> length views \<le> kMaxVertexBuffers \<and> (\<forall>v \<in> set views. bv_to_bool v)"

definition ValidateIndexBuffer :: "buffer_view \<Rightarrow> IndexType \<Rightarrow> bool" where
  "ValidateIndexBuffer view type =
     (if type = IndexType.kUnknown then False
      else if type \<noteq> IndexType.kNone \<and> \<not> bv_to_bool view then False
      else True)"

text \<open>The handles and offsets of the buffers, which are tracked one after the other.\<close>

fun take_vertex_buffers :: "buffer_view list \<Rightarrow> encoder \<Rightarrow> ((nat \<times> u64) list \<times> encoder) result" where
  "take_vertex_buffers [] e = Inr ([], e)"
| "take_vertex_buffers (v # vs) e =
     rbind (deref (bv_GetBuffer v)) (\<lambda>b.
       let e1 = (case fst (bv_TakeBuffer v) of
                   None \<Rightarrow> e | Some d \<Rightarrow> snd (en_track (CommandBuffer_TrackBuffer (Some d)) e))
       in rbind (take_vertex_buffers vs e1) (\<lambda>(bs, e2). Inr ((b, roffset (bv_range v)) # bs, e2)))"

definition SetVertexBuffers :: "buffer_view list \<Rightarrow> encoder \<Rightarrow> (bool \<times> encoder) result" where
  "SetVertexBuffers views e =
     (if \<not> ValidateVertexBuffers views then Inr (False, e)
      else rbind (take_vertex_buffers views e) (\<lambda>(bs, e1). Inr (True, en_emit [Bind_Vertex_Buffers bs] e1)))"

definition SetIndexBuffer :: "buffer_view \<Rightarrow> IndexType \<Rightarrow> encoder \<Rightarrow> (bool \<times> encoder) result" where
  "SetIndexBuffer view type e =
     (if \<not> ValidateIndexBuffer view type then Inr (False, e)
      else if type = IndexType.kNone then Inr (True, e\<lparr>has_index_buffer := False\<rparr>)
      else
        let e1 = e\<lparr>has_index_buffer := True\<rparr>
        in if \<not> bv_to_bool view then Inr (False, e1)
           else if bv_GetBuffer view = None then Inr (False, e1)
           else
             let (taken, view') = bv_TakeBuffer view;
                 (ok, e2) = (if taken = None then (True, e1) else en_track (CommandBuffer_TrackBuffer taken) e1)
             in if \<not> ok then Inr (False, e2)
                else rbind (deref (bv_GetBuffer view')) (\<lambda>b.
                  rbind (ToVKIndexType type) (\<lambda>ty.
                  Inr (True, en_emit [Bind_Index_Buffer b (roffset (bv_range view')) ty] e2))))"

definition SetVertexBuffer :: "vertex_buffer \<Rightarrow> encoder \<Rightarrow> (bool \<times> encoder) result" where
  "SetVertexBuffer buffer e =
     rbind (SetVertexBuffers [vb_vertex_buffer buffer] e) (\<lambda>(ok, e1).
     if \<not> ok then Inr (False, e1)
     else rbind (SetIndexBuffer (vb_index_buffer buffer) (index_type buffer) e1) (\<lambda>(ok, e2).
     if \<not> ok then Inr (False, e2)
     else Inr (True, SetElementCount (of_nat (vertex_count buffer)) e2)))"

subsection \<open>Resources\<close>

definition BindResource_buffer ::
  "nat \<Rightarrow> DescriptorType \<Rightarrow> buffer_view \<Rightarrow> encoder \<Rightarrow> (bool \<times> encoder) result"
where
  "BindResource_buffer binding type view e =
     (if kMaxBindings \<le> length (buffer_workspace (en_ws e)) then Inr (False, e)
      else rbind (deref (bv_GetBuffer view)) (\<lambda>buffer.
        if buffer = VK_NULL_HANDLE then Inr (False, e)
        else let (taken, view') = bv_TakeBuffer view;
            (ok, e1) = (if taken = None then (True, e) else en_track (CommandBuffer_TrackBuffer taken) e)
        in if \<not> ok then Inr (False, e1)
           else rbind (write_buffer binding (ToVKDescriptorType type)
                  \<lparr>bi_buffer = buffer, bi_offset = ucast (roffset (bv_range view')),
                   bi_range = rlength (bv_range view')\<rparr> (en_ws e1)) (\<lambda>ws.
             Inr (True, e1\<lparr>en_ws := ws\<rparr>))))"

definition BindResource_image ::
  "pass_env \<Rightarrow> nat \<Rightarrow> texture_vk option \<Rightarrow> nat option \<Rightarrow> encoder \<Rightarrow> (bool \<times> encoder) result"
where
  "BindResource_image env binding tex sampler e =
     (if kMaxBindings \<le> length (buffer_workspace (en_ws e)) then Inr (False, e)
      else case tex of None \<Rightarrow> Inr (False, e)
      | Some t \<Rightarrow>
        if \<not> tex_IsValid t then Inr (False, e)
        else case sampler of None \<Rightarrow> Inr (False, e)
        | Some sm \<Rightarrow>
          (let (ok, e1) = en_track (CommandBuffer_Track tex) e
           in if \<not> ok then Inr (False, e1)
              else
                let e2 = (if immutable_sampler e1 = None
                          then e1\<lparr>immutable_sampler := sampler_variant env (tex_id t) sm\<rparr> else e1)
                in rbind (GetImageView t) (\<lambda>view.
                   rbind (write_image binding eCombinedImageSampler
                     \<lparr>ii_layout = eShaderReadOnlyOptimal, ii_sampler = Some sm, ii_view = view\<rparr>
                     (en_ws e2)) (\<lambda>ws.
                   Inr (True, e2\<lparr>en_ws := ws\<rparr>)))))"

subsection \<open>Drawing\<close>

definition draw_cmd :: "encoder \<Rightarrow> pass_cmd" where
  "draw_cmd e =
     (if has_index_buffer e
      then Draw_Indexed (ucast (element_count e)) (ucast (instance_count e)) 0 (ucast (base_vertex e)) 0
      else Draw_Vertices (ucast (element_count e)) (ucast (instance_count e)) (ucast (base_vertex e)) 0)"

definition reset_command :: "encoder \<Rightarrow> encoder" where
  "reset_command e =
     e\<lparr>en_ws := empty_workspace, instance_count := 1, base_vertex := 0, element_count := 0,
       has_index_buffer := False, has_label := False, bound_pipeline := None,
       pipeline_uses_input_attachments := False, immutable_sampler := None\<rparr>"

definition with_variant :: "pass_env \<Rightarrow> pipeline \<Rightarrow> encoder \<Rightarrow> pipeline option" where
  "with_variant env p e =
     (case immutable_sampler e of None \<Rightarrow> Some p | Some sm \<Rightarrow> variant_for env p sm)"

definition AllocateDescriptorSets :: "pass_env \<Rightarrow> pipeline \<Rightarrow> encoder \<Rightarrow> nat option" where
  "AllocateDescriptorSets env p e =
     (if \<not> rec_valid (en_rec e) then None else descriptor_set_for env (length (en_cmds e)) p)"

definition Draw :: "pass_env \<Rightarrow> encoder \<Rightarrow> bool \<times> encoder" where
  "Draw env e =
     (case bound_pipeline e of
        None \<Rightarrow> (False, e)
      | Some p0 \<Rightarrow> (case with_variant env p0 e of
          None \<Rightarrow> (False, e)
        | Some p \<Rightarrow>
            (let e0 = e\<lparr>bound_pipeline := Some p\<rparr>
             in case AllocateDescriptorSets env p e0 of
                  None \<Rightarrow> (False, e0)
                | Some ds \<Rightarrow>
                    let e1 = en_emit ([Bind_Pipeline (pl_id p), Update_Descriptors ds (read_writes (en_ws e0)),
                           Bind_Descriptor_Set (pl_layout p) ds] @
                         (if pipeline_uses_input_attachments e0
                          then [Input_Attachment_Barrier (tex_id (color_image e0)) input_attachment_barrier]
                          else []) @ [draw_cmd e0]) e0;
                        e2 = (if ogre_debug env \<and> has_label e1 then PopDebugGroup env e1 else e1)
                    in (True, reset_command e2))))"

definition EncodeCommands :: "encoder \<Rightarrow> bool \<times> encoder" where
  "EncodeCommands e = (True, en_emit [End_Pass] e)"

subsection \<open>Draws and what was bound since the last one\<close>

type_synonym binding = "nat \<times> nat \<times> resource"

definition fresh :: "encoder \<Rightarrow> bool" where
  "fresh e \<longleftrightarrow> en_ws e = empty_workspace \<and> instance_count e = 1 \<and> base_vertex e = 0 \<and> element_count e = 0 \<and>
     \<not> has_index_buffer e \<and> \<not> has_label e \<and> bound_pipeline e = None \<and>
     \<not> pipeline_uses_input_attachments e \<and> immutable_sampler e = None"

text \<open>What each successful call binds.\<close>

definition buffer_binding :: "nat \<Rightarrow> DescriptorType \<Rightarrow> buffer_view \<Rightarrow> binding" where
  "buffer_binding b ty view = (b, ToVKDescriptorType ty, Buffer_Resource
     \<lparr>bi_buffer = the (bv_GetBuffer view), bi_offset = ucast (roffset (bv_range view)),
      bi_range = rlength (bv_range view)\<rparr>)"

definition image_binding :: "nat \<Rightarrow> texture_vk \<Rightarrow> nat \<Rightarrow> binding" where
  "image_binding b t sm = (b, eCombinedImageSampler, Image_Resource
     \<lparr>ii_layout = eShaderReadOnlyOptimal, ii_sampler = Some sm, ii_view = tex_id t\<rparr>)"

definition input_binding :: "texture_vk \<Rightarrow> binding" where
  "input_binding t = (kMagicSubpassInputBinding, eInputAttachment, Image_Resource
     \<lparr>ii_layout = eGeneral, ii_sampler = None, ii_view = tex_id t\<rparr>)"

text \<open>
  The calls of a client, with the bindings that are pending as a second component. The last two
  rules are the draws.
\<close>

inductive pass_step :: "pass_env \<Rightarrow> encoder \<times> binding list \<Rightarrow> bool \<Rightarrow> encoder \<times> binding list \<Rightarrow> bool"
  for env where
  stencil: "pass_step env (e, bs) True (SetStencilReference v e, bs)"
| base: "pass_step env (e, bs) True (SetBaseVertex w e, bs)"
| elements: "pass_step env (e, bs) True (SetElementCount w e, bs)"
| instances: "pass_step env (e, bs) True (SetInstanceCount w e, bs)"
| scissor: "pass_step env (e, bs) True (SetScissor x y wd ht e, bs)"
| label: "pass_step env (e, bs) True (SetCommandLabel env l e, bs)"
| set_pipeline: "SetPipeline p e = Inr e' \<Longrightarrow> (case p of Some pl \<Rightarrow> \<not> pl_uses_input_attachments pl \<or>
      kMaxBindings \<le> length (image_workspace (en_ws e)) | None \<Rightarrow> True) \<Longrightarrow> pass_step env (e, bs) True (e', bs)"
| set_input_pipeline: "SetPipeline (Some pl) e = Inr e' \<Longrightarrow> pl_uses_input_attachments pl \<Longrightarrow>
     length (image_workspace (en_ws e)) < kMaxBindings \<Longrightarrow>
     pass_step env (e, bs) True (e', bs @ [input_binding (color_image e)])"
| vertices: "SetVertexBuffers vs e = Inr (ok, e') \<Longrightarrow> pass_step env (e, bs) ok (e', bs)"
| indices: "SetIndexBuffer view ty e = Inr (ok, e') \<Longrightarrow> pass_step env (e, bs) ok (e', bs)"
| vertex_buffer: "SetVertexBuffer vb e = Inr (ok, e') \<Longrightarrow> pass_step env (e, bs) ok (e', bs)"
| bind_buffer: "BindResource_buffer b dt view e = Inr (True, e') \<Longrightarrow>
     pass_step env (e, bs) True (e', bs @ [buffer_binding b dt view])"
| bind_no_buffer: "BindResource_buffer b dt view e = Inr (False, e') \<Longrightarrow> pass_step env (e, bs) False (e', bs)"
| bind_image: "BindResource_image env b (Some t) (Some sm) e = Inr (True, e') \<Longrightarrow>
     pass_step env (e, bs) True (e', bs @ [image_binding b t sm])"
| bind_no_image: "BindResource_image env b tex sampler e = Inr (False, e') \<Longrightarrow> pass_step env (e, bs) False (e', bs)"
| draw: "Draw env e = (True, e') \<Longrightarrow> pass_step env (e, bs) True (e', [])"
| no_draw: "Draw env e = (False, e') \<Longrightarrow> pass_step env (e, bs) False (e', bs)"

definition pass_inv :: "encoder \<times> binding list \<Rightarrow> bool" where
  "pass_inv x \<longleftrightarrow> workspace_ok (en_ws (fst x)) \<and> read_writes (en_ws (fst x)) = snd x"

definition pass_start :: "encoder \<times> binding list \<Rightarrow> bool" where
  "pass_start x \<longleftrightarrow> fresh (fst x) \<and> snd x = []"

text \<open>The calls that leave the workspace alone.\<close>

lemma en_ws_simps [simp]:
  "en_ws (en_emit cs e) = en_ws e" "en_ws (SetStencilReference v e) = en_ws e"
  "en_ws (SetBaseVertex w e) = en_ws e" "en_ws (SetElementCount w e) = en_ws e"
  "en_ws (SetInstanceCount w e) = en_ws e" "en_ws (SetScissor x y wd ht e) = en_ws e"
  "en_ws (PushDebugGroup env l e) = en_ws e" "en_ws (PopDebugGroup env e) = en_ws e"
  "en_ws (SetCommandLabel env l e) = en_ws e" "en_ws (snd (en_track f e)) = en_ws e"
  by (simp_all add: en_emit_def SetStencilReference_def SetBaseVertex_def SetElementCount_def
      SetInstanceCount_def SetScissor_def PushDebugGroup_def PopDebugGroup_def SetCommandLabel_def
      en_track_def case_prod_beta Let_def)

lemma take_vertex_buffers_ws: "take_vertex_buffers vs e = Inr (bs, e') \<Longrightarrow> en_ws e' = en_ws e"
proof (induction vs arbitrary: e bs e')
  case (Cons v vs)
  obtain bs2 where "take_vertex_buffers vs (case fst (bv_TakeBuffer v) of
                   None \<Rightarrow> e | Some d \<Rightarrow> snd (en_track (CommandBuffer_TrackBuffer (Some d)) e)) = Inr (bs2, e')"
    using Cons.prems by (auto simp: result_simps Let_def)
  from Cons.IH [OF this] show ?case by (simp split: option.splits)
qed simp

lemma SetVertexBuffers_ws: "SetVertexBuffers vs e = Inr (ok, e') \<Longrightarrow> en_ws e' = en_ws e"
  by (auto simp: SetVertexBuffers_def result_simps dest: take_vertex_buffers_ws split: if_splits)

lemma SetIndexBuffer_ws: "SetIndexBuffer view ty e = Inr (ok, e') \<Longrightarrow> en_ws e' = en_ws e"
  by (auto simp: SetIndexBuffer_def result_simps Let_def case_prod_beta split: if_splits)

lemma SetVertexBuffer_ws: "SetVertexBuffer vb e = Inr (ok, e') \<Longrightarrow> en_ws e' = en_ws e"
  by (auto simp: SetVertexBuffer_def result_simps dest!: SetVertexBuffers_ws SetIndexBuffer_ws split: if_splits)

lemma SetPipeline_ws:
  assumes "SetPipeline p e = Inr e'" and "workspace_ok (en_ws e)"
  shows "(case p of Some pl \<Rightarrow> \<not> pl_uses_input_attachments pl \<or>
      kMaxBindings \<le> length (image_workspace (en_ws e)) | None \<Rightarrow> True) \<Longrightarrow> en_ws e' = en_ws e"
    and "p = Some pl \<Longrightarrow> pl_uses_input_attachments pl \<Longrightarrow> length (image_workspace (en_ws e)) < kMaxBindings \<Longrightarrow>
      workspace_ok (en_ws e') \<and> read_writes (en_ws e') = read_writes (en_ws e) @ [input_binding (color_image e)]"
  using assms write_image_ok [OF assms(2)]
  by (auto simp: SetPipeline_def Let_def result_simps input_binding_def GetImageView_def
      split: option.splits if_splits)

lemma BindResource_buffer_ws:
  assumes "BindResource_buffer b dt view e = Inr (ok, e')" and "workspace_ok (en_ws e)"
  shows "if ok then workspace_ok (en_ws e') \<and> read_writes (en_ws e') = read_writes (en_ws e) @ [buffer_binding b dt view]
    else en_ws e' = en_ws e"
proof -
  have range: "bv_range (snd (bv_TakeBuffer view)) = bv_range view" by (simp add: bv_TakeBuffer_def)
  show ?thesis
    using assms write_buffer_ok [OF assms(2)]
    by (auto simp: BindResource_buffer_def Let_def result_simps buffer_binding_def deref_def of_option_def
        case_prod_beta range split: option.splits if_splits)
qed

lemma BindResource_image_ws:
  assumes "BindResource_image env b tex sampler e = Inr (ok, e')" and "workspace_ok (en_ws e)"
  shows "if ok then workspace_ok (en_ws e') \<and>
      read_writes (en_ws e') = read_writes (en_ws e) @ [image_binding b (the tex) (the sampler)]
    else en_ws e' = en_ws e"
  using assms write_image_ok [OF assms(2)]
  by (auto simp: BindResource_image_def Let_def result_simps image_binding_def case_prod_beta GetImageView_def
      split: option.splits if_splits)

lemma Draw_ws: "Draw env e = (ok, e') \<Longrightarrow> if ok then fresh e' else en_ws e' = en_ws e"
  by (auto simp: Draw_def fresh_def reset_command_def Let_def split: option.splits)

lemma pass_step_inv: "pass_step env x ok y \<Longrightarrow> pass_inv x \<Longrightarrow> pass_inv y"
proof (induction rule: pass_step.induct)
  case (set_pipeline p e e' bs)
  then show ?case using SetPipeline_ws(1) by (auto simp: pass_inv_def)
next
  case (set_input_pipeline pl e e' bs)
  then show ?case using SetPipeline_ws(2) by (auto simp: pass_inv_def)
next
  case (draw e e' bs)
  then show ?case using Draw_ws [OF draw(1)] by (simp add: pass_inv_def fresh_def)
next
  case (no_draw e e' bs)
  then show ?case using Draw_ws [OF no_draw(1)] by (simp add: pass_inv_def)
next
  case (bind_buffer b dt view e e' bs)
  then show ?case using BindResource_buffer_ws [OF bind_buffer(1)] by (simp add: pass_inv_def)
next
  case (bind_no_buffer b dt view e e' bs)
  then show ?case using BindResource_buffer_ws [OF bind_no_buffer(1)] by (simp add: pass_inv_def)
next
  case (bind_image b t sm e e' bs)
  then show ?case using BindResource_image_ws [OF bind_image(1)] by (simp add: pass_inv_def)
next
  case (bind_no_image b tex sampler e e' bs)
  then show ?case using BindResource_image_ws [OF bind_no_image(1)] by (simp add: pass_inv_def)
qed (auto simp: pass_inv_def dest: SetVertexBuffers_ws SetIndexBuffer_ws SetVertexBuffer_ws)

interpretation pass: transition_system pass_start "pass_step env" pass_inv for env
  by unfold_locales (auto simp: pass_start_def pass_inv_def fresh_def dest: pass_step_inv)

text \<open>
  C29: whatever is called on a render pass, a draw that succeeds records the pipeline, one update of
  the descriptor set with exactly the resources bound since the last successful draw, in the order
  in which they were bound, the set, and a draw of the counts that were set; an indexed draw if and
  only if an index buffer is set. After it nothing is left for the next command: a second draw
  without a pipeline is refused.
\<close>

theorem draws_use_what_was_bound:
  assumes "reachable_from pass_start (pass_step env) (e, pending)" and "Draw env e = (True, e')"
  shows "\<exists>p ds. AllocateDescriptorSets env p (e\<lparr>bound_pipeline := Some p\<rparr>) = Some ds \<and>
    en_cmds e' = en_cmds e @ [Bind_Pipeline (pl_id p), Update_Descriptors ds pending, Bind_Descriptor_Set (pl_layout p) ds] @
      (if pipeline_uses_input_attachments e
       then [Input_Attachment_Barrier (tex_id (color_image e)) input_attachment_barrier] else []) @
      [if has_index_buffer e
       then Draw_Indexed (ucast (element_count e)) (ucast (instance_count e)) 0 (ucast (base_vertex e)) 0
       else Draw_Vertices (ucast (element_count e)) (ucast (instance_count e)) (ucast (base_vertex e)) 0] @
      (if ogre_debug env \<and> has_label e \<and> has_validation_layers env then [End_Label] else []) \<and>
    fresh e' \<and> Draw env e' = (False, e')"
proof -
  have pending: "read_writes (en_ws e) = pending"
    using pass.reachable_inv [OF assms(1)] by (simp add: pass_inv_def)
  have fresh: "fresh e'" using Draw_ws [OF assms(2)] by simp
  then have again: "Draw env e' = (False, e')" by (simp add: Draw_def fresh_def)
  obtain p0 p ds where "bound_pipeline e = Some p0" "with_variant env p0 e = Some p"
      and ds: "AllocateDescriptorSets env p (e\<lparr>bound_pipeline := Some p\<rparr>) = Some ds"
    using assms(2) by (auto simp: Draw_def Let_def split: option.splits)
  with assms(2) have "en_cmds e' = en_cmds e @ [Bind_Pipeline (pl_id p), Update_Descriptors ds pending,
      Bind_Descriptor_Set (pl_layout p) ds] @
      (if pipeline_uses_input_attachments e
       then [Input_Attachment_Barrier (tex_id (color_image e)) input_attachment_barrier] else []) @
      [draw_cmd e] @ (if ogre_debug env \<and> has_label e \<and> has_validation_layers env then [End_Label] else [])"
    by (auto simp: Draw_def Let_def reset_command_def en_emit_def PopDebugGroup_def draw_cmd_def pending
        split: if_splits)
  with ds fresh again show ?thesis unfolding draw_cmd_def by blast
qed

definition example_recording :: recording where
  "example_recording = \<lparr>rec_valid = True, layout_of = (\<lambda>_. eUndefined), mipmap_generated = (\<lambda>_. False),
     cmds = [], tracked_buffers = [], tracked_textures = []\<rparr>"

definition example_encoder :: encoder where
  "example_encoder = \<lparr>en_rec = example_recording, en_cmds = [], color_image = example_resolved, current_stencil = 0,
     en_ws = empty_workspace, instance_count = 1, base_vertex = 0, element_count = 0, has_index_buffer = False,
     has_label = False, bound_pipeline = None, pipeline_uses_input_attachments = False,
     immutable_sampler = None\<rparr>"

definition example_env :: pass_env where
  "example_env = \<lparr>ogre_debug = True, has_validation_layers = True, variant_for = (\<lambda>p _. Some p),
     sampler_variant = (\<lambda>_ _. None), descriptor_set_for = (\<lambda>n _. Some n)\<rparr>"

definition example_pipeline :: pipeline where
  "example_pipeline = \<lparr>pl_id = 4, pl_layout = 8, pl_uses_input_attachments = False\<rparr>"

theorem draws_use_what_was_bound_witness:
  "\<exists>e e' b. reachable_from pass_start (pass_step example_env) (e, [b]) \<and> Draw example_env e = (True, e') \<and>
     b = (3, 6, Buffer_Resource \<lparr>bi_buffer = 7, bi_offset = 16, bi_range = 64\<rparr>) \<and>
     en_cmds e' = [Bind_Pipeline 4, Update_Descriptors 0 [b], Bind_Descriptor_Set 8 0, Draw_Vertices 6 1 0 0] \<and>
     Draw example_env e' = (False, e')"
proof -
  define e0 where "e0 = example_encoder"
  define e1 where "e1 = SetElementCount 6 (e0\<lparr>bound_pipeline := Some example_pipeline\<rparr>)"
  define view where "view = BufferView_shared (Some 7) \<lparr>roffset = 16, rlength = 64\<rparr>"
  obtain e2 where e2: "BindResource_buffer 3 DescriptorType.kUniformBuffer view e1 = Inr (True, e2)"
      and f: "en_cmds e2 = []" "has_index_buffer e2 = False" "element_count e2 = 6" "instance_count e2 = 1"
        "base_vertex e2 = 0" "bound_pipeline e2 = Some example_pipeline" "immutable_sampler e2 = None"
        "pipeline_uses_input_attachments e2 = False" "has_label e2 = False" "rec_valid (en_rec e2)"
    by (auto simp: BindResource_buffer_def e1_def e0_def view_def example_encoder_def BufferView_shared_def
        bv_GetBuffer_def bv_TakeBuffer_def deref_def en_track_def CommandBuffer_TrackBuffer_def TrackBuffer_def
        example_recording_def write_buffer_def push_unchecked_def empty_workspace_def kMaxBindings_def
        SetElementCount_def VK_NULL_HANDLE_def)
  have bind: "buffer_binding 3 DescriptorType.kUniformBuffer view =
      (3, 6, Buffer_Resource \<lparr>bi_buffer = 7, bi_offset = 16, bi_range = 64\<rparr>)" (is "_ = ?b")
    by (simp add: buffer_binding_def view_def BufferView_shared_def bv_GetBuffer_def ToVKDescriptorType_def)
  have "pass_start (e0, [])" by (simp add: pass_start_def fresh_def e0_def example_encoder_def)
  then have "reachable_from pass_start (pass_step example_env) (e0, [])" by (rule reach_start)
  moreover have "pass_step example_env (e0, []) True (e0\<lparr>bound_pipeline := Some example_pipeline\<rparr>, [])"
    by (rule set_pipeline [where p = "Some example_pipeline"])
      (simp_all add: SetPipeline_def example_pipeline_def e0_def example_encoder_def)
  ultimately have "reachable_from pass_start (pass_step example_env) (e0\<lparr>bound_pipeline := Some example_pipeline\<rparr>, [])"
    by (rule reach_step)
  then have "reachable_from pass_start (pass_step example_env) (e1, [])"
    unfolding e1_def by (rule reach_step) (rule elements)
  then have "reachable_from pass_start (pass_step example_env) (e2, [] @ [?b])"
    by (rule reach_step) (rule bind_buffer [OF e2, unfolded bind])
  then have reach: "reachable_from pass_start (pass_step example_env) (e2, [?b])" by simp
  have "fst (Draw example_env e2)"
    by (simp add: Draw_def f with_variant_def AllocateDescriptorSets_def example_env_def Let_def)
  then obtain e' where draw: "Draw example_env e2 = (True, e')" by (metis (full_types) prod.collapse)
  from draws_use_what_was_bound [OF reach draw] obtain p ds where
    p: "AllocateDescriptorSets example_env p (e2\<lparr>bound_pipeline := Some p\<rparr>) = Some ds"
    and c: "en_cmds e' = [Bind_Pipeline (pl_id p), Update_Descriptors ds [?b],
        Bind_Descriptor_Set (pl_layout p) ds, Draw_Vertices 6 1 0 0]"
    and again: "Draw example_env e' = (False, e')"
    by (auto simp: f)
  have "pl_id p = 4 \<and> pl_layout p = 8 \<and> ds = 0"
    using c draw by (auto simp: Draw_def f with_variant_def AllocateDescriptorSets_def example_env_def Let_def
        example_pipeline_def en_emit_def reset_command_def PopDebugGroup_def)
  then show ?thesis
    using reach draw c again by (intro exI [of _ e2] exI [of _ e'] exI [of _ ?b]) simp
qed

text \<open>
  An image is refused when 32 buffers are bound, not when 32 images are: the thirty-third image is
  stored past the end of the array.
\<close>

lemma image_overflow:
  assumes "length (image_workspace (en_ws e)) = kMaxBindings" and "length (buffer_workspace (en_ws e)) < kMaxBindings"
    and "tex_IsValid t" and "rec_valid (en_rec e)"
  shows "BindResource_image env b (Some t) (Some sm) e = Inl Undefined_Behaviour"
  using assms
  by (simp add: BindResource_image_def en_track_def CommandBuffer_Track_def CommandBuffer_TrackSource_def
      GetTextureSource_def tex_IsValid_def GetImageView_def write_image_def push_unchecked_def Let_def)

text \<open>Of two labels of one command only one is closed.\<close>

lemma second_label_stays_open:
  assumes "ogre_debug env" "has_validation_layers env"
  shows "en_cmds (SetCommandLabel env l2 (SetCommandLabel env l1 e)) = en_cmds e @ [Begin_Label l1, Begin_Label l2]"
    and "en_cmds (PopDebugGroup env e) = en_cmds e @ [End_Label]"
  using assms by (simp_all add: SetCommandLabel_def PushDebugGroup_def PopDebugGroup_def en_emit_def)

text \<open>A draw that fails keeps the bindings for the next one.\<close>

lemma failed_draw_keeps_bindings: "Draw env e = (False, e') \<Longrightarrow> en_ws e' = en_ws e"
  using Draw_ws [of env e False e'] by simp

end
