(* ===== verification/Render_Pass_Begin.thy ===== *)
theory Render_Pass_Begin
  imports Render_Pass
begin

text \<open>
  The constructor of a render pass (\<^verbatim>\<open>src/hal/render_pass_vk.cc\<close>) with the render pass and
  framebuffer that texture sources cache (\<^verbatim>\<open>src/hal/texture_source_vk.cc\<close>). Handles are
  numbers; the device is a pair of functions that create them. The initial viewport consists of
  floating point numbers and is left out.
\<close>

subsection \<open>Cached handles\<close>

record frame_data =
  fd_framebuffer :: "nat option"
  fd_render_pass :: "nat option"

definition no_frame_data :: frame_data where
  "no_frame_data = \<lparr>fd_framebuffer = None, fd_render_pass = None\<rparr>"

text \<open>The recording of the command buffer, the cached data of each source, the tracked handles.\<close>

record pass_world =
  pw_rec :: recording
  pw_frames :: "nat \<Rightarrow> nat \<Rightarrow> frame_data"
  pw_objects :: "nat list"

definition frame_slot :: "SampleCount \<Rightarrow> nat" where
  "frame_slot n = val_SampleCount n div 4"

definition GetCachedFrameData :: "texture_vk \<Rightarrow> SampleCount \<Rightarrow> pass_world \<Rightarrow> frame_data result" where
  "GetCachedFrameData t n w =
     (if has_source t then Inr (pw_frames w (tex_id t) (frame_slot n)) else Inl Undefined_Behaviour)"

definition SetCachedFrameData ::
  "texture_vk \<Rightarrow> frame_data \<Rightarrow> SampleCount \<Rightarrow> pass_world \<Rightarrow> pass_world result"
where
  "SetCachedFrameData t d n w =
     (if has_source t
      then Inr (w\<lparr>pw_frames := (pw_frames w)(tex_id t := (pw_frames w (tex_id t))(frame_slot n := d))\<rparr>)
      else Inl Undefined_Behaviour)"

definition CommandBuffer_TrackObject :: "nat \<Rightarrow> pass_world \<Rightarrow> bool \<times> pass_world" where
  "CommandBuffer_TrackObject h w =
     (if \<not> rec_valid (pw_rec w) then (False, w) else (True, w\<lparr>pw_objects := track (Some h) (pw_objects w)\<rparr>))"

subsection \<open>The constructor\<close>

record ('c, 'd) pass_device =
  create_render_pass :: "render_pass_info \<Rightarrow> nat option"
  create_framebuffer :: "framebuffer_info \<Rightarrow> nat option"
  is_swapchain_image :: "nat \<Rightarrow> bool"
  clear_black :: 'c
  clear_zero :: 'd

text \<open>A pass that was begun, with its encoder.\<close>

record ('c, 'd) begun_pass =
  bp_render_pass :: nat
  bp_framebuffer :: nat
  bp_width :: u32
  bp_height :: u32
  bp_clears :: "('c, 'd) clear_value list"
  bp_encoder :: encoder

definition track_attachment :: "unit attachment \<Rightarrow> recording \<Rightarrow> (bool \<times> recording) result" where
  "track_attachment a s =
     Inr (True, snd (CommandBuffer_Track (resolve_texture a) (snd (CommandBuffer_Track (texture a) s))))"

definition mip_preparation_barrier :: barrier where
  "mip_preparation_barrier = \<lparr>new_layout = eShaderReadOnlyOptimal, src_stage = {eBottomOfPipe}, src_access = {},
     dst_stage = {eFragmentShader}, dst_access = {eShaderRead}, base_mip_level = 1\<rparr>"

definition prepare_mips :: "texture_vk option \<Rightarrow> recording \<Rightarrow> recording result" where
  "prepare_mips resolve s =
     (case resolve of
        None \<Rightarrow> Inr s
      | Some r \<Rightarrow>
          if mip_count (tex_desc r) > 1 \<and> GetLayout r s = eUndefined
          then rbind (SetLayout mip_preparation_barrier r s) (\<lambda>(_, s'). Inr s')
          else Inr s)"

definition pass_layouts :: "bool \<Rightarrow> texture_vk \<Rightarrow> texture_vk option \<Rightarrow> recording \<Rightarrow> recording" where
  "pass_layouts is_swapchain color resolve s =
     (let s1 = (case resolve of None \<Rightarrow> s
                | Some r \<Rightarrow> snd (SetLayoutWithoutEncoding
                    (if is_swapchain then eGeneral else eShaderReadOnlyOptimal) r s))
      in snd (SetLayoutWithoutEncoding eGeneral color s1))"

definition new_encoder :: "texture_vk \<Rightarrow> size \<Rightarrow> recording \<Rightarrow> encoder" where
  "new_encoder color z s =
     \<lparr>en_rec = s, en_cmds = [Set_Scissor 0 0 (word_of_int (width z)) (word_of_int (height z)), Set_Stencil_Reference 0],
      color_image = color, current_stencil = 0, en_ws = empty_workspace, instance_count = 1, base_vertex = 0,
      element_count = 0, has_index_buffer = False, has_label = False, bound_pipeline = None,
      pipeline_uses_input_attachments = False, immutable_sampler = None\<rparr>"

text \<open>The answer \<open>None\<close> is a pass that is not valid.\<close>

definition RenderPass ::
  "('c, 'd) pass_device \<Rightarrow> ('c, 'd) render_target \<Rightarrow> pass_world \<Rightarrow>
   (('c, 'd) begun_pass option \<times> pass_world) result"
where
  "RenderPass dev t w =
     (let color0_att = GetColorAttachment (clear_black dev) 0 t;
          resolve = resolve_texture color0_att
      in rbind (deref (texture color0_att)) (\<lambda>color.
         rbind (IterateAllAttachments track_attachment t (pw_rec w)) (\<lambda>s1.
         let w1 = w\<lparr>pw_rec := s1\<rparr>;
             samples = sample_count (tex_desc color);
             cached = (case resolve of Some r \<Rightarrow> r | None \<Rightarrow> color);
             is_swapchain = is_swapchain_image dev (tex_id cached)
         in rbind (GetCachedFrameData cached samples w1) (\<lambda>data.
            rbind (GetRenderTargetSize t) (\<lambda>z.
            rbind (CreateVKRenderPass (create_render_pass dev) (\<lambda>x. GetLayout x s1)
                     (fd_render_pass data) is_swapchain t) (\<lambda>pass.
            case pass of None \<Rightarrow> Inr (None, w1)
            | Some p \<Rightarrow>
              rbind (if fd_framebuffer data = None then CreateVKFramebuffer (create_framebuffer dev) t
                     else Inr (fd_framebuffer data)) (\<lambda>framebuffer.
              case framebuffer of None \<Rightarrow> Inr (None, w1)
              | Some f \<Rightarrow>
                (let (ok1, w2) = CommandBuffer_TrackObject f w1
                 in if \<not> ok1 then Inr (None, w2)
                    else let (ok2, w3) = CommandBuffer_TrackObject p w2
                    in if \<not> ok2 then Inr (None, w3)
                    else rbind (SetCachedFrameData cached \<lparr>fd_framebuffer = Some f, fd_render_pass = Some p\<rparr> samples w3) (\<lambda>w4.
                         rbind (prepare_mips resolve (pw_rec w4)) (\<lambda>s2.
                         rbind (GetVKClearValues (clear_zero dev) t) (\<lambda>clears.
                         let s3 = pass_layouts is_swapchain color resolve s2
                         in Inr (Some \<lparr>bp_render_pass = p, bp_framebuffer = f, bp_width = word_of_int (width z),
                                bp_height = word_of_int (height z), bp_clears = clears,
                                bp_encoder = new_encoder color z s3\<rparr>,
                              w4\<lparr>pw_rec := s3\<rparr>))))))))))))"

subsection \<open>What a begun pass is\<close>

lemma track_layouts [simp]:
  "layout_of (snd (CommandBuffer_Track a s)) = layout_of s" "rec_valid (snd (CommandBuffer_Track a s)) = rec_valid s"
  by (auto simp: CommandBuffer_Track_def CommandBuffer_TrackSource_def split: option.splits)

lemma track_attachments:
  "\<exists>s'. iterate track_attachment as s = Inr (True, s') \<and> layout_of s' = layout_of s \<and> rec_valid s' = rec_valid s"
proof (induction as arbitrary: s)
  case (Cons a as)
  show ?case using Cons.IH [of "snd (CommandBuffer_Track (resolve_texture a) (snd (CommandBuffer_Track (texture a) s)))"]
    by (simp add: track_attachment_def)
qed simp

lemma track_all:
  "\<exists>s'. IterateAllAttachments track_attachment t s = Inr s' \<and> layout_of s' = layout_of s"
  using track_attachments [of "all_attachments t" s] by (auto simp: IterateAllAttachments_def)

lemma prepare_mips_layouts:
  "prepare_mips r s = Inr s' \<Longrightarrow> tex_id c \<noteq> tex_id (the r) \<or> r = None \<Longrightarrow> layout_of s' (tex_id c) = layout_of s (tex_id c)"
  by (auto simp: prepare_mips_def SetLayout_def SourceSetLayout_def emit_cmd_def Let_def result_simps
      split: option.splits if_splits)

lemma pass_layouts_at:
  assumes "has_source c" "\<And>r. res = Some r \<Longrightarrow> has_source r"
  shows "layout_of (pass_layouts sw c res s) (tex_id c) = eGeneral"
    and "res = Some r \<Longrightarrow> tex_id r \<noteq> tex_id c \<Longrightarrow>
      layout_of (pass_layouts sw c res s) (tex_id r) = (if sw then eGeneral else eShaderReadOnlyOptimal)"
  using assms by (auto simp: pass_layouts_def SetLayoutWithoutEncoding_def Let_def split: option.splits)

lemma color_slots:
  assumes "color0 t = Some a" "texture a = Some c"
  shows "ad_final_layout ((map (slot_desc l sw) (slot_plan (color_list t)) @ ds) ! 0) =
      ComputeFinalLayout sw (sample_count (tex_desc c))"
    and "resolve_texture a \<noteq> None \<Longrightarrow>
      ad_final_layout ((map (slot_desc l sw) (slot_plan (color_list t)) @ ds) ! 1) = ComputeFinalLayout sw kCount1"
  using assms by (auto simp: color_list_def slots_def slot_desc_def color_desc_of_def resolve_desc_of_def
      resolve_description_def color_description_def Let_def)

lemma RenderPass_begun:
  assumes ok: "rt_ok t" and c: "color0 t = Some a" "texture a = Some c"
    and fresh: "GetCachedFrameData k (sample_count (tex_desc c)) w = Inr no_frame_data"
    and k: "k = (case resolve_texture a of Some r \<Rightarrow> r | None \<Rightarrow> c)"
    and info: "CreateVKRenderPass (create_render_pass dev) (\<lambda>x. GetLayout x (pw_rec w)) None
      (is_swapchain_image dev (tex_id k)) t = Inr pass"
    and fb: "CreateVKFramebuffer (create_framebuffer dev) t = Inr framebuffer"
    and run: "RenderPass dev t w = Inr (Some bp, w')"
  shows "pass = Some (bp_render_pass bp) \<and> framebuffer = Some (bp_framebuffer bp) \<and>
    GetVKClearValues (clear_zero dev) t = Inr (bp_clears bp) \<and>
    pw_frames w' (tex_id k) (frame_slot (sample_count (tex_desc c))) =
      \<lparr>fd_framebuffer = Some (bp_framebuffer bp), fd_render_pass = Some (bp_render_pass bp)\<rparr> \<and>
    (\<exists>s z. pw_rec w' = pass_layouts (is_swapchain_image dev (tex_id k)) c (resolve_texture a) s \<and>
      bp_encoder bp = new_encoder c z (pw_rec w'))"
proof -
  obtain s1 where s1: "IterateAllAttachments track_attachment t (pw_rec w) = Inr s1" "layout_of s1 = layout_of (pw_rec w)"
    using track_all by blast
  have layouts: "(\<lambda>x. GetLayout x s1) = (\<lambda>x. GetLayout x (pw_rec w))"
    unfolding GetLayout_def s1(2) ..
  have src: "has_source k" using fresh by (simp add: GetCachedFrameData_def split: if_splits)
  have data: "GetCachedFrameData k (sample_count (tex_desc c)) (w\<lparr>pw_rec := s1\<rparr>) = Inr no_frame_data"
    using fresh by (simp add: GetCachedFrameData_def split: if_splits)
  have att: "GetColorAttachment (clear_black dev) 0 t = a" using c by (simp add: GetColorAttachment_def)
  obtain z where z: "GetRenderTargetSize t = Inr z"
    using c by (simp add: GetRenderTargetSize_def GetColorAttachmentSize_def deref_def)
  have d: "deref (texture a) = Inr c" using c by (simp add: deref_def)
  note tail = run [unfolded RenderPass_def att Let_def d rbind.simps s1(1) k [symmetric] data z layouts]
  obtain p f where pf: "pass = Some p" "framebuffer = Some f"
    using tail info fb by (cases pass; cases framebuffer) (simp_all add: no_frame_data_def)
  have valid: "rec_valid s1"
    using tail info fb pf by (cases "rec_valid s1") (simp_all add: no_frame_data_def CommandBuffer_TrackObject_def)
  show ?thesis
    using tail info fb pf valid src
    by (auto simp: no_frame_data_def CommandBuffer_TrackObject_def SetCachedFrameData_def result_simps)
qed

text \<open>
  C30: a pass that begins on a texture without cached handles is the render pass that the builder
  describes for the target, with a framebuffer of the views of the target and a clear value for
  every attachment; both handles are cached for the next pass, and nothing is bound yet. The layout
  that the resolve texture then remembers is the one the render pass leaves it in. For the color
  texture that is so exactly when it is multisampled or an image of the swapchain: a single sampled
  offscreen texture remembers the general layout although the pass ends with it being readable by
  shaders.
\<close>

theorem begun_pass_layouts:
  fixes t :: "('c, 'd) render_target" and dev :: "('c, 'd) pass_device"
  assumes "reachable_from (\<lambda>t. t = RenderTarget) rt_step t"
    and few: "length (color_list t) \<le> kMaxColorAttachments"
    and c: "color0 t = Some a" "texture a = Some c" and k: "k = (case resolve_texture a of Some r \<Rightarrow> r | None \<Rightarrow> c)"
    and cached: "GetCachedFrameData k (sample_count (tex_desc c)) w = Inr no_frame_data"
    and run: "RenderPass dev t w = Inr (Some bp, w')"
  shows "\<exists>b info views. pass_builder (\<lambda>x. GetLayout x (pw_rec w)) (is_swapchain_image dev (tex_id k)) t = Inr b \<and>
    Build_info b = Inr info \<and> framebuffer_views t = Inr views \<and>
    create_render_pass dev info = Some (bp_render_pass bp) \<and>
    create_framebuffer dev \<lparr>fb_width = word_of_int (width (tex_GetSize c)),
      fb_height = word_of_int (height (tex_GetSize c)), fb_views = views\<rparr> = Some (bp_framebuffer bp) \<and>
    length (bp_clears bp) = length (rp_attachments info) \<and>
    GetCachedFrameData k (sample_count (tex_desc c)) w' =
      Inr \<lparr>fd_framebuffer = Some (bp_framebuffer bp), fd_render_pass = Some (bp_render_pass bp)\<rparr> \<and>
    fresh (bp_encoder bp) \<and>
    (\<forall>r. resolve_texture a = Some r \<and> tex_id r \<noteq> tex_id c \<longrightarrow>
       layout_of (pw_rec w') (tex_id r) = ad_final_layout (rp_attachments info ! 1)) \<and>
    (layout_of (pw_rec w') (tex_id c) = ad_final_layout (rp_attachments info ! 0) \<longleftrightarrow>
       is_swapchain_image dev (tex_id k) \<or> sample_count (tex_desc c) \<noteq> kCount1)"
proof -
  let ?l = "\<lambda>x. GetLayout x (pw_rec w)" and ?sw = "is_swapchain_image dev (tex_id k)"
  have ok: "rt_ok t" by (rule rt.reachable_inv [OF assms(1)])
  have a: "att_IsValid a" using ok c(1) by (simp add: rt_ok_def)
  have src: "has_source c" "\<And>r. resolve_texture a = Some r \<Longrightarrow> has_source r"
    using valid_sources [OF a] c(2) by auto
  obtain b where b: "pass_builder ?l ?sw t = Inr b" using pass_builder_ok [OF ok] by blast
  note Build = Build_info_ok [OF ok few b] and views = framebuffer_views_ok [OF ok few]
  define info where "info = projr (Build_info b)"
  have info: "Build_info b = Inr info" unfolding info_def Build by simp
  define vs where "vs = projr (framebuffer_views t)"
  have vs: "framebuffer_views t = Inr vs" unfolding vs_def views by simp
  have pass: "CreateVKRenderPass (create_render_pass dev) ?l None ?sw t = Inr (create_render_pass dev info)"
    by (simp add: CreateVKRenderPass_def b Build_def info)
  have fb: "CreateVKFramebuffer (create_framebuffer dev) t = Inr (create_framebuffer dev
      \<lparr>fb_width = word_of_int (width (tex_GetSize c)), fb_height = word_of_int (height (tex_GetSize c)), fb_views = vs\<rparr>)"
    using c by (simp add: CreateVKFramebuffer_def vs GetRenderTargetSize_def GetColorAttachmentSize_def deref_def)
  note begun = RenderPass_begun [OF ok c cached k pass fb run]
  then obtain s z where s: "pw_rec w' = pass_layouts ?sw c (resolve_texture a) s" "bp_encoder bp = new_encoder c z (pw_rec w')"
    by blast
  have atts: "rp_attachments info = map (slot_desc ?l ?sw) (slot_plan (color_list t)) @ opt_list (depth_stencil_desc t)"
    using Build info by simp
  have "length (bp_clears bp) = length (slot_plan (color_list t)) + length (opt_list (depth_stencil t))"
    using begun [THEN conjunct2, THEN conjunct2, THEN conjunct1] clear_values_ok [OF few, of "clear_zero dev"]
      depth_stencil_lengths(2) [of "clear_zero dev" t] by (metis Inr_inject length_append length_map)
  then have clears: "length (bp_clears bp) = length (rp_attachments info)"
    by (simp add: atts depth_stencil_lengths(1))
  have "layout_of (pw_rec w') (tex_id r) = ad_final_layout (rp_attachments info ! 1)"
    if "resolve_texture a = Some r" "tex_id r \<noteq> tex_id c" for r
    using that pass_layouts_at(2) [OF src that] color_slots(2) [OF c, of ?l ?sw] atts
    by (simp add: s(1) ComputeFinalLayout_def)
  moreover have "layout_of (pw_rec w') (tex_id c) = ad_final_layout (rp_attachments info ! 0) \<longleftrightarrow>
       ?sw \<or> sample_count (tex_desc c) \<noteq> kCount1"
    using pass_layouts_at(1) [OF src] color_slots(1) [OF c, of ?l ?sw] atts
    by (simp add: s(1) ComputeFinalLayout_def)
  moreover have "fresh (bp_encoder bp)" by (simp add: s(2) fresh_def new_encoder_def)
  moreover have "GetCachedFrameData k (sample_count (tex_desc c)) w' =
      Inr \<lparr>fd_framebuffer = Some (bp_framebuffer bp), fd_render_pass = Some (bp_render_pass bp)\<rparr>"
    using begun cached by (simp add: GetCachedFrameData_def split: if_splits)
  ultimately show ?thesis using b info vs begun clears by blast
qed

definition example_device :: "(nat, nat) pass_device" where
  "example_device = \<lparr>create_render_pass = (\<lambda>info. Some (length (rp_attachments info))),
     create_framebuffer = (\<lambda>f. Some (length (fb_views f) + 100)), is_swapchain_image = (\<lambda>_. False),
     clear_black = 0, clear_zero = 0\<rparr>"

definition example_world :: pass_world where
  "example_world = \<lparr>pw_rec = example_recording, pw_frames = (\<lambda>_ _. no_frame_data), pw_objects = []\<rparr>"

lemma example_begins:
  "case RenderPass example_device example_target example_world of
     Inr (Some bp, w') \<Rightarrow> bp_render_pass bp = 4 \<and> bp_framebuffer bp = 104 | _ \<Rightarrow> False"
  by code_simp

theorem begun_pass_layouts_witness:
  "\<exists>bp w' (info :: render_pass_info). RenderPass example_device example_target example_world = Inr (Some bp, w') \<and>
     bp_render_pass bp = 4 \<and> length (bp_clears bp) = length (rp_attachments info) \<and> fresh (bp_encoder bp) \<and>
     layout_of (pw_rec w') 5 = ad_final_layout (rp_attachments info ! 1) \<and>
     layout_of (pw_rec w') 2 = ad_final_layout (rp_attachments info ! 0)"
proof -
  obtain bp w' where run: "RenderPass example_device example_target example_world = Inr (Some bp, w')"
      and bp: "bp_render_pass bp = 4"
    using example_begins by (auto split: sum.splits prod.splits option.splits)
  define a :: "nat attachment" where "a = default_attachment 7\<lparr>texture := Some example_multisampled,
        resolve_texture := Some example_resolved, store_action := StoreAction.kMultisampleResolve\<rparr>"
  have c: "color0 example_target = Some a"
    by (simp add: example_target_def a_def SetDepthAttachment_def SetColorAttachment_def att_IsValid_def
        default_attachment_def tex_IsValid_def example_multisampled_def example_resolved_def RenderTarget_def)
  have tex: "texture a = Some example_multisampled" "resolve_texture a = Some example_resolved"
    by (simp_all add: a_def)
  have few: "length (color_list example_target) \<le> kMaxColorAttachments"
    by code_simp
  have cached: "GetCachedFrameData example_resolved (sample_count (tex_desc example_multisampled)) example_world = Inr no_frame_data"
    by (simp add: GetCachedFrameData_def example_resolved_def example_world_def)
  have k: "example_resolved = (case resolve_texture a of Some r \<Rightarrow> r | None \<Rightarrow> example_multisampled)"
    by (simp add: tex)
  have ids: "tex_id example_resolved = 5" "tex_id example_multisampled = 2"
      "sample_count (tex_desc example_multisampled) = kCount4"
    by (simp_all add: example_multisampled_def example_resolved_def)
  from begun_pass_layouts [OF example_target_reachable few c tex(1) k cached run] obtain info :: render_pass_info where
    info: "length (bp_clears bp) = length (rp_attachments info)" "fresh (bp_encoder bp)"
    and r: "\<forall>r. resolve_texture a = Some r \<and> tex_id r \<noteq> tex_id example_multisampled \<longrightarrow>
      layout_of (pw_rec w') (tex_id r) = ad_final_layout (rp_attachments info ! 1)"
    and color: "layout_of (pw_rec w') (tex_id example_multisampled) = ad_final_layout (rp_attachments info ! 0) \<longleftrightarrow>
      is_swapchain_image example_device (tex_id example_resolved) \<or>
      sample_count (tex_desc example_multisampled) \<noteq> kCount1"
    by blast
  have "layout_of (pw_rec w') 5 = ad_final_layout (rp_attachments info ! 1)"
    using r [rule_format, of example_resolved] by (simp add: ids tex)
  moreover have "layout_of (pw_rec w') 2 = ad_final_layout (rp_attachments info ! 0)"
    using color by (simp add: ids)
  ultimately show ?thesis using run bp info by blast
qed

end
