(* ===== verification/Compute_Pass.thy ===== *)
theory Compute_Pass
  imports Resource_Binder
begin

text \<open>
  Compute passes: \<^verbatim>\<open>src/hal/compute_pass_vk.{h,cc}\<close>. The work group sizes of the device
  and the descriptor sets that are allocated are arguments. The loops that halve the size of a
  dispatch need not end, so the size they leave is optional.
\<close>

subsection \<open>State\<close>

record compute_pipeline =
  cpl_id :: nat
  cpl_layout :: nat

datatype compute_cmd =
    Bind_Compute_Pipeline nat
  | Update_Compute_Descriptors nat "(nat \<times> nat \<times> resource) list"
  | Bind_Compute_Set nat nat
  | Dispatch u32 u32 u32
  | Begin_Compute_Label string
  | End_Compute_Label
  | Compute_Barrier "VkPipelineStage set" "VkPipelineStage set" "VkAccess set" "VkAccess set"

record compute_pass =
  cm_rec :: recording
  cm_cmds :: "compute_cmd list"
  max_wg_size :: "u32 \<times> u32"
  cm_ws :: workspace
  cm_has_label :: bool
  pipeline_valid :: bool
  cm_descriptor_set :: nat
  cm_pipeline_layout :: nat

record compute_env =
  cm_debug :: bool
  cm_validation :: bool
  cm_set_for :: "nat \<Rightarrow> compute_pipeline \<Rightarrow> nat option"

definition ComputePass :: "recording \<Rightarrow> u32 \<times> u32 \<Rightarrow> compute_pass" where
  "ComputePass r wg = \<lparr>cm_rec = r, cm_cmds = [], max_wg_size = wg, cm_ws = empty_workspace, cm_has_label = False,
     pipeline_valid = False, cm_descriptor_set = 0, cm_pipeline_layout = 0\<rparr>"

definition cm_emit :: "compute_cmd list \<Rightarrow> compute_pass \<Rightarrow> compute_pass" where
  "cm_emit cs p = p\<lparr>cm_cmds := cm_cmds p @ cs\<rparr>"

definition cm_SetCommandLabel :: "compute_env \<Rightarrow> string \<Rightarrow> compute_pass \<Rightarrow> compute_pass" where
  "cm_SetCommandLabel env l p =
     (if cm_debug env
      then (if cm_validation env then cm_emit [Begin_Compute_Label l] p else p)\<lparr>cm_has_label := True\<rparr>
      else p)"

definition cm_AllocateDescriptorSets :: "compute_env \<Rightarrow> compute_pipeline \<Rightarrow> compute_pass \<Rightarrow> nat option" where
  "cm_AllocateDescriptorSets env pl p =
     (if \<not> rec_valid (cm_rec p) then None else cm_set_for env (length (cm_cmds p)) pl)"

definition cm_SetPipeline :: "compute_env \<Rightarrow> compute_pipeline \<Rightarrow> compute_pass \<Rightarrow> compute_pass" where
  "cm_SetPipeline env pl p =
     (let p1 = (cm_emit [Bind_Compute_Pipeline (cpl_id pl)] p)\<lparr>cm_pipeline_layout := cpl_layout pl\<rparr>
      in case cm_AllocateDescriptorSets env pl p1 of
           None \<Rightarrow> p1
         | Some ds \<Rightarrow> p1\<lparr>cm_descriptor_set := ds, pipeline_valid := True\<rparr>)"

subsection \<open>Resources\<close>

definition cm_track :: "(recording \<Rightarrow> bool \<times> recording) \<Rightarrow> compute_pass \<Rightarrow> bool \<times> compute_pass" where
  "cm_track f p = (let (ok, r) = f (cm_rec p) in (ok, p\<lparr>cm_rec := r\<rparr>))"

definition cm_BindResource_image ::
  "nat \<Rightarrow> DescriptorType \<Rightarrow> texture_vk option \<Rightarrow> nat option \<Rightarrow> compute_pass \<Rightarrow> (bool \<times> compute_pass) result"
where
  "cm_BindResource_image binding type tex sampler p =
     (if kMaxBindings \<le> length (image_workspace (cm_ws p)) then Inr (False, p)
      else rbind (deref tex) (\<lambda>t.
        if \<not> tex_IsValid t \<or> sampler = None then Inr (False, p)
        else
          let (ok, p1) = cm_track (CommandBuffer_Track tex) p
          in if \<not> ok then Inr (False, p1)
             else rbind (write_image binding (ToVKDescriptorType type)
               \<lparr>ii_layout = eShaderReadOnlyOptimal, ii_sampler = sampler, ii_view = tex_id t\<rparr> (cm_ws p1)) (\<lambda>ws.
               Inr (True, p1\<lparr>cm_ws := ws\<rparr>))))"

definition cm_BindResource_buffer ::
  "nat \<Rightarrow> DescriptorType \<Rightarrow> buffer_view \<Rightarrow> compute_pass \<Rightarrow> (bool \<times> compute_pass) result"
where
  "cm_BindResource_buffer binding type view p =
     (if kMaxBindings \<le> length (buffer_workspace (cm_ws p)) then Inr (False, p)
      else rbind (deref (bv_GetBuffer view)) (\<lambda>buffer.
        if buffer = VK_NULL_HANDLE then Inr (False, p)
        else let (taken, view') = bv_TakeBuffer view;
            (ok, p1) = (if taken = None then (True, p) else cm_track (CommandBuffer_TrackBuffer taken) p)
        in if \<not> ok then Inr (False, p1)
           else rbind (write_buffer binding (ToVKDescriptorType type)
                  \<lparr>bi_buffer = buffer, bi_offset = ucast (roffset (bv_range view')),
                   bi_range = rlength (bv_range view')\<rparr> (cm_ws p1)) (\<lambda>ws.
             Inr (True, p1\<lparr>cm_ws := ws\<rparr>))))"

subsection \<open>Dispatch\<close>

text \<open>A size as long as it is larger than the limit; the division truncates.\<close>

partial_function (option) halve :: "int \<Rightarrow> int \<Rightarrow> int option" where
  "halve limit n = (if n > limit then halve limit (max 1 (cdiv n 2)) else Some n)"

definition dispatch_size :: "u32 \<times> u32 \<Rightarrow> size \<Rightarrow> (u32 \<times> u32 \<times> u32) option" where
  "dispatch_size wg grid =
     (if height grid = 1 then Some (word_of_int (width grid), 1, 1)
      else Option.bind (halve (uint (fst wg)) (width grid)) (\<lambda>w.
           Option.bind (halve (uint (snd wg)) (height grid)) (\<lambda>h.
           Some (word_of_int w, word_of_int h, 1))))"

definition reset_compute :: "compute_pass \<Rightarrow> compute_pass" where
  "reset_compute p = p\<lparr>cm_ws := empty_workspace, cm_has_label := False, pipeline_valid := False\<rparr>"

definition Compute :: "compute_env \<Rightarrow> size \<Rightarrow> compute_pass \<Rightarrow> (bool \<times> compute_pass) option" where
  "Compute env grid p =
     (if size_IsEmpty grid \<or> \<not> pipeline_valid p then Some (False, reset_compute p)
      else Option.bind (dispatch_size (max_wg_size p) grid) (\<lambda>(x, y, z).
        Some (True, reset_compute (cm_emit
          ([Update_Compute_Descriptors (cm_descriptor_set p) (read_writes (cm_ws p)),
            Bind_Compute_Set (cm_pipeline_layout p) (cm_descriptor_set p), Dispatch x y z] @
           (if cm_debug env \<and> cm_has_label p \<and> cm_validation env then [End_Compute_Label] else [])) p))))"

definition AddBufferMemoryBarrier :: "compute_pass \<Rightarrow> compute_pass" where
  "AddBufferMemoryBarrier p = cm_emit [Compute_Barrier {eComputeShader} {eComputeShader} {eShaderWrite} {eShaderRead}] p"

definition AddTextureMemoryBarrier :: "compute_pass \<Rightarrow> compute_pass" where
  "AddTextureMemoryBarrier p = cm_emit [Compute_Barrier {eComputeShader} {eComputeShader} {eShaderWrite} {eShaderRead}] p"

definition cm_EncodeCommands :: "compute_pass \<Rightarrow> bool \<times> compute_pass" where
  "cm_EncodeCommands p =
     (True, cm_emit [Compute_Barrier {eComputeShader} {eVertexInput} {eShaderWrite} {eIndexRead, eVertexAttributeRead}] p)"

subsection \<open>How far a size is halved\<close>

lemma halve_small: "n \<le> limit \<Longrightarrow> halve limit n = Some n"
  by (subst halve.simps) simp

lemma halve_step: "limit < n \<Longrightarrow> 1 \<le> limit \<Longrightarrow> halve limit n = halve limit (n div 2)"
  by (subst halve.simps) (simp add: cdiv_nonneg)

lemma halve_power:
  assumes "1 \<le> limit" "0 \<le> n"
  shows "\<exists>k. halve limit n = Some (n div 2 ^ k) \<and> n div 2 ^ k \<le> limit \<and> (\<forall>j < k. limit < n div 2 ^ j)"
  using assms
proof (induction "nat n" arbitrary: n rule: less_induct)
  case less
  show ?case
  proof (cases "limit < n")
    case True
    have "nat (n div 2) < nat n" using True less.prems by simp
    then obtain k where k: "halve limit (n div 2) = Some (n div 2 div 2 ^ k)" "n div 2 div 2 ^ k \<le> limit"
        "\<forall>j < k. limit < n div 2 div 2 ^ j"
      using less.hyps [of "n div 2"] less.prems by auto
    have div: "n div 2 div 2 ^ i = n div 2 ^ Suc i" for i by (simp add: zdiv_zmult2_eq)
    have "\<forall>j < Suc k. limit < n div 2 ^ j"
      using k(3) True div by (auto simp: less_Suc_eq_0_disj)
    then show ?thesis using k(1,2) halve_step [OF True less.prems(1)] div by (intro exI [of _ "Suc k"]) simp
  next
    case False
    then show ?thesis using halve_small [of n limit] by (intro exI [of _ 0]) simp
  qed
qed

lemma halve_pos:
  assumes "1 \<le> limit" "1 \<le> n" "halve limit n = Some m"
  shows "1 \<le> m \<and> m \<le> limit"
proof -
  obtain k where k: "halve limit n = Some (n div 2 ^ k)" "n div 2 ^ k \<le> limit" "\<forall>j < k. limit < n div 2 ^ j"
    using halve_power [of limit n] assms(1,2) by auto
  have "1 \<le> n div 2 ^ k"
  proof (cases k)
    case (Suc j)
    then have "limit < n div 2 ^ j" using k(3) by simp
    then have "1 \<le> n div 2 ^ j div 2" using assms(1) by simp
    moreover have "n div 2 ^ k = n div 2 ^ j div 2"
      using zdiv_zmult2_eq [of 2 n "2 ^ j"] by (simp add: Suc mult.commute)
    ultimately show ?thesis by simp
  qed (use assms in simp)
  with k assms(3) show ?thesis by simp
qed

text \<open>With a limit of zero the loop does not end.\<close>

lemma halve_zero_no_value: "halve limit n = Some m \<Longrightarrow> \<not> (limit = 0 \<and> 1 \<le> n)"
  by (erule halve.raw_induct [of "\<lambda>limit n m. \<not> (limit = 0 \<and> 1 \<le> n)", rotated]) (fastforce split: if_splits)

lemma halve_zero_limit: "halve 0 n = (if n \<le> 0 then Some n else None)"
  using halve_zero_no_value [of 0 n] halve_small [of n 0] by (cases "halve 0 n") auto

text \<open>
  C31: on a device whose work groups are not empty a dispatch of a grid with sides from 1 to 2^32 - 1
  always returns, and a grid of more than one row is halved in each direction just as often as it takes to fit the limit: the size is the
  grid divided by the least power of two that makes it fit, and never zero. A grid of one row is
  not reduced: it is dispatched as wide as it is, whatever the limit.
\<close>

theorem dispatch_terminates:
  assumes grid: "0 < width grid" "0 < height grid" "width grid < 2 ^ 32" "height grid < 2 ^ 32"
    and limits: "0 < fst (max_wg_size p)" "0 < snd (max_wg_size p)" and valid: "pipeline_valid p"
  shows "\<exists>w h p'. Compute env grid p = Some (True, p') \<and>
    cm_cmds p' = cm_cmds p @ [Update_Compute_Descriptors (cm_descriptor_set p) (read_writes (cm_ws p)),
      Bind_Compute_Set (cm_pipeline_layout p) (cm_descriptor_set p), Dispatch (word_of_int w) (word_of_int h) 1] @
      (if cm_debug env \<and> cm_has_label p \<and> cm_validation env then [End_Compute_Label] else []) \<and>
    1 \<le> w \<and> 1 \<le> h \<and> \<not> pipeline_valid p' \<and> cm_ws p' = empty_workspace \<and>
    (if height grid = 1 then w = width grid \<and> h = 1
     else w \<le> uint (fst (max_wg_size p)) \<and> h \<le> uint (snd (max_wg_size p)) \<and>
       (\<exists>i. w = width grid div 2 ^ i \<and> (\<forall>j < i. uint (fst (max_wg_size p)) < width grid div 2 ^ j)) \<and>
       (\<exists>i. h = height grid div 2 ^ i \<and> (\<forall>j < i. uint (snd (max_wg_size p)) < height grid div 2 ^ j)))"
proof -
  have lim: "1 \<le> uint (fst (max_wg_size p))" "1 \<le> uint (snd (max_wg_size p))"
    using limits by (simp_all add: word_less_def)
  have run: "\<not> (size_IsEmpty grid \<or> \<not> pipeline_valid p)" using grid valid by (simp add: size_IsEmpty_def)
  note Compute = Compute_def [of env grid p, unfolded if_not_P [OF run]]
  show ?thesis
  proof (cases "height grid = 1")
    case True
    then show ?thesis
      using grid by (intro exI [of _ "width grid"] exI [of _ 1])
        (simp add: Compute dispatch_size_def reset_compute_def cm_emit_def)
  next
    case False
    obtain i where i: "halve (uint (fst (max_wg_size p))) (width grid) = Some (width grid div 2 ^ i)"
        "width grid div 2 ^ i \<le> uint (fst (max_wg_size p))"
        "\<forall>j < i. uint (fst (max_wg_size p)) < width grid div 2 ^ j"
      using halve_power [OF lim(1), of "width grid"] grid by auto
    obtain k where k: "halve (uint (snd (max_wg_size p))) (height grid) = Some (height grid div 2 ^ k)"
        "height grid div 2 ^ k \<le> uint (snd (max_wg_size p))"
        "\<forall>j < k. uint (snd (max_wg_size p)) < height grid div 2 ^ j"
      using halve_power [OF lim(2), of "height grid"] grid by auto
    have pos: "1 \<le> width grid div 2 ^ i" "1 \<le> height grid div 2 ^ k"
      using halve_pos [OF lim(1) _ i(1)] halve_pos [OF lim(2) _ k(1)] grid by auto
    have size: "dispatch_size (max_wg_size p) grid =
        Some (word_of_int (width grid div 2 ^ i), word_of_int (height grid div 2 ^ k), 1)"
      using False i(1) k(1) by (simp add: dispatch_size_def)
    show ?thesis
      using False i(2,3) k(2,3) pos
      by (intro exI [of _ "width grid div 2 ^ i"] exI [of _ "height grid div 2 ^ k"])
        (auto simp: Compute size reset_compute_def cm_emit_def)
  qed
qed

theorem dispatch_terminates_witness:
  "\<exists>p'. Compute \<lparr>cm_debug = False, cm_validation = False, cm_set_for = (\<lambda>_ _. None)\<rparr> \<lparr>width = 1000, height = 5\<rparr>
     ((ComputePass \<lparr>rec_valid = True, layout_of = (\<lambda>_. eUndefined), mipmap_generated = (\<lambda>_. False), cmds = [],
        tracked_buffers = [], tracked_textures = []\<rparr> (128, 128))\<lparr>pipeline_valid := True\<rparr>) = Some (True, p') \<and>
     \<not> pipeline_valid p' \<and> cm_ws p' = empty_workspace"
  using dispatch_terminates [of "\<lparr>width = 1000, height = 5\<rparr>" "(ComputePass \<lparr>rec_valid = True,
        layout_of = (\<lambda>_. eUndefined), mipmap_generated = (\<lambda>_. False), cmds = [],
        tracked_buffers = [], tracked_textures = []\<rparr> (128, 128))\<lparr>pipeline_valid := True\<rparr>"
      "\<lparr>cm_debug = False, cm_validation = False, cm_set_for = (\<lambda>_ _. None)\<rparr>"]
  by (auto simp: ComputePass_def)

text \<open>On a device that reports a limit of zero the loop runs forever.\<close>

lemma zero_limit_never_returns:
  assumes "pipeline_valid p" "0 < width grid" "1 < height grid" "fst (max_wg_size p) = 0"
  shows "Compute env grid p = None"
  using assms by (simp add: Compute_def size_IsEmpty_def dispatch_size_def halve_zero_limit)

text \<open>A grid of one row is not compared with the limit.\<close>

lemma wide_row_exceeds_limit:
  "dispatch_size (128, 128) \<lparr>width = 1000, height = 1\<rparr> = Some (1000, 1, 1)"
  by (simp add: dispatch_size_def)

end
