(* ===== verification/Context_Vk.thy ===== *)
theory Context_Vk
  imports Capabilities_Props
begin

text \<open>
  The setup of the rendering context: \<^verbatim>\<open>src/hal/context_vk.{h,cc}\<close> with the queues of
  \<^verbatim>\<open>src/hal/queue_vk.{h,cc}\<close>.

  The setup asks the capabilities for a device, picks a queue for each kind of work, creates the
  logical device with the queues and extensions it needs and applies the workarounds of the driver.
  What the instance and the devices answer is a record; the names of the errors are those of the
  messages that the code logs before it returns.
\<close>

subsection \<open>Queues\<close>

record queue_index =
  family :: nat
  qindex :: nat

text \<open>
  A \<open>Queue\<close> object and the three shared pointers of \<open>QueuesVK\<close>, as positions in the list of the
  objects that were created.
\<close>

record queue_object =
  q_index :: queue_index
  q_handle :: nat

record queues_vk =
  queue_objects :: "queue_object list"
  graphics_queue :: "nat option"
  compute_queue :: "nat option"
  transfer_queue :: "nat option"

definition FromEmbedderQueue :: "nat \<Rightarrow> nat \<Rightarrow> queues_vk" where
  "FromEmbedderQueue queue queue_family_index =
     \<lparr>queue_objects = [\<lparr>q_index = \<lparr>family = queue_family_index, qindex = 0\<rparr>, q_handle = queue\<rparr>],
      graphics_queue = Some 0, compute_queue = Some 0, transfer_queue = Some 0\<rparr>"

definition FromQueueIndices ::
  "(queue_index \<Rightarrow> nat) \<Rightarrow> queue_index \<Rightarrow> queue_index \<Rightarrow> queue_index \<Rightarrow> queues_vk"
where
  "FromQueueIndices getQueue graphics compute transfer =
     (let vk_graphics = getQueue graphics;
          vk_compute = getQueue compute;
          vk_transfer = getQueue transfer;
          objects = [\<lparr>q_index = graphics, q_handle = vk_graphics\<rparr>];
          graphics_q = 0;
          (compute_q, objects) =
            (if compute = graphics then (graphics_q, objects)
             else (length objects, objects @ [\<lparr>q_index = compute, q_handle = vk_compute\<rparr>]));
          (transfer_q, objects) =
            (if transfer = graphics then (graphics_q, objects)
             else if transfer = compute then (compute_q, objects)
             else (length objects, objects @ [\<lparr>q_index = transfer, q_handle = vk_transfer\<rparr>]))
      in \<lparr>queue_objects = objects, graphics_queue = Some graphics_q,
          compute_queue = Some compute_q, transfer_queue = Some transfer_q\<rparr>)"

definition QueuesVK_IsValid :: "queues_vk \<Rightarrow> bool" where
  "QueuesVK_IsValid q \<longleftrightarrow>
     graphics_queue q \<noteq> None \<and> compute_queue q \<noteq> None \<and> transfer_queue q \<noteq> None"

subsection \<open>Picking\<close>

text \<open>The first device the capabilities accept.\<close>

fun PickPhysicalDevice ::
  "bool \<Rightarrow> (extension_macro \<Rightarrow> string) \<Rightarrow> capabilities \<Rightarrow> physical_device list \<Rightarrow>
   physical_device option"
where
  "PickPhysicalDevice android vk caps [] = None"
| "PickPhysicalDevice android vk caps (d # ds) =
     (if GetEnabledDeviceFeatures android vk d caps \<noteq> None then Some d
      else PickPhysicalDevice android vk caps ds)"

text \<open>The loop of \<open>PickQueue\<close> from the family with the number \<open>i\<close>.\<close>

fun pick_family ::
  "VkQueueFlagBits \<Rightarrow> nat \<Rightarrow> (nat \<times> VkQueueFlagBits set) list \<Rightarrow> queue_index option"
where
  "pick_family flag i [] = None"
| "pick_family flag i ((n, flags) # families) =
     (if flag \<notin> flags then pick_family flag (Suc i) families
      else Some \<lparr>family = i, qindex = 0\<rparr>)"

definition PickQueue :: "physical_device \<Rightarrow> VkQueueFlagBits \<Rightarrow> queue_index option" where
  "PickQueue d flag = pick_family flag 0 (queue_families d)"

record queue_create_info =
  info_family :: nat
  info_count :: nat
  info_priorities :: nat    \<comment> \<open>how many priorities the info points to\<close>

text \<open>
  The setter of the Vulkan C++ bindings for the priorities also sets the number of queues to the
  number of priorities.
\<close>

definition setQueuePriorities :: "nat \<Rightarrow> queue_create_info \<Rightarrow> queue_create_info" where
  "setQueuePriorities n i = i\<lparr>info_count := n, info_priorities := n\<rparr>"

definition family_index_map :: "queue_index list \<Rightarrow> (nat \<times> nat) list" where
  "family_index_map queues =
     fold (\<lambda>q m. let value = the (map_of m (family q))
                 in smap_put (family q) (max value (qindex q)) m) queues
       (fold (\<lambda>q m. smap_put (family q) 0 m) queues [])"

definition GetQueueCreateInfos :: "queue_index list \<Rightarrow> queue_create_info list" where
  "GetQueueCreateInfos queues =
     map (\<lambda>(f, i). setQueuePriorities 1
            \<lparr>info_family = f, info_count = i + 1, info_priorities = 0\<rparr>)
       (family_index_map queues)"

definition ChooseThreadCountForWorkers :: "nat \<Rightarrow> nat" where
  "ChooseThreadCountForWorkers hardware_concurrency = max 1 (min 4 (hardware_concurrency div 2))"

subsection \<open>Setup\<close>

record embedder_data =
  emb_physical_device :: physical_device
  emb_queue_family_index :: nat
  emb_queue :: nat
  emb_instance_extensions :: "string list"
  emb_device_extensions :: "string list"

record settings =
  proc_address_callback :: bool
  enable_validation :: bool
  fatal_missing_validations :: bool
  enable_surface_control :: bool
  embedder :: "embedder_data option"

text \<open>
  What the rest of the system answers: the instance with the result of its creation for the
  enabled layers, extensions and the portability flag, the devices it enumerates, the creation of
  the logical device with its extensions, features and queues, the objects whose constructor can
  fail, and the properties of a device.
\<close>

record system =
  sys_instance :: vulkan_instance
  create_instance :: "string list \<Rightarrow> string list \<Rightarrow> bool \<Rightarrow> bool"
  debug_report_valid :: bool
  enumeratePhysicalDevices :: "physical_device list"
  create_device :: "physical_device \<Rightarrow> string list \<Rightarrow> device_features \<Rightarrow> queue_create_info list \<Rightarrow> bool"
  allocator_valid :: bool
  pipeline_library_valid :: bool
  resource_manager_created :: bool
  getQueue :: "queue_index \<Rightarrow> nat"
  getProperties :: "physical_device \<Rightarrow> device_properties"
  hardware_concurrency :: nat

datatype setup_error =
    Aborted fault
  | Missing_Proc_Address | Undetermined_Capabilities | Insufficient_Capabilities
  | No_Instance | No_Debug_Report | No_Valid_Device | No_Graphics_Queue | No_Compute_Queue
  | No_Device_Extensions | No_Device_Features | No_Logical_Device | Capabilities_Not_Updated
  | No_Allocator | No_Pipeline_Library | No_Resource_Manager | No_Queues

text \<open>The members the setup fills in that the rest of the library reads.\<close>

record vk_context =
  ctx_device :: physical_device
  ctx_owned :: bool
  ctx_device_extensions :: "string list"
  ctx_features :: device_features
  ctx_queue_infos :: "queue_create_info list"
  ctx_queues :: queues_vk
  ctx_capabilities :: capabilities
  ctx_driver_info :: driver_info
  ctx_workarounds :: workarounds
  ctx_mips_disabled :: bool        \<comment> \<open>of the sampler library\<close>
  ctx_workers :: nat
  ctx_device_name :: string
  should_enable_surface_control :: bool
  should_batch_cmd_buffers :: bool

definition setup_instance ::
  "settings \<Rightarrow> system \<Rightarrow> setup_error + capabilities"
where
  "setup_instance s y =
     rbind (guard Missing_Proc_Address (proc_address_callback s)) (\<lambda>_.
       case Capabilities (sys_instance y) (enable_validation s) (fatal_missing_validations s)
              (embedder s \<noteq> None)
              (case embedder s of Some e \<Rightarrow> emb_instance_extensions e | None \<Rightarrow> [])
              (case embedder s of Some e \<Rightarrow> emb_device_extensions e | None \<Rightarrow> []) of
         Inl f \<Rightarrow> Inl (Aborted f)
       | Inr caps \<Rightarrow>
           rbind (guard Undetermined_Capabilities (is_valid caps)) (\<lambda>_.
           rbind (of_option Insufficient_Capabilities (GetEnabledLayers caps)) (\<lambda>layers.
           rbind (of_option Insufficient_Capabilities (GetEnabledInstanceExtensions caps)) (\<lambda>exts.
           rbind (guard No_Instance
                   (embedder s \<noteq> None \<or>
                    create_instance y layers exts (''VK_KHR_portability_enumeration'' \<in> set exts)))
                 (\<lambda>_.
           rbind (guard No_Debug_Report (debug_report_valid y)) (\<lambda>_. Inr caps))))))"

definition setup_physical_device ::
  "bool \<Rightarrow> (extension_macro \<Rightarrow> string) \<Rightarrow> settings \<Rightarrow> system \<Rightarrow> capabilities \<Rightarrow>
   setup_error + physical_device"
where
  "setup_physical_device android vk s y caps =
     (case embedder s of
        None \<Rightarrow> of_option No_Valid_Device
                  (PickPhysicalDevice android vk caps (enumeratePhysicalDevices y))
      | Some e \<Rightarrow> Inr (emb_physical_device e))"

text \<open>The queues for graphics, compute and transfer.\<close>

definition setup_queues ::
  "physical_device \<Rightarrow> setup_error + (queue_index \<times> queue_index \<times> queue_index)"
where
  "setup_queues d =
     (let graphics = PickQueue d eGraphics;
          transfer = PickQueue d eTransfer;
          compute = PickQueue d eCompute
      in rbind (of_option No_Graphics_Queue graphics) (\<lambda>g.
           let t = (case transfer of None \<Rightarrow> g | Some t \<Rightarrow> t)
           in rbind (of_option No_Compute_Queue compute) (\<lambda>c. Inr (g, c, t))))"

definition Setup ::
  "bool \<Rightarrow> (extension_macro \<Rightarrow> string) \<Rightarrow> vulkan_header \<Rightarrow> settings \<Rightarrow> system \<Rightarrow>
   setup_error + vk_context"
where
  "Setup android vk hdr s y =
     rbind (setup_instance s y) (\<lambda>caps.
     rbind (setup_physical_device android vk s y caps) (\<lambda>d.
     rbind (setup_queues d) (\<lambda>(g, c, t).
     rbind (of_option No_Device_Extensions (GetEnabledDeviceExtensions android vk d caps)) (\<lambda>exts.
     let infos = GetQueueCreateInfos [g, c, t] in
     rbind (of_option No_Device_Features (GetEnabledDeviceFeatures android vk d caps)) (\<lambda>features.
     rbind (guard No_Logical_Device (embedder s \<noteq> None \<or> create_device y d exts features infos)) (\<lambda>_.
     case SetPhysicalDevice vk d features caps of (updated, caps) \<Rightarrow>
     rbind (guard Capabilities_Not_Updated updated) (\<lambda>_.
     rbind (guard No_Allocator (allocator_valid y)) (\<lambda>_.
     rbind (guard No_Pipeline_Library (pipeline_library_valid y)) (\<lambda>_.
     rbind (guard No_Resource_Manager (resource_manager_created y)) (\<lambda>_.
     let queues = (case embedder s of
                     None \<Rightarrow> FromQueueIndices (getQueue y) g c t
                   | Some e \<Rightarrow> FromEmbedderQueue (emb_queue e) (emb_queue_family_index e)) in
     rbind (guard No_Queues (QueuesVK_IsValid queues)) (\<lambda>_.
     let info = DriverInfo hdr (getProperties y d);
         w = GetWorkaroundsFromDriverInfo info
     in Inr \<lparr>ctx_device = d, ctx_owned = (embedder s = None), ctx_device_extensions = exts,
             ctx_features = features, ctx_queue_infos = infos, ctx_queues = queues,
             ctx_capabilities = ApplyWorkarounds w caps, ctx_driver_info = info,
             ctx_workarounds = w, ctx_mips_disabled = broken_mipmap_generation w,
             ctx_workers = ChooseThreadCountForWorkers (hardware_concurrency y),
             ctx_device_name = deviceName (getProperties y d),
             should_enable_surface_control = enable_surface_control s,
             should_batch_cmd_buffers = \<not> batch_submit_command_buffer_timeout w\<rparr>)))))))))))"

definition Context_Create ::
  "bool \<Rightarrow> (extension_macro \<Rightarrow> string) \<Rightarrow> vulkan_header \<Rightarrow> settings \<Rightarrow> system \<Rightarrow>
   vk_context option result"
where
  "Context_Create android vk hdr s y =
     (case Setup android vk hdr s y of
        Inl (Aborted f) \<Rightarrow> Inl f
      | Inl _ \<Rightarrow> Inr None
      | Inr c \<Rightarrow> Inr (Some c))"

definition GetShouldEnableSurfaceControlSwapchain :: "vk_context \<Rightarrow> bool" where
  "GetShouldEnableSurfaceControlSwapchain c \<longleftrightarrow>
     should_enable_surface_control c \<and> supports_external_fence_and_semaphore (ctx_capabilities c)"

subsection \<open>Lemmas\<close>

lemma pick_family_Some:
  "pick_family flag i families = Some q \<Longrightarrow>
   \<exists>k < length families. q = \<lparr>family = i + k, qindex = 0\<rparr> \<and> flag \<in> snd (families ! k) \<and>
     (\<forall>j < k. flag \<notin> snd (families ! j))"
proof (induction flag i families rule: pick_family.induct)
  case (2 flag i n flags families)
  show ?case
  proof (cases "flag \<in> flags")
    case True
    then show ?thesis using "2.prems" by (intro exI [of _ 0]) simp
  next
    case False
    then obtain k where k: "k < length families" "q = \<lparr>family = Suc i + k, qindex = 0\<rparr>"
      "flag \<in> snd (families ! k)" "\<forall>j < k. flag \<notin> snd (families ! j)"
      using 2 by auto
    have "flag \<notin> snd (((n, flags) # families) ! j)" if "j < Suc k" for j
      using that k(4) False by (cases j) auto
    then show ?thesis using k by (intro exI [of _ "Suc k"]) simp
  qed
qed simp

lemma pick_family_None:
  "pick_family flag i families = None \<longleftrightarrow> (\<forall>f \<in> set families. flag \<notin> snd f)"
  by (induction flag i families rule: pick_family.induct) auto

text \<open>The family of a queue has the flag.\<close>

definition queue_supports :: "physical_device \<Rightarrow> VkQueueFlagBits \<Rightarrow> queue_index \<Rightarrow> bool" where
  "queue_supports d flag q \<longleftrightarrow>
     family q < length (queue_families d) \<and> flag \<in> snd (queue_families d ! family q)"

lemma PickQueue_Some:
  "PickQueue d flag = Some q \<Longrightarrow> queue_supports d flag q \<and> qindex q = 0"
  using pick_family_Some [of flag 0 "queue_families d" q]
  by (auto simp: PickQueue_def queue_supports_def)

lemma PickQueue_None:
  "PickQueue d flag = None \<longleftrightarrow> (\<nexists>q. queue_supports d flag q)"
  unfolding PickQueue_def pick_family_None queue_supports_def
  by (metis in_set_conv_nth queue_index.select_convs(1))

lemma PickPhysicalDevice_Some:
  "PickPhysicalDevice android vk caps ds = Some d \<Longrightarrow>
   \<exists>pre post. ds = pre @ d # post \<and> GetEnabledDeviceFeatures android vk d caps \<noteq> None \<and>
     (\<forall>e \<in> set pre. GetEnabledDeviceFeatures android vk e caps = None)"
proof (induction ds)
  case (Cons e ds)
  show ?case
  proof (cases "GetEnabledDeviceFeatures android vk e caps = None")
    case True
    with Cons obtain pre post where "ds = pre @ d # post"
      "GetEnabledDeviceFeatures android vk d caps \<noteq> None"
      "\<forall>e \<in> set pre. GetEnabledDeviceFeatures android vk e caps = None"
      by auto
    with True show ?thesis by (intro exI [of _ "e # pre"] exI [of _ post]) simp
  next
    case False
    with Cons.prems show ?thesis by (intro exI [of _ "[]"] exI [of _ ds]) simp
  qed
qed simp

text \<open>The map of the families: sorted, and with the keys of the queues.\<close>

lemma family_map_fold:
  assumes "sset (map fst m)"
  shows "sset (map fst (fold (\<lambda>q m. smap_put (family q) (g q m) m) queues m)) \<and>
    fst ` set (fold (\<lambda>q m. smap_put (family q) (g q m) m) queues m) =
      fst ` set m \<union> family ` set queues"
  using assms
proof (induction queues arbitrary: m)
  case (Cons q queues)
  have "sset (map fst (smap_put (family q) (g q m) m))" by (rule sset_smap_put [OF Cons.prems])
  from Cons.IH [OF this] show ?case by auto
qed simp

lemma family_index_map_keys:
  "distinct (map fst (family_index_map queues))"
  "fst ` set (family_index_map queues) = family ` set queues"
proof -
  let ?m = "fold (\<lambda>q m. smap_put (family q) 0 m) queues ([] :: (nat \<times> nat) list)"
  have m: "sset (map fst ?m)" "fst ` set ?m = family ` set queues"
    using family_map_fold [of "[] :: (nat \<times> nat) list" "\<lambda>q m. 0" queues] by simp_all
  show "distinct (map fst (family_index_map queues))"
    "fst ` set (family_index_map queues) = family ` set queues"
    using family_map_fold [OF m(1), of "\<lambda>q m. max (the (map_of m (family q))) (qindex q)" queues] m(2)
    by (simp_all add: family_index_map_def Let_def)
qed

text \<open>One queue of every family that is named, and no family twice.\<close>

lemma queue_create_infos:
  "info_family ` set (GetQueueCreateInfos queues) = family ` set queues"
  "distinct (map info_family (GetQueueCreateInfos queues))"
  "i \<in> set (GetQueueCreateInfos queues) \<Longrightarrow> info_count i = 1"
proof -
  have f: "map info_family (GetQueueCreateInfos queues) = map fst (family_index_map queues)"
    by (simp add: GetQueueCreateInfos_def setQueuePriorities_def split_def)
  show "distinct (map info_family (GetQueueCreateInfos queues))"
    unfolding f by (rule family_index_map_keys)
  have "info_family ` set (GetQueueCreateInfos queues) = set (map fst (family_index_map queues))"
    using f by (metis set_map)
  then show "info_family ` set (GetQueueCreateInfos queues) = family ` set queues"
    using family_index_map_keys(2) by simp
  show "info_count i = 1" if "i \<in> set (GetQueueCreateInfos queues)"
    using that by (auto simp: GetQueueCreateInfos_def setQueuePriorities_def)
qed

lemma queue_is_created:
  "q \<in> set queues \<Longrightarrow> qindex q = 0 \<Longrightarrow>
   \<exists>i \<in> set (GetQueueCreateInfos queues). info_family i = family q \<and> qindex q < info_count i"
proof -
  assume q: "q \<in> set queues" "qindex q = 0"
  then obtain i where i: "i \<in> set (GetQueueCreateInfos queues)" "info_family i = family q"
    using queue_create_infos(1) [of queues] by (metis image_iff)
  then show ?thesis using q queue_create_infos(3) [OF i(1)] by auto
qed

text \<open>The object a slot of the queues points to.\<close>

definition slot_object :: "queues_vk \<Rightarrow> nat option \<Rightarrow> queue_object option" where
  "slot_object q slot =
     (case slot of Some i \<Rightarrow> if i < length (queue_objects q) then Some (queue_objects q ! i) else None
      | None \<Rightarrow> None)"

lemma FromQueueIndices_slots:
  assumes "q = FromQueueIndices getQ g c t"
  shows "slot_object q (graphics_queue q) = Some \<lparr>q_index = g, q_handle = getQ g\<rparr>"
    "slot_object q (compute_queue q) = Some \<lparr>q_index = c, q_handle = getQ c\<rparr>"
    "slot_object q (transfer_queue q) = Some \<lparr>q_index = t, q_handle = getQ t\<rparr>"
    "distinct (map q_index (queue_objects q))"
    "set (queue_objects q) \<subseteq> {\<lparr>q_index = i, q_handle = getQ i\<rparr> | i. i \<in> {g, c, t}}"
  by (auto simp: assms FromQueueIndices_def slot_object_def Let_def)

lemma setup_queues_Inr:
  assumes "setup_queues d = Inr (g, c, t)"
  shows "queue_supports d eGraphics g" "queue_supports d eCompute c"
    "queue_supports d eTransfer t \<or> t = g \<and> (\<nexists>q. queue_supports d eTransfer q)"
    "qindex g = 0" "qindex c = 0" "qindex t = 0"
proof -
  have g: "PickQueue d eGraphics = Some g" and c: "PickQueue d eCompute = Some c"
    and t: "t = (case PickQueue d eTransfer of None \<Rightarrow> g | Some t \<Rightarrow> t)"
    using assms by (auto simp: setup_queues_def Let_def result_simps)
  show "queue_supports d eGraphics g" "queue_supports d eCompute c" "qindex g = 0" "qindex c = 0"
    using PickQueue_Some [OF g] PickQueue_Some [OF c] by auto
  show "queue_supports d eTransfer t \<or> t = g \<and> (\<nexists>q. queue_supports d eTransfer q)" "qindex t = 0"
    using t PickQueue_Some [OF g] PickQueue_Some [of d eTransfer t] PickQueue_None [of d eTransfer]
    by (auto split: option.splits)
qed

lemma Setup_Inr:
  assumes "Setup android vk hdr s y = Inr ctx" "embedder s = None"
  obtains caps g c t where
    "setup_instance s y = Inr caps"
    "PickPhysicalDevice android vk caps (enumeratePhysicalDevices y) = Some (ctx_device ctx)"
    "setup_queues (ctx_device ctx) = Inr (g, c, t)"
    "GetEnabledDeviceExtensions android vk (ctx_device ctx) caps = Some (ctx_device_extensions ctx)"
    "ctx_queue_infos ctx = GetQueueCreateInfos [g, c, t]"
    "create_device y (ctx_device ctx) (ctx_device_extensions ctx) (ctx_features ctx)
       (ctx_queue_infos ctx)"
    "ctx_queues ctx = FromQueueIndices (getQueue y) g c t"
proof -
  obtain caps where caps: "setup_instance s y = Inr caps"
    using assms(1) by (auto simp: Setup_def result_simps)
  obtain d where d: "setup_physical_device android vk s y caps = Inr d"
    using assms(1) by (auto simp: Setup_def caps result_simps)
  obtain g c t where q: "setup_queues d = Inr (g, c, t)"
    using assms(1) by (auto simp: Setup_def caps d result_simps)
  obtain exts where e: "GetEnabledDeviceExtensions android vk d caps = Some exts"
    using assms(1) by (auto simp: Setup_def caps d q result_simps)
  obtain f where f: "GetEnabledDeviceFeatures android vk d caps = Some f"
    using assms(1) by (auto simp: Setup_def caps d q e result_simps Let_def)
  have c: "create_device y d exts f (GetQueueCreateInfos [g, c, t])"
    using assms by (auto simp: Setup_def caps d q e f result_simps Let_def)
  have r: "ctx_device ctx = d \<and> ctx_device_extensions ctx = exts \<and> ctx_features ctx = f \<and>
      ctx_queue_infos ctx = GetQueueCreateInfos [g, c, t] \<and>
      ctx_queues ctx = FromQueueIndices (getQueue y) g c t"
    using assms by (auto simp: Setup_def caps d q e f result_simps Let_def split: prod.splits)
  show thesis
    by (rule that [of caps g c t])
      (use caps d q e c r assms(2) in \<open>auto simp: setup_physical_device_def result_simps\<close>)
qed

subsection \<open>Properties\<close>

text \<open>The queue of a slot does the work of the slot and is among those the device was created with.\<close>

definition slot_ready :: "vk_context \<Rightarrow> nat option \<Rightarrow> VkQueueFlagBits \<Rightarrow> bool" where
  "slot_ready ctx slot flag \<longleftrightarrow>
     (\<exists>q. slot_object (ctx_queues ctx) slot = Some q \<and> queue_supports (ctx_device ctx) flag (q_index q) \<and>
        (\<exists>i \<in> set (ctx_queue_infos ctx).
           info_family i = family (q_index q) \<and> qindex (q_index q) < info_count i))"

text \<open>
  C32: A context that was set up without an embedder uses the first device the capabilities accept,
  created with the extensions and features it needs and at most one entry per queue family. Its
  graphics and compute queues belong to families that do such work and were requested when the
  device was created; so does the transfer queue unless no family transfers, when it is the graphics
  queue; and no device queue is behind two queue objects, whose locks would not exclude each other.
\<close>

theorem context_queues_usable:
  assumes "Setup android vk hdr s y = Inr ctx" "embedder s = None"
    and "\<forall>q q'. getQueue y q = getQueue y q' \<longrightarrow> family q = family q'"
  shows "(\<exists>caps pre post. setup_instance s y = Inr caps \<and>
           enumeratePhysicalDevices y = pre @ ctx_device ctx # post \<and>
           GetEnabledDeviceFeatures android vk (ctx_device ctx) caps \<noteq> None \<and>
           (\<forall>e \<in> set pre. GetEnabledDeviceFeatures android vk e caps = None)) \<and>
    create_device y (ctx_device ctx) (ctx_device_extensions ctx) (ctx_features ctx)
      (ctx_queue_infos ctx) \<and>
    distinct (map info_family (ctx_queue_infos ctx)) \<and>
    slot_ready ctx (graphics_queue (ctx_queues ctx)) eGraphics \<and>
    slot_ready ctx (compute_queue (ctx_queues ctx)) eCompute \<and>
    (slot_ready ctx (transfer_queue (ctx_queues ctx)) eTransfer \<or>
     (\<nexists>q. queue_supports (ctx_device ctx) eTransfer q) \<and>
     transfer_queue (ctx_queues ctx) = graphics_queue (ctx_queues ctx)) \<and>
    distinct (map q_handle (queue_objects (ctx_queues ctx)))"
proof -
  obtain caps g c t where s: "setup_instance s y = Inr caps"
    "PickPhysicalDevice android vk caps (enumeratePhysicalDevices y) = Some (ctx_device ctx)"
    "setup_queues (ctx_device ctx) = Inr (g, c, t)"
    and i: "ctx_queue_infos ctx = GetQueueCreateInfos [g, c, t]"
    and d: "create_device y (ctx_device ctx) (ctx_device_extensions ctx) (ctx_features ctx)
       (ctx_queue_infos ctx)"
    and q: "ctx_queues ctx = FromQueueIndices (getQueue y) g c t"
    using Setup_Inr [OF assms(1,2)] by metis
  note slots = FromQueueIndices_slots [OF q] and picked = setup_queues_Inr [OF s(3)]
  have created: "\<exists>i \<in> set (ctx_queue_infos ctx). info_family i = family q \<and> qindex q < info_count i"
    if "q \<in> {g, c, t}" for q
    unfolding i using that picked(4-6) by (intro queue_is_created) auto
  have ready: "slot_ready ctx (graphics_queue (ctx_queues ctx)) eGraphics"
    "slot_ready ctx (compute_queue (ctx_queues ctx)) eCompute"
    "queue_supports (ctx_device ctx) eTransfer t \<Longrightarrow>
     slot_ready ctx (transfer_queue (ctx_queues ctx)) eTransfer"
    unfolding slot_ready_def slots(1-3) using picked(1,2) created by auto
  have transfer: "t = g \<Longrightarrow> transfer_queue (ctx_queues ctx) = graphics_queue (ctx_queues ctx)"
    by (auto simp: q FromQueueIndices_def Let_def)
  have "q_handle ob = getQueue y (q_index ob)" if "ob \<in> set (queue_objects (ctx_queues ctx))" for ob
    using that slots(5) by auto
  moreover have "qindex (q_index ob) = 0" if "ob \<in> set (queue_objects (ctx_queues ctx))" for ob
    using that slots(5) picked(4-6) by auto
  ultimately have "inj_on q_handle (set (queue_objects (ctx_queues ctx)))"
    by (intro inj_onI) (metis assms(3) queue_index.equality queue_object.equality old.unit.exhaust)
  moreover have "distinct (queue_objects (ctx_queues ctx))" using slots(4) by (simp add: distinct_map)
  ultimately have "distinct (map q_handle (queue_objects (ctx_queues ctx)))"
    by (simp add: distinct_map)
  then show ?thesis
    using PickPhysicalDevice_Some [OF s(2)] s(1) d ready transfer picked(3)
      queue_create_infos(2) [of "[g, c, t]"] unfolding i
    by blast
qed

definition demo_transfer_device :: physical_device where
  "demo_transfer_device = demo_physical_device
     \<lparr>queue_families := [(1, {eTransfer}), (2, {eGraphics, eCompute, eTransfer})]\<rparr>"

definition demo_settings :: settings where
  "demo_settings = \<lparr>proc_address_callback = True, enable_validation = False,
     fatal_missing_validations = False, enable_surface_control = False, embedder = None\<rparr>"

definition demo_system :: system where
  "demo_system =
     \<lparr>sys_instance = \<lparr>instance_extensions = Some [], instance_layers = Some [],
                     layer_extensions = (\<lambda>_. None)\<rparr>,
      create_instance = (\<lambda>_ _ _. True), debug_report_valid = True,
      enumeratePhysicalDevices =
        [demo_physical_device\<lparr>device_extensions := None\<rparr>, demo_transfer_device],
      create_device = (\<lambda>_ _ _ _. True), allocator_valid = True, pipeline_library_valid = True,
      resource_manager_created = True, getQueue = family, getProperties = (\<lambda>_. demo_device),
      hardware_concurrency = 8\<rparr>"

lemma demo_setup_instance:
  "setup_instance demo_settings demo_system = Inr (demo_capabilities\<lparr>is_valid := True\<rparr>)"
  by (simp add: setup_instance_def demo_settings_def demo_system_def Capabilities_def instance_exts_def
      capabilities_init_def demo_capabilities_def GetEnabledLayers_def
      GetEnabledInstanceExtensions_def HasExtension_def HasLayer_def Let_def)

lemma demo_transfer_extensions:
  "known_device_extensions demo_transfer_device (demo_capabilities\<lparr>is_valid := True\<rparr>) =
     Some {''VK_KHR_swapchain'', ''VK_KHR_portability_subset''}"
  "GetEnabledDeviceExtensions False demo_macros demo_transfer_device
     (demo_capabilities\<lparr>is_valid := True\<rparr>) =
     Some [''VK_KHR_swapchain'', ''VK_KHR_portability_subset'']"
  by (simp_all add: GetEnabledDeviceExtensions_eq known_device_extensions_def demo_capabilities_def
      capabilities_init_def GetSupportedDeviceExtensions_def demo_transfer_device_def
      demo_physical_device_def required_present_def enabled_list_def common_extensions_def
      optional_extensions_def demo_macros_def)

lemma demo_transfer_features:
  "\<exists>f. GetEnabledDeviceFeatures False demo_macros demo_transfer_device
     (demo_capabilities\<lparr>is_valid := True\<rparr>) = Some f"
  unfolding GetEnabledDeviceFeatures_def demo_transfer_extensions(2)
  by (simp add: Let_def PhysicalDeviceSupportsRequiredFormats_def HasSuitableColorFormat_def
      HasSuitableDepthStencilFormat_def HasRequiredProperties_def HasRequiredQueues_def
      demo_transfer_device_def demo_physical_device_def)

lemma demo_device_picked:
  "PickPhysicalDevice False demo_macros (demo_capabilities\<lparr>is_valid := True\<rparr>)
     (enumeratePhysicalDevices demo_system) = Some demo_transfer_device"
  using demo_transfer_features
  by (auto simp: demo_system_def GetEnabledDeviceFeatures_def GetEnabledDeviceExtensions_eq
      known_device_extensions_def demo_capabilities_def capabilities_init_def
      GetSupportedDeviceExtensions_def)

lemma demo_setup_queues:
  "setup_queues demo_transfer_device =
     Inr (\<lparr>family = 1, qindex = 0\<rparr>, \<lparr>family = 1, qindex = 0\<rparr>, \<lparr>family = 0, qindex = 0\<rparr>)"
  by (simp add: setup_queues_def PickQueue_def demo_transfer_device_def)

lemma SetPhysicalDevice_succeeds:
  assumes "known_device_extensions d caps = Some es"
  shows "\<exists>c. SetPhysicalDevice vk d f caps = (True, c)"
proof -
  have "known_device_extensions d c = Some es"
    if "use_embedder_extensions c = use_embedder_extensions caps"
      "embedder_device_extensions c = embedder_device_extensions caps" for c
    using known_cong [OF that] assms by simp
  then show ?thesis by (simp add: SetPhysicalDevice_def Let_def)
qed

lemma demo_setup:
  "\<exists>ctx. Setup False demo_macros demo_header demo_settings demo_system = Inr ctx \<and>
     map q_handle (queue_objects (ctx_queues ctx)) = [1, 0]"
proof -
  obtain f where f: "GetEnabledDeviceFeatures False demo_macros demo_transfer_device
      (demo_capabilities\<lparr>is_valid := True\<rparr>) = Some f" using demo_transfer_features by blast
  obtain c where c: "SetPhysicalDevice demo_macros demo_transfer_device f
      (demo_capabilities\<lparr>is_valid := True\<rparr>) = (True, c)"
    using SetPhysicalDevice_succeeds [OF demo_transfer_extensions(1)] by blast
  have p: "setup_physical_device False demo_macros demo_settings demo_system
      (demo_capabilities\<lparr>is_valid := True\<rparr>) = Inr demo_transfer_device"
    using demo_device_picked by (simp add: setup_physical_device_def demo_settings_def)
  have "create_device demo_system d e f' i" "allocator_valid demo_system"
    "pipeline_library_valid demo_system" "resource_manager_created demo_system"
    "getQueue demo_system = family" "embedder demo_settings = None" for d e f' i
    by (simp_all add: demo_system_def demo_settings_def)
  then show ?thesis
    unfolding Setup_def demo_setup_instance rbind.simps p demo_setup_queues prod.case
      demo_transfer_extensions(2) of_option_Some f Let_def c
    by (simp add: FromQueueIndices_def QueuesVK_IsValid_def Let_def)
qed

theorem context_queues_usable_witness:
  "\<exists>ctx. Setup False demo_macros demo_header demo_settings demo_system = Inr ctx \<and>
     map q_handle (queue_objects (ctx_queues ctx)) = [1, 0] \<and>
     slot_ready ctx (compute_queue (ctx_queues ctx)) eCompute"
proof -
  from demo_setup obtain ctx
    where c: "Setup False demo_macros demo_header demo_settings demo_system = Inr ctx"
      "map q_handle (queue_objects (ctx_queues ctx)) = [1, 0]" by (elim exE conjE)
  have e: "embedder demo_settings = None" by (simp add: demo_settings_def)
  have g: "\<forall>q q'. getQueue demo_system q = getQueue demo_system q' \<longrightarrow> family q = family q'"
    by (simp add: demo_system_def)
  have "slot_ready ctx (compute_queue (ctx_queues ctx)) eCompute"
    using context_queues_usable [OF c(1) e g] by (elim conjE)
  with c show ?thesis by (intro exI [of _ ctx] conjI)
qed

subsection \<open>Where the setup is stricter or laxer than it needs to be\<close>

text \<open>
  A device that only has queues for transfers is accepted and picked, and the setup then fails,
  although the device after it would do.
\<close>

lemma setup_does_not_try_the_next_device:
  assumes "setup_instance s y = Inr caps" "embedder s = None"
    and "enumeratePhysicalDevices y = d # ds"
    and "GetEnabledDeviceFeatures android vk d caps \<noteq> None"
    and "PickQueue d eGraphics = None"
  shows "Setup android vk hdr s y = Inl No_Graphics_Queue"
  using assms by (simp add: Setup_def setup_physical_device_def setup_queues_def)

text \<open>Without compute queue the setup fails, but a missing transfer queue is replaced.\<close>

lemma compute_is_not_replaced:
  "PickQueue d eGraphics = Some g \<Longrightarrow> PickQueue d eCompute = None \<Longrightarrow>
   setup_queues d = Inl No_Compute_Queue"
  by (simp add: setup_queues_def Let_def)

text \<open>
  The number of queues that is computed from the indices never reaches the device: the priorities,
  of which there is one, decide it.
\<close>

lemma second_queue_of_family_not_created:
  "\<forall>i \<in> set (GetQueueCreateInfos [\<lparr>family = 0, qindex = 1\<rparr>]). info_count i \<le> 1"
  using queue_create_infos(3) by simp

lemma worker_count_bounds: "1 \<le> ChooseThreadCountForWorkers n \<and> ChooseThreadCountForWorkers n \<le> 4"
  by (simp add: ChooseThreadCountForWorkers_def)

end
