(* ===== verification/Status.thy ===== *)
theory Status
  imports Prelude
begin

text \<open>
  The values that report failure and the wrapper that owns a handle: \<^verbatim>\<open>src/fml/status.h\<close>,
  \<^verbatim>\<open>src/fml/status_or.h\<close>, \<^verbatim>\<open>src/fml/unique_object.h\<close>.
\<close>

subsection \<open>Status\<close>

datatype StatusCode =
    kOk | kCancelled | kUnknown | kInvalidArgument | kDeadlineExceeded | kNotFound
  | kAlreadyExists | kPermissionDenied | kResourceExhausted | kFailedPrecondition | kAborted
  | kOutOfRange | kUnimplemented | kInternal | kUnavailable | kDataLoss | kUnauthenticated

record status =
  status_code :: StatusCode
  status_message :: string

definition Status_ok :: status where
  "Status_ok = \<lparr>status_code = kOk, status_message = []\<rparr>"

definition Status :: "StatusCode \<Rightarrow> string \<Rightarrow> status" where
  "Status c msg = \<lparr>status_code = c, status_message = msg\<rparr>"

definition ok :: "status \<Rightarrow> bool" where
  "ok s \<longleftrightarrow> status_code s = kOk"

lemma ok_simps [simp]: "ok Status_ok" "ok (Status c msg) \<longleftrightarrow> c = kOk"
  by (simp_all add: ok_def Status_ok_def Status_def)

subsection \<open>A value or a status\<close>

record 'a status_or =
  so_status :: status
  so_value :: "'a option"

definition StatusOr_value :: "'a \<Rightarrow> 'a status_or" where
  "StatusOr_value v = \<lparr>so_status = Status_ok, so_value = Some v\<rparr>"

definition StatusOr_status :: "status \<Rightarrow> 'a status_or result" where
  "StatusOr_status s =
     rbind (guard Check_Failed (\<not> ok s)) (\<lambda>_. Inr \<lparr>so_status = s, so_value = None\<rparr>)"

definition so_assign_value :: "'a \<Rightarrow> 'a status_or \<Rightarrow> 'a status_or" where
  "so_assign_value v x = x\<lparr>so_status := Status_ok, so_value := Some v\<rparr>"

definition so_assign_status :: "status \<Rightarrow> 'a status_or \<Rightarrow> 'a status_or" where
  "so_assign_status s x = x\<lparr>so_status := s, so_value := None\<rparr>"

definition so_ok :: "'a status_or \<Rightarrow> bool" where
  "so_ok x = ok (so_status x)"

definition so_get :: "'a status_or \<Rightarrow> 'a result" where
  "so_get x =
     (case so_value x of
        Some v \<Rightarrow> rbind (guard Dcheck_Failed (ok (so_status x))) (\<lambda>_. Inr v)
      | None \<Rightarrow> Inl Check_Failed)"

text \<open>A value is there exactly when the status is ok; then the value can be read.\<close>

definition so_wf :: "'a status_or \<Rightarrow> bool" where
  "so_wf x \<longleftrightarrow> (so_ok x \<longleftrightarrow> so_value x \<noteq> None)"

lemma so_wf_constructed:
  "so_wf (StatusOr_value v)" "StatusOr_status s = Inr x \<Longrightarrow> so_wf x" "so_wf (so_assign_value v x)"
  by (auto simp: so_wf_def so_ok_def StatusOr_value_def StatusOr_status_def so_assign_value_def
      result_simps)

lemma so_get_iff: "so_wf x \<Longrightarrow> (\<exists>v. so_get x = Inr v) \<longleftrightarrow> so_ok x"
  by (auto simp: so_wf_def so_get_def so_ok_def result_simps split: option.splits)

text \<open>
  The assignment of a status does not check what the constructor checks: after assigning an ok
  status the object says it is ok, and reading its value aborts.
\<close>

lemma assign_ok_status_breaks:
  "so_ok (so_assign_status Status_ok x) \<and> so_get (so_assign_status Status_ok x) = Inl Check_Failed"
  by (simp add: so_ok_def so_get_def so_assign_status_def)

subsection \<open>Unique objects\<close>

text \<open>
  The handle that is held; the invalid value is a parameter of the traits. Every operation returns
  the handles it frees.
\<close>

definition FreeIfNecessary :: "'h \<Rightarrow> 'h \<Rightarrow> 'h list \<times> 'h" where
  "FreeIfNecessary invalid h = (if h \<noteq> invalid then ([h], invalid) else ([], h))"

definition uo_release :: "'h \<Rightarrow> 'h \<Rightarrow> 'h \<times> 'h" where
  "uo_release invalid h = (h, invalid)"

definition uo_reset :: "'h \<Rightarrow> 'h \<Rightarrow> 'h \<Rightarrow> ('h list \<times> 'h) result" where
  "uo_reset invalid value h =
     rbind (guard Check_Failed (h = invalid \<or> h \<noteq> value)) (\<lambda>_.
       case FreeIfNecessary invalid h of (freed, _) \<Rightarrow> Inr (freed, value))"

text \<open>Objects in numbered variables; a move assignment may name the same variable twice.\<close>

definition uo_move_assign :: "'h \<Rightarrow> nat \<Rightarrow> nat \<Rightarrow> (nat \<Rightarrow> 'h) \<Rightarrow> ('h list \<times> (nat \<Rightarrow> 'h)) result" where
  "uo_move_assign invalid target other s =
     (case uo_release invalid (s other) of
        (value, emptied) \<Rightarrow>
          (let s = s(other := emptied)
           in rbind (uo_reset invalid value (s target)) (\<lambda>(freed, h). Inr (freed, s(target := h)))))"

definition uo_move_construct :: "'h \<Rightarrow> nat \<Rightarrow> nat \<Rightarrow> (nat \<Rightarrow> 'h) \<Rightarrow> nat \<Rightarrow> 'h" where
  "uo_move_construct invalid target other s =
     (case uo_release invalid (s other) of
        (value, emptied) \<Rightarrow> s(other := emptied, target := value))"

definition uo_swap :: "nat \<Rightarrow> nat \<Rightarrow> (nat \<Rightarrow> 'h) \<Rightarrow> nat \<Rightarrow> 'h" where
  "uo_swap a b s = s(a := s b, b := s a)"

definition uo_destroy :: "'h \<Rightarrow> nat \<Rightarrow> (nat \<Rightarrow> 'h) \<Rightarrow> 'h list \<times> (nat \<Rightarrow> 'h)" where
  "uo_destroy invalid v s =
     (case FreeIfNecessary invalid (s v) of (freed, h) \<Rightarrow> (freed, s(v := h)))"

text \<open>No valid handle is held twice.\<close>

definition uo_unique :: "'h \<Rightarrow> (nat \<Rightarrow> 'h) \<Rightarrow> bool" where
  "uo_unique invalid s \<longleftrightarrow> (\<forall>a b. s a = s b \<longrightarrow> s a \<noteq> invalid \<longrightarrow> a = b)"

text \<open>
  A move assignment keeps the handles unique, frees what the target held, and nothing when a
  variable is moved to itself, which keeps its handle.
\<close>

lemma uo_unique_upd:
  assumes "uo_unique invalid s"
  shows "uo_unique invalid (s(b := invalid))" "uo_unique invalid (s(b := invalid, a := s b))"
    "uo_unique invalid (s(a := s b, b := s a))"
  using assms unfolding uo_unique_def fun_upd_apply by (intro allI impI; simp split: if_splits; metis)+

lemma uo_move_assign:
  assumes "uo_unique invalid s"
  shows "\<exists>freed t. uo_move_assign invalid a b s = Inr (freed, t) \<and> uo_unique invalid t \<and>
    t a = s b \<and> (a \<noteq> b \<longrightarrow> t b = invalid) \<and> (\<forall>v. v \<noteq> a \<longrightarrow> v \<noteq> b \<longrightarrow> t v = s v) \<and>
    freed = (if a = b \<or> s a = invalid then [] else [s a])"
proof (cases "a = b")
  case True
  have "uo_move_assign invalid a b s = Inr ([], s)"
    by (simp add: True uo_move_assign_def uo_release_def uo_reset_def FreeIfNecessary_def)
  then show ?thesis using True assms by simp
next
  case False
  have "s a = invalid \<or> s a \<noteq> s b"
  proof (rule ccontr)
    assume "\<not> ?thesis"
    then have "s a = s b" "s a \<noteq> invalid" by blast+
    then show False using assms False unfolding uo_unique_def by metis
  qed
  then have "uo_move_assign invalid a b s =
      Inr (if s a = invalid then [] else [s a], s(b := invalid, a := s b))"
    using False
    by (simp add: uo_move_assign_def uo_release_def uo_reset_def FreeIfNecessary_def)
  then show ?thesis using False uo_unique_upd(2) [OF assms, of b a] by simp
qed

lemma uo_move_construct:
  assumes "uo_unique invalid s"
  shows "uo_unique invalid (uo_move_construct invalid a b s)"
  using uo_unique_upd(2) [OF assms] by (simp add: uo_move_construct_def uo_release_def)

lemma uo_swap: "uo_unique invalid s \<Longrightarrow> uo_unique invalid (uo_swap a b s)"
  unfolding uo_swap_def by (rule uo_unique_upd(3))

text \<open>A handle that was destroyed is not held any more, so nothing frees it again.\<close>

lemma uo_destroy:
  assumes "uo_unique invalid s" "s v \<noteq> invalid"
  shows "uo_destroy invalid v s = ([s v], s(v := invalid)) \<and> uo_unique invalid (s(v := invalid)) \<and>
    (\<forall>w. (s(v := invalid)) w \<noteq> s v)"
proof -
  have "s w \<noteq> s v" if "w \<noteq> v" for w using that assms unfolding uo_unique_def by metis
  then show ?thesis
    using assms uo_unique_upd(1) [OF assms(1)] by (simp add: uo_destroy_def FreeIfNecessary_def)
qed

text \<open>Giving an object the handle it already owns aborts.\<close>

lemma reset_to_itself: "h \<noteq> invalid \<Longrightarrow> uo_reset invalid h h = Inl Check_Failed"
  by (simp add: uo_reset_def)

end
