(* ===== verification/Command_Queue.thy ===== *)
theory Command_Queue
  imports Fence_Waiter Status
begin

text \<open>
  The submission of command buffers: \<^verbatim>\<open>src/hal/command_queue_vk.{h,cc}\<close>, with what it uses of
  \<^verbatim>\<open>src/hal/command_buffer_vk.cc\<close> and the batching of \<^verbatim>\<open>src/hal/context_vk.cc\<close>.

  A submission moves the tracked objects out of its command buffers into a closure that the fence
  waiter runs when the device is done; if anything fails before, the objects die at once and the
  completion callback is told about the error by a scoped closure. The model is the composition with
  the waiter of \<open>Fence_Waiter\<close>: between two submissions it may take any of its steps.

  The tracked objects of the \<open>n\<close>-th command buffer have the name \<open>n\<close>, which also stands for the
  command buffer of the device; a submission is named by the number of those before it.
\<close>

subsection \<open>State\<close>

datatype CommandBufferStatus = kPending | kError | kCompleted

text \<open>How a submission ended; one without buffers is refused before anything else.\<close>

datatype submission_outcome = Refused | Failed | Accepted

datatype cq_event =
    Tracked_Destroyed "nat list"
  | Callback_Run nat CommandBufferStatus

text \<open>What the closure of an entry of the waiter holds.\<close>

record completion =
  cl_submit :: nat
  cl_tracked :: "nat list"
  cl_callback :: bool

record command_queue =
  cb_tracked :: "nat option list"       \<comment> \<open>the tracked objects of every command buffer\<close>
  cq_waiter :: fence_waiter
  cq_closures :: "completion list"      \<comment> \<open>by entry of the waiter\<close>
  cq_submits :: "(bool \<times> submission_outcome) list"    \<comment> \<open>has a callback, how it ended\<close>
  cq_gpu :: "nat list list"             \<comment> \<open>the submissions that reached the device\<close>
  cq_events :: "cq_event list"

definition CommandQueue :: command_queue where
  "CommandQueue = \<lparr>cb_tracked = [], cq_waiter = FenceWaiter, cq_closures = [], cq_submits = [],
     cq_gpu = [], cq_events = []\<rparr>"

subsection \<open>Command buffers\<close>

definition CommandBuffer :: "command_queue \<Rightarrow> command_queue" where
  "CommandBuffer s = s\<lparr>cb_tracked := cb_tracked s @ [Some (length (cb_tracked s))]\<rparr>"

definition CommandBuffer_destroy :: "nat \<Rightarrow> command_queue \<Rightarrow> command_queue" where
  "CommandBuffer_destroy b s =
     (case cb_tracked s ! b of
        None \<Rightarrow> s
      | Some t \<Rightarrow> s\<lparr>cb_tracked := (cb_tracked s)[b := None],
                    cq_events := cq_events s @ [Tracked_Destroyed [t]]\<rparr>)"

text \<open>
  Ending a command buffer reads through its tracked objects, which a submission has moved away;
  whether the device succeeds is a parameter.
\<close>

definition EndCommandBuffer :: "(nat \<Rightarrow> bool) \<Rightarrow> nat option \<Rightarrow> bool result" where
  "EndCommandBuffer end_ok tracked =
     rbind (of_option Undefined_Behaviour tracked) (\<lambda>t. Inr (end_ok t))"

definition GetCommandBuffer :: "nat option \<Rightarrow> nat option" where
  "GetCommandBuffer tracked = tracked"

text \<open>
  The loop over the buffers: whether all could be ended, the objects that were moved so far, and the
  buffers afterwards.
\<close>

fun end_buffers ::
  "(nat \<Rightarrow> bool) \<Rightarrow> nat list \<Rightarrow> nat option list \<Rightarrow> (bool \<times> nat list \<times> nat option list) result"
where
  "end_buffers end_ok [] tr = Inr (True, [], tr)"
| "end_buffers end_ok (b # bs) tr =
     rbind (guard Undefined_Behaviour (b < length tr)) (\<lambda>_.
     rbind (EndCommandBuffer end_ok (tr ! b)) (\<lambda>ended.
       if \<not> ended then Inr (False, [], tr)
       else rbind (of_option Undefined_Behaviour (GetCommandBuffer (tr ! b))) (\<lambda>t.
            rbind (end_buffers end_ok bs (tr[b := None])) (\<lambda>(ok, ts, tr').
              Inr (ok, t # ts, tr')))))"

subsection \<open>Submission\<close>

record submit_answers =
  end_ok :: "nat \<Rightarrow> bool"
  context_alive :: bool
  new_fence :: "nat option"
  queue_ok :: bool

text \<open>The scoped closure of the submission calls the callback, if there is one.\<close>

definition run_reset :: "bool \<Rightarrow> nat scoped_closure \<Rightarrow> cq_event list" where
  "run_reset has_callback r =
     (if has_callback then map (\<lambda>i. Callback_Run i kError) (fst (sc_Reset r)) else [])"

text \<open>An early return: the tracked objects die before the scoped closure does.\<close>

definition fail_submit :: "bool \<Rightarrow> nat list \<Rightarrow> string \<Rightarrow> command_queue \<Rightarrow> status \<times> command_queue" where
  "fail_submit has_callback ts msg s =
     (Status kCancelled msg,
      s\<lparr>cq_submits := cq_submits s @ [(has_callback, Failed)],
        cq_events := cq_events s @ Tracked_Destroyed ts #
          run_reset has_callback (Some (length (cq_submits s)))\<rparr>)"

definition Submit ::
  "submit_answers \<Rightarrow> nat list \<Rightarrow> bool \<Rightarrow> command_queue \<Rightarrow> (status \<times> command_queue) result"
where
  "Submit y buffers has_callback s =
     (if buffers = []
      then Inr (Status kInvalidArgument ''No command buffers provided.'',
             s\<lparr>cq_submits := cq_submits s @ [(has_callback, Refused)]\<rparr>)
      else
        let reset = Some (length (cq_submits s))
        in rbind (end_buffers (end_ok y) buffers (cb_tracked s)) (\<lambda>(ended, ts, tr).
          let s = s\<lparr>cb_tracked := tr\<rparr> in
          if \<not> ended then Inr (fail_submit has_callback ts ''Failed to end command buffer.'' s)
          else if \<not> context_alive y then Inr (fail_submit has_callback ts ''Device lost.'' s)
          else case new_fence y of
            None \<Rightarrow> Inr (fail_submit has_callback ts ''Failed to create fence.'' s)
          | Some f \<Rightarrow>
              if \<not> queue_ok y then Inr (fail_submit has_callback ts ''Failed to submit queue: '' s)
              else
                let s = s\<lparr>cq_gpu := cq_gpu s @ [ts]\<rparr>;
                    closure = \<lparr>cl_submit = length (cq_submits s), cl_tracked = ts,
                               cl_callback = has_callback\<rparr>
                in case AddFence (Some f) True (cq_waiter s) of (added_fence, w) \<Rightarrow>
                  if \<not> added_fence then Inr (fail_submit has_callback ts ''Failed to add fence.'' s)
                  else
                    let released = snd (sc_Release reset)
                    in Inr (Status_ok,
                        s\<lparr>cq_waiter := w, cq_closures := cq_closures s @ [closure],
                          cq_submits := cq_submits s @ [(has_callback, Accepted)],
                          cq_events := cq_events s @ run_reset has_callback released\<rparr>)))"

text \<open>The closure of an entry: the tracked objects are cleared before the callback runs.\<close>

definition run_closure :: "completion list \<Rightarrow> nat \<times> nat \<Rightarrow> cq_event list" where
  "run_closure cs k =
     (let c = cs ! fst k
      in Tracked_Destroyed (cl_tracked c) #
         (if cl_callback c then [Callback_Run (cl_submit c) kCompleted] else []))"

text \<open>A step of the waiter runs the closures of the entries it newly invoked.\<close>

definition waiter_moves :: "fence_waiter \<Rightarrow> command_queue \<Rightarrow> command_queue" where
  "waiter_moves w s =
     s\<lparr>cq_waiter := w,
       cq_events := cq_events s @
         concat (map (run_closure (cq_closures s))
           (drop (length (invoked (cq_waiter s))) (invoked w)))\<rparr>"

datatype queue_call =
    New_Buffer | Drop_Buffer nat | Submit_Buffers submit_answers "nat list" bool
  | Waiter waiter_event

fun is_add :: "waiter_event \<Rightarrow> bool" where
  "is_add (Add f c) = True"
| "is_add e = False"

inductive cq_step :: "command_queue \<Rightarrow> queue_call \<Rightarrow> command_queue \<Rightarrow> bool" where
  cq_new: "cq_step s New_Buffer (CommandBuffer s)"
| cq_drop: "b < length (cb_tracked s) \<Longrightarrow> cq_step s (Drop_Buffer b) (CommandBuffer_destroy b s)"
| cq_submit: "\<not> destroyed (cq_waiter s) \<Longrightarrow> Submit y bs cb s = Inr (st, t) \<Longrightarrow>
    cq_step s (Submit_Buffers y bs cb) t"
| cq_wait: "\<not> is_add e \<Longrightarrow> fw_step (cq_waiter s) e w \<Longrightarrow>
    cq_step s (Waiter e) (waiter_moves w s)"

subsection \<open>Batching\<close>

record batching =
  should_batch :: bool
  pending_command_buffers :: "nat list"
  bc_queue :: command_queue

definition EnqueueCommandBuffer :: "submit_answers \<Rightarrow> nat \<Rightarrow> batching \<Rightarrow> (bool \<times> batching) result" where
  "EnqueueCommandBuffer y b c =
     (if should_batch c
      then Inr (True, c\<lparr>pending_command_buffers := pending_command_buffers c @ [b]\<rparr>)
      else rbind (Submit y [b] False (bc_queue c)) (\<lambda>(st, q). Inr (ok st, c\<lparr>bc_queue := q\<rparr>)))"

definition FlushCommandBuffers :: "submit_answers \<Rightarrow> batching \<Rightarrow> (bool \<times> batching) result" where
  "FlushCommandBuffers y c =
     (if pending_command_buffers c = [] then Inr (True, c)
      else if should_batch c then
        rbind (Submit y (pending_command_buffers c) False (bc_queue c)) (\<lambda>(st, q).
          Inr (ok st, c\<lparr>bc_queue := q, pending_command_buffers := []\<rparr>))
      else Inr (True, c))"

definition SubmitOnscreen :: "submit_answers \<Rightarrow> nat \<Rightarrow> batching \<Rightarrow> (bool \<times> batching) result" where
  "SubmitOnscreen y b c = EnqueueCommandBuffer y b c"

subsection \<open>The invariant\<close>

fun calls_in :: "cq_event list \<Rightarrow> (nat \<times> CommandBufferStatus) list" where
  "calls_in [] = []"
| "calls_in (Callback_Run i st # es) = (i, st) # calls_in es"
| "calls_in (Tracked_Destroyed ts # es) = calls_in es"

fun dead_in :: "cq_event list \<Rightarrow> nat list" where
  "dead_in [] = []"
| "dead_in (Callback_Run i st # es) = dead_in es"
| "dead_in (Tracked_Destroyed ts # es) = ts @ dead_in es"

lemma events_append [simp]:
  "calls_in (xs @ ys) = calls_in xs @ calls_in ys" "dead_in (xs @ ys) = dead_in xs @ dead_in ys"
  by (induction xs rule: calls_in.induct) simp_all

definition somes :: "nat option list \<Rightarrow> nat list" where
  "somes tr = concat (map (\<lambda>x. case x of None \<Rightarrow> [] | Some t \<Rightarrow> [t]) tr)"

definition errors_of :: "(bool \<times> submission_outcome) list \<Rightarrow> (nat \<times> CommandBufferStatus) list" where
  "errors_of subs = map (\<lambda>i. (i, kError)) (filter (\<lambda>i. subs ! i = (True, Failed)) [0 ..< length subs])"

definition accepted_of :: "(bool \<times> submission_outcome) list \<Rightarrow> nat list" where
  "accepted_of subs = filter (\<lambda>i. snd (subs ! i) = Accepted) [0 ..< length subs]"

definition completed :: "completion list \<Rightarrow> (nat \<times> nat) list \<Rightarrow> (nat \<times> CommandBufferStatus) list" where
  "completed cs ks = concat (map (\<lambda>k. calls_in (run_closure cs k)) ks)"

definition freed :: "completion list \<Rightarrow> (nat \<times> nat) list \<Rightarrow> nat list" where
  "freed cs ks = concat (map (\<lambda>k. cl_tracked (cs ! fst k)) ks)"

definition cq_inv :: "command_queue \<Rightarrow> bool" where
  "cq_inv s \<longleftrightarrow>
     fw_inv (cq_waiter s) \<and>
     length (cq_closures s) = length (accepted (cq_waiter s)) \<and>
     mset (calls_in (cq_events s)) =
       mset (errors_of (cq_submits s)) + mset (completed (cq_closures s) (invoked (cq_waiter s))) \<and>
     map cl_submit (cq_closures s) = accepted_of (cq_submits s) \<and>
     (\<forall>c \<in> set (cq_closures s). cl_callback c = fst (cq_submits s ! cl_submit c)) \<and>
     mset (somes (cb_tracked s)) + mset (dead_in (cq_events s)) +
         mset (concat (map cl_tracked (cq_closures s))) =
       mset [0 ..< length (cb_tracked s)] + mset (freed (cq_closures s) (invoked (cq_waiter s))) \<and>
     mset (somes (cb_tracked s)) + mset (concat (map cl_tracked (cq_closures s))) \<subseteq>#
       mset [0 ..< length (cb_tracked s)]"

lemma filter_upt_append:
  "filter (\<lambda>i. P ((xs @ [x]) ! i)) [0 ..< Suc (length xs)] =
   filter (\<lambda>i. P (xs ! i)) [0 ..< length xs] @ (if P x then [length xs] else [])"
  by (auto simp: nth_append intro: filter_cong)

lemma submits_append:
  "errors_of (subs @ [x]) = errors_of subs @ (if x = (True, Failed) then [(length subs, kError)] else [])"
  "accepted_of (subs @ [x]) = accepted_of subs @ (if snd x = Accepted then [length subs] else [])"
  using filter_upt_append [of "\<lambda>p. p = (True, Failed)" subs x] filter_upt_append [of "\<lambda>p. snd p = Accepted" subs x]
  by (auto simp: errors_of_def accepted_of_def)

lemma accepted_of_less: "i \<in> set (accepted_of subs) \<Longrightarrow> i < length subs \<and> snd (subs ! i) = Accepted"
  by (auto simp: accepted_of_def)

lemma somes_append [simp]: "somes (xs @ ys) = somes xs @ somes ys"
  by (simp add: somes_def)

lemma somes_take:
  assumes "b < length tr" "tr ! b = Some t"
  shows "mset (somes (tr[b := None])) + {#t#} = mset (somes tr)"
proof -
  have "tr = take b tr @ Some t # drop (Suc b) tr" using assms by (metis id_take_nth_drop)
  moreover have "tr[b := None] = take b tr @ None # drop (Suc b) tr"
    using assms(1) by (rule upd_conv_take_nth_drop)
  moreover have "somes (x # xs) = (case x of None \<Rightarrow> [] | Some t \<Rightarrow> [t]) @ somes xs" for x xs
    by (simp add: somes_def)
  ultimately show ?thesis by (metis (no_types, lifting) append_Cons append_Nil mset.simps(2)
        mset_append option.simps(4,5) somes_append union_mset_add_mset_right add_mset_add_single)
qed

lemma end_buffers_moves:
  "end_buffers e bs tr = Inr (r, ts, tr') \<Longrightarrow>
   mset (somes tr') + mset ts = mset (somes tr) \<and> length tr' = length tr"
proof (induction bs arbitrary: tr r ts tr')
  case (Cons b bs)
  from Cons.prems obtain t where b: "b < length tr" "tr ! b = Some t"
    by (auto simp: result_simps EndCommandBuffer_def)
  show ?case
  proof (cases "e t")
    case False
    then show ?thesis using Cons.prems b by (simp add: EndCommandBuffer_def GetCommandBuffer_def)
  next
    case True
    then obtain ts' where e: "end_buffers e bs (tr[b := None]) = Inr (r, ts', tr')" "ts = t # ts'"
      using Cons.prems b
      by (auto simp: EndCommandBuffer_def GetCommandBuffer_def result_simps split: prod.splits)
    have "mset (somes tr) = mset (somes tr') + mset ts' + {#t#}"
      using Cons.IH [OF e(1)] somes_take [OF b] by simp
    then show ?thesis using Cons.IH [OF e(1)] e(2) by simp
  qed
qed simp

lemma fw_step_keeps:
  assumes "fw_step w e w'"
  shows "\<exists>ks. invoked w' = invoked w @ ks" "\<not> is_add e \<Longrightarrow> accepted w' = accepted w"
  using assms
  by (auto elim!: fw_stepE simp: AddFence_def Terminate_def FenceWaiter_destroy_def waiter_step_simps
      split: option.splits waiter_pc.splits list.splits)

lemma AddFence_adds:
  "AddFence (Some f) True w = (True, w') \<Longrightarrow>
   accepted w' = accepted w @ [(length (accepted w), f)] \<and> invoked w' = invoked w"
  by (auto simp: AddFence_def split: if_splits)

lemma AddFence_rejects: "AddFence (Some f) True w = (False, w') \<Longrightarrow> w' = w \<and> terminate w"
  by (auto simp: AddFence_def split: if_splits)

lemma fw_inv_entries:
  assumes "fw_inv w" "k \<in> set (invoked w)"
  shows "k \<in> set (accepted w)" "fst k < length (accepted w)"
proof -
  have "mset (invoked w) \<subseteq># mset (accepted w)"
    using assms(1) unfolding fw_inv_def by (metis mset_subset_eq_add_right)
  then show k: "k \<in> set (accepted w)" using assms(2) by (metis mset_subset_eqD set_mset_mset)
  have "set (map fst (accepted w)) = {0 ..< length (accepted w)}"
    using assms(1) by (simp add: fw_inv_def)
  then show "fst k < length (accepted w)" using k by (metis atLeastLessThan_iff image_eqI list.set_map)
qed

lemma closures_append:
  assumes "\<forall>k \<in> set ks. fst k < length cs"
  shows "completed (cs @ [c]) ks = completed cs ks" "freed (cs @ [c]) ks = freed cs ks"
  using assms by (induction ks) (auto simp: completed_def freed_def run_closure_def nth_append)

lemma cq_inv_new: "cq_inv s \<Longrightarrow> cq_inv (CommandBuffer s)"
  by (simp add: cq_inv_def CommandBuffer_def somes_def add_mset_add_single [symmetric])

lemma run_reset_simps [simp]:
  "calls_in (run_reset cb (Some i)) = (if cb then [(i, kError)] else [])"
  "dead_in (run_reset cb r) = []" "run_reset cb None = []"
  by (auto simp: run_reset_def sc_Reset_def split: option.splits)

lemma callback_flags_append:
  assumes "map cl_submit cs = accepted_of subs" "\<forall>c \<in> set cs. cl_callback c = fst (subs ! cl_submit c)"
  shows "\<forall>c \<in> set cs. cl_callback c = fst ((subs @ [x]) ! cl_submit c)"
proof
  fix c assume "c \<in> set cs"
  moreover then have "cl_submit c \<in> set (accepted_of subs)" using assms(1) by (metis image_eqI list.set_map)
  ultimately show "cl_callback c = fst ((subs @ [x]) ! cl_submit c)"
    using assms(2) accepted_of_less by (simp add: nth_append)
qed

text \<open>Objects that leave their command buffers and die.\<close>

lemma cq_inv_dead:
  assumes "cq_inv s" "mset (somes tr) + mset ts = mset (somes (cb_tracked s))"
    and "length tr = length (cb_tracked s)"
  shows "cq_inv (s\<lparr>cb_tracked := tr, cq_gpu := g, cq_events := cq_events s @ [Tracked_Destroyed ts]\<rparr>)"
proof -
  note inv = assms(1) [unfolded cq_inv_def]
  have "mset (somes tr) + mset (concat (map cl_tracked (cq_closures s))) \<subseteq>#
      mset (somes (cb_tracked s)) + mset (concat (map cl_tracked (cq_closures s)))"
    by (simp flip: assms(2))
  then have sub: "mset (somes tr) + mset (concat (map cl_tracked (cq_closures s))) \<subseteq>#
      mset [0 ..< length (cb_tracked s)]"
    using inv by (meson subset_mset.order_trans)
  have "mset (somes tr) + (mset ts + mset (dead_in (cq_events s))) +
      mset (concat (map cl_tracked (cq_closures s))) =
      mset [0 ..< length (cb_tracked s)] + mset (freed (cq_closures s) (invoked (cq_waiter s)))"
    using inv by (simp flip: assms(2) add: ac_simps)
  then show ?thesis
    using inv sub assms(3) by (simp add: cq_inv_def ac_simps)
qed

lemma cq_inv_drop:
  assumes "cq_inv s" "b < length (cb_tracked s)"
  shows "cq_inv (CommandBuffer_destroy b s)"
proof (cases "cb_tracked s ! b")
  case None
  then show ?thesis using assms by (simp add: CommandBuffer_destroy_def)
next
  case (Some t)
  have "mset (somes ((cb_tracked s)[b := None])) + mset [t] = mset (somes (cb_tracked s))"
    using somes_take [OF assms(2) Some] by simp
  from cq_inv_dead [OF assms(1) this length_list_update, of "cq_gpu s"]
  show ?thesis by (simp add: CommandBuffer_destroy_def Some)
qed

lemma cq_inv_fail:
  assumes "cq_inv s" "mset (somes tr) + mset ts = mset (somes (cb_tracked s))"
    and "length tr = length (cb_tracked s)"
  shows "cq_inv (snd (fail_submit cb ts msg (s\<lparr>cb_tracked := tr, cq_gpu := g\<rparr>)))"
proof -
  note inv = cq_inv_dead [OF assms, of g, unfolded cq_inv_def]
  have "\<forall>c \<in> set (cq_closures s). cl_callback c = fst ((cq_submits s @ [(cb, Failed)]) ! cl_submit c)"
    using inv by (intro callback_flags_append) simp_all
  then show ?thesis using inv by (simp add: cq_inv_def fail_submit_def submits_append)
qed

lemma cq_inv_accept:
  assumes "cq_inv s" "mset (somes tr) + mset ts = mset (somes (cb_tracked s))"
    and "length tr = length (cb_tracked s)" "\<not> destroyed (cq_waiter s)"
    and "AddFence (Some f) True (cq_waiter s) = (True, w)"
  shows "cq_inv (s\<lparr>cb_tracked := tr, cq_gpu := g, cq_waiter := w,
      cq_closures := cq_closures s @ [\<lparr>cl_submit = length (cq_submits s), cl_tracked = ts,
        cl_callback = cb\<rparr>],
      cq_submits := cq_submits s @ [(cb, Accepted)]\<rparr>)"
proof -
  note inv = assms(1) [unfolded cq_inv_def]
  let ?c = "\<lparr>cl_submit = length (cq_submits s), cl_tracked = ts, cl_callback = cb\<rparr>"
  have w: "fw_inv w" using fw_inv_add [of "cq_waiter s" "Some f" True] inv assms(4,5) by simp
  note added = AddFence_adds [OF assms(5)]
  have "\<forall>k \<in> set (invoked (cq_waiter s)). fst k < length (cq_closures s)"
    using fw_inv_entries(2) inv by metis
  note old = closures_append [OF this, of ?c]
  have flags: "\<forall>c \<in> set (cq_closures s). cl_callback c =
      fst ((cq_submits s @ [(cb, Accepted)]) ! cl_submit c)"
    using inv by (intro callback_flags_append) simp_all
  have "mset (somes (cb_tracked s)) = mset (somes tr) + mset ts" by (simp add: assms(2))
  then show ?thesis
    using inv flags w added old assms(3)
    by (simp add: cq_inv_def submits_append nth_append ac_simps)
qed

lemma cq_inv_submit:
  assumes "cq_inv s" "\<not> destroyed (cq_waiter s)" "Submit y bs cb s = Inr (st, t)"
  shows "cq_inv t"
proof (cases "bs = []")
  case True
  note inv = assms(1) [unfolded cq_inv_def]
  have "\<forall>c \<in> set (cq_closures s). cl_callback c = fst ((cq_submits s @ [(cb, Refused)]) ! cl_submit c)"
    using inv by (intro callback_flags_append) simp_all
  moreover have "t = s\<lparr>cq_submits := cq_submits s @ [(cb, Refused)]\<rparr>"
    using True assms(3) by (simp add: Submit_def)
  ultimately show ?thesis using inv by (simp add: cq_inv_def submits_append)
next
  case False
  then obtain r ts tr where e: "end_buffers (end_ok y) bs (cb_tracked s) = Inr (r, ts, tr)"
    using assms(3) by (auto simp: Submit_def result_simps)
  have m: "mset (somes tr) + mset ts = mset (somes (cb_tracked s))" "length tr = length (cb_tracked s)"
    using end_buffers_moves [OF e] by simp_all
  have fail: "cq_inv (snd (fail_submit cb ts msg (s\<lparr>cb_tracked := tr\<rparr>)))" for msg
    using cq_inv_fail [OF assms(1) m, of cb msg "cq_gpu s"] by simp
  show ?thesis
  proof (cases "r \<and> context_alive y \<and> new_fence y \<noteq> None \<and> queue_ok y")
    case False
    then have "\<exists>msg. fail_submit cb ts msg (s\<lparr>cb_tracked := tr\<rparr>) = (st, t)"
      using assms(3) \<open>bs \<noteq> []\<close> e by (auto simp: Submit_def Let_def split: if_splits option.splits)
    then show ?thesis using fail by (metis snd_conv)
  next
    case True
    then obtain f where f: "new_fence y = Some f" by blast
    obtain added w where a: "AddFence (Some f) True (cq_waiter s) = (added, w)" by fastforce
    show ?thesis
    proof (cases added)
      case False
      then have "t = snd (fail_submit cb ts ''Failed to add fence.''
          (s\<lparr>cb_tracked := tr, cq_gpu := cq_gpu s @ [ts]\<rparr>))"
        using assms(3) True \<open>bs \<noteq> []\<close> e f a by (simp add: Submit_def Let_def)
      then show ?thesis using cq_inv_fail [OF assms(1) m] by simp
    next
      case acc: True
      then show ?thesis
        using assms(3) True \<open>bs \<noteq> []\<close> e f a cq_inv_accept [OF assms(1) m assms(2), where f = f and w = w and g = "cq_gpu s @ [ts]" and cb = cb]
        by (simp add: Submit_def Let_def sc_Release_def)
    qed
  qed
qed

lemma cq_inv_wait:
  assumes "cq_inv s" "\<not> is_add e" "fw_step (cq_waiter s) e w"
  shows "cq_inv (waiter_moves w s)"
proof -
  note inv = assms(1) [unfolded cq_inv_def]
  obtain ks where ks: "invoked w = invoked (cq_waiter s) @ ks" using fw_step_keeps(1) [OF assms(3)] by blast
  have acc: "accepted w = accepted (cq_waiter s)" by (rule fw_step_keeps(2) [OF assms(3,2)])
  have w: "fw_inv w" using fw.step_inv [OF _ assms(3)] inv by simp
  have calls: "calls_in (concat (map (run_closure cs) ks)) = completed cs ks" for cs
    by (induction ks) (simp_all add: completed_def)
  have dead: "dead_in (concat (map (run_closure cs) ks)) = freed cs ks" for cs
    by (induction ks) (simp_all add: freed_def run_closure_def Let_def)
  show ?thesis
    using inv w by (simp add: cq_inv_def waiter_moves_def ks acc calls dead)
      (simp add: completed_def freed_def ac_simps)
qed

interpretation cq: transition_system "\<lambda>s. s = CommandQueue" cq_step cq_inv
proof
  show "s = CommandQueue \<Longrightarrow> cq_inv s" for s
    using fw.start_inv [of FenceWaiter]
    by (simp add: cq_inv_def CommandQueue_def somes_def errors_of_def accepted_of_def completed_def
        freed_def) (simp add: FenceWaiter_def)
  show "cq_inv t" if "cq_inv s" "cq_step s e t" for s e t
    using that(2)
    by (cases rule: cq_step.cases)
      (use that(1) in \<open>auto intro: cq_inv_new cq_inv_drop cq_inv_submit cq_inv_wait\<close>)
qed

subsection \<open>Callbacks and lifetimes\<close>

definition calls_of :: "nat \<Rightarrow> command_queue \<Rightarrow> CommandBufferStatus list" where
  "calls_of i s = map snd (filter (\<lambda>c. fst c = i) (calls_in (cq_events s)))"

text \<open>The statuses a list of calls gives to one submission.\<close>

definition told :: "nat \<Rightarrow> (nat \<times> CommandBufferStatus) list \<Rightarrow> CommandBufferStatus multiset" where
  "told i cs = mset (map snd (filter (\<lambda>c. fst c = i) cs))"

lemma told_simps [simp]:
  "told i [] = {#}" "told i (xs @ ys) = told i xs + told i ys"
  "told i (c # cs) = (if fst c = i then {#snd c#} else {#}) + told i cs"
  by (simp_all add: told_def)

lemma told_cong: "mset xs = mset ys \<Longrightarrow> told i xs = told i ys"
  unfolding told_def by (metis mset_filter mset_map)

lemma told_mset: "mset xs = mset ys + mset zs \<Longrightarrow> told i xs = told i ys + told i zs"
  using told_cong [of xs "ys @ zs" i] by simp

lemma told_over:
  assumes "distinct js"
  shows "told i (concat (map (\<lambda>j. if P j then [(j, st)] else []) js)) =
    (if i \<in> set js \<and> P i then {#st#} else {#})"
  using assms by (induction js) auto

lemma map_filter_concat:
  "map f (filter P xs) = concat (map (\<lambda>x. if P x then [f x] else []) xs)"
  by (induction xs) auto

lemma told_errors:
  "told i (errors_of subs) = (if i < length subs \<and> subs ! i = (True, Failed) then {#kError#} else {#})"
  unfolding errors_of_def map_filter_concat
  using told_over [of "[0 ..< length subs]" i "\<lambda>j. subs ! j = (True, Failed)" kError] by simp

text \<open>All closures together tell each accepted submission with a callback once.\<close>

lemma told_all_closures:
  assumes inv: "cq_inv s"
  shows "told i (completed (cq_closures s) (accepted (cq_waiter s))) =
    (if i < length (cq_submits s) \<and> cq_submits s ! i = (True, Accepted) then {#kCompleted#} else {#})"
proof -
  let ?cs = "cq_closures s" and ?subs = "cq_submits s"
  have "map fst (accepted (cq_waiter s)) = [0 ..< length ?cs]"
    using inv by (simp add: cq_inv_def fw_inv_def)
  then have "map (\<lambda>k. ?cs ! fst k) (accepted (cq_waiter s)) = ?cs"
    by (metis map_map [unfolded o_def] map_nth)
  moreover have "completed ?cs ks =
      concat (map (\<lambda>c. if cl_callback c then [(cl_submit c, kCompleted)] else []) (map (\<lambda>k. ?cs ! fst k) ks))"
    for ks
    by (induction ks) (auto simp: completed_def run_closure_def Let_def)
  ultimately have "completed ?cs (accepted (cq_waiter s)) =
      concat (map (\<lambda>c. if cl_callback c then [(cl_submit c, kCompleted)] else []) ?cs)"
    by (metis (no_types))
  also have "\<dots> = concat (map (\<lambda>j. if fst (?subs ! j) then [(j, kCompleted)] else []) (map cl_submit ?cs))"
    unfolding map_map o_def by (rule arg_cong [where f = concat], rule map_cong)
      (use inv in \<open>simp_all add: cq_inv_def\<close>)
  also have "map cl_submit ?cs = accepted_of ?subs" using inv by (simp add: cq_inv_def)
  finally show ?thesis
    using told_over [of "accepted_of ?subs" i "\<lambda>j. fst (?subs ! j)" kCompleted]
    by (auto simp: accepted_of_def prod_eq_iff)
qed

lemma mset_concat_map:
  assumes "mset xs = mset ys"
  shows "mset (concat (map f xs)) = mset (concat (map f ys))"
proof -
  have "mset (concat (map f zs)) = \<Sum>\<^sub># (image_mset (\<lambda>x. mset (f x)) (mset zs))" for zs
    by (induction zs) simp_all
  then show ?thesis using assms by metis
qed

lemma told_part:
  assumes "mset ks + M = mset ls"
  shows "told i (completed cs ks) \<subseteq># told i (completed cs ls)"
proof -
  obtain zs where "mset zs = M" using ex_mset by blast
  then have "mset ls = mset (ks @ zs)" using assms by simp
  then have "mset (completed cs ls) = mset (completed cs (ks @ zs))"
    unfolding completed_def by (rule mset_concat_map)
  then have "told i (completed cs ls) = told i (completed cs (ks @ zs))" by (rule told_cong)
  then show ?thesis by (simp add: completed_def)
qed

lemma subset_single: "M \<subseteq># {#a#} \<Longrightarrow> M = {#} \<or> M = {#a#}"
  by (metis mset_subset_eq_exists_conv union_is_single)

lemma calls_of_submission:
  assumes inv: "cq_inv s" and i: "i < length (cq_submits s)"
  shows "cq_submits s ! i = (False, a) \<Longrightarrow> calls_of i s = []"
    "cq_submits s ! i = (c, Refused) \<Longrightarrow> calls_of i s = []"
    "cq_submits s ! i = (True, Failed) \<Longrightarrow> calls_of i s = [kError]"
    "cq_submits s ! i = (True, Accepted) \<Longrightarrow> calls_of i s = [] \<or> calls_of i s = [kCompleted]"
    "cq_submits s ! i = (True, Accepted) \<Longrightarrow> destroyed (cq_waiter s) \<Longrightarrow> calls_of i s = [kCompleted]"
proof -
  let ?w = "cq_waiter s" and ?cs = "cq_closures s"
  have w: "fw_inv ?w" using inv by (simp add: cq_inv_def)
  obtain M where M: "mset (invoked ?w) + M = mset (accepted ?w)" "destroyed ?w \<Longrightarrow> M = {#}"
    using w unfolding fw_inv_def
    by (metis (no_types, lifting) add.commute empty_neutral(1) in_flight_pc(8) list.map(1) mset.simps(1))
  have "told i (calls_in (cq_events s)) =
      told i (errors_of (cq_submits s)) + told i (completed ?cs (invoked ?w))"
    using inv by (intro told_mset) (simp add: cq_inv_def)
  then have t: "mset (calls_of i s) =
      (if cq_submits s ! i = (True, Failed) then {#kError#} else {#}) + told i (completed ?cs (invoked ?w))"
    using i unfolding calls_of_def told_def [symmetric] by (simp add: told_errors)
  have part: "told i (completed ?cs (invoked ?w)) \<subseteq>#
      (if cq_submits s ! i = (True, Accepted) then {#kCompleted#} else {#})"
    using told_part [OF M(1), of i ?cs] told_all_closures [OF inv, of i] i by simp
  show "cq_submits s ! i = (False, a) \<Longrightarrow> calls_of i s = []"
    "cq_submits s ! i = (c, Refused) \<Longrightarrow> calls_of i s = []"
    "cq_submits s ! i = (True, Failed) \<Longrightarrow> calls_of i s = [kError]"
    using t part by simp_all
  show "cq_submits s ! i = (True, Accepted) \<Longrightarrow> calls_of i s = [] \<or> calls_of i s = [kCompleted]"
    using t subset_single [of _ kCompleted] part by fastforce
  show "calls_of i s = [kCompleted]" if "cq_submits s ! i = (True, Accepted)" "destroyed ?w"
  proof -
    have "mset (invoked ?w) = mset (accepted ?w)" using M that(2) by simp
    then have "told i (completed ?cs (invoked ?w)) = told i (completed ?cs (accepted ?w))"
      using told_part [of "invoked ?w" "{#}" "accepted ?w" i ?cs]
        told_part [of "accepted ?w" "{#}" "invoked ?w" i ?cs] by (simp add: subset_mset.order_antisym)
    then show ?thesis using t told_all_closures [OF inv, of i] i that by simp
  qed
qed

text \<open>The objects that have died, in order.\<close>

definition dead_objects :: "command_queue \<Rightarrow> nat list" where
  "dead_objects s = dead_in (cq_events s)"

lemma freed_subset:
  assumes inv: "cq_inv s"
  shows "mset (freed (cq_closures s) (invoked (cq_waiter s))) \<subseteq>#
    mset (concat (map cl_tracked (cq_closures s)))"
proof -
  let ?w = "cq_waiter s" and ?cs = "cq_closures s"
  obtain zs where zs: "mset (invoked ?w @ zs) = mset (accepted ?w)"
    using inv unfolding cq_inv_def fw_inv_def by (metis add.commute ex_mset mset_append)
  have "map fst (accepted ?w) = [0 ..< length ?cs]" using inv by (simp add: cq_inv_def fw_inv_def)
  then have "map (\<lambda>k. ?cs ! fst k) (accepted ?w) = ?cs" by (metis map_map [unfolded o_def] map_nth)
  then have all: "freed ?cs (accepted ?w) = concat (map cl_tracked ?cs)"
    unfolding freed_def by (metis (no_types, lifting) map_eq_conv map_map o_apply)
  have "mset (freed ?cs (invoked ?w @ zs)) = mset (freed ?cs (accepted ?w))"
    unfolding freed_def by (rule mset_concat_map [OF zs])
  then have "mset (freed ?cs (invoked ?w)) + mset (freed ?cs zs) = mset (concat (map cl_tracked ?cs))"
    using all by (simp add: freed_def)
  then show ?thesis by (metis mset_subset_eq_add_left)
qed

lemma balance:
  assumes "cq_inv s"
  shows "mset (somes (cb_tracked s)) + mset (dead_objects s) +
      mset (concat (map cl_tracked (cq_closures s))) =
    mset [0 ..< length (cb_tracked s)] + mset (freed (cq_closures s) (invoked (cq_waiter s)))"
    and "mset (somes (cb_tracked s)) + mset (concat (map cl_tracked (cq_closures s))) \<subseteq>#
      mset [0 ..< length (cb_tracked s)]"
  using assms by (simp_all only: cq_inv_def dead_objects_def)

lemma cancel_freed: "S + D + C = U + F \<Longrightarrow> C = F + R \<Longrightarrow> S + D + R = U"
  for S D C U F R :: "'a multiset"
  by (simp add: ac_simps)

lemma dead_once:
  assumes inv: "cq_inv s"
  shows "distinct (dead_objects s)"
proof -
  let ?F = "mset (freed (cq_closures s) (invoked (cq_waiter s)))"
    and ?C = "mset (concat (map cl_tracked (cq_closures s)))"
  obtain R where R: "?C = ?F + R" using freed_subset [OF inv] by (metis mset_subset_eq_exists_conv)
  have "mset (somes (cb_tracked s)) + mset (dead_objects s) + R = mset [0 ..< length (cb_tracked s)]"
    by (rule cancel_freed [OF balance(1) [OF inv] R])
  then have "mset (dead_objects s) \<subseteq># mset [0 ..< length (cb_tracked s)]"
    by (metis add.commute add.left_commute mset_subset_eq_add_left)
  then show ?thesis by (rule submset_distinct) simp
qed

lemma distinct_concat_index:
  "distinct (concat ls) \<Longrightarrow> i < length ls \<Longrightarrow> j < length ls \<Longrightarrow> t \<in> set (ls ! i) \<Longrightarrow>
   t \<in> set (ls ! j) \<Longrightarrow> i = j"
proof (induction ls arbitrary: i j)
  case (Cons l ls)
  have "t \<in> set (concat ls)" if "k < length ls" "t \<in> set (ls ! k)" for k
    using that nth_mem by fastforce
  with Cons show ?case by (cases i; cases j) auto
qed simp

text \<open>An object in a closure that has died was freed by a closure of the waiter.\<close>

lemma dead_in_closure:
  assumes inv: "cq_inv s" and e: "e < length (cq_closures s)" "t \<in> set (cl_tracked (cq_closures s ! e))"
    and dead: "t \<in> set (dead_objects s)"
  shows "\<exists>k \<in> set (invoked (cq_waiter s)). fst k = e"
proof -
  let ?cs = "cq_closures s"
  let ?F = "mset (freed ?cs (invoked (cq_waiter s)))" and ?C = "mset (concat (map cl_tracked ?cs))"
  have sub: "mset (somes (cb_tracked s)) + ?C \<subseteq># mset [0 ..< length (cb_tracked s)]"
    and eq: "mset (somes (cb_tracked s)) + mset (dead_objects s) + ?C =
      mset [0 ..< length (cb_tracked s)] + ?F"
    using balance [OF inv] by simp_all
  have "?C \<subseteq># mset [0 ..< length (cb_tracked s)]"
    using sub by (metis add.commute mset_subset_eq_add_left subset_mset.order_trans)
  then have dist: "distinct (concat (map cl_tracked ?cs))" by (rule submset_distinct) simp
  have "?cs ! e \<in> set ?cs" using e(1) by simp
  then have t: "t \<in> set (concat (map cl_tracked ?cs))" using e(2) by auto
  have le: "count (mset [0 ..< length (cb_tracked s)]) t \<le> 1"
    by (metis distinct_count_atmost_1 distinct_upt count_mset_0_iff le_refl zero_le)
  have "count ?C t \<ge> 1" "count (mset (dead_objects s)) t \<ge> 1"
    using t dead by (simp_all add: Suc_le_eq count_greater_zero_iff)
  moreover have "count (mset (somes (cb_tracked s))) t + count (mset (dead_objects s)) t + count ?C t =
      count (mset [0 ..< length (cb_tracked s)]) t + count ?F t"
    using arg_cong [OF eq, of "\<lambda>M. count M t"] by simp
  ultimately have "count ?F t \<ge> 1" using le by linarith
  then have "t \<in> set (freed ?cs (invoked (cq_waiter s)))"
    by (metis count_mset_0_iff not_one_le_zero)
  then obtain k where k: "k \<in> set (invoked (cq_waiter s))" "t \<in> set (cl_tracked (?cs ! fst k))"
    by (auto simp: freed_def)
  have "fst k < length ?cs" using fw_inv_entries(2) k(1) inv by (metis cq_inv_def)
  then have "fst k = e"
    by (intro distinct_concat_index [OF dist, of _ _ t]) (use e k(2) in simp_all)
  then show ?thesis using k(1) by blast
qed

subsection \<open>Properties\<close>

text \<open>A submission is recorded with how it ended.\<close>

lemma Submit_recorded:
  assumes "Submit y bs cb s = Inr (st, t)"
  shows "\<exists>r. cq_submits t = cq_submits s @ [(cb, r)] \<and> (ok st \<longleftrightarrow> r = Accepted) \<and> (bs = [] \<longleftrightarrow> r = Refused)"
proof (cases "bs = []")
  case True
  then show ?thesis using assms by (auto simp: Submit_def ok_def Status_def)
next
  case False
  then obtain p ts tr where e: "end_buffers (end_ok y) bs (cb_tracked s) = Inr (p, ts, tr)"
    using assms by (auto simp: Submit_def result_simps)
  have fail: "cq_submits t = cq_submits u @ [(cb, Failed)] \<and> \<not> ok st"
    if "fail_submit cb us msg u = (st, t)" for us msg u
    using that by (auto simp: fail_submit_def)
  obtain f w where a: "AddFence (Some (the (new_fence y))) True (cq_waiter s) = (f, w)" by fastforce
  show ?thesis
  proof (cases "p \<and> context_alive y \<and> new_fence y \<noteq> None \<and> queue_ok y \<and> f")
    case True
    then show ?thesis using assms \<open>bs \<noteq> []\<close> e a
      by (auto simp: Submit_def Let_def sc_Release_def ok_def Status_ok_def Status_def)
  next
    case False
    then have "cq_submits t = cq_submits s @ [(cb, Failed)] \<and> \<not> ok st"
      using assms \<open>bs \<noteq> []\<close> e a
      by (auto simp: Submit_def Let_def split: if_splits option.splits dest!: fail)
    then show ?thesis using \<open>bs \<noteq> []\<close> by auto
  qed
qed

text \<open>What the callback of a submission was told.\<close>

definition told_right :: "command_queue \<Rightarrow> nat \<Rightarrow> bool" where
  "told_right s i \<longleftrightarrow>
     (case cq_submits s ! i of
        (False, _) \<Rightarrow> calls_of i s = []
      | (True, Refused) \<Rightarrow> calls_of i s = []
      | (True, Failed) \<Rightarrow> calls_of i s = [kError]
      | (True, Accepted) \<Rightarrow> calls_of i s \<in> {[], [kCompleted]} \<and>
          (destroyed (cq_waiter s) \<longrightarrow> calls_of i s = [kCompleted]))"

lemma submission_told:
  assumes inv: "cq_inv s" and i: "i < length (cq_submits s)"
  shows "told_right s i"
proof (cases "cq_submits s ! i")
  case (Pair b r)
  note c = calls_of_submission [OF inv i]
  show ?thesis
  proof (cases b)
    case False
    then show ?thesis using c(1) [of r] Pair by (simp add: told_right_def)
  next
    case True
    then show ?thesis using c(2) [of b] c(3-5) Pair
      by (cases r) (auto simp: told_right_def)
  qed
qed

lemma dies_after_signal:
  assumes inv: "cq_inv s" and live: "\<not> destroyed (cq_waiter s)" and e: "(e, f) \<in> set (accepted (cq_waiter s))"
    and dead: "set (cl_tracked (cq_closures s ! e)) \<inter> set (dead_objects s) \<noteq> {}"
  shows "f \<in> signalled_fences (cq_waiter s)"
proof -
  let ?w = "cq_waiter s"
  have w: "fw_inv ?w" "length (cq_closures s) = length (accepted ?w)"
    using inv by (simp_all add: cq_inv_def)
  have ids: "map fst (accepted ?w) = [0 ..< length (accepted ?w)]" using w(1) by (simp add: fw_inv_def)
  have "e \<in> set (map fst (accepted ?w))" using e by force
  then have "e < length (cq_closures s)" using ids w(2) by simp
  then obtain k where k: "k \<in> set (invoked ?w)" "fst k = e"
    using dead_in_closure [OF inv] dead by blast
  have "distinct (map fst (accepted ?w))" by (simp add: ids)
  then have "k = (e, f)"
    using k e fw_inv_entries(1) [OF w(1) k(1)] by (metis eq_key_imp_eq_value prod.collapse)
  then show ?thesis using w(1) live k(1) by (auto simp: fw_inv_def)
qed

text \<open>
  C33: Every submission is accepted, has failed or was refused because it had no command buffers,
  and its status says so. Whatever the interleaving of submissions with the waiter, the device and
  the end of command buffers, the completion callback of a submission that failed was told about the
  error exactly once, and that of one that was refused is never called; that of an accepted one is
  only told about its completion, at most once, and exactly once when the waiter has been destroyed.
  Tracked objects die at most once, and those of an accepted submission not before its fence was
  signalled, while the waiter lives.
\<close>

theorem submissions_complete_once:
  assumes "reachable_from (\<lambda>s. s = CommandQueue) cq_step s"
  shows "(\<forall>y bs cb st t. Submit y bs cb s = Inr (st, t) \<longrightarrow>
      (\<exists>r. cq_submits t = cq_submits s @ [(cb, r)] \<and> (ok st \<longleftrightarrow> r = Accepted) \<and>
         (bs = [] \<longleftrightarrow> r = Refused))) \<and>
    (\<forall>i < length (cq_submits s).
      (case cq_submits s ! i of
         (False, _) \<Rightarrow> calls_of i s = []
       | (True, Refused) \<Rightarrow> calls_of i s = []
       | (True, Failed) \<Rightarrow> calls_of i s = [kError]
       | (True, Accepted) \<Rightarrow> calls_of i s \<in> {[], [kCompleted]} \<and>
           (destroyed (cq_waiter s) \<longrightarrow> calls_of i s = [kCompleted]))) \<and>
    distinct (dead_objects s) \<and>
    (\<not> destroyed (cq_waiter s) \<longrightarrow>
      (\<forall>(e, f) \<in> set (accepted (cq_waiter s)).
         set (cl_tracked (cq_closures s ! e)) \<inter> set (dead_objects s) \<noteq> {} \<longrightarrow>
         f \<in> signalled_fences (cq_waiter s)))"
proof -
  have inv: "cq_inv s" by (rule cq.reachable_inv [OF assms])
  have told: "\<forall>i < length (cq_submits s). told_right s i" using submission_told [OF inv] by blast
  have dies: "\<not> destroyed (cq_waiter s) \<longrightarrow> (\<forall>(e, f) \<in> set (accepted (cq_waiter s)).
      set (cl_tracked (cq_closures s ! e)) \<inter> set (dead_objects s) \<noteq> {} \<longrightarrow>
      f \<in> signalled_fences (cq_waiter s))"
  proof (intro impI ballI)
    fix p
    assume live: "\<not> destroyed (cq_waiter s)" and "p \<in> set (accepted (cq_waiter s))"
    then show "case p of (e, f) \<Rightarrow> set (cl_tracked (cq_closures s ! e)) \<inter> set (dead_objects s) \<noteq> {} \<longrightarrow>
        f \<in> signalled_fences (cq_waiter s)"
      using dies_after_signal [OF inv live] by (cases p) simp
  qed
  have recorded: "\<forall>y bs cb st t. Submit y bs cb s = Inr (st, t) \<longrightarrow>
      (\<exists>r. cq_submits t = cq_submits s @ [(cb, r)] \<and> (ok st \<longleftrightarrow> r = Accepted) \<and>
         (bs = [] \<longleftrightarrow> r = Refused))"
    by (intro allI impI) (rule Submit_recorded)
  show ?thesis
    by (rule conjI [OF recorded conjI [OF told [unfolded told_right_def]
          conjI [OF dead_once [OF inv] dies]]])
qed

definition demo_answers :: submit_answers where
  "demo_answers = \<lparr>end_ok = (\<lambda>_. True), context_alive = True, new_fence = Some 5, queue_ok = True\<rparr>"

definition demo_queue :: command_queue where
  "demo_queue = CommandBuffer (CommandBuffer CommandQueue)"

definition demo_submitted :: command_queue where
  "demo_submitted = \<lparr>cb_tracked = [None, Some 1], cq_waiter = snd (AddFence (Some 5) True FenceWaiter),
     cq_closures = [\<lparr>cl_submit = 0, cl_tracked = [0], cl_callback = True\<rparr>],
     cq_submits = [(True, Accepted)], cq_gpu = [[0]], cq_events = []\<rparr>"

lemma demo_submits: "Submit demo_answers [0] True demo_queue = Inr (Status_ok, demo_submitted)"
  by (simp add: demo_queue_def demo_submitted_def CommandBuffer_def CommandQueue_def Submit_def
      demo_answers_def EndCommandBuffer_def GetCommandBuffer_def AddFence_def FenceWaiter_def
      sc_Release_def)

definition demo_failed :: command_queue where
  "demo_failed = demo_submitted\<lparr>cb_tracked := [None, None], cq_submits := [(True, Accepted), (True, Failed)],
     cq_events := [Tracked_Destroyed [1], Callback_Run 1 kError]\<rparr>"

lemma demo_fails:
  "Submit (demo_answers\<lparr>new_fence := None\<rparr>) [1] True demo_submitted =
     Inr (Status kCancelled ''Failed to create fence.'', demo_failed)"
  by (simp add: Submit_def demo_answers_def EndCommandBuffer_def GetCommandBuffer_def
      fail_submit_def demo_submitted_def demo_failed_def run_reset_def sc_Reset_def)

theorem submissions_complete_once_witness:
  "\<exists>s. reachable_from (\<lambda>s. s = CommandQueue) cq_step s \<and>
     cq_submits s = [(True, Accepted), (True, Failed)] \<and> \<not> destroyed (cq_waiter s) \<and>
     calls_of 1 s = [kError] \<and> dead_objects s = [1]"
proof -
  let ?R = "reachable_from (\<lambda>s. s = CommandQueue) cq_step"
  have live: "\<not> destroyed (cq_waiter demo_queue)" "\<not> destroyed (cq_waiter demo_submitted)"
    "\<not> destroyed (cq_waiter demo_failed)"
    by (simp_all add: demo_queue_def demo_submitted_def demo_failed_def CommandBuffer_def
        CommandQueue_def FenceWaiter_def AddFence_def)
  have "?R demo_queue" unfolding demo_queue_def
    by (rule reach_step, rule reach_step, rule reach_start, rule refl) (rule cq_new)+
  then have "?R demo_submitted" by (rule reach_step) (rule cq_submit [OF live(1) demo_submits])
  then have r: "?R demo_failed" by (rule reach_step) (rule cq_submit [OF live(2) demo_fails])
  note p = submissions_complete_once [OF r, THEN conjunct2, THEN conjunct1, rule_format, of 1]
  have s: "cq_submits demo_failed = [(True, Accepted), (True, Failed)]" "dead_objects demo_failed = [1]"
    by (simp_all add: demo_failed_def dead_objects_def)
  then have "calls_of 1 demo_failed = [kError]" using p by simp
  then show ?thesis using r live(3) s by blast
qed

subsection \<open>Batched submission is submission\<close>

text \<open>Enqueuing buffers one after the other, as long as it succeeds.\<close>

fun enqueue_all :: "submit_answers \<Rightarrow> nat list \<Rightarrow> batching \<Rightarrow> (bool \<times> batching) result" where
  "enqueue_all y [] c = Inr (True, c)"
| "enqueue_all y (b # bs) c =
     rbind (EnqueueCommandBuffer y b c) (\<lambda>(r, c).
       if r then enqueue_all y bs c else Inr (False, c))"

definition all_succeed :: "submit_answers \<Rightarrow> bool" where
  "all_succeed y \<longleftrightarrow> (\<forall>t. end_ok y t) \<and> context_alive y \<and> new_fence y \<noteq> None \<and> queue_ok y"

definition fresh_buffers :: "nat list \<Rightarrow> command_queue \<Rightarrow> bool" where
  "fresh_buffers bs q \<longleftrightarrow> distinct bs \<and>
     (\<forall>b \<in> set bs. b < length (cb_tracked q) \<and> cb_tracked q ! b \<noteq> None)"

lemma end_fresh_buffers:
  "(\<forall>t. e t) \<Longrightarrow> distinct bs \<Longrightarrow> (\<forall>b \<in> set bs. b < length tr \<and> tr ! b \<noteq> None) \<Longrightarrow>
   \<exists>tr'. end_buffers e bs tr = Inr (True, map (\<lambda>b. the (tr ! b)) bs, tr') \<and> length tr' = length tr \<and>
     (\<forall>b. b \<notin> set bs \<longrightarrow> tr' ! b = tr ! b)"
proof (induction bs arbitrary: tr)
  case (Cons b bs)
  then obtain t where t: "tr ! b = Some t" "b < length tr" by auto
  have f: "\<forall>b' \<in> set bs. b' < length (tr[b := None]) \<and> tr[b := None] ! b' \<noteq> None"
    using Cons.prems(2,3) by (auto simp: nth_list_update)
  have d: "distinct bs" using Cons.prems(2) by simp
  obtain tr' where e: "end_buffers e bs (tr[b := None]) =
      Inr (True, map (\<lambda>b'. the (tr[b := None] ! b')) bs, tr')" "length tr' = length tr"
      "\<forall>b'. b' \<notin> set bs \<longrightarrow> tr' ! b' = tr[b := None] ! b'"
    using Cons.IH [OF Cons.prems(1) d f] by (elim exE conjE) simp
  have "tr[b := None] ! x = tr ! x" if "x \<in> set bs" for x
    using that Cons.prems(2) by (metis distinct.simps(2) nth_list_update_neq)
  then have m: "map (\<lambda>b'. the (tr[b := None] ! b')) bs = map (\<lambda>b'. the (tr ! b')) bs" by simp
  have "end_buffers e (b # bs) tr = Inr (True, map (\<lambda>b. the (tr ! b)) (b # bs), tr')"
    using e(1) t Cons.prems(1) m by (simp add: EndCommandBuffer_def GetCommandBuffer_def)
  moreover have "\<forall>b'. b' \<notin> set (b # bs) \<longrightarrow> tr' ! b' = tr ! b'" using e(3) by simp
  ultimately show ?case using e(2) by blast
qed simp

lemma Submit_fresh:
  assumes "all_succeed y" "fresh_buffers bs q" "bs \<noteq> []" "\<not> terminate (cq_waiter q)"
  shows "\<exists>q'. Submit y bs cb q = Inr (Status_ok, q') \<and>
    cq_gpu q' = cq_gpu q @ [map (\<lambda>b. the (cb_tracked q ! b)) bs] \<and>
    length (cb_tracked q') = length (cb_tracked q) \<and>
    (\<forall>b. b \<notin> set bs \<longrightarrow> cb_tracked q' ! b = cb_tracked q ! b) \<and> \<not> terminate (cq_waiter q')"
proof -
  obtain tr' where e: "end_buffers (end_ok y) bs (cb_tracked q) =
      Inr (True, map (\<lambda>b. the (cb_tracked q ! b)) bs, tr')" "length tr' = length (cb_tracked q)"
      "\<forall>b. b \<notin> set bs \<longrightarrow> tr' ! b = cb_tracked q ! b"
    using end_fresh_buffers [of "end_ok y" bs "cb_tracked q"] assms(1,2)
    by (auto simp: all_succeed_def fresh_buffers_def)
  obtain f where "new_fence y = Some f" using assms(1) by (auto simp: all_succeed_def)
  then show ?thesis using assms e by (simp add: Submit_def all_succeed_def AddFence_def Let_def)
qed

lemma enqueue_batched:
  "should_batch c \<Longrightarrow>
   enqueue_all y bs c =
     Inr (True, c\<lparr>pending_command_buffers := pending_command_buffers c @ bs\<rparr>)"
  by (induction bs arbitrary: c) (simp_all add: EnqueueCommandBuffer_def)

lemma enqueue_unbatched:
  assumes "all_succeed y" "\<not> should_batch c" "fresh_buffers bs (bc_queue c)"
    and "\<not> terminate (cq_waiter (bc_queue c))"
  shows "\<exists>c'. enqueue_all y bs c = Inr (True, c') \<and>
    pending_command_buffers c' = pending_command_buffers c \<and> should_batch c' = should_batch c \<and>
    cq_gpu (bc_queue c') =
      cq_gpu (bc_queue c) @ map (\<lambda>b. [the (cb_tracked (bc_queue c) ! b)]) bs"
  using assms
proof (induction bs arbitrary: c)
  case (Cons b bs)
  have "fresh_buffers [b] (bc_queue c)" using Cons.prems(3) by (simp add: fresh_buffers_def)
  from Submit_fresh [OF Cons.prems(1) this _ Cons.prems(4), of False]
  obtain q where q: "Submit y [b] False (bc_queue c) = Inr (Status_ok, q)"
    "cq_gpu q = cq_gpu (bc_queue c) @ [[the (cb_tracked (bc_queue c) ! b)]]"
    "length (cb_tracked q) = length (cb_tracked (bc_queue c))"
    "\<forall>b'. b' \<noteq> b \<longrightarrow> cb_tracked q ! b' = cb_tracked (bc_queue c) ! b'" "\<not> terminate (cq_waiter q)"
    by auto
  let ?c = "c\<lparr>bc_queue := q\<rparr>"
  have same: "cb_tracked q ! b' = cb_tracked (bc_queue c) ! b'" if "b' \<in> set bs" for b'
    using q(4) that Cons.prems(3) by (auto simp: fresh_buffers_def)
  then have "fresh_buffers bs q" using Cons.prems(3) q(3) by (simp add: fresh_buffers_def)
  then obtain c' where c': "enqueue_all y bs ?c = Inr (True, c')"
    "pending_command_buffers c' = pending_command_buffers c" "should_batch c' = should_batch c"
    "cq_gpu (bc_queue c') = cq_gpu q @ map (\<lambda>b. [the (cb_tracked q ! b)]) bs"
    using Cons.IH [of ?c] Cons.prems(1,2) q(5) by auto
  moreover have "map (\<lambda>b. [the (cb_tracked q ! b)]) bs =
      map (\<lambda>b. [the (cb_tracked (bc_queue c) ! b)]) bs" using same by simp
  moreover have "enqueue_all y (b # bs) c = enqueue_all y bs ?c"
    using q(1) Cons.prems(2) by (simp add: EnqueueCommandBuffer_def)
  ultimately show ?case using q(2) by (intro exI [of _ c']) simp
qed simp

text \<open>
  C34: With a device on which every call succeeds, buffers that are different and not yet submitted,
  and a waiter that was not told to terminate, collecting command buffers and flushing them in
  one submission gives the device the same command buffers in the same order as submitting each
  when it is enqueued, and leaves nothing pending.
\<close>

theorem batching_submits_the_same:
  assumes "all_succeed y" "fresh_buffers bs q" "\<not> terminate (cq_waiter q)"
  shows "\<exists>c c'.
    rbind (enqueue_all y bs \<lparr>should_batch = True, pending_command_buffers = [], bc_queue = q\<rparr>)
      (\<lambda>(r, c). FlushCommandBuffers y c) = Inr (True, c) \<and>
    rbind (enqueue_all y bs \<lparr>should_batch = False, pending_command_buffers = [], bc_queue = q\<rparr>)
      (\<lambda>(r, c). FlushCommandBuffers y c) = Inr (True, c') \<and>
    concat (cq_gpu (bc_queue c)) = concat (cq_gpu (bc_queue c')) \<and>
    concat (cq_gpu (bc_queue c)) = concat (cq_gpu q) @ map (\<lambda>b. the (cb_tracked q ! b)) bs \<and>
    pending_command_buffers c = [] \<and> pending_command_buffers c' = []"
proof -
  let ?b = "\<lparr>should_batch = True, pending_command_buffers = [], bc_queue = q\<rparr>"
    and ?u = "\<lparr>should_batch = False, pending_command_buffers = [], bc_queue = q\<rparr>"
  obtain c' where c': "enqueue_all y bs ?u = Inr (True, c')" "pending_command_buffers c' = []"
    "cq_gpu (bc_queue c') = cq_gpu q @ map (\<lambda>b. [the (cb_tracked q ! b)]) bs"
    using enqueue_unbatched [of y ?u bs] assms by auto
  have "\<exists>c. FlushCommandBuffers y (?b\<lparr>pending_command_buffers := bs\<rparr>) = Inr (True, c) \<and>
      pending_command_buffers c = [] \<and>
      concat (cq_gpu (bc_queue c)) = concat (cq_gpu q) @ map (\<lambda>b. the (cb_tracked q ! b)) bs"
  proof (cases "bs = []")
    case True
    then show ?thesis by (simp add: FlushCommandBuffers_def)
  next
    case False
    from Submit_fresh [OF assms(1,2) False assms(3), of False] False show ?thesis
      by (auto simp: FlushCommandBuffers_def)
  qed
  moreover have "enqueue_all y bs ?b = Inr (True, ?b\<lparr>pending_command_buffers := bs\<rparr>)"
    by (simp add: enqueue_batched)
  moreover have "FlushCommandBuffers y c' = Inr (True, c')" using c'(2) by (simp add: FlushCommandBuffers_def)
  moreover have "concat (map (\<lambda>b. [f b]) bs) = map f bs" for f :: "nat \<Rightarrow> nat" by (induction bs) simp_all
  ultimately show ?thesis using c' by auto
qed

theorem batching_submits_the_same_witness:
  "all_succeed demo_answers \<and> (\<exists>c. rbind (enqueue_all demo_answers [1, 0]
      \<lparr>should_batch = True, pending_command_buffers = [], bc_queue = demo_queue\<rparr>)
      (\<lambda>(r, c). FlushCommandBuffers demo_answers c) = Inr (True, c) \<and>
    concat (cq_gpu (bc_queue c)) = [1, 0])"
proof -
  have y: "all_succeed demo_answers" by (simp add: all_succeed_def demo_answers_def)
  have q: "cb_tracked demo_queue = [Some 0, Some 1]" "\<not> terminate (cq_waiter demo_queue)"
    "cq_gpu demo_queue = []"
    by (simp_all add: demo_queue_def CommandBuffer_def CommandQueue_def FenceWaiter_def)
  have "fresh_buffers [1, 0] demo_queue" by (auto simp: fresh_buffers_def q(1))
  from batching_submits_the_same [OF y this q(2)] y q show ?thesis by auto
qed

subsection \<open>What goes wrong\<close>

text \<open>
  When the fence cannot be added the device already works on the submission, but its objects are
  destroyed and the caller is told that it failed.
\<close>

lemma late_failure_frees_objects_in_use:
  assumes "all_succeed y" "fresh_buffers bs q" "bs \<noteq> []" "terminate (cq_waiter q)"
  shows "\<exists>q'. Submit y bs True q = Inr (Status kCancelled ''Failed to add fence.'', q') \<and>
    cq_gpu q' = cq_gpu q @ [map (\<lambda>b. the (cb_tracked q ! b)) bs] \<and>
    dead_objects q' = dead_objects q @ map (\<lambda>b. the (cb_tracked q ! b)) bs"
proof -
  obtain tr' where e: "end_buffers (end_ok y) bs (cb_tracked q) =
      Inr (True, map (\<lambda>b. the (cb_tracked q ! b)) bs, tr')"
    using end_fresh_buffers [of "end_ok y" bs "cb_tracked q"] assms(1,2)
    by (auto simp: all_succeed_def fresh_buffers_def)
  obtain f where "new_fence y = Some f" using assms(1) by (auto simp: all_succeed_def)
  then show ?thesis using assms e
    by (simp add: Submit_def all_succeed_def AddFence_def Let_def fail_submit_def dead_objects_def)
qed

text \<open>A buffer that was submitted has no tracked objects to read when it is submitted again.\<close>

lemma second_submit_undefined:
  "b < length (cb_tracked q) \<Longrightarrow> cb_tracked q ! b = None \<Longrightarrow>
   Submit y [b] cb q = Inl Undefined_Behaviour"
  by (simp add: Submit_def EndCommandBuffer_def)

text \<open>A submission without buffers returns an error and never calls its callback.\<close>

lemma empty_submit_forgets_callback:
  "\<exists>t. Submit y [] True q = Inr (Status kInvalidArgument ''No command buffers provided.'', t) \<and>
     cq_events t = cq_events q"
  by (simp add: Submit_def)

text \<open>A flush that fails drops the buffers that were pending.\<close>

lemma failed_flush_drops_buffers:
  assumes "should_batch c" "FlushCommandBuffers y c = Inr (r, c')"
  shows "pending_command_buffers c' = []"
  using assms by (auto simp: FlushCommandBuffers_def result_simps split: if_splits)

end
