(* ===== verification/Surface.thy ===== *)
theory Surface
  imports Render_Target_Props
begin

text \<open>
  The render target of a swapchain image: \<^verbatim>\<open>src/hal/swapchain/surface_vk.{h,cc}\<close> with the textures
  all images of a swapchain share, \<^verbatim>\<open>src/hal/swapchain/swapchain_transients_vk.{h,cc}\<close>.

  As in \<open>Render_Target\<close> the allocator is a function of the number of the call. The context is alive,
  except where the weak pointer to it is read; the callback of a surface is a parameter of any type.
\<close>

subsection \<open>Transients\<close>

record transients =
  tr_alive :: bool
  tr_desc :: texture_descriptor
  tr_msaa :: bool
  cached_msaa_texture :: "texture_vk option"
  cached_depth_stencil :: "texture_vk option"

definition SwapchainTransients :: "bool \<Rightarrow> texture_descriptor \<Rightarrow> bool \<Rightarrow> transients" where
  "SwapchainTransients alive d msaa = \<lparr>tr_alive = alive, tr_desc = d, tr_msaa = msaa,
     cached_msaa_texture = None, cached_depth_stencil = None\<rparr>"

definition CreateMSAATexture ::
  "render_context \<Rightarrow> transients \<Rightarrow> nat \<Rightarrow> (texture_vk option \<times> nat) result"
where
  "CreateMSAATexture env tr n =
     (if \<not> tr_msaa tr then Inr (None, n)
      else
        let msaa_desc = default_texture_descriptor
              \<lparr>storage_mode := kDeviceTransient, texture_type := kTexture2DMultisample,
               sample_count := kCount4, format := format (tr_desc tr),
               tex_size := tex_size (tr_desc tr), usage := render_usage\<rparr>
        in if \<not> tr_alive tr then Inr (None, n) else CreateTexture env msaa_desc n)"

definition CreateDepthStencilTexture ::
  "render_context \<Rightarrow> transients \<Rightarrow> nat \<Rightarrow> (texture_vk option \<times> nat) result"
where
  "CreateDepthStencilTexture env tr n =
     (if \<not> tr_alive tr then Inr (None, n)
      else
        let d = default_texture_descriptor\<lparr>storage_mode := kDeviceTransient\<rparr>;
            d = (if tr_msaa tr
                 then d\<lparr>texture_type := kTexture2DMultisample, sample_count := kCount4\<rparr>
                 else d\<lparr>texture_type := kTexture2D, sample_count := kCount1\<rparr>)
        in CreateTexture env
             (d\<lparr>format := default_depth_stencil_format env, tex_size := tex_size (tr_desc tr),
                usage := render_usage\<rparr>) n)"

definition GetMSAATexture ::
  "render_context \<Rightarrow> transients \<Rightarrow> nat \<Rightarrow> (texture_vk option \<times> transients \<times> nat) result"
where
  "GetMSAATexture env tr n =
     (case cached_msaa_texture tr of
        Some t \<Rightarrow> Inr (Some t, tr, n)
      | None \<Rightarrow> rbind (CreateMSAATexture env tr n) (\<lambda>(t, n).
          Inr (t, tr\<lparr>cached_msaa_texture := t\<rparr>, n)))"

definition GetDepthStencilTexture ::
  "render_context \<Rightarrow> transients \<Rightarrow> nat \<Rightarrow> (texture_vk option \<times> transients \<times> nat) result"
where
  "GetDepthStencilTexture env tr n =
     (case cached_depth_stencil tr of
        Some t \<Rightarrow> Inr (Some t, tr, n)
      | None \<Rightarrow> rbind (CreateDepthStencilTexture env tr n) (\<lambda>(t, n).
          Inr (t, tr\<lparr>cached_depth_stencil := t\<rparr>, n)))"

subsection \<open>Surfaces\<close>

record ('c, 'd, 'b) surface =
  sf_target :: "('c, 'd) render_target"
  sf_size :: size
  sf_valid :: bool
  swap_callback :: 'b

definition Surface :: "('c, 'd) render_target \<Rightarrow> 'b \<Rightarrow> ('c, 'd, 'b) surface result" where
  "Surface target cb =
     rbind (GetColorAttachmentSize 0 target) (\<lambda>s.
       Inr (case s of
              Some sz \<Rightarrow> \<lparr>sf_target = target, sf_size = sz, sf_valid = True, swap_callback = cb\<rparr>
            | None \<Rightarrow> \<lparr>sf_target = target, sf_size = \<lparr>width = 0, height = 0\<rparr>, sf_valid = False,
                       swap_callback = cb\<rparr>))"

text \<open>
  The arguments are the colour and depth that attachments are cleared to, the transients, the
  texture that wraps the image of the swapchain, and the callback; none of the pointers may be null.
\<close>

definition onscreen_color ::
  "'c \<Rightarrow> texture_vk option \<Rightarrow> bool \<Rightarrow> texture_vk \<Rightarrow> 'c attachment"
where
  "onscreen_color slate msaa_texture msaa resolve_tex =
     (let color0 = (default_attachment slate)\<lparr>load_action := LoadAction.kClear\<rparr>
      in if msaa
         then color0\<lparr>texture := msaa_texture, store_action := StoreAction.kMultisampleResolve,
                     resolve_texture := Some resolve_tex\<rparr>
         else color0\<lparr>texture := Some resolve_tex, store_action := StoreAction.kStore\<rparr>)"

definition WrapSwapchainImage ::
  "render_context \<Rightarrow> 'c \<Rightarrow> 'c \<Rightarrow> 'd \<Rightarrow> transients option \<Rightarrow> texture_vk option \<Rightarrow> 'b option \<Rightarrow> nat \<Rightarrow>
   (('c, 'd, 'b) surface option \<times> transients option \<times> nat) result"
where
  "WrapSwapchainImage env slate black zero trs img cb n =
     (case (trs, img, cb) of
        (Some tr, Some resolve_tex, Some cb) \<Rightarrow>
          if \<not> tr_alive tr then Inr (None, Some tr, n)
          else
            rbind (if tr_msaa tr then GetMSAATexture env tr n else Inr (None, tr, n))
              (\<lambda>(msaa_texture, tr, n).
            let t = SetColorAttachment (onscreen_color slate msaa_texture (tr_msaa tr) resolve_tex) 0
                      RenderTarget
            in rbind (GetDepthStencilTexture env tr n) (\<lambda>(ds, tr, n).
               rbind (SetupDepthStencilAttachments env zero (tex_size (tex_desc resolve_tex))
                        (tr_msaa tr) (kDefaultStencilAttachmentConfig black) ds (t, n)) (\<lambda>(t, n).
               rbind (Surface t cb) (\<lambda>s. Inr (Some s, Some tr, n)))))
      | _ \<Rightarrow> Inr (None, trs, n))"

subsection \<open>Shapes\<close>

text \<open>A texture has the given shape.\<close>

definition tex_shape :: "texture_vk \<Rightarrow> size \<times> TextureType \<times> SampleCount" where
  "tex_shape t = (tex_GetSize t, texture_type (tex_desc t), sample_count (tex_desc t))"

definition onscreen_shape :: "size \<Rightarrow> bool \<Rightarrow> size \<times> TextureType \<times> SampleCount" where
  "onscreen_shape sz msaa = (sz, ms_type msaa, ms_count msaa)"

text \<open>The cached textures have the size of the images, and the sample count of the swapchain.\<close>

definition tr_ok :: "transients \<Rightarrow> bool" where
  "tr_ok tr \<longleftrightarrow>
     (\<forall>t. cached_msaa_texture tr = Some t \<longrightarrow> has_source t \<and>
        tex_shape t = onscreen_shape (tex_size (tr_desc tr)) True) \<and>
     (\<forall>t. cached_depth_stencil tr = Some t \<longrightarrow> has_source t \<and>
        tex_shape t = onscreen_shape (tex_size (tr_desc tr)) (tr_msaa tr))"

lemma tr_ok_start: "tr_ok (SwapchainTransients alive d msaa)"
  by (simp add: tr_ok_def SwapchainTransients_def)

lemma created_shape:
  assumes "faithful env" "CreateTexture env d n = Inr (Some t, n')"
  shows "has_source t \<and> tex_shape t = (tex_size d, texture_type d, sample_count d)"
  using CreateTexture_Some [OF assms] by (auto simp: tex_shape_def tex_GetSize_def)

lemma GetMSAATexture_ok:
  assumes "faithful env" "tr_ok tr" "GetMSAATexture env tr n = Inr (t, tr', n')"
  shows "tr_ok tr' \<and> tr' = tr\<lparr>cached_msaa_texture := t\<rparr> \<and>
    (\<forall>x. t = Some x \<longrightarrow> has_source x \<and> tex_shape x = onscreen_shape (tex_size (tr_desc tr)) True)"
proof (cases "cached_msaa_texture tr")
  case None
  then have "CreateMSAATexture env tr n = Inr (t, n')" and t: "tr' = tr\<lparr>cached_msaa_texture := t\<rparr>"
    using assms(3) by (auto simp: GetMSAATexture_def result_simps)
  then have "has_source x \<and> tex_shape x = onscreen_shape (tex_size (tr_desc tr)) True"
    if "t = Some x" for x
    using that created_shape [OF assms(1)]
    by (fastforce simp: CreateMSAATexture_def onscreen_shape_def default_texture_descriptor_def Let_def
        split: if_splits)
  then show ?thesis using assms(2) by (simp add: tr_ok_def t)
next
  case (Some x)
  then show ?thesis using assms by (auto simp: GetMSAATexture_def tr_ok_def)
qed

lemma GetDepthStencilTexture_ok:
  assumes "faithful env" "tr_ok tr" "GetDepthStencilTexture env tr n = Inr (t, tr', n')"
  shows "tr_ok tr' \<and> tr' = tr\<lparr>cached_depth_stencil := t\<rparr> \<and>
    (\<forall>x. t = Some x \<longrightarrow> has_source x \<and>
       tex_shape x = onscreen_shape (tex_size (tr_desc tr)) (tr_msaa tr))"
proof (cases "cached_depth_stencil tr")
  case None
  then have "CreateDepthStencilTexture env tr n = Inr (t, n')"
    and t: "tr' = tr\<lparr>cached_depth_stencil := t\<rparr>"
    using assms(3) by (auto simp: GetDepthStencilTexture_def result_simps)
  then have "has_source x \<and> tex_shape x = onscreen_shape (tex_size (tr_desc tr)) (tr_msaa tr)"
    if "t = Some x" for x
    using that created_shape [OF assms(1)]
    by (fastforce simp: CreateDepthStencilTexture_def onscreen_shape_def default_texture_descriptor_def
        Let_def split: if_splits)
  then show ?thesis using assms(2) by (simp add: tr_ok_def t)
next
  case (Some x)
  then show ?thesis using assms by (auto simp: GetDepthStencilTexture_def tr_ok_def)
qed

text \<open>With a texture of its own or of the caller, the depth and stencil attachments have the shape.\<close>

lemma setup_existing_shape:
  assumes f: "faithful env" and ok: "rt_ok t" and none: "depth t = None" "stencil t = None"
    and ds: "\<And>x. ds = Some x \<Longrightarrow> tex_shape x = onscreen_shape sz msaa"
    and s: "SetupDepthStencilAttachments env zero sz msaa (kDefaultStencilAttachmentConfig black) ds
              (t, n) = Inr (t', n')"
  shows "rt_ok t' \<and> color0 t' = color0 t \<and> colors t' = colors t \<and>
    (\<forall>a \<in> set (ds_attachments t'). shape a = onscreen_shape sz msaa)"
proof (cases ds)
  case None
  then have "setup_or_clear env zero sz msaa (Some (kDefaultStencilAttachmentConfig black)) None (t, n) =
      Inr (t', n')" using s by (simp add: setup_or_clear_def)
  from setup_shape [OF f ok none this] show ?thesis by (simp add: onscreen_shape_def)
next
  case (Some x)
  define dep where "dep = \<lparr>texture = Some x, resolve_texture = None,
    load_action = LoadAction.kClear, store_action = StoreAction.kDontCare, clear_value = zero\<rparr>"
  define ste where "ste = \<lparr>texture = Some x, resolve_texture = None,
    load_action = LoadAction.kClear, store_action = StoreAction.kDontCare, clear_value = 0 :: u32\<rparr>"
  have t': "t' = SetStencilAttachment (Some ste) (SetDepthAttachment (Some dep) t)"
    using s Some
    by (simp add: SetupDepthStencilAttachments_def kDefaultStencilAttachmentConfig_def dep_def ste_def)
  have "shape (base dep) = onscreen_shape sz msaa" "shape (base ste) = onscreen_shape sz msaa"
    using ds [OF Some] by (simp_all add: shape_def tex_shape_def dep_def ste_def)
  moreover have "rt_ok t'" unfolding t' by (intro inv_intros ok)
  ultimately show ?thesis using none
    by (auto simp: t' SetStencilAttachment_def SetDepthAttachment_def ds_attachments_def)
qed

subsection \<open>Properties\<close>

lemma onscreen_color_valid:
  assumes "has_source img" "storage_mode (tex_desc img) = kDevicePrivate"
    and "\<And>x. m = Some x \<Longrightarrow> has_source x"
  shows "att_IsValid (onscreen_color slate m msaa img) \<longleftrightarrow> \<not> (msaa \<and> m = None)"
  using assms
  by (cases msaa; cases m)
    (simp_all add: att_IsValid_def onscreen_color_def tex_IsValid_def default_attachment_def Let_def)

lemma onscreen_color_shape:
  assumes v: "att_IsValid (onscreen_color slate m msaa img)"
    and img: "tex_shape img = onscreen_shape sz False"
    and m: "\<And>x. m = Some x \<Longrightarrow> tex_shape x = onscreen_shape sz True"
  shows "shape (base (onscreen_color slate m msaa img)) = onscreen_shape sz msaa"
proof (cases msaa)
  case True
  then obtain x where "m = Some x" using valid_texture [OF v] by (auto simp: onscreen_color_def)
  then show ?thesis using True m by (simp add: shape_def tex_shape_def onscreen_color_def)
next
  case False
  then show ?thesis using img by (simp add: shape_def tex_shape_def onscreen_color_def)
qed

text \<open>
  Wrapping an image of the swapchain, with an allocator that returns what it is asked for, gives
  a surface that is valid exactly when its colour attachment could be set up, which fails only when
  the multisample texture could not be created. The render target of a valid surface passes the
  checks of a debug build and has the size of the image and one or four samples as configured; the
  multisample texture resolves to the image; and the shared textures keep their shape for the next
  image.
\<close>

theorem onscreen_surface_valid:
  assumes env: "faithful env" and tr: "tr_ok tr" "tr_alive tr"
    and img: "has_source img" "storage_mode (tex_desc img) = kDevicePrivate"
      "tex_shape img = onscreen_shape (tex_size (tr_desc tr)) False"
    and w: "WrapSwapchainImage env slate black zero (Some tr) (Some img) (Some cb) n =
      Inr (s, tr', n')"
  shows "\<exists>sf t. s = Some sf \<and> tr' = Some t \<and> tr_ok t \<and> tr_desc t = tr_desc tr \<and>
    swap_callback sf = cb \<and>
    (sf_valid sf \<longleftrightarrow> \<not> (tr_msaa tr \<and> cached_msaa_texture t = None)) \<and>
    (sf_valid sf \<longrightarrow>
       rt_IsValid False (sf_target sf) = Inr True \<and> sf_size sf = tex_GetSize img \<and>
       GetSampleCount (sf_target sf) = Inr (ms_count (tr_msaa tr)) \<and>
       GetRenderTargetTexture (sf_target sf) = Some img)"
proof -
  define sz where "sz = tex_size (tr_desc tr)"
  obtain m tr1 n1 where m: "(if tr_msaa tr then GetMSAATexture env tr n else Inr (None, tr, n)) =
      Inr (m, tr1, n1)"
    using w tr(2) by (auto simp: WrapSwapchainImage_def result_simps)
  let ?a = "onscreen_color slate m (tr_msaa tr) img"
  let ?t0 = "SetColorAttachment ?a 0 RenderTarget"
  have m_ok: "tr_ok tr1" "tr_desc tr1 = tr_desc tr" "tr_msaa tr1 = tr_msaa tr"
    "\<And>x. m = Some x \<Longrightarrow> has_source x \<and> tex_shape x = onscreen_shape sz True"
    "tr_msaa tr \<Longrightarrow> cached_msaa_texture tr1 = m"
    using GetMSAATexture_ok [OF env tr(1), of n m tr1 n1] m tr(1)
    by (cases "tr_msaa tr"; clarsimp simp: sz_def)+
  obtain ds tr2 n2 where d: "GetDepthStencilTexture env tr1 n1 = Inr (ds, tr2, n2)"
    using w tr(2) m m_ok(3) by (auto simp: WrapSwapchainImage_def result_simps Let_def)
  note d_ok = GetDepthStencilTexture_ok [OF env m_ok(1) d]
  obtain t n3 where t: "SetupDepthStencilAttachments env zero (tex_size (tex_desc img)) (tr_msaa tr)
      (kDefaultStencilAttachmentConfig black) ds (?t0, n2) = Inr (t, n3)"
    using w tr(2) m m_ok(3) d d_ok by (auto simp: WrapSwapchainImage_def result_simps Let_def)
  have szs: "tex_size (tex_desc img) = sz" "tex_GetSize img = sz"
    using img(3) by (simp_all add: tex_shape_def tex_GetSize_def onscreen_shape_def sz_def)
  have ok0: "rt_ok ?t0" by (rule rt_ok_color [OF rt_ok_start])
  have t0: "depth ?t0 = None" "stencil ?t0 = None" "colors ?t0 = []"
    "color0 ?t0 = (if att_IsValid ?a then Some ?a else None)"
    by (simp_all add: SetColorAttachment_def RenderTarget_def)
  have ds_sh: "tex_shape x = onscreen_shape sz (tr_msaa tr)" if "ds = Some x" for x
    using that d_ok m_ok(2,3) by (simp add: sz_def)
  from setup_existing_shape [OF env ok0 t0(1,2) ds_sh t [unfolded szs(1)]]
  have t_ok: "rt_ok t" "color0 t = (if att_IsValid ?a then Some ?a else None)" "colors t = []"
    "\<forall>a \<in> set (ds_attachments t). shape a = onscreen_shape sz (tr_msaa tr)"
    by (simp_all add: t0(3,4))
  obtain sf where sf: "Surface t cb = Inr sf" "s = Some sf" "tr' = Some tr2"
    using w tr(2) m m_ok(3) d d_ok t by (auto simp: WrapSwapchainImage_def result_simps Let_def)
  have valid: "att_IsValid ?a \<longleftrightarrow> \<not> (tr_msaa tr \<and> m = None)"
    by (rule onscreen_color_valid [OF img(1,2)]) (use m_ok(4) in simp)
  have target: "sf_target sf = t" "swap_callback sf = cb" "sf_valid sf \<longleftrightarrow> att_IsValid ?a"
    "sf_valid sf \<Longrightarrow> GetColorAttachmentSize 0 t = Inr (Some (sf_size sf))"
    using sf(1) valid_texture [of ?a] t_ok(2)
    by (auto simp: Surface_def GetColorAttachmentSize_def deref_def result_simps split: if_splits)
  have "rt_IsValid False t = Inr True \<and> sf_size sf = sz \<and>
      GetSampleCount t = Inr (ms_count (tr_msaa tr)) \<and> GetRenderTargetTexture t = Some img"
    if v: "sf_valid sf"
  proof -
    have c: "color0 t = Some ?a" and va: "att_IsValid ?a" using v target(3) t_ok(2) by simp_all
    have sh: "shape (base ?a) = onscreen_shape sz (tr_msaa tr)"
      by (rule onscreen_color_shape [OF va]) (use img(3) m_ok(4) in \<open>simp_all add: sz_def\<close>)
    obtain x where x: "texture ?a = Some x" using valid_texture [OF va] by blast
    have "rt_IsValid False t = Inr True" by (rule single_color_valid [OF t_ok(1) c t_ok(3) sh t_ok(4)])
    moreover have "GetRenderTargetTexture t = Some img"
      by (cases "tr_msaa tr")
        (simp_all add: GetRenderTargetTexture_def c onscreen_color_def default_attachment_def Let_def)
    moreover have "GetSampleCount t = Inr (ms_count (tr_msaa tr))" "sf_size sf = sz"
      using sh x c target(4) [OF v]
      by (simp_all add: GetSampleCount_def GetColorAttachmentSize_def deref_def shape_def onscreen_shape_def)
    ultimately show ?thesis by simp
  qed
  moreover have "cached_msaa_texture tr2 = cached_msaa_texture tr1" "tr_desc tr2 = tr_desc tr"
    using d_ok m_ok(2) by simp_all
  ultimately show ?thesis
    using sf(2,3) target valid d_ok m_ok(5) szs(2) by (intro exI [of _ sf] exI [of _ tr2]) auto
qed

definition demo_image :: texture_vk where
  "demo_image = \<lparr>tex_id = 9, has_source = True, tex_desc = default_texture_descriptor
     \<lparr>storage_mode := kDevicePrivate, format := kB8G8R8A8UNormInt,
      tex_size := \<lparr>width = 8, height = 6\<rparr>, usage := render_usage\<rparr>\<rparr>"

theorem onscreen_surface_valid_witness:
  "\<exists>sf tr n. WrapSwapchainImage demo_context (1 :: nat) 0 (0 :: nat)
      (Some (SwapchainTransients True (tex_desc demo_image) True)) (Some demo_image)
      (Some (7 :: nat)) 0 = Inr (Some sf, tr, n) \<and>
    sf_valid sf \<and> sf_size sf = \<lparr>width = 8, height = 6\<rparr> \<and>
    rt_IsValid False (sf_target sf) = Inr True"
proof -
  let ?tr = "SwapchainTransients True (tex_desc demo_image) True"
  have f: "faithful demo_context" by (auto simp: faithful_def demo_context_def)
  have img: "has_source demo_image" "storage_mode (tex_desc demo_image) = kDevicePrivate"
    "tex_shape demo_image = onscreen_shape (tex_size (tr_desc ?tr)) False" "tr_alive ?tr"
    by (simp_all add: demo_image_def tex_shape_def onscreen_shape_def tex_GetSize_def
        SwapchainTransients_def default_texture_descriptor_def)
  obtain sf tr n where w: "WrapSwapchainImage demo_context (1 :: nat) 0 (0 :: nat) (Some ?tr)
      (Some demo_image) (Some (7 :: nat)) 0 = Inr (Some sf, Some tr, n)"
    "cached_msaa_texture tr \<noteq> None"
    by (simp add: WrapSwapchainImage_def SwapchainTransients_def GetMSAATexture_def CreateMSAATexture_def
        GetDepthStencilTexture_def CreateDepthStencilTexture_def CreateTexture_def demo_context_def
        demo_image_def default_texture_descriptor_def Let_def SetupDepthStencilAttachments_def
        Surface_def GetColorAttachmentSize_def SetDepthAttachment_def SetStencilAttachment_def
        SetColorAttachment_def att_IsValid_def tex_IsValid_def RenderTarget_def onscreen_color_def
        default_attachment_def deref_def kDefaultStencilAttachmentConfig_def)
  from onscreen_surface_valid [OF f tr_ok_start img(4,1-3) w(1)] w(2)
  have "sf_valid sf" "rt_IsValid False (sf_target sf) = Inr True" "sf_size sf = tex_GetSize demo_image"
    by auto
  then show ?thesis using w(1) by (auto simp: tex_GetSize_def demo_image_def)
qed

text \<open>
  When the multisample texture cannot be created the caller still gets a surface, whose render
  target has no colour attachment.
\<close>

lemma surface_without_color:
  "GetColorAttachmentSize 0 t = Inr None \<Longrightarrow>
   \<exists>sf. Surface t cb = Inr sf \<and> \<not> sf_valid sf"
  by (simp add: Surface_def)

end
