(* ===== verification/Swapchain.thy ===== *)
theory Swapchain
  imports Formats_Vk
begin

text \<open>
  The swapchain of a window: \<^verbatim>\<open>src/hal/swapchain/khr/khr_swapchain_impl_vk.{h,cc}\<close>, an instance for
  one size of the surface, and \<^verbatim>\<open>khr_swapchain_vk.{h,cc}\<close>, which replaces the instance when it is out
  of date.

  Fences are in one of three states; waiting for one that the device has not signalled does not
  return, which is the value \<open>None\<close>. What the driver answers to a call is a parameter. Images, command
  buffers and fences are numbers; the surface of an acquired image is the number of the image (its
  render target is built in \<open>Surface\<close>).
\<close>

subsection \<open>Choosing a configuration\<close>

datatype VkColorSpace = eSrgbNonlinear | unlisted_color_space nat

type_synonym surface_format = "VkFormat \<times> VkColorSpace"

definition ContainsFormat :: "surface_format list \<Rightarrow> surface_format \<Rightarrow> bool" where
  "ContainsFormat formats f \<longleftrightarrow> f \<in> set formats"

definition ChooseSurfaceFormat :: "surface_format list \<Rightarrow> PixelFormat \<Rightarrow> surface_format option" where
  "ChooseSurfaceFormat formats preference =
     (let vk_preference = (ToVKImageFormat preference, eSrgbNonlinear)
      in if ContainsFormat formats vk_preference then Some vk_preference
         else find (ContainsFormat formats)
                [(VkFormat.eB8G8R8A8Unorm, eSrgbNonlinear), (VkFormat.eR8G8B8A8Unorm, eSrgbNonlinear)])"

datatype VkCompositeAlpha = eInherit | ePreMultiplied | ePostMultiplied | eOpaque

definition ChooseAlphaCompositionMode :: "VkCompositeAlpha set \<Rightarrow> VkCompositeAlpha option" where
  "ChooseAlphaCompositionMode flags =
     (if eInherit \<in> flags then Some eInherit
      else if ePreMultiplied \<in> flags then Some ePreMultiplied
      else if ePostMultiplied \<in> flags then Some ePostMultiplied
      else if eOpaque \<in> flags then Some eOpaque
      else None)"

record surface_caps =
  minImageCount :: u32
  maxImageCount :: u32
  currentExtent :: "u32 \<times> u32"
  minImageExtent :: "u32 \<times> u32"
  maxImageExtent :: "u32 \<times> u32"
  supportedCompositeAlpha :: "VkCompositeAlpha set"

definition u32_clamp :: "u32 \<Rightarrow> u32 \<Rightarrow> u32 \<Rightarrow> u32" where
  "u32_clamp v lo hi = (if v < lo then lo else if hi < v then hi else v)"

definition image_extent :: "surface_caps \<Rightarrow> size \<Rightarrow> u32 \<times> u32" where
  "image_extent caps sz =
     (u32_clamp (word_of_int (width sz)) (fst (minImageExtent caps)) (fst (maxImageExtent caps)),
      u32_clamp (word_of_int (height sz)) (snd (minImageExtent caps)) (snd (maxImageExtent caps)))"

definition min_image_count :: "surface_caps \<Rightarrow> u32" where
  "min_image_count caps =
     u32_clamp (minImageCount caps + 1) (minImageCount caps)
       (if maxImageCount caps = 0 then minImageCount caps + 1 else maxImageCount caps)"

subsection \<open>An instance\<close>

definition kMaxFramesInFlight :: nat where "kMaxFramesInFlight = 2"

datatype fence_state = Fence_Signaled | Fence_Unsignaled | Fence_In_Flight

record frame_sync =
  acquire_fence :: fence_state
  final_cmd_buffer :: "nat option"
  has_onscreen :: bool

definition KHRFrameSynchronizer :: frame_sync where
  "KHRFrameSynchronizer =
     \<lparr>acquire_fence = Fence_Signaled, final_cmd_buffer = None, has_onscreen = False\<rparr>"

text \<open>What an instance gave to the queue.\<close>

datatype swap_op =
    Layout_Present nat nat      \<comment> \<open>image, command buffer\<close>
  | Frame_Submit nat nat nat    \<comment> \<open>command buffer, frame with its semaphore and fence, image\<close>
  | Image_Present nat

record khr_impl =
  kh_context :: bool            \<comment> \<open>the context is known and alive\<close>
  kh_format :: VkFormat
  kh_extent :: "u32 \<times> u32"
  kh_images :: nat
  kh_syncs :: "frame_sync list"
  kh_frame :: nat
  kh_size :: size
  kh_msaa :: bool
  kh_valid :: bool
  kh_ops :: "swap_op list"

record create_answers =
  cr_context :: bool
  cr_caps :: "surface_caps option"
  cr_formats :: "surface_format list option"
  cr_swapchain :: "surface_format \<Rightarrow> (u32 \<times> u32) \<Rightarrow> u32 \<Rightarrow> VkCompositeAlpha \<Rightarrow> bool"
  cr_images :: "nat option"
  cr_image_valid :: "nat \<Rightarrow> bool"
  cr_semaphore :: "nat \<Rightarrow> bool"
  cr_synchronizer :: "nat \<Rightarrow> bool"

definition invalid_impl :: khr_impl where
  "invalid_impl = \<lparr>kh_context = False, kh_format = VkFormat.eUndefined, kh_extent = (0, 0),
     kh_images = 0, kh_syncs = [], kh_frame = 0, kh_size = \<lparr>width = 0, height = 0\<rparr>,
     kh_msaa = True, kh_valid = False, kh_ops = []\<rparr>"

text \<open>
  The constructor: it also tells the context the format of the surface, as long as it gets there.
\<close>

definition KHRSwapchainImpl ::
  "create_answers \<Rightarrow> PixelFormat \<Rightarrow> size \<Rightarrow> bool \<Rightarrow> khr_impl \<times> PixelFormat option"
where
  "KHRSwapchainImpl y preference sz msaa =
     (if \<not> cr_context y then (invalid_impl, None)
      else case (cr_caps y, cr_formats y) of
        (Some caps, Some formats) \<Rightarrow>
          (case ChooseSurfaceFormat formats preference of
             None \<Rightarrow> (invalid_impl, None)
           | Some f \<Rightarrow>
               let offscreen = Some (ToPixelFormat (fst f))
               in case ChooseAlphaCompositionMode (supportedCompositeAlpha caps) of
                    None \<Rightarrow> (invalid_impl, offscreen)
                  | Some composite \<Rightarrow>
                      if \<not> cr_swapchain y f (image_extent caps sz) (min_image_count caps) composite
                      then (invalid_impl, offscreen)
                      else case cr_images y of
                        None \<Rightarrow> (invalid_impl, offscreen)
                      | Some n \<Rightarrow>
                          if \<not> list_all (\<lambda>i. cr_image_valid y i \<and> cr_semaphore y i) [0 ..< n] \<or>
                             \<not> list_all (cr_synchronizer y) [0 ..< kMaxFramesInFlight]
                          then (invalid_impl, offscreen)
                          else (\<lparr>kh_context = True, kh_format = fst f,
                                 kh_extent = image_extent caps sz, kh_images = n,
                                 kh_syncs = replicate kMaxFramesInFlight KHRFrameSynchronizer,
                                 kh_frame = kMaxFramesInFlight - 1, kh_size = sz, kh_msaa = msaa,
                                 kh_valid = True, kh_ops = []\<rparr>, offscreen))
      | _ \<Rightarrow> (invalid_impl, None))"

definition GetCurrentUnderlyingSurfaceSize ::
  "surface_caps option \<Rightarrow> khr_impl \<Rightarrow> size option"
where
  "GetCurrentUnderlyingSurfaceSize caps s =
     (if \<not> kh_valid s then None
      else if \<not> kh_context s then None
      else case caps of
        None \<Rightarrow> None
      | Some c \<Rightarrow>
          if fst (currentExtent c) = 0xFFFFFFFF \<or> snd (currentExtent c) = 0xFFFFFFFF then None
          else Some \<lparr>width = uint (fst (currentExtent c)), height = uint (snd (currentExtent c))\<rparr>)"

definition DestroySwapchain :: "khr_impl \<Rightarrow> khr_impl" where
  "DestroySwapchain s =
     s\<lparr>kh_valid := False, kh_syncs := [], kh_images := 0, kh_context := False\<rparr>"

subsection \<open>Acquiring an image\<close>

datatype acquire_outcome = Acquire_Success | Acquire_Suboptimal | Acquire_Out_Of_Date | Acquire_Error

record acquire_answers =
  wait_ok :: bool
  reset_ok :: bool
  acq_result :: acquire_outcome
  acq_index :: nat

record acquire_result =
  ar_surface :: "nat option"
  out_of_date :: bool

definition AcquireResult :: "bool \<Rightarrow> acquire_result" where
  "AcquireResult b = \<lparr>ar_surface = None, out_of_date = b\<rparr>"

definition AcquireResult_surface :: "nat \<Rightarrow> acquire_result" where
  "AcquireResult_surface i = \<lparr>ar_surface = Some i, out_of_date = False\<rparr>"

text \<open>An error of the wait is reported; a wait for a fence that is not signalled does not return.\<close>

definition WaitForFence :: "acquire_answers \<Rightarrow> frame_sync \<Rightarrow> (bool \<times> frame_sync) option" where
  "WaitForFence y s =
     (if \<not> wait_ok y then Some (False, s)
      else if acquire_fence s \<noteq> Fence_Signaled then None
      else if \<not> reset_ok y then Some (False, s)
      else Some (True, s\<lparr>acquire_fence := Fence_Unsignaled\<rparr>))"

definition AcquireNextDrawable ::
  "acquire_answers \<Rightarrow> khr_impl \<Rightarrow> (acquire_result \<times> khr_impl) option result"
where
  "AcquireNextDrawable y s =
     (if \<not> kh_context s then Inr (Some (AcquireResult False, s))
      else rbind (guard Undefined_Behaviour (kh_syncs s \<noteq> [])) (\<lambda>_.
        let f = (kh_frame s + 1) mod length (kh_syncs s);
            s = s\<lparr>kh_frame := f\<rparr>
        in case WaitForFence y (kh_syncs s ! f) of
             None \<Rightarrow> Inr None
           | Some (waited, sync) \<Rightarrow>
               let s = s\<lparr>kh_syncs := (kh_syncs s)[f := sync]\<rparr>
               in if \<not> waited then Inr (Some (AcquireResult False, s))
                  else case acq_result y of
                    Acquire_Suboptimal \<Rightarrow> Inr (Some (AcquireResult True, s))
                  | Acquire_Out_Of_Date \<Rightarrow> Inr (Some (AcquireResult True, s))
                  | Acquire_Error \<Rightarrow> Inr (Some (AcquireResult False, s))
                  | Acquire_Success \<Rightarrow>
                      if kh_images s \<le> acq_index y then Inr (Some (AcquireResult False, s))
                      else Inr (Some (AcquireResult_surface (acq_index y mod kh_images s), s))))"

subsection \<open>Presenting\<close>

definition AddFinalCommandBuffer :: "nat option \<Rightarrow> khr_impl \<Rightarrow> khr_impl result" where
  "AddFinalCommandBuffer c s =
     rbind (guard Undefined_Behaviour (kh_frame s < length (kh_syncs s))) (\<lambda>_.
       Inr (s\<lparr>kh_syncs := (kh_syncs s)[kh_frame s :=
              (kh_syncs s ! kh_frame s)\<lparr>final_cmd_buffer := c, has_onscreen := True\<rparr>]\<rparr>))"

record present_answers =
  created_buffer :: "nat option"
  layout_ok :: bool
  end_ok :: bool
  submit_ok :: bool

definition Present :: "present_answers \<Rightarrow> nat \<Rightarrow> khr_impl \<Rightarrow> (bool \<times> khr_impl) result" where
  "Present y index s =
     (if \<not> kh_context s then Inr (False, s)
      else rbind (guard Undefined_Behaviour (kh_frame s < length (kh_syncs s))) (\<lambda>_.
        let f = kh_frame s;
            sync = kh_syncs s ! f;
            sync = (if \<not> has_onscreen sync then sync\<lparr>final_cmd_buffer := created_buffer y\<rparr> else sync);
            sync = sync\<lparr>has_onscreen := False\<rparr>;
            s = s\<lparr>kh_syncs := (kh_syncs s)[f := sync]\<rparr>
        in case final_cmd_buffer sync of
             None \<Rightarrow> Inr (False, s)
           | Some c \<Rightarrow>
               if \<not> layout_ok y then Inr (False, s)
               else
                 let s = s\<lparr>kh_ops := kh_ops s @ [Layout_Present index c]\<rparr>
                 in if \<not> end_ok y then Inr (False, s)
                    else rbind (guard Undefined_Behaviour (index < kh_images s)) (\<lambda>_.
                      if \<not> submit_ok y then Inr (False, s)
                      else Inr (True, s\<lparr>kh_syncs := (kh_syncs s)[f :=
                                  sync\<lparr>acquire_fence := Fence_In_Flight\<rparr>],
                                kh_ops := kh_ops s @ [Frame_Submit c f index, Image_Present index]\<rparr>))))"

text \<open>The device finishes what was submitted with the fence of a frame.\<close>

definition frame_done :: "nat \<Rightarrow> khr_impl \<Rightarrow> khr_impl" where
  "frame_done f s =
     (if f < length (kh_syncs s) \<and> acquire_fence (kh_syncs s ! f) = Fence_In_Flight
      then s\<lparr>kh_syncs := (kh_syncs s)[f := (kh_syncs s ! f)\<lparr>acquire_fence := Fence_Signaled\<rparr>]\<rparr>
      else s)"

subsection \<open>The swapchain\<close>

record khr_swapchain =
  sw_impl :: "khr_impl option"
  sw_size :: size
  sw_msaa :: bool

definition KHRSwapchain :: "create_answers \<Rightarrow> PixelFormat \<Rightarrow> size \<Rightarrow> bool \<Rightarrow> khr_swapchain" where
  "KHRSwapchain y preference sz msaa =
     (let impl = fst (KHRSwapchainImpl y preference sz msaa)
      in \<lparr>sw_impl = (if \<not> kh_valid impl then None else Some impl), sw_size = sz, sw_msaa = msaa\<rparr>)"

definition sw_IsValid :: "khr_swapchain \<Rightarrow> bool" where
  "sw_IsValid s = (case sw_impl s of Some i \<Rightarrow> kh_valid i | None \<Rightarrow> False)"

definition UpdateSurfaceSize :: "size \<Rightarrow> khr_swapchain \<Rightarrow> khr_swapchain" where
  "UpdateSurfaceSize sz s = s\<lparr>sw_size := sz\<rparr>"

definition GetSurfaceFormat :: "khr_swapchain \<Rightarrow> VkFormat" where
  "GetSurfaceFormat s =
     (case sw_impl s of Some i \<Rightarrow> if kh_valid i then kh_format i else VkFormat.eUndefined
      | None \<Rightarrow> VkFormat.eUndefined)"

definition kMaxResizeAttempts :: nat where "kMaxResizeAttempts = 3"

text \<open>What the driver answers during one attempt to acquire an image.\<close>

record attempt =
  at_acquire :: acquire_answers
  at_caps :: "surface_caps option"
  at_create :: create_answers
  at_preference :: PixelFormat

partial_function (option) sw_acquire ::
  "bool \<Rightarrow> (nat \<Rightarrow> attempt) \<Rightarrow> nat \<Rightarrow> khr_swapchain \<Rightarrow> (nat option \<times> khr_swapchain) result option"
where
  "sw_acquire android y k s =
     (case sw_impl s of
        None \<Rightarrow> Some (Inr (None, s))
      | Some impl \<Rightarrow>
          if \<not> kh_valid impl then Some (Inr (None, s))
          else case AcquireNextDrawable (at_acquire (y k)) impl of
            Inl e \<Rightarrow> Some (Inl e)
          | Inr None \<Rightarrow> None
          | Inr (Some (r, impl)) \<Rightarrow>
              if \<not> out_of_date r \<and> size_equal (sw_size s) (kh_size impl)
              then Some (Inr (ar_surface r, s\<lparr>sw_impl := Some impl\<rparr>))
              else if \<not> android \<and> k = kMaxResizeAttempts
              then Some (Inr (None, s\<lparr>sw_impl := Some impl\<rparr>))
              else
                let sz = (if android then sw_size s
                          else case GetCurrentUnderlyingSurfaceSize (at_caps (y k)) impl of
                                 Some sz \<Rightarrow> sz | None \<Rightarrow> sw_size s);
                    new = fst (KHRSwapchainImpl (at_create (y k)) (at_preference (y k)) sz (sw_msaa s))
                in if \<not> kh_valid new
                   then Some (Inr (None, s\<lparr>sw_size := sz, sw_impl := None\<rparr>))
                   else sw_acquire android y (Suc k) (s\<lparr>sw_size := sz, sw_impl := Some new\<rparr>))"

definition sw_AcquireNextDrawable ::
  "bool \<Rightarrow> (nat \<Rightarrow> attempt) \<Rightarrow> khr_swapchain \<Rightarrow> (nat option \<times> khr_swapchain) result option"
where
  "sw_AcquireNextDrawable android y s = sw_acquire android y 0 s"

subsection \<open>Configurations\<close>

lemma ChooseSurfaceFormat_Some:
  "ChooseSurfaceFormat formats preference = Some f \<Longrightarrow>
   f \<in> set formats \<and> snd f = eSrgbNonlinear"
  by (auto simp: ChooseSurfaceFormat_def ContainsFormat_def Let_def split: if_splits)

lemma u32_clamp_bounds: "lo \<le> hi \<Longrightarrow> lo \<le> u32_clamp v lo hi \<and> u32_clamp v lo hi \<le> hi"
  by (auto simp: u32_clamp_def not_less)

text \<open>The number of images is what the surface allows, and one more than the minimum if it can be.\<close>

lemma min_image_count_allowed:
  assumes "maxImageCount caps = 0 \<or> minImageCount caps \<le> maxImageCount caps"
    and "minImageCount caps < - 1"
  shows "minImageCount caps \<le> min_image_count caps \<and>
    (maxImageCount caps \<noteq> 0 \<longrightarrow> min_image_count caps \<le> maxImageCount caps) \<and>
    (maxImageCount caps = 0 \<longrightarrow> min_image_count caps = minImageCount caps + 1)"
proof -
  have inc: "minImageCount caps < minImageCount caps + 1" by (rule word_inc_less [OF assms(2)])
  show ?thesis
  proof (cases "maxImageCount caps = 0")
    case True
    then show ?thesis using inc by (simp add: min_image_count_def u32_clamp_def not_less)
  next
    case False
    then have "minImageCount caps \<le> maxImageCount caps" using assms(1) by simp
    from u32_clamp_bounds [OF this] False show ?thesis by (simp add: min_image_count_def)
  qed
qed

lemma valid_impl:
  assumes "KHRSwapchainImpl y preference sz msaa = (s, off)" "kh_valid s"
  shows "kh_context s" "kh_syncs s = [KHRFrameSynchronizer, KHRFrameSynchronizer]"
    "kh_frame s = 1" "kh_size s = sz" "kh_ops s = []" "off = Some (ToPixelFormat (kh_format s))"
  using assms
  by (auto simp: KHRSwapchainImpl_def invalid_impl_def kMaxFramesInFlight_def Let_def numeral_2_eq_2
      split: if_splits option.splits)

subsection \<open>Frames\<close>

text \<open>
  A client acquires an image, may hand in the command buffer that draws to it, and presents or
  drops it, before it acquires the next; every call may fail and the device finishes frames at any
  time. Only an acquisition that does not return is not a step.

  The last component has the frames that were lost: their fence was reset by an acquisition that
  gave no image, or whose image was not presented.
\<close>

datatype phase = Idle | Acquired nat

datatype frame_event = Acquire acquire_answers | Final nat | Show present_answers | Drop_Image | Done nat

type_synonym frame_world = "khr_impl \<times> phase \<times> nat set"

inductive frame_step :: "frame_world \<Rightarrow> frame_event \<Rightarrow> frame_world \<Rightarrow> bool" where
  fr_acquire: "AcquireNextDrawable y s = Inr (Some (r, t)) \<Longrightarrow> ar_surface r = Some i \<Longrightarrow>
    frame_step (s, Idle, L) (Acquire y) (t, Acquired i, L)"
| fr_no_image: "AcquireNextDrawable y s = Inr (Some (r, t)) \<Longrightarrow> ar_surface r = None \<Longrightarrow>
    frame_step (s, Idle, L) (Acquire y)
      (t, Idle, if wait_ok y \<and> reset_ok y then insert (kh_frame t) L else L)"
| fr_final: "AddFinalCommandBuffer (Some c) s = Inr t \<Longrightarrow>
    frame_step (s, Acquired i, L) (Final c) (t, Acquired i, L)"
| fr_show: "Present y i s = Inr (shown, t) \<Longrightarrow>
    frame_step (s, Acquired i, L) (Show y) (t, Idle, if shown then L else insert (kh_frame s) L)"
| fr_drop: "frame_step (s, Acquired i, L) Drop_Image (s, Idle, insert (kh_frame s) L)"
| fr_done: "frame_step (s, p, L) (Done f) (frame_done f s, p, L)"

definition frame_start :: "frame_world \<Rightarrow> bool" where
  "frame_start x \<longleftrightarrow> (\<exists>s y preference sz msaa off. x = (s, Idle, {}) \<and> kh_valid s \<and>
     KHRSwapchainImpl y preference sz msaa = (s, off))"

definition lost :: "khr_impl \<Rightarrow> nat \<Rightarrow> bool" where
  "lost s f \<longleftrightarrow> acquire_fence (kh_syncs s ! f) = Fence_Unsignaled"

definition frame_inv :: "frame_world \<Rightarrow> bool" where
  "frame_inv x \<longleftrightarrow>
     (case x of (s, p, L) \<Rightarrow>
        kh_context s \<and> length (kh_syncs s) = 2 \<and> kh_frame s < 2 \<and>
        (case p of
           Idle \<Rightarrow> \<forall>f < 2. lost s f \<longleftrightarrow> f \<in> L
         | Acquired i \<Rightarrow> i < kh_images s \<and> kh_frame s \<notin> L \<and>
             (\<forall>f < 2. lost s f \<longleftrightarrow> f \<in> insert (kh_frame s) L)))"

lemma acquired:
  assumes "AcquireNextDrawable y s = Inr (Some (r, t))" "ar_surface r = Some i" "kh_context s"
  shows "let f = (kh_frame s + 1) mod length (kh_syncs s)
    in kh_syncs s \<noteq> [] \<and> i < kh_images s \<and> acquire_fence (kh_syncs s ! f) = Fence_Signaled \<and>
       t = s\<lparr>kh_frame := f,
             kh_syncs := (kh_syncs s)[f := (kh_syncs s ! f)\<lparr>acquire_fence := Fence_Unsignaled\<rparr>]\<rparr>"
  using assms
  by (auto simp: AcquireNextDrawable_def WaitForFence_def AcquireResult_def AcquireResult_surface_def
      result_simps Let_def split: if_splits acquire_outcome.splits)

lemma not_acquired:
  assumes "AcquireNextDrawable y s = Inr (Some (r, t))" "ar_surface r = None" "kh_context s"
  shows "let f = (kh_frame s + 1) mod length (kh_syncs s)
    in if wait_ok y \<and> reset_ok y
       then acquire_fence (kh_syncs s ! f) = Fence_Signaled \<and>
         t = s\<lparr>kh_frame := f,
             kh_syncs := (kh_syncs s)[f := (kh_syncs s ! f)\<lparr>acquire_fence := Fence_Unsignaled\<rparr>]\<rparr>
       else t = s\<lparr>kh_frame := f, kh_syncs := (kh_syncs s)[f := kh_syncs s ! f]\<rparr>"
  using assms
  by (auto simp: AcquireNextDrawable_def WaitForFence_def AcquireResult_def AcquireResult_surface_def
      result_simps Let_def split: if_splits acquire_outcome.splits)

lemma shown:
  assumes "Present y i s = Inr (True, t)"
  shows "\<exists>c sync. t = s\<lparr>kh_syncs := (kh_syncs s)[kh_frame s := sync],
              kh_ops := kh_ops s @ [Layout_Present i c, Frame_Submit c (kh_frame s) i, Image_Present i]\<rparr> \<and>
         acquire_fence sync = Fence_In_Flight \<and> final_cmd_buffer sync = Some c \<and>
         \<not> has_onscreen sync \<and> kh_frame s < length (kh_syncs s)"
  using assms
  by (fastforce simp: Present_def result_simps Let_def split: if_splits option.splits)

lemma not_shown:
  assumes "Present y i s = Inr (False, t)" "kh_context s"
  shows "\<exists>sync ops. t = s\<lparr>kh_syncs := (kh_syncs s)[kh_frame s := sync], kh_ops := ops\<rparr> \<and>
         acquire_fence sync = acquire_fence (kh_syncs s ! kh_frame s)"
proof -
  let ?f = "kh_frame s"
  let ?sync = "(if \<not> has_onscreen (kh_syncs s ! ?f)
    then (kh_syncs s ! ?f)\<lparr>final_cmd_buffer := created_buffer y\<rparr> else kh_syncs s ! ?f)\<lparr>has_onscreen := False\<rparr>"
  have "t = s\<lparr>kh_syncs := (kh_syncs s)[?f := ?sync], kh_ops := kh_ops t\<rparr>"
    using assms by (auto simp: Present_def result_simps Let_def split: if_splits option.splits)
  then show ?thesis by (intro exI [of _ ?sync] exI [of _ "kh_ops t"]) simp
qed

lemma frame_inv_step:
  assumes "frame_inv x" "frame_step x e x'"
  shows "frame_inv x'"
  using assms(2)
proof (cases rule: frame_step.cases)
  case (fr_acquire y s r t i L)
  then have inv: "kh_context s" "length (kh_syncs s) = 2" "kh_frame s < 2"
    "\<forall>f < 2. lost s f \<longleftrightarrow> f \<in> L"
    using assms(1) by (simp_all add: frame_inv_def)
  have "t = s\<lparr>kh_frame := (kh_frame s + 1) mod 2, kh_syncs := (kh_syncs s)[(kh_frame s + 1) mod 2 :=
      (kh_syncs s ! ((kh_frame s + 1) mod 2))\<lparr>acquire_fence := Fence_Unsignaled\<rparr>]\<rparr>" "i < kh_images s"
    "\<not> lost s ((kh_frame s + 1) mod 2)"
    using acquired [OF fr_acquire(4,5) inv(1)] inv(2) by (simp_all add: lost_def Let_def)
  then show ?thesis using inv fr_acquire(3)
    by (auto simp: frame_inv_def lost_def nth_list_update)
next
  case (fr_no_image y s r t L)
  then have inv: "kh_context s" "length (kh_syncs s) = 2" "kh_frame s < 2"
    "\<forall>f < 2. lost s f \<longleftrightarrow> f \<in> L"
    using assms(1) by (simp_all add: frame_inv_def)
  note n = not_acquired [OF fr_no_image(4,5) inv(1)]
  show ?thesis
  proof (cases "wait_ok y \<and> reset_ok y")
    case True
    then have "t = s\<lparr>kh_frame := (kh_frame s + 1) mod 2, kh_syncs := (kh_syncs s)[(kh_frame s + 1) mod 2 :=
      (kh_syncs s ! ((kh_frame s + 1) mod 2))\<lparr>acquire_fence := Fence_Unsignaled\<rparr>]\<rparr>"
      using n inv(2) by (simp add: Let_def)
    then show ?thesis using inv fr_no_image(3) True
      by (auto simp: frame_inv_def lost_def nth_list_update)
  next
    case False
    then have "t = s\<lparr>kh_frame := (kh_frame s + 1) mod 2, kh_syncs := kh_syncs s\<rparr>"
      using n inv(2) by (simp add: Let_def)
    then have "frame_inv (t, Idle, L)" using inv by (simp add: frame_inv_def lost_def)
    then show ?thesis using fr_no_image(3) False by (auto split: if_splits)
  qed
next
  case (fr_final c s t i L)
  then show ?thesis using assms(1)
    by (auto simp: frame_inv_def AddFinalCommandBuffer_def result_simps lost_def nth_list_update)
next
  case (fr_show y i s shown t L)
  then have inv: "kh_context s" "length (kh_syncs s) = 2" "kh_frame s < 2"
    "kh_frame s \<notin> L" "\<forall>f < 2. lost s f \<longleftrightarrow> f \<in> insert (kh_frame s) L"
    using assms(1) by (simp_all add: frame_inv_def)
  show ?thesis
  proof (cases shown)
    case True
    then show ?thesis using inv fr_show(3) shown [of y i s t] fr_show(4)
      by (auto simp: frame_inv_def lost_def nth_list_update split: if_splits)
  next
    case False
    then obtain sync ops where "t = s\<lparr>kh_syncs := (kh_syncs s)[kh_frame s := sync], kh_ops := ops\<rparr>"
      "acquire_fence sync = acquire_fence (kh_syncs s ! kh_frame s)"
      using not_shown [of y i s t] fr_show(4) inv(1) by auto
    then show ?thesis using inv fr_show(3) False
      by (auto simp: frame_inv_def lost_def nth_list_update)
  qed
next
  case (fr_drop s i L)
  then show ?thesis using assms(1) by (auto simp: frame_inv_def)
next
  case (fr_done s p L f)
  then show ?thesis using assms(1)
    by (auto simp: frame_inv_def frame_done_def lost_def nth_list_update split: phase.splits)
qed

lemma frame_inv_start: "frame_start x \<Longrightarrow> frame_inv x"
  using valid_impl
  by (fastforce simp: frame_start_def frame_inv_def lost_def KHRFrameSynchronizer_def
      less_Suc_eq numeral_2_eq_2)

interpretation frames: transition_system frame_start frame_step frame_inv
  by unfold_locales (auto intro: frame_inv_start frame_inv_step)

subsection \<open>Properties\<close>

lemma acquire_idle:
  assumes inv: "frame_inv (s, Idle, L)" and L: "(kh_frame s + 1) mod 2 \<notin> L"
    and y: "wait_ok y" "reset_ok y" "acq_result y = Acquire_Success" "acq_index y < kh_images s"
  shows "\<exists>r t. AcquireNextDrawable y (frame_done ((kh_frame s + 1) mod 2) s) = Inr (Some (r, t)) \<and>
    ar_surface r = Some (acq_index y)"
proof -
  let ?f = "(kh_frame s + 1) mod 2"
  have s: "kh_context s" "length (kh_syncs s) = 2" "\<not> lost s ?f"
    using inv L by (simp_all add: frame_inv_def)
  then have "kh_syncs s \<noteq> []" by auto
  moreover have "acquire_fence (kh_syncs (frame_done ?f s) ! ?f) = Fence_Signaled"
    using s(2,3) fence_state.exhaust [of "acquire_fence (kh_syncs s ! ?f)"]
    by (auto simp: frame_done_def lost_def)
  moreover have "kh_context (frame_done ?f s) = kh_context s" "kh_frame (frame_done ?f s) = kh_frame s"
    "length (kh_syncs (frame_done ?f s)) = length (kh_syncs s)" "kh_images (frame_done ?f s) = kh_images s"
    by (simp_all add: frame_done_def)
  moreover have "kh_syncs (frame_done ?f s) \<noteq> []" using s(2) by (auto simp: frame_done_def)
  ultimately show ?thesis
    using s(1,2) y
    by (simp add: AcquireNextDrawable_def WaitForFence_def AcquireResult_surface_def Let_def)
qed

text \<open>What the device finishes leaves an instance as it is, but for fences in flight.\<close>

lemma fold_frame_done:
  "kh_context (fold frame_done fs s) = kh_context s"
  "kh_frame (fold frame_done fs s) = kh_frame s"
  "length (kh_syncs (fold frame_done fs s)) = length (kh_syncs s)"
  "lost s f \<Longrightarrow> lost (fold frame_done fs s) f"
  by (induction fs arbitrary: s) (auto simp: frame_done_def lost_def nth_list_update)

lemma acquire_lost:
  assumes inv: "frame_inv (s, Idle, L)" and L: "(kh_frame s + 1) mod 2 \<in> L" and y: "wait_ok y"
  shows "AcquireNextDrawable y (fold frame_done fs s) = Inr None"
proof -
  let ?f = "(kh_frame s + 1) mod 2" and ?t = "fold frame_done fs s"
  have s: "kh_context s" "length (kh_syncs s) = 2" "lost s ?f"
    using inv L by (simp_all add: frame_inv_def)
  then have "lost ?t ?f" "kh_syncs ?t \<noteq> []"
    using fold_frame_done(3) [of fs s] fold_frame_done(4) [of s ?f fs] by auto
  then show ?thesis using s y
    by (simp add: AcquireNextDrawable_def WaitForFence_def fold_frame_done lost_def Let_def)
qed

lemma present_acquired:
  assumes inv: "frame_inv (s, Acquired i, L)" and y: "layout_ok y" "end_ok y" "submit_ok y"
  shows "\<exists>t u. AddFinalCommandBuffer (Some c) s = Inr t \<and> Present y i t = Inr (True, u) \<and>
    kh_ops u = kh_ops s @ [Layout_Present i c, Frame_Submit c (kh_frame s) i, Image_Present i]"
  using assms
  by (simp add: frame_inv_def AddFinalCommandBuffer_def Present_def Let_def)

text \<open>
  C35: A frame is lost when the acquisition that reset its fence gave no image, or when its image
  was dropped or its presentation failed. Whatever the client did and whatever failed, acquiring,
  while no image is held, succeeds as soon as the device has finished the frame before last, if
  that frame was not lost and the driver has an image to give; and if it was lost, acquiring does
  not return, whatever the device finishes, unless the driver reports an error of the wait. So a
  client whose acquisitions all give images and who presents them all is never blocked for good.
  While an image is held, the device has finished all earlier work of its frame, so the command
  buffer that frame used before may be replaced; the image exists; and if the driver does not fail,
  the command buffer that was handed in is submitted once for this image and the image is presented.
\<close>

theorem frames_resume_unless_lost:
  assumes "reachable_from frame_start frame_step (s, p, L)"
  shows "(p = Idle \<longrightarrow>
      (\<forall>y. wait_ok y \<longrightarrow> reset_ok y \<longrightarrow> acq_result y = Acquire_Success \<longrightarrow>
         acq_index y < kh_images s \<longrightarrow> (kh_frame s + 1) mod 2 \<notin> L \<longrightarrow>
         (\<exists>r t. AcquireNextDrawable y (frame_done ((kh_frame s + 1) mod 2) s) = Inr (Some (r, t)) \<and>
            ar_surface r = Some (acq_index y))) \<and>
      (\<forall>y fs. wait_ok y \<longrightarrow> (kh_frame s + 1) mod 2 \<in> L \<longrightarrow>
         AcquireNextDrawable y (fold frame_done fs s) = Inr None)) \<and>
    (\<forall>i. p = Acquired i \<longrightarrow>
       i < kh_images s \<and> acquire_fence (kh_syncs s ! kh_frame s) = Fence_Unsignaled \<and>
       (\<forall>y c. layout_ok y \<longrightarrow> end_ok y \<longrightarrow> submit_ok y \<longrightarrow>
         (\<exists>t u. AddFinalCommandBuffer (Some c) s = Inr t \<and> Present y i t = Inr (True, u) \<and>
            kh_ops u = kh_ops s @ [Layout_Present i c, Frame_Submit c (kh_frame s) i, Image_Present i])))"
proof -
  have inv: "frame_inv (s, p, L)" by (rule frames.reachable_inv [OF assms])
  have "i < kh_images s \<and> acquire_fence (kh_syncs s ! kh_frame s) = Fence_Unsignaled" if "p = Acquired i" for i
    using inv that by (auto simp: frame_inv_def lost_def)
  then show ?thesis
    using inv acquire_idle [of s L] acquire_lost [of s L] present_acquired [of s _ L] by blast
qed

definition demo_create :: create_answers where
  "demo_create = \<lparr>cr_context = True,
     cr_caps = Some \<lparr>minImageCount = 2, maxImageCount = 0, currentExtent = (8, 6),
       minImageExtent = (1, 1), maxImageExtent = (100, 100), supportedCompositeAlpha = {eOpaque}\<rparr>,
     cr_formats = Some [(VkFormat.eB8G8R8A8Unorm, eSrgbNonlinear)],
     cr_swapchain = (\<lambda>_ _ _ _. True), cr_images = Some 3, cr_image_valid = (\<lambda>_. True),
     cr_semaphore = (\<lambda>_. True), cr_synchronizer = (\<lambda>_. True)\<rparr>"

definition demo_impl :: khr_impl where
  "demo_impl = \<lparr>kh_context = True, kh_format = VkFormat.eB8G8R8A8Unorm, kh_extent = (8, 6),
     kh_images = 3, kh_syncs = [KHRFrameSynchronizer, KHRFrameSynchronizer], kh_frame = 1,
     kh_size = \<lparr>width = 8, height = 6\<rparr>, kh_msaa = True, kh_valid = True, kh_ops = []\<rparr>"

lemma demo_valid: "kh_valid demo_impl"
  by (simp add: demo_impl_def)

lemma demo_created:
  "KHRSwapchainImpl demo_create kR8G8B8A8UNormInt \<lparr>width = 8, height = 6\<rparr> True =
     (demo_impl, Some kB8G8R8A8UNormInt)"
proof -
  have "replicate 2 x = [x, x]" for x :: frame_sync by (simp add: numeral_2_eq_2)
  then show ?thesis
    by (simp add: KHRSwapchainImpl_def demo_create_def demo_impl_def ChooseSurfaceFormat_def
        ContainsFormat_def ChooseAlphaCompositionMode_def image_extent_def u32_clamp_def
        kMaxFramesInFlight_def list_all_iff Let_def)
qed

definition demo_acquire :: acquire_answers where
  "demo_acquire = \<lparr>wait_ok = True, reset_ok = True, acq_result = Acquire_Success, acq_index = 2\<rparr>"

definition demo_acquired :: khr_impl where
  "demo_acquired = demo_impl\<lparr>kh_frame := 0,
     kh_syncs := [KHRFrameSynchronizer\<lparr>acquire_fence := Fence_Unsignaled\<rparr>, KHRFrameSynchronizer]\<rparr>"

definition failing :: acquire_answers where
  "failing = \<lparr>wait_ok = True, reset_ok = True, acq_result = Acquire_Error, acq_index = 0\<rparr>"

definition demo_both_lost :: khr_impl where
  "demo_both_lost = demo_impl\<lparr>kh_frame := 1,
     kh_syncs := [KHRFrameSynchronizer\<lparr>acquire_fence := Fence_Unsignaled\<rparr>,
       KHRFrameSynchronizer\<lparr>acquire_fence := Fence_Unsignaled\<rparr>]\<rparr>"

theorem frames_resume_unless_lost_witness:
  "reachable_from frame_start frame_step (demo_acquired, Acquired 2, {}) \<and>
   (\<exists>t u. AddFinalCommandBuffer (Some 5) demo_acquired = Inr t \<and>
      Present \<lparr>created_buffer = None, layout_ok = True, end_ok = True, submit_ok = True\<rparr> 2 t =
        Inr (True, u) \<and>
      kh_ops u = [Layout_Present 2 5, Frame_Submit 5 0 2, Image_Present 2]) \<and>
   reachable_from frame_start frame_step (demo_both_lost, Idle, {0, 1}) \<and>
   AcquireNextDrawable demo_acquire (fold frame_done [0, 1] demo_both_lost) = Inr None"
proof -
  have "frame_start (demo_impl, Idle, {})"
    unfolding frame_start_def using demo_created demo_valid by blast
  then have "reachable_from frame_start frame_step (demo_impl, Idle, {})" by (rule reach_start)
  moreover have "AcquireNextDrawable demo_acquire demo_impl =
      Inr (Some (AcquireResult_surface 2, demo_acquired))"
    by (simp add: AcquireNextDrawable_def demo_acquire_def demo_impl_def demo_acquired_def
        WaitForFence_def KHRFrameSynchronizer_def Let_def numeral_2_eq_2)
  then have "frame_step (demo_impl, Idle, {}) (Acquire demo_acquire) (demo_acquired, Acquired 2, {})"
    by (rule fr_acquire) (simp add: AcquireResult_surface_def)
  ultimately have r: "reachable_from frame_start frame_step (demo_acquired, Acquired 2, {})"
    by (rule reach_step)
  have "kh_ops demo_acquired = []" "kh_frame demo_acquired = 0"
    by (simp_all add: demo_acquired_def demo_impl_def)
  then have w: "\<exists>t u. AddFinalCommandBuffer (Some 5) demo_acquired = Inr t \<and>
      Present \<lparr>created_buffer = None, layout_ok = True, end_ok = True, submit_ok = True\<rparr> 2 t =
        Inr (True, u) \<and>
      kh_ops u = [Layout_Present 2 5, Frame_Submit 5 0 2, Image_Present 2]"
    using frames_resume_unless_lost [OF r, THEN conjunct2, rule_format, of 2] by auto
  have "frame_step (demo_acquired, Acquired 2, {}) Drop_Image (demo_acquired, Idle, {0})"
    using fr_drop [of demo_acquired 2 "{}"] by (simp add: demo_acquired_def)
  with r have r1: "reachable_from frame_start frame_step (demo_acquired, Idle, {0})" by (rule reach_step)
  have "AcquireNextDrawable failing demo_acquired = Inr (Some (AcquireResult False, demo_both_lost))"
    by (simp add: AcquireNextDrawable_def failing_def demo_impl_def demo_acquired_def demo_both_lost_def
        WaitForFence_def KHRFrameSynchronizer_def Let_def)
  from fr_no_image [OF this, of "{0}"]
  have "frame_step (demo_acquired, Idle, {0}) (Acquire failing) (demo_both_lost, Idle, {0, 1})"
    by (simp add: AcquireResult_def failing_def demo_both_lost_def insert_commute)
  with r1 have r2: "reachable_from frame_start frame_step (demo_both_lost, Idle, {0, 1})"
    by (rule reach_step)
  have "AcquireNextDrawable demo_acquire (fold frame_done [0, 1] demo_both_lost) = Inr None"
    by (rule frames_resume_unless_lost [OF r2, THEN conjunct1, rule_format, THEN conjunct2, rule_format])
      (simp_all add: demo_acquire_def demo_both_lost_def)
  then show ?thesis using r w r2 by blast
qed

text \<open>A valid instance that was just made never blocks.\<close>

lemma fresh_never_blocks:
  assumes "KHRSwapchainImpl c preference sz msaa = (s, off)" "kh_valid s"
  shows "AcquireNextDrawable y s \<noteq> Inr None \<and> (\<forall>e. AcquireNextDrawable y s \<noteq> Inl e)"
  using valid_impl [OF assms]
  by (auto simp: AcquireNextDrawable_def WaitForFence_def KHRFrameSynchronizer_def Let_def numeral_2_eq_2
      split: acquire_outcome.splits)

text \<open>The instance after an acquisition has the size it had.\<close>

lemma acquire_keeps_size:
  "AcquireNextDrawable y s = Inr (Some (r, t)) \<Longrightarrow> kh_size t = kh_size s"
  by (auto simp: AcquireNextDrawable_def result_simps Let_def split: if_splits option.splits
      acquire_outcome.splits)

lemma sw_acquire_returns:
  assumes "k \<le> kMaxResizeAttempts"
    and "\<And>impl. sw_impl s = Some impl \<Longrightarrow> kh_valid impl \<Longrightarrow>
      AcquireNextDrawable (at_acquire (y k)) impl \<noteq> Inr None"
    and "\<forall>j. k \<le> j \<longrightarrow> j \<le> kMaxResizeAttempts \<longrightarrow> y' j = y j"
  shows "\<exists>r. sw_acquire False y k s = Some r \<and> sw_acquire False y' k s = Some r \<and>
    (\<forall>i s'. r = Inr (Some i, s') \<longrightarrow>
       (\<exists>impl. sw_impl s' = Some impl \<and> size_equal (sw_size s') (kh_size impl)))"
  using assms
proof (induction "kMaxResizeAttempts - k" arbitrary: k s)
  case (0 k s)
  have k: "k = kMaxResizeAttempts" "y' kMaxResizeAttempts = y kMaxResizeAttempts" using 0 by simp_all
  show ?case
  proof (cases "\<exists>impl. sw_impl s = Some impl \<and> kh_valid impl")
    case False
    then have "sw_acquire False z k s = Some (Inr (None, s))" for z
      by (subst sw_acquire.simps) (auto split: option.splits)
    then show ?thesis by simp
  next
    case True
    then obtain impl where impl: "sw_impl s = Some impl" "kh_valid impl" by blast
    then have "AcquireNextDrawable (at_acquire (y k)) impl \<noteq> Inr None" using 0 by blast
    then show ?thesis
      by (subst (1 2) sw_acquire.simps) (auto simp: impl k split: sum.splits option.splits prod.splits)
  qed
next
  case (Suc d k s)
  have k: "k \<noteq> kMaxResizeAttempts" "y' k = y k" using Suc by auto
  show ?case
  proof (cases "\<exists>impl. sw_impl s = Some impl \<and> kh_valid impl")
    case False
    then have "sw_acquire False z k s = Some (Inr (None, s))" for z
      by (subst sw_acquire.simps) (auto split: option.splits)
    then show ?thesis by simp
  next
    case True
    then obtain impl where impl: "sw_impl s = Some impl" "kh_valid impl" by blast
    then have nb: "AcquireNextDrawable (at_acquire (y k)) impl \<noteq> Inr None" using Suc.prems by blast
    show ?thesis
    proof (cases "AcquireNextDrawable (at_acquire (y k)) impl")
      case (Inl e)
      then show ?thesis by (subst (1 2) sw_acquire.simps) (simp add: impl k)
    next
      case (Inr x)
      then obtain r t where a: "AcquireNextDrawable (at_acquire (y k)) impl = Inr (Some (r, t))"
        using nb by (cases x) auto
      define sz where "sz = (case GetCurrentUnderlyingSurfaceSize (at_caps (y k)) t of
          Some sz \<Rightarrow> sz | None \<Rightarrow> sw_size s)"
      obtain new off where n: "KHRSwapchainImpl (at_create (y k)) (at_preference (y k)) sz (sw_msaa s) =
          (new, off)" by fastforce
      let ?s = "s\<lparr>sw_size := sz, sw_impl := Some new\<rparr>"
      have unfold: "sw_acquire False z k s =
          (if \<not> out_of_date r \<and> size_equal (sw_size s) (kh_size t)
           then Some (Inr (ar_surface r, s\<lparr>sw_impl := Some t\<rparr>))
           else if \<not> kh_valid new then Some (Inr (None, s\<lparr>sw_size := sz, sw_impl := None\<rparr>))
           else sw_acquire False z (Suc k) ?s)" if "z k = y k" for z
        by (subst sw_acquire.simps) (simp add: impl a that k(1) n sz_def [symmetric] Let_def)
      have "\<exists>r. sw_acquire False y (Suc k) ?s = Some r \<and> sw_acquire False y' (Suc k) ?s = Some r \<and>
        (\<forall>i s'. r = Inr (Some i, s') \<longrightarrow>
           (\<exists>impl. sw_impl s' = Some impl \<and> size_equal (sw_size s') (kh_size impl)))" if v: "kh_valid new"
      proof (rule Suc.hyps(1))
        show "d = kMaxResizeAttempts - Suc k" "Suc k \<le> kMaxResizeAttempts" using Suc.hyps(2) by simp_all
        show "AcquireNextDrawable (at_acquire (y (Suc k))) impl \<noteq> Inr None" if "sw_impl ?s = Some impl" for impl
          using that fresh_never_blocks [OF n v] by simp
        show "\<forall>j. Suc k \<le> j \<longrightarrow> j \<le> kMaxResizeAttempts \<longrightarrow> y' j = y j" using Suc.prems(3) by simp
      qed
      then show ?thesis using unfold [of y] unfold [of y'] k(2) by auto
    qed
  qed
qed

text \<open>The instance the swapchain has blocks in the first acquisition.\<close>

definition first_blocks :: "(nat \<Rightarrow> attempt) \<Rightarrow> khr_swapchain \<Rightarrow> bool" where
  "first_blocks y s \<longleftrightarrow> (\<exists>impl. sw_impl s = Some impl \<and> kh_valid impl \<and>
     AcquireNextDrawable (at_acquire (y 0)) impl = Inr None)"

lemma sw_acquire_blocked: "first_blocks y s \<Longrightarrow> sw_acquire android y 0 s = None"
  by (subst sw_acquire.simps) (auto simp: first_blocks_def)

text \<open>
  C36: On platforms other than Android, acquiring an image from a swapchain blocks only if its
  instance blocks at the first acquisition; otherwise it returns after at most four attempts, and
  what the driver would answer beyond those makes no difference. If there is an image, the instance
  it comes from has the size the swapchain was asked for.
\<close>

theorem resize_attempts_bounded:
  "(sw_AcquireNextDrawable False y s = None \<longleftrightarrow> first_blocks y s) \<and>
   ((\<forall>j \<le> 3. y' j = y j) \<longrightarrow> sw_AcquireNextDrawable False y' s = sw_AcquireNextDrawable False y s) \<and>
   (\<forall>i s'. sw_AcquireNextDrawable False y s = Some (Inr (Some i, s')) \<longrightarrow>
      (\<exists>impl. sw_impl s' = Some impl \<and> size_equal (sw_size s') (kh_size impl)))"
proof (cases "first_blocks y s")
  case True
  then have "first_blocks y' s" if "\<forall>j \<le> 3. y' j = y j" using that by (simp add: first_blocks_def)
  then show ?thesis using True by (simp add: sw_AcquireNextDrawable_def sw_acquire_blocked)
next
  case False
  have r: "\<exists>r. sw_acquire False y 0 s = Some r \<and> sw_acquire False z 0 s = Some r \<and>
      (\<forall>i s'. r = Inr (Some i, s') \<longrightarrow>
         (\<exists>impl. sw_impl s' = Some impl \<and> size_equal (sw_size s') (kh_size impl)))"
    if "\<forall>j \<le> 3. z j = y j" for z
    by (rule sw_acquire_returns) (use False that in \<open>auto simp: kMaxResizeAttempts_def first_blocks_def\<close>)
  show ?thesis using r [of y] r [of y'] False unfolding sw_AcquireNextDrawable_def by auto
qed

definition demo_attempts :: "nat \<Rightarrow> attempt" where
  "demo_attempts k = \<lparr>at_acquire = demo_acquire\<lparr>acq_result :=
       (if k = 0 then Acquire_Out_Of_Date else Acquire_Success)\<rparr>,
     at_caps = cr_caps demo_create, at_create = demo_create, at_preference = kR8G8B8A8UNormInt\<rparr>"

definition demo_swapchain :: khr_swapchain where
  "demo_swapchain = \<lparr>sw_impl = Some demo_impl, sw_size = \<lparr>width = 3, height = 3\<rparr>, sw_msaa = True\<rparr>"

lemma demo_acquires:
  "AcquireNextDrawable (at_acquire (demo_attempts 0)) demo_impl =
     Inr (Some (AcquireResult True, demo_acquired))"
  "AcquireNextDrawable (at_acquire (demo_attempts (Suc 0))) demo_impl =
     Inr (Some (AcquireResult_surface 2, demo_acquired))"
  by (simp_all add: AcquireNextDrawable_def demo_attempts_def demo_acquire_def demo_impl_def
      demo_acquired_def WaitForFence_def KHRFrameSynchronizer_def Let_def numeral_2_eq_2)

lemma demo_current_size:
  "GetCurrentUnderlyingSurfaceSize (at_caps (demo_attempts k)) demo_acquired =
     Some \<lparr>width = 8, height = 6\<rparr>"
  by (simp add: GetCurrentUnderlyingSurfaceSize_def demo_attempts_def demo_create_def
      demo_acquired_def demo_impl_def)

theorem resize_attempts_bounded_witness:
  "\<exists>s. sw_AcquireNextDrawable False (\<lambda>k. if k \<le> 3 then demo_attempts k else undefined) demo_swapchain =
       Some (Inr (Some 2, s)) \<and>
     (\<exists>impl. sw_impl s = Some impl \<and> kh_size impl = \<lparr>width = 8, height = 6\<rparr> \<and>
        size_equal (sw_size s) (kh_size impl))"
proof -
  let ?y = "\<lambda>k. if k \<le> 3 then demo_attempts k else undefined"
  let ?s = "\<lparr>sw_impl = Some demo_impl, sw_size = \<lparr>width = 8, height = 6\<rparr>, sw_msaa = True\<rparr>"
  have v: "kh_valid demo_impl" "kh_size demo_acquired = \<lparr>width = 8, height = 6\<rparr>"
    by (simp_all add: demo_impl_def demo_acquired_def)
  have create: "at_create (demo_attempts k) = demo_create"
    "at_preference (demo_attempts k) = kR8G8B8A8UNormInt" for k
    by (simp_all add: demo_attempts_def)
  have "sw_acquire False demo_attempts (Suc 0) ?s =
      Some (Inr (Some 2, ?s\<lparr>sw_impl := Some demo_acquired\<rparr>))"
    by (subst sw_acquire.simps) (simp add: v demo_acquires(2) AcquireResult_surface_def size_equal_def)
  moreover have "sw_acquire False demo_attempts 0 demo_swapchain =
      sw_acquire False demo_attempts (Suc 0) ?s"
    by (subst sw_acquire.simps)
      (simp add: demo_swapchain_def v demo_acquires(1) AcquireResult_def demo_current_size create
        demo_created kMaxResizeAttempts_def)
  ultimately have r: "sw_AcquireNextDrawable False demo_attempts demo_swapchain =
      Some (Inr (Some 2, ?s\<lparr>sw_impl := Some demo_acquired\<rparr>))"
    by (simp add: sw_AcquireNextDrawable_def)
  note c = resize_attempts_bounded [of demo_attempts demo_swapchain ?y, THEN conjunct2]
  have "sw_AcquireNextDrawable False ?y demo_swapchain = sw_AcquireNextDrawable False demo_attempts demo_swapchain"
    by (rule c [THEN conjunct1, rule_format]) simp
  then show ?thesis using r c [THEN conjunct2, rule_format, OF r] v(2) by auto
qed

subsection \<open>What goes wrong\<close>

text \<open>
  An acquisition that fails after the wait has reset the fence of its frame, and nothing will signal
  it: when its turn comes again the acquisition does not return, whatever the device finishes.
\<close>

lemma failed_acquisitions_block:
  assumes "kh_context s" "kh_syncs s = [a, b]" "kh_frame s = 1"
    and "acquire_fence a = Fence_Signaled" "acquire_fence b = Fence_Signaled"
  shows "\<exists>t u. AcquireNextDrawable failing s = Inr (Some (AcquireResult False, t)) \<and>
    AcquireNextDrawable failing t = Inr (Some (AcquireResult False, u)) \<and>
    (\<forall>y f. wait_ok y \<longrightarrow> AcquireNextDrawable y (frame_done f u) = Inr None)"
  using assms
  by (simp add: AcquireNextDrawable_def failing_def WaitForFence_def frame_done_def Let_def
      nth_Cons split: nat.splits)

text \<open>A surface that is dropped without being presented has the same effect on its frame.\<close>

lemma dropped_surface_blocks:
  assumes "AcquireNextDrawable y s = Inr (Some (r, t))" "ar_surface r = Some i" "kh_context s"
  shows "lost t (kh_frame t) \<and> (\<forall>f. lost (frame_done f t) (kh_frame t))"
proof -
  have "lost t (kh_frame t)"
    using acquired [OF assms] by (auto simp: lost_def Let_def mod_less_divisor)
  then show ?thesis by (auto simp: lost_def frame_done_def nth_list_update)
qed

text \<open>
  On Android the number of attempts is counted but not compared: a driver that always answers that
  the swapchain is out of date is asked forever.
\<close>

lemma android_never_gives_up:
  assumes y: "\<forall>k. acq_result (at_acquire (y k)) = Acquire_Out_Of_Date"
      "\<forall>k. wait_ok (at_acquire (y k)) \<and> reset_ok (at_acquire (y k))"
    and create: "\<forall>k sz msaa.
      kh_valid (fst (KHRSwapchainImpl (at_create (y k)) (at_preference (y k)) sz msaa))"
    and s: "sw_impl s = Some impl" "kh_valid impl" "kh_context impl"
      "kh_syncs impl = [KHRFrameSynchronizer, KHRFrameSynchronizer]"
  shows "sw_AcquireNextDrawable True y s = None"
proof -
  let ?fresh = "\<lambda>s. \<exists>impl. sw_impl s = Some impl \<and> kh_valid impl \<and> kh_context impl \<and>
    kh_syncs impl = [KHRFrameSynchronizer, KHRFrameSynchronizer]"
  have out: "\<exists>t. AcquireNextDrawable (at_acquire (y k)) impl = Inr (Some (AcquireResult True, t))"
    if "kh_context impl" "kh_syncs impl = [KHRFrameSynchronizer, KHRFrameSynchronizer]" for k impl
  proof -
    have "(Suc (kh_frame impl)) mod 2 = 0 \<or> (Suc (kh_frame impl)) mod 2 = 1" by linarith
    then show ?thesis using that y
      by (auto simp: AcquireNextDrawable_def WaitForFence_def KHRFrameSynchronizer_def Let_def
          numeral_2_eq_2)
  qed
  have never: "\<not> (a \<and> z = y \<and> ?fresh s)" if "sw_acquire a z k s = Some r" for a z k s r
  proof (rule sw_acquire.raw_induct
      [where P = "\<lambda>a z k s r. \<not> (a \<and> z = y \<and> ?fresh s)", OF _ that], rule notI)
    fix f a z k s r
    assume ih: "\<And>a z k s r. f a z k s = Some r \<Longrightarrow> \<not> (a \<and> z = y \<and> ?fresh s)"
      and body: "(case sw_impl s of None \<Rightarrow> Some (Inr (None, s))
        | Some impl \<Rightarrow>
          if \<not> kh_valid impl then Some (Inr (None, s))
          else case AcquireNextDrawable (at_acquire (z k)) impl of
            Inl e \<Rightarrow> Some (Inl e)
          | Inr None \<Rightarrow> None
          | Inr (Some (r, impl)) \<Rightarrow>
              if \<not> out_of_date r \<and> size_equal (sw_size s) (kh_size impl)
              then Some (Inr (ar_surface r, s\<lparr>sw_impl := Some impl\<rparr>))
              else if \<not> a \<and> k = kMaxResizeAttempts
              then Some (Inr (None, s\<lparr>sw_impl := Some impl\<rparr>))
              else
                let sz = (if a then sw_size s
                          else case GetCurrentUnderlyingSurfaceSize (at_caps (z k)) impl of
                                 Some sz \<Rightarrow> sz | None \<Rightarrow> sw_size s);
                    new = fst (KHRSwapchainImpl (at_create (z k)) (at_preference (z k)) sz (sw_msaa s))
                in if \<not> kh_valid new
                   then Some (Inr (None, s\<lparr>sw_size := sz, sw_impl := None\<rparr>))
                   else f a z (Suc k) (s\<lparr>sw_size := sz, sw_impl := Some new\<rparr>)) = Some r"
      and h: "a \<and> z = y \<and> ?fresh s"
    obtain impl where impl: "sw_impl s = Some impl" "kh_valid impl" "kh_context impl"
      "kh_syncs impl = [KHRFrameSynchronizer, KHRFrameSynchronizer]" using h by blast
    obtain t where t: "AcquireNextDrawable (at_acquire (y k)) impl =
        Inr (Some (AcquireResult True, t))" using out [OF impl(3,4)] by blast
    obtain new off where n: "KHRSwapchainImpl (at_create (y k)) (at_preference (y k)) (sw_size s)
        (sw_msaa s) = (new, off)" by fastforce
    have v: "kh_valid new" using create n by (metis fst_conv)
    have "f True y (Suc k) (s\<lparr>sw_size := sw_size s, sw_impl := Some new\<rparr>) = Some r"
      using body h impl t v n by (simp add: AcquireResult_def)
    from ih [OF this] show False using v valid_impl [OF n v] by auto
  qed
  show ?thesis using never [of True y 0 s] s unfolding sw_AcquireNextDrawable_def
    by (cases "sw_acquire True y 0 s") blast+
qed

end
