(* ===== verification/Pipeline_Descriptor.thy ===== *)
theory Pipeline_Descriptor
  imports Formats_Vk
begin

text \<open>
  The descriptions pipelines are created from and cached by: \<^verbatim>\<open>src/hal/pipeline_descriptor.{h,cc}\<close>,
  \<^verbatim>\<open>compute_pipeline_descriptor.{h,cc}\<close>, \<^verbatim>\<open>vertex_descriptor.{h,cc}\<close>,
  \<^verbatim>\<open>shader_function_vk.{h,cc}\<close> and the deep comparisons of \<^verbatim>\<open>src/base/comparable.h\<close>.

  A shared pointer is the address of its object or null; the objects are read from a \<open>store\<close>. The
  \<open>std::hash\<close> of numbers, strings and disengaged optionals is a parameter, and so are the scalars
  of the specialization constants and their \<open>==\<close>.
\<close>

subsection \<open>Shader functions\<close>

fun val_ShaderStage :: "ShaderStage \<Rightarrow> nat" where
  "val_ShaderStage ShaderStage.kUnknown = 0"
| "val_ShaderStage ShaderStage.kVertex = 1"
| "val_ShaderStage ShaderStage.kFragment = 2"
| "val_ShaderStage ShaderStage.kCompute = 3"

lemma val_ShaderStage_inject [simp]: "val_ShaderStage a = val_ShaderStage b \<longleftrightarrow> a = b"
  by (cases a; cases b; simp)

text \<open>The order of the enumerators, by which the map of entry points is sorted.\<close>

instantiation ShaderStage :: linorder
begin

definition less_eq_ShaderStage :: "ShaderStage \<Rightarrow> ShaderStage \<Rightarrow> bool" where
  "less_eq_ShaderStage a b \<longleftrightarrow> val_ShaderStage a \<le> val_ShaderStage b"

definition less_ShaderStage :: "ShaderStage \<Rightarrow> ShaderStage \<Rightarrow> bool" where
  "less_ShaderStage a b \<longleftrightarrow> val_ShaderStage a < val_ShaderStage b"

instance
  by standard (auto simp: less_eq_ShaderStage_def less_ShaderStage_def)

end

record shader_function =
  parent_library_id :: u64
  sf_name :: string
  sf_stage :: ShaderStage

record hashing =
  hash_nat :: "nat \<Rightarrow> u64"       \<comment> \<open>std::hash of the integers and enumerations\<close>
  hash_string :: "string \<Rightarrow> u64"
  hash_nullopt :: u64             \<comment> \<open>std::hash of a disengaged optional: unspecified\<close>


definition sf_GetHash :: "hashing \<Rightarrow> shader_function \<Rightarrow> u64" where
  "sf_GetHash H f =
     HashCombine [parent_library_id f, hash_string H (sf_name f),
       hash_nat H (val_ShaderStage (sf_stage f))]"

definition sf_IsEqual :: "shader_function \<Rightarrow> shader_function \<Rightarrow> bool" where
  "sf_IsEqual f other \<longleftrightarrow> parent_library_id f = parent_library_id other \<and>
     sf_name f = sf_name other \<and> sf_stage f = sf_stage other"

subsection \<open>Vertex descriptors\<close>

record vertex_descriptor =
  inputs :: "shader_stage_io_slot list"
  layouts :: "shader_stage_buffer_layout list"
  desc_set_layouts :: "descriptor_set_layout list"
  uses_input_attachments :: bool

definition VertexDescriptor :: vertex_descriptor where
  "VertexDescriptor = \<lparr>inputs = [], layouts = [], desc_set_layouts = [],
     uses_input_attachments = False\<rparr>"

definition SetStageInputs ::
  "shader_stage_io_slot list \<Rightarrow> shader_stage_buffer_layout list \<Rightarrow> vertex_descriptor \<Rightarrow>
   vertex_descriptor"
where
  "SetStageInputs ins ls v = v\<lparr>inputs := inputs v @ ins, layouts := layouts v @ ls\<rparr>"

fun RegisterDescriptorSetLayouts ::
  "descriptor_set_layout list \<Rightarrow> vertex_descriptor \<Rightarrow> vertex_descriptor"
where
  "RegisterDescriptorSetLayouts [] v = v"
| "RegisterDescriptorSetLayouts (l # ls) v =
     RegisterDescriptorSetLayouts ls
       (v\<lparr>uses_input_attachments := uses_input_attachments v \<or> dsl_descriptor_type l = kInputAttachment,
          desc_set_layouts := desc_set_layouts v @ [l]\<rparr>)"

definition vd_GetHash :: "hashing \<Rightarrow> vertex_descriptor \<Rightarrow> u64" where
  "vd_GetHash H v =
     HashCombineSeed
       (HashCombineSeed hash_seed (map (\<lambda>i. hash_nat H (unat (io_GetHash (hash_nat H) i))) (inputs v)))
       (map (\<lambda>l. hash_nat H (unat (layout_GetHash (hash_nat H) l))) (layouts v))"

definition vd_IsEqual :: "vertex_descriptor \<Rightarrow> vertex_descriptor \<Rightarrow> bool" where
  "vd_IsEqual v other \<longleftrightarrow> list_all2 io_equal (inputs v) (inputs other) \<and>
     list_all2 layout_equal (layouts v) (layouts other)"

subsection \<open>Deep comparisons\<close>

text \<open>\<open>eq\<close> compares the objects the pointers lead to.\<close>

definition DeepComparePointer :: "(nat \<Rightarrow> nat \<Rightarrow> bool) \<Rightarrow> nat option \<Rightarrow> nat option \<Rightarrow> bool" where
  "DeepComparePointer eq lhs rhs =
     (if lhs = rhs then True
      else (case (lhs, rhs) of (Some p, Some q) \<Rightarrow> eq p q | _ \<Rightarrow> False))"

fun compare_entries ::
  "(nat \<Rightarrow> nat \<Rightarrow> bool) \<Rightarrow> ('k \<times> nat option) list \<Rightarrow> ('k \<times> nat option) list \<Rightarrow> bool"
where
  "compare_entries eq ((k, p) # lhs) ((k', p') # rhs) =
     (if k \<noteq> k' then False
      else if \<not> DeepComparePointer eq p p' then False
      else compare_entries eq lhs rhs)"
| "compare_entries eq lhs rhs = True"

definition DeepCompareMap ::
  "(nat \<Rightarrow> nat \<Rightarrow> bool) \<Rightarrow> ('k \<times> nat option) list \<Rightarrow> ('k \<times> nat option) list \<Rightarrow> bool"
where
  "DeepCompareMap eq lhs rhs =
     (if length lhs \<noteq> length rhs then False else compare_entries eq lhs rhs)"

text \<open>The \<open>==\<close> of \<open>std::optional\<close> and of the map of color attachments.\<close>

definition optional_equal :: "('a \<Rightarrow> 'a \<Rightarrow> bool) \<Rightarrow> 'a option \<Rightarrow> 'a option \<Rightarrow> bool" where
  "optional_equal eq a b =
     (case (a, b) of (Some x, Some y) \<Rightarrow> eq x y | (None, None) \<Rightarrow> True | _ \<Rightarrow> False)"

definition color_map_equal ::
  "(nat \<times> color_attachment_descriptor) list \<Rightarrow> (nat \<times> color_attachment_descriptor) list \<Rightarrow> bool"
where
  "color_map_equal a b \<longleftrightarrow> list_all2 (\<lambda>(i, x) (j, y). i = j \<and> cad_equal x y) a b"

subsection \<open>Pipeline descriptors\<close>

fun val_WindingOrder :: "WindingOrder \<Rightarrow> nat" where
  "val_WindingOrder kClockwise = 0"
| "val_WindingOrder kCounterClockwise = 1"

fun val_CullMode :: "CullMode \<Rightarrow> nat" where
  "val_CullMode CullMode.kNone = 0"
| "val_CullMode kFrontFace = 1"
| "val_CullMode kBackFace = 2"

fun val_PrimitiveType :: "PrimitiveType \<Rightarrow> nat" where
  "val_PrimitiveType kTriangle = 0"
| "val_PrimitiveType kTriangleStrip = 1"
| "val_PrimitiveType PrimitiveType.kLine = 2"
| "val_PrimitiveType kLineStrip = 3"
| "val_PrimitiveType kPoint = 4"
| "val_PrimitiveType kTriangleFan = 5"

fun val_PolygonMode :: "PolygonMode \<Rightarrow> nat" where
  "val_PolygonMode kFill = 0"
| "val_PolygonMode PolygonMode.kLine = 1"

record store =
  function_at :: "nat \<Rightarrow> shader_function"
  vertex_descriptor_at :: "nat \<Rightarrow> vertex_descriptor"

record 'f pipeline_descriptor =
  label :: string
  pd_sample_count :: SampleCount
  winding_order :: WindingOrder
  cull_mode :: CullMode
  entrypoints :: "(ShaderStage \<times> nat option) list"
  color_attachment_descriptors :: "(nat \<times> color_attachment_descriptor) list"
  pd_vertex_descriptor :: "nat option"
  depth_pixel_format :: PixelFormat
  stencil_pixel_format :: PixelFormat
  pd_depth :: "depth_attachment_descriptor option"
  front_stencil :: "stencil_attachment_descriptor option"
  back_stencil :: "stencil_attachment_descriptor option"
  primitive_type :: PrimitiveType
  polygon_mode :: PolygonMode
  specialization_constants :: "'f list"

definition PipelineDescriptor :: "'f pipeline_descriptor" where
  "PipelineDescriptor =
     \<lparr>label = [], pd_sample_count = kCount1, winding_order = kClockwise, cull_mode = CullMode.kNone,
      entrypoints = [], color_attachment_descriptors = [], pd_vertex_descriptor = None,
      depth_pixel_format = PixelFormat.kUnknown, stencil_pixel_format = PixelFormat.kUnknown,
      pd_depth = None, front_stencil = None, back_stencil = None, primitive_type = kTriangle,
      polygon_mode = kFill, specialization_constants = []\<rparr>"

definition hash_optional :: "hashing \<Rightarrow> ('a \<Rightarrow> u64) \<Rightarrow> 'a option \<Rightarrow> u64" where
  "hash_optional H h x = (case x of None \<Rightarrow> hash_nullopt H | Some y \<Rightarrow> h y)"

fun entrypoint_hashes :: "hashing \<Rightarrow> store \<Rightarrow> (ShaderStage \<times> nat option) list \<Rightarrow> u64 list" where
  "entrypoint_hashes H s [] = []"
| "entrypoint_hashes H s ((st, p) # es) =
     hash_nat H (val_ShaderStage st) #
     (case p of
        None \<Rightarrow> []
      | Some f \<Rightarrow> [hash_nat H (unat (sf_GetHash H (function_at s f)))]) @
     entrypoint_hashes H s es"

fun color_hashes :: "hashing \<Rightarrow> (nat \<times> color_attachment_descriptor) list \<Rightarrow> u64 list" where
  "color_hashes H [] = []"
| "color_hashes H ((i, d) # ds) =
     hash_nat H i # hash_nat H (unat (cad_Hash (hash_nat H) d)) # color_hashes H ds"

definition pd_GetHash :: "hashing \<Rightarrow> store \<Rightarrow> 'f pipeline_descriptor \<Rightarrow> u64" where
  "pd_GetHash H s d =
     (let seed = HashCombineSeed hash_seed
            [hash_string H (label d), hash_nat H (val_SampleCount (pd_sample_count d))];
          seed = HashCombineSeed seed (entrypoint_hashes H s (entrypoints d));
          seed = HashCombineSeed seed (color_hashes H (color_attachment_descriptors d));
          seed = (case pd_vertex_descriptor d of
                    None \<Rightarrow> seed
                  | Some v \<Rightarrow> HashCombineSeed seed
                      [hash_nat H (unat (vd_GetHash H (vertex_descriptor_at s v)))])
      in HashCombineSeed seed
           [hash_nat H (val_PixelFormat (depth_pixel_format d)),
            hash_nat H (val_PixelFormat (stencil_pixel_format d)),
            hash_optional H (dad_GetHash (hash_nat H)) (pd_depth d),
            hash_optional H (sad_GetHash (hash_nat H)) (front_stencil d),
            hash_optional H (sad_GetHash (hash_nat H)) (back_stencil d),
            hash_nat H (val_WindingOrder (winding_order d)),
            hash_nat H (val_CullMode (cull_mode d)),
            hash_nat H (val_PrimitiveType (primitive_type d)),
            hash_nat H (val_PolygonMode (polygon_mode d))])"

definition pd_IsEqual ::
  "('f \<Rightarrow> 'f \<Rightarrow> bool) \<Rightarrow> store \<Rightarrow> 'f pipeline_descriptor \<Rightarrow> 'f pipeline_descriptor \<Rightarrow> bool"
where
  "pd_IsEqual feq s d other \<longleftrightarrow>
     label d = label other \<and> pd_sample_count d = pd_sample_count other \<and>
     DeepCompareMap (\<lambda>p q. sf_IsEqual (function_at s p) (function_at s q))
       (entrypoints d) (entrypoints other) \<and>
     color_map_equal (color_attachment_descriptors d) (color_attachment_descriptors other) \<and>
     DeepComparePointer
       (\<lambda>p q. vd_IsEqual (vertex_descriptor_at s p) (vertex_descriptor_at s q))
       (pd_vertex_descriptor d) (pd_vertex_descriptor other) \<and>
     stencil_pixel_format d = stencil_pixel_format other \<and>
     depth_pixel_format d = depth_pixel_format other \<and>
     optional_equal dad_equal (pd_depth d) (pd_depth other) \<and>
     optional_equal sad_equal (front_stencil d) (front_stencil other) \<and>
     optional_equal sad_equal (back_stencil d) (back_stencil other) \<and>
     winding_order d = winding_order other \<and> cull_mode d = cull_mode other \<and>
     primitive_type d = primitive_type other \<and> polygon_mode d = polygon_mode other \<and>
     list_all2 feq (specialization_constants d) (specialization_constants other)"

subsection \<open>Setters and getters\<close>

definition SetLabel :: "string \<Rightarrow> 'f pipeline_descriptor \<Rightarrow> 'f pipeline_descriptor" where
  "SetLabel l d = d\<lparr>label := l\<rparr>"

definition SetSampleCount :: "SampleCount \<Rightarrow> 'f pipeline_descriptor \<Rightarrow> 'f pipeline_descriptor" where
  "SetSampleCount n d = d\<lparr>pd_sample_count := n\<rparr>"

definition AddStageEntrypoint ::
  "store \<Rightarrow> nat option \<Rightarrow> 'f pipeline_descriptor \<Rightarrow> 'f pipeline_descriptor"
where
  "AddStageEntrypoint s f d =
     (case f of
        None \<Rightarrow> d
      | Some p \<Rightarrow>
          if sf_stage (function_at s p) = ShaderStage.kUnknown then d
          else d\<lparr>entrypoints := smap_put (sf_stage (function_at s p)) (Some p) (entrypoints d)\<rparr>)"

definition SetVertexDescriptor ::
  "nat option \<Rightarrow> 'f pipeline_descriptor \<Rightarrow> 'f pipeline_descriptor"
where
  "SetVertexDescriptor v d = d\<lparr>pd_vertex_descriptor := v\<rparr>"

definition GetMaxColorAttachmentBindIndex :: "'f pipeline_descriptor \<Rightarrow> nat" where
  "GetMaxColorAttachmentBindIndex d =
     fold (\<lambda>c m. max (fst c) m) (color_attachment_descriptors d) 0"

definition SetColorAttachmentDescriptor ::
  "nat \<Rightarrow> color_attachment_descriptor \<Rightarrow> 'f pipeline_descriptor \<Rightarrow> 'f pipeline_descriptor"
where
  "SetColorAttachmentDescriptor i c d =
     d\<lparr>color_attachment_descriptors := smap_put i c (color_attachment_descriptors d)\<rparr>"

definition SetColorAttachmentDescriptors ::
  "(nat \<times> color_attachment_descriptor) list \<Rightarrow> 'f pipeline_descriptor \<Rightarrow> 'f pipeline_descriptor"
where
  "SetColorAttachmentDescriptors cs d = d\<lparr>color_attachment_descriptors := cs\<rparr>"

definition GetColorAttachmentDescriptor ::
  "nat \<Rightarrow> 'f pipeline_descriptor \<Rightarrow> color_attachment_descriptor option"
where
  "GetColorAttachmentDescriptor i d = map_of (color_attachment_descriptors d) i"

definition GetLegacyCompatibleColorAttachment ::
  "'f pipeline_descriptor \<Rightarrow> color_attachment_descriptor option"
where
  "GetLegacyCompatibleColorAttachment d =
     (if length (color_attachment_descriptors d) \<noteq> 1 then None
      else GetColorAttachmentDescriptor 0 d)"

definition SetDepthPixelFormat :: "PixelFormat \<Rightarrow> 'f pipeline_descriptor \<Rightarrow> 'f pipeline_descriptor" where
  "SetDepthPixelFormat f d = d\<lparr>depth_pixel_format := f\<rparr>"

definition SetStencilPixelFormat :: "PixelFormat \<Rightarrow> 'f pipeline_descriptor \<Rightarrow> 'f pipeline_descriptor" where
  "SetStencilPixelFormat f d = d\<lparr>stencil_pixel_format := f\<rparr>"

definition SetDepthStencilAttachmentDescriptor ::
  "depth_attachment_descriptor option \<Rightarrow> 'f pipeline_descriptor \<Rightarrow> 'f pipeline_descriptor"
where
  "SetDepthStencilAttachmentDescriptor x d = d\<lparr>pd_depth := x\<rparr>"

definition SetStencilAttachmentDescriptors ::
  "stencil_attachment_descriptor option \<Rightarrow> stencil_attachment_descriptor option \<Rightarrow>
   'f pipeline_descriptor \<Rightarrow> 'f pipeline_descriptor"
where
  "SetStencilAttachmentDescriptors front rear d = d\<lparr>front_stencil := front, back_stencil := rear\<rparr>"

definition SetStencilAttachmentDescriptors_both ::
  "stencil_attachment_descriptor option \<Rightarrow> 'f pipeline_descriptor \<Rightarrow> 'f pipeline_descriptor"
where
  "SetStencilAttachmentDescriptors_both x d = SetStencilAttachmentDescriptors x x d"

definition ClearStencilAttachments :: "'f pipeline_descriptor \<Rightarrow> 'f pipeline_descriptor" where
  "ClearStencilAttachments d =
     SetStencilPixelFormat PixelFormat.kUnknown (d\<lparr>back_stencil := None, front_stencil := None\<rparr>)"

definition ClearDepthAttachment :: "'f pipeline_descriptor \<Rightarrow> 'f pipeline_descriptor" where
  "ClearDepthAttachment d = SetDepthPixelFormat PixelFormat.kUnknown (d\<lparr>pd_depth := None\<rparr>)"

definition ClearColorAttachment :: "nat \<Rightarrow> 'f pipeline_descriptor \<Rightarrow> 'f pipeline_descriptor" where
  "ClearColorAttachment i d =
     (if map_of (color_attachment_descriptors d) i = None then d
      else d\<lparr>color_attachment_descriptors := smap_del i (color_attachment_descriptors d)\<rparr>)"

definition ResetAttachments :: "'f pipeline_descriptor \<Rightarrow> 'f pipeline_descriptor" where
  "ResetAttachments d =
     d\<lparr>color_attachment_descriptors := [], pd_depth := None, front_stencil := None,
       back_stencil := None\<rparr>"

definition GetEntrypointForStage :: "ShaderStage \<Rightarrow> 'f pipeline_descriptor \<Rightarrow> nat option" where
  "GetEntrypointForStage st d =
     (case map_of (entrypoints d) st of Some p \<Rightarrow> p | None \<Rightarrow> None)"

definition HasStencilAttachmentDescriptors :: "'f pipeline_descriptor \<Rightarrow> bool" where
  "HasStencilAttachmentDescriptors d \<longleftrightarrow> front_stencil d \<noteq> None \<or> back_stencil d \<noteq> None"

definition SetCullMode :: "CullMode \<Rightarrow> 'f pipeline_descriptor \<Rightarrow> 'f pipeline_descriptor" where
  "SetCullMode m d = d\<lparr>cull_mode := m\<rparr>"

definition SetWindingOrder :: "WindingOrder \<Rightarrow> 'f pipeline_descriptor \<Rightarrow> 'f pipeline_descriptor" where
  "SetWindingOrder w d = d\<lparr>winding_order := w\<rparr>"

definition SetPrimitiveType :: "PrimitiveType \<Rightarrow> 'f pipeline_descriptor \<Rightarrow> 'f pipeline_descriptor" where
  "SetPrimitiveType t d = d\<lparr>primitive_type := t\<rparr>"

definition SetPolygonMode :: "PolygonMode \<Rightarrow> 'f pipeline_descriptor \<Rightarrow> 'f pipeline_descriptor" where
  "SetPolygonMode m d = d\<lparr>polygon_mode := m\<rparr>"

definition SetSpecializationConstants :: "'f list \<Rightarrow> 'f pipeline_descriptor \<Rightarrow> 'f pipeline_descriptor" where
  "SetSpecializationConstants xs d = d\<lparr>specialization_constants := xs\<rparr>"

subsection \<open>Compute pipelines\<close>

record compute_descriptor =
  cpd_label :: string
  entrypoint :: "nat option"
  cpd_layouts :: "descriptor_set_layout list"

definition ComputePipelineDescriptor :: compute_descriptor where
  "ComputePipelineDescriptor = \<lparr>cpd_label = [], entrypoint = None, cpd_layouts = []\<rparr>"

definition cpd_GetHash :: "hashing \<Rightarrow> store \<Rightarrow> compute_descriptor \<Rightarrow> u64" where
  "cpd_GetHash H s d =
     (let seed = HashCombineSeed hash_seed [hash_string H (cpd_label d)]
      in case entrypoint d of
           None \<Rightarrow> seed
         | Some p \<Rightarrow> HashCombineSeed seed [hash_nat H (unat (sf_GetHash H (function_at s p)))])"

definition cpd_IsEqual :: "store \<Rightarrow> compute_descriptor \<Rightarrow> compute_descriptor \<Rightarrow> bool" where
  "cpd_IsEqual s d other \<longleftrightarrow> cpd_label d = cpd_label other \<and>
     DeepComparePointer (\<lambda>p q. sf_IsEqual (function_at s p) (function_at s q))
       (entrypoint d) (entrypoint other)"

definition cpd_SetLabel :: "string \<Rightarrow> compute_descriptor \<Rightarrow> compute_descriptor" where
  "cpd_SetLabel l d = d\<lparr>cpd_label := l\<rparr>"

definition SetStageEntrypoint ::
  "store \<Rightarrow> nat option \<Rightarrow> compute_descriptor \<Rightarrow> compute_descriptor result"
where
  "SetStageEntrypoint s f d =
     rbind (guard Dcheck_Failed
              (case f of None \<Rightarrow> True | Some p \<Rightarrow> sf_stage (function_at s p) = kCompute))
       (\<lambda>_. Inr (case f of
          None \<Rightarrow> d
        | Some p \<Rightarrow>
            if sf_stage (function_at s p) \<noteq> kCompute then d
            else if sf_stage (function_at s p) = ShaderStage.kUnknown then d
            else d\<lparr>entrypoint := Some p\<rparr>))"

definition cpd_RegisterDescriptorSetLayouts ::
  "descriptor_set_layout list \<Rightarrow> compute_descriptor \<Rightarrow> bool \<times> compute_descriptor"
where
  "cpd_RegisterDescriptorSetLayouts ls d = (True, d\<lparr>cpd_layouts := cpd_layouts d @ ls\<rparr>)"

subsection \<open>Equality of descriptors is equality of their values\<close>

lemma field_equal_iff [simp]:
  "io_equal a b \<longleftrightarrow> a = b" "layout_equal c d \<longleftrightarrow> c = d" "cad_equal e f \<longleftrightarrow> e = f"
  "dad_equal g h \<longleftrightarrow> g = h" "sad_equal i j \<longleftrightarrow> i = j" "sf_IsEqual k l \<longleftrightarrow> k = l"
  subgoal by (cases a; cases b) (simp add: io_equal_def)
  subgoal by (cases c; cases d) (simp add: layout_equal_def)
  subgoal by (cases e; cases f) (simp add: cad_equal_def)
  subgoal by (cases g; cases h) (simp add: dad_equal_def)
  subgoal by (cases i; cases j) (simp add: sad_equal_def)
  subgoal by (cases k; cases l) (simp add: sf_IsEqual_def)
  done

lemma list_all2_equal [simp]: "list_all2 io_equal xs ys \<longleftrightarrow> xs = ys"
  "list_all2 layout_equal us vs \<longleftrightarrow> us = vs"
proof -
  have "io_equal = (=)" "layout_equal = (=)" by (simp_all add: fun_eq_iff)
  then show "list_all2 io_equal xs ys \<longleftrightarrow> xs = ys" "list_all2 layout_equal us vs \<longleftrightarrow> us = vs"
    by (simp_all add: list.rel_eq)
qed

definition vd_value ::
  "vertex_descriptor \<Rightarrow> shader_stage_io_slot list \<times> shader_stage_buffer_layout list"
where
  "vd_value v = (inputs v, layouts v)"

lemma vd_IsEqual_iff: "vd_IsEqual v w \<longleftrightarrow> vd_value v = vd_value w"
  by (simp add: vd_IsEqual_def vd_value_def)

lemma vd_GetHash_value: "vd_value v = vd_value w \<Longrightarrow> vd_GetHash H v = vd_GetHash H w"
  by (simp add: vd_GetHash_def vd_value_def)

text \<open>A comparison of pointers that compares some value of the objects.\<close>

lemma DeepComparePointer_iff:
  "DeepComparePointer (\<lambda>p q. f p = f q) a b \<longleftrightarrow> map_option f a = map_option f b"
  by (auto simp: DeepComparePointer_def split: option.splits)

definition entry_values :: "(nat \<Rightarrow> 'v) \<Rightarrow> ('k \<times> nat option) list \<Rightarrow> ('k \<times> 'v option) list" where
  "entry_values f = map (\<lambda>(k, p). (k, map_option f p))"

lemma DeepCompareMap_iff:
  "DeepCompareMap (\<lambda>p q. f p = f q) a b \<longleftrightarrow> entry_values f a = entry_values f b"
proof -
  have "compare_entries (\<lambda>p q. f p = f q) a b \<longleftrightarrow> entry_values f a = entry_values f b"
    if "length a = length b"
    using that
    by (induction a b rule: list_induct2)
      (auto simp: entry_values_def DeepComparePointer_iff split: if_splits)
  moreover have "length a = length b" if "entry_values f a = entry_values f b"
    using map_eq_imp_length_eq [OF that [unfolded entry_values_def]] .
  ultimately show ?thesis by (auto simp: DeepCompareMap_def)
qed

lemma optional_equal_eq [simp]:
  "optional_equal dad_equal a b \<longleftrightarrow> a = b" "optional_equal sad_equal c d \<longleftrightarrow> c = d"
  by (auto simp: optional_equal_def split: option.splits)

lemma color_map_equal_eq [simp]: "color_map_equal a b \<longleftrightarrow> a = b"
proof -
  have "(\<lambda>(i, x) (j, y). i = j \<and> cad_equal x y) = ((=) :: nat \<times> color_attachment_descriptor \<Rightarrow> _)"
    by (auto simp: fun_eq_iff)
  then show ?thesis by (simp add: color_map_equal_def list_all2_eq)
qed

text \<open>The fields of a descriptor that its equality compares, the constants apart.\<close>

definition same_values :: "store \<Rightarrow> 'f pipeline_descriptor \<Rightarrow> 'f pipeline_descriptor \<Rightarrow> bool" where
  "same_values s d other \<longleftrightarrow>
     label d = label other \<and> pd_sample_count d = pd_sample_count other \<and>
     entry_values (function_at s) (entrypoints d) =
       entry_values (function_at s) (entrypoints other) \<and>
     color_attachment_descriptors d = color_attachment_descriptors other \<and>
     map_option (\<lambda>v. vd_value (vertex_descriptor_at s v)) (pd_vertex_descriptor d) =
       map_option (\<lambda>v. vd_value (vertex_descriptor_at s v)) (pd_vertex_descriptor other) \<and>
     stencil_pixel_format d = stencil_pixel_format other \<and>
     depth_pixel_format d = depth_pixel_format other \<and> pd_depth d = pd_depth other \<and>
     front_stencil d = front_stencil other \<and> back_stencil d = back_stencil other \<and>
     winding_order d = winding_order other \<and> cull_mode d = cull_mode other \<and>
     primitive_type d = primitive_type other \<and> polygon_mode d = polygon_mode other"

lemma pd_IsEqual_iff:
  "pd_IsEqual feq s d other \<longleftrightarrow> same_values s d other \<and>
     list_all2 feq (specialization_constants d) (specialization_constants other)"
  by (auto simp: pd_IsEqual_def same_values_def vd_IsEqual_iff DeepCompareMap_iff
      DeepComparePointer_iff)

lemma same_values_refl: "same_values s d d"
  and same_values_sym: "same_values s d e \<Longrightarrow> same_values s e d"
  and same_values_trans: "same_values s d e \<Longrightarrow> same_values s e g \<Longrightarrow> same_values s d g"
  by (simp_all add: same_values_def)

lemma entrypoint_hashes_value:
  "entry_values (function_at s) a = entry_values (function_at s) b \<Longrightarrow>
   entrypoint_hashes H s a = entrypoint_hashes H s b"
proof (induction H s a arbitrary: b rule: entrypoint_hashes.induct)
  case (1 H s)
  then show ?case by (simp add: entry_values_def)
next
  case (2 H s st p es)
  then obtain q b' where b: "b = (st, q) # b'" "map_option (function_at s) p = map_option (function_at s) q"
      "entry_values (function_at s) es = entry_values (function_at s) b'"
    by (auto simp: entry_values_def Cons_eq_map_conv)
  then show ?case using "2.IH" [of b'] by (cases p; cases q) auto
qed

lemma pd_GetHash_value: "same_values s d e \<Longrightarrow> pd_GetHash H s d = pd_GetHash H s e"
proof -
  assume v: "same_values s d e"
  then have "map_option (\<lambda>v. vd_GetHash H (vertex_descriptor_at s v)) (pd_vertex_descriptor d) =
      map_option (\<lambda>v. vd_GetHash H (vertex_descriptor_at s v)) (pd_vertex_descriptor e)"
    by (cases "pd_vertex_descriptor d"; cases "pd_vertex_descriptor e")
      (auto simp: same_values_def intro: vd_GetHash_value)
  moreover have "entrypoint_hashes H s (entrypoints d) = entrypoint_hashes H s (entrypoints e)"
    using v by (intro entrypoint_hashes_value) (simp add: same_values_def)
  ultimately show ?thesis using v
    by (cases "pd_vertex_descriptor d"; cases "pd_vertex_descriptor e")
      (simp_all add: pd_GetHash_def Let_def same_values_def)
qed

lemma cpd_IsEqual_iff:
  "cpd_IsEqual s d e \<longleftrightarrow> cpd_label d = cpd_label e \<and>
     map_option (function_at s) (entrypoint d) = map_option (function_at s) (entrypoint e)"
  by (simp add: cpd_IsEqual_def DeepComparePointer_iff)

lemma cpd_GetHash_equal: "cpd_IsEqual s d e \<Longrightarrow> cpd_GetHash H s d = cpd_GetHash H s e"
  by (auto simp: cpd_IsEqual_iff cpd_GetHash_def Let_def split: option.splits)

subsection \<open>Entry points\<close>

text \<open>The map holds no null pointer and every function under its own stage.\<close>

definition entries_ok :: "store \<Rightarrow> 'f pipeline_descriptor \<Rightarrow> bool" where
  "entries_ok s d \<longleftrightarrow> sset (map fst (entrypoints d)) \<and>
     (\<forall>(st, p) \<in> set (entrypoints d).
        st \<noteq> ShaderStage.kUnknown \<and> (\<exists>f. p = Some f \<and> sf_stage (function_at s f) = st))"

lemma entries_ok_default: "entries_ok s PipelineDescriptor"
  by (simp add: entries_ok_def PipelineDescriptor_def)

lemma entries_ok_add: "entries_ok s d \<Longrightarrow> entries_ok s (AddStageEntrypoint s f d)"
proof (cases f)
  case (Some p)
  assume d: "entries_ok s d"
  let ?st = "sf_stage (function_at s p)"
  let ?m = "smap_put ?st (Some p) (entrypoints d)"
  let ?ok = "\<lambda>st q. st \<noteq> ShaderStage.kUnknown \<and> (\<exists>f. q = Some f \<and> sf_stage (function_at s f) = st)"
  show ?thesis
  proof (cases "?st = ShaderStage.kUnknown")
    case True
    then show ?thesis using d Some by (simp add: AddStageEntrypoint_def)
  next
    case False
    have "?ok st q" if e: "(st, q) \<in> set ?m" for st q
    proof (cases "(st, q) \<in> set (entrypoints d)")
      case True
      then show ?thesis using d unfolding entries_ok_def by blast
    next
      case neu: False
      have "(st, q) \<in> insert (?st, Some p) (set (entrypoints d))"
        using e set_smap_put by (rule rev_subsetD)
      then have "st = ?st" "q = Some p" using neu by simp_all
      then show ?thesis using False by simp
    qed
    then have ok: "\<forall>(st, q) \<in> set ?m. ?ok st q" by blast
    have sorted: "sset (map fst ?m)"
      by (rule sset_smap_put) (use d in \<open>simp add: entries_ok_def\<close>)
    have eq: "entrypoints (d\<lparr>entrypoints := ?m\<rparr>) = ?m" by simp
    have "entries_ok s (d\<lparr>entrypoints := ?m\<rparr>)"
      unfolding entries_ok_def eq by (rule conjI [OF sorted ok])
    then show ?thesis using Some False by (simp add: AddStageEntrypoint_def)
  qed
qed (simp add: AddStageEntrypoint_def)

lemma GetEntrypointForStage_add:
  assumes "entries_ok s d" "sf_stage (function_at s p) \<noteq> ShaderStage.kUnknown"
  shows "GetEntrypointForStage st (AddStageEntrypoint s (Some p) d) =
    (if st = sf_stage (function_at s p) then Some p else GetEntrypointForStage st d)"
  using assms by (simp add: AddStageEntrypoint_def GetEntrypointForStage_def entries_ok_def)

lemma GetMaxColorAttachmentBindIndex_bounds:
  "(\<forall>(i, c) \<in> set (color_attachment_descriptors d). i \<le> GetMaxColorAttachmentBindIndex d) \<and>
   (color_attachment_descriptors d \<noteq> [] \<longrightarrow>
      GetMaxColorAttachmentBindIndex d \<in> fst ` set (color_attachment_descriptors d))"
proof -
  have "fold (\<lambda>c m. max (fst c) m) cs n = Max (insert n (fst ` set cs))"
    for cs :: "(nat \<times> color_attachment_descriptor) list" and n
  proof (induction cs arbitrary: n)
    case (Cons c cs)
    then show ?case by (cases "cs = []") (simp_all add: max.commute max.left_commute)
  qed simp
  then have eq: "GetMaxColorAttachmentBindIndex d =
      Max (insert 0 (fst ` set (color_attachment_descriptors d)))"
    by (simp add: GetMaxColorAttachmentBindIndex_def)
  have "GetMaxColorAttachmentBindIndex d \<in> fst ` set (color_attachment_descriptors d)"
    if "color_attachment_descriptors d \<noteq> []"
    unfolding eq using that by (simp add: max_def)
  moreover have "i \<le> GetMaxColorAttachmentBindIndex d"
    if "(i, c) \<in> set (color_attachment_descriptors d)" for i c
    unfolding eq using that by (intro Max_ge) force+
  ultimately show ?thesis by blast
qed

text \<open>The setters of the attachments are those of a map.\<close>

lemma GetColorAttachmentDescriptor_set:
  "sset (map fst (color_attachment_descriptors d)) \<Longrightarrow>
   GetColorAttachmentDescriptor j (SetColorAttachmentDescriptor i c d) =
     (if i = j then Some c else GetColorAttachmentDescriptor j d)"
  by (simp add: GetColorAttachmentDescriptor_def SetColorAttachmentDescriptor_def)

lemma GetColorAttachmentDescriptor_clear:
  "GetColorAttachmentDescriptor j (ClearColorAttachment i d) =
     (if i = j then None else GetColorAttachmentDescriptor j d)"
  by (auto simp: GetColorAttachmentDescriptor_def ClearColorAttachment_def)

subsection \<open>Properties\<close>

text \<open>
  C37: Pipeline descriptors are lawful keys of the hash maps that cache pipelines: equal descriptors
  have equal hashes, whatever their pointers; equality is symmetric and transitive where the
  comparison of the scalars is, and a descriptor equals itself exactly when none of its
  specialization constants differs from itself. So a descriptor with a constant that is NaN
  is never found again.
\<close>

theorem pipeline_descriptor_keys:
  assumes feq: "symp feq" "transp feq"
  shows "(pd_IsEqual feq s a b \<longrightarrow> pd_GetHash H s a = pd_GetHash H s b) \<and>
    (pd_IsEqual feq s a b \<longrightarrow> pd_IsEqual feq s b a) \<and>
    (pd_IsEqual feq s a b \<and> pd_IsEqual feq s b c \<longrightarrow> pd_IsEqual feq s a c) \<and>
    (pd_IsEqual feq s a a \<longleftrightarrow> (\<forall>x \<in> set (specialization_constants a). feq x x))"
proof (intro conjI impI)
  show "pd_GetHash H s a = pd_GetHash H s b" if "pd_IsEqual feq s a b"
    using that by (simp add: pd_IsEqual_iff pd_GetHash_value)
  show "pd_IsEqual feq s b a" if "pd_IsEqual feq s a b"
    using that list.rel_symp [OF feq(1)] unfolding pd_IsEqual_iff
    by (blast intro: same_values_sym dest: sympD)
  show "pd_IsEqual feq s a c" if "pd_IsEqual feq s a b \<and> pd_IsEqual feq s b c"
    using that list.rel_transp [OF feq(2)] unfolding pd_IsEqual_iff
    by (blast intro: same_values_trans dest: transpD)
  show "pd_IsEqual feq s a a \<longleftrightarrow> (\<forall>x \<in> set (specialization_constants a). feq x x)"
    by (simp add: pd_IsEqual_iff same_values_refl list_all2_same)
qed

text \<open>A scalar that is a number or, as \<open>None\<close>, not one.\<close>

definition demo_scalar_eq :: "nat option \<Rightarrow> nat option \<Rightarrow> bool" where
  "demo_scalar_eq x y \<longleftrightarrow> x \<noteq> None \<and> x = y"

definition demo_store :: store where
  "demo_store =
     \<lparr>function_at = (\<lambda>_. \<lparr>parent_library_id = 7, sf_name = ''main'', sf_stage = ShaderStage.kVertex\<rparr>),
      vertex_descriptor_at = (\<lambda>_. VertexDescriptor)\<rparr>"

definition demo_hashing :: hashing where
  "demo_hashing = \<lparr>hash_nat = of_nat, hash_string = (\<lambda>x. of_nat (length x)), hash_nullopt = 3\<rparr>"

theorem pipeline_descriptor_keys_witness:
  "pd_GetHash demo_hashing demo_store (AddStageEntrypoint demo_store (Some 1) PipelineDescriptor :: nat option pipeline_descriptor) =
   pd_GetHash demo_hashing demo_store (AddStageEntrypoint demo_store (Some 2) PipelineDescriptor :: nat option pipeline_descriptor) \<and>
   \<not> pd_IsEqual demo_scalar_eq demo_store (SetSpecializationConstants [Some 1, None] PipelineDescriptor)
      (SetSpecializationConstants [Some 1, None] PipelineDescriptor)"
proof -
  have feq: "symp demo_scalar_eq" "transp demo_scalar_eq"
    by (auto simp: demo_scalar_eq_def intro: sympI transpI)
  let ?a = "\<lambda>p. AddStageEntrypoint demo_store (Some p) PipelineDescriptor :: nat option pipeline_descriptor"
  have "pd_IsEqual demo_scalar_eq demo_store (?a 1) (?a 2)"
    by (simp add: pd_IsEqual_iff same_values_def AddStageEntrypoint_def demo_store_def
        PipelineDescriptor_def entry_values_def)
  with pipeline_descriptor_keys [OF feq, of demo_store "?a 1" "?a 2" demo_hashing]
  have "pd_GetHash demo_hashing demo_store (?a 1) = pd_GetHash demo_hashing demo_store (?a 2)"
    by simp
  moreover have "\<not> pd_IsEqual demo_scalar_eq demo_store
      (SetSpecializationConstants [Some 1, None] PipelineDescriptor)
      (SetSpecializationConstants [Some 1, None] PipelineDescriptor)"
    using pipeline_descriptor_keys [OF feq, of demo_store "SetSpecializationConstants [Some 1, None] PipelineDescriptor"]
    by (simp add: SetSpecializationConstants_def demo_scalar_eq_def)
  ultimately show ?thesis ..
qed

end
