(* ===== verification/Pipeline_Vk.thy ===== *)
theory Pipeline_Vk
  imports Pipeline_Descriptor Render_Pass_Props
begin

text \<open>
  Graphics pipelines: \<^verbatim>\<open>src/hal/pipeline_vk.{h,cc}\<close>, \<^verbatim>\<open>vertex_descriptor_vk.cc\<close> and the
  conversions they use.

  The device is a record of functions from the description of a handle to the handle, if it
  can be created. A pipeline is the record of what it was created from. The scalars
  of the specialization constants are a type parameter. Labels and the feedback on the creation,
  which is only reported, are left out.
\<close>

subsection \<open>The compatible render pass\<close>

fun compat_colors ::
  "SampleCount \<Rightarrow> (nat \<times> color_attachment_descriptor) list \<Rightarrow> render_pass_builder \<Rightarrow>
   render_pass_builder"
where
  "compat_colors samples [] b = b"
| "compat_colors samples ((bind_point, c) # cs) b =
     compat_colors samples cs
       (rb_SetColorAttachment bind_point (cad_format c) samples LoadAction.kDontCare
          StoreAction.kDontCare eUndefined False b)"

definition compat_builder :: "'f pipeline_descriptor \<Rightarrow> render_pass_builder" where
  "compat_builder d =
     (let b = compat_colors (pd_sample_count d) (color_attachment_descriptors d) RenderPassBuilder
      in if pd_depth d \<noteq> None then
           rb_SetDepthStencilAttachment (depth_pixel_format d) (pd_sample_count d)
             LoadAction.kDontCare StoreAction.kDontCare b
         else if HasStencilAttachmentDescriptors d then
           rb_SetStencilAttachment (stencil_pixel_format d) (pd_sample_count d)
             LoadAction.kDontCare StoreAction.kDontCare b
         else b)"

definition CreateCompatRenderPassForPipeline ::
  "(render_pass_info \<Rightarrow> 'p option) \<Rightarrow> 'f pipeline_descriptor \<Rightarrow> 'p option result"
where
  "CreateCompatRenderPassForPipeline create_pass d = Build create_pass (compat_builder d)"

subsection \<open>The layout of the descriptor set\<close>

text \<open>A binding and the sampler that is made immutable in it.\<close>

definition set_binding :: "nat option \<Rightarrow> descriptor_set_layout \<Rightarrow>
  vk_descriptor_set_layout_binding \<times> nat option"
where
  "set_binding sampler l =
     (ToVKDescriptorSetLayoutBinding l,
      if sampler \<noteq> None \<and> dsl_descriptor_type l = DescriptorType.kSampledImage then sampler else None)"

definition MakeDescriptorSetLayout_info ::
  "store \<Rightarrow> nat option \<Rightarrow> 'f pipeline_descriptor \<Rightarrow>
   (vk_descriptor_set_layout_binding \<times> nat option) list result"
where
  "MakeDescriptorSetLayout_info s sampler d =
     rbind (of_option Undefined_Behaviour (pd_vertex_descriptor d)) (\<lambda>v.
       Inr (map (set_binding sampler) (desc_set_layouts (vertex_descriptor_at s v))))"

subsection \<open>Vertex formats\<close>

datatype VertexFormat =
    Vertex_Undefined
  | Vertex_Float nat nat     \<comment> \<open>bits of a component, components: \<open>eR32G32Sfloat\<close> is \<open>Vertex_Float 32 2\<close>\<close>
  | Vertex_Uint nat nat
  | Vertex_Sint nat nat

definition vertex_format_of ::
  "(nat \<Rightarrow> nat \<Rightarrow> VertexFormat) \<Rightarrow> nat \<Rightarrow> shader_stage_io_slot \<Rightarrow> VertexFormat"
where
  "vertex_format_of f bits input =
     (if bit_width input = bits \<and> vec_size input \<in> {1, 2, 3, 4} then f bits (vec_size input)
      else Vertex_Undefined)"

definition ToVertexDescriptorFormat :: "shader_stage_io_slot \<Rightarrow> VertexFormat" where
  "ToVertexDescriptorFormat input =
     (if columns input \<noteq> 1 then Vertex_Undefined
      else (case io_type input of
          ShaderType.kFloat \<Rightarrow> vertex_format_of Vertex_Float 32 input
        | ShaderType.kHalfFloat \<Rightarrow> vertex_format_of Vertex_Float 16 input
        | ShaderType.kDouble \<Rightarrow> Vertex_Undefined
        | ShaderType.kBoolean \<Rightarrow>
            if bit_width input = 8 \<and> vec_size input = 1 then Vertex_Uint 8 1 else Vertex_Undefined
        | ShaderType.kSignedByte \<Rightarrow> vertex_format_of Vertex_Sint 8 input
        | ShaderType.kUnsignedByte \<Rightarrow> vertex_format_of Vertex_Uint 8 input
        | ShaderType.kSignedShort \<Rightarrow> vertex_format_of Vertex_Sint 16 input
        | ShaderType.kUnsignedShort \<Rightarrow> vertex_format_of Vertex_Uint 16 input
        | ShaderType.kSignedInt \<Rightarrow> vertex_format_of Vertex_Sint 32 input
        | ShaderType.kUnsignedInt \<Rightarrow> vertex_format_of Vertex_Uint 32 input
        | ShaderType.kSignedInt64 \<Rightarrow> Vertex_Undefined
        | ShaderType.kUnsignedInt64 \<Rightarrow> Vertex_Undefined
        | _ \<Rightarrow> Vertex_Undefined))"

subsection \<open>The description of a pipeline\<close>

datatype VkFrontFace = eFaceClockwise | eFaceCounterClockwise

fun ToVKFrontFace :: "WindingOrder \<Rightarrow> VkFrontFace" where
  "ToVKFrontFace kClockwise = eFaceClockwise"
| "ToVKFrontFace kCounterClockwise = eFaceCounterClockwise"

datatype VkDynamicState = eViewport | eScissor | eStencilReference

record specialization_entry =
  constant_id :: nat
  spec_offset :: nat
  spec_size :: nat

record shader_stage_info =
  stage_flag :: VkShaderStageFlagBits
  stage_module :: nat                      \<comment> \<open>the shader function whose module it is\<close>
  spec_entries :: "specialization_entry list"
  spec_data_size :: nat

record graphics_pipeline_info =
  gp_dynamic_states :: "VkDynamicState list"
  gp_stages :: "shader_stage_info list"
  gp_front_face :: VkFrontFace
  gp_cull_mode :: "VkCullModeFlagBits set"
  gp_polygon_mode :: VkPolygonMode
  gp_samples :: VkSampleCountFlagBits
  gp_topology :: VkPrimitiveTopology
  gp_primitive_restart :: bool
  gp_blend :: "vk_color_blend_attachment_state list"
  gp_attributes :: "(nat \<times> nat \<times> VertexFormat \<times> nat) list"  \<comment> \<open>binding, location, format, offset\<close>
  gp_bindings :: "(nat \<times> nat) list"                         \<comment> \<open>binding, stride\<close>
  gp_depth_stencil :: vk_depth_stencil_state

definition scalar_bytes :: nat where "scalar_bytes = 4"

definition specialization_entries :: "nat \<Rightarrow> specialization_entry list" where
  "specialization_entries n =
     map (\<lambda>i. \<lparr>constant_id = i, spec_offset = i * scalar_bytes, spec_size = scalar_bytes\<rparr>) [0 ..< n]"

fun make_stages ::
  "nat \<Rightarrow> (ShaderStage \<times> nat option) list \<Rightarrow> (shader_stage_info list) option result"
where
  "make_stages n [] = Inr (Some [])"
| "make_stages n ((st, f) # es) =
     (case ToVKShaderStageFlagBits st of
        None \<Rightarrow> Inr None
      | Some flag \<Rightarrow>
          rbind (of_option Undefined_Behaviour f) (\<lambda>f.
          rbind (make_stages n es) (\<lambda>r.
            Inr (case r of
                   None \<Rightarrow> None
                 | Some ss \<Rightarrow> Some (\<lparr>stage_flag = flag, stage_module = f,
                     spec_entries = specialization_entries n,
                     spec_data_size = scalar_bytes * n\<rparr> # ss)))))"

definition MakePipeline_info ::
  "vk_depth_stencil_state \<Rightarrow> bool \<Rightarrow> store \<Rightarrow> 'f pipeline_descriptor \<Rightarrow>
   graphics_pipeline_info option result"
where
  "MakePipeline_info zero_state supports_restart s d =
     rbind (make_stages (length (specialization_constants d)) (entrypoints d)) (\<lambda>stages.
     case stages of
       None \<Rightarrow> Inr None
     | Some stages \<Rightarrow>
         rbind (of_option Undefined_Behaviour (pd_vertex_descriptor d)) (\<lambda>v.
         Inr (Some
           \<lparr>gp_dynamic_states = [eViewport, eScissor, eStencilReference], gp_stages = stages,
            gp_front_face = ToVKFrontFace (winding_order d),
            gp_cull_mode = ToVKCullModeFlags (cull_mode d),
            gp_polygon_mode = ToVKPolygonMode (polygon_mode d),
            gp_samples = ToVKSampleCountFlagBits (pd_sample_count d),
            gp_topology = ToVKPrimitiveTopology (primitive_type d),
            gp_primitive_restart =
              (supports_restart \<and> PrimitiveTopologySupportsPrimitiveRestart (primitive_type d)),
            gp_blend = map (\<lambda>(_, c). ToVKPipelineColorBlendAttachmentState c)
              (color_attachment_descriptors d),
            gp_attributes = map (\<lambda>i. (io_binding i, io_location i, ToVertexDescriptorFormat i, io_offset i))
              (inputs (vertex_descriptor_at s v)),
            gp_bindings = map (\<lambda>l. (layout_binding l, stride l)) (layouts (vertex_descriptor_at s v)),
            gp_depth_stencil = ToVKPipelineDepthStencilStateCreateInfo zero_state (pd_depth d)
              (front_stencil d) (back_stencil d)\<rparr>)))"

subsection \<open>Creating pipelines\<close>

type_synonym set_layout_info = "(vk_descriptor_set_layout_binding \<times> nat option) list"

record device_calls =
  create_set_layout :: "set_layout_info \<Rightarrow> nat option"
  create_pipeline_layout :: "nat \<Rightarrow> nat option"
  create_compat_pass :: "render_pass_info \<Rightarrow> nat option"
  create_pipeline :: "graphics_pipeline_info \<Rightarrow> nat \<Rightarrow> nat \<Rightarrow> nat option"  \<comment> \<open>layout, pass\<close>
  supports_primitive_restart :: bool
  default_depth_stencil :: vk_depth_stencil_state

record 'f pipeline =
  desc :: "'f pipeline_descriptor"
  pipeline_handle :: nat
  render_pass_handle :: nat
  layout_handle :: nat
  set_layout_handle :: nat
  set_bindings :: set_layout_info
  pipeline_key :: int
  immutable_sampler :: "nat option"

text \<open>Whether the device and the library are alive is the argument \<open>alive\<close>.\<close>

definition PipelineVK_Create ::
  "device_calls \<Rightarrow> store \<Rightarrow> bool \<Rightarrow> int \<Rightarrow> nat option \<Rightarrow> 'f pipeline_descriptor \<Rightarrow>
   'f pipeline option result"
where
  "PipelineVK_Create dev s alive key sampler d =
     (if \<not> alive then Inr None
      else
        rbind (MakeDescriptorSetLayout_info s sampler d) (\<lambda>bindings.
        case create_set_layout dev bindings of
          None \<Rightarrow> Inr None
        | Some set_layout \<Rightarrow>
        (case create_pipeline_layout dev set_layout of
          None \<Rightarrow> Inr None
        | Some layout \<Rightarrow>
        rbind (CreateCompatRenderPassForPipeline (create_compat_pass dev) d) (\<lambda>pass.
        case pass of
          None \<Rightarrow> Inr None
        | Some pass \<Rightarrow>
        rbind (MakePipeline_info (default_depth_stencil dev) (supports_primitive_restart dev) s d) (\<lambda>info.
        case info of
          None \<Rightarrow> Inr None
        | Some info \<Rightarrow>
        (case create_pipeline dev info layout pass of
          None \<Rightarrow> Inr None
        | Some p \<Rightarrow>
            Inr (Some \<lparr>desc = d, pipeline_handle = p, render_pass_handle = pass,
              layout_handle = layout, set_layout_handle = set_layout, set_bindings = bindings,
              pipeline_key = key, immutable_sampler = sampler\<rparr>)))))))"

text \<open>
  The variants of a pipeline by the key of their immutable sampler. What a key and the equality of
  keys are is the parameter \<open>key_of\<close>: equal values for equal keys.
\<close>

definition CreateVariantForImmutableSamplers ::
  "device_calls \<Rightarrow> store \<Rightarrow> (nat \<Rightarrow> 'k) \<Rightarrow> bool \<Rightarrow> bool \<Rightarrow> 'f pipeline \<Rightarrow> nat option \<Rightarrow>
   ('k \<rightharpoonup> 'f pipeline option) \<Rightarrow> ('f pipeline option \<times> ('k \<rightharpoonup> 'f pipeline option)) result"
where
  "CreateVariantForImmutableSamplers dev s key_of device_alive library_alive p sampler variants =
     (case sampler of
        None \<Rightarrow> Inr (None, variants)
      | Some x \<Rightarrow>
          (case variants (key_of x) of
             Some v \<Rightarrow> Inr (v, variants)
           | None \<Rightarrow>
               if \<not> device_alive then Inr (None, variants)
               else rbind (PipelineVK_Create dev s library_alive (- 1 * pipeline_key p) (Some x) (desc p))
                 (\<lambda>v. Inr (v, variants(key_of x \<mapsto> v)))))"

text \<open>The handles that go back to the device when the pipeline is destroyed; none when it is gone.\<close>

definition PipelineVK_destroy :: "bool \<Rightarrow> 'f pipeline \<Rightarrow> nat list" where
  "PipelineVK_destroy device_alive p =
     (if \<not> device_alive then []
      else [set_layout_handle p, layout_handle p, render_pass_handle p, pipeline_handle p])"

subsection \<open>Compatibility of render passes\<close>

text \<open>
  What Vulkan asks of two passes with one subpass: corresponding color and depth-stencil references
  are both unused or lead to attachments of the same format and sample count, and the
  dependencies agree. Resolve references, layouts, load and store operations do not matter.
\<close>

definition referenced :: "render_pass_info \<Rightarrow> attachment_reference \<Rightarrow>
  (VkFormat \<times> VkSampleCountFlagBits) option"
where
  "referenced p r =
     (if ar_attachment r = ar_attachment kUnusedAttachmentReference then None
      else Some (let a = rp_attachments p ! unat (ar_attachment r) in (ad_format a, ad_samples a)))"

definition pass_compatible :: "render_pass_info \<Rightarrow> render_pass_info \<Rightarrow> bool" where
  "pass_compatible p q \<longleftrightarrow>
     map (referenced p) (rp_color_refs p) = map (referenced q) (rp_color_refs q) \<and>
     referenced p (rp_depth_stencil_ref p) = referenced q (rp_depth_stencil_ref q) \<and>
     rp_dependencies p = rp_dependencies q"

text \<open>A pipeline is made for a target: same indices and formats of color, same depth and stencil.\<close>

definition att_format :: "'v attachment \<Rightarrow> PixelFormat \<times> SampleCount" where
  "att_format a = (let x = tex_desc (the (texture a)) in (format x, sample_count x))"

definition made_for :: "'f pipeline_descriptor \<Rightarrow> ('c, 'd) render_target \<Rightarrow> bool" where
  "made_for d t \<longleftrightarrow>
     map (\<lambda>(i, a). (i, att_format a)) (color_list t) =
       map (\<lambda>(i, c). (i, cad_format c, pd_sample_count d)) (color_attachment_descriptors d) \<and>
     map_option att_format (depth t) =
       (if pd_depth d = None then None else Some (depth_pixel_format d, pd_sample_count d)) \<and>
     (depth t = None \<longrightarrow>
        map_option att_format (stencil t) =
          (if HasStencilAttachmentDescriptors d then Some (stencil_pixel_format d, pd_sample_count d)
           else None))"

definition compat_desc :: "SampleCount \<Rightarrow> color_attachment_descriptor \<Rightarrow> attachment_description" where
  "compat_desc samples c = color_description (cad_format c) samples LoadAction.kDontCare
     StoreAction.kDontCare eUndefined False"

lemma compat_color_step:
  "i \<noteq> 0 \<Longrightarrow> \<forall>k \<in> fst ` set (rb_colors b). k < i \<Longrightarrow> rb_resolves b = [] \<Longrightarrow>
   rb_SetColorAttachment i (cad_format c) samples LoadAction.kDontCare StoreAction.kDontCare
     eUndefined False b = b\<lparr>rb_colors := rb_colors b @ [(i, compat_desc samples c)], rb_resolves := []\<rparr>"
  by (simp add: rb_SetColorAttachment_def compat_desc_def smap_put_last smap_del_def)

lemma compat_colors_later:
  "sset (map fst cs) \<Longrightarrow> 0 \<notin> fst ` set cs \<Longrightarrow>
   \<forall>k \<in> fst ` set (rb_colors b). \<forall>i \<in> fst ` set cs. k < i \<Longrightarrow> rb_resolves b = [] \<Longrightarrow>
   compat_colors samples cs b =
     b\<lparr>rb_colors := rb_colors b @ map (\<lambda>(i, c). (i, compat_desc samples c)) cs, rb_resolves := []\<rparr>"
proof (induction samples cs b rule: compat_colors.induct)
  case (2 samples i c cs b)
  let ?b = "b\<lparr>rb_colors := rb_colors b @ [(i, compat_desc samples c)], rb_resolves := []\<rparr>"
  have step: "rb_SetColorAttachment i (cad_format c) samples LoadAction.kDontCare StoreAction.kDontCare
      eUndefined False b = ?b"
    using "2.prems" by (intro compat_color_step) auto
  have "i < x" if "x \<in> fst ` set cs" for x
    using "2.prems"(1) that by (cases "x = i") (auto simp: order_less_le)
  then have "compat_colors samples cs ?b = ?b\<lparr>rb_colors := rb_colors ?b @
      map (\<lambda>(i, c). (i, compat_desc samples c)) cs, rb_resolves := []\<rparr>"
    using "2.IH" "2.prems" unfolding step by auto
  then show ?case by (simp add: step)
qed simp

definition split0 :: "(nat \<times> 'a) list \<Rightarrow> 'a option \<times> (nat \<times> 'a) list" where
  "split0 cs = (case cs of (0, x) # r \<Rightarrow> (Some x, r) | _ \<Rightarrow> (None, cs))"

lemma split0_sorted:
  "sset (map fst cs) \<Longrightarrow> split0 cs = (x, r) \<Longrightarrow>
   cs = map (Pair 0) (opt_list x) @ r \<and> sset (map fst r) \<and> 0 \<notin> fst ` set r"
  by (cases cs; cases "fst (hd cs)") (force simp: split0_def split: nat.splits)+

text \<open>What the builder of the compatible pass holds.\<close>

lemma compat_colors_all:
  assumes "sset (map fst cs)" "split0 cs = (x, r)"
  shows "compat_colors samples cs RenderPassBuilder =
    RenderPassBuilder\<lparr>rb_color0 := map_option (compat_desc samples) x,
      rb_colors := map (\<lambda>(i, c). (i, compat_desc samples c)) r\<rparr>"
proof (cases x)
  case None
  then show ?thesis using split0_sorted [OF assms] compat_colors_later [of r RenderPassBuilder samples]
    by (simp add: RenderPassBuilder_def)
next
  case (Some c)
  let ?b = "RenderPassBuilder\<lparr>rb_color0 := Some (compat_desc samples c)\<rparr>"
  have "rb_SetColorAttachment 0 (cad_format c) samples LoadAction.kDontCare StoreAction.kDontCare
      eUndefined False RenderPassBuilder = ?b"
    by (simp add: rb_SetColorAttachment_def compat_desc_def RenderPassBuilder_def)
  moreover have "compat_colors samples r ?b = ?b\<lparr>rb_colors := rb_colors ?b @
      map (\<lambda>(i, c). (i, compat_desc samples c)) r, rb_resolves := []\<rparr>"
    using split0_sorted [OF assms] by (intro compat_colors_later) (auto simp: RenderPassBuilder_def)
  ultimately show ?thesis using split0_sorted [OF assms] Some
    by (simp add: RenderPassBuilder_def)
qed

text \<open>Attachments without resolve: one reference each, in order.\<close>

definition plain_refs :: "nat \<Rightarrow> nat \<Rightarrow> attachment_reference list" where
  "plain_refs m n = map (\<lambda>k. \<lparr>ar_attachment = of_nat k, ar_layout = eGeneral\<rparr>) [m ..< n]"

lemma push_color_plain:
  "length atts < kMaxAttachments \<Longrightarrow> length cr < kMaxColorAttachments \<Longrightarrow>
   length rr < kMaxColorAttachments \<Longrightarrow>
   push_color x None (atts, cr, rr) = Inr (atts @ [x],
     cr @ [\<lparr>ar_attachment = of_nat (length atts), ar_layout = eGeneral\<rparr>],
     rr @ [kUnusedAttachmentReference])"
  by (simp add: push_color_def)

lemma push_colors_plain:
  "length atts + length cs \<le> kMaxAttachments \<Longrightarrow> length cr + length cs \<le> kMaxColorAttachments \<Longrightarrow>
   length rr + length cs \<le> kMaxColorAttachments \<Longrightarrow>
   push_colors [] cs (atts, cr, rr) = Inr (atts @ map snd cs,
     cr @ plain_refs (length atts) (length atts + length cs),
     rr @ replicate (length cs) kUnusedAttachmentReference)"
proof (induction cs arbitrary: atts cr rr)
  case (Cons c cs)
  have "push_colors [] cs (atts @ [snd c],
      cr @ [\<lparr>ar_attachment = of_nat (length atts), ar_layout = eGeneral\<rparr>],
      rr @ [kUnusedAttachmentReference]) =
    Inr ((atts @ [snd c]) @ map snd cs,
      (cr @ [\<lparr>ar_attachment = of_nat (length atts), ar_layout = eGeneral\<rparr>]) @
        plain_refs (length (atts @ [snd c])) (length (atts @ [snd c]) + length cs),
      (rr @ [kUnusedAttachmentReference]) @ replicate (length cs) kUnusedAttachmentReference)"
    using Cons.prems by (intro Cons.IH) auto
  then show ?case using Cons.prems
    by (cases c) (simp add: push_color_plain plain_refs_def upt_conv_Cons del: upt_Suc)
qed (simp add: plain_refs_def)

definition compat_depth :: "'f pipeline_descriptor \<Rightarrow> attachment_description option" where
  "compat_depth d = rb_depth_stencil (compat_builder d)"

lemma compat_builder_fields:
  fixes d :: "'f pipeline_descriptor"
  assumes "sset (map fst (color_attachment_descriptors d))"
    "split0 (color_attachment_descriptors d) = (x, r)"
  shows "rb_color0 (compat_builder d) = map_option (compat_desc (pd_sample_count d)) x"
    "rb_colors (compat_builder d) = map (\<lambda>(i, c). (i, compat_desc (pd_sample_count d) c)) r"
    "rb_color0_resolve (compat_builder d) = None" "rb_resolves (compat_builder d) = []"
    "map_option (\<lambda>a. (ad_format a, ad_samples a)) (compat_depth d) =
       (if pd_depth d \<noteq> None then Some (ToVKImageFormat (depth_pixel_format d), ToVKSampleCount (pd_sample_count d))
        else if HasStencilAttachmentDescriptors d
        then Some (ToVKImageFormat (stencil_pixel_format d), ToVKSampleCount (pd_sample_count d)) else None)"
  unfolding compat_builder_def compat_depth_def Let_def compat_colors_all [OF assms]
  by (simp_all add: rb_SetDepthStencilAttachment_def rb_SetStencilAttachment_def RenderPassBuilder_def)

lemma compat_Build_info:
  fixes d :: "'f pipeline_descriptor"
  defines "cs \<equiv> color_attachment_descriptors d"
  assumes keys: "sset (map fst cs)" and few: "length cs \<le> kMaxColorAttachments"
  shows "Build_info (compat_builder d) = Inr
    \<lparr>rp_attachments = map (compat_desc (pd_sample_count d) \<circ> snd) cs @ opt_list (compat_depth d),
     rp_color_refs = plain_refs 0 (length cs),
     rp_resolve_refs = replicate (length cs) kUnusedAttachmentReference,
     rp_depth_stencil_ref = (if compat_depth d = None then kUnusedAttachmentReference
       else \<lparr>ar_attachment = of_nat (length cs), ar_layout = eDepthStencilAttachmentOptimal\<rparr>),
     rp_dependencies = pass_dependencies\<rparr>"
proof -
  obtain x r where xr: "split0 cs = (x, r)" by (cases "split0 cs")
  define cs0 where "cs0 = map (Pair (0 :: nat)) (opt_list x)"
  have cs: "cs = cs0 @ r" using split0_sorted [OF keys xr] by (simp add: cs0_def)
  note f = compat_builder_fields [OF keys [unfolded cs_def] xr [unfolded cs_def]]
  let ?cd = "compat_desc (pd_sample_count d)"
  have len: "length cs0 \<le> 1" by (cases x) (simp_all add: cs0_def)
  have first: "(case rb_color0 (compat_builder d) of None \<Rightarrow> Inr ([], [], [])
      | Some a \<Rightarrow> push_color a (rb_color0_resolve (compat_builder d)) ([], [], [])) =
    Inr (map (?cd \<circ> snd) cs0, plain_refs 0 (length cs0), replicate (length cs0) kUnusedAttachmentReference)"
    by (cases x) (simp_all add: f cs0_def push_color_plain plain_refs_def kMaxAttachments_def
        kMaxColorAttachments_def)
  have "push_colors [] (map (\<lambda>(i, c). (i, ?cd c)) r) (map (?cd \<circ> snd) cs0, plain_refs 0 (length cs0),
      replicate (length cs0) kUnusedAttachmentReference) =
    Inr (map (?cd \<circ> snd) cs0 @ map snd (map (\<lambda>(i, c). (i, ?cd c)) r),
      plain_refs 0 (length cs0) @ plain_refs (length (map (?cd \<circ> snd) cs0))
        (length (map (?cd \<circ> snd) cs0) + length (map (\<lambda>(i, c). (i, ?cd c)) r)),
      replicate (length cs0) kUnusedAttachmentReference @
        replicate (length (map (\<lambda>(i, c). (i, ?cd c)) r)) kUnusedAttachmentReference)"
    by (rule push_colors_plain)
      (use few len in \<open>simp_all add: cs plain_refs_def kMaxAttachments_def\<close>)
  moreover have "map snd (map (\<lambda>(i, c). (i, ?cd c)) r) = map (?cd \<circ> snd) r"
    by (simp add: comp_def case_prod_beta)
  moreover have "plain_refs 0 (length cs0) @ plain_refs (length cs0) (length cs0 + length r) =
      plain_refs 0 (length cs)"
    by (simp add: plain_refs_def cs upt_add_eq_append [of 0])
  ultimately have rest: "push_colors (rb_resolves (compat_builder d)) (rb_colors (compat_builder d))
      (map (?cd \<circ> snd) cs0, plain_refs 0 (length cs0), replicate (length cs0) kUnusedAttachmentReference) =
    Inr (map (?cd \<circ> snd) cs, plain_refs 0 (length cs), replicate (length cs) kUnusedAttachmentReference)"
    by (simp add: f cs replicate_add)
  have depth: "rb_depth_stencil (compat_builder d) = compat_depth d" by (simp add: compat_depth_def)
  have "length cs < kMaxAttachments" using few by (simp add: kMaxAttachments_def)
  then show ?thesis
    unfolding Build_info_def first rest rbind.simps split_conv depth
    by (cases "compat_depth d") auto
qed

subsection \<open>Variants\<close>

lemma stop_or_go:
  "(case m of None \<Rightarrow> Inr None | Some x \<Rightarrow> f x) = Inr (Some y) \<longleftrightarrow> (\<exists>x. m = Some x \<and> f x = Inr (Some y))"
  "(if \<not> b then Inr None else r) = Inr (Some y) \<longleftrightarrow> b \<and> r = Inr (Some y)"
  by (cases m; simp) simp

lemma PipelineVK_Create_some:
  "PipelineVK_Create dev s alive key sampler d = Inr (Some p) \<Longrightarrow>
   pipeline_key p = key \<and> immutable_sampler p = sampler \<and> desc p = d \<and>
   MakeDescriptorSetLayout_info s sampler d = Inr (set_bindings p)"
  unfolding PipelineVK_Create_def rbind_Inr_iff stop_or_go by (elim exE conjE) auto

text \<open>
  The comment says that the negated key keeps the descriptor sets of a variant separate. It does so
  from those of the pipeline, but two variants with different samplers have the same key
  although their set layouts differ wherever the shaders sample an image.
\<close>

lemma variants_share_key:
  assumes x: "CreateVariantForImmutableSamplers dev s key_of True True p (Some x) Map.empty = Inr (Some v, vs)"
    and y: "CreateVariantForImmutableSamplers dev s key_of True True p (Some y) vs = Inr (Some w, ws)"
    and ne: "key_of x \<noteq> key_of y"
    and l: "pd_vertex_descriptor (desc p) = Some a" "l \<in> set (desc_set_layouts (vertex_descriptor_at s a))"
      "dsl_descriptor_type l = DescriptorType.kSampledImage"
  shows "pipeline_key v = pipeline_key w" "set_bindings v \<noteq> set_bindings w"
proof -
  have v: "PipelineVK_Create dev s True (- pipeline_key p) (Some x) (desc p) = Inr (Some v)"
      and vs: "vs = [key_of x \<mapsto> Some v]"
    using x by (auto simp: CreateVariantForImmutableSamplers_def result_simps)
  have w: "PipelineVK_Create dev s True (- pipeline_key p) (Some y) (desc p) = Inr (Some w)"
    using y ne by (auto simp: CreateVariantForImmutableSamplers_def result_simps vs split: if_splits)
  note V = PipelineVK_Create_some [OF v] PipelineVK_Create_some [OF w]
  show "pipeline_key v = pipeline_key w" using V by simp
  have "x \<noteq> y" using ne by blast
  have "set_bindings v = map (set_binding (Some x)) (desc_set_layouts (vertex_descriptor_at s a))"
      "set_bindings w = map (set_binding (Some y)) (desc_set_layouts (vertex_descriptor_at s a))"
    using V l(1) by (simp_all add: MakeDescriptorSetLayout_info_def)
  moreover have "set_binding (Some x) l \<noteq> set_binding (Some y) l"
    using \<open>x \<noteq> y\<close> l(3) by (simp add: set_binding_def)
  ultimately show "set_bindings v \<noteq> set_bindings w" using l(2) by auto
qed

text \<open>A variant that could not be created is not tried again.\<close>

lemma failed_variant_stays:
  assumes "CreateVariantForImmutableSamplers dev s key_of True alive p (Some x) vs = Inr (None, ws)"
    "vs (key_of x) = None"
  shows "CreateVariantForImmutableSamplers dev' s key_of True alive' p (Some x) ws = Inr (None, ws)"
  using assms by (auto simp: CreateVariantForImmutableSamplers_def result_simps)

text \<open>A vertex format is as wide as the slot it is for.\<close>

fun vertex_format_bits :: "VertexFormat \<Rightarrow> nat" where
  "vertex_format_bits Vertex_Undefined = 0"
| "vertex_format_bits (Vertex_Float b n) = b * n"
| "vertex_format_bits (Vertex_Uint b n) = b * n"
| "vertex_format_bits (Vertex_Sint b n) = b * n"

lemma vertex_format_fits_slot:
  "ToVertexDescriptorFormat i \<noteq> Vertex_Undefined \<Longrightarrow>
   vertex_format_bits (ToVertexDescriptorFormat i) = bit_width i * vec_size i * columns i"
  by (auto simp: ToVertexDescriptorFormat_def vertex_format_of_def split: if_splits ShaderType.splits)

subsection \<open>Properties\<close>

lemma index_of_nat:
  "k < kMaxAttachments \<Longrightarrow> of_nat k \<noteq> (- 1 :: u32) \<and> unat (of_nat k :: u32) = k"
proof -
  assume "k < kMaxAttachments"
  then have k: "k < 33" by (simp add: kMaxAttachments_def kMaxColorAttachments_def)
  have "of_nat k \<noteq> (- 1 :: u32)"
  proof
    assume "of_nat k = (- 1 :: u32)"
    then have "of_nat (Suc k) = (0 :: u32)" by simp
    then have "2 ^ 32 dvd Suc k" by (simp only: word_of_nat_eq_0_iff) simp
    then show False using k by (auto dest: dvd_imp_le)
  qed
  moreover have "unat (of_nat k :: u32) = k" using k by (simp add: unat_of_nat take_bit_nat_eq_self)
  ultimately show ?thesis by simp
qed

lemma color_refs_referenced:
  assumes cs: "length cs \<le> kMaxColorAttachments" and k: "k < length cs"
    and p: "rp_attachments p = map (slot_desc l sw) (slot_plan cs) @ ds" "rp_color_refs p = color_refs_from 0 cs"
  shows "referenced p (rp_color_refs p ! k) =
    (case att_format (snd (cs ! k)) of (f, n) \<Rightarrow> Some (ToVKImageFormat f, ToVKSampleCount n))"
proof -
  let ?j = "length (slot_plan (take k cs))"
  note at = slot_plan_nth [OF k]
  have "?j < kMaxAttachments" using at(1) slot_plan_fits [OF cs] by simp
  from index_of_nat [OF this] show ?thesis
    using at k p by (simp add: referenced_def color_refs_nth nth_append slot_desc_def color_desc_of_def
        color_description_def att_format_def kUnusedAttachmentReference_def Let_def)
qed

lemma plain_refs_referenced:
  assumes "length cs \<le> kMaxColorAttachments" "k < length cs"
    "rp_attachments q = map (compat_desc n \<circ> snd) cs @ ds" "rp_color_refs q = plain_refs 0 (length cs)"
  shows "referenced q (rp_color_refs q ! k) = Some (ToVKImageFormat (cad_format (snd (cs ! k))), ToVKSampleCount n)"
proof -
  have "k < kMaxAttachments" using assms by (simp add: kMaxAttachments_def)
  from index_of_nat [OF this] show ?thesis using assms
    by (simp add: referenced_def plain_refs_def nth_append compat_desc_def color_description_def
        kUnusedAttachmentReference_def Let_def)
qed

lemma last_referenced:
  assumes "length cs < kMaxAttachments" "rp_attachments p = cs @ opt_list x"
    "rp_depth_stencil_ref p = (if x = None then kUnusedAttachmentReference
       else \<lparr>ar_attachment = of_nat (length cs), ar_layout = eDepthStencilAttachmentOptimal\<rparr>)"
  shows "referenced p (rp_depth_stencil_ref p) = map_option (\<lambda>a. (ad_format a, ad_samples a)) x"
  using index_of_nat [OF assms(1)] assms(2,3)
  by (cases x) (simp_all add: referenced_def kUnusedAttachmentReference_def)

lemma depth_stencil_desc_format:
  "map_option (\<lambda>a. (ad_format a, ad_samples a)) (depth_stencil_desc t) =
   map_option (\<lambda>(f, n). (ToVKImageFormat f, ToVKSampleCount n))
     (case depth t of Some a \<Rightarrow> Some (att_format a) | None \<Rightarrow> map_option att_format (stencil t))"
  by (simp add: depth_stencil_desc_def att_format_def rb_SetDepthStencilAttachment_def
      rb_SetStencilAttachment_def Let_def split: option.splits)

lemma ToVKSampleCount_same: "ToVKSampleCountFlagBits n = ToVKSampleCount n"
  by (cases n) simp_all

lemma made_for_keys: "rt_ok t \<Longrightarrow> made_for d t \<Longrightarrow> sset (map fst (color_attachment_descriptors d))"
proof -
  assume t: "rt_ok t" "made_for d t"
  have "sset (map fst (color_list t))"
    using t(1) by (cases "color0 t") (auto simp: rt_ok_def color_list_def)
  moreover have "map fst (color_attachment_descriptors d) = map fst (color_list t)"
    using arg_cong [where f = "map fst", OF conjunct1 [OF t(2) [unfolded made_for_def]]]
    by (simp add: comp_def case_prod_beta)
  ultimately show ?thesis by simp
qed

text \<open>
  C38: The render pass a pipeline is compiled against is not the one it is used in, but the two are
  compatible: for every render target that can be set up, with at most 16 color attachments, and
  every descriptor with its indices, formats and sample count, the pass made from the
  descriptor and the pass made from the target, whatever its load and store actions, resolve
  textures and image layouts, agree in what Vulkan compares. The pipeline has one blend state for
  each color reference of the target's pass, and its sample count is the one of every color
  attachment.
\<close>

theorem pipeline_pass_compatible:
  fixes t :: "('c, 'd) render_target"
  assumes "reachable_from (\<lambda>t. t = RenderTarget) rt_step t"
    and few: "length (color_list t) \<le> kMaxColorAttachments" and made: "made_for d t"
  shows "\<exists>b p q. pass_builder l sw t = Inr b \<and> Build_info b = Inr p \<and>
    Build_info (compat_builder d) = Inr q \<and> pass_compatible p q \<and>
    (\<forall>zero re s info. MakePipeline_info zero re s d = Inr (Some info) \<longrightarrow>
       length (gp_blend info) = length (rp_color_refs p) \<and>
       (\<forall>r \<in> set (rp_color_refs p). \<exists>f. referenced p r = Some (f, gp_samples info)))"
proof -
  have ok: "rt_ok t" by (rule rt.reachable_inv [OF assms(1)])
  let ?cl = "color_list t" and ?cs = "color_attachment_descriptors d"
  obtain b where b: "pass_builder l sw t = Inr b" using pass_builder_ok [OF ok, of l sw] by blast
  obtain p where p: "Build_info b = Inr p"
      "rp_attachments p = map (slot_desc l sw) (slot_plan ?cl) @ opt_list (depth_stencil_desc t)"
      "rp_color_refs p = color_refs_from 0 ?cl" "rp_dependencies p = pass_dependencies"
      "rp_depth_stencil_ref p = (if depth_stencil_desc t = None then kUnusedAttachmentReference
       else \<lparr>ar_attachment = of_nat (length (slot_plan ?cl)), ar_layout = eDepthStencilAttachmentOptimal\<rparr>)"
    using Build_info_ok [OF ok few b] depth_stencil_desc_some(1) [of t] by simp
  have rows: "map (\<lambda>(i, a). (i, att_format a)) ?cl = map (\<lambda>(i, c). (i, cad_format c, pd_sample_count d)) ?cs"
    using made by (simp add: made_for_def)
  then have len: "length ?cs = length ?cl" by (metis length_map)
  have keys: "sset (map fst ?cs)" by (rule made_for_keys [OF ok made])
  have few': "length ?cs \<le> kMaxColorAttachments" using few len by simp
  obtain q where q: "Build_info (compat_builder d) = Inr q"
      "rp_attachments q = map (compat_desc (pd_sample_count d) \<circ> snd) ?cs @ opt_list (compat_depth d)"
      "rp_color_refs q = plain_refs 0 (length ?cs)" "rp_dependencies q = pass_dependencies"
      "rp_depth_stencil_ref q = (if compat_depth d = None then kUnusedAttachmentReference
       else \<lparr>ar_attachment = of_nat (length ?cs), ar_layout = eDepthStencilAttachmentOptimal\<rparr>)"
    using compat_Build_info [OF keys few'] by simp
  have row: "att_format (snd (?cl ! k)) = (cad_format (snd (?cs ! k)), pd_sample_count d)"
    if "k < length ?cl" for k
    using arg_cong [where f = "\<lambda>xs. xs ! k", OF rows] that len by (simp add: case_prod_beta)
  have at: "referenced p (rp_color_refs p ! k) =
      Some (ToVKImageFormat (cad_format (snd (?cs ! k))), ToVKSampleCount (pd_sample_count d))"
    if "k < length ?cl" for k
    using color_refs_referenced [OF few that p(2,3)] row [OF that] by simp
  have "map (referenced p) (rp_color_refs p) = map (referenced q) (rp_color_refs q)"
  proof (rule nth_equalityI)
    show "length (map (referenced p) (rp_color_refs p)) = length (map (referenced q) (rp_color_refs q))"
      using len by (simp add: p q plain_refs_def)
    show "map (referenced p) (rp_color_refs p) ! k = map (referenced q) (rp_color_refs q) ! k"
      if "k < length (map (referenced p) (rp_color_refs p))" for k
    proof -
      have k: "k < length ?cl" using that by (simp add: p)
      then show ?thesis
        using at [OF k] plain_refs_referenced [OF few' _ q(2,3), of k] len p(3) q(3)
        by (simp add: plain_refs_def)
    qed
  qed
  moreover have "referenced p (rp_depth_stencil_ref p) = referenced q (rp_depth_stencil_ref q)"
  proof -
    have "referenced p (rp_depth_stencil_ref p) =
        map_option (\<lambda>a. (ad_format a, ad_samples a)) (depth_stencil_desc t)"
      by (rule last_referenced [of "map (slot_desc l sw) (slot_plan ?cl)"])
        (use slot_plan_fits [OF few] p in simp_all)
    moreover have "referenced q (rp_depth_stencil_ref q) =
        map_option (\<lambda>a. (ad_format a, ad_samples a)) (compat_depth d)"
      by (rule last_referenced [of "map (compat_desc (pd_sample_count d) \<circ> snd) ?cs"])
        (use few' q in \<open>simp_all add: kMaxAttachments_def\<close>)
    moreover have "map_option (\<lambda>a. (ad_format a, ad_samples a)) (depth_stencil_desc t) =
        map_option (\<lambda>a. (ad_format a, ad_samples a)) (compat_depth d)"
      using made unfolding depth_stencil_desc_format made_for_def
      by (cases "split0 ?cs") (auto simp: compat_builder_fields(5) [OF keys] split: option.splits if_splits)
    ultimately show ?thesis by simp
  qed
  ultimately have "pass_compatible p q" by (simp add: pass_compatible_def p q)
  moreover have "length (gp_blend info) = length (rp_color_refs p) \<and>
      (\<forall>r \<in> set (rp_color_refs p). \<exists>f. referenced p r = Some (f, gp_samples info))"
    if "MakePipeline_info zero re s d = Inr (Some info)" for zero re s info
  proof -
    have info: "length (gp_blend info) = length ?cs" "gp_samples info = ToVKSampleCountFlagBits (pd_sample_count d)"
      using that by (auto simp: MakePipeline_info_def result_simps split: option.splits)
    then show ?thesis using at len by (auto simp: p in_set_conv_nth ToVKSampleCount_same)
  qed
  ultimately show ?thesis using b p(1) q(1) by blast
qed

definition example_descriptor :: "nat pipeline_descriptor" where
  "example_descriptor =
     SetColorAttachmentDescriptor 3 (default_color_attachment_descriptor)
     (SetColorAttachmentDescriptor 0 default_color_attachment_descriptor
     (SetDepthStencilAttachmentDescriptor (Some \<lparr>depth_compare = CompareFunction.kAlways, depth_write_enabled = False\<rparr>)
     (SetVertexDescriptor (Some 0)
     (SetSampleCount kCount4 PipelineDescriptor))))"

lemma example_made_for: "made_for example_descriptor example_target"
proof -
  have "map (\<lambda>(i, a). (i, att_format a)) (color_list example_target) =
      map (\<lambda>(i, c). (i, cad_format c, pd_sample_count example_descriptor))
        (color_attachment_descriptors example_descriptor)"
    by code_simp
  moreover have "map_option att_format (depth example_target) =
      Some (depth_pixel_format example_descriptor, pd_sample_count example_descriptor)"
    by code_simp
  moreover have "pd_depth example_descriptor \<noteq> None"
    by (simp add: example_descriptor_def SetColorAttachmentDescriptor_def
        SetDepthStencilAttachmentDescriptor_def)
  ultimately show ?thesis by (auto simp: made_for_def)
qed

theorem pipeline_pass_compatible_witness:
  "\<exists>b p q. pass_builder (\<lambda>_. eUndefined) True example_target = Inr b \<and> Build_info b = Inr p \<and>
     Build_info (compat_builder example_descriptor) = Inr q \<and> pass_compatible p q"
proof -
  have "length (color_list example_target) \<le> kMaxColorAttachments" by code_simp
  from pipeline_pass_compatible [OF example_target_reachable this example_made_for]
  show ?thesis by blast
qed

end
