(* ===== verification/Pipeline_Library.thy ===== *)
theory Pipeline_Library
  imports Pipeline_Vk Compile_Queue
begin

text \<open>
  The library of pipelines: \<^verbatim>\<open>src/hal/pipeline_library_vk.{h,cc}\<close>, the futures and
  handles of \<^verbatim>\<open>src/hal/pipeline.{h,cc}\<close>, \<^verbatim>\<open>src/base/promise.h\<close> and the
  \<open>erase_if\<close> of \<^verbatim>\<open>src/fml/container.h\<close>, over the queue of \<open>Compile_Queue\<close>.

  The types \<open>'d\<close> and \<open>'c\<close> are descriptors up to the equality of their hash maps, a partial
  equivalence by \<open>Pipeline_Descriptor\<close>; descriptors with a NaN constant are left out. A promise
  is a number, with the list of the values that were set on it, in order: a second value would be an
  error. The generation task of a promise has captured the request and the key; a job of the
  compile queue names the promise of its task. What a request and a key give is the parameter
  \<open>create\<close>, for instance \<open>PipelineVK_Create\<close>. The tasks of compute pipelines that were posted to the
  workers may start in any order. The disk cache is the number of posts that persist it.
\<close>

subsection \<open>Compute pipelines\<close>

record compute_pipeline_info =
  cp_module :: nat                 \<comment> \<open>the shader function whose module it is\<close>
  cp_workgroup_size :: nat         \<comment> \<open>specialization constant 0\<close>
  cp_layout :: nat

record compute_device =
  max_workgroup_size_x :: nat
  create_compute_set_layout :: "vk_descriptor_set_layout_binding list \<Rightarrow> nat option"
  create_compute_layout :: "nat \<Rightarrow> nat option"
  create_compute_pipeline :: "compute_pipeline_info \<Rightarrow> nat option"

record compute_pipeline =
  cp_desc :: compute_descriptor
  cp_handle :: nat
  cp_layout_handle :: nat
  cp_set_layout_handle :: nat
  cp_key :: int

definition CreateComputePipeline ::
  "compute_device option \<Rightarrow> compute_descriptor \<Rightarrow> int \<Rightarrow> compute_pipeline option"
where
  "CreateComputePipeline device d key =
     (case entrypoint d of
        None \<Rightarrow> None
      | Some f \<Rightarrow>
     (case device of
        None \<Rightarrow> None
      | Some dev \<Rightarrow>
     (case create_compute_set_layout dev (map ToVKDescriptorSetLayoutBinding (cpd_layouts d)) of
        None \<Rightarrow> None
      | Some descs_layout \<Rightarrow>
     (case create_compute_layout dev descs_layout of
        None \<Rightarrow> None
      | Some layout \<Rightarrow>
     (case create_compute_pipeline dev \<lparr>cp_module = f, cp_workgroup_size = max_workgroup_size_x dev,
             cp_layout = layout\<rparr> of
        None \<Rightarrow> None
      | Some p \<Rightarrow> Some \<lparr>cp_desc = d, cp_handle = p, cp_layout_handle = layout,
          cp_set_layout_handle = descs_layout, cp_key = key\<rparr>)))))"

definition ComputePipeline_destroy :: "bool \<Rightarrow> compute_pipeline \<Rightarrow> nat list" where
  "ComputePipeline_destroy device_alive p =
     (if device_alive then [cp_set_layout_handle p, cp_layout_handle p, cp_handle p] else [])"

subsection \<open>The library\<close>

datatype ('d, 'c) request = Graphics 'd | Compute 'c

datatype 'p future = Realized "'p option" | Shared nat

record ('d, 'c, 'p) library =
  captured :: "(('d, 'c) request \<times> int) list"     \<comment> \<open>what the task of each promise has captured\<close>
  set_values :: "'p option list list"              \<comment> \<open>the values set on each promise\<close>
  pipelines :: "('d \<times> nat) list"
  compute_pipelines :: "('c \<times> nat) list"
  next_key :: int
  library_valid :: bool
  library_alive :: bool                            \<comment> \<open>what locking a weak pointer to it tells\<close>
  cache_dirty :: bool
  frames_acquired :: nat
  persist_posts :: nat
  jobs :: "nat list"                               \<comment> \<open>the promise of each job of the queue\<close>
  compile_queue :: "'d compile_queue"
  compute_tasks :: "nat list"                      \<comment> \<open>promises of tasks posted to the workers\<close>

definition PipelineLibrary :: "bool \<Rightarrow> ('d, 'c, 'p) library" where
  "PipelineLibrary cache_valid =
     \<lparr>captured = [], set_values = [], pipelines = [], compute_pipelines = [], next_key = 1,
      library_valid = cache_valid, library_alive = True, cache_dirty = False, frames_acquired = 0,
      persist_posts = 0, jobs = [], compile_queue = Create, compute_tasks = []\<rparr>"

text \<open>The generation task of the promise \<open>n\<close>.\<close>

definition generation_task ::
  "(('d, 'c) request \<Rightarrow> int \<Rightarrow> 'p option) \<Rightarrow> nat \<Rightarrow> ('d, 'c, 'p) library \<Rightarrow> ('d, 'c, 'p) library"
where
  "generation_task create n s =
     s\<lparr>set_values := (set_values s)[n := set_values s ! n @
         [if library_alive s then create (fst (captured s ! n)) (snd (captured s ! n)) else None]]\<rparr>"

definition new_promise :: "('d, 'c) request \<Rightarrow> ('d, 'c, 'p) library \<Rightarrow> ('d, 'c, 'p) library" where
  "new_promise r s =
     s\<lparr>captured := captured s @ [(r, next_key s)], set_values := set_values s @ [[]],
       next_key := next_key s + 1\<rparr>"

definition GetPipeline ::
  "(('d, 'c) request \<Rightarrow> int \<Rightarrow> 'p option) \<Rightarrow> 'd \<Rightarrow> bool \<Rightarrow> ('d, 'c, 'p) library \<Rightarrow>
   'p future \<times> ('d, 'c, 'p) library"
where
  "GetPipeline create d async s =
     (case map_of (pipelines s) d of
        Some n \<Rightarrow> (Shared n, s)
      | None \<Rightarrow>
          (let s1 = s\<lparr>cache_dirty := True\<rparr>
           in if \<not> library_valid s1 then (Realized None, s1)
              else
                let n = length (captured s1);
                    s2 = new_promise (Graphics d) s1;
                    s3 = s2\<lparr>pipelines := (d, n) # pipelines s2\<rparr>
                in if async
                   then (Shared n, s3\<lparr>jobs := jobs s3 @ [n],
                           compile_queue := snd (PostJobForDescriptor d False (compile_queue s3))\<rparr>)
                   else (Shared n, generation_task create n s3)))"

definition GetPipeline_compute ::
  "(('d, 'c) request \<Rightarrow> int \<Rightarrow> 'p option) \<Rightarrow> 'c \<Rightarrow> bool \<Rightarrow> ('d, 'c, 'p) library \<Rightarrow>
   'p future \<times> ('d, 'c, 'p) library"
where
  "GetPipeline_compute create c async s =
     (case map_of (compute_pipelines s) c of
        Some n \<Rightarrow> (Shared n, s)
      | None \<Rightarrow>
          (let s1 = s\<lparr>cache_dirty := True\<rparr>
           in if \<not> library_valid s1 then (Realized None, s1)
              else
                let n = length (captured s1);
                    s2 = new_promise (Compute c) s1;
                    s3 = s2\<lparr>compute_pipelines := (c, n) # compute_pipelines s2\<rparr>
                in if async then (Shared n, s3\<lparr>compute_tasks := compute_tasks s3 @ [n]\<rparr>)
                   else (Shared n, generation_task create n s3)))"

text \<open>A request that may be missing.\<close>

definition GetPipeline_optional ::
  "(('d, 'c) request \<Rightarrow> int \<Rightarrow> 'p option) \<Rightarrow> 'd option \<Rightarrow> bool \<Rightarrow> ('d, 'c, 'p) library \<Rightarrow>
   'p future \<times> ('d, 'c, 'p) library"
where
  "GetPipeline_optional create od async s =
     (case od of Some d \<Rightarrow> GetPipeline create d async s | None \<Rightarrow> (Realized None, s))"

definition HasPipeline :: "'d \<Rightarrow> ('d, 'c, 'p) library \<Rightarrow> bool" where
  "HasPipeline d s \<longleftrightarrow> map_of (pipelines s) d \<noteq> None"

text \<open>\<open>entry\<close> is the function a descriptor has for a stage, if any; \<open>f\<close> the given pointer.\<close>

fun erase_entries ::
  "('d \<Rightarrow> ShaderStage \<Rightarrow> shader_function option) \<Rightarrow> shader_function option \<Rightarrow> ('d \<times> nat) list \<Rightarrow>
   ('d \<times> nat) list result"
where
  "erase_entries entry f [] = Inr []"
| "erase_entries entry f ((d, n) # ps) =
     rbind (of_option Undefined_Behaviour f) (\<lambda>g.
     rbind (of_option Undefined_Behaviour (entry d (sf_stage g))) (\<lambda>e.
     rbind (erase_entries entry f ps) (\<lambda>qs.
       Inr (if sf_IsEqual e g then qs else (d, n) # qs))))"

definition RemovePipelinesWithEntryPoint ::
  "('d \<Rightarrow> ShaderStage \<Rightarrow> shader_function option) \<Rightarrow> shader_function option \<Rightarrow> ('d, 'c, 'p) library \<Rightarrow>
   ('d, 'c, 'p) library result"
where
  "RemovePipelinesWithEntryPoint entry f s =
     rbind (erase_entries entry f (pipelines s)) (\<lambda>ps. Inr (s\<lparr>pipelines := ps\<rparr>))"

definition DidAcquireSurfaceFrame :: "('d, 'c, 'p) library \<Rightarrow> ('d, 'c, 'p) library" where
  "DidAcquireSurfaceFrame s =
     (let s1 = s\<lparr>frames_acquired := frames_acquired s + 1\<rparr>
      in if frames_acquired s1 = 50 then
           (if cache_dirty s1
            then s1\<lparr>cache_dirty := False, persist_posts := persist_posts s1 + 1, frames_acquired := 0\<rparr>
            else s1\<lparr>frames_acquired := 0\<rparr>)
         else s1)"

text \<open>The counters of uses, in the builds that have them.\<close>

definition LogPipelineCreation :: "'d \<Rightarrow> ('d \<rightharpoonup> int) \<Rightarrow> ('d \<rightharpoonup> int)" where
  "LogPipelineCreation d counts = (if counts d = None then counts(d \<mapsto> 0) else counts)"

definition LogPipelineUsage :: "'d \<Rightarrow> ('d \<rightharpoonup> int) \<Rightarrow> ('d \<rightharpoonup> int)" where
  "LogPipelineUsage d counts = counts(d \<mapsto> (case counts d of None \<Rightarrow> 0 | Some n \<Rightarrow> n) + 1)"

subsection \<open>Handles\<close>

record ('d, 'p) handle =
  handle_descriptor :: "'d option"
  handle_future :: "'p future option"      \<comment> \<open>none: the future is not valid\<close>
  handle_pipeline :: "'p option"
  did_wait :: bool

definition future_value :: "'p future \<Rightarrow> ('d, 'c, 'p) library \<Rightarrow> 'p option option" where
  "future_value f s =
     (case f of
        Realized v \<Rightarrow> Some v
      | Shared n \<Rightarrow> (case set_values s ! n of [] \<Rightarrow> None | v # _ \<Rightarrow> Some v))"

text \<open>\<open>PerformJobEagerly\<close> on the thread of the caller, the invocation of the job included.\<close>

definition perform_eagerly ::
  "(('d, 'c) request \<Rightarrow> int \<Rightarrow> 'p option) \<Rightarrow> 'd \<Rightarrow> ('d, 'c, 'p) library \<Rightarrow> ('d, 'c, 'p) library"
where
  "perform_eagerly create d s =
     (case TakeJob d (compile_queue s) of
        (None, q) \<Rightarrow> s\<lparr>compile_queue := q\<rparr>
      | (Some j, q) \<Rightarrow>
          generation_task create (jobs s ! j) (s\<lparr>compile_queue := q\<lparr>ran := ran q @ [j]\<rparr>\<rparr>))"

text \<open>None when the thread has to wait for another one.\<close>

definition WaitAndGet ::
  "(('d, 'c) request \<Rightarrow> int \<Rightarrow> 'p option) \<Rightarrow> bool \<Rightarrow> ('d, 'p) handle \<Rightarrow> ('d, 'c, 'p) library \<Rightarrow>
   ('p option \<times> ('d, 'p) handle \<times> ('d, 'c, 'p) library) option"
where
  "WaitAndGet create has_queue h s =
     (if did_wait h then Some (handle_pipeline h, h, s)
      else
        (let h1 = h\<lparr>did_wait := True\<rparr>
         in case handle_future h1 of
              None \<Rightarrow> Some (handle_pipeline h1, h1, s)
            | Some f \<Rightarrow>
                (let s1 = (case handle_descriptor h1 of
                             Some d \<Rightarrow> if has_queue then perform_eagerly create d s else s
                           | None \<Rightarrow> s)
                 in case future_value f s1 of
                      None \<Rightarrow> None
                    | Some v \<Rightarrow> Some (v, h1\<lparr>handle_pipeline := v\<rparr>, s1))))"

text \<open>
  \<open>CreatePipelineFuture\<close> of a context and \<open>CreateVariant\<close> of a pipeline. The callback that changes
  the copy of the descriptor is a function; none stands for an empty one.
\<close>

definition CreatePipelineFuture ::
  "(('d, 'c) request \<Rightarrow> int \<Rightarrow> 'p option) \<Rightarrow> bool \<Rightarrow> 'd option \<Rightarrow> bool \<Rightarrow> ('d, 'c, 'p) library \<Rightarrow>
   'p future \<times> ('d, 'c, 'p) library"
where
  "CreatePipelineFuture create context_valid od async s =
     (if \<not> context_valid then (Realized None, s) else GetPipeline_optional create od async s)"

definition CreateVariant ::
  "(('d, 'c) request \<Rightarrow> int \<Rightarrow> 'p option) \<Rightarrow> 'd \<Rightarrow> bool \<Rightarrow> ('d \<Rightarrow> 'd) option \<Rightarrow> ('d, 'c, 'p) library \<Rightarrow>
   'p future \<times> ('d, 'c, 'p) library"
where
  "CreateVariant create d async callback s =
     (case callback of
        None \<Rightarrow> (Realized None, s)
      | Some f \<Rightarrow>
          if \<not> library_alive s then (Realized None, s) else GetPipeline create (f d) async s)"

subsection \<open>The steps of all threads\<close>

text \<open>A step of the compile queue runs the generation tasks of the jobs it invokes.\<close>

definition run_jobs ::
  "(('d, 'c) request \<Rightarrow> int \<Rightarrow> 'p option) \<Rightarrow> 'd compile_queue \<Rightarrow> ('d, 'c, 'p) library \<Rightarrow>
   ('d, 'c, 'p) library"
where
  "run_jobs create q s =
     fold (\<lambda>j. generation_task create (jobs s ! j)) (drop (length (ran (compile_queue s))) (ran q))
       (s\<lparr>compile_queue := q\<rparr>)"

datatype ('d, 'c) library_event =
    Get 'd bool | Get_Compute 'c bool | Queue "'d queue_event" | Run_Compute nat | Remove | Frame | Collect

fun is_post :: "'d queue_event \<Rightarrow> bool" where
  "is_post (Post d b) = True"
| "is_post e = False"

inductive lib_step ::
  "(('d, 'c) request \<Rightarrow> int \<Rightarrow> 'p option) \<Rightarrow> ('d \<Rightarrow> ShaderStage \<Rightarrow> shader_function option) \<Rightarrow>
   ('d, 'c, 'p) library \<Rightarrow> ('d, 'c) library_event \<Rightarrow> ('d, 'c, 'p) library \<Rightarrow> bool"
  for create entry where
  lib_get: "library_alive s \<Longrightarrow> lib_step create entry s (Get d async) (snd (GetPipeline create d async s))"
| lib_get_compute: "library_alive s \<Longrightarrow>
    lib_step create entry s (Get_Compute c async) (snd (GetPipeline_compute create c async s))"
| lib_queue: "cq_step (compile_queue s) e q \<Longrightarrow> \<not> is_post e \<Longrightarrow> (e = Destroy \<longrightarrow> \<not> library_alive s) \<Longrightarrow>
    lib_step create entry s (Queue e) (run_jobs create q s)"
| lib_run_compute: "n \<in> set (compute_tasks s) \<Longrightarrow>
    lib_step create entry s (Run_Compute n)
      (generation_task create n (s\<lparr>compute_tasks := remove1 n (compute_tasks s)\<rparr>))"
| lib_remove: "library_alive s \<Longrightarrow> RemovePipelinesWithEntryPoint entry f s = Inr t \<Longrightarrow>
    lib_step create entry s Remove t"
| lib_frame: "library_alive s \<Longrightarrow> lib_step create entry s Frame (DidAcquireSurfaceFrame s)"
| lib_collect: "lib_step create entry s Collect (s\<lparr>library_alive := False\<rparr>)"

subsection \<open>The queue's jobs\<close>

lemma cq_inv_ran:
  assumes "cq_inv q"
  shows "distinct (ran q)" "set (ran q) \<subseteq> {0 ..< accepted q}"
proof -
  have sub: "mset (ran q) \<subseteq># mset [0 ..< accepted q]"
    using assms unfolding cq_inv_def all_jobs_def by (metis mset_subset_eq_add_right)
  then show "distinct (ran q)" by (rule submset_distinct) simp
  show "set (ran q) \<subseteq> {0 ..< accepted q}" using set_mset_mono [OF sub] by simp
qed

lemma DoOneJob_ran: "\<exists>js. ran (DoOneJob i q) = ran q @ js"
  by (auto simp: DoOneJob_def TakeNextJob_def)

lemma FinishAllJobs_ran: "\<exists>js. ran (FinishAllJobs first q) = ran q @ js"
proof (induction first q rule: FinishAllJobs.induct)
  case (1 first q)
  let ?i = "first (pending_jobs q) mod length (pending_jobs q)"
  show ?case
  proof (cases "pending_jobs q = []")
    case True
    then show ?thesis by (simp add: FinishAllJobs.simps)
  next
    case False
    obtain js where js: "ran (FinishAllJobs first (DoOneJob ?i q)) = ran (DoOneJob ?i q) @ js"
      using 1 [OF False] by blast
    obtain ks where ks: "ran (DoOneJob ?i q) = ran q @ ks" using DoOneJob_ran by blast
    have "ran (FinishAllJobs first q) = ran q @ ks @ js"
      using False js ks by (subst FinishAllJobs.simps) simp
    then show ?thesis by blast
  qed
qed

lemma hold_rest [simp]:
  "ran (hold (TakeNextJob i q)) = ran q" "accepted (hold (TakeNextJob i q)) = accepted q"
  "alive (hold (TakeNextJob i q)) = alive q"
  "ran (hold (TakeJob d q)) = ran q" "accepted (hold (TakeJob d q)) = accepted q"
  "alive (hold (TakeJob d q)) = alive q"
  by (auto simp: hold_def TakeNextJob_def TakeJob_def split: option.splits)

lemma worker_start_rest [simp]:
  "ran (worker_start i q) = ran q" "accepted (worker_start i q) = accepted q"
  "alive (worker_start i q) = alive q"
  by (auto simp: worker_start_def split: list.splits worker_task.splits)

lemma cq_step_ran:
  assumes "cq_step q e q'" "\<not> is_post e"
  shows "\<exists>js. ran q' = ran q @ js" "accepted q' = accepted q" "e \<noteq> Destroy \<Longrightarrow> alive q' = alive q"
proof -
  show "\<exists>js. ran q' = ran q @ js"
    using assms
    by (cases rule: cq_step.cases) (auto simp: PostJobForDescriptor_task_def invoke_def
        PerformJobEagerly_def PipelineCompileQueue_destroy_def FinishAllJobs_ran)
  show "accepted q' = accepted q" "e \<noteq> Destroy \<Longrightarrow> alive q' = alive q"
    using assms
    by (cases rule: cq_step.cases; auto simp: PostJobForDescriptor_task_def invoke_def
        PerformJobEagerly_def PipelineCompileQueue_destroy_def FinishAllJobs_effect)+
qed

subsection \<open>The invariant\<close>

text \<open>Promises whose task is still with the queue or the workers.\<close>

definition waiting :: "nat list \<Rightarrow> nat list \<Rightarrow> nat list \<Rightarrow> nat set" where
  "waiting js done_jobs tasks = (\<lambda>j. js ! j) ` ({0 ..< length js} - set done_jobs) \<union> set tasks"

definition promises_ok ::
  "(('d, 'c) request \<Rightarrow> int \<Rightarrow> 'p option) \<Rightarrow> bool \<Rightarrow> nat set \<Rightarrow> (('d, 'c) request \<times> int) list \<Rightarrow>
   'p option list list \<Rightarrow> bool"
where
  "promises_ok create living W caps vals \<longleftrightarrow> length vals = length caps \<and>
     (\<forall>n < length caps. if n \<in> W then vals ! n = []
        else \<exists>v. vals ! n = [v] \<and>
          (v = create (fst (caps ! n)) (snd (caps ! n)) \<or> \<not> living \<and> v = None))"

definition table_ok ::
  "('x \<Rightarrow> ('d, 'c) request) \<Rightarrow> (('d, 'c) request \<times> int) list \<Rightarrow> ('x \<times> nat) list \<Rightarrow> bool"
where
  "table_ok r caps t \<longleftrightarrow> distinct (map fst t) \<and>
     (\<forall>(d, n) \<in> set t. n < length caps \<and> fst (caps ! n) = r d)"

definition lib_inv :: "(('d, 'c) request \<Rightarrow> int \<Rightarrow> 'p option) \<Rightarrow> ('d, 'c, 'p) library \<Rightarrow> bool" where
  "lib_inv create s \<longleftrightarrow>
     cq_inv (compile_queue s) \<and> (library_alive s \<longrightarrow> alive (compile_queue s)) \<and>
     length (jobs s) = accepted (compile_queue s) \<and> distinct (jobs s @ compute_tasks s) \<and>
     set (jobs s @ compute_tasks s) \<subseteq> {0 ..< length (captured s)} \<and>
     promises_ok create (library_alive s)
       (waiting (jobs s) (ran (compile_queue s)) (compute_tasks s)) (captured s) (set_values s) \<and>
     map snd (captured s) = map (\<lambda>k. 1 + int k) [0 ..< length (captured s)] \<and>
     next_key s = 1 + int (length (captured s)) \<and>
     table_ok Graphics (captured s) (pipelines s) \<and>
     table_ok Compute (captured s) (compute_pipelines s)"

lemma promises_ok_set:
  assumes "promises_ok create living W caps vals" "n \<in> W" "n < length caps"
  shows "promises_ok create living (W - {n}) caps (vals[n := vals ! n @
    [if living then create (fst (caps ! n)) (snd (caps ! n)) else None]])"
  using assms by (auto simp: promises_ok_def nth_list_update)

lemma promises_ok_new:
  assumes "promises_ok create living W caps vals" "W \<subseteq> {0 ..< length caps}"
  shows "promises_ok create living (insert (length caps) W) (caps @ [c]) (vals @ [[]])"
  using assms by (auto simp: promises_ok_def nth_append less_Suc_eq)

lemma promises_ok_collected:
  "promises_ok create living W caps vals \<Longrightarrow> promises_ok create False W caps vals"
  unfolding promises_ok_def by (elim conjE, intro conjI allI impI) (simp, metis)

lemma table_ok_append: "table_ok r caps t \<Longrightarrow> table_ok r (caps @ [c]) t"
  by (auto simp: table_ok_def nth_append)

lemma table_ok_add:
  "table_ok r caps t \<Longrightarrow> map_of t d = None \<Longrightarrow> table_ok r (caps @ [(r d, k)]) ((d, length caps) # t)"
  using table_ok_append [of r caps t "(r d, k)"]
  by (auto simp: table_ok_def map_of_eq_None_iff)

lemma erase_entries_filter:
  "erase_entries entry f t = Inr u \<Longrightarrow> \<exists>P. u = filter P t"
proof (induction entry f t arbitrary: u rule: erase_entries.induct)
  case (2 entry f d n ps)
  then obtain g e qs where g: "f = Some g" "entry d (sf_stage g) = Some e"
      "erase_entries entry f ps = Inr qs" "u = (if sf_IsEqual e g then qs else (d, n) # qs)"
    by (auto simp: result_simps)
  have "erase_entries entry f t = Inr u \<Longrightarrow>
      u = filter (\<lambda>(d, n). entry d (sf_stage g) \<noteq> Some g) t" for t u
    by (induction t arbitrary: u) (auto simp: g(1) result_simps split: if_splits)
  from this [of "(d, n) # ps" u] 2(2) show ?case by blast
qed (auto intro: exI [of _ "\<lambda>_. True"])

lemma table_ok_filter: "table_ok r caps t \<Longrightarrow> table_ok r caps (filter P t)"
  by (auto simp: table_ok_def distinct_map_filter)

lemma generation_task_rest [simp]:
  "captured (generation_task create n s) = captured s"
  "pipelines (generation_task create n s) = pipelines s"
  "compute_pipelines (generation_task create n s) = compute_pipelines s"
  "next_key (generation_task create n s) = next_key s"
  "library_alive (generation_task create n s) = library_alive s"
  "jobs (generation_task create n s) = jobs s"
  "compile_queue (generation_task create n s) = compile_queue s"
  "compute_tasks (generation_task create n s) = compute_tasks s"
  by (simp_all add: generation_task_def)

definition same_frame :: "('d, 'c, 'p) library \<Rightarrow> ('d, 'c, 'p) library \<Rightarrow> bool" where
  "same_frame s t \<longleftrightarrow> captured t = captured s \<and> pipelines t = pipelines s \<and>
     compute_pipelines t = compute_pipelines s \<and> next_key t = next_key s \<and>
     library_alive t = library_alive s \<and> jobs t = jobs s \<and> compile_queue t = compile_queue s \<and>
     compute_tasks t = compute_tasks s"

lemma generation_tasks:
  assumes "promises_ok create (library_alive s) W (captured s) (set_values s)"
    "distinct ns" "set ns \<subseteq> W" "W \<subseteq> {0 ..< length (captured s)}"
  shows "promises_ok create (library_alive s) (W - set ns) (captured s)
      (set_values (fold (generation_task create) ns s)) \<and>
    same_frame s (fold (generation_task create) ns s)"
  using assms
proof (induction ns arbitrary: s W)
  case (Cons n ns)
  let ?s = "generation_task create n s"
  have n: "n \<in> W" "n < length (captured s)" using Cons.prems by auto
  have p: "promises_ok create (library_alive ?s) (W - {n}) (captured ?s) (set_values ?s)"
    using promises_ok_set [OF Cons.prems(1) n] by (simp add: generation_task_def)
  have "promises_ok create (library_alive ?s) (W - {n} - set ns) (captured ?s)
      (set_values (fold (generation_task create) ns ?s)) \<and>
    same_frame ?s (fold (generation_task create) ns ?s)"
    by (rule Cons.IH [OF p]) (use Cons.prems in auto)
  moreover have "W - {n} - set ns = W - set (n # ns)" by auto
  ultimately show ?case by (simp add: same_frame_def)
qed (simp add: same_frame_def)

subsection \<open>Every step keeps it\<close>

lemma waiting_bounds:
  "set (js @ tasks) \<subseteq> {0 ..< n} \<Longrightarrow> waiting js r tasks \<subseteq> {0 ..< n}"
  by (auto simp: waiting_def)

lemma waiting_new_job:
  "set r \<subseteq> {0 ..< length js} \<Longrightarrow> waiting (js @ [n]) r tasks = insert n (waiting js r tasks)"
proof -
  assume r: "set r \<subseteq> {0 ..< length js}"
  then have "{0 ..< length (js @ [n])} - set r = insert (length js) ({0 ..< length js} - set r)"
    by auto
  moreover have "(!) (js @ [n]) ` ({0 ..< length js} - set r) = (!) js ` ({0 ..< length js} - set r)"
    by (rule image_cong) (auto simp: nth_append)
  ultimately show ?thesis by (simp add: waiting_def)
qed

lemma waiting_more_done:
  assumes "distinct (js @ tasks)" "set done_jobs \<subseteq> {0 ..< length js}" "distinct (r @ done_jobs)"
  shows "waiting js (r @ done_jobs) tasks = waiting js r tasks - set (map ((!) js) done_jobs)"
    and "set (map ((!) js) done_jobs) \<subseteq> waiting js r tasks"
    and "distinct (map ((!) js) done_jobs)"
proof -
  have inj: "inj_on ((!) js) {0 ..< length js}"
    using assms(1) by (intro inj_on_nth) auto
  have apart: "js ! j \<notin> set tasks" if "j < length js" for j
    using assms(1) nth_mem [OF that] by auto
  let ?rest = "{0 ..< length js} - set r"
  have 1: "{0 ..< length js} - set (r @ done_jobs) = ?rest - set done_jobs" by auto
  have 2: "(!) js ` (?rest - set done_jobs) = (!) js ` ?rest - (!) js ` set done_jobs"
    by (rule inj_on_image_set_diff [OF inj]) (use assms(2) in auto)
  have 3: "set tasks - (!) js ` set done_jobs = set tasks"
    using apart assms(2) by fastforce
  show "waiting js (r @ done_jobs) tasks = waiting js r tasks - set (map ((!) js) done_jobs)"
    by (simp only: waiting_def 1 2 3 Un_Diff set_map)
  have "set done_jobs \<subseteq> ?rest" using assms(2,3) by auto
  then show "set (map ((!) js) done_jobs) \<subseteq> waiting js r tasks" by (auto simp: waiting_def)
  show "distinct (map ((!) js) done_jobs)"
    using assms(2,3) inj by (auto simp: distinct_map intro: inj_on_subset)
qed

lemma lib_inv_start: "lib_inv create (PipelineLibrary v)"
  by (simp add: lib_inv_def PipelineLibrary_def Create_def cq_inv_def all_jobs_def promises_ok_def
      table_ok_def)

lemma lib_inv_queue:
  assumes inv: "lib_inv create s" and step: "cq_step (compile_queue s) e q" "\<not> is_post e"
    "e = Destroy \<longrightarrow> \<not> library_alive s"
  shows "lib_inv create (run_jobs create q s)"
proof -
  note I = inv [unfolded lib_inv_def]
  let ?q = "compile_queue s"
  have q: "cq_inv q" using cq.step_inv step(1) I by blast
  obtain js where js: "ran q = ran ?q @ js" using cq_step_ran(1) [OF step(1,2)] by blast
  have acc: "accepted q = length (jobs s)" using cq_step_ran(2) [OF step(1,2)] I by simp
  have living: "library_alive s \<longrightarrow> alive q" using cq_step_ran(3) [OF step(1,2)] step(3) I by blast
  have js': "set js \<subseteq> {0 ..< length (jobs s)}" "distinct (ran ?q @ js)"
    using cq_inv_ran [OF q] acc js by auto
  note W = waiting_more_done [OF conjunct1 [OF conjunct2 [OF conjunct2 [OF conjunct2 [OF I]]]] js']
  let ?s = "s\<lparr>compile_queue := q\<rparr>"
  have "promises_ok create (library_alive ?s) (waiting (jobs s) (ran ?q) (compute_tasks s) -
        set (map ((!) (jobs s)) js)) (captured ?s)
        (set_values (fold (generation_task create) (map ((!) (jobs s)) js) ?s)) \<and>
      same_frame ?s (fold (generation_task create) (map ((!) (jobs s)) js) ?s)"
    by (rule generation_tasks) (use I W(2,3) waiting_bounds in auto)
  moreover have "run_jobs create q s = fold (generation_task create) (map ((!) (jobs s)) js) ?s"
    by (simp add: run_jobs_def js fold_map comp_def)
  ultimately show ?thesis
    using I q living acc js W(1) by (simp add: lib_inv_def same_frame_def)
qed

lemma lib_inv_run_compute:
  assumes inv: "lib_inv create s" and n: "n \<in> set (compute_tasks s)"
  shows "lib_inv create (generation_task create n (s\<lparr>compute_tasks := remove1 n (compute_tasks s)\<rparr>))"
proof -
  note I = inv [unfolded lib_inv_def]
  let ?s = "s\<lparr>compute_tasks := remove1 n (compute_tasks s)\<rparr>"
  let ?W = "waiting (jobs s) (ran (compile_queue s)) (compute_tasks s)"
  have "n \<notin> set (jobs s)" using I n by auto
  then have "n \<notin> (!) (jobs s) ` ({0 ..< length (jobs s)} - set (ran (compile_queue s)))" by fastforce
  then have W: "waiting (jobs s) (ran (compile_queue s)) (remove1 n (compute_tasks s)) = ?W - {n}"
    using I n by (auto simp: waiting_def)
  have "promises_ok create (library_alive s) (?W - {n}) (captured s) (set_values (generation_task create n ?s))"
    using promises_ok_set [of create "library_alive s" ?W "captured s" "set_values s" n] I n
    by (auto simp: generation_task_def waiting_def)
  moreover have "set (remove1 n (compute_tasks s)) \<subseteq> set (compute_tasks s)" by (rule set_remove1_subset)
  ultimately show ?thesis
    using I W by (auto simp: lib_inv_def dest: subsetD)
qed

text \<open>A new promise, first without its task.\<close>

lemma new_promise_ok:
  assumes inv: "lib_inv create s"
  defines "W \<equiv> waiting (jobs s) (ran (compile_queue s)) (compute_tasks s)"
  shows "promises_ok create (library_alive s) (insert (length (captured s)) W)
      (captured (new_promise r s)) (set_values (new_promise r s))"
    "length (captured s) \<notin> W" "length (captured s) \<notin> set (jobs s @ compute_tasks s)"
    "map snd (captured (new_promise r s)) = map (\<lambda>k. 1 + int k) [0 ..< Suc (length (captured s))]"
    "next_key (new_promise r s) = 1 + int (Suc (length (captured s)))"
proof -
  note I = inv [unfolded lib_inv_def]
  have b: "W \<subseteq> {0 ..< length (captured s)}" unfolding W_def by (rule waiting_bounds) (use I in blast)
  show "promises_ok create (library_alive s) (insert (length (captured s)) W)
      (captured (new_promise r s)) (set_values (new_promise r s))"
    using promises_ok_new [of create "library_alive s" W "captured s" "set_values s" "(r, next_key s)"] b I
    by (simp add: new_promise_def W_def)
  show "length (captured s) \<notin> W" "length (captured s) \<notin> set (jobs s @ compute_tasks s)"
    using b I by auto
  show "map snd (captured (new_promise r s)) = map (\<lambda>k. 1 + int k) [0 ..< Suc (length (captured s))]"
    "next_key (new_promise r s) = 1 + int (Suc (length (captured s)))"
    using I by (simp_all add: new_promise_def)
qed

lemma lib_inv_dirty: "lib_inv create (s\<lparr>cache_dirty := b\<rparr>) \<longleftrightarrow> lib_inv create s"
  by (simp add: lib_inv_def)

text \<open>The task is run, posted to the queue or posted to the workers.\<close>

lemma promises_ok_run:
  assumes "promises_ok create living (insert n W) caps vals" "n \<notin> W" "n < length caps"
  shows "promises_ok create living W caps (vals[n := vals ! n @
    [if living then create (fst (caps ! n)) (snd (caps ! n)) else None]])"
  using promises_ok_set [OF assms(1) _ assms(3)] assms(2) by simp

lemma lib_inv_add:
  assumes inv: "lib_inv create s"
    and same: "captured t = captured (new_promise r s)" "next_key t = next_key (new_promise r s)"
      "library_alive t = library_alive s" "compile_queue t = q" "cq_inv q"
      "library_alive s \<longrightarrow> alive q" "length (jobs t) = accepted q"
    and tasks: "distinct (jobs t @ compute_tasks t)"
      "set (jobs t @ compute_tasks t) \<subseteq> insert (length (captured s)) (set (jobs s @ compute_tasks s))"
    and ok: "promises_ok create (library_alive s) (waiting (jobs t) (ran q) (compute_tasks t))
      (captured (new_promise r s)) (set_values t)"
    and tables: "table_ok Graphics (captured t) (pipelines t)" "table_ok Compute (captured t) (compute_pipelines t)"
  shows "lib_inv create t"
proof -
  note I = inv [unfolded lib_inv_def]
  have len: "length (captured t) = Suc (length (captured s))" by (simp add: same new_promise_def)
  have "set (jobs s @ compute_tasks s) \<subseteq> {0 ..< length (captured s)}" using I by blast
  then have "set (jobs t @ compute_tasks t) \<subseteq> {0 ..< length (captured t)}"
    using tasks(2) len by fastforce
  then show ?thesis
    using same tasks(1) ok tables new_promise_ok(4,5) [OF inv, of r] len by (simp add: lib_inv_def)
qed

lemma lib_inv_get:
  assumes inv: "lib_inv create s" and living: "library_alive s"
  shows "lib_inv create (snd (GetPipeline create d async s))"
proof (cases "map_of (pipelines s) d = None \<and> library_valid s")
  case False
  then show ?thesis using inv by (auto simp: GetPipeline_def lib_inv_dirty split: option.splits)
next
  case True
  let ?s = "s\<lparr>cache_dirty := True\<rparr>" and ?n = "length (captured s)" and ?q = "compile_queue s"
  define s3 where "s3 = (new_promise (Graphics d) ?s)\<lparr>pipelines := (d, ?n) # pipelines ?s\<rparr>"
  have inv': "lib_inv create ?s" using inv by (simp add: lib_inv_dirty)
  note I = inv [unfolded lib_inv_def]
  note N = new_promise_ok(1) [OF inv', of "Graphics d", simplified] new_promise_ok(2,3) [OF inv', simplified]
  have tables: "table_ok Graphics (captured s3) (pipelines s3)" "table_ok Compute (captured s3) (compute_pipelines s3)"
    using I True table_ok_add [of Graphics "captured s" "pipelines s" d]
    by (simp_all add: s3_def new_promise_def table_ok_append)
  show ?thesis
  proof (cases async)
    case False
    have eq: "snd (GetPipeline create d async s) = generation_task create ?n s3"
      using True False by (simp add: GetPipeline_def Let_def s3_def new_promise_def)
    have "promises_ok create (library_alive s) (waiting (jobs s) (ran ?q) (compute_tasks s))
        (captured (new_promise (Graphics d) ?s)) (set_values (generation_task create ?n s3))"
      using promises_ok_run [OF N(1,2)] living by (simp add: generation_task_def s3_def new_promise_def)
    then show ?thesis unfolding eq
      by (intro lib_inv_add [OF inv', where r = "Graphics d" and q = ?q])
        (use I tables in \<open>auto simp: s3_def new_promise_def\<close>)
  next
    case True2: True
    let ?q' = "snd (PostJobForDescriptor d False ?q)"
    have eq: "snd (GetPipeline create d async s) = s3\<lparr>jobs := jobs s3 @ [?n], compile_queue := ?q'\<rparr>"
      using True True2 by (simp add: GetPipeline_def Let_def s3_def new_promise_def)
    have q: "cq_inv ?q'" by (rule cq_inv_post) (use I living in simp_all)
    have q': "ran ?q' = ran ?q" "accepted ?q' = Suc (accepted ?q)" "alive ?q' = alive ?q"
      by (simp_all add: PostJobForDescriptor_def)
    have "set (ran ?q) \<subseteq> {0 ..< length (jobs s)}" using cq_inv_ran(2) [of ?q] I by simp
    then have "promises_ok create (library_alive s) (waiting (jobs s @ [?n]) (ran ?q) (compute_tasks s))
        (captured (new_promise (Graphics d) ?s)) (set_values (new_promise (Graphics d) ?s))"
      using N(1) by (simp add: waiting_new_job)
    then show ?thesis unfolding eq
      by (intro lib_inv_add [OF inv', where r = "Graphics d" and q = ?q'])
        (use I N(3) tables q q' living in \<open>auto simp: s3_def new_promise_def\<close>)
  qed
qed

lemma lib_inv_get_compute:
  assumes inv: "lib_inv create s" and living: "library_alive s"
  shows "lib_inv create (snd (GetPipeline_compute create c async s))"
proof (cases "map_of (compute_pipelines s) c = None \<and> library_valid s")
  case False
  then show ?thesis using inv by (auto simp: GetPipeline_compute_def lib_inv_dirty split: option.splits)
next
  case True
  let ?s = "s\<lparr>cache_dirty := True\<rparr>" and ?n = "length (captured s)" and ?q = "compile_queue s"
  define s3 where "s3 = (new_promise (Compute c) ?s)\<lparr>compute_pipelines := (c, ?n) # compute_pipelines ?s\<rparr>"
  have inv': "lib_inv create ?s" using inv by (simp add: lib_inv_dirty)
  note I = inv [unfolded lib_inv_def]
  note N = new_promise_ok(1) [OF inv', of "Compute c", simplified] new_promise_ok(2,3) [OF inv', simplified]
  have tables: "table_ok Graphics (captured s3) (pipelines s3)" "table_ok Compute (captured s3) (compute_pipelines s3)"
    using I True table_ok_add [of Compute "captured s" "compute_pipelines s" c]
    by (simp_all add: s3_def new_promise_def table_ok_append)
  show ?thesis
  proof (cases async)
    case False
    have eq: "snd (GetPipeline_compute create c async s) = generation_task create ?n s3"
      using True False by (simp add: GetPipeline_compute_def Let_def s3_def new_promise_def)
    have "promises_ok create (library_alive s) (waiting (jobs s) (ran ?q) (compute_tasks s))
        (captured (new_promise (Compute c) ?s)) (set_values (generation_task create ?n s3))"
      using promises_ok_run [OF N(1,2)] living by (simp add: generation_task_def s3_def new_promise_def)
    then show ?thesis unfolding eq
      by (intro lib_inv_add [OF inv', where r = "Compute c" and q = ?q])
        (use I tables in \<open>auto simp: s3_def new_promise_def\<close>)
  next
    case True2: True
    have eq: "snd (GetPipeline_compute create c async s) = s3\<lparr>compute_tasks := compute_tasks s3 @ [?n]\<rparr>"
      using True True2 by (simp add: GetPipeline_compute_def Let_def s3_def new_promise_def)
    have "promises_ok create (library_alive s) (waiting (jobs s) (ran ?q) (compute_tasks s @ [?n]))
        (captured (new_promise (Compute c) ?s)) (set_values (new_promise (Compute c) ?s))"
      using N(1) by (simp add: waiting_def)
    then show ?thesis unfolding eq
      by (intro lib_inv_add [OF inv', where r = "Compute c" and q = ?q])
        (use I N(3) tables in \<open>auto simp: s3_def new_promise_def\<close>)
  qed
qed

lemma lib_inv_remove:
  "lib_inv create s \<Longrightarrow> RemovePipelinesWithEntryPoint entry f s = Inr t \<Longrightarrow> lib_inv create t"
  using erase_entries_filter [of entry f "pipelines s"]
  by (auto simp: RemovePipelinesWithEntryPoint_def result_simps lib_inv_def table_ok_filter)

lemma lib_inv_frame: "lib_inv create s \<Longrightarrow> lib_inv create (DidAcquireSurfaceFrame s)"
  by (simp add: DidAcquireSurfaceFrame_def Let_def lib_inv_def)

lemma lib_inv_collect: "lib_inv create s \<Longrightarrow> lib_inv create (s\<lparr>library_alive := False\<rparr>)"
  using promises_ok_collected by (auto simp: lib_inv_def)

interpretation pl: transition_system "\<lambda>s. \<exists>v. s = PipelineLibrary v" "lib_step create entry" "lib_inv create"
proof
  show "\<exists>v. s = PipelineLibrary v \<Longrightarrow> lib_inv create s" for s using lib_inv_start by blast
  show "lib_inv create t" if "lib_inv create s" "lib_step create entry s e t" for s e t
    using that(2) by (cases rule: lib_step.cases)
      (auto intro: lib_inv_get lib_inv_get_compute lib_inv_queue lib_inv_run_compute lib_inv_remove
        lib_inv_frame lib_inv_collect that(1))
qed

subsection \<open>Waiting for a pipeline\<close>

text \<open>A job that is still pending is performed by the thread that waits for it.\<close>

lemma TakeJob_pending:
  assumes "cq_inv q" "(d, j) \<in> set (pending_jobs q)"
  shows "TakeJob d q = (Some j, q\<lparr>priorities_elevated := priorities_elevated q + 1,
    pending_jobs := filter (\<lambda>p. fst p \<noteq> d) (pending_jobs q)\<rparr>)" "j \<notin> set (ran q)" "j < accepted q"
    "j \<notin> set (held q)"
proof -
  have "map_of (pending_jobs q) d = Some j" using assms by (simp add: cq_inv_def)
  then show "TakeJob d q = (Some j, q\<lparr>priorities_elevated := priorities_elevated q + 1,
    pending_jobs := filter (\<lambda>p. fst p \<noteq> d) (pending_jobs q)\<rparr>)" by (simp add: TakeJob_def)
  let ?all = "map snd (pending_jobs q) @ ran q @ held q"
  have "all_jobs q = mset ?all + mset (posted_jobs (worker_tasks q))"
    by (simp add: all_jobs_def ac_simps)
  then have sub: "mset ?all \<subseteq># mset [0 ..< accepted q]"
    using assms(1) unfolding cq_inv_def by (metis mset_subset_eq_add_left)
  then have "distinct ?all" by (rule submset_distinct) simp
  moreover have j: "j \<in> set (map snd (pending_jobs q))" using assms(2) by force
  ultimately show "j \<notin> set (ran q)" "j \<notin> set (held q)" by auto
  have "set ?all \<subseteq> {0 ..< accepted q}" using set_mset_mono [OF sub] by simp
  then show "j < accepted q" using j by auto
qed

lemma perform_eagerly_steps:
  assumes inv: "lib_inv create s" and pending: "(d, j) \<in> set (pending_jobs (compile_queue s))"
    and living: "library_alive s"
  shows "\<exists>t. lib_step create entry s (Queue (Eager d)) t \<and>
    lib_step create entry t (Queue (Invoke j)) (perform_eagerly create d s)"
proof -
  let ?q = "compile_queue s"
  have q: "cq_inv ?q" "alive ?q" using inv living by (simp_all add: lib_inv_def)
  note T = TakeJob_pending [OF q(1) pending]
  let ?q1 = "PerformJobEagerly d ?q"
  let ?t = "run_jobs create ?q1 s"
  have q1: "?q1 = ?q\<lparr>priorities_elevated := priorities_elevated ?q + 1,
      pending_jobs := filter (\<lambda>p. fst p \<noteq> d) (pending_jobs ?q), held := held ?q @ [j]\<rparr>"
    by (simp add: PerformJobEagerly_def T(1) hold_def)
  have t: "?t = s\<lparr>compile_queue := ?q1\<rparr>" by (simp add: run_jobs_def q1)
  have "lib_step create entry s (Queue (Eager d)) ?t"
    by (rule lib_queue [OF cq_eager [OF q(2)]]) simp_all
  moreover have "lib_step create entry ?t (Queue (Invoke j)) (run_jobs create (invoke j ?q1) ?t)"
    by (rule lib_queue) (simp_all add: t, rule cq_invoke, simp add: q1)
  moreover have "run_jobs create (invoke j ?q1) ?t = perform_eagerly create d s"
    using T(4) by (simp add: t perform_eagerly_def T(1) run_jobs_def invoke_def q1 remove1_append)
  ultimately show ?thesis by metis
qed

lemma eager_value:
  assumes inv: "lib_inv create s" and pending: "(d, j) \<in> set (pending_jobs (compile_queue s))"
    and living: "library_alive s"
  shows "future_value (Shared (jobs s ! j)) (perform_eagerly create d s) =
    Some (create (fst (captured s ! (jobs s ! j))) (snd (captured s ! (jobs s ! j))))"
proof -
  note I = inv [unfolded lib_inv_def]
  let ?n = "jobs s ! j"
  note T = TakeJob_pending [OF conjunct1 [OF I] pending]
  have j: "j < length (jobs s)" using T(3) I by simp
  have "set (jobs s) \<subseteq> {0 ..< length (captured s)}" using I by simp
  then have n: "?n < length (captured s)" using nth_mem [OF j] by auto
  have "?n \<in> waiting (jobs s) (ran (compile_queue s)) (compute_tasks s)"
    using j T(2) by (auto simp: waiting_def)
  then have "set_values s ! ?n = []" "length (set_values s) = length (captured s)"
    using I n by (simp_all add: promises_ok_def)
  then show ?thesis
    using n living by (simp add: perform_eagerly_def T(1) generation_task_def future_value_def)
qed

subsection \<open>Removing and persisting\<close>

text \<open>Removing the pipelines of a function dereferences the entry points of all others.\<close>

lemma remove_crashes:
  assumes "(d, n) \<in> set (pipelines s)" "entry d (sf_stage g) = None"
  shows "RemovePipelinesWithEntryPoint entry (Some g) s = Inl Undefined_Behaviour"
proof -
  have "erase_entries entry (Some g) ps = Inl Undefined_Behaviour"
    if "(d, n) \<in> set ps" for ps
    using that
  proof (induction ps)
    case (Cons p ps)
    then show ?case using assms(2)
      by (cases p; cases "entry (fst p) (sf_stage g)") auto
  qed simp
  then show ?thesis using assms(1) by (simp add: RemovePipelinesWithEntryPoint_def)
qed

text \<open>
  The cache counts as clean once it was written, also when pipelines that were asked for before
  are compiled later.
\<close>

lemma fold_tasks_dirty: "cache_dirty (fold (\<lambda>j. generation_task create (f j)) js s) = cache_dirty s"
  by (induction js arbitrary: s) (simp_all add: generation_task_def)

lemma late_pipelines_not_persisted:
  "frames_acquired s = 49 \<Longrightarrow> \<not> cache_dirty (run_jobs create q (DidAcquireSurfaceFrame s))"
  by (simp add: run_jobs_def DidAcquireSurfaceFrame_def Let_def fold_tasks_dirty)

subsection \<open>Properties\<close>

definition idle :: "('d, 'c, 'p) library \<Rightarrow> bool" where
  "idle s \<longleftrightarrow> worker_tasks (compile_queue s) = [] \<and> posting (compile_queue s) = 0 \<and>
     held (compile_queue s) = [] \<and> compute_tasks s = []"

lemma idle_waits_for_nothing:
  assumes "lib_inv create s" "idle s"
  shows "waiting (jobs s) (ran (compile_queue s)) (compute_tasks s) = {}"
proof -
  let ?q = "compile_queue s"
  have q: "cq_inv ?q" "accepted ?q = length (jobs s)" using assms(1) by (simp_all add: lib_inv_def)
  have "pending_jobs ?q = []" using q(1) assms(2) by (cases "alive ?q") (auto simp: cq_inv_def idle_def)
  then have "mset (ran ?q) = mset [0 ..< length (jobs s)]"
    using q assms(2) by (simp add: cq_inv_def all_jobs_def idle_def)
  then have "set (ran ?q) = {0 ..< length (jobs s)}" by (metis set_mset_mset set_upt)
  then show ?thesis using assms(2) by (simp add: waiting_def idle_def)
qed

text \<open>
  C39: Whatever the interleaving of requests, removals, frames, workers, eager jobs and the end of
  the library, every promise of a pipeline is set at most once, while the library lives with the
  pipeline created for its own request and key; no two promises share a key; the tables hold one
  promise for each descriptor, made for that descriptor; and when the workers have
  nothing left to do every promise has its value, so no thread waits forever.
\<close>

theorem pipeline_futures_fulfilled:
  assumes "reachable_from (\<lambda>s. \<exists>v. s = PipelineLibrary v) (lib_step create entry) s"
  shows "(\<forall>n < length (captured s). length (set_values s ! n) \<le> 1 \<and>
      (\<forall>v \<in> set (set_values s ! n). v = create (fst (captured s ! n)) (snd (captured s ! n)) \<or>
         \<not> library_alive s \<and> v = None)) \<and>
    distinct (map snd (captured s)) \<and>
    (\<forall>d n. map_of (pipelines s) d = Some n \<longrightarrow> n < length (captured s) \<and> fst (captured s ! n) = Graphics d) \<and>
    (\<forall>c n. map_of (compute_pipelines s) c = Some n \<longrightarrow>
       n < length (captured s) \<and> fst (captured s ! n) = Compute c) \<and>
    (idle s \<longrightarrow> (\<forall>n < length (captured s). length (set_values s ! n) = 1))"
proof -
  have inv: "lib_inv create s" by (rule pl.reachable_inv [OF assms])
  note I = inv [unfolded lib_inv_def]
  let ?W = "waiting (jobs s) (ran (compile_queue s)) (compute_tasks s)"
  have ok: "promises_ok create (library_alive s) ?W (captured s) (set_values s)" using I by blast
  have "length (set_values s ! n) \<le> 1 \<and>
      (\<forall>v \<in> set (set_values s ! n). v = create (fst (captured s ! n)) (snd (captured s ! n)) \<or>
         \<not> library_alive s \<and> v = None)" if "n < length (captured s)" for n
    using ok that unfolding promises_ok_def by (cases "n \<in> ?W") fastforce+
  moreover have "distinct (map snd (captured s))"
  proof -
    have "map snd (captured s) = map (\<lambda>k. 1 + int k) [0 ..< length (captured s)]" using I by blast
    then show ?thesis by (simp add: distinct_map inj_on_def)
  qed
  moreover have "n < length (captured s) \<and> fst (captured s ! n) = Graphics d"
    if "map_of (pipelines s) d = Some n" for d n
    using I map_of_SomeD [OF that] by (auto simp: table_ok_def)
  moreover have "n < length (captured s) \<and> fst (captured s ! n) = Compute c"
    if "map_of (compute_pipelines s) c = Some n" for c n
    using I map_of_SomeD [OF that] by (auto simp: table_ok_def)
  moreover have "length (set_values s ! n) = 1" if "idle s" "n < length (captured s)" for n
    using ok that(2) idle_waits_for_nothing [OF inv that(1)] by (auto simp: promises_ok_def)
  ultimately show ?thesis by blast
qed

definition demo_create :: "(nat, nat) request \<Rightarrow> int \<Rightarrow> int option" where
  "demo_create r key = (case r of Graphics d \<Rightarrow> Some (10 * int d + key) | Compute c \<Rightarrow> None)"

definition demo_posted :: "(nat, nat, int) library" where
  "demo_posted = snd (GetPipeline demo_create 5 True (PipelineLibrary True))"

definition demo_eager :: "(nat, nat, int) library" where
  "demo_eager = perform_eagerly demo_create 5 demo_posted"

definition demo_idle :: "(nat, nat, int) library" where
  "demo_idle =
     (let s = run_jobs demo_create (PostJobForDescriptor_task (compile_queue demo_eager)) demo_eager
      in run_jobs demo_create (worker_start 0 (compile_queue s)) s)"

abbreviation demo_reachable :: "(nat, nat, int) library \<Rightarrow> bool" where
  "demo_reachable \<equiv>
     reachable_from (\<lambda>s. \<exists>v. s = PipelineLibrary v) (lib_step demo_create (\<lambda>_ _. None))"

lemma demo_posted_reachable: "demo_reachable demo_posted"
  unfolding demo_posted_def
  by (rule reach_step, rule reach_start, blast, rule lib_get) (simp add: PipelineLibrary_def)

lemma demo_posted_facts:
  "(5, 0) \<in> set (pending_jobs (compile_queue demo_posted))" "library_alive demo_posted"
  "jobs demo_posted ! 0 = 0" "captured demo_posted = [(Graphics 5, 1)]"
  by code_simp+

lemma demo_eager_reachable: "demo_reachable demo_eager"
proof -
  obtain t where "lib_step demo_create (\<lambda>_ _. None) demo_posted (Queue (Eager 5)) t"
      "lib_step demo_create (\<lambda>_ _. None) t (Queue (Invoke 0)) demo_eager"
    using perform_eagerly_steps [OF pl.reachable_inv [OF demo_posted_reachable] demo_posted_facts(1,2)]
    unfolding demo_eager_def by blast
  then show ?thesis using demo_posted_reachable by (blast intro: reach_step)
qed

lemma demo_idle_reachable: "demo_reachable demo_idle"
proof -
  let ?s = "run_jobs demo_create (PostJobForDescriptor_task (compile_queue demo_eager)) demo_eager"
  have a: "alive (compile_queue demo_eager)" "0 < posting (compile_queue demo_eager)" by code_simp+
  have b: "pending_jobs (compile_queue ?s) = []" by code_simp
  have "demo_reachable ?s"
    by (rule reach_step [OF demo_eager_reachable], rule lib_queue, rule cq_post_task [OF a]) simp_all
  then show ?thesis
    unfolding demo_idle_def Let_def
    by (rule reach_step) (rule lib_queue, rule cq_start, simp_all add: b)
qed

theorem pipeline_futures_fulfilled_witness:
  "idle demo_idle \<and> set_values demo_idle = [[Some 51]] \<and> length (captured demo_idle) = 1 \<and>
   length (set_values demo_idle ! 0) = 1"
proof -
  have "idle demo_idle" by code_simp
  moreover have "set_values demo_idle = [[Some 51]]" by code_simp
  moreover have one: "length (captured demo_idle) = 1" by code_simp
  ultimately show ?thesis
    using pipeline_futures_fulfilled [OF demo_idle_reachable] by (simp only: one)
qed

text \<open>
  C40: A thread that waits for a pipeline whose job nobody has taken yet does not wait: it
  performs the job itself and gets the pipeline created for the descriptor of the request. Asking the
  handle again gives the same pipeline without another look at the library.
\<close>

theorem waiting_performs_pending_job:
  assumes r: "reachable_from (\<lambda>s. \<exists>v. s = PipelineLibrary v) (lib_step create entry) s"
    and living: "library_alive s"
    and pending: "(d, j) \<in> set (pending_jobs (compile_queue s))"
    and h: "\<not> did_wait h" "handle_descriptor h = Some d" "handle_future h = Some (Shared (jobs s ! j))"
  shows "\<exists>v h' t. WaitAndGet create True h s = Some (v, h', t) \<and>
    v = create (fst (captured s ! (jobs s ! j))) (snd (captured s ! (jobs s ! j))) \<and>
    reachable_from (\<lambda>s. \<exists>v. s = PipelineLibrary v) (lib_step create entry) t \<and>
    j \<in> set (ran (compile_queue t)) \<and>
    (\<forall>has_queue u. WaitAndGet create has_queue h' u = Some (v, h', u))"
proof -
  have inv: "lib_inv create s" by (rule pl.reachable_inv [OF r])
  let ?t = "perform_eagerly create d s"
  have "reachable_from (\<lambda>s. \<exists>v. s = PipelineLibrary v) (lib_step create entry) ?t"
    using perform_eagerly_steps [OF inv pending living, of entry] r by (blast intro: reach_step)
  moreover have "j \<in> set (ran (compile_queue ?t))"
    using TakeJob_pending(1) [OF _ pending] inv by (simp add: perform_eagerly_def lib_inv_def)
  ultimately show ?thesis
    using eager_value [OF inv pending living] h by (auto simp: WaitAndGet_def)
qed

theorem waiting_performs_pending_job_witness:
  "\<exists>h' t. WaitAndGet demo_create True \<lparr>handle_descriptor = Some 5, handle_future = Some (Shared 0),
     handle_pipeline = None, did_wait = False\<rparr> demo_posted = Some (Some 51, h', t) \<and>
     0 \<in> set (ran (compile_queue t))"
  using waiting_performs_pending_job [OF demo_posted_reachable demo_posted_facts(2,1),
      of "\<lparr>handle_descriptor = Some 5, handle_future = Some (Shared 0), handle_pipeline = None, did_wait = False\<rparr>"]
  by (simp add: demo_posted_facts(3,4)) (auto simp: demo_create_def)

end
