(* ===== verification/Samplers.thy ===== *)
theory Samplers
  imports Pipeline_Descriptor
begin

text \<open>
  Samplers, conversions of YUV images and the libraries that share them:
  \<^verbatim>\<open>src/hal/sampler_vk.cc\<close>, \<^verbatim>\<open>sampler_library_vk.{h,cc}\<close>,
  \<^verbatim>\<open>yuv_conversion_vk.{h,cc}\<close>, \<^verbatim>\<open>yuv_conversion_library_vk.cc\<close>.

  A library keeps its objects in the order they were made, so an object is its position. The device
  is a function from the description of a handle to the handle, if it can be created. Members of the
  create infos that are numbers or enumerations of Vulkan without a counterpart in the program are
  numbers. The description is the one on Android, with the external format.
\<close>

subsection \<open>Conversions\<close>

record yuv_descriptor =
  yuv_format :: nat
  ycbcr_model :: nat
  ycbcr_range :: nat
  swizzle :: "nat \<times> nat \<times> nat \<times> nat"
  x_chroma_offset :: nat
  y_chroma_offset :: nat
  chroma_filter :: VkFilter
  force_reconstruction :: bool
  external_format :: nat

definition default_yuv_descriptor :: yuv_descriptor where
  "default_yuv_descriptor = \<lparr>yuv_format = 0, ycbcr_model = 0, ycbcr_range = 0,
     swizzle = (0, 0, 0, 0), x_chroma_offset = 0, y_chroma_offset = 0,
     chroma_filter = VkFilter.eNearest, force_reconstruction = False, external_format = 0\<rparr>"

fun val_VkFilter :: "VkFilter \<Rightarrow> nat" where
  "val_VkFilter VkFilter.eNearest = 0"
| "val_VkFilter VkFilter.eLinear = 1"

definition yuv_hash :: "hashing \<Rightarrow> yuv_descriptor \<Rightarrow> u64" where
  "yuv_hash H d =
     (case swizzle d of (r, g, b, a) \<Rightarrow>
       HashCombineSeed
         (HashCombine
           [hash_nat H (yuv_format d), hash_nat H (ycbcr_model d), hash_nat H (ycbcr_range d),
            hash_nat H r, hash_nat H g, hash_nat H b, hash_nat H a,
            hash_nat H (x_chroma_offset d), hash_nat H (y_chroma_offset d),
            hash_nat H (val_VkFilter (chroma_filter d)),
            hash_nat H (of_bool (force_reconstruction d))])
         [hash_nat H (external_format d)])"

definition yuv_equal :: "yuv_descriptor \<Rightarrow> yuv_descriptor \<Rightarrow> bool" where
  "yuv_equal a b =
     (if yuv_format a \<noteq> yuv_format b \<or> ycbcr_model a \<noteq> ycbcr_model b \<or>
         ycbcr_range a \<noteq> ycbcr_range b \<or> swizzle a \<noteq> swizzle b \<or>
         x_chroma_offset a \<noteq> x_chroma_offset b \<or> y_chroma_offset a \<noteq> y_chroma_offset b \<or>
         chroma_filter a \<noteq> chroma_filter b \<or> force_reconstruction a \<noteq> force_reconstruction b
      then False else external_format a = external_format b)"

text \<open>A conversion is valid when the device gave it a handle.\<close>

record yuv_conversion =
  yc_descriptor :: yuv_descriptor
  yc_handle :: "nat option"

definition YUVConversion :: "(yuv_descriptor \<Rightarrow> nat option) \<Rightarrow> yuv_descriptor \<Rightarrow> yuv_conversion" where
  "YUVConversion device d = \<lparr>yc_descriptor = d, yc_handle = device d\<rparr>"

definition yc_IsValid :: "yuv_conversion \<Rightarrow> bool" where
  "yc_IsValid c \<longleftrightarrow> yc_handle c \<noteq> None"

text \<open>The conversions of a library, by descriptor; no device stands for a lost one.\<close>

fun find_conversion :: "yuv_descriptor \<Rightarrow> yuv_conversion list \<Rightarrow> nat option" where
  "find_conversion d [] = None"
| "find_conversion d (c # cs) =
     (if yuv_equal (yc_descriptor c) d then Some 0 else map_option Suc (find_conversion d cs))"

definition GetConversion ::
  "(yuv_descriptor \<Rightarrow> nat option) option \<Rightarrow> yuv_descriptor \<Rightarrow> yuv_conversion list \<Rightarrow>
   nat option \<times> yuv_conversion list"
where
  "GetConversion device d cs =
     (case find_conversion d cs of
        Some i \<Rightarrow> (Some i, cs)
      | None \<Rightarrow>
          (case device of
             None \<Rightarrow> (None, cs)
           | Some dev \<Rightarrow> (Some (length cs), cs @ [YUVConversion dev d])))"

subsection \<open>Samplers\<close>

datatype lod_clamp = Lod_Zero | Lod_None

record sampler_info =
  si_mag :: VkFilter
  si_min :: VkFilter
  si_mipmap :: VkSamplerMipmapMode
  si_address :: "VkSamplerAddressMode \<times> VkSamplerAddressMode \<times> VkSamplerAddressMode"
  si_max_lod :: lod_clamp
  si_conversion :: "nat option"

definition sampler_create_info :: "sampler_descriptor \<Rightarrow> yuv_conversion option \<Rightarrow> sampler_info" where
  "sampler_create_info d conv =
     (let info = \<lparr>si_mag = ToVKSamplerMinMagFilter (mag_filter d),
            si_min = ToVKSamplerMinMagFilter (min_filter d),
            si_mipmap = (case mip_filter d of
               MipFilter.kBase \<Rightarrow> VkSamplerMipmapMode.eNearest
             | MipFilter.kNearest \<Rightarrow> VkSamplerMipmapMode.eNearest
             | MipFilter.kLinear \<Rightarrow> VkSamplerMipmapMode.eLinear),
            si_address = (ToVKSamplerAddressMode (width_address_mode d),
              ToVKSamplerAddressMode (height_address_mode d), ToVKSamplerAddressMode (depth_address_mode d)),
            si_max_lod = (if mip_filter d = MipFilter.kBase then Lod_Zero else Lod_None),
            si_conversion = None\<rparr>
      in case conv of
           None \<Rightarrow> info
         | Some c \<Rightarrow>
             if yc_IsValid c then
               info\<lparr>si_conversion := yc_handle c, si_min := chroma_filter (yc_descriptor c),
                 si_mag := chroma_filter (yc_descriptor c),
                 si_address := (eClampToEdge, eClampToEdge, eClampToEdge)\<rparr>
             else info)"

record sampler =
  sa_descriptor :: sampler_descriptor
  sa_handle :: "nat option"
  sa_conversion :: "yuv_conversion option"

definition Sampler ::
  "(sampler_info \<Rightarrow> nat option) \<Rightarrow> sampler_descriptor \<Rightarrow> yuv_conversion option \<Rightarrow> sampler"
where
  "Sampler device d conv = \<lparr>sa_descriptor = d, sa_handle = device (sampler_create_info d conv),
     sa_conversion = conv\<rparr>"

definition CreateVariantForConversion ::
  "(sampler_info \<Rightarrow> nat option) \<Rightarrow> yuv_conversion option \<Rightarrow> sampler \<Rightarrow> sampler option"
where
  "CreateVariantForConversion device conv s =
     (if conv = None \<or> sa_handle s = None then None else Some (Sampler device (sa_descriptor s) conv))"

text \<open>The key under which pipelines keep their variants for immutable samplers.\<close>

record immutable_sampler_key =
  isk_sampler :: sampler_descriptor
  isk_conversion :: yuv_descriptor

definition ImmutableSamplerKey :: "sampler \<Rightarrow> immutable_sampler_key" where
  "ImmutableSamplerKey s = \<lparr>isk_sampler = sa_descriptor s,
     isk_conversion = (case sa_conversion s of None \<Rightarrow> default_yuv_descriptor
                       | Some c \<Rightarrow> yc_descriptor c)\<rparr>"

definition isk_IsEqual :: "immutable_sampler_key \<Rightarrow> immutable_sampler_key \<Rightarrow> bool" where
  "isk_IsEqual a b \<longleftrightarrow> ToKey (isk_sampler a) = ToKey (isk_sampler b) \<and>
     yuv_equal (isk_conversion a) (isk_conversion b)"

definition isk_GetHash :: "hashing \<Rightarrow> immutable_sampler_key \<Rightarrow> u64" where
  "isk_GetHash H k = HashCombine
     [hash_nat H (unat (ToKey (isk_sampler k))), hash_nat H (unat (yuv_hash H (isk_conversion k)))]"

subsection \<open>The library of samplers\<close>

record sampler_library =
  samplers :: "(u64 \<times> sampler) list"
  mips_disabled :: bool

definition SamplerLibrary :: sampler_library where
  "SamplerLibrary = \<lparr>samplers = [], mips_disabled = False\<rparr>"

definition ApplyWorkarounds :: "bool \<Rightarrow> sampler_library \<Rightarrow> sampler_library" where
  "ApplyWorkarounds broken_mipmaps l = l\<lparr>mips_disabled := broken_mipmaps\<rparr>"

fun find_sampler :: "u64 \<Rightarrow> (u64 \<times> sampler) list \<Rightarrow> nat option" where
  "find_sampler k [] = None"
| "find_sampler k ((k', x) # xs) = (if k' = k then Some 0 else map_option Suc (find_sampler k xs))"

definition wanted :: "sampler_descriptor \<Rightarrow> sampler_library \<Rightarrow> sampler_descriptor" where
  "wanted d l = (if mips_disabled l then d\<lparr>mip_filter := MipFilter.kBase\<rparr> else d)"

definition GetSampler ::
  "(sampler_info \<Rightarrow> nat option) option \<Rightarrow> sampler_descriptor \<Rightarrow> sampler_library \<Rightarrow>
   nat option \<times> sampler_library"
where
  "GetSampler device d l =
     (case find_sampler (ToKey (wanted d l)) (samplers l) of
        Some i \<Rightarrow> (Some i, l)
      | None \<Rightarrow>
          (case device of
             None \<Rightarrow> (None, l)
           | Some dev \<Rightarrow>
               (Some (length (samplers l)),
                l\<lparr>samplers := samplers l @ [(ToKey (wanted d l), Sampler dev (wanted d l) None)]\<rparr>)))"

inductive sl_step :: "sampler_library \<Rightarrow> unit \<Rightarrow> sampler_library \<Rightarrow> bool" where
  sl_get: "sl_step l () (snd (GetSampler device d l))"
| sl_workarounds: "sl_step l () (ApplyWorkarounds b l)"

subsection \<open>Lemmas\<close>

lemma yuv_equal_eq [simp]: "yuv_equal a b \<longleftrightarrow> a = b"
  by (cases a; cases b) (auto simp: yuv_equal_def)

lemma isk_lawful: "isk_IsEqual a b \<Longrightarrow> isk_GetHash H a = isk_GetHash H b"
  by (simp add: isk_IsEqual_def isk_GetHash_def)

lemma find_sampler_append:
  "find_sampler k (xs @ ys) = (case find_sampler k xs of Some i \<Rightarrow> Some i
     | None \<Rightarrow> map_option (\<lambda>i. length xs + i) (find_sampler k ys))"
proof (induction xs)
  case (Cons x xs)
  then show ?case by (cases x; cases "find_sampler k ys") (auto split: option.splits)
qed (cases "find_sampler k ys"; simp)

lemma find_sampler_some: "find_sampler k xs = Some i \<Longrightarrow> i < length xs \<and> fst (xs ! i) = k"
  by (induction k xs arbitrary: i rule: find_sampler.induct) (auto split: if_splits)

lemma find_sampler_none: "find_sampler k xs = None \<longleftrightarrow> k \<notin> fst ` set xs"
  by (induction k xs rule: find_sampler.induct) auto

lemma GetSampler_found:
  assumes "GetSampler device d l = (Some i, m)"
  shows "wanted d m = wanted d l \<and> find_sampler (ToKey (wanted d l)) (samplers m) = Some i"
proof (cases "find_sampler (ToKey (wanted d l)) (samplers l)")
  case None
  then show ?thesis using assms
    by (cases device) (auto simp: GetSampler_def wanted_def find_sampler_append)
next
  case (Some k)
  then show ?thesis using assms by (simp add: GetSampler_def)
qed

definition sl_inv :: "sampler_library \<Rightarrow> bool" where
  "sl_inv l \<longleftrightarrow> distinct (map fst (samplers l)) \<and>
     (\<forall>(k, s) \<in> set (samplers l). ToKey (sa_descriptor s) = k \<and> sa_conversion s = None)"

lemma sl_inv_get: "sl_inv l \<Longrightarrow> sl_inv (snd (GetSampler device d l))"
  by (auto simp: GetSampler_def sl_inv_def find_sampler_none Sampler_def split: option.splits)

interpretation sl: transition_system "\<lambda>l. l = SamplerLibrary" sl_step sl_inv
proof
  show "l = SamplerLibrary \<Longrightarrow> sl_inv l" for l by (simp add: sl_inv_def SamplerLibrary_def)
  show "sl_inv m" if "sl_inv l" "sl_step l e m" for l e m
    using that(2) by (cases rule: sl_step.cases)
      (use that(1) sl_inv_get in \<open>auto simp: ApplyWorkarounds_def sl_inv_def\<close>)
qed

lemma find_nth:
  assumes "distinct (map fst xs)" "i < length xs"
  shows "find_sampler (fst (xs ! i)) xs = Some i"
  using assms
proof (induction xs arbitrary: i)
  case (Cons x xs)
  show ?case
  proof (cases i)
    case (Suc n)
    then have "fst (xs ! n) \<in> fst ` set xs" using Cons.prems by simp
    then show ?thesis using Cons Suc by (cases x) auto
  qed (cases x; simp)
qed simp

text \<open>A conversion, once made, is shared also when it is not valid.\<close>

lemma find_conversion_none: "find_conversion d cs = None \<longleftrightarrow> d \<notin> yc_descriptor ` set cs"
  by (induction d cs rule: find_conversion.induct) auto

lemma find_conversion_last:
  "d \<notin> yc_descriptor ` set cs \<Longrightarrow> yc_descriptor c = d \<Longrightarrow> find_conversion d (cs @ [c]) = Some (length cs)"
  by (induction cs) auto

lemma conversion_shared:
  "GetConversion (Some dev) d cs = (Some i, cs') \<Longrightarrow> GetConversion dev' d cs' = (Some i, cs')"
  by (cases "find_conversion d cs")
    (auto simp: GetConversion_def find_conversion_none find_conversion_last YUVConversion_def)

text \<open>What Vulkan asks of a sampler with a conversion.\<close>

lemma converted_sampler_valid:
  assumes "yc_IsValid c"
  shows "si_conversion (sampler_create_info d (Some c)) = yc_handle c"
    "si_min (sampler_create_info d (Some c)) = chroma_filter (yc_descriptor c)"
    "si_mag (sampler_create_info d (Some c)) = chroma_filter (yc_descriptor c)"
    "si_address (sampler_create_info d (Some c)) = (eClampToEdge, eClampToEdge, eClampToEdge)"
  using assms by (simp_all add: sampler_create_info_def Let_def)

subsection \<open>Properties\<close>

text \<open>
  Samplers of a library are shared exactly by their description: after any requests, a request
  that succeeds gives a sampler with the six settings that were asked for, the mip filter
  replaced where the device cannot generate mips; the same request later gives the same sampler,
  even without a device, and no two samplers of the library have the same settings.
\<close>

theorem samplers_shared_by_settings:
  assumes "reachable_from (\<lambda>l. l = SamplerLibrary) sl_step l"
    and got: "GetSampler device d l = (Some i, m)"
  shows "i < length (samplers m) \<and>
    ToKey (sa_descriptor (snd (samplers m ! i))) = ToKey (wanted d l) \<and>
    GetSampler device' d m = (Some i, m) \<and>
    (\<forall>j < length (samplers m). ToKey (sa_descriptor (snd (samplers m ! j))) = ToKey (wanted d l) \<longrightarrow> j = i)"
proof -
  have l: "sl_inv l" by (rule sl.reachable_inv [OF assms(1)])
  have m: "sl_inv m" using sl_inv_get [OF l, of device d] got by simp
  have w: "wanted d m = wanted d l" and found: "find_sampler (ToKey (wanted d l)) (samplers m) = Some i"
    using GetSampler_found [OF got] by simp_all
  have i: "i < length (samplers m)" "fst (samplers m ! i) = ToKey (wanted d l)"
    using find_sampler_some [OF found] by simp_all
  have key: "ToKey (sa_descriptor (snd (samplers m ! j))) = fst (samplers m ! j)"
    if "j < length (samplers m)" for j
    using bspec [OF conjunct2 [OF m [unfolded sl_inv_def]] nth_mem [OF that]]
    by (simp add: case_prod_beta)
  show ?thesis
  proof (intro conjI allI impI)
    show "i < length (samplers m)" by (rule i(1))
    show "ToKey (sa_descriptor (snd (samplers m ! i))) = ToKey (wanted d l)"
      by (rule trans [OF key [OF i(1)] i(2)])
    show "GetSampler device' d m = (Some i, m)" unfolding GetSampler_def w found by simp
    fix j
    assume j: "j < length (samplers m)" "ToKey (sa_descriptor (snd (samplers m ! j))) = ToKey (wanted d l)"
    have "find_sampler (ToKey (wanted d l)) (samplers m) = Some j"
      using find_nth [OF conjunct1 [OF m [unfolded sl_inv_def]] j(1)]
      unfolding key [OF j(1), symmetric] j(2) .
    then show "j = i" unfolding found by simp
  qed
qed

theorem samplers_shared_by_settings_witness:
  "\<exists>m. GetSampler (Some (\<lambda>_. Some 3)) default_sampler_descriptor (ApplyWorkarounds True SamplerLibrary) = (Some 0, m) \<and>
     mip_filter (sa_descriptor (snd (samplers m ! 0))) = MipFilter.kBase \<and>
     GetSampler None default_sampler_descriptor m = (Some 0, m)"
proof -
  let ?l = "ApplyWorkarounds True SamplerLibrary"
  have r: "reachable_from (\<lambda>l. l = SamplerLibrary) sl_step ?l"
    by (rule reach_step, rule reach_start, rule refl, rule sl_workarounds)
  obtain m where m: "GetSampler (Some (\<lambda>_. Some 3)) default_sampler_descriptor ?l = (Some 0, m)"
      "mip_filter (sa_descriptor (snd (samplers m ! 0))) = MipFilter.kBase"
    by (simp add: GetSampler_def ApplyWorkarounds_def SamplerLibrary_def wanted_def Sampler_def)
  with samplers_shared_by_settings [OF r m(1), of None] show ?thesis by blast
qed

end
