(* ===== verification/Shader_Library.thy ===== *)
theory Shader_Library
  imports Pipeline_Descriptor
begin

text \<open>
  The library of shader functions: \<^verbatim>\<open>src/hal/shader_library_vk.{h,cc}\<close>,
  \<^verbatim>\<open>shader_key.h\<close> and \<^verbatim>\<open>shader_function_vk.{h,cc}\<close>.

  The functions a library has made are numbered in order, because pipelines and their descriptors
  may hold them after they were replaced or unregistered. Creating a module is a function from the
  code to the handle, if there is one; no function stands for a lost device. Numbers in memory are
  little endian.
\<close>

type_synonym shader_key = "string \<times> ShaderStage"

definition sk_Hash :: "hashing \<Rightarrow> shader_key \<Rightarrow> u64" where
  "sk_Hash H k = HashCombine [hash_string H (fst k), hash_nat H (val_ShaderStage (snd k))]"

definition sk_Equal :: "shader_key \<Rightarrow> shader_key \<Rightarrow> bool" where
  "sk_Equal a b \<longleftrightarrow> snd a = snd b \<and> fst a = fst b"

record shader_library =
  library_id :: u64
  table :: "(shader_key \<times> nat) list"
  made :: "(shader_function \<times> nat) list"       \<comment> \<open>functions with their modules\<close>
  sl_is_valid :: bool

definition ShaderLibrary :: "u64 \<Rightarrow> shader_library" where
  "ShaderLibrary i = \<lparr>library_id = i, table = [], made = [], sl_is_valid = False\<rparr>"

fun find_function :: "shader_key \<Rightarrow> (shader_key \<times> nat) list \<Rightarrow> nat option" where
  "find_function k [] = None"
| "find_function k ((k', f) # fs) = (if sk_Equal k' k then Some f else find_function k fs)"

definition GetFunction :: "string \<Rightarrow> ShaderStage \<Rightarrow> shader_library \<Rightarrow> nat option" where
  "GetFunction name stage l = find_function (name, stage) (table l)"

definition kSPIRVMagic :: u32 where "kSPIRVMagic = 0x07230203"

fun word_at_start :: "u8 list \<Rightarrow> u32" where
  "word_at_start (a # b # c # d # bs) =
     ucast a OR push_bit 8 (ucast b) OR push_bit 16 (ucast c) OR push_bit 24 (ucast d)"
| "word_at_start bs = 0"

definition IsMappingSPIRV :: "u8 list \<Rightarrow> bool" where
  "IsMappingSPIRV code = (if length code < 4 then False else word_at_start code = kSPIRVMagic)"

text \<open>\<open>put_function\<close> is the subscript operator of the map.\<close>

fun put_function :: "shader_key \<Rightarrow> nat \<Rightarrow> (shader_key \<times> nat) list \<Rightarrow> (shader_key \<times> nat) list" where
  "put_function k f [] = [(k, f)]"
| "put_function k f ((k', g) # fs) =
     (if sk_Equal k' k then (k', f) # fs else (k', g) # put_function k f fs)"

definition RegisterFunction ::
  "(u8 list \<Rightarrow> nat option) option \<Rightarrow> string \<Rightarrow> ShaderStage \<Rightarrow> u8 list option \<Rightarrow> shader_library \<Rightarrow>
   bool \<times> shader_library"
where
  "RegisterFunction device name stage code l =
     (case code of
        None \<Rightarrow> (False, l)
      | Some bytes \<Rightarrow>
          if \<not> IsMappingSPIRV bytes then (False, l)
          else (case device of
                  None \<Rightarrow> (False, l)
                | Some create_module \<Rightarrow>
                    (case create_module bytes of
                       None \<Rightarrow> (False, l)
                     | Some module_handle \<Rightarrow>
                         (True, l\<lparr>table := put_function (name, stage) (length (made l)) (table l),
                            made := made l @ [(\<lparr>parent_library_id = library_id l, sf_name = name,
                              sf_stage = stage\<rparr>, module_handle)]\<rparr>))))"

text \<open>The public method calls back with the result when there is a callback.\<close>

definition RegisterFunction_callback ::
  "(u8 list \<Rightarrow> nat option) option \<Rightarrow> string \<Rightarrow> ShaderStage \<Rightarrow> u8 list option \<Rightarrow> bool \<Rightarrow>
   shader_library \<Rightarrow> bool list \<times> shader_library"
where
  "RegisterFunction_callback device name stage code has_callback l =
     (case RegisterFunction device name stage code l of
        (r, m) \<Rightarrow> (if has_callback then [r] else [], m))"

definition UnregisterFunction :: "string \<Rightarrow> ShaderStage \<Rightarrow> shader_library \<Rightarrow> shader_library" where
  "UnregisterFunction name stage l =
     (if find_function (name, stage) (table l) = None then l
      else l\<lparr>table := filter (\<lambda>(k, _). \<not> sk_Equal k (name, stage)) (table l)\<rparr>)"

text \<open>The module that goes back to the device when a function dies; none when the device is gone.\<close>

definition ShaderFunction_destroy :: "bool \<Rightarrow> shader_function \<times> nat \<Rightarrow> nat list" where
  "ShaderFunction_destroy device_alive f = (if device_alive then [snd f] else [])"

inductive shl_step :: "shader_library \<Rightarrow> unit \<Rightarrow> shader_library \<Rightarrow> bool" where
  shl_register: "shl_step l () (snd (RegisterFunction device name stage code l))"
| shl_unregister: "shl_step l () (UnregisterFunction name stage l)"

subsection \<open>Lemmas\<close>

lemma sk_Equal_eq [simp]: "sk_Equal a b \<longleftrightarrow> a = b"
  by (cases a; cases b) (auto simp: sk_Equal_def)

lemma find_function_map_of: "find_function k fs = map_of fs k"
  by (induction k fs rule: find_function.induct) auto

lemma find_put [simp]: "map_of (put_function k f fs) = (map_of fs)(k \<mapsto> f)"
  by (induction k f fs rule: put_function.induct) (auto simp: fun_eq_iff)

lemma keys_put: "distinct (map fst fs) \<Longrightarrow> distinct (map fst (put_function k f fs)) \<and>
    fst ` set (put_function k f fs) = insert k (fst ` set fs)"
  by (induction k f fs rule: put_function.induct) auto

lemma map_of_filter_key: "map_of (filter (\<lambda>(k, _). k \<noteq> a) fs) = (map_of fs)(a := None)"
  by (induction fs) (auto simp: fun_eq_iff)

definition shl_inv :: "shader_library \<Rightarrow> bool" where
  "shl_inv l \<longleftrightarrow> distinct (map fst (table l)) \<and> \<not> sl_is_valid l \<and>
     (\<forall>name stage n. GetFunction name stage l = Some n \<longrightarrow> n < length (made l) \<and>
        fst (made l ! n) = \<lparr>parent_library_id = library_id l, sf_name = name, sf_stage = stage\<rparr>) \<and>
     (\<forall>f \<in> set (made l). parent_library_id (fst f) = library_id l)"

lemma RegisterFunction_cases:
  obtains (failed) "RegisterFunction device name stage code l = (False, l)"
  | (registered) bytes m h where "code = Some bytes" "IsMappingSPIRV bytes" "device = Some m" "m bytes = Some h"
      "RegisterFunction device name stage code l =
       (True, l\<lparr>table := put_function (name, stage) (length (made l)) (table l),
         made := made l @ [(\<lparr>parent_library_id = library_id l, sf_name = name, sf_stage = stage\<rparr>, h)]\<rparr>)"
proof (cases "\<exists>bytes m h. code = Some bytes \<and> IsMappingSPIRV bytes \<and> device = Some m \<and> m bytes = Some h")
  case True
  then obtain bytes m h where b: "code = Some bytes" "IsMappingSPIRV bytes" "device = Some m" "m bytes = Some h"
    by blast
  show ?thesis by (rule registered [OF b]) (simp add: RegisterFunction_def b)
next
  case False
  then have "RegisterFunction device name stage code l = (False, l)"
    by (auto simp: RegisterFunction_def split: option.splits)
  then show ?thesis by (rule failed)
qed

lemma shl_inv_register: "shl_inv l \<Longrightarrow> shl_inv (snd (RegisterFunction device name stage code l))"
proof (cases rule: RegisterFunction_cases [of device name stage code l])
  case (registered bytes m h)
  assume "shl_inv l"
  then show ?thesis using registered(5) keys_put [of "table l"]
    by (auto simp: shl_inv_def GetFunction_def find_function_map_of nth_append less_Suc_eq)
qed simp

lemma shl_inv_unregister: "shl_inv l \<Longrightarrow> shl_inv (UnregisterFunction name stage l)"
  by (auto simp: UnregisterFunction_def shl_inv_def GetFunction_def find_function_map_of
      map_of_filter_key distinct_map_filter)

interpretation shl: transition_system "\<lambda>l. \<exists>i. l = ShaderLibrary i" shl_step shl_inv
proof
  show "\<exists>i. l = ShaderLibrary i \<Longrightarrow> shl_inv l" for l
    by (auto simp: ShaderLibrary_def shl_inv_def GetFunction_def)
  show "shl_inv m" if "shl_inv l" "shl_step l e m" for l e m
    using that(2) by (cases rule: shl_step.cases)
      (auto intro: shl_inv_register shl_inv_unregister that(1))
qed

text \<open>Nothing makes a library valid.\<close>

lemma library_never_valid:
  "reachable_from (\<lambda>l. \<exists>i. l = ShaderLibrary i) shl_step l \<Longrightarrow> \<not> sl_is_valid l"
  using shl.reachable_inv by (auto simp: shl_inv_def)

text \<open>
  A function that is registered again is another object with another module, but it equals
  the old one, and so do the descriptors made with them: a cache of pipelines answers with the
  pipeline of the old code.
\<close>

lemma replaced_function_is_equal:
  assumes l: "reachable_from (\<lambda>l. \<exists>i. l = ShaderLibrary i) shl_step l"
    and old: "GetFunction name stage l = Some n"
    and new: "RegisterFunction device name stage code l = (True, m)" "GetFunction name stage m = Some n'"
    and s: "\<forall>i < length (made m). function_at s i = fst (made m ! i)"
    and stage: "stage \<noteq> ShaderStage.kUnknown"
  shows "n' \<noteq> n \<and> sf_IsEqual (function_at s n) (function_at s n') \<and>
    pd_IsEqual (=) s (AddStageEntrypoint s (Some n) PipelineDescriptor) (AddStageEntrypoint s (Some n') PipelineDescriptor)"
proof -
  have inv: "shl_inv l" by (rule shl.reachable_inv [OF l])
  have n: "n < length (made l)"
      "fst (made l ! n) = \<lparr>parent_library_id = library_id l, sf_name = name, sf_stage = stage\<rparr>"
    using inv old by (auto simp: shl_inv_def)
  obtain h where m: "m = l\<lparr>table := put_function (name, stage) (length (made l)) (table l),
         made := made l @ [(\<lparr>parent_library_id = library_id l, sf_name = name, sf_stage = stage\<rparr>, h)]\<rparr>"
    by (cases rule: RegisterFunction_cases [of device name stage code l]) (use new(1) in auto)
  then have n': "n' = length (made l)" using new(2) by (simp add: GetFunction_def find_function_map_of)
  have "function_at s n = \<lparr>parent_library_id = library_id l, sf_name = name, sf_stage = stage\<rparr>"
      "function_at s n' = \<lparr>parent_library_id = library_id l, sf_name = name, sf_stage = stage\<rparr>"
    using s n m n' by (auto simp: nth_append)
  then show ?thesis using n(1) n' stage
    by (simp add: pd_IsEqual_iff same_values_def AddStageEntrypoint_def PipelineDescriptor_def
        entry_values_def list.rel_eq)
qed

subsection \<open>Properties\<close>

text \<open>
  The shader library answers with the latest function that was registered under a name and
  stage: registering succeeds exactly for code that starts with the magic number of SPIR-V and
  that the device accepts, and then the lookup gives a new function of this library with this
  name and stage and leaves every other lookup alone; a failure changes nothing, and an unregistered
  function is not found.
\<close>

theorem latest_function_found:
  assumes "reachable_from (\<lambda>l. \<exists>i. l = ShaderLibrary i) shl_step l"
    and r: "RegisterFunction device name stage code l = (ok, m)"
  shows "(ok \<longleftrightarrow> (\<exists>bytes create h. code = Some bytes \<and> 4 \<le> length bytes \<and>
        word_at_start bytes = kSPIRVMagic \<and> device = Some create \<and> create bytes = Some h)) \<and>
    (ok \<longrightarrow> GetFunction name stage m = Some (length (made l)) \<and>
       fst (made m ! length (made l)) =
         \<lparr>parent_library_id = library_id l, sf_name = name, sf_stage = stage\<rparr>) \<and>
    (\<not> ok \<longrightarrow> m = l) \<and>
    (\<forall>name' stage'. (name', stage') \<noteq> (name, stage) \<longrightarrow>
       GetFunction name' stage' m = GetFunction name' stage' l) \<and>
    (\<forall>name' stage'. GetFunction name' stage' (UnregisterFunction name stage m) =
       (if (name', stage') = (name, stage) then None else GetFunction name' stage' m)) \<and>
    (\<forall>name' stage' n. GetFunction name' stage' m = Some n \<longrightarrow> sf_name (fst (made m ! n)) = name' \<and>
       sf_stage (fst (made m ! n)) = stage')"
proof -
  have "shl_inv m" using shl_inv_register [OF shl.reachable_inv [OF assms(1)], of device name stage code] r by simp
  then have "\<forall>name' stage' n. GetFunction name' stage' m = Some n \<longrightarrow> sf_name (fst (made m ! n)) = name' \<and>
       sf_stage (fst (made m ! n)) = stage'" by (simp add: shl_inv_def)
  moreover have "\<forall>name' stage'. GetFunction name' stage' (UnregisterFunction name stage m) =
       (if (name', stage') = (name, stage) then None else GetFunction name' stage' m)"
    by (auto simp: UnregisterFunction_def GetFunction_def find_function_map_of map_of_filter_key)
  moreover have "ok \<longleftrightarrow> (\<exists>bytes create h. code = Some bytes \<and> 4 \<le> length bytes \<and>
        word_at_start bytes = kSPIRVMagic \<and> device = Some create \<and> create bytes = Some h)"
    using r by (auto simp: RegisterFunction_def IsMappingSPIRV_def split: option.splits if_splits)
  moreover have "(ok \<longrightarrow> GetFunction name stage m = Some (length (made l)) \<and>
       fst (made m ! length (made l)) =
         \<lparr>parent_library_id = library_id l, sf_name = name, sf_stage = stage\<rparr>) \<and>
    (\<not> ok \<longrightarrow> m = l) \<and>
    (\<forall>name' stage'. (name', stage') \<noteq> (name, stage) \<longrightarrow>
       GetFunction name' stage' m = GetFunction name' stage' l)"
    by (cases rule: RegisterFunction_cases [of device name stage code l])
      (use r in \<open>auto simp: GetFunction_def find_function_map_of\<close>)
  ultimately show ?thesis by blast
qed

theorem latest_function_found_witness:
  "\<exists>m. RegisterFunction (Some (\<lambda>_. Some 9)) ''main'' ShaderStage.kVertex (Some [3, 2, 0x23, 7]) (ShaderLibrary 4) = (True, m) \<and>
     GetFunction ''main'' ShaderStage.kVertex m = Some 0 \<and> GetFunction ''main'' ShaderStage.kFragment m = None"
proof -
  have spirv: "IsMappingSPIRV [3, 2, 0x23, 7]" by code_simp
  obtain m where m: "RegisterFunction (Some (\<lambda>_. Some 9)) ''main'' ShaderStage.kVertex (Some [3, 2, 0x23, 7])
      (ShaderLibrary 4) = (True, m)"
    by (simp add: RegisterFunction_def spirv)
  have "reachable_from (\<lambda>l. \<exists>i. l = ShaderLibrary i) shl_step (ShaderLibrary 4)"
    by (rule reach_start) blast
  from latest_function_found [OF this m] show ?thesis
    using m by (auto simp: ShaderLibrary_def GetFunction_def)
qed

end
