(* ===== verification/Spec2Isabelle.thy ===== *)
theory Spec2Isabelle
  imports Task_Order Thread_Merger Message_Loop Concurrent_Loop Time Command_Line Base32
    Codecs Rect Rational Descriptors Formats_Vk Driver_Info Host_Buffer_Props Render_Target_Props
    Capabilities_Props Fence_Waiter Pipeline_Cache Compile_Queue Resource_Manager Descriptor_Pool
    Ref_Counted Weak_Ptr Synchronization Command_Pool Blit_Pass Render_Pass_Begin Compute_Pass Context_Vk Command_Queue Surface Swapchain Pipeline_Library
    Samplers Shader_Library
begin

text \<open>
  The ogre repository is a rendering library over Vulkan with the support library it was built
  on. This development models the parts that carry its own logic, as HOL functions and step
  relations, and proves what makes them correct.

  \<^bold>\<open>The program.\<close> Three layers, each using the ones before it.

  \<^item> \<^verbatim>\<open>src/fml\<close>: threads and what they run. A message loop owns a queue of
    tasks in a table shared by all loops; queues can be merged so that one thread runs the tasks
    of several, and a merger leases that for a number of frames. Around it: a pool of workers,
    reference counting and weak pointers, events, latches and switches, time, the command line
    and small codecs.
  \<^item> \<^verbatim>\<open>src/base\<close>, \<^verbatim>\<open>src/geometry\<close>, \<^verbatim>\<open>src/core\<close>:
    allocations, integer geometry with saturation, and the descriptors of textures, samplers,
    buffers and pipelines.
  \<^item> \<^verbatim>\<open>src/hal\<close>: the device. The context picks a device by its
    capabilities; textures, buffers and render targets are made by an allocator; passes record
    commands into command buffers that come from recycled pools and keep alive what they use; a
    waiter thread runs a callback for every finished submission, which gives the objects back to
    the resource manager and the pools.

  \<^bold>\<open>Conventions.\<close> \<open>Prelude\<close> has what all theories share: the sum type \<open>'a result\<close> whose errors
  (\<open>fault\<close>) are the ways the C++ program can stop (a failed CHECK or DCHECK, \<open>std::out_of_range\<close>,
  undefined behaviour), the bind \<open>rbind\<close> with its simplification rules, sorted association lists
  for \<open>std::map\<close>, the type synonyms of the machine words, and the locale \<open>transition_system\<close> with the
  induction over reachable states, which every state machine below interprets. A class is a record
  of its fields and a method a function that returns the changed record. What one critical section
  does is one atomic step; threads are the interleavings of their steps. Integers are words of
  their width where the code lets them wrap, and integers with an error for overflow where overflow
  is undefined; the keys of pipelines, counted with 64 bits in the code, are left unbounded. Handles
  of Vulkan are numbers; where the code checks a buffer against null, zero is the null handle. The
  answers of what is not in the repository (the Vulkan driver, the memory
  allocator, the operating system, \<open>std::hash\<close>) are arguments; where a property needs a promise of
  theirs it is a hypothesis of it, with a witness.

  \<^bold>\<open>Theories of \<^verbatim>\<open>src/fml\<close>.\<close>

  \<^item> \<open>Task_Source\<close> (\<^verbatim>\<open>task_source.cc\<close>, \<^verbatim>\<open>delayed_task.cc\<close>),
    \<open>Task_Queues\<close> (\<^verbatim>\<open>message_loop_task_queues.cc\<close>): the record \<open>task_queue_entry\<close>
    and the table of entries with one definition per method; \<open>Task_Queues_Inv\<close> has the invariant
    (a queue is free, an owner or subsumed, never two of them) and its preservation;
    \<open>Task_Queues_Props\<close> the state machine and what merging, the choice of the next task and the
    wake-ups guarantee; \<open>Task_Order\<close> follows whole histories and shows that tasks run in the order
    of their time and registration, until the 32-bit order counter wraps around.
  \<^item> \<open>Thread_Merger\<close> (\<^verbatim>\<open>shared_thread_merger.cc\<close>,
    \<^verbatim>\<open>raster_thread_merger.cc\<close>): the lease table over the task queues; merged
    exactly while some lease is held, and a lease lasts its term.
  \<^item> \<open>Message_Loop\<close> (\<^verbatim>\<open>message_loop_impl.cc\<close>,
    \<^verbatim>\<open>task_runner.cc\<close>): flushing runs every due task once, in order, and ends, unless a closure keeps posting
    tasks that are due.
  \<^item> \<open>Concurrent_Loop\<close> (\<^verbatim>\<open>concurrent_message_loop.cc\<close>): no task is lost or
    run twice by the workers.
  \<^item> \<open>Ref_Counted\<close>, \<open>Weak_Ptr\<close> (\<^verbatim>\<open>memory/\<close>): pointers in slots over a store
    of objects; counts are exact and weak pointers never dangle.
  \<^item> \<open>Synchronization\<close> (\<^verbatim>\<open>synchronization/\<close>), \<open>Time\<close>, \<open>Command_Line\<close>,
    \<open>Base32\<close>, \<open>Codecs\<close> (hex, trie, hashes): round trips and functional behaviour. \<open>Status\<close>
    (\<^verbatim>\<open>status.h\<close>, \<^verbatim>\<open>status_or.h\<close>, \<^verbatim>\<open>unique_object.h\<close>): results with an error
    code, and handles that are freed once.

  \<^bold>\<open>Theories of \<^verbatim>\<open>src/base\<close>, \<^verbatim>\<open>src/geometry\<close> and \<^verbatim>\<open>src/core\<close>.\<close>

  \<^item> \<open>Allocation\<close> (\<^verbatim>\<open>base/allocation.cc\<close>, \<^verbatim>\<open>fml/mapping.cc\<close>),
    \<open>Rect\<close> (\<^verbatim>\<open>rect.h\<close>, \<^verbatim>\<open>size.h\<close>, \<^verbatim>\<open>point.h\<close>,
    \<^verbatim>\<open>saturated_math.h\<close> at 64 bits), \<open>Rational\<close>, \<open>Formats\<close>, \<open>Descriptors\<close>
    (\<^verbatim>\<open>core/\<close>): set operations on rectangles mean what they say on points;
    keys identify samplers; mip chains end.

  \<^bold>\<open>Theories of \<^verbatim>\<open>src/hal\<close>.\<close>

  \<^item> \<open>Formats_Vk\<close>, \<open>Driver_Info\<close>, \<open>Capabilities\<close> with \<open>Capabilities_Props\<close>: the translation to Vulkan,
    the recognition of drivers, and that an accepted device is usable and described correctly.
  \<^item> \<open>Render_Target\<close> with \<open>Render_Target_Props\<close>: render targets only hold valid attachments and the
    offscreen targets are valid. \<open>Image_Layouts\<close> and \<open>Blit_Pass\<close>: a command buffer is the list of
    its commands, and the layouts that textures remember are those the commands leave.
  \<^item> \<open>Host_Buffer\<close> with \<open>Host_Buffer_Props\<close>: a refinement of a log of emplaced blocks.
  \<^item> \<open>Fence_Waiter\<close>, \<open>Resource_Manager\<close>, \<open>Command_Pool\<close>, \<open>Descriptor_Pool\<close>, \<open>Compile_Queue\<close>: step relations
    of the threads; every callback, destructor and job runs exactly once and nothing recycled is
    shared. \<open>Pipeline_Cache\<close>: what is written to disk is read back.
  \<^item> \<open>Render_Pass_Builder\<close> with \<open>Render_Pass_Props\<close> (\<^verbatim>\<open>render_pass_builder_vk.cc\<close>,
    \<^verbatim>\<open>render_pass_vk.cc\<close>): the render pass, the framebuffer and the clear values made from a
    render target describe the same attachments. \<open>Resource_Binder\<close>, \<open>Render_Pass\<close>,
    \<open>Render_Pass_Begin\<close>: the encoder with its workspaces, refined to a list of draws each of which
    uses what was bound for it; the start of a pass. \<open>Compute_Pass\<close>: dispatches end and stay within
    the limits.
  \<^item> \<open>Pipeline_Descriptor\<close> (\<^verbatim>\<open>pipeline_descriptor.cc\<close>, \<^verbatim>\<open>vertex_descriptor.cc\<close>,
    \<^verbatim>\<open>compute_pipeline_descriptor.cc\<close>, \<^verbatim>\<open>base/comparable.h\<close>): descriptors over a store of
    the functions they point to, lawful keys of hash maps. \<open>Pipeline_Vk\<close>
    (\<^verbatim>\<open>pipeline_vk.cc\<close>): what a pipeline is created from, and that the pass it is compiled
    against is compatible with the passes it is used in. \<open>Pipeline_Library\<close>
    (\<^verbatim>\<open>pipeline_library_vk.cc\<close>, \<^verbatim>\<open>pipeline.{h,cc}\<close>): the futures of pipelines over
    the steps of \<open>Compile_Queue\<close>; every promise is fulfilled once, and who waits for a job that
    nobody has taken performs it.
  \<^item> \<open>Samplers\<close> (\<^verbatim>\<open>sampler_vk.cc\<close>, \<^verbatim>\<open>yuv_conversion_vk.cc\<close> and their
    libraries), \<open>Shader_Library\<close> (\<^verbatim>\<open>shader_library_vk.cc\<close>): samplers are shared exactly
    by their settings; the latest function registered under a name and stage is found.
  \<^item> \<open>Context_Vk\<close> (\<^verbatim>\<open>context_vk.cc\<close>, \<^verbatim>\<open>queue_vk.cc\<close>): the setup guard by guard and the
    queues it picks. \<open>Command_Queue\<close> (\<^verbatim>\<open>command_queue_vk.cc\<close>): submission composed with
    \<open>Fence_Waiter\<close>, so that completion callbacks run once, and batching, equivalent to single
    submissions. \<open>Surface\<close>, \<open>Swapchain\<close> (\<^verbatim>\<open>swapchain/\<close>): surfaces of images, frames in
    flight, and the retries after a resize.

  \<^bold>\<open>Bounds and fuel.\<close> Loops recurse over lists or have a measure, but for two that run on fuel. The
  flush of a message loop (\<open>Message_Loop.FlushTasks\<close>) calls closures, which may post tasks without
  end: one turn more than there are due tasks is enough when they post only later ones, and no fuel
  is when a closure reposts itself (\<open>reposting_never_returns\<close>); both are proved there. For
  \<open>Base32.Base32Encode\<close> two turns for each byte of the input and two more are always enough, as its
  round trip shows. Two loops may run forever and are \<open>partial_function (option)\<close>, where not
  returning is \<open>None\<close>: the halving of a dispatch (\<open>Compute_Pass.halve\<close>), which returns when the limits
  of the device are positive, and the retries of an acquisition (\<open>Swapchain.sw_acquire\<close>), which are
  limited except on Android. A wait for a fence that is never signalled is \<open>None\<close> too. The loop of
  a waiter or worker thread is not a function but a sequence of steps; that the work gets done is
  proved as steps that are enabled and counts that decrease.

  \<^bold>\<open>Not modelled.\<close> Floating point geometry (colours, matrices, quaternions, paths, curves, round
  rectangles): its results depend on IEEE rounding and libm, for which the allowed library has no
  theory, and the same formulas over the reals would be another program. The platform code
  (files, threads, timers, JNI, Android hardware buffers): system calls with little logic around
  them. Tracing, labels and debug reports: no effect on what is rendered. The builders of pipelines
  from reflected shaders: templates over generated headers. Memory allocation by the driver and its allocator: calls
  with copied fields. The manifest
  lists each file with its reason.
\<close>

end
